(* ===== verification/Prelude.thy ===== *)
theory Prelude
  imports Main "HOL-Library.Word"
begin

text \<open>
  Shared vocabulary of the development: the machine-integer type names, results and faults,
  checked arithmetic of the source's \<^verbatim>\<open>usize\<close> and \<^verbatim>\<open>u64\<close> counters, slice indexing and
  slice binary search of the Rust standard library, and the list facts that the component
  theories share.

  Conventions.
  \<^item> A Rust \<^verbatim>\<open>Result<T, E>\<close> is \<open>'e + 'a\<close>, \<open>Inl\<close> being the error. Code that can also panic
    (slice indexing, \<^verbatim>\<open>expect\<close>) returns \<open>'e fault + 'a\<close>, where \<open>Panicked\<close> is the panic.
  \<^item> \<open>usize\<close> is 64 bits wide. Lengths and counters are natural numbers; every
    \<^verbatim>\<open>checked_add\<close>, \<^verbatim>\<open>checked_mul\<close>, \<^verbatim>\<open>saturating_add\<close> and \<^verbatim>\<open>try_from\<close> writes its bound out.
  \<^item> Identifiers, bit patterns and dense node numbers are words of the source's width.
\<close>

section \<open>Machine integers\<close>

type_synonym u8 = "8 word"
type_synonym u32 = "32 word"
type_synonym u64 = "64 word"
type_synonym bytes = "u8 list"

definition U64_MAX :: nat where
  "U64_MAX = 2 ^ 64 - 1"

definition U32_MAX :: nat where
  "U32_MAX = 2 ^ 32 - 1"

definition checked_add :: "nat \<Rightarrow> nat \<Rightarrow> nat option" where
  "checked_add a b = (if a + b \<le> U64_MAX then Some (a + b) else None)"

definition checked_mul :: "nat \<Rightarrow> nat \<Rightarrow> nat option" where
  "checked_mul a b = (if a * b \<le> U64_MAX then Some (a * b) else None)"

definition saturating_add :: "nat \<Rightarrow> nat \<Rightarrow> nat" where
  "saturating_add a b = min (a + b) U64_MAX"

text \<open>The theorem collections of the development: the arithmetic of the counters and the
  equations of the result monad.\<close>

named_theorems checked_simps \<open>unfolding rules of checked machine arithmetic\<close>
named_theorems result_simps \<open>equations of results and faults\<close>

lemmas checked_defs [checked_simps] = checked_add_def checked_mul_def saturating_add_def

lemma checked_add_Some_iff [checked_simps]:
  "checked_add a b = Some c \<longleftrightarrow> c = a + b \<and> a + b \<le> U64_MAX"
  by (auto simp: checked_add_def)

lemma checked_mul_Some_iff [checked_simps]:
  "checked_mul a b = Some c \<longleftrightarrow> c = a * b \<and> a * b \<le> U64_MAX"
  by (auto simp: checked_mul_def)

lemma saturating_add_exact: "a + b \<le> U64_MAX \<Longrightarrow> saturating_add a b = a + b"
  by (simp add: saturating_add_def)

text \<open>Which fallible reservations succeed, by structure and requested capacity.\<close>

type_synonym reserve = "string \<Rightarrow> nat \<Rightarrow> bool"

section \<open>Results and faults\<close>

datatype 'e fault = Panicked | Failed 'e

definition rbind :: "'e + 'a \<Rightarrow> ('a \<Rightarrow> 'e + 'b) \<Rightarrow> 'e + 'b" where
  "rbind m f = (case m of Inl e \<Rightarrow> Inl e | Inr x \<Rightarrow> f x)"

definition ok_or :: "'a option \<Rightarrow> 'e \<Rightarrow> 'e + 'a" where
  "ok_or m e = (case m of None \<Rightarrow> Inl e | Some x \<Rightarrow> Inr x)"

definition map_err :: "('e \<Rightarrow> 'f) \<Rightarrow> 'e + 'a \<Rightarrow> 'f + 'a" where
  "map_err f m = (case m of Inl e \<Rightarrow> Inl (f e) | Inr x \<Rightarrow> Inr x)"

definition index :: "'a list \<Rightarrow> nat \<Rightarrow> 'e fault + 'a" where
  "index xs i = (if i < length xs then Inr (xs ! i) else Inl Panicked)"

definition get :: "'a list \<Rightarrow> nat \<Rightarrow> 'a option" where
  "get xs i = (if i < length xs then Some (xs ! i) else None)"

definition is_ok :: "'e + 'a \<Rightarrow> bool" where
  "is_ok m = (case m of Inl _ \<Rightarrow> False | Inr _ \<Rightarrow> True)"

lemma rbind_simps [simp, result_simps]:
  "rbind (Inl e) f = Inl e"
  "rbind (Inr x) f = f x"
  by (simp_all add: rbind_def)

lemma ok_or_simps [simp, result_simps]:
  "ok_or None e = Inl e"
  "ok_or (Some x) e = Inr x"
  by (simp_all add: ok_or_def)

lemma map_err_simps [simp, result_simps]:
  "map_err f (Inl e) = Inl (f e)"
  "map_err f (Inr x) = Inr x"
  by (simp_all add: map_err_def)

lemma is_ok_simps [simp, result_simps]:
  "\<not> is_ok (Inl e)"
  "is_ok (Inr x)"
  by (simp_all add: is_ok_def)

lemma rbind_Inr_iff: "rbind m f = Inr y \<longleftrightarrow> (\<exists>x. m = Inr x \<and> f x = Inr y)"
  by (cases m) simp_all

lemma rbind_InrE:
  assumes "rbind m f = Inr y"
  obtains x where "m = Inr x" "f x = Inr y"
  using assms by (auto simp: rbind_Inr_iff)

lemma rbind_assoc: "rbind (rbind m f) g = rbind m (\<lambda>x. rbind (f x) g)"
  by (cases m) simp_all

lemma rbind_cong: "m = m' \<Longrightarrow> (\<And>x. m' = Inr x \<Longrightarrow> f x = g x) \<Longrightarrow> rbind m f = rbind m' g"
  by (cases m') simp_all

lemma ok_or_Inr_iff [simp]: "ok_or m e = Inr x \<longleftrightarrow> m = Some x"
  by (cases m) simp_all

lemma map_err_Inr_iff [simp]: "map_err f m = Inr x \<longleftrightarrow> m = Inr x"
  by (cases m) simp_all

lemma index_in [simp]: "i < length xs \<Longrightarrow> index xs i = Inr (xs ! i)"
  by (simp add: index_def)

lemma index_Inr_iff: "index xs i = Inr x \<longleftrightarrow> i < length xs \<and> xs ! i = x"
  by (auto simp: index_def)

lemma get_in [simp]: "i < length xs \<Longrightarrow> get xs i = Some (xs ! i)"
  by (simp add: get_def)

lemma get_Some_iff: "get xs i = Some x \<longleftrightarrow> i < length xs \<and> xs ! i = x"
  by (auto simp: get_def)

text \<open>Running a fallible action over a list and collecting its results, stopping at the
  first error, as a \<^verbatim>\<open>for\<close> loop with \<^verbatim>\<open>?\<close> does.\<close>

fun fold_result :: "('a \<Rightarrow> 's \<Rightarrow> 'e + 's) \<Rightarrow> 'a list \<Rightarrow> 's \<Rightarrow> 'e + 's" where
  "fold_result f [] s = Inr s"
| "fold_result f (x # xs) s = rbind (f x s) (fold_result f xs)"

lemma fold_result_append:
  "fold_result f (xs @ ys) s = rbind (fold_result f xs s) (fold_result f ys)"
  by (induction xs arbitrary: s) (simp_all add: rbind_assoc cong: rbind_cong)

lemma fold_result_invariant:
  assumes "fold_result f xs s = Inr t" and "P s"
    and "\<And>x s s'. x \<in> set xs \<Longrightarrow> P s \<Longrightarrow> f x s = Inr s' \<Longrightarrow> P s'"
  shows "P t"
  using assms
proof (induction xs arbitrary: s)
  case Nil
  then show ?case by simp
next
  case (Cons x xs)
  from Cons.prems(1) obtain s' where s': "f x s = Inr s'" "fold_result f xs s' = Inr t"
    by (auto elim: rbind_InrE)
  have "P s'" using Cons.prems(2,3) s'(1) by auto
  with s'(2) Cons.prems(3) show ?case by (intro Cons.IH [of s']) auto
qed

lemma fold_result_total:
  assumes "P s" and "\<And>x s. x \<in> set xs \<Longrightarrow> P s \<Longrightarrow> \<exists>s'. f x s = Inr s' \<and> P s'"
  shows "\<exists>t. fold_result f xs s = Inr t \<and> P t"
  using assms
proof (induction xs arbitrary: s)
  case Nil
  then show ?case by simp
next
  case (Cons x xs)
  from Cons.prems obtain s' where s': "f x s = Inr s'" "P s'" by auto
  have "\<exists>t. fold_result f xs s' = Inr t \<and> P t"
    using Cons.prems(2) by (intro Cons.IH s'(2)) auto
  with s'(1) show ?case by simp
qed

lemma fold_result_check: "fold_result f xs () = Inr u \<longleftrightarrow> (\<forall>x \<in> set xs. f x () = Inr ())"
  by (induction xs) (auto simp: rbind_Inr_iff)

text \<open>A computation ensures \<open>P\<close> of its value, or its error satisfies \<open>E\<close>.\<close>

definition ensures :: "('e \<Rightarrow> bool) \<Rightarrow> ('a \<Rightarrow> bool) \<Rightarrow> 'e + 'a \<Rightarrow> bool" where
  "ensures E P m = (case m of Inl e \<Rightarrow> E e | Inr x \<Rightarrow> P x)"

lemma ensures_simps [simp]:
  "ensures E P (Inl e) \<longleftrightarrow> E e"
  "ensures E P (Inr x) \<longleftrightarrow> P x"
  "ensures E P (rbind m f) \<longleftrightarrow> ensures E (\<lambda>x. ensures E P (f x)) m"
  "ensures E P (ok_or q e) \<longleftrightarrow> (case q of None \<Rightarrow> E e | Some x \<Rightarrow> P x)"
  by (cases m; simp add: ensures_def ok_or_def split: option.splits)+

lemma ensures_mono:
  "ensures E P m \<Longrightarrow> (\<And>x. P x \<Longrightarrow> Q x) \<Longrightarrow> ensures E Q m"
  by (cases m) simp_all

lemma ensures_InrD: "ensures E P m \<Longrightarrow> m = Inr x \<Longrightarrow> P x"
  by simp

lemma ensures_fold_result:
  assumes "P [] s"
    and "\<And>done x rest s. xs = done @ x # rest \<Longrightarrow> P done s \<Longrightarrow> ensures E (P (done @ [x])) (f x s)"
  shows "ensures E (P xs) (fold_result f xs s)"
proof -
  have "ensures E (P (done @ ys)) (fold_result f ys s)"
    if "xs = done @ ys" "P done s" for "done" ys s
    using that
  proof (induction ys arbitrary: "done" s)
    case (Cons y ys)
    have "ensures E (P (done @ [y])) (f y s)" using assms(2) Cons.prems by blast
    then show ?case
    proof (simp, rule ensures_mono)
      fix s' assume "P (done @ [y]) s'"
      with Cons.IH [of "done @ [y]" s'] Cons.prems(1)
      show "ensures E (P (done @ y # ys)) (fold_result f ys s')" by simp
    qed
  qed simp
  from this [of "[]" xs s] assms(1) show ?thesis by simp
qed

text \<open>Which errors a computation can have.\<close>

definition errs_in :: "('e \<Rightarrow> bool) \<Rightarrow> 'e + 'a \<Rightarrow> bool" where
  "errs_in P m \<longleftrightarrow> (\<forall>e. m = Inl e \<longrightarrow> P e)"

lemma errs_in_simps [simp]:
  "errs_in P (Inl e) \<longleftrightarrow> P e"
  "errs_in P (Inr x)"
  "errs_in P (ok_or q e) \<longleftrightarrow> q \<noteq> None \<or> P e"
  by (auto simp: errs_in_def ok_or_def split: option.splits)

lemma errs_in_rbind:
  "errs_in P m \<Longrightarrow> (\<And>x. m = Inr x \<Longrightarrow> errs_in P (f x)) \<Longrightarrow> errs_in P (rbind m f)"
  by (cases m) (auto simp: errs_in_def)

lemma errs_in_fold_result:
  assumes "\<And>x s. x \<in> set xs \<Longrightarrow> errs_in P (f x s)"
  shows "errs_in P (fold_result f xs s)"
  using assms by (induction xs arbitrary: s) (auto intro: errs_in_rbind)

section \<open>Adjacent pairs\<close>

text \<open>\<^verbatim>\<open>slice.windows(2)\<close>.\<close>

definition windows2 :: "'a list \<Rightarrow> ('a \<times> 'a) list" where
  "windows2 xs = zip xs (tl xs)"

lemma windows2_simps [simp]:
  "windows2 [] = []"
  "windows2 [x] = []"
  "windows2 (x # y # zs) = (x, y) # windows2 (y # zs)"
  by (simp_all add: windows2_def)

lemma windows2_nth: "(a, b) \<in> set (windows2 xs) \<longleftrightarrow>
    (\<exists>i. Suc i < length xs \<and> xs ! i = a \<and> xs ! Suc i = b)"
  by (auto simp: windows2_def in_set_zip nth_tl less_diff_conv)

lemma sorted_windows2:
  fixes xs :: "'a::linorder list"
  shows "(\<forall>(a, b) \<in> set (windows2 xs). a \<le> b) \<longleftrightarrow> sorted xs"
  by (induction xs rule: induct_list012) (auto intro: order_trans)

lemma strict_sorted_windows2:
  fixes xs :: "'a::linorder list"
  shows "(\<forall>(a, b) \<in> set (windows2 xs). a < b) \<longleftrightarrow> sorted_wrt (<) xs"
  by (induction xs rule: induct_list012) (auto intro: less_trans)

lemma distinct_windows2:
  fixes xs :: "'a::linorder list"
  assumes "sorted xs"
  shows "(\<forall>(a, b) \<in> set (windows2 xs). a \<noteq> b) \<longleftrightarrow> distinct xs"
  using assms
proof (induction xs rule: induct_list012)
  case (3 x y zs)
  show ?case
  proof
    assume *: "\<forall>(a, b) \<in> set (windows2 (x # y # zs)). a \<noteq> b"
    then have "distinct (y # zs)" using 3 by simp
    moreover have "x < y" using * "3.prems" by fastforce
    moreover have "\<forall>z \<in> set zs. y \<le> z" using "3.prems" by auto
    ultimately show "distinct (x # y # zs)" by auto
  next
    assume "distinct (x # y # zs)"
    with 3 show "\<forall>(a, b) \<in> set (windows2 (x # y # zs)). a \<noteq> b" by auto
  qed
qed simp_all

section \<open>Binary search on a sorted slice\<close>

text \<open>
  \<^verbatim>\<open>[T]::binary_search\<close> of the standard library: the range \<open>[base, base + len)\<close> is halved
  until one element is left, which is then compared for equality.
\<close>

function bs_loop :: "'a::linorder list \<Rightarrow> 'a \<Rightarrow> nat \<Rightarrow> nat \<Rightarrow> nat" where
  "bs_loop xs x base len =
     (if len \<le> 1 then base
      else let half = len div 2; mid = base + half in
        bs_loop xs x (if xs ! mid > x then base else mid) (len - half))"
  by pat_completeness auto
termination
  by (relation "measure (\<lambda>(xs, x, base, len). len)") auto

declare bs_loop.simps [simp del]

definition binary_search :: "'a::linorder list \<Rightarrow> 'a \<Rightarrow> nat option" where
  "binary_search xs x =
     (if xs = [] then None
      else let base = bs_loop xs x 0 (length xs) in
        if xs ! base = x then Some base else None)"

lemma bs_loop_bounds:
  "0 < len \<Longrightarrow> base \<le> bs_loop xs x base len \<and> bs_loop xs x base len < base + len"
proof (induction xs x base len rule: bs_loop.induct)
  case (1 xs x base len)
  show ?case
  proof (cases "len \<le> 1")
    case True
    with "1.prems" show ?thesis by (simp add: bs_loop.simps [of xs x base len])
  next
    case False
    let ?b = "if xs ! (base + len div 2) > x then base else base + len div 2"
    have "?b \<le> bs_loop xs x ?b (len - len div 2) \<and>
        bs_loop xs x ?b (len - len div 2) < ?b + (len - len div 2)"
      using "1.IH" [OF False refl refl] False by fastforce
    moreover have "base \<le> ?b" "?b + (len - len div 2) \<le> base + len" using False by auto
    ultimately show ?thesis using False
      by (simp add: bs_loop.simps [of xs x base len] Let_def split: if_splits)
  qed
qed

lemma bs_loop_finds:
  assumes "sorted xs" "base + len \<le> length xs" "k < len" "xs ! (base + k) = x"
  shows "xs ! bs_loop xs x base len = x"
  using assms
proof (induction xs x base len arbitrary: k rule: bs_loop.induct)
  case (1 xs x base len)
  show ?case
  proof (cases "len \<le> 1")
    case True
    with "1.prems" have "k = 0" by simp
    with True "1.prems" show ?thesis by (simp add: bs_loop.simps [of xs x base len])
  next
    case False
    let ?m = "base + len div 2"
    let ?b = "if xs ! ?m > x then base else ?m"
    have IH: "k' < len - len div 2 \<Longrightarrow> xs ! (?b + k') = x \<Longrightarrow>
        xs ! bs_loop xs x ?b (len - len div 2) = x" for k'
      using "1.IH" [OF False refl refl, of k'] "1.prems"(1,2) False by fastforce
    have "\<exists>k' < len - len div 2. xs ! (?b + k') = x"
    proof (cases "xs ! ?m > x")
      case True
      have "k < len div 2"
      proof (rule ccontr)
        assume "\<not> k < len div 2"
        then have "xs ! ?m \<le> xs ! (base + k)"
          using "1.prems" by (intro sorted_nth_mono) auto
        with True "1.prems"(4) show False by simp
      qed
      with True "1.prems"(4) show ?thesis by (intro exI [of _ k]) auto
    next
      case le: False
      show ?thesis
      proof (cases "len div 2 \<le> k")
        case True
        with le "1.prems" show ?thesis by (intro exI [of _ "k - len div 2"]) auto
      next
        case False
        then have "xs ! (base + k) \<le> xs ! ?m"
          using "1.prems" \<open>\<not> len \<le> 1\<close> by (intro sorted_nth_mono) auto
        with le "1.prems"(4) have "xs ! ?m = x" by simp
        with le \<open>\<not> len \<le> 1\<close> show ?thesis by (intro exI [of _ 0]) auto
      qed
    qed
    with IH False show ?thesis by (auto simp: bs_loop.simps [of xs x base len] Let_def)
  qed
qed

lemma binary_search_SomeD: "binary_search xs x = Some i \<Longrightarrow> i < length xs \<and> xs ! i = x"
  using bs_loop_bounds [of "length xs" 0 xs x]
  by (auto simp: binary_search_def Let_def split: if_splits)

lemma binary_search_None_iff: "sorted xs \<Longrightarrow> binary_search xs x = None \<longleftrightarrow> x \<notin> set xs"
  using bs_loop_finds [of xs 0 "length xs" _ x] bs_loop_bounds [of "length xs" 0 xs x]
  by (auto simp: binary_search_def Let_def in_set_conv_nth)

lemma binary_search_nth:
  assumes "sorted xs" "distinct xs" "i < length xs"
  shows "binary_search xs (xs ! i) = Some i"
proof -
  from assms obtain j where j: "binary_search xs (xs ! i) = Some j"
    using binary_search_None_iff [of xs "xs ! i"] by fastforce
  from binary_search_SomeD [OF this] assms have "j = i" by (auto simp: nth_eq_iff_index_eq)
  with j show ?thesis by simp
qed

lemma binary_search_Some_iff:
  assumes "sorted xs" "distinct xs"
  shows "binary_search xs x = Some i \<longleftrightarrow> i < length xs \<and> xs ! i = x"
  using binary_search_nth [OF assms] binary_search_SomeD by blast

end
