(* ===== verification/Float_Bits.thy ===== *)
theory Float_Bits
  imports Prelude "HOL-Library.Log_Nat"
begin

text \<open>
  IEEE-754 binary32 and binary64 of the Rust language, on bit patterns: classification,
  comparison, the exact widening \<^verbatim>\<open>f64::from(f32)\<close>, and addition and multiplication rounded
  to nearest, ties to even. A finite value is \<open>\<plusminus> mag\<close> units, a unit being the least
  subnormal (\<open>2 ^ -149\<close> for binary32, \<open>2 ^ -1074\<close> for binary64), so that all arithmetic is
  exact arithmetic on natural numbers followed by one rounding.

  The second half proves what the routing code relies on: on non-negative values the order of
  the bit patterns is the order of the values, rounding is monotone and exact on representable
  values, hence rounded addition is monotone and inflationary.
\<close>

section \<open>Formats\<close>

type_synonym f32 = u32
type_synonym f64 = u64

text \<open>Magnitude of the pattern with fraction width \<open>F\<close>: exponent field 0 is subnormal.\<close>

definition fp_mag :: "nat \<Rightarrow> nat \<Rightarrow> nat" where
  "fp_mag F n = (let e = n div 2 ^ F; f = n mod 2 ^ F in
     if e = 0 then f else (2 ^ F + f) * 2 ^ (e - 1))"

text \<open>\<open>n / 2 ^ k\<close> rounded to the nearest integer, ties to even.\<close>

definition round_shift :: "nat \<Rightarrow> nat \<Rightarrow> nat" where
  "round_shift n k = (let q = n div 2 ^ k; r = n mod 2 ^ k in
     if 2 * r < 2 ^ k \<or> 2 * r = 2 ^ k \<and> even q then q else q + 1)"

text \<open>The pattern nearest to \<open>n / 2 ^ k\<close> units in a format with fraction width \<open>F\<close> and an
  unbounded exponent. A carry out of the significand moves into the exponent field by itself.\<close>

definition fp_encode :: "nat \<Rightarrow> nat \<Rightarrow> nat \<Rightarrow> nat" where
  "fp_encode F n k = (let s = floorlog 2 (n div 2 ^ k) - (F + 1) in
     s * 2 ^ F + round_shift n (k + s))"

definition f32_magbits :: "f32 \<Rightarrow> nat" where
  "f32_magbits b = unat b mod 2 ^ 31"

definition f32_negative :: "f32 \<Rightarrow> bool" where
  "f32_negative b \<longleftrightarrow> 2 ^ 31 \<le> unat b"

definition F32_INF :: nat where
  "F32_INF = 255 * 2 ^ 23"

definition f32_is_nan :: "f32 \<Rightarrow> bool" where
  "f32_is_nan b \<longleftrightarrow> F32_INF < f32_magbits b"

definition f32_is_finite :: "f32 \<Rightarrow> bool" where
  "f32_is_finite b \<longleftrightarrow> f32_magbits b < F32_INF"

definition f32_key :: "f32 \<Rightarrow> int" where
  "f32_key b = (if f32_negative b then - int (f32_magbits b) else int (f32_magbits b))"

definition f32_le :: "f32 \<Rightarrow> f32 \<Rightarrow> bool" where
  "f32_le a b \<longleftrightarrow> \<not> f32_is_nan a \<and> \<not> f32_is_nan b \<and> f32_key a \<le> f32_key b"

definition f32_lt :: "f32 \<Rightarrow> f32 \<Rightarrow> bool" where
  "f32_lt a b \<longleftrightarrow> \<not> f32_is_nan a \<and> \<not> f32_is_nan b \<and> f32_key a < f32_key b"

definition f32_eq :: "f32 \<Rightarrow> f32 \<Rightarrow> bool" where
  "f32_eq a b \<longleftrightarrow> \<not> f32_is_nan a \<and> \<not> f32_is_nan b \<and> f32_key a = f32_key b"

definition f32_mag :: "f32 \<Rightarrow> nat" where
  "f32_mag b = fp_mag 23 (f32_magbits b)"

text \<open>\<^verbatim>\<open>0.0_f32\<close> and \<^verbatim>\<open>1.0_f32\<close>.\<close>

definition f32_zero :: f32 where "f32_zero = 0"
definition f32_one :: f32 where "f32_one = 0x3F800000"

definition f64_magbits :: "f64 \<Rightarrow> nat" where
  "f64_magbits b = unat b mod 2 ^ 63"

definition f64_negative :: "f64 \<Rightarrow> bool" where
  "f64_negative b \<longleftrightarrow> 2 ^ 63 \<le> unat b"

definition F64_INF :: nat where
  "F64_INF = 2047 * 2 ^ 52"

definition f64_is_nan :: "f64 \<Rightarrow> bool" where
  "f64_is_nan b \<longleftrightarrow> F64_INF < f64_magbits b"

definition f64_is_infinite :: "f64 \<Rightarrow> bool" where
  "f64_is_infinite b \<longleftrightarrow> f64_magbits b = F64_INF"

definition f64_is_finite :: "f64 \<Rightarrow> bool" where
  "f64_is_finite b \<longleftrightarrow> f64_magbits b < F64_INF"

definition f64_key :: "f64 \<Rightarrow> int" where
  "f64_key b = (if f64_negative b then - int (f64_magbits b) else int (f64_magbits b))"

definition f64_lt :: "f64 \<Rightarrow> f64 \<Rightarrow> bool" where
  "f64_lt a b \<longleftrightarrow> \<not> f64_is_nan a \<and> \<not> f64_is_nan b \<and> f64_key a < f64_key b"

definition f64_eq :: "f64 \<Rightarrow> f64 \<Rightarrow> bool" where
  "f64_eq a b \<longleftrightarrow> \<not> f64_is_nan a \<and> \<not> f64_is_nan b \<and> f64_key a = f64_key b"

text \<open>The rank of a pattern in \<^verbatim>\<open>f64::total_cmp\<close>: negative patterns below the others, in
  reverse order of their bits.\<close>

definition f64_total_key :: "f64 \<Rightarrow> int" where
  "f64_total_key b = (if f64_negative b then - int (f64_magbits b) - 1 else int (f64_magbits b))"

definition f64_mag :: "f64 \<Rightarrow> nat" where
  "f64_mag b = fp_mag 52 (f64_magbits b)"

definition f64_make :: "bool \<Rightarrow> nat \<Rightarrow> f64" where
  "f64_make negative m = word_of_nat ((if negative then 2 ^ 63 else 0) + m)"

definition f64_nan :: f64 where
  "f64_nan = f64_make False (F64_INF + 2 ^ 51)"

text \<open>Rounding with overflow to infinity.\<close>

definition f64_encode :: "nat \<Rightarrow> nat \<Rightarrow> nat" where
  "f64_encode n k = min (fp_encode 52 n k) F64_INF"

section \<open>Operations\<close>

definition f64_from_f32 :: "f32 \<Rightarrow> f64" where
  "f64_from_f32 b =
     (if f32_is_nan b then f64_nan
      else if \<not> f32_is_finite b then f64_make (f32_negative b) F64_INF
      else f64_make (f32_negative b) (f64_encode (f32_mag b * 2 ^ 925) 0))"

definition f64_add :: "f64 \<Rightarrow> f64 \<Rightarrow> f64" where
  "f64_add a b =
     (if f64_is_nan a \<or> f64_is_nan b then f64_nan
      else if f64_is_infinite a then
        (if f64_is_infinite b \<and> f64_negative a \<noteq> f64_negative b then f64_nan else a)
      else if f64_is_infinite b then b
      else let v = (if f64_negative a then - int (f64_mag a) else int (f64_mag a))
                 + (if f64_negative b then - int (f64_mag b) else int (f64_mag b)) in
        if v = 0 then f64_make (f64_negative a \<and> f64_negative b) 0
        else f64_make (v < 0) (f64_encode (nat \<bar>v\<bar>) 0))"

definition f64_mul :: "f64 \<Rightarrow> f64 \<Rightarrow> f64" where
  "f64_mul a b =
     (let negative = (f64_negative a \<noteq> f64_negative b) in
      if f64_is_nan a \<or> f64_is_nan b then f64_nan
      else if f64_is_infinite a \<or> f64_is_infinite b then
        (if f64_mag a = 0 \<or> f64_mag b = 0 then f64_nan else f64_make negative F64_INF)
      else f64_make negative (f64_encode (f64_mag a * f64_mag b) 1074))"

section \<open>Rounding\<close>

lemma round_shift_bounds: "n div 2 ^ k \<le> round_shift n k" "round_shift n k \<le> n div 2 ^ k + 1"
  by (auto simp: round_shift_def Let_def)

lemma round_shift_exact: "2 ^ k dvd n \<Longrightarrow> round_shift n k = n div 2 ^ k"
  by (simp add: round_shift_def Let_def dvd_eq_mod_eq_0)

lemma round_shift_0 [simp]: "round_shift n 0 = n"
  by (simp add: round_shift_def)

lemma round_shift_mono:
  assumes "n \<le> n'"
  shows "round_shift n k \<le> round_shift n' k"
proof (cases "n div 2 ^ k < n' div 2 ^ k")
  case True
  then show ?thesis using round_shift_bounds(2) [of n k] round_shift_bounds(1) [of n' k] by linarith
next
  case False
  then have q: "n div 2 ^ k = n' div 2 ^ k" using assms by (simp add: div_le_mono le_antisym)
  have "n mod 2 ^ k \<le> n' mod 2 ^ k"
    using assms q by (metis add_le_cancel_left div_mult_mod_eq)
  with q show ?thesis by (auto simp: round_shift_def Let_def)
qed

lemma encode_shift:
  fixes F n :: nat
  defines "s \<equiv> floorlog 2 n - (F + 1)"
  assumes "0 < s"
  shows "2 ^ F \<le> n div 2 ^ s" and "n div 2 ^ s < 2 ^ (F + 1)"
    and "2 ^ F \<le> round_shift n s" and "round_shift n s \<le> 2 ^ (F + 1)"
proof -
  have n: "0 < n" using assms by (cases "n = 0") (simp_all add: floorlog_def)
  have fl: "floorlog 2 n = F + 1 + s" using assms by simp
  have b: "2 ^ (F + s) \<le> n" "n < 2 ^ (F + 1 + s)"
    using floorlog_bounds [of n 2] n fl by simp_all
  show 1: "2 ^ F \<le> n div 2 ^ s"
    using div_le_mono [OF b(1), of "2 ^ s"] by (simp add: power_add)
  show 2: "n div 2 ^ s < 2 ^ (F + 1)"
    using b(2) by (simp add: less_mult_imp_div_less power_add)
  show "2 ^ F \<le> round_shift n s" using 1 round_shift_bounds(1) [of n s] by linarith
  show "round_shift n s \<le> 2 ^ (F + 1)" using 2 round_shift_bounds(2) [of n s] by linarith
qed

lemma fp_encode_small: "n < 2 ^ (F + 1) \<Longrightarrow> fp_encode F n 0 = n"
  using floorlog_leI [of n 2 "F + 1"] by (simp add: fp_encode_def)

lemma fp_encode_mono:
  assumes "n \<le> n'"
  shows "fp_encode F n 0 \<le> fp_encode F n' 0"
proof -
  let ?s = "floorlog 2 n - (F + 1)" and ?s' = "floorlog 2 n' - (F + 1)"
  have le: "?s \<le> ?s'" using floorlog_mono [OF assms, of 2] by simp
  have enc: "fp_encode F n 0 = ?s * 2 ^ F + round_shift n ?s"
      "fp_encode F n' 0 = ?s' * 2 ^ F + round_shift n' ?s'"
    by (simp_all add: fp_encode_def Let_def)
  show ?thesis
  proof (cases "?s = ?s'")
    case True
    then show ?thesis using round_shift_mono [OF assms, of ?s] enc by simp
  next
    case False
    with le have lt: "?s + 1 \<le> ?s'" by simp
    have up: "round_shift n ?s \<le> 2 ^ (F + 1)"
    proof (cases "?s = 0")
      case True
      then have "n < 2 ^ (F + 1)" using floorlog_leD [of 2 n "F + 1"] by simp
      with True show ?thesis by simp
    next
      case False
      then show ?thesis using encode_shift(4) [of n F] by simp
    qed
    have "2 ^ F \<le> round_shift n' ?s'" using lt encode_shift(3) [of n' F] by simp
    moreover have "(?s + 1) * 2 ^ F \<le> ?s' * 2 ^ F" using lt by (rule mult_le_mono1)
    ultimately show ?thesis using up enc by simp
  qed
qed

lemma fp_encode_power:
  assumes "2 ^ F \<le> m" "m < 2 ^ (F + 1)"
  shows "fp_encode F (m * 2 ^ j) 0 = j * 2 ^ F + m"
proof -
  have "0 < m" using assms(1) by (metis gr0I le_zero_eq power_not_zero zero_neq_numeral)
  have "floorlog 2 m = F + 1"
  proof (rule antisym)
    show "floorlog 2 m \<le> F + 1" using assms(2) by (intro floorlog_leI) simp_all
    show "F + 1 \<le> floorlog 2 m" using assms(1) by (intro floorlog_geI) simp_all
  qed
  then have "floorlog 2 (m * 2 ^ j) = F + 1 + j" using \<open>0 < m\<close> by simp
  then show ?thesis by (simp add: fp_encode_def round_shift_exact)
qed

text \<open>Encoding the value of a pattern gives the pattern back.\<close>

lemma fp_encode_mag: "fp_encode F (fp_mag F b) 0 = b"
proof (cases "b div 2 ^ F = 0")
  case True
  then have "b < 2 ^ F" by (simp add: div_eq_0_iff)
  with True show ?thesis by (simp add: fp_mag_def fp_encode_small)
next
  case False
  let ?f = "b mod 2 ^ F" and ?e = "b div 2 ^ F"
  have "fp_encode F ((2 ^ F + ?f) * 2 ^ (?e - 1)) 0 = (?e - 1) * 2 ^ F + (2 ^ F + ?f)"
    by (rule fp_encode_power) simp_all
  also have "\<dots> = ?e * 2 ^ F + ?f" using False by (cases ?e) simp_all
  also have "\<dots> = b" by (rule div_mult_mod_eq)
  finally show ?thesis using False by (simp add: fp_mag_def)
qed

text \<open>Conversely, a number of at most \<open>F + 1\<close> significant bits is encoded exactly.\<close>

lemma fp_mag_encode:
  assumes "n = m * 2 ^ j" "m < 2 ^ (F + 1)"
  shows "fp_mag F (fp_encode F n 0) = n"
proof -
  let ?s = "floorlog 2 n - (F + 1)"
  show ?thesis
  proof (cases "?s = 0")
    case True
    then have n: "n < 2 ^ (F + 1)" using floorlog_leD [of 2 n "F + 1"] by simp
    then have "n div 2 ^ F = 0 \<and> n mod 2 ^ F = n \<or> n div 2 ^ F = 1 \<and> 2 ^ F + n mod 2 ^ F = n"
      by (cases "n < 2 ^ F") (simp_all add: div_nat_eqI le_mod_geq)
    with n show ?thesis by (auto simp: fp_encode_small fp_mag_def Let_def)
  next
    case False
    have n0: "0 < m" using False assms(1) by (cases "m = 0") (simp_all add: floorlog_def)
    have "floorlog 2 n = floorlog 2 m + j" using assms(1) n0 by simp
    moreover have "floorlog 2 m \<le> F + 1" using assms(2) by (intro floorlog_leI) simp_all
    ultimately have "?s \<le> j" by simp
    then have dvd: "2 ^ ?s dvd n" using assms(1) by (simp add: dvd_mult le_imp_power_dvd)
    let ?q = "n div 2 ^ ?s"
    have q: "2 ^ F \<le> ?q" "?q < 2 ^ (F + 1)" using encode_shift(1,2) [of n F] False by simp_all
    have enc: "fp_encode F n 0 = ?s * 2 ^ F + ?q"
      using dvd by (simp add: fp_encode_def Let_def round_shift_exact)
    have "fp_encode F n 0 div 2 ^ F = ?s + 1" "fp_encode F n 0 mod 2 ^ F = ?q - 2 ^ F"
      unfolding enc using q by (simp_all add: div_nat_eqI le_mod_geq)
    then have "fp_mag F (fp_encode F n 0) = ?q * 2 ^ ?s" using q by (simp add: fp_mag_def)
    also have "\<dots> = n" using dvd by simp
    finally show ?thesis .
  qed
qed

lemma fp_mag_strict_mono:
  assumes "a < b"
  shows "fp_mag F a < fp_mag F b"
proof (rule ccontr)
  assume "\<not> fp_mag F a < fp_mag F b"
  then have "fp_encode F (fp_mag F b) 0 \<le> fp_encode F (fp_mag F a) 0" by (intro fp_encode_mono) simp
  with assms show False by (simp add: fp_encode_mag)
qed

lemma fp_mag_mono: "a \<le> b \<Longrightarrow> fp_mag F a \<le> fp_mag F b"
  using fp_mag_strict_mono [of a b F] by (cases "a = b") auto

lemma fp_mag_eq_iff [simp]: "fp_mag F a = fp_mag F b \<longleftrightarrow> a = b"
  using fp_mag_strict_mono [of a b F] fp_mag_strict_mono [of b a F] by (cases a b rule: linorder_cases) auto

lemma fp_mag_0 [simp]: "fp_mag F 0 = 0"
  by (simp add: fp_mag_def)

lemma fp_mag_eq_0 [simp]: "fp_mag F a = 0 \<longleftrightarrow> a = 0"
  using fp_mag_eq_iff [of F a 0] by simp

section \<open>Non-negative binary64 values\<close>

text \<open>A pattern of a non-negative number or \<open>+\<infinity>\<close>: no sign, no NaN.\<close>

definition f64_nonneg :: "f64 \<Rightarrow> bool" where
  "f64_nonneg b \<longleftrightarrow> unat b \<le> F64_INF"

lemma F64_INF_less: "F64_INF < 2 ^ 63"
  by (simp add: F64_INF_def)

lemma f64_nonneg_fields [simp]:
  assumes "f64_nonneg b"
  shows "\<not> f64_negative b" "f64_magbits b = unat b" "\<not> f64_is_nan b"
    "f64_key b = int (unat b)" "f64_total_key b = int (unat b)"
proof -
  have lt: "unat b < 2 ^ 63" using assms F64_INF_less unfolding f64_nonneg_def by (rule le_less_trans)
  then show n: "\<not> f64_negative b" and m: "f64_magbits b = unat b"
    unfolding f64_negative_def f64_magbits_def by (simp_all only: not_le mod_less)
  with assms show "\<not> f64_is_nan b" "f64_key b = int (unat b)" "f64_total_key b = int (unat b)"
    by (simp_all add: f64_is_nan_def f64_key_def f64_total_key_def f64_nonneg_def)
qed

lemma f64_nonneg_compare:
  assumes "f64_nonneg a" "f64_nonneg b"
  shows "f64_lt a b \<longleftrightarrow> a < b" "f64_eq a b \<longleftrightarrow> a = b"
  using assms by (simp_all add: f64_lt_def f64_eq_def word_less_def word_uint_eq_iff)

lemma f64_nonneg_zero [simp]: "f64_nonneg 0"
  by (simp add: f64_nonneg_def)

lemma unat_f64_make [simp]: "m \<le> F64_INF \<Longrightarrow> unat (f64_make False m) = m"
  using F64_INF_less by (simp add: f64_make_def unat_of_nat)

lemma f64_encode_le_INF [simp]: "f64_encode n k \<le> F64_INF"
  by (simp add: f64_encode_def)

lemma f64_nonneg_make [simp]: "m \<le> F64_INF \<Longrightarrow> f64_nonneg (f64_make False m)"
  by (simp add: f64_nonneg_def)

lemma f64_encode_mono: "n \<le> n' \<Longrightarrow> f64_encode n 0 \<le> f64_encode n' 0"
  using fp_encode_mono [of n n' 52] by (simp add: f64_encode_def min.coboundedI1 min_le_iff_disj)

lemma f64_encode_mag: "b \<le> F64_INF \<Longrightarrow> f64_encode (fp_mag 52 b) 0 = b"
  by (simp add: f64_encode_def fp_encode_mag)

lemma f64_encode_above: "fp_mag 52 F64_INF \<le> n \<Longrightarrow> f64_encode n 0 = F64_INF"
  using f64_encode_mono [of "fp_mag 52 F64_INF" n] f64_encode_mag [of F64_INF]
  by (simp add: le_antisym)

lemma f64_encode_exact:
  assumes "n = m * 2 ^ j" "m < 2 ^ 53" "n < fp_mag 52 F64_INF"
  shows "fp_mag 52 (f64_encode n 0) = n" and "f64_encode n 0 < F64_INF"
proof -
  have mag: "fp_mag 52 (fp_encode 52 n 0) = n" using fp_mag_encode [of n m j 52] assms(1,2) by simp
  have lt: "fp_encode 52 n 0 < F64_INF"
  proof (rule ccontr)
    assume "\<not> fp_encode 52 n 0 < F64_INF"
    then have "fp_mag 52 F64_INF \<le> fp_mag 52 (fp_encode 52 n 0)" by (intro fp_mag_mono) simp
    with mag assms(3) show False by simp
  qed
  then show "f64_encode n 0 < F64_INF" by (simp add: f64_encode_def)
  from lt mag show "fp_mag 52 (f64_encode n 0) = n" by (simp add: f64_encode_def)
qed

lemma unat_f64_add:
  assumes "f64_nonneg a" "f64_nonneg b"
  shows "unat (f64_add a b) = f64_encode (fp_mag 52 (unat a) + fp_mag 52 (unat b)) 0"
proof -
  let ?a = "fp_mag 52 (unat a)" and ?b = "fp_mag 52 (unat b)"
  note [simp] = f64_nonneg_fields [OF assms(1)] f64_nonneg_fields [OF assms(2)]
  show ?thesis
  proof (cases "unat a = F64_INF \<or> unat b = F64_INF")
    case True
    then have "f64_encode (?a + ?b) 0 = F64_INF" by (intro f64_encode_above) auto
    moreover have "unat (f64_add a b) = F64_INF"
      using True by (auto simp: f64_add_def f64_is_infinite_def)
    ultimately show ?thesis by simp
  next
    case False
    then have "f64_add a b =
        (if ?a + ?b = 0 then f64_make False 0 else f64_make False (f64_encode (?a + ?b) 0))"
      by (simp add: f64_add_def f64_is_infinite_def f64_mag_def Let_def nat_add_distrib
          flip: of_nat_add)
    moreover have "f64_encode 0 0 = 0" using f64_encode_mag [of 0] by simp
    ultimately show ?thesis by auto
  qed
qed

lemma f64_add_nonneg [simp, intro]:
  "f64_nonneg a \<Longrightarrow> f64_nonneg b \<Longrightarrow> f64_nonneg (f64_add a b)"
  by (simp add: f64_nonneg_def [of "f64_add a b"] unat_f64_add)

text \<open>Rounded addition of non-negative values is monotone and never decreases its left operand.\<close>

lemma f64_add_mono:
  assumes "f64_nonneg a" "f64_nonneg a'" "f64_nonneg b" "a \<le> a'"
  shows "f64_add a b \<le> f64_add a' b"
proof -
  have "fp_mag 52 (unat a) \<le> fp_mag 52 (unat a')"
    using assms(4) by (intro fp_mag_mono) (simp add: word_le_nat_alt)
  then show ?thesis using assms by (simp add: word_le_nat_alt unat_f64_add f64_encode_mono)
qed

lemma f64_add_inflationary:
  assumes "f64_nonneg a" "f64_nonneg b"
  shows "a \<le> f64_add a b"
proof -
  have "unat a = f64_encode (fp_mag 52 (unat a)) 0"
    using assms(1) by (simp add: f64_encode_mag f64_nonneg_def)
  also have "\<dots> \<le> unat (f64_add a b)" using assms by (simp add: unat_f64_add f64_encode_mono)
  finally show ?thesis by (simp add: word_le_nat_alt)
qed

text \<open>
  Sums of boundedly many terms of at most \<open>2 ^ K\<close> units stay below \<open>(j + 1) * 2 ^ K\<close>: that
  bound is itself representable, so rounding cannot pass it.
\<close>

lemma f64_add_bound:
  assumes "f64_nonneg a" "f64_nonneg b"
    and "fp_mag 52 (unat a) \<le> j * 2 ^ K" "fp_mag 52 (unat b) \<le> 2 ^ K" "j + 1 < 2 ^ 53"
    and "(j + 1) * 2 ^ K < fp_mag 52 F64_INF"
  shows "fp_mag 52 (unat (f64_add a b)) \<le> (j + 1) * 2 ^ K" and "unat (f64_add a b) < F64_INF"
proof -
  have "fp_mag 52 (unat a) + fp_mag 52 (unat b) \<le> (j + 1) * 2 ^ K"
    using assms(3,4) by (simp add: algebra_simps)
  then have le: "unat (f64_add a b) \<le> f64_encode ((j + 1) * 2 ^ K) 0"
    using assms(1,2) by (simp add: unat_f64_add f64_encode_mono)
  note ex = f64_encode_exact [OF refl assms(5) assms(6)]
  from le ex(2) show "unat (f64_add a b) < F64_INF" by simp
  from fp_mag_mono [OF le, of 52] ex(1) show "fp_mag 52 (unat (f64_add a b)) \<le> (j + 1) * 2 ^ K"
    by simp
qed

section \<open>Products of widened binary32 values are exact\<close>

lemma fp_encode_scale: "fp_encode F (n * 2 ^ k) k = fp_encode F n 0"
proof -
  have "round_shift (n * 2 ^ k) (k + s) = round_shift n s" for s
  proof -
    have "n * 2 ^ k div 2 ^ (k + s) = n div 2 ^ s"
      by (simp add: power_add div_mult2_eq)
    moreover have "n * 2 ^ k mod 2 ^ (k + s) = (n mod 2 ^ s) * 2 ^ k"
      using mod_mult_mult1 [of "2 ^ k" n "2 ^ s"] by (simp only: power_add mult.commute)
    ultimately show ?thesis by (simp add: round_shift_def Let_def power_add)
  qed
  then show ?thesis by (simp add: fp_encode_def Let_def)
qed

lemma f64_encode_scale: "f64_encode (n * 2 ^ k) k = f64_encode n 0"
  by (simp add: f64_encode_def fp_encode_scale)

lemma fp_mag_F64_INF: "fp_mag 52 F64_INF = 2 ^ 52 * 2 ^ 2046"
proof -
  have "F64_INF div 2 ^ 52 = 2047" "F64_INF mod 2 ^ 52 = 0" by (simp_all add: F64_INF_def)
  then have "fp_mag 52 F64_INF = (2 ^ 52 + 0) * 2 ^ (2047 - 1)" by (simp only: fp_mag_def Let_def) simp
  then show ?thesis by (simp only: add_0_right) simp
qed

text \<open>A finite binary32 magnitude has 24 significant bits and a bounded exponent.\<close>

lemma f32_mag_split:
  assumes "b < F32_INF"
  obtains m j where "fp_mag 23 b = m * 2 ^ j" "m < 2 ^ 24" "j \<le> 253"
proof (cases "b div 2 ^ 23 = 0")
  case True
  have "b mod 2 ^ 23 < 2 ^ 24" by (rule less_trans [of _ "2 ^ 23"]) simp_all
  with True that [of "b mod 2 ^ 23" 0] show thesis by (simp add: fp_mag_def)
next
  case False
  have "b div 2 ^ 23 < 255" using assms by (simp add: F32_INF_def less_mult_imp_div_less)
  moreover have "2 ^ 23 + b mod 2 ^ 23 < 2 ^ 24"
    using mod_less_divisor [of "2 ^ 23" b] by simp
  ultimately show thesis
    using False that [of "2 ^ 23 + b mod 2 ^ 23" "b div 2 ^ 23 - 1"] by (simp add: fp_mag_def Let_def)
qed

definition f32_nonneg_finite :: "f32 \<Rightarrow> bool" where
  "f32_nonneg_finite b \<longleftrightarrow> unat b < F32_INF"

lemma f32_nonneg_finite_fields [simp]:
  assumes "f32_nonneg_finite b"
  shows "\<not> f32_negative b" "f32_magbits b = unat b" "\<not> f32_is_nan b" "f32_is_finite b"
    "f32_key b = int (unat b)"
proof -
  have "F32_INF < 2 ^ 31" by (simp add: F32_INF_def)
  with assms have lt: "unat b < 2 ^ 31" unfolding f32_nonneg_finite_def by (rule less_trans)
  then show n: "\<not> f32_negative b" and m: "f32_magbits b = unat b"
    unfolding f32_negative_def f32_magbits_def by (simp_all only: not_le mod_less)
  with assms show "\<not> f32_is_nan b" "f32_is_finite b" "f32_key b = int (unat b)"
    by (simp_all add: f32_is_nan_def f32_is_finite_def f32_key_def f32_nonneg_finite_def)
qed

lemma f32_mag_less:
  assumes "f32_nonneg_finite b"
  shows "f32_mag b < 2 ^ 277"
proof -
  obtain m j where mj: "fp_mag 23 (unat b) = m * 2 ^ j" "m < 2 ^ 24" "j \<le> 253"
    using f32_mag_split assms unfolding f32_nonneg_finite_def by blast
  have "m * 2 ^ j < 2 ^ 24 * 2 ^ j" using mj(2) by simp
  also have "\<dots> \<le> (2::nat) ^ 24 * 2 ^ 253" using mj(3) by (intro mult_le_mono power_increasing) simp_all
  finally show ?thesis using mj(1) assms by (simp add: f32_mag_def flip: power_add)
qed

lemma f64_from_f32_exact:
  assumes "f32_nonneg_finite b"
  shows "f64_nonneg (f64_from_f32 b)" "unat (f64_from_f32 b) < F64_INF"
    "fp_mag 52 (unat (f64_from_f32 b)) = f32_mag b * 2 ^ 925"
proof -
  obtain m j where mj: "fp_mag 23 (unat b) = m * 2 ^ j" "m < 2 ^ 24"
    using f32_mag_split assms unfolding f32_nonneg_finite_def by blast
  then have eq: "f32_mag b * 2 ^ 925 = m * 2 ^ (j + 925)"
    using assms by (simp add: f32_mag_def power_add del: power_numeral)
  have m53: "m < 2 ^ 53" using mj(2) by (rule less_trans) simp
  have "f32_mag b * 2 ^ 925 < 2 ^ 277 * 2 ^ 925"
    using f32_mag_less [OF assms] by (intro mult_strict_right_mono) simp_all
  also have "\<dots> \<le> 2 ^ 52 * 2 ^ 2046" unfolding power_add [symmetric] by (intro power_increasing) simp_all
  finally have lt: "f32_mag b * 2 ^ 925 < fp_mag 52 F64_INF" by (simp only: fp_mag_F64_INF)
  have w: "f64_from_f32 b = f64_make False (f64_encode (f32_mag b * 2 ^ 925) 0)"
    using assms by (simp add: f64_from_f32_def del: power_numeral)
  note ex = f64_encode_exact [OF eq m53 lt]
  show "f64_nonneg (f64_from_f32 b)" unfolding w by simp
  show "unat (f64_from_f32 b) < F64_INF" unfolding w using ex(2) by simp
  show "fp_mag 52 (unat (f64_from_f32 b)) = f32_mag b * 2 ^ 925" unfolding w using ex(1) by simp
qed

lemma f32_product_exact:
  assumes "f32_nonneg_finite a" "f32_nonneg_finite b"
  defines "p \<equiv> f64_mul (f64_from_f32 a) (f64_from_f32 b)"
  shows "f64_nonneg p" "unat p < F64_INF" "fp_mag 52 (unat p) = f32_mag a * f32_mag b * 2 ^ 776"
proof -
  let ?n = "f32_mag a * f32_mag b * 2 ^ 776"
  note A = f64_from_f32_exact [OF assms(1)] and B = f64_from_f32_exact [OF assms(2)]
  note [simp] = f64_nonneg_fields [OF A(1)] f64_nonneg_fields [OF B(1)]
  have pow: "(2::nat) ^ 925 * 2 ^ 925 = 2 ^ 776 * 2 ^ 1074" by (simp only: flip: power_add) simp
  have "f32_mag a * 2 ^ 925 * (f32_mag b * 2 ^ 925) = f32_mag a * f32_mag b * (2 ^ 925 * 2 ^ 925)"
    by (simp only: mult.assoc mult.left_commute)
  then have "f32_mag a * 2 ^ 925 * (f32_mag b * 2 ^ 925) = ?n * 2 ^ 1074"
    by (simp only: pow mult.assoc)
  then have "f64_encode (fp_mag 52 (unat (f64_from_f32 a)) * fp_mag 52 (unat (f64_from_f32 b))) 1074 =
      f64_encode ?n 0"
    by (simp only: A(3) B(3) f64_encode_scale)
  then have p: "p = f64_make False (f64_encode ?n 0)"
    using A(2) B(2) by (simp add: p_def f64_mul_def f64_is_infinite_def f64_mag_def del: power_numeral)
  have fm: "f32_mag a = fp_mag 23 (unat a)" "f32_mag b = fp_mag 23 (unat b)"
    using assms(1,2) by (simp_all add: f32_mag_def)
  obtain m j where mj: "f32_mag a = m * 2 ^ j" "m < 2 ^ 24"
    using f32_mag_split assms(1) unfolding fm f32_nonneg_finite_def by blast
  obtain m' j' where mj': "f32_mag b = m' * 2 ^ j'" "m' < 2 ^ 24"
    using f32_mag_split assms(2) unfolding fm f32_nonneg_finite_def by blast
  have eq: "?n = m * m' * 2 ^ (j + j' + 776)"
    by (simp only: mj(1) mj'(1) power_add mult.assoc mult.left_commute mult.commute)
  have "m * m' < 2 ^ 24 * 2 ^ 24" using mj(2) mj'(2) by (intro mult_strict_mono) simp_all
  then have m53: "m * m' < 2 ^ 53" by (rule less_trans) simp
  have "f32_mag a * f32_mag b < 2 ^ 277 * 2 ^ 277"
    using f32_mag_less assms(1,2) by (intro mult_strict_mono) (simp_all del: power_numeral)
  then have "?n < 2 ^ 277 * 2 ^ 277 * 2 ^ 776" by (intro mult_strict_right_mono) simp_all
  also have "\<dots> \<le> 2 ^ 52 * 2 ^ 2046" unfolding power_add [symmetric] by (intro power_increasing) simp_all
  finally have lt: "?n < fp_mag 52 F64_INF" by (simp only: fp_mag_F64_INF)
  note ex = f64_encode_exact [OF eq m53 lt]
  show "f64_nonneg p" unfolding p by simp
  show "unat p < F64_INF" unfolding p using ex(2) by simp
  show "fp_mag 52 (unat p) = ?n" unfolding p using ex(1) by simp
qed

end
