(* ===== verification/Core_Model.thy ===== *)
theory Core_Model
  imports Float_Bits
begin

text \<open>
  The crate \<^verbatim>\<open>pathhydra-core\<close>: durable identifiers, canonical base weights, exact names and
  payloads, provisional candidates and confirmed records. The newtypes are datatypes around
  the wrapped word or byte string, ordered as their derived \<^verbatim>\<open>Ord\<close> orders them. A Rust
  \<^verbatim>\<open>str\<close> is its UTF-8 byte string.
\<close>

section \<open>Identifiers\<close>

datatype candidate_id = CandidateId (candidate_id_as_u64: u64)
datatype edge_id = EdgeId (edge_id_as_u64: u64)
datatype node_id = NodeId (node_id_as_u64: u64)
datatype relation_id = RelationId (relation_id_as_u64: u64)

instantiation candidate_id :: linorder
begin

definition less_eq_candidate_id :: "candidate_id \<Rightarrow> candidate_id \<Rightarrow> bool" where
  "less_eq_candidate_id a b \<longleftrightarrow> candidate_id_as_u64 a \<le> candidate_id_as_u64 b"

definition less_candidate_id :: "candidate_id \<Rightarrow> candidate_id \<Rightarrow> bool" where
  "less_candidate_id a b \<longleftrightarrow> candidate_id_as_u64 a < candidate_id_as_u64 b"

instance
  by standard (auto simp: less_eq_candidate_id_def less_candidate_id_def intro: candidate_id.expand)

end

instantiation edge_id :: linorder
begin

definition less_eq_edge_id :: "edge_id \<Rightarrow> edge_id \<Rightarrow> bool" where
  "less_eq_edge_id a b \<longleftrightarrow> edge_id_as_u64 a \<le> edge_id_as_u64 b"

definition less_edge_id :: "edge_id \<Rightarrow> edge_id \<Rightarrow> bool" where
  "less_edge_id a b \<longleftrightarrow> edge_id_as_u64 a < edge_id_as_u64 b"

instance
  by standard (auto simp: less_eq_edge_id_def less_edge_id_def intro: edge_id.expand)

end

instantiation node_id :: linorder
begin

definition less_eq_node_id :: "node_id \<Rightarrow> node_id \<Rightarrow> bool" where
  "less_eq_node_id a b \<longleftrightarrow> node_id_as_u64 a \<le> node_id_as_u64 b"

definition less_node_id :: "node_id \<Rightarrow> node_id \<Rightarrow> bool" where
  "less_node_id a b \<longleftrightarrow> node_id_as_u64 a < node_id_as_u64 b"

instance
  by standard (auto simp: less_eq_node_id_def less_node_id_def intro: node_id.expand)

end

instantiation relation_id :: linorder
begin

definition less_eq_relation_id :: "relation_id \<Rightarrow> relation_id \<Rightarrow> bool" where
  "less_eq_relation_id a b \<longleftrightarrow> relation_id_as_u64 a \<le> relation_id_as_u64 b"

definition less_relation_id :: "relation_id \<Rightarrow> relation_id \<Rightarrow> bool" where
  "less_relation_id a b \<longleftrightarrow> relation_id_as_u64 a < relation_id_as_u64 b"

instance
  by standard (auto simp: less_eq_relation_id_def less_relation_id_def intro: relation_id.expand)

end

lemmas id_order_defs =
  less_eq_candidate_id_def less_candidate_id_def less_eq_edge_id_def less_edge_id_def
  less_eq_node_id_def less_node_id_def less_eq_relation_id_def less_relation_id_def

section \<open>Base weights\<close>

datatype base_weight = BaseWeight (base_weight_bits: u32)

datatype invalid_base_weight = InvalidBaseWeight (invalid_base_weight_value: f32)

definition base_weight_MIN :: base_weight where
  "base_weight_MIN = BaseWeight f32_zero"

definition base_weight_MAX :: base_weight where
  "base_weight_MAX = BaseWeight f32_one"

definition base_weight_new :: "f32 \<Rightarrow> invalid_base_weight + base_weight" where
  "base_weight_new v =
     (if \<not> f32_is_finite v \<or> \<not> (f32_le f32_zero v \<and> f32_le v f32_one)
      then Inl (InvalidBaseWeight v)
      else let canonical = (if f32_eq v f32_zero then f32_zero else v) in
        Inr (BaseWeight canonical))"

definition base_weight_from_bits :: "u32 \<Rightarrow> invalid_base_weight + base_weight" where
  "base_weight_from_bits bits =
     rbind (base_weight_new bits) (\<lambda>canonical.
       if base_weight_bits canonical = bits then Inr canonical
       else Inl (InvalidBaseWeight bits))"

definition base_weight_get :: "base_weight \<Rightarrow> f32" where
  "base_weight_get w = base_weight_bits w"

text \<open>The invariant of the private field: every constructor yields a pattern between
  \<open>+0.0\<close> and \<open>1.0\<close>.\<close>

definition base_weight_ok :: "base_weight \<Rightarrow> bool" where
  "base_weight_ok w \<longleftrightarrow> base_weight_bits w \<le> f32_one"

lemma unat_f32_one: "unat f32_one = 0x3F800000"
  by (simp add: f32_one_def)

lemma le_f32_one_nonneg_finite: "b \<le> f32_one \<Longrightarrow> f32_nonneg_finite b"
  by (simp add: f32_nonneg_finite_def F32_INF_def word_le_nat_alt unat_f32_one)

lemma base_weight_ok_finite: "base_weight_ok w \<Longrightarrow> f32_nonneg_finite (base_weight_get w)"
  by (simp add: base_weight_ok_def base_weight_get_def le_f32_one_nonneg_finite)

text \<open>What \<open>base_weight_new\<close> accepts, in terms of bits: the patterns up to \<open>1.0\<close> and \<open>-0.0\<close>.\<close>

lemma f32_fields_cases:
  fixes v :: f32
  obtains (nonneg) n where "unat v = n" "n < 2 ^ 31" "\<not> f32_negative v" "f32_magbits v = n"
      "f32_key v = int n" "v \<noteq> 0x80000000" "v \<le> f32_one \<longleftrightarrow> n \<le> 0x3F800000" "v = 0 \<longleftrightarrow> n = 0"
  | (neg) n where "unat v = n + 2 ^ 31" "f32_negative v" "f32_magbits v = n" "f32_key v = - int n"
      "v = 0x80000000 \<longleftrightarrow> n = 0" "\<not> v \<le> f32_one" "v \<noteq> 0"
proof (cases "unat v < 2 ^ 31")
  case True
  then have "f32_magbits v = unat v" "\<not> f32_negative v"
    unfolding f32_magbits_def f32_negative_def by (simp_all only: mod_less not_le)
  moreover have "v \<noteq> 0x80000000" using True by auto
  ultimately show thesis
    using True by (intro nonneg [of "unat v"])
      (simp_all only: f32_key_def word_le_nat_alt unat_f32_one unat_eq_zero if_False not_False_eq_True)
next
  case False
  have "unat v < 2 ^ 32" using unsigned_less [of v] by simp
  with False have "f32_magbits v = unat v - 2 ^ 31" "f32_negative v"
    by (simp_all add: f32_magbits_def f32_negative_def mod_if [of "unat v"])
  moreover have "v = 0x80000000 \<longleftrightarrow> unat v - 2 ^ 31 = 0" using False by (auto simp: word_unat_eq_iff)
  moreover have "\<not> v \<le> f32_one" "v \<noteq> 0" "unat v = unat v - 2 ^ 31 + 2 ^ 31"
    using False by (auto simp: word_le_nat_alt unat_f32_one)
  ultimately show thesis by (intro neg [of "unat v - 2 ^ 31"]) (simp_all only: f32_key_def if_True not_False_eq_True)
qed

lemma f32_constants:
  "f32_key f32_zero = 0" "f32_key f32_one = 0x3F800000"
  "f32_magbits f32_zero = 0" "f32_magbits f32_one = 0x3F800000"
  "\<not> f32_is_nan f32_zero" "\<not> f32_is_nan f32_one"
  by (simp_all add: f32_key_def f32_negative_def f32_magbits_def f32_is_nan_def F32_INF_def
      f32_zero_def f32_one_def)

lemma f32_range_bits:
  "f32_is_finite v \<and> f32_le f32_zero v \<and> f32_le v f32_one \<longleftrightarrow> v \<le> f32_one \<or> v = 0x80000000"
  by (cases v rule: f32_fields_cases)
    (auto simp: f32_le_def f32_constants f32_is_finite_def f32_is_nan_def F32_INF_def)

lemma f32_eq_zero_bits: "f32_is_finite v \<Longrightarrow> f32_eq v f32_zero \<longleftrightarrow> v = 0 \<or> v = 0x80000000"
  by (cases v rule: f32_fields_cases)
    (auto simp: f32_eq_def f32_constants f32_is_finite_def f32_is_nan_def F32_INF_def)

lemma base_weight_new_eq:
  "base_weight_new v =
     (if v = 0x80000000 then Inr (BaseWeight 0)
      else if v \<le> f32_one then Inr (BaseWeight v) else Inl (InvalidBaseWeight v))"
  using f32_range_bits [of v] f32_eq_zero_bits [of v]
  by (auto simp: base_weight_new_def f32_zero_def Let_def)

lemma base_weight_from_bits_eq:
  "base_weight_from_bits b =
     (if b \<le> f32_one then Inr (BaseWeight b) else Inl (InvalidBaseWeight b))"
  by (auto simp: base_weight_from_bits_def base_weight_new_eq f32_one_def)

lemma base_weight_from_bits_Inr:
  "base_weight_from_bits b = Inr w \<longleftrightarrow> w = BaseWeight b \<and> base_weight_ok w"
  by (auto simp: base_weight_from_bits_eq base_weight_ok_def)

section \<open>Names, payloads and records\<close>

datatype node_name = NodeName (node_name_as_str: bytes)
datatype relation_name = RelationName (relation_name_as_str: bytes)
datatype node_payload = NodePayload (payload_as_bytes: bytes)

definition MAX_NODE_PAYLOAD_BYTES :: nat where
  "MAX_NODE_PAYLOAD_BYTES = 16 * 1024 * 1024"

datatype candidate_node_reference =
    NodeConfirmed node_id
  | NodeCandidate candidate_id

datatype candidate_relation_reference =
    RelationConfirmed relation_id
  | RelationCandidate candidate_id

datatype candidate =
    CandidateNode candidate_id node_name node_payload u64
  | CandidateRelation candidate_id relation_name u64
  | CandidateEdge candidate_id candidate_node_reference candidate_node_reference
      candidate_relation_reference base_weight

fun candidate_id_of :: "candidate \<Rightarrow> candidate_id" where
  "candidate_id_of (CandidateNode cid _ _ _) = cid"
| "candidate_id_of (CandidateRelation cid _ _) = cid"
| "candidate_id_of (CandidateEdge cid _ _ _ _) = cid"

record node_record =
  nr_id :: node_id
  nr_name :: node_name
  nr_payload :: node_payload

record relation_record =
  rr_id :: relation_id
  rr_name :: relation_name
  rr_provisional_reference_count :: u64
  rr_confirmed_edge_count :: u64

record edge_record =
  er_id :: edge_id
  er_source :: node_id
  er_destination :: node_id
  er_relation_kind :: relation_id
  er_base_weight :: base_weight

datatype confirmed_record =
    ConfirmedNode node_record
  | ConfirmedRelation relation_record
  | ConfirmedEdge edge_record

text \<open>The aggregate of confirmed records that the store hands to the routing compiler.\<close>

record confirmed_graph_records =
  cg_nodes :: "node_record list"
  cg_relation_kinds :: "relation_record list"
  cg_edges :: "edge_record list"

text \<open>\<^verbatim>\<open>u64::checked_add\<close> and \<^verbatim>\<open>u64::checked_sub\<close> on words.\<close>

definition checked_add_u64 :: "u64 \<Rightarrow> u64 \<Rightarrow> u64 option" where
  "checked_add_u64 a b = (if unat a + unat b \<le> U64_MAX then Some (a + b) else None)"

definition checked_sub_u64 :: "u64 \<Rightarrow> u64 \<Rightarrow> u64 option" where
  "checked_sub_u64 a b = (if b \<le> a then Some (a - b) else None)"

definition relation_record_with_usage ::
    "relation_id \<Rightarrow> relation_name \<Rightarrow> u64 \<Rightarrow> u64 \<Rightarrow> relation_record" where
  "relation_record_with_usage rid name provisional confirmed =
     \<lparr>rr_id = rid, rr_name = name, rr_provisional_reference_count = provisional,
      rr_confirmed_edge_count = confirmed\<rparr>"

definition relation_record_new :: "relation_id \<Rightarrow> relation_name \<Rightarrow> relation_record" where
  "relation_record_new rid name = relation_record_with_usage rid name 0 0"

definition total_reference_count :: "relation_record \<Rightarrow> u64 option" where
  "total_reference_count r =
     checked_add_u64 (rr_provisional_reference_count r) (rr_confirmed_edge_count r)"

lemma checked_add_u64_Some [checked_simps]:
  "checked_add_u64 a b = Some c \<longleftrightarrow> unat c = unat a + unat b"
proof -
  have "unat (a + b) = unat a + unat b" if "unat a + unat b \<le> U64_MAX"
    using that by (simp add: unat_word_ariths U64_MAX_def)
  moreover have "unat c \<le> U64_MAX"
  proof -
    have "unat c < 2 ^ 64" using unsigned_less [of c] by simp
    then show ?thesis by (simp add: U64_MAX_def)
  qed
  ultimately show ?thesis by (auto simp: checked_add_u64_def word_unat_eq_iff)
qed

lemma checked_sub_u64_Some [checked_simps]:
  "checked_sub_u64 a b = Some c \<longleftrightarrow> unat a = unat b + unat c"
proof -
  have "unat (a - b) = unat a - unat b" if "b \<le> a" using that by (simp add: unat_sub_if' word_le_nat_alt)
  then show ?thesis by (auto simp: checked_sub_u64_def word_unat_eq_iff word_le_nat_alt)
qed

end
