(* ===== verification/Routing_Types.thy ===== *)
theory Routing_Types
  imports Core_Model
begin

text \<open>
  The value types of \<^verbatim>\<open>pathhydra-routing\<close>: errors (\<^verbatim>\<open>error.rs\<close>), requests and responses
  (\<^verbatim>\<open>request.rs\<close>), relation multipliers and profiles with their packing against the relation
  table of an image (\<^verbatim>\<open>profile.rs\<close>).

  \<^verbatim>\<open>try_reserve\<close> can fail. Which reservations succeed is a parameter: \<open>reserve structure n\<close>
  says whether room for \<open>n\<close> elements of the named structure is granted.
\<close>

section \<open>Errors\<close>

datatype compile_error =
    TooManyNodes nat
  | DuplicateNodeId node_id
  | DuplicateRelationId relation_id
  | DuplicateEdgeId edge_id
  | MissingEndpoint edge_id node_id
  | MissingRelationKind edge_id relation_id
  | CompileInvalidBaseWeight edge_id
  | CountOverflow string
  | TopologyLimitExceeded nat nat
  | CompileAllocationFailed string
  | InvalidImage string

datatype profile_error =
    DuplicateRelation relation_id
  | MissingRelation relation_id
  | UnknownRelation relation_id
  | ProfileAllocationFailed

datatype arithmetic_operation = EffectiveWeight | PathAddition

datatype arithmetic_error = ArithmeticError (arithmetic_error_operation: arithmetic_operation)

datatype routing_error =
    MissingOrigin node_id
  | InvalidProfile profile_error
  | Arithmetic arithmetic_error
  | ResourceEstimateOverflow
  | RoutingAllocationFailed string
  | InternalInvariant string
  | ImageAccess string

section \<open>Relation profiles\<close>

datatype relation_multiplier = RelationMultiplier (multiplier_bits: u32)

datatype invalid_relation_multiplier = InvalidRelationMultiplier (invalid_multiplier_value: f32)

definition multiplier_new :: "f32 \<Rightarrow> invalid_relation_multiplier + relation_multiplier" where
  "multiplier_new v =
     (if \<not> f32_is_finite v \<or> f32_lt v f32_zero then Inl (InvalidRelationMultiplier v)
      else let canonical = (if f32_eq v f32_zero then f32_zero else v) in
        Inr (RelationMultiplier canonical))"

definition multiplier_from_bits :: "u32 \<Rightarrow> invalid_relation_multiplier + relation_multiplier" where
  "multiplier_from_bits bits =
     rbind (multiplier_new bits) (\<lambda>canonical.
       if multiplier_bits canonical = bits then Inr canonical
       else Inl (InvalidRelationMultiplier bits))"

definition multiplier_get :: "relation_multiplier \<Rightarrow> f32" where
  "multiplier_get m = multiplier_bits m"

definition multiplier_ok :: "relation_multiplier \<Rightarrow> bool" where
  "multiplier_ok m \<longleftrightarrow> f32_nonneg_finite (multiplier_bits m)"

datatype relation_use = Disabled | Enabled relation_multiplier

datatype relation_profile = RelationProfile (profile_entries: "(relation_id \<times> relation_use) list")

record packed_relation_profile =
  pp_uses :: "relation_use list"
  pp_canonical :: relation_profile

text \<open>One iteration of each loop of \<^verbatim>\<open>pack_relation_ids\<close>.\<close>

definition pack_entry :: "relation_id list \<Rightarrow> relation_id \<times> relation_use
    \<Rightarrow> relation_use option list \<Rightarrow> profile_error fault + relation_use option list" where
  "pack_entry relation_ids entry by_index =
     (case entry of (rid, relation_use) \<Rightarrow>
       rbind (ok_or (binary_search relation_ids rid) (Failed (UnknownRelation rid))) (\<lambda>i.
       rbind (index by_index i) (\<lambda>old.
       if old \<noteq> None then Inl (Failed (DuplicateRelation rid))
       else Inr (by_index[i := Some relation_use]))))"

definition pack_collect :: "relation_use option list \<Rightarrow> nat \<times> relation_id
    \<Rightarrow> relation_use list \<times> (relation_id \<times> relation_use) list
    \<Rightarrow> profile_error fault + (relation_use list \<times> (relation_id \<times> relation_use) list)" where
  "pack_collect by_index entry acc =
     (case entry of (i, rid) \<Rightarrow> case acc of (packed, canonical) \<Rightarrow>
       rbind (index by_index i) (\<lambda>u.
       rbind (ok_or u (Failed (MissingRelation rid))) (\<lambda>relation_use.
       Inr (packed @ [relation_use], canonical @ [(rid, relation_use)]))))"

definition pack_relation_ids :: "reserve \<Rightarrow> relation_profile \<Rightarrow> relation_id list
    \<Rightarrow> profile_error fault + packed_relation_profile" where
  "pack_relation_ids reserve profile relation_ids =
     (let n = length relation_ids in
      if \<not> reserve ''profile index'' n then Inl (Failed ProfileAllocationFailed)
      else rbind (fold_result (pack_entry relation_ids) (profile_entries profile) (replicate n None))
        (\<lambda>by_index.
      if \<not> reserve ''packed profile'' n then Inl (Failed ProfileAllocationFailed)
      else if \<not> reserve ''canonical profile'' n then Inl (Failed ProfileAllocationFailed)
      else rbind (fold_result (pack_collect by_index) (zip [0..<n] relation_ids) ([], []))
        (\<lambda>(packed, canonical).
      Inr \<lparr>pp_uses = packed, pp_canonical = RelationProfile canonical\<rparr>)))"

fun accelerator_entry :: "relation_use \<Rightarrow> u32 \<times> u32" where
  "accelerator_entry Disabled = (0, 0)"
| "accelerator_entry (Enabled m) = (1, multiplier_bits m)"

definition accelerator_arrays :: "packed_relation_profile \<Rightarrow> u32 list \<times> u32 list" where
  "accelerator_arrays p =
     (map (fst \<circ> accelerator_entry) (pp_uses p), map (snd \<circ> accelerator_entry) (pp_uses p))"

definition relation_use_index :: "packed_relation_profile \<Rightarrow> nat \<Rightarrow> relation_use option" where
  "relation_use_index p i = get (pp_uses p) i"

section \<open>Requests and responses\<close>

datatype search_budget = Unlimited | ExaminedEdges nat

fun budget_permits :: "search_budget \<Rightarrow> nat \<Rightarrow> bool" where
  "budget_permits Unlimited examined = True"
| "budget_permits (ExaminedEdges maximum) examined = (examined < maximum)"

datatype tie_policy = StablePredecessor

datatype numeric_policy = Binary32OperandsSeparateBinary64

record routing_request =
  rq_origin :: node_id
  rq_destinations :: "node_id list"
  rq_profile :: relation_profile
  rq_return_paths :: bool
  rq_budget :: search_budget
  rq_tie_policy :: tie_policy

datatype completion_reason =
    AllDestinationsFinalized
  | FrontierExhausted
  | BudgetExhausted
  | Cancelled

record path_step =
  ps_edge_id :: edge_id
  ps_source :: node_id
  ps_destination :: node_id
  ps_relation_id :: relation_id
  ps_base_weight :: base_weight
  ps_multiplier :: relation_multiplier
  ps_effective_weight :: f64

record route_path =
  pa_origin :: node_id
  pa_destination :: node_id
  pa_logical_distance :: f64
  pa_steps :: "path_step list"

record exact_route =
  xr_logical_distance :: f64
  xr_path :: "route_path option"

datatype destination_state =
    Exact exact_route
  | Unreachable
  | MissingNode
  | Incomplete

record destination_result =
  dr_destination :: node_id
  dr_state :: destination_state

record routing_response =
  rs_origin :: node_id
  rs_results :: "destination_result list"
  rs_profile :: relation_profile
  rs_numeric_policy :: numeric_policy
  rs_tie_policy :: tie_policy
  rs_paths_requested :: bool
  rs_examined_edges :: nat
  rs_finalized_nodes :: nat
  rs_completion_reason :: completion_reason

definition routing_response_new :: "node_id \<Rightarrow> destination_result list \<Rightarrow> relation_profile
    \<Rightarrow> tie_policy \<Rightarrow> bool \<Rightarrow> nat \<times> nat \<Rightarrow> completion_reason \<Rightarrow> routing_response" where
  "routing_response_new origin results profile tie paths counts reason =
     \<lparr>rs_origin = origin, rs_results = results, rs_profile = profile,
      rs_numeric_policy = Binary32OperandsSeparateBinary64, rs_tie_policy = tie,
      rs_paths_requested = paths, rs_examined_edges = fst counts,
      rs_finalized_nodes = snd counts, rs_completion_reason = reason\<rparr>"

definition routing_response_distance_only :: "node_id \<Rightarrow> destination_result list
    \<Rightarrow> relation_profile \<Rightarrow> tie_policy \<Rightarrow> nat \<times> nat \<Rightarrow> completion_reason \<Rightarrow> routing_response" where
  "routing_response_distance_only origin results profile tie counts reason =
     routing_response_new origin results profile tie False counts reason"

text \<open>Steps that lead from one node to another.\<close>

fun contiguous :: "node_id \<Rightarrow> path_step list \<Rightarrow> node_id \<Rightarrow> bool" where
  "contiguous n [] m \<longleftrightarrow> n = m"
| "contiguous n (s # ss) m \<longleftrightarrow> ps_source s = n \<and> contiguous (ps_destination s) ss m"

section \<open>Multipliers\<close>

lemma f32_nonneg_bits:
  "f32_is_finite v \<and> \<not> f32_lt v f32_zero \<longleftrightarrow> f32_nonneg_finite v \<or> v = 0x80000000"
proof (cases v rule: f32_fields_cases)
  case (nonneg n)
  then show ?thesis
    by (auto simp: f32_lt_def f32_constants f32_is_finite_def f32_is_nan_def f32_nonneg_finite_def)
next
  case (neg n)
  then show ?thesis
    by (auto simp: f32_lt_def f32_constants f32_is_finite_def f32_is_nan_def f32_nonneg_finite_def
        F32_INF_def)
qed

lemma multiplier_new_eq:
  "multiplier_new v =
     (if v = 0x80000000 then Inr (RelationMultiplier 0)
      else if f32_nonneg_finite v then Inr (RelationMultiplier v)
      else Inl (InvalidRelationMultiplier v))"
  using f32_nonneg_bits [of v] f32_eq_zero_bits [of v]
  by (auto simp: multiplier_new_def f32_zero_def Let_def)

lemma multiplier_from_bits_Inr:
  "multiplier_from_bits b = Inr m \<longleftrightarrow> m = RelationMultiplier b \<and> multiplier_ok m"
  by (auto simp: multiplier_from_bits_def multiplier_new_eq multiplier_ok_def
      f32_nonneg_finite_def F32_INF_def)

section \<open>Packing a profile\<close>

definition profile_of :: "relation_profile \<Rightarrow> relation_id \<rightharpoonup> relation_use" where
  "profile_of profile = map_of (profile_entries profile)"

definition profile_matches :: "relation_profile \<Rightarrow> relation_id list \<Rightarrow> bool" where
  "profile_matches profile relation_ids \<longleftrightarrow>
     distinct (map fst (profile_entries profile))
     \<and> set (map fst (profile_entries profile)) = set relation_ids"

lemma pack_entry_map:
  assumes "sorted ids" "distinct ids"
  shows "pack_entry ids (rid, u) (map f ids) =
    (if rid \<notin> set ids then Inl (Failed (UnknownRelation rid))
     else if f rid \<noteq> None then Inl (Failed (DuplicateRelation rid))
     else Inr (map (f(rid \<mapsto> u)) ids))"
proof (cases "rid \<in> set ids")
  case False
  then have "binary_search ids rid = None" using assms by (simp add: binary_search_None_iff)
  with False show ?thesis by (simp add: pack_entry_def)
next
  case True
  then obtain i where i: "i < length ids" "ids ! i = rid" by (auto simp: in_set_conv_nth)
  then have bs: "binary_search ids rid = Some i" using binary_search_nth [OF assms] by blast
  have "(map f ids)[i := Some u] = map (f(rid \<mapsto> u)) ids"
    using i assms(2) by (intro nth_equalityI) (auto simp: nth_list_update nth_eq_iff_index_eq)
  with True i bs show ?thesis by (auto simp: pack_entry_def)
qed

lemma pack_entries_iff:
  assumes "sorted ids" "distinct ids"
  shows "fold_result (pack_entry ids) es (map f ids) = Inr b \<longleftrightarrow>
    distinct (map fst es) \<and> set (map fst es) \<subseteq> set ids \<and> (\<forall>r \<in> set (map fst es). f r = None)
    \<and> b = map (f ++ map_of es) ids"
proof (induction es arbitrary: f)
  case Nil
  then show ?case by auto
next
  case (Cons e es)
  obtain rid u where e: "e = (rid, u)" by (cases e)
  have eq: "f(rid \<mapsto> u) ++ map_of es = f ++ map_of (e # es)" if "rid \<notin> set (map fst es)"
    using that map_of_eq_None_iff [of es rid] unfolding e
    by (intro ext) (auto simp: map_add_def fun_upd_def split: option.splits)
  show ?case
  proof (cases "rid \<in> set ids \<and> f rid = None \<and> rid \<notin> fst ` set es")
    case True
    then have step: "fold_result (pack_entry ids) (e # es) (map f ids) = Inr b \<longleftrightarrow>
        fold_result (pack_entry ids) es (map (f(rid \<mapsto> u)) ids) = Inr b"
      by (simp add: e pack_entry_map [OF assms])
    have fresh: "(\<forall>r \<in> set (map fst es). (f(rid \<mapsto> u)) r = None) \<longleftrightarrow>
        (\<forall>r \<in> set (map fst es). f r = None)"
      using True by auto
    have new: "distinct (map fst (e # es)) = distinct (map fst es)"
        "set (map fst (e # es)) \<subseteq> set ids \<longleftrightarrow> set (map fst es) \<subseteq> set ids"
        "(\<forall>r \<in> set (map fst (e # es)). f r = None) \<longleftrightarrow> (\<forall>r \<in> set (map fst es). f r = None)"
      using True by (auto simp: e)
    have "f(rid \<mapsto> u) ++ map_of es = f ++ map_of (e # es)" using True by (intro eq) simp
    then show ?thesis unfolding step Cons.IH fresh new by (simp only:)
  next
    case False
    then have "fold_result (pack_entry ids) (e # es) (map f ids) \<noteq> Inr b"
      by (auto simp: e pack_entry_map [OF assms] Cons.IH)
    with False show ?thesis by (auto simp: e)
  qed
qed

lemma pack_collect_all:
  assumes "length b = length ids" "\<And>i. i < length ids \<Longrightarrow> b ! i \<noteq> None"
  shows "k \<le> length ids \<Longrightarrow> fold_result (pack_collect b) (zip [0..<k] (take k ids)) ([], []) =
    Inr (map (\<lambda>i. the (b ! i)) [0..<k], map (\<lambda>i. (ids ! i, the (b ! i))) [0..<k])"
proof (induction k)
  case 0
  then show ?case by simp
next
  case (Suc k)
  have z: "zip [0..<Suc k] (take (Suc k) ids) = zip [0..<k] (take k ids) @ [(k, ids ! k)]"
    using Suc.prems by (simp add: take_Suc_conv_app_nth)
  obtain u where "b ! k = Some u" using assms(2) [of k] Suc.prems by auto
  then have "pack_collect b (k, ids ! k) acc = Inr (fst acc @ [u], snd acc @ [(ids ! k, u)])" for acc
    using Suc.prems assms(1) by (simp add: pack_collect_def split: prod.splits)
  with \<open>b ! k = Some u\<close> Suc show ?case unfolding z by (simp add: fold_result_append)
qed

lemma pack_collect_missing:
  assumes "length b = length ids" "i < length ids" "b ! i = None"
  shows "\<not> is_ok (fold_result (pack_collect b) (zip [0..<length ids] ids) acc)"
proof -
  have "zip [0..<length ids] ids = take i (zip [0..<length ids] ids) @
      (i, ids ! i) # drop (Suc i) (zip [0..<length ids] ids)"
    using assms(2) id_take_nth_drop [of i "zip [0..<length ids] ids"] by simp
  then have "fold_result (pack_collect b) (zip [0..<length ids] ids) acc =
      rbind (fold_result (pack_collect b) (take i (zip [0..<length ids] ids)) acc)
        (fold_result (pack_collect b) ((i, ids ! i) # drop (Suc i) (zip [0..<length ids] ids)))"
    by (metis fold_result_append)
  then show ?thesis using assms
    by (cases "fold_result (pack_collect b) (take i (zip [0..<length ids] ids)) acc")
      (auto simp: pack_collect_def split: prod.splits)
qed

text \<open>The packed form a matching profile has: one use per relation, in table order.\<close>

definition packed_of :: "relation_profile \<Rightarrow> relation_id list \<Rightarrow> packed_relation_profile" where
  "packed_of profile ids =
     \<lparr>pp_uses = map (\<lambda>r. the (profile_of profile r)) ids,
      pp_canonical = RelationProfile (map (\<lambda>r. (r, the (profile_of profile r))) ids)\<rparr>"

lemma pack_relation_ids_iff:
  assumes "sorted ids" "distinct ids"
    and "reserve ''profile index'' (length ids)" "reserve ''packed profile'' (length ids)"
      "reserve ''canonical profile'' (length ids)"
  shows "pack_relation_ids reserve profile ids = Inr p \<longleftrightarrow>
    profile_matches profile ids \<and> p = packed_of profile ids"
proof -
  let ?es = "profile_entries profile"
  let ?b = "map (map_of ?es) ids"
  have none: "replicate (length ids) None = map Map.empty ids" by (simp add: map_replicate_const)
  have fold: "fold_result (pack_entry ids) ?es (replicate (length ids) None) = Inr b \<longleftrightarrow>
      distinct (map fst ?es) \<and> set (map fst ?es) \<subseteq> set ids \<and> b = ?b" for b
    unfolding none by (subst pack_entries_iff [OF assms(1,2)]) auto
  show ?thesis
  proof (cases "distinct (map fst ?es) \<and> set (map fst ?es) \<subseteq> set ids")
    case False
    then have "\<not> is_ok (fold_result (pack_entry ids) ?es (replicate (length ids) None))"
      using fold by (cases "fold_result (pack_entry ids) ?es (replicate (length ids) None)") auto
    with False assms(3) show ?thesis
      by (cases "fold_result (pack_entry ids) ?es (replicate (length ids) None)")
        (auto simp: pack_relation_ids_def profile_matches_def)
  next
    case True
    have f: "fold_result (pack_entry ids) ?es (replicate (length ids) None) = Inr ?b"
      using fold True by blast
    show ?thesis
    proof (cases "set ids \<subseteq> set (map fst ?es)")
      case sub: True
      have "?b ! i \<noteq> None" if "i < length ids" for i
        using that sub by (auto simp: map_of_eq_None_iff)
      then have "fold_result (pack_collect ?b) (zip [0..<length ids] ids) ([], []) =
          Inr (map (\<lambda>i. the (?b ! i)) [0..<length ids],
            map (\<lambda>i. (ids ! i, the (?b ! i))) [0..<length ids])"
        using pack_collect_all [of ?b ids "length ids"] by simp
      moreover have "map (\<lambda>i. the (?b ! i)) [0..<length ids] = map (\<lambda>r. the (map_of ?es r)) ids"
          "map (\<lambda>i. (ids ! i, the (?b ! i))) [0..<length ids] =
            map (\<lambda>r. (r, the (map_of ?es r))) ids"
        by (auto intro: nth_equalityI)
      ultimately show ?thesis using True sub assms(3-5) f
        by (auto simp: pack_relation_ids_def profile_matches_def packed_of_def profile_of_def)
    next
      case nsub: False
      then obtain i where "i < length ids" "?b ! i = None"
        by (auto simp: subset_iff in_set_conv_nth map_of_eq_None_iff)
      then have "\<not> is_ok (fold_result (pack_collect ?b) (zip [0..<length ids] ids) ([], []))"
        using pack_collect_missing [of ?b ids i] by simp
      with nsub True f assms(3-5) show ?thesis
        by (cases "fold_result (pack_collect ?b) (zip [0..<length ids] ids) ([], [])")
          (auto simp: pack_relation_ids_def profile_matches_def)
    qed
  qed
qed

end
