(* ===== verification/Routing_Image.thy ===== *)
theory Routing_Image
  imports Routing_Types
begin

text \<open>
  \<^verbatim>\<open>pathhydra-routing/src/image.rs\<close>: the immutable compressed-sparse-row image of the confirmed
  graph, its size manifest, and the accessors the search uses. Array reads that the source
  makes by plain indexing are faults when they are out of range.
\<close>

section \<open>Data\<close>

datatype dense_node_id = DenseNodeId (dense_as_u32: u32)

instantiation dense_node_id :: linorder
begin

definition less_eq_dense_node_id :: "dense_node_id \<Rightarrow> dense_node_id \<Rightarrow> bool" where
  "less_eq_dense_node_id a b \<longleftrightarrow> dense_as_u32 a \<le> dense_as_u32 b"

definition less_dense_node_id :: "dense_node_id \<Rightarrow> dense_node_id \<Rightarrow> bool" where
  "less_dense_node_id a b \<longleftrightarrow> dense_as_u32 a < dense_as_u32 b"

instance
  by standard (auto simp: less_eq_dense_node_id_def less_dense_node_id_def
      intro: dense_node_id.expand)

end

definition dense_as_usize :: "dense_node_id \<Rightarrow> nat" where
  "dense_as_usize d = unat (dense_as_u32 d)"

record element_widths =
  ew_dense_node_id :: nat
  ew_node_id :: nat
  ew_offset :: nat
  ew_relation_id :: nat
  ew_relation_index :: nat
  ew_base_weight :: nat
  ew_edge_id :: nat

record image_byte_counts =
  bc_external_to_dense :: nat
  bc_dense_to_external :: nat
  bc_offsets :: nat
  bc_destinations :: nat
  bc_relation_ids :: nat
  bc_relation_indexes :: nat
  bc_base_weights :: nat
  bc_edge_ids :: nat
  bc_confirmed_relation_ids :: nat

record gpu_topology_manifest =
  gt_offset_bytes :: nat
  gt_destination_bytes :: nat
  gt_relation_index_bytes :: nat
  gt_base_weight_bytes :: nat

record routing_image_manifest =
  mf_numeric_policy :: string
  mf_tie_policy :: string
  mf_node_count :: nat
  mf_relation_kind_count :: nat
  mf_adjacency_count :: nat
  mf_element_widths :: element_widths
  mf_byte_counts :: image_byte_counts
  mf_predecessor_edge_ids_present :: bool

record outgoing_edge =
  oe_edge_id :: edge_id
  oe_destination :: dense_node_id
  oe_relation_id :: relation_id
  oe_base_weight :: base_weight
  oe_relation_index :: u32

record routing_image =
  im_external_to_dense :: "(node_id \<times> dense_node_id) list"
  im_dense_to_external :: "node_id list"
  im_offsets :: "nat list"
  im_destinations :: "u32 list"
  im_relation_ids :: "relation_id list"
  im_relation_indexes :: "u32 list"
  im_base_weight_bits :: "u32 list"
  im_edge_ids :: "edge_id list"
  im_confirmed_relation_ids :: "relation_id list"
  im_manifest :: routing_image_manifest

record routing_image_arrays =
  ar_offsets :: "nat list"
  ar_destinations :: "u32 list"
  ar_relation_indexes :: "u32 list"
  ar_base_weight_bits :: "u32 list"
  ar_dense_to_external :: "node_id list"
  ar_confirmed_relation_ids :: "relation_id list"

section \<open>Sizes\<close>

definition checked_sum :: "nat option \<Rightarrow> nat \<Rightarrow> nat option" where
  "checked_sum subtotal n = Option.bind subtotal (\<lambda>t. checked_add t n)"

definition byte_counts_checked_total :: "image_byte_counts \<Rightarrow> nat option" where
  "byte_counts_checked_total c =
     (let subtotal = checked_add (bc_external_to_dense c) (bc_dense_to_external c);
          subtotal = checked_sum subtotal (bc_offsets c);
          subtotal = checked_sum subtotal (bc_destinations c);
          subtotal = checked_sum subtotal (bc_relation_ids c);
          subtotal = checked_sum subtotal (bc_relation_indexes c);
          subtotal = checked_sum subtotal (bc_base_weights c);
          subtotal = checked_sum subtotal (bc_edge_ids c)
      in checked_sum subtotal (bc_confirmed_relation_ids c))"

definition byte_counts_total :: "image_byte_counts \<Rightarrow> nat" where
  "byte_counts_total c = (case byte_counts_checked_total c of Some t \<Rightarrow> t | None \<Rightarrow> U64_MAX)"

definition gpu_checked_total :: "gpu_topology_manifest \<Rightarrow> nat option" where
  "gpu_checked_total g =
     (let subtotal = checked_add (gt_offset_bytes g) (gt_destination_bytes g);
          subtotal = checked_sum subtotal (gt_relation_index_bytes g)
      in checked_sum subtotal (gt_base_weight_bytes g))"

definition gpu_total :: "gpu_topology_manifest \<Rightarrow> nat" where
  "gpu_total g = (case gpu_checked_total g of Some t \<Rightarrow> t | None \<Rightarrow> U64_MAX)"

definition NUMERIC_POLICY_ID :: string where
  "NUMERIC_POLICY_ID = ''binary32-operands-separate-binary64-v1''"

definition TIE_POLICY_ID :: string where
  "TIE_POLICY_ID = ''distance-dense-node-stable-predecessor-v1''"

definition manifest_bytes :: "nat \<Rightarrow> nat \<Rightarrow> compile_error + nat" where
  "manifest_bytes count width = ok_or (checked_mul count width) (CountOverflow ''byte'')"

text \<open>The widths are the source's \<^verbatim>\<open>size_of\<close>: a pair of a node identifier and a dense number
  takes 16 bytes, an identifier or offset 8, a dense number, index or weight 4.\<close>

definition manifest :: "nat \<Rightarrow> nat \<Rightarrow> nat \<Rightarrow> compile_error + routing_image_manifest" where
  "manifest node_count relation_kind_count adjacency_count =
     rbind (ok_or (checked_add node_count 1) (CountOverflow ''offset'')) (\<lambda>offset_count.
     rbind (manifest_bytes node_count 16) (\<lambda>external_to_dense.
     rbind (manifest_bytes node_count 8) (\<lambda>dense_to_external.
     rbind (manifest_bytes offset_count 8) (\<lambda>offsets.
     rbind (manifest_bytes adjacency_count 4) (\<lambda>destinations.
     rbind (manifest_bytes adjacency_count 8) (\<lambda>relation_ids.
     rbind (manifest_bytes adjacency_count 4) (\<lambda>relation_indexes.
     rbind (manifest_bytes adjacency_count 4) (\<lambda>base_weights.
     rbind (manifest_bytes adjacency_count 8) (\<lambda>edge_ids.
     rbind (manifest_bytes relation_kind_count 8) (\<lambda>confirmed_relation_ids.
     Inr \<lparr>mf_numeric_policy = NUMERIC_POLICY_ID, mf_tie_policy = TIE_POLICY_ID,
          mf_node_count = node_count, mf_relation_kind_count = relation_kind_count,
          mf_adjacency_count = adjacency_count,
          mf_element_widths = \<lparr>ew_dense_node_id = 4, ew_node_id = 8, ew_offset = 8,
            ew_relation_id = 8, ew_relation_index = 4, ew_base_weight = 4, ew_edge_id = 8\<rparr>,
          mf_byte_counts = \<lparr>bc_external_to_dense = external_to_dense,
            bc_dense_to_external = dense_to_external, bc_offsets = offsets,
            bc_destinations = destinations, bc_relation_ids = relation_ids,
            bc_relation_indexes = relation_indexes, bc_base_weights = base_weights,
            bc_edge_ids = edge_ids, bc_confirmed_relation_ids = confirmed_relation_ids\<rparr>,
          mf_predecessor_edge_ids_present = True\<rparr>))))))))))"

section \<open>Accessors\<close>

definition image_node_count :: "routing_image \<Rightarrow> nat" where
  "image_node_count img = length (im_dense_to_external img)"

definition image_relation_kind_count :: "routing_image \<Rightarrow> nat" where
  "image_relation_kind_count img = length (im_confirmed_relation_ids img)"

definition image_adjacency_count :: "routing_image \<Rightarrow> nat" where
  "image_adjacency_count img = length (im_edge_ids img)"

definition image_dense_node_id :: "routing_image \<Rightarrow> node_id \<Rightarrow> dense_node_id option" where
  "image_dense_node_id img external =
     map_option (\<lambda>i. snd (im_external_to_dense img ! i))
       (binary_search (map fst (im_external_to_dense img)) external)"

definition image_external_node_id :: "routing_image \<Rightarrow> dense_node_id \<Rightarrow> node_id option" where
  "image_external_node_id img dense = get (im_dense_to_external img) (dense_as_usize dense)"

definition image_arrays :: "routing_image \<Rightarrow> routing_image_arrays" where
  "image_arrays img =
     \<lparr>ar_offsets = im_offsets img, ar_destinations = im_destinations img,
      ar_relation_indexes = im_relation_indexes img,
      ar_base_weight_bits = im_base_weight_bits img,
      ar_dense_to_external = im_dense_to_external img,
      ar_confirmed_relation_ids = im_confirmed_relation_ids img\<rparr>"

definition image_gpu_topology_manifest :: "routing_image \<Rightarrow> gpu_topology_manifest" where
  "image_gpu_topology_manifest img =
     (let c = mf_byte_counts (im_manifest img) in
      \<lparr>gt_offset_bytes = bc_offsets c, gt_destination_bytes = bc_destinations c,
       gt_relation_index_bytes = bc_relation_indexes c, gt_base_weight_bytes = bc_base_weights c\<rparr>)"

definition image_outgoing_range :: "routing_image \<Rightarrow> dense_node_id \<Rightarrow> (nat \<times> nat) option" where
  "image_outgoing_range img source =
     (let node = dense_as_usize source in
      Option.bind (get (im_offsets img) node) (\<lambda>start.
      Option.bind (get (im_offsets img) (node + 1)) (\<lambda>end.
      Some (start, end))))"

definition image_edge_at :: "routing_image \<Rightarrow> nat \<Rightarrow> 'e fault + outgoing_edge" where
  "image_edge_at img i =
     rbind (index (im_edge_ids img) i) (\<lambda>edge_id.
     rbind (index (im_destinations img) i) (\<lambda>destination.
     rbind (index (im_relation_ids img) i) (\<lambda>relation_id.
     rbind (index (im_base_weight_bits img) i) (\<lambda>bits.
     rbind (map_err (\<lambda>_. Panicked) (base_weight_from_bits bits)) (\<lambda>base_weight.
     rbind (index (im_relation_indexes img) i) (\<lambda>relation_index.
     Inr \<lparr>oe_edge_id = edge_id, oe_destination = DenseNodeId destination,
          oe_relation_id = relation_id, oe_base_weight = base_weight,
          oe_relation_index = relation_index\<rparr>))))))"

fun collect_results :: "('e + 'a) list \<Rightarrow> 'e + 'a list" where
  "collect_results [] = Inr []"
| "collect_results (r # rs) = rbind r (\<lambda>x. rbind (collect_results rs) (\<lambda>xs. Inr (x # xs)))"

definition image_outgoing_edges ::
    "routing_image \<Rightarrow> dense_node_id \<Rightarrow> ('e fault + outgoing_edge list) option" where
  "image_outgoing_edges img source =
     map_option (\<lambda>(start, end). collect_results (map (image_edge_at img) [start..<end]))
       (image_outgoing_range img source)"

section \<open>The image invariant\<close>

text \<open>
  What the compiler establishes and the search relies on. The last conjunct bounds the
  adjacency by what an 8-byte-per-edge array can hold.
\<close>

definition edge_entry_ok :: "routing_image \<Rightarrow> nat \<Rightarrow> bool" where
  "edge_entry_ok img i \<longleftrightarrow>
     unat (im_destinations img ! i) < image_node_count img
     \<and> unat (im_relation_indexes img ! i) < length (im_confirmed_relation_ids img)
     \<and> im_confirmed_relation_ids img ! unat (im_relation_indexes img ! i) = im_relation_ids img ! i
     \<and> im_base_weight_bits img ! i \<le> f32_one"

definition valid_image :: "routing_image \<Rightarrow> bool" where
  "valid_image img \<longleftrightarrow>
     im_external_to_dense img =
       map (\<lambda>i. (im_dense_to_external img ! i, DenseNodeId (word_of_nat i)))
         [0..<image_node_count img]
     \<and> sorted (im_dense_to_external img) \<and> distinct (im_dense_to_external img)
     \<and> image_node_count img \<le> U32_MAX
     \<and> sorted (im_confirmed_relation_ids img) \<and> distinct (im_confirmed_relation_ids img)
     \<and> length (im_offsets img) = image_node_count img + 1
     \<and> im_offsets img ! 0 = 0 \<and> last (im_offsets img) = image_adjacency_count img
     \<and> sorted (im_offsets img)
     \<and> length (im_destinations img) = image_adjacency_count img
     \<and> length (im_relation_ids img) = image_adjacency_count img
     \<and> length (im_relation_indexes img) = image_adjacency_count img
     \<and> length (im_base_weight_bits img) = image_adjacency_count img
     \<and> (\<forall>i < image_adjacency_count img. edge_entry_ok img i)
     \<and> (\<forall>s < image_node_count img. sorted_wrt (<)
          (map (\<lambda>i. im_edge_ids img ! i) [im_offsets img ! s..<im_offsets img ! (s + 1)]))
     \<and> image_adjacency_count img < U64_MAX"

lemma unat_dense [simp]: "n \<le> U32_MAX \<Longrightarrow> dense_as_usize (DenseNodeId (word_of_nat n)) = n"
  by (simp add: dense_as_usize_def unat_of_nat U32_MAX_def)

lemma dense_as_usize_inject [simp]: "dense_as_usize a = dense_as_usize b \<longleftrightarrow> a = b"
  by (auto simp: dense_as_usize_def word_unat_eq_iff [symmetric] intro: dense_node_id.expand)

lemma dense_less_iff: "a < b \<longleftrightarrow> dense_as_usize a < dense_as_usize b"
  by (simp add: less_dense_node_id_def dense_as_usize_def word_less_nat_alt)

lemma dense_of_usize: "DenseNodeId (word_of_nat (dense_as_usize d)) = d"
  by (cases d) (simp add: dense_as_usize_def)

lemma valid_image_dense_node_id:
  assumes "valid_image img"
  shows "image_dense_node_id img ext = Some d \<longleftrightarrow>
    dense_as_usize d < image_node_count img \<and> im_dense_to_external img ! dense_as_usize d = ext"
proof -
  let ?d2e = "im_dense_to_external img"
  have fst: "map fst (im_external_to_dense img) = ?d2e"
    using assms by (simp add: valid_image_def image_node_count_def comp_def map_nth)
  have sd: "sorted ?d2e" "distinct ?d2e" and n: "image_node_count img \<le> U32_MAX"
    using assms by (simp_all add: valid_image_def)
  have snd: "snd (im_external_to_dense img ! i) = DenseNodeId (word_of_nat i)"
    if "i < image_node_count img" for i
    using assms that by (simp add: valid_image_def)
  show ?thesis
  proof
    assume "image_dense_node_id img ext = Some d"
    then obtain i where i: "binary_search ?d2e ext = Some i" "d = snd (im_external_to_dense img ! i)"
      by (auto simp: image_dense_node_id_def fst)
    from binary_search_SomeD [OF i(1)] snd i(2) n
    show "dense_as_usize d < image_node_count img \<and> ?d2e ! dense_as_usize d = ext"
      by (auto simp: image_node_count_def)
  next
    assume d: "dense_as_usize d < image_node_count img \<and> ?d2e ! dense_as_usize d = ext"
    then have "binary_search ?d2e ext = Some (dense_as_usize d)"
      using binary_search_nth [OF sd, of "dense_as_usize d"] by (simp add: image_node_count_def)
    with d snd show "image_dense_node_id img ext = Some d"
      by (simp add: image_dense_node_id_def fst dense_of_usize)
  qed
qed

lemma valid_image_outgoing_range:
  assumes "valid_image img" "dense_as_usize d < image_node_count img"
  obtains start "end" where "image_outgoing_range img d = Some (start, end)" "start \<le> end"
    "end \<le> image_adjacency_count img"
    "start = im_offsets img ! dense_as_usize d" "end = im_offsets img ! (dense_as_usize d + 1)"
proof -
  let ?o = "im_offsets img" and ?s = "dense_as_usize d"
  have l: "length ?o = image_node_count img + 1" "sorted ?o" "last ?o = image_adjacency_count img"
    using assms(1) by (simp_all add: valid_image_def)
  have "?o ! ?s \<le> ?o ! (?s + 1)" using l assms(2) by (intro sorted_nth_mono) simp_all
  moreover have "?o ! (?s + 1) \<le> last ?o"
    using l assms(2) by (subst last_conv_nth) (auto intro!: sorted_nth_mono)
  ultimately show thesis
    using l assms(2) by (intro that) (simp_all add: image_outgoing_range_def Let_def)
qed

definition entry_edge :: "routing_image \<Rightarrow> nat \<Rightarrow> outgoing_edge" where
  "entry_edge img i =
     \<lparr>oe_edge_id = im_edge_ids img ! i, oe_destination = DenseNodeId (im_destinations img ! i),
      oe_relation_id = im_relation_ids img ! i,
      oe_base_weight = BaseWeight (im_base_weight_bits img ! i),
      oe_relation_index = im_relation_indexes img ! i\<rparr>"

lemma valid_image_edge_at:
  assumes "valid_image img" "i < image_adjacency_count img"
  shows "image_edge_at img i = Inr (entry_edge img i)"
  using assms
  by (simp add: valid_image_def image_edge_at_def entry_edge_def image_adjacency_count_def
      edge_entry_ok_def base_weight_from_bits_eq)

end
