(* ===== verification/Routing_Compile.thy ===== *)
theory Routing_Compile
  imports Routing_Image "HOL-Library.Multiset"
begin

text \<open>
  \<^verbatim>\<open>pathhydra-routing/src/compile.rs\<close>: compiling the confirmed records into a routing image.
  The compiler's output is compared with \<open>image_of\<close>, the image as a closed expression of the
  records; \<open>image_of\<close> is in turn shown to satisfy the image invariant and to list, for each
  node, exactly the node's outgoing edges in edge order.

  \<^verbatim>\<open>sort_unstable\<close> is \<open>sort\<close>: the sorted keys are identifiers that are checked to be distinct,
  so stability cannot be observed in an image that is returned.
\<close>

section \<open>The compiler\<close>

record compiled_edge =
  ce_destination :: dense_node_id
  ce_relation :: relation_id
  ce_base_weight :: base_weight
  ce_edge :: edge_id

record compiled_arrays =
  ca_destinations :: "u32 list"
  ca_relations :: "relation_id list"
  ca_relation_indexes :: "u32 list"
  ca_base_weight_bits :: "u32 list"
  ca_edge_ids :: "edge_id list"

type_synonym 'a compiled = "compile_error fault + 'a"

definition try_vec :: "reserve \<Rightarrow> nat \<Rightarrow> string \<Rightarrow> unit compiled" where
  "try_vec reserve capacity structure =
     (if reserve structure capacity then Inr ()
      else Inl (Failed (CompileAllocationFailed structure)))"

definition validate_node_count :: "nat \<Rightarrow> unit compiled" where
  "validate_node_count n =
     (if n \<le> U32_MAX then Inr () else Inl (Failed (TooManyNodes n)))"

definition reject_duplicate :: "'a list \<Rightarrow> ('a \<Rightarrow> compile_error) \<Rightarrow> unit compiled" where
  "reject_duplicate values error =
     (case find (\<lambda>(a, b). a = b) (windows2 values) of
        Some (a, _) \<Rightarrow> Inl (Failed (error a))
      | None \<Rightarrow> Inr ())"

definition find_dense :: "(node_id \<times> dense_node_id) list \<Rightarrow> node_id \<Rightarrow> dense_node_id option" where
  "find_dense mapping nid =
     map_option (\<lambda>i. snd (mapping ! i)) (binary_search (map fst mapping) nid)"

definition assign_dense :: "nat \<Rightarrow> nat \<times> node_id \<Rightarrow> (node_id \<times> dense_node_id) list
    \<Rightarrow> (node_id \<times> dense_node_id) list compiled" where
  "assign_dense node_count entry mapping =
     (case entry of (dense, external) \<Rightarrow>
       if dense \<le> U32_MAX then Inr (mapping @ [(external, DenseNodeId (word_of_nat dense))])
       else Inl (Failed (TooManyNodes node_count)))"

definition bucket_edge :: "reserve \<Rightarrow> (node_id \<times> dense_node_id) list \<Rightarrow> relation_id list
    \<Rightarrow> edge_record \<Rightarrow> compiled_edge list list \<times> nat \<Rightarrow> (compiled_edge list list \<times> nat) compiled" where
  "bucket_edge reserve mapping relation_ids edge state =
     (case state of (outgoing, counted_edges) \<Rightarrow>
       rbind (ok_or (find_dense mapping (er_source edge))
         (Failed (MissingEndpoint (er_id edge) (er_source edge)))) (\<lambda>source.
       rbind (ok_or (find_dense mapping (er_destination edge))
         (Failed (MissingEndpoint (er_id edge) (er_destination edge)))) (\<lambda>destination.
       if binary_search relation_ids (er_relation_kind edge) = None
       then Inl (Failed (MissingRelationKind (er_id edge) (er_relation_kind edge)))
       else rbind (map_err (\<lambda>_. Failed (CompileInvalidBaseWeight (er_id edge)))
         (base_weight_from_bits (base_weight_bits (er_base_weight edge)))) (\<lambda>base_weight.
       rbind (ok_or (checked_add counted_edges 1) (Failed (CountOverflow ''adjacency''))) (\<lambda>counted_edges.
       rbind (index outgoing (dense_as_usize source)) (\<lambda>bucket.
       if \<not> reserve ''outgoing compiler bucket'' (length bucket + 1)
       then Inl (Failed (CompileAllocationFailed ''outgoing compiler bucket''))
       else Inr (outgoing[dense_as_usize source := bucket @
          [\<lparr>ce_destination = destination, ce_relation = er_relation_kind edge,
            ce_base_weight = base_weight, ce_edge = er_id edge\<rparr>]], counted_edges)))))))"

definition push_offset :: "compiled_edge list \<Rightarrow> nat list \<Rightarrow> nat list compiled" where
  "push_offset edges offsets =
     rbind (ok_or (checked_add (if offsets = [] then 0 else last offsets) (length edges))
       (Failed (CountOverflow ''offset''))) (\<lambda>next.
     Inr (offsets @ [next]))"

definition push_adjacency ::
    "relation_id list \<Rightarrow> compiled_edge \<Rightarrow> compiled_arrays \<Rightarrow> compiled_arrays compiled" where
  "push_adjacency relation_ids edge arrays =
     rbind (ok_or (binary_search relation_ids (ce_relation edge)) (Failed (InvalidImage
       ''compiled relation is absent from the dense relation table''))) (\<lambda>relation_index.
     if relation_index > U32_MAX then Inl (Failed (CountOverflow ''relation index''))
     else Inr
       \<lparr>ca_destinations = ca_destinations arrays @ [dense_as_u32 (ce_destination edge)],
        ca_relations = ca_relations arrays @ [ce_relation edge],
        ca_relation_indexes = ca_relation_indexes arrays @ [word_of_nat relation_index],
        ca_base_weight_bits = ca_base_weight_bits arrays @ [base_weight_bits (ce_base_weight edge)],
        ca_edge_ids = ca_edge_ids arrays @ [ce_edge edge]\<rparr>)"

definition check_mapping_entry ::
    "routing_image \<Rightarrow> nat \<times> node_id \<times> dense_node_id \<Rightarrow> unit \<Rightarrow> unit compiled" where
  "check_mapping_entry img entry u =
     (case entry of (i, external, dense) \<Rightarrow>
       if dense_as_usize dense \<noteq> i
       then Inl (Failed (InvalidImage ''external and dense node mappings disagree''))
       else rbind (index (im_dense_to_external img) i) (\<lambda>e.
         if e \<noteq> external
         then Inl (Failed (InvalidImage ''external and dense node mappings disagree''))
         else Inr ()))"

definition slice_range :: "'a list \<Rightarrow> nat \<Rightarrow> nat \<Rightarrow> 'e fault + 'a list" where
  "slice_range xs start end =
     (if start \<le> end \<and> end \<le> length xs then Inr (take (end - start) (drop start xs))
      else Inl Panicked)"

definition check_outgoing_range :: "routing_image \<Rightarrow> nat \<Rightarrow> unit \<Rightarrow> unit compiled" where
  "check_outgoing_range img source u =
     rbind (index (im_offsets img) source) (\<lambda>start.
     rbind (index (im_offsets img) (source + 1)) (\<lambda>end.
     if end > length (im_edge_ids img)
     then Inl (Failed (InvalidImage
       ''outgoing range is invalid or not strictly ordered by edge ID''))
     else rbind (slice_range (im_edge_ids img) start end) (\<lambda>range.
       if list_ex (\<lambda>(a, b). a \<ge> b) (windows2 range)
       then Inl (Failed (InvalidImage
         ''outgoing range is invalid or not strictly ordered by edge ID''))
       else Inr ())))"

definition check_adjacency_entry :: "routing_image \<Rightarrow> nat \<Rightarrow> unit \<Rightarrow> unit compiled" where
  "check_adjacency_entry img i u =
     (let invalid = Inl (Failed (InvalidImage
        ''adjacency entry contains an invalid node, relation, or weight'')) in
      rbind (index (im_destinations img) i) (\<lambda>destination.
      if unat destination \<ge> length (im_dense_to_external img) then invalid
      else rbind (index (im_relation_ids img) i) (\<lambda>relation.
      if binary_search (im_confirmed_relation_ids img) relation = None then invalid
      else rbind (index (im_relation_indexes img) i) (\<lambda>relation_index.
      if get (im_confirmed_relation_ids img) (unat relation_index) \<noteq> Some relation then invalid
      else rbind (index (im_base_weight_bits img) i) (\<lambda>bits.
      if \<not> is_ok (base_weight_from_bits bits) then invalid else Inr ())))))"

definition validate_completed_image :: "routing_image \<Rightarrow> unit compiled" where
  "validate_completed_image img =
     (let node_count = length (im_dense_to_external img);
          adjacency_count = length (im_edge_ids img) in
      rbind (ok_or (checked_add node_count 1) (Failed (CountOverflow ''offset''))) (\<lambda>offset_count.
      if length (im_external_to_dense img) \<noteq> node_count
         \<or> length (im_offsets img) \<noteq> offset_count
         \<or> length (im_destinations img) \<noteq> adjacency_count
         \<or> length (im_relation_ids img) \<noteq> adjacency_count
         \<or> length (im_relation_indexes img) \<noteq> adjacency_count
         \<or> length (im_base_weight_bits img) \<noteq> adjacency_count
      then Inl (Failed (InvalidImage ''completed array lengths disagree''))
      else rbind (fold_result (check_mapping_entry img)
        (enumerate 0 (im_external_to_dense img)) ()) (\<lambda>_.
      if get (im_offsets img) 0 \<noteq> Some 0
         \<or> im_offsets img = [] \<or> last (im_offsets img) \<noteq> adjacency_count
         \<or> list_ex (\<lambda>(a, b). a > b) (windows2 (im_offsets img))
      then Inl (Failed (InvalidImage ''CSR offsets are not bounded and monotonic''))
      else rbind (fold_result (check_outgoing_range img) [0..<node_count] ()) (\<lambda>_.
      fold_result (check_adjacency_entry img) [0..<adjacency_count] ()))))"

definition compile_routing_image_impl ::
    "reserve \<Rightarrow> confirmed_graph_records \<Rightarrow> nat option \<Rightarrow> routing_image compiled" where
  "compile_routing_image_impl reserve records maximum_bytes =
     (let node_count = length (cg_nodes records) in
      rbind (validate_node_count node_count) (\<lambda>_.
      rbind (map_err Failed (manifest node_count (length (cg_relation_kinds records))
        (length (cg_edges records)))) (\<lambda>topology_manifest.
      rbind (ok_or (byte_counts_checked_total (mf_byte_counts topology_manifest))
        (Failed (CountOverflow ''byte total''))) (\<lambda>required.
      rbind (case maximum_bytes of
          Some limit \<Rightarrow> if required > limit
            then Inl (Failed (TopologyLimitExceeded required limit)) else Inr ()
        | None \<Rightarrow> Inr ()) (\<lambda>_.
      rbind (try_vec reserve (length (cg_nodes records)) ''node IDs'') (\<lambda>_.
      let node_ids = sort (map nr_id (cg_nodes records)) in
      rbind (reject_duplicate node_ids DuplicateNodeId) (\<lambda>_.
      rbind (try_vec reserve node_count ''external node mapping'') (\<lambda>_.
      rbind (fold_result (assign_dense node_count) (enumerate 0 node_ids) []) (\<lambda>external_to_dense.
      rbind (try_vec reserve (length (cg_relation_kinds records)) ''relation IDs'') (\<lambda>_.
      let relation_ids = sort (map rr_id (cg_relation_kinds records)) in
      rbind (reject_duplicate relation_ids DuplicateRelationId) (\<lambda>_.
      rbind (try_vec reserve (length (cg_edges records)) ''edge IDs'') (\<lambda>_.
      let edge_ids = sort (map er_id (cg_edges records)) in
      rbind (reject_duplicate edge_ids DuplicateEdgeId) (\<lambda>_.
      rbind (try_vec reserve node_count ''outgoing compiler buckets'') (\<lambda>_.
      rbind (fold_result (bucket_edge reserve external_to_dense relation_ids) (cg_edges records)
        (replicate node_count [], 0)) (\<lambda>(outgoing, counted_edges).
      let outgoing = map (sort_key ce_edge) outgoing; adjacency_count = counted_edges in
      rbind (ok_or (checked_add node_count 1) (Failed (CountOverflow ''offset''))) (\<lambda>offset_count.
      rbind (try_vec reserve offset_count ''CSR offsets'') (\<lambda>_.
      rbind (fold_result push_offset outgoing [0]) (\<lambda>offsets.
      rbind (try_vec reserve adjacency_count ''adjacency destinations'') (\<lambda>_.
      rbind (try_vec reserve adjacency_count ''adjacency relation IDs'') (\<lambda>_.
      rbind (try_vec reserve adjacency_count ''adjacency relation indexes'') (\<lambda>_.
      rbind (try_vec reserve adjacency_count ''adjacency base weights'') (\<lambda>_.
      rbind (try_vec reserve adjacency_count ''adjacency edge IDs'') (\<lambda>_.
      rbind (fold_result (push_adjacency relation_ids) (concat outgoing)
        \<lparr>ca_destinations = [], ca_relations = [], ca_relation_indexes = [],
         ca_base_weight_bits = [], ca_edge_ids = []\<rparr>) (\<lambda>arrays.
      if length (ca_destinations arrays) \<noteq> adjacency_count \<or> length offsets \<noteq> node_count + 1
      then Inl (Failed (InvalidImage ''compiled array lengths disagree''))
      else if offsets = [] \<or> last offsets \<noteq> counted_edges
      then Inl (Failed (InvalidImage ''final CSR offset disagrees with adjacency count''))
      else let img =
        \<lparr>im_external_to_dense = external_to_dense, im_dense_to_external = node_ids,
         im_offsets = offsets, im_destinations = ca_destinations arrays,
         im_relation_ids = ca_relations arrays, im_relation_indexes = ca_relation_indexes arrays,
         im_base_weight_bits = ca_base_weight_bits arrays, im_edge_ids = ca_edge_ids arrays,
         im_confirmed_relation_ids = relation_ids, im_manifest = topology_manifest\<rparr> in
        rbind (validate_completed_image img) (\<lambda>_. Inr img)))))))))))))))))))))))))"

definition compile_routing_image ::
    "reserve \<Rightarrow> confirmed_graph_records \<Rightarrow> routing_image compiled" where
  "compile_routing_image reserve records = compile_routing_image_impl reserve records None"

definition compile_routing_image_with_limit ::
    "reserve \<Rightarrow> confirmed_graph_records \<Rightarrow> nat \<Rightarrow> routing_image compiled" where
  "compile_routing_image_with_limit reserve records maximum_bytes =
     compile_routing_image_impl reserve records (Some maximum_bytes)"

section \<open>The image as an expression of the records\<close>

definition edges_from :: "confirmed_graph_records \<Rightarrow> node_id \<Rightarrow> edge_record list" where
  "edges_from records n = sort_key er_id (filter (\<lambda>e. er_source e = n) (cg_edges records))"

definition dense_of :: "node_id list \<Rightarrow> node_id \<Rightarrow> dense_node_id" where
  "dense_of nodes n = DenseNodeId (word_of_nat (the (binary_search nodes n)))"

definition dense_mapping :: "node_id list \<Rightarrow> (node_id \<times> dense_node_id) list" where
  "dense_mapping nodes = map (\<lambda>i. (nodes ! i, DenseNodeId (word_of_nat i))) [0..<length nodes]"

definition image_bytes :: "nat \<Rightarrow> nat \<Rightarrow> nat \<Rightarrow> nat" where
  "image_bytes nodes kinds edges = 32 * nodes + 8 + 8 * kinds + 28 * edges"

definition manifest_of :: "nat \<Rightarrow> nat \<Rightarrow> nat \<Rightarrow> routing_image_manifest" where
  "manifest_of n k m =
     \<lparr>mf_numeric_policy = NUMERIC_POLICY_ID, mf_tie_policy = TIE_POLICY_ID,
      mf_node_count = n, mf_relation_kind_count = k, mf_adjacency_count = m,
      mf_element_widths = \<lparr>ew_dense_node_id = 4, ew_node_id = 8, ew_offset = 8,
        ew_relation_id = 8, ew_relation_index = 4, ew_base_weight = 4, ew_edge_id = 8\<rparr>,
      mf_byte_counts = \<lparr>bc_external_to_dense = n * 16, bc_dense_to_external = n * 8,
        bc_offsets = (n + 1) * 8, bc_destinations = m * 4, bc_relation_ids = m * 8,
        bc_relation_indexes = m * 4, bc_base_weights = m * 4, bc_edge_ids = m * 8,
        bc_confirmed_relation_ids = k * 8\<rparr>,
      mf_predecessor_edge_ids_present = True\<rparr>"

definition node_ids_of :: "confirmed_graph_records \<Rightarrow> node_id list" where
  "node_ids_of records = sort (map nr_id (cg_nodes records))"

definition relation_ids_of :: "confirmed_graph_records \<Rightarrow> relation_id list" where
  "relation_ids_of records = sort (map rr_id (cg_relation_kinds records))"

definition adjacency_of :: "confirmed_graph_records \<Rightarrow> edge_record list" where
  "adjacency_of records = concat (map (edges_from records) (node_ids_of records))"

definition relation_rank :: "confirmed_graph_records \<Rightarrow> edge_record \<Rightarrow> nat" where
  "relation_rank records e = the (binary_search (relation_ids_of records) (er_relation_kind e))"

definition image_of :: "confirmed_graph_records \<Rightarrow> routing_image" where
  "image_of records =
     (let nodes = node_ids_of records; adjacency = adjacency_of records in
      \<lparr>im_external_to_dense = dense_mapping nodes, im_dense_to_external = nodes,
       im_offsets = map (\<lambda>i. length (concat (take i (map (edges_from records) nodes))))
         [0..<length nodes + 1],
       im_destinations = map (\<lambda>e. dense_as_u32 (dense_of nodes (er_destination e))) adjacency,
       im_relation_ids = map er_relation_kind adjacency,
       im_relation_indexes = map (\<lambda>e. word_of_nat (relation_rank records e)) adjacency,
       im_base_weight_bits = map (\<lambda>e. base_weight_bits (er_base_weight e)) adjacency,
       im_edge_ids = map er_id adjacency,
       im_confirmed_relation_ids = relation_ids_of records,
       im_manifest = manifest_of (length (cg_nodes records))
         (length (cg_relation_kinds records)) (length (cg_edges records))\<rparr>)"

text \<open>The records the compiler accepts, and the sizes it can represent.\<close>

definition edge_record_ok :: "confirmed_graph_records \<Rightarrow> edge_record \<Rightarrow> bool" where
  "edge_record_ok records e \<longleftrightarrow>
     er_source e \<in> set (node_ids_of records) \<and> er_destination e \<in> set (node_ids_of records)
     \<and> er_relation_kind e \<in> set (relation_ids_of records) \<and> base_weight_ok (er_base_weight e)"

definition valid_records :: "confirmed_graph_records \<Rightarrow> bool" where
  "valid_records records \<longleftrightarrow>
     distinct (map nr_id (cg_nodes records)) \<and> distinct (map rr_id (cg_relation_kinds records))
     \<and> distinct (map er_id (cg_edges records))
     \<and> (\<forall>e \<in> set (cg_edges records). edge_record_ok records e)"

definition records_fit :: "confirmed_graph_records \<Rightarrow> nat option \<Rightarrow> bool" where
  "records_fit records maximum_bytes \<longleftrightarrow>
     (let required = image_bytes (length (cg_nodes records)) (length (cg_relation_kinds records))
        (length (cg_edges records)) in
      length (cg_nodes records) \<le> U32_MAX \<and> required \<le> U64_MAX
      \<and> (case maximum_bytes of None \<Rightarrow> True | Some limit \<Rightarrow> required \<le> limit)
      \<and> (\<forall>e \<in> set (cg_edges records). relation_rank records e \<le> U32_MAX))"

section \<open>What each step computes\<close>

lemma try_vec_Inr [simp]: "try_vec reserve n s = Inr u \<longleftrightarrow> reserve s n"
  by (simp add: try_vec_def)

lemma reject_duplicate_sort [simp]:
  "reject_duplicate (sort xs) f = Inr u \<longleftrightarrow> distinct xs" for xs :: "'a::linorder list"
proof -
  have "reject_duplicate (sort xs) f = Inr u \<longleftrightarrow> (\<forall>(a, b) \<in> set (windows2 (sort xs)). a \<noteq> b)"
    by (auto simp: reject_duplicate_def find_None_iff split: option.splits dest!: find_Some_iff [THEN iffD1] nth_mem)
  then show ?thesis by (simp add: distinct_windows2)
qed

lemma reject_duplicate_ids [simp]:
  "reject_duplicate (node_ids_of records) f = Inr u \<longleftrightarrow> distinct (map nr_id (cg_nodes records))"
  "reject_duplicate (relation_ids_of records) g = Inr u \<longleftrightarrow> distinct (map rr_id (cg_relation_kinds records))"
  by (simp_all add: node_ids_of_def relation_ids_of_def)

lemma manifest_total_iff:
  "manifest n k m = Inr mf \<and> byte_counts_checked_total (mf_byte_counts mf) = Some t \<longleftrightarrow>
     mf = manifest_of n k m \<and> t = image_bytes n k m \<and> image_bytes n k m \<le> U64_MAX"
  by (auto simp: manifest_def manifest_of_def manifest_bytes_def byte_counts_checked_total_def
      checked_sum_def Let_def rbind_Inr_iff checked_mul_Some_iff checked_add_Some_iff image_bytes_def
      bind_eq_Some_conv)

lemma assign_dense_fold:
  "k + length xs \<le> U32_MAX + 1 \<Longrightarrow>
   fold_result (assign_dense c) (enumerate k xs) acc =
     Inr (acc @ map (\<lambda>i. (xs ! i, DenseNodeId (word_of_nat (k + i)))) [0..<length xs])"
proof (induction xs arbitrary: k acc)
  case (Cons x xs)
  then show ?case
    by (simp add: assign_dense_def upt_conv_Cons map_Suc_upt [symmetric] comp_def
        del: upt_Suc of_nat_add of_nat_Suc)
qed simp

lemma assign_dense_all:
  "length xs \<le> U32_MAX + 1 \<Longrightarrow>
   fold_result (assign_dense c) (enumerate 0 xs) [] = Inr (dense_mapping xs)"
  by (simp add: assign_dense_fold dense_mapping_def)

lemma find_dense_mapping:
  assumes "sorted nodes" "distinct nodes"
  shows "find_dense (dense_mapping nodes) n = (if n \<in> set nodes then Some (dense_of nodes n) else None)"
proof -
  have "map fst (dense_mapping nodes) = nodes" by (simp add: dense_mapping_def comp_def map_nth)
  then show ?thesis
    using binary_search_None_iff [of nodes n] binary_search_SomeD [of nodes n] assms
    by (auto simp: find_dense_def dense_of_def dense_mapping_def)
qed

lemma dense_of_usize_nth:
  assumes "sorted nodes" "distinct nodes" "length nodes \<le> U32_MAX + 1" "n \<in> set nodes"
  shows "dense_as_usize (dense_of nodes n) < length nodes" "nodes ! dense_as_usize (dense_of nodes n) = n"
proof -
  from assms obtain i where i: "i < length nodes" "nodes ! i = n" by (auto simp: in_set_conv_nth)
  then have "binary_search nodes n = Some i" using assms binary_search_nth by blast
  with i assms show "dense_as_usize (dense_of nodes n) < length nodes"
    "nodes ! dense_as_usize (dense_of nodes n) = n" by (auto simp: dense_of_def)
qed

text \<open>The buckets after the edges \<open>es\<close> have been distributed.\<close>

definition compiled_of :: "node_id list \<Rightarrow> edge_record \<Rightarrow> compiled_edge" where
  "compiled_of nodes e =
     \<lparr>ce_destination = dense_of nodes (er_destination e), ce_relation = er_relation_kind e,
      ce_base_weight = er_base_weight e, ce_edge = er_id e\<rparr>"

definition buckets_of :: "node_id list \<Rightarrow> edge_record list \<Rightarrow> compiled_edge list list" where
  "buckets_of nodes es =
     map (\<lambda>n. map (compiled_of nodes) (filter (\<lambda>e. er_source e = n) es)) nodes"

definition edge_fits :: "node_id list \<Rightarrow> relation_id list \<Rightarrow> edge_record \<Rightarrow> bool" where
  "edge_fits nodes relations e \<longleftrightarrow>
     er_source e \<in> set nodes \<and> er_destination e \<in> set nodes
     \<and> er_relation_kind e \<in> set relations \<and> base_weight_ok (er_base_weight e)"

lemma bucket_edge_Inr:
  assumes "sorted nodes" "distinct nodes" "length nodes \<le> U32_MAX + 1" "sorted relations"
  shows "bucket_edge reserve (dense_mapping nodes) relations e (buckets_of nodes es, k) = Inr st \<longleftrightarrow>
    edge_fits nodes relations e \<and> k + 1 \<le> U64_MAX
    \<and> reserve ''outgoing compiler bucket'' (length (filter (\<lambda>x. er_source x = er_source e) es) + 1)
    \<and> st = (buckets_of nodes (es @ [e]), k + 1)"
proof (cases "edge_fits nodes relations e")
  case True
  let ?d = "dense_as_usize (dense_of nodes (er_source e))"
  note d = dense_of_usize_nth [OF assms(1-3), of "er_source e"]
  have bits: "base_weight_from_bits (base_weight_bits (er_base_weight e)) = Inr (er_base_weight e)"
    using True by (simp add: base_weight_from_bits_Inr edge_fits_def)
  have bs: "binary_search relations (er_relation_kind e) \<noteq> None"
    using True assms(4) by (simp add: binary_search_None_iff edge_fits_def)
  have "(buckets_of nodes es)[?d := buckets_of nodes es ! ?d @ [compiled_of nodes e]]
      = buckets_of nodes (es @ [e])"
    using d assms(2) True
    by (intro nth_equalityI) (auto simp: buckets_of_def nth_list_update edge_fits_def nth_eq_iff_index_eq)
  moreover have "length (buckets_of nodes es ! ?d) = length (filter (\<lambda>x. er_source x = er_source e) es)"
    using d True by (simp add: buckets_of_def edge_fits_def)
  moreover have "?d < length (buckets_of nodes es)"
    using d True by (simp add: buckets_of_def edge_fits_def)
  ultimately show ?thesis
    using True bits bs assms(1,2)
    by (auto simp: bucket_edge_def find_dense_mapping edge_fits_def checked_add_def
        compiled_of_def [symmetric])
next
  case False
  with assms show ?thesis
    by (auto simp: bucket_edge_def find_dense_mapping edge_fits_def binary_search_None_iff
        rbind_Inr_iff base_weight_from_bits_Inr split: if_splits)
qed

lemma bucket_fold_sound:
  assumes "sorted nodes" "distinct nodes" "length nodes \<le> U32_MAX + 1" "sorted relations"
    and "fold_result (bucket_edge reserve (dense_mapping nodes) relations) es (buckets_of nodes done, k) = Inr st"
  shows "(\<forall>e \<in> set es. edge_fits nodes relations e) \<and> st = (buckets_of nodes (done @ es), k + length es)"
  using assms(5)
proof (induction es arbitrary: "done" k)
  case (Cons e es)
  then show ?case by (fastforce simp: rbind_Inr_iff bucket_edge_Inr [OF assms(1-4)])
qed simp

lemma bucket_fold_complete:
  assumes "sorted nodes" "distinct nodes" "length nodes \<le> U32_MAX + 1" "sorted relations"
    and "\<forall>e \<in> set es. edge_fits nodes relations e" "k + length es \<le> U64_MAX" "\<And>s n. reserve s n"
  shows "fold_result (bucket_edge reserve (dense_mapping nodes) relations) es (buckets_of nodes done, k)
    = Inr (buckets_of nodes (done @ es), k + length es)"
  using assms(5,6)
proof (induction es arbitrary: "done" k)
  case (Cons e es)
  then have "bucket_edge reserve (dense_mapping nodes) relations e (buckets_of nodes done, k)
      = Inr (buckets_of nodes (done @ [e]), k + 1)"
    using assms(7) by (simp add: bucket_edge_Inr [OF assms(1-4)])
  with Cons show ?case by simp
qed simp

lemma replicate_buckets: "replicate (length nodes) [] = buckets_of nodes []"
  by (simp add: buckets_of_def map_replicate_const)

lemma insort_key_map: "insort_key f (g x) (map g xs) = map g (insort_key (\<lambda>x. f (g x)) x xs)"
  by (induction xs) simp_all

lemma sort_key_map: "sort_key f (map g xs) = map g (sort_key (\<lambda>x. f (g x)) xs)"
  by (induction xs) (simp_all add: insort_key_map)

lemma sorted_buckets:
  "map (sort_key ce_edge) (buckets_of nodes (cg_edges records)) =
     map (\<lambda>n. map (compiled_of nodes) (edges_from records n)) nodes"
  by (simp add: buckets_of_def edges_from_def sort_key_map compiled_of_def comp_def)

lemma push_offset_fold:
  assumes "offsets \<noteq> []" "last offsets + length (concat bs) \<le> U64_MAX"
  shows "fold_result push_offset bs offsets =
    Inr (offsets @ map (\<lambda>i. last offsets + length (concat (take (Suc i) bs))) [0..<length bs])"
  using assms
proof (induction bs arbitrary: offsets)
  case (Cons b bs)
  then have "push_offset b offsets = Inr (offsets @ [last offsets + length b])"
    by (simp add: push_offset_def checked_add_def)
  with Cons.prems Cons.IH [of "offsets @ [last offsets + length b]"] show ?case
    by (simp add: upt_conv_Cons map_Suc_upt [symmetric] comp_def del: upt_Suc)
qed simp

lemma push_offset_all:
  assumes "length (concat bs) \<le> U64_MAX"
  shows "fold_result push_offset bs [0] = Inr (map (\<lambda>i. length (concat (take i bs))) [0..<length bs + 1])"
  using push_offset_fold [of "[0]" bs] assms
  by (simp add: upt_conv_Cons map_Suc_upt [symmetric] comp_def del: upt_Suc)

lemma push_adjacency_fold:
  assumes "\<forall>e \<in> set es. binary_search relations (ce_relation e) \<noteq> None"
  shows "fold_result (push_adjacency relations) es a = Inr a' \<longleftrightarrow>
    (\<forall>e \<in> set es. the (binary_search relations (ce_relation e)) \<le> U32_MAX)
    \<and> a' = \<lparr>ca_destinations = ca_destinations a @ map (\<lambda>e. dense_as_u32 (ce_destination e)) es,
        ca_relations = ca_relations a @ map ce_relation es,
        ca_relation_indexes = ca_relation_indexes a @
          map (\<lambda>e. word_of_nat (the (binary_search relations (ce_relation e)))) es,
        ca_base_weight_bits = ca_base_weight_bits a @ map (\<lambda>e. base_weight_bits (ce_base_weight e)) es,
        ca_edge_ids = ca_edge_ids a @ map ce_edge es\<rparr>"
  using assms
proof (induction es arbitrary: a)
  case Nil
  then show ?case by auto
next
  case (Cons e es)
  then obtain i where "binary_search relations (ce_relation e) = Some i" by auto
  with Cons show ?case by (auto simp: push_adjacency_def not_less)
qed

lemma mset_concat_groups:
  assumes "distinct nodes" "\<forall>e \<in> set es. src e \<in> set nodes"
  shows "mset (concat (map (\<lambda>n. filter (\<lambda>e. src e = n) es) nodes)) = mset es"
  using assms
proof (induction nodes arbitrary: es)
  case (Cons n nodes)
  let ?rest = "filter (\<lambda>e. src e \<noteq> n) es"
  have "map (\<lambda>m. filter (\<lambda>e. src e = m) es) nodes = map (\<lambda>m. filter (\<lambda>e. src e = m) ?rest) nodes"
    using Cons.prems(1) by (auto intro!: filter_cong)
  moreover have "mset (concat (map (\<lambda>m. filter (\<lambda>e. src e = m) ?rest) nodes)) = mset ?rest"
    using Cons.prems by (intro Cons.IH) auto
  moreover have "mset es = mset (filter (\<lambda>e. src e = n) es) + mset ?rest"
    unfolding mset_filter by (rule multiset_partition)
  ultimately show ?case by (simp only: list.map concat.simps mset_append)
qed simp

lemma mset_adjacency_of:
  assumes "valid_records records"
  shows "mset (adjacency_of records) = mset (cg_edges records)"
proof -
  have "mset (adjacency_of records) =
      mset (concat (map (\<lambda>n. filter (\<lambda>e. er_source e = n) (cg_edges records)) (node_ids_of records)))"
    by (simp add: adjacency_of_def mset_concat comp_def edges_from_def)
  also have "\<dots> = mset (cg_edges records)"
    using assms by (intro mset_concat_groups) (auto simp: valid_records_def node_ids_of_def edge_record_ok_def)
  finally show ?thesis .
qed

section \<open>The image of valid records\<close>

lemma valid_records_ids:
  assumes "valid_records records"
  shows "distinct (node_ids_of records)" "distinct (relation_ids_of records)"
    "length (adjacency_of records) = length (cg_edges records)"
    "set (adjacency_of records) = set (cg_edges records)"
    "sorted (node_ids_of records)" "sorted (relation_ids_of records)"
    "length (node_ids_of records) = length (cg_nodes records)"
  using assms mset_adjacency_of [OF assms]
  by (auto simp: valid_records_def node_ids_of_def relation_ids_of_def dest: mset_eq_setD mset_eq_length)

lemma take_concat_length:
  "i < length xss \<Longrightarrow> length (concat (take (Suc i) xss)) = length (concat (take i xss)) + length (xss ! i)"
  by (simp add: take_Suc_conv_app_nth)

lemma map_nth_concat:
  assumes "i < length xss"
  shows "map (\<lambda>k. concat xss ! k) [length (concat (take i xss))..<length (concat (take (Suc i) xss))] = xss ! i"
proof -
  have "concat xss = concat (take i xss) @ xss ! i @ concat (drop (Suc i) xss)"
    using assms by (metis append_take_drop_id concat_append concat.simps(2) Cons_nth_drop_Suc)
  then show ?thesis
    using assms by (intro nth_equalityI) (auto simp: take_concat_length nth_append)
qed

lemma image_of_bucket:
  assumes "i < length (node_ids_of records)"
  shows "map (\<lambda>k. adjacency_of records ! k) [im_offsets (image_of records) ! i..<im_offsets (image_of records) ! Suc i]
    = edges_from records (node_ids_of records ! i)"
  using map_nth_concat [of i "map (edges_from records) (node_ids_of records)"] assms
  by (simp add: image_of_def adjacency_of_def Let_def del: upt_Suc)

lemma image_of_fields:
  "im_external_to_dense (image_of records) = dense_mapping (node_ids_of records)"
  "im_dense_to_external (image_of records) = node_ids_of records"
  "im_confirmed_relation_ids (image_of records) = relation_ids_of records"
  "im_edge_ids (image_of records) = map er_id (adjacency_of records)"
  "length (im_offsets (image_of records)) = length (node_ids_of records) + 1"
  "length (im_destinations (image_of records)) = length (adjacency_of records)"
  "length (im_relation_ids (image_of records)) = length (adjacency_of records)"
  "length (im_relation_indexes (image_of records)) = length (adjacency_of records)"
  "length (im_base_weight_bits (image_of records)) = length (adjacency_of records)"
  by (simp_all add: image_of_def Let_def)

lemma image_of_last:
  "im_offsets (image_of records) \<noteq> []"
  "last (im_offsets (image_of records)) = length (adjacency_of records)"
  by (simp_all add: image_of_def Let_def adjacency_of_def)

lemma image_of_offsets_sorted: "sorted (im_offsets (image_of records))"
proof -
  have "length (concat (take i xss)) \<le> length (concat (take j xss))" if "i \<le> j" for i j and xss :: "'a list list"
    using that by (metis append_take_drop_id concat_append length_append le_add1 min.absorb1 take_take)
  then show ?thesis
    by (auto simp: image_of_def Let_def sorted_iff_nth_mono nth_append simp del: upt_Suc)
qed

lemma edges_from_sorted:
  assumes "distinct (map er_id (cg_edges records))"
  shows "sorted_wrt (<) (map er_id (edges_from records n))"
proof -
  have "distinct (map er_id (edges_from records n))"
    using assms by (auto simp: edges_from_def distinct_map intro: inj_on_subset)
  then show ?thesis by (simp add: strict_sorted_iff edges_from_def)
qed

lemma image_of_entry_ok:
  assumes "valid_records records" "records_fit records limit" "i < length (adjacency_of records)"
  shows "edge_entry_ok (image_of records) i"
proof -
  let ?e = "adjacency_of records ! i"
  note ids = valid_records_ids [OF assms(1)]
  have e: "?e \<in> set (cg_edges records)" using ids(4) assms(3) nth_mem by blast
  then have ok: "edge_record_ok records ?e" using assms(1) by (simp add: valid_records_def)
  have n: "length (node_ids_of records) \<le> U32_MAX + 1" using assms(2) ids(7)
    by (simp add: records_fit_def Let_def)
  have "unat (dense_as_u32 (dense_of (node_ids_of records) (er_destination ?e))) < length (node_ids_of records)"
    using dense_of_usize_nth(1) [OF ids(5,1) n] ok by (simp add: edge_record_ok_def dense_as_usize_def)
  moreover obtain r where r: "binary_search (relation_ids_of records) (er_relation_kind ?e) = Some r"
    using binary_search_None_iff [OF ids(6)] ok by (auto simp: edge_record_ok_def)
  moreover have "r \<le> U32_MAX" using assms(2) e r
    by (auto simp: records_fit_def Let_def relation_rank_def)
  then have "unat (word_of_nat r :: u32) = r" by (simp add: unat_of_nat U32_MAX_def)
  ultimately show ?thesis
    using ok assms(3) binary_search_SomeD [OF r]
    by (simp add: edge_entry_ok_def image_of_def Let_def image_node_count_def relation_rank_def
        edge_record_ok_def base_weight_ok_def)
qed

lemma image_of_valid:
  assumes "valid_records records" "records_fit records limit"
  shows "valid_image (image_of records)"
proof -
  let ?img = "image_of records"
  note ids = valid_records_ids [OF assms(1)]
  have len: "image_node_count ?img = length (node_ids_of records)"
    "image_adjacency_count ?img = length (adjacency_of records)"
    by (simp_all add: image_of_def Let_def image_node_count_def image_adjacency_count_def)
  have "last (im_offsets ?img) = length (adjacency_of records)"
    by (rule image_of_last)
  moreover have "im_offsets ?img ! 0 = 0" by (simp add: image_of_def Let_def del: upt_Suc)
  moreover have "sorted_wrt (<) (map (\<lambda>i. im_edge_ids ?img ! i) [im_offsets ?img ! s..<im_offsets ?img ! (s + 1)])"
    if "s < length (node_ids_of records)" for s
  proof -
    have "im_offsets ?img ! (s + 1) \<le> length (adjacency_of records)"
      using that sorted_nth_mono [OF image_of_offsets_sorted [of records], of "s + 1" "length (node_ids_of records)"]
      by (simp add: image_of_def Let_def adjacency_of_def del: upt_Suc)
    then have "map (\<lambda>i. im_edge_ids ?img ! i) [im_offsets ?img ! s..<im_offsets ?img ! (s + 1)]
        = map er_id (map (\<lambda>i. adjacency_of records ! i) [im_offsets ?img ! s..<im_offsets ?img ! Suc s])"
      by (auto simp: image_of_def Let_def)
    with that edges_from_sorted assms(1) show ?thesis
      by (simp add: image_of_bucket valid_records_def)
  qed
  moreover have "length (adjacency_of records) < U64_MAX"
    using assms(2) ids(3) by (simp add: records_fit_def Let_def image_bytes_def)
  moreover have "length (node_ids_of records) \<le> U32_MAX"
    using assms(2) ids(7) by (simp add: records_fit_def Let_def)
  ultimately show ?thesis
    using ids(1,2,5,6) image_of_offsets_sorted [of records] image_of_entry_ok [OF assms]
    unfolding valid_image_def len image_of_fields dense_mapping_def by simp
qed

section \<open>The final validation\<close>

lemma slice_range_nth:
  "start \<le> end \<Longrightarrow> end \<le> length xs \<Longrightarrow> slice_range xs start end = Inr (map (\<lambda>i. xs ! i) [start..<end])"
  by (auto simp: slice_range_def intro!: nth_equalityI)

lemma list_ex_windows2:
  fixes xs :: "'a::linorder list"
  shows "list_ex (\<lambda>(a, b). a > b) (windows2 xs) \<longleftrightarrow> \<not> sorted xs"
    and "list_ex (\<lambda>(a, b). a \<ge> b) (windows2 xs) \<longleftrightarrow> \<not> sorted_wrt (<) xs"
  unfolding sorted_windows2 [symmetric] strict_sorted_windows2 [symmetric] list_ex_iff
  by (simp_all add: case_prod_beta not_le not_less)

lemma check_outgoing_range_valid:
  assumes "valid_image img" "s < image_node_count img"
  shows "check_outgoing_range img s u = Inr ()"
proof -
  have "s \<le> U32_MAX" using assms by (simp add: valid_image_def)
  then obtain a b where ab: "image_outgoing_range img (DenseNodeId (word_of_nat s)) = Some (a, b)"
      "a \<le> b" "b \<le> image_adjacency_count img" "a = im_offsets img ! s" "b = im_offsets img ! (s + 1)"
    using valid_image_outgoing_range [OF assms(1), of "DenseNodeId (word_of_nat s)"] assms(2) by auto
  have "length (im_offsets img) = image_node_count img + 1"
    "sorted_wrt (<) (map (\<lambda>i. im_edge_ids img ! i) [im_offsets img ! s..<im_offsets img ! (s + 1)])"
    using assms by (simp_all add: valid_image_def)
  with ab assms(2) show ?thesis
    by (simp add: check_outgoing_range_def slice_range_nth image_adjacency_count_def list_ex_windows2
        del: One_nat_def)
qed

lemma check_adjacency_entry_valid:
  assumes "valid_image img" "i < image_adjacency_count img"
  shows "check_adjacency_entry img i u = Inr ()"
proof -
  have ok: "edge_entry_ok img i" and s: "sorted (im_confirmed_relation_ids img)"
    and l: "i < length (im_destinations img)" "i < length (im_relation_ids img)"
      "i < length (im_relation_indexes img)" "i < length (im_base_weight_bits img)"
    using assms by (simp_all add: valid_image_def)
  then have "im_relation_ids img ! i \<in> set (im_confirmed_relation_ids img)"
    using nth_mem by (fastforce simp: edge_entry_ok_def)
  with ok l s show ?thesis
    by (simp add: check_adjacency_entry_def edge_entry_ok_def image_node_count_def Let_def
        binary_search_None_iff base_weight_from_bits_eq not_le)
qed

lemma check_mapping_entry_valid:
  assumes "valid_image img" "(i, ext, d) \<in> set (enumerate 0 (im_external_to_dense img))"
  shows "check_mapping_entry img (i, ext, d) u = Inr ()"
  using assms
  by (auto simp: check_mapping_entry_def valid_image_def in_set_enumerate_eq image_node_count_def)

lemma validate_completed_image_valid:
  assumes "valid_image img"
  shows "validate_completed_image img = Inr ()"
proof -
  have "image_node_count img + 1 \<le> U64_MAX"
    using assms by (simp add: valid_image_def U32_MAX_def U64_MAX_def)
  moreover have "im_offsets img \<noteq> []" using assms by (auto simp: valid_image_def)
  moreover have "length (im_external_to_dense img) = image_node_count img"
    using assms by (simp add: valid_image_def)
  moreover have "fold_result (check_mapping_entry img) (enumerate 0 (im_external_to_dense img)) () = Inr ()"
    "fold_result (check_outgoing_range img) [0..<image_node_count img] () = Inr ()"
    "fold_result (check_adjacency_entry img) [0..<image_adjacency_count img] () = Inr ()"
    using check_outgoing_range_valid [OF assms] check_adjacency_entry_valid [OF assms]
      check_mapping_entry_valid [OF assms]
    by (auto simp: fold_result_check)
  ultimately show ?thesis
    using assms unfolding validate_completed_image_def Let_def image_node_count_def [symmetric]
      image_adjacency_count_def [symmetric]
    by (simp add: valid_image_def checked_add_def list_ex_windows2)
qed

section \<open>Correctness of the compiler\<close>

lemma compile_steps:
  assumes "compile_routing_image_impl reserve records maximum_bytes = Inr img"
  obtains mf required mapping outgoing counted offsets arrays where
    "length (cg_nodes records) \<le> U32_MAX"
    "manifest (length (cg_nodes records)) (length (cg_relation_kinds records))
       (length (cg_edges records)) = Inr mf"
    "byte_counts_checked_total (mf_byte_counts mf) = Some required"
    "case maximum_bytes of None \<Rightarrow> True | Some limit \<Rightarrow> required \<le> limit"
    "distinct (map nr_id (cg_nodes records))" "distinct (map rr_id (cg_relation_kinds records))"
    "distinct (map er_id (cg_edges records))"
    "fold_result (assign_dense (length (cg_nodes records))) (enumerate 0 (node_ids_of records)) [] = Inr mapping"
    "fold_result (bucket_edge reserve mapping (relation_ids_of records)) (cg_edges records)
       (replicate (length (cg_nodes records)) [], 0) = Inr (outgoing, counted)"
    "fold_result push_offset (map (sort_key ce_edge) outgoing) [0] = Inr offsets"
    "fold_result (push_adjacency (relation_ids_of records)) (concat (map (sort_key ce_edge) outgoing))
        \<lparr>ca_destinations = [], ca_relations = [], ca_relation_indexes = [],
         ca_base_weight_bits = [], ca_edge_ids = []\<rparr> = Inr arrays"
    "img = \<lparr>im_external_to_dense = mapping, im_dense_to_external = node_ids_of records,
         im_offsets = offsets, im_destinations = ca_destinations arrays,
         im_relation_ids = ca_relations arrays, im_relation_indexes = ca_relation_indexes arrays,
         im_base_weight_bits = ca_base_weight_bits arrays, im_edge_ids = ca_edge_ids arrays,
         im_confirmed_relation_ids = relation_ids_of records, im_manifest = mf\<rparr>"
  using assms unfolding compile_routing_image_impl_def Let_def node_ids_of_def [symmetric]
    relation_ids_of_def [symmetric]
  by (elim rbind_InrE)
    (auto simp: validate_node_count_def rbind_Inr_iff split: if_splits option.splits prod.splits intro: that)

lemma adjacency_concat:
  "concat (map (\<lambda>n. map (compiled_of nodes) (edges_from records n)) (node_ids_of records))
    = map (compiled_of nodes) (adjacency_of records)"
  by (simp add: adjacency_of_def map_concat comp_def)

lemma offsets_of_buckets:
  "map (\<lambda>i. length (concat (take i (map (\<lambda>n. map f (edges_from records n)) (node_ids_of records)))))
      [0..<Suc (length (node_ids_of records))] = im_offsets (image_of records)"
proof -
  have "length (concat (take i (map (\<lambda>n. map f (edges_from records n)) (node_ids_of records))))
      = length (concat (take i (map (edges_from records) (node_ids_of records))))" for i
    by (simp add: take_map [symmetric] length_concat comp_def)
  then show ?thesis by (simp add: image_of_def Let_def del: upt_Suc)
qed

lemma compile_arrays:
  assumes "length (cg_nodes records) \<le> U32_MAX"
    "manifest (length (cg_nodes records)) (length (cg_relation_kinds records))
       (length (cg_edges records)) = Inr mf"
    "byte_counts_checked_total (mf_byte_counts mf) = Some required"
    "case maximum_bytes of None \<Rightarrow> True | Some limit \<Rightarrow> required \<le> limit"
    "distinct (map nr_id (cg_nodes records))" "distinct (map rr_id (cg_relation_kinds records))"
    "distinct (map er_id (cg_edges records))"
    "fold_result (assign_dense (length (cg_nodes records))) (enumerate 0 (node_ids_of records)) [] = Inr mapping"
    "fold_result (bucket_edge reserve mapping (relation_ids_of records)) (cg_edges records)
       (replicate (length (cg_nodes records)) [], 0) = Inr (outgoing, counted)"
    "fold_result push_offset (map (sort_key ce_edge) outgoing) [0] = Inr offsets"
    "fold_result (push_adjacency (relation_ids_of records)) (concat (map (sort_key ce_edge) outgoing))
        \<lparr>ca_destinations = [], ca_relations = [], ca_relation_indexes = [],
         ca_base_weight_bits = [], ca_edge_ids = []\<rparr> = Inr arrays"
  shows "valid_records records \<and> records_fit records maximum_bytes \<and> counted = length (cg_edges records)
    \<and> \<lparr>im_external_to_dense = mapping, im_dense_to_external = node_ids_of records,
         im_offsets = offsets, im_destinations = ca_destinations arrays,
         im_relation_ids = ca_relations arrays, im_relation_indexes = ca_relation_indexes arrays,
         im_base_weight_bits = ca_base_weight_bits arrays, im_edge_ids = ca_edge_ids arrays,
         im_confirmed_relation_ids = relation_ids_of records, im_manifest = mf\<rparr> = image_of records"
proof -
  let ?nodes = "node_ids_of records" and ?rels = "relation_ids_of records"
  have ids: "sorted ?nodes" "distinct ?nodes" "length ?nodes = length (cg_nodes records)"
      "sorted ?rels" "length ?nodes \<le> U32_MAX + 1"
    using assms(1,5) by (simp_all add: node_ids_of_def relation_ids_of_def)
  have mf: "mf = manifest_of (length (cg_nodes records)) (length (cg_relation_kinds records))
        (length (cg_edges records))"
      "required = image_bytes (length (cg_nodes records)) (length (cg_relation_kinds records))
        (length (cg_edges records))" "required \<le> U64_MAX"
    using manifest_total_iff [THEN iffD1, OF conjI, OF assms(2,3)] by simp_all
  have mapping: "mapping = dense_mapping ?nodes" using assms(8) ids by (simp add: assign_dense_all)
  have b: "\<forall>e \<in> set (cg_edges records). edge_fits ?nodes ?rels e"
      "outgoing = buckets_of ?nodes (cg_edges records)" "counted = length (cg_edges records)"
    using bucket_fold_sound [OF ids(1,2,5,4), of reserve "cg_edges records" "[]" 0] assms(9)
    by (auto simp: mapping replicate_buckets ids(3) [symmetric])
  have valid: "valid_records records"
    using assms(5-7) b(1) by (simp add: valid_records_def edge_fits_def edge_record_ok_def)
  note adj = valid_records_ids(3,4) [OF valid]
  have "length (cg_edges records) \<le> U64_MAX" using mf by (simp add: image_bytes_def)
  then have offsets: "offsets = im_offsets (image_of records)"
    using assms(10) push_offset_all [of "map (sort_key ce_edge) outgoing"] adj(1)
    by (simp add: b(2) sorted_buckets adjacency_concat offsets_of_buckets del: upt_Suc)
  have "\<forall>e \<in> set (adjacency_of records). binary_search ?rels (er_relation_kind e) \<noteq> None"
    using b(1) adj(2) ids(4) by (simp add: edge_fits_def binary_search_None_iff)
  then have arrays: "\<forall>e \<in> set (cg_edges records). relation_rank records e \<le> U32_MAX"
      "arrays = \<lparr>ca_destinations = im_destinations (image_of records),
        ca_relations = im_relation_ids (image_of records),
        ca_relation_indexes = im_relation_indexes (image_of records),
        ca_base_weight_bits = im_base_weight_bits (image_of records),
        ca_edge_ids = im_edge_ids (image_of records)\<rparr>"
    using assms(11) adj(2)
    by (simp_all add: b(2) sorted_buckets adjacency_concat push_adjacency_fold compiled_of_def
        relation_rank_def image_of_def Let_def comp_def)
  have "records_fit records maximum_bytes"
    using assms(1,4) mf(3) arrays(1) unfolding mf(2) by (simp add: records_fit_def Let_def)
  with valid b(3) show ?thesis
    by (simp add: offsets arrays(2) mapping mf(1) image_of_def Let_def)
qed

lemma compile_sound:
  assumes "compile_routing_image_impl reserve records maximum_bytes = Inr img"
  shows "valid_records records \<and> records_fit records maximum_bytes \<and> img = image_of records"
  using assms
proof (cases rule: compile_steps)
  case (1 mf required mapping outgoing counted offsets arrays)
  from compile_arrays [OF 1(1-11)] 1(12) show ?thesis by blast
qed

lemma compile_complete:
  assumes "valid_records records" "records_fit records maximum_bytes" "\<And>s n. reserve s n"
  shows "compile_routing_image_impl reserve records maximum_bytes = Inr (image_of records)"
proof -
  let ?nodes = "node_ids_of records" and ?rels = "relation_ids_of records"
  let ?n = "length (cg_nodes records)" and ?k = "length (cg_relation_kinds records)"
    and ?m = "length (cg_edges records)"
  note ids = valid_records_ids [OF assms(1)]
  have fit: "?n \<le> U32_MAX" "image_bytes ?n ?k ?m \<le> U64_MAX"
      "case maximum_bytes of None \<Rightarrow> True | Some limit \<Rightarrow> image_bytes ?n ?k ?m \<le> limit"
      "\<forall>e \<in> set (cg_edges records). relation_rank records e \<le> U32_MAX"
    using assms(2) by (simp_all add: records_fit_def Let_def)
  have mf: "manifest ?n ?k ?m = Inr (manifest_of ?n ?k ?m)"
      "byte_counts_checked_total (mf_byte_counts (manifest_of ?n ?k ?m)) = Some (image_bytes ?n ?k ?m)"
    using manifest_total_iff [of ?n ?k ?m] fit(2) by auto
  have dup: "reject_duplicate ?nodes f1 = Inr ()" "reject_duplicate ?rels f2 = Inr ()"
      "reject_duplicate (sort (map er_id (cg_edges records))) f3 = Inr ()" for f1 f2 f3
    using assms(1) by (simp_all add: valid_records_def)
  have m: "?m \<le> U64_MAX" "Suc ?n \<le> U64_MAX" using fit(1,2) by (simp_all add: image_bytes_def U32_MAX_def U64_MAX_def)
  have buckets: "fold_result (bucket_edge reserve (dense_mapping ?nodes) ?rels) (cg_edges records)
      (replicate ?n [], 0) = Inr (buckets_of ?nodes (cg_edges records), ?m)"
    using bucket_fold_complete [OF ids(5,1) _ ids(6), of "cg_edges records" 0 reserve "[]"] assms(1,3) fit(1) m(1)
    by (simp add: replicate_buckets ids(7) [symmetric] valid_records_def edge_record_ok_def edge_fits_def)
  have offsets: "fold_result push_offset (map (\<lambda>n. map (compiled_of ?nodes) (edges_from records n)) ?nodes) [0]
      = Inr (im_offsets (image_of records))"
    using push_offset_all [of "map (\<lambda>n. map (compiled_of ?nodes) (edges_from records n)) ?nodes"] m(1) ids(3)
    by (simp add: adjacency_concat offsets_of_buckets del: upt_Suc)
  have "\<forall>e \<in> set (cg_edges records). binary_search ?rels (er_relation_kind e) \<noteq> None"
    using assms(1) ids(6) by (simp add: binary_search_None_iff valid_records_def edge_record_ok_def)
  then have arrays: "fold_result (push_adjacency ?rels) (map (compiled_of ?nodes) (adjacency_of records))
      \<lparr>ca_destinations = [], ca_relations = [], ca_relation_indexes = [],
       ca_base_weight_bits = [], ca_edge_ids = []\<rparr> =
      Inr \<lparr>ca_destinations = im_destinations (image_of records),
        ca_relations = im_relation_ids (image_of records),
        ca_relation_indexes = im_relation_indexes (image_of records),
        ca_base_weight_bits = im_base_weight_bits (image_of records),
        ca_edge_ids = im_edge_ids (image_of records)\<rparr>"
    using fit(4) ids(4)
    by (simp add: push_adjacency_fold compiled_of_def relation_rank_def image_of_def Let_def comp_def)
  have last: "im_offsets (image_of records) \<noteq> []" "last (im_offsets (image_of records)) = ?m"
    using ids(3) by (simp_all add: image_of_last)
  have lim: "(case maximum_bytes of Some limit \<Rightarrow> if image_bytes ?n ?k ?m > limit
            then Inl (Failed (TopologyLimitExceeded (image_bytes ?n ?k ?m) limit)) else Inr ()
        | None \<Rightarrow> Inr ()) = (Inr () :: unit compiled)"
    using fit(3) by (simp split: option.splits)
  have assign: "fold_result (assign_dense ?n) (enumerate 0 ?nodes) [] = Inr (dense_mapping ?nodes)"
    using fit(1) ids(7) by (simp add: assign_dense_all)
  have img: "\<lparr>im_external_to_dense = dense_mapping ?nodes, im_dense_to_external = ?nodes,
         im_offsets = im_offsets (image_of records), im_destinations = im_destinations (image_of records),
         im_relation_ids = im_relation_ids (image_of records), im_relation_indexes = im_relation_indexes (image_of records),
         im_base_weight_bits = im_base_weight_bits (image_of records), im_edge_ids = im_edge_ids (image_of records),
         im_confirmed_relation_ids = ?rels, im_manifest = manifest_of ?n ?k ?m\<rparr>
      = image_of records"
    by (simp add: image_of_def Let_def)
  show ?thesis
    using validate_completed_image_valid [OF image_of_valid [OF assms(1,2)]]
    unfolding compile_routing_image_impl_def Let_def node_ids_of_def [symmetric]
    relation_ids_of_def [symmetric]
    by (simp add: validate_node_count_def fit(1) mf lim try_vec_def assms(3) dup
        assign ids(7) buckets sorted_buckets adjacency_concat offsets arrays last
        checked_add_def m(2) image_of_fields(5,6) ids(3) img)
qed

text \<open>The compiler neither panics nor returns an image its own checks reject.\<close>

definition foreseen :: "compile_error fault \<Rightarrow> bool" where
  "foreseen e = (case e of Panicked \<Rightarrow> False | Failed (InvalidImage _) \<Rightarrow> False | Failed _ \<Rightarrow> True)"

lemma errs_in_steps [simp]:
  "errs_in foreseen (try_vec reserve n s)"
  "errs_in foreseen (validate_node_count n)"
  "errs_in foreseen (push_offset b os)"
  "errs_in foreseen (assign_dense n entry acc)"
  by (auto simp: try_vec_def validate_node_count_def push_offset_def assign_dense_def foreseen_def
      intro!: errs_in_rbind split: prod.splits)

lemma errs_in_reject_duplicate:
  "(\<And>x. foreseen (Failed (f x))) \<Longrightarrow> errs_in foreseen (reject_duplicate xs f)"
  by (auto simp: reject_duplicate_def split: option.splits)

lemma errs_in_manifest: "errs_in foreseen (map_err Failed (manifest n k m))"
proof -
  have "errs_in (\<lambda>e. foreseen (Failed e)) (manifest n k m)"
    unfolding manifest_def manifest_bytes_def
    by (intro errs_in_rbind) (simp_all add: foreseen_def)
  then show ?thesis by (cases "manifest n k m") (simp_all add: errs_in_def)
qed

lemma errs_in_bucket_fold:
  assumes "sorted nodes" "distinct nodes" "length nodes \<le> U32_MAX + 1" "length bs = length nodes"
  shows "errs_in foreseen (fold_result (bucket_edge reserve (dense_mapping nodes) relations) es (bs, k))"
  using assms(4)
proof (induction es arbitrary: bs k)
  case (Cons e es)
  have idx: "dense_as_usize d < length bs" if "find_dense (dense_mapping nodes) n = Some d" for n d
    using that dense_of_usize_nth(1) [OF assms(1-3), of n] Cons.prems assms(1,2)
    by (auto simp: find_dense_mapping split: if_splits)
  then have "errs_in foreseen (bucket_edge reserve (dense_mapping nodes) relations e (bs, k))"
    unfolding bucket_edge_def
    by (auto simp: foreseen_def index_in errs_in_def [of _ "map_err _ _"] map_err_def
        intro!: errs_in_rbind split: sum.splits)
  moreover have "length (fst st) = length nodes"
    if "bucket_edge reserve (dense_mapping nodes) relations e (bs, k) = Inr st" for st
    using that Cons.prems by (auto simp: bucket_edge_def rbind_Inr_iff split: if_splits)
  ultimately show ?case
    using Cons.IH by (auto intro!: errs_in_rbind)
qed simp

lemma errs_in_adjacency_fold:
  assumes "\<forall>e \<in> set es. binary_search relations (ce_relation e) \<noteq> None"
  shows "errs_in foreseen (fold_result (push_adjacency relations) es a)"
  using assms
  by (intro errs_in_fold_result) (auto simp: push_adjacency_def foreseen_def intro!: errs_in_rbind)

lemma bucket_relations_found:
  assumes "length (node_ids_of records) \<le> U32_MAX + 1" "distinct (map nr_id (cg_nodes records))"
    and "fold_result (bucket_edge reserve (dense_mapping (node_ids_of records)) (relation_ids_of records))
      (cg_edges records) (replicate (length (node_ids_of records)) [], 0) = Inr (outgoing, counted)"
  shows "\<forall>e \<in> set (concat (map (sort_key ce_edge) outgoing)).
    binary_search (relation_ids_of records) (ce_relation e) \<noteq> None"
proof -
  have s: "sorted (node_ids_of records)" "distinct (node_ids_of records)" "sorted (relation_ids_of records)"
    using assms(2) by (simp_all add: node_ids_of_def relation_ids_of_def)
  have "\<forall>e \<in> set (cg_edges records). edge_fits (node_ids_of records) (relation_ids_of records) e"
      "outgoing = buckets_of (node_ids_of records) (cg_edges records)"
    using bucket_fold_sound [OF s(1,2) assms(1) s(3), of reserve "cg_edges records" "[]" 0] assms(3)
    by (auto simp: replicate_buckets)
  then show ?thesis
    by (auto simp: buckets_of_def compiled_of_def edge_fits_def binary_search_None_iff s(3))
qed

lemma compile_errs: "errs_in foreseen (compile_routing_image_impl reserve records maximum_bytes)"
proof (cases "length (cg_nodes records) \<le> U32_MAX")
  case False
  then show ?thesis by (simp add: compile_routing_image_impl_def validate_node_count_def foreseen_def)
next
  case True
  have n: "length (node_ids_of records) = length (cg_nodes records)"
    by (simp add: node_ids_of_def)
  have mapping: "fold_result (assign_dense (length (cg_nodes records))) (enumerate 0 (node_ids_of records)) []
      = Inr (dense_mapping (node_ids_of records))"
    using True by (simp add: assign_dense_all n)
  have ids: "sorted (node_ids_of records)"
    "distinct (map nr_id (cg_nodes records)) \<Longrightarrow> distinct (node_ids_of records)"
    by (simp_all add: node_ids_of_def)
  let ?img = "\<lambda>mapping offsets arrays mf.
       \<lparr>im_external_to_dense = mapping, im_dense_to_external = node_ids_of records,
         im_offsets = offsets, im_destinations = ca_destinations arrays,
         im_relation_ids = ca_relations arrays, im_relation_indexes = ca_relation_indexes arrays,
         im_base_weight_bits = ca_base_weight_bits arrays, im_edge_ids = ca_edge_ids arrays,
         im_confirmed_relation_ids = relation_ids_of records, im_manifest = mf\<rparr>"
  have fin: "offsets \<noteq> [] \<and> last offsets = counted \<and> length offsets = Suc (length (cg_nodes records))
      \<and> length (ca_destinations arrays) = counted
      \<and> validate_completed_image (?img mapping offsets arrays mf) = Inr ()"
    if "valid_records records \<and> records_fit records maximum_bytes \<and> counted = length (cg_edges records)
      \<and> ?img mapping offsets arrays mf = image_of records" for mapping offsets arrays mf counted
  proof -
    from that have eq: "?img mapping offsets arrays mf = image_of records" by blast
    have "offsets = im_offsets (image_of records)" "ca_destinations arrays = im_destinations (image_of records)"
      using arg_cong [OF eq, of im_offsets] arg_cong [OF eq, of im_destinations] by simp_all
    with that eq show ?thesis
      using valid_records_ids [of records] image_of_last [of records]
        validate_completed_image_valid [OF image_of_valid, of records maximum_bytes]
      by (simp add: image_of_fields)
  qed
  show ?thesis
    unfolding compile_routing_image_impl_def Let_def node_ids_of_def [symmetric]
      relation_ids_of_def [symmetric] mapping
    apply (intro errs_in_rbind)
    apply (simp_all add: errs_in_manifest errs_in_reject_duplicate foreseen_def)
    subgoal by (simp add: foreseen_def split: option.splits)
    subgoal using errs_in_bucket_fold [OF ids] True by (simp add: n)
    subgoal premises p for mf required mapping st
    proof -
      obtain outgoing counted where st: "st = (outgoing, counted)" by (cases st)
      have lim: "case maximum_bytes of None \<Rightarrow> True | Some limit \<Rightarrow> required \<le> limit"
        using p(4) by (auto split: option.splits if_splits)
      have m: "fold_result (assign_dense (length (cg_nodes records))) (enumerate 0 (node_ids_of records)) [] = Inr mapping"
        using p(8) \<open>fold_result (assign_dense _) _ _ = _\<close> by simp
      have adj: "errs_in foreseen (fold_result (push_adjacency (relation_ids_of records)) (concat (map (sort_key ce_edge) outgoing)) a)" for a
        using bucket_relations_found [of records reserve outgoing counted] p True
        by (intro errs_in_adjacency_fold) (simp add: n st)
      show ?thesis
        unfolding st prod.case
        apply (intro errs_in_rbind)
        apply (simp_all add: adj foreseen_def errs_in_fold_result)
        using fin [OF compile_arrays [OF True p(2,3) lim p(6,10,12) m]] p
        by (simp add: st)
    qed
    done
qed

lemma collect_results_map: "(\<And>x. x \<in> set xs \<Longrightarrow> f x = Inr (g x)) \<Longrightarrow> collect_results (map f xs) = Inr (map g xs)"
  by (induction xs) simp_all

lemma image_of_outgoing:
  assumes "valid_records records" "records_fit records limit" "n \<in> set (node_ids_of records)"
  shows "\<exists>d es. image_dense_node_id (image_of records) n = Some d
    \<and> image_external_node_id (image_of records) d = Some n
    \<and> image_outgoing_edges (image_of records) d = Some (Inr es)
    \<and> map (\<lambda>oe. (oe_edge_id oe, image_external_node_id (image_of records) (oe_destination oe),
          oe_relation_id oe, oe_base_weight oe)) es
      = map (\<lambda>e. (er_id e, Some (er_destination e), er_relation_kind e, er_base_weight e))
          (edges_from records n)"
proof -
  let ?img = "image_of records" and ?nodes = "node_ids_of records"
  let ?d = "dense_of ?nodes n"
  note ids = valid_records_ids [OF assms(1)]
  have v: "valid_image ?img" using image_of_valid assms by blast
  have len: "length ?nodes \<le> U32_MAX + 1" using assms(2) ids(7) by (simp add: records_fit_def Let_def)
  note dn = dense_of_usize_nth [OF ids(5,1) len]
  have d: "dense_as_usize ?d < image_node_count ?img" "?nodes ! dense_as_usize ?d = n"
    using dn [OF assms(3)] by (simp_all add: image_node_count_def image_of_fields)
  obtain a b where ab: "image_outgoing_range ?img ?d = Some (a, b)" "b \<le> image_adjacency_count ?img"
      "a = im_offsets ?img ! dense_as_usize ?d" "b = im_offsets ?img ! (dense_as_usize ?d + 1)"
    using valid_image_outgoing_range [OF v d(1)] by metis
  have es: "image_outgoing_edges ?img ?d = Some (Inr (map (entry_edge ?img) [a..<b]))"
    using ab(1,2)
    by (auto simp: image_outgoing_edges_def intro!: collect_results_map valid_image_edge_at [OF v])
  have ext: "image_external_node_id ?img (dense_of ?nodes m) = Some m" if "m \<in> set ?nodes" for m
    using dn [OF that] by (simp add: image_external_node_id_def image_of_fields)
  let ?view = "\<lambda>e. (er_id e, Some (er_destination e), er_relation_kind e, er_base_weight e)"
  have "map (\<lambda>oe. (oe_edge_id oe, image_external_node_id ?img (oe_destination oe),
          oe_relation_id oe, oe_base_weight oe)) (map (entry_edge ?img) [a..<b])
      = map ?view (map (\<lambda>i. adjacency_of records ! i) [a..<b])"
  proof -
    have "er_destination (adjacency_of records ! i) \<in> set ?nodes" if "i < b" for i
    proof -
      have "adjacency_of records ! i \<in> set (cg_edges records)"
        using that ab(2) ids(4) nth_mem [of i "adjacency_of records"]
        by (simp add: image_adjacency_count_def image_of_fields)
      then show ?thesis using assms(1) by (simp add: valid_records_def edge_record_ok_def)
    qed
    with ab(2) ext show ?thesis
      by (simp add: entry_edge_def image_of_def [of records] Let_def image_adjacency_count_def)
  qed
  also have "map (\<lambda>i. adjacency_of records ! i) [a..<b] = edges_from records n"
    using image_of_bucket [of "dense_as_usize ?d" records] d ab(3,4)
    by (simp add: image_node_count_def image_of_fields)
  finally show ?thesis
    using es ext [OF assms(3)] valid_image_dense_node_id [OF v, of n ?d] d
    by (auto simp: image_of_fields)
qed

section \<open>Properties\<close>

text \<open>
  C16: With every reservation granted, the compiler succeeds exactly on record sets with distinct
  identifiers, resolvable endpoints and relation kinds and weights in range, whose image fits
  the byte limit and the index widths; its result is the image given by \<open>image_of\<close>.
\<close>

theorem compile_exact:
  assumes "\<And>s n. reserve s n"
  shows "compile_routing_image_with_limit reserve records maximum_bytes = Inr img \<longleftrightarrow>
    valid_records records \<and> records_fit records (Some maximum_bytes) \<and> img = image_of records"
  using compile_sound compile_complete assms unfolding compile_routing_image_with_limit_def by blast

text \<open>
  C17: The image is the confirmed graph and nothing else. Whatever the limit and the allocator do, a
  returned image satisfies the image invariant and has as many nodes and edges as there are
  records. Dense numbers and confirmed node identifiers are in bijection: the two lookups are
  inverse to each other, exactly the confirmed nodes are found, and exactly the dense numbers below
  the node count stand for a node. The outgoing range of each node lists exactly its confirmed
  edges, in the order of their identifiers, with destination, relation kind and weight.
\<close>

theorem compile_represents:
  assumes "compile_routing_image_impl reserve records maximum_bytes = Inr img"
  shows "valid_image img \<and> im_confirmed_relation_ids img = relation_ids_of records
    \<and> image_node_count img = length (cg_nodes records) \<and> image_adjacency_count img = length (cg_edges records)
    \<and> (\<forall>n d. image_dense_node_id img n = Some d \<longleftrightarrow> image_external_node_id img d = Some n)
    \<and> (\<forall>n. image_dense_node_id img n = None \<longleftrightarrow> n \<notin> nr_id ` set (cg_nodes records))
    \<and> (\<forall>d. image_external_node_id img d = None \<longleftrightarrow> image_node_count img \<le> dense_as_usize d)
    \<and> (\<forall>n \<in> set (map nr_id (cg_nodes records)). \<exists>d es.
         image_dense_node_id img n = Some d \<and> image_external_node_id img d = Some n
         \<and> image_outgoing_edges img d = Some (Inr es :: compile_error fault + outgoing_edge list)
         \<and> map (\<lambda>oe. (oe_edge_id oe, image_external_node_id img (oe_destination oe),
              oe_relation_id oe, oe_base_weight oe)) es
           = map (\<lambda>e. (er_id e, Some (er_destination e), er_relation_kind e, er_base_weight e))
               (edges_from records n))"
proof -
  from compile_sound [OF assms]
  have c: "valid_records records" "records_fit records maximum_bytes" "img = image_of records" by auto
  note ids = valid_records_ids [OF c(1)] and v = image_of_valid [OF c(1,2)]
  have nodes: "set (map nr_id (cg_nodes records)) = set (node_ids_of records)" by (simp add: node_ids_of_def)
  have count: "image_node_count img = length (cg_nodes records)" "image_adjacency_count img = length (cg_edges records)"
    using ids(3,7) by (simp_all add: c(3) image_node_count_def image_adjacency_count_def image_of_fields)
  have inverse: "image_dense_node_id img n = Some d \<longleftrightarrow> image_external_node_id img d = Some n" for n d
    using valid_image_dense_node_id [OF v] by (auto simp: c(3) image_external_node_id_def get_Some_iff image_node_count_def)
  have out: "\<exists>d es. image_dense_node_id img n = Some d \<and> image_external_node_id img d = Some n
      \<and> image_outgoing_edges img d = Some (Inr es :: compile_error fault + outgoing_edge list)
      \<and> map (\<lambda>oe. (oe_edge_id oe, image_external_node_id img (oe_destination oe), oe_relation_id oe, oe_base_weight oe)) es
        = map (\<lambda>e. (er_id e, Some (er_destination e), er_relation_kind e, er_base_weight e)) (edges_from records n)"
    if "n \<in> set (map nr_id (cg_nodes records))" for n
    using image_of_outgoing [OF c(1,2)] that unfolding nodes c(3) by blast
  have absent: "image_dense_node_id img n = None \<longleftrightarrow> n \<notin> nr_id ` set (cg_nodes records)" for n
  proof
    assume "image_dense_node_id img n = None"
    with out [of n] show "n \<notin> nr_id ` set (cg_nodes records)" by auto
  next
    assume n: "n \<notin> nr_id ` set (cg_nodes records)"
    have "\<not> image_dense_node_id img n = Some d" for d
      using valid_image_dense_node_id [OF v, of n d] nth_mem n nodes by (auto simp: c(3) image_node_count_def image_of_fields)
    then show "image_dense_node_id img n = None" by (cases "image_dense_node_id img n") auto
  qed
  have "valid_image img" "im_confirmed_relation_ids img = relation_ids_of records"
    using v by (simp_all add: c(3) image_of_fields)
  moreover have "image_external_node_id img d = None \<longleftrightarrow> image_node_count img \<le> dense_as_usize d" for d
    by (auto simp: image_external_node_id_def get_def image_node_count_def)
  ultimately show ?thesis by (intro conjI allI ballI count inverse absent out)
qed

text \<open>
  C29: On every input the compiler returns an image or one of its documented input, size and
  allocation errors: it does not index out of bounds, and the internal consistency checks on
  the finished arrays never fail.
\<close>

theorem compile_never_invalid:
  "compile_routing_image_impl reserve records maximum_bytes \<noteq> Inl Panicked
   \<and> compile_routing_image_impl reserve records maximum_bytes \<noteq> Inl (Failed (InvalidImage reason))"
  using compile_errs [of reserve records maximum_bytes] by (auto simp: errs_in_def foreseen_def)

end
