(* ===== verification/Cpu_Routing.thy ===== *)
theory Cpu_Routing
  imports Routing_Compile
begin

text \<open>
  \<^verbatim>\<open>pathhydra-routing/src/cpu.rs\<close>: the single-origin, many-destination shortest-path search.

  \<^item> The \<^verbatim>\<open>RoutingTopology\<close> trait object is a record of its methods.
  \<^item> \<^verbatim>\<open>CancellationSignal\<close> is read through \<open>env_cancelled\<close>, the answer to the \<open>n\<close>-th poll; the
    number of polls made so far is part of the state.
  \<^item> \<^verbatim>\<open>BinaryHeap\<close> is a list from which the greatest entry in the source's \<^verbatim>\<open>Ord\<close> is popped.
  \<^item> Wall-clock durations of the diagnostics are not modelled.
\<close>

section \<open>Environment and topology\<close>

record environment =
  env_cancelled :: "nat \<Rightarrow> bool"
  env_reserve :: reserve

type_synonym 'a routed = "routing_error fault + 'a"

record routing_topology =
  tp_node_count :: nat
  tp_relation_kind_count :: nat
  tp_adjacency_count :: nat
  tp_dense_node_id :: "node_id \<Rightarrow> dense_node_id option"
  tp_external_node_id :: "dense_node_id \<Rightarrow> node_id option"
  tp_relation_ids :: "relation_id list"
  tp_outgoing_range :: "dense_node_id \<Rightarrow> (nat \<times> nat) routed"
  tp_edge_at :: "environment \<Rightarrow> nat \<Rightarrow> nat \<Rightarrow> (outgoing_edge option \<times> nat) routed"

definition image_topology :: "routing_image \<Rightarrow> routing_topology" where
  "image_topology img =
     \<lparr>tp_node_count = image_node_count img,
      tp_relation_kind_count = image_relation_kind_count img,
      tp_adjacency_count = image_adjacency_count img,
      tp_dense_node_id = image_dense_node_id img,
      tp_external_node_id = image_external_node_id img,
      tp_relation_ids = im_confirmed_relation_ids img,
      tp_outgoing_range = (\<lambda>source. ok_or (image_outgoing_range img source)
        (Failed (InternalInvariant ''node has no bounded outgoing range''))),
      tp_edge_at = (\<lambda>env polls i. rbind (image_edge_at img i) (\<lambda>edge. Inr (Some edge, polls)))\<rparr>"

section \<open>Frontier\<close>

datatype frontier_entry = FrontierEntry (fe_distance: f64) (fe_node: dense_node_id)

lemma f64_total_key_inject [simp]: "f64_total_key a = f64_total_key b \<longleftrightarrow> a = b"
proof -
  have split: "unat x = f64_magbits x + (if f64_negative x then 2 ^ 63 else 0)" for x :: f64
  proof -
    have "unat x < 2 ^ 64" using unsigned_less [of x] by simp
    then show ?thesis by (simp add: f64_magbits_def f64_negative_def mod_if, arith)
  qed
  have "f64_magbits x < 2 ^ 63" for x by (simp add: f64_magbits_def)
  from this [of a] this [of b] show ?thesis
    using split [of a] split [of b] by (auto simp: f64_total_key_def word_unat_eq_iff split: if_splits)
qed

text \<open>The entry's \<^verbatim>\<open>Ord\<close> is reversed, so that the greatest entry is the nearest one.\<close>

definition frontier_le :: "frontier_entry \<Rightarrow> frontier_entry \<Rightarrow> bool" where
  "frontier_le a b \<longleftrightarrow>
     f64_total_key (fe_distance b) < f64_total_key (fe_distance a)
     \<or> fe_distance b = fe_distance a \<and> fe_node b \<le> fe_node a"

definition frontier_less :: "frontier_entry \<Rightarrow> frontier_entry \<Rightarrow> bool" where
  "frontier_less a b \<longleftrightarrow>
     f64_total_key (fe_distance b) < f64_total_key (fe_distance a)
     \<or> fe_distance b = fe_distance a \<and> fe_node b < fe_node a"

instantiation frontier_entry :: linorder
begin

definition less_eq_frontier_entry :: "frontier_entry \<Rightarrow> frontier_entry \<Rightarrow> bool" where
  "less_eq_frontier_entry = frontier_le"

definition less_frontier_entry :: "frontier_entry \<Rightarrow> frontier_entry \<Rightarrow> bool" where
  "less_frontier_entry = frontier_less"

instance
  by standard
    (auto simp: less_eq_frontier_entry_def less_frontier_entry_def frontier_le_def frontier_less_def
      f64_total_key_inject [symmetric] simp del: f64_total_key_inject intro: frontier_entry.expand)

end

definition heap_pop :: "frontier_entry list \<Rightarrow> (frontier_entry \<times> frontier_entry list) option" where
  "heap_pop xs = (case xs of [] \<Rightarrow> None
     | x # rest \<Rightarrow> let m = fold max rest x in Some (m, remove1 m xs))"

record predecessor =
  pd_source :: dense_node_id
  pd_edge :: edge_id
  pd_adjacency :: nat

section \<open>Weights\<close>

definition effective_weight :: "base_weight \<Rightarrow> relation_multiplier \<Rightarrow> arithmetic_error + f64" where
  "effective_weight base_weight multiplier =
     (let effective = f64_mul (f64_from_f32 (base_weight_get base_weight))
        (f64_from_f32 (multiplier_get multiplier)) in
      if f64_is_finite effective then Inr effective else Inl (ArithmeticError EffectiveWeight))"

definition accumulate_distance :: "f64 \<Rightarrow> f64 \<Rightarrow> arithmetic_error + f64" where
  "accumulate_distance current effective =
     (let candidate = f64_add current effective in
      if f64_is_finite candidate then Inr candidate else Inl (ArithmeticError PathAddition))"

definition arithmetic :: "arithmetic_error + 'a \<Rightarrow> 'a routed" where
  "arithmetic m = map_err (\<lambda>e. Failed (Arithmetic e)) m"

section \<open>Search\<close>

record search_state =
  ss_distances :: "f64 option list"
  ss_finalized :: "bool list"
  ss_predecessors :: "predecessor option list option"
  ss_frontier :: "frontier_entry list"
  ss_pending :: "bool list"
  ss_pending_count :: nat
  ss_examined_edges :: nat
  ss_finalized_nodes :: nat
  ss_relaxation_updates :: nat
  ss_high_water :: nat
  ss_polls :: nat

record search_context =
  sc_topology :: routing_topology
  sc_environment :: environment
  sc_profile :: packed_relation_profile
  sc_budget :: search_budget

definition internal :: "string \<Rightarrow> 'a routed" where
  "internal reason = Inl (Failed (InternalInvariant reason))"

definition allocation_failed :: "string \<Rightarrow> 'a routed" where
  "allocation_failed structure = Inl (Failed (RoutingAllocationFailed structure))"

definition routing_try_vec :: "environment \<Rightarrow> nat \<Rightarrow> string \<Rightarrow> unit routed" where
  "routing_try_vec env capacity structure =
     (if env_reserve env structure capacity then Inr () else allocation_failed structure)"

definition try_filled :: "environment \<Rightarrow> nat \<Rightarrow> 'a \<Rightarrow> string \<Rightarrow> 'a list routed" where
  "try_filled env n v structure =
     rbind (routing_try_vec env n structure) (\<lambda>_. Inr (replicate n v))"

definition is_cancelled :: "search_context \<Rightarrow> search_state \<Rightarrow> bool \<times> search_state" where
  "is_cancelled ctx st =
     (env_cancelled (sc_environment ctx) (ss_polls st), st\<lparr>ss_polls := ss_polls st + 1\<rparr>)"

text \<open>A slice write panics out of range.\<close>

definition write_at :: "'a list \<Rightarrow> nat \<Rightarrow> 'a \<Rightarrow> 'e fault + 'a list" where
  "write_at xs i v = (if i < length xs then Inr (xs[i := v]) else Inl Panicked)"

definition set_predecessor :: "predecessor option list option \<Rightarrow> nat \<Rightarrow> dense_node_id \<Rightarrow> edge_id
    \<Rightarrow> nat \<Rightarrow> predecessor option list option routed" where
  "set_predecessor predecessors destination source edge adjacency =
     (case predecessors of None \<Rightarrow> Inr None
      | Some ps \<Rightarrow> rbind (write_at ps destination (Some \<lparr>pd_source = source, pd_edge = edge,
          pd_adjacency = adjacency\<rparr>)) (\<lambda>ps. Inr (Some ps)))"

definition push_frontier ::
    "environment \<Rightarrow> frontier_entry list \<Rightarrow> f64 \<Rightarrow> dense_node_id \<Rightarrow> frontier_entry list routed" where
  "push_frontier env frontier distance node =
     (if env_reserve env ''frontier'' (length frontier + 1)
      then Inr (FrontierEntry distance node # frontier)
      else allocation_failed ''frontier'')"

text \<open>The arms of the \<^verbatim>\<open>match\<close> on the recorded distance: a first or shorter distance is
  recorded and pushed; an equal one may replace the predecessor by a smaller pair.\<close>

definition improve :: "search_context \<Rightarrow> frontier_entry \<Rightarrow> outgoing_edge \<Rightarrow> nat \<Rightarrow> f64
    \<Rightarrow> search_state \<Rightarrow> search_state routed" where
  "improve ctx current edge adjacency candidate st =
     (let destination_index = dense_as_usize (oe_destination edge) in
      rbind (write_at (ss_distances st) destination_index (Some candidate)) (\<lambda>distances.
      rbind (set_predecessor (ss_predecessors st) destination_index (fe_node current)
        (oe_edge_id edge) adjacency) (\<lambda>predecessors.
      rbind (push_frontier (sc_environment ctx) (ss_frontier st) candidate
        (oe_destination edge)) (\<lambda>frontier.
      Inr (st\<lparr>ss_distances := distances, ss_predecessors := predecessors, ss_frontier := frontier,
        ss_relaxation_updates := saturating_add (ss_relaxation_updates st) 1,
        ss_high_water := max (ss_high_water st) (length frontier)\<rparr>)))))"

definition pair_less :: "dense_node_id \<times> edge_id \<Rightarrow> dense_node_id \<times> edge_id \<Rightarrow> bool" where
  "pair_less a b \<longleftrightarrow> fst a < fst b \<or> fst a = fst b \<and> snd a < snd b"

definition tie :: "frontier_entry \<Rightarrow> outgoing_edge \<Rightarrow> nat \<Rightarrow> search_state \<Rightarrow> search_state routed" where
  "tie current edge adjacency st =
     (case ss_predecessors st of None \<Rightarrow> Inr st
      | Some predecessors \<Rightarrow>
          let destination_index = dense_as_usize (oe_destination edge);
              proposed = (fe_node current, oe_edge_id edge) in
          rbind (index predecessors destination_index) (\<lambda>old.
          if (case old of Some old \<Rightarrow> pair_less proposed (pd_source old, pd_edge old) | None \<Rightarrow> True)
          then Inr (st\<lparr>ss_predecessors := Some (predecessors[destination_index :=
            Some \<lparr>pd_source = fe_node current, pd_edge = oe_edge_id edge,
              pd_adjacency = adjacency\<rparr>])\<rparr>)
          else Inr st))"

text \<open>The edge relaxation, after the budget and cancellation checks; the result's first
  component is the reason to leave the search, if any.\<close>

definition relax_match :: "search_context \<Rightarrow> frontier_entry \<Rightarrow> outgoing_edge \<Rightarrow> nat \<Rightarrow> f64
    \<Rightarrow> search_state \<Rightarrow> search_state routed" where
  "relax_match ctx current edge adjacency candidate st =
     rbind (index (ss_distances st) (dense_as_usize (oe_destination edge))) (\<lambda>recorded.
       case recorded of
         None \<Rightarrow> improve ctx current edge adjacency candidate st
       | Some existing \<Rightarrow>
           if f64_lt candidate existing then improve ctx current edge adjacency candidate st
           else if f64_eq candidate existing then tie current edge adjacency st
           else Inr st)"

definition relax_loaded :: "search_context \<Rightarrow> frontier_entry \<Rightarrow> outgoing_edge \<Rightarrow> nat
    \<Rightarrow> search_state \<Rightarrow> search_state routed" where
  "relax_loaded ctx current edge adjacency st =
     rbind (case relation_use_index (sc_profile ctx) (unat (oe_relation_index edge)) of
         None \<Rightarrow> internal ''edge relation is absent from packed profile''
       | Some u \<Rightarrow> Inr u) (\<lambda>relation_use.
     case relation_use of
       Disabled \<Rightarrow> Inr st
     | Enabled multiplier \<Rightarrow>
         rbind (index (ss_finalized st) (dense_as_usize (oe_destination edge))) (\<lambda>final.
         if final then Inr st
         else rbind (arithmetic (effective_weight (oe_base_weight edge) multiplier)) (\<lambda>effective.
           rbind (arithmetic (accumulate_distance (fe_distance current) effective)) (\<lambda>candidate.
           relax_match ctx current edge adjacency candidate st))))"

definition relax_edge :: "search_context \<Rightarrow> frontier_entry \<Rightarrow> nat \<Rightarrow> search_state
    \<Rightarrow> (completion_reason option \<times> search_state) routed" where
  "relax_edge ctx current adjacency st =
     (case is_cancelled ctx st of (cancelled, st) \<Rightarrow>
      if cancelled then Inr (Some Cancelled, st)
      else if \<not> budget_permits (sc_budget ctx) (ss_examined_edges st)
      then Inr (Some BudgetExhausted, st)
      else rbind (ok_or (checked_add (ss_examined_edges st) 1)
          (Failed (InternalInvariant ''examined-edge counter overflow''))) (\<lambda>examined.
        rbind (tp_edge_at (sc_topology ctx) (sc_environment ctx) (ss_polls st) adjacency)
          (\<lambda>(loaded, polls).
        let st = st\<lparr>ss_examined_edges := examined, ss_polls := polls\<rparr> in
        case loaded of
          None \<Rightarrow> Inr (Some Cancelled, st)
        | Some edge \<Rightarrow> rbind (relax_loaded ctx current edge adjacency st) (\<lambda>st. Inr (None, st)))))"

fun relax_range :: "search_context \<Rightarrow> frontier_entry \<Rightarrow> nat list \<Rightarrow> search_state
    \<Rightarrow> (completion_reason option \<times> search_state) routed" where
  "relax_range ctx current [] st = Inr (None, st)"
| "relax_range ctx current (adjacency # rest) st =
     rbind (relax_edge ctx current adjacency st) (\<lambda>(stop, st).
       case stop of Some reason \<Rightarrow> Inr (Some reason, st)
       | None \<Rightarrow> relax_range ctx current rest st)"

text \<open>One iteration of the \<^verbatim>\<open>'search\<close> loop.\<close>

definition finalize_node :: "nat \<Rightarrow> search_state \<Rightarrow> search_state routed" where
  "finalize_node i st =
     rbind (write_at (ss_finalized st) i True) (\<lambda>finalized.
     rbind (ok_or (checked_add (ss_finalized_nodes st) 1)
       (Failed (InternalInvariant ''finalized-node counter overflow''))) (\<lambda>finalized_nodes.
     rbind (index (ss_pending st) i) (\<lambda>pending.
     let st = st\<lparr>ss_finalized := finalized, ss_finalized_nodes := finalized_nodes\<rparr> in
     if \<not> pending then Inr st
     else if ss_pending_count st = 0 then Inl Panicked
     else Inr (st\<lparr>ss_pending := (ss_pending st)[i := False],
       ss_pending_count := ss_pending_count st - 1\<rparr>))))"

definition search_step ::
    "search_context \<Rightarrow> search_state \<Rightarrow> (completion_reason option \<times> search_state) routed" where
  "search_step ctx st =
     (case heap_pop (ss_frontier st) of
        None \<Rightarrow> Inr (Some FrontierExhausted, st)
      | Some (current, frontier) \<Rightarrow>
          let st = st\<lparr>ss_frontier := frontier\<rparr>; i = dense_as_usize (fe_node current) in
          rbind (index (ss_finalized st) i) (\<lambda>final.
          if final then Inr (None, st)
          else rbind (index (ss_distances st) i) (\<lambda>recorded.
          if (case recorded of None \<Rightarrow> True | Some d \<Rightarrow> \<not> f64_eq d (fe_distance current))
          then Inr (None, st)
          else case is_cancelled ctx st of (cancelled, st) \<Rightarrow>
            if cancelled then Inr (Some Cancelled, st)
            else rbind (finalize_node i st) (\<lambda>st.
              if ss_pending_count st = 0 then Inr (Some AllDestinationsFinalized, st)
              else rbind (tp_outgoing_range (sc_topology ctx) (fe_node current)) (\<lambda>(start, end).
                relax_range ctx current [start..<end] st)))))"

subsection \<open>Termination of the search loop\<close>

lemma write_at_Inr: "write_at xs i v = Inr ys \<longleftrightarrow> i < length xs \<and> ys = xs[i := v]"
  by (auto simp: write_at_def)

lemma is_cancelled_simps [simp]:
  "is_cancelled ctx st = (b, st') \<longleftrightarrow>
     b = env_cancelled (sc_environment ctx) (ss_polls st) \<and> st' = st\<lparr>ss_polls := ss_polls st + 1\<rparr>"
  by (auto simp: is_cancelled_def)

lemma improve_finalized:
  "improve ctx current edge i c st = Inr st' \<Longrightarrow> ss_finalized st' = ss_finalized st"
  by (auto simp: improve_def Let_def elim!: rbind_InrE)

lemma tie_finalized: "tie current edge i st = Inr st' \<Longrightarrow> ss_finalized st' = ss_finalized st"
  by (auto simp: tie_def Let_def rbind_Inr_iff split: option.splits if_splits)

lemma relax_loaded_finalized:
  "relax_loaded ctx current edge i st = Inr st' \<Longrightarrow> ss_finalized st' = ss_finalized st"
  by (auto simp: relax_loaded_def relax_match_def improve_finalized tie_finalized internal_def
      elim!: rbind_InrE split: option.splits if_splits relation_use.splits)

lemma relax_edge_finalized:
  "relax_edge ctx current i st = Inr (stop, st') \<Longrightarrow> ss_finalized st' = ss_finalized st"
  by (auto simp: relax_edge_def Let_def relax_loaded_finalized
      elim!: rbind_InrE split: if_splits option.splits prod.splits dest: relax_loaded_finalized)

lemma relax_range_finalized:
  "relax_range ctx current is st = Inr (stop, st') \<Longrightarrow> ss_finalized st' = ss_finalized st"
proof (induction "is" arbitrary: st)
  case (Cons i "is")
  then show ?case
    by (fastforce elim!: rbind_InrE split: prod.splits option.splits dest: relax_edge_finalized)
qed simp

definition unfinished :: "bool list \<Rightarrow> nat" where
  "unfinished bs = length (filter Not bs)"

lemma unfinished_update: "i < length bs \<Longrightarrow> \<not> bs ! i \<Longrightarrow> unfinished (bs[i := True]) < unfinished bs"
proof (induction bs arbitrary: i)
  case (Cons b bs)
  then show ?case by (cases i) (auto simp: unfinished_def)
qed simp

lemma fold_max_in: "fold max rest x \<in> set (x # rest)" for x :: "'a::linorder"
proof (induction rest arbitrary: x)
  case (Cons y rest)
  then show ?case using Cons.IH [of "max y x"] by (auto simp: max_def)
qed simp

lemma fold_max_ge: "y \<in> set (x # rest) \<Longrightarrow> y \<le> fold max rest x" for x :: "'a::linorder"
proof (induction rest arbitrary: x y)
  case (Cons z rest)
  have "max z x \<le> fold max rest (max z x)" by (rule Cons.IH) simp
  with Cons show ?case by auto
qed simp

lemma heap_pop_Some:
  assumes "heap_pop xs = Some (m, rest)"
  shows "m \<in> set xs" "rest = remove1 m xs" "\<forall>y \<in> set xs. y \<le> m" "length rest < length xs"
proof -
  obtain x ys where xs: "xs = x # ys" "m = fold max ys x" "rest = remove1 m xs"
    using assms by (auto simp: heap_pop_def Let_def split: list.splits)
  show "m \<in> set xs" using fold_max_in [of ys x] xs by simp
  moreover show "rest = remove1 m xs" by (fact xs)
  moreover show "\<forall>y \<in> set xs. y \<le> m" using fold_max_ge xs by auto
  ultimately show "length rest < length xs" by (auto simp: length_remove1 dest: length_pos_if_in_set)
qed

lemma heap_pop_None [simp]: "heap_pop xs = None \<longleftrightarrow> xs = []"
  by (auto simp: heap_pop_def Let_def split: list.splits)

lemma search_step_decreases:
  assumes "search_step ctx st = Inr (None, st')"
  shows "unfinished (ss_finalized st') < unfinished (ss_finalized st)
    \<or> ss_finalized st' = ss_finalized st \<and> length (ss_frontier st') < length (ss_frontier st)"
proof -
  obtain current frontier where pop: "heap_pop (ss_frontier st) = Some (current, frontier)"
    using assms by (auto simp: search_step_def split: option.splits)
  let ?i = "dense_as_usize (fe_node current)"
  have step: "ss_finalized st' = ss_finalized st \<and> ss_frontier st' = frontier
      \<or> ?i < length (ss_finalized st) \<and> \<not> ss_finalized st ! ?i
         \<and> ss_finalized st' = (ss_finalized st)[?i := True]"
    using assms pop
    by (auto simp: search_step_def Let_def finalize_node_def write_at_Inr index_Inr_iff
        elim!: rbind_InrE split: if_splits option.splits prod.splits dest!: relax_range_finalized)
  then show ?thesis
    using heap_pop_Some(4) [OF pop] unfinished_update by auto
qed

declare rbind_cong [fundef_cong]

function search_loop ::
    "search_context \<Rightarrow> search_state \<Rightarrow> (completion_reason \<times> search_state) routed" where
  "search_loop ctx st =
     rbind (search_step ctx st) (\<lambda>(stop, st').
       case stop of Some reason \<Rightarrow> Inr (reason, st') | None \<Rightarrow> search_loop ctx st')"
  by pat_completeness auto
termination
proof (relation "measures [\<lambda>(ctx, st). unfinished (ss_finalized st), \<lambda>(ctx, st). length (ss_frontier st)]")
  fix ctx st x stop and st' :: search_state
  assume "search_step ctx st = Inr x" "(stop, st') = x" "stop = None"
  then have "search_step ctx st = Inr (None, st')" by simp
  from search_step_decreases [OF this]
  show "((ctx, st'), ctx, st) \<in> measures [\<lambda>(ctx, st). unfinished (ss_finalized st),
      \<lambda>(ctx, st). length (ss_frontier st)]"
    by auto
qed simp

declare search_loop.simps [simp del]

section \<open>Path reconstruction\<close>

text \<open>The \<^verbatim>\<open>while\<close> loop of \<^verbatim>\<open>reconstruct_path\<close>. The steps are collected last to first. \<open>None\<close>
  is the cancelled path; the poll and step counters are returned in every case.\<close>

definition path_step_at :: "search_context \<Rightarrow> dense_node_id \<Rightarrow> predecessor \<Rightarrow> outgoing_edge
    \<Rightarrow> path_step routed" where
  "path_step_at ctx current predecessor edge =
     (if oe_edge_id edge \<noteq> pd_edge predecessor \<or> oe_destination edge \<noteq> current
      then internal ''predecessor edge endpoints or identity disagree''
      else rbind (case relation_use_index (sc_profile ctx) (unat (oe_relation_index edge)) of
          None \<Rightarrow> internal ''path edge relation is absent from packed profile''
        | Some u \<Rightarrow> Inr u) (\<lambda>relation_use.
      rbind (case relation_use of
          Disabled \<Rightarrow> internal ''path uses a disabled relation''
        | Enabled multiplier \<Rightarrow> Inr multiplier) (\<lambda>multiplier.
      rbind (arithmetic (effective_weight (oe_base_weight edge) multiplier)) (\<lambda>effective.
      rbind (ok_or (tp_external_node_id (sc_topology ctx) (pd_source predecessor))
        (Failed (InternalInvariant ''path source dense ID is out of bounds''))) (\<lambda>source.
      rbind (ok_or (tp_external_node_id (sc_topology ctx) current)
        (Failed (InternalInvariant ''path destination dense ID is out of bounds''))) (\<lambda>destination.
      Inr \<lparr>ps_edge_id = oe_edge_id edge, ps_source = source, ps_destination = destination,
           ps_relation_id = oe_relation_id edge, ps_base_weight = oe_base_weight edge,
           ps_multiplier = multiplier, ps_effective_weight = effective\<rparr>))))))"

definition load_predecessor :: "search_context \<Rightarrow> predecessor option list \<Rightarrow> dense_node_id \<Rightarrow> nat
    \<Rightarrow> ((predecessor \<times> outgoing_edge) option \<times> nat) routed" where
  "load_predecessor ctx predecessors current polls =
     rbind (ok_or (Option.bind (get predecessors (dense_as_usize current)) (\<lambda>p. p))
       (Failed (InternalInvariant ''exact destination has a missing predecessor''))) (\<lambda>predecessor.
     rbind (tp_outgoing_range (sc_topology ctx) (pd_source predecessor)) (\<lambda>(start, end).
     if \<not> (start \<le> pd_adjacency predecessor \<and> pd_adjacency predecessor < end)
     then internal ''predecessor edge is outside its source range''
     else rbind (tp_edge_at (sc_topology ctx) (sc_environment ctx) polls (pd_adjacency predecessor))
       (\<lambda>(loaded, polls).
     Inr (map_option (\<lambda>edge. (predecessor, edge)) loaded, polls))))"

function path_loop :: "search_context \<Rightarrow> dense_node_id \<Rightarrow> predecessor option list \<Rightarrow> dense_node_id
    \<Rightarrow> bool list \<Rightarrow> path_step list \<Rightarrow> nat \<Rightarrow> nat \<Rightarrow> (path_step list option \<times> nat \<times> nat) routed" where
  "path_loop ctx origin predecessors current visited reversed polls steps =
     (if current = origin then Inr (Some reversed, polls, steps)
      else if env_cancelled (sc_environment ctx) polls then Inr (None, polls + 1, steps)
      else rbind (index visited (dense_as_usize current)) (\<lambda>seen.
        if seen \<or> length reversed \<ge> tp_node_count (sc_topology ctx)
        then internal ''path predecessor cycle''
        else rbind (load_predecessor ctx predecessors current (polls + 1)) (\<lambda>(loaded, polls).
          case loaded of None \<Rightarrow> Inr (None, polls, steps)
          | Some (predecessor, edge) \<Rightarrow>
              rbind (path_step_at ctx current predecessor edge) (\<lambda>step.
              path_loop ctx origin predecessors (pd_source predecessor)
                (visited[dense_as_usize current := True]) (reversed @ [step]) polls
                (saturating_add steps 1)))))"
  by pat_completeness auto
termination
  by (relation "measure (\<lambda>(ctx, origin, predecessors, current, visited, reversed, polls, steps).
      unfinished visited)") (auto simp: index_Inr_iff intro: unfinished_update)

declare path_loop.simps [simp del]

definition sum_steps :: "path_step list \<Rightarrow> f64 routed" where
  "sum_steps steps =
     fold_result (\<lambda>step s. arithmetic (accumulate_distance s (ps_effective_weight step))) steps 0"

definition reconstruct_path :: "search_context \<Rightarrow> node_id \<Rightarrow> dense_node_id \<Rightarrow> node_id \<Rightarrow> dense_node_id
    \<Rightarrow> f64 \<Rightarrow> predecessor option list \<Rightarrow> nat \<Rightarrow> nat \<Rightarrow> (route_path option \<times> nat \<times> nat) routed" where
  "reconstruct_path ctx external_origin origin external_destination destination distance
      predecessors polls steps =
     (let path = (\<lambda>steps. \<lparr>pa_origin = external_origin, pa_destination = external_destination,
        pa_logical_distance = distance, pa_steps = steps\<rparr>);
          n = tp_node_count (sc_topology ctx); env = sc_environment ctx in
      if origin = destination then Inr (Some (path []), polls, steps)
      else rbind (try_filled env n False ''path validation state'') (\<lambda>visited.
        rbind (routing_try_vec env (n - 1) ''path steps'') (\<lambda>_.
        rbind (path_loop ctx origin predecessors destination visited [] polls steps)
          (\<lambda>(found, polls, steps).
        case found of None \<Rightarrow> Inr (None, polls, steps)
        | Some reversed \<Rightarrow>
            let ordered = rev reversed in
            rbind (sum_steps ordered) (\<lambda>summed.
            if \<not> f64_eq summed distance
            then internal ''path steps do not exactly reproduce distance''
            else Inr (Some (path ordered), polls, steps))))))"

section \<open>Routing a request\<close>

record cpu_search_diagnostics =
  cd_examined_edges :: nat
  cd_relaxation_updates :: nat
  cd_finalized_nodes :: nat
  cd_frontier_high_water_mark :: nat
  cd_unique_present_destinations :: nat
  cd_exact_destinations :: nat
  cd_unreachable_destinations :: nat
  cd_missing_destinations :: nat
  cd_incomplete_destinations :: nat
  cd_path_reconstruction_steps :: nat

definition mark_pending :: "dense_node_id \<Rightarrow> bool list \<times> nat \<Rightarrow> (bool list \<times> nat) routed" where
  "mark_pending dense state =
     (case state of (pending, pending_count) \<Rightarrow>
       rbind (index pending (dense_as_usize dense)) (\<lambda>marked.
       if marked then Inr (pending, pending_count)
       else Inr (pending[dense_as_usize dense := True], pending_count + 1)))"

text \<open>The state of the loop that classifies the destinations.\<close>

record result_state =
  re_results :: "destination_result list"
  re_steps :: nat
  re_cache :: "route_path option list option"
  re_reason :: completion_reason
  re_polls :: nat

definition exact_path :: "search_context \<Rightarrow> routing_request \<Rightarrow> dense_node_id \<Rightarrow> search_state
    \<Rightarrow> node_id \<Rightarrow> dense_node_id \<Rightarrow> f64 \<Rightarrow> result_state \<Rightarrow> (route_path option \<times> result_state) routed" where
  "exact_path ctx request origin st destination dense distance re =
     (case (ss_predecessors st, re_cache re) of
        (Some predecessors, Some path_cache) \<Rightarrow>
          rbind (index path_cache (dense_as_usize dense)) (\<lambda>cached.
          case cached of
            Some path \<Rightarrow> Inr (Some path, re)
          | None \<Rightarrow>
              rbind (reconstruct_path ctx (rq_origin request) origin destination dense distance
                predecessors (re_polls re) (re_steps re)) (\<lambda>(path, polls, steps).
              let re = re\<lparr>re_polls := polls, re_steps := steps\<rparr> in
              case path of
                Some p \<Rightarrow> Inr (Some p, re\<lparr>re_cache := Some (path_cache[dense_as_usize dense := Some p])\<rparr>)
              | None \<Rightarrow> Inr (None, re\<lparr>re_reason := Cancelled\<rparr>)))
      | _ \<Rightarrow> Inr (None, re))"

definition classify_destination :: "search_context \<Rightarrow> routing_request \<Rightarrow> dense_node_id \<Rightarrow> search_state
    \<Rightarrow> node_id \<times> dense_node_id option \<Rightarrow> result_state \<Rightarrow> result_state routed" where
  "classify_destination ctx request origin st entry re =
     (case entry of (destination, found) \<Rightarrow>
      rbind (case found of
          None \<Rightarrow> Inr (MissingNode, re)
        | Some dense \<Rightarrow>
            rbind (index (ss_finalized st) (dense_as_usize dense)) (\<lambda>final.
            if final \<or> dense = origin then
              rbind (index (ss_distances st) (dense_as_usize dense)) (\<lambda>recorded.
              rbind (ok_or recorded
                (Failed (InternalInvariant ''finalized destination has no distance''))) (\<lambda>distance.
              rbind (exact_path ctx request origin st destination dense distance re) (\<lambda>(path, re).
              Inr (Exact \<lparr>xr_logical_distance = distance, xr_path = path\<rparr>, re))))
            else if re_reason re = BudgetExhausted \<or> re_reason re = Cancelled
            then Inr (Incomplete, re) else Inr (Unreachable, re))) (\<lambda>(state, re).
      Inr (re\<lparr>re_results := re_results re @ [\<lparr>dr_destination = destination, dr_state = state\<rparr>]\<rparr>)))"

definition initial_search_state :: "nat \<Rightarrow> dense_node_id \<Rightarrow> predecessor option list option
    \<Rightarrow> bool list \<Rightarrow> nat \<Rightarrow> search_state" where
  "initial_search_state node_count origin predecessors pending pending_count =
     \<lparr>ss_distances = (replicate node_count None)[dense_as_usize origin := Some 0],
      ss_finalized = replicate node_count False, ss_predecessors = predecessors,
      ss_frontier = [FrontierEntry 0 origin], ss_pending = pending,
      ss_pending_count = pending_count, ss_examined_edges = 0, ss_finalized_nodes = 0,
      ss_relaxation_updates = 0, ss_high_water = 1, ss_polls = 0\<rparr>"

definition run_search ::
    "search_context \<Rightarrow> search_state \<Rightarrow> (completion_reason \<times> search_state) routed" where
  "run_search ctx st =
     (case is_cancelled ctx st of (cancelled, st) \<Rightarrow>
        if cancelled then Inr (Cancelled, st) else search_loop ctx st)"

fun is_exact :: "destination_state \<Rightarrow> bool" where
  "is_exact (Exact _) = True"
| "is_exact _ = False"

definition count_state :: "(destination_state \<Rightarrow> bool) \<Rightarrow> destination_result list \<Rightarrow> nat" where
  "count_state p results = length (filter (\<lambda>r. p (dr_state r)) results)"

definition respond :: "search_context \<Rightarrow> routing_request \<Rightarrow> nat \<Rightarrow> result_state \<Rightarrow> search_state
    \<Rightarrow> routing_response \<times> cpu_search_diagnostics" where
  "respond ctx request unique_present re st =
     (routing_response_new (rq_origin request) (re_results re) (pp_canonical (sc_profile ctx))
        (rq_tie_policy request) (rq_return_paths request)
        (ss_examined_edges st, ss_finalized_nodes st) (re_reason re),
      \<lparr>cd_examined_edges = ss_examined_edges st, cd_relaxation_updates = ss_relaxation_updates st,
       cd_finalized_nodes = ss_finalized_nodes st,
       cd_frontier_high_water_mark = ss_high_water st,
       cd_unique_present_destinations = unique_present,
       cd_exact_destinations = count_state is_exact (re_results re),
       cd_unreachable_destinations = count_state (\<lambda>s. s = Unreachable) (re_results re),
       cd_missing_destinations = count_state (\<lambda>s. s = MissingNode) (re_results re),
       cd_incomplete_destinations = count_state (\<lambda>s. s = Incomplete) (re_results re),
       cd_path_reconstruction_steps = re_steps re\<rparr>)"

definition no_present_destination ::
    "search_context \<Rightarrow> routing_request \<Rightarrow> routing_response \<times> cpu_search_diagnostics" where
  "no_present_destination ctx request =
     (routing_response_new (rq_origin request)
        (map (\<lambda>d. \<lparr>dr_destination = d, dr_state = MissingNode\<rparr>) (rq_destinations request))
        (pp_canonical (sc_profile ctx)) (rq_tie_policy request) (rq_return_paths request)
        (0, 0) AllDestinationsFinalized,
      \<lparr>cd_examined_edges = 0, cd_relaxation_updates = 0, cd_finalized_nodes = 0,
       cd_frontier_high_water_mark = 0, cd_unique_present_destinations = 0,
       cd_exact_destinations = 0, cd_unreachable_destinations = 0,
       cd_missing_destinations = length (rq_destinations request),
       cd_incomplete_destinations = 0, cd_path_reconstruction_steps = 0\<rparr>)"

text \<open>An optional array, allocated only when paths are requested.\<close>

definition optional_filled :: "environment \<Rightarrow> bool \<Rightarrow> nat \<Rightarrow> 'a \<Rightarrow> string \<Rightarrow> 'a list option routed" where
  "optional_filled env wanted n v structure =
     (if wanted then rbind (try_filled env n v structure) (\<lambda>xs. Inr (Some xs)) else Inr None)"

definition search_and_classify :: "search_context \<Rightarrow> routing_request \<Rightarrow> dense_node_id
    \<Rightarrow> dense_node_id option list \<Rightarrow> bool list \<Rightarrow> nat \<Rightarrow> (routing_response \<times> cpu_search_diagnostics) routed" where
  "search_and_classify ctx request origin dense_destinations pending pending_count =
     (let topology = sc_topology ctx; env = sc_environment ctx;
          node_count = tp_node_count topology in
      rbind (try_filled env node_count (None :: f64 option) ''distance array'') (\<lambda>_.
      rbind (try_filled env node_count False ''finalized array'') (\<lambda>_.
      rbind (optional_filled env (rq_return_paths request) node_count None ''predecessor array'')
        (\<lambda>predecessors.
      rbind (ok_or (checked_add (tp_adjacency_count topology) 1)
        (Failed ResourceEstimateOverflow)) (\<lambda>maximum_frontier_entries.
      rbind (routing_try_vec env (min maximum_frontier_entries (max node_count 1)) ''frontier'') (\<lambda>_.
      if \<not> dense_as_usize origin < node_count then Inl Panicked
      else rbind (run_search ctx (initial_search_state node_count origin predecessors pending
          pending_count)) (\<lambda>(completion_reason, st).
      rbind (routing_try_vec env (length (rq_destinations request)) ''response entries'') (\<lambda>_.
      rbind (optional_filled env (rq_return_paths request) node_count None ''shared path cache'')
        (\<lambda>path_cache.
      rbind (fold_result (classify_destination ctx request origin st)
        (zip (rq_destinations request) dense_destinations)
        \<lparr>re_results = [], re_steps = 0, re_cache = path_cache, re_reason = completion_reason,
         re_polls = ss_polls st\<rparr>) (\<lambda>re.
      Inr (respond ctx request pending_count re st)))))))))))"

definition route_topology_controlled :: "environment \<Rightarrow> routing_topology \<Rightarrow> routing_request
    \<Rightarrow> (routing_response \<times> cpu_search_diagnostics) routed" where
  "route_topology_controlled env topology request =
     rbind (ok_or (tp_dense_node_id topology (rq_origin request))
       (Failed (MissingOrigin (rq_origin request)))) (\<lambda>origin.
     rbind (map_err (\<lambda>e. case e of Panicked \<Rightarrow> Panicked | Failed e \<Rightarrow> Failed (InvalidProfile e))
       (pack_relation_ids (env_reserve env) (rq_profile request) (tp_relation_ids topology)))
       (\<lambda>profile.
     rbind (routing_try_vec env (length (rq_destinations request)) ''destination mapping'') (\<lambda>_.
     let dense_destinations = map (tp_dense_node_id topology) (rq_destinations request);
         ctx = \<lparr>sc_topology = topology, sc_environment = env, sc_profile = profile,
           sc_budget = rq_budget request\<rparr> in
     rbind (try_filled env (tp_node_count topology) False ''destination membership'') (\<lambda>pending.
     rbind (fold_result mark_pending (List.map_filter (\<lambda>d. d) dense_destinations) (pending, 0))
       (\<lambda>(pending, pending_count).
     if pending_count = 0 then Inr (no_present_destination ctx request)
     else search_and_classify ctx request origin dense_destinations pending pending_count)))))"

definition route_controlled :: "environment \<Rightarrow> routing_image \<Rightarrow> routing_request
    \<Rightarrow> (routing_response \<times> cpu_search_diagnostics) routed" where
  "route_controlled env img request = route_topology_controlled env (image_topology img) request"

definition route :: "reserve \<Rightarrow> routing_image \<Rightarrow> routing_request \<Rightarrow> routing_response routed" where
  "route reserve img request =
     rbind (route_controlled \<lparr>env_cancelled = (\<lambda>_. False), env_reserve = reserve\<rparr> img request)
       (\<lambda>(response, _). Inr response)"

section \<open>Working-set estimate\<close>

record cpu_working_set_estimate =
  we_bytes :: nat
  we_frontier_entries :: nat
  we_maximum_path_steps :: nat

text \<open>The \<^verbatim>\<open>size_of\<close> of the types whose layout the compiler chooses.\<close>

record type_sizes =
  ts_relation_use :: nat
  ts_relation_entry :: nat
  ts_option_dense :: nat
  ts_option_f64 :: nat
  ts_option_predecessor :: nat
  ts_option_arc_path :: nat
  ts_path_step :: nat
  ts_route_path :: nat
  ts_frontier_entry :: nat
  ts_destination_result :: nat

definition estimate_add :: "nat \<times> nat \<Rightarrow> nat \<Rightarrow> nat routed" where
  "estimate_add entry bytes =
     (case entry of (n, width) \<Rightarrow>
       ok_or (Option.bind (checked_mul n width) (checked_add bytes)) (Failed ResourceEstimateOverflow))"

fun count_unique_present :: "(node_id \<Rightarrow> dense_node_id option) \<Rightarrow> node_id list \<Rightarrow> node_id list \<Rightarrow> nat" where
  "count_unique_present lookup previous [] = 0"
| "count_unique_present lookup previous (d # ds) =
     (case lookup d of
        None \<Rightarrow> count_unique_present lookup (previous @ [d]) ds
      | Some dense \<Rightarrow>
          (if list_ex (\<lambda>p. lookup p = Some dense) previous then 0 else 1)
          + count_unique_present lookup (previous @ [d]) ds)"

definition estimate_topology_working_set ::
    "type_sizes \<Rightarrow> routing_topology \<Rightarrow> routing_request \<Rightarrow> cpu_working_set_estimate routed" where
  "estimate_topology_working_set sz topology request =
     (let nodes = tp_node_count topology; destinations = length (rq_destinations request);
          overflow = Failed ResourceEstimateOverflow in
      rbind (ok_or (checked_add (tp_adjacency_count topology) 1) overflow) (\<lambda>frontier_entries.
      let unique_present =
        count_unique_present (tp_dense_node_id topology) [] (rq_destinations request) in
      rbind (if rq_return_paths request
        then ok_or (checked_mul unique_present (nodes - 1)) overflow else Inr 0) (\<lambda>maximum_path_steps.
      rbind (fold_result estimate_add
        ([(tp_relation_kind_count topology, ts_relation_use sz),
          (tp_relation_kind_count topology, ts_relation_entry sz),
          (destinations, ts_option_dense sz), (nodes, 1), (nodes, ts_option_f64 sz), (nodes, 1)]
         @ (if rq_return_paths request
            then [(nodes, ts_option_predecessor sz), (nodes, ts_option_arc_path sz), (nodes, 1),
              (maximum_path_steps, ts_path_step sz), (unique_present, ts_route_path sz + 16)]
            else [])
         @ [(frontier_entries, ts_frontier_entry sz), (destinations, ts_destination_result sz)])
        64) (\<lambda>bytes.
      rbind (ok_or (if rq_return_paths request
          then Option.bind (checked_add 3 unique_present) (checked_add 8) else Some 8) overflow)
        (\<lambda>allocation_count.
      rbind (estimate_add (allocation_count, 16) bytes) (\<lambda>bytes.
      Inr \<lparr>we_bytes = bytes, we_frontier_entries = frontier_entries,
           we_maximum_path_steps = maximum_path_steps\<rparr>))))))"

definition estimate_cpu_working_set ::
    "type_sizes \<Rightarrow> routing_image \<Rightarrow> routing_request \<Rightarrow> cpu_working_set_estimate routed" where
  "estimate_cpu_working_set sz img request =
     estimate_topology_working_set sz (image_topology img) request"

end
