(* ===== verification/Search_Labels.thy ===== *)
theory Search_Labels
  imports Cpu_Routing
begin

text \<open>
  The mathematics of label-setting search, apart from the program: walks and their accumulated
  weight, the locale of weights whose addition is monotone and inflationary (rounded binary64
  addition of non-negative values is one), and the labelling invariant the search keeps with
  the three ways a step changes it.
\<close>

section \<open>Walks and path weights\<close>

text \<open>\<open>walk add zero edge origin x c\<close>: \<open>x\<close> is reached from \<open>origin\<close> along edges whose weights, added
  from the origin on, give \<open>c\<close>.\<close>

inductive walk :: "('w \<Rightarrow> 'w \<Rightarrow> 'w) \<Rightarrow> 'w \<Rightarrow> ('n \<Rightarrow> 'w \<Rightarrow> 'n \<Rightarrow> bool) \<Rightarrow> 'n \<Rightarrow> 'n \<Rightarrow> 'w \<Rightarrow> bool"
  for add zero edge origin where
  walk_origin: "walk add zero edge origin origin zero"
| walk_edge: "walk add zero edge origin x c \<Longrightarrow> edge x w y \<Longrightarrow> walk add zero edge origin y (add c w)"

text \<open>What the search needs of weights: nothing of exact arithmetic, only that adding a weight is
  monotone and does not decrease.\<close>

locale path_weights =
  fixes valid :: "'w::linorder \<Rightarrow> bool" and add :: "'w \<Rightarrow> 'w \<Rightarrow> 'w" and zero :: 'w
  assumes valid_zero: "valid zero"
    and valid_add: "valid a \<Longrightarrow> valid b \<Longrightarrow> valid (add a b)"
    and zero_least: "valid a \<Longrightarrow> zero \<le> a"
    and add_mono: "valid a \<Longrightarrow> valid a' \<Longrightarrow> valid b \<Longrightarrow> a \<le> a' \<Longrightarrow> add a b \<le> add a' b"
    and add_inflationary: "valid a \<Longrightarrow> valid b \<Longrightarrow> a \<le> add a b"
begin

lemma walk_valid:
  assumes "walk add zero edge origin x c" "\<And>x w y. edge x w y \<Longrightarrow> valid w"
  shows "valid c"
  using assms(1) by induction (auto intro: valid_zero valid_add assms(2))

text \<open>If the labels of a set of settled nodes respect their outgoing edges, then a walk either
  ends in a settled node with a label no greater than its weight, or some node outside the
  set has such a label.\<close>

lemma walk_settled:
  assumes "walk add zero edge origin z c" "label origin = Some zero"
    and weights: "\<And>x w y. edge x w y \<Longrightarrow> valid w"
    and labels: "\<And>x d. label x = Some d \<Longrightarrow> valid d"
    and settled: "\<And>x w y d. x \<in> S \<Longrightarrow> edge x w y \<Longrightarrow> label x = Some d \<Longrightarrow>
      \<exists>e. label y = Some e \<and> e \<le> add d w"
  shows "z \<in> S \<and> (\<exists>d. label z = Some d \<and> d \<le> c) \<or> (\<exists>v b. v \<notin> S \<and> label v = Some b \<and> b \<le> c)"
  using assms(1)
proof induction
  case walk_origin
  then show ?case using assms(2) by auto
next
  case (walk_edge x c w y)
  have "valid c" using walk_valid [OF walk_edge.hyps(1)] weights by blast
  from walk_edge.IH show ?case
  proof
    assume "x \<in> S \<and> (\<exists>d. label x = Some d \<and> d \<le> c)"
    then obtain d e where "label x = Some d" "d \<le> c" "label y = Some e" "e \<le> add d w"
      using settled [OF _ walk_edge.hyps(2)] by blast
    moreover from this have "add d w \<le> add c w"
      using add_mono labels weights [OF walk_edge.hyps(2)] \<open>valid c\<close> by blast
    ultimately have "label y = Some e" "e \<le> add c w" by auto
    then show ?case by (cases "y \<in> S") auto
  next
    assume "\<exists>v b. v \<notin> S \<and> label v = Some b \<and> b \<le> c"
    moreover have "c \<le> add c w"
      using add_inflationary weights [OF walk_edge.hyps(2)] \<open>valid c\<close> by blast
    ultimately show ?case by (meson order_trans)
  qed
qed

end

interpretation f64_weights: path_weights f64_nonneg f64_add 0
  by unfold_locales (auto intro: f64_add_mono f64_add_inflationary)

abbreviation f64_walk :: "('n \<Rightarrow> f64 \<Rightarrow> 'n \<Rightarrow> bool) \<Rightarrow> 'n \<Rightarrow> 'n \<Rightarrow> f64 \<Rightarrow> bool" where
  "f64_walk \<equiv> walk f64_add 0"

section \<open>Edge weights\<close>

definition weight_of :: "base_weight \<Rightarrow> relation_multiplier \<Rightarrow> f64" where
  "weight_of b m = f64_mul (f64_from_f32 (base_weight_get b)) (f64_from_f32 (multiplier_get m))"

definition WEIGHT_EXP :: nat where
  "WEIGHT_EXP = 1330"

abbreviation f64_units :: "f64 \<Rightarrow> nat" where
  "f64_units d \<equiv> fp_mag 52 (unat d)"

lemma weight_of_ok:
  assumes "base_weight_ok b" "multiplier_ok m"
  shows "effective_weight b m = Inr (weight_of b m)" "f64_nonneg (weight_of b m)"
    "f64_units (weight_of b m) \<le> 2 ^ WEIGHT_EXP"
proof -
  have fin: "f32_nonneg_finite (base_weight_get b)" "f32_nonneg_finite (multiplier_get m)"
    using assms base_weight_ok_finite by (auto simp: multiplier_ok_def multiplier_get_def)
  note p = f32_product_exact [OF fin]
  show "f64_nonneg (weight_of b m)" using p(1) by (simp add: weight_of_def)
  then have "f64_is_finite (weight_of b m)" using p(2) by (simp add: f64_is_finite_def weight_of_def)
  then show "effective_weight b m = Inr (weight_of b m)"
    by (simp add: effective_weight_def weight_of_def Let_def)
  have "f32_mag (base_weight_get b) * f32_mag (multiplier_get m) \<le> 2 ^ 277 * 2 ^ 277"
    using f32_mag_less [OF fin(1)] f32_mag_less [OF fin(2)] by (intro mult_mono) auto
  then have "f64_units (weight_of b m) \<le> (2 ^ 277 * 2 ^ 277) * 2 ^ 776"
    unfolding weight_of_def p(3) by (intro mult_right_mono) simp_all
  also have "\<dots> = 2 ^ WEIGHT_EXP" unfolding WEIGHT_EXP_def power_add [symmetric] by simp
  finally show "f64_units (weight_of b m) \<le> 2 ^ WEIGHT_EXP" .
qed

lemma accumulate_ok:
  assumes "f64_nonneg a" "f64_nonneg w" "f64_units a \<le> j * 2 ^ WEIGHT_EXP"
    "f64_units w \<le> 2 ^ WEIGHT_EXP" "j \<le> U32_MAX"
  shows "accumulate_distance a w = Inr (f64_add a w)" "f64_units (f64_add a w) \<le> (j + 1) * 2 ^ WEIGHT_EXP"
proof -
  have "(j + 1) * 2 ^ WEIGHT_EXP \<le> 2 ^ 32 * 2 ^ WEIGHT_EXP"
    using assms(5) by (intro mult_right_mono) (simp_all add: U32_MAX_def)
  also have "\<dots> < fp_mag 52 F64_INF"
    unfolding fp_mag_F64_INF WEIGHT_EXP_def power_add [symmetric] by (rule power_strict_increasing) simp_all
  finally have lt: "(j + 1) * 2 ^ WEIGHT_EXP < fp_mag 52 F64_INF" .
  have "j + 1 < 2 ^ 53" using assms(5) by (simp add: U32_MAX_def)
  note b = f64_add_bound [OF assms(1-4) this lt]
  show "f64_units (f64_add a w) \<le> (j + 1) * 2 ^ WEIGHT_EXP" by (fact b)
  show "accumulate_distance a w = Inr (f64_add a w)"
    using b(2) assms(1,2) by (simp add: accumulate_distance_def Let_def f64_is_finite_def)
qed

section \<open>The searched graph\<close>

text \<open>A graph as the search sees it: node count, the outgoing index range of each node, the edge
  stored at each index, and the packed profile that weighs it.\<close>

record search_graph =
  sg_nodes :: nat
  sg_out :: "dense_node_id \<Rightarrow> nat \<times> nat"
  sg_entry :: "nat \<Rightarrow> outgoing_edge"
  sg_profile :: packed_relation_profile

definition edge_multiplier :: "packed_relation_profile \<Rightarrow> outgoing_edge \<Rightarrow> relation_multiplier option" where
  "edge_multiplier p e =
     (case relation_use_index p (unat (oe_relation_index e)) of
        Some (Enabled m) \<Rightarrow> Some m | _ \<Rightarrow> None)"

definition edge_weight :: "packed_relation_profile \<Rightarrow> outgoing_edge \<Rightarrow> f64 option" where
  "edge_weight p e = map_option (weight_of (oe_base_weight e)) (edge_multiplier p e)"

definition out_idx :: "search_graph \<Rightarrow> dense_node_id \<Rightarrow> nat list" where
  "out_idx g x = [fst (sg_out g x)..<snd (sg_out g x)]"

abbreviation sg_dest :: "search_graph \<Rightarrow> nat \<Rightarrow> dense_node_id" where
  "sg_dest g i \<equiv> oe_destination (sg_entry g i)"

abbreviation sg_weight :: "search_graph \<Rightarrow> nat \<Rightarrow> f64 option" where
  "sg_weight g i \<equiv> edge_weight (sg_profile g) (sg_entry g i)"

definition graph_edge :: "search_graph \<Rightarrow> dense_node_id \<Rightarrow> f64 \<Rightarrow> dense_node_id \<Rightarrow> bool" where
  "graph_edge g x w y \<longleftrightarrow> dense_as_usize x < sg_nodes g
     \<and> (\<exists>i \<in> set (out_idx g x). sg_dest g i = y \<and> sg_weight g i = Some w)"

definition graph_ok :: "search_graph \<Rightarrow> bool" where
  "graph_ok g \<longleftrightarrow> sg_nodes g \<le> U32_MAX
     \<and> (\<forall>x. dense_as_usize x < sg_nodes g \<longrightarrow> (\<forall>i \<in> set (out_idx g x).
          dense_as_usize (sg_dest g i) < sg_nodes g \<and> base_weight_ok (oe_base_weight (sg_entry g i))
          \<and> unat (oe_relation_index (sg_entry g i)) < length (pp_uses (sg_profile g))))
     \<and> (\<forall>m. Enabled m \<in> set (pp_uses (sg_profile g)) \<longrightarrow> multiplier_ok m)"

lemma edge_multiplier_ok:
  "graph_ok g \<Longrightarrow> edge_multiplier (sg_profile g) e = Some m \<Longrightarrow> multiplier_ok m"
  by (fastforce simp: edge_multiplier_def relation_use_index_def get_def graph_ok_def
      split: option.splits relation_use.splits if_splits dest: nth_mem)

lemma sg_weight_ok:
  assumes "graph_ok g" "dense_as_usize x < sg_nodes g" "i \<in> set (out_idx g x)" "sg_weight g i = Some w"
  shows "f64_nonneg w" "f64_units w \<le> 2 ^ WEIGHT_EXP"
proof -
  obtain m where m: "edge_multiplier (sg_profile g) (sg_entry g i) = Some m"
      "w = weight_of (oe_base_weight (sg_entry g i)) m"
    using assms(4) by (auto simp: edge_weight_def)
  moreover have "base_weight_ok (oe_base_weight (sg_entry g i))"
    using assms(1-3) by (auto simp: graph_ok_def)
  ultimately show "f64_nonneg w" "f64_units w \<le> 2 ^ WEIGHT_EXP"
    using weight_of_ok edge_multiplier_ok [OF assms(1)] by auto
qed

lemma graph_edge_nonneg: "graph_ok g \<Longrightarrow> graph_edge g x w y \<Longrightarrow> f64_nonneg w"
  by (auto simp: graph_edge_def intro: sg_weight_ok)

section \<open>The labelling invariant\<close>

text \<open>
  \<open>order\<close> lists the finalized nodes in the order of their finalization, \<open>todo\<close> the outgoing
  indexes of the last one that are still to be relaxed, \<open>label\<close> the recorded distances.
\<close>

definition relaxed :: "search_graph \<Rightarrow> (dense_node_id \<Rightarrow> f64 option) \<Rightarrow> dense_node_id \<Rightarrow> nat \<Rightarrow> bool" where
  "relaxed g label x i \<longleftrightarrow> (\<forall>w d. sg_weight g i = Some w \<longrightarrow> label x = Some d \<longrightarrow>
     (\<exists>e. label (sg_dest g i) = Some e \<and> e \<le> f64_add d w))"

definition label_inv :: "search_graph \<Rightarrow> dense_node_id \<Rightarrow> dense_node_id list \<Rightarrow> nat list
    \<Rightarrow> (dense_node_id \<Rightarrow> f64 option) \<Rightarrow> bool" where
  "label_inv g origin order todo label \<longleftrightarrow>
     distinct order \<and> (\<forall>x \<in> set order. label x \<noteq> None) \<and> label origin = Some 0
     \<and> (\<forall>x d. label x = Some d \<longrightarrow>
          dense_as_usize x < sg_nodes g \<and> f64_nonneg d \<and> f64_walk (graph_edge g) origin x d)
     \<and> sorted (map (\<lambda>x. the (label x)) order)
     \<and> (\<forall>x \<in> set order. \<forall>y b. y \<notin> set order \<longrightarrow> label y = Some b \<longrightarrow> the (label x) \<le> b)
     \<and> (\<forall>x \<in> set order. \<forall>i \<in> set (out_idx g x).
          x = last order \<and> i \<in> set todo \<or> relaxed g label x i)
     \<and> (\<forall>i < length order. f64_units (the (label (order ! i))) \<le> i * 2 ^ WEIGHT_EXP)
     \<and> (\<forall>y b. y \<notin> set order \<longrightarrow> label y = Some b \<longrightarrow> f64_units b \<le> length order * 2 ^ WEIGHT_EXP)"

lemma label_invD:
  assumes "label_inv g origin order todo label"
  shows "distinct order" "x \<in> set order \<Longrightarrow> label x \<noteq> None" "label origin = Some 0"
    "label x = Some d \<Longrightarrow> dense_as_usize x < sg_nodes g"
    "label x = Some d \<Longrightarrow> f64_nonneg d"
    "label x = Some d \<Longrightarrow> f64_walk (graph_edge g) origin x d"
    "x \<in> set order \<Longrightarrow> y \<notin> set order \<Longrightarrow> label y = Some b \<Longrightarrow> the (label x) \<le> b"
    "x \<in> set order \<Longrightarrow> i \<in> set (out_idx g x) \<Longrightarrow> \<not> (x = last order \<and> i \<in> set todo) \<Longrightarrow> relaxed g label x i"
    "x \<in> set order \<Longrightarrow> dense_as_usize x < sg_nodes g"
    "i < length order \<Longrightarrow> f64_units (the (label (order ! i))) \<le> i * 2 ^ WEIGHT_EXP"
    "y \<notin> set order \<Longrightarrow> label y = Some b \<Longrightarrow> f64_units b \<le> length order * 2 ^ WEIGHT_EXP"
    "sorted (map (\<lambda>x. the (label x)) order)"
  using assms by (force simp: label_inv_def)+

lemma label_inv_initial:
  assumes "dense_as_usize origin < sg_nodes g"
  shows "label_inv g origin [] [] [origin \<mapsto> 0]"
  using assms by (auto simp: label_inv_def intro: walk_origin)

lemma label_inv_last_greatest:
  assumes "label_inv g origin order todo label" "x \<in> set order"
  shows "the (label x) \<le> the (label (last order))"
proof -
  obtain i where i: "i < length order" "order ! i = x" using assms(2) by (auto simp: in_set_conv_nth)
  have "map (\<lambda>x. the (label x)) order ! i \<le> map (\<lambda>x. the (label x)) order ! (length order - 1)"
    using i(1) label_invD(12) [OF assms(1)] by (intro sorted_nth_mono) auto
  then have "the (label (order ! i)) \<le> the (label (order ! (length order - 1)))"
    using i(1) by (subst (asm) (1 2) nth_map) auto
  moreover have "order \<noteq> []" using i(1) by auto
  ultimately show ?thesis using i(2) by (simp add: last_conv_nth)
qed

text \<open>Finalizing the nearest open node.\<close>

lemma label_inv_finalize:
  assumes inv: "label_inv g origin order [] label" and y: "y \<notin> set order" "label y = Some d"
    and least: "\<And>z b. z \<notin> set order \<Longrightarrow> label z = Some b \<Longrightarrow> d \<le> b"
  shows "label_inv g origin (order @ [y]) (out_idx g y) label"
proof -
  note D = label_invD [OF inv]
  have "sorted (map (\<lambda>x. the (label x)) (order @ [y]))"
    using D(12) D(7) [OF _ y] y(2) by (auto simp: sorted_append)
  moreover have "the (label x) \<le> b" if "x \<in> set (order @ [y])" "z \<notin> set (order @ [y])" "label z = Some b" for x z b
    using that D(7) least y(2) by auto
  moreover have "x = y \<and> i \<in> set (out_idx g y) \<or> relaxed g label x i"
    if "x \<in> set (order @ [y])" "i \<in> set (out_idx g x)" for x i
    using that D(8) by auto
  moreover have "f64_units (the (label ((order @ [y]) ! i))) \<le> i * 2 ^ WEIGHT_EXP" if "i < length (order @ [y])" for i
    using that D(10) [of i] D(11) [OF y] y(2) by (cases "i = length order") (auto simp: nth_append)
  moreover have "f64_units b \<le> length (order @ [y]) * 2 ^ WEIGHT_EXP"
    if "z \<notin> set (order @ [y])" "label z = Some b" for z b
    using that D(11) [of z b] by (simp add: trans_le_add2)
  ultimately show ?thesis
    using D(1,2,3,4,5,6) y unfolding label_inv_def by auto
qed

text \<open>Relaxing an edge of the last finalized node: nothing changes, or the label of an open
  destination becomes the smaller candidate.\<close>

lemma label_inv_skip:
  assumes "label_inv g origin order (i # todo) label" "relaxed g label (last order) i"
  shows "label_inv g origin order todo label"
  using assms by (auto simp: label_inv_def)

lemma relaxed_final:
  assumes inv: "label_inv g origin order todo label" and g: "graph_ok g" and "order \<noteq> []"
    and i: "i \<in> set (out_idx g (last order))" and fin: "sg_dest g i \<in> set order"
  shows "relaxed g label (last order) i"
  unfolding relaxed_def
proof (intro allI impI)
  fix w d assume w: "sg_weight g i = Some w" and d: "label (last order) = Some d"
  have last: "last order \<in> set order" using \<open>order \<noteq> []\<close> by simp
  obtain e where e: "label (sg_dest g i) = Some e" using label_invD(2) [OF inv fin] by auto
  have "e \<le> d" using label_inv_last_greatest [OF inv fin] d e by simp
  also have "d \<le> f64_add d w"
    using label_invD(5) [OF inv d] sg_weight_ok(1) [OF g label_invD(9) [OF inv last] i w]
    by (rule f64_add_inflationary)
  finally show "\<exists>e. label (sg_dest g i) = Some e \<and> e \<le> f64_add d w" using e by blast
qed

lemma label_inv_improve:
  assumes inv: "label_inv g origin order (i # todo) label" and g: "graph_ok g" and ne: "order \<noteq> []"
    and i: "i \<in> set (out_idx g (last order))" and w: "sg_weight g i = Some w"
    and d: "label (last order) = Some d" and y: "sg_dest g i \<notin> set order"
    and better: "\<And>b. label (sg_dest g i) = Some b \<Longrightarrow> f64_add d w \<le> b" "sg_dest g i \<noteq> origin"
    and bound: "f64_units (f64_add d w) \<le> length order * 2 ^ WEIGHT_EXP"
  shows "label_inv g origin order todo (label(sg_dest g i \<mapsto> f64_add d w))"
proof -
  let ?y = "sg_dest g i" and ?c = "f64_add d w"
  let ?l = "label(?y \<mapsto> ?c)"
  note D = label_invD [OF inv]
  have last: "last order \<in> set order" using ne by simp
  have keep: "?l x = label x" if "x \<in> set order" for x using that y by auto
  have nn: "f64_nonneg d" "f64_nonneg w"
    using D(5) [OF d] sg_weight_ok(1) [OF g D(9) [OF last] i w] by auto
  have edge: "graph_edge g (last order) w ?y" using i w D(9) [OF last] by (auto simp: graph_edge_def)
  have walk: "f64_walk (graph_edge g) origin ?y ?c" using walk_edge [OF D(6) [OF d] edge] .
  have range: "dense_as_usize ?y < sg_nodes g" using g i D(9) [OF last] by (auto simp: graph_ok_def)
  have "the (?l x) \<le> b" if "x \<in> set order" "z \<notin> set order" "?l z = Some b" for x z b
  proof (cases "z = ?y")
    case True
    have "the (label x) \<le> d" using label_inv_last_greatest [OF inv that(1)] d by simp
    also have "d \<le> ?c" using nn by (rule f64_add_inflationary)
    finally show ?thesis using that True keep by simp
  next
    case False
    with that D(7) [of x z b] keep show ?thesis by simp
  qed
  moreover have "x = last order \<and> j \<in> set todo \<or> relaxed g ?l x j"
    if "x \<in> set order" "j \<in> set (out_idx g x)" for x j
  proof (cases "x = last order \<and> j = i")
    case True
    then show ?thesis using keep [OF last] d w by (auto simp: relaxed_def)
  next
    case False
    show ?thesis
    proof (cases "x = last order \<and> j \<in> set todo")
      case no: False
      with False have "relaxed g label x j" using D(8) [OF that] by auto
      then have "relaxed g ?l x j"
        using keep [OF that(1)] better(1) by (fastforce simp: relaxed_def)
      then show ?thesis ..
    qed simp
  qed
  moreover have "sorted (map (\<lambda>x. the (?l x)) order)" using D(12) keep by (simp cong: map_cong)
  moreover have "distinct order" "\<forall>x \<in> set order. ?l x \<noteq> None" "?l origin = Some 0"
    using D(1,2,3) keep better(2) by auto
  moreover have "\<forall>i < length order. f64_units (the (?l (order ! i))) \<le> i * 2 ^ WEIGHT_EXP"
    using D(10) keep by simp
  moreover have "\<forall>z b. z \<notin> set order \<longrightarrow> ?l z = Some b \<longrightarrow> f64_units b \<le> length order * 2 ^ WEIGHT_EXP"
    using D(11) bound by auto
  moreover have "\<forall>x e. ?l x = Some e \<longrightarrow>
      dense_as_usize x < sg_nodes g \<and> f64_nonneg e \<and> f64_walk (graph_edge g) origin x e"
    using D(4-6) walk range nn by (auto simp del: fun_upd_apply simp: fun_upd_def)
  ultimately show ?thesis unfolding label_inv_def by blast
qed

section \<open>What the labels mean\<close>

definition shortest :: "search_graph \<Rightarrow> dense_node_id \<Rightarrow> dense_node_id \<Rightarrow> f64 \<Rightarrow> bool" where
  "shortest g origin x d \<longleftrightarrow> f64_walk (graph_edge g) origin x d
     \<and> (\<forall>c. f64_walk (graph_edge g) origin x c \<longrightarrow> d \<le> c)"

lemma settled_edges:
  assumes "label_inv g origin order todo label" "x \<in> set order" "x \<noteq> last order \<or> todo = []"
    "graph_edge g x w y" "label x = Some d"
  shows "\<exists>e. label y = Some e \<and> e \<le> f64_add d w"
  using assms label_invD(8) [OF assms(1,2)] by (fastforce simp: graph_edge_def relaxed_def)

lemma finalized_shortest:
  assumes inv: "label_inv g origin order todo label" and g: "graph_ok g"
    and x: "x \<in> set order" "label x = Some d"
  shows "shortest g origin x d"
  unfolding shortest_def
proof (intro conjI allI impI)
  show "f64_walk (graph_edge g) origin x d" using label_invD(6) [OF inv x(2)] .
  fix c assume w: "f64_walk (graph_edge g) origin x c"
  let ?S = "set order - {last order}"
  have "x \<in> ?S \<and> (\<exists>d. label x = Some d \<and> d \<le> c) \<or> (\<exists>v b. v \<notin> ?S \<and> label v = Some b \<and> b \<le> c)"
    using label_invD(3) [OF inv] graph_edge_nonneg [OF g] label_invD(5) [OF inv] settled_edges [OF inv]
    by (intro f64_weights.walk_settled [OF w]) auto
  then consider "d \<le> c" | v b where "v \<notin> ?S" "label v = Some b" "b \<le> c" using x(2) by auto
  then show "d \<le> c"
  proof cases
    case 2
    have "d \<le> b"
    proof (cases "v \<in> set order")
      case True
      with 2 have "v = last order" by simp
      with label_inv_last_greatest [OF inv x(1)] 2 x(2) show ?thesis by simp
    next
      case False
      with label_invD(7) [OF inv x(1) False 2(2)] x(2) show ?thesis by simp
    qed
    with 2 show ?thesis by simp
  qed
qed

lemma exhausted_unreachable:
  assumes inv: "label_inv g origin order [] label" and g: "graph_ok g"
    and closed: "\<And>x. label x \<noteq> None \<Longrightarrow> x \<in> set order" and x: "x \<notin> set order"
  shows "\<not> f64_walk (graph_edge g) origin x c"
proof
  assume w: "f64_walk (graph_edge g) origin x c"
  have "x \<in> set order \<and> (\<exists>d. label x = Some d \<and> d \<le> c)
      \<or> (\<exists>v b. v \<notin> set order \<and> label v = Some b \<and> b \<le> c)"
    using label_invD(3) [OF inv] graph_edge_nonneg [OF g] label_invD(5) [OF inv] settled_edges [OF inv]
    by (intro f64_weights.walk_settled [OF w]) auto
  with closed x show False by auto
qed

end
