(* ===== verification/Search_Invariant.thy ===== *)
theory Search_Invariant
  imports Search_Labels
begin

text \<open>
  The program invariant of the search of \<^verbatim>\<open>cpu.rs\<close> on top of the labelling invariant: the
  distance, finalized and predecessor arrays, the frontier, the pending destinations and the
  counters. Every operation of the search is shown to keep it, to stop only for a stated
  reason and to fail only for lack of memory or by a failed topology access.
\<close>

section \<open>Sound contexts\<close>

definition slot :: "'a option list \<Rightarrow> dense_node_id \<Rightarrow> 'a option" where
  "slot xs x = (if dense_as_usize x < length xs then xs ! dense_as_usize x else None)"

lemma slot_update [simp]:
  "dense_as_usize y < length xs \<Longrightarrow> slot (xs[dense_as_usize y := v]) = (slot xs)(y := v)"
  by (auto simp: slot_def fun_eq_iff nth_list_update)

definition context_sound :: "search_graph \<Rightarrow> search_context \<Rightarrow> (routing_error fault \<Rightarrow> bool) \<Rightarrow> bool" where
  "context_sound g ctx access_error \<longleftrightarrow>
     graph_ok g \<and> sg_profile g = sc_profile ctx
     \<and> tp_node_count (sc_topology ctx) = sg_nodes g
     \<and> tp_adjacency_count (sc_topology ctx) < U64_MAX
     \<and> (\<forall>x. dense_as_usize x < sg_nodes g \<longrightarrow>
          tp_outgoing_range (sc_topology ctx) x = Inr (sg_out g x)
          \<and> tp_external_node_id (sc_topology ctx) x \<noteq> None)
     \<and> (\<forall>xs. distinct xs \<longrightarrow> (\<forall>x \<in> set xs. dense_as_usize x < sg_nodes g) \<longrightarrow>
          sum_list (map (\<lambda>x. length (out_idx g x)) xs) \<le> tp_adjacency_count (sc_topology ctx))
     \<and> (\<forall>x i polls. dense_as_usize x < sg_nodes g \<longrightarrow> i \<in> set (out_idx g x) \<longrightarrow>
          ensures access_error
            (\<lambda>(loaded, polls). case loaded of
               None \<Rightarrow> \<exists>q. env_cancelled (sc_environment ctx) q
             | Some e \<Rightarrow> e = sg_entry g i)
            (tp_edge_at (sc_topology ctx) (sc_environment ctx) polls i))"

definition expected_error ::
    "environment \<Rightarrow> (routing_error fault \<Rightarrow> bool) \<Rightarrow> routing_error fault \<Rightarrow> bool" where
  "expected_error env access_error e \<longleftrightarrow> access_error e
     \<or> (\<exists>s n. e = Failed (RoutingAllocationFailed s) \<and> \<not> env_reserve env s n)"

section \<open>The invariant\<close>

definition pred_ok :: "search_graph \<Rightarrow> dense_node_id list \<Rightarrow> (dense_node_id \<Rightarrow> f64 option)
    \<Rightarrow> predecessor \<Rightarrow> dense_node_id \<Rightarrow> f64 \<Rightarrow> bool" where
  "pred_ok g order label p y b \<longleftrightarrow>
     pd_source p \<in> set (takeWhile (\<lambda>z. z \<noteq> y) order)
     \<and> pd_adjacency p \<in> set (out_idx g (pd_source p))
     \<and> oe_edge_id (sg_entry g (pd_adjacency p)) = pd_edge p
     \<and> sg_dest g (pd_adjacency p) = y
     \<and> (\<exists>w a. sg_weight g (pd_adjacency p) = Some w \<and> label (pd_source p) = Some a \<and> b = f64_add a w)"

definition pred_inv :: "search_graph \<Rightarrow> dense_node_id \<Rightarrow> dense_node_id list
    \<Rightarrow> (dense_node_id \<Rightarrow> f64 option) \<Rightarrow> (dense_node_id \<Rightarrow> predecessor option) \<Rightarrow> bool" where
  "pred_inv g origin order label pred \<longleftrightarrow>
     (\<forall>y b. y \<noteq> origin \<longrightarrow> label y = Some b \<longrightarrow> (\<exists>p. pred y = Some p \<and> pred_ok g order label p y b))"

definition node_inv :: "search_graph \<Rightarrow> dense_node_id \<Rightarrow> dense_node_id list \<Rightarrow> nat list
    \<Rightarrow> search_state \<Rightarrow> bool" where
  "node_inv g origin order todo st \<longleftrightarrow>
     label_inv g origin order todo (slot (ss_distances st))
     \<and> length (ss_distances st) = sg_nodes g \<and> length (ss_finalized st) = sg_nodes g
     \<and> (\<forall>x. dense_as_usize x < sg_nodes g \<longrightarrow> (ss_finalized st ! dense_as_usize x \<longleftrightarrow> x \<in> set order))
     \<and> (order \<noteq> [] \<longrightarrow> origin \<in> set order)
     \<and> (order = [] \<longrightarrow> (\<forall>x. slot (ss_distances st) x \<noteq> None \<longrightarrow> x = origin))
     \<and> (\<forall>y b. y \<notin> set order \<longrightarrow> slot (ss_distances st) y = Some b \<longrightarrow>
          FrontierEntry b y \<in> set (ss_frontier st))
     \<and> (\<forall>e \<in> set (ss_frontier st). dense_as_usize (fe_node e) < sg_nodes g \<and> f64_nonneg (fe_distance e))
     \<and> (\<forall>ps. ss_predecessors st = Some ps \<longrightarrow>
          length ps = sg_nodes g \<and> pred_inv g origin order (slot (ss_distances st)) (slot ps))"

text \<open>The counters: \<open>rest\<close> edges of the current node are still to be examined, and \<open>slack\<close> is 1
  between counting an edge and acting on it.\<close>

definition count_inv :: "search_graph \<Rightarrow> search_budget \<Rightarrow> dense_node_id set \<Rightarrow> dense_node_id list
    \<Rightarrow> nat \<Rightarrow> nat \<Rightarrow> search_state \<Rightarrow> bool" where
  "count_inv g budget targets order rest slack st \<longleftrightarrow>
     ss_finalized_nodes st = length order
     \<and> ss_examined_edges st + rest \<le> sum_list (map (\<lambda>x. length (out_idx g x)) order)
     \<and> length (ss_frontier st) + slack \<le> ss_examined_edges st + 1
     \<and> ss_high_water st \<le> ss_examined_edges st + 1
     \<and> ss_relaxation_updates st + slack \<le> ss_examined_edges st
     \<and> (\<forall>m. budget = ExaminedEdges m \<longrightarrow> ss_examined_edges st \<le> m)
     \<and> length (ss_pending st) = sg_nodes g
     \<and> ss_pending_count st = length (filter (\<lambda>b. b) (ss_pending st))
     \<and> (\<forall>x \<in> targets. dense_as_usize x < sg_nodes g \<and> (x \<in> set order \<or> ss_pending st ! dense_as_usize x))"

lemma takeWhile_notin: "y \<notin> set xs \<Longrightarrow> takeWhile (\<lambda>z. z \<noteq> y) xs = xs"
  by (induction xs) auto

lemma pred_ok_label_update:
  assumes "pred_ok g order label p z b" "y \<notin> set order"
  shows "pred_ok g order (label(y := v)) p z b"
proof -
  have "pd_source p \<in> set order" using assms(1) set_takeWhileD by (fastforce simp: pred_ok_def)
  with assms show ?thesis by (auto simp: pred_ok_def)
qed

lemma pred_inv_update:
  assumes "pred_inv g origin order label pred" "y \<notin> set order"
    and "pred_ok g order label p y b"
  shows "pred_inv g origin order (label(y \<mapsto> b)) (pred(y \<mapsto> p))"
  using assms pred_ok_label_update [OF _ assms(2)] unfolding pred_inv_def
  by (metis fun_upd_apply option.inject)

lemma pred_inv_replace:
  assumes "pred_inv g origin order label pred" "label y = Some b" "pred_ok g order label p y b"
  shows "pred_inv g origin order label (pred(y \<mapsto> p))"
  using assms by (auto simp: pred_inv_def)

lemma pred_inv_finalize:
  assumes "pred_inv g origin order label pred" "y \<notin> set order"
  shows "pred_inv g origin (order @ [y]) label pred"
proof -
  have "set (takeWhile (\<lambda>u. u \<noteq> z) order) \<subseteq> set (takeWhile (\<lambda>u. u \<noteq> z) (order @ [y]))" for z
    by (cases "z \<in> set order") (auto simp: takeWhile_notin takeWhile_append)
  with assms(1) show ?thesis by (fastforce simp: pred_inv_def pred_ok_def)
qed

section \<open>Relaxing one edge\<close>

lemma node_invD:
  assumes "node_inv g origin order todo st"
  shows "label_inv g origin order todo (slot (ss_distances st))"
    "length (ss_distances st) = sg_nodes g" "length (ss_finalized st) = sg_nodes g"
    "dense_as_usize x < sg_nodes g \<Longrightarrow> ss_finalized st ! dense_as_usize x \<longleftrightarrow> x \<in> set order"
    "order \<noteq> [] \<Longrightarrow> origin \<in> set order"
    "y \<notin> set order \<Longrightarrow> slot (ss_distances st) y = Some b \<Longrightarrow> FrontierEntry b y \<in> set (ss_frontier st)"
    "e \<in> set (ss_frontier st) \<Longrightarrow> dense_as_usize (fe_node e) < sg_nodes g \<and> f64_nonneg (fe_distance e)"
    "ss_predecessors st = Some ps \<Longrightarrow> length ps = sg_nodes g"
    "ss_predecessors st = Some ps \<Longrightarrow> pred_inv g origin order (slot (ss_distances st)) (slot ps)"
    "order = [] \<Longrightarrow> slot (ss_distances st) x = Some b \<Longrightarrow> x = origin"
  using assms by (simp_all add: node_inv_def)

lemma node_inv_skip:
  "node_inv g origin order (i # todo) st \<Longrightarrow> relaxed g (slot (ss_distances st)) (last order) i \<Longrightarrow>
   node_inv g origin order todo st"
  using label_inv_skip by (fastforce simp: node_inv_def)

lemma count_inv_weaken: "count_inv g budget targets order rest (Suc slack) st \<Longrightarrow>
    count_inv g budget targets order rest slack st"
  by (simp add: count_inv_def)

text \<open>The situation in which an edge is relaxed: \<open>i\<close> is an open index of the node \<open>x\<close> finalized
  last, whose distance is that of the popped entry.\<close>

definition at_edge :: "search_graph \<Rightarrow> dense_node_id \<Rightarrow> dense_node_id list \<Rightarrow> nat \<Rightarrow> nat list
    \<Rightarrow> frontier_entry \<Rightarrow> search_state \<Rightarrow> bool" where
  "at_edge g origin order i todo current st \<longleftrightarrow>
     node_inv g origin order (i # todo) st \<and> order \<noteq> [] \<and> fe_node current = last order
     \<and> i \<in> set (out_idx g (last order))
     \<and> slot (ss_distances st) (last order) = Some (fe_distance current)"

definition after_edge :: "search_graph \<Rightarrow> dense_node_id \<Rightarrow> dense_node_id list \<Rightarrow> nat list
    \<Rightarrow> frontier_entry \<Rightarrow> search_state \<Rightarrow> bool" where
  "after_edge g origin order todo current st \<longleftrightarrow>
     node_inv g origin order todo st
     \<and> slot (ss_distances st) (last order) = Some (fe_distance current)"

lemma at_edge_range:
  assumes "at_edge g origin order i todo current st" "graph_ok g"
  shows "last order \<in> set order" "dense_as_usize (last order) < sg_nodes g"
    "dense_as_usize (sg_dest g i) < sg_nodes g" "base_weight_ok (oe_base_weight (sg_entry g i))"
    "unat (oe_relation_index (sg_entry g i)) < length (pp_uses (sg_profile g))"
proof -
  show l: "last order \<in> set order" using assms(1) by (simp add: at_edge_def)
  show "dense_as_usize (last order) < sg_nodes g"
    using label_invD(9) [OF node_invD(1) l] assms(1) unfolding at_edge_def by blast
  with assms show "dense_as_usize (sg_dest g i) < sg_nodes g" "base_weight_ok (oe_base_weight (sg_entry g i))"
    "unat (oe_relation_index (sg_entry g i)) < length (pp_uses (sg_profile g))"
    by (auto simp: at_edge_def graph_ok_def)
qed

lemma order_length_nodes:
  assumes "label_inv g origin order todo label"
  shows "length order \<le> sg_nodes g"
proof -
  have "dense_as_usize ` set order \<subseteq> {..<sg_nodes g}" using label_invD(9) [OF assms] by auto
  then have "card (dense_as_usize ` set order) \<le> sg_nodes g"
    using card_mono [of "{..<sg_nodes g}"] by fastforce
  then show ?thesis using label_invD(1) [OF assms] by (simp add: card_image inj_on_def distinct_card)
qed

lemma order_length: "label_inv g origin order todo label \<Longrightarrow> graph_ok g \<Longrightarrow> length order \<le> U32_MAX"
  using order_length_nodes by (fastforce simp: graph_ok_def)

lemma candidate_ok:
  assumes at: "at_edge g origin order i todo current st" and g: "graph_ok g" and w: "sg_weight g i = Some w"
  shows "accumulate_distance (fe_distance current) w = Inr (f64_add (fe_distance current) w)"
    "f64_units (f64_add (fe_distance current) w) \<le> length order * 2 ^ WEIGHT_EXP"
    "f64_nonneg (f64_add (fe_distance current) w)"
proof -
  have inv: "label_inv g origin order (i # todo) (slot (ss_distances st))" and ne: "order \<noteq> []"
    and d: "slot (ss_distances st) (last order) = Some (fe_distance current)"
    and i: "i \<in> set (out_idx g (last order))"
    using at node_invD(1) by (auto simp: at_edge_def)
  note wt = sg_weight_ok [OF g at_edge_range(2) [OF at g] i w]
  have units: "f64_units (fe_distance current) \<le> (length order - 1) * 2 ^ WEIGHT_EXP"
    using label_invD(10) [OF inv, of "length order - 1"] ne d by (simp add: last_conv_nth)
  have "length order - 1 \<le> U32_MAX" using order_length [OF inv g] by simp
  note acc = accumulate_ok [OF label_invD(5) [OF inv d] wt(1) units wt(2) this]
  show "accumulate_distance (fe_distance current) w = Inr (f64_add (fe_distance current) w)" by (fact acc)
  show "f64_units (f64_add (fe_distance current) w) \<le> length order * 2 ^ WEIGHT_EXP"
    using acc(2) ne by simp
  show "f64_nonneg (f64_add (fe_distance current) w)" using label_invD(5) [OF inv d] wt(1) by blast
qed

lemma new_pred_ok:
  assumes at: "at_edge g origin order i todo current st" and w: "sg_weight g i = Some w"
    and y: "sg_dest g i \<notin> set order"
  shows "pred_ok g order (slot (ss_distances st))
    \<lparr>pd_source = fe_node current, pd_edge = oe_edge_id (sg_entry g i), pd_adjacency = i\<rparr>
    (sg_dest g i) (f64_add (fe_distance current) w)"
  using assms by (simp add: pred_ok_def at_edge_def takeWhile_notin)

lemma set_predecessor_Inr:
  assumes "\<And>ps. preds = Some ps \<Longrightarrow> k < length ps"
  shows "set_predecessor preds k x e i =
    Inr (map_option (\<lambda>ps. ps[k := Some \<lparr>pd_source = x, pd_edge = e, pd_adjacency = i\<rparr>]) preds)"
  using assms by (auto simp: set_predecessor_def write_at_def split: option.splits)

lemma improve_inv:
  assumes ctx: "context_sound g ctx err" and at: "at_edge g origin order i todo current st"
    and cnt: "count_inv g budget targets order rest 1 st"
    and w: "sg_weight g i = Some w" and y: "sg_dest g i \<notin> set order"
    and better: "\<And>b. slot (ss_distances st) (sg_dest g i) = Some b \<Longrightarrow> f64_add (fe_distance current) w \<le> b"
  shows "ensures (expected_error (sc_environment ctx) err)
    (\<lambda>st'. after_edge g origin order todo current st' \<and> count_inv g budget targets order rest 0 st')
    (improve ctx current (sg_entry g i) i (f64_add (fe_distance current) w) st)"
proof -
  let ?y = "sg_dest g i" and ?c = "f64_add (fe_distance current) w"
  have g: "graph_ok g" using ctx by (simp add: context_sound_def)
  have inv: "node_inv g origin order (i # todo) st" and ne: "order \<noteq> []" and i: "i \<in> set (out_idx g (last order))"
    and d: "slot (ss_distances st) (last order) = Some (fe_distance current)"
    using at by (auto simp: at_edge_def)
  note R = at_edge_range [OF at g] and C = candidate_ok [OF at g w] and N = node_invD [OF inv]
  have yo: "?y \<noteq> origin" using N(5) [OF ne] y by auto
  let ?p = "\<lparr>pd_source = fe_node current, pd_edge = oe_edge_id (sg_entry g i), pd_adjacency = i\<rparr>"
  define ds where "ds = (ss_distances st)[dense_as_usize ?y := Some ?c]"
  define ps where "ps = map_option (\<lambda>ps. ps[dense_as_usize ?y := Some ?p]) (ss_predecessors st)"
  define fr where "fr = FrontierEntry ?c ?y # ss_frontier st"
  have slot: "slot ds = (slot (ss_distances st))(?y \<mapsto> ?c)" using R(3) N(2) by (simp add: ds_def)
  have lab: "label_inv g origin order todo (slot ds)"
    unfolding slot using label_inv_improve [OF N(1) g ne i w d y better yo C(2)] by simp
  have pred: "length ps' = sg_nodes g \<and> pred_inv g origin order (slot ds) (slot ps')" if eq: "ps = Some ps'" for ps'
  proof -
    obtain old where old: "ss_predecessors st = Some old" "ps' = old[dense_as_usize ?y := Some ?p]"
      using eq by (auto simp: ps_def)
    then have "slot ps' = (slot old)(?y \<mapsto> ?p)" using R(3) N(8) by simp
    then show ?thesis
      using old N(8) pred_inv_update [OF N(9) [OF old(1)] y new_pred_ok [OF at w y]] by (simp add: slot)
  qed
  let ?st = "st\<lparr>ss_distances := ds, ss_predecessors := ps, ss_frontier := fr,
      ss_relaxation_updates := saturating_add (ss_relaxation_updates st) 1,
      ss_high_water := max (ss_high_water st) (length fr)\<rparr>"
  have "node_inv g origin order todo ?st"
    using lab pred N(2,3,4,5,6,7) C(3) R(3) ne unfolding node_inv_def
    by (auto simp: slot fr_def ds_def)
  moreover have "slot ds (last order) = Some (fe_distance current)" using slot d R(1) y by auto
  moreover have "count_inv g budget targets order rest 0 ?st"
    using cnt by (auto simp: count_inv_def fr_def saturating_add_def)
  ultimately show ?thesis
    using R(3) N(2,8)
    by (auto simp: improve_def Let_def write_at_def set_predecessor_Inr push_frontier_def
        allocation_failed_def expected_error_def after_edge_def ds_def ps_def fr_def)
qed

lemma tie_inv:
  assumes ctx: "context_sound g ctx err" and at: "at_edge g origin order i todo current st"
    and cnt: "count_inv g budget targets order rest 1 st"
    and w: "sg_weight g i = Some w" and y: "sg_dest g i \<notin> set order"
    and eq: "slot (ss_distances st) (sg_dest g i) = Some (f64_add (fe_distance current) w)"
  shows "ensures E
    (\<lambda>st'. after_edge g origin order todo current st' \<and> count_inv g budget targets order rest 0 st')
    (tie current (sg_entry g i) i st)"
proof -
  have g: "graph_ok g" using ctx by (simp add: context_sound_def)
  have d: "slot (ss_distances st) (last order) = Some (fe_distance current)" and inv: "node_inv g origin order (i # todo) st"
    using at by (auto simp: at_edge_def)
  have "relaxed g (slot (ss_distances st)) (last order) i" using d w eq by (auto simp: relaxed_def)
  then have inv': "node_inv g origin order todo st" using node_inv_skip inv by blast
  note R = at_edge_range [OF at g] and N = node_invD [OF inv'] and C = count_inv_weaken [of _ _ _ _ _ 0, simplified]
  let ?p = "\<lparr>pd_source = fe_node current, pd_edge = oe_edge_id (sg_entry g i), pd_adjacency = i\<rparr>"
  have "node_inv g origin order todo (st\<lparr>ss_predecessors := Some (ps[dense_as_usize (sg_dest g i) := Some ?p])\<rparr>)"
    if ps: "ss_predecessors st = Some ps" for ps
  proof -
    have "slot (ps[dense_as_usize (sg_dest g i) := Some ?p]) = (slot ps)(sg_dest g i \<mapsto> ?p)"
      using R(3) N(8) [OF ps] by simp
    then have "pred_inv g origin order (slot (ss_distances st)) (slot (ps[dense_as_usize (sg_dest g i) := Some ?p]))"
      using pred_inv_replace [OF N(9) [OF ps] eq new_pred_ok [OF at w y]] by simp
    with inv' N(8) [OF ps] show ?thesis by (auto simp: node_inv_def)
  qed
  moreover have "count_inv g budget targets order rest 0 st"
      "count_inv g budget targets order rest 0 (st\<lparr>ss_predecessors := v\<rparr>)" for v
    using cnt by (auto simp: count_inv_def)
  ultimately show ?thesis
    using inv' d N(8) R(3)
    by (auto simp: tie_def after_edge_def Let_def split: option.splits)
qed

lemma relation_use_cases:
  assumes "at_edge g origin order i todo current st" "graph_ok g"
  obtains "relation_use_index (sg_profile g) (unat (oe_relation_index (sg_entry g i))) = Some Disabled"
      "sg_weight g i = None"
  | m where "relation_use_index (sg_profile g) (unat (oe_relation_index (sg_entry g i))) = Some (Enabled m)"
      "sg_weight g i = Some (weight_of (oe_base_weight (sg_entry g i)) m)"
      "effective_weight (oe_base_weight (sg_entry g i)) m = Inr (weight_of (oe_base_weight (sg_entry g i)) m)"
proof -
  let ?r = "relation_use_index (sg_profile g) (unat (oe_relation_index (sg_entry g i)))"
  have "?r \<noteq> None" using at_edge_range(5) [OF assms] by (simp add: relation_use_index_def)
  then consider "?r = Some Disabled" | m where "?r = Some (Enabled m)" by (metis option.exhaust relation_use.exhaust)
  then show thesis
  proof cases
    case 1
    then show ?thesis by (intro that(1)) (simp_all add: edge_weight_def edge_multiplier_def)
  next
    case (2 m)
    then have "edge_multiplier (sg_profile g) (sg_entry g i) = Some m" by (simp add: edge_multiplier_def)
    with 2 weight_of_ok(1) edge_multiplier_ok [OF assms(2)] at_edge_range(4) [OF assms] show ?thesis
      by (intro that(2) [of m]) (simp_all add: edge_weight_def)
  qed
qed

lemma relax_loaded_inv:
  assumes ctx: "context_sound g ctx err" and at: "at_edge g origin order i todo current st"
    and cnt: "count_inv g budget targets order rest 1 st"
  shows "ensures (expected_error (sc_environment ctx) err)
    (\<lambda>st'. after_edge g origin order todo current st' \<and> count_inv g budget targets order rest 0 st')
    (relax_loaded ctx current (sg_entry g i) i st)"
proof -
  let ?y = "sg_dest g i"
  have g: "graph_ok g" and p: "sc_profile ctx = sg_profile g" using ctx by (auto simp: context_sound_def)
  have inv: "node_inv g origin order (i # todo) st" and d: "slot (ss_distances st) (last order) = Some (fe_distance current)"
    and ne: "order \<noteq> []" and i: "i \<in> set (out_idx g (last order))"
    using at by (auto simp: at_edge_def)
  note R = at_edge_range [OF at g] and N = node_invD [OF inv]
  have c0: "count_inv g budget targets order rest 0 st" using count_inv_weaken cnt by simp
  have skip: "after_edge g origin order todo current st" if "relaxed g (slot (ss_distances st)) (last order) i"
    using node_inv_skip [OF inv that] d by (simp add: after_edge_def)
  show ?thesis
  proof (cases rule: relation_use_cases [OF at g])
    case 1
    then have "relaxed g (slot (ss_distances st)) (last order) i" by (simp add: relaxed_def)
    with 1 c0 skip show ?thesis by (simp add: relax_loaded_def p)
  next
    case (2 m)
    let ?w = "weight_of (oe_base_weight (sg_entry g i)) m"
    let ?c = "f64_add (fe_distance current) ?w"
    note C = candidate_ok [OF at g 2(2)]
    show ?thesis
    proof (cases "?y \<in> set order")
      case True
      with 2 c0 skip relaxed_final [OF N(1) g ne i True] R(3) N(3,4) show ?thesis
        by (simp add: relax_loaded_def p)
    next
      case False
      have rec: "slot (ss_distances st) ?y = ss_distances st ! dense_as_usize ?y" using R(3) N(2) by (simp add: slot_def)
      have "ensures (expected_error (sc_environment ctx) err)
          (\<lambda>st'. after_edge g origin order todo current st' \<and> count_inv g budget targets order rest 0 st')
          (relax_match ctx current (sg_entry g i) i ?c st)"
      proof (cases "ss_distances st ! dense_as_usize ?y")
        case None
        with improve_inv [OF ctx at cnt 2(2) False] rec R(3) N(2) show ?thesis by (simp add: relax_match_def)
      next
        case (Some b)
        then have nb: "f64_nonneg b" using label_invD(5) [OF N(1)] rec by metis
        note cmp = f64_nonneg_compare [OF C(3) nb]
        consider "?c < b" | "?c = b" | "b < ?c" by force
        then show ?thesis
        proof cases
          case 1
          with improve_inv [OF ctx at cnt 2(2) False] Some rec R(3) N(2) cmp show ?thesis
            by (simp add: relax_match_def)
        next
          case eq: 2
          with tie_inv [OF ctx at cnt 2(2) False] Some rec R(3) N(2) cmp show ?thesis
            by (simp add: relax_match_def)
        next
          case 3
          then have "relaxed g (slot (ss_distances st)) (last order) i"
            using 2(2) Some rec d by (auto simp: relaxed_def)
          moreover have "\<not> ?c < b" "?c \<noteq> b" using 3 by auto
          ultimately show ?thesis using skip c0 Some R(3) N(2) cmp by (simp add: relax_match_def)
        qed
      qed
      with 2 C(1) False R(3) N(3,4) show ?thesis by (simp add: relax_loaded_def p arithmetic_def)
    qed
  qed
qed

text \<open>Why a search stops.\<close>

definition stop_reason :: "search_context \<Rightarrow> search_state \<Rightarrow> completion_reason \<Rightarrow> bool" where
  "stop_reason ctx st reason \<longleftrightarrow>
     (reason = Cancelled \<and> (\<exists>q. env_cancelled (sc_environment ctx) q))
     \<or> (reason = BudgetExhausted \<and> sc_budget ctx = ExaminedEdges (ss_examined_edges st))"

definition search_inv :: "search_graph \<Rightarrow> search_context \<Rightarrow> dense_node_id \<Rightarrow> dense_node_id set
    \<Rightarrow> dense_node_id list \<Rightarrow> nat list \<Rightarrow> search_state \<Rightarrow> bool" where
  "search_inv g ctx origin targets order todo st \<longleftrightarrow>
     node_inv g origin order todo st \<and> count_inv g (sc_budget ctx) targets order 0 0 st"

lemma node_inv_counters [simp]:
  "node_inv g origin order todo (st\<lparr>ss_polls := n\<rparr>) = node_inv g origin order todo st"
  "node_inv g origin order todo (st\<lparr>ss_examined_edges := m\<rparr>) = node_inv g origin order todo st"
  "node_inv g origin order todo (st\<lparr>ss_finalized_nodes := m\<rparr>) = node_inv g origin order todo st"
  "node_inv g origin order todo (st\<lparr>ss_pending := p\<rparr>) = node_inv g origin order todo st"
  "node_inv g origin order todo (st\<lparr>ss_pending_count := m\<rparr>) = node_inv g origin order todo st"
  by (simp_all add: node_inv_def)

lemma count_inv_polls [simp]:
  "count_inv g budget targets order rest slack (st\<lparr>ss_polls := n\<rparr>) = count_inv g budget targets order rest slack st"
  by (simp add: count_inv_def)

lemma count_inv_rest: "count_inv g budget targets order rest slack st \<Longrightarrow> rest' \<le> rest \<Longrightarrow>
    count_inv g budget targets order rest' slack st"
  by (auto simp: count_inv_def)

section \<open>Relaxing the outgoing range\<close>

definition edge_outcome :: "search_graph \<Rightarrow> search_context \<Rightarrow> dense_node_id \<Rightarrow> dense_node_id set
    \<Rightarrow> dense_node_id list \<Rightarrow> nat list \<Rightarrow> frontier_entry \<Rightarrow> completion_reason option \<times> search_state \<Rightarrow> bool" where
  "edge_outcome g ctx origin targets order todo current result \<longleftrightarrow>
     (case result of
        (None, st) \<Rightarrow> after_edge g origin order todo current st
          \<and> count_inv g (sc_budget ctx) targets order (length todo) 0 st
      | (Some reason, st) \<Rightarrow> stop_reason ctx st reason
          \<and> (\<exists>todo. search_inv g ctx origin targets order todo st))"

lemma edge_outcome_simps [simp]:
  "edge_outcome g ctx origin targets order todo current (None, st) \<longleftrightarrow>
     after_edge g origin order todo current st
     \<and> count_inv g (sc_budget ctx) targets order (length todo) 0 st"
  "edge_outcome g ctx origin targets order todo current (Some reason, st) \<longleftrightarrow>
     stop_reason ctx st reason \<and> (\<exists>todo. search_inv g ctx origin targets order todo st)"
  by (simp_all add: edge_outcome_def)

lemma examined_bound:
  assumes "context_sound g ctx err" "label_inv g origin order todo label"
    "count_inv g budget targets order rest slack st"
  shows "ss_examined_edges st + rest \<le> tp_adjacency_count (sc_topology ctx)"
proof -
  have "sum_list (map (\<lambda>x. length (out_idx g x)) order) \<le> tp_adjacency_count (sc_topology ctx)"
    using assms(1) label_invD(1,9) [OF assms(2)] by (auto simp: context_sound_def)
  with assms(3) show ?thesis by (simp add: count_inv_def)
qed

lemma relax_edge_inv:
  assumes ctx: "context_sound g ctx err" and at: "at_edge g origin order i todo current st"
    and cnt: "count_inv g (sc_budget ctx) targets order (length (i # todo)) 0 st"
  shows "ensures (expected_error (sc_environment ctx) err)
    (edge_outcome g ctx origin targets order todo current) (relax_edge ctx current i st)"
proof -
  have g: "graph_ok g" using ctx by (simp add: context_sound_def)
  have inv: "node_inv g origin order (i # todo) st" and i: "i \<in> set (out_idx g (last order))"
    using at by (auto simp: at_edge_def)
  note R = at_edge_range [OF at g]
  let ?env = "sc_environment ctx"
  let ?st1 = "st\<lparr>ss_polls := ss_polls st + 1\<rparr>"
  have si: "search_inv g ctx origin targets order (i # todo) st"
    using inv count_inv_rest [OF cnt, of 0] by (simp add: search_inv_def)
  have "ss_examined_edges st + 1 \<le> tp_adjacency_count (sc_topology ctx)"
    using examined_bound [OF ctx node_invD(1) [OF inv] cnt] by simp
  then have add: "checked_add (ss_examined_edges st) 1 = Some (ss_examined_edges st + 1)"
    using ctx by (auto simp: checked_add_def context_sound_def)
  let ?st2 = "\<lambda>polls. st\<lparr>ss_examined_edges := ss_examined_edges st + 1, ss_polls := polls\<rparr>"
  have edge: "ensures err (\<lambda>(loaded, polls). case loaded of None \<Rightarrow> \<exists>q. env_cancelled ?env q | Some e \<Rightarrow> e = sg_entry g i)
      (tp_edge_at (sc_topology ctx) ?env (ss_polls st + 1) i)"
    using ctx R(2) i unfolding context_sound_def by blast
  have budget: "\<forall>m. sc_budget ctx = ExaminedEdges m \<longrightarrow> ss_examined_edges st < m"
    if "budget_permits (sc_budget ctx) (ss_examined_edges st)"
    using that by auto
  have c2: "count_inv g (sc_budget ctx) targets order (length todo) 1 (?st2 polls)"
    if "budget_permits (sc_budget ctx) (ss_examined_edges st)" for polls
    using cnt budget [OF that] by (auto simp: count_inv_def)
  have at2: "at_edge g origin order i todo current (?st2 polls)" for polls
    using at by (auto simp: at_edge_def)
  show ?thesis
  proof (cases "env_cancelled ?env (ss_polls st)")
    case True
    with si show ?thesis by (auto simp: relax_edge_def is_cancelled_def stop_reason_def search_inv_def)
  next
    case nc: False
    show ?thesis
    proof (cases "budget_permits (sc_budget ctx) (ss_examined_edges st)")
      case False
      then have "sc_budget ctx = ExaminedEdges (ss_examined_edges st)"
        using cnt by (cases "sc_budget ctx") (auto simp: count_inv_def)
      with False nc si show ?thesis
        by (auto simp: relax_edge_def is_cancelled_def stop_reason_def search_inv_def)
    next
      case True
      have "ensures (expected_error ?env err) (edge_outcome g ctx origin targets order todo current)
          (rbind (relax_loaded ctx current (sg_entry g i) i (?st2 polls)) (\<lambda>st. Inr (None, st)))" for polls
        using relax_loaded_inv [OF ctx at2 c2 [OF True]] by simp
      moreover have "edge_outcome g ctx origin targets order todo current (Some Cancelled, ?st2 polls)"
        if "env_cancelled ?env q" for polls q
        using that inv count_inv_rest [OF count_inv_weaken, of g "sc_budget ctx" targets order "length todo" 0 "?st2 polls" 0]
          c2 [OF True] by (auto simp: stop_reason_def search_inv_def)
      ultimately show ?thesis
        using edge True nc add
        by (cases "tp_edge_at (sc_topology ctx) ?env (ss_polls st + 1) i")
          (auto simp: relax_edge_def is_cancelled_def expected_error_def split: option.splits)
    qed
  qed
qed

lemma relax_range_inv:
  assumes ctx: "context_sound g ctx err"
  shows "after_edge g origin order is current st \<Longrightarrow> order \<noteq> [] \<Longrightarrow> fe_node current = last order \<Longrightarrow>
    set is \<subseteq> set (out_idx g (last order)) \<Longrightarrow>
    count_inv g (sc_budget ctx) targets order (length is) 0 st \<Longrightarrow>
    ensures (expected_error (sc_environment ctx) err)
      (edge_outcome g ctx origin targets order [] current) (relax_range ctx current is st)"
proof (induction "is" arbitrary: st)
  case Nil
  then show ?case by simp
next
  case (Cons i "is")
  have "at_edge g origin order i is current st" using Cons.prems by (auto simp: at_edge_def after_edge_def)
  then have "ensures (expected_error (sc_environment ctx) err)
      (edge_outcome g ctx origin targets order is current) (relax_edge ctx current i st)"
    using relax_edge_inv [OF ctx] Cons.prems(5) by blast
  then show ?case
  proof (simp, rule ensures_mono)
    fix r assume r: "edge_outcome g ctx origin targets order is current r"
    show "ensures (expected_error (sc_environment ctx) err) (edge_outcome g ctx origin targets order [] current)
        (case r of (None, st) \<Rightarrow> relax_range ctx current is st | (Some reason, st) \<Rightarrow> Inr (Some reason, st))"
      using r Cons.IH Cons.prems(2-4) by (cases r; cases "fst r") auto
  qed
qed

section \<open>One iteration of the search\<close>

definition search_outcome :: "search_graph \<Rightarrow> search_context \<Rightarrow> dense_node_id \<Rightarrow> dense_node_id set
    \<Rightarrow> completion_reason \<times> search_state \<Rightarrow> bool" where
  "search_outcome g ctx origin targets result \<longleftrightarrow>
     (case result of (reason, st) \<Rightarrow> \<exists>order todo frontier.
        search_inv g ctx origin targets order todo (st\<lparr>ss_frontier := frontier\<rparr>)
        \<and> (reason = FrontierExhausted \<and> todo = [] \<and> frontier = []
           \<or> reason = AllDestinationsFinalized \<and> ss_pending_count st = 0
           \<or> stop_reason ctx st reason))"

lemma search_outcomeI:
  "search_inv g ctx origin targets order todo (st\<lparr>ss_frontier := frontier\<rparr>) \<Longrightarrow>
   reason = FrontierExhausted \<and> todo = [] \<and> frontier = []
     \<or> reason = AllDestinationsFinalized \<and> ss_pending_count st = 0 \<or> stop_reason ctx st reason \<Longrightarrow>
   search_outcome g ctx origin targets (reason, st)"
  by (auto simp: search_outcome_def)

lemma filter_true_update:
  "i < length xs \<Longrightarrow> xs ! i \<Longrightarrow> Suc (length (filter (\<lambda>b. b) (xs[i := False]))) = length (filter (\<lambda>b. b) xs)"
proof (induction xs arbitrary: i)
  case (Cons x xs)
  then show ?case by (cases i) auto
qed simp

lemma count_inv_pop:
  "count_inv g budget targets order rest slack st \<Longrightarrow> length frontier \<le> length (ss_frontier st) \<Longrightarrow>
   count_inv g budget targets order rest slack (st\<lparr>ss_frontier := frontier\<rparr>)"
  by (auto simp: count_inv_def)

lemma node_inv_pop:
  assumes "node_inv g origin order todo st"
    and "\<And>y b. y \<notin> set order \<Longrightarrow> slot (ss_distances st) y = Some b \<Longrightarrow> FrontierEntry b y \<noteq> current"
  shows "node_inv g origin order todo (st\<lparr>ss_frontier := remove1 current (ss_frontier st)\<rparr>)"
  using assms unfolding node_inv_def by (auto dest: notin_set_remove1)

lemma popped_least:
  assumes "node_inv g origin order todo st" "heap_pop (ss_frontier st) = Some (current, frontier)"
    "z \<notin> set order" "slot (ss_distances st) z = Some b"
  shows "fe_distance current \<le> b"
proof -
  have mem: "FrontierEntry b z \<in> set (ss_frontier st)" using node_invD(6) [OF assms(1,3,4)] .
  then have "FrontierEntry b z \<le> current" using heap_pop_Some(3) [OF assms(2)] by blast
  moreover have "f64_nonneg b" "f64_nonneg (fe_distance current)"
    using node_invD(7) [OF assms(1)] mem heap_pop_Some(1) [OF assms(2)] by fastforce+
  ultimately show ?thesis by (auto simp: less_eq_frontier_entry_def frontier_le_def word_le_def)
qed

lemma finalize_inv:
  assumes ctx: "context_sound g ctx err" and inv: "search_inv g ctx origin targets order [] st"
    and y: "y \<notin> set order" "slot (ss_distances st) y = Some d" "FrontierEntry d y = current"
    and least: "\<And>z b. z \<notin> set order \<Longrightarrow> slot (ss_distances st) z = Some b \<Longrightarrow> d \<le> b"
  shows "ensures E (\<lambda>st'. node_inv g origin (order @ [y]) (out_idx g y) st'
      \<and> count_inv g (sc_budget ctx) targets (order @ [y]) (length (out_idx g y)) 0 st'
      \<and> ss_distances st' = ss_distances st)
    (finalize_node (dense_as_usize y) (st\<lparr>ss_frontier := remove1 current (ss_frontier st), ss_polls := n\<rparr>))"
proof -
  let ?i = "dense_as_usize y"
  have g: "graph_ok g" using ctx by (simp add: context_sound_def)
  have inv: "node_inv g origin order [] st" and cnt: "count_inv g (sc_budget ctx) targets order 0 0 st"
    using inv by (auto simp: search_inv_def)
  note N = node_invD [OF inv]
  have r: "?i < sg_nodes g" using label_invD(4) [OF N(1) y(2)] .
  have lp: "length (ss_pending st) = sg_nodes g" using cnt by (simp add: count_inv_def)
  let ?f = "(ss_finalized st)[?i := True]"
  have fin: "?f ! dense_as_usize x \<longleftrightarrow> x \<in> set (order @ [y])" if "dense_as_usize x < sg_nodes g" for x
    using that N(3,4) r by (auto simp: nth_list_update)
  have lab: "label_inv g origin (order @ [y]) (out_idx g y) (slot (ss_distances st))"
    by (rule label_inv_finalize [OF N(1) y(1,2)]) (rule least)
  have fr: "dense_as_usize (fe_node e) < sg_nodes g \<and> f64_nonneg (fe_distance e)"
    if "e \<in> set (remove1 current (ss_frontier st))" for e
    using that N(7) set_remove1_subset by fast
  have "order = [] \<Longrightarrow> y = origin" using N(10) y(2) by blast
  then have node: "node_inv g origin (order @ [y]) (out_idx g y)
      (st\<lparr>ss_frontier := remove1 current (ss_frontier st), ss_polls := n, ss_finalized := ?f\<rparr>)"
    using lab fr N(2,3,5,6,8) fin pred_inv_finalize [OF N(9) y(1)] y(3)
    unfolding node_inv_def by auto
  have "length order + 1 \<le> U64_MAX" using order_length [OF N(1) g] by (simp add: U32_MAX_def U64_MAX_def)
  then have add: "checked_add (ss_finalized_nodes st) 1 = Some (length order + 1)"
    using cnt by (simp add: checked_add_def count_inv_def)
  have pos: "ss_pending_count st \<noteq> 0 \<and> ss_pending_count st = Suc (length (filter (\<lambda>b. b) ((ss_pending st)[?i := False])))"
    if "ss_pending st ! ?i"
  proof -
    have "ss_pending_count st = length (filter (\<lambda>b. b) (ss_pending st))" using cnt by (simp add: count_inv_def)
    with that filter_true_update [of ?i "ss_pending st"] lp r show ?thesis by linarith
  qed
  have len: "length (remove1 current (ss_frontier st)) \<le> length (ss_frontier st)" by (simp add: length_remove1)
  have c1: "count_inv g (sc_budget ctx) targets (order @ [y]) (length (out_idx g y)) 0
      (st\<lparr>ss_frontier := remove1 current (ss_frontier st), ss_polls := n, ss_finalized := ?f,
         ss_finalized_nodes := Suc (length order)\<rparr>)"
    using cnt len by (auto simp: count_inv_def)
  moreover have "count_inv g (sc_budget ctx) targets (order @ [y]) (length (out_idx g y)) 0
      (st\<lparr>ss_frontier := remove1 current (ss_frontier st), ss_polls := n, ss_finalized := ?f,
         ss_finalized_nodes := Suc (length order), ss_pending := (ss_pending st)[?i := False],
         ss_pending_count := ss_pending_count st - Suc 0\<rparr>)" if "ss_pending st ! ?i"
    using c1 pos [OF that] by (auto simp: count_inv_def nth_list_update)
  ultimately show ?thesis
    using node r N(3) lp add pos
    by (simp add: finalize_node_def write_at_def Let_def)
qed

definition step_outcome :: "search_graph \<Rightarrow> search_context \<Rightarrow> dense_node_id \<Rightarrow> dense_node_id set
    \<Rightarrow> completion_reason option \<times> search_state \<Rightarrow> bool" where
  "step_outcome g ctx origin targets result \<longleftrightarrow>
     (case result of
        (None, st) \<Rightarrow> \<exists>order. search_inv g ctx origin targets order [] st
      | (Some reason, st) \<Rightarrow> search_outcome g ctx origin targets (reason, st))"

lemma step_outcome_simps [simp]:
  "step_outcome g ctx origin targets (None, st) \<longleftrightarrow> (\<exists>order. search_inv g ctx origin targets order [] st)"
  "step_outcome g ctx origin targets (Some reason, st) \<longleftrightarrow> search_outcome g ctx origin targets (reason, st)"
  by (simp_all add: step_outcome_def)

lemma edge_outcome_step:
  assumes "edge_outcome g ctx origin targets order [] current r"
  shows "step_outcome g ctx origin targets r"
proof (cases r)
  case (Pair stop st)
  show ?thesis
  proof (cases stop)
    case None
    with assms Pair show ?thesis by (auto simp: after_edge_def search_inv_def)
  next
    case (Some reason)
    with assms Pair show ?thesis
      by (auto intro: search_outcomeI [where frontier = "ss_frontier st"])
  qed
qed

lemma search_step_inv:
  assumes ctx: "context_sound g ctx err" and inv: "search_inv g ctx origin targets order [] st"
  shows "ensures (expected_error (sc_environment ctx) err) (step_outcome g ctx origin targets) (search_step ctx st)"
proof (cases "heap_pop (ss_frontier st)")
  case None
  have "st\<lparr>ss_frontier := []\<rparr> = st" using None by (cases st) simp
  then have "search_inv g ctx origin targets order [] (st\<lparr>ss_frontier := []\<rparr>)" using inv by simp
  with None show ?thesis by (auto simp: search_step_def heap_pop_def intro: search_outcomeI)
next
  case (Some popped)
  then obtain current where pop: "heap_pop (ss_frontier st) = Some (current, remove1 current (ss_frontier st))"
    using heap_pop_Some(2) by (cases popped) auto
  let ?y = "fe_node current" and ?fr = "remove1 current (ss_frontier st)"
  let ?st1 = "st\<lparr>ss_frontier := ?fr\<rparr>"
  have node: "node_inv g origin order [] st" and cnt: "count_inv g (sc_budget ctx) targets order 0 0 st"
    using inv by (auto simp: search_inv_def)
  note N = node_invD [OF node]
  have cur: "dense_as_usize ?y < sg_nodes g" "f64_nonneg (fe_distance current)"
    using N(7) heap_pop_Some(1) [OF pop] by auto
  have keep: "search_inv g ctx origin targets order [] ?st1"
    if "?y \<in> set order \<or> slot (ss_distances st) ?y \<noteq> Some (fe_distance current)"
    unfolding search_inv_def
    using that by (intro conjI node_inv_pop [OF node] count_inv_pop [OF cnt]) (auto simp: length_remove1)
  have rec: "slot (ss_distances st) ?y = ss_distances st ! dense_as_usize ?y" using cur N(2) by (simp add: slot_def)
  have stale: "(case slot (ss_distances st) ?y of None \<Rightarrow> True | Some d \<Rightarrow> \<not> f64_eq d (fe_distance current))
      \<longleftrightarrow> slot (ss_distances st) ?y \<noteq> Some (fe_distance current)"
    using f64_nonneg_compare(2) [OF label_invD(5) [OF N(1)] cur(2)] by (auto split: option.splits)
  show ?thesis
  proof (cases "?y \<in> set order \<or> slot (ss_distances st) ?y \<noteq> Some (fe_distance current)")
    case True
    with keep stale pop cur N(2,3,4) show ?thesis
      by (auto simp: search_step_def Let_def rec)
  next
    case False
    then have y: "?y \<notin> set order" "slot (ss_distances st) ?y = Some (fe_distance current)" by auto
    note fin = finalize_inv [OF ctx inv y, of current, OF _ popped_least [OF node pop]]
    let ?st2 = "?st1\<lparr>ss_polls := ss_polls st + 1\<rparr>"
    have cancelled: "search_outcome g ctx origin targets (Cancelled, ?st2)"
      if "env_cancelled (sc_environment ctx) (ss_polls st)"
      using that inv
      by (intro search_outcomeI [where frontier = "ss_frontier st" and todo = "[]" and order = order]) (auto simp: stop_reason_def search_inv_def)
    have "ensures (expected_error (sc_environment ctx) err) (step_outcome g ctx origin targets)
      (rbind (finalize_node (dense_as_usize ?y) ?st2) (\<lambda>st.
        if ss_pending_count st = 0 then Inr (Some AllDestinationsFinalized, st)
        else rbind (tp_outgoing_range (sc_topology ctx) ?y) (\<lambda>(start, end).
          relax_range ctx current [start..<end] st)))"
    proof (subst ensures_simps(3), rule ensures_mono [OF fin])
      fix st' assume st': "node_inv g origin (order @ [?y]) (out_idx g ?y) st'
        \<and> count_inv g (sc_budget ctx) targets (order @ [?y]) (length (out_idx g ?y)) 0 st'
        \<and> ss_distances st' = ss_distances st"
      have "step_outcome g ctx origin targets (Some AllDestinationsFinalized, st')" if "ss_pending_count st' = 0"
        using st' that count_inv_rest [of _ _ _ _ _ 0 st' 0]
        by (auto intro!: search_outcomeI [where frontier = "ss_frontier st'"] simp: search_inv_def)
      moreover have "ensures (expected_error (sc_environment ctx) err) (step_outcome g ctx origin targets)
          (relax_range ctx current (out_idx g ?y) st')"
        using relax_range_inv [OF ctx, of origin "order @ [?y]" "out_idx g ?y" current st' targets] st' y
        by (auto simp: after_edge_def intro: ensures_mono edge_outcome_step)
      ultimately show "ensures (expected_error (sc_environment ctx) err) (step_outcome g ctx origin targets)
        (if ss_pending_count st' = 0 then Inr (Some AllDestinationsFinalized, st')
        else rbind (tp_outgoing_range (sc_topology ctx) ?y) (\<lambda>(start, end).
          relax_range ctx current [start..<end] st'))"
        using ctx cur by (auto simp: context_sound_def out_idx_def split: prod.splits)
    qed simp
    moreover have "f64_eq (fe_distance current) (fe_distance current)"
      using f64_nonneg_compare(2) cur(2) by blast
    ultimately show ?thesis
      using cancelled pop cur N(2,3,4) y
      by (auto simp: search_step_def Let_def is_cancelled_def rec [symmetric])
  qed
qed

section \<open>The whole search\<close>

lemma search_loop_inv:
  assumes "context_sound g ctx err" "search_inv g ctx origin targets order [] st"
  shows "ensures (expected_error (sc_environment ctx) err) (search_outcome g ctx origin targets)
    (search_loop ctx st)"
  using assms
proof (induction ctx st arbitrary: order rule: search_loop.induct)
  case (1 ctx st)
  note step = search_step_inv [OF 1(2,3)]
  show ?case
  proof (cases "search_step ctx st")
    case (Inl e)
    with step show ?thesis by (simp add: search_loop.simps [of ctx st])
  next
    case (Inr r)
    obtain stop st' where r: "r = (stop, st')" by (cases r)
    show ?thesis
    proof (cases stop)
      case None
      with step Inr r obtain order' where "search_inv g ctx origin targets order' [] st'" by auto
      with 1(1) [OF Inr r [symmetric] None 1(2)] Inr r None show ?thesis
        by (simp add: search_loop.simps [of ctx st])
    next
      case (Some reason)
      with step Inr r show ?thesis by (simp add: search_loop.simps [of ctx st])
    qed
  qed
qed

lemma initial_inv:
  assumes "context_sound g ctx err" "dense_as_usize origin < sg_nodes g"
    and "\<And>ps. predecessors = Some ps \<Longrightarrow> length ps = sg_nodes g"
    and "length pending = sg_nodes g" "pending_count = length (filter (\<lambda>b. b) pending)"
    and "\<And>x. x \<in> targets \<Longrightarrow> dense_as_usize x < sg_nodes g \<and> pending ! dense_as_usize x"
  shows "search_inv g ctx origin targets [] []
    (initial_search_state (sg_nodes g) origin predecessors pending pending_count)"
proof -
  let ?d = "(replicate (sg_nodes g) None)[dense_as_usize origin := Some 0] :: f64 option list"
  have slot: "slot ?d = [origin \<mapsto> 0]"
    using assms(2) by (auto simp: slot_def fun_eq_iff nth_list_update)
  have "label_inv g origin [] [] (slot ?d)" using label_inv_initial [OF assms(2)] by (simp add: slot)
  moreover have "pred_inv g origin [] (slot ?d) p" for p by (auto simp: pred_inv_def slot)
  ultimately have "node_inv g origin [] []
      (initial_search_state (sg_nodes g) origin predecessors pending pending_count)"
    using assms(2,3) by (auto simp: node_inv_def initial_search_state_def slot split: if_splits)
  moreover have "count_inv g (sc_budget ctx) targets [] 0 0
      (initial_search_state (sg_nodes g) origin predecessors pending pending_count)"
    using assms(4-6) by (simp add: count_inv_def initial_search_state_def)
  ultimately show ?thesis by (simp add: search_inv_def)
qed

lemma run_search_inv:
  assumes "context_sound g ctx err" "search_inv g ctx origin targets [] [] st"
  shows "ensures (expected_error (sc_environment ctx) err) (search_outcome g ctx origin targets)
    (run_search ctx st)"
proof -
  let ?st = "st\<lparr>ss_polls := ss_polls st + 1\<rparr>"
  have inv: "search_inv g ctx origin targets [] [] ?st" using assms(2) by (simp add: search_inv_def)
  have "search_outcome g ctx origin targets (Cancelled, ?st)"
    if "env_cancelled (sc_environment ctx) (ss_polls st)"
    using that inv by (intro search_outcomeI [where frontier = "ss_frontier st" and todo = "[]" and order = "[]"])
      (auto simp: stop_reason_def)
  with search_loop_inv [OF assms(1) inv] show ?thesis by (simp add: run_search_def is_cancelled_def)
qed

end
