(* ===== verification/Route_Correctness.thy ===== *)
theory Route_Correctness
  imports Search_Invariant
begin

text \<open>
  Path reconstruction, the classification of the destinations and the whole of
  \<^verbatim>\<open>route_topology_controlled\<close>, on top of the search invariant. The contract a topology has to
  keep is the locale \<open>topology\<close>; the compiled routing image is shown to keep it.
\<close>

section \<open>Paths\<close>

text \<open>A step of a path goes along one stored, enabled edge and repeats its data.\<close>

definition step_ok :: "search_graph \<Rightarrow> (dense_node_id \<Rightarrow> node_id option) \<Rightarrow> dense_node_id
    \<Rightarrow> path_step \<Rightarrow> dense_node_id \<Rightarrow> bool" where
  "step_ok g ext x s y \<longleftrightarrow>
     (\<exists>i \<in> set (out_idx g x). sg_dest g i = y
        \<and> ps_edge_id s = oe_edge_id (sg_entry g i) \<and> ps_relation_id s = oe_relation_id (sg_entry g i)
        \<and> ps_base_weight s = oe_base_weight (sg_entry g i)
        \<and> edge_multiplier (sg_profile g) (sg_entry g i) = Some (ps_multiplier s)
        \<and> sg_weight g i = Some (ps_effective_weight s))
     \<and> ext x = Some (ps_source s) \<and> ext y = Some (ps_destination s)"

inductive traces :: "search_graph \<Rightarrow> (dense_node_id \<Rightarrow> node_id option) \<Rightarrow> dense_node_id
    \<Rightarrow> path_step list \<Rightarrow> dense_node_id \<Rightarrow> bool" for g ext where
  traces_end: "traces g ext x [] x"
| traces_step: "step_ok g ext x s y \<Longrightarrow> traces g ext y ss z \<Longrightarrow> traces g ext x (s # ss) z"

inductive_simps traces_Nil [simp]: "traces g ext x [] z"
inductive_simps traces_Cons: "traces g ext x (s # ss) z"

definition path_sum :: "f64 \<Rightarrow> path_step list \<Rightarrow> f64 routed" where
  "path_sum start steps =
     fold_result (\<lambda>step s. arithmetic (accumulate_distance s (ps_effective_weight step))) steps start"

lemma sum_steps_path_sum: "sum_steps steps = path_sum 0 steps"
  by (simp add: sum_steps_def path_sum_def)

definition path_ok :: "search_graph \<Rightarrow> routing_topology \<Rightarrow> node_id \<Rightarrow> dense_node_id
    \<Rightarrow> dense_node_id \<Rightarrow> f64 \<Rightarrow> route_path \<Rightarrow> bool" where
  "path_ok g topology external_origin origin x d p \<longleftrightarrow>
     pa_origin p = external_origin \<and> tp_external_node_id topology x = Some (pa_destination p)
     \<and> pa_logical_distance p = d
     \<and> traces g (tp_external_node_id topology) origin (pa_steps p) x
     \<and> sum_steps (pa_steps p) = Inr d"

text \<open>The predecessors of finalized nodes lead back, one position of the order at a time.\<close>

definition rank :: "dense_node_id list \<Rightarrow> dense_node_id \<Rightarrow> nat" where
  "rank order x = length (takeWhile (\<lambda>z. z \<noteq> x) order)"

lemma rank_less: "x \<in> set order \<Longrightarrow> rank order x < length order \<and> order ! rank order x = x"
  by (induction order) (auto simp: rank_def)

lemma rank_takeWhile: "x \<in> set (takeWhile (\<lambda>z. z \<noteq> y) order) \<Longrightarrow> x \<in> set order \<and> rank order x < rank order y"
  by (induction order) (auto simp: rank_def split: if_splits)

lemma label_accumulate:
  assumes inv: "label_inv g origin order todo label" and g: "graph_ok g"
    and x: "x \<in> set order" "label x = Some a" and w: "i \<in> set (out_idx g x)" "sg_weight g i = Some w"
  shows "accumulate_distance a w = Inr (f64_add a w)"
proof -
  note rk = rank_less [OF x(1)]
  have "f64_units a \<le> rank order x * 2 ^ WEIGHT_EXP"
    using label_invD(10) [OF inv, of "rank order x"] rk x(2) by simp
  moreover have "rank order x \<le> U32_MAX" using rk order_length [OF inv g] by simp
  ultimately show ?thesis
    using accumulate_ok(1) [OF label_invD(5) [OF inv x(2)]] sg_weight_ok [OF g label_invD(9) [OF inv x(1)] w] by blast
qed

definition path_outcome :: "search_graph \<Rightarrow> search_context \<Rightarrow> dense_node_id \<Rightarrow> dense_node_id \<Rightarrow> f64
    \<Rightarrow> path_step list option \<times> nat \<times> nat \<Rightarrow> bool" where
  "path_outcome g ctx origin x d result \<longleftrightarrow>
     (case fst result of
        None \<Rightarrow> \<exists>q. env_cancelled (sc_environment ctx) q
      | Some reversed \<Rightarrow> traces g (tp_external_node_id (sc_topology ctx)) origin (rev reversed) x
          \<and> path_sum 0 (rev reversed) = Inr d)"

lemma load_predecessor_ok:
  assumes ctx: "context_sound g ctx err" and inv: "label_inv g origin order todo label"
    and p: "slot ps x = Some p" "pred_ok g order label p x b"
  shows "ensures err (\<lambda>(loaded, polls). case loaded of
       None \<Rightarrow> \<exists>q. env_cancelled (sc_environment ctx) q
     | Some (q, e) \<Rightarrow> q = p \<and> e = sg_entry g (pd_adjacency p)) (load_predecessor ctx ps x polls)"
proof -
  have src: "pd_source p \<in> set order" using p(2) set_takeWhileD by (fastforce simp: pred_ok_def)
  have r: "dense_as_usize (pd_source p) < sg_nodes g" using label_invD(9) [OF inv src] .
  have get: "Option.bind (get ps (dense_as_usize x)) (\<lambda>p. p) = Some p"
    using p(1) by (auto simp: slot_def get_def split: if_splits)
  have i: "pd_adjacency p \<in> set (out_idx g (pd_source p))" using p(2) by (simp add: pred_ok_def)
  then have "fst (sg_out g (pd_source p)) \<le> pd_adjacency p" "pd_adjacency p < snd (sg_out g (pd_source p))"
    by (auto simp: out_idx_def)
  moreover have "tp_outgoing_range (sc_topology ctx) (pd_source p) = Inr (sg_out g (pd_source p))"
    using ctx r by (simp add: context_sound_def)
  moreover have "ensures err (\<lambda>(loaded, polls). case loaded of
       None \<Rightarrow> \<exists>q. env_cancelled (sc_environment ctx) q | Some e \<Rightarrow> e = sg_entry g (pd_adjacency p))
      (tp_edge_at (sc_topology ctx) (sc_environment ctx) polls (pd_adjacency p))"
    using ctx r i unfolding context_sound_def by blast
  ultimately show ?thesis
    by (cases "tp_edge_at (sc_topology ctx) (sc_environment ctx) polls (pd_adjacency p)")
      (auto simp: load_predecessor_def get split: prod.splits option.splits)
qed

lemma path_step_at_ok:
  assumes ctx: "context_sound g ctx err" and inv: "label_inv g origin order todo label"
    and p: "pred_ok g order label p x b" and x: "dense_as_usize x < sg_nodes g"
  shows "\<exists>s. path_step_at ctx x p (sg_entry g (pd_adjacency p)) = Inr s
    \<and> step_ok g (tp_external_node_id (sc_topology ctx)) (pd_source p) s x
    \<and> sg_weight g (pd_adjacency p) = Some (ps_effective_weight s)"
proof -
  have g: "graph_ok g" and prof: "sc_profile ctx = sg_profile g" using ctx by (auto simp: context_sound_def)
  have src: "pd_source p \<in> set order" using p set_takeWhileD by (fastforce simp: pred_ok_def)
  have r: "dense_as_usize (pd_source p) < sg_nodes g" using label_invD(9) [OF inv src] .
  let ?e = "sg_entry g (pd_adjacency p)"
  obtain m where m: "edge_multiplier (sg_profile g) ?e = Some m"
    using p by (auto simp: pred_ok_def edge_weight_def)
  then have use: "relation_use_index (sg_profile g) (unat (oe_relation_index ?e)) = Some (Enabled m)"
    by (auto simp: edge_multiplier_def split: option.splits relation_use.splits)
  have i: "pd_adjacency p \<in> set (out_idx g (pd_source p))" and e: "oe_edge_id ?e = pd_edge p" "oe_destination ?e = x"
    using p by (auto simp: pred_ok_def)
  have "base_weight_ok (oe_base_weight ?e)" using g r i by (auto simp: graph_ok_def)
  then have eff: "effective_weight (oe_base_weight ?e) m = Inr (weight_of (oe_base_weight ?e) m)"
    using weight_of_ok(1) edge_multiplier_ok [OF g m] by blast
  obtain es ed where ext: "tp_external_node_id (sc_topology ctx) (pd_source p) = Some es"
      "tp_external_node_id (sc_topology ctx) x = Some ed"
    using ctx r x by (fastforce simp: context_sound_def)
  show ?thesis
    using m use e eff ext i by (auto simp: path_step_at_def prof arithmetic_def step_ok_def edge_weight_def)
qed

lemma path_sum_Cons:
  "accumulate_distance a (ps_effective_weight s) = Inr b \<Longrightarrow> path_sum a (s # ss) = path_sum b ss"
  by (simp add: path_sum_def arithmetic_def)

lemma path_loop_ok:
  assumes ctx: "context_sound g ctx err" and inv: "label_inv g origin order todo label"
    and preds: "pred_inv g origin order label (slot ps)" "length ps = sg_nodes g"
  shows "x \<in> set order \<Longrightarrow> label x = Some a \<Longrightarrow> length visited = sg_nodes g \<Longrightarrow>
    (\<And>z. z \<in> set order \<Longrightarrow> rank order z \<le> rank order x \<Longrightarrow> \<not> visited ! dense_as_usize z) \<Longrightarrow>
    length reversed + rank order x < length order \<Longrightarrow>
    traces g (tp_external_node_id (sc_topology ctx)) x (rev reversed) dest \<Longrightarrow>
    path_sum a (rev reversed) = Inr d \<Longrightarrow>
    ensures err (path_outcome g ctx origin dest d) (path_loop ctx origin ps x visited reversed polls steps)"
proof (induction "rank order x" arbitrary: x a visited reversed polls steps rule: less_induct)
  case less
  show ?case
  proof (cases "x = origin")
    case True
    with less.prems(2) label_invD(3) [OF inv] have "a = 0" by simp
    with less.prems True show ?thesis by (simp add: path_loop.simps [of ctx origin ps origin] path_outcome_def)
  next
    case False
    then obtain p where p: "slot ps x = Some p" "pred_ok g order label p x a"
      using preds(1) less.prems(2) by (auto simp: pred_inv_def)
    have g: "graph_ok g" and n: "tp_node_count (sc_topology ctx) = sg_nodes g" using ctx by (auto simp: context_sound_def)
    have r: "dense_as_usize x < sg_nodes g" using label_invD(9) [OF inv less.prems(1)] .
    have src: "pd_source p \<in> set order" "rank order (pd_source p) < rank order x"
      using p(2) rank_takeWhile by (auto simp: pred_ok_def)
    obtain w c where wc: "sg_weight g (pd_adjacency p) = Some w" "label (pd_source p) = Some c" "a = f64_add c w"
      using p(2) by (auto simp: pred_ok_def)
    have i: "pd_adjacency p \<in> set (out_idx g (pd_source p))" using p(2) by (simp add: pred_ok_def)
    obtain s where s: "path_step_at ctx x p (sg_entry g (pd_adjacency p)) = Inr s"
        "step_ok g (tp_external_node_id (sc_topology ctx)) (pd_source p) s x"
        "sg_weight g (pd_adjacency p) = Some (ps_effective_weight s)"
      using path_step_at_ok [OF ctx inv p(2) r] by blast
    have acc: "accumulate_distance c (ps_effective_weight s) = Inr a"
      using label_accumulate [OF inv g src(1) wc(2) i s(3)] wc s(3) by simp
    have len: "length reversed < sg_nodes g" using order_length_nodes [OF inv] less.prems(5) by simp
    have nv: "\<not> visited ! dense_as_usize x" using less.prems(1,4) by blast
    have cont: "ensures err (path_outcome g ctx origin dest d)
        (path_loop ctx origin ps (pd_source p) (visited[dense_as_usize x := True]) (reversed @ [s]) polls' steps')"
      for polls' steps'
    proof (rule less.hyps [OF src(2,1) wc(2)])
      show "length (visited[dense_as_usize x := True]) = sg_nodes g" using less.prems(3) by simp
      fix z assume z: "z \<in> set order" "rank order z \<le> rank order (pd_source p)"
      then have "z \<noteq> x" using src(2) by auto
      then have "dense_as_usize x \<noteq> dense_as_usize z" by auto
      moreover have "\<not> visited ! dense_as_usize z" using less.prems(4) z src(2) by simp
      ultimately show "\<not> visited[dense_as_usize x := True] ! dense_as_usize z" by simp
    next
      show "length (reversed @ [s]) + rank order (pd_source p) < length order" using less.prems(5) src(2) by simp
      show "traces g (tp_external_node_id (sc_topology ctx)) (pd_source p) (rev (reversed @ [s])) dest"
        using s(2) less.prems(6) by (simp add: traces_step)
      show "path_sum c (rev (reversed @ [s])) = Inr d" using path_sum_Cons [OF acc] less.prems(7) by simp
    qed
    have load: "ensures err (\<lambda>(loaded, polls). case loaded of
         None \<Rightarrow> \<exists>q. env_cancelled (sc_environment ctx) q
       | Some (q, e) \<Rightarrow> q = p \<and> e = sg_entry g (pd_adjacency p)) (load_predecessor ctx ps x (polls + 1))"
      by (rule load_predecessor_ok [OF ctx inv p])
    show ?thesis
    proof (cases "env_cancelled (sc_environment ctx) polls")
      case True
      with False show ?thesis by (auto simp: path_loop.simps [of ctx origin ps x] path_outcome_def)
    next
      case nc: False
      have "ensures err (path_outcome g ctx origin dest d)
        (rbind (load_predecessor ctx ps x (polls + 1)) (\<lambda>(loaded, polls).
          case loaded of None \<Rightarrow> Inr (None, polls, steps)
          | Some (predecessor, edge) \<Rightarrow>
              rbind (path_step_at ctx x predecessor edge) (\<lambda>step.
              path_loop ctx origin ps (pd_source predecessor)
                (visited[dense_as_usize x := True]) (reversed @ [step]) polls
                (saturating_add steps 1))))"
      proof (subst ensures_simps(3), rule ensures_mono [OF load])
        fix l :: "(predecessor \<times> outgoing_edge) option \<times> nat"
        assume l: "case l of (loaded, polls) \<Rightarrow> case loaded of
             None \<Rightarrow> \<exists>q. env_cancelled (sc_environment ctx) q
           | Some (q, e) \<Rightarrow> q = p \<and> e = sg_entry g (pd_adjacency p)"
        obtain loaded polls' where lp: "l = (loaded, polls')" by (cases l)
        show "ensures err (path_outcome g ctx origin dest d) (case l of (loaded, polls) \<Rightarrow>
          case loaded of None \<Rightarrow> Inr (None, polls, steps)
          | Some (predecessor, edge) \<Rightarrow>
              rbind (path_step_at ctx x predecessor edge) (\<lambda>step.
              path_loop ctx origin ps (pd_source predecessor)
                (visited[dense_as_usize x := True]) (reversed @ [step]) polls (saturating_add steps 1)))"
          using l s(1) cont lp by (cases loaded) (auto simp: path_outcome_def)
      qed
      with nc False nv r len less.prems(3) show ?thesis
        by (simp add: path_loop.simps [of ctx origin ps x] n not_le)
    qed
  qed
qed

lemma reconstruct_path_ok:
  assumes ctx: "context_sound g ctx err" and inv: "label_inv g origin order todo label"
    and preds: "pred_inv g origin order label (slot ps)" "length ps = sg_nodes g"
    and x: "x \<in> set order \<or> x = origin" "label x = Some d"
    and ext: "tp_external_node_id (sc_topology ctx) x = Some external_x"
  shows "ensures (expected_error (sc_environment ctx) err) (\<lambda>(path, _). case path of
       None \<Rightarrow> \<exists>q. env_cancelled (sc_environment ctx) q
     | Some p \<Rightarrow> path_ok g (sc_topology ctx) external_origin origin x d p)
    (reconstruct_path ctx external_origin origin external_x x d ps polls steps)"
proof (cases "origin = x")
  case True
  with label_invD(3) [OF inv] x(2) ext show ?thesis
    by (simp add: reconstruct_path_def path_ok_def sum_steps_def)
next
  case False
  let ?env = "sc_environment ctx"
  have x: "x \<in> set order" "label x = Some d" using x False by auto
  have nn: "f64_eq d d" using f64_nonneg_compare(2) label_invD(5) [OF inv x(2)] by blast
  have n: "tp_node_count (sc_topology ctx) = sg_nodes g" using ctx by (simp add: context_sound_def)
  have "ensures err (path_outcome g ctx origin x d)
      (path_loop ctx origin ps x (replicate (sg_nodes g) False) [] polls steps)"
    using rank_less [OF x(1)] label_invD(9) [OF inv]
    by (intro path_loop_ok [OF ctx inv preds x]) (auto simp: path_sum_def)
  then show ?thesis
    using False ext nn
    by (cases "path_loop ctx origin ps x (replicate (sg_nodes g) False) [] polls steps")
      (auto simp: reconstruct_path_def Let_def try_filled_def routing_try_vec_def n allocation_failed_def
        expected_error_def path_outcome_def path_ok_def sum_steps_path_sum split: option.splits)
qed

section \<open>Classifying the destinations\<close>

definition result_ok :: "search_graph \<Rightarrow> routing_topology \<Rightarrow> environment \<Rightarrow> routing_request
    \<Rightarrow> dense_node_id \<Rightarrow> completion_reason \<Rightarrow> destination_result \<Rightarrow> bool" where
  "result_ok g topology env request origin reason r \<longleftrightarrow>
     (case tp_dense_node_id topology (dr_destination r) of
        None \<Rightarrow> dr_state r = MissingNode
      | Some x \<Rightarrow>
         (case dr_state r of
            MissingNode \<Rightarrow> False
          | Unreachable \<Rightarrow> \<forall>c. \<not> f64_walk (graph_edge g) origin x c
          | Incomplete \<Rightarrow> reason = BudgetExhausted \<or> reason = Cancelled
          | Exact e \<Rightarrow> shortest g origin x (xr_logical_distance e)
              \<and> (case xr_path e of
                    None \<Rightarrow> rq_return_paths request \<longrightarrow> (\<exists>q. env_cancelled env q)
                  | Some p \<Rightarrow> rq_return_paths request
                      \<and> path_ok g topology (rq_origin request) origin x (xr_logical_distance e) p
                      \<and> pa_destination p = dr_destination r)))"

text \<open>What holds of the classification loop's state.\<close>

definition result_inv :: "search_graph \<Rightarrow> search_context \<Rightarrow> routing_request \<Rightarrow> dense_node_id
    \<Rightarrow> completion_reason \<Rightarrow> (dense_node_id \<Rightarrow> f64 option) \<Rightarrow> node_id list \<Rightarrow> result_state \<Rightarrow> bool" where
  "result_inv g ctx request origin reason label dests re \<longleftrightarrow>
     map dr_destination (re_results re) = dests
     \<and> (\<forall>r \<in> set (re_results re). result_ok g (sc_topology ctx) (sc_environment ctx) request origin (re_reason re) r)
     \<and> (re_reason re = reason \<or> re_reason re = Cancelled \<and> (\<exists>q. env_cancelled (sc_environment ctx) q))
     \<and> (re_cache re = None \<longleftrightarrow> \<not> rq_return_paths request)
     \<and> (\<forall>cache. re_cache re = Some cache \<longrightarrow> length cache = sg_nodes g
          \<and> (\<forall>x p. slot cache x = Some p \<longrightarrow> (\<exists>d. label x = Some d
               \<and> path_ok g (sc_topology ctx) (rq_origin request) origin x d p)))"

lemma result_ok_cancelled:
  "result_ok g topology env request origin reason r \<Longrightarrow> result_ok g topology env request origin Cancelled r"
  by (auto simp: result_ok_def split: option.splits destination_state.splits)

text \<open>The facts about a finished search that classification uses.\<close>

definition finished :: "search_graph \<Rightarrow> search_context \<Rightarrow> routing_request \<Rightarrow> dense_node_id
    \<Rightarrow> dense_node_id set \<Rightarrow> completion_reason \<Rightarrow> dense_node_id list \<Rightarrow> nat list \<Rightarrow> search_state \<Rightarrow> bool" where
  "finished g ctx request origin targets reason order todo st \<longleftrightarrow>
     label_inv g origin order todo (slot (ss_distances st))
     \<and> length (ss_distances st) = sg_nodes g \<and> length (ss_finalized st) = sg_nodes g
     \<and> (\<forall>x. dense_as_usize x < sg_nodes g \<longrightarrow> (ss_finalized st ! dense_as_usize x \<longleftrightarrow> x \<in> set order))
     \<and> (ss_predecessors st = None \<longleftrightarrow> \<not> rq_return_paths request)
     \<and> (\<forall>ps. ss_predecessors st = Some ps \<longrightarrow>
          length ps = sg_nodes g \<and> pred_inv g origin order (slot (ss_distances st)) (slot ps))
     \<and> (\<forall>x \<in> targets. dense_as_usize x < sg_nodes g)
     \<and> (\<forall>x \<in> targets. x \<notin> set order \<longrightarrow> reason \<noteq> BudgetExhausted \<longrightarrow> reason \<noteq> Cancelled \<longrightarrow>
          (\<forall>c. \<not> f64_walk (graph_edge g) origin x c))"

lemma exact_path_ok:
  assumes ctx: "context_sound g ctx err" and fin: "finished g ctx request origin targets reason order todo st"
    and re: "result_inv g ctx request origin reason (slot (ss_distances st)) dests re"
    and x: "x \<in> set order \<or> x = origin" "slot (ss_distances st) x = Some d" "dense_as_usize x < sg_nodes g"
    and ext: "tp_external_node_id (sc_topology ctx) x = Some dest"
  shows "ensures (expected_error (sc_environment ctx) err) (\<lambda>(path, re').
      result_inv g ctx request origin reason (slot (ss_distances st)) dests re'
      \<and> (case path of
           None \<Rightarrow> rq_return_paths request \<longrightarrow> (\<exists>q. env_cancelled (sc_environment ctx) q)
         | Some p \<Rightarrow> rq_return_paths request \<and> path_ok g (sc_topology ctx) (rq_origin request) origin x d p
             \<and> pa_destination p = dest))
    (exact_path ctx request origin st dest x d re)"
proof (cases "rq_return_paths request")
  case False
  with re fin show ?thesis by (auto simp: exact_path_def finished_def result_inv_def)
next
  case True
  obtain ps cache where pc: "ss_predecessors st = Some ps" "re_cache re = Some cache"
    using True fin re by (auto simp: finished_def result_inv_def)
  have P: "label_inv g origin order todo (slot (ss_distances st))"
      "pred_inv g origin order (slot (ss_distances st)) (slot ps)" "length ps = sg_nodes g"
    using fin pc(1) by (auto simp: finished_def)
  have len: "length cache = sg_nodes g" using re pc(2) by (simp add: result_inv_def)
  show ?thesis
  proof (cases "slot cache x")
    case (Some p)
    then have "path_ok g (sc_topology ctx) (rq_origin request) origin x d p"
      using re pc(2) x(2) by (fastforce simp: result_inv_def)
    with Some re True pc len x(3) ext show ?thesis
      by (auto simp: exact_path_def slot_def path_ok_def)
  next
    case None
    let ?r = "reconstruct_path ctx (rq_origin request) origin dest x d ps (re_polls re) (re_steps re)"
    note rec = reconstruct_path_ok [OF ctx P x(1,2) ext, of "rq_origin request" "re_polls re" "re_steps re"]
    have cached: "result_inv g ctx request origin reason (slot (ss_distances st)) dests
        (re\<lparr>re_polls := a, re_steps := b, re_cache := Some (cache[dense_as_usize x := Some p])\<rparr>)"
      if "path_ok g (sc_topology ctx) (rq_origin request) origin x d p" for p a b
      using re that True pc(2) len x(2,3) by (auto simp: result_inv_def)
    have cancelled: "result_inv g ctx request origin reason (slot (ss_distances st)) dests
        (re\<lparr>re_polls := a, re_steps := b, re_reason := Cancelled\<rparr>)"
      if "env_cancelled (sc_environment ctx) q" for q a b
      using re that result_ok_cancelled by (auto simp: result_inv_def)
    show ?thesis
      using rec None True pc len x(3) cached cancelled ext
      by (cases ?r) (auto simp: exact_path_def slot_def path_ok_def Let_def split: option.splits)
  qed
qed

lemma result_inv_append:
  assumes "result_inv g ctx request origin reason label dests re"
    and "result_ok g (sc_topology ctx) (sc_environment ctx) request origin (re_reason re)
      \<lparr>dr_destination = dest, dr_state = state\<rparr>"
  shows "result_inv g ctx request origin reason label (dests @ [dest])
    (re\<lparr>re_results := re_results re @ [\<lparr>dr_destination = dest, dr_state = state\<rparr>]\<rparr>)"
  using assms by (auto simp: result_inv_def)

lemma classify_ok:
  assumes ctx: "context_sound g ctx err" and fin: "finished g ctx request origin targets reason order todo st"
    and re: "result_inv g ctx request origin reason (slot (ss_distances st)) dests re"
    and found: "found = tp_dense_node_id (sc_topology ctx) dest"
    and ids: "\<And>x. found = Some x \<Longrightarrow> x \<in> targets \<and> tp_external_node_id (sc_topology ctx) x = Some dest"
  shows "ensures (expected_error (sc_environment ctx) err)
    (result_inv g ctx request origin reason (slot (ss_distances st)) (dests @ [dest]))
    (classify_destination ctx request origin st (dest, found) re)"
proof (cases found)
  case None
  with result_inv_append [OF re] found show ?thesis by (simp add: classify_destination_def result_ok_def)
next
  case (Some x)
  note F = fin [unfolded finished_def]
  have g: "graph_ok g" using ctx by (simp add: context_sound_def)
  have x: "x \<in> targets" "tp_external_node_id (sc_topology ctx) x = Some dest" "dense_as_usize x < sg_nodes g"
    using ids [OF Some] F by auto
  have inv: "label_inv g origin order todo (slot (ss_distances st))" using F by simp
  have dense: "tp_dense_node_id (sc_topology ctx) dest = Some x" using found Some by simp
  show ?thesis
  proof (cases "x \<in> set order \<or> x = origin")
    case True
    then obtain d where d: "slot (ss_distances st) x = Some d"
      using label_invD(2,3) [OF inv] by blast
    have short: "shortest g origin x d"
    proof (cases "x \<in> set order")
      case True
      then show ?thesis using finalized_shortest [OF inv g _ d] by blast
    next
      case False
      with \<open>x \<in> set order \<or> x = origin\<close> have "x = origin" by simp
      with d label_invD(3) [OF inv] show ?thesis by (auto simp: shortest_def intro: walk_origin)
    qed
    let ?P = "\<lambda>(path, re'). result_inv g ctx request origin reason (slot (ss_distances st)) (dests @ [dest])
      (re'\<lparr>re_results := re_results re' @ [\<lparr>dr_destination = dest,
         dr_state = Exact \<lparr>xr_logical_distance = d, xr_path = path\<rparr>\<rparr>]\<rparr>)"
    have "ensures (expected_error (sc_environment ctx) err) ?P (exact_path ctx request origin st dest x d re)"
      using exact_path_ok [OF ctx fin re True d x(3,2)]
      by (rule ensures_mono)
        (auto simp: result_ok_def dense short intro!: result_inv_append split: option.splits)
    moreover have "ss_finalized st ! dense_as_usize x \<longleftrightarrow> x \<in> set order"
      "ss_distances st ! dense_as_usize x = Some d"
      using F x(3) d by (auto simp: slot_def)
    ultimately show ?thesis
      using Some F x(3) True
      by (cases "exact_path ctx request origin st dest x d re") (auto simp: classify_destination_def)
  next
    case False
    then have "result_ok g (sc_topology ctx) (sc_environment ctx) request origin (re_reason re)
        \<lparr>dr_destination = dest, dr_state =
          (if re_reason re = BudgetExhausted \<or> re_reason re = Cancelled then Incomplete else Unreachable)\<rparr>"
      using F re x(1) dense by (auto simp: result_ok_def result_inv_def)
    from result_inv_append [OF re this] show ?thesis
      using Some F x(3) False by (auto simp: classify_destination_def)
  qed
qed

lemma classify_all_ok:
  assumes ctx: "context_sound g ctx err" and fin: "finished g ctx request origin targets reason order todo st"
    and re: "result_inv g ctx request origin reason (slot (ss_distances st)) [] re"
    and ids: "\<And>dest x. dest \<in> set dests \<Longrightarrow> tp_dense_node_id (sc_topology ctx) dest = Some x \<Longrightarrow>
      x \<in> targets \<and> tp_external_node_id (sc_topology ctx) x = Some dest"
  shows "ensures (expected_error (sc_environment ctx) err)
    (result_inv g ctx request origin reason (slot (ss_distances st)) dests)
    (fold_result (classify_destination ctx request origin st)
      (zip dests (map (tp_dense_node_id (sc_topology ctx)) dests)) re)"
proof -
  let ?es = "zip dests (map (tp_dense_node_id (sc_topology ctx)) dests)"
  have es: "?es = map (\<lambda>d. (d, tp_dense_node_id (sc_topology ctx) d)) dests"
    by (simp add: zip_map2 zip_same_conv_map)
  have "ensures (expected_error (sc_environment ctx) err)
      (result_inv g ctx request origin reason (slot (ss_distances st)) (map fst ?es))
      (fold_result (classify_destination ctx request origin st) ?es re)"
  proof (rule ensures_fold_result [where P = "\<lambda>es. result_inv g ctx request origin reason (slot (ss_distances st)) (map fst es)"])
    fix "done" e rest s
    assume split: "?es = done @ e # rest" and s: "result_inv g ctx request origin reason (slot (ss_distances st)) (map fst done) s"
    then have "e \<in> set ?es" by simp
    then obtain d where e: "e = (d, tp_dense_node_id (sc_topology ctx) d)" "d \<in> set dests"
      unfolding es by auto
    show "ensures (expected_error (sc_environment ctx) err)
        (result_inv g ctx request origin reason (slot (ss_distances st)) (map fst (done @ [e])))
        (classify_destination ctx request origin st e s)"
      using classify_ok [OF ctx fin s refl, of d] ids [OF e(2)] e(1) by simp
  qed (use re in simp)
  moreover have "map fst ?es = dests" by simp
  ultimately show ?thesis by simp
qed

section \<open>The finished search\<close>

text \<open>Whether predecessors are recorded does not change during a search.\<close>

lemma improve_preds: "improve ctx current edge i c st = Inr st' \<Longrightarrow>
    (ss_predecessors st' = None) = (ss_predecessors st = None)"
  by (auto simp: improve_def set_predecessor_def Let_def elim!: rbind_InrE split: option.splits)

lemma tie_preds: "tie current edge i st = Inr st' \<Longrightarrow>
    (ss_predecessors st' = None) = (ss_predecessors st = None)"
  by (auto simp: tie_def Let_def rbind_Inr_iff split: option.splits if_splits)

lemma relax_loaded_preds: "relax_loaded ctx current edge i st = Inr st' \<Longrightarrow>
    (ss_predecessors st' = None) = (ss_predecessors st = None)"
  by (auto simp: relax_loaded_def relax_match_def internal_def elim!: rbind_InrE
      split: option.splits if_splits relation_use.splits dest!: improve_preds tie_preds)

lemma relax_edge_preds: "relax_edge ctx current i st = Inr (stop, st') \<Longrightarrow>
    (ss_predecessors st' = None) = (ss_predecessors st = None)"
  by (auto simp: relax_edge_def Let_def elim!: rbind_InrE
      split: if_splits option.splits prod.splits dest!: relax_loaded_preds)

lemma relax_range_preds: "relax_range ctx current is st = Inr (stop, st') \<Longrightarrow>
    (ss_predecessors st' = None) = (ss_predecessors st = None)"
proof (induction "is" arbitrary: st)
  case (Cons i "is")
  then show ?case
    by (auto elim!: rbind_InrE split: prod.splits option.splits dest!: relax_edge_preds)
qed simp

lemma search_step_preds: "search_step ctx st = Inr (stop, st') \<Longrightarrow>
    (ss_predecessors st' = None) = (ss_predecessors st = None)"
  by (auto simp: search_step_def finalize_node_def Let_def elim!: rbind_InrE
      split: if_splits option.splits prod.splits dest!: relax_range_preds)

lemma search_loop_preds: "search_loop ctx st = Inr (reason, st') \<Longrightarrow>
    (ss_predecessors st' = None) = (ss_predecessors st = None)"
proof (induction ctx st rule: search_loop.induct)
  case (1 ctx st)
  from "1.prems" obtain stop st1 where s: "search_step ctx st = Inr (stop, st1)"
      "(case stop of Some reason \<Rightarrow> Inr (reason, st1) | None \<Rightarrow> search_loop ctx st1) = Inr (reason, st')"
    by (auto simp: search_loop.simps [of ctx st] elim!: rbind_InrE)
  then show ?case
    using "1.IH" [OF s(1) refl] search_step_preds [OF s(1)] by (cases stop) auto
qed

lemma run_search_preds: "run_search ctx st = Inr (reason, st') \<Longrightarrow>
    (ss_predecessors st' = None) = (ss_predecessors st = None)"
  by (auto simp: run_search_def is_cancelled_def split: if_splits dest!: search_loop_preds)

lemma outcome_finished:
  assumes ctx: "context_sound g ctx err" and out: "search_outcome g ctx origin targets (reason, st)"
    and preds: "(ss_predecessors st = None) = (\<not> rq_return_paths request)"
  shows "\<exists>order todo. finished g ctx request origin targets reason order todo st"
proof -
  obtain order todo frontier where
      inv: "search_inv g ctx origin targets order todo (st\<lparr>ss_frontier := frontier\<rparr>)" and
      reason: "reason = FrontierExhausted \<and> todo = [] \<and> frontier = []
        \<or> reason = AllDestinationsFinalized \<and> ss_pending_count st = 0 \<or> stop_reason ctx st reason"
    using out by (auto simp: search_outcome_def)
  let ?st = "st\<lparr>ss_frontier := frontier\<rparr>"
  have node: "node_inv g origin order todo ?st" and cnt: "count_inv g (sc_budget ctx) targets order 0 0 ?st"
    using inv by (auto simp: search_inv_def)
  have g: "graph_ok g" using ctx by (simp add: context_sound_def)
  have lab: "label_inv g origin order todo (slot (ss_distances st))" using node_invD(1) [OF node] by simp
  have "\<not> f64_walk (graph_edge g) origin x c"
    if x: "x \<in> targets" "x \<notin> set order" and r: "reason \<noteq> BudgetExhausted" "reason \<noteq> Cancelled" for x c
  proof -
    have "ss_pending_count st \<noteq> 0"
    proof
      assume "ss_pending_count st = 0"
      then have "\<forall>b \<in> set (ss_pending st). \<not> b" using cnt by (auto simp: count_inv_def filter_empty_conv)
      moreover have "ss_pending st ! dense_as_usize x" "dense_as_usize x < length (ss_pending st)"
        using cnt x by (auto simp: count_inv_def)
      ultimately show False using nth_mem by blast
    qed
    with reason r have ex: "todo = []" "frontier = []" by (auto simp: stop_reason_def)
    have "y \<in> set order" if "slot (ss_distances st) y \<noteq> None" for y
      using that node_invD(6) [OF node, of y] ex by auto
    with exhausted_unreachable [OF lab [unfolded ex] g _ x(2)] show ?thesis by blast
  qed
  then have "finished g ctx request origin targets reason order todo st"
    using lab node_invD [OF node] cnt preds unfolding finished_def count_inv_def by simp
  then show ?thesis by blast
qed

lemma outcome_counts:
  assumes ctx: "context_sound g ctx err" and out: "search_outcome g ctx origin targets (reason, st)"
  shows "ss_examined_edges st \<le> tp_adjacency_count (sc_topology ctx)"
    "ss_finalized_nodes st \<le> tp_node_count (sc_topology ctx)"
    "ss_high_water st \<le> tp_adjacency_count (sc_topology ctx) + 1"
    "ss_relaxation_updates st \<le> ss_examined_edges st"
    "sc_budget ctx = ExaminedEdges m \<Longrightarrow> ss_examined_edges st \<le> m"
    "reason = Cancelled \<Longrightarrow> \<exists>q. env_cancelled (sc_environment ctx) q"
    "reason = BudgetExhausted \<Longrightarrow> sc_budget ctx = ExaminedEdges (ss_examined_edges st)"
proof -
  obtain order todo frontier where
      inv: "search_inv g ctx origin targets order todo (st\<lparr>ss_frontier := frontier\<rparr>)" and
      reason: "reason = FrontierExhausted \<or> reason = AllDestinationsFinalized \<or> stop_reason ctx st reason"
    using out by (auto simp: search_outcome_def)
  have node: "node_inv g origin order todo (st\<lparr>ss_frontier := frontier\<rparr>)"
      and cnt: "count_inv g (sc_budget ctx) targets order 0 0 (st\<lparr>ss_frontier := frontier\<rparr>)"
    using inv by (auto simp: search_inv_def)
  show ex: "ss_examined_edges st \<le> tp_adjacency_count (sc_topology ctx)"
    using examined_bound [OF ctx node_invD(1) [OF node] cnt] by simp
  show "ss_finalized_nodes st \<le> tp_node_count (sc_topology ctx)"
    using cnt order_length_nodes [OF node_invD(1) [OF node]] ctx by (simp add: count_inv_def context_sound_def)
  show "ss_high_water st \<le> tp_adjacency_count (sc_topology ctx) + 1"
    "ss_relaxation_updates st \<le> ss_examined_edges st"
    "sc_budget ctx = ExaminedEdges m \<Longrightarrow> ss_examined_edges st \<le> m"
    using cnt ex by (auto simp: count_inv_def)
  show "reason = Cancelled \<Longrightarrow> \<exists>q. env_cancelled (sc_environment ctx) q"
    "reason = BudgetExhausted \<Longrightarrow> sc_budget ctx = ExaminedEdges (ss_examined_edges st)"
    using reason by (auto simp: stop_reason_def)
qed

section \<open>The whole route\<close>

lemma filter_true_set:
  "i < length xs \<Longrightarrow> \<not> xs ! i \<Longrightarrow> length (filter (\<lambda>b. b) (xs[i := True])) = Suc (length (filter (\<lambda>b. b) xs))"
proof (induction xs arbitrary: i)
  case (Cons x xs)
  then show ?case by (cases i) auto
qed simp

lemma mark_pending_ok:
  assumes "\<And>x. x \<in> set ds \<Longrightarrow> dense_as_usize x < n"
  shows "ensures E (\<lambda>(pending, k). length pending = n \<and> k = length (filter (\<lambda>b. b) pending)
      \<and> (\<forall>x \<in> set ds. pending ! dense_as_usize x))
    (fold_result mark_pending ds (replicate n False, 0))"
proof (rule ensures_fold_result [where P = "\<lambda>ds (pending, k). length pending = n
      \<and> k = length (filter (\<lambda>b. b) pending) \<and> (\<forall>x \<in> set ds. pending ! dense_as_usize x)"])
  fix "done" x rest s
  assume ds: "ds = done @ x # rest" and s: "case s of (pending, k) \<Rightarrow> length pending = n
      \<and> k = length (filter (\<lambda>b. b) pending) \<and> (\<forall>x \<in> set done. pending ! dense_as_usize x)"
  have "dense_as_usize x < n" "\<And>y. y \<in> set done \<Longrightarrow> dense_as_usize y < n" using ds assms by auto
  with s show "ensures E (\<lambda>(pending, k). length pending = n \<and> k = length (filter (\<lambda>b. b) pending)
      \<and> (\<forall>x \<in> set (done @ [x]). pending ! dense_as_usize x)) (mark_pending x s)"
    by (auto simp: mark_pending_def filter_true_set nth_list_update)
qed simp

lemma ensures_try_vec:
  "P () \<Longrightarrow> ensures (expected_error env err) P (routing_try_vec env n structure)"
  by (auto simp: routing_try_vec_def allocation_failed_def expected_error_def)

lemma ensures_filled:
  "P (replicate n v) \<Longrightarrow> ensures (expected_error env err) P (try_filled env n v structure)"
  unfolding try_filled_def ensures_simps by (rule ensures_try_vec)

lemma ensures_optional_filled:
  "P (if wanted then Some (replicate n v) else None) \<Longrightarrow>
   ensures (expected_error env err) P (optional_filled env wanted n v structure)"
  by (auto simp: optional_filled_def intro: ensures_filled)

lemma ensures_bind: "ensures E (\<lambda>x. ensures E P (f x)) m \<Longrightarrow> ensures E P (rbind m f)"
  by simp

lemmas ensures_allocations = ensures_try_vec ensures_filled ensures_optional_filled

definition response_ok :: "search_graph \<Rightarrow> routing_topology \<Rightarrow> environment \<Rightarrow> routing_request \<Rightarrow> dense_node_id
    \<Rightarrow> routing_response \<times> cpu_search_diagnostics \<Rightarrow> bool" where
  "response_ok g topology env request origin result \<longleftrightarrow>
     (case result of (response, diagnostics) \<Rightarrow>
       rs_origin response = rq_origin request
       \<and> map dr_destination (rs_results response) = rq_destinations request
       \<and> (\<forall>r \<in> set (rs_results response).
            result_ok g topology env request origin (rs_completion_reason response) r)
       \<and> (rs_completion_reason response = Cancelled \<longrightarrow> (\<exists>q. env_cancelled env q))
       \<and> (rs_completion_reason response = BudgetExhausted \<longrightarrow>
            rq_budget request = ExaminedEdges (rs_examined_edges response))
       \<and> (\<forall>m. rq_budget request = ExaminedEdges m \<longrightarrow> rs_examined_edges response \<le> m)
       \<and> rs_examined_edges response \<le> tp_adjacency_count topology
       \<and> rs_finalized_nodes response \<le> tp_node_count topology
       \<and> cd_frontier_high_water_mark diagnostics \<le> tp_adjacency_count topology + 1
       \<and> cd_relaxation_updates diagnostics \<le> rs_examined_edges response
       \<and> cd_examined_edges diagnostics = rs_examined_edges response)"

lemma search_and_classify_ok:
  assumes ctx: "context_sound g ctx err" and origin: "dense_as_usize origin < sg_nodes g"
    and pending: "length pending = sg_nodes g" "k = length (filter (\<lambda>b. b) pending)"
    and budget: "sc_budget ctx = rq_budget request"
    and ids: "\<And>dest x. dest \<in> set (rq_destinations request) \<Longrightarrow>
      tp_dense_node_id (sc_topology ctx) dest = Some x \<Longrightarrow>
      dense_as_usize x < sg_nodes g \<and> pending ! dense_as_usize x
      \<and> tp_external_node_id (sc_topology ctx) x = Some dest"
  shows "ensures (expected_error (sc_environment ctx) err)
    (response_ok g (sc_topology ctx) (sc_environment ctx) request origin)
    (search_and_classify ctx request origin
      (map (tp_dense_node_id (sc_topology ctx)) (rq_destinations request)) pending k)"
proof -
  let ?T = "sc_topology ctx" and ?env = "sc_environment ctx"
  let ?E = "expected_error ?env err"
  define targets where "targets = {x. \<exists>dest \<in> set (rq_destinations request). tp_dense_node_id ?T dest = Some x}"
  define preds where "preds = (if rq_return_paths request then Some (replicate (sg_nodes g) (None :: predecessor option)) else None)"
  let ?st = "initial_search_state (sg_nodes g) origin preds pending k"
  have n: "tp_node_count ?T = sg_nodes g" and adj: "tp_adjacency_count ?T + 1 \<le> U64_MAX"
    using ctx by (auto simp: context_sound_def)
  have init: "search_inv g ctx origin targets [] [] ?st"
    using pending ids origin
    by (intro initial_inv [OF ctx]) (auto simp: preds_def targets_def split: if_splits)
  have run: "ensures ?E (search_outcome g ctx origin targets) (run_search ctx ?st)"
    by (rule run_search_inv [OF ctx init])
  have tail: "ensures ?E (response_ok g ?T ?env request origin)
      (rbind (routing_try_vec ?env (length (rq_destinations request)) ''response entries'') (\<lambda>_.
      rbind (optional_filled ?env (rq_return_paths request) (sg_nodes g) None ''shared path cache'') (\<lambda>path_cache.
      rbind (fold_result (classify_destination ctx request origin st)
        (zip (rq_destinations request) (map (tp_dense_node_id ?T) (rq_destinations request)))
        \<lparr>re_results = [], re_steps = 0, re_cache = path_cache, re_reason = reason, re_polls = ss_polls st\<rparr>) (\<lambda>re.
      Inr (respond ctx request k re st)))))"
    if r: "run_search ctx ?st = Inr (reason, st)" for reason st
  proof -
    have out: "search_outcome g ctx origin targets (reason, st)" using run r by simp
    have "(ss_predecessors st = None) = (\<not> rq_return_paths request)"
      using run_search_preds [OF r] by (simp add: initial_search_state_def preds_def)
    from outcome_finished [OF ctx out this] obtain order todo where
      fin: "finished g ctx request origin targets reason order todo st" by blast
    note C = outcome_counts [OF ctx out]
    have resp: "response_ok g ?T ?env request origin (respond ctx request k re st)"
      if "result_inv g ctx request origin reason (slot (ss_distances st)) (rq_destinations request) re" for re
      using that C budget
      by (auto simp: response_ok_def respond_def routing_response_new_def result_inv_def)
    have re0: "result_inv g ctx request origin reason (slot (ss_distances st)) []
        \<lparr>re_results = [], re_steps = 0,
         re_cache = (if rq_return_paths request then Some (replicate (sg_nodes g) None) else None),
         re_reason = reason, re_polls = ss_polls st\<rparr>"
      by (auto simp: result_inv_def slot_def)
    have "ensures ?E (\<lambda>re. response_ok g ?T ?env request origin (respond ctx request k re st))
      (fold_result (classify_destination ctx request origin st)
        (zip (rq_destinations request) (map (tp_dense_node_id ?T) (rq_destinations request)))
        \<lparr>re_results = [], re_steps = 0,
         re_cache = (if rq_return_paths request then Some (replicate (sg_nodes g) None) else None),
         re_reason = reason, re_polls = ss_polls st\<rparr>)"
      using ids by (intro ensures_mono [OF classify_all_ok [OF ctx fin re0] resp]) (auto simp: targets_def)
    then show ?thesis
      unfolding ensures_simps by (intro ensures_allocations)
  qed
  have "ensures ?E (response_ok g ?T ?env request origin)
      (rbind (run_search ctx ?st) (\<lambda>(completion_reason, st).
      rbind (routing_try_vec ?env (length (rq_destinations request)) ''response entries'') (\<lambda>_.
      rbind (optional_filled ?env (rq_return_paths request) (sg_nodes g) None ''shared path cache'') (\<lambda>path_cache.
      rbind (fold_result (classify_destination ctx request origin st)
        (zip (rq_destinations request) (map (tp_dense_node_id ?T) (rq_destinations request)))
        \<lparr>re_results = [], re_steps = 0, re_cache = path_cache, re_reason = completion_reason,
         re_polls = ss_polls st\<rparr>) (\<lambda>re.
      Inr (respond ctx request k re st))))))"
    using run tail by (cases "run_search ctx ?st") (auto simp del: ensures_simps(3) split: prod.splits)
  moreover have "checked_add (tp_adjacency_count ?T) 1 = Some (tp_adjacency_count ?T + 1)"
    using adj by (simp add: checked_add_def)
  ultimately show ?thesis
    unfolding search_and_classify_def Let_def n ok_or_simps rbind_simps preds_def
    apply (simp only: ok_or_simps rbind_simps origin if_True not_True_eq_False if_False)
    apply (rule ensures_bind, rule ensures_filled)+
    apply (rule ensures_bind, rule ensures_optional_filled)
    apply (rule ensures_bind, rule ensures_try_vec)
    apply assumption
    done
qed

end
