(* ===== verification/Topology_Contract.thy ===== *)
theory Topology_Contract
  imports Route_Correctness
begin

text \<open>
  The contract of the \<^verbatim>\<open>RoutingTopology\<close> trait as a locale, the correctness of routing for every
  topology that keeps it, and the proof that a compiled routing image does.
\<close>

section \<open>Packing a profile, without assuming that reservations succeed\<close>

lemma pack_relation_ids_Inr:
  assumes "sorted ids" "distinct ids" "pack_relation_ids reserve profile ids = Inr p"
  shows "profile_matches profile ids \<and> p = packed_of profile ids"
proof -
  have "reserve ''profile index'' (length ids)" "reserve ''packed profile'' (length ids)"
    "reserve ''canonical profile'' (length ids)"
    using assms(3) by (auto simp: pack_relation_ids_def Let_def elim!: rbind_InrE split: if_splits)
  from pack_relation_ids_iff [of ids reserve profile, OF assms(1,2) this] assms(3) show ?thesis by blast
qed

lemma pack_collect_no_panic:
  assumes "length by_index = length ids"
  shows "errs_in (\<lambda>e. e \<noteq> Panicked) (fold_result (pack_collect by_index) (zip [0..<length ids] ids) acc)"
proof (rule errs_in_fold_result)
  fix entry acc assume "entry \<in> set (zip [0..<length ids] ids)"
  moreover obtain i r where "entry = (i, r)" by (cases entry)
  ultimately have e: "entry = (i, r)" "i < length by_index"
    using assms set_zip_leftD by fastforce+
  then show "errs_in (\<lambda>e. e \<noteq> Panicked) (pack_collect by_index entry acc)"
    by (cases acc; cases "by_index ! i") (auto simp: pack_collect_def intro!: errs_in_rbind)
qed

lemma pack_relation_ids_no_panic:
  "errs_in (\<lambda>e. e \<noteq> Panicked) (pack_relation_ids reserve profile ids)"
proof -
  have entries: "ensures (\<lambda>e. e \<noteq> Panicked) (\<lambda>b. length b = length ids)
      (fold_result (pack_entry ids) (profile_entries profile) (replicate (length ids) None))"
  proof (rule ensures_fold_result [where P = "\<lambda>_ b. length b = length ids"])
    fix "done" x rest and s :: "relation_use option list"
    assume "length s = length ids"
    then show "ensures (\<lambda>e. e \<noteq> Panicked) (\<lambda>b. length b = length ids) (pack_entry ids x s)"
      using binary_search_SomeD [of ids "fst x"]
      by (auto simp: pack_entry_def split: option.splits prod.splits)
  qed simp
  show ?thesis
    using entries
    by (cases "fold_result (pack_entry ids) (profile_entries profile) (replicate (length ids) None)")
      (auto simp: pack_relation_ids_def Let_def intro!: errs_in_rbind pack_collect_no_panic split: prod.splits)
qed

lemma packed_of_uses:
  assumes "profile_matches profile ids"
  shows "length (pp_uses (packed_of profile ids)) = length ids"
    "set (pp_uses (packed_of profile ids)) \<subseteq> snd ` set (profile_entries profile)"
proof -
  have "\<exists>u. profile_of profile r = Some u \<and> (r, u) \<in> set (profile_entries profile)" if "r \<in> set ids" for r
    using that assms by (cases "profile_of profile r")
      (auto simp: profile_matches_def profile_of_def map_of_eq_None_iff dest: map_of_SomeD)
  then show "length (pp_uses (packed_of profile ids)) = length ids"
    "set (pp_uses (packed_of profile ids)) \<subseteq> snd ` set (profile_entries profile)"
    by (force simp: packed_of_def)+
qed

section \<open>The contract\<close>

definition profile_multipliers_ok :: "relation_profile \<Rightarrow> bool" where
  "profile_multipliers_ok profile \<longleftrightarrow>
     (\<forall>u \<in> snd ` set (profile_entries profile). case u of Enabled m \<Rightarrow> multiplier_ok m | Disabled \<Rightarrow> True)"

definition topology_graph :: "routing_topology \<Rightarrow> (dense_node_id \<Rightarrow> nat \<times> nat) \<Rightarrow> (nat \<Rightarrow> outgoing_edge)
    \<Rightarrow> relation_profile \<Rightarrow> search_graph" where
  "topology_graph methods out entry profile =
     \<lparr>sg_nodes = tp_node_count methods, sg_out = out, sg_entry = entry,
      sg_profile = packed_of profile (tp_relation_ids methods)\<rparr>"

text \<open>The errors of a route: a missing origin, a profile that does not cover the relation kinds, a
  refused reservation, or a failed access to the topology.\<close>

definition route_error :: "environment \<Rightarrow> routing_topology \<Rightarrow> routing_request
    \<Rightarrow> (routing_error fault \<Rightarrow> bool) \<Rightarrow> routing_error fault \<Rightarrow> bool" where
  "route_error env methods request access_error e \<longleftrightarrow>
     expected_error env access_error e
     \<or> e = Failed (MissingOrigin (rq_origin request)) \<and> tp_dense_node_id methods (rq_origin request) = None
     \<or> (\<exists>pe. e = Failed (InvalidProfile pe)
          \<and> (\<not> profile_matches (rq_profile request) (tp_relation_ids methods)
             \<or> (\<exists>s n. \<not> env_reserve env s n)))"

locale topology =
  fixes inv :: "'t \<Rightarrow> bool" and methods :: "'t \<Rightarrow> routing_topology"
    and out :: "'t \<Rightarrow> dense_node_id \<Rightarrow> nat \<times> nat" and entry :: "'t \<Rightarrow> nat \<Rightarrow> outgoing_edge"
    and access_error :: "'t \<Rightarrow> routing_error fault \<Rightarrow> bool"
  assumes node_bound: "inv t \<Longrightarrow> tp_node_count (methods t) \<le> U32_MAX"
    and adjacency_bound: "inv t \<Longrightarrow> tp_adjacency_count (methods t) < U64_MAX"
    and relations_sorted: "inv t \<Longrightarrow> sorted (tp_relation_ids (methods t))"
    and relations_distinct: "inv t \<Longrightarrow> distinct (tp_relation_ids (methods t))"
    and dense_bound: "inv t \<Longrightarrow> tp_dense_node_id (methods t) n = Some x \<Longrightarrow>
      dense_as_usize x < tp_node_count (methods t)"
    and dense_external: "inv t \<Longrightarrow> tp_dense_node_id (methods t) n = Some x \<Longrightarrow>
      tp_external_node_id (methods t) x = Some n"
    and external_total: "inv t \<Longrightarrow> dense_as_usize x < tp_node_count (methods t) \<Longrightarrow>
      tp_external_node_id (methods t) x \<noteq> None"
    and range: "inv t \<Longrightarrow> dense_as_usize x < tp_node_count (methods t) \<Longrightarrow>
      tp_outgoing_range (methods t) x = Inr (out t x)"
    and ranges_disjoint: "inv t \<Longrightarrow> distinct xs \<Longrightarrow>
      \<forall>x \<in> set xs. dense_as_usize x < tp_node_count (methods t) \<Longrightarrow>
      sum_list (map (\<lambda>x. snd (out t x) - fst (out t x)) xs) \<le> tp_adjacency_count (methods t)"
    and entry_ok: "inv t \<Longrightarrow> dense_as_usize x < tp_node_count (methods t) \<Longrightarrow>
      fst (out t x) \<le> i \<Longrightarrow> i < snd (out t x) \<Longrightarrow>
      dense_as_usize (oe_destination (entry t i)) < tp_node_count (methods t)
      \<and> base_weight_ok (oe_base_weight (entry t i))
      \<and> unat (oe_relation_index (entry t i)) < length (tp_relation_ids (methods t))"
    and edge_at: "inv t \<Longrightarrow> dense_as_usize x < tp_node_count (methods t) \<Longrightarrow>
      fst (out t x) \<le> i \<Longrightarrow> i < snd (out t x) \<Longrightarrow>
      ensures (access_error t)
        (\<lambda>(loaded, polls). case loaded of
           None \<Rightarrow> \<exists>q. env_cancelled env q | Some e \<Rightarrow> e = entry t i)
        (tp_edge_at (methods t) env polls i)"
begin

abbreviation graph :: "'t \<Rightarrow> relation_profile \<Rightarrow> search_graph" where
  "graph t profile \<equiv> topology_graph (methods t) (out t) (entry t) profile"

lemma graph_sound:
  assumes "inv t" "profile_matches profile (tp_relation_ids (methods t))" "profile_multipliers_ok profile"
  shows "graph_ok (graph t profile)"
proof -
  note uses = packed_of_uses [OF assms(2)]
  have "multiplier_ok m" if "Enabled m \<in> set (pp_uses (packed_of profile (tp_relation_ids (methods t))))" for m
    using that uses(2) assms(3) by (fastforce simp: profile_multipliers_ok_def)
  then show ?thesis
    using node_bound [OF assms(1)] entry_ok [OF assms(1)] uses(1)
    by (auto simp: graph_ok_def topology_graph_def out_idx_def)
qed

lemma search_context_sound:
  assumes "inv t" "profile_matches profile (tp_relation_ids (methods t))" "profile_multipliers_ok profile"
  shows "context_sound (graph t profile)
    \<lparr>sc_topology = methods t, sc_environment = env,
     sc_profile = packed_of profile (tp_relation_ids (methods t)), sc_budget = budget\<rparr> (access_error t)"
  using graph_sound [OF assms] adjacency_bound [OF assms(1)] range [OF assms(1)] external_total [OF assms(1)]
    ranges_disjoint [OF assms(1)] edge_at [OF assms(1)]
  unfolding context_sound_def by (auto simp: topology_graph_def out_idx_def cong: option.case_cong)

lemma no_present_ok:
  assumes "\<And>d. d \<in> set (rq_destinations request) \<Longrightarrow> tp_dense_node_id (methods t) d = None"
  shows "response_ok g (methods t) env request origin (no_present_destination ctx request)"
  using assms by (auto simp: response_ok_def no_present_destination_def routing_response_new_def
      result_ok_def comp_def)

lemma route_correct:
  assumes inv: "inv t" and mult: "profile_multipliers_ok (rq_profile request)"
  shows "ensures (route_error env (methods t) request (access_error t))
    (\<lambda>result. \<exists>origin. tp_dense_node_id (methods t) (rq_origin request) = Some origin
       \<and> response_ok (graph t (rq_profile request)) (methods t) env request origin result)
    (route_topology_controlled env (methods t) request)"
proof (cases "tp_dense_node_id (methods t) (rq_origin request)")
  case None
  then show ?thesis by (simp add: route_topology_controlled_def route_error_def)
next
  case (Some origin)
  let ?ids = "tp_relation_ids (methods t)" and ?T = "methods t"
  note sd = relations_sorted [OF inv] relations_distinct [OF inv]
  let ?pack = "pack_relation_ids (env_reserve env) (rq_profile request) ?ids"
  show ?thesis
  proof (cases ?pack)
    case (Inl e)
    then obtain pe where pe: "e = Failed pe"
      using pack_relation_ids_no_panic [of "env_reserve env" "rq_profile request" ?ids]
      by (cases e) (auto simp: errs_in_def)
    have "\<not> profile_matches (rq_profile request) ?ids \<or> (\<exists>s n. \<not> env_reserve env s n)"
      using pack_relation_ids_iff [OF sd, of "env_reserve env" "rq_profile request"] Inl by fastforce
    with Some Inl pe show ?thesis by (simp add: route_topology_controlled_def route_error_def)
  next
    case (Inr p)
    have match: "profile_matches (rq_profile request) ?ids" "p = packed_of (rq_profile request) ?ids"
      using pack_relation_ids_Inr [OF sd Inr] by auto
    let ?g = "graph t (rq_profile request)"
    let ?ctx = "\<lparr>sc_topology = ?T, sc_environment = env, sc_profile = p, sc_budget = rq_budget request\<rparr>"
    let ?ds = "map (tp_dense_node_id ?T) (rq_destinations request)"
    let ?P = "response_ok ?g ?T env request origin"
    have ctx: "context_sound ?g ?ctx (access_error t)"
      using search_context_sound [OF inv match(1) mult] match(2) by simp
    have n: "sg_nodes ?g = tp_node_count ?T" by (simp add: topology_graph_def)
    have dest: "x \<in> set (List.map_filter (\<lambda>d. d) ?ds) \<longleftrightarrow>
        (\<exists>d \<in> set (rq_destinations request). tp_dense_node_id ?T d = Some x)" for x
      by (force simp: List.map_filter_def)
    have mark: "ensures (expected_error env (access_error t)) (\<lambda>(pending, k). length pending = tp_node_count ?T
        \<and> k = length (filter (\<lambda>b. b) pending) \<and> (\<forall>x \<in> set (List.map_filter (\<lambda>d. d) ?ds). pending ! dense_as_usize x))
      (fold_result mark_pending (List.map_filter (\<lambda>d. d) ?ds) (replicate (tp_node_count ?T) False, 0))"
      using dense_bound [OF inv] dest by (intro mark_pending_ok) blast
    have rest: "ensures (expected_error env (access_error t)) ?P
        (if k = 0 then Inr (no_present_destination ?ctx request)
         else search_and_classify ?ctx request origin ?ds pending k)"
      if p: "length pending = tp_node_count ?T" "k = length (filter (\<lambda>b. b) pending)"
        "\<forall>x \<in> set (List.map_filter (\<lambda>d. d) ?ds). pending ! dense_as_usize x" for pending k
    proof (cases "k = 0")
      case True
      then have "\<forall>b \<in> set pending. \<not> b" using p(2) by (auto simp: filter_empty_conv)
      have "tp_dense_node_id ?T d = None" if "d \<in> set (rq_destinations request)" for d
      proof (rule ccontr)
        assume "tp_dense_node_id ?T d \<noteq> None"
        then obtain x where x: "tp_dense_node_id ?T d = Some x" by blast
        then have "pending ! dense_as_usize x" using p(3) dest that by blast
        moreover have "dense_as_usize x < length pending" using dense_bound [OF inv x] p(1) by simp
        ultimately show False using \<open>\<forall>b \<in> set pending. \<not> b\<close> nth_mem by blast
      qed
      with True no_present_ok [of request t] show ?thesis by simp
    next
      case False
      have "ensures (expected_error (sc_environment ?ctx) (access_error t))
          (response_ok ?g (sc_topology ?ctx) (sc_environment ?ctx) request origin)
          (search_and_classify ?ctx request origin
             (map (tp_dense_node_id (sc_topology ?ctx)) (rq_destinations request)) pending k)"
      proof (rule search_and_classify_ok [OF ctx _ _ p(2)])
        fix d x assume "d \<in> set (rq_destinations request)" "tp_dense_node_id (sc_topology ?ctx) d = Some x"
        then show "dense_as_usize x < sg_nodes ?g \<and> pending ! dense_as_usize x
            \<and> tp_external_node_id (sc_topology ?ctx) x = Some d"
          using dense_bound [OF inv] dense_external [OF inv] p(3) dest by (auto simp: n)
      qed (use dense_bound [OF inv Some] p(1) in \<open>simp_all add: n\<close>)
      with False show ?thesis by simp
    qed
    have "ensures (expected_error env (access_error t)) ?P (route_topology_controlled env ?T request)"
      unfolding route_topology_controlled_def Let_def Some Inr ok_or_simps map_err_simps rbind_simps
      by (rule ensures_bind, rule ensures_try_vec, rule ensures_bind, rule ensures_filled,
          rule ensures_bind, rule ensures_mono [OF mark]) (use rest in \<open>auto simp del: length_0_conv\<close>)
    with Some show ?thesis by (cases "route_topology_controlled env ?T request") (auto simp: route_error_def)
  qed
qed

end

section \<open>A compiled image keeps the contract\<close>

definition image_out :: "routing_image \<Rightarrow> dense_node_id \<Rightarrow> nat \<times> nat" where
  "image_out img x = (im_offsets img ! dense_as_usize x, im_offsets img ! (dense_as_usize x + 1))"

lemma sum_increments:
  fixes f :: "nat \<Rightarrow> nat"
  shows "(\<And>k. k < n \<Longrightarrow> f k \<le> f (Suc k)) \<Longrightarrow> (\<Sum>k < n. f (Suc k) - f k) + f 0 = f n"
proof (induction n)
  case (Suc n)
  then have "(\<Sum>k < n. f (Suc k) - f k) + f 0 = f n" "f n \<le> f (Suc n)" by simp_all
  then show ?case by simp
qed simp

lemma offsets_sum:
  fixes offs :: "nat list"
  assumes "sorted offs" "length offs = n + 1" "distinct xs" "\<forall>x \<in> set xs. dense_as_usize x < n"
  shows "sum_list (map (\<lambda>x. offs ! (dense_as_usize x + 1) - offs ! dense_as_usize x) xs) \<le> last offs"
proof -
  have mono: "offs ! k \<le> offs ! Suc k" if "k < n" for k
    using assms(1,2) that by (intro sorted_nth_mono) auto
  have inj: "inj_on dense_as_usize (set xs)" by (simp add: inj_on_def)
  have sub: "dense_as_usize ` set xs \<subseteq> {..<n}" using assms(4) by auto
  have "sum_list (map (\<lambda>x. offs ! (dense_as_usize x + 1) - offs ! dense_as_usize x) xs)
      = (\<Sum>x \<in> set xs. offs ! Suc (dense_as_usize x) - offs ! dense_as_usize x)"
    using assms(3) by (simp add: sum_list_distinct_conv_sum_set)
  also have "\<dots> = (\<Sum>k \<in> dense_as_usize ` set xs. offs ! Suc k - offs ! k)" by (simp add: sum.reindex [OF inj])
  also have "\<dots> \<le> (\<Sum>k < n. offs ! Suc k - offs ! k)" using sub by (intro sum_mono2) auto
  also have "\<dots> \<le> offs ! n" using sum_increments [of n "\<lambda>k. offs ! k"] mono by simp
  also have "offs ! n = last offs" using assms(2) last_conv_nth [of offs] by fastforce
  finally show ?thesis .
qed

lemma image_out_sum:
  assumes "valid_image img" "distinct xs" "\<forall>x \<in> set xs. dense_as_usize x < image_node_count img"
  shows "sum_list (map (\<lambda>x. snd (image_out img x) - fst (image_out img x)) xs) \<le> image_adjacency_count img"
  using offsets_sum [OF _ _ assms(2,3), of "im_offsets img"] assms(1) by (simp add: image_out_def valid_image_def)

lemma image_topology_simps [simp]:
  "tp_node_count (image_topology img) = image_node_count img"
  "tp_adjacency_count (image_topology img) = image_adjacency_count img"
  "tp_dense_node_id (image_topology img) = image_dense_node_id img"
  "tp_external_node_id (image_topology img) = image_external_node_id img"
  "tp_relation_ids (image_topology img) = im_confirmed_relation_ids img"
  by (simp_all add: image_topology_def)

lemma image_out_range:
  assumes "valid_image img" "dense_as_usize x < image_node_count img"
  shows "image_outgoing_range img x = Some (image_out img x)" "snd (image_out img x) \<le> image_adjacency_count img"
  using valid_image_outgoing_range [OF assms] by (auto simp: image_out_def)

interpretation image: topology valid_image image_topology image_out entry_edge "\<lambda>_ _. False"
proof
  fix img assume v: "valid_image img"
  show "tp_node_count (image_topology img) \<le> U32_MAX" "tp_adjacency_count (image_topology img) < U64_MAX"
    "sorted (tp_relation_ids (image_topology img))" "distinct (tp_relation_ids (image_topology img))"
    using v by (simp_all add: valid_image_def)
  show "dense_as_usize x < tp_node_count (image_topology img)"
    "tp_external_node_id (image_topology img) x = Some n"
    if "tp_dense_node_id (image_topology img) n = Some x" for n x
    using that valid_image_dense_node_id [OF v] by (auto simp: image_external_node_id_def image_node_count_def)
  show "tp_external_node_id (image_topology img) x \<noteq> None" if "dense_as_usize x < tp_node_count (image_topology img)" for x
    using that by (simp add: image_external_node_id_def image_node_count_def)
  show "tp_outgoing_range (image_topology img) x = Inr (image_out img x)"
    if "dense_as_usize x < tp_node_count (image_topology img)" for x
    using that image_out_range [OF v] by (simp add: image_topology_def)
  show "sum_list (map (\<lambda>x. snd (image_out img x) - fst (image_out img x)) xs) \<le> tp_adjacency_count (image_topology img)"
    if "distinct xs" "\<forall>x \<in> set xs. dense_as_usize x < tp_node_count (image_topology img)" for xs
    using image_out_sum [OF v] that by simp
  fix x i
  assume x: "dense_as_usize x < tp_node_count (image_topology img)" and i: "i < snd (image_out img x)"
  have i: "i < image_adjacency_count img" using image_out_range(2) [OF v] x i by fastforce
  then have "edge_entry_ok img i" using v by (simp add: valid_image_def)
  then show "dense_as_usize (oe_destination (entry_edge img i)) < tp_node_count (image_topology img)
      \<and> base_weight_ok (oe_base_weight (entry_edge img i))
      \<and> unat (oe_relation_index (entry_edge img i)) < length (tp_relation_ids (image_topology img))"
    by (simp add: edge_entry_ok_def entry_edge_def dense_as_usize_def base_weight_ok_def)
  show "ensures (\<lambda>_. False) (\<lambda>(loaded, polls). case loaded of
      None \<Rightarrow> \<exists>q. env_cancelled env q | Some e \<Rightarrow> e = entry_edge img i)
      (tp_edge_at (image_topology img) env polls i)" for env polls
    by (simp add: image_topology_def valid_image_edge_at [OF v i])
qed

end
