(* ===== verification/Route_Properties.thy ===== *)
theory Route_Properties
  imports Topology_Contract
begin

text \<open>
  Compiling the confirmed records and routing on the image, stated over the records themselves:
  the graph whose edges are the confirmed edge records with an enabled relation kind, weighted
  by base weight times multiplier.
\<close>

section \<open>The graph of the confirmed records\<close>

definition record_edge ::
    "confirmed_graph_records \<Rightarrow> relation_profile \<Rightarrow> node_id \<Rightarrow> f64 \<Rightarrow> node_id \<Rightarrow> bool" where
  "record_edge records profile n w m \<longleftrightarrow>
     (\<exists>e \<in> set (cg_edges records). \<exists>multiplier. er_source e = n \<and> er_destination e = m
        \<and> profile_of profile (er_relation_kind e) = Some (Enabled multiplier)
        \<and> effective_weight (er_base_weight e) multiplier = Inr w)"

abbreviation image_graph :: "routing_image \<Rightarrow> relation_profile \<Rightarrow> search_graph" where
  "image_graph img profile \<equiv> topology_graph (image_topology img) (image_out img) (entry_edge img) profile"

definition edge_view :: "confirmed_graph_records \<Rightarrow> edge_record \<Rightarrow> outgoing_edge" where
  "edge_view records e =
     \<lparr>oe_edge_id = er_id e, oe_destination = dense_of (node_ids_of records) (er_destination e),
      oe_relation_id = er_relation_kind e, oe_base_weight = er_base_weight e,
      oe_relation_index = word_of_nat (relation_rank records e)\<rparr>"

lemma entry_image_of:
  "i < length (adjacency_of records) \<Longrightarrow> entry_edge (image_of records) i = edge_view records (adjacency_of records ! i)"
  by (simp add: entry_edge_def image_of_def Let_def edge_view_def)

text \<open>A compiled image together with the records it was compiled from.\<close>

definition compiled_from :: "routing_image \<Rightarrow> confirmed_graph_records \<Rightarrow> bool" where
  "compiled_from img records \<longleftrightarrow>
     valid_records records \<and> (\<exists>limit. records_fit records limit) \<and> img = image_of records"

lemma compile_compiled_from:
  "compile_routing_image_impl reserve records maximum_bytes = Inr img \<Longrightarrow> compiled_from img records"
  using compile_sound unfolding compiled_from_def by blast

lemma compiled_facts:
  assumes "compiled_from img records"
  shows "valid_image img" "valid_records records" "img = image_of records"
    "image_node_count img = length (node_ids_of records)"
    "length (node_ids_of records) \<le> U32_MAX + 1"
    "\<forall>e \<in> set (cg_edges records). relation_rank records e \<le> U32_MAX"
proof -
  show v: "valid_image img" "valid_records records" "img = image_of records"
    using assms image_of_valid by (auto simp: compiled_from_def)
  show "image_node_count img = length (node_ids_of records)"
    by (simp add: v(3) image_node_count_def image_of_fields)
  show "length (node_ids_of records) \<le> U32_MAX + 1" "\<forall>e \<in> set (cg_edges records). relation_rank records e \<le> U32_MAX"
    using assms valid_records_ids(7) [OF v(2)] by (auto simp: compiled_from_def records_fit_def Let_def)
qed

lemma edge_view_multiplier:
  assumes "compiled_from img records" "profile_matches profile (im_confirmed_relation_ids img)"
    and e: "e \<in> set (cg_edges records)"
  shows "edge_multiplier (packed_of profile (im_confirmed_relation_ids img)) (edge_view records e) = Some m
    \<longleftrightarrow> profile_of profile (er_relation_kind e) = Some (Enabled m)"
proof -
  note C = compiled_facts [OF assms(1)]
  let ?ids = "relation_ids_of records" and ?r = "relation_rank records e"
  have ids: "im_confirmed_relation_ids img = ?ids" by (simp add: C(3) image_of_fields)
  have kind: "er_relation_kind e \<in> set ?ids" using C(2) e by (simp add: valid_records_def edge_record_ok_def)
  then obtain r where r: "binary_search ?ids (er_relation_kind e) = Some r"
    using binary_search_None_iff [OF valid_records_ids(6) [OF C(2)]] by blast
  from binary_search_SomeD [OF this] have rk: "?r < length ?ids" "?ids ! ?r = er_relation_kind e"
    by (simp_all add: relation_rank_def r)
  have "unat (word_of_nat ?r :: u32) = ?r" using C(6) e by (fastforce simp: unat_of_nat U32_MAX_def)
  then have "relation_use_index (packed_of profile ?ids) (unat (oe_relation_index (edge_view records e)))
      = Some (the (profile_of profile (er_relation_kind e)))"
    using rk by (simp add: edge_view_def relation_use_index_def packed_of_def)
  moreover have "profile_of profile (er_relation_kind e) \<noteq> None"
    using assms(2) kind by (auto simp: ids profile_matches_def profile_of_def map_of_eq_None_iff)
  ultimately show ?thesis
    by (auto simp: edge_multiplier_def ids split: relation_use.splits)
qed

text \<open>The entries of a node's outgoing range are the views of its edge records.\<close>

lemma out_entries:
  assumes "compiled_from img records" "dense_as_usize x < image_node_count img"
  shows "(\<exists>i \<in> set (out_idx (image_graph img profile) x). P (entry_edge img i)) \<longleftrightarrow>
    (\<exists>e \<in> set (cg_edges records). er_source e = node_ids_of records ! dense_as_usize x \<and> P (edge_view records e))"
proof -
  note C = compiled_facts [OF assms(1)]
  let ?x = "dense_as_usize x" and ?adj = "adjacency_of records"
  have bucket: "map (\<lambda>k. ?adj ! k) [im_offsets img ! ?x..<im_offsets img ! Suc ?x] = edges_from records (node_ids_of records ! ?x)"
    using image_of_bucket [of ?x records] assms(2) C(3,4) by simp
  have idx: "out_idx (image_graph img profile) x = [im_offsets img ! ?x..<im_offsets img ! Suc ?x]"
    by (simp add: out_idx_def topology_graph_def image_out_def)
  have "i < length ?adj" if "i \<in> set (out_idx (image_graph img profile) x)" for i
    using that image_out_range(2) [OF C(1) assms(2)] unfolding idx
    by (simp add: image_out_def image_adjacency_count_def C(3) image_of_fields)
  then have "(\<exists>i \<in> set (out_idx (image_graph img profile) x). P (entry_edge img i)) \<longleftrightarrow>
      (\<exists>i \<in> set (out_idx (image_graph img profile) x). P (edge_view records (?adj ! i)))"
    using entry_image_of C(3) by metis
  also have "\<dots> \<longleftrightarrow> (\<exists>e \<in> set (map (\<lambda>k. ?adj ! k) (out_idx (image_graph img profile) x)). P (edge_view records e))"
    by simp
  also have "\<dots> \<longleftrightarrow> (\<exists>e \<in> set (edges_from records (node_ids_of records ! ?x)). P (edge_view records e))"
    by (simp only: idx bucket)
  finally show ?thesis by (auto simp: edges_from_def)
qed

lemma image_edge_records:
  assumes comp: "compiled_from img records" and match: "profile_matches profile (im_confirmed_relation_ids img)"
    and mult: "profile_multipliers_ok profile" and x: "dense_as_usize x < image_node_count img"
    and y: "dense_as_usize y < image_node_count img"
  shows "graph_edge (image_graph img profile) x w y \<longleftrightarrow>
    record_edge records profile (node_ids_of records ! dense_as_usize x) w (node_ids_of records ! dense_as_usize y)"
proof -
  note C = compiled_facts [OF comp]
  let ?nodes = "node_ids_of records"
  note ids = valid_records_ids [OF C(2)]
  have dest: "oe_destination (edge_view records e) = y \<longleftrightarrow> er_destination e = ?nodes ! dense_as_usize y"
    if "e \<in> set (cg_edges records)" for e
  proof -
    have "er_destination e \<in> set ?nodes" using C(2) that by (simp add: valid_records_def edge_record_ok_def)
    note d = dense_of_usize_nth [OF ids(5,1) C(5) this]
    have "dense_of ?nodes (er_destination e) = y \<longleftrightarrow> dense_as_usize (dense_of ?nodes (er_destination e)) = dense_as_usize y"
      by simp
    also have "\<dots> \<longleftrightarrow> er_destination e = ?nodes ! dense_as_usize y"
      using d y ids(1) by (metis C(4) nth_eq_iff_index_eq)
    finally show ?thesis by (simp add: edge_view_def)
  qed
  have wt: "edge_weight (packed_of profile (im_confirmed_relation_ids img)) (edge_view records e) = Some w \<longleftrightarrow>
      (\<exists>m. profile_of profile (er_relation_kind e) = Some (Enabled m) \<and> effective_weight (er_base_weight e) m = Inr w)"
    if e: "e \<in> set (cg_edges records)" for e
  proof -
    have "effective_weight (er_base_weight e) m = Inr (weight_of (er_base_weight e) m)"
      if "profile_of profile (er_relation_kind e) = Some (Enabled m)" for m
    proof -
      have "Enabled m \<in> snd ` set (profile_entries profile)"
        using that by (force simp: profile_of_def dest: map_of_SomeD)
      then have "multiplier_ok m" using mult by (fastforce simp: profile_multipliers_ok_def)
      then show ?thesis using weight_of_ok(1) C(2) e by (simp add: valid_records_def edge_record_ok_def)
    qed
    then show ?thesis
      using edge_view_multiplier [OF comp match e] by (auto simp: edge_weight_def edge_view_def)
  qed
  have "graph_edge (image_graph img profile) x w y \<longleftrightarrow>
      (\<exists>i \<in> set (out_idx (image_graph img profile) x). oe_destination (entry_edge img i) = y
        \<and> edge_weight (packed_of profile (im_confirmed_relation_ids img)) (entry_edge img i) = Some w)"
    using x by (simp add: graph_edge_def topology_graph_def)
  also have "\<dots> \<longleftrightarrow> (\<exists>e \<in> set (cg_edges records). er_source e = ?nodes ! dense_as_usize x
      \<and> oe_destination (edge_view records e) = y
      \<and> edge_weight (packed_of profile (im_confirmed_relation_ids img)) (edge_view records e) = Some w)"
    by (rule out_entries [OF comp x])
  finally show ?thesis using dest wt by (auto simp: record_edge_def)
qed

section \<open>Walks in the image and walks in the records\<close>

lemma walk_map:
  assumes "walk add zero edge origin x c" "\<And>x w y. edge x w y \<Longrightarrow> edge' (h x) w (h y)"
  shows "walk add zero edge' (h origin) (h x) c"
  using assms(1) by induction (auto intro: walk_origin walk_edge dest: assms(2))

lemma image_edge_range:
  assumes "graph_ok g" "graph_edge g x w y"
  shows "dense_as_usize x < sg_nodes g" "dense_as_usize y < sg_nodes g"
  using assms by (auto simp: graph_edge_def graph_ok_def)

text \<open>The setting of the properties below: an image compiled from records, and a profile that
  names every relation kind once, with valid multipliers.\<close>

definition routable :: "routing_image \<Rightarrow> confirmed_graph_records \<Rightarrow> relation_profile \<Rightarrow> bool" where
  "routable img records profile \<longleftrightarrow> compiled_from img records
     \<and> profile_matches profile (im_confirmed_relation_ids img) \<and> profile_multipliers_ok profile"

lemma image_walk_records:
  assumes r: "routable img records profile"
    and o: "image_dense_node_id img on = Some origin" and x: "image_dense_node_id img xn = Some x"
  shows "f64_walk (graph_edge (image_graph img profile)) origin x c \<longleftrightarrow> f64_walk (record_edge records profile) on xn c"
proof -
  have comp: "compiled_from img records" and match: "profile_matches profile (im_confirmed_relation_ids img)"
    and mult: "profile_multipliers_ok profile" using r by (auto simp: routable_def)
  note C = compiled_facts [OF comp]
  let ?nodes = "node_ids_of records" and ?E = "graph_edge (image_graph img profile)"
  note edge = image_edge_records [OF comp match mult] and ids = valid_records_ids [OF C(2)]
  have g: "graph_ok (image_graph img profile)" using image.graph_sound [OF C(1)] match mult by simp
  have n: "sg_nodes (image_graph img profile) = image_node_count img" by (simp add: topology_graph_def)
  have dense: "image_dense_node_id img k = Some z \<longleftrightarrow> dense_as_usize z < image_node_count img \<and> ?nodes ! dense_as_usize z = k" for k z
    using valid_image_dense_node_id [OF C(1)] by (simp add: C(3) image_of_fields)
  show ?thesis
  proof
    assume w: "f64_walk ?E origin x c"
    have "f64_walk (record_edge records profile) (?nodes ! dense_as_usize origin) (?nodes ! dense_as_usize x) c"
    proof (rule walk_map [OF w, where h = "\<lambda>z. ?nodes ! dense_as_usize z"])
      fix a w b assume e: "?E a w b"
      from image_edge_range [OF g e] edge e n
      show "record_edge records profile (?nodes ! dense_as_usize a) w (?nodes ! dense_as_usize b)" by simp
    qed
    with o x dense show "f64_walk (record_edge records profile) on xn c" by simp
  next
    assume w: "f64_walk (record_edge records profile) on xn c"
    have "f64_walk ?E (dense_of ?nodes on) (dense_of ?nodes xn) c"
    proof (rule walk_map [OF w])
      fix a w b assume e: "record_edge records profile a w b"
      then have "a \<in> set ?nodes" "b \<in> set ?nodes"
        using C(2) by (auto simp: record_edge_def valid_records_def edge_record_ok_def)
      with dense_of_usize_nth [OF ids(5,1) C(5)] edge e C(4)
      show "?E (dense_of ?nodes a) w (dense_of ?nodes b)" by simp
    qed
    moreover have "dense_of ?nodes k = z" if "image_dense_node_id img k = Some z" for k z
    proof -
      have z: "dense_as_usize z < length ?nodes" "?nodes ! dense_as_usize z = k" using that dense C(4) by auto
      then have "k \<in> set ?nodes" using nth_mem by blast
      from dense_of_usize_nth [OF ids(5,1) C(5) this] z ids(1)
      have "dense_as_usize (dense_of ?nodes k) = dense_as_usize z" by (metis nth_eq_iff_index_eq)
      then show ?thesis by simp
    qed
    ultimately show "f64_walk ?E origin x c" using o x by simp
  qed
qed

lemma routed_response:
  assumes "compiled_from img records" "profile_multipliers_ok (rq_profile request)"
    and "route_controlled env img request = Inr result"
  shows "routable img records (rq_profile request)"
    "\<exists>origin. image_dense_node_id img (rq_origin request) = Some origin
      \<and> response_ok (image_graph img (rq_profile request)) (image_topology img) env request origin result"
proof -
  note C = compiled_facts [OF assms(1)]
  have v: "sorted (im_confirmed_relation_ids img)" "distinct (im_confirmed_relation_ids img)"
    using C(1) by (auto simp: valid_image_def)
  obtain p where "pack_relation_ids (env_reserve env) (rq_profile request) (im_confirmed_relation_ids img) = Inr p"
    using assms(3) by (auto simp: route_controlled_def route_topology_controlled_def elim!: rbind_InrE)
  from pack_relation_ids_Inr [OF v this] show "routable img records (rq_profile request)"
    using assms by (simp add: routable_def)
  show "\<exists>origin. image_dense_node_id img (rq_origin request) = Some origin
      \<and> response_ok (image_graph img (rq_profile request)) (image_topology img) env request origin result"
    using image.route_correct [OF C(1) assms(2), of env] assms(3) by (simp add: route_controlled_def)
qed

lemma image_dense_in_records:
  assumes "compiled_from img records"
  shows "image_dense_node_id img n = None \<longleftrightarrow> n \<notin> nr_id ` set (cg_nodes records)"
proof -
  note C = compiled_facts [OF assms]
  have "(\<exists>d. image_dense_node_id img n = Some d) \<longleftrightarrow> n \<in> set (node_ids_of records)"
  proof
    assume "\<exists>d. image_dense_node_id img n = Some d"
    then show "n \<in> set (node_ids_of records)"
      using valid_image_dense_node_id [OF C(1)] C(4) nth_mem by (fastforce simp: C(3) image_of_fields)
  next
    assume "n \<in> set (node_ids_of records)"
    from dense_of_usize_nth [OF valid_records_ids(5,1) [OF C(2)] C(5) this]
    show "\<exists>d. image_dense_node_id img n = Some d"
      using valid_image_dense_node_id [OF C(1)] C(4) by (auto simp: C(3) image_of_fields)
  qed
  then show ?thesis by (auto simp: node_ids_of_def)
qed

section \<open>Paths in the records\<close>

definition step_of_record :: "confirmed_graph_records \<Rightarrow> relation_profile \<Rightarrow> path_step \<Rightarrow> bool" where
  "step_of_record records profile s \<longleftrightarrow>
     (\<exists>e \<in> set (cg_edges records). ps_edge_id s = er_id e \<and> ps_source s = er_source e
        \<and> ps_destination s = er_destination e \<and> ps_relation_id s = er_relation_kind e
        \<and> ps_base_weight s = er_base_weight e
        \<and> profile_of profile (er_relation_kind e) = Some (Enabled (ps_multiplier s))
        \<and> effective_weight (ps_base_weight s) (ps_multiplier s) = Inr (ps_effective_weight s))"

lemma step_ok_records:
  assumes r: "routable img records profile" and x: "dense_as_usize x < image_node_count img"
    and s: "step_ok (image_graph img profile) (image_external_node_id img) x s y"
  shows "step_of_record records profile s" "dense_as_usize y < image_node_count img"
proof -
  have comp: "compiled_from img records" and match: "profile_matches profile (im_confirmed_relation_ids img)"
    and mult: "profile_multipliers_ok profile" using r by (auto simp: routable_def)
  note C = compiled_facts [OF comp]
  let ?nodes = "node_ids_of records" and ?p = "packed_of profile (im_confirmed_relation_ids img)"
  have ext: "image_external_node_id img z = Some n \<Longrightarrow> dense_as_usize z < image_node_count img \<and> ?nodes ! dense_as_usize z = n" for z n
    by (auto simp: image_external_node_id_def get_Some_iff C(3) image_of_fields image_node_count_def)
  let ?P = "\<lambda>e. oe_destination e = y \<and> ps_edge_id s = oe_edge_id e \<and> ps_relation_id s = oe_relation_id e
        \<and> ps_base_weight s = oe_base_weight e \<and> edge_multiplier ?p e = Some (ps_multiplier s)
        \<and> edge_weight ?p e = Some (ps_effective_weight s)"
  have xy: "?nodes ! dense_as_usize x = ps_source s" "?nodes ! dense_as_usize y = ps_destination s"
      "dense_as_usize y < image_node_count img"
    using s ext by (auto simp: step_ok_def)
  have "\<exists>i \<in> set (out_idx (image_graph img profile) x). ?P (entry_edge img i)"
    using s by (auto simp: step_ok_def topology_graph_def)
  then obtain e where e: "e \<in> set (cg_edges records)" "er_source e = ps_source s" "?P (edge_view records e)"
    using out_entries [OF comp x, of profile ?P] xy(1) by auto
  have "er_destination e \<in> set ?nodes" "base_weight_ok (er_base_weight e)"
    using C(2) e(1) by (auto simp: valid_records_def edge_record_ok_def)
  with dense_of_usize_nth(2) [OF valid_records_ids(5,1) [OF C(2)] C(5)] e(3) xy(2)
  have dest: "er_destination e = ps_destination s" by (auto simp: edge_view_def)
  have m: "profile_of profile (er_relation_kind e) = Some (Enabled (ps_multiplier s))"
    using edge_view_multiplier [OF comp match e(1)] e(3) by blast
  then have "multiplier_ok (ps_multiplier s)"
    using edge_multiplier_ok [OF image.graph_sound [OF C(1) _ mult], of "edge_view records e" "ps_multiplier s"] match e(3)
    by (simp add: topology_graph_def)
  then have "effective_weight (er_base_weight e) (ps_multiplier s) = Inr (ps_effective_weight s)"
    using weight_of_ok(1) \<open>base_weight_ok (er_base_weight e)\<close> e(3) by (auto simp: edge_weight_def edge_view_def)
  with e dest m show "step_of_record records profile s" unfolding step_of_record_def
    by (intro bexI [of _ e]) (simp_all add: edge_view_def)
  show "dense_as_usize y < image_node_count img" by (fact xy)
qed

lemma traces_records:
  assumes r: "routable img records profile"
    and "traces (image_graph img profile) (image_external_node_id img) x ss z"
  shows "dense_as_usize x < image_node_count img \<Longrightarrow> image_external_node_id img x = Some n \<Longrightarrow>
    image_external_node_id img z = Some m \<Longrightarrow> (\<forall>s \<in> set ss. step_of_record records profile s) \<and> contiguous n ss m"
  using assms(2)
proof (induction arbitrary: n rule: traces.induct)
  case (traces_step x s y ss z)
  have "image_external_node_id img y = Some (ps_destination s)" "ps_source s = n"
    using traces_step.hyps(1) traces_step.prems(2) by (auto simp: step_ok_def)
  with traces_step step_ok_records [OF r traces_step.prems(1) traces_step.hyps(1)] show ?case by simp
qed simp

lemma traced_path:
  assumes r: "routable img records profile" and o: "image_dense_node_id img on = Some origin" and x: "image_dense_node_id img xn = Some x"
    and t: "traces (image_graph img profile) (image_external_node_id img) origin ss x"
  shows "(\<forall>s \<in> set ss. step_of_record records profile s) \<and> contiguous on ss xn"
proof -
  have v: "valid_image img" using r compiled_facts(1) by (auto simp: routable_def)
  have "image_external_node_id img origin = Some on" "dense_as_usize origin < image_node_count img" "image_external_node_id img x = Some xn"
    using o x image.dense_external [OF v] image.dense_bound [OF v] by auto
  with traces_records [OF r t] show ?thesis by blast
qed

section \<open>When a route returns, and what it then settles\<close>

lemma route_returns:
  assumes comp: "compiled_from img records" and mult: "profile_multipliers_ok (rq_profile request)"
    and match: "profile_matches (rq_profile request) (relation_ids_of records)"
    and origin: "rq_origin request \<in> nr_id ` set (cg_nodes records)" and mem: "\<And>s n. env_reserve env s n"
  shows "\<exists>response diagnostics. route_controlled env img request = Inr (response, diagnostics)"
proof -
  note C = compiled_facts [OF comp]
  have ids: "im_confirmed_relation_ids img = relation_ids_of records" by (simp add: C(3) image_of_fields)
  have "ensures (route_error env (image_topology img) request (\<lambda>_. False)) (\<lambda>_. True)
      (route_controlled env img request)"
    unfolding route_controlled_def by (rule ensures_mono [OF image.route_correct [OF C(1) mult]]) simp
  moreover have "\<not> route_error env (image_topology img) request (\<lambda>_. False) e" for e
    using match origin mem image_dense_in_records [OF comp, of "rq_origin request"]
    by (auto simp: route_error_def expected_error_def ids)
  ultimately show ?thesis by (cases "route_controlled env img request") auto
qed

lemma record_walk_nodes:
  assumes "f64_walk (record_edge records profile) n m c" "valid_records records" "n \<in> nr_id ` set (cg_nodes records)"
  shows "m \<in> nr_id ` set (cg_nodes records)"
  using assms(1)
proof cases
  case (walk_edge x c w)
  then show ?thesis using assms(2)
    by (auto simp: record_edge_def valid_records_def edge_record_ok_def node_ids_of_def)
qed (use assms(3) in simp)

lemma settled_states:
  assumes comp: "compiled_from img records" and mult: "profile_multipliers_ok (rq_profile request)"
    and route: "route_controlled env img request = Inr (response, diagnostics)"
    and r: "r \<in> set (rs_results response)" and nc: "\<And>n. \<not> env_cancelled env n" and budget: "rq_budget request = Unlimited"
  shows "(\<exists>c. f64_walk (record_edge records (rq_profile request)) (rq_origin request) (dr_destination r) c)
      \<longleftrightarrow> (\<exists>e. dr_state r = Exact e)"
    "dr_state r = Exact e \<Longrightarrow> rq_return_paths request \<longleftrightarrow> xr_path e \<noteq> None"
    "dr_state r = MissingNode \<longleftrightarrow> dr_destination r \<notin> nr_id ` set (cg_nodes records)"
    "dr_state r \<noteq> Incomplete" "rs_completion_reason response \<in> {AllDestinationsFinalized, FrontierExhausted}"
proof -
  note R = routed_response [OF comp mult route] and C = compiled_facts [OF comp]
  from R(2) obtain origin where o: "image_dense_node_id img (rq_origin request) = Some origin"
    and ok: "response_ok (image_graph img (rq_profile request)) (image_topology img) env request origin (response, diagnostics)"
    by blast
  have res: "result_ok (image_graph img (rq_profile request)) (image_topology img) env request origin
      (rs_completion_reason response) r" using ok r by (auto simp: response_ok_def)
  have reason: "rs_completion_reason response \<noteq> Cancelled" "rs_completion_reason response \<noteq> BudgetExhausted"
    using ok nc budget by (auto simp: response_ok_def)
  then show "rs_completion_reason response \<in> {AllDestinationsFinalized, FrontierExhausted}"
    by (cases "rs_completion_reason response") auto
  show "dr_state r \<noteq> Incomplete" using res reason by (auto simp: result_ok_def split: option.splits)
  show "dr_state r = MissingNode \<longleftrightarrow> dr_destination r \<notin> nr_id ` set (cg_nodes records)"
    using res image_dense_in_records [OF comp, of "dr_destination r"]
    by (cases "image_dense_node_id img (dr_destination r)"; cases "dr_state r") (auto simp: result_ok_def)
  show "dr_state r = Exact e \<Longrightarrow> rq_return_paths request \<longleftrightarrow> xr_path e \<noteq> None"
    using res nc by (auto simp: result_ok_def split: option.splits)
  have on: "rq_origin request \<in> nr_id ` set (cg_nodes records)"
    using image_dense_in_records [OF comp, of "rq_origin request"] o by auto
  show "(\<exists>c. f64_walk (record_edge records (rq_profile request)) (rq_origin request) (dr_destination r) c)
      \<longleftrightarrow> (\<exists>e. dr_state r = Exact e)"
  proof (cases "image_dense_node_id img (dr_destination r)")
    case None
    then have "dr_state r = MissingNode" using res by (simp add: result_ok_def)
    moreover have "\<not> f64_walk (record_edge records (rq_profile request)) (rq_origin request) (dr_destination r) c" for c
      using record_walk_nodes [OF _ C(2) on] image_dense_in_records [OF comp, of "dr_destination r"] None by blast
    ultimately show ?thesis by simp
  next
    case (Some x)
    with res reason nc show ?thesis
      unfolding image_walk_records [OF R(1) o Some, symmetric]
      by (cases "dr_state r") (auto simp: result_ok_def shortest_def split: option.splits)
  qed
qed

text \<open>A path in a response, over the records.\<close>

lemma routed_path:
  assumes comp: "compiled_from img records"
    and "profile_multipliers_ok (rq_profile request)"
    and "route_controlled env img request = Inr (response, diagnostics)"
    and "r \<in> set (rs_results response)" "dr_state r = Exact e" "xr_path e = Some p"
  shows "(\<forall>s \<in> set (pa_steps p). step_of_record records (rq_profile request) s)
    \<and> contiguous (rq_origin request) (pa_steps p) (dr_destination r)
    \<and> pa_origin p = rq_origin request \<and> pa_destination p = dr_destination r
    \<and> pa_logical_distance p = xr_logical_distance e
    \<and> sum_steps (pa_steps p) = Inr (xr_logical_distance e)"
proof -
  note R = routed_response [OF comp assms(2,3)]
  from R(2) obtain origin where o: "image_dense_node_id img (rq_origin request) = Some origin"
    and ok: "response_ok (image_graph img (rq_profile request)) (image_topology img) env request origin (response, diagnostics)"
    by blast
  then obtain x where x: "image_dense_node_id img (dr_destination r) = Some x"
      and path: "path_ok (image_graph img (rq_profile request)) (image_topology img) (rq_origin request) origin x
        (xr_logical_distance e) p" "pa_destination p = dr_destination r"
    using assms(4-6) by (fastforce simp: response_ok_def result_ok_def split: option.splits)
  then have "traces (image_graph img (rq_profile request)) (image_external_node_id img) origin (pa_steps p) x"
    by (simp add: path_ok_def)
  from traced_path [OF R(1) o x this] path show ?thesis by (simp add: path_ok_def)
qed

section \<open>An example\<close>

text \<open>Three nodes, one relation kind, one edge from node 1 to node 2; node 3 is isolated.\<close>

definition example_node :: "u64 \<Rightarrow> node_record" where
  "example_node k = \<lparr>nr_id = NodeId k, nr_name = NodeName [], nr_payload = NodePayload []\<rparr>"

definition example_records :: confirmed_graph_records where
  "example_records =
     \<lparr>cg_nodes = [example_node 3, example_node 1, example_node 2],
      cg_relation_kinds = [relation_record_new (RelationId 1) (RelationName [])],
      cg_edges = [\<lparr>er_id = EdgeId 1, er_source = NodeId 1, er_destination = NodeId 2,
        er_relation_kind = RelationId 1, er_base_weight = BaseWeight f32_one\<rparr>]\<rparr>"

definition example_request :: routing_request where
  "example_request =
     \<lparr>rq_origin = NodeId 1, rq_destinations = [NodeId 2, NodeId 3, NodeId 4],
      rq_profile = RelationProfile [(RelationId 1, Enabled (RelationMultiplier f32_one))],
      rq_return_paths = True, rq_budget = Unlimited, rq_tie_policy = StablePredecessor\<rparr>"

definition example_env :: environment where
  "example_env = \<lparr>env_cancelled = (\<lambda>_. False), env_reserve = (\<lambda>_ _. True)\<rparr>"

definition grant_all :: reserve where
  "grant_all = (\<lambda>_ _. True)"

definition example_image :: routing_image where
  "example_image = image_of example_records"

lemma example_ids:
  "node_ids_of example_records = [NodeId 1, NodeId 2, NodeId 3]"
  "relation_ids_of example_records = [RelationId 1]"
  by (simp_all add: example_records_def node_ids_of_def relation_ids_of_def example_node_def
      relation_record_new_def relation_record_with_usage_def id_order_defs word_le_nat_alt)

lemma example_valid: "valid_records example_records"
proof -
  have "edge_record_ok example_records e" if "e \<in> set (cg_edges example_records)" for e
    using that by (simp add: edge_record_ok_def example_ids) (simp add: example_records_def base_weight_ok_def)
  then show ?thesis
    by (simp add: valid_records_def)
      (simp add: example_records_def example_node_def)
qed

lemma example_fit:
  assumes "case limit of None \<Rightarrow> True | Some k \<Rightarrow> 140 \<le> k"
  shows "records_fit example_records limit"
proof -
  have "binary_search [RelationId 1] (RelationId 1) = Some 0"
    by (simp add: binary_search_def bs_loop.simps)
  then have "relation_rank example_records e = 0" if "e \<in> set (cg_edges example_records)" for e
    using that by (simp add: relation_rank_def example_ids) (simp add: example_records_def)
  moreover have "length (cg_nodes example_records) = 3" "length (cg_relation_kinds example_records) = 1"
      "length (cg_edges example_records) = 1" by (simp_all add: example_records_def)
  ultimately show ?thesis
    using assms by (simp add: records_fit_def image_bytes_def U64_MAX_def U32_MAX_def split: option.splits)
qed

lemma example_compiles:
  assumes "case limit of None \<Rightarrow> True | Some k \<Rightarrow> 140 \<le> k"
  shows "compile_routing_image_impl grant_all example_records limit = Inr example_image"
  using compile_complete [OF example_valid example_fit [OF assms], of grant_all]
  by (simp add: example_image_def grant_all_def)

lemma example_profile:
  "profile_multipliers_ok (rq_profile example_request)"
  "profile_matches (rq_profile example_request) (relation_ids_of example_records)"
  by (simp_all add: example_request_def profile_multipliers_ok_def multiplier_ok_def
      f32_nonneg_finite_def f32_one_def F32_INF_def profile_matches_def example_ids)

lemma example_edge:
  "record_edge example_records (rq_profile example_request) n w m \<longleftrightarrow>
     n = NodeId 1 \<and> m = NodeId 2 \<and> w = weight_of (BaseWeight f32_one) (RelationMultiplier f32_one)"
proof -
  have "effective_weight (BaseWeight f32_one) (RelationMultiplier f32_one)
      = Inr (weight_of (BaseWeight f32_one) (RelationMultiplier f32_one))"
    by (rule weight_of_ok) (simp_all add: base_weight_ok_def multiplier_ok_def f32_nonneg_finite_def
        f32_one_def F32_INF_def)
  then show ?thesis by (auto simp: record_edge_def example_records_def example_request_def profile_of_def)
qed

lemma example_walks:
  "\<exists>c. f64_walk (record_edge example_records (rq_profile example_request)) (NodeId 1) (NodeId 2) c"
  "\<not> f64_walk (record_edge example_records (rq_profile example_request)) (NodeId 1) (NodeId 3) c"
proof -
  show "\<exists>c. f64_walk (record_edge example_records (rq_profile example_request)) (NodeId 1) (NodeId 2) c"
    using walk_edge [OF walk_origin] example_edge by metis
  show "\<not> f64_walk (record_edge example_records (rq_profile example_request)) (NodeId 1) (NodeId 3) c"
    by (auto simp: example_edge elim: walk.cases)
qed

text \<open>The route of the example: node 2 is exact with a path, node 3 unreachable, node 4 missing.\<close>

definition example_outcome :: "routing_response \<Rightarrow> cpu_search_diagnostics \<Rightarrow> destination_result \<Rightarrow> exact_route
    \<Rightarrow> route_path \<Rightarrow> destination_result \<Rightarrow> bool" where
  "example_outcome response diagnostics r e p u \<longleftrightarrow>
     route_controlled example_env example_image example_request = Inr (response, diagnostics)
     \<and> r \<in> set (rs_results response) \<and> dr_destination r = NodeId 2 \<and> dr_state r = Exact e \<and> xr_path e = Some p
     \<and> u \<in> set (rs_results response) \<and> dr_destination u = NodeId 3 \<and> dr_state u = Unreachable"

lemma example_outcomeD:
  assumes "example_outcome response diagnostics r e p u"
  shows "route_controlled example_env example_image example_request = Inr (response, diagnostics)"
    "r \<in> set (rs_results response)" "dr_destination r = NodeId 2" "dr_state r = Exact e" "xr_path e = Some p"
    "u \<in> set (rs_results response)" "dr_destination u = NodeId 3" "dr_state u = Unreachable"
  using assms by (simp_all add: example_outcome_def)

lemma example_route:
  obtains response diagnostics r e p u where "example_outcome response diagnostics r e p u"
proof -
  have comp: "compiled_from example_image example_records"
    using compile_compiled_from example_compiles [of None] by simp
  have "rq_origin example_request \<in> nr_id ` set (cg_nodes example_records)"
    by (simp add: example_request_def example_records_def example_node_def)
  then obtain response diagnostics where
      route: "route_controlled example_env example_image example_request = Inr (response, diagnostics)"
    using route_returns [OF comp example_profile, of example_env] by (auto simp: example_env_def)
  note R = routed_response(2) [OF comp example_profile(1) route]
  have "map dr_destination (rs_results response) = [NodeId 2, NodeId 3, NodeId 4]"
    using R by (auto simp: response_ok_def example_request_def)
  then obtain r u v where rs: "rs_results response = [r, u, v]" "dr_destination r = NodeId 2" "dr_destination u = NodeId 3"
    by (auto simp: map_eq_Cons_conv)
  have "\<not> env_cancelled example_env n" "rq_budget example_request = Unlimited" for n
    by (simp_all add: example_env_def example_request_def)
  note S = settled_states [OF comp example_profile(1) route _ this]
  have "rq_origin example_request = NodeId 1" "rq_return_paths example_request" by (simp_all add: example_request_def)
  with S(1,2) [of r] example_walks(1) rs obtain e p where "dr_state r = Exact e" "xr_path e = Some p" by auto
  moreover have "NodeId 3 \<in> nr_id ` set (cg_nodes example_records)"
    by (simp add: example_records_def example_node_def)
  with S(1,3,4) [of u] example_walks(2) rs \<open>rq_origin example_request = NodeId 1\<close> have "dr_state u = Unreachable"
    by (cases "dr_state u") auto
  ultimately show thesis
    using route rs by (intro that [of response diagnostics r e p u]) (simp add: example_outcome_def)
qed

section \<open>Properties\<close>

text \<open>
  C1: An exact result carries the length of a shortest path: on the image compiled from the
  records, the reported distance is the binary64 sum, from the origin on, of the effective
  weights along some walk of enabled edges to the destination, and no walk has a smaller sum.
  This holds under any budget, cancellation and allocation behaviour.
\<close>

theorem route_exact_shortest:
  assumes "compile_routing_image_impl reserve records limit = Inr img"
    and "profile_multipliers_ok (rq_profile request)"
    and "route_controlled env img request = Inr (response, diagnostics)"
    and "r \<in> set (rs_results response)" "dr_state r = Exact e"
  shows "f64_walk (record_edge records (rq_profile request)) (rq_origin request) (dr_destination r)
      (xr_logical_distance e)
    \<and> (\<forall>c. f64_walk (record_edge records (rq_profile request)) (rq_origin request) (dr_destination r) c
        \<longrightarrow> xr_logical_distance e \<le> c)"
proof -
  note comp = compile_compiled_from [OF assms(1)]
  note R = routed_response [OF comp assms(2,3)]
  from R(2) obtain origin where o: "image_dense_node_id img (rq_origin request) = Some origin"
    and "response_ok (image_graph img (rq_profile request)) (image_topology img) env request origin (response, diagnostics)"
    by blast
  then obtain x where x: "image_dense_node_id img (dr_destination r) = Some x"
      "shortest (image_graph img (rq_profile request)) origin x (xr_logical_distance e)"
    using assms(4,5) by (fastforce simp: response_ok_def result_ok_def split: option.splits)
  with image_walk_records [OF R(1) o x(1)] show ?thesis by (simp add: shortest_def)
qed

theorem route_exact_shortest_witness:
  "\<exists>response diagnostics r e. route_controlled example_env example_image example_request = Inr (response, diagnostics)
     \<and> r \<in> set (rs_results response) \<and> dr_state r = Exact e
     \<and> f64_walk (record_edge example_records (rq_profile example_request)) (rq_origin example_request)
         (dr_destination r) (xr_logical_distance e)"
proof -
  obtain response diagnostics r e p u where "example_outcome response diagnostics r e p u"
    by (rule example_route)
  note x = example_outcomeD [OF this]
  from route_exact_shortest [OF example_compiles [of None] example_profile(1) x(1,2,4)] x show ?thesis by auto
qed

text \<open>
  C2: A destination reported unreachable is a confirmed node to which no walk of enabled edges
  leads from the origin.
\<close>

theorem route_unreachable_sound:
  assumes "compile_routing_image_impl reserve records limit = Inr img"
    and "profile_multipliers_ok (rq_profile request)"
    and "route_controlled env img request = Inr (response, diagnostics)"
    and "r \<in> set (rs_results response)" "dr_state r = Unreachable"
  shows "dr_destination r \<in> nr_id ` set (cg_nodes records)
    \<and> (\<forall>c. \<not> f64_walk (record_edge records (rq_profile request)) (rq_origin request) (dr_destination r) c)"
proof -
  note comp = compile_compiled_from [OF assms(1)]
  note R = routed_response [OF comp assms(2,3)]
  from R(2) obtain origin where o: "image_dense_node_id img (rq_origin request) = Some origin"
    and "response_ok (image_graph img (rq_profile request)) (image_topology img) env request origin (response, diagnostics)"
    by blast
  then obtain x where x: "image_dense_node_id img (dr_destination r) = Some x"
      "\<forall>c. \<not> f64_walk (graph_edge (image_graph img (rq_profile request))) origin x c"
    using assms(4,5) by (fastforce simp: response_ok_def result_ok_def split: option.splits)
  then have "dr_destination r \<in> nr_id ` set (cg_nodes records)"
    using image_dense_in_records [OF comp, of "dr_destination r"] by auto
  with image_walk_records [OF R(1) o x(1)] x(2) show ?thesis by simp
qed

theorem route_unreachable_sound_witness:
  "\<exists>response diagnostics r. route_controlled example_env example_image example_request = Inr (response, diagnostics)
     \<and> r \<in> set (rs_results response) \<and> dr_state r = Unreachable
     \<and> dr_destination r \<in> nr_id ` set (cg_nodes example_records)"
proof -
  obtain response diagnostics r e p u where "example_outcome response diagnostics r e p u"
    by (rule example_route)
  note x = example_outcomeD [OF this]
  from route_unreachable_sound [OF example_compiles [of None] example_profile(1) x(1,6,8)] x show ?thesis by auto
qed

text \<open>
  C3: A reported path is made of stored edges with an enabled relation kind, each step copying
  the record's identifiers and weight; the steps follow one another from the origin to the
  destination, and accumulating their effective weights gives exactly the reported distance.
\<close>

theorem route_path_sound:
  assumes "compile_routing_image_impl reserve records limit = Inr img"
    and "profile_multipliers_ok (rq_profile request)"
    and "route_controlled env img request = Inr (response, diagnostics)"
    and "r \<in> set (rs_results response)" "dr_state r = Exact e" "xr_path e = Some p"
  shows "(\<forall>s \<in> set (pa_steps p). step_of_record records (rq_profile request) s)
    \<and> contiguous (rq_origin request) (pa_steps p) (dr_destination r)
    \<and> pa_origin p = rq_origin request \<and> pa_destination p = dr_destination r
    \<and> pa_logical_distance p = xr_logical_distance e
    \<and> sum_steps (pa_steps p) = Inr (xr_logical_distance e)"
  using routed_path [OF compile_compiled_from [OF assms(1)] assms(2-6)] .

theorem route_path_sound_witness:
  "\<exists>response diagnostics r e p. route_controlled example_env example_image example_request = Inr (response, diagnostics)
     \<and> r \<in> set (rs_results response) \<and> dr_state r = Exact e \<and> xr_path e = Some p
     \<and> contiguous (NodeId 1) (pa_steps p) (NodeId 2) \<and> sum_steps (pa_steps p) = Inr (xr_logical_distance e)"
proof -
  obtain response diagnostics r e p u where "example_outcome response diagnostics r e p u"
    by (rule example_route)
  note x = example_outcomeD [OF this]
  from route_path_sound [OF example_compiles [of None] example_profile(1) x(1,2,4,5)] x show ?thesis
    by (auto simp: example_request_def)
qed

text \<open>
  C27: Every request destination gets one result, in request order: missing exactly when no
  confirmed node has its identifier, incomplete only when the response says that the budget ran
  out or the search was cancelled; and the response says so only when a cancellation was
  observed, respectively when exactly the budgeted number of edges was examined.
\<close>

theorem route_results_complete:
  assumes "compile_routing_image_impl reserve records limit = Inr img"
    and "profile_multipliers_ok (rq_profile request)"
    and "route_controlled env img request = Inr (response, diagnostics)"
  shows "map dr_destination (rs_results response) = rq_destinations request
    \<and> (\<forall>r \<in> set (rs_results response).
         (dr_state r = MissingNode \<longleftrightarrow> dr_destination r \<notin> nr_id ` set (cg_nodes records))
         \<and> (dr_state r = Incomplete \<longrightarrow> rs_completion_reason response \<in> {BudgetExhausted, Cancelled})
         \<and> (\<forall>e. dr_state r = Exact e \<longrightarrow> rq_return_paths request \<longrightarrow> xr_path e = None \<longrightarrow>
              (\<exists>n. env_cancelled env n)))
    \<and> (rs_completion_reason response = Cancelled \<longrightarrow> (\<exists>n. env_cancelled env n))
    \<and> (rs_completion_reason response = BudgetExhausted \<longrightarrow>
         rq_budget request = ExaminedEdges (rs_examined_edges response))"
proof -
  note comp = compile_compiled_from [OF assms(1)]
  from routed_response(2) [OF comp assms(2,3)] obtain origin where
    ok: "response_ok (image_graph img (rq_profile request)) (image_topology img) env request origin (response, diagnostics)"
    by blast
  have "(dr_state r = MissingNode \<longleftrightarrow> dr_destination r \<notin> nr_id ` set (cg_nodes records))
      \<and> (dr_state r = Incomplete \<longrightarrow> rs_completion_reason response \<in> {BudgetExhausted, Cancelled})
      \<and> (\<forall>e. dr_state r = Exact e \<longrightarrow> rq_return_paths request \<longrightarrow> xr_path e = None \<longrightarrow> (\<exists>n. env_cancelled env n))"
    if "r \<in> set (rs_results response)" for r
  proof -
    have "result_ok (image_graph img (rq_profile request)) (image_topology img) env request origin
        (rs_completion_reason response) r"
      using ok that by (auto simp: response_ok_def)
    then show ?thesis
      using image_dense_in_records [OF comp, of "dr_destination r"]
      by (cases "image_dense_node_id img (dr_destination r)"; cases "dr_state r") (auto simp: result_ok_def)
  qed
  with ok show ?thesis by (auto simp: response_ok_def)
qed

theorem route_results_complete_witness:
  "\<exists>response diagnostics. route_controlled example_env example_image example_request = Inr (response, diagnostics)
     \<and> map dr_destination (rs_results response) = [NodeId 2, NodeId 3, NodeId 4]"
proof -
  obtain response diagnostics r e p u where "example_outcome response diagnostics r e p u"
    by (rule example_route)
  note x = example_outcomeD [OF this]
  from route_results_complete [OF example_compiles [of None] example_profile(1) x(1)] x show ?thesis
    by (auto simp: example_request_def)
qed

text \<open>
  C5: Routing terminates with a response whenever the origin is a confirmed node, the profile
  names every relation kind exactly once with valid multipliers, and reservations are granted:
  no weight or distance overflows, no index is out of range and no internal check fails.
\<close>

theorem route_total:
  assumes "compile_routing_image_impl reserve records limit = Inr img"
    and "profile_multipliers_ok (rq_profile request)"
    and "profile_matches (rq_profile request) (relation_ids_of records)"
    and "rq_origin request \<in> nr_id ` set (cg_nodes records)" "\<And>s n. env_reserve env s n"
  shows "\<exists>response diagnostics. route_controlled env img request = Inr (response, diagnostics)"
  using route_returns [OF compile_compiled_from [OF assms(1)] assms(2-5)] by blast

theorem route_total_witness:
  "\<exists>response diagnostics. route_controlled example_env example_image example_request = Inr (response, diagnostics)"
  by (rule route_total [OF example_compiles [of None]])
    (simp_all add: example_profile, simp_all add: example_request_def example_records_def example_node_def example_env_def)

text \<open>
  C28: A route that fails does so for one of the documented reasons: the origin is not a confirmed
  node, the profile is rejected, or memory could not be reserved. It never panics and never
  reports an arithmetic error, an image access error or a violated internal invariant.
\<close>

theorem route_documented_errors:
  assumes "compile_routing_image_impl reserve records limit = Inr img"
    and "profile_multipliers_ok (rq_profile request)"
    and "route_controlled env img request = Inl e"
  shows "(e = Failed (MissingOrigin (rq_origin request)) \<and> rq_origin request \<notin> nr_id ` set (cg_nodes records))
    \<or> (\<exists>pe. e = Failed (InvalidProfile pe) \<and>
         (\<not> profile_matches (rq_profile request) (relation_ids_of records) \<or> (\<exists>s n. \<not> env_reserve env s n)))
    \<or> (\<exists>s n. e = Failed (RoutingAllocationFailed s) \<and> \<not> env_reserve env s n)"
proof -
  note comp = compile_compiled_from [OF assms(1)]
  note C = compiled_facts [OF comp]
  have ids: "im_confirmed_relation_ids img = relation_ids_of records" by (simp add: C(3) image_of_fields)
  have "route_error env (image_topology img) request (\<lambda>_. False) e"
    using image.route_correct [OF C(1) assms(2), of env] assms(3) by (simp add: route_controlled_def)
  then show ?thesis
    using image_dense_in_records [OF comp, of "rq_origin request"]
    by (auto simp: route_error_def expected_error_def ids)
qed

theorem route_documented_errors_witness:
  "\<exists>e. route_controlled example_env example_image (example_request\<lparr>rq_origin := NodeId 9\<rparr>) = Inl e
     \<and> e = Failed (MissingOrigin (NodeId 9))"
proof -
  let ?rq = "example_request\<lparr>rq_origin := NodeId 9\<rparr>"
  have comp: "compiled_from example_image example_records"
    using compile_compiled_from example_compiles [of None] by simp
  have "image_dense_node_id example_image (NodeId 9) = None"
    using image_dense_in_records [OF comp, of "NodeId 9"] by (simp add: example_records_def example_node_def)
  then have e: "route_controlled example_env example_image ?rq = Inl (Failed (MissingOrigin (NodeId 9)))"
    by (simp add: route_controlled_def route_topology_controlled_def)
  have "profile_multipliers_ok (rq_profile ?rq)" using example_profile by simp
  from route_documented_errors [OF example_compiles [of None] this e] e show ?thesis by simp
qed

text \<open>
  C30: The counters of a response respect the graph and the request: examined edges stay within
  the budget and the number of edges, finalized nodes within the number of nodes, and the
  frontier never held more entries than the working-set estimate provides for.
\<close>

theorem route_counters_bounded:
  assumes "compile_routing_image_impl reserve records limit = Inr img"
    and "profile_multipliers_ok (rq_profile request)"
    and "route_controlled env img request = Inr (response, diagnostics)"
  shows "rs_examined_edges response \<le> length (cg_edges records)
    \<and> (\<forall>m. rq_budget request = ExaminedEdges m \<longrightarrow> rs_examined_edges response \<le> m)
    \<and> rs_finalized_nodes response \<le> length (cg_nodes records)
    \<and> cd_relaxation_updates diagnostics \<le> rs_examined_edges response
    \<and> (\<forall>sz estimate. estimate_cpu_working_set sz img request = Inr estimate \<longrightarrow>
         cd_frontier_high_water_mark diagnostics \<le> we_frontier_entries estimate)"
proof -
  note comp = compile_compiled_from [OF assms(1)]
  note C = compiled_facts [OF comp] and ids = valid_records_ids [OF compiled_facts(2) [OF comp]]
  from routed_response(2) [OF comp assms(2,3)] obtain origin where
    ok: "response_ok (image_graph img (rq_profile request)) (image_topology img) env request origin (response, diagnostics)"
    by blast
  have n: "image_node_count img = length (cg_nodes records)" "image_adjacency_count img = length (cg_edges records)"
    using ids(3,7) C(4) by (simp_all add: C(3) image_adjacency_count_def image_of_fields)
  have "we_frontier_entries estimate = length (cg_edges records) + 1"
    if "estimate_cpu_working_set sz img request = Inr estimate" for sz estimate
    using that n(2)
    by (auto simp: estimate_cpu_working_set_def estimate_topology_working_set_def Let_def
        checked_add_Some_iff elim!: rbind_InrE)
  with ok n show ?thesis by (auto simp: response_ok_def)
qed

theorem route_counters_bounded_witness:
  "\<exists>response diagnostics. route_controlled example_env example_image example_request = Inr (response, diagnostics)
     \<and> rs_examined_edges response \<le> 1 \<and> rs_finalized_nodes response \<le> 3"
proof -
  obtain response diagnostics r e p u where "example_outcome response diagnostics r e p u"
    by (rule example_route)
  note x = example_outcomeD [OF this]
  from route_counters_bounded [OF example_compiles [of None] example_profile(1) x(1)] x show ?thesis
    by (auto simp: example_records_def)
qed

text \<open>
  C4: Without a budget and without cancellation, \<^verbatim>\<open>route\<close> settles every destination: it is
  exact, with a path when paths are requested, precisely when some walk of enabled edges
  reaches it, missing precisely when it is no confirmed node, and unreachable otherwise; the
  search ends because all destinations are final or the frontier is exhausted.
\<close>

theorem route_settles:
  assumes "compile_routing_image_impl reserve records limit = Inr img"
    and "profile_multipliers_ok (rq_profile request)" "rq_budget request = Unlimited"
    and "route granted img request = Inr response" "r \<in> set (rs_results response)"
  shows "((\<exists>e. dr_state r = Exact e \<and> (rq_return_paths request \<longleftrightarrow> xr_path e \<noteq> None)) \<longleftrightarrow>
      (\<exists>c. f64_walk (record_edge records (rq_profile request)) (rq_origin request) (dr_destination r) c))
    \<and> (dr_state r = MissingNode \<longleftrightarrow> dr_destination r \<notin> nr_id ` set (cg_nodes records))
    \<and> dr_state r \<noteq> Incomplete
    \<and> rs_completion_reason response \<in> {AllDestinationsFinalized, FrontierExhausted}"
proof -
  let ?env = "\<lparr>env_cancelled = (\<lambda>_. False), env_reserve = granted\<rparr>"
  obtain diagnostics where route: "route_controlled ?env img request = Inr (response, diagnostics)"
    using assms(4) by (auto simp: route_def elim!: rbind_InrE)
  have nc: "\<not> env_cancelled ?env n" for n by simp
  note S = settled_states [OF compile_compiled_from [OF assms(1)] assms(2) route assms(5) nc assms(3)]
  show ?thesis using S(1,3,4,5) S(2) by blast
qed

theorem route_settles_witness:
  "\<exists>response r e. route grant_all example_image example_request = Inr response
     \<and> r \<in> set (rs_results response) \<and> dr_state r = Exact e \<and> xr_path e \<noteq> None"
proof -
  obtain response diagnostics r e p u where "example_outcome response diagnostics r e p u"
    by (rule example_route)
  note x = example_outcomeD [OF this]
  have "route grant_all example_image example_request = Inr response"
    using x(1) by (simp add: route_def example_env_def grant_all_def)
  from route_settles [OF example_compiles [of None] example_profile(1) _ this x(2)] this x show ?thesis
    by (auto simp: example_request_def)
qed

section \<open>Witnesses of the compiler's properties\<close>

theorem compile_exact_witness:
  "compile_routing_image_with_limit grant_all example_records 200 = Inr example_image"
proof -
  have "grant_all s n" for s n by (simp add: grant_all_def)
  from compile_exact [of grant_all, OF this] show ?thesis
    using example_valid example_fit [of "Some 200"] by (simp add: example_image_def)
qed

theorem compile_represents_witness:
  "image_node_count example_image = 3 \<and> image_adjacency_count example_image = 1 \<and> image_dense_node_id example_image (NodeId 4) = None
   \<and> (\<exists>d es. image_dense_node_id example_image (NodeId 1) = Some d \<and> image_external_node_id example_image d = Some (NodeId 1)
        \<and> image_outgoing_edges example_image d = Some (Inr es :: compile_error fault + outgoing_edge list)
        \<and> map (\<lambda>oe. (oe_edge_id oe, image_external_node_id example_image (oe_destination oe))) es = [(EdgeId 1, Some (NodeId 2))])"
proof -
  have "compile_routing_image_impl grant_all example_records None = Inr example_image" using example_compiles [of None] by simp
  note C = compile_represents [OF this]
  have n: "NodeId 1 \<in> set (map nr_id (cg_nodes example_records))" "NodeId 4 \<notin> nr_id ` set (cg_nodes example_records)"
      "length (cg_nodes example_records) = 3" "length (cg_edges example_records) = 1"
    by (simp_all add: example_records_def example_node_def)
  have e: "edges_from example_records (NodeId 1) = cg_edges example_records" by (simp add: edges_from_def example_records_def)
  have "\<exists>d es. image_dense_node_id example_image (NodeId 1) = Some d \<and> image_external_node_id example_image d = Some (NodeId 1)
      \<and> image_outgoing_edges example_image d = Some (Inr es :: compile_error fault + outgoing_edge list)
      \<and> map (\<lambda>oe. (oe_edge_id oe, image_external_node_id example_image (oe_destination oe), oe_relation_id oe, oe_base_weight oe)) es
        = map (\<lambda>e. (er_id e, Some (er_destination e), er_relation_kind e, er_base_weight e)) (cg_edges example_records)"
    using C [THEN conjunct2, THEN conjunct2, THEN conjunct2, THEN conjunct2, THEN conjunct2, THEN conjunct2, THEN conjunct2, THEN bspec, OF n(1)]
    unfolding e .
  then have "\<exists>d es. image_dense_node_id example_image (NodeId 1) = Some d \<and> image_external_node_id example_image d = Some (NodeId 1)
      \<and> image_outgoing_edges example_image d = Some (Inr es :: compile_error fault + outgoing_edge list)
      \<and> map (\<lambda>oe. (oe_edge_id oe, image_external_node_id example_image (oe_destination oe))) es = [(EdgeId 1, Some (NodeId 2))]"
    by (elim exE) (auto simp: example_records_def)
  with C n show ?thesis by simp
qed

end
