(* ===== verification/Store_Codec.thy ===== *)
theory Store_Codec
  imports Core_Model "HOL-Library.List_Lexorder"
begin

text \<open>
  \<^verbatim>\<open>pathhydra-store/src/codec.rs\<close>: the byte formats of every durable key and record. The reader
  is a byte string with a position; every decoder consumes the whole input or fails. The round
  trips show that what the store writes it reads back, and the key lemmas show that the
  bytewise key order of the database is the order the code relies on.
\<close>

unbundle bit_operations_syntax

section \<open>Big-endian integers and UTF-8\<close>

fun be_encode :: "nat \<Rightarrow> nat \<Rightarrow> bytes" where
  "be_encode 0 n = []"
| "be_encode (Suc k) n = be_encode k (n div 256) @ [word_of_nat (n mod 256)]"

definition be_decode :: "bytes \<Rightarrow> nat" where
  "be_decode bs = foldl (\<lambda>a b. a * 256 + unat b) 0 bs"

definition u64_to_be_bytes :: "u64 \<Rightarrow> bytes" where
  "u64_to_be_bytes v = be_encode 8 (unat v)"

definition u32_to_be_bytes :: "u32 \<Rightarrow> bytes" where
  "u32_to_be_bytes v = be_encode 4 (unat v)"

definition u64_from_be_bytes :: "bytes \<Rightarrow> u64" where
  "u64_from_be_bytes bs = word_of_nat (be_decode bs)"

definition u32_from_be_bytes :: "bytes \<Rightarrow> u32" where
  "u32_from_be_bytes bs = word_of_nat (be_decode bs)"

text \<open>\<^verbatim>\<open>std::str::from_utf8\<close>: the well-formed byte sequences of the Unicode standard.\<close>

definition utf8_cont :: "u8 \<Rightarrow> bool" where
  "utf8_cont b \<longleftrightarrow> 0x80 \<le> b \<and> b \<le> 0xBF"

fun utf8_valid :: "bytes \<Rightarrow> bool" where
  "utf8_valid [] = True"
| "utf8_valid (b # bs) =
     (if b \<le> 0x7F then utf8_valid bs
      else if 0xC2 \<le> b \<and> b \<le> 0xDF then
        (case bs of c # cs \<Rightarrow> utf8_cont c \<and> utf8_valid cs | _ \<Rightarrow> False)
      else if 0xE0 \<le> b \<and> b \<le> 0xEF then
        (case bs of c # d # cs \<Rightarrow>
           (if b = 0xE0 then 0xA0 \<le> c \<and> c \<le> 0xBF
            else if b = 0xED then 0x80 \<le> c \<and> c \<le> 0x9F else utf8_cont c)
           \<and> utf8_cont d \<and> utf8_valid cs
         | _ \<Rightarrow> False)
      else if 0xF0 \<le> b \<and> b \<le> 0xF4 then
        (case bs of c # d # e # cs \<Rightarrow>
           (if b = 0xF0 then 0x90 \<le> c \<and> c \<le> 0xBF
            else if b = 0xF4 then 0x80 \<le> c \<and> c \<le> 0x8F else utf8_cont c)
           \<and> utf8_cont d \<and> utf8_cont e \<and> utf8_valid cs
         | _ \<Rightarrow> False)
      else False)"

section \<open>The reader\<close>

datatype codec_error =
    Truncated
  | TrailingGarbage
  | InvalidLength u32
  | InvalidUtf8
  | InvalidCandidateKind u8
  | InvalidCandidateReferenceKind u8
  | CodecInvalidBaseWeight u32
  | IdMismatch u64 u64
  | CodecNameTooLong nat
  | CodecPayloadTooLong nat

record reader =
  rd_bytes :: bytes
  rd_position :: nat

definition reader_new :: "bytes \<Rightarrow> reader" where
  "reader_new bs = \<lparr>rd_bytes = bs, rd_position = 0\<rparr>"

definition reader_byte :: "reader \<Rightarrow> codec_error + (u8 \<times> reader)" where
  "reader_byte r =
     rbind (ok_or (get (rd_bytes r) (rd_position r)) Truncated) (\<lambda>v.
       Inr (v, r\<lparr>rd_position := rd_position r + 1\<rparr>))"

definition reader_take :: "nat \<Rightarrow> reader \<Rightarrow> codec_error + (bytes \<times> reader)" where
  "reader_take n r =
     rbind (ok_or (checked_add (rd_position r) n) Truncated) (\<lambda>end.
       if end \<le> length (rd_bytes r)
       then Inr (take n (drop (rd_position r) (rd_bytes r)), r\<lparr>rd_position := end\<rparr>)
       else Inl Truncated)"

definition reader_u32 :: "reader \<Rightarrow> codec_error + (u32 \<times> reader)" where
  "reader_u32 r = rbind (reader_take 4 r) (\<lambda>(bs, r). Inr (u32_from_be_bytes bs, r))"

definition reader_u64 :: "reader \<Rightarrow> codec_error + (u64 \<times> reader)" where
  "reader_u64 r = rbind (reader_take 8 r) (\<lambda>(bs, r). Inr (u64_from_be_bytes bs, r))"

definition reader_bytes :: "reader \<Rightarrow> codec_error + (bytes \<times> reader)" where
  "reader_bytes r = rbind (reader_u32 r) (\<lambda>(n, r). reader_take (unat n) r)"

definition reader_payload :: "reader \<Rightarrow> codec_error + (node_payload \<times> reader)" where
  "reader_payload r = rbind (reader_bytes r) (\<lambda>(bs, r).
     if length bs > MAX_NODE_PAYLOAD_BYTES then Inl (CodecPayloadTooLong (length bs))
     else Inr (NodePayload bs, r))"

definition reader_string :: "reader \<Rightarrow> codec_error + (bytes \<times> reader)" where
  "reader_string r = rbind (reader_bytes r) (\<lambda>(bs, r).
     if utf8_valid bs then Inr (bs, r) else Inl InvalidUtf8)"

definition reader_weight :: "reader \<Rightarrow> codec_error + (base_weight \<times> reader)" where
  "reader_weight r = rbind (reader_u32 r) (\<lambda>(bits, r).
     rbind (map_err (\<lambda>_. CodecInvalidBaseWeight bits) (base_weight_from_bits bits)) (\<lambda>w.
       Inr (w, r)))"

definition reader_finish :: "reader \<Rightarrow> codec_error + unit" where
  "reader_finish r =
     (if rd_position r = length (rd_bytes r) then Inr () else Inl TrailingGarbage)"

definition checked_id :: "u64 \<Rightarrow> reader \<Rightarrow> codec_error + (u64 \<times> reader)" where
  "checked_id expected r = rbind (reader_u64 r) (\<lambda>(found, r).
     if found = expected then Inr (found, r) else Inl (IdMismatch expected found))"

section \<open>Encoders\<close>

definition push_bytes :: "bytes \<Rightarrow> bytes \<Rightarrow> codec_error + bytes" where
  "push_bytes out v =
     (if length v > MAX_NODE_PAYLOAD_BYTES then Inl (CodecPayloadTooLong (length v))
      else if length v > U32_MAX then Inl (CodecPayloadTooLong (length v))
      else Inr (out @ u32_to_be_bytes (word_of_nat (length v)) @ v))"

definition push_string :: "bytes \<Rightarrow> bytes \<Rightarrow> codec_error + bytes" where
  "push_string out v =
     (if length v > U32_MAX then Inl (CodecNameTooLong (length v))
      else Inr (out @ u32_to_be_bytes (word_of_nat (length v)) @ v))"

definition encode_id_key :: "u64 \<Rightarrow> bytes" where
  "encode_id_key i = u64_to_be_bytes i"

definition encode_u64_record :: "u64 \<Rightarrow> bytes" where
  "encode_u64_record v = u64_to_be_bytes v"

definition encode_adjacency_key :: "node_id \<Rightarrow> edge_id \<Rightarrow> bytes" where
  "encode_adjacency_key n e =
     u64_to_be_bytes (node_id_as_u64 n) @ u64_to_be_bytes (edge_id_as_u64 e)"

definition encode_adjacency_value :: "edge_id \<Rightarrow> bytes" where
  "encode_adjacency_value e = encode_u64_record (edge_id_as_u64 e)"

definition encode_name_key :: "bytes \<Rightarrow> codec_error + bytes" where
  "encode_name_key name = push_string [] name"

fun encode_node_reference :: "bytes \<Rightarrow> candidate_node_reference \<Rightarrow> bytes" where
  "encode_node_reference out (NodeConfirmed i) = out @ [1] @ u64_to_be_bytes (node_id_as_u64 i)"
| "encode_node_reference out (NodeCandidate i) =
     out @ [2] @ u64_to_be_bytes (candidate_id_as_u64 i)"

fun encode_relation_reference :: "bytes \<Rightarrow> candidate_relation_reference \<Rightarrow> bytes" where
  "encode_relation_reference out (RelationConfirmed i) =
     out @ [1] @ u64_to_be_bytes (relation_id_as_u64 i)"
| "encode_relation_reference out (RelationCandidate i) =
     out @ [2] @ u64_to_be_bytes (candidate_id_as_u64 i)"

fun encode_candidate :: "candidate \<Rightarrow> codec_error + bytes" where
  "encode_candidate (CandidateNode i name payload count) =
     (let out = [1] @ u64_to_be_bytes (candidate_id_as_u64 i) in
      rbind (push_string out (node_name_as_str name)) (\<lambda>out.
      rbind (push_bytes out (payload_as_bytes payload)) (\<lambda>out.
      Inr (out @ u64_to_be_bytes count))))"
| "encode_candidate (CandidateRelation i name count) =
     (let out = [2] @ u64_to_be_bytes (candidate_id_as_u64 i) in
      rbind (push_string out (relation_name_as_str name)) (\<lambda>out.
      Inr (out @ u64_to_be_bytes count)))"
| "encode_candidate (CandidateEdge i source destination relation_kind weight) =
     (let out = [3] @ u64_to_be_bytes (candidate_id_as_u64 i);
          out = encode_node_reference out source;
          out = encode_node_reference out destination;
          out = encode_relation_reference out relation_kind in
      Inr (out @ u32_to_be_bytes (base_weight_bits weight)))"

definition encode_node :: "node_record \<Rightarrow> codec_error + bytes" where
  "encode_node n =
     (let out = u64_to_be_bytes (node_id_as_u64 (nr_id n)) in
      rbind (push_string out (node_name_as_str (nr_name n))) (\<lambda>out.
      push_bytes out (payload_as_bytes (nr_payload n))))"

definition encode_named_record :: "u64 \<Rightarrow> bytes \<Rightarrow> codec_error + bytes" where
  "encode_named_record i name = push_string (u64_to_be_bytes i) name"

definition encode_relation :: "relation_record \<Rightarrow> codec_error + bytes" where
  "encode_relation r =
     rbind (encode_named_record (relation_id_as_u64 (rr_id r)) (relation_name_as_str (rr_name r)))
       (\<lambda>out. Inr (out @ u64_to_be_bytes (rr_provisional_reference_count r)
         @ u64_to_be_bytes (rr_confirmed_edge_count r)))"

definition encode_edge :: "edge_record \<Rightarrow> bytes" where
  "encode_edge e =
     u64_to_be_bytes (edge_id_as_u64 (er_id e)) @ u64_to_be_bytes (node_id_as_u64 (er_source e))
     @ u64_to_be_bytes (node_id_as_u64 (er_destination e))
     @ u64_to_be_bytes (relation_id_as_u64 (er_relation_kind e))
     @ u32_to_be_bytes (base_weight_bits (er_base_weight e))"

definition encode_popularity_key :: "relation_record \<Rightarrow> codec_error + bytes" where
  "encode_popularity_key r =
     rbind (ok_or (total_reference_count r) (InvalidLength (- 1))) (\<lambda>total.
       Inr (u64_to_be_bytes (NOT total) @ u64_to_be_bytes (NOT (rr_confirmed_edge_count r))
         @ u64_to_be_bytes (relation_id_as_u64 (rr_id r))))"

section \<open>Decoders\<close>

definition decode_id_key :: "bytes \<Rightarrow> codec_error + u64" where
  "decode_id_key bs = rbind (reader_u64 (reader_new bs)) (\<lambda>(v, r).
     rbind (reader_finish r) (\<lambda>_. Inr v))"

definition decode_u64_record :: "bytes \<Rightarrow> codec_error + u64" where
  "decode_u64_record bs = decode_id_key bs"

definition decode_adjacency_key :: "bytes \<Rightarrow> codec_error + (node_id \<times> edge_id)" where
  "decode_adjacency_key bs = rbind (reader_u64 (reader_new bs)) (\<lambda>(n, r).
     rbind (reader_u64 r) (\<lambda>(e, r).
     rbind (reader_finish r) (\<lambda>_. Inr (NodeId n, EdgeId e))))"

definition decode_adjacency_value :: "bytes \<Rightarrow> edge_id \<Rightarrow> codec_error + unit" where
  "decode_adjacency_value bs expected = rbind (decode_u64_record bs) (\<lambda>found.
     if found = edge_id_as_u64 expected then Inr ()
     else Inl (IdMismatch (edge_id_as_u64 expected) found))"

definition decode_name_key :: "bytes \<Rightarrow> codec_error + bytes" where
  "decode_name_key bs = rbind (reader_string (reader_new bs)) (\<lambda>(name, r).
     rbind (reader_finish r) (\<lambda>_. Inr name))"

definition decode_node_reference :: "reader \<Rightarrow> codec_error + (candidate_node_reference \<times> reader)" where
  "decode_node_reference r = rbind (reader_byte r) (\<lambda>(kind, r).
     if kind = 1 then rbind (reader_u64 r) (\<lambda>(i, r). Inr (NodeConfirmed (NodeId i), r))
     else if kind = 2 then rbind (reader_u64 r) (\<lambda>(i, r). Inr (NodeCandidate (CandidateId i), r))
     else Inl (InvalidCandidateReferenceKind kind))"

definition decode_relation_reference ::
    "reader \<Rightarrow> codec_error + (candidate_relation_reference \<times> reader)" where
  "decode_relation_reference r = rbind (reader_byte r) (\<lambda>(kind, r).
     if kind = 1 then rbind (reader_u64 r) (\<lambda>(i, r). Inr (RelationConfirmed (RelationId i), r))
     else if kind = 2 then
       rbind (reader_u64 r) (\<lambda>(i, r). Inr (RelationCandidate (CandidateId i), r))
     else Inl (InvalidCandidateReferenceKind kind))"

definition decode_candidate :: "bytes \<Rightarrow> u64 \<Rightarrow> codec_error + candidate" where
  "decode_candidate bs expected = rbind (reader_byte (reader_new bs)) (\<lambda>(kind, r).
     rbind (checked_id expected r) (\<lambda>(i, r).
     rbind
       (if kind = 1 then
          rbind (reader_string r) (\<lambda>(name, r).
          rbind (reader_payload r) (\<lambda>(payload, r).
          rbind (reader_u64 r) (\<lambda>(count, r).
          Inr (CandidateNode (CandidateId i) (NodeName name) payload count, r))))
        else if kind = 2 then
          rbind (reader_string r) (\<lambda>(name, r).
          rbind (reader_u64 r) (\<lambda>(count, r).
          Inr (CandidateRelation (CandidateId i) (RelationName name) count, r)))
        else if kind = 3 then
          rbind (decode_node_reference r) (\<lambda>(source, r).
          rbind (decode_node_reference r) (\<lambda>(destination, r).
          rbind (decode_relation_reference r) (\<lambda>(relation_kind, r).
          rbind (reader_weight r) (\<lambda>(weight, r).
          Inr (CandidateEdge (CandidateId i) source destination relation_kind weight, r)))))
        else Inl (InvalidCandidateKind kind)) (\<lambda>(candidate, r).
     rbind (reader_finish r) (\<lambda>_. Inr candidate))))"

definition decode_node :: "bytes \<Rightarrow> u64 \<Rightarrow> codec_error + node_record" where
  "decode_node bs expected = rbind (checked_id expected (reader_new bs)) (\<lambda>(i, r).
     rbind (reader_string r) (\<lambda>(name, r).
     rbind (reader_payload r) (\<lambda>(payload, r).
     rbind (reader_finish r) (\<lambda>_.
     Inr \<lparr>nr_id = NodeId i, nr_name = NodeName name, nr_payload = payload\<rparr>))))"

definition decode_relation :: "bytes \<Rightarrow> u64 \<Rightarrow> codec_error + relation_record" where
  "decode_relation bs expected = rbind (checked_id expected (reader_new bs)) (\<lambda>(i, r).
     rbind (reader_string r) (\<lambda>(name, r).
     rbind (reader_u64 r) (\<lambda>(provisional, r).
     rbind (reader_u64 r) (\<lambda>(confirmed, r).
     rbind (reader_finish r) (\<lambda>_.
     rbind (ok_or (checked_add_u64 provisional confirmed) (InvalidLength (- 1))) (\<lambda>_.
     Inr (relation_record_with_usage (RelationId i) (RelationName name) provisional confirmed)))))))"

definition decode_edge :: "bytes \<Rightarrow> u64 \<Rightarrow> codec_error + edge_record" where
  "decode_edge bs expected = rbind (checked_id expected (reader_new bs)) (\<lambda>(i, r).
     rbind (reader_u64 r) (\<lambda>(source, r).
     rbind (reader_u64 r) (\<lambda>(destination, r).
     rbind (reader_u64 r) (\<lambda>(relation_kind, r).
     rbind (reader_weight r) (\<lambda>(weight, r).
     rbind (reader_finish r) (\<lambda>_.
     Inr \<lparr>er_id = EdgeId i, er_source = NodeId source, er_destination = NodeId destination,
          er_relation_kind = RelationId relation_kind, er_base_weight = weight\<rparr>))))))"

definition decode_popularity_key :: "bytes \<Rightarrow> codec_error + (u64 \<times> u64 \<times> relation_id)" where
  "decode_popularity_key bs = rbind (reader_u64 (reader_new bs)) (\<lambda>(total, r).
     rbind (reader_u64 r) (\<lambda>(confirmed, r).
     rbind (reader_u64 r) (\<lambda>(i, r).
     rbind (reader_finish r) (\<lambda>_. Inr (NOT total, NOT confirmed, RelationId i)))))"

section \<open>Integers: round trip and order\<close>

lemma length_be_encode [simp]: "length (be_encode k n) = k"
  by (induction k n rule: be_encode.induct) simp_all

lemma length_to_be_bytes [simp]:
  "length (u64_to_be_bytes v) = 8" "length (u32_to_be_bytes w) = 4"
  by (simp_all add: u64_to_be_bytes_def u32_to_be_bytes_def)

lemma be_decode_snoc: "be_decode (bs @ [b]) = be_decode bs * 256 + unat b"
  by (simp add: be_decode_def)

lemma be_decode_encode: "be_decode (be_encode k n) = n mod 256 ^ k"
proof (induction k n rule: be_encode.induct)
  case (1 n)
  show ?case by (simp add: be_decode_def)
next
  case (2 k n)
  have "unat (word_of_nat (n mod 256) :: u8) = n mod 256" by (simp add: unat_of_nat)
  with "2.IH" show ?case
    by (simp add: be_decode_snoc mod_mult2_eq [of n 256])
qed

lemma be_encode_decode: "length bs = k \<Longrightarrow> be_encode k (be_decode bs) = bs"
proof (induction bs arbitrary: k rule: rev_induct)
  case Nil
  then show ?case by (simp add: be_decode_def)
next
  case (snoc b bs)
  have "unat b < 2 ^ 8" using unsigned_less [of b] by simp
  with snoc show ?case by (cases k) (simp_all add: be_decode_snoc)
qed

lemma be_decode_less: "be_decode bs < 256 ^ length bs"
  using be_decode_encode [of "length bs" "be_decode bs"] be_encode_decode [of bs "length bs"]
  by (metis mod_less_divisor zero_less_numeral zero_less_power)

lemma u64_be_roundtrip [simp]: "u64_from_be_bytes (u64_to_be_bytes v) = v"
proof -
  have "unat v < 2 ^ 64" using unsigned_less [of v] by simp
  then show ?thesis by (simp add: u64_from_be_bytes_def u64_to_be_bytes_def be_decode_encode)
qed

lemma u32_be_roundtrip [simp]: "u32_from_be_bytes (u32_to_be_bytes v) = v"
proof -
  have "unat v < 2 ^ 32" using unsigned_less [of v] by simp
  then show ?thesis by (simp add: u32_from_be_bytes_def u32_to_be_bytes_def be_decode_encode)
qed

lemma u64_be_inverse: "length bs = 8 \<Longrightarrow> u64_to_be_bytes (u64_from_be_bytes bs) = bs"
  using be_decode_less [of bs]
  by (simp add: u64_from_be_bytes_def u64_to_be_bytes_def unat_of_nat be_encode_decode)

lemma u32_be_inverse: "length bs = 4 \<Longrightarrow> u32_to_be_bytes (u32_from_be_bytes bs) = bs"
  using be_decode_less [of bs]
  by (simp add: u32_from_be_bytes_def u32_to_be_bytes_def unat_of_nat be_encode_decode)

text \<open>The database compares keys bytewise; on keys of one length that is lexicographic order of
  their parts.\<close>

lemma less_append_same_length:
  fixes xs ys us vs :: "'a::linorder list"
  assumes "length xs = length ys"
  shows "xs @ us < ys @ vs \<longleftrightarrow> xs < ys \<or> xs = ys \<and> us < vs"
  using assms by (induction xs ys rule: list_induct2) auto

lemma lex_less_iff:
  fixes a b c d k :: nat
  assumes "b < k" "d < k"
  shows "a * k + b < c * k + d \<longleftrightarrow> a < c \<or> a = c \<and> b < d"
proof (cases a c rule: linorder_cases)
  case less
  then have "(a + 1) * k \<le> c * k" by (intro mult_le_mono1) simp
  with less assms show ?thesis by simp
next
  case greater
  then have "(c + 1) * k \<le> a * k" by (intro mult_le_mono1) simp
  with greater assms show ?thesis by simp
qed simp

lemma be_encode_less_iff:
  "m < 256 ^ k \<Longrightarrow> n < 256 ^ k \<Longrightarrow> be_encode k m < be_encode k n \<longleftrightarrow> m < n"
proof (induction k arbitrary: m n)
  case 0
  then show ?case by simp
next
  case (Suc k)
  have bounds: "m div 256 < 256 ^ k" "n div 256 < 256 ^ k"
    using Suc.prems by (simp_all add: less_mult_imp_div_less mult.commute)
  have IH: "be_encode k (m div 256) < be_encode k (n div 256) \<longleftrightarrow> m div 256 < n div 256"
    using bounds by (rule Suc.IH)
  have eq: "be_encode k (m div 256) = be_encode k (n div 256) \<longleftrightarrow> m div 256 = n div 256"
    using bounds be_decode_encode by (metis mod_less)
  have "(word_of_nat (m mod 256) :: u8) < word_of_nat (n mod 256) \<longleftrightarrow> m mod 256 < n mod 256"
    by (simp add: word_less_nat_alt unat_of_nat)
  then have "be_encode (Suc k) m < be_encode (Suc k) n \<longleftrightarrow>
      m div 256 < n div 256 \<or> m div 256 = n div 256 \<and> m mod 256 < n mod 256"
    by (simp add: less_append_same_length IH eq)
  also have "\<dots> \<longleftrightarrow> m div 256 * 256 + m mod 256 < n div 256 * 256 + n mod 256"
    by (rule lex_less_iff [symmetric]) simp_all
  also have "\<dots> \<longleftrightarrow> m < n" by (simp only: div_mult_mod_eq)
  finally show ?case .
qed

lemma u64_be_less_iff: "u64_to_be_bytes a < u64_to_be_bytes b \<longleftrightarrow> a < b"
proof -
  have "unat a < 2 ^ 64" "unat b < 2 ^ 64" using unsigned_less [of a] unsigned_less [of b] by simp_all
  then show ?thesis by (simp add: u64_to_be_bytes_def be_encode_less_iff word_less_nat_alt)
qed

lemma u64_be_eq_iff [simp]: "u64_to_be_bytes a = u64_to_be_bytes b \<longleftrightarrow> a = b"
  by (metis u64_be_roundtrip)

lemma u32_be_eq_iff [simp]: "u32_to_be_bytes a = u32_to_be_bytes b \<longleftrightarrow> a = b"
  by (metis u32_be_roundtrip)

section \<open>The reader on a split input\<close>

text \<open>\<open>rdr pre rest\<close> is the reader of \<open>pre @ rest\<close> that has consumed \<open>pre\<close>. A slice is never
  longer than \<open>usize\<close> can count.\<close>

definition rdr :: "bytes \<Rightarrow> bytes \<Rightarrow> reader" where
  "rdr pre rest = \<lparr>rd_bytes = pre @ rest, rd_position = length pre\<rparr>"

definition addressable :: "bytes \<Rightarrow> bool" where
  "addressable bs \<longleftrightarrow> length bs \<le> U64_MAX"

named_theorems reader_simps \<open>the reader on a split input\<close>

lemma reader_new_rdr [reader_simps]: "reader_new bs = rdr [] bs"
  by (simp add: reader_new_def rdr_def)

lemma reader_finish_rdr [reader_simps]:
  "reader_finish (rdr pre rest) = (if rest = [] then Inr () else Inl TrailingGarbage)"
  by (simp add: reader_finish_def rdr_def)

lemma reader_take_rdr:
  assumes "addressable (pre @ rest)"
  shows "reader_take n (rdr pre rest) =
    (if n \<le> length rest then Inr (take n rest, rdr (pre @ take n rest) (drop n rest))
     else Inl Truncated)"
  using assms
  by (auto simp: reader_take_def rdr_def checked_add_def addressable_def min_def)

lemma reader_byte_rdr:
  "reader_byte (rdr pre rest) =
     (case rest of [] \<Rightarrow> Inl Truncated | b # bs \<Rightarrow> Inr (b, rdr (pre @ [b]) bs))"
  by (cases rest) (simp_all add: reader_byte_def rdr_def get_def nth_append)

lemma reader_byte_rdr_iff:
  "reader_byte (rdr pre rest) = Inr (b, r) \<longleftrightarrow> (\<exists>bs. rest = b # bs \<and> r = rdr (pre @ [b]) bs)"
  by (cases rest) (auto simp: reader_byte_rdr)

lemma reader_take_rdr_iff:
  assumes "addressable (pre @ rest)"
  shows "reader_take n (rdr pre rest) = Inr (v, r) \<longleftrightarrow>
    (\<exists>rest'. length v = n \<and> rest = v @ rest' \<and> r = rdr (pre @ v) rest')"
proof
  assume "reader_take n (rdr pre rest) = Inr (v, r)"
  then have "length v = n \<and> rest = v @ drop n rest \<and> r = rdr (pre @ v) (drop n rest)"
    using assms by (auto simp: reader_take_rdr split: if_splits)
  then show "\<exists>rest'. length v = n \<and> rest = v @ rest' \<and> r = rdr (pre @ v) rest'" by blast
next
  assume "\<exists>rest'. length v = n \<and> rest = v @ rest' \<and> r = rdr (pre @ v) rest'"
  then show "reader_take n (rdr pre rest) = Inr (v, r)"
    using assms by (auto simp: reader_take_rdr)
qed

text \<open>One equivalence per field reader: what it accepts is exactly an encoded field.\<close>

lemma reader_u64_rdr_iff:
  assumes "addressable (pre @ rest)"
  shows "reader_u64 (rdr pre rest) = Inr (w, r) \<longleftrightarrow>
    (\<exists>rest'. rest = u64_to_be_bytes w @ rest' \<and> r = rdr (pre @ u64_to_be_bytes w) rest')"
    (is "?L \<longleftrightarrow> ?R")
proof
  assume ?L
  then show ?R
    using u64_be_inverse by (auto simp: reader_u64_def rbind_Inr_iff reader_take_rdr_iff [OF assms])
next
  assume ?R
  then have "reader_take 8 (rdr pre rest) = Inr (u64_to_be_bytes w, r)"
    by (auto simp: reader_take_rdr_iff [OF assms])
  then show ?L by (simp add: reader_u64_def)
qed

lemma reader_u32_rdr_iff:
  assumes "addressable (pre @ rest)"
  shows "reader_u32 (rdr pre rest) = Inr (w, r) \<longleftrightarrow>
    (\<exists>rest'. rest = u32_to_be_bytes w @ rest' \<and> r = rdr (pre @ u32_to_be_bytes w) rest')"
    (is "?L \<longleftrightarrow> ?R")
proof
  assume ?L
  then show ?R
    using u32_be_inverse by (auto simp: reader_u32_def rbind_Inr_iff reader_take_rdr_iff [OF assms])
next
  assume ?R
  then have "reader_take 4 (rdr pre rest) = Inr (u32_to_be_bytes w, r)"
    by (auto simp: reader_take_rdr_iff [OF assms])
  then show ?L by (simp add: reader_u32_def)
qed

lemma reader_weight_rdr_iff:
  assumes "addressable (pre @ rest)"
  shows "reader_weight (rdr pre rest) = Inr (w, r) \<longleftrightarrow> base_weight_ok w \<and>
    (\<exists>rest'. rest = u32_to_be_bytes (base_weight_bits w) @ rest' \<and>
      r = rdr (pre @ u32_to_be_bytes (base_weight_bits w)) rest')"
    (is "?L \<longleftrightarrow> ?R")
proof
  assume ?L
  then show ?R by (auto simp: reader_weight_def rbind_Inr_iff reader_u32_rdr_iff [OF assms]
        base_weight_from_bits_Inr)
next
  assume R: ?R
  then have "reader_u32 (rdr pre rest) = Inr (base_weight_bits w, r)"
    by (auto simp: reader_u32_rdr_iff [OF assms])
  with R show ?L by (simp add: reader_weight_def rbind_Inr_iff base_weight_from_bits_Inr)
qed

text \<open>A counted byte string: its length in four bytes, then the bytes.\<close>

definition counted :: "bytes \<Rightarrow> bytes" where
  "counted v = u32_to_be_bytes (word_of_nat (length v)) @ v"

lemma reader_bytes_rdr_iff:
  assumes "addressable (pre @ rest)"
  shows "reader_bytes (rdr pre rest) = Inr (v, r) \<longleftrightarrow> length v \<le> U32_MAX \<and>
    (\<exists>rest'. rest = counted v @ rest' \<and> r = rdr (pre @ counted v) rest')"
    (is "?L \<longleftrightarrow> ?R")
proof
  assume ?L
  then obtain n rest1 rest2 where n: "rest = u32_to_be_bytes n @ rest1" "length v = unat n"
      "rest1 = v @ rest2" "r = rdr ((pre @ u32_to_be_bytes n) @ v) rest2"
    using assms by (auto simp: reader_bytes_def rbind_Inr_iff reader_u32_rdr_iff reader_take_rdr_iff)
  have "unat n < 2 ^ 32" using unsigned_less [of n] by simp
  with n show ?R by (auto simp: counted_def U32_MAX_def)
next
  assume R: ?R
  then have "unat (word_of_nat (length v) :: u32) = length v"
    by (auto simp: unat_of_nat U32_MAX_def)
  with R show ?L using assms
    by (auto simp: reader_bytes_def rbind_Inr_iff reader_u32_rdr_iff reader_take_rdr_iff counted_def)
qed

lemma reader_string_rdr_iff:
  assumes "addressable (pre @ rest)"
  shows "reader_string (rdr pre rest) = Inr (v, r) \<longleftrightarrow> utf8_valid v \<and> length v \<le> U32_MAX \<and>
    (\<exists>rest'. rest = counted v @ rest' \<and> r = rdr (pre @ counted v) rest')"
  by (auto simp: reader_string_def rbind_Inr_iff reader_bytes_rdr_iff [OF assms] split: if_splits)

lemma reader_payload_rdr_iff:
  assumes "addressable (pre @ rest)"
  shows "reader_payload (rdr pre rest) = Inr (p, r) \<longleftrightarrow>
    length (payload_as_bytes p) \<le> MAX_NODE_PAYLOAD_BYTES \<and>
    (\<exists>rest'. rest = counted (payload_as_bytes p) @ rest' \<and>
      r = rdr (pre @ counted (payload_as_bytes p)) rest')"
    (is "?L \<longleftrightarrow> ?R")
proof
  assume ?L
  then show ?R
    by (auto simp: reader_payload_def rbind_Inr_iff reader_bytes_rdr_iff [OF assms] split: if_splits)
next
  assume R: ?R
  then have "length (payload_as_bytes p) \<le> U32_MAX"
    by (simp add: MAX_NODE_PAYLOAD_BYTES_def U32_MAX_def)
  with R have "reader_bytes (rdr pre rest) = Inr (payload_as_bytes p, r)"
    by (auto simp: reader_bytes_rdr_iff [OF assms])
  with R show ?L by (simp add: reader_payload_def)
qed

lemma checked_id_rdr_iff:
  assumes "addressable (pre @ rest)"
  shows "checked_id i (rdr pre rest) = Inr (w, r) \<longleftrightarrow> w = i \<and>
    (\<exists>rest'. rest = u64_to_be_bytes i @ rest' \<and> r = rdr (pre @ u64_to_be_bytes i) rest')"
  by (auto simp: checked_id_def rbind_Inr_iff reader_u64_rdr_iff [OF assms] split: if_splits)

lemma push_string_eq: "push_string out v =
    (if length v \<le> U32_MAX then Inr (out @ counted v) else Inl (CodecNameTooLong (length v)))"
  by (simp add: push_string_def counted_def)

lemma push_bytes_eq: "push_bytes out v =
    (if length v \<le> MAX_NODE_PAYLOAD_BYTES then Inr (out @ counted v)
     else Inl (CodecPayloadTooLong (length v)))"
  by (auto simp: push_bytes_def counted_def MAX_NODE_PAYLOAD_BYTES_def U32_MAX_def)

lemmas reader_iffs = reader_byte_rdr_iff reader_u64_rdr_iff reader_u32_rdr_iff reader_weight_rdr_iff
  reader_string_rdr_iff reader_payload_rdr_iff checked_id_rdr_iff

text \<open>The same facts as rewriting equations, for running a decoder on an encoding.\<close>

lemma reader_u64_eq [reader_simps]:
  "addressable (pre @ u64_to_be_bytes w @ rest) \<Longrightarrow>
    reader_u64 (rdr pre (u64_to_be_bytes w @ rest)) = Inr (w, rdr (pre @ u64_to_be_bytes w) rest)"
  "addressable (pre @ u64_to_be_bytes w) \<Longrightarrow>
    reader_u64 (rdr pre (u64_to_be_bytes w)) = Inr (w, rdr (pre @ u64_to_be_bytes w) [])"
  by (simp_all add: reader_u64_rdr_iff)

lemma reader_weight_eq [reader_simps]:
  "base_weight_ok w \<Longrightarrow> addressable (pre @ u32_to_be_bytes (base_weight_bits w)) \<Longrightarrow>
    reader_weight (rdr pre (u32_to_be_bytes (base_weight_bits w))) =
      Inr (w, rdr (pre @ u32_to_be_bytes (base_weight_bits w)) [])"
  by (simp add: reader_weight_rdr_iff)

lemma reader_string_eq [reader_simps]:
  "utf8_valid v \<Longrightarrow> length v \<le> U32_MAX \<Longrightarrow> addressable (pre @ counted v @ rest) \<Longrightarrow>
    reader_string (rdr pre (counted v @ rest)) = Inr (v, rdr (pre @ counted v) rest)"
  "utf8_valid v \<Longrightarrow> length v \<le> U32_MAX \<Longrightarrow> addressable (pre @ counted v) \<Longrightarrow>
    reader_string (rdr pre (counted v)) = Inr (v, rdr (pre @ counted v) [])"
  by (simp_all add: reader_string_rdr_iff)

lemma reader_payload_eq [reader_simps]:
  "length v \<le> MAX_NODE_PAYLOAD_BYTES \<Longrightarrow> addressable (pre @ counted v @ rest) \<Longrightarrow>
    reader_payload (rdr pre (counted v @ rest)) = Inr (NodePayload v, rdr (pre @ counted v) rest)"
  "length v \<le> MAX_NODE_PAYLOAD_BYTES \<Longrightarrow> addressable (pre @ counted v) \<Longrightarrow>
    reader_payload (rdr pre (counted v)) = Inr (NodePayload v, rdr (pre @ counted v) [])"
  by (simp_all add: reader_payload_rdr_iff)

lemma checked_id_eq [reader_simps]:
  "addressable (pre @ u64_to_be_bytes i @ rest) \<Longrightarrow>
    checked_id i (rdr pre (u64_to_be_bytes i @ rest)) = Inr (i, rdr (pre @ u64_to_be_bytes i) rest)"
  by (simp add: checked_id_rdr_iff)

lemma reader_byte_eq [reader_simps]:
  "reader_byte (rdr pre (b # rest)) = Inr (b, rdr (pre @ [b]) rest)"
  by (simp add: reader_byte_rdr)

lemma decode_node_reference_eq [reader_simps]:
  "addressable (pre @ encode_node_reference [] ref @ rest) \<Longrightarrow>
    decode_node_reference (rdr pre (encode_node_reference [] ref @ rest)) =
      Inr (ref, rdr (pre @ encode_node_reference [] ref) rest)"
  by (cases ref) (simp_all add: decode_node_reference_def reader_simps)

lemma decode_relation_reference_eq [reader_simps]:
  "addressable (pre @ encode_relation_reference [] ref @ rest) \<Longrightarrow>
    decode_relation_reference (rdr pre (encode_relation_reference [] ref @ rest)) =
      Inr (ref, rdr (pre @ encode_relation_reference [] ref) rest)"
  by (cases ref) (simp_all add: decode_relation_reference_def reader_simps)

lemma decode_node_reference_rdrD:
  assumes "addressable (pre @ rest)" "decode_node_reference (rdr pre rest) = Inr (ref, r)"
  shows "\<exists>rest'. rest = encode_node_reference [] ref @ rest' \<and>
    r = rdr (pre @ encode_node_reference [] ref) rest'"
  using assms by (auto simp: decode_node_reference_def rbind_Inr_iff reader_iffs split: if_splits)

lemma decode_relation_reference_rdrD:
  assumes "addressable (pre @ rest)" "decode_relation_reference (rdr pre rest) = Inr (ref, r)"
  shows "\<exists>rest'. rest = encode_relation_reference [] ref @ rest' \<and>
    r = rdr (pre @ encode_relation_reference [] ref) rest'"
  using assms
  by (auto simp: decode_relation_reference_def rbind_Inr_iff reader_iffs split: if_splits)

lemma decode_reference_rdr_iff:
  assumes "addressable (pre @ rest)"
  shows "decode_node_reference (rdr pre rest) = Inr (ref, r) \<longleftrightarrow>
      (\<exists>rest'. rest = encode_node_reference [] ref @ rest' \<and>
        r = rdr (pre @ encode_node_reference [] ref) rest')"
    and "decode_relation_reference (rdr pre rest) = Inr (rel, r) \<longleftrightarrow>
      (\<exists>rest'. rest = encode_relation_reference [] rel @ rest' \<and>
        r = rdr (pre @ encode_relation_reference [] rel) rest')"
  using assms decode_node_reference_rdrD decode_relation_reference_rdrD
  by (auto simp: reader_simps)

lemma encode_reference_acc:
  "encode_node_reference out ref = out @ encode_node_reference [] ref"
  "encode_relation_reference out rel = out @ encode_relation_reference [] rel"
  by (cases ref; simp) (cases rel; simp)

section \<open>Every codec accepts exactly what its encoder writes\<close>

lemma addressable_u64 [simp]: "addressable (u64_to_be_bytes v)"
  by (simp add: addressable_def U64_MAX_def)

lemma decode_id_key_encode [simp]: "decode_id_key (encode_id_key v) = Inr v"
  by (simp add: decode_id_key_def encode_id_key_def reader_simps)

lemma decode_id_key_iff:
  assumes "addressable bs"
  shows "decode_id_key bs = Inr v \<longleftrightarrow> bs = encode_id_key v"
proof
  assume "decode_id_key bs = Inr v"
  with assms show "bs = encode_id_key v"
    by (auto simp: decode_id_key_def encode_id_key_def rbind_Inr_iff reader_new_rdr
        reader_finish_rdr reader_iffs split: if_splits)
qed simp

lemma decode_adjacency_value_encode: "decode_adjacency_value (encode_adjacency_value e) e = Inr ()"
  by (simp add: decode_adjacency_value_def encode_adjacency_value_def decode_u64_record_def
      encode_u64_record_def flip: encode_id_key_def)

text \<open>Well-formedness a candidate's fields have by their types.\<close>

fun candidate_ok :: "candidate \<Rightarrow> bool" where
  "candidate_ok (CandidateNode _ name _ _) = utf8_valid (node_name_as_str name)"
| "candidate_ok (CandidateRelation _ name _) = utf8_valid (relation_name_as_str name)"
| "candidate_ok (CandidateEdge _ _ _ _ weight) = base_weight_ok weight"

lemma node_codec:
  assumes "addressable bs"
  shows "decode_node bs i = Inr n \<longleftrightarrow>
    encode_node n = Inr bs \<and> nr_id n = NodeId i \<and> utf8_valid (node_name_as_str (nr_name n))"
  (is "?L \<longleftrightarrow> ?R")
proof
  assume ?L
  with assms show ?R
    by (auto simp: decode_node_def encode_node_def rbind_Inr_iff reader_new_rdr reader_finish_rdr
        reader_iffs push_string_eq push_bytes_eq split: if_splits)
next
  assume R: ?R
  obtain name payload where n: "n = \<lparr>nr_id = NodeId i, nr_name = NodeName name,
      nr_payload = NodePayload payload\<rparr>"
    using R by (cases n; cases "nr_name n"; cases "nr_payload n") auto
  with R assms show ?L
    by (auto simp: decode_node_def encode_node_def reader_simps push_string_eq push_bytes_eq
        split: if_splits)
qed

lemma relation_codec:
  assumes "addressable bs"
  shows "decode_relation bs i = Inr r \<longleftrightarrow>
    encode_relation r = Inr bs \<and> rr_id r = RelationId i
    \<and> utf8_valid (relation_name_as_str (rr_name r)) \<and> total_reference_count r \<noteq> None"
  (is "?L \<longleftrightarrow> ?R")
proof
  assume ?L
  with assms show ?R
    by (auto simp: decode_relation_def encode_relation_def encode_named_record_def rbind_Inr_iff
        reader_new_rdr reader_finish_rdr reader_iffs push_string_eq relation_record_with_usage_def
        total_reference_count_def split: if_splits)
next
  assume R: ?R
  obtain name p c where r: "r = relation_record_with_usage (RelationId i) (RelationName name) p c"
    using R by (cases r; cases "rr_name r") (auto simp: relation_record_with_usage_def)
  with R assms show ?L
    by (auto simp: decode_relation_def encode_relation_def encode_named_record_def reader_simps
        push_string_eq relation_record_with_usage_def total_reference_count_def split: if_splits)
qed

lemma edge_codec:
  assumes "addressable bs"
  shows "decode_edge bs i = Inr e \<longleftrightarrow>
    encode_edge e = bs \<and> er_id e = EdgeId i \<and> base_weight_ok (er_base_weight e)"
  (is "?L \<longleftrightarrow> ?R")
proof
  assume ?L
  with assms show ?R
    by (auto simp: decode_edge_def encode_edge_def rbind_Inr_iff reader_new_rdr reader_finish_rdr
        reader_iffs split: if_splits)
next
  assume R: ?R
  obtain s d k w where e: "e = \<lparr>er_id = EdgeId i, er_source = NodeId s, er_destination = NodeId d,
      er_relation_kind = RelationId k, er_base_weight = w\<rparr>"
    using R by (cases e; cases "er_source e"; cases "er_destination e"; cases "er_relation_kind e") auto
  with R assms show ?L
    by (auto simp: decode_edge_def encode_edge_def reader_simps)
qed

lemma candidate_codec:
  assumes "addressable bs"
  shows "decode_candidate bs i = Inr c \<longleftrightarrow>
    encode_candidate c = Inr bs \<and> candidate_id_of c = CandidateId i \<and> candidate_ok c"
  (is "?L \<longleftrightarrow> ?R")
proof
  assume ?L
  with assms show ?R
    by (auto simp: decode_candidate_def rbind_Inr_iff reader_new_rdr reader_finish_rdr reader_iffs
        push_string_eq push_bytes_eq encode_reference_acc(1) [of "_ # _"]
        encode_reference_acc(1) [of "_ @ _"] encode_reference_acc(2) [of "_ @ _"]
        encode_reference_acc(2) [of "_ # _"] decode_reference_rdr_iff split: if_splits)
next
  assume R: ?R
  show ?L
  proof (cases c)
    case (CandidateNode j name payload count)
    with R assms show ?thesis
      by (cases name; cases payload) (auto simp: decode_candidate_def reader_simps push_string_eq
          push_bytes_eq split: if_splits)
  next
    case (CandidateRelation j name count)
    with R assms show ?thesis
      by (cases name) (auto simp: decode_candidate_def reader_simps push_string_eq split: if_splits)
  next
    case (CandidateEdge j source destination relation weight)
    with R assms show ?thesis
      by (auto simp: decode_candidate_def reader_simps Let_def encode_reference_acc(1) [of "_ # _"]
        encode_reference_acc(1) [of "_ @ _"] encode_reference_acc(2) [of "_ @ _"]
        encode_reference_acc(2) [of "_ # _"])
  qed
qed

lemma decode_name_key_iff:
  assumes "addressable bs"
  shows "decode_name_key bs = Inr name \<longleftrightarrow> encode_name_key name = Inr bs \<and> utf8_valid name"
proof
  assume "decode_name_key bs = Inr name"
  with assms show "encode_name_key name = Inr bs \<and> utf8_valid name"
    by (auto simp: decode_name_key_def encode_name_key_def rbind_Inr_iff reader_new_rdr
        reader_finish_rdr reader_iffs push_string_eq split: if_splits)
next
  assume "encode_name_key name = Inr bs \<and> utf8_valid name"
  with assms show "decode_name_key bs = Inr name"
    by (auto simp: decode_name_key_def encode_name_key_def push_string_eq reader_simps split: if_splits)
qed

lemma decode_adjacency_key_iff:
  assumes "addressable bs"
  shows "decode_adjacency_key bs = Inr (n, e) \<longleftrightarrow> bs = encode_adjacency_key n e"
proof
  assume "decode_adjacency_key bs = Inr (n, e)"
  with assms show "bs = encode_adjacency_key n e"
    by (auto simp: decode_adjacency_key_def encode_adjacency_key_def rbind_Inr_iff reader_new_rdr
        reader_finish_rdr reader_iffs split: if_splits)
next
  assume "bs = encode_adjacency_key n e"
  with assms show "decode_adjacency_key bs = Inr (n, e)"
    by (cases n; cases e) (simp add: decode_adjacency_key_def encode_adjacency_key_def reader_simps)
qed

lemma decode_adjacency_value_iff:
  assumes "addressable bs"
  shows "decode_adjacency_value bs e = Inr () \<longleftrightarrow> bs = encode_adjacency_value e"
  using assms
  by (auto simp: decode_adjacency_value_def encode_adjacency_value_def decode_u64_record_def
      encode_u64_record_def rbind_Inr_iff decode_id_key_iff encode_id_key_def split: if_splits)

lemma decode_u64_record_encode [simp]: "decode_u64_record (encode_u64_record v) = Inr v"
  using decode_id_key_encode by (simp add: decode_u64_record_def encode_u64_record_def encode_id_key_def)

lemma decode_u64_record_iff: "addressable bs \<Longrightarrow> decode_u64_record bs = Inr v \<longleftrightarrow> bs = encode_u64_record v"
  by (simp add: decode_u64_record_def encode_u64_record_def decode_id_key_iff encode_id_key_def)

lemma decode_popularity_key_iff:
  assumes "addressable bs"
  shows "decode_popularity_key bs = Inr (t, c, r) \<longleftrightarrow>
    bs = u64_to_be_bytes (NOT t) @ u64_to_be_bytes (NOT c) @ u64_to_be_bytes (relation_id_as_u64 r)"
proof
  assume "decode_popularity_key bs = Inr (t, c, r)"
  with assms show "bs = u64_to_be_bytes (NOT t) @ u64_to_be_bytes (NOT c) @ u64_to_be_bytes (relation_id_as_u64 r)"
    by (auto simp: decode_popularity_key_def rbind_Inr_iff reader_new_rdr
        reader_finish_rdr reader_iffs split: if_splits)
next
  assume "bs = u64_to_be_bytes (NOT t) @ u64_to_be_bytes (NOT c) @ u64_to_be_bytes (relation_id_as_u64 r)"
  with assms show "decode_popularity_key bs = Inr (t, c, r)"
    by (cases r) (simp add: decode_popularity_key_def reader_simps)
qed

text \<open>Sample values, for evaluating the properties.\<close>

definition sample_relation :: relation_record where
  "sample_relation = relation_record_with_usage (RelationId 1) (RelationName [0x62]) 2 3"

definition sample_edge :: edge_record where
  "sample_edge = \<lparr>er_id = EdgeId 1, er_source = NodeId 2, er_destination = NodeId 3,
     er_relation_kind = RelationId 4, er_base_weight = BaseWeight f32_one\<rparr>"

definition sample_candidate :: candidate where
  "sample_candidate = CandidateEdge (CandidateId 1) (NodeConfirmed (NodeId 2)) (NodeCandidate (CandidateId 3))
     (RelationConfirmed (RelationId 4)) (BaseWeight f32_one)"

text \<open>
  C31: the edge decoder accepts exactly the encodings of edges with the key's identifier and a
  canonical base weight.
\<close>

theorem decode_edge_iff:
  assumes "addressable bs"
  shows "decode_edge bs i = Inr e \<longleftrightarrow>
    encode_edge e = bs \<and> er_id e = EdgeId i \<and> base_weight_ok (er_base_weight e)"
  using assms by (rule edge_codec)

theorem decode_edge_iff_witness:
  "decode_edge (encode_edge sample_edge) 1 = Inr sample_edge"
proof -
  have "addressable (encode_edge sample_edge)"
    by (simp add: encode_edge_def sample_edge_def addressable_def U64_MAX_def)
  from decode_edge_iff [OF this, of 1 sample_edge] show ?thesis
    by (simp add: sample_edge_def base_weight_ok_def)
qed

text \<open>
  C32: the candidate decoder accepts exactly the encodings of well-formed candidates of the
  three kinds with the key's identifier.
\<close>

theorem decode_candidate_iff:
  assumes "addressable bs"
  shows "decode_candidate bs i = Inr c \<longleftrightarrow>
    encode_candidate c = Inr bs \<and> candidate_id_of c = CandidateId i \<and> candidate_ok c"
  using assms by (rule candidate_codec)

theorem decode_candidate_iff_witness:
  "\<exists>bs. encode_candidate sample_candidate = Inr bs \<and> decode_candidate bs 1 = Inr sample_candidate"
proof -
  obtain bs where bs: "encode_candidate sample_candidate = Inr bs" "addressable bs"
    by (simp add: sample_candidate_def push_string_eq push_bytes_eq addressable_def U64_MAX_def U32_MAX_def counted_def MAX_NODE_PAYLOAD_BYTES_def)
  then show ?thesis using decode_candidate_iff [OF bs(2), of 1 sample_candidate]
    by (simp add: sample_candidate_def base_weight_ok_def)
qed

section \<open>Key order\<close>

text \<open>
  Adjacency keys sort by node first and edge second, so the database visits the edges of a
  node together and in edge order, and keys of different entries differ.
\<close>

theorem adjacency_key_order:
  "encode_adjacency_key n e < encode_adjacency_key n' e' \<longleftrightarrow> n < n' \<or> n = n' \<and> e < e'"
  by (cases n; cases n'; cases e; cases e')
    (auto simp: encode_adjacency_key_def less_append_same_length u64_be_less_iff id_order_defs)

lemma word_not_less_iff: "NOT a < NOT b \<longleftrightarrow> b < (a :: u64)"
proof -
  have le: "unat x \<le> unat (- 1 :: u64)" for x :: u64
    by (simp add: word_n1_ge flip: word_le_nat_alt)
  have "unat (NOT x) = unat (- 1 :: u64) - unat x" for x :: u64
  proof -
    have "NOT x = - 1 - x" by (simp add: not_eq_complement)
    then show ?thesis by (simp only: unat_sub [OF word_n1_ge])
  qed
  with le [of a] le [of b] show ?thesis by (simp only: word_less_nat_alt) linarith
qed

text \<open>
  Popularity keys sort by falling total use, then falling confirmed use, then rising
  identifier, so reading the index from its start lists the most used relation kinds first.
\<close>

theorem popularity_key_order:
  assumes "encode_popularity_key r = Inr k" "encode_popularity_key r' = Inr k'"
    and "total_reference_count r = Some t" "total_reference_count r' = Some t'"
  shows "k < k' \<longleftrightarrow> t > t' \<or> t = t' \<and> (rr_confirmed_edge_count r > rr_confirmed_edge_count r'
    \<or> rr_confirmed_edge_count r = rr_confirmed_edge_count r' \<and> rr_id r < rr_id r')"
  using assms
  by (auto simp: encode_popularity_key_def less_append_same_length u64_be_less_iff
      word_not_less_iff id_order_defs)

theorem popularity_key_order_witness:
  "\<exists>k k'. encode_popularity_key sample_relation = Inr k
     \<and> encode_popularity_key (relation_record_with_usage (RelationId 2) (RelationName []) 1 1) = Inr k' \<and> k < k'"
proof -
  let ?r = "relation_record_with_usage (RelationId 2) (RelationName []) 1 1"
  have t: "total_reference_count sample_relation = Some 5" "total_reference_count ?r = Some 2"
    by (simp_all add: sample_relation_def total_reference_count_def relation_record_with_usage_def checked_add_u64_def U64_MAX_def)
  then obtain k k' where k: "encode_popularity_key sample_relation = Inr k" "encode_popularity_key ?r = Inr k'"
    by (simp add: encode_popularity_key_def)
  from popularity_key_order [OF k t] k show ?thesis by auto
qed

end
