(* ===== verification/Ordered_Collections.thy ===== *)
theory Ordered_Collections
  imports Prelude
begin

text \<open>
  \<^verbatim>\<open>BTreeMap\<close> and \<^verbatim>\<open>BTreeSet\<close> of the Rust standard library. A map is its list of entries in
  ascending key order, which is what iteration visits; a set is the ascending list of its
  elements. What clients rely on is the locale \<open>ordered_map\<close>, interpreted on the entry lists.
\<close>

section \<open>Maps\<close>

lemma option_eqI: "(\<And>v. a = Some v \<longleftrightarrow> b = Some v) \<Longrightarrow> a = b"
  by (metis not_Some_eq)

type_synonym ('k, 'v) btree_map = "('k \<times> 'v) list"

definition btree_ok :: "('k::linorder, 'v) btree_map \<Rightarrow> bool" where
  "btree_ok m \<longleftrightarrow> sorted_wrt (<) (map fst m)"

definition btree_get :: "('k::linorder, 'v) btree_map \<Rightarrow> 'k \<Rightarrow> 'v option" where
  "btree_get m k = map_of m k"

fun btree_insert :: "'k::linorder \<Rightarrow> 'v \<Rightarrow> ('k, 'v) btree_map \<Rightarrow> ('k, 'v) btree_map" where
  "btree_insert k v [] = [(k, v)]"
| "btree_insert k v ((k', v') # m) =
     (if k < k' then (k, v) # (k', v') # m
      else if k = k' then (k, v) # m
      else (k', v') # btree_insert k v m)"

definition btree_retain :: "('k \<Rightarrow> 'v \<Rightarrow> bool) \<Rightarrow> ('k::linorder, 'v) btree_map \<Rightarrow> ('k, 'v) btree_map" where
  "btree_retain p m = filter (\<lambda>(k, v). p k v) m"

definition btree_remove :: "'k \<Rightarrow> ('k::linorder, 'v) btree_map \<Rightarrow> ('k, 'v) btree_map" where
  "btree_remove k m = btree_retain (\<lambda>k' _. k' \<noteq> k) m"

definition btree_extend :: "('k \<times> 'v) list \<Rightarrow> ('k::linorder, 'v) btree_map \<Rightarrow> ('k, 'v) btree_map" where
  "btree_extend kvs m = fold (\<lambda>(k, v). btree_insert k v) kvs m"

text \<open>The contract of an ordered map: lookup after each operation, and iteration in key order
  over exactly the entries.\<close>

locale ordered_map =
  fixes ok :: "'m \<Rightarrow> bool"
    and lookup :: "'m \<Rightarrow> 'k::linorder \<Rightarrow> 'v option"
    and insert :: "'k \<Rightarrow> 'v \<Rightarrow> 'm \<Rightarrow> 'm"
    and retain :: "('k \<Rightarrow> 'v \<Rightarrow> bool) \<Rightarrow> 'm \<Rightarrow> 'm"
    and entries :: "'m \<Rightarrow> ('k \<times> 'v) list"
  assumes insert_ok: "ok m \<Longrightarrow> ok (insert k v m)"
    and retain_ok: "ok m \<Longrightarrow> ok (retain p m)"
    and lookup_insert: "ok m \<Longrightarrow> lookup (insert k v m) = (lookup m)(k \<mapsto> v)"
    and lookup_retain: "ok m \<Longrightarrow>
      lookup (retain p m) k = (case lookup m k of None \<Rightarrow> None | Some v \<Rightarrow> if p k v then Some v else None)"
    and entries_sorted: "ok m \<Longrightarrow> sorted_wrt (<) (map fst (entries m))"
    and entries_lookup: "ok m \<Longrightarrow> (k, v) \<in> set (entries m) \<longleftrightarrow> lookup m k = Some v"
begin

lemma entries_distinct: "ok m \<Longrightarrow> distinct (map fst (entries m))"
  using entries_sorted [of m] by (simp add: strict_sorted_iff)

lemma map_of_entries: "ok m \<Longrightarrow> map_of (entries m) = lookup m"
  using entries_distinct [of m] entries_lookup [of m]
  by (intro ext) (metis map_of_SomeD map_of_eq_Some_iff not_Some_eq)

text \<open>Iteration depends only on what is stored, not on how it got there.\<close>

lemma entries_determined:
  assumes "ok m" "ok m'" "lookup m = lookup m'"
  shows "entries m = entries m'"
proof -
  have mem: "set (entries m) = set (entries m')" using assms entries_lookup by auto
  have keys: "map fst (entries m) = map fst (entries m')"
  proof (rule sorted_distinct_set_unique)
    show "set (map fst (entries m)) = set (map fst (entries m'))" using mem by (metis set_map)
  qed (use assms entries_sorted [of m] entries_sorted [of m'] in \<open>simp_all add: strict_sorted_iff\<close>)
  have "entries m = map (\<lambda>k. (k, the (map_of (entries m) k))) (map fst (entries m))" if "ok m" for m
    using map_of_is_SomeI [OF entries_distinct [OF that]]
    by (simp add: comp_def) (metis (no_types, lifting) map_idI option.sel prod.collapse)
  then show ?thesis using assms keys map_of_entries by metis
qed

lemma fold_insert_ok: "ok m \<Longrightarrow> ok (fold (\<lambda>(k, v). insert k v) kvs m)"
  by (induction kvs arbitrary: m) (auto simp: insert_ok)

lemma lookup_fold_insert:
  "ok m \<Longrightarrow> lookup (fold (\<lambda>(k, v). insert k v) kvs m) = lookup m ++ map_of (rev kvs)"
  by (induction kvs arbitrary: m) (auto simp: insert_ok lookup_insert)

end

lemma btree_insert_keys: "fst ` set (btree_insert k v m) = Set.insert k (fst ` set m)"
  by (induction k v m rule: btree_insert.induct) auto

lemma btree_insert_ok: "btree_ok m \<Longrightarrow> btree_ok (btree_insert k v m)"
proof (induction k v m rule: btree_insert.induct)
  case (2 k v k' v' m)
  have "fst ` set (btree_insert k v m) = Set.insert k (fst ` set m)" by (rule btree_insert_keys)
  moreover have "\<forall>y \<in> set (map fst m). k' < y" "btree_ok m" using "2.prems" by (auto simp: btree_ok_def)
  ultimately show ?case using 2 by (auto simp: btree_ok_def)
qed (simp add: btree_ok_def)

lemma btree_get_insert: "btree_get (btree_insert k v m) = (btree_get m)(k \<mapsto> v)" if "btree_ok m"
  using that
proof (induction k v m rule: btree_insert.induct)
  case (2 k v k' v' m)
  then have "btree_ok m" by (simp add: btree_ok_def)
  with 2 show ?case by (auto simp: btree_get_def)
qed (auto simp: btree_get_def)

lemma btree_distinct: "btree_ok m \<Longrightarrow> distinct (map fst m)"
  by (simp add: btree_ok_def strict_sorted_iff)

lemma sorted_wrt_map_filter: "sorted_wrt r (map f xs) \<Longrightarrow> sorted_wrt r (map f (filter p xs))"
  by (induction xs) auto

interpretation btree: ordered_map btree_ok btree_get btree_insert btree_retain "\<lambda>m. m"
proof
  fix m :: "('k::linorder, 'v) btree_map" and k v and p :: "'k \<Rightarrow> 'v \<Rightarrow> bool"
  assume ok: "btree_ok m"
  show "btree_ok (btree_insert k v m)" by (rule btree_insert_ok [OF ok])
  show r: "btree_ok (btree_retain p m)"
    using ok by (simp add: btree_ok_def btree_retain_def sorted_wrt_map_filter)
  show "btree_get (btree_insert k v m) = (btree_get m)(k \<mapsto> v)" by (rule btree_get_insert [OF ok])
  show "sorted_wrt (<) (map fst m)" using ok by (simp add: btree_ok_def)
  show mem: "(k, v) \<in> set m \<longleftrightarrow> btree_get m k = Some v"
    using btree_distinct [OF ok] by (simp add: btree_get_def)
  have "btree_get (btree_retain p m) k = Some w \<longleftrightarrow> btree_get m k = Some w \<and> p k w" for w
    unfolding btree_get_def map_of_eq_Some_iff [OF btree_distinct [OF ok]]
      map_of_eq_Some_iff [OF btree_distinct [OF r]]
    by (auto simp: btree_retain_def)
  note get = this
  show "btree_get (btree_retain p m) k =
      (case btree_get m k of None \<Rightarrow> None | Some v \<Rightarrow> if p k v then Some v else None)"
  proof (rule option_eqI)
    fix w
    show "btree_get (btree_retain p m) k = Some w \<longleftrightarrow>
        (case btree_get m k of None \<Rightarrow> None | Some v \<Rightarrow> if p k v then Some v else None) = Some w"
      unfolding get by (cases "btree_get m k") auto
  qed
qed

lemma btree_ok_Nil [simp]: "btree_ok []"
  by (simp add: btree_ok_def)

lemma btree_get_Nil [simp]: "btree_get [] = Map.empty"
  by (rule ext) (simp add: btree_get_def)

lemma btree_remove_ok: "btree_ok m \<Longrightarrow> btree_ok (btree_remove k m)"
  by (simp add: btree_remove_def btree.retain_ok)

lemma btree_get_remove: "btree_ok m \<Longrightarrow> btree_get (btree_remove k m) = (btree_get m)(k := None)"
  by (intro ext) (simp add: btree_remove_def btree.lookup_retain split: option.splits)

lemma btree_extend_ok: "btree_ok m \<Longrightarrow> btree_ok (btree_extend kvs m)"
  by (simp add: btree_extend_def btree.fold_insert_ok)

lemma btree_get_extend: "btree_ok m \<Longrightarrow> btree_get (btree_extend kvs m) = btree_get m ++ map_of (rev kvs)"
  by (simp add: btree_extend_def btree.lookup_fold_insert)

lemma btree_extend_self: "btree_ok a \<Longrightarrow> map_of (rev a) = btree_get a"
proof (intro ext option_eqI)
  fix k v assume "btree_ok a"
  then have "distinct (map fst a)" "distinct (map fst (rev a))"
    using btree_distinct [of a] by (simp_all flip: rev_map)
  then show "map_of (rev a) k = Some v \<longleftrightarrow> btree_get a k = Some v" by (simp add: btree_get_def)
qed

section \<open>Sets\<close>

text \<open>Insertion is \<open>insort_insert\<close>, which also gives the sets' \<^verbatim>\<open>extend\<close>.\<close>

definition bset_ok :: "'a::linorder list \<Rightarrow> bool" where
  "bset_ok xs \<longleftrightarrow> sorted_wrt (<) xs"

definition bset_insert :: "'a::linorder \<Rightarrow> 'a list \<Rightarrow> bool \<times> 'a list" where
  "bset_insert x xs = (x \<notin> set xs, insort_insert x xs)"

definition bset_extend :: "'a::linorder list \<Rightarrow> 'a list \<Rightarrow> 'a list" where
  "bset_extend ys xs = fold (\<lambda>y s. snd (bset_insert y s)) ys xs"

definition bset_remove :: "'a::linorder \<Rightarrow> 'a list \<Rightarrow> bool \<times> 'a list" where
  "bset_remove x xs = (x \<in> set xs, filter (\<lambda>y. y \<noteq> x) xs)"

lemma bset_ok_iff: "bset_ok xs \<longleftrightarrow> sorted xs \<and> distinct xs"
  by (simp add: bset_ok_def strict_sorted_iff)

lemma bset_insert_set [simp]: "set (snd (bset_insert x xs)) = Set.insert x (set xs)"
  by (simp add: bset_insert_def set_insort_insert)

lemma bset_insert_ok [simp]: "bset_ok xs \<Longrightarrow> bset_ok (snd (bset_insert x xs))"
  by (simp add: bset_ok_iff bset_insert_def sorted_insort_insert distinct_insort_insert)

lemma bset_extend_set [simp]: "set (bset_extend ys xs) = set ys \<union> set xs"
  unfolding bset_extend_def by (induction ys arbitrary: xs) auto

lemma bset_extend_ok [simp]: "bset_ok xs \<Longrightarrow> bset_ok (bset_extend ys xs)"
  unfolding bset_extend_def by (induction ys arbitrary: xs) auto

lemma bset_remove_set [simp]: "set (snd (bset_remove x xs)) = set xs - {x}"
  by (auto simp: bset_remove_def)

lemma bset_remove_ok [simp]: "bset_ok xs \<Longrightarrow> bset_ok (snd (bset_remove x xs))"
  by (simp add: bset_ok_iff bset_remove_def sorted_wrt_filter)

lemma bset_determined: "bset_ok xs \<Longrightarrow> bset_ok ys \<Longrightarrow> set xs = set ys \<Longrightarrow> xs = ys"
  by (simp add: bset_ok_iff sorted_distinct_set_unique)

lemma bset_ok_Nil [simp]: "bset_ok []"
  by (simp add: bset_ok_def)

end
