(* ===== verification/Subgraph_Model.thy ===== *)
theory Subgraph_Model
  imports Routing_Types Ordered_Collections
begin

text \<open>
  The crate \<^verbatim>\<open>pathhydra-subgraph\<close>: a caller-owned collection of node and edge handles. The
  mutating methods return the new subgraph next to their result, also when they fail, so that
  leaving the subgraph alone on failure is a theorem and not a convention.
\<close>

section \<open>Model\<close>

datatype subgraph_error =
    EdgeIdentityConflict edge_id node_id node_id node_id node_id
  | InvalidPath string

record edge_handle =
  eh_edge_id :: edge_id
  eh_source :: node_id
  eh_destination :: node_id

definition edge_handle_new :: "edge_id \<Rightarrow> node_id \<Rightarrow> node_id \<Rightarrow> edge_handle" where
  "edge_handle_new edge source destination =
     \<lparr>eh_edge_id = edge, eh_source = source, eh_destination = destination\<rparr>"

record subgraph_handles =
  sh_nodes :: "node_id list"
  sh_edges :: "edge_handle list"

record subgraph =
  sg_nodes :: "node_id list"
  sg_edges :: "(edge_id, node_id \<times> node_id) btree_map"

definition subgraph_new :: subgraph where
  "subgraph_new = \<lparr>sg_nodes = [], sg_edges = []\<rparr>"

definition validate_edge :: "subgraph \<Rightarrow> edge_id \<Rightarrow> node_id \<Rightarrow> node_id \<Rightarrow> subgraph_error + unit" where
  "validate_edge sg edge source destination =
     (case btree_get (sg_edges sg) edge of
        Some (existing_source, existing_destination) \<Rightarrow>
          if (existing_source, existing_destination) \<noteq> (source, destination)
          then Inl (EdgeIdentityConflict edge existing_source existing_destination source destination)
          else Inr ()
      | None \<Rightarrow> Inr ())"

definition insert_node :: "node_id \<Rightarrow> subgraph \<Rightarrow> subgraph" where
  "insert_node node sg = sg\<lparr>sg_nodes := snd (bset_insert node (sg_nodes sg))\<rparr>"

definition insert_edge :: "edge_id \<times> node_id \<times> node_id \<Rightarrow> subgraph \<Rightarrow> subgraph" where
  "insert_edge entry sg =
     (case entry of (edge, source, destination) \<Rightarrow>
        insert_node destination (insert_node source
          (sg\<lparr>sg_edges := btree_insert edge (source, destination) (sg_edges sg)\<rparr>)))"

definition add_node :: "node_id \<Rightarrow> subgraph \<Rightarrow> bool \<times> subgraph" where
  "add_node node sg = (fst (bset_insert node (sg_nodes sg)), insert_node node sg)"

definition add_edge :: "edge_id \<Rightarrow> node_id \<Rightarrow> node_id \<Rightarrow> subgraph \<Rightarrow> (subgraph_error + bool) \<times> subgraph" where
  "add_edge edge source destination sg =
     (case validate_edge sg edge source destination of
        Inl e \<Rightarrow> (Inl e, sg)
      | Inr _ \<Rightarrow> (Inr (btree_get (sg_edges sg) edge = None), insert_edge (edge, source, destination) sg))"

definition add_edge_record :: "edge_record \<Rightarrow> subgraph \<Rightarrow> (subgraph_error + bool) \<times> subgraph" where
  "add_edge_record edge sg = add_edge (er_id edge) (er_source edge) (er_destination edge) sg"

definition step_entry :: "path_step \<Rightarrow> edge_id \<times> node_id \<times> node_id" where
  "step_entry step = (ps_edge_id step, ps_source step, ps_destination step)"

text \<open>The shape checks of \<^verbatim>\<open>add_path\<close>, in the order of the source.\<close>

definition check_path :: "route_path \<Rightarrow> subgraph_error + unit" where
  "check_path path =
     (let steps = pa_steps path in
      if steps = [] \<and> pa_origin path \<noteq> pa_destination path
      then Inl (InvalidPath ''a nontrivial path has no steps'')
      else if steps \<noteq> [] \<and> ps_source (hd steps) \<noteq> pa_origin path
      then Inl (InvalidPath ''first step does not start at the path origin'')
      else if steps \<noteq> [] \<and> ps_destination (last steps) \<noteq> pa_destination path
      then Inl (InvalidPath ''last step does not end at the path destination'')
      else if list_ex (\<lambda>(a, b). ps_destination a \<noteq> ps_source b) (windows2 steps)
      then Inl (InvalidPath ''step endpoints are discontinuous'')
      else Inr ())"

definition add_path :: "route_path \<Rightarrow> subgraph \<Rightarrow> (subgraph_error + unit) \<times> subgraph" where
  "add_path path sg =
     (case rbind (check_path path) (\<lambda>_. fold_result
        (\<lambda>step _. validate_edge sg (ps_edge_id step) (ps_source step) (ps_destination step))
        (pa_steps path) ()) of
        Inl e \<Rightarrow> (Inl e, sg)
      | Inr _ \<Rightarrow> (Inr (), fold (\<lambda>step. insert_edge (step_entry step)) (pa_steps path)
          (insert_node (pa_origin path) sg)))"

definition subgraph_union :: "subgraph \<Rightarrow> subgraph \<Rightarrow> (subgraph_error + unit) \<times> subgraph" where
  "subgraph_union other sg =
     (case fold_result (\<lambda>(edge, source, destination) _. validate_edge sg edge source destination)
        (sg_edges other) () of
        Inl e \<Rightarrow> (Inl e, sg)
      | Inr _ \<Rightarrow> (Inr (), \<lparr>sg_nodes = bset_extend (sg_nodes other) (sg_nodes sg),
          sg_edges = btree_extend (sg_edges other) (sg_edges sg)\<rparr>))"

definition remove_edge :: "edge_id \<Rightarrow> subgraph \<Rightarrow> bool \<times> subgraph" where
  "remove_edge edge sg =
     (btree_get (sg_edges sg) edge \<noteq> None, sg\<lparr>sg_edges := btree_remove edge (sg_edges sg)\<rparr>)"

definition remove_node :: "node_id \<Rightarrow> subgraph \<Rightarrow> bool \<times> subgraph" where
  "remove_node node sg =
     (case bset_remove node (sg_nodes sg) of (removed, nodes) \<Rightarrow>
        (removed, \<lparr>sg_nodes = nodes, sg_edges =
          btree_retain (\<lambda>_ (source, destination). source \<noteq> node \<and> destination \<noteq> node) (sg_edges sg)\<rparr>))"

definition contains_node :: "subgraph \<Rightarrow> node_id \<Rightarrow> bool" where
  "contains_node sg node \<longleftrightarrow> node \<in> set (sg_nodes sg)"

definition contains_edge :: "subgraph \<Rightarrow> edge_id \<Rightarrow> bool" where
  "contains_edge sg edge \<longleftrightarrow> btree_get (sg_edges sg) edge \<noteq> None"

definition subgraph_edges :: "subgraph \<Rightarrow> edge_handle list" where
  "subgraph_edges sg =
     map (\<lambda>(edge, source, destination). edge_handle_new edge source destination) (sg_edges sg)"

definition node_count :: "subgraph \<Rightarrow> nat" where
  "node_count sg = length (sg_nodes sg)"

definition edge_count :: "subgraph \<Rightarrow> nat" where
  "edge_count sg = length (sg_edges sg)"

definition handles :: "subgraph \<Rightarrow> subgraph_handles" where
  "handles sg = \<lparr>sh_nodes = sg_nodes sg, sh_edges = subgraph_edges sg\<rparr>"

section \<open>Contents and invariant\<close>

text \<open>What a subgraph stands for: a set of nodes and a map from edges to their endpoints.\<close>

type_synonym subgraph_contents = "node_id set \<times> (edge_id \<rightharpoonup> node_id \<times> node_id)"

definition contents :: "subgraph \<Rightarrow> subgraph_contents" where
  "contents sg = (set (sg_nodes sg), btree_get (sg_edges sg))"

definition endpoints_in :: "node_id set \<Rightarrow> (edge_id \<rightharpoonup> node_id \<times> node_id) \<Rightarrow> bool" where
  "endpoints_in nodes edges \<longleftrightarrow>
     (\<forall>edge source destination. edges edge = Some (source, destination) \<longrightarrow>
        source \<in> nodes \<and> destination \<in> nodes)"

definition subgraph_inv :: "subgraph \<Rightarrow> bool" where
  "subgraph_inv sg \<longleftrightarrow> bset_ok (sg_nodes sg) \<and> btree_ok (sg_edges sg)
     \<and> endpoints_in (fst (contents sg)) (snd (contents sg))"

text \<open>The operations on contents.\<close>

fun spec_insert_edge :: "edge_id \<times> node_id \<times> node_id \<Rightarrow> subgraph_contents \<Rightarrow> subgraph_contents" where
  "spec_insert_edge (edge, source, destination) (nodes, edges) =
     (insert source (insert destination nodes), edges(edge \<mapsto> (source, destination)))"

fun agrees :: "subgraph_contents \<Rightarrow> edge_id \<times> node_id \<times> node_id \<Rightarrow> bool" where
  "agrees (nodes, edges) (edge, endpoints) \<longleftrightarrow> edges edge = None \<or> edges edge = Some endpoints"

lemma agrees_iff: "agrees c (edge, p) \<longleftrightarrow> (\<forall>q. snd c edge = Some q \<longrightarrow> q = p)"
  by (cases c; cases "snd c edge") auto

lemma contents_eq: "contents sg = (set (sg_nodes sg), btree_get (sg_edges sg))"
  by (simp add: contents_def)

lemma validate_edge_Inr:
  "validate_edge sg edge source destination = Inr u \<longleftrightarrow> agrees (contents sg) (edge, source, destination)"
  by (auto simp: validate_edge_def contents_def split: option.splits)

lemma subgraph_inv_split:
  "subgraph_inv sg \<longleftrightarrow> bset_ok (sg_nodes sg) \<and> btree_ok (sg_edges sg)
     \<and> endpoints_in (set (sg_nodes sg)) (btree_get (sg_edges sg))"
  by (simp add: subgraph_inv_def contents_def)

lemma subgraph_determined:
  assumes "subgraph_inv a" "subgraph_inv b" "contents a = contents b"
  shows "a = (b :: subgraph)"
  using assms bset_determined btree.entries_determined
  by (auto simp: subgraph_inv_split contents_def intro!: subgraph.equality)

lemma insert_node_contents [simp]:
  "contents (insert_node n sg) = (insert n (fst (contents sg)), snd (contents sg))"
  by (simp add: insert_node_def contents_def)

lemma insert_node_inv [simp]: "subgraph_inv sg \<Longrightarrow> subgraph_inv (insert_node n sg)"
  by (auto simp: subgraph_inv_split insert_node_def endpoints_in_def)

lemma insert_edge_contents:
  "subgraph_inv sg \<Longrightarrow> contents (insert_edge entry sg) = spec_insert_edge entry (contents sg)"
  by (cases entry) (auto simp: insert_edge_def insert_node_def contents_def subgraph_inv_split
      btree.lookup_insert)

lemma insert_edge_inv: "subgraph_inv sg \<Longrightarrow> subgraph_inv (insert_edge entry sg)"
  by (cases entry) (auto simp: insert_edge_def insert_node_def subgraph_inv_split
      btree.lookup_insert btree.insert_ok endpoints_in_def split: if_splits)

lemma insert_edges:
  "subgraph_inv sg \<Longrightarrow> subgraph_inv (fold (\<lambda>x. insert_edge (f x)) xs sg)
     \<and> contents (fold (\<lambda>x. insert_edge (f x)) xs sg) = fold (\<lambda>x. spec_insert_edge (f x)) xs (contents sg)"
  by (induction xs arbitrary: sg) (auto simp: insert_edge_inv insert_edge_contents)

lemma spec_insert_edges:
  "fold (\<lambda>x. spec_insert_edge (f x)) xs (nodes, edges) =
     (nodes \<union> (\<Union>x \<in> set xs. {fst (snd (f x)), snd (snd (f x))}), edges ++ map_of (rev (map f xs)))"
proof (induction xs arbitrary: nodes edges)
  case (Cons x xs)
  obtain edge source destination where x: "f x = (edge, source, destination)" by (cases "f x") auto
  have "edges(edge \<mapsto> (source, destination)) ++ m = edges ++ ([edge \<mapsto> (source, destination)] ++ m)" for m
    by (intro ext) (auto simp: map_add_def split: option.splits)
  then show ?case
    by (simp add: x Cons.IH Un_commute Un_left_commute) (simp only: fun_upd_def)
qed simp

section \<open>Paths\<close>

lemma contiguous_iff:
  "contiguous n steps m \<longleftrightarrow> (if steps = [] then n = m else ps_source (hd steps) = n
     \<and> ps_destination (last steps) = m
     \<and> (\<forall>(a, b) \<in> set (windows2 steps). ps_destination a = ps_source b))"
proof (induction steps arbitrary: n rule: induct_list012)
  case (3 a b steps)
  then show ?case by auto
qed auto

lemma check_path_Inr:
  "check_path path = Inr u \<longleftrightarrow> contiguous (pa_origin path) (pa_steps path) (pa_destination path)"
  by (auto simp: check_path_def Let_def contiguous_iff list_ex_iff)

definition path_fits :: "route_path \<Rightarrow> subgraph \<Rightarrow> bool" where
  "path_fits path sg \<longleftrightarrow> contiguous (pa_origin path) (pa_steps path) (pa_destination path)
     \<and> (\<forall>step \<in> set (pa_steps path). agrees (contents sg) (step_entry step))"

lemma add_path_checks:
  "rbind (check_path path) (\<lambda>_. fold_result
      (\<lambda>step _. validate_edge sg (ps_edge_id step) (ps_source step) (ps_destination step))
      (pa_steps path) ()) = Inr u \<longleftrightarrow> path_fits path sg"
  by (simp add: rbind_Inr_iff check_path_Inr fold_result_check validate_edge_Inr step_entry_def path_fits_def)

lemma add_path_ok:
  "path_fits path sg \<Longrightarrow> add_path path sg = (Inr (), fold (\<lambda>step. insert_edge (step_entry step)) (pa_steps path)
     (insert_node (pa_origin path) sg))"
  using add_path_checks [of path sg "()"] by (simp add: add_path_def)

lemma add_path_fails: "\<not> path_fits path sg \<Longrightarrow> \<exists>e. add_path path sg = (Inl e, sg)"
  using add_path_checks [of path sg] by (auto simp: add_path_def split: sum.splits)

lemma add_path_inv: "subgraph_inv sg \<Longrightarrow> subgraph_inv (snd (add_path path sg))"
  using add_path_fails [of path sg] by (cases "path_fits path sg") (auto simp: add_path_ok insert_edges)

lemma add_path_contents:
  assumes "subgraph_inv sg" "path_fits path sg"
  shows "contents (snd (add_path path sg)) =
    (insert (pa_origin path) (fst (contents sg))
       \<union> (\<Union>step \<in> set (pa_steps path). {ps_source step, ps_destination step}),
     snd (contents sg) ++ map_of (rev (map step_entry (pa_steps path))))"
  using insert_edges [of "insert_node (pa_origin path) sg" step_entry "pa_steps path"] assms
  by (simp add: add_path_ok spec_insert_edges) (simp add: step_entry_def)

section \<open>Union and removal\<close>

definition compatible :: "subgraph \<Rightarrow> subgraph \<Rightarrow> bool" where
  "compatible a b \<longleftrightarrow> (\<forall>edge p q. snd (contents a) edge = Some p \<longrightarrow> snd (contents b) edge = Some q \<longrightarrow> p = q)"

lemma compatible_sym: "compatible a b \<longleftrightarrow> compatible b a"
  unfolding compatible_def by metis

lemma union_checks:
  assumes "subgraph_inv b"
  shows "fold_result (\<lambda>(edge, source, destination) _. validate_edge a edge source destination)
      (sg_edges b) () = Inr u \<longleftrightarrow> compatible b a"
proof -
  have "(edge, p) \<in> set (sg_edges b) \<longleftrightarrow> snd (contents b) edge = Some p" for edge p
    using assms btree.entries_lookup [of "sg_edges b"] by (simp add: contents_def subgraph_inv_split)
  then have "compatible b a \<longleftrightarrow> (\<forall>edge p. (edge, p) \<in> set (sg_edges b) \<longrightarrow> agrees (contents a) (edge, p))"
    unfolding compatible_def agrees_iff by metis
  then have "compatible b a \<longleftrightarrow> (\<forall>entry \<in> set (sg_edges b). agrees (contents a) entry)" by auto
  then show ?thesis by (simp add: fold_result_check split_beta validate_edge_Inr)
qed

lemma union_ok:
  "subgraph_inv b \<Longrightarrow> compatible b a \<Longrightarrow> subgraph_union b a =
     (Inr (), \<lparr>sg_nodes = bset_extend (sg_nodes b) (sg_nodes a), sg_edges = btree_extend (sg_edges b) (sg_edges a)\<rparr>)"
  using union_checks [of b a "()"] by (simp add: subgraph_union_def)

lemma union_fails: "subgraph_inv b \<Longrightarrow> \<not> compatible b a \<Longrightarrow> \<exists>e. subgraph_union b a = (Inl e, a)"
  using union_checks [of b a] by (auto simp: subgraph_union_def split: sum.splits)

lemma union_result:
  assumes "subgraph_inv a" "subgraph_inv b"
  defines "c \<equiv> \<lparr>sg_nodes = bset_extend (sg_nodes b) (sg_nodes a), sg_edges = btree_extend (sg_edges b) (sg_edges a)\<rparr>"
  shows "contents c = (fst (contents a) \<union> fst (contents b), snd (contents a) ++ snd (contents b))"
    and "subgraph_inv c"
proof -
  show contents: "contents c = (fst (contents a) \<union> fst (contents b), snd (contents a) ++ snd (contents b))"
    using assms by (auto simp: c_def contents_def subgraph_inv_split btree_get_extend btree_extend_self)
  show "subgraph_inv c"
    using assms contents unfolding subgraph_inv_def
    by (auto simp: c_def btree_extend_ok endpoints_in_def contents_eq map_add_Some_iff)
qed

lemma compatible_commute:
  "compatible a b \<Longrightarrow> snd (contents a) ++ snd (contents b) = snd (contents b) ++ snd (contents a)"
  by (intro ext) (auto simp: compatible_def map_add_def simp del: split_paired_All split: option.splits)

lemma remove_node_parts:
  "snd (remove_node node sg) = \<lparr>sg_nodes = snd (bset_remove node (sg_nodes sg)), sg_edges =
     btree_retain (\<lambda>_ (source, destination). source \<noteq> node \<and> destination \<noteq> node) (sg_edges sg)\<rparr>"
  by (simp add: remove_node_def split_beta)

lemma remove_node_contents:
  assumes "subgraph_inv sg"
  shows "contents (snd (remove_node node sg)) = (fst (contents sg) - {node},
      (\<lambda>edge. case snd (contents sg) edge of None \<Rightarrow> None
        | Some (source, destination) \<Rightarrow> if source \<noteq> node \<and> destination \<noteq> node
            then Some (source, destination) else None))"
proof -
  have "btree_ok (sg_edges sg)" using assms by (simp add: subgraph_inv_split)
  then show ?thesis
    by (simp add: remove_node_parts contents_def btree.lookup_retain fun_eq_iff split: option.splits)
qed

lemma remove_node_inv: "subgraph_inv sg \<Longrightarrow> subgraph_inv (snd (remove_node node sg))"
  using remove_node_contents [of sg node] unfolding subgraph_inv_def
  by (auto simp: endpoints_in_def split: option.splits if_splits)
    (simp_all add: remove_node_parts btree.retain_ok)

lemma remove_edge_inv: "subgraph_inv sg \<Longrightarrow> subgraph_inv (snd (remove_edge edge sg))"
  by (auto simp: subgraph_inv_split remove_edge_def btree_get_remove endpoints_in_def)
    (simp add: btree_remove_def btree.retain_ok)

lemma add_edge_inv: "subgraph_inv sg \<Longrightarrow> subgraph_inv (snd (add_edge edge source destination sg))"
  by (simp add: add_edge_def insert_edge_inv split: sum.splits)

lemma union_inv: "subgraph_inv a \<Longrightarrow> subgraph_inv b \<Longrightarrow> subgraph_inv (snd (subgraph_union b a))"
  using union_fails [of b a] union_result(2) [of a b] by (cases "compatible b a") (auto simp: union_ok)

section \<open>Properties\<close>

text \<open>The subgraphs a caller can build.\<close>

inductive subgraph_built :: "subgraph \<Rightarrow> bool" where
  built_new: "subgraph_built subgraph_new"
| built_add_node: "subgraph_built sg \<Longrightarrow> subgraph_built (snd (add_node node sg))"
| built_add_edge: "subgraph_built sg \<Longrightarrow> subgraph_built (snd (add_edge edge source destination sg))"
| built_add_edge_record: "subgraph_built sg \<Longrightarrow> subgraph_built (snd (add_edge_record record sg))"
| built_add_path: "subgraph_built sg \<Longrightarrow> subgraph_built (snd (add_path path sg))"
| built_union: "subgraph_built sg \<Longrightarrow> subgraph_built other \<Longrightarrow> subgraph_built (snd (subgraph_union other sg))"
| built_remove_edge: "subgraph_built sg \<Longrightarrow> subgraph_built (snd (remove_edge edge sg))"
| built_remove_node: "subgraph_built sg \<Longrightarrow> subgraph_built (snd (remove_node node sg))"

lemma subgraph_built_inv: "subgraph_built sg \<Longrightarrow> subgraph_inv sg"
proof (induction rule: subgraph_built.induct)
  case built_new
  show ?case by (simp add: subgraph_inv_split subgraph_new_def endpoints_in_def)
next
  case (built_add_node sg node)
  then show ?case by (simp add: add_node_def)
qed (simp_all add: add_edge_record_def add_edge_inv add_path_inv union_inv remove_edge_inv remove_node_inv)

definition sample_subgraph :: subgraph where
  "sample_subgraph = snd (add_edge (EdgeId 7) (NodeId 2) (NodeId 1) subgraph_new)"

lemma sample_built: "subgraph_built sample_subgraph"
  unfolding sample_subgraph_def by (intro built_add_edge built_new)

lemma sample_parts: "sample_subgraph = \<lparr>sg_nodes = [NodeId 1, NodeId 2], sg_edges = [(EdgeId 7, NodeId 2, NodeId 1)]\<rparr>"
  by (simp add: sample_subgraph_def add_edge_def validate_edge_def subgraph_new_def insert_edge_def
      insert_node_def bset_insert_def insort_insert_key_def less_eq_node_id_def word_le_nat_alt)

text \<open>
  C33: Whatever sequence of operations builds a subgraph, failing ones included, its nodes and
  edge identifiers are strictly ascending and both endpoints of every edge are among the nodes.
\<close>

theorem subgraph_closed:
  assumes "subgraph_built sg"
  shows "sorted_wrt (<) (sh_nodes (handles sg)) \<and> sorted_wrt (<) (map eh_edge_id (sh_edges (handles sg)))
    \<and> (\<forall>h \<in> set (sh_edges (handles sg)). contains_node sg (eh_source h) \<and> contains_node sg (eh_destination h)
         \<and> contains_edge sg (eh_edge_id h))"
proof -
  have inv: "bset_ok (sg_nodes sg)" "btree_ok (sg_edges sg)"
      "endpoints_in (set (sg_nodes sg)) (btree_get (sg_edges sg))"
    using subgraph_built_inv [OF assms] by (simp_all add: subgraph_inv_split)
  have ids: "map eh_edge_id (sh_edges (handles sg)) = map fst (sg_edges sg)"
    by (simp add: handles_def subgraph_edges_def edge_handle_new_def split_beta)
  have "contains_node sg (eh_source h) \<and> contains_node sg (eh_destination h) \<and> contains_edge sg (eh_edge_id h)"
    if "h \<in> set (sh_edges (handles sg))" for h
  proof -
    from that obtain edge source destination where
        h: "(edge, source, destination) \<in> set (sg_edges sg)" "h = edge_handle_new edge source destination"
      by (auto simp: handles_def subgraph_edges_def)
    then have "btree_get (sg_edges sg) edge = Some (source, destination)"
      using btree.entries_lookup [OF inv(2)] by simp
    with inv(3) h(2) show ?thesis
      by (auto simp: contains_node_def contains_edge_def edge_handle_new_def endpoints_in_def)
  qed
  with inv(1,2) show ?thesis unfolding ids by (simp add: handles_def bset_ok_def btree_ok_def)
qed

theorem subgraph_closed_witness:
  "contains_node sample_subgraph (NodeId 2) \<and> contains_node sample_subgraph (NodeId 1)"
  using subgraph_closed [OF sample_built]
  by (simp add: sample_parts handles_def subgraph_edges_def edge_handle_new_def)

text \<open>
  C34: Adding a path succeeds exactly when its steps lead from its origin to its destination and
  no step gives an edge already present other endpoints. It then adds the origin, the steps'
  endpoints and the steps' edges; otherwise the subgraph is left as it was.
\<close>

theorem add_path_effect:
  assumes "subgraph_built sg" and "add_path path sg = (result, sg')"
  shows "(result = Inr () \<longleftrightarrow> contiguous (pa_origin path) (pa_steps path) (pa_destination path)
      \<and> (\<forall>step \<in> set (pa_steps path). agrees (contents sg) (step_entry step)))
    \<and> (result = Inr () \<longrightarrow> contents sg' =
        (insert (pa_origin path) (fst (contents sg))
           \<union> (\<Union>step \<in> set (pa_steps path). {ps_source step, ps_destination step}),
         snd (contents sg) ++ map_of (rev (map step_entry (pa_steps path)))))
    \<and> (result \<noteq> Inr () \<longrightarrow> sg' = sg)"
proof (cases "path_fits path sg")
  case True
  with add_path_ok [OF True] add_path_contents [OF subgraph_built_inv [OF assms(1)] True] assms(2)
  show ?thesis by (simp add: path_fits_def)
next
  case False
  with add_path_fails [OF False] assms(2) show ?thesis by (auto simp: path_fits_def)
qed

definition sample_path :: route_path where
  "sample_path = \<lparr>pa_origin = NodeId 2, pa_destination = NodeId 1, pa_logical_distance = 0, pa_steps =
     [\<lparr>ps_edge_id = EdgeId 7, ps_source = NodeId 2, ps_destination = NodeId 1, ps_relation_id = RelationId 1,
       ps_base_weight = base_weight_MIN, ps_multiplier = RelationMultiplier 0, ps_effective_weight = 0\<rparr>]\<rparr>"

theorem add_path_effect_witness:
  "fst (add_path sample_path sample_subgraph) = Inr ()
     \<and> contents (snd (add_path sample_path sample_subgraph)) = ({NodeId 1, NodeId 2}, [EdgeId 7 \<mapsto> (NodeId 2, NodeId 1)])"
proof -
  obtain r s where rs: "add_path sample_path sample_subgraph = (r, s)" by (cases "add_path sample_path sample_subgraph")
  from add_path_effect [OF sample_built rs] show ?thesis
    by (auto simp: rs) (auto simp: sample_path_def sample_parts contents_def step_entry_def btree_get_def)
qed

text \<open>
  Union succeeds exactly when the two subgraphs give no edge different endpoints, holds the
  nodes and edges of both, does not depend on which side is updated, and on failure leaves the
  updated side as it was.
\<close>

theorem union_symmetric:
  assumes "subgraph_built a" "subgraph_built b"
  shows "(fst (subgraph_union b a) = Inr () \<longleftrightarrow> compatible a b)
    \<and> (compatible a b \<longrightarrow> subgraph_union b a = subgraph_union a b
        \<and> contents (snd (subgraph_union b a)) =
            (fst (contents a) \<union> fst (contents b), snd (contents a) ++ snd (contents b)))
    \<and> (\<not> compatible a b \<longrightarrow> snd (subgraph_union b a) = a)"
proof -
  note inv = subgraph_built_inv [OF assms(1)] subgraph_built_inv [OF assms(2)]
  show ?thesis
  proof (cases "compatible a b")
    case True
    then have ba: "compatible b a" by (simp add: compatible_sym)
    note res = union_result [OF inv] union_result [OF inv(2,1)]
    have "snd (subgraph_union b a) = snd (subgraph_union a b)"
      using union_ok True ba inv res compatible_commute [OF True]
      by (intro subgraph_determined) (simp_all add: Un_commute)
    with True ba inv res(1) show ?thesis by (simp add: union_ok)
  next
    case False
    then have "\<not> compatible b a" by (simp add: compatible_sym)
    from union_fails [OF inv(2) this] False show ?thesis by auto
  qed
qed

text \<open>
  The exported handles are a canonical form: two subgraphs, however built, export equal
  handles exactly when they hold the same nodes and the same edges with the same endpoints.
\<close>

theorem handles_canonical:
  assumes "subgraph_built a" "subgraph_built b"
  shows "handles a = handles b \<longleftrightarrow> contents a = contents b"
proof
  assume "contents a = contents b"
  then show "handles a = handles b"
    using subgraph_determined [OF subgraph_built_inv subgraph_built_inv, OF assms] by simp
next
  assume eq: "handles a = handles b"
  have "inj (\<lambda>(edge, source, destination). edge_handle_new edge source destination)"
    by (rule injI) (auto simp: edge_handle_new_def)
  then have "sg_edges a = sg_edges b"
    using eq by (auto simp: handles_def subgraph_edges_def dest: map_injective)
  with eq show "contents a = contents b" by (simp add: contents_def handles_def)
qed

end
