(* ===== verification/Transitions.thy ===== *)
theory Transitions
  imports Prelude
begin

text \<open>
  Reachable states of the engine's controllers. A controller is guarded by one lock, so its
  history is a sequence of whole operations; interleavings of threads are the sequences of
  steps. The locale \<open>invariant_system\<close> is what a component shows of its steps.
\<close>

inductive reach :: "'s \<Rightarrow> ('s \<Rightarrow> 's \<Rightarrow> bool) \<Rightarrow> 's \<Rightarrow> bool" for init step where
  reach_init: "reach init step init"
| reach_step: "reach init step s \<Longrightarrow> step s t \<Longrightarrow> reach init step t"

lemma reach_one: "step init s \<Longrightarrow> reach init step s"
  by (rule reach_step [OF reach_init])

lemma reach_two: "step init s \<Longrightarrow> step s t \<Longrightarrow> reach init step t"
  by (rule reach_step [OF reach_one])

locale invariant_system =
  fixes init :: 's and step :: "'s \<Rightarrow> 's \<Rightarrow> bool" and inv :: "'s \<Rightarrow> bool"
  assumes inv_init: "inv init"
    and inv_step: "inv s \<Longrightarrow> step s t \<Longrightarrow> inv t"
begin

lemma reach_inv: "reach init step s \<Longrightarrow> inv s"
  by (induction rule: reach.induct) (auto intro: inv_init inv_step)

lemma reach_step_inv: "reach init step s \<Longrightarrow> step s t \<Longrightarrow> inv s \<and> inv t"
  using reach_inv inv_step by blast

text \<open>A relation between a state and its successors that is reflexive and transitive holds along
  every continuation.\<close>

lemma reach_from:
  assumes "reach s step t" "inv s" "\<And>s. R s s" "\<And>s t u. R s t \<Longrightarrow> inv t \<Longrightarrow> step t u \<Longrightarrow> R s u"
  shows "R s t \<and> inv t"
  using assms by (induction rule: reach.induct) (auto intro: inv_step)

end

text \<open>Removing one element of a list, as dropping a guard does.\<close>

definition drop_nth :: "nat \<Rightarrow> 'a list \<Rightarrow> 'a list" where
  "drop_nth i xs = take i xs @ drop (Suc i) xs"

lemma length_drop_nth: "i < length xs \<Longrightarrow> length (drop_nth i xs) = length xs - 1"
  by (simp add: drop_nth_def)

lemma sum_list_drop_nth:
  fixes f :: "'a \<Rightarrow> nat"
  assumes "i < length xs"
  shows "sum_list (map f xs) = f (xs ! i) + sum_list (map f (drop_nth i xs))"
proof -
  have "xs = take i xs @ xs ! i # drop (Suc i) xs" using assms by (rule id_take_nth_drop)
  then have "sum_list (map f xs) = sum_list (map f (take i xs @ xs ! i # drop (Suc i) xs))" by simp
  then show ?thesis by (simp add: drop_nth_def)
qed

lemma sum_list_update:
  fixes f :: "'a \<Rightarrow> nat"
  assumes "i < length xs"
  shows "sum_list (map f (xs[i := x])) + f (xs ! i) = sum_list (map f xs) + f x"
  using assms by (induction xs arbitrary: i) (auto split: nat.splits)

lemma drop_nth_subset: "set (drop_nth i xs) \<subseteq> set xs"
  unfolding drop_nth_def by (auto dest: in_set_takeD in_set_dropD)

end
