(* ===== verification/Engine_Admission.thy ===== *)
theory Engine_Admission
  imports Transitions
begin

text \<open>
  \<^verbatim>\<open>pathhydra-engine/src/admission.rs\<close>: route admission. The controller counts the active routes
  and the bytes they reserve; a permit is a slot with its reservation and returns both when it
  is dropped. A poisoned mutex is a flag of the controller.
\<close>

section \<open>Model\<close>

datatype admission_rejection =
    TooManyDestinations nat nat
  | RequestBytes nat nat
  | ConcurrentRoutes nat
  | TotalBytes nat nat
  | ArithmeticOverflow

datatype admission_error = Admission admission_rejection | LockPoisoned string

record admission_state =
  as_active :: nat
  as_peak_active :: nat
  as_reserved :: nat
  as_peak_reserved :: nat
  as_admissions :: nat
  as_rejections :: nat

record admission_controller =
  ac_maximum_active :: nat
  ac_maximum_bytes :: nat
  ac_state :: admission_state
  ac_poisoned :: bool

record admission_permit =
  ap_bytes :: nat
  ap_admitted :: bool

definition admission_new :: "nat \<Rightarrow> nat \<Rightarrow> admission_controller" where
  "admission_new maximum_active maximum_bytes =
     \<lparr>ac_maximum_active = maximum_active, ac_maximum_bytes = maximum_bytes,
      ac_state = \<lparr>as_active = 0, as_peak_active = 0, as_reserved = 0, as_peak_reserved = 0,
        as_admissions = 0, as_rejections = 0\<rparr>, ac_poisoned = False\<rparr>"

text \<open>Taking the lock, and counting a rejection.\<close>

definition locked :: "admission_controller \<Rightarrow> (admission_controller \<Rightarrow> (admission_error + 'a) \<times> admission_controller)
    \<Rightarrow> (admission_error + 'a) \<times> admission_controller" where
  "locked c f = (if ac_poisoned c then (Inl (LockPoisoned ''route admission''), c) else f c)"

definition reject :: "admission_rejection \<Rightarrow> admission_controller \<Rightarrow> (admission_error + 'a) \<times> admission_controller" where
  "reject reason c = (Inl (Admission reason), c\<lparr>ac_state := (ac_state c)\<lparr>
     as_rejections := saturating_add (as_rejections (ac_state c)) 1\<rparr>\<rparr>)"

definition acquire_slot :: "admission_controller \<Rightarrow> (admission_error + admission_permit) \<times> admission_controller" where
  "acquire_slot c = locked c (\<lambda>c. let st = ac_state c in
     if as_active st \<ge> ac_maximum_active c then reject (ConcurrentRoutes (ac_maximum_active c)) c
     else (Inr \<lparr>ap_bytes = 0, ap_admitted = False\<rparr>, c\<lparr>ac_state := st\<lparr>as_active := as_active st + 1,
       as_peak_active := max (as_peak_active st) (as_active st + 1)\<rparr>\<rparr>))"

definition reject_destinations :: "nat \<Rightarrow> nat \<Rightarrow> admission_controller
    \<Rightarrow> (admission_error + admission_error) \<times> admission_controller" where
  "reject_destinations requested maximum c = locked c (\<lambda>c.
     let st = ac_state c in
     (Inr (Admission (TooManyDestinations requested maximum)),
      c\<lparr>ac_state := st\<lparr>as_rejections := saturating_add (as_rejections st) 1\<rparr>\<rparr>))"

definition controller_reserve :: "nat \<Rightarrow> admission_controller \<Rightarrow> (admission_error + unit) \<times> admission_controller" where
  "controller_reserve bytes c = locked c (\<lambda>c. let st = ac_state c in
     if bytes > ac_maximum_bytes c then reject (RequestBytes bytes (ac_maximum_bytes c)) c
     else case checked_add (as_reserved st) bytes of
       None \<Rightarrow> reject ArithmeticOverflow c
     | Some new_total \<Rightarrow>
         if new_total > ac_maximum_bytes c then reject (TotalBytes new_total (ac_maximum_bytes c)) c
         else (Inr (), c\<lparr>ac_state := st\<lparr>as_reserved := new_total,
           as_peak_reserved := max (as_peak_reserved st) new_total,
           as_admissions := saturating_add (as_admissions st) 1\<rparr>\<rparr>))"

definition replace_reservation :: "nat \<Rightarrow> nat \<Rightarrow> admission_controller
    \<Rightarrow> (admission_error + unit) \<times> admission_controller" where
  "replace_reservation current replacement c = locked c (\<lambda>c. let st = ac_state c in
     if replacement > ac_maximum_bytes c then reject (RequestBytes replacement (ac_maximum_bytes c)) c
     else if as_reserved st < current then reject ArithmeticOverflow c
     else case checked_add (as_reserved st - current) replacement of
       None \<Rightarrow> reject ArithmeticOverflow c
     | Some new_total \<Rightarrow>
         if new_total > ac_maximum_bytes c then reject (TotalBytes new_total (ac_maximum_bytes c)) c
         else (Inr (), c\<lparr>ac_state := st\<lparr>as_reserved := new_total,
           as_peak_reserved := max (as_peak_reserved st) new_total\<rparr>\<rparr>))"

definition admission_snapshot :: "admission_controller \<Rightarrow> admission_error + admission_state" where
  "admission_snapshot c = fst (locked c (\<lambda>c. (Inr (ac_state c), c)))"

definition permit_reserve :: "nat \<Rightarrow> admission_permit \<Rightarrow> admission_controller
    \<Rightarrow> (admission_error + unit) \<times> admission_permit \<times> admission_controller" where
  "permit_reserve bytes p c =
     (if ap_admitted p then
        case replace_reservation (ap_bytes p) bytes c of
          (Inl e, c) \<Rightarrow> (Inl e, p, c)
        | (Inr _, c) \<Rightarrow> (Inr (), p\<lparr>ap_bytes := bytes\<rparr>, c)
      else
        case controller_reserve bytes c of
          (Inl e, c) \<Rightarrow> (Inl e, p, c)
        | (Inr _, c) \<Rightarrow> (Inr (), p\<lparr>ap_admitted := True, ap_bytes := bytes\<rparr>, c))"

definition permit_drop :: "admission_permit \<Rightarrow> admission_controller \<Rightarrow> admission_controller" where
  "permit_drop p c =
     (if ac_poisoned c then c
      else let st = ac_state c in c\<lparr>ac_state := st\<lparr>as_active := as_active st - 1,
        as_reserved := (if ap_admitted p then as_reserved st - ap_bytes p else as_reserved st)\<rparr>\<rparr>)"

section \<open>Histories\<close>

text \<open>The controller with the permits that are alive.\<close>

type_synonym admission_system = "admission_controller \<times> admission_permit list"

inductive admission_step :: "admission_system \<Rightarrow> admission_system \<Rightarrow> bool" where
  step_acquire: "acquire_slot c = (Inr p, c') \<Longrightarrow> admission_step (c, ps) (c', ps @ [p])"
| step_acquire_rejected: "acquire_slot c = (Inl e, c') \<Longrightarrow> admission_step (c, ps) (c', ps)"
| step_reject: "reject_destinations requested maximum c = (r, c') \<Longrightarrow> admission_step (c, ps) (c', ps)"
| step_reserve: "i < length ps \<Longrightarrow> permit_reserve bytes (ps ! i) c = (r, p, c') \<Longrightarrow>
    admission_step (c, ps) (c', ps[i := p])"
| step_drop: "i < length ps \<Longrightarrow> admission_step (c, ps) (permit_drop (ps ! i) c, drop_nth i ps)"

definition held :: "admission_permit \<Rightarrow> nat" where
  "held p = (if ap_admitted p then ap_bytes p else 0)"

text \<open>What the counters say of the live permits.\<close>

definition admission_inv :: "nat \<Rightarrow> nat \<Rightarrow> admission_system \<Rightarrow> bool" where
  "admission_inv maximum_active maximum_bytes s \<longleftrightarrow>
     (case s of (c, ps) \<Rightarrow> let st = ac_state c in
        ac_maximum_active c = maximum_active \<and> ac_maximum_bytes c = maximum_bytes \<and> \<not> ac_poisoned c
        \<and> as_active st = length ps \<and> as_reserved st = sum_list (map held ps)
        \<and> as_active st \<le> as_peak_active st \<and> as_peak_active st \<le> maximum_active
        \<and> as_reserved st \<le> as_peak_reserved st \<and> as_peak_reserved st \<le> maximum_bytes)"

lemma held_le_reserved:
  "i < length ps \<Longrightarrow> held (ps ! i) \<le> sum_list (map held ps)"
  using sum_list_drop_nth [of i ps held] by simp

lemma acquire_inv:
  assumes "admission_inv ma mb (c, ps)"
  shows "acquire_slot c = (Inr p, c') \<Longrightarrow> admission_inv ma mb (c', ps @ [p])"
    "acquire_slot c = (Inl e, c') \<Longrightarrow> admission_inv ma mb (c', ps)"
  using assms by (auto simp: acquire_slot_def locked_def reject_def admission_inv_def Let_def held_def
      split: if_splits)

lemma reserve_fresh_inv:
  assumes "admission_inv ma mb (c, ps)" "i < length ps" "\<not> ap_admitted (ps ! i)"
    and "permit_reserve bytes (ps ! i) c = (r, p, c')"
  shows "admission_inv ma mb (c', ps[i := p])"
  using assms sum_list_update [of i ps held "(ps ! i)\<lparr>ap_admitted := True, ap_bytes := bytes\<rparr>"]
  by (auto simp: permit_reserve_def controller_reserve_def locked_def reject_def admission_inv_def
      Let_def held_def checked_add_Some_iff split: if_splits option.splits prod.splits)

lemma reserve_again_inv:
  assumes inv: "admission_inv ma mb (c, ps)" and i: "i < length ps" and "ap_admitted (ps ! i)"
    and "permit_reserve bytes (ps ! i) c = (r, p, c')"
  shows "admission_inv ma mb (c', ps[i := p])"
  using assms sum_list_update [of i ps held "(ps ! i)\<lparr>ap_bytes := bytes\<rparr>"] held_le_reserved [OF i]
  by (auto simp: permit_reserve_def replace_reservation_def locked_def reject_def admission_inv_def
      Let_def held_def checked_add_Some_iff split: if_splits option.splits prod.splits)

lemma drop_inv:
  assumes "admission_inv ma mb (c, ps)" "i < length ps"
  shows "admission_inv ma mb (permit_drop (ps ! i) c, drop_nth i ps)"
  using assms sum_list_drop_nth [OF assms(2), of held] length_drop_nth [OF assms(2)]
  by (auto simp: permit_drop_def admission_inv_def Let_def held_def)

interpretation admission: invariant_system
  "(admission_new maximum_active maximum_bytes, [])" admission_step "admission_inv maximum_active maximum_bytes"
proof
  show "admission_inv maximum_active maximum_bytes (admission_new maximum_active maximum_bytes, [])"
    by (simp add: admission_inv_def admission_new_def)
next
  fix s t
  assume inv: "admission_inv maximum_active maximum_bytes s"
  assume "admission_step s t"
  then show "admission_inv maximum_active maximum_bytes t" using inv
  proof cases
    case (step_reject requested maximum c r c' ps)
    then show ?thesis
      using inv by (auto simp: reject_destinations_def locked_def admission_inv_def Let_def split: if_splits)
  next
    case (step_reserve i ps bytes c r p c')
    then show ?thesis using inv reserve_fresh_inv reserve_again_inv by (cases "ap_admitted (ps ! i)") blast+
  qed (auto intro: acquire_inv drop_inv)
qed

section \<open>Properties\<close>

text \<open>
  C36: In every history of acquiring, reserving, replacing and dropping, the active count is the
  number of live permits and the reserved bytes are the sum of their reservations; neither ever
  exceeds its limit, and once every permit is dropped both are zero again.
\<close>

theorem admission_accounting:
  assumes "reach (admission_new maximum_active maximum_bytes, []) admission_step (c, ps)"
  shows "as_active (ac_state c) = length ps \<and> length ps \<le> maximum_active
    \<and> as_reserved (ac_state c) = sum_list (map held ps) \<and> as_reserved (ac_state c) \<le> maximum_bytes
    \<and> as_peak_active (ac_state c) \<le> maximum_active \<and> as_peak_reserved (ac_state c) \<le> maximum_bytes
    \<and> (ps = [] \<longrightarrow> as_active (ac_state c) = 0 \<and> as_reserved (ac_state c) = 0)"
  using admission.reach_inv [OF assms] by (auto simp: admission_inv_def Let_def)

theorem admission_accounting_witness:
  "as_reserved (ac_state (snd (snd (permit_reserve 64 \<lparr>ap_bytes = 0, ap_admitted = False\<rparr>
     (snd (acquire_slot (admission_new 1 128))))))) = 64"
proof -
  let ?p = "\<lparr>ap_bytes = 0, ap_admitted = False\<rparr>"
  let ?c = "snd (acquire_slot (admission_new 1 128))"
  obtain r p c where r: "permit_reserve 64 ?p ?c = (r, p, c)" by (cases "permit_reserve 64 ?p ?c")
  then have p: "p = \<lparr>ap_bytes = 64, ap_admitted = True\<rparr>"
    by (simp add: permit_reserve_def controller_reserve_def acquire_slot_def locked_def admission_new_def
        Let_def checked_add_def U64_MAX_def)
  have "admission_step (admission_new 1 128, []) (?c, [] @ [?p])"
    by (intro step_acquire) (simp add: acquire_slot_def locked_def admission_new_def Let_def)
  moreover have "admission_step (?c, [?p]) (c, [?p][0 := p])" using r by (intro step_reserve) auto
  ultimately have "reach (admission_new 1 128, []) admission_step (c, [p])"
    by (intro reach_two [of admission_step "(admission_new 1 128, [])" "(?c, [?p])"]) simp_all
  from admission_accounting [OF this] r show ?thesis by (simp add: p held_def)
qed

text \<open>
  A permit's reservation is granted exactly when the new total, with the permit's own earlier
  reservation given back, fits the byte limit and 64 bits; a refused request leaves every
  reservation as it was and is counted as a rejection. The underflow branch of replacing a
  reservation is never taken.
\<close>

theorem reservation_granted:
  assumes "reach (admission_new maximum_active maximum_bytes, []) admission_step (c, ps)"
    and "i < length ps" "permit_reserve bytes (ps ! i) c = (r, p, c')"
  defines "others \<equiv> sum_list (map held (drop_nth i ps))"
  shows "(r = Inr () \<longleftrightarrow> bytes \<le> maximum_bytes \<and> others + bytes \<le> maximum_bytes \<and> others + bytes \<le> U64_MAX)
    \<and> (r = Inr () \<longrightarrow> as_reserved (ac_state c') = others + bytes \<and> held p = bytes)
    \<and> (r \<noteq> Inr () \<longrightarrow> p = ps ! i \<and> as_reserved (ac_state c') = as_reserved (ac_state c)
        \<and> as_rejections (ac_state c') = saturating_add (as_rejections (ac_state c)) 1)"
proof -
  have inv: "admission_inv maximum_active maximum_bytes (c, ps)" using admission.reach_inv [OF assms(1)] .
  have split: "sum_list (map held ps) = held (ps ! i) + others"
    using sum_list_drop_nth [OF assms(2), of held] by (simp add: others_def)
  show ?thesis using inv assms(3) split
    by (auto simp: permit_reserve_def replace_reservation_def controller_reserve_def locked_def reject_def
        admission_inv_def Let_def held_def checked_add_def split: if_splits option.splits prod.splits)
qed

end
