(* ===== verification/Engine_Lifecycle.thy ===== *)
theory Engine_Lifecycle
  imports Transitions "HOL-Library.Multiset"
begin

text \<open>
  \<^verbatim>\<open>pathhydra-engine/src/lifecycle.rs\<close>: the engine runs, closes and shuts down; every admitted
  operation holds a permit that is counted until it is dropped. Durations are not modelled;
  what a waiter observes at each wake-up is an argument of \<open>wait_for_drain\<close>.
\<close>

section \<open>Model\<close>

datatype engine_lifecycle_state = Running | Closing | ShutDown

datatype operation_kind = RouteOp | MutationOp | CheckpointOp | MaintenanceOp

record active_operation_counts =
  ao_routes :: nat
  ao_mutations :: nat
  ao_checkpoints :: nat
  ao_maintenance :: nat

datatype lifecycle_error =
    LifecycleClosing
  | LifecycleShutDown
  | LifecycleCounterOverflow
  | MaintenanceBusy nat
  | LifecycleLockPoisoned

definition counts_total :: "active_operation_counts \<Rightarrow> nat option" where
  "counts_total a =
     Option.bind (checked_add (ao_routes a) (ao_mutations a)) (\<lambda>t.
     Option.bind (checked_add t (ao_checkpoints a)) (\<lambda>t.
     checked_add t (ao_maintenance a)))"

fun slot :: "operation_kind \<Rightarrow> active_operation_counts \<Rightarrow> nat" where
  "slot RouteOp a = ao_routes a"
| "slot MutationOp a = ao_mutations a"
| "slot CheckpointOp a = ao_checkpoints a"
| "slot MaintenanceOp a = ao_maintenance a"

fun set_slot :: "operation_kind \<Rightarrow> nat \<Rightarrow> active_operation_counts \<Rightarrow> active_operation_counts" where
  "set_slot RouteOp n a = a\<lparr>ao_routes := n\<rparr>"
| "set_slot MutationOp n a = a\<lparr>ao_mutations := n\<rparr>"
| "set_slot CheckpointOp n a = a\<lparr>ao_checkpoints := n\<rparr>"
| "set_slot MaintenanceOp n a = a\<lparr>ao_maintenance := n\<rparr>"

definition counts_increment :: "operation_kind \<Rightarrow> active_operation_counts \<Rightarrow> active_operation_counts option" where
  "counts_increment kind a = map_option (\<lambda>n. set_slot kind n a) (checked_add (slot kind a) 1)"

definition counts_decrement :: "operation_kind \<Rightarrow> active_operation_counts \<Rightarrow> active_operation_counts" where
  "counts_decrement kind a = set_slot kind (slot kind a - 1) a"

record lifecycle_state =
  ls_lifecycle :: engine_lifecycle_state
  ls_active :: active_operation_counts
  ls_shutdown_active_before :: "active_operation_counts option"
  ls_rejected_after_close :: nat

record lifecycle_controller =
  lc_state :: lifecycle_state
  lc_maximum_maintenance_workers :: nat
  lc_poisoned :: bool

definition lifecycle_new :: "nat \<Rightarrow> lifecycle_controller" where
  "lifecycle_new maximum_maintenance_workers =
     \<lparr>lc_state = \<lparr>ls_lifecycle = Running,
        ls_active = \<lparr>ao_routes = 0, ao_mutations = 0, ao_checkpoints = 0, ao_maintenance = 0\<rparr>,
        ls_shutdown_active_before = None, ls_rejected_after_close = 0\<rparr>,
      lc_maximum_maintenance_workers = maximum_maintenance_workers, lc_poisoned = False\<rparr>"

type_synonym 'a lifecycle_result = "(lifecycle_error + 'a) \<times> lifecycle_controller"

definition with_state :: "lifecycle_controller \<Rightarrow> (lifecycle_state \<Rightarrow> (lifecycle_error + 'a) \<times> lifecycle_state)
    \<Rightarrow> 'a lifecycle_result" where
  "with_state c f =
     (if lc_poisoned c then (Inl LifecycleLockPoisoned, c)
      else case f (lc_state c) of (r, st) \<Rightarrow> (r, c\<lparr>lc_state := st\<rparr>))"

definition count_rejection :: "lifecycle_state \<Rightarrow> lifecycle_state" where
  "count_rejection st = st\<lparr>ls_rejected_after_close := saturating_add (ls_rejected_after_close st) 1\<rparr>"

definition begin_counted :: "operation_kind \<Rightarrow> lifecycle_state \<Rightarrow> (lifecycle_error + operation_kind) \<times> lifecycle_state" where
  "begin_counted kind st =
     (case counts_increment kind (ls_active st) of
        None \<Rightarrow> (Inl LifecycleCounterOverflow, st)
      | Some active \<Rightarrow> (Inr kind, st\<lparr>ls_active := active\<rparr>))"

definition begin_operation :: "operation_kind \<Rightarrow> lifecycle_controller \<Rightarrow> operation_kind lifecycle_result" where
  "begin_operation kind c = with_state c (\<lambda>st.
     case ls_lifecycle st of
       Closing \<Rightarrow> (Inl LifecycleClosing, count_rejection st)
     | ShutDown \<Rightarrow> (Inl LifecycleShutDown, count_rejection st)
     | Running \<Rightarrow> begin_counted kind st)"

definition begin_route :: "lifecycle_controller \<Rightarrow> operation_kind lifecycle_result" where
  "begin_route c = begin_operation RouteOp c"

definition begin_mutation :: "lifecycle_controller \<Rightarrow> operation_kind lifecycle_result" where
  "begin_mutation c = begin_operation MutationOp c"

definition begin_checkpoint :: "lifecycle_controller \<Rightarrow> operation_kind lifecycle_result" where
  "begin_checkpoint c = begin_operation CheckpointOp c"

definition begin_maintenance :: "lifecycle_controller \<Rightarrow> operation_kind lifecycle_result" where
  "begin_maintenance c = with_state c (\<lambda>st.
     case ls_lifecycle st of
       Closing \<Rightarrow> (Inl LifecycleClosing, count_rejection st)
     | ShutDown \<Rightarrow> (Inl LifecycleShutDown, count_rejection st)
     | Running \<Rightarrow>
         if ao_maintenance (ls_active st) \<ge> lc_maximum_maintenance_workers c
         then (Inl (MaintenanceBusy (lc_maximum_maintenance_workers c)), st)
         else begin_counted MaintenanceOp st)"

definition close_admission :: "lifecycle_controller \<Rightarrow> engine_lifecycle_state lifecycle_result" where
  "close_admission c = with_state c (\<lambda>st.
     let st = (if ls_lifecycle st = Running
       then st\<lparr>ls_shutdown_active_before := Some (ls_active st), ls_lifecycle := Closing\<rparr> else st) in
     (Inr (ls_lifecycle st), st))"

definition mark_shut_down :: "lifecycle_controller \<Rightarrow> unit lifecycle_result" where
  "mark_shut_down c = with_state c (\<lambda>st.
     case counts_total (ls_active st) of
       None \<Rightarrow> (Inl LifecycleCounterOverflow, st)
     | Some n \<Rightarrow> if n \<noteq> 0 then (Inl LifecycleClosing, st) else (Inr (), st\<lparr>ls_lifecycle := ShutDown\<rparr>))"

definition lifecycle_snapshot :: "lifecycle_controller \<Rightarrow> lifecycle_error + lifecycle_state" where
  "lifecycle_snapshot c = fst (with_state c (\<lambda>st. (Inr st, st)))"

definition permit_release :: "operation_kind \<Rightarrow> lifecycle_controller \<Rightarrow> lifecycle_controller" where
  "permit_release kind c =
     (if lc_poisoned c then c
      else c\<lparr>lc_state := (lc_state c)\<lparr>ls_active := counts_decrement kind (ls_active (lc_state c))\<rparr>\<rparr>)"

text \<open>One wake-up of a drain waiter: whether its time was up before it waited, the active counts
  when the wait returned, and whether the wait timed out. \<open>None\<close> is a waiter still asleep.\<close>

record drain_wake =
  dw_expired :: bool
  dw_active :: active_operation_counts
  dw_timed_out :: bool

record drain_outcome =
  do_drained :: bool
  do_remaining :: active_operation_counts

fun wait_for_drain :: "active_operation_counts \<Rightarrow> drain_wake list \<Rightarrow> (lifecycle_error + drain_outcome) option" where
  "wait_for_drain active wakes =
     (case counts_total active of
        None \<Rightarrow> Some (Inl LifecycleCounterOverflow)
      | Some n \<Rightarrow>
          if n = 0 then Some (Inr \<lparr>do_drained = True, do_remaining = active\<rparr>)
          else (case wakes of
              [] \<Rightarrow> None
            | wake # rest \<Rightarrow>
                if dw_expired wake then Some (Inr \<lparr>do_drained = False, do_remaining = active\<rparr>)
                else if dw_timed_out wake then
                  (case counts_total (dw_active wake) of
                     None \<Rightarrow> Some (Inl LifecycleCounterOverflow)
                   | Some n \<Rightarrow> Some (Inr \<lparr>do_drained = (n = 0), do_remaining = dw_active wake\<rparr>))
                else wait_for_drain (dw_active wake) rest))"

section \<open>Histories\<close>

type_synonym lifecycle_system = "lifecycle_controller \<times> operation_kind list"

inductive lifecycle_step :: "lifecycle_system \<Rightarrow> lifecycle_system \<Rightarrow> bool" where
  step_begin: "kind \<noteq> MaintenanceOp \<Longrightarrow> begin_operation kind c = (r, c') \<Longrightarrow>
    lifecycle_step (c, ps) (c', case r of Inl _ \<Rightarrow> ps | Inr p \<Rightarrow> ps @ [p])"
| step_begin_maintenance: "begin_maintenance c = (r, c') \<Longrightarrow>
    lifecycle_step (c, ps) (c', case r of Inl _ \<Rightarrow> ps | Inr p \<Rightarrow> ps @ [p])"
| step_close: "close_admission c = (r, c') \<Longrightarrow> lifecycle_step (c, ps) (c', ps)"
| step_shut_down: "mark_shut_down c = (r, c') \<Longrightarrow> lifecycle_step (c, ps) (c', ps)"
| step_release: "i < length ps \<Longrightarrow> lifecycle_step (c, ps) (permit_release (ps ! i) c, drop_nth i ps)"

definition live :: "operation_kind \<Rightarrow> operation_kind list \<Rightarrow> nat" where
  "live kind ps = sum_list (map (\<lambda>p. if p = kind then 1 else 0) ps)"

definition lifecycle_inv :: "nat \<Rightarrow> lifecycle_system \<Rightarrow> bool" where
  "lifecycle_inv workers s \<longleftrightarrow>
     (case s of (c, ps) \<Rightarrow> let st = lc_state c in
        lc_maximum_maintenance_workers c = workers \<and> \<not> lc_poisoned c
        \<and> (\<forall>kind. slot kind (ls_active st) = live kind ps)
        \<and> live MaintenanceOp ps \<le> workers
        \<and> (ls_lifecycle st = ShutDown \<longrightarrow> ps = []))"

lemma slot_set_slot: "slot k (set_slot k' n a) = (if k = k' then n else slot k a)"
  by (cases k; cases k') simp_all

lemma live_append: "live k (ps @ [p]) = live k ps + (if p = k then 1 else 0)"
  by (simp add: live_def)

lemma live_drop_nth:
  assumes "i < length ps"
  shows "live k ps = (if ps ! i = k then 1 else 0) + live k (drop_nth i ps)"
  unfolding live_def by (rule sum_list_drop_nth [OF assms])

lemma live_sum: "length ps = live RouteOp ps + live MutationOp ps + live CheckpointOp ps + live MaintenanceOp ps"
proof (induction ps)
  case (Cons p ps)
  then show ?case by (cases p) (auto simp: live_def)
qed (simp add: live_def)

lemma counts_total_live:
  assumes "\<forall>kind. slot kind a = live kind ps" "counts_total a = Some n"
  shows "n = length ps"
proof -
  have "ao_routes a = live RouteOp ps" "ao_mutations a = live MutationOp ps"
      "ao_checkpoints a = live CheckpointOp ps" "ao_maintenance a = live MaintenanceOp ps"
    using assms(1) by (metis slot.simps)+
  with assms(2) live_sum [of ps] show ?thesis
    by (auto simp: counts_total_def bind_eq_Some_conv checked_add_Some_iff)
qed

lemma begin_counted_inv:
  assumes "lifecycle_inv w (c, ps)" "begin_counted kind (lc_state c) = (r, st)" "ls_lifecycle (lc_state c) = Running"
    and "kind = MaintenanceOp \<Longrightarrow> live MaintenanceOp ps < w"
  shows "lifecycle_inv w (c\<lparr>lc_state := st\<rparr>, case r of Inl _ \<Rightarrow> ps | Inr p \<Rightarrow> ps @ [p])"
  using assms by (auto simp: begin_counted_def lifecycle_inv_def Let_def counts_increment_def
      slot_set_slot live_append checked_add_Some_iff split: option.splits)

lemma begin_inv:
  assumes "lifecycle_inv w (c, ps)" "kind \<noteq> MaintenanceOp" "begin_operation kind c = (r, c')"
  shows "lifecycle_inv w (c', case r of Inl _ \<Rightarrow> ps | Inr p \<Rightarrow> ps @ [p])"
  using assms begin_counted_inv [OF assms(1), of kind]
  by (auto simp: begin_operation_def with_state_def lifecycle_inv_def Let_def count_rejection_def
      split: engine_lifecycle_state.splits prod.splits if_splits)

lemma begin_maintenance_inv:
  assumes "lifecycle_inv w (c, ps)" "begin_maintenance c = (r, c')"
  shows "lifecycle_inv w (c', case r of Inl _ \<Rightarrow> ps | Inr p \<Rightarrow> ps @ [p])"
proof -
  have slot: "ao_maintenance (ls_active (lc_state c)) = live MaintenanceOp ps"
    using assms(1) by (auto simp: lifecycle_inv_def Let_def dest: spec [of _ MaintenanceOp])
  show ?thesis
    using assms begin_counted_inv [OF assms(1), of MaintenanceOp] slot
    by (auto simp: begin_maintenance_def with_state_def lifecycle_inv_def Let_def count_rejection_def
        split: engine_lifecycle_state.splits prod.splits if_splits)
qed

lemma mark_shut_down_inv:
  assumes "lifecycle_inv w (c, ps)" "mark_shut_down c = (r, c')"
  shows "lifecycle_inv w (c', ps)"
proof -
  have "n = length ps" if "counts_total (ls_active (lc_state c)) = Some n" for n
    using counts_total_live that assms(1) by (auto simp: lifecycle_inv_def Let_def)
  then show ?thesis using assms
    by (auto simp: mark_shut_down_def with_state_def lifecycle_inv_def Let_def
        split: option.splits if_splits prod.splits)
qed

lemma release_inv:
  assumes "lifecycle_inv w (c, ps)" "i < length ps"
  shows "lifecycle_inv w (permit_release (ps ! i) c, drop_nth i ps)"
proof -
  have "live k (drop_nth i ps) = live k ps - (if ps ! i = k then 1 else 0)" for k
    using live_drop_nth [OF assms(2), of k] by simp
  then show ?thesis using assms
    by (auto simp: permit_release_def lifecycle_inv_def Let_def counts_decrement_def slot_set_slot)
qed

interpretation lifecycle: invariant_system "(lifecycle_new workers, [])" lifecycle_step "lifecycle_inv workers"
proof
  show "lifecycle_inv workers (lifecycle_new workers, [])"
  proof -
    have "slot kind \<lparr>ao_routes = 0, ao_mutations = 0, ao_checkpoints = 0, ao_maintenance = 0\<rparr> = 0" for kind
      by (cases kind) simp_all
    then show ?thesis by (simp add: lifecycle_inv_def lifecycle_new_def live_def)
  qed
next
  fix s t
  assume inv: "lifecycle_inv workers s" and "lifecycle_step s t"
  from this(2) show "lifecycle_inv workers t" using inv
  proof cases
    case (step_close c r c' ps)
    then show ?thesis
      using inv by (auto simp: close_admission_def with_state_def lifecycle_inv_def Let_def split: if_splits)
  qed (auto intro: begin_inv begin_maintenance_inv mark_shut_down_inv release_inv)
qed

section \<open>Properties\<close>

text \<open>
  C37: In every history the active counts are the numbers of live permits of each kind, no more
  maintenance operations run than there are workers, and a shut-down engine has no operation in
  flight.
\<close>

theorem lifecycle_accounting:
  assumes "reach (lifecycle_new workers, []) lifecycle_step (c, ps)"
  shows "(\<forall>kind. slot kind (ls_active (lc_state c)) = live kind ps)
    \<and> ao_maintenance (ls_active (lc_state c)) \<le> workers
    \<and> (ls_lifecycle (lc_state c) = ShutDown \<longrightarrow> ps = [])"
proof -
  have inv: "lifecycle_inv workers (c, ps)" using lifecycle.reach_inv [OF assms] .
  then have "\<forall>kind. slot kind (ls_active (lc_state c)) = live kind ps" by (simp add: lifecycle_inv_def Let_def)
  note slots = this
  have "ao_maintenance (ls_active (lc_state c)) = live MaintenanceOp ps"
    using slots [THEN spec, of MaintenanceOp] by simp
  with slots inv show ?thesis by (simp add: lifecycle_inv_def Let_def)
qed

theorem lifecycle_accounting_witness:
  "ao_routes (ls_active (lc_state (snd (begin_operation RouteOp (lifecycle_new 1))))) = 1"
proof -
  let ?c = "snd (begin_operation RouteOp (lifecycle_new 1))"
  have b: "begin_operation RouteOp (lifecycle_new 1) = (Inr RouteOp, ?c)"
    by (simp add: begin_operation_def with_state_def lifecycle_new_def begin_counted_def counts_increment_def
        checked_add_def U64_MAX_def)
  have "lifecycle_step (lifecycle_new 1, []) (?c, [RouteOp])" using step_begin [OF _ b, of "[]"] by simp
  then have "reach (lifecycle_new 1, []) lifecycle_step (?c, [RouteOp])" by (rule reach_one)
  from lifecycle_accounting [OF this] have "slot RouteOp (ls_active (lc_state ?c)) = 1"
    by (simp add: live_def)
  then show ?thesis by simp
qed

lemma mset_drop_nth: "mset (drop_nth i xs) \<subseteq># mset xs"
proof (cases "i < length xs")
  case True
  then have "mset xs = mset (take i xs @ xs ! i # drop (Suc i) xs)" using id_take_nth_drop [OF True] by simp
  then show ?thesis by (simp add: drop_nth_def)
qed (simp add: drop_nth_def)

lemma begin_refused:
  assumes "ls_lifecycle (lc_state c) \<noteq> Running"
  shows "\<exists>e. fst (begin_operation kind c) = Inl e" "\<exists>e. fst (begin_maintenance c) = Inl e"
    "ls_lifecycle (lc_state (snd (begin_operation kind c))) = ls_lifecycle (lc_state c)"
    "ls_lifecycle (lc_state (snd (begin_maintenance c))) = ls_lifecycle (lc_state c)"
  using assms by (cases "lc_poisoned c"; cases "ls_lifecycle (lc_state c)";
      simp add: begin_operation_def begin_maintenance_def with_state_def count_rejection_def)+

definition no_new_work :: "lifecycle_system \<Rightarrow> lifecycle_system \<Rightarrow> bool" where
  "no_new_work s t \<longleftrightarrow> (ls_lifecycle (lc_state (fst s)) \<noteq> Running \<longrightarrow>
     ls_lifecycle (lc_state (fst t)) \<noteq> Running \<and> mset (snd t) \<subseteq># mset (snd s))"

lemma no_new_work_step: "lifecycle_step s t \<Longrightarrow> no_new_work s t"
proof (cases rule: lifecycle_step.cases, assumption)
  fix kind c r c' ps
  assume st: "s = (c, ps)" "t = (c', case r of Inl _ \<Rightarrow> ps | Inr p \<Rightarrow> ps @ [p])" "begin_operation kind c = (r, c')"
  then show "no_new_work s t"
    using begin_refused(1,3) [of c kind] by (auto simp: no_new_work_def)
next
  fix c r c' ps
  assume st: "s = (c, ps)" "t = (c', case r of Inl _ \<Rightarrow> ps | Inr p \<Rightarrow> ps @ [p])" "begin_maintenance c = (r, c')"
  then show "no_new_work s t"
    using begin_refused(2,4) [of c] by (auto simp: no_new_work_def)
next
  fix c r c' ps
  assume "s = (c, ps)" "t = (c', ps)" "close_admission c = (r, c')"
  then show "no_new_work s t"
    by (auto simp: no_new_work_def close_admission_def with_state_def Let_def split: if_splits)
next
  fix c r c' ps
  assume "s = (c, ps)" "t = (c', ps)" "mark_shut_down c = (r, c')"
  then show "no_new_work s t"
    by (auto simp: no_new_work_def mark_shut_down_def with_state_def split: if_splits option.splits)
next
  fix i ps c
  assume "s = (c, ps)" "t = (permit_release (ps ! i) c, drop_nth i ps)"
  then show "no_new_work s t" by (auto simp: no_new_work_def permit_release_def mset_drop_nth)
qed

lemma no_new_work_trans: "no_new_work s t \<Longrightarrow> no_new_work t u \<Longrightarrow> no_new_work s u"
  by (auto simp: no_new_work_def intro: subset_mset.order_trans)

text \<open>
  C38: Closing is final: once the engine no longer runs, no sequence of operations makes it run
  again, every attempt to begin work is refused, and the permits in flight only get fewer.
\<close>

theorem closing_is_final:
  assumes "reach (lifecycle_new workers, []) lifecycle_step s" "ls_lifecycle (lc_state (fst s)) \<noteq> Running"
    and "reach s lifecycle_step t"
  shows "ls_lifecycle (lc_state (fst t)) \<noteq> Running \<and> mset (snd t) \<subseteq># mset (snd s)
    \<and> (\<forall>kind. \<exists>e. fst (begin_operation kind (fst t)) = Inl e) \<and> (\<exists>e. fst (begin_maintenance (fst t)) = Inl e)"
proof -
  have "no_new_work s t"
  proof (rule lifecycle.reach_from [OF assms(3) lifecycle.reach_inv [OF assms(1)], THEN conjunct1])
    show "no_new_work s s" for s by (simp add: no_new_work_def)
    show "no_new_work s u" if "no_new_work s t" "lifecycle_step t u" for s t u
      using no_new_work_trans [OF that(1) no_new_work_step [OF that(2)]] .
  qed
  then show ?thesis using assms(2) begin_refused(1,2) [of "fst t"] by (auto simp: no_new_work_def)
qed

definition closed_engine :: lifecycle_controller where
  "closed_engine = snd (close_admission (lifecycle_new 1))"

lemma closed_engine_reached: "reach (lifecycle_new 1, []) lifecycle_step (closed_engine, [])"
  unfolding closed_engine_def
  by (intro reach_one step_close [of _ "fst (close_admission (lifecycle_new 1))"]) simp

theorem closing_is_final_witness:
  "\<exists>e. fst (begin_operation RouteOp closed_engine) = Inl e"
proof -
  have "ls_lifecycle (lc_state (fst (closed_engine, []))) \<noteq> Running"
    by (simp add: closed_engine_def close_admission_def with_state_def lifecycle_new_def)
  from closing_is_final [OF closed_engine_reached this reach_init] show ?thesis by simp
qed

section \<open>Draining\<close>

lemma counts_total_empty:
  "\<forall>kind. slot kind a = live kind [] \<Longrightarrow> counts_total a = Some 0"
proof -
  assume *: "\<forall>kind. slot kind a = live kind []"
  have "ao_routes a = 0" "ao_mutations a = 0" "ao_checkpoints a = 0" "ao_maintenance a = 0"
    using * [THEN spec, of RouteOp] * [THEN spec, of MutationOp] * [THEN spec, of CheckpointOp]
      * [THEN spec, of MaintenanceOp] by (simp_all add: live_def)
  then show ?thesis by (simp add: counts_total_def checked_add_def)
qed

lemma drain_all:
  "\<exists>c'. reach (c, ps) lifecycle_step (c', []) \<and> ls_lifecycle (lc_state c') = ls_lifecycle (lc_state c)"
proof (induction ps arbitrary: c)
  case Nil
  show ?case by (intro exI [of _ c] conjI reach_init refl)
next
  case (Cons p ps)
  have first: "lifecycle_step (c, p # ps) (permit_release p c, ps)"
    using step_release [of 0 "p # ps" c] by (simp add: drop_nth_def)
  have chain: "reach s lifecycle_step u" if "lifecycle_step s t" "reach t lifecycle_step u" for s t u
    using that(2,1) by (induction rule: reach.induct) (auto intro: reach_one reach_step)
  from Cons.IH [of "permit_release p c"] obtain c' where
      "reach (permit_release p c, ps) lifecycle_step (c', [])"
      "ls_lifecycle (lc_state c') = ls_lifecycle (lc_state (permit_release p c))" by blast
  moreover have "ls_lifecycle (lc_state (permit_release p c)) = ls_lifecycle (lc_state c)"
    by (simp add: permit_release_def)
  ultimately show ?case using chain [OF first] by auto
qed

text \<open>
  C39: A closing engine can always finish: from any reachable state dropping the live permits leads
  to one without permits and in the same lifecycle state; marking the engine shut down succeeds
  exactly in the states without permits.
\<close>

theorem shut_down_exactly_when_drained:
  assumes "reach (lifecycle_new workers, []) lifecycle_step (c, ps)"
  shows "(fst (mark_shut_down c) = Inr () \<longleftrightarrow> ps = [])
    \<and> (fst (mark_shut_down c) = Inr () \<longrightarrow> ls_lifecycle (lc_state (snd (mark_shut_down c))) = ShutDown)
    \<and> (\<exists>c'. reach (c, ps) lifecycle_step (c', []) \<and> ls_lifecycle (lc_state c') = ls_lifecycle (lc_state c))"
proof -
  have inv: "lifecycle_inv workers (c, ps)" using lifecycle.reach_inv [OF assms] .
  then have slots: "\<forall>kind. slot kind (ls_active (lc_state c)) = live kind ps" "\<not> lc_poisoned c"
    by (simp_all add: lifecycle_inv_def Let_def)
  have "fst (mark_shut_down c) = Inr () \<longleftrightarrow> ps = []"
  proof
    assume "fst (mark_shut_down c) = Inr ()"
    then have "counts_total (ls_active (lc_state c)) = Some 0"
      using slots(2) by (auto simp: mark_shut_down_def with_state_def split: option.splits if_splits)
    then show "ps = []" using counts_total_live [OF slots(1)] by simp
  next
    assume "ps = []"
    then show "fst (mark_shut_down c) = Inr ()"
      using counts_total_empty slots by (simp add: mark_shut_down_def with_state_def)
  qed
  moreover have "fst (mark_shut_down c) = Inr () \<longrightarrow> ls_lifecycle (lc_state (snd (mark_shut_down c))) = ShutDown"
    using slots(2) by (auto simp: mark_shut_down_def with_state_def split: option.splits if_splits)
  moreover have "\<exists>c'. reach (c, ps) lifecycle_step (c', []) \<and> ls_lifecycle (lc_state c') = ls_lifecycle (lc_state c)"
    by (rule drain_all)
  ultimately show ?thesis by blast
qed

theorem shut_down_exactly_when_drained_witness:
  "fst (mark_shut_down closed_engine) = Inr ()"
  using shut_down_exactly_when_drained [OF closed_engine_reached] by simp

end
