(* ===== verification/Engine_Retirement.thy ===== *)
theory Engine_Retirement
  imports Transitions
begin

text \<open>
  \<^verbatim>\<open>pathhydra-engine/src/retirement.rs\<close>: replaced routing bundles wait in the retirement list
  until no lease on them is left and are then deleted from disk.

  What the process observes is an environment: which leases are still held and how each
  \<^verbatim>\<open>remove_dir_all\<close> ends. \<open>reap\<close> also returns the paths it asked the file system to delete. The
  waiting loop of \<^verbatim>\<open>retire\<close> runs over the environments of its successive rounds; \<open>None\<close> means it
  is still waiting after them.
\<close>

section \<open>Model\<close>

text \<open>\<^verbatim>\<open>std::path::Path\<close> as its components, with \<^verbatim>\<open>parent\<close> and \<^verbatim>\<open>file_name\<close>.\<close>

datatype path_component = RootDir | CurDir | ParentDir | Normal string

type_synonym path = "path_component list"

definition path_parent :: "path \<Rightarrow> path option" where
  "path_parent p = (if p = [] \<or> last p = RootDir then None else Some (butlast p))"

definition path_file_name :: "path \<Rightarrow> string option" where
  "path_file_name p = (if p = [] then None else case last p of Normal n \<Rightarrow> Some n | _ \<Rightarrow> None)"

definition is_exact_child :: "path \<Rightarrow> path \<Rightarrow> bool" where
  "is_exact_child root p \<longleftrightarrow> path_parent p = Some root \<and> path_file_name p \<noteq> None"

datatype delete_result = Deleted | NotFound | DeleteFailed string

record retirement_env =
  renv_leased :: "nat \<Rightarrow> bool"
  renv_remove_dir_all :: "path \<Rightarrow> delete_result"

record retired_bundle =
  rb_path :: path
  rb_bytes :: nat
  rb_lease :: nat

record retirement_manager =
  rm_root :: path
  rm_maximum_count :: nat
  rm_maximum_bytes :: nat
  rm_bundles :: "retired_bundle list"
  rm_last_cleanup_failure :: "string option"
  rm_backpressure_waits :: nat
  rm_poisoned :: bool

record retirement_report =
  rn_bundle_count :: nat
  rn_bundle_bytes :: nat
  rn_maximum_bundle_count :: nat
  rn_maximum_bundle_bytes :: nat
  rn_limit_exceeded :: bool
  rn_last_cleanup_failure :: "string option"
  rn_backpressure_waits :: nat

definition retirement_new :: "path \<Rightarrow> nat \<Rightarrow> nat \<Rightarrow> retirement_manager" where
  "retirement_new root maximum_count maximum_bytes =
     \<lparr>rm_root = root, rm_maximum_count = maximum_count, rm_maximum_bytes = maximum_bytes,
      rm_bundles = [], rm_last_cleanup_failure = None, rm_backpressure_waits = 0, rm_poisoned = False\<rparr>"

definition retired_bytes :: "retired_bundle list \<Rightarrow> nat" where
  "retired_bytes bundles = fold (\<lambda>entry s. saturating_add s (rb_bytes entry)) bundles 0"

text \<open>One entry of the reaping loop: the entries kept so far, the failure text and the deletions
  asked for.\<close>

definition reap_entry :: "retirement_env \<Rightarrow> retired_bundle
    \<Rightarrow> retired_bundle list \<times> string option \<times> path list \<Rightarrow> retired_bundle list \<times> string option \<times> path list" where
  "reap_entry env entry acc =
     (case acc of (retained, failure, asked) \<Rightarrow>
        if renv_leased env (rb_lease entry) then (retained @ [entry], failure, asked)
        else case renv_remove_dir_all env (rb_path entry) of
            Deleted \<Rightarrow> (retained, None, asked @ [rb_path entry])
          | NotFound \<Rightarrow> (retained, None, asked @ [rb_path entry])
          | DeleteFailed reason \<Rightarrow> (retained @ [entry], Some reason, asked @ [rb_path entry]))"

definition reap :: "retirement_env \<Rightarrow> retirement_manager \<Rightarrow> retirement_manager \<times> path list" where
  "reap env m =
     (if rm_poisoned m then (m, [])
      else case fold (reap_entry env) (rm_bundles m) ([], rm_last_cleanup_failure m, []) of
        (retained, failure, asked) \<Rightarrow>
          (m\<lparr>rm_bundles := retained, rm_last_cleanup_failure := failure\<rparr>, asked))"

definition retirement_admits :: "retirement_manager \<Rightarrow> nat \<Rightarrow> bool" where
  "retirement_admits m additional =
     (length (rm_bundles m) < rm_maximum_count m
      \<and> (case checked_add (retired_bytes (rm_bundles m)) additional of
           None \<Rightarrow> False | Some n \<Rightarrow> n \<le> rm_maximum_bytes m))"

fun retire_loop :: "retired_bundle \<Rightarrow> bool \<Rightarrow> retirement_env list \<Rightarrow> retirement_manager \<Rightarrow> retirement_manager option" where
  "retire_loop retiring enforce_limits [] m = None"
| "retire_loop retiring enforce_limits (env # rounds) m =
     (let m = fst (reap env m) in
      if rm_poisoned m then retire_loop retiring enforce_limits rounds m
      else if list_ex (\<lambda>entry. rb_path entry = rb_path retiring) (rm_bundles m) then Some m
      else if retirement_admits m (rb_bytes retiring) \<or> \<not> enforce_limits
      then Some (m\<lparr>rm_bundles := rm_bundles m @ [retiring]\<rparr>)
      else retire_loop retiring enforce_limits rounds
        (m\<lparr>rm_backpressure_waits := saturating_add (rm_backpressure_waits m) 1\<rparr>))"

definition retire :: "retired_bundle \<Rightarrow> bool \<Rightarrow> retirement_env list \<Rightarrow> retirement_manager \<Rightarrow> retirement_manager option" where
  "retire retiring enforce_limits rounds m =
     (if \<not> is_exact_child (rm_root m) (rb_path retiring) then Some m
      else retire_loop retiring enforce_limits rounds m)"

definition capacity_available :: "nat \<Rightarrow> retirement_env \<Rightarrow> retirement_manager \<Rightarrow> bool \<times> retirement_manager" where
  "capacity_available additional env m =
     (let m = fst (reap env m) in
      (\<not> rm_poisoned m \<and> retirement_admits m additional, m))"

definition record_backpressure_wait :: "retirement_manager \<Rightarrow> retirement_manager" where
  "record_backpressure_wait m =
     (if rm_poisoned m then m
      else m\<lparr>rm_backpressure_waits := saturating_add (rm_backpressure_waits m) 1\<rparr>)"

definition retirement_snapshot :: "retirement_manager \<Rightarrow> retirement_report" where
  "retirement_snapshot m =
     (if rm_poisoned m then
        \<lparr>rn_bundle_count = 0, rn_bundle_bytes = 0, rn_maximum_bundle_count = rm_maximum_count m,
         rn_maximum_bundle_bytes = rm_maximum_bytes m, rn_limit_exceeded = True,
         rn_last_cleanup_failure = Some ''retirement state lock is poisoned'', rn_backpressure_waits = 0\<rparr>
      else let bytes = retired_bytes (rm_bundles m) in
        \<lparr>rn_bundle_count = length (rm_bundles m), rn_bundle_bytes = bytes,
         rn_maximum_bundle_count = rm_maximum_count m, rn_maximum_bundle_bytes = rm_maximum_bytes m,
         rn_limit_exceeded = (length (rm_bundles m) > rm_maximum_count m \<or> bytes > rm_maximum_bytes m),
         rn_last_cleanup_failure = rm_last_cleanup_failure m, rn_backpressure_waits = rm_backpressure_waits m\<rparr>)"

section \<open>Reaping\<close>

text \<open>An entry stays when it is leased or its deletion failed.\<close>

definition kept :: "retirement_env \<Rightarrow> retired_bundle \<Rightarrow> bool" where
  "kept env entry \<longleftrightarrow> renv_leased env (rb_lease entry)
     \<or> (\<exists>reason. renv_remove_dir_all env (rb_path entry) = DeleteFailed reason)"

lemma reap_fold:
  "fst (fold (reap_entry env) entries (retained, failure, asked)) = retained @ filter (kept env) entries
   \<and> snd (snd (fold (reap_entry env) entries (retained, failure, asked))) =
       asked @ map rb_path (filter (\<lambda>entry. \<not> renv_leased env (rb_lease entry)) entries)"
  by (induction entries arbitrary: retained failure asked)
    (auto simp: reap_entry_def kept_def split: delete_result.splits)

lemma reap_bundles: "\<not> rm_poisoned m \<Longrightarrow> rm_bundles (fst (reap env m)) = filter (kept env) (rm_bundles m)"
  using reap_fold [of env "rm_bundles m" "[]" "rm_last_cleanup_failure m" "[]"]
  by (auto simp: reap_def split: prod.splits)

lemma reap_asked:
  "snd (reap env m) = (if rm_poisoned m then []
     else map rb_path (filter (\<lambda>entry. \<not> renv_leased env (rb_lease entry)) (rm_bundles m)))"
  using reap_fold [of env "rm_bundles m" "[]" "rm_last_cleanup_failure m" "[]"]
  by (auto simp: reap_def split: prod.splits)

lemma reap_frame:
  "rm_root (fst (reap env m)) = rm_root m" "rm_maximum_count (fst (reap env m)) = rm_maximum_count m"
  "rm_maximum_bytes (fst (reap env m)) = rm_maximum_bytes m" "rm_poisoned (fst (reap env m)) = rm_poisoned m"
  "rm_poisoned m \<Longrightarrow> fst (reap env m) = m"
  by (auto simp: reap_def split: prod.splits)

lemma retired_bytes_sum: "retired_bytes entries = min (sum_list (map rb_bytes entries)) U64_MAX"
proof -
  have "fold (\<lambda>entry s. saturating_add s (rb_bytes entry)) entries b
      = (if entries = [] then b else min (b + sum_list (map rb_bytes entries)) U64_MAX)" for b
    by (induction entries arbitrary: b) (auto simp: saturating_add_def)
  from this [of 0] show ?thesis by (simp add: retired_bytes_def)
qed

lemma sum_filter_le: "sum_list (map f (filter p xs)) \<le> sum_list (map (f :: 'a \<Rightarrow> nat) xs)"
  by (induction xs) auto

section \<open>Histories\<close>

text \<open>Steps that respect the limits are marked: only a forced retirement may exceed them. A call of
  \<^verbatim>\<open>retire\<close> is several critical sections: a reap, an admission check, and so on each round. When no
  other thread comes in between they are one \<open>step_retire\<close>. When others do, the same sections are
  separate steps: \<open>step_reap\<close> for the reap, \<open>step_wait\<close> for a check that has to wait, and for the
  check that admits, \<open>step_retire\<close> with one round in which every lease is held, since then reaping
  changes nothing (\<open>admission_section\<close>).\<close>

lemma reap_held:
  assumes "\<And>entry. entry \<in> set (rm_bundles m) \<Longrightarrow> renv_leased env (rb_lease entry)"
  shows "fst (reap env m) = m"
proof -
  have "fold (reap_entry env) entries (retained, failure, asked) = (retained @ entries, failure, asked)"
    if "set entries \<subseteq> set (rm_bundles m)" for entries retained failure asked
    using that assms by (induction entries arbitrary: retained) (simp_all add: reap_entry_def)
  from this [of "rm_bundles m" "[]"] show ?thesis by (simp add: reap_def)
qed

lemma admission_section:
  assumes "is_exact_child (rm_root m) (rb_path retiring)" "\<not> rm_poisoned m"
    and "\<And>entry. entry \<in> set (rm_bundles m) \<Longrightarrow> renv_leased env (rb_lease entry)"
  shows "retire retiring enforce [env] m =
    (if list_ex (\<lambda>entry. rb_path entry = rb_path retiring) (rm_bundles m) then Some m
     else if retirement_admits m (rb_bytes retiring) \<or> \<not> enforce then Some (m\<lparr>rm_bundles := rm_bundles m @ [retiring]\<rparr>)
     else None)"
  using assms reap_held [OF assms(3)] by (simp add: retire_def Let_def)

inductive retirement_step :: "bool \<Rightarrow> retirement_manager \<Rightarrow> retirement_manager \<Rightarrow> bool" for forced where
  step_reap: "retirement_step forced m (fst (reap env m))"
| step_retire: "retire retiring enforce rounds m = Some m' \<Longrightarrow> enforce \<or> forced \<Longrightarrow> retirement_step forced m m'"
| step_capacity: "retirement_step forced m (snd (capacity_available additional env m))"
| step_wait: "retirement_step forced m (record_backpressure_wait m)"

definition retirement_inv :: "bool \<Rightarrow> path \<Rightarrow> nat \<Rightarrow> nat \<Rightarrow> retirement_manager \<Rightarrow> bool" where
  "retirement_inv forced root mc mb m \<longleftrightarrow>
     rm_root m = root \<and> rm_maximum_count m = mc \<and> rm_maximum_bytes m = mb \<and> \<not> rm_poisoned m
     \<and> distinct (map rb_path (rm_bundles m)) \<and> (\<forall>entry \<in> set (rm_bundles m). is_exact_child root (rb_path entry))
     \<and> (\<not> forced \<longrightarrow> length (rm_bundles m) \<le> mc \<and> retired_bytes (rm_bundles m) \<le> mb)"

lemma reap_inv: "retirement_inv forced root mc mb m \<Longrightarrow> retirement_inv forced root mc mb (fst (reap env m))"
  using length_filter_le [of "kept env" "rm_bundles m"] sum_filter_le [of rb_bytes "kept env" "rm_bundles m"]
  by (auto simp: retirement_inv_def reap_frame reap_bundles retired_bytes_sum distinct_map_filter
      intro: le_trans [OF length_filter_le])

lemma retire_loop_inv:
  assumes "retire_loop retiring enforce rounds m = Some m'" "retirement_inv forced root mc mb m"
    and "is_exact_child root (rb_path retiring)" "enforce \<or> forced"
  shows "retirement_inv forced root mc mb m'"
  using assms
proof (induction retiring enforce rounds m rule: retire_loop.induct)
  case (2 retiring enforce env rounds m)
  let ?m = "fst (reap env m)"
  have inv: "retirement_inv forced root mc mb ?m" using reap_inv [OF "2.prems"(2)] .
  then have np: "\<not> rm_poisoned ?m" by (simp add: retirement_inv_def)
  consider (present) "list_ex (\<lambda>entry. rb_path entry = rb_path retiring) (rm_bundles ?m)"
    | (admitted) "\<not> list_ex (\<lambda>entry. rb_path entry = rb_path retiring) (rm_bundles ?m)"
        "retirement_admits ?m (rb_bytes retiring) \<or> \<not> enforce"
    | (waiting) "\<not> list_ex (\<lambda>entry. rb_path entry = rb_path retiring) (rm_bundles ?m)"
        "\<not> (retirement_admits ?m (rb_bytes retiring) \<or> \<not> enforce)" by blast
  then show ?case
  proof cases
    case present
    with "2.prems"(1) np inv show ?thesis by (simp add: Let_def)
  next
    case admitted
    then have m': "m' = ?m\<lparr>rm_bundles := rm_bundles ?m @ [retiring]\<rparr>" using "2.prems"(1) np by (simp add: Let_def)
    have "retirement_admits ?m (rb_bytes retiring)" if "\<not> forced" using admitted(2) "2.prems"(4) that by blast
    then show ?thesis using inv admitted(1) "2.prems"(3)
      by (auto simp: m' retirement_inv_def list_ex_iff retirement_admits_def retired_bytes_sum
          checked_add_Some_iff split: option.splits)
  next
    case waiting
    let ?w = "?m\<lparr>rm_backpressure_waits := saturating_add (rm_backpressure_waits ?m) 1\<rparr>"
    have "retire_loop retiring enforce rounds ?w = Some m'" using "2.prems"(1) np waiting by (simp add: Let_def)
    moreover have "retirement_inv forced root mc mb ?w" using inv by (simp add: retirement_inv_def)
    ultimately show ?thesis using "2.IH"(2) [OF refl np] waiting "2.prems"(3,4) by blast
  qed
qed simp

interpretation retirement: invariant_system
  "retirement_new root maximum_count maximum_bytes" "retirement_step forced"
  "retirement_inv forced root maximum_count maximum_bytes"
proof
  show "retirement_inv forced root maximum_count maximum_bytes (retirement_new root maximum_count maximum_bytes)"
    by (simp add: retirement_inv_def retirement_new_def retired_bytes_def)
next
  fix s t
  assume inv: "retirement_inv forced root maximum_count maximum_bytes s"
  assume "retirement_step forced s t"
  then show "retirement_inv forced root maximum_count maximum_bytes t"
  proof cases
    case (step_retire retiring enforce rounds)
    have "rm_root s = root" using inv by (simp add: retirement_inv_def)
    with step_retire inv show ?thesis
      using retire_loop_inv [of retiring enforce rounds s t] by (cases "is_exact_child root (rb_path retiring)") (simp_all add: retire_def)
  next
    case step_wait
    then show ?thesis using inv by (simp add: record_backpressure_wait_def retirement_inv_def)
  qed (use inv in \<open>simp_all add: reap_inv capacity_available_def Let_def\<close>)
qed

section \<open>Properties\<close>

text \<open>
  C40: Retirement only ever deletes a direct child of its root directory on which no lease is
  held, and every retired bundle that is leased stays in the list; no path is listed twice.
\<close>

theorem reap_deletes_only_unleased_children:
  assumes "reach (retirement_new root maximum_count maximum_bytes) (retirement_step forced) m"
  shows "(\<forall>p \<in> set (snd (reap env m)). is_exact_child root p
        \<and> (\<exists>entry \<in> set (rm_bundles m). rb_path entry = p \<and> \<not> renv_leased env (rb_lease entry)))
    \<and> (\<forall>entry \<in> set (rm_bundles m). renv_leased env (rb_lease entry) \<longrightarrow> entry \<in> set (rm_bundles (fst (reap env m))))
    \<and> distinct (map rb_path (rm_bundles m))"
  using retirement.reach_inv [OF assms]
  by (auto simp: retirement_inv_def reap_asked reap_bundles kept_def)

definition sample_retired :: retired_bundle where
  "sample_retired = \<lparr>rb_path = [RootDir, Normal ''images'', Normal ''a''], rb_bytes = 10, rb_lease = 1\<rparr>"

definition sample_renv :: "bool \<Rightarrow> retirement_env" where
  "sample_renv leased = \<lparr>renv_leased = (\<lambda>_. leased), renv_remove_dir_all = (\<lambda>_. Deleted)\<rparr>"

definition sample_manager :: retirement_manager where
  "sample_manager = (retirement_new [RootDir, Normal ''images''] 1 100)\<lparr>rm_bundles := [sample_retired]\<rparr>"

lemma sample_retires:
  "retire sample_retired True [sample_renv True] (retirement_new [RootDir, Normal ''images''] 1 100) = Some sample_manager"
  by (simp add: retire_def is_exact_child_def path_parent_def path_file_name_def sample_retired_def
      retirement_new_def reap_def retirement_admits_def retired_bytes_def checked_add_def U64_MAX_def sample_manager_def)

lemma sample_reached: "reach (retirement_new [RootDir, Normal ''images''] 1 100) (retirement_step False) sample_manager"
  by (intro reach_one step_retire [OF sample_retires]) simp

theorem reap_deletes_only_unleased_children_witness:
  "snd (reap (sample_renv False) sample_manager) = [[RootDir, Normal ''images'', Normal ''a'']]
   \<and> is_exact_child [RootDir, Normal ''images''] [RootDir, Normal ''images'', Normal ''a'']"
proof -
  have "snd (reap (sample_renv False) sample_manager) = [[RootDir, Normal ''images'', Normal ''a'']]"
    by (simp add: reap_asked sample_manager_def retirement_new_def sample_renv_def sample_retired_def)
  with reap_deletes_only_unleased_children [OF sample_reached, of "sample_renv False"] show ?thesis by simp
qed

text \<open>
  As long as every retirement enforces the limits, the retired bundles never exceed the
  configured count and bytes, so the snapshot never reports the limit as exceeded. A retirement
  that has to wait is admitted in the first round in which the limits allow it.
\<close>

theorem retirement_within_limits:
  assumes "reach (retirement_new root maximum_count maximum_bytes) (retirement_step False) m"
  shows "\<not> rn_limit_exceeded (retirement_snapshot m)
    \<and> rn_bundle_count (retirement_snapshot m) \<le> maximum_count
    \<and> (\<forall>retiring env. is_exact_child root (rb_path retiring) \<longrightarrow> retirement_admits (fst (reap env m)) (rb_bytes retiring) \<longrightarrow>
        (\<exists>m'. retire retiring True [env] m = Some m' \<and> rb_path retiring \<in> rb_path ` set (rm_bundles m')))"
proof -
  have inv: "retirement_inv False root maximum_count maximum_bytes m" using retirement.reach_inv [OF assms] .
  have "\<exists>m'. retire retiring True [env] m = Some m' \<and> rb_path retiring \<in> rb_path ` set (rm_bundles m')"
    if "is_exact_child root (rb_path retiring)" "retirement_admits (fst (reap env m)) (rb_bytes retiring)" for retiring env
    using inv that by (auto simp: retire_def retirement_inv_def reap_frame Let_def list_ex_iff intro: rev_image_eqI)
  with inv show ?thesis by (simp add: retirement_inv_def retirement_snapshot_def Let_def)
qed

end
