(* ===== verification/Store_Types.thy ===== *)
theory Store_Types
  imports Store_Codec Ordered_Collections
begin

text \<open>
  The vocabulary of \<^verbatim>\<open>pathhydra-store\<close>: column families (\<^verbatim>\<open>column_families.rs\<close>), catalog errors with
  the text they carry (\<^verbatim>\<open>error.rs\<close>), the batch types of \<^verbatim>\<open>catalog.rs\<close>, and the database.

  RocksDB is a third-party library, so a database is a parameter: a record \<open>rocks\<close> of the
  operations the catalog calls on a handle of any type. What the catalog relies on is
  \<open>rocks_sound\<close>: a read that returns gives the stored value, an iterator visits the stored
  entries in ascending bytewise key order until its first error, and a write batch is applied
  whole or not at all. \<open>rocks_reads\<close> adds that reads do not fail.

  A Rust string is written as the list of its UTF-8 code units.
\<close>

section \<open>Text\<close>

fun nat_display :: "nat \<Rightarrow> string" where
  "nat_display n =
     (if n < 10 then [char_of (48 + n)] else nat_display (n div 10) @ [char_of (48 + n mod 10)])"

declare nat_display.simps [simp del]

definition u64_display :: "u64 \<Rightarrow> string" where
  "u64_display v = nat_display (unat v)"

definition str_display :: "bytes \<Rightarrow> string" where
  "str_display bs = map (\<lambda>b. char_of (unat b)) bs"

definition hex_digit :: "nat \<Rightarrow> char" where
  "hex_digit n = (if n < 10 then char_of (48 + n) else char_of (87 + n))"

definition bytes_id :: "bytes \<Rightarrow> string" where
  "bytes_id bs = concat (map (\<lambda>b. [hex_digit (unat b div 16), hex_digit (unat b mod 16)]) bs)"

fun codec_error_display :: "codec_error \<Rightarrow> string" where
  "codec_error_display Truncated = ''truncated input''"
| "codec_error_display TrailingGarbage = ''trailing garbage''"
| "codec_error_display (InvalidLength n) = ''invalid byte length '' @ nat_display (unat n)"
| "codec_error_display InvalidUtf8 = ''invalid UTF-8''"
| "codec_error_display (InvalidCandidateKind k) = ''unknown candidate kind '' @ nat_display (unat k)"
| "codec_error_display (InvalidCandidateReferenceKind k) =
     ''unknown candidate reference kind '' @ nat_display (unat k)"
| "codec_error_display (CodecInvalidBaseWeight b) =
     ''invalid base-weight bits 0x'' @ bytes_id (u32_to_be_bytes b)"
| "codec_error_display (IdMismatch expected found) =
     ''record ID '' @ u64_display found @ '' does not match key ID '' @ u64_display expected"
| "codec_error_display (CodecNameTooLong n) = ''name is too long: '' @ nat_display n @ '' bytes''"
| "codec_error_display (CodecPayloadTooLong n) =
     ''node payload is too long: '' @ nat_display n @ '' bytes''"

definition candidate_id_display :: "candidate_id \<Rightarrow> string" where
  "candidate_id_display i = u64_display (candidate_id_as_u64 i)"

definition node_id_display :: "node_id \<Rightarrow> string" where
  "node_id_display i = u64_display (node_id_as_u64 i)"

definition relation_id_display :: "relation_id \<Rightarrow> string" where
  "relation_id_display i = u64_display (relation_id_as_u64 i)"

definition edge_id_display :: "edge_id \<Rightarrow> string" where
  "edge_id_display i = u64_display (edge_id_as_u64 i)"

section \<open>Column families\<close>

datatype column_family =
    DEFAULT | CANDIDATES | NODES | NODE_NAMES | RELATION_KINDS | RELATION_NAMES | EDGES
  | OUTGOING_EDGES | INCOMING_EDGES | RELATION_POPULARITY

fun cf_name :: "column_family \<Rightarrow> string" where
  "cf_name DEFAULT = ''default''"
| "cf_name CANDIDATES = ''candidates''"
| "cf_name NODES = ''nodes''"
| "cf_name NODE_NAMES = ''node_names''"
| "cf_name RELATION_KINDS = ''relation_kinds''"
| "cf_name RELATION_NAMES = ''relation_names''"
| "cf_name EDGES = ''edges''"
| "cf_name OUTGOING_EDGES = ''outgoing_edges''"
| "cf_name INCOMING_EDGES = ''incoming_edges''"
| "cf_name RELATION_POPULARITY = ''relation_popularity''"

definition column_families_ALL :: "column_family list" where
  "column_families_ALL =
     [CANDIDATES, NODES, NODE_NAMES, RELATION_KINDS, RELATION_NAMES, EDGES, OUTGOING_EDGES,
      INCOMING_EDGES, RELATION_POPULARITY]"

section \<open>Errors\<close>

datatype record_kind = KindCandidate | KindNode | KindRelation | KindEdge

datatype confirmed_id = ConfirmedNodeId node_id | ConfirmedRelationId relation_id

datatype edge_endpoint = EndpointSource | EndpointDestination

text \<open>A RocksDB error: whether its kind is \<^verbatim>\<open>IOError\<close>, and its message.\<close>

datatype rocksdb_error = RocksdbError bool string

datatype io_error = IoError string

datatype catalog_error =
    RecordNotFound record_kind u64
  | NameAlreadyConfirmed bytes confirmed_id
  | MissingEdgeEndpoint edge_endpoint node_id
  | MissingEdgeRelationKind relation_id
  | InvalidBatch string
  | InvalidCandidateDependency candidate_id string
  | CorruptRecord string string string
  | CounterOverflow string
  | NameTooLong nat
  | PayloadTooLong nat
  | CatalogInvalidBaseWeight invalid_base_weight
  | CatalogLockPoisoned string
  | InvalidConfiguration string string
  | ValidationAborted
  | StorageExhausted string
  | CatalogIo io_error
  | RocksDb rocksdb_error

definition char_to_ascii_lowercase :: "char \<Rightarrow> char" where
  "char_to_ascii_lowercase c =
     (let n = of_char c :: nat in if 65 \<le> n \<and> n \<le> 90 then char_of (n + 32) else c)"

fun str_contains :: "string \<Rightarrow> string \<Rightarrow> bool" where
  "str_contains [] needle = (needle = [])"
| "str_contains (c # s) needle = (take (length needle) (c # s) = needle \<or> str_contains s needle)"

definition is_storage_exhausted_message :: "string \<Rightarrow> bool" where
  "is_storage_exhausted_message message =
     (let message = map char_to_ascii_lowercase message in
      list_ex (str_contains message)
        [''no space left'', ''disk full'', ''storage full'', ''not enough space''])"

fun rocksdb_error_in :: "string \<Rightarrow> rocksdb_error \<Rightarrow> catalog_error" where
  "rocksdb_error_in operation (RocksdbError io message) =
     (if io \<and> is_storage_exhausted_message message then StorageExhausted operation
      else RocksDb (RocksdbError io message))"

definition catalog_error_from_rocksdb :: "rocksdb_error \<Rightarrow> catalog_error" where
  "catalog_error_from_rocksdb e = rocksdb_error_in ''catalog operation'' e"

definition corrupt :: "string \<Rightarrow> string \<Rightarrow> string \<Rightarrow> catalog_error" where
  "corrupt key_space record_id reason = CorruptRecord key_space record_id reason"

definition record_error :: "string \<Rightarrow> string \<Rightarrow> codec_error \<Rightarrow> catalog_error" where
  "record_error key_space record_id e = CorruptRecord key_space record_id (codec_error_display e)"

fun codec_input_error :: "codec_error \<Rightarrow> catalog_error" where
  "codec_input_error (CodecNameTooLong n) = NameTooLong n"
| "codec_input_error (CodecPayloadTooLong n) = PayloadTooLong n"
| "codec_input_error other = CorruptRecord ''input'' ''candidate'' (codec_error_display other)"

section \<open>Batches\<close>

datatype batch_node_reference = BatchConfirmedNode node_id | BatchNode nat

datatype batch_relation_reference = BatchConfirmedRelation relation_id | BatchRelationKind nat

datatype candidate_batch_entry =
    EntryNode node_name node_payload
  | EntryRelationKind relation_name
  | EntryEdge batch_node_reference batch_node_reference batch_relation_reference base_weight

record candidate_batch_counts =
  cc_nodes :: nat
  cc_relation_kinds :: nat
  cc_edges :: nat

definition candidate_batch_counts_default :: candidate_batch_counts where
  "candidate_batch_counts_default = \<lparr>cc_nodes = 0, cc_relation_kinds = 0, cc_edges = 0\<rparr>"

record candidate_batch_insert_result =
  ci_candidate_ids :: "candidate_id list"
  ci_counts :: candidate_batch_counts

record candidate_batch_confirmation =
  cb_records :: "confirmed_record list"
  cb_counts :: candidate_batch_counts
  cb_graph_changed :: bool
  cb_created_nodes :: nat
  cb_created_relation_kinds :: nat

record deletion_result =
  dl_removed_relation_kinds :: "relation_id list"

record confirmed_record_batch =
  rb_nodes :: "(node_id, node_record) btree_map"
  rb_edges :: "(edge_id, edge_record) btree_map"
  rb_relation_kinds :: "(relation_id, relation_record) btree_map"

record active_routing_image =
  ai_relative_bundle :: bytes
  ai_manifest_checksum :: bytes

section \<open>The database\<close>

datatype write_op = Put column_family bytes bytes | Delete column_family bytes

type_synonym contents = "column_family \<Rightarrow> (bytes, bytes) btree_map"

record 'db rocks =
  rk_cf_handle :: "'db \<Rightarrow> column_family \<Rightarrow> bool"
  rk_get :: "'db \<Rightarrow> column_family \<Rightarrow> bytes \<Rightarrow> rocksdb_error + bytes option"
  rk_iterator :: "'db \<Rightarrow> column_family \<Rightarrow> bytes \<Rightarrow> (rocksdb_error + bytes \<times> bytes) list"
  rk_write :: "'db \<Rightarrow> write_op list \<Rightarrow> (rocksdb_error + unit) \<times> 'db"

fun apply_op :: "write_op \<Rightarrow> contents \<Rightarrow> contents" where
  "apply_op (Put cf k v) c = c(cf := btree_insert k v (c cf))"
| "apply_op (Delete cf k) c = c(cf := btree_remove k (c cf))"

definition apply_batch :: "write_op list \<Rightarrow> contents \<Rightarrow> contents" where
  "apply_batch ops c = fold apply_op ops c"

text \<open>\<open>view db\<close> is what the handle \<open>db\<close> stores, per column family.\<close>

definition contents_ok :: "contents \<Rightarrow> bool" where
  "contents_ok c \<longleftrightarrow> (\<forall>cf. btree_ok (c cf))"

definition rocks_sound :: "'db rocks \<Rightarrow> ('db \<Rightarrow> contents) \<Rightarrow> bool" where
  "rocks_sound api view \<longleftrightarrow>
     (\<forall>db cf k v. rk_get api db cf k = Inr v \<longrightarrow> v = btree_get (view db cf) k) \<and>
     (\<forall>db cf from. \<exists>n rest. rk_iterator api db cf from =
        map Inr (take n (filter (\<lambda>(k, v). from \<le> k) (view db cf))) @ rest \<and>
        (rest = [] \<and> length (view db cf) \<le> n \<or> (\<exists>e es. rest = Inl e # es))) \<and>
     (\<forall>db ops r db'. rk_write api db ops = (r, db') \<longrightarrow>
        view db' = (if r = Inr () then apply_batch ops (view db) else view db))"

definition rocks_reads :: "'db rocks \<Rightarrow> ('db \<Rightarrow> contents) \<Rightarrow> bool" where
  "rocks_reads api view \<longleftrightarrow>
     (\<forall>db cf. rk_cf_handle api db cf) \<and>
     (\<forall>db cf k. rk_get api db cf k = Inr (btree_get (view db cf) k)) \<and>
     (\<forall>db cf from. rk_iterator api db cf from = map Inr (filter (\<lambda>(k, v). from \<le> k) (view db cf)))"

text \<open>A database held in memory, which satisfies both.\<close>

definition memory_rocks :: "contents rocks" where
  "memory_rocks =
     \<lparr>rk_cf_handle = (\<lambda>db cf. True),
      rk_get = (\<lambda>db cf k. Inr (btree_get (db cf) k)),
      rk_iterator = (\<lambda>db cf from. map Inr (filter (\<lambda>(k, v). from \<le> k) (db cf))),
      rk_write = (\<lambda>db ops. (Inr (), apply_batch ops db))\<rparr>"

lemma apply_op_get:
  "contents_ok c \<Longrightarrow> btree_get (apply_op (Put cf k v) c cf') =
     (if cf' = cf then (btree_get (c cf))(k \<mapsto> v) else btree_get (c cf'))"
  "contents_ok c \<Longrightarrow> btree_get (apply_op (Delete cf k) c cf') =
     (if cf' = cf then (btree_get (c cf))(k := None) else btree_get (c cf'))"
  by (simp_all add: contents_ok_def btree.lookup_insert btree_get_remove)

lemma apply_op_ok: "contents_ok c \<Longrightarrow> contents_ok (apply_op w c)"
  by (cases w) (auto simp: contents_ok_def btree.insert_ok btree_remove_ok)

lemma apply_batch_ok: "contents_ok c \<Longrightarrow> contents_ok (apply_batch ops c)"
  unfolding apply_batch_def by (induction ops arbitrary: c) (auto simp: apply_op_ok)

lemma memory_rocks_sound: "rocks_sound memory_rocks (\<lambda>db. db)"
  unfolding rocks_sound_def
proof (intro conjI allI)
  show "\<exists>n rest. rk_iterator memory_rocks db cf from =
        map Inr (take n (filter (\<lambda>(k, v). from \<le> k) (db cf))) @ rest \<and>
        (rest = [] \<and> length (db cf) \<le> n \<or> (\<exists>e es. rest = Inl e # es))" for db cf "from"
    by (intro exI [of _ "length (db cf)"] exI [of _ "[]"]) (simp add: memory_rocks_def)
qed (auto simp: memory_rocks_def)

lemma memory_rocks_reads: "rocks_reads memory_rocks (\<lambda>db. db)"
  by (simp add: rocks_reads_def memory_rocks_def)

lemma rocks_getD: "rocks_sound api view \<Longrightarrow> rk_get api db cf k = Inr v \<Longrightarrow> v = btree_get (view db cf) k"
  by (simp add: rocks_sound_def)

lemma rocks_writeD:
  "rocks_sound api view \<Longrightarrow> rk_write api db ops = (Inr (), db') \<Longrightarrow> view db' = apply_batch ops (view db)"
  "rocks_sound api view \<Longrightarrow> rk_write api db ops = (Inl e, db') \<Longrightarrow> view db' = view db"
  by (simp_all add: rocks_sound_def)

text \<open>A scan that does not fail has seen every entry.\<close>

lemma rocks_iteratorD:
  assumes "rocks_sound api view" "fold_result f (rk_iterator api db cf from) s = Inr t"
    and "\<And>e s. \<exists>e'. f (Inl e) s = Inl e'"
  shows "rk_iterator api db cf from = map Inr (filter (\<lambda>(k, v). from \<le> k) (view db cf))"
proof -
  let ?es = "filter (\<lambda>(k, v). from \<le> k) (view db cf)"
  obtain n rest where it: "rk_iterator api db cf from = map Inr (take n ?es) @ rest"
    and rest: "rest = [] \<and> length (view db cf) \<le> n \<or> (\<exists>e es. rest = Inl e # es)"
    using assms(1) unfolding rocks_sound_def by blast
  have "\<not> (\<exists>e es. rest = Inl e # es)"
    using assms(2,3) by (auto simp: it fold_result_append rbind_Inr_iff) (metis Inl_Inr_False)
  then have "rest = []" "length (view db cf) \<le> n" using rest by auto
  then have "rest = []" "length ?es \<le> n" using le_trans [OF length_filter_le] by blast+
  then show ?thesis using it by simp
qed

end
