(* ===== verification/Catalog_Reads.thy ===== *)
theory Catalog_Reads
  imports Store_Types
begin

text \<open>
  \<^verbatim>\<open>pathhydra-store/src/catalog.rs\<close>, reading: records by identifier, whole families, metadata,
  incident edges through the adjacency indexes, the popularity index, and the routing-image
  pointer. Every function takes the database operations \<open>api\<close> and a handle \<open>db\<close>.
\<close>

section \<open>Single records\<close>

definition required_column_family :: "'db rocks \<Rightarrow> 'db \<Rightarrow> column_family \<Rightarrow> catalog_error + unit" where
  "required_column_family api db cf =
     (if rk_cf_handle api db cf then Inr ()
      else Inl (corrupt ''database'' (cf_name cf) ''required column family is missing''))"

definition db_get :: "'db rocks \<Rightarrow> 'db \<Rightarrow> column_family \<Rightarrow> bytes \<Rightarrow> catalog_error + bytes option" where
  "db_get api db cf k = map_err catalog_error_from_rocksdb (rk_get api db cf k)"

definition get_node_from_db :: "'db rocks \<Rightarrow> 'db \<Rightarrow> node_id \<Rightarrow> catalog_error + node_record" where
  "get_node_from_db api db i =
     rbind (required_column_family api db NODES) (\<lambda>_.
     rbind (db_get api db NODES (encode_id_key (node_id_as_u64 i))) (\<lambda>found.
     rbind (ok_or found (RecordNotFound KindNode (node_id_as_u64 i))) (\<lambda>value.
     map_err (record_error (cf_name NODES) (node_id_display i))
       (decode_node value (node_id_as_u64 i)))))"

definition get_candidate_from_db :: "'db rocks \<Rightarrow> 'db \<Rightarrow> candidate_id \<Rightarrow> catalog_error + candidate" where
  "get_candidate_from_db api db i =
     rbind (required_column_family api db CANDIDATES) (\<lambda>_.
     rbind (db_get api db CANDIDATES (encode_id_key (candidate_id_as_u64 i))) (\<lambda>found.
     rbind (ok_or found (RecordNotFound KindCandidate (candidate_id_as_u64 i))) (\<lambda>value.
     map_err (record_error (cf_name CANDIDATES) (candidate_id_display i))
       (decode_candidate value (candidate_id_as_u64 i)))))"

definition get_relation_from_db :: "'db rocks \<Rightarrow> 'db \<Rightarrow> relation_id \<Rightarrow> catalog_error + relation_record" where
  "get_relation_from_db api db i =
     rbind (required_column_family api db RELATION_KINDS) (\<lambda>_.
     rbind (db_get api db RELATION_KINDS (encode_id_key (relation_id_as_u64 i))) (\<lambda>found.
     rbind (ok_or found (RecordNotFound KindRelation (relation_id_as_u64 i))) (\<lambda>value.
     map_err (record_error (cf_name RELATION_KINDS) (relation_id_display i))
       (decode_relation value (relation_id_as_u64 i)))))"

definition get_edge_from_db :: "'db rocks \<Rightarrow> 'db \<Rightarrow> edge_id \<Rightarrow> catalog_error + edge_record" where
  "get_edge_from_db api db i =
     rbind (required_column_family api db EDGES) (\<lambda>_.
     rbind (db_get api db EDGES (encode_id_key (edge_id_as_u64 i))) (\<lambda>found.
     rbind (ok_or found (RecordNotFound KindEdge (edge_id_as_u64 i))) (\<lambda>value.
     map_err (record_error (cf_name EDGES) (edge_id_display i))
       (decode_edge value (edge_id_as_u64 i)))))"

definition require_node :: "'db rocks \<Rightarrow> 'db \<Rightarrow> node_id \<Rightarrow> edge_endpoint \<Rightarrow> catalog_error + unit" where
  "require_node api db i endpoint =
     (case get_node_from_db api db i of
        Inr _ \<Rightarrow> Inr ()
      | Inl (RecordNotFound _ _) \<Rightarrow> Inl (MissingEdgeEndpoint endpoint i)
      | Inl e \<Rightarrow> Inl e)"

definition require_relation_kind :: "'db rocks \<Rightarrow> 'db \<Rightarrow> relation_id \<Rightarrow> catalog_error + unit" where
  "require_relation_kind api db i =
     (case get_relation_from_db api db i of
        Inr _ \<Rightarrow> Inr ()
      | Inl (RecordNotFound _ _) \<Rightarrow> Inl (MissingEdgeRelationKind i)
      | Inl e \<Rightarrow> Inl e)"

section \<open>Metadata\<close>

text \<open>The keys are the ASCII bytes of their names.\<close>

definition ascii :: "string \<Rightarrow> bytes" where
  "ascii s = map (\<lambda>c. word_of_nat (of_char c)) s"

definition META_NEXT_CANDIDATE_ID :: string where
  "META_NEXT_CANDIDATE_ID = ''next-candidate-id''"

definition META_NEXT_NODE_ID :: string where
  "META_NEXT_NODE_ID = ''next-node-id''"

definition META_NEXT_RELATION_ID :: string where
  "META_NEXT_RELATION_ID = ''next-relation-id''"

definition META_NEXT_EDGE_ID :: string where
  "META_NEXT_EDGE_ID = ''next-edge-id''"

definition META_ACTIVE_ROUTING_IMAGE :: string where
  "META_ACTIVE_ROUTING_IMAGE = ''active-routing-image''"

definition read_metadata :: "'db rocks \<Rightarrow> 'db \<Rightarrow> string \<Rightarrow> catalog_error + u64" where
  "read_metadata api db key =
     rbind (db_get api db DEFAULT (ascii key)) (\<lambda>found.
     rbind (ok_or found (corrupt ''default'' key ''required metadata record is missing'')) (\<lambda>value.
     map_err (record_error ''default'' key) (decode_u64_record value)))"

text \<open>The routing-image pointer: a little-endian length, the bundle name, a 32-byte checksum.\<close>

definition u32_to_le_bytes :: "u32 \<Rightarrow> bytes" where
  "u32_to_le_bytes v = rev (u32_to_be_bytes v)"

definition u32_from_le_bytes :: "bytes \<Rightarrow> u32" where
  "u32_from_le_bytes bs = u32_from_be_bytes (rev bs)"

definition pointer_corrupt :: "string \<Rightarrow> catalog_error" where
  "pointer_corrupt reason = corrupt ''default'' ''active-routing-image'' reason"

definition decode_active_routing_image :: "bytes \<Rightarrow> catalog_error + active_routing_image" where
  "decode_active_routing_image encoded =
     (if length encoded < 36 then Inl (pointer_corrupt ''pointer is truncated'')
      else let len = unat (u32_from_le_bytes (take 4 encoded)) in
        rbind (ok_or (Option.bind (checked_add 4 len) (\<lambda>v. checked_add v 32))
                 (pointer_corrupt ''pointer length overflows'')) (\<lambda>expected.
        if length encoded \<noteq> expected
        then Inl (pointer_corrupt ''pointer has an invalid length or trailing bytes'')
        else let name = take len (drop 4 encoded) in
          if \<not> utf8_valid name then Inl (pointer_corrupt ''bundle name is not UTF-8'')
          else Inr \<lparr>ai_relative_bundle = name, ai_manifest_checksum = drop (4 + len) encoded\<rparr>))"

definition read_active_routing_image :: "'db rocks \<Rightarrow> 'db \<Rightarrow> catalog_error + active_routing_image option" where
  "read_active_routing_image api db =
     rbind (db_get api db DEFAULT (ascii META_ACTIVE_ROUTING_IMAGE)) (\<lambda>found.
       case found of
         None \<Rightarrow> Inr None
       | Some encoded \<Rightarrow> rbind (decode_active_routing_image encoded) (\<lambda>p. Inr (Some p)))"

definition encode_active_routing_image :: "active_routing_image \<Rightarrow> catalog_error + bytes" where
  "encode_active_routing_image p =
     (let name = ai_relative_bundle p in
      if length name > U32_MAX then Inl (pointer_corrupt ''relative bundle name is too long'')
      else Inr (u32_to_le_bytes (word_of_nat (length name)) @ name @ ai_manifest_checksum p))"

section \<open>Scans\<close>

text \<open>A \<^verbatim>\<open>for\<close> loop over an iterator, leaving at the first error.\<close>

definition db_scan :: "'db rocks \<Rightarrow> 'db \<Rightarrow> column_family \<Rightarrow>
    (bytes \<Rightarrow> bytes \<Rightarrow> 's \<Rightarrow> catalog_error + 's) \<Rightarrow> 's \<Rightarrow> catalog_error + 's" where
  "db_scan api db cf f s =
     fold_result (\<lambda>entry s. rbind (map_err catalog_error_from_rocksdb entry) (\<lambda>(k, v). f k v s))
       (rk_iterator api db cf []) s"

definition collect_ids :: "'db rocks \<Rightarrow> 'db \<Rightarrow> column_family \<Rightarrow> catalog_error + u64 list" where
  "collect_ids api db cf =
     rbind (required_column_family api db cf) (\<lambda>_.
     db_scan api db cf (\<lambda>k v ids.
       rbind (map_err (record_error (cf_name cf) (bytes_id k)) (decode_id_key k)) (\<lambda>i.
       Inr (ids @ [i]))) [])"

definition all_nodes :: "'db rocks \<Rightarrow> 'db \<Rightarrow> catalog_error + node_record list" where
  "all_nodes api db =
     rbind (required_column_family api db NODES) (\<lambda>_.
     db_scan api db NODES (\<lambda>k v nodes.
       rbind (map_err (record_error (cf_name NODES) (bytes_id k)) (decode_id_key k)) (\<lambda>i.
       rbind (map_err (record_error (cf_name NODES) (u64_display i)) (decode_node v i)) (\<lambda>n.
       Inr (nodes @ [n])))) [])"

definition all_relation_kinds :: "'db rocks \<Rightarrow> 'db \<Rightarrow> catalog_error + relation_record list" where
  "all_relation_kinds api db =
     rbind (required_column_family api db RELATION_KINDS) (\<lambda>_.
     db_scan api db RELATION_KINDS (\<lambda>k v relations.
       rbind (map_err (record_error (cf_name RELATION_KINDS) (bytes_id k)) (decode_id_key k)) (\<lambda>i.
       rbind (map_err (record_error (cf_name RELATION_KINDS) (u64_display i)) (decode_relation v i)) (\<lambda>r.
       Inr (relations @ [r])))) [])"

definition all_edges :: "'db rocks \<Rightarrow> 'db \<Rightarrow> catalog_error + edge_record list" where
  "all_edges api db =
     rbind (required_column_family api db EDGES) (\<lambda>_.
     db_scan api db EDGES (\<lambda>k v edges.
       rbind (map_err (record_error (cf_name EDGES) (bytes_id k)) (decode_id_key k)) (\<lambda>i.
       rbind (map_err (record_error (cf_name EDGES) (u64_display i)) (decode_edge v i)) (\<lambda>e.
       Inr (edges @ [e])))) [])"

section \<open>Incident edges\<close>

definition incident_entry ::
    "'db rocks \<Rightarrow> 'db \<Rightarrow> column_family \<Rightarrow> node_id \<Rightarrow> bool \<Rightarrow> bytes \<Rightarrow> bytes \<Rightarrow> catalog_error + edge_record" where
  "incident_entry api db index_cf node is_outgoing key value =
     rbind (map_err (record_error (cf_name index_cf) (bytes_id key)) (decode_adjacency_key key))
       (\<lambda>(indexed_node, edge_id).
     if indexed_node \<noteq> node
     then Inl (corrupt (cf_name index_cf) (bytes_id key)
            ''adjacency prefix does not match decoded endpoint'')
     else
     rbind (map_err (record_error (cf_name index_cf) (bytes_id key)) (decode_adjacency_value value edge_id))
       (\<lambda>_.
     rbind (map_err (\<lambda>e. case e of
              RecordNotFound _ _ \<Rightarrow> corrupt (cf_name index_cf) (bytes_id key)
                (''canonical edge '' @ edge_id_display edge_id @ '' is missing'')
            | other \<Rightarrow> other) (get_edge_from_db api db edge_id)) (\<lambda>edge.
     let endpoint = (if is_outgoing then er_source edge else er_destination edge) in
     if endpoint \<noteq> node
     then Inl (corrupt (cf_name index_cf) (bytes_id key)
            (''canonical edge '' @ edge_id_display edge_id @ '' has endpoint '' @ node_id_display endpoint))
     else Inr edge)))"

text \<open>The loop ends at the first key that does not start with the prefix.\<close>

fun incident_loop ::
    "'db rocks \<Rightarrow> 'db \<Rightarrow> column_family \<Rightarrow> node_id \<Rightarrow> bool \<Rightarrow> (rocksdb_error + bytes \<times> bytes) list \<Rightarrow>
     edge_record list \<Rightarrow> catalog_error + edge_record list" where
  "incident_loop api db index_cf node is_outgoing [] edges = Inr edges"
| "incident_loop api db index_cf node is_outgoing (entry # entries) edges =
     rbind (map_err catalog_error_from_rocksdb entry) (\<lambda>(key, value).
     if take 8 key \<noteq> u64_to_be_bytes (node_id_as_u64 node) then Inr edges
     else
     rbind (incident_entry api db index_cf node is_outgoing key value) (\<lambda>edge.
     incident_loop api db index_cf node is_outgoing entries (edges @ [edge])))"

definition incident_edges ::
    "'db rocks \<Rightarrow> 'db \<Rightarrow> column_family \<Rightarrow> node_id \<Rightarrow> bool \<Rightarrow> catalog_error + edge_record list" where
  "incident_edges api db index_cf node is_outgoing =
     rbind (required_column_family api db index_cf) (\<lambda>_.
     incident_loop api db index_cf node is_outgoing
       (rk_iterator api db index_cf (u64_to_be_bytes (node_id_as_u64 node))) [])"

definition validate_exact_adjacency :: "'db rocks \<Rightarrow> 'db \<Rightarrow> edge_record \<Rightarrow> catalog_error + unit" where
  "validate_exact_adjacency api db edge =
     fold_result (\<lambda>(cf, node) _.
       rbind (required_column_family api db cf) (\<lambda>_.
       rbind (db_get api db cf (encode_adjacency_key node (er_id edge))) (\<lambda>found.
       rbind (ok_or found (corrupt (cf_name cf) (edge_id_display (er_id edge))
                ''required adjacency entry is missing'')) (\<lambda>value.
       map_err (record_error (cf_name cf) (edge_id_display (er_id edge)))
         (decode_adjacency_value value (er_id edge))))))
       [(OUTGOING_EDGES, er_source edge), (INCOMING_EDGES, er_destination edge)] ()"

fun references_confirmed_node :: "node_id \<Rightarrow> candidate \<Rightarrow> bool" where
  "references_confirmed_node n (CandidateEdge _ source destination _ _) =
     (source = NodeConfirmed n \<or> destination = NodeConfirmed n)"
| "references_confirmed_node n _ = False"

fun provisional_loop :: "node_id \<Rightarrow> (rocksdb_error + bytes \<times> bytes) list \<Rightarrow> catalog_error + candidate_id option" where
  "provisional_loop node [] = Inr None"
| "provisional_loop node (entry # entries) =
     rbind (map_err catalog_error_from_rocksdb entry) (\<lambda>(key, value).
     rbind (map_err (record_error (cf_name CANDIDATES) (bytes_id key)) (decode_id_key key)) (\<lambda>raw_id.
     rbind (map_err (record_error (cf_name CANDIDATES) (u64_display raw_id)) (decode_candidate value raw_id))
       (\<lambda>candidate.
     if references_confirmed_node node candidate then Inr (Some (CandidateId raw_id))
     else provisional_loop node entries)))"

definition provisional_edge_referencing_confirmed_node ::
    "'db rocks \<Rightarrow> 'db \<Rightarrow> node_id \<Rightarrow> catalog_error + candidate_id option" where
  "provisional_edge_referencing_confirmed_node api db node =
     rbind (required_column_family api db CANDIDATES) (\<lambda>_.
     provisional_loop node (rk_iterator api db CANDIDATES []))"

end
