(* ===== verification/Catalog_Insert.thy ===== *)
theory Catalog_Insert
  imports Catalog_Reads
begin

text \<open>
  \<^verbatim>\<open>pathhydra-store/src/catalog.rs\<close>: the catalog's state, and storing a batch of provisional
  candidates. A mutating operation first computes its whole write batch from the current
  database and commits it as the last fallible step; the model keeps the two apart, the plan
  being a pure function of the database.

  The catalog is its database handle, the two in-memory exact-name indexes and the poisoning
  of the three locks. Metrics, the canonical path and the checkpoint limits do not influence
  the operations and are left out. A call returns its result and the catalog afterwards.
\<close>

section \<open>The catalog\<close>

record 'db catalog =
  ct_db :: 'db
  ct_node_names :: "bytes \<rightharpoonup> node_id"
  ct_relation_names :: "bytes \<rightharpoonup> relation_id"
  ct_write_poisoned :: bool
  ct_node_names_poisoned :: bool
  ct_relation_names_poisoned :: bool

type_synonym 'a planned = "catalog_error fault + 'a"
type_synonym ('db, 'a) called = "'a planned \<times> 'db catalog"

definition lifted :: "catalog_error + 'a \<Rightarrow> 'a planned" where
  "lifted m = map_err Failed m"

definition fail :: "catalog_error \<Rightarrow> 'a planned" where
  "fail e = Inl (Failed e)"

lemma lifted_Inr_iff [simp]: "lifted m = Inr x \<longleftrightarrow> m = Inr x"
  by (simp add: lifted_def)

lemma lifted_simps [simp]: "lifted (Inl e) = Inl (Failed e)" "lifted (Inr x) = Inr x"
  by (simp_all add: lifted_def)

definition write_guard :: "'db catalog \<Rightarrow> unit planned" where
  "write_guard cat = (if ct_write_poisoned cat then fail (CatalogLockPoisoned ''catalog write'') else Inr ())"

definition node_index_write :: "'db catalog \<Rightarrow> unit planned" where
  "node_index_write cat =
     (if ct_node_names_poisoned cat then fail (CatalogLockPoisoned ''node-name index'') else Inr ())"

definition relation_index_write :: "'db catalog \<Rightarrow> unit planned" where
  "relation_index_write cat =
     (if ct_relation_names_poisoned cat then fail (CatalogLockPoisoned ''relation-name index'') else Inr ())"

definition commit_batch :: "'db rocks \<Rightarrow> write_op list \<Rightarrow> 'db catalog \<Rightarrow> ('db, unit) called" where
  "commit_batch api batch cat =
     (case rk_write api (ct_db cat) batch of
        (Inr _, db) \<Rightarrow> (Inr (), cat\<lparr>ct_db := db\<rparr>)
      | (Inl e, db) \<Rightarrow> (fail (rocksdb_error_in ''catalog write'' e), cat\<lparr>ct_db := db\<rparr>))"

text \<open>A panic while the write lock is held poisons it.\<close>

definition poison_write :: "'e fault \<Rightarrow> 'db catalog \<Rightarrow> 'db catalog" where
  "poison_write f cat = (case f of Panicked \<Rightarrow> cat\<lparr>ct_write_poisoned := True\<rparr> | Failed _ \<Rightarrow> cat)"

definition try_reserve :: "reserve \<Rightarrow> string \<Rightarrow> nat \<Rightarrow> string \<Rightarrow> unit planned" where
  "try_reserve reserve structure n operation =
     (if reserve structure n then Inr () else fail (StorageExhausted operation))"

section \<open>Storing candidates\<close>

definition MAXIMUM_CANDIDATE_BATCH_ENTRIES :: nat where
  "MAXIMUM_CANDIDATE_BATCH_ENTRIES = 120000"

definition MAXIMUM_CANDIDATE_BATCH_NAME_BYTES :: nat where
  "MAXIMUM_CANDIDATE_BATCH_NAME_BYTES = 64 * 1024 * 1024"

definition MAXIMUM_CANDIDATE_BATCH_PAYLOAD_BYTES :: nat where
  "MAXIMUM_CANDIDATE_BATCH_PAYLOAD_BYTES = 512 * 1024 * 1024"

definition MAXIMUM_CANDIDATE_BATCH_ESTIMATED_BYTES :: nat where
  "MAXIMUM_CANDIDATE_BATCH_ESTIMATED_BYTES = 1024 * 1024 * 1024"

fun entry_bytes :: "candidate_batch_entry \<Rightarrow> nat \<times> nat \<Rightarrow> (nat \<times> nat) planned" where
  "entry_bytes (EntryNode name payload) (name_bytes, payload_bytes) =
     rbind (lifted (ok_or (checked_add name_bytes (length (node_name_as_str name)))
              (InvalidBatch ''aggregate name bytes overflow''))) (\<lambda>name_bytes.
     rbind (lifted (ok_or (checked_add payload_bytes (length (payload_as_bytes payload)))
              (InvalidBatch ''aggregate payload bytes overflow''))) (\<lambda>payload_bytes.
     Inr (name_bytes, payload_bytes)))"
| "entry_bytes (EntryRelationKind name) (name_bytes, payload_bytes) =
     rbind (lifted (ok_or (checked_add name_bytes (length (relation_name_as_str name)))
              (InvalidBatch ''aggregate name bytes overflow''))) (\<lambda>name_bytes.
     Inr (name_bytes, payload_bytes))"
| "entry_bytes (EntryEdge _ _ _ _) (name_bytes, payload_bytes) = Inr (name_bytes, payload_bytes)"

definition check_batch_limits :: "candidate_batch_entry list \<Rightarrow> unit planned" where
  "check_batch_limits entries =
     (if entries = [] then fail (InvalidBatch ''the batch is empty'')
      else if length entries > MAXIMUM_CANDIDATE_BATCH_ENTRIES
      then fail (InvalidBatch (nat_display (length entries) @ '' entries exceed the catalog limit ''
             @ nat_display MAXIMUM_CANDIDATE_BATCH_ENTRIES))
      else
      rbind (fold_result entry_bytes entries (0, 0)) (\<lambda>(name_bytes, payload_bytes).
      rbind (lifted (ok_or
               (Option.bind (checked_add name_bytes payload_bytes) (\<lambda>value.
                Option.bind (checked_mul (length entries) 128) (\<lambda>per_entry.
                checked_add value per_entry)))
               (InvalidBatch ''estimated durable batch bytes overflow''))) (\<lambda>estimated.
      if name_bytes > MAXIMUM_CANDIDATE_BATCH_NAME_BYTES
         \<or> payload_bytes > MAXIMUM_CANDIDATE_BATCH_PAYLOAD_BYTES
         \<or> estimated > MAXIMUM_CANDIDATE_BATCH_ESTIMATED_BYTES
      then fail (InvalidBatch ''the batch exceeds an aggregate byte limit'')
      else Inr ())))"

definition invalid_local_reference :: "nat \<Rightarrow> nat \<Rightarrow> string \<Rightarrow> catalog_error" where
  "invalid_local_reference owner local expected =
     InvalidBatch (''entry '' @ nat_display owner @ '' local reference '' @ nat_display local
       @ '' does not identify a '' @ expected @ '' entry'')"

fun is_entry_node :: "candidate_batch_entry option \<Rightarrow> bool" where
  "is_entry_node (Some (EntryNode _ _)) = True"
| "is_entry_node _ = False"

fun is_entry_relation_kind :: "candidate_batch_entry option \<Rightarrow> bool" where
  "is_entry_relation_kind (Some (EntryRelationKind _)) = True"
| "is_entry_relation_kind _ = False"

text \<open>\<open>incoming[local] = incoming[local].checked_add(1)?\<close>\<close>

definition increment_incoming :: "nat \<Rightarrow> u64 list \<Rightarrow> u64 list planned" where
  "increment_incoming local incoming =
     rbind (index incoming local) (\<lambda>old.
     rbind (lifted (ok_or (checked_add_u64 old 1) (CounterOverflow ''candidate incoming reference'')))
       (\<lambda>new.
     Inr (incoming[local := new])))"

fun resolve_batch_node_reference ::
    "'db rocks \<Rightarrow> 'db \<Rightarrow> candidate_batch_entry list \<Rightarrow> candidate_id list \<Rightarrow> nat \<Rightarrow> edge_endpoint \<Rightarrow>
     batch_node_reference \<Rightarrow> u64 list \<Rightarrow> (candidate_node_reference \<times> u64 list) planned" where
  "resolve_batch_node_reference api db entries ids owner endpoint (BatchConfirmedNode i) incoming =
     rbind (lifted (require_node api db i endpoint)) (\<lambda>_. Inr (NodeConfirmed i, incoming))"
| "resolve_batch_node_reference api db entries ids owner endpoint (BatchNode local) incoming =
     (if \<not> is_entry_node (get entries local)
      then fail (invalid_local_reference owner local ''node'')
      else
      rbind (increment_incoming local incoming) (\<lambda>incoming.
      rbind (index ids local) (\<lambda>i. Inr (NodeCandidate i, incoming))))"

fun resolve_batch_relation_reference ::
    "'db rocks \<Rightarrow> 'db \<Rightarrow> candidate_batch_entry list \<Rightarrow> candidate_id list \<Rightarrow> nat \<Rightarrow>
     batch_relation_reference \<Rightarrow> u64 list \<times> (relation_id, u64) btree_map \<Rightarrow>
     (candidate_relation_reference \<times> u64 list \<times> (relation_id, u64) btree_map) planned" where
  "resolve_batch_relation_reference api db entries ids owner (BatchConfirmedRelation i)
     (incoming, provisional) =
     rbind (lifted (require_relation_kind api db i)) (\<lambda>_.
     let delta = (case btree_get provisional i of None \<Rightarrow> 0 | Some d \<Rightarrow> d) in
     rbind (lifted (ok_or (checked_add_u64 delta 1) (CounterOverflow ''provisional relation reference'')))
       (\<lambda>delta.
     Inr (RelationConfirmed i, incoming, btree_insert i delta provisional)))"
| "resolve_batch_relation_reference api db entries ids owner (BatchRelationKind local)
     (incoming, provisional) =
     (if \<not> is_entry_relation_kind (get entries local)
      then fail (invalid_local_reference owner local ''relation kind'')
      else
      rbind (increment_incoming local incoming) (\<lambda>incoming.
      rbind (index ids local) (\<lambda>i. Inr (RelationCandidate i, incoming, provisional))))"

record insertion_state =
  in_counts :: candidate_batch_counts
  in_incoming :: "u64 list"
  in_provisional :: "(relation_id, u64) btree_map"
  in_candidates :: "candidate list"

fun insert_entry ::
    "'db rocks \<Rightarrow> 'db \<Rightarrow> candidate_batch_entry list \<Rightarrow> candidate_id list \<Rightarrow>
     nat \<times> candidate_batch_entry \<Rightarrow> insertion_state \<Rightarrow> insertion_state planned" where
  "insert_entry api db entries ids (i, EntryNode name payload) s =
     rbind (index ids i) (\<lambda>cid.
     Inr (s\<lparr>in_counts := (in_counts s)\<lparr>cc_nodes := cc_nodes (in_counts s) + 1\<rparr>,
            in_candidates := in_candidates s @ [CandidateNode cid name payload 0]\<rparr>))"
| "insert_entry api db entries ids (i, EntryRelationKind name) s =
     rbind (index ids i) (\<lambda>cid.
     Inr (s\<lparr>in_counts := (in_counts s)\<lparr>cc_relation_kinds := cc_relation_kinds (in_counts s) + 1\<rparr>,
            in_candidates := in_candidates s @ [CandidateRelation cid name 0]\<rparr>))"
| "insert_entry api db entries ids (i, EntryEdge source destination relation_kind weight) s =
     rbind (resolve_batch_node_reference api db entries ids i EndpointSource source (in_incoming s))
       (\<lambda>(source, incoming).
     rbind (resolve_batch_node_reference api db entries ids i EndpointDestination destination incoming)
       (\<lambda>(destination, incoming).
     rbind (resolve_batch_relation_reference api db entries ids i relation_kind
              (incoming, in_provisional s)) (\<lambda>(relation_kind, incoming, provisional).
     rbind (index ids i) (\<lambda>cid.
     Inr (s\<lparr>in_counts := (in_counts s)\<lparr>cc_edges := cc_edges (in_counts s) + 1\<rparr>,
            in_incoming := incoming, in_provisional := provisional,
            in_candidates := in_candidates s
              @ [CandidateEdge cid source destination relation_kind weight]\<rparr>)))))"

fun set_incoming_count :: "nat \<Rightarrow> u64 \<Rightarrow> candidate \<Rightarrow> candidate planned" where
  "set_incoming_count i n (CandidateNode cid name payload _) = Inr (CandidateNode cid name payload n)"
| "set_incoming_count i n (CandidateRelation cid name _) = Inr (CandidateRelation cid name n)"
| "set_incoming_count i n (CandidateEdge cid source destination relation_kind weight) =
     (if n = 0 then Inr (CandidateEdge cid source destination relation_kind weight)
      else fail (InvalidBatch (''entry '' @ nat_display i @ '' cannot be referenced as a dependency'')))"

definition assign_incoming :: "u64 list \<Rightarrow> candidate list \<Rightarrow> candidate list planned" where
  "assign_incoming incoming candidates =
     fold_result (\<lambda>(i, n) candidates.
       rbind (index candidates i) (\<lambda>candidate.
       rbind (set_incoming_count i n candidate) (\<lambda>candidate.
       Inr (candidates[i := candidate])))) (enumerate 0 incoming) candidates"

definition put_candidates :: "candidate list \<Rightarrow> write_op list \<Rightarrow> write_op list planned" where
  "put_candidates candidates batch =
     fold_result (\<lambda>candidate batch.
       rbind (lifted (map_err codec_input_error (encode_candidate candidate))) (\<lambda>value.
       Inr (batch @ [Put CANDIDATES (encode_id_key (candidate_id_as_u64 (candidate_id_of candidate))) value])))
       candidates batch"

definition put_provisional ::
    "'db rocks \<Rightarrow> 'db \<Rightarrow> relation_id \<times> u64 \<Rightarrow> write_op list \<Rightarrow> write_op list planned" where
  "put_provisional api db = (\<lambda>(i, delta) batch.
     rbind (lifted (get_relation_from_db api db i)) (\<lambda>old.
     rbind (lifted (ok_or (checked_add_u64 (rr_provisional_reference_count old) delta)
              (CounterOverflow ''provisional relation reference''))) (\<lambda>provisional.
     rbind (lifted (ok_or (checked_add_u64 provisional (rr_confirmed_edge_count old))
              (CounterOverflow ''total relation reference''))) (\<lambda>_.
     let new = relation_record_with_usage i (rr_name old) provisional (rr_confirmed_edge_count old) in
     rbind (lifted (map_err codec_input_error (encode_popularity_key old))) (\<lambda>old_key.
     rbind (lifted (map_err codec_input_error (encode_relation new))) (\<lambda>value.
     rbind (lifted (map_err codec_input_error (encode_popularity_key new))) (\<lambda>new_key.
     Inr (batch @ [Delete RELATION_POPULARITY old_key,
                   Put RELATION_KINDS (encode_id_key (relation_id_as_u64 i)) value,
                   Put RELATION_POPULARITY new_key (encode_u64_record (relation_id_as_u64 i))]))))))))"

definition insertion_ids :: "u64 \<Rightarrow> nat \<Rightarrow> candidate_id list" where
  "insertion_ids first n = map (\<lambda>offset. CandidateId (first + word_of_nat offset)) [0..<n]"

definition insert_candidate_plan ::
    "'db rocks \<Rightarrow> reserve \<Rightarrow> candidate_batch_entry list \<Rightarrow> 'db \<Rightarrow>
     (write_op list \<times> candidate_batch_insert_result) planned" where
  "insert_candidate_plan api reserve entries db =
     rbind (lifted (read_metadata api db META_NEXT_CANDIDATE_ID)) (\<lambda>first.
     rbind (lifted (ok_or (checked_add_u64 first (word_of_nat (length entries)))
              (CounterOverflow ''candidate ID''))) (\<lambda>following.
     rbind (try_reserve reserve ''ids'' (length entries) ''candidate batch allocation'') (\<lambda>_.
     let ids = insertion_ids first (length entries) in
     rbind (try_reserve reserve ''candidates'' (length entries) ''candidate batch allocation'') (\<lambda>_.
     rbind (fold_result (insert_entry api db entries ids) (enumerate 0 entries)
              \<lparr>in_counts = candidate_batch_counts_default, in_incoming = replicate (length entries) 0,
               in_provisional = [], in_candidates = []\<rparr>) (\<lambda>s.
     rbind (assign_incoming (in_incoming s) (in_candidates s)) (\<lambda>candidates.
     rbind (lifted (required_column_family api db CANDIDATES)) (\<lambda>_.
     rbind (lifted (required_column_family api db RELATION_KINDS)) (\<lambda>_.
     rbind (lifted (required_column_family api db RELATION_POPULARITY)) (\<lambda>_.
     rbind (put_candidates candidates []) (\<lambda>batch.
     rbind (fold_result (put_provisional api db) (in_provisional s) batch) (\<lambda>batch.
     Inr (batch @ [Put DEFAULT (ascii META_NEXT_CANDIDATE_ID) (encode_u64_record following)],
          \<lparr>ci_candidate_ids = ids, ci_counts = in_counts s\<rparr>))))))))))))"

definition insert_candidate_batch ::
    "'db rocks \<Rightarrow> reserve \<Rightarrow> candidate_batch_entry list \<Rightarrow> 'db catalog \<Rightarrow>
     ('db, candidate_batch_insert_result) called" where
  "insert_candidate_batch api reserve entries cat =
     (case rbind (check_batch_limits entries) (\<lambda>_. write_guard cat) of
        Inl f \<Rightarrow> (Inl f, cat)
      | Inr _ \<Rightarrow>
          (case insert_candidate_plan api reserve entries (ct_db cat) of
             Inl f \<Rightarrow> (Inl f, poison_write f cat)
           | Inr (batch, result) \<Rightarrow>
               (case commit_batch api batch cat of
                  (Inl f, cat) \<Rightarrow> (Inl f, cat)
                | (Inr _, cat) \<Rightarrow> (Inr result, cat))))"

text \<open>The single-candidate entry points. \<open>candidate_ids[0]\<close> indexes a non-empty vector.\<close>

definition insert_one ::
    "'db rocks \<Rightarrow> reserve \<Rightarrow> candidate_batch_entry \<Rightarrow> 'db catalog \<Rightarrow> ('db, candidate_id) called" where
  "insert_one api reserve entry cat =
     (case insert_candidate_batch api reserve [entry] cat of
        (Inl f, cat) \<Rightarrow> (Inl f, cat)
      | (Inr result, cat) \<Rightarrow> (index (ci_candidate_ids result) 0, cat))"

definition insert_node_candidate_with_payload ::
    "'db rocks \<Rightarrow> reserve \<Rightarrow> node_name \<Rightarrow> node_payload \<Rightarrow> 'db catalog \<Rightarrow> ('db, candidate_id) called" where
  "insert_node_candidate_with_payload api reserve name payload cat =
     insert_one api reserve (EntryNode name payload) cat"

definition insert_node_candidate ::
    "'db rocks \<Rightarrow> reserve \<Rightarrow> node_name \<Rightarrow> 'db catalog \<Rightarrow> ('db, candidate_id) called" where
  "insert_node_candidate api reserve name cat =
     insert_node_candidate_with_payload api reserve name (NodePayload []) cat"

definition insert_relation_candidate ::
    "'db rocks \<Rightarrow> reserve \<Rightarrow> relation_name \<Rightarrow> 'db catalog \<Rightarrow> ('db, candidate_id) called" where
  "insert_relation_candidate api reserve name cat =
     insert_one api reserve (EntryRelationKind name) cat"

definition insert_edge_candidate_with_base_weight ::
    "'db rocks \<Rightarrow> reserve \<Rightarrow> node_id \<Rightarrow> node_id \<Rightarrow> relation_id \<Rightarrow> base_weight \<Rightarrow> 'db catalog \<Rightarrow>
     ('db, candidate_id) called" where
  "insert_edge_candidate_with_base_weight api reserve source destination relation_kind weight cat =
     insert_one api reserve (EntryEdge (BatchConfirmedNode source) (BatchConfirmedNode destination)
       (BatchConfirmedRelation relation_kind) weight) cat"

definition insert_edge_candidate ::
    "'db rocks \<Rightarrow> reserve \<Rightarrow> node_id \<Rightarrow> node_id \<Rightarrow> relation_id \<Rightarrow> f32 \<Rightarrow> 'db catalog \<Rightarrow>
     ('db, candidate_id) called" where
  "insert_edge_candidate api reserve source destination relation_kind weight cat =
     (case base_weight_new weight of
        Inl e \<Rightarrow> (fail (CatalogInvalidBaseWeight e), cat)
      | Inr w \<Rightarrow> insert_edge_candidate_with_base_weight api reserve source destination relation_kind w cat)"

definition get_candidate :: "'db rocks \<Rightarrow> candidate_id \<Rightarrow> 'db catalog \<Rightarrow> catalog_error + candidate" where
  "get_candidate api i cat = get_candidate_from_db api (ct_db cat) i"

end
