(* ===== verification/Catalog_Confirm.thy ===== *)
theory Catalog_Confirm
  imports Catalog_Insert
begin

text \<open>
  \<^verbatim>\<open>pathhydra-store/src/catalog.rs\<close>: promoting a selection of candidates to confirmed records in
  one write batch. The phases are those of \<^verbatim>\<open>confirm_candidate_batch_with_response_limit\<close>:
  select the candidates, check that the selection is closed under dependencies, resolve names
  to new or existing records, create the edges with the new usage counts, bound the response,
  and build the batch.
\<close>

section \<open>Selection and dependencies\<close>

definition select_candidate :: "'db rocks \<Rightarrow> 'db \<Rightarrow> nat \<times> candidate_id \<Rightarrow>
    (candidate_id \<rightharpoonup> nat) \<times> candidate list \<Rightarrow> ((candidate_id \<rightharpoonup> nat) \<times> candidate list) planned" where
  "select_candidate api db = (\<lambda>(i, cid) (selected, candidates).
     if selected cid \<noteq> None
     then fail (InvalidBatch (''candidate '' @ candidate_id_display cid @ '' is listed more than once''))
     else
     rbind (lifted (get_candidate_from_db api db cid)) (\<lambda>candidate.
     Inr (selected(cid \<mapsto> i), candidates @ [candidate])))"

definition checked_increment_candidate_reference ::
    "(candidate_id \<rightharpoonup> u64) \<Rightarrow> candidate_id \<Rightarrow> catalog_error + (candidate_id \<rightharpoonup> u64)" where
  "checked_increment_candidate_reference counts i =
     (let old = (case counts i of None \<Rightarrow> 0 | Some n \<Rightarrow> n) in
      rbind (ok_or (checked_add_u64 old 1) (CounterOverflow ''candidate incoming reference'')) (\<lambda>new.
      Inr (counts(i \<mapsto> new))))"

fun is_candidate_node :: "candidate \<Rightarrow> bool" where
  "is_candidate_node (CandidateNode _ _ _ _) = True"
| "is_candidate_node _ = False"

fun is_candidate_relation :: "candidate \<Rightarrow> bool" where
  "is_candidate_relation (CandidateRelation _ _ _) = True"
| "is_candidate_relation _ = False"

fun validate_selected_node_dependency ::
    "'db rocks \<Rightarrow> 'db \<Rightarrow> candidate list \<Rightarrow> (candidate_id \<rightharpoonup> nat) \<Rightarrow> candidate_id \<Rightarrow>
     candidate_node_reference \<Rightarrow> (candidate_id \<rightharpoonup> u64) \<Rightarrow> (candidate_id \<rightharpoonup> u64) planned" where
  "validate_selected_node_dependency api db candidates selected owner (NodeConfirmed i) incoming =
     rbind (lifted (require_node api db i EndpointSource)) (\<lambda>_. Inr incoming)"
| "validate_selected_node_dependency api db candidates selected owner (NodeCandidate dependency) incoming =
     (case selected dependency of
        None \<Rightarrow> fail (InvalidCandidateDependency owner
          (''node candidate '' @ candidate_id_display dependency @ '' is not selected''))
      | Some i \<Rightarrow>
          rbind (index candidates i) (\<lambda>candidate.
          if \<not> is_candidate_node candidate
          then fail (InvalidCandidateDependency owner
            (''candidate '' @ candidate_id_display dependency @ '' is not a node''))
          else lifted (checked_increment_candidate_reference incoming dependency)))"

fun validate_selected_relation_dependency ::
    "'db rocks \<Rightarrow> 'db \<Rightarrow> candidate list \<Rightarrow> (candidate_id \<rightharpoonup> nat) \<Rightarrow> candidate_id \<Rightarrow>
     candidate_relation_reference \<Rightarrow> (candidate_id \<rightharpoonup> u64) \<Rightarrow> (candidate_id \<rightharpoonup> u64) planned" where
  "validate_selected_relation_dependency api db candidates selected owner (RelationConfirmed i) incoming =
     rbind (lifted (require_relation_kind api db i)) (\<lambda>_. Inr incoming)"
| "validate_selected_relation_dependency api db candidates selected owner (RelationCandidate dependency)
     incoming =
     (case selected dependency of
        None \<Rightarrow> fail (InvalidCandidateDependency owner
          (''relation-kind candidate '' @ candidate_id_display dependency @ '' is not selected''))
      | Some i \<Rightarrow>
          rbind (index candidates i) (\<lambda>candidate.
          if \<not> is_candidate_relation candidate
          then fail (InvalidCandidateDependency owner
            (''candidate '' @ candidate_id_display dependency @ '' is not a relation kind''))
          else lifted (checked_increment_candidate_reference incoming dependency)))"

fun count_dependency ::
    "'db rocks \<Rightarrow> 'db \<Rightarrow> candidate list \<Rightarrow> (candidate_id \<rightharpoonup> nat) \<Rightarrow> candidate \<Rightarrow>
     candidate_batch_counts \<times> (candidate_id \<rightharpoonup> u64) \<Rightarrow>
     (candidate_batch_counts \<times> (candidate_id \<rightharpoonup> u64)) planned" where
  "count_dependency api db candidates selected (CandidateNode _ _ _ _) (counts, incoming) =
     Inr (counts\<lparr>cc_nodes := cc_nodes counts + 1\<rparr>, incoming)"
| "count_dependency api db candidates selected (CandidateRelation _ _ _) (counts, incoming) =
     Inr (counts\<lparr>cc_relation_kinds := cc_relation_kinds counts + 1\<rparr>, incoming)"
| "count_dependency api db candidates selected
     (CandidateEdge cid source destination relation_kind _) (counts, incoming) =
     rbind (validate_selected_node_dependency api db candidates selected cid source incoming) (\<lambda>incoming.
     rbind (validate_selected_node_dependency api db candidates selected cid destination incoming) (\<lambda>incoming.
     rbind (validate_selected_relation_dependency api db candidates selected cid relation_kind incoming)
       (\<lambda>incoming.
     Inr (counts\<lparr>cc_edges := cc_edges counts + 1\<rparr>, incoming))))"

fun durable_incoming :: "candidate \<Rightarrow> (candidate_id \<times> u64) option" where
  "durable_incoming (CandidateNode cid _ _ n) = Some (cid, n)"
| "durable_incoming (CandidateRelation cid _ n) = Some (cid, n)"
| "durable_incoming (CandidateEdge _ _ _ _ _) = None"

definition check_closure :: "(candidate_id \<rightharpoonup> u64) \<Rightarrow> candidate list \<Rightarrow> unit planned" where
  "check_closure incoming candidates =
     fold_result (\<lambda>candidate _.
       case durable_incoming candidate of
         None \<Rightarrow> Inr ()
       | Some (cid, durable) \<Rightarrow>
           let selected_count = (case incoming cid of None \<Rightarrow> 0 | Some n \<Rightarrow> n) in
           if durable \<noteq> selected_count
           then fail (InvalidCandidateDependency cid
             (''complete dependent closure is required ('' @ u64_display durable
              @ '' durable references, '' @ u64_display selected_count @ '' selected)''))
           else Inr ()) candidates ()"

section \<open>Resolving names\<close>

record confirm_state =
  cs_following_node :: u64
  cs_following_relation :: u64
  cs_planned_node_names :: "bytes \<rightharpoonup> node_record"
  cs_planned_relation_names :: "bytes \<rightharpoonup> relation_record"
  cs_resolved_nodes :: "candidate_id \<rightharpoonup> node_record"
  cs_resolved_relations :: "candidate_id \<rightharpoonup> relation_record"
  cs_created_nodes :: "node_record list"
  cs_created_relations :: "relation_record list"
  cs_aligned :: "confirmed_record option list"

definition resolve_node_name ::
    "'db rocks \<Rightarrow> 'db \<Rightarrow> (bytes \<rightharpoonup> node_id) \<Rightarrow> node_name \<Rightarrow> node_payload \<Rightarrow> confirm_state \<Rightarrow>
     (node_record \<times> confirm_state) planned" where
  "resolve_node_name api db node_index name payload s =
     (case node_index (node_name_as_str name) of
        Some existing \<Rightarrow> rbind (lifted (get_node_from_db api db existing)) (\<lambda>record. Inr (record, s))
      | None \<Rightarrow>
          (case cs_planned_node_names s (node_name_as_str name) of
             Some existing \<Rightarrow> Inr (existing, s)
           | None \<Rightarrow>
               let record = \<lparr>nr_id = NodeId (cs_following_node s), nr_name = name, nr_payload = payload\<rparr> in
               rbind (lifted (ok_or (checked_add_u64 (cs_following_node s) 1) (CounterOverflow ''node ID'')))
                 (\<lambda>following.
               Inr (record, s\<lparr>cs_following_node := following,
                 cs_planned_node_names := (cs_planned_node_names s)(node_name_as_str name \<mapsto> record),
                 cs_created_nodes := cs_created_nodes s @ [record]\<rparr>))))"

definition resolve_relation_name ::
    "'db rocks \<Rightarrow> 'db \<Rightarrow> (bytes \<rightharpoonup> relation_id) \<Rightarrow> relation_name \<Rightarrow> confirm_state \<Rightarrow>
     (relation_record \<times> confirm_state) planned" where
  "resolve_relation_name api db relation_index name s =
     (case relation_index (relation_name_as_str name) of
        Some existing \<Rightarrow> rbind (lifted (get_relation_from_db api db existing)) (\<lambda>record. Inr (record, s))
      | None \<Rightarrow>
          (case cs_planned_relation_names s (relation_name_as_str name) of
             Some existing \<Rightarrow> Inr (existing, s)
           | None \<Rightarrow>
               let record = relation_record_new (RelationId (cs_following_relation s)) name in
               rbind (lifted (ok_or (checked_add_u64 (cs_following_relation s) 1)
                        (CounterOverflow ''relation ID''))) (\<lambda>following.
               Inr (record, s\<lparr>cs_following_relation := following,
                 cs_planned_relation_names :=
                   (cs_planned_relation_names s)(relation_name_as_str name \<mapsto> record),
                 cs_created_relations := cs_created_relations s @ [record]\<rparr>))))"

fun resolve_candidate ::
    "'db rocks \<Rightarrow> 'db \<Rightarrow> (bytes \<rightharpoonup> node_id) \<Rightarrow> (bytes \<rightharpoonup> relation_id) \<Rightarrow> nat \<times> candidate \<Rightarrow> confirm_state \<Rightarrow>
     confirm_state planned" where
  "resolve_candidate api db node_index relation_index (i, CandidateNode cid name payload _) s =
     rbind (resolve_node_name api db node_index name payload s) (\<lambda>(record, s).
     Inr (s\<lparr>cs_resolved_nodes := (cs_resolved_nodes s)(cid \<mapsto> record),
            cs_aligned := (cs_aligned s)[i := Some (ConfirmedNode record)]\<rparr>))"
| "resolve_candidate api db node_index relation_index (i, CandidateRelation cid name _) s =
     rbind (resolve_relation_name api db relation_index name s) (\<lambda>(record, s).
     Inr (s\<lparr>cs_resolved_relations := (cs_resolved_relations s)(cid \<mapsto> record),
            cs_aligned := (cs_aligned s)[i := Some (ConfirmedRelation record)]\<rparr>))"
| "resolve_candidate api db node_index relation_index (i, CandidateEdge _ _ _ _ _) s = Inr s"

section \<open>Creating edges\<close>

fun resolve_confirmed_node ::
    "candidate_node_reference \<Rightarrow> (candidate_id \<rightharpoonup> node_record) \<Rightarrow> catalog_error + node_id" where
  "resolve_confirmed_node (NodeConfirmed i) resolved = Inr i"
| "resolve_confirmed_node (NodeCandidate i) resolved =
     ok_or (map_option nr_id (resolved i))
       (InvalidCandidateDependency i ''selected node dependency has no resolution'')"

fun resolve_confirmed_relation ::
    "candidate_relation_reference \<Rightarrow> (candidate_id \<rightharpoonup> relation_record) \<Rightarrow> catalog_error + relation_id" where
  "resolve_confirmed_relation (RelationConfirmed i) resolved = Inr i"
| "resolve_confirmed_relation (RelationCandidate i) resolved =
     ok_or (map_option rr_id (resolved i))
       (InvalidCandidateDependency i ''selected relation-kind dependency has no resolution'')"

record edge_state =
  es_following_edge :: u64
  es_usage :: "(relation_id, relation_record) btree_map"
  es_created_edges :: "edge_record list"
  es_aligned :: "confirmed_record option list"

definition current_relation ::
    "'db rocks \<Rightarrow> 'db \<Rightarrow> relation_record list \<Rightarrow> (relation_id, relation_record) btree_map \<Rightarrow> relation_id \<Rightarrow>
     relation_record planned" where
  "current_relation api db created usage i =
     (case btree_get usage i of
        Some record \<Rightarrow> Inr record
      | None \<Rightarrow>
          (case List.find (\<lambda>r. rr_id r = i) created of
             Some record \<Rightarrow> Inr record
           | None \<Rightarrow> lifted (get_relation_from_db api db i)))"

fun confirmed_provisional :: "candidate_relation_reference \<Rightarrow> relation_id \<Rightarrow> relation_record \<Rightarrow> u64 planned" where
  "confirmed_provisional (RelationConfirmed _) i old =
     lifted (ok_or (checked_sub_u64 (rr_provisional_reference_count old) 1)
       (corrupt (cf_name RELATION_KINDS) (relation_id_display i)
          ''provisional reference count underflow during confirmation''))"
| "confirmed_provisional (RelationCandidate _) i old = Inr (rr_provisional_reference_count old)"

fun confirm_edge ::
    "'db rocks \<Rightarrow> 'db \<Rightarrow> confirm_state \<Rightarrow> nat \<times> candidate \<Rightarrow> edge_state \<Rightarrow> edge_state planned" where
  "confirm_edge api db cs (i, CandidateEdge _ source destination relation_kind weight) s =
     rbind (lifted (resolve_confirmed_node source (cs_resolved_nodes cs))) (\<lambda>source.
     rbind (lifted (resolve_confirmed_node destination (cs_resolved_nodes cs))) (\<lambda>destination.
     rbind (lifted (resolve_confirmed_relation relation_kind (cs_resolved_relations cs))) (\<lambda>relation_id.
     rbind (current_relation api db (cs_created_relations cs) (es_usage s) relation_id) (\<lambda>old.
     rbind (confirmed_provisional relation_kind relation_id old) (\<lambda>provisional.
     rbind (lifted (ok_or (checked_add_u64 (rr_confirmed_edge_count old) 1)
              (CounterOverflow ''confirmed relation edge''))) (\<lambda>confirmed.
     rbind (lifted (ok_or (checked_add_u64 provisional confirmed)
              (CounterOverflow ''total relation reference''))) (\<lambda>_.
     let edge = \<lparr>er_id = EdgeId (es_following_edge s), er_source = source, er_destination = destination,
                 er_relation_kind = relation_id, er_base_weight = weight\<rparr> in
     rbind (lifted (ok_or (checked_add_u64 (es_following_edge s) 1) (CounterOverflow ''edge ID'')))
       (\<lambda>following.
     Inr (s\<lparr>es_following_edge := following,
            es_usage := btree_insert relation_id
              (relation_record_with_usage relation_id (rr_name old) provisional confirmed) (es_usage s),
            es_created_edges := es_created_edges s @ [edge],
            es_aligned := (es_aligned s)[i := Some (ConfirmedEdge edge)]\<rparr>)))))))))"
| "confirm_edge api db cs (i, _) s = Inr s"

section \<open>The response bound\<close>

fun record_bytes :: "confirmed_record \<Rightarrow> nat option" where
  "record_bytes (ConfirmedNode record) =
     Option.bind (checked_add (length (node_name_as_str (nr_name record)))
                    (length (payload_as_bytes (nr_payload record)))) (\<lambda>value. checked_add value 128)"
| "record_bytes (ConfirmedRelation record) = checked_add (length (relation_name_as_str (rr_name record))) 96"
| "record_bytes (ConfirmedEdge _) = Some 160"

definition check_response_bytes :: "nat \<Rightarrow> confirmed_record option list \<Rightarrow> unit planned" where
  "check_response_bytes maximum aligned =
     rbind (fold_result (\<lambda>record estimated.
       case record of
         None \<Rightarrow> Inr estimated
       | Some record \<Rightarrow>
           rbind (lifted (ok_or (record_bytes record)
                    (InvalidBatch ''estimated success response bytes overflow''))) (\<lambda>record_bytes.
           lifted (ok_or (checked_add estimated record_bytes)
                    (InvalidBatch ''estimated success response bytes overflow'')))) aligned 256)
       (\<lambda>estimated.
     if estimated > maximum
     then fail (InvalidBatch ''the required success response exceeds its configured byte limit'')
     else Inr ())"

section \<open>The batch\<close>

definition put_created_node :: "node_record \<Rightarrow> write_op list \<Rightarrow> write_op list planned" where
  "put_created_node record batch =
     rbind (lifted (map_err codec_input_error (encode_node record))) (\<lambda>value.
     rbind (lifted (map_err codec_input_error (encode_name_key (node_name_as_str (nr_name record))))) (\<lambda>key.
     Inr (batch @ [Put NODES (encode_id_key (node_id_as_u64 (nr_id record))) value,
                   Put NODE_NAMES key (encode_u64_record (node_id_as_u64 (nr_id record)))])))"

definition put_final_relation ::
    "'db rocks \<Rightarrow> 'db \<Rightarrow> relation_record list \<Rightarrow> relation_id \<times> relation_record \<Rightarrow> write_op list \<Rightarrow>
     write_op list planned" where
  "put_final_relation api db created = (\<lambda>(i, record) batch.
     rbind
       (if \<not> list_ex (\<lambda>r. rr_id r = i) created then
          rbind (lifted (get_relation_from_db api db i)) (\<lambda>old.
          rbind (lifted (map_err codec_input_error (encode_popularity_key old))) (\<lambda>key.
          Inr [Delete RELATION_POPULARITY key]))
        else
          rbind (lifted (map_err codec_input_error
                   (encode_name_key (relation_name_as_str (rr_name record))))) (\<lambda>key.
          Inr [Put RELATION_NAMES key (encode_u64_record (relation_id_as_u64 i))])) (\<lambda>ops.
     rbind (lifted (map_err codec_input_error (encode_relation record))) (\<lambda>value.
     rbind (lifted (map_err codec_input_error (encode_popularity_key record))) (\<lambda>key.
     Inr (batch @ ops @ [Put RELATION_KINDS (encode_id_key (relation_id_as_u64 i)) value,
                         Put RELATION_POPULARITY key (encode_u64_record (relation_id_as_u64 i))])))))"

definition put_created_edge :: "edge_record \<Rightarrow> write_op list" where
  "put_created_edge edge =
     [Put EDGES (encode_id_key (edge_id_as_u64 (er_id edge))) (encode_edge edge),
      Put OUTGOING_EDGES (encode_adjacency_key (er_source edge) (er_id edge)) (encode_adjacency_value (er_id edge)),
      Put INCOMING_EDGES (encode_adjacency_key (er_destination edge) (er_id edge))
        (encode_adjacency_value (er_id edge))]"

definition final_relations ::
    "relation_record list \<Rightarrow> (relation_id, relation_record) btree_map \<Rightarrow> (relation_id, relation_record) btree_map" where
  "final_relations created usage = btree_extend usage (btree_extend (map (\<lambda>r. (rr_id r, r)) created) [])"

definition graph_changed :: "confirm_state \<Rightarrow> edge_state \<Rightarrow> bool" where
  "graph_changed cs es \<longleftrightarrow>
     cs_created_nodes cs \<noteq> [] \<or> cs_created_relations cs \<noteq> [] \<or> es_created_edges es \<noteq> []"

definition confirmation_batch ::
    "'db rocks \<Rightarrow> 'db \<Rightarrow> candidate list \<Rightarrow> confirm_state \<Rightarrow> edge_state \<Rightarrow> write_op list planned" where
  "confirmation_batch api db candidates cs es =
     rbind (lifted (fold_result (\<lambda>cf _. required_column_family api db cf)
              [CANDIDATES, NODES, NODE_NAMES, RELATION_KINDS, RELATION_NAMES, RELATION_POPULARITY,
               EDGES, OUTGOING_EDGES, INCOMING_EDGES] ())) (\<lambda>_.
     let batch = map (\<lambda>c. Delete CANDIDATES (encode_id_key (candidate_id_as_u64 (candidate_id_of c)))) candidates in
     rbind (fold_result put_created_node (cs_created_nodes cs) batch) (\<lambda>batch.
     rbind (fold_result (put_final_relation api db (cs_created_relations cs))
              (final_relations (cs_created_relations cs) (es_usage es)) batch) (\<lambda>batch.
     Inr (batch @ concat (map put_created_edge (es_created_edges es))
       @ (if graph_changed cs es then [Delete DEFAULT (ascii META_ACTIVE_ROUTING_IMAGE)] else [])
       @ [Put DEFAULT (ascii META_NEXT_NODE_ID) (encode_u64_record (cs_following_node cs)),
          Put DEFAULT (ascii META_NEXT_RELATION_ID) (encode_u64_record (cs_following_relation cs)),
          Put DEFAULT (ascii META_NEXT_EDGE_ID) (encode_u64_record (es_following_edge es))]))))"

section \<open>Confirmation\<close>

text \<open>The phases before the name indexes are locked.\<close>

definition confirm_selection ::
    "'db rocks \<Rightarrow> reserve \<Rightarrow> candidate_id list \<Rightarrow> 'db \<Rightarrow> (candidate list \<times> candidate_batch_counts) planned" where
  "confirm_selection api reserve cids db =
     rbind (try_reserve reserve ''selected'' (length cids) ''candidate confirmation planning'') (\<lambda>_.
     rbind (try_reserve reserve ''candidates'' (length cids) ''candidate confirmation planning'') (\<lambda>_.
     rbind (fold_result (select_candidate api db) (enumerate 0 cids) (Map.empty, [])) (\<lambda>(selected, candidates).
     rbind (try_reserve reserve ''selected_incoming'' (length cids) ''candidate dependency planning'') (\<lambda>_.
     rbind (fold_result (count_dependency api db candidates selected) candidates
              (candidate_batch_counts_default, Map.empty)) (\<lambda>(counts, incoming).
     rbind (check_closure incoming candidates) (\<lambda>_.
     Inr (candidates, counts)))))))"

text \<open>The phases under the three locks, up to the commit.\<close>

definition confirm_records ::
    "'db rocks \<Rightarrow> reserve \<Rightarrow> (bytes \<rightharpoonup> node_id) \<Rightarrow> (bytes \<rightharpoonup> relation_id) \<Rightarrow> nat \<Rightarrow> candidate list \<Rightarrow>
     candidate_batch_counts \<Rightarrow> 'db \<Rightarrow> (write_op list \<times> confirm_state \<times> edge_state) planned" where
  "confirm_records api reserve node_index relation_index maximum_response_bytes candidates counts db =
     rbind (try_reserve reserve ''node_index'' (cc_nodes counts) ''node-name index reservation'') (\<lambda>_.
     rbind (try_reserve reserve ''relation_index'' (cc_relation_kinds counts) ''relation-name index reservation'') (\<lambda>_.
     rbind (lifted (read_metadata api db META_NEXT_NODE_ID)) (\<lambda>next_node.
     rbind (lifted (read_metadata api db META_NEXT_RELATION_ID)) (\<lambda>next_relation.
     rbind (lifted (read_metadata api db META_NEXT_EDGE_ID)) (\<lambda>next_edge.
     rbind (try_reserve reserve ''planned_node_names'' (cc_nodes counts) ''node confirmation planning'') (\<lambda>_.
     rbind (try_reserve reserve ''planned_relation_names'' (cc_relation_kinds counts)
              ''relation confirmation planning'') (\<lambda>_.
     rbind (try_reserve reserve ''resolved_nodes'' (cc_nodes counts) ''node confirmation planning'') (\<lambda>_.
     rbind (try_reserve reserve ''resolved_relations'' (cc_relation_kinds counts)
              ''relation confirmation planning'') (\<lambda>_.
     rbind (fold_result (resolve_candidate api db node_index relation_index) (enumerate 0 candidates)
              \<lparr>cs_following_node = next_node, cs_following_relation = next_relation,
               cs_planned_node_names = Map.empty, cs_planned_relation_names = Map.empty,
               cs_resolved_nodes = Map.empty, cs_resolved_relations = Map.empty,
               cs_created_nodes = [], cs_created_relations = [],
               cs_aligned = replicate (length candidates) None\<rparr>) (\<lambda>cs.
     rbind (fold_result (confirm_edge api db cs) (enumerate 0 candidates)
              \<lparr>es_following_edge = next_edge, es_usage = [], es_created_edges = [],
               es_aligned = cs_aligned cs\<rparr>) (\<lambda>es.
     rbind (check_response_bytes maximum_response_bytes (es_aligned es)) (\<lambda>_.
     rbind (confirmation_batch api db candidates cs es) (\<lambda>batch.
     Inr (batch, cs, es))))))))))))))"

definition poison_all :: "'e fault \<Rightarrow> 'db catalog \<Rightarrow> 'db catalog" where
  "poison_all f cat = (case f of
     Panicked \<Rightarrow> cat\<lparr>ct_write_poisoned := True, ct_node_names_poisoned := True, ct_relation_names_poisoned := True\<rparr>
   | Failed _ \<Rightarrow> cat)"

text \<open>\<^verbatim>\<open>record.expect("every selected candidate receives an aligned result")\<close>, for every slot.\<close>

fun expect_all :: "'a option list \<Rightarrow> 'a list planned" where
  "expect_all [] = Inr []"
| "expect_all (None # _) = Inl Panicked"
| "expect_all (Some x # xs) = rbind (expect_all xs) (\<lambda>ys. Inr (x # ys))"

definition index_created_nodes :: "node_record list \<Rightarrow> (bytes \<rightharpoonup> node_id) \<Rightarrow> (bytes \<rightharpoonup> node_id)" where
  "index_created_nodes created names = fold (\<lambda>r m. m(node_name_as_str (nr_name r) \<mapsto> nr_id r)) created names"

definition index_created_relations ::
    "relation_record list \<Rightarrow> (bytes \<rightharpoonup> relation_id) \<Rightarrow> (bytes \<rightharpoonup> relation_id)" where
  "index_created_relations created names =
     fold (\<lambda>r m. m(relation_name_as_str (rr_name r) \<mapsto> rr_id r)) created names"

definition confirm_candidate_batch_with_response_limit ::
    "'db rocks \<Rightarrow> reserve \<Rightarrow> candidate_id list \<Rightarrow> nat \<Rightarrow> 'db catalog \<Rightarrow>
     ('db, candidate_batch_confirmation) called" where
  "confirm_candidate_batch_with_response_limit api reserve cids maximum_response_bytes cat =
     (if cids = [] then (fail (InvalidBatch ''the confirmation batch is empty''), cat)
      else if length cids > MAXIMUM_CANDIDATE_BATCH_ENTRIES
      then (fail (InvalidBatch (nat_display (length cids) @ '' candidates exceed the catalog limit ''
              @ nat_display MAXIMUM_CANDIDATE_BATCH_ENTRIES)), cat)
      else
      (case rbind (write_guard cat) (\<lambda>_. confirm_selection api reserve cids (ct_db cat)) of
         Inl f \<Rightarrow> (Inl f, poison_write f cat)
       | Inr (candidates, counts) \<Rightarrow>
      (case rbind (node_index_write cat) (\<lambda>_. relation_index_write cat) of
         Inl f \<Rightarrow> (Inl f, cat)
       | Inr _ \<Rightarrow>
      (case confirm_records api reserve (ct_node_names cat) (ct_relation_names cat)
              maximum_response_bytes candidates counts (ct_db cat) of
         Inl f \<Rightarrow> (Inl f, poison_all f cat)
       | Inr (batch, cs, es) \<Rightarrow>
      (case commit_batch api batch cat of
         (Inl f, cat) \<Rightarrow> (Inl f, cat)
       | (Inr _, cat) \<Rightarrow>
      (let cat = cat\<lparr>ct_node_names := index_created_nodes (cs_created_nodes cs) (ct_node_names cat),
                     ct_relation_names :=
                       index_created_relations (cs_created_relations cs) (ct_relation_names cat)\<rparr> in
       case expect_all (es_aligned es) of
         Inl f \<Rightarrow> (Inl f, poison_all f cat)
       | Inr records \<Rightarrow>
           (Inr \<lparr>cb_records = records, cb_counts = counts, cb_graph_changed = graph_changed cs es,
                 cb_created_nodes = length (cs_created_nodes cs),
                 cb_created_relation_kinds = length (cs_created_relations cs)\<rparr>, cat)))))))"

definition confirm_candidate_batch ::
    "'db rocks \<Rightarrow> reserve \<Rightarrow> candidate_id list \<Rightarrow> 'db catalog \<Rightarrow> ('db, candidate_batch_confirmation) called" where
  "confirm_candidate_batch api reserve cids cat =
     confirm_candidate_batch_with_response_limit api reserve cids U64_MAX cat"

definition confirm_validated_candidate ::
    "'db rocks \<Rightarrow> reserve \<Rightarrow> candidate_id \<Rightarrow> 'db catalog \<Rightarrow> ('db, confirmed_record) called" where
  "confirm_validated_candidate api reserve cid cat =
     (case confirm_candidate_batch api reserve [cid] cat of
        (Inl f, cat) \<Rightarrow> (Inl f, cat)
      | (Inr result, cat) \<Rightarrow> (index (cb_records result) 0, cat))"

end
