(* ===== verification/Catalog_Remove.thy ===== *)
theory Catalog_Remove
  imports Catalog_Confirm
begin

text \<open>
  \<^verbatim>\<open>pathhydra-store/src/catalog.rs\<close>: the reads of an open catalog, removal of edges and of nodes
  with their incident edges, and the routing-image pointer.

  \<^verbatim>\<open>remove_node\<close> collects the incident edges in a \<^verbatim>\<open>HashMap\<close>, whose iteration order is not
  specified: \<open>order\<close> is the order in which its values are visited.
\<close>

section \<open>Lookups and reads\<close>

definition lookup_node_exact :: "bytes \<Rightarrow> 'db catalog \<Rightarrow> catalog_error + node_id option" where
  "lookup_node_exact name cat =
     (if ct_node_names_poisoned cat then Inl (CatalogLockPoisoned ''node-name index'')
      else Inr (ct_node_names cat name))"

definition lookup_relation_exact :: "bytes \<Rightarrow> 'db catalog \<Rightarrow> catalog_error + relation_id option" where
  "lookup_relation_exact name cat =
     (if ct_relation_names_poisoned cat then Inl (CatalogLockPoisoned ''relation-name index'')
      else Inr (ct_relation_names cat name))"

definition get_node :: "'db rocks \<Rightarrow> node_id \<Rightarrow> 'db catalog \<Rightarrow> catalog_error + node_record" where
  "get_node api i cat = get_node_from_db api (ct_db cat) i"

definition get_relation :: "'db rocks \<Rightarrow> relation_id \<Rightarrow> 'db catalog \<Rightarrow> catalog_error + relation_record" where
  "get_relation api i cat = get_relation_from_db api (ct_db cat) i"

definition get_edge :: "'db rocks \<Rightarrow> edge_id \<Rightarrow> 'db catalog \<Rightarrow> catalog_error + edge_record" where
  "get_edge api i cat = get_edge_from_db api (ct_db cat) i"

definition catalog_write_guard :: "'db catalog \<Rightarrow> catalog_error + unit" where
  "catalog_write_guard cat =
     (if ct_write_poisoned cat then Inl (CatalogLockPoisoned ''catalog write'') else Inr ())"

definition read_confirmed_graph :: "'db rocks \<Rightarrow> 'db catalog \<Rightarrow> catalog_error + confirmed_graph_records" where
  "read_confirmed_graph api cat =
     rbind (catalog_write_guard cat) (\<lambda>_.
     rbind (all_nodes api (ct_db cat)) (\<lambda>nodes.
     rbind (all_relation_kinds api (ct_db cat)) (\<lambda>relation_kinds.
     rbind (all_edges api (ct_db cat)) (\<lambda>edges.
     Inr \<lparr>cg_nodes = sort_key nr_id nodes, cg_relation_kinds = sort_key rr_id relation_kinds,
          cg_edges = sort_key er_id edges\<rparr>))))"

definition outgoing_edges :: "'db rocks \<Rightarrow> node_id \<Rightarrow> 'db catalog \<Rightarrow> catalog_error + edge_record list" where
  "outgoing_edges api source cat =
     rbind (catalog_write_guard cat) (\<lambda>_.
     rbind (get_node api source cat) (\<lambda>_.
     incident_edges api (ct_db cat) OUTGOING_EDGES source True))"

definition incoming_edges :: "'db rocks \<Rightarrow> node_id \<Rightarrow> 'db catalog \<Rightarrow> catalog_error + edge_record list" where
  "incoming_edges api destination cat =
     rbind (catalog_write_guard cat) (\<lambda>_.
     rbind (get_node api destination cat) (\<lambda>_.
     incident_edges api (ct_db cat) INCOMING_EDGES destination False))"

text \<open>\<^verbatim>\<open>confirmed_records_by_id\<close>: absent identifiers are skipped, absent endpoints are corruption.\<close>

definition read_requested_node ::
    "'db rocks \<Rightarrow> 'db \<Rightarrow> node_id \<Rightarrow> (node_id, node_record) btree_map \<Rightarrow>
     catalog_error + (node_id, node_record) btree_map" where
  "read_requested_node api db i nodes =
     (case get_node_from_db api db i of
        Inr record \<Rightarrow> Inr (btree_insert i record nodes)
      | Inl (RecordNotFound KindNode _) \<Rightarrow> Inr nodes
      | Inl e \<Rightarrow> Inl e)"

definition require_endpoint :: "'db rocks \<Rightarrow> 'db \<Rightarrow> edge_id \<Rightarrow> node_id \<Rightarrow> catalog_error + unit" where
  "require_endpoint api db edge endpoint =
     (case get_node_from_db api db endpoint of
        Inr _ \<Rightarrow> Inr ()
      | Inl (RecordNotFound _ _) \<Rightarrow> Inl (corrupt (cf_name EDGES) (edge_id_display edge)
          (''endpoint node '' @ node_id_display endpoint @ '' is absent''))
      | Inl other \<Rightarrow> Inl other)"

definition read_requested_edge ::
    "'db rocks \<Rightarrow> 'db \<Rightarrow> edge_id \<Rightarrow> (edge_id, edge_record) btree_map \<times> relation_id list \<Rightarrow>
     catalog_error + (edge_id, edge_record) btree_map \<times> relation_id list" where
  "read_requested_edge api db i = (\<lambda>(edges, relation_ids).
     (case get_edge_from_db api db i of
        Inl (RecordNotFound KindEdge _) \<Rightarrow> Inr (edges, relation_ids)
      | Inl e \<Rightarrow> Inl e
      | Inr edge \<Rightarrow>
          rbind (require_endpoint api db i (er_source edge)) (\<lambda>_.
          rbind (require_endpoint api db i (er_destination edge)) (\<lambda>_.
          Inr (btree_insert i edge edges, snd (bset_insert (er_relation_kind edge) relation_ids))))))"

definition read_requested_relation ::
    "'db rocks \<Rightarrow> 'db \<Rightarrow> relation_id \<Rightarrow> (relation_id, relation_record) btree_map \<Rightarrow>
     catalog_error + (relation_id, relation_record) btree_map" where
  "read_requested_relation api db i relations =
     rbind (map_err (\<lambda>e. case e of
              RecordNotFound _ _ \<Rightarrow> corrupt (cf_name EDGES) (relation_id_display i) ''edge relation kind is absent''
            | other \<Rightarrow> other) (get_relation_from_db api db i)) (\<lambda>record.
     Inr (btree_insert i record relations))"

definition confirmed_records_by_id ::
    "'db rocks \<Rightarrow> node_id list \<Rightarrow> edge_id list \<Rightarrow> 'db catalog \<Rightarrow> catalog_error + confirmed_record_batch" where
  "confirmed_records_by_id api node_ids edge_ids cat =
     rbind (catalog_write_guard cat) (\<lambda>_.
     rbind (fold_result (read_requested_node api (ct_db cat)) (bset_extend node_ids []) []) (\<lambda>nodes.
     rbind (fold_result (read_requested_edge api (ct_db cat)) (bset_extend edge_ids []) ([], []))
       (\<lambda>(edges, relation_ids).
     rbind (fold_result (read_requested_relation api (ct_db cat)) relation_ids []) (\<lambda>relations.
     Inr \<lparr>rb_nodes = nodes, rb_edges = edges, rb_relation_kinds = relations\<rparr>))))"

text \<open>\<^verbatim>\<open>most_used_relation_kinds\<close> reads one snapshot, which is the current database.\<close>

definition popularity_entry ::
    "'db rocks \<Rightarrow> 'db \<Rightarrow> rocksdb_error + bytes \<times> bytes \<Rightarrow> relation_record list \<Rightarrow>
     catalog_error + relation_record list" where
  "popularity_entry api db entry results =
     rbind (map_err catalog_error_from_rocksdb entry) (\<lambda>(key, value).
     rbind (map_err (record_error (cf_name RELATION_POPULARITY) (bytes_id key)) (decode_popularity_key key))
       (\<lambda>(usage, confirmed, i).
     rbind (map_err (record_error (cf_name RELATION_POPULARITY) (bytes_id key)) (decode_u64_record value))
       (\<lambda>value_id.
     if value_id \<noteq> relation_id_as_u64 i
     then Inl (corrupt (cf_name RELATION_POPULARITY) (bytes_id key) ''index value does not match relation ID'')
     else
     rbind (required_column_family api db RELATION_KINDS) (\<lambda>_.
     rbind (db_get api db RELATION_KINDS (encode_id_key (relation_id_as_u64 i))) (\<lambda>found.
     rbind (ok_or found (corrupt (cf_name RELATION_POPULARITY) (relation_id_display i)
              ''indexed relation kind is missing from the snapshot'')) (\<lambda>record_bytes.
     rbind (map_err (record_error (cf_name RELATION_KINDS) (relation_id_display i))
              (decode_relation record_bytes (relation_id_as_u64 i))) (\<lambda>record.
     if total_reference_count record \<noteq> Some usage \<or> rr_confirmed_edge_count record \<noteq> confirmed
     then Inl (corrupt (cf_name RELATION_POPULARITY) (relation_id_display i)
            ''index counts do not match the relation-kind record'')
     else Inr (results @ [record]))))))))"

definition most_used_relation_kinds ::
    "'db rocks \<Rightarrow> reserve \<Rightarrow> nat \<Rightarrow> 'db catalog \<Rightarrow> catalog_error + relation_record list" where
  "most_used_relation_kinds api reserve maximum_results cat =
     (if maximum_results = 0 \<or> maximum_results > MAXIMUM_CANDIDATE_BATCH_ENTRIES
      then Inl (InvalidBatch ''the popularity result limit must be nonzero and bounded'')
      else
      rbind (required_column_family api (ct_db cat) RELATION_POPULARITY) (\<lambda>_.
      if \<not> reserve ''results'' (min maximum_results 1024)
      then Inl (StorageExhausted ''relation popularity result allocation'')
      else fold_result (popularity_entry api (ct_db cat))
             (take maximum_results (rk_iterator api (ct_db cat) RELATION_POPULARITY [])) []))"

section \<open>Removing an edge\<close>

definition require_column_families :: "'db rocks \<Rightarrow> 'db \<Rightarrow> column_family list \<Rightarrow> unit planned" where
  "require_column_families api db cfs = lifted (fold_result (\<lambda>cf _. required_column_family api db cf) cfs ())"

definition decremented_relation ::
    "relation_record \<Rightarrow> u64 \<Rightarrow> string \<Rightarrow> relation_record planned" where
  "decremented_relation old decrement operation =
     rbind (lifted (ok_or (checked_sub_u64 (rr_confirmed_edge_count old) decrement)
              (corrupt (cf_name RELATION_KINDS) (relation_id_display (rr_id old))
                (''confirmed edge count underflow during '' @ operation)))) (\<lambda>confirmed.
     Inr (relation_record_with_usage (rr_id old) (rr_name old) (rr_provisional_reference_count old) confirmed))"

definition unused :: "relation_record \<Rightarrow> bool" where
  "unused r \<longleftrightarrow> rr_provisional_reference_count r = 0 \<and> rr_confirmed_edge_count r = 0"

text \<open>The popularity, relation and name entries of a relation kind whose usage has dropped.\<close>

definition relation_update_ops :: "relation_record \<Rightarrow> relation_record \<Rightarrow> write_op list planned" where
  "relation_update_ops old updated =
     rbind (lifted (map_err codec_input_error (encode_popularity_key old))) (\<lambda>old_key.
     if unused updated then
       rbind (lifted (map_err codec_input_error (encode_name_key (relation_name_as_str (rr_name old))))) (\<lambda>name_key.
       Inr [Delete RELATION_POPULARITY old_key,
            Delete RELATION_KINDS (encode_id_key (relation_id_as_u64 (rr_id old))),
            Delete RELATION_NAMES name_key])
     else
       rbind (lifted (map_err codec_input_error (encode_relation updated))) (\<lambda>value.
       rbind (lifted (map_err codec_input_error (encode_popularity_key updated))) (\<lambda>new_key.
       Inr [Delete RELATION_POPULARITY old_key,
            Put RELATION_KINDS (encode_id_key (relation_id_as_u64 (rr_id updated))) value,
            Put RELATION_POPULARITY new_key (encode_u64_record (relation_id_as_u64 (rr_id updated)))])))"

definition delete_edge_ops :: "edge_record \<Rightarrow> write_op list" where
  "delete_edge_ops edge =
     [Delete EDGES (encode_id_key (edge_id_as_u64 (er_id edge))),
      Delete OUTGOING_EDGES (encode_adjacency_key (er_source edge) (er_id edge)),
      Delete INCOMING_EDGES (encode_adjacency_key (er_destination edge) (er_id edge))]"

definition remove_edge_plan ::
    "'db rocks \<Rightarrow> edge_id \<Rightarrow> 'db catalog \<Rightarrow> (write_op list \<times> relation_record \<times> bool) planned" where
  "remove_edge_plan api i cat =
     (let db = ct_db cat in
      rbind (write_guard cat) (\<lambda>_.
      rbind (lifted (get_edge api i cat)) (\<lambda>edge.
      rbind (lifted (validate_exact_adjacency api db edge)) (\<lambda>_.
      rbind (lifted (get_relation_from_db api db (er_relation_kind edge))) (\<lambda>relation.
      rbind (decremented_relation relation 1 ''edge deletion'') (\<lambda>updated.
      rbind (relation_index_write cat) (\<lambda>_.
      rbind (require_column_families api db
               [EDGES, OUTGOING_EDGES, INCOMING_EDGES, RELATION_KINDS, RELATION_NAMES, RELATION_POPULARITY]) (\<lambda>_.
      rbind (relation_update_ops relation updated) (\<lambda>ops.
      Inr (Delete DEFAULT (ascii META_ACTIVE_ROUTING_IMAGE) # delete_edge_ops (edge\<lparr>er_id := i\<rparr>) @ ops,
           relation, unused updated))))))))))"

definition remove_edge :: "'db rocks \<Rightarrow> edge_id \<Rightarrow> 'db catalog \<Rightarrow> ('db, deletion_result) called" where
  "remove_edge api i cat =
     (case remove_edge_plan api i cat of
        Inl f \<Rightarrow> (Inl f, cat)
      | Inr (batch, relation, removed) \<Rightarrow>
          (case commit_batch api batch cat of
             (Inl f, cat) \<Rightarrow> (Inl f, cat)
           | (Inr _, cat) \<Rightarrow>
               (Inr \<lparr>dl_removed_relation_kinds = (if removed then [rr_id relation] else [])\<rparr>,
                if removed
                then cat\<lparr>ct_relation_names := (ct_relation_names cat)(relation_name_as_str (rr_name relation) := None)\<rparr>
                else cat)))"

section \<open>Removing a node\<close>

definition collect_incident ::
    "edge_record \<Rightarrow> (edge_id, edge_record) btree_map \<Rightarrow> (edge_id, edge_record) btree_map planned" where
  "collect_incident edge incident =
     (case btree_get incident (er_id edge) of
        Some existing \<Rightarrow>
          if existing \<noteq> edge
          then fail (corrupt (cf_name EDGES) (edge_id_display (er_id edge))
                 ''incident indexes resolve to different canonical edge records'')
          else Inr (btree_insert (er_id edge) edge incident)
      | None \<Rightarrow> Inr (btree_insert (er_id edge) edge incident))"

definition count_decrement ::
    "edge_record \<Rightarrow> (relation_id, u64) btree_map \<Rightarrow> (relation_id, u64) btree_map planned" where
  "count_decrement edge decrements =
     (let old = (case btree_get decrements (er_relation_kind edge) of None \<Rightarrow> 0 | Some n \<Rightarrow> n) in
      rbind (lifted (ok_or (checked_add_u64 old 1) (CounterOverflow ''confirmed relation edge''))) (\<lambda>new.
      Inr (btree_insert (er_relation_kind edge) new decrements)))"

definition apply_decrement ::
    "'db rocks \<Rightarrow> 'db \<Rightarrow> relation_id \<times> u64 \<Rightarrow> write_op list \<times> relation_record list \<Rightarrow>
     (write_op list \<times> relation_record list) planned" where
  "apply_decrement api db = (\<lambda>(i, decrement) (batch, removed).
     rbind (lifted (get_relation_from_db api db i)) (\<lambda>old.
     rbind (decremented_relation (old\<lparr>rr_id := i\<rparr>) decrement ''node deletion'') (\<lambda>updated.
     rbind (relation_update_ops old updated) (\<lambda>ops.
     Inr (batch @ ops, if unused updated then removed @ [old] else removed)))))"

definition remove_node_plan ::
    "'db rocks \<Rightarrow> (edge_record list \<Rightarrow> edge_record list) \<Rightarrow> node_id \<Rightarrow> 'db catalog \<Rightarrow>
     (write_op list \<times> node_record \<times> relation_record list) planned" where
  "remove_node_plan api order i cat =
     (let db = ct_db cat in
      rbind (write_guard cat) (\<lambda>_.
      rbind (lifted (get_node api i cat)) (\<lambda>node.
      rbind (lifted (provisional_edge_referencing_confirmed_node api db i)) (\<lambda>provisional.
      case provisional of
        Some candidate_id \<Rightarrow> fail (InvalidCandidateDependency candidate_id
          (''confirmed node '' @ node_id_display i @ '' is still referenced provisionally''))
      | None \<Rightarrow>
      rbind (lifted (incident_edges api db OUTGOING_EDGES i True)) (\<lambda>outgoing.
      rbind (lifted (incident_edges api db INCOMING_EDGES i False)) (\<lambda>incoming.
      rbind (fold_result collect_incident (outgoing @ incoming) []) (\<lambda>incident.
      let edges = order (map snd incident) in
      rbind (lifted (fold_result (\<lambda>edge _. validate_exact_adjacency api db edge) edges ())) (\<lambda>_.
      rbind (fold_result count_decrement edges []) (\<lambda>decrements.
      rbind (lifted (map_err codec_input_error (encode_name_key (node_name_as_str (nr_name node))))) (\<lambda>name_key.
      rbind (require_column_families api db
               [NODES, NODE_NAMES, EDGES, OUTGOING_EDGES, INCOMING_EDGES, RELATION_KINDS, RELATION_NAMES,
                RELATION_POPULARITY]) (\<lambda>_.
      rbind (node_index_write cat) (\<lambda>_.
      rbind (relation_index_write cat) (\<lambda>_.
      if ct_node_names cat (node_name_as_str (nr_name node)) \<noteq> Some i
      then fail (corrupt (cf_name NODE_NAMES) (str_display (node_name_as_str (nr_name node)))
             ''in-memory exact-name mapping disagrees with the confirmed node'')
      else
      let batch = Delete DEFAULT (ascii META_ACTIVE_ROUTING_IMAGE) # concat (map delete_edge_ops edges) in
      rbind (fold_result (apply_decrement api db) decrements (batch, [])) (\<lambda>(batch, removed).
      Inr (batch @ [Delete NODES (encode_id_key (node_id_as_u64 i)), Delete NODE_NAMES name_key],
           node, removed)))))))))))))))"

definition remove_node ::
    "'db rocks \<Rightarrow> (edge_record list \<Rightarrow> edge_record list) \<Rightarrow> node_id \<Rightarrow> 'db catalog \<Rightarrow>
     ('db, deletion_result) called" where
  "remove_node api order i cat =
     (case remove_node_plan api order i cat of
        Inl f \<Rightarrow> (Inl f, cat)
      | Inr (batch, node, removed) \<Rightarrow>
          (case commit_batch api batch cat of
             (Inl f, cat) \<Rightarrow> (Inl f, cat)
           | (Inr _, cat) \<Rightarrow>
               (Inr \<lparr>dl_removed_relation_kinds = map rr_id removed\<rparr>,
                cat\<lparr>ct_node_names := (ct_node_names cat)(node_name_as_str (nr_name node) := None),
                    ct_relation_names := fold (\<lambda>r m. m(relation_name_as_str (rr_name r) := None)) removed
                      (ct_relation_names cat)\<rparr>)))"

section \<open>The routing-image pointer\<close>

definition active_routing_image_of ::
    "'db rocks \<Rightarrow> 'db catalog \<Rightarrow> catalog_error + active_routing_image option" where
  "active_routing_image_of api cat =
     rbind (catalog_write_guard cat) (\<lambda>_. read_active_routing_image api (ct_db cat))"

text \<open>The two setters are called on a scan, which holds the write lock.\<close>

definition set_active_routing_image ::
    "'db rocks \<Rightarrow> active_routing_image \<Rightarrow> 'db catalog \<Rightarrow> ('db, unit) called" where
  "set_active_routing_image api pointer cat =
     (case encode_active_routing_image pointer of
        Inl e \<Rightarrow> (fail e, cat)
      | Inr encoded \<Rightarrow> commit_batch api [Put DEFAULT (ascii META_ACTIVE_ROUTING_IMAGE) encoded] cat)"

definition clear_active_routing_image :: "'db rocks \<Rightarrow> 'db catalog \<Rightarrow> ('db, unit) called" where
  "clear_active_routing_image api cat = commit_batch api [Delete DEFAULT (ascii META_ACTIVE_ROUTING_IMAGE)] cat"

end
