(* ===== verification/Catalog_Open.thy ===== *)
theory Catalog_Open
  imports Catalog_Remove
begin

text \<open>
  \<^verbatim>\<open>pathhydra-store/src/catalog.rs\<close>: initialising an empty database, validating an existing one
  and rebuilding the exact-name indexes when a catalog is opened.

  Validation takes a callback that may abort it; opening a catalog passes one that never does,
  and that case is modelled. Where the source visits the values of a \<^verbatim>\<open>HashMap\<close> only to check
  each of them, the model visits them in key order.
\<close>

section \<open>Metadata\<close>

definition INITIAL_ID :: u64 where
  "INITIAL_ID = 1"

definition metadata_keys :: "string list" where
  "metadata_keys = [META_NEXT_CANDIDATE_ID, META_NEXT_NODE_ID, META_NEXT_RELATION_ID, META_NEXT_EDGE_ID]"

definition first_entry ::
    "'db rocks \<Rightarrow> 'db \<Rightarrow> column_family \<Rightarrow> catalog_error + (bytes \<times> bytes) option" where
  "first_entry api db cf =
     (case rk_iterator api db cf [] of
        [] \<Rightarrow> Inr None
      | entry # _ \<Rightarrow> rbind (map_err catalog_error_from_rocksdb entry) (\<lambda>e. Inr (Some e)))"

definition ensure_family_empty ::
    "'db rocks \<Rightarrow> 'db \<Rightarrow> column_family \<Rightarrow> string \<Rightarrow> catalog_error + unit" where
  "ensure_family_empty api db cf record_id =
     rbind (first_entry api db cf) (\<lambda>entry.
     if entry \<noteq> None
     then Inl (corrupt (cf_name cf) record_id ''required metadata is missing from a non-empty database'')
     else Inr ())"

definition ensure_database_empty :: "'db rocks \<Rightarrow> 'db \<Rightarrow> catalog_error + unit" where
  "ensure_database_empty api db =
     rbind (ensure_family_empty api db DEFAULT ''metadata'') (\<lambda>_.
     fold_result (\<lambda>cf _.
       rbind (required_column_family api db cf) (\<lambda>_.
       ensure_family_empty api db cf ''first record'')) column_families_ALL ())"

definition initialize_metadata :: "'db rocks \<Rightarrow> 'db \<Rightarrow> (catalog_error + unit) \<times> 'db" where
  "initialize_metadata api db =
     (case fold_result (\<lambda>key present.
             rbind (db_get api db DEFAULT (ascii key)) (\<lambda>v. Inr (present @ [v]))) metadata_keys [] of
        Inl e \<Rightarrow> (Inl e, db)
      | Inr present \<Rightarrow>
          if list_all (\<lambda>v. v = None) present then
            (case ensure_database_empty api db of
               Inl e \<Rightarrow> (Inl e, db)
             | Inr _ \<Rightarrow>
                 (case rk_write api db (map (\<lambda>key. Put DEFAULT (ascii key) (encode_u64_record INITIAL_ID))
                          metadata_keys) of
                    (r, db') \<Rightarrow> (map_err catalog_error_from_rocksdb r, db')))
          else (fold_result (\<lambda>key _. rbind (read_metadata api db key) (\<lambda>_. Inr ())) metadata_keys (), db))"

definition validate_metadata_records :: "'db rocks \<Rightarrow> 'db \<Rightarrow> catalog_error + unit" where
  "validate_metadata_records api db =
     rbind (db_scan api db DEFAULT (\<lambda>key _ _.
       if \<not> list_ex (\<lambda>allowed. key = ascii allowed) (metadata_keys @ [META_ACTIVE_ROUTING_IMAGE])
       then Inl (corrupt ''default'' (bytes_id key) ''unknown metadata record in the current layout'')
       else Inr ()) ()) (\<lambda>_.
     rbind (fold_result (\<lambda>key _. rbind (read_metadata api db key) (\<lambda>_. Inr ())) metadata_keys ()) (\<lambda>_.
     rbind (read_active_routing_image api db) (\<lambda>_. Inr ())))"

section \<open>Candidates and name indexes\<close>

definition validate_candidates :: "'db rocks \<Rightarrow> 'db \<Rightarrow> catalog_error + unit" where
  "validate_candidates api db =
     rbind (required_column_family api db CANDIDATES) (\<lambda>_.
     db_scan api db CANDIDATES (\<lambda>key value _.
       rbind (map_err (record_error (cf_name CANDIDATES) (bytes_id key)) (decode_id_key key)) (\<lambda>i.
       rbind (map_err (record_error (cf_name CANDIDATES) (u64_display i)) (decode_candidate value i)) (\<lambda>_.
       Inr ()))) ())"

definition node_name_entry ::
    "'db rocks \<Rightarrow> 'db \<Rightarrow> bytes \<Rightarrow> bytes \<Rightarrow> (bytes \<rightharpoonup> node_id) \<Rightarrow> catalog_error + (bytes \<rightharpoonup> node_id)" where
  "node_name_entry api db key value names =
     rbind (map_err (record_error (cf_name NODE_NAMES) (bytes_id key)) (decode_name_key key)) (\<lambda>name.
     rbind (map_err (record_error (cf_name NODE_NAMES) (str_display name)) (decode_u64_record value)) (\<lambda>i.
     rbind (db_get api db NODES (encode_id_key i)) (\<lambda>found.
     rbind (ok_or found (corrupt (cf_name NODE_NAMES) (str_display name)
              (''mapped node record '' @ u64_display i @ '' is missing''))) (\<lambda>record_value.
     rbind (map_err (record_error (cf_name NODES) (u64_display i)) (decode_node record_value i)) (\<lambda>record.
     if node_name_as_str (nr_name record) \<noteq> name
     then Inl (corrupt (cf_name NODE_NAMES) (str_display name)
            (''mapped node record '' @ u64_display i @ '' contains a different exact name''))
     else if names name \<noteq> None
     then Inl (corrupt (cf_name NODE_NAMES) (str_display name) ''duplicate exact-name mapping'')
     else Inr (names(name \<mapsto> nr_id record)))))))"

definition rebuild_node_index :: "'db rocks \<Rightarrow> 'db \<Rightarrow> catalog_error + (bytes \<rightharpoonup> node_id)" where
  "rebuild_node_index api db =
     rbind (required_column_family api db NODE_NAMES) (\<lambda>_.
     rbind (required_column_family api db NODES) (\<lambda>_.
     rbind (db_scan api db NODE_NAMES (node_name_entry api db) Map.empty) (\<lambda>names.
     rbind (db_scan api db NODES (\<lambda>key value _.
       rbind (map_err (record_error (cf_name NODES) (bytes_id key)) (decode_id_key key)) (\<lambda>i.
       rbind (map_err (record_error (cf_name NODES) (u64_display i)) (decode_node value i)) (\<lambda>record.
       if names (node_name_as_str (nr_name record)) \<noteq> Some (nr_id record)
       then Inl (corrupt (cf_name NODES) (u64_display i) ''confirmed node has no matching exact-name mapping'')
       else Inr ()))) ()) (\<lambda>_.
     Inr names))))"

definition relation_name_entry ::
    "'db rocks \<Rightarrow> 'db \<Rightarrow> bytes \<Rightarrow> bytes \<Rightarrow> (bytes \<rightharpoonup> relation_id) \<Rightarrow> catalog_error + (bytes \<rightharpoonup> relation_id)" where
  "relation_name_entry api db key value names =
     rbind (map_err (record_error (cf_name RELATION_NAMES) (bytes_id key)) (decode_name_key key)) (\<lambda>name.
     rbind (map_err (record_error (cf_name RELATION_NAMES) (str_display name)) (decode_u64_record value)) (\<lambda>i.
     rbind (db_get api db RELATION_KINDS (encode_id_key i)) (\<lambda>found.
     rbind (ok_or found (corrupt (cf_name RELATION_NAMES) (str_display name)
              (''mapped relation-kind record '' @ u64_display i @ '' is missing''))) (\<lambda>record_value.
     rbind (map_err (record_error (cf_name RELATION_KINDS) (u64_display i)) (decode_relation record_value i)) (\<lambda>record.
     if relation_name_as_str (rr_name record) \<noteq> name
     then Inl (corrupt (cf_name RELATION_NAMES) (str_display name)
            (''mapped relation-kind record '' @ u64_display i @ '' contains a different exact name''))
     else if names name \<noteq> None
     then Inl (corrupt (cf_name RELATION_NAMES) (str_display name) ''duplicate exact-name mapping'')
     else Inr (names(name \<mapsto> rr_id record)))))))"

definition rebuild_relation_index :: "'db rocks \<Rightarrow> 'db \<Rightarrow> catalog_error + (bytes \<rightharpoonup> relation_id)" where
  "rebuild_relation_index api db =
     rbind (required_column_family api db RELATION_NAMES) (\<lambda>_.
     rbind (required_column_family api db RELATION_KINDS) (\<lambda>_.
     rbind (db_scan api db RELATION_NAMES (relation_name_entry api db) Map.empty) (\<lambda>names.
     rbind (db_scan api db RELATION_KINDS (\<lambda>key value _.
       rbind (map_err (record_error (cf_name RELATION_KINDS) (bytes_id key)) (decode_id_key key)) (\<lambda>i.
       rbind (map_err (record_error (cf_name RELATION_KINDS) (u64_display i)) (decode_relation value i)) (\<lambda>record.
       if names (relation_name_as_str (rr_name record)) \<noteq> Some (rr_id record)
       then Inl (corrupt (cf_name RELATION_KINDS) (u64_display i)
              ''confirmed relation kind has no matching exact-name mapping'')
       else Inr ()))) ()) (\<lambda>_.
     Inr names))))"

section \<open>Edges and adjacency\<close>

definition edge_corrupt :: "edge_record \<Rightarrow> string \<Rightarrow> catalog_error" where
  "edge_corrupt edge reason = corrupt (cf_name EDGES) (edge_id_display (er_id edge)) reason"

definition validate_edge ::
    "'db rocks \<Rightarrow> 'db \<Rightarrow> edge_record \<Rightarrow> (edge_id, edge_record) btree_map \<Rightarrow>
     catalog_error + (edge_id, edge_record) btree_map" where
  "validate_edge api db edge edges =
     rbind (map_err (\<lambda>_. edge_corrupt edge (''source node '' @ node_id_display (er_source edge) @ '' is not confirmed''))
              (require_node api db (er_source edge) EndpointSource)) (\<lambda>_.
     rbind (map_err (\<lambda>_. edge_corrupt edge
              (''destination node '' @ node_id_display (er_destination edge) @ '' is not confirmed''))
              (require_node api db (er_destination edge) EndpointDestination)) (\<lambda>_.
     rbind (map_err (\<lambda>_. edge_corrupt edge
              (''relation kind '' @ relation_id_display (er_relation_kind edge) @ '' is not confirmed''))
              (require_relation_kind api db (er_relation_kind edge))) (\<lambda>_.
     Inr (btree_insert (er_id edge) edge edges))))"

definition adjacency_entry ::
    "column_family \<Rightarrow> (edge_id, edge_record) btree_map \<Rightarrow> bool \<Rightarrow> bytes \<Rightarrow> bytes \<Rightarrow> (edge_id \<rightharpoonup> nat) \<Rightarrow>
     catalog_error + (edge_id \<rightharpoonup> nat)" where
  "adjacency_entry cf edges is_outgoing key value counts =
     rbind (map_err (record_error (cf_name cf) (bytes_id key)) (decode_adjacency_key key)) (\<lambda>(node, edge_id).
     rbind (map_err (record_error (cf_name cf) (bytes_id key)) (decode_adjacency_value value edge_id)) (\<lambda>_.
     rbind (ok_or (btree_get edges edge_id) (corrupt (cf_name cf) (bytes_id key)
              (''canonical edge '' @ edge_id_display edge_id @ '' is missing''))) (\<lambda>edge.
     let expected = (if is_outgoing then er_source edge else er_destination edge) in
     if node \<noteq> expected
     then Inl (corrupt (cf_name cf) (bytes_id key)
            (''indexed endpoint '' @ node_id_display node @ '' does not match canonical endpoint ''
             @ node_id_display expected))
     else Inr (counts(edge_id \<mapsto> (case counts edge_id of None \<Rightarrow> 0 | Some n \<Rightarrow> n) + 1)))))"

definition validate_adjacency_family ::
    "'db rocks \<Rightarrow> 'db \<Rightarrow> column_family \<Rightarrow> (edge_id, edge_record) btree_map \<Rightarrow> bool \<Rightarrow>
     catalog_error + (edge_id \<rightharpoonup> nat)" where
  "validate_adjacency_family api db cf edges is_outgoing =
     rbind (required_column_family api db cf) (\<lambda>_.
     db_scan api db cf (adjacency_entry cf edges is_outgoing) Map.empty)"

definition validate_edges_and_adjacency :: "'db rocks \<Rightarrow> 'db \<Rightarrow> catalog_error + unit" where
  "validate_edges_and_adjacency api db =
     rbind (all_edges api db) (\<lambda>all.
     rbind (fold_result (validate_edge api db) all []) (\<lambda>edges.
     rbind (validate_adjacency_family api db OUTGOING_EDGES edges True) (\<lambda>outgoing_count.
     rbind (validate_adjacency_family api db INCOMING_EDGES edges False) (\<lambda>incoming_count.
     fold_result (\<lambda>edge _.
       if outgoing_count (er_id edge) \<noteq> Some 1
       then Inl (edge_corrupt edge ''canonical edge does not have exactly one matching outgoing entry'')
       else if incoming_count (er_id edge) \<noteq> Some 1
       then Inl (edge_corrupt edge ''canonical edge does not have exactly one matching incoming entry'')
       else Inr ()) (map snd edges) ()))))"

section \<open>Usage counts and dependencies\<close>

definition candidate_corrupt :: "candidate_id \<Rightarrow> string \<Rightarrow> catalog_error" where
  "candidate_corrupt i reason = corrupt (cf_name CANDIDATES) (candidate_id_display i) reason"

definition read_candidates :: "'db rocks \<Rightarrow> 'db \<Rightarrow> catalog_error + (candidate_id, candidate) btree_map" where
  "read_candidates api db =
     rbind (required_column_family api db CANDIDATES) (\<lambda>_.
     db_scan api db CANDIDATES (\<lambda>key value candidates.
       rbind (map_err (record_error (cf_name CANDIDATES) (bytes_id key)) (decode_id_key key)) (\<lambda>i.
       rbind (map_err (record_error (cf_name CANDIDATES) (u64_display i)) (decode_candidate value i)) (\<lambda>c.
       Inr (btree_insert (CandidateId i) c candidates)))) [])"

fun validate_node_dependency ::
    "'db rocks \<Rightarrow> 'db \<Rightarrow> (candidate_id, candidate) btree_map \<Rightarrow> candidate_id \<Rightarrow> candidate_node_reference \<Rightarrow>
     (candidate_id \<rightharpoonup> u64) \<Rightarrow> catalog_error + (candidate_id \<rightharpoonup> u64)" where
  "validate_node_dependency api db candidates owner (NodeConfirmed node) incoming =
     rbind (map_err (\<lambda>_. candidate_corrupt owner
              (''confirmed node dependency '' @ node_id_display node @ '' is missing''))
              (get_node_from_db api db node)) (\<lambda>_.
     Inr incoming)"
| "validate_node_dependency api db candidates owner (NodeCandidate dependency) incoming =
     (case btree_get candidates dependency of
        Some (CandidateNode _ _ _ _) \<Rightarrow> checked_increment_candidate_reference incoming dependency
      | _ \<Rightarrow> Inl (candidate_corrupt owner (''node candidate dependency '' @ candidate_id_display dependency
               @ '' is missing or mistyped'')))"

fun validate_relation_dependency ::
    "'db rocks \<Rightarrow> 'db \<Rightarrow> (candidate_id, candidate) btree_map \<Rightarrow> candidate_id \<Rightarrow> candidate_relation_reference \<Rightarrow>
     (candidate_id \<rightharpoonup> u64) \<times> (relation_id \<rightharpoonup> u64) \<Rightarrow>
     catalog_error + (candidate_id \<rightharpoonup> u64) \<times> (relation_id \<rightharpoonup> u64)" where
  "validate_relation_dependency api db candidates owner (RelationConfirmed relation) (incoming, provisional) =
     rbind (map_err (\<lambda>_. candidate_corrupt owner
              (''confirmed relation-kind dependency '' @ relation_id_display relation @ '' is missing''))
              (get_relation_from_db api db relation)) (\<lambda>_.
     rbind (ok_or (checked_add_u64 (case provisional relation of None \<Rightarrow> 0 | Some n \<Rightarrow> n) 1)
              (corrupt (cf_name RELATION_KINDS) (relation_id_display relation)
                ''recomputed provisional usage overflow'')) (\<lambda>n.
     Inr (incoming, provisional(relation \<mapsto> n))))"
| "validate_relation_dependency api db candidates owner (RelationCandidate dependency) (incoming, provisional) =
     (case btree_get candidates dependency of
        Some (CandidateRelation _ _ _) \<Rightarrow>
          rbind (checked_increment_candidate_reference incoming dependency) (\<lambda>incoming.
          Inr (incoming, provisional))
      | _ \<Rightarrow> Inl (candidate_corrupt owner (''relation-kind candidate dependency ''
               @ candidate_id_display dependency @ '' is missing or mistyped'')))"

fun validate_dependencies ::
    "'db rocks \<Rightarrow> 'db \<Rightarrow> (candidate_id, candidate) btree_map \<Rightarrow> candidate \<Rightarrow>
     (candidate_id \<rightharpoonup> u64) \<times> (relation_id \<rightharpoonup> u64) \<Rightarrow>
     catalog_error + (candidate_id \<rightharpoonup> u64) \<times> (relation_id \<rightharpoonup> u64)" where
  "validate_dependencies api db candidates (CandidateEdge cid source destination relation_kind _)
     (incoming, provisional) =
     rbind (validate_node_dependency api db candidates cid source incoming) (\<lambda>incoming.
     rbind (validate_node_dependency api db candidates cid destination incoming) (\<lambda>incoming.
     validate_relation_dependency api db candidates cid relation_kind (incoming, provisional)))"
| "validate_dependencies api db candidates _ state = Inr state"

definition check_incoming :: "(candidate_id \<rightharpoonup> u64) \<Rightarrow> candidate \<Rightarrow> catalog_error + unit" where
  "check_incoming incoming candidate =
     (case durable_incoming candidate of
        None \<Rightarrow> Inr ()
      | Some (cid, stored) \<Rightarrow>
          if (case incoming cid of None \<Rightarrow> 0 | Some n \<Rightarrow> n) \<noteq> stored
          then Inl (candidate_corrupt cid ''stored incoming reference count does not match edge candidates'')
          else Inr ())"

definition count_confirmed :: "edge_record \<Rightarrow> (relation_id \<rightharpoonup> u64) \<Rightarrow> catalog_error + (relation_id \<rightharpoonup> u64)" where
  "count_confirmed edge confirmed =
     rbind (ok_or (checked_add_u64 (case confirmed (er_relation_kind edge) of None \<Rightarrow> 0 | Some n \<Rightarrow> n) 1)
              (corrupt (cf_name RELATION_KINDS) (relation_id_display (er_relation_kind edge))
                ''recomputed confirmed usage overflow'')) (\<lambda>n.
     Inr (confirmed(er_relation_kind edge \<mapsto> n)))"

definition expect_usage ::
    "(relation_id \<rightharpoonup> u64) \<Rightarrow> (relation_id \<rightharpoonup> u64) \<Rightarrow> relation_record \<Rightarrow> bytes list \<Rightarrow> catalog_error + bytes list" where
  "expect_usage provisional confirmed record expected =
     (if rr_provisional_reference_count record \<noteq> (case provisional (rr_id record) of None \<Rightarrow> 0 | Some n \<Rightarrow> n)
         \<or> rr_confirmed_edge_count record \<noteq> (case confirmed (rr_id record) of None \<Rightarrow> 0 | Some n \<Rightarrow> n)
      then Inl (corrupt (cf_name RELATION_KINDS) (relation_id_display (rr_id record))
             ''stored usage counts do not match candidates and canonical edges'')
      else
      rbind (map_err codec_input_error (encode_popularity_key record)) (\<lambda>key.
      Inr (snd (bset_insert key expected))))"

definition actual_popularity_entry :: "bytes \<Rightarrow> bytes \<Rightarrow> bytes list \<Rightarrow> catalog_error + bytes list" where
  "actual_popularity_entry key value actual =
     rbind (map_err (record_error (cf_name RELATION_POPULARITY) (bytes_id key)) (decode_popularity_key key))
       (\<lambda>(_, _, i).
     rbind (map_err (record_error (cf_name RELATION_POPULARITY) (bytes_id key)) (decode_u64_record value))
       (\<lambda>value_id.
     if value_id \<noteq> relation_id_as_u64 i \<or> \<not> fst (bset_insert key actual)
     then Inl (corrupt (cf_name RELATION_POPULARITY) (bytes_id key) ''duplicate or mismatched popularity entry'')
     else Inr (snd (bset_insert key actual))))"

definition validate_relation_usage_and_candidate_dependencies :: "'db rocks \<Rightarrow> 'db \<Rightarrow> catalog_error + unit" where
  "validate_relation_usage_and_candidate_dependencies api db =
     rbind (read_candidates api db) (\<lambda>candidates.
     rbind (fold_result (validate_dependencies api db candidates) (map snd candidates) (Map.empty, Map.empty))
       (\<lambda>(incoming, provisional).
     rbind (fold_result (\<lambda>c _. check_incoming incoming c) (map snd candidates) ()) (\<lambda>_.
     rbind (all_edges api db) (\<lambda>edges.
     rbind (fold_result count_confirmed edges Map.empty) (\<lambda>confirmed.
     rbind (all_relation_kinds api db) (\<lambda>relations.
     rbind (fold_result (expect_usage provisional confirmed) relations []) (\<lambda>expected_popularity.
     rbind (required_column_family api db RELATION_POPULARITY) (\<lambda>_.
     rbind (db_scan api db RELATION_POPULARITY actual_popularity_entry []) (\<lambda>actual_popularity.
     if actual_popularity \<noteq> expected_popularity
     then Inl (corrupt (cf_name RELATION_POPULARITY) ''index''
            ''popularity entries do not exactly match relation-kind usage'')
     else Inr ())))))))))"

section \<open>Counters\<close>

definition validate_next_id ::
    "'db rocks \<Rightarrow> 'db \<Rightarrow> string \<times> column_family \<Rightarrow> catalog_error + unit" where
  "validate_next_id api db = (\<lambda>(key, cf).
     rbind (read_metadata api db key) (\<lambda>next_id.
     if next_id = 0 then Inl (corrupt ''default'' key ''next ID must be at least 1'')
     else
     rbind (collect_ids api db cf) (\<lambda>ids.
     let maximum = foldr max ids 0 in
     if next_id \<le> maximum
     then Inl (corrupt ''default'' key (''next ID '' @ u64_display next_id
            @ '' does not follow existing ID '' @ u64_display maximum))
     else Inr ())))"

definition validate_next_id_counters :: "'db rocks \<Rightarrow> 'db \<Rightarrow> catalog_error + unit" where
  "validate_next_id_counters api db =
     fold_result (\<lambda>entry _. validate_next_id api db entry)
       [(META_NEXT_CANDIDATE_ID, CANDIDATES), (META_NEXT_NODE_ID, NODES),
        (META_NEXT_RELATION_ID, RELATION_KINDS), (META_NEXT_EDGE_ID, EDGES)] ()"

section \<open>Opening\<close>

definition rebuild_indexes_and_validate ::
    "'db rocks \<Rightarrow> 'db \<Rightarrow> catalog_error + (bytes \<rightharpoonup> node_id) \<times> (bytes \<rightharpoonup> relation_id)" where
  "rebuild_indexes_and_validate api db =
     rbind (validate_candidates api db) (\<lambda>_.
     rbind (rebuild_node_index api db) (\<lambda>nodes.
     rbind (rebuild_relation_index api db) (\<lambda>relations.
     rbind (validate_edges_and_adjacency api db) (\<lambda>_.
     rbind (validate_relation_usage_and_candidate_dependencies api db) (\<lambda>_.
     rbind (validate_next_id_counters api db) (\<lambda>_.
     Inr (nodes, relations)))))))"

definition validate_config :: "nat \<Rightarrow> catalog_error + unit" where
  "validate_config maximum_concurrent_checkpoints =
     (if maximum_concurrent_checkpoints = 0
      then Inl (InvalidConfiguration ''maximum_concurrent_checkpoints'' ''must be nonzero'')
      else Inr ())"

text \<open>\<open>opened\<close> is what opening the database files returned, \<open>canonical\<close> what resolving the path
  returned.\<close>

definition open_with_config ::
    "'db rocks \<Rightarrow> rocksdb_error + 'db \<Rightarrow> io_error + unit \<Rightarrow> nat \<Rightarrow> catalog_error + 'db catalog" where
  "open_with_config api opened canonical maximum_concurrent_checkpoints =
     rbind (validate_config maximum_concurrent_checkpoints) (\<lambda>_.
     rbind (map_err catalog_error_from_rocksdb opened) (\<lambda>db.
     (case initialize_metadata api db of
        (Inl e, _) \<Rightarrow> Inl e
      | (Inr _, db) \<Rightarrow>
          rbind (validate_metadata_records api db) (\<lambda>_.
          rbind (rebuild_indexes_and_validate api db) (\<lambda>(node_names, relation_names).
          rbind (map_err CatalogIo canonical) (\<lambda>_.
          Inr \<lparr>ct_db = db, ct_node_names = node_names, ct_relation_names = relation_names,
               ct_write_poisoned = False, ct_node_names_poisoned = False,
               ct_relation_names_poisoned = False\<rparr>))))))"

end
