(* ===== verification/Catalog_Layout.thy ===== *)
theory Catalog_Layout
  imports Catalog_Open
begin

text \<open>
  What the stored bytes mean. A \<open>graph\<close> holds the decoded records by identifier; a family of the
  database represents a map of records when its entries are exactly the keys and values of the
  records. \<open>stores\<close> says that a database represents a graph, and the lemmas follow the effect of
  each group of write operations on the graph it represents.
\<close>

section \<open>Graphs\<close>

record graph =
  gr_nodes :: "node_id \<rightharpoonup> node_record"
  gr_relations :: "relation_id \<rightharpoonup> relation_record"
  gr_edges :: "edge_id \<rightharpoonup> edge_record"
  gr_candidates :: "candidate_id \<rightharpoonup> candidate"
  gr_next_candidate :: u64
  gr_next_node :: u64
  gr_next_relation :: u64
  gr_next_edge :: u64
  gr_pointer :: "bytes option"

text \<open>Records that the codecs accept.\<close>

definition node_ok :: "node_record \<Rightarrow> bool" where
  "node_ok n \<longleftrightarrow> utf8_valid (node_name_as_str (nr_name n)) \<and> length (node_name_as_str (nr_name n)) \<le> U32_MAX
     \<and> length (payload_as_bytes (nr_payload n)) \<le> MAX_NODE_PAYLOAD_BYTES"

definition relation_ok :: "relation_record \<Rightarrow> bool" where
  "relation_ok r \<longleftrightarrow> utf8_valid (relation_name_as_str (rr_name r))
     \<and> length (relation_name_as_str (rr_name r)) \<le> U32_MAX
     \<and> unat (rr_provisional_reference_count r) + unat (rr_confirmed_edge_count r) \<le> U64_MAX"

definition edge_ok :: "edge_record \<Rightarrow> bool" where
  "edge_ok e \<longleftrightarrow> base_weight_ok (er_base_weight e)"

fun stored_candidate_ok :: "candidate \<Rightarrow> bool" where
  "stored_candidate_ok (CandidateNode _ name payload _) \<longleftrightarrow> utf8_valid (node_name_as_str name)
     \<and> length (node_name_as_str name) \<le> U32_MAX \<and> length (payload_as_bytes payload) \<le> MAX_NODE_PAYLOAD_BYTES"
| "stored_candidate_ok (CandidateRelation _ name _) \<longleftrightarrow> utf8_valid (relation_name_as_str name)
     \<and> length (relation_name_as_str name) \<le> U32_MAX"
| "stored_candidate_ok (CandidateEdge _ _ _ _ weight) \<longleftrightarrow> base_weight_ok weight"

definition node_bytes :: "node_record \<Rightarrow> bytes" where
  "node_bytes n = projr (encode_node n)"

definition relation_bytes :: "relation_record \<Rightarrow> bytes" where
  "relation_bytes r = projr (encode_relation r)"

definition candidate_bytes :: "candidate \<Rightarrow> bytes" where
  "candidate_bytes c = projr (encode_candidate c)"

definition popularity_bytes :: "relation_record \<Rightarrow> bytes" where
  "popularity_bytes r = projr (encode_popularity_key r)"

lemma counted_length: "length (counted v) = length v + 4"
  by (simp add: counted_def)

lemma encode_node_ok: "node_ok n \<Longrightarrow> encode_node n = Inr (node_bytes n) \<and> addressable (node_bytes n)"
  by (simp add: node_bytes_def encode_node_def node_ok_def push_string_eq push_bytes_eq addressable_def
      counted_length U64_MAX_def U32_MAX_def MAX_NODE_PAYLOAD_BYTES_def)

lemma encode_relation_ok:
  "relation_ok r \<Longrightarrow> encode_relation r = Inr (relation_bytes r) \<and> addressable (relation_bytes r)"
  by (simp add: relation_bytes_def encode_relation_def encode_named_record_def relation_ok_def push_string_eq
      addressable_def counted_length U64_MAX_def U32_MAX_def)

lemma encode_candidate_ok:
  "stored_candidate_ok c \<Longrightarrow> encode_candidate c = Inr (candidate_bytes c) \<and> addressable (candidate_bytes c)"
proof -
  have len: "length (encode_node_reference [] n) = 9" "length (encode_relation_reference [] r) = 9" for n r
    by (cases n; simp) (cases r; simp)
  assume "stored_candidate_ok c"
  then show ?thesis
    by (cases c) (simp_all add: candidate_bytes_def push_string_eq push_bytes_eq addressable_def counted_length
        U64_MAX_def U32_MAX_def MAX_NODE_PAYLOAD_BYTES_def encode_reference_acc(1) [of "_ # _"]
        encode_reference_acc(1) [of "_ @ _"] encode_reference_acc(2) [of "_ @ _"]
        encode_reference_acc(2) [of "_ # _"] len)
qed

lemma total_ok: "relation_ok r \<Longrightarrow> total_reference_count r =
    Some (rr_provisional_reference_count r + rr_confirmed_edge_count r)"
  by (simp add: total_reference_count_def checked_add_u64_def relation_ok_def)

lemma encode_popularity_ok: "relation_ok r \<Longrightarrow> encode_popularity_key r = Inr (popularity_bytes r)"
  by (simp add: popularity_bytes_def encode_popularity_key_def total_ok)

lemma encode_name_ok: "length name \<le> U32_MAX \<Longrightarrow> encode_name_key name = Inr (counted name)"
  by (simp add: encode_name_key_def push_string_eq)

lemma decode_node_ok: "node_ok n \<Longrightarrow> decode_node (node_bytes n) (node_id_as_u64 (nr_id n)) = Inr n"
  using encode_node_ok [of n] node_codec [of "node_bytes n" "node_id_as_u64 (nr_id n)" n]
  by (simp add: node_ok_def)

lemma decode_relation_ok:
  "relation_ok r \<Longrightarrow> decode_relation (relation_bytes r) (relation_id_as_u64 (rr_id r)) = Inr r"
  using encode_relation_ok [of r] relation_codec [of "relation_bytes r" "relation_id_as_u64 (rr_id r)" r]
  by (simp add: relation_ok_def total_ok)

lemma decode_edge_ok: "edge_ok e \<Longrightarrow> decode_edge (encode_edge e) (edge_id_as_u64 (er_id e)) = Inr e"
  using edge_codec [of "encode_edge e" "edge_id_as_u64 (er_id e)" e]
  by (simp add: edge_ok_def addressable_def encode_edge_def U64_MAX_def)

lemma decode_candidate_ok: "stored_candidate_ok c \<Longrightarrow>
    decode_candidate (candidate_bytes c) (candidate_id_as_u64 (candidate_id_of c)) = Inr c"
  using encode_candidate_ok [of c]
    candidate_codec [of "candidate_bytes c" "candidate_id_as_u64 (candidate_id_of c)" c]
  by (cases c) simp_all

section \<open>Families\<close>

text \<open>A family represents the map \<open>m\<close> when its entries are the keys and values of its records.\<close>

definition represents ::
    "('i \<Rightarrow> 'x \<Rightarrow> bytes) \<Rightarrow> ('i \<Rightarrow> 'x \<Rightarrow> bytes) \<Rightarrow> ('i \<rightharpoonup> 'x) \<Rightarrow> (bytes \<rightharpoonup> bytes) \<Rightarrow> bool" where
  "represents key val m kv \<longleftrightarrow> (\<forall>k v. kv k = Some v \<longleftrightarrow> (\<exists>i x. m i = Some x \<and> key i x = k \<and> val i x = v))"

definition key_unique :: "('i \<Rightarrow> 'x \<Rightarrow> bytes) \<Rightarrow> ('i \<rightharpoonup> 'x) \<Rightarrow> 'i \<Rightarrow> 'x \<Rightarrow> bool" where
  "key_unique key m i x \<longleftrightarrow> (\<forall>j y. m j = Some y \<longrightarrow> key j y = key i x \<longrightarrow> j = i)"

lemma represents_get: "represents key val m kv \<Longrightarrow> m i = Some x \<Longrightarrow> kv (key i x) = Some (val i x)"
  by (auto simp: represents_def)

lemma represents_get_None:
  "represents key val m kv \<Longrightarrow> (\<And>i x. m i = Some x \<Longrightarrow> key i x \<noteq> k) \<Longrightarrow> kv k = None"
  unfolding represents_def by (metis not_None_eq)

lemma represents_add:
  assumes "represents key val m kv" "m i = None" "key_unique key m i x"
  shows "represents key val (m(i \<mapsto> x)) (kv(key i x \<mapsto> val i x))"
  using assms unfolding represents_def key_unique_def by auto (metis option.distinct(1))

lemma represents_delete:
  assumes "represents key val m kv" "m i = Some x" "key_unique key m i x"
  shows "represents key val (m(i := None)) (kv(key i x := None))"
  using assms unfolding represents_def key_unique_def by (auto; metis option.inject)

lemma represents_replace:
  assumes "represents key val m kv" "m i = Some x" "key_unique key m i x" "key_unique key m i y"
  shows "represents key val (m(i \<mapsto> y)) ((kv(key i x := None))(key i y \<mapsto> val i y))"
proof -
  have "represents key val (m(i := None)) (kv(key i x := None))"
    using assms(1-3) by (rule represents_delete)
  moreover have "key_unique key (m(i := None)) i y" using assms(4) by (auto simp: key_unique_def)
  ultimately have "represents key val ((m(i := None))(i \<mapsto> y)) ((kv(key i x := None))(key i y \<mapsto> val i y))"
    by (intro represents_add) auto
  then show ?thesis by simp
qed

lemma represents_update:
  assumes "represents key val m kv" "m i = Some x" "key_unique key m i x" "key i y = key i x"
  shows "represents key val (m(i \<mapsto> y)) (kv(key i x \<mapsto> val i y))"
proof -
  have "key_unique key m i y" using assms(3,4) by (simp add: key_unique_def)
  from represents_replace [OF assms(1-3) this] assms(4) show ?thesis by simp
qed

lemma represents_dom_finite:
  assumes "represents key val m kv" "finite (dom kv)" "\<And>i x. m i = Some x \<Longrightarrow> key_unique key m i x"
  shows "finite (dom m)"
proof (rule finite_imageD)
  show "finite ((\<lambda>i. key i (the (m i))) ` dom m)"
    using assms(1,2) by (elim finite_subset [rotated]) (auto simp: represents_def; blast)
  show "inj_on (\<lambda>i. key i (the (m i))) (dom m)"
    using assms(3) unfolding key_unique_def by (fastforce intro: inj_onI)
qed

section \<open>Databases\<close>

type_synonym store = "column_family \<Rightarrow> bytes \<rightharpoonup> bytes"

fun store_op :: "write_op \<Rightarrow> store \<Rightarrow> store" where
  "store_op (Put cf k v) kv = kv(cf := (kv cf)(k \<mapsto> v))"
| "store_op (Delete cf k) kv = kv(cf := (kv cf)(k := None))"

definition store_ops :: "write_op list \<Rightarrow> store \<Rightarrow> store" where
  "store_ops ops kv = fold store_op ops kv"

definition store_of :: "contents \<Rightarrow> store" where
  "store_of c cf = btree_get (c cf)"

lemma store_ops_simps [simp]:
  "store_ops [] kv = kv"
  "store_ops (w # ws) kv = store_ops ws (store_op w kv)"
  "store_ops (ws @ ws') kv = store_ops ws' (store_ops ws kv)"
  by (simp_all add: store_ops_def)

lemma store_of_apply_op: "contents_ok c \<Longrightarrow> store_of (apply_op w c) = store_op w (store_of c)"
  by (cases w) (auto simp: store_of_def fun_eq_iff contents_ok_def btree.lookup_insert btree_get_remove)

lemma store_of_apply_batch: "contents_ok c \<Longrightarrow> store_of (apply_batch ops c) = store_ops ops (store_of c)"
  unfolding apply_batch_def store_ops_def
  by (induction ops arbitrary: c) (simp_all add: store_of_apply_op apply_op_ok)

text \<open>The keys and values of each family.\<close>

definition id_keys :: "('i \<Rightarrow> u64) \<Rightarrow> 'i \<Rightarrow> 'x \<Rightarrow> bytes" where
  "id_keys as_u64 i x = encode_id_key (as_u64 i)"

definition node_name_keys :: "node_id \<Rightarrow> node_record \<Rightarrow> bytes" where
  "node_name_keys i n = counted (node_name_as_str (nr_name n))"

definition relation_name_keys :: "relation_id \<Rightarrow> relation_record \<Rightarrow> bytes" where
  "relation_name_keys i r = counted (relation_name_as_str (rr_name r))"

definition id_values :: "('i \<Rightarrow> u64) \<Rightarrow> 'i \<Rightarrow> 'x \<Rightarrow> bytes" where
  "id_values as_u64 i x = encode_u64_record (as_u64 i)"

definition outgoing_keys :: "edge_id \<Rightarrow> edge_record \<Rightarrow> bytes" where
  "outgoing_keys i e = encode_adjacency_key (er_source e) i"

definition incoming_keys :: "edge_id \<Rightarrow> edge_record \<Rightarrow> bytes" where
  "incoming_keys i e = encode_adjacency_key (er_destination e) i"

definition metadata_of :: "graph \<Rightarrow> bytes \<rightharpoonup> bytes" where
  "metadata_of g =
     [ascii META_NEXT_CANDIDATE_ID \<mapsto> encode_u64_record (gr_next_candidate g),
      ascii META_NEXT_NODE_ID \<mapsto> encode_u64_record (gr_next_node g),
      ascii META_NEXT_RELATION_ID \<mapsto> encode_u64_record (gr_next_relation g),
      ascii META_NEXT_EDGE_ID \<mapsto> encode_u64_record (gr_next_edge g)]
     (ascii META_ACTIVE_ROUTING_IMAGE := gr_pointer g)"

definition stores :: "graph \<Rightarrow> store \<Rightarrow> bool" where
  "stores g kv \<longleftrightarrow>
     represents (id_keys node_id_as_u64) (\<lambda>_. node_bytes) (gr_nodes g) (kv NODES) \<and>
     represents node_name_keys (id_values node_id_as_u64) (gr_nodes g) (kv NODE_NAMES) \<and>
     represents (id_keys relation_id_as_u64) (\<lambda>_. relation_bytes) (gr_relations g) (kv RELATION_KINDS) \<and>
     represents relation_name_keys (id_values relation_id_as_u64) (gr_relations g) (kv RELATION_NAMES) \<and>
     represents (\<lambda>_. popularity_bytes) (id_values relation_id_as_u64) (gr_relations g) (kv RELATION_POPULARITY) \<and>
     represents (id_keys edge_id_as_u64) (\<lambda>_. encode_edge) (gr_edges g) (kv EDGES) \<and>
     represents outgoing_keys (id_values edge_id_as_u64) (gr_edges g) (kv OUTGOING_EDGES) \<and>
     represents incoming_keys (id_values edge_id_as_u64) (gr_edges g) (kv INCOMING_EDGES) \<and>
     represents (id_keys candidate_id_as_u64) (\<lambda>_. candidate_bytes) (gr_candidates g) (kv CANDIDATES) \<and>
     kv DEFAULT = metadata_of g"

text \<open>Well-formed records under their own identifiers, with exact names used once.\<close>

definition records_ok :: "graph \<Rightarrow> bool" where
  "records_ok g \<longleftrightarrow>
     (\<forall>i n. gr_nodes g i = Some n \<longrightarrow> nr_id n = i \<and> node_ok n) \<and>
     (\<forall>i r. gr_relations g i = Some r \<longrightarrow> rr_id r = i \<and> relation_ok r) \<and>
     (\<forall>i e. gr_edges g i = Some e \<longrightarrow> er_id e = i \<and> edge_ok e) \<and>
     (\<forall>i c. gr_candidates g i = Some c \<longrightarrow> candidate_id_of c = i \<and> stored_candidate_ok c) \<and>
     (\<forall>i j n m. gr_nodes g i = Some n \<longrightarrow> gr_nodes g j = Some m \<longrightarrow> nr_name n = nr_name m \<longrightarrow> i = j) \<and>
     (\<forall>i j r s. gr_relations g i = Some r \<longrightarrow> gr_relations g j = Some s \<longrightarrow> rr_name r = rr_name s \<longrightarrow> i = j)"

definition stored_graph :: "graph \<Rightarrow> store \<Rightarrow> bool" where
  "stored_graph g kv \<longleftrightarrow> records_ok g \<and> stores g kv"

section \<open>Keys\<close>

lemma of_char_less: "(of_char c :: nat) < 256"
  by (metis nat_of_char_less_256)

lemma ascii_eq_iff [simp]: "ascii s = ascii t \<longleftrightarrow> s = t"
proof -
  have "inj (\<lambda>c. word_of_nat (of_char c) :: u8)"
  proof (rule injI)
    fix c d :: char
    assume "(word_of_nat (of_char c) :: u8) = word_of_nat (of_char d)"
    then have "unat (word_of_nat (of_char c) :: u8) = unat (word_of_nat (of_char d) :: u8)" by simp
    then have "(of_char c :: nat) = of_char d" using of_char_less by (simp add: unat_of_nat)
    then show "c = d" by simp
  qed
  then show ?thesis by (simp add: ascii_def inj_map_eq_map)
qed

lemma metadata_keys_distinct [simp]:
  "META_NEXT_CANDIDATE_ID \<noteq> META_NEXT_NODE_ID" "META_NEXT_CANDIDATE_ID \<noteq> META_NEXT_RELATION_ID"
  "META_NEXT_CANDIDATE_ID \<noteq> META_NEXT_EDGE_ID" "META_NEXT_CANDIDATE_ID \<noteq> META_ACTIVE_ROUTING_IMAGE"
  "META_NEXT_NODE_ID \<noteq> META_NEXT_RELATION_ID" "META_NEXT_NODE_ID \<noteq> META_NEXT_EDGE_ID"
  "META_NEXT_NODE_ID \<noteq> META_ACTIVE_ROUTING_IMAGE" "META_NEXT_RELATION_ID \<noteq> META_NEXT_EDGE_ID"
  "META_NEXT_RELATION_ID \<noteq> META_ACTIVE_ROUTING_IMAGE" "META_NEXT_EDGE_ID \<noteq> META_ACTIVE_ROUTING_IMAGE"
  by (simp_all add: META_NEXT_CANDIDATE_ID_def META_NEXT_NODE_ID_def META_NEXT_RELATION_ID_def
      META_NEXT_EDGE_ID_def META_ACTIVE_ROUTING_IMAGE_def)

lemmas metadata_keys_distinct_sym [simp] = metadata_keys_distinct [symmetric]

lemma counted_eq_iff [simp]: "counted v = counted w \<longleftrightarrow> v = w"
  by (auto simp: counted_def)

lemma encode_id_key_eq_iff [simp]: "encode_id_key a = encode_id_key b \<longleftrightarrow> a = b"
  by (simp add: encode_id_key_def)

lemma adjacency_key_eq_iff [simp]:
  "encode_adjacency_key n e = encode_adjacency_key n' e' \<longleftrightarrow> n = n' \<and> e = e'"
  by (cases n; cases n'; cases e; cases e') (simp add: encode_adjacency_key_def)

lemma popularity_bytes_eq: "relation_ok r \<Longrightarrow> popularity_bytes r =
    u64_to_be_bytes (NOT (rr_provisional_reference_count r + rr_confirmed_edge_count r))
    @ u64_to_be_bytes (NOT (rr_confirmed_edge_count r)) @ u64_to_be_bytes (relation_id_as_u64 (rr_id r))"
  by (simp add: popularity_bytes_def encode_popularity_key_def total_ok)

lemma popularity_bytes_id: "relation_ok r \<Longrightarrow> relation_ok s \<Longrightarrow> popularity_bytes r = popularity_bytes s \<Longrightarrow>
    rr_id r = rr_id s"
  by (cases "rr_id r"; cases "rr_id s") (simp add: popularity_bytes_eq)

lemma as_u64_eq_iff [simp]:
  "node_id_as_u64 i = node_id_as_u64 j \<longleftrightarrow> i = j"
  "relation_id_as_u64 a = relation_id_as_u64 b \<longleftrightarrow> a = b"
  "edge_id_as_u64 e = edge_id_as_u64 f \<longleftrightarrow> e = f"
  "candidate_id_as_u64 c = candidate_id_as_u64 d \<longleftrightarrow> c = d"
  by (auto intro: node_id.expand relation_id.expand edge_id.expand candidate_id.expand)

lemma key_unique_ids [simp]:
  "key_unique (id_keys node_id_as_u64) m i n"
  "key_unique (id_keys relation_id_as_u64) mr j r"
  "key_unique (id_keys edge_id_as_u64) me e x"
  "key_unique (id_keys candidate_id_as_u64) mc c y"
  "key_unique outgoing_keys ma e z" "key_unique incoming_keys ma e z"
  by (auto simp: key_unique_def id_keys_def outgoing_keys_def incoming_keys_def)

lemma records_okD:
  assumes "records_ok g"
  shows "gr_nodes g i = Some n \<Longrightarrow> nr_id n = i \<and> node_ok n"
    and "gr_relations g j = Some r \<Longrightarrow> rr_id r = j \<and> relation_ok r"
    and "gr_edges g e = Some x \<Longrightarrow> er_id x = e \<and> edge_ok x"
    and "gr_candidates g c = Some y \<Longrightarrow> candidate_id_of y = c \<and> stored_candidate_ok y"
    and "gr_nodes g i = Some n \<Longrightarrow> gr_nodes g i' = Some n' \<Longrightarrow> nr_name n = nr_name n' \<Longrightarrow> i = i'"
    and "gr_relations g j = Some r \<Longrightarrow> gr_relations g j' = Some r' \<Longrightarrow> rr_name r = rr_name r' \<Longrightarrow> j = j'"
  using assms by (auto simp: records_ok_def)

lemma node_name_key_unique:
  "(\<And>j m. gr_nodes g j = Some m \<Longrightarrow> nr_name m = nr_name n \<Longrightarrow> j = i) \<Longrightarrow>
     key_unique node_name_keys (gr_nodes g) i n"
  by (auto simp: key_unique_def node_name_keys_def intro: node_name.expand)

lemma relation_name_key_unique:
  "(\<And>j m. gr_relations g j = Some m \<Longrightarrow> rr_name m = rr_name r \<Longrightarrow> j = i) \<Longrightarrow>
     key_unique relation_name_keys (gr_relations g) i r"
  by (auto simp: key_unique_def relation_name_keys_def intro: relation_name.expand)

lemma popularity_key_unique:
  assumes "records_ok g" "relation_ok r"
  shows "key_unique (\<lambda>_. popularity_bytes) (gr_relations g) (rr_id r) r"
  unfolding key_unique_def
proof (intro allI impI)
  fix j y assume y: "gr_relations g j = Some y" "popularity_bytes y = popularity_bytes r"
  then have "rr_id y = j" "relation_ok y" using records_okD(2) [OF assms(1)] by blast+
  with popularity_bytes_id [of y r] assms(2) y(2) show "j = rr_id r" by simp
qed

lemma represents_id_get:
  assumes "represents (id_keys f) val m kv" "inj f"
  shows "kv (encode_id_key (f i)) = map_option (val i) (m i)"
proof (cases "m i")
  case None
  then have "kv (encode_id_key (f i)) = None"
    using assms(2) by (intro represents_get_None [OF assms(1)]) (auto simp: id_keys_def dest: injD)
  with None show ?thesis by simp
next
  case (Some x)
  with represents_get [OF assms(1), of i x] show ?thesis by (simp add: id_keys_def)
qed

lemma inj_as_u64 [simp]: "inj node_id_as_u64" "inj relation_id_as_u64" "inj edge_id_as_u64" "inj candidate_id_as_u64"
  by (auto intro: injI)

lemma stores_get:
  assumes "stores g kv"
  shows "kv NODES (encode_id_key (node_id_as_u64 i)) = map_option node_bytes (gr_nodes g i)"
    and "kv RELATION_KINDS (encode_id_key (relation_id_as_u64 r)) = map_option relation_bytes (gr_relations g r)"
    and "kv EDGES (encode_id_key (edge_id_as_u64 e)) = map_option encode_edge (gr_edges g e)"
    and "kv CANDIDATES (encode_id_key (candidate_id_as_u64 c)) = map_option candidate_bytes (gr_candidates g c)"
    and "kv DEFAULT = metadata_of g"
proof -
  note s = assms [unfolded stores_def]
  show "kv NODES (encode_id_key (node_id_as_u64 i)) = map_option node_bytes (gr_nodes g i)"
    using s by (intro represents_id_get) simp_all
  show "kv RELATION_KINDS (encode_id_key (relation_id_as_u64 r)) = map_option relation_bytes (gr_relations g r)"
    using s by (intro represents_id_get) simp_all
  show "kv EDGES (encode_id_key (edge_id_as_u64 e)) = map_option encode_edge (gr_edges g e)"
    using s by (intro represents_id_get) simp_all
  show "kv CANDIDATES (encode_id_key (candidate_id_as_u64 c)) = map_option candidate_bytes (gr_candidates g c)"
    using s by (intro represents_id_get) simp_all
  show "kv DEFAULT = metadata_of g" using s by simp
qed

end
