(* ===== verification/Catalog_Steps.thy ===== *)
theory Catalog_Steps
  imports Catalog_Layout
begin

text \<open>
  The groups of write operations that a catalog batch is made of, and the graph they leave
  behind: one lemma per group, each saying that a database representing a graph represents the
  changed graph afterwards. A batch is a sequence of groups.
\<close>

section \<open>Groups\<close>

definition node_group :: "node_record \<Rightarrow> write_op list" where
  "node_group n = [Put NODES (encode_id_key (node_id_as_u64 (nr_id n))) (node_bytes n),
     Put NODE_NAMES (counted (node_name_as_str (nr_name n))) (encode_u64_record (node_id_as_u64 (nr_id n)))]"

definition node_removal :: "node_record \<Rightarrow> write_op list" where
  "node_removal n = [Delete NODES (encode_id_key (node_id_as_u64 (nr_id n))),
     Delete NODE_NAMES (counted (node_name_as_str (nr_name n)))]"

definition relation_group :: "relation_record \<Rightarrow> write_op list" where
  "relation_group r =
     [Put RELATION_NAMES (counted (relation_name_as_str (rr_name r))) (encode_u64_record (relation_id_as_u64 (rr_id r))),
      Put RELATION_KINDS (encode_id_key (relation_id_as_u64 (rr_id r))) (relation_bytes r),
      Put RELATION_POPULARITY (popularity_bytes r) (encode_u64_record (relation_id_as_u64 (rr_id r)))]"

definition relation_change :: "relation_record \<Rightarrow> relation_record \<Rightarrow> write_op list" where
  "relation_change old r =
     [Delete RELATION_POPULARITY (popularity_bytes old),
      Put RELATION_KINDS (encode_id_key (relation_id_as_u64 (rr_id r))) (relation_bytes r),
      Put RELATION_POPULARITY (popularity_bytes r) (encode_u64_record (relation_id_as_u64 (rr_id r)))]"

definition relation_removal :: "relation_record \<Rightarrow> write_op list" where
  "relation_removal r =
     [Delete RELATION_POPULARITY (popularity_bytes r),
      Delete RELATION_KINDS (encode_id_key (relation_id_as_u64 (rr_id r))),
      Delete RELATION_NAMES (counted (relation_name_as_str (rr_name r)))]"

definition candidate_group :: "candidate \<Rightarrow> write_op list" where
  "candidate_group c =
     [Put CANDIDATES (encode_id_key (candidate_id_as_u64 (candidate_id_of c))) (candidate_bytes c)]"

definition candidate_removal :: "candidate \<Rightarrow> write_op list" where
  "candidate_removal c = [Delete CANDIDATES (encode_id_key (candidate_id_as_u64 (candidate_id_of c)))]"

text \<open>The corresponding changes of the graph.\<close>

definition with_node :: "node_record \<Rightarrow> graph \<Rightarrow> graph" where
  "with_node n g = g\<lparr>gr_nodes := (gr_nodes g)(nr_id n \<mapsto> n)\<rparr>"

definition without_node :: "node_id \<Rightarrow> graph \<Rightarrow> graph" where
  "without_node i g = g\<lparr>gr_nodes := (gr_nodes g)(i := None)\<rparr>"

definition with_relation :: "relation_record \<Rightarrow> graph \<Rightarrow> graph" where
  "with_relation r g = g\<lparr>gr_relations := (gr_relations g)(rr_id r \<mapsto> r)\<rparr>"

definition without_relation :: "relation_id \<Rightarrow> graph \<Rightarrow> graph" where
  "without_relation i g = g\<lparr>gr_relations := (gr_relations g)(i := None)\<rparr>"

definition with_edge :: "edge_record \<Rightarrow> graph \<Rightarrow> graph" where
  "with_edge e g = g\<lparr>gr_edges := (gr_edges g)(er_id e \<mapsto> e)\<rparr>"

definition without_edge :: "edge_id \<Rightarrow> graph \<Rightarrow> graph" where
  "without_edge i g = g\<lparr>gr_edges := (gr_edges g)(i := None)\<rparr>"

definition with_candidate :: "candidate \<Rightarrow> graph \<Rightarrow> graph" where
  "with_candidate c g = g\<lparr>gr_candidates := (gr_candidates g)(candidate_id_of c \<mapsto> c)\<rparr>"

definition without_candidate :: "candidate_id \<Rightarrow> graph \<Rightarrow> graph" where
  "without_candidate i g = g\<lparr>gr_candidates := (gr_candidates g)(i := None)\<rparr>"

lemmas graph_change_defs = with_node_def without_node_def with_relation_def without_relation_def
  with_edge_def without_edge_def with_candidate_def without_candidate_def

lemma metadata_of_changes [simp]:
  "metadata_of (with_node n g) = metadata_of g" "metadata_of (without_node i g) = metadata_of g"
  "metadata_of (with_relation r g) = metadata_of g" "metadata_of (without_relation j g) = metadata_of g"
  "metadata_of (with_edge e g) = metadata_of g" "metadata_of (without_edge k g) = metadata_of g"
  "metadata_of (with_candidate c g) = metadata_of g" "metadata_of (without_candidate l g) = metadata_of g"
  by (simp_all add: metadata_of_def graph_change_defs)

section \<open>Their effect\<close>

lemma node_group_step:
  assumes "stored_graph g kv" "node_ok n" "gr_nodes g (nr_id n) = None"
    and "\<And>i m. gr_nodes g i = Some m \<Longrightarrow> nr_name m \<noteq> nr_name n"
  shows "stored_graph (with_node n g) (store_ops (node_group n) kv)"
proof -
  have u: "key_unique node_name_keys (gr_nodes g) (nr_id n) n"
    using assms(4) by (intro node_name_key_unique) blast
  have s: "represents (id_keys node_id_as_u64) (\<lambda>_. node_bytes) (gr_nodes g) (kv NODES)"
      "represents node_name_keys (id_values node_id_as_u64) (gr_nodes g) (kv NODE_NAMES)"
    using assms(1) by (simp_all add: stored_graph_def stores_def)
  have "records_ok (with_node n g)"
    using assms by (auto simp: stored_graph_def records_ok_def with_node_def) metis+
  moreover have "stores (with_node n g) (store_ops (node_group n) kv)"
    using assms(1) represents_add [OF s(1) assms(3)] represents_add [OF s(2) assms(3) u]
    by (simp add: stored_graph_def stores_def node_group_def)
      (simp add: with_node_def id_keys_def node_name_keys_def id_values_def)
  ultimately show ?thesis by (simp add: stored_graph_def)
qed

lemma node_removal_step:
  assumes "stored_graph g kv" "gr_nodes g i = Some n"
  shows "stored_graph (without_node i g) (store_ops (node_removal n) kv)"
proof -
  have ok: "records_ok g" using assms(1) by (simp add: stored_graph_def)
  have u: "key_unique node_name_keys (gr_nodes g) i n"
    using records_okD(5) [OF ok _ assms(2)] by (intro node_name_key_unique)
  have s: "represents (id_keys node_id_as_u64) (\<lambda>_. node_bytes) (gr_nodes g) (kv NODES)"
      "represents node_name_keys (id_values node_id_as_u64) (gr_nodes g) (kv NODE_NAMES)"
    using assms(1) by (simp_all add: stored_graph_def stores_def)
  have "records_ok (without_node i g)"
    using ok by (auto simp: records_ok_def without_node_def split: if_splits)
  moreover have "stores (without_node i g) (store_ops (node_removal n) kv)"
    using assms(1) represents_delete [OF s(1) assms(2)] represents_delete [OF s(2) assms(2) u]
      records_okD(1) [OF ok assms(2)]
    by (simp add: stored_graph_def stores_def node_removal_def)
      (simp add: without_node_def id_keys_def node_name_keys_def)
  ultimately show ?thesis by (simp add: stored_graph_def)
qed

lemma relation_group_step:
  assumes "stored_graph g kv" "relation_ok r" "gr_relations g (rr_id r) = None"
    and "\<And>i m. gr_relations g i = Some m \<Longrightarrow> rr_name m \<noteq> rr_name r"
  shows "stored_graph (with_relation r g) (store_ops (relation_group r) kv)"
proof -
  have ok: "records_ok g" using assms(1) by (simp add: stored_graph_def)
  have u: "key_unique relation_name_keys (gr_relations g) (rr_id r) r"
    using assms(4) by (intro relation_name_key_unique) blast
  note p = popularity_key_unique [OF ok assms(2)]
  have s: "represents (id_keys relation_id_as_u64) (\<lambda>_. relation_bytes) (gr_relations g) (kv RELATION_KINDS)"
      "represents relation_name_keys (id_values relation_id_as_u64) (gr_relations g) (kv RELATION_NAMES)"
      "represents (\<lambda>_. popularity_bytes) (id_values relation_id_as_u64) (gr_relations g) (kv RELATION_POPULARITY)"
    using assms(1) by (simp_all add: stored_graph_def stores_def)
  have "records_ok (with_relation r g)"
    using ok assms(2-) by (auto simp: records_ok_def with_relation_def) metis+
  moreover have "stores (with_relation r g) (store_ops (relation_group r) kv)"
    using assms(1) represents_add [OF s(1) assms(3)] represents_add [OF s(2) assms(3) u]
      represents_add [OF s(3) assms(3) p]
    by (simp add: stored_graph_def stores_def relation_group_def)
      (simp add: with_relation_def id_keys_def relation_name_keys_def id_values_def)
  ultimately show ?thesis by (simp add: stored_graph_def)
qed

lemma relation_change_step:
  assumes "stored_graph g kv" "gr_relations g (rr_id r) = Some old" "relation_ok r" "rr_name r = rr_name old"
  shows "stored_graph (with_relation r g) (store_ops (relation_change old r) kv)"
proof -
  have ok: "records_ok g" using assms(1) by (simp add: stored_graph_def)
  have old: "rr_id old = rr_id r" "relation_ok old" using records_okD(2) [OF ok assms(2)] by auto
  have u: "key_unique relation_name_keys (gr_relations g) (rr_id r) old"
    using records_okD(6) [OF ok _ assms(2)] by (intro relation_name_key_unique)
  note p = popularity_key_unique [OF ok old(2), unfolded old(1)] popularity_key_unique [OF ok assms(3)]
  have s: "represents (id_keys relation_id_as_u64) (\<lambda>_. relation_bytes) (gr_relations g) (kv RELATION_KINDS)"
      "represents relation_name_keys (id_values relation_id_as_u64) (gr_relations g) (kv RELATION_NAMES)"
      "represents (\<lambda>_. popularity_bytes) (id_values relation_id_as_u64) (gr_relations g) (kv RELATION_POPULARITY)"
    using assms(1) by (simp_all add: stored_graph_def stores_def)
  have "records_ok (with_relation r g)"
    using ok assms(2-) by (auto simp: records_ok_def with_relation_def)
  moreover have "represents relation_name_keys (id_values relation_id_as_u64) ((gr_relations g)(rr_id r \<mapsto> r))
      (kv RELATION_NAMES)"
    using represents_update [OF s(2) assms(2) u, of r] represents_get [OF s(2) assms(2)] assms(4)
    by (simp add: relation_name_keys_def id_values_def fun_upd_idem)
  then have "stores (with_relation r g) (store_ops (relation_change old r) kv)"
    using assms(1) represents_update [OF s(1) assms(2), of r] represents_replace [OF s(3) assms(2) p]
    by (simp add: stored_graph_def stores_def relation_change_def)
      (simp add: with_relation_def id_keys_def id_values_def)
  ultimately show ?thesis by (simp add: stored_graph_def)
qed

lemma relation_removal_step:
  assumes "stored_graph g kv" "gr_relations g i = Some r"
  shows "stored_graph (without_relation i g) (store_ops (relation_removal r) kv)"
proof -
  have ok: "records_ok g" using assms(1) by (simp add: stored_graph_def)
  have r: "rr_id r = i" "relation_ok r" using records_okD(2) [OF ok assms(2)] by auto
  have u: "key_unique relation_name_keys (gr_relations g) i r"
    using records_okD(6) [OF ok _ assms(2)] by (intro relation_name_key_unique)
  note p = popularity_key_unique [OF ok r(2), unfolded r(1)]
  have s: "represents (id_keys relation_id_as_u64) (\<lambda>_. relation_bytes) (gr_relations g) (kv RELATION_KINDS)"
      "represents relation_name_keys (id_values relation_id_as_u64) (gr_relations g) (kv RELATION_NAMES)"
      "represents (\<lambda>_. popularity_bytes) (id_values relation_id_as_u64) (gr_relations g) (kv RELATION_POPULARITY)"
    using assms(1) by (simp_all add: stored_graph_def stores_def)
  have "records_ok (without_relation i g)"
    using ok by (auto simp: records_ok_def without_relation_def split: if_splits)
  moreover have "stores (without_relation i g) (store_ops (relation_removal r) kv)"
    using assms(1) represents_delete [OF s(1) assms(2)] represents_delete [OF s(2) assms(2) u]
      represents_delete [OF s(3) assms(2) p] r(1)
    by (simp add: stored_graph_def stores_def relation_removal_def)
      (simp add: without_relation_def id_keys_def relation_name_keys_def)
  ultimately show ?thesis by (simp add: stored_graph_def)
qed

lemma edge_group_step:
  assumes "stored_graph g kv" "edge_ok e" "gr_edges g (er_id e) = None"
  shows "stored_graph (with_edge e g) (store_ops (put_created_edge e) kv)"
proof -
  have s: "represents (id_keys edge_id_as_u64) (\<lambda>_. encode_edge) (gr_edges g) (kv EDGES)"
      "represents outgoing_keys (id_values edge_id_as_u64) (gr_edges g) (kv OUTGOING_EDGES)"
      "represents incoming_keys (id_values edge_id_as_u64) (gr_edges g) (kv INCOMING_EDGES)"
    using assms(1) by (simp_all add: stored_graph_def stores_def)
  have "records_ok (with_edge e g)"
    using assms by (auto simp: stored_graph_def records_ok_def with_edge_def)
  moreover have "stores (with_edge e g) (store_ops (put_created_edge e) kv)"
    using assms(1) represents_add [OF s(1) assms(3), of e] represents_add [OF s(2) assms(3), of e]
      represents_add [OF s(3) assms(3), of e]
    by (simp add: stored_graph_def stores_def put_created_edge_def)
      (simp add: with_edge_def id_keys_def outgoing_keys_def incoming_keys_def id_values_def encode_adjacency_value_def)
  ultimately show ?thesis by (simp add: stored_graph_def)
qed

lemma edge_removal_step:
  assumes "stored_graph g kv" "gr_edges g i = Some e"
  shows "stored_graph (without_edge i g) (store_ops (delete_edge_ops e) kv)"
proof -
  have ok: "records_ok g" using assms(1) by (simp add: stored_graph_def)
  have s: "represents (id_keys edge_id_as_u64) (\<lambda>_. encode_edge) (gr_edges g) (kv EDGES)"
      "represents outgoing_keys (id_values edge_id_as_u64) (gr_edges g) (kv OUTGOING_EDGES)"
      "represents incoming_keys (id_values edge_id_as_u64) (gr_edges g) (kv INCOMING_EDGES)"
    using assms(1) by (simp_all add: stored_graph_def stores_def)
  have "records_ok (without_edge i g)"
    using ok by (auto simp: records_ok_def without_edge_def split: if_splits)
  moreover have "stores (without_edge i g) (store_ops (delete_edge_ops e) kv)"
    using assms(1) represents_delete [OF s(1) assms(2)] represents_delete [OF s(2) assms(2)]
      represents_delete [OF s(3) assms(2)] records_okD(3) [OF ok assms(2)]
    by (simp add: stored_graph_def stores_def delete_edge_ops_def)
      (simp add: without_edge_def id_keys_def outgoing_keys_def incoming_keys_def)
  ultimately show ?thesis by (simp add: stored_graph_def)
qed

lemma candidate_group_step:
  assumes "stored_graph g kv" "stored_candidate_ok c" "gr_candidates g (candidate_id_of c) = None"
  shows "stored_graph (with_candidate c g) (store_ops (candidate_group c) kv)"
proof -
  have s: "represents (id_keys candidate_id_as_u64) (\<lambda>_. candidate_bytes) (gr_candidates g) (kv CANDIDATES)"
    using assms(1) by (simp_all add: stored_graph_def stores_def)
  have "records_ok (with_candidate c g)"
    using assms by (auto simp: stored_graph_def records_ok_def with_candidate_def)
  moreover have "stores (with_candidate c g) (store_ops (candidate_group c) kv)"
    using assms(1) represents_add [OF s assms(3), of c]
    by (simp add: stored_graph_def stores_def candidate_group_def) (simp add: with_candidate_def id_keys_def)
  ultimately show ?thesis by (simp add: stored_graph_def)
qed

lemma candidate_removal_step:
  assumes "stored_graph g kv" "gr_candidates g i = Some c"
  shows "stored_graph (without_candidate i g) (store_ops (candidate_removal c) kv)"
proof -
  have ok: "records_ok g" using assms(1) by (simp add: stored_graph_def)
  have s: "represents (id_keys candidate_id_as_u64) (\<lambda>_. candidate_bytes) (gr_candidates g) (kv CANDIDATES)"
    using assms(1) by (simp_all add: stored_graph_def stores_def)
  have "records_ok (without_candidate i g)"
    using ok by (auto simp: records_ok_def without_candidate_def split: if_splits)
  moreover have "stores (without_candidate i g) (store_ops (candidate_removal c) kv)"
    using assms(1) represents_delete [OF s assms(2)] records_okD(4) [OF ok assms(2)]
    by (simp add: stored_graph_def stores_def candidate_removal_def) (simp add: without_candidate_def id_keys_def)
  ultimately show ?thesis by (simp add: stored_graph_def)
qed

lemma metadata_steps:
  assumes "stored_graph g kv"
  shows "stored_graph (g\<lparr>gr_next_candidate := v\<rparr>)
      (store_op (Put DEFAULT (ascii META_NEXT_CANDIDATE_ID) (encode_u64_record v)) kv)"
    and "stored_graph (g\<lparr>gr_next_node := v\<rparr>)
      (store_op (Put DEFAULT (ascii META_NEXT_NODE_ID) (encode_u64_record v)) kv)"
    and "stored_graph (g\<lparr>gr_next_relation := v\<rparr>)
      (store_op (Put DEFAULT (ascii META_NEXT_RELATION_ID) (encode_u64_record v)) kv)"
    and "stored_graph (g\<lparr>gr_next_edge := v\<rparr>)
      (store_op (Put DEFAULT (ascii META_NEXT_EDGE_ID) (encode_u64_record v)) kv)"
    and "stored_graph (g\<lparr>gr_pointer := None\<rparr>) (store_op (Delete DEFAULT (ascii META_ACTIVE_ROUTING_IMAGE)) kv)"
    and "stored_graph (g\<lparr>gr_pointer := Some p\<rparr>) (store_op (Put DEFAULT (ascii META_ACTIVE_ROUTING_IMAGE) p) kv)"
  using assms by (auto simp: stored_graph_def stores_def records_ok_def metadata_of_def fun_eq_iff)

text \<open>A list of groups of one kind.\<close>

lemma store_ops_concat: "store_ops (concat (map f xs)) kv = fold (\<lambda>x. store_ops (f x)) xs kv"
  by (induction xs arbitrary: kv) simp_all

end
