(* ===== verification/Catalog_Graph.thy ===== *)
theory Catalog_Graph
  imports Catalog_Steps
begin

text \<open>
  The invariant of a catalog. A graph is well formed when its records are, edges join confirmed
  nodes by confirmed relation kinds, provisional edges depend on what exists, the stored usage
  and reference counts are the numbers of the edges and candidates that refer to a record, and
  the identifier counters are ahead of every identifier in use. A catalog is well formed when
  its database represents a well-formed graph, its name indexes are the graph's, and no lock is
  poisoned.
\<close>

section \<open>Sums over maps\<close>

definition msum :: "('x \<Rightarrow> nat) \<Rightarrow> ('i \<rightharpoonup> 'x) \<Rightarrow> nat" where
  "msum f m = (\<Sum>i \<in> dom m. f (the (m i)))"

lemma msum_empty [simp]: "msum f Map.empty = 0"
  by (simp add: msum_def)

lemma msum_add: "finite (dom m) \<Longrightarrow> m i = None \<Longrightarrow> msum f (m(i \<mapsto> x)) = msum f m + f x"
proof -
  assume "finite (dom m)" "m i = None"
  moreover from this(2) have "i \<notin> dom m" by auto
  moreover from this have "(\<Sum>j \<in> dom m. f (the ((m(i \<mapsto> x)) j))) = (\<Sum>j \<in> dom m. f (the (m j)))"
    by (intro sum.cong) auto
  ultimately show ?thesis by (simp add: msum_def)
qed

lemma msum_delete: "finite (dom m) \<Longrightarrow> m i = Some x \<Longrightarrow> msum f (m(i := None)) + f x = msum f m"
proof -
  assume a: "finite (dom m)" "m i = Some x"
  have "msum f ((m(i := None))(i \<mapsto> x)) = msum f (m(i := None)) + f x"
    using a by (intro msum_add) auto
  moreover have "(m(i := None))(i \<mapsto> x) = m" using a by auto
  ultimately show ?thesis by simp
qed

lemma msum_mono: "finite (dom m) \<Longrightarrow> m i = Some x \<Longrightarrow> f x \<le> msum f m"
  using msum_delete [of m i x f] by simp

lemma msum_eq_0_iff: "finite (dom m) \<Longrightarrow> msum f m = 0 \<longleftrightarrow> (\<forall>i x. m i = Some x \<longrightarrow> f x = 0)"
  unfolding msum_def by (auto simp: dom_def)

section \<open>Well-formed graphs\<close>

definition uses_relation :: "relation_id \<Rightarrow> edge_record \<Rightarrow> nat" where
  "uses_relation r e = of_bool (er_relation_kind e = r)"

fun provisional_uses :: "relation_id \<Rightarrow> candidate \<Rightarrow> nat" where
  "provisional_uses r (CandidateEdge _ _ _ relation_kind _) = of_bool (relation_kind = RelationConfirmed r)"
| "provisional_uses r _ = 0"

fun candidate_refs :: "candidate_id \<Rightarrow> candidate \<Rightarrow> nat" where
  "candidate_refs i (CandidateEdge _ source destination relation_kind _) =
     of_bool (source = NodeCandidate i) + of_bool (destination = NodeCandidate i)
     + of_bool (relation_kind = RelationCandidate i)"
| "candidate_refs i _ = 0"

fun node_reference_ok :: "graph \<Rightarrow> candidate_node_reference \<Rightarrow> bool" where
  "node_reference_ok g (NodeConfirmed i) \<longleftrightarrow> gr_nodes g i \<noteq> None"
| "node_reference_ok g (NodeCandidate i) \<longleftrightarrow> (\<exists>c. gr_candidates g i = Some c \<and> is_candidate_node c)"

fun relation_reference_ok :: "graph \<Rightarrow> candidate_relation_reference \<Rightarrow> bool" where
  "relation_reference_ok g (RelationConfirmed i) \<longleftrightarrow> gr_relations g i \<noteq> None"
| "relation_reference_ok g (RelationCandidate i) \<longleftrightarrow> (\<exists>c. gr_candidates g i = Some c \<and> is_candidate_relation c)"

fun dependencies_ok :: "graph \<Rightarrow> candidate \<Rightarrow> bool" where
  "dependencies_ok g (CandidateEdge _ source destination relation_kind _) \<longleftrightarrow>
     node_reference_ok g source \<and> node_reference_ok g destination \<and> relation_reference_ok g relation_kind"
| "dependencies_ok g _ \<longleftrightarrow> True"

definition finite_graph :: "graph \<Rightarrow> bool" where
  "finite_graph g \<longleftrightarrow> finite (dom (gr_nodes g)) \<and> finite (dom (gr_relations g)) \<and> finite (dom (gr_edges g))
     \<and> finite (dom (gr_candidates g))"

definition references_ok :: "graph \<Rightarrow> bool" where
  "references_ok g \<longleftrightarrow>
     (\<forall>i e. gr_edges g i = Some e \<longrightarrow> gr_nodes g (er_source e) \<noteq> None \<and> gr_nodes g (er_destination e) \<noteq> None
        \<and> gr_relations g (er_relation_kind e) \<noteq> None) \<and>
     (\<forall>i c. gr_candidates g i = Some c \<longrightarrow> dependencies_ok g c)"

definition counts_ok :: "graph \<Rightarrow> bool" where
  "counts_ok g \<longleftrightarrow>
     (\<forall>i r. gr_relations g i = Some r \<longrightarrow>
        unat (rr_confirmed_edge_count r) = msum (uses_relation i) (gr_edges g) \<and>
        unat (rr_provisional_reference_count r) = msum (provisional_uses i) (gr_candidates g)) \<and>
     (\<forall>i c n. gr_candidates g i = Some c \<longrightarrow> durable_incoming c = Some (i, n) \<longrightarrow>
        unat n = msum (candidate_refs i) (gr_candidates g))"

definition counters_ok :: "graph \<Rightarrow> bool" where
  "counters_ok g \<longleftrightarrow>
     gr_next_candidate g \<noteq> 0 \<and> gr_next_node g \<noteq> 0 \<and> gr_next_relation g \<noteq> 0 \<and> gr_next_edge g \<noteq> 0 \<and>
     (\<forall>i c. gr_candidates g i = Some c \<longrightarrow> candidate_id_as_u64 i < gr_next_candidate g) \<and>
     (\<forall>i n. gr_nodes g i = Some n \<longrightarrow> node_id_as_u64 i < gr_next_node g) \<and>
     (\<forall>i r. gr_relations g i = Some r \<longrightarrow> relation_id_as_u64 i < gr_next_relation g) \<and>
     (\<forall>i e. gr_edges g i = Some e \<longrightarrow> edge_id_as_u64 i < gr_next_edge g)"

definition pointer_ok :: "graph \<Rightarrow> bool" where
  "pointer_ok g \<longleftrightarrow> (\<forall>p. gr_pointer g = Some p \<longrightarrow> is_ok (decode_active_routing_image p))"

definition graph_ok :: "graph \<Rightarrow> bool" where
  "graph_ok g \<longleftrightarrow> records_ok g \<and> finite_graph g \<and> references_ok g \<and> counts_ok g \<and> counters_ok g \<and> pointer_ok g"

section \<open>Well-formed catalogs\<close>

definition names_node :: "graph \<Rightarrow> bytes \<Rightarrow> node_id \<Rightarrow> bool" where
  "names_node g name i \<longleftrightarrow> (\<exists>n. gr_nodes g i = Some n \<and> node_name_as_str (nr_name n) = name)"

definition names_relation :: "graph \<Rightarrow> bytes \<Rightarrow> relation_id \<Rightarrow> bool" where
  "names_relation g name i \<longleftrightarrow> (\<exists>r. gr_relations g i = Some r \<and> relation_name_as_str (rr_name r) = name)"

definition indexes_ok :: "graph \<Rightarrow> (bytes \<rightharpoonup> node_id) \<Rightarrow> (bytes \<rightharpoonup> relation_id) \<Rightarrow> bool" where
  "indexes_ok g node_names relation_names \<longleftrightarrow>
     (\<forall>name i. node_names name = Some i \<longleftrightarrow> names_node g name i) \<and>
     (\<forall>name i. relation_names name = Some i \<longleftrightarrow> names_relation g name i)"

definition unpoisoned :: "'db catalog \<Rightarrow> bool" where
  "unpoisoned cat \<longleftrightarrow> \<not> ct_write_poisoned cat \<and> \<not> ct_node_names_poisoned cat \<and> \<not> ct_relation_names_poisoned cat"

definition catalog_holds :: "('db \<Rightarrow> contents) \<Rightarrow> graph \<Rightarrow> 'db catalog \<Rightarrow> bool" where
  "catalog_holds view g cat \<longleftrightarrow>
     contents_ok (view (ct_db cat)) \<and> stores g (store_of (view (ct_db cat))) \<and> graph_ok g \<and>
     indexes_ok g (ct_node_names cat) (ct_relation_names cat) \<and> unpoisoned cat"

definition catalog_ok :: "('db \<Rightarrow> contents) \<Rightarrow> 'db catalog \<Rightarrow> bool" where
  "catalog_ok view cat \<longleftrightarrow> (\<exists>g. catalog_holds view g cat)"

section \<open>Reading a represented graph\<close>

text \<open>A read that returns a record returns the graph's; \<^verbatim>\<open>NotFound\<close> means that there is none.\<close>


definition reading :: "'db rocks \<Rightarrow> ('db \<Rightarrow> contents) \<Rightarrow> graph \<Rightarrow> 'db \<Rightarrow> bool" where
  "reading api view g db \<longleftrightarrow>
     rocks_sound api view \<and> contents_ok (view db) \<and> stores g (store_of (view db)) \<and> records_ok g"

lemma db_get_Inr:
  "rocks_sound api view \<Longrightarrow> db_get api db cf k = Inr v \<Longrightarrow> store_of (view db) cf k = v"
  by (simp add: db_get_def store_of_def rocks_sound_def)

lemma db_get_reads: "rocks_reads api view \<Longrightarrow> db_get api db cf k = Inr (store_of (view db) cf k)"
  by (simp add: db_get_def store_of_def rocks_reads_def)

lemma required_column_family_reads [simp]: "rocks_reads api view \<Longrightarrow> required_column_family api db cf = Inr ()"
  by (simp add: required_column_family_def rocks_reads_def)

lemma rocksdb_error_not_missing [simp]: "catalog_error_from_rocksdb e \<noteq> RecordNotFound kind i"
  by (cases e) (simp add: catalog_error_from_rocksdb_def)

text \<open>The shape all four point reads share.\<close>

definition read_record :: "'db rocks \<Rightarrow> 'db \<Rightarrow> column_family \<Rightarrow> bytes \<Rightarrow> catalog_error \<Rightarrow> string \<Rightarrow>
    (bytes \<Rightarrow> codec_error + 'x) \<Rightarrow> catalog_error + 'x" where
  "read_record api db cf key missing record_id dec =
     rbind (required_column_family api db cf) (\<lambda>_.
     rbind (db_get api db cf key) (\<lambda>found.
     rbind (ok_or found missing) (\<lambda>value.
     map_err (record_error (cf_name cf) record_id) (dec value))))"

lemma point_reads:
  "get_node_from_db api db i = read_record api db NODES (encode_id_key (node_id_as_u64 i))
     (RecordNotFound KindNode (node_id_as_u64 i)) (node_id_display i) (\<lambda>v. decode_node v (node_id_as_u64 i))"
  "get_candidate_from_db api db c = read_record api db CANDIDATES (encode_id_key (candidate_id_as_u64 c))
     (RecordNotFound KindCandidate (candidate_id_as_u64 c)) (candidate_id_display c)
     (\<lambda>v. decode_candidate v (candidate_id_as_u64 c))"
  "get_relation_from_db api db r = read_record api db RELATION_KINDS (encode_id_key (relation_id_as_u64 r))
     (RecordNotFound KindRelation (relation_id_as_u64 r)) (relation_id_display r)
     (\<lambda>v. decode_relation v (relation_id_as_u64 r))"
  "get_edge_from_db api db e = read_record api db EDGES (encode_id_key (edge_id_as_u64 e))
     (RecordNotFound KindEdge (edge_id_as_u64 e)) (edge_id_display e) (\<lambda>v. decode_edge v (edge_id_as_u64 e))"
  by (simp_all add: get_node_from_db_def get_candidate_from_db_def get_relation_from_db_def
      get_edge_from_db_def read_record_def)

lemma read_record_Inr:
  assumes "rocks_sound api view" "read_record api db cf key missing record_id dec = Inr x"
  obtains v where "store_of (view db) cf key = Some v" "dec v = Inr x"
proof -
  from assms(2) obtain found v where "db_get api db cf key = Inr found" "found = Some v" "dec v = Inr x"
    by (auto simp: read_record_def rbind_Inr_iff)
  with db_get_Inr [OF assms(1), of db cf key found] that show thesis by metis
qed

lemma read_record_missing:
  assumes "rocks_sound api view" "read_record api db cf key missing record_id dec = Inl (RecordNotFound kind j)"
  shows "store_of (view db) cf key = None"
proof -
  have "db_get api db cf key = Inr None"
    using assms(2)
    by (auto simp: read_record_def rbind_def required_column_family_def corrupt_def db_get_def record_error_def
        ok_or_def map_err_def split: sum.splits if_splits option.splits)
  with db_get_Inr [OF assms(1), of db cf key None] show ?thesis by simp
qed

lemma read_record_reads:
  assumes "rocks_reads api view"
  shows "read_record api db cf key missing record_id dec =
    (case store_of (view db) cf key of None \<Rightarrow> Inl missing
     | Some v \<Rightarrow> map_err (record_error (cf_name cf) record_id) (dec v))"
  using assms by (simp add: read_record_def db_get_reads split: option.splits)

lemma reading_get:
  assumes "reading api view g db"
  shows "get_node_from_db api db i = Inr n \<Longrightarrow> gr_nodes g i = Some n"
    and "get_candidate_from_db api db c = Inr x \<Longrightarrow> gr_candidates g c = Some x"
    and "get_relation_from_db api db r = Inr y \<Longrightarrow> gr_relations g r = Some y"
    and "get_edge_from_db api db e = Inr z \<Longrightarrow> gr_edges g e = Some z"
proof -
  have s: "rocks_sound api view" "stores g (store_of (view db))" "records_ok g"
    using assms by (simp_all add: reading_def)
  note D = records_okD [OF s(3)] and get = stores_get [OF s(2)]
  show "gr_nodes g i = Some n" if "get_node_from_db api db i = Inr n"
    using that unfolding point_reads
    by (rule read_record_Inr [OF s(1)]) (use D(1) [of i] decode_node_ok get(1) [of i] in fastforce)
  show "gr_candidates g c = Some x" if "get_candidate_from_db api db c = Inr x"
    using that unfolding point_reads
    by (rule read_record_Inr [OF s(1)]) (use D(4) [of c] decode_candidate_ok get(4) [of c] in fastforce)
  show "gr_relations g r = Some y" if "get_relation_from_db api db r = Inr y"
    using that unfolding point_reads
    by (rule read_record_Inr [OF s(1)]) (use D(2) [of r] decode_relation_ok get(2) [of r] in fastforce)
  show "gr_edges g e = Some z" if "get_edge_from_db api db e = Inr z"
    using that unfolding point_reads
    by (rule read_record_Inr [OF s(1)]) (use D(3) [of e] decode_edge_ok get(3) [of e] in fastforce)
qed

lemma reading_missing:
  assumes "reading api view g db"
  shows "get_node_from_db api db i = Inl (RecordNotFound k j) \<Longrightarrow> gr_nodes g i = None"
    and "get_relation_from_db api db r = Inl (RecordNotFound k j) \<Longrightarrow> gr_relations g r = None"
    and "get_edge_from_db api db e = Inl (RecordNotFound k j) \<Longrightarrow> gr_edges g e = None"
  using assms stores_get [of g "store_of (view db)"] read_record_missing
  unfolding point_reads reading_def by (metis option.map_disc_iff)+

lemma reading_reads:
  assumes "reading api view g db" "rocks_reads api view"
  shows "get_node_from_db api db i =
      (case gr_nodes g i of None \<Rightarrow> Inl (RecordNotFound KindNode (node_id_as_u64 i)) | Some n \<Rightarrow> Inr n)"
    and "get_candidate_from_db api db c =
      (case gr_candidates g c of None \<Rightarrow> Inl (RecordNotFound KindCandidate (candidate_id_as_u64 c)) | Some x \<Rightarrow> Inr x)"
    and "get_relation_from_db api db r =
      (case gr_relations g r of None \<Rightarrow> Inl (RecordNotFound KindRelation (relation_id_as_u64 r)) | Some y \<Rightarrow> Inr y)"
    and "get_edge_from_db api db e =
      (case gr_edges g e of None \<Rightarrow> Inl (RecordNotFound KindEdge (edge_id_as_u64 e)) | Some z \<Rightarrow> Inr z)"
proof -
  have s: "stores g (store_of (view db))" "records_ok g" using assms by (simp_all add: reading_def)
  note D = records_okD [OF s(2)] and get = stores_get [OF s(1)]
  note r = point_reads read_record_reads [OF assms(2)] get
  show "get_node_from_db api db i =
      (case gr_nodes g i of None \<Rightarrow> Inl (RecordNotFound KindNode (node_id_as_u64 i)) | Some n \<Rightarrow> Inr n)"
    using D(1) [of i] decode_node_ok by (auto simp: r split: option.splits)
  show "get_candidate_from_db api db c =
      (case gr_candidates g c of None \<Rightarrow> Inl (RecordNotFound KindCandidate (candidate_id_as_u64 c)) | Some x \<Rightarrow> Inr x)"
    using D(4) [of c] decode_candidate_ok by (auto simp: r split: option.splits)
  show "get_relation_from_db api db r =
      (case gr_relations g r of None \<Rightarrow> Inl (RecordNotFound KindRelation (relation_id_as_u64 r)) | Some y \<Rightarrow> Inr y)"
    using D(2) [of r] decode_relation_ok by (auto simp: r split: option.splits)
  show "get_edge_from_db api db e =
      (case gr_edges g e of None \<Rightarrow> Inl (RecordNotFound KindEdge (edge_id_as_u64 e)) | Some z \<Rightarrow> Inr z)"
    using D(3) [of e] decode_edge_ok by (auto simp: r split: option.splits)
qed

lemma require_Inr:
  assumes "reading api view g db"
  shows "require_node api db i endpoint = Inr u \<Longrightarrow> gr_nodes g i \<noteq> None"
    and "require_relation_kind api db r = Inr u \<Longrightarrow> gr_relations g r \<noteq> None"
  using reading_get [OF assms]
  by (auto simp: require_node_def require_relation_kind_def split: sum.splits catalog_error.splits)

lemma read_metadata_Inr:
  assumes "reading api view g db"
  shows "read_metadata api db META_NEXT_CANDIDATE_ID = Inr v \<Longrightarrow> v = gr_next_candidate g"
    and "read_metadata api db META_NEXT_NODE_ID = Inr v \<Longrightarrow> v = gr_next_node g"
    and "read_metadata api db META_NEXT_RELATION_ID = Inr v \<Longrightarrow> v = gr_next_relation g"
    and "read_metadata api db META_NEXT_EDGE_ID = Inr v \<Longrightarrow> v = gr_next_edge g"
proof -
  have s: "rocks_sound api view" "stores g (store_of (view db))" using assms by (simp_all add: reading_def)
  have read: "\<exists>w. metadata_of g (ascii key) = Some w \<and> decode_u64_record w = Inr v"
    if "read_metadata api db key = Inr v" for key v
    using that db_get_Inr [OF s(1), of db DEFAULT "ascii key"]
    by (auto simp: read_metadata_def rbind_Inr_iff stores_get(5) [OF s(2)])
  show "read_metadata api db META_NEXT_CANDIDATE_ID = Inr v \<Longrightarrow> v = gr_next_candidate g"
    and "read_metadata api db META_NEXT_NODE_ID = Inr v \<Longrightarrow> v = gr_next_node g"
    and "read_metadata api db META_NEXT_RELATION_ID = Inr v \<Longrightarrow> v = gr_next_relation g"
    and "read_metadata api db META_NEXT_EDGE_ID = Inr v \<Longrightarrow> v = gr_next_edge g"
    by (auto dest!: read simp: metadata_of_def)
qed

lemma read_metadata_reads:
  assumes "reading api view g db" "rocks_reads api view"
  shows "read_metadata api db META_NEXT_CANDIDATE_ID = Inr (gr_next_candidate g)"
    and "read_metadata api db META_NEXT_NODE_ID = Inr (gr_next_node g)"
    and "read_metadata api db META_NEXT_RELATION_ID = Inr (gr_next_relation g)"
    and "read_metadata api db META_NEXT_EDGE_ID = Inr (gr_next_edge g)"
  using assms stores_get(5) [of g "store_of (view db)"]
  by (simp_all add: read_metadata_def db_get_reads reading_def metadata_of_def)

end
