(* ===== verification/Catalog_Adjacency.thy ===== *)
theory Catalog_Adjacency
  imports Catalog_Graph
begin

text \<open>
  Incident edges read through the adjacency indexes: the prefix scan stops at the first key of
  another node, and because keys sort by node first it has then seen every entry of its node.
\<close>

lemma adjacency_key_less: "encode_adjacency_key n e < encode_adjacency_key n' e' \<longleftrightarrow> n < n' \<or> n = n' \<and> e < e'"
  by (cases n; cases n'; cases e; cases e')
    (auto simp: encode_adjacency_key_def less_append_same_length u64_be_less_iff id_order_defs)

lemma u64_be_pos: "[] < u64_to_be_bytes v"
  using length_to_be_bytes(1) [of v] by (cases "u64_to_be_bytes v") simp_all

lemma adjacency_prefix_le: "u64_to_be_bytes (node_id_as_u64 i) \<le> encode_adjacency_key n e \<longleftrightarrow> i \<le> n"
proof -
  have "u64_to_be_bytes (node_id_as_u64 i) @ [] < encode_adjacency_key n e \<longleftrightarrow> i \<le> n"
    unfolding encode_adjacency_key_def
    by (subst less_append_same_length) (auto simp: u64_be_less_iff id_order_defs order_le_less u64_be_pos)
  moreover have "u64_to_be_bytes (node_id_as_u64 i) \<noteq> encode_adjacency_key n e"
    by (metis encode_adjacency_key_def append_self_conv length_0_conv length_append length_to_be_bytes(1)
        add_cancel_right_right zero_neq_numeral)
  ultimately show ?thesis by (simp add: order_le_less)
qed

lemma adjacency_prefix_take:
  "take 8 (encode_adjacency_key n e) = u64_to_be_bytes (node_id_as_u64 i) \<longleftrightarrow> n = i"
  by (simp add: encode_adjacency_key_def)

text \<open>On a sorted list whose matching elements precede the others, a scan up to the first
  mismatch is a filter.\<close>

lemma takeWhile_eq_filter:
  assumes "sorted_wrt r xs" "\<And>x y. x \<in> set xs \<Longrightarrow> y \<in> set xs \<Longrightarrow> r x y \<Longrightarrow> P y \<Longrightarrow> P x"
  shows "takeWhile P xs = filter P xs"
  using assms
proof (induction xs)
  case (Cons x xs)
  show ?case
  proof (cases "P x")
    case True
    have "takeWhile P xs = filter P xs"
      using Cons.prems by (intro Cons.IH) (auto intro: Cons.prems(2))
    with True show ?thesis by simp
  next
    case False
    have "\<not> P y" if "y \<in> set xs" for y
      using Cons.prems(1) Cons.prems(2) [of x y] that False by auto
    then show ?thesis using False by simp
  qed
qed simp

text \<open>The two indexes.\<close>

definition endpoint :: "bool \<Rightarrow> edge_record \<Rightarrow> node_id" where
  "endpoint is_outgoing e = (if is_outgoing then er_source e else er_destination e)"

definition index_keys :: "bool \<Rightarrow> edge_id \<Rightarrow> edge_record \<Rightarrow> bytes" where
  "index_keys is_outgoing i e = encode_adjacency_key (endpoint is_outgoing e) i"

lemma stores_index:
  "stores g kv \<Longrightarrow> represents (index_keys True) (id_values edge_id_as_u64) (gr_edges g) (kv OUTGOING_EDGES)"
  "stores g kv \<Longrightarrow> represents (index_keys False) (id_values edge_id_as_u64) (gr_edges g) (kv INCOMING_EDGES)"
proof -
  have "index_keys True = outgoing_keys" "index_keys False = incoming_keys"
    by (auto simp: fun_eq_iff index_keys_def endpoint_def outgoing_keys_def incoming_keys_def)
  then show "stores g kv \<Longrightarrow> represents (index_keys True) (id_values edge_id_as_u64) (gr_edges g) (kv OUTGOING_EDGES)"
    "stores g kv \<Longrightarrow> represents (index_keys False) (id_values edge_id_as_u64) (gr_edges g) (kv INCOMING_EDGES)"
    by (simp_all add: stores_def)
qed

text \<open>What one index entry resolves to.\<close>

definition entry_edge :: "graph \<Rightarrow> bytes \<times> bytes \<Rightarrow> edge_record" where
  "entry_edge g = (\<lambda>(key, value). the (gr_edges g (snd (projr (decode_adjacency_key key)))))"

lemma addressable_adjacency [simp]: "addressable (encode_adjacency_key n e)"
  by (simp add: addressable_def encode_adjacency_key_def U64_MAX_def)

lemma decode_adjacency_key_encode [simp]: "decode_adjacency_key (encode_adjacency_key n e) = Inr (n, e)"
  by (simp add: decode_adjacency_key_iff)

lemma id_values_edge: "id_values edge_id_as_u64 i e = encode_adjacency_value i"
  by (simp add: id_values_def encode_adjacency_value_def)

lemma entry_edge_index: "gr_edges g i = Some e \<Longrightarrow> entry_edge g (index_keys out i e, v) = e"
  by (simp add: entry_edge_def index_keys_def)

lemma incident_entry_Inr:
  assumes "reading api view g db" "gr_edges g i = Some e"
    and "incident_entry api db cf node out (index_keys out i e) value = Inr x"
  shows "x = e \<and> endpoint out e = node"
  using assms(3) reading_get(4) [OF assms(1), of i] assms(2)
  by (auto simp: incident_entry_def index_keys_def rbind_Inr_iff Let_def split: if_splits)

lemma incident_entry_reads:
  assumes "reading api view g db" "rocks_reads api view" "gr_edges g i = Some e"
  shows "incident_entry api db cf (endpoint out e) out (index_keys out i e) (id_values edge_id_as_u64 i e) = Inr e"
  using reading_reads(4) [OF assms(1,2), of i] assms(3)
  by (simp add: incident_entry_def index_keys_def id_values_edge decode_adjacency_value_encode endpoint_def)

abbreviation matches :: "node_id \<Rightarrow> bytes \<times> bytes \<Rightarrow> bool" where
  "matches node \<equiv> \<lambda>(key, value). take 8 key = u64_to_be_bytes (node_id_as_u64 node)"

lemma incident_loop_Inr:
  assumes "reading api view g db" "incident_loop api db cf node out (map Inr xs @ rest) acc = Inr es"
    and "rest = [] \<or> (\<exists>e tail. rest = Inl e # tail)"
    and "\<And>key value. (key, value) \<in> set xs \<Longrightarrow> \<exists>i e. gr_edges g i = Some e \<and> key = index_keys out i e"
  shows "es = acc @ map (entry_edge g) (takeWhile (matches node) xs) \<and>
    (rest = [] \<or> (\<exists>x \<in> set xs. \<not> matches node x))"
  using assms(2,4)
proof (induction xs arbitrary: acc)
  case Nil
  then show ?case using assms(3) by auto
next
  case (Cons x xs)
  obtain k v where x: "x = (k, v)" by (cases x)
  show ?case
  proof (cases "matches node x")
    case False
    with Cons.prems(1) x show ?thesis by auto
  next
    case True
    obtain i e where e: "gr_edges g i = Some e" "k = index_keys out i e" using Cons.prems(2) [of k v] x by auto
    from Cons.prems(1) True x obtain y where y: "incident_entry api db cf node out k v = Inr y"
        "incident_loop api db cf node out (map Inr xs @ rest) (acc @ [y]) = Inr es"
      by (auto simp: rbind_Inr_iff)
    have "y = e" using incident_entry_Inr [OF assms(1) e(1)] y(1) e(2) by blast
    moreover have "es = (acc @ [y]) @ map (entry_edge g) (takeWhile (matches node) xs) \<and>
        (rest = [] \<or> (\<exists>x \<in> set xs. \<not> matches node x))"
      using Cons.prems(2) by (intro Cons.IH [OF y(2)]) auto
    ultimately show ?thesis using True x e entry_edge_index [OF e(1), of out v] by auto
  qed
qed

lemma incident_loop_reads:
  assumes "reading api view g db" "rocks_reads api view"
    and "\<And>key value. (key, value) \<in> set xs \<Longrightarrow>
      \<exists>i e. gr_edges g i = Some e \<and> key = index_keys out i e \<and> value = id_values edge_id_as_u64 i e"
  shows "incident_loop api db cf node out (map Inr xs) acc =
    Inr (acc @ map (entry_edge g) (takeWhile (matches node) xs))"
  using assms(3)
proof (induction xs arbitrary: acc)
  case (Cons x xs)
  obtain k v where x: "x = (k, v)" by (cases x)
  then obtain i e where e: "gr_edges g i = Some e" "k = index_keys out i e" "v = id_values edge_id_as_u64 i e"
    using Cons.prems [of k v] by auto
  have IH: "incident_loop api db cf node out (map Inr xs) a = Inr (a @ map (entry_edge g) (takeWhile (matches node) xs))"
    for a using Cons.prems by (intro Cons.IH) auto
  have "matches node x \<longleftrightarrow> endpoint out e = node" by (simp add: x e index_keys_def adjacency_prefix_take)
  then show ?case
    using incident_entry_reads [OF assms(1,2) e(1), of cf out] e entry_edge_index [OF e(1), of out v]
    by (auto simp: x IH)
qed simp
section \<open>The edges of a node\<close>

definition incident_list :: "graph \<Rightarrow> bool \<Rightarrow> node_id \<Rightarrow> edge_record list \<Rightarrow> bool" where
  "incident_list g out node es \<longleftrightarrow> sorted_wrt (<) (map er_id es) \<and>
     set es = {e. gr_edges g (er_id e) = Some e \<and> endpoint out e = node}"

text \<open>The entries of an index from the node's prefix on, and those of the node.\<close>

lemma index_entries:
  assumes "contents_ok c" "represents (index_keys out) (id_values edge_id_as_u64) (gr_edges g) (btree_get (c cf))"
    and "(k, v) \<in> set (filter (\<lambda>(k, v). from \<le> k) (c cf))"
  shows "\<exists>i e. gr_edges g i = Some e \<and> k = index_keys out i e \<and> v = id_values edge_id_as_u64 i e"
proof -
  have "btree_get (c cf) k = Some v"
    using assms(1,3) btree.entries_lookup [of "c cf" k v] by (simp add: contents_ok_def)
  with assms(2) show ?thesis by (auto simp: represents_def)
qed

lemma node_entries:
  fixes node :: node_id and c :: contents and cf :: column_family
  assumes "contents_ok c" "records_ok g"
    and rep: "represents (index_keys out) (id_values edge_id_as_u64) (gr_edges g) (btree_get (c cf))"
  defines "entries \<equiv> filter (\<lambda>(k, v). u64_to_be_bytes (node_id_as_u64 node) \<le> k) (c cf)"
  shows "incident_list g out node (map (entry_edge g) (takeWhile (matches node) entries))"
proof -
  have ok: "btree_ok (c cf)" using assms(1) by (simp add: contents_ok_def)
  have sorted: "sorted_wrt (\<lambda>x y. fst x < fst y) entries"
    using ok unfolding entries_def btree_ok_def by (simp add: sorted_wrt_map sorted_wrt_filter)
  note ent = index_entries [OF assms(1) rep, of _ _ "u64_to_be_bytes (node_id_as_u64 node)", folded entries_def]
  have form: "\<exists>i e v. x = (index_keys out i e, v) \<and> gr_edges g i = Some e" if "x \<in> set entries" for x
    using ent that by (cases x) blast
  have bound: "node \<le> endpoint out e" if "(index_keys out i e, v) \<in> set entries" for i e v
    using that by (auto simp: entries_def index_keys_def adjacency_prefix_le)
  have take: "takeWhile (matches node) entries = filter (matches node) entries"
  proof (rule takeWhile_eq_filter [OF sorted])
    fix x y assume xy: "x \<in> set entries" "y \<in> set entries" "fst x < fst y" "matches node y"
    obtain i e v j e' v' where x: "x = (index_keys out i e, v)" and y: "y = (index_keys out j e', v')"
      using form xy(1,2) by meson
    have "endpoint out e' = node" "node \<le> endpoint out e"
      using xy(4) bound xy(1) x y by (auto simp: index_keys_def adjacency_prefix_take)
    moreover have "endpoint out e \<le> endpoint out e'"
      using xy(3) by (auto simp: x y index_keys_def adjacency_key_less)
    ultimately show "matches node x" by (simp add: x index_keys_def adjacency_prefix_take)
  qed
  have mem: "(index_keys out i e, id_values edge_id_as_u64 i e) \<in> set entries"
    if "gr_edges g i = Some e" "endpoint out e = node" for i e
    using that represents_get [OF rep that(1)] ok btree.entries_lookup [OF ok]
    by (auto simp: entries_def index_keys_def adjacency_prefix_le)
  have "set (map (entry_edge g) (filter (matches node) entries)) =
      {e. gr_edges g (er_id e) = Some e \<and> endpoint out e = node}"
  proof (intro set_eqI iffI)
    fix e assume "e \<in> set (map (entry_edge g) (filter (matches node) entries))"
    then obtain k v where kv: "(k, v) \<in> set entries" "matches node (k, v)" "e = entry_edge g (k, v)" by auto
    with ent obtain i e' where "gr_edges g i = Some e'" "k = index_keys out i e'" by blast
    then show "e \<in> {e. gr_edges g (er_id e) = Some e \<and> endpoint out e = node}"
      using kv entry_edge_index [of g i e' out v] records_okD(3) [OF assms(2)]
      by (auto simp: index_keys_def adjacency_prefix_take)
  next
    fix e assume "e \<in> {e. gr_edges g (er_id e) = Some e \<and> endpoint out e = node}"
    then have e: "gr_edges g (er_id e) = Some e" "endpoint out e = node" by auto
    let ?x = "(index_keys out (er_id e) e, id_values edge_id_as_u64 (er_id e) e)"
    have x: "?x \<in> set (filter (matches node) entries)" "entry_edge g ?x = e"
      using mem [OF e] entry_edge_index [OF e(1), of out] e(2)
      by (simp add: index_keys_def adjacency_prefix_take) (rule entry_edge_index [OF e(1), of out])
    show "e \<in> set (map (entry_edge g) (filter (matches node) entries))"
      unfolding set_map by (rule image_eqI [where x = ?x]) (use x in simp_all)
  qed
  moreover have "sorted_wrt (\<lambda>x y. er_id (entry_edge g x) < er_id (entry_edge g y)) (filter (matches node) entries)"
  proof (rule sorted_wrt_mono_rel [OF _ sorted_wrt_filter [OF sorted]])
    fix x y assume xy: "x \<in> set (filter (matches node) entries)" "y \<in> set (filter (matches node) entries)"
      "fst x < fst y"
    obtain i e v j e' v' where x: "x = (index_keys out i e, v)" "gr_edges g i = Some e"
        and y: "y = (index_keys out j e', v')" "gr_edges g j = Some e'"
      using form [of x] form [of y] xy(1,2) by auto
    have "entry_edge g x = e" "entry_edge g y = e'" using x y by (simp_all add: entry_edge_index)
    then show "er_id (entry_edge g x) < er_id (entry_edge g y)"
      using xy x y records_okD(3) [OF assms(2)]
      by (auto simp: index_keys_def adjacency_prefix_take adjacency_key_less)
  qed
  ultimately show ?thesis by (simp add: incident_list_def take sorted_wrt_map)
qed

lemma incident_edges_Inr:
  assumes "reading api view g db"
    and rep: "represents (index_keys out) (id_values edge_id_as_u64) (gr_edges g) (store_of (view db) cf)"
    and "incident_edges api db cf node out = Inr es"
  shows "incident_list g out node es"
proof -
  let ?E = "filter (\<lambda>(k, v). u64_to_be_bytes (node_id_as_u64 node) \<le> k) (view db cf)"
  have c: "contents_ok (view db)" "records_ok g" "rocks_sound api view"
    using assms(1) by (simp_all add: reading_def)
  have rep': "represents (index_keys out) (id_values edge_id_as_u64) (gr_edges g) (btree_get (view db cf))"
    using rep by (simp add: store_of_def)
  obtain n rest where it: "rk_iterator api db cf (u64_to_be_bytes (node_id_as_u64 node)) = map Inr (take n ?E) @ rest"
    and rest: "rest = [] \<and> length (view db cf) \<le> n \<or> (\<exists>e es. rest = Inl e # es)"
    using c(3) unfolding rocks_sound_def by blast
  have loop: "incident_loop api db cf node out (map Inr (take n ?E) @ rest) [] = Inr es"
    using assms(3) by (auto simp: incident_edges_def rbind_Inr_iff it)
  have ent: "\<exists>i e. gr_edges g i = Some e \<and> k = index_keys out i e" if "(k, v) \<in> set (take n ?E)" for k v
    using index_entries [OF c(1) rep', of k v] in_set_takeD [OF that] by blast
  have rest': "rest = [] \<or> (\<exists>e tail. rest = Inl e # tail)" using rest by auto
  have es: "es = map (entry_edge g) (takeWhile (matches node) (take n ?E))"
    and stop: "rest = [] \<or> (\<exists>x \<in> set (take n ?E). \<not> matches node x)"
    using incident_loop_Inr [OF assms(1) loop rest' ent] by simp_all
  have "takeWhile (matches node) (take n ?E) = takeWhile (matches node) ?E"
  proof (cases "rest = []")
    case True
    then have "length ?E \<le> n" using rest le_trans [OF length_filter_le] by blast
    then show ?thesis by simp
  next
    case False
    with stop obtain x where "x \<in> set (take n ?E)" "\<not> matches node x" by blast
    then have "takeWhile (matches node) (take n ?E @ drop n ?E) = takeWhile (matches node) (take n ?E)"
      by (rule takeWhile_append1)
    then show ?thesis by simp
  qed
  then show ?thesis using node_entries [OF c(1,2) rep', of node] es by simp
qed

lemma incident_edges_reads:
  assumes "reading api view g db" "rocks_reads api view"
    and rep: "represents (index_keys out) (id_values edge_id_as_u64) (gr_edges g) (store_of (view db) cf)"
  shows "\<exists>es. incident_edges api db cf node out = Inr es \<and> incident_list g out node es"
proof -
  have c: "contents_ok (view db)" "records_ok g" using assms(1) by (simp_all add: reading_def)
  have rep': "represents (index_keys out) (id_values edge_id_as_u64) (gr_edges g) (btree_get (view db cf))"
    using rep by (simp add: store_of_def)
  have "rk_iterator api db cf (u64_to_be_bytes (node_id_as_u64 node)) =
      map Inr (filter (\<lambda>(k, v). u64_to_be_bytes (node_id_as_u64 node) \<le> k) (view db cf))"
    using assms(2) by (simp add: rocks_reads_def)
  moreover have "incident_loop api db cf node out
      (map Inr (filter (\<lambda>(k, v). u64_to_be_bytes (node_id_as_u64 node) \<le> k) (view db cf))) [] =
    Inr ([] @ map (entry_edge g) (takeWhile (matches node)
      (filter (\<lambda>(k, v). u64_to_be_bytes (node_id_as_u64 node) \<le> k) (view db cf))))"
    using index_entries [OF c(1) rep'] by (intro incident_loop_reads [OF assms(1,2)]) blast
  ultimately show ?thesis
    using node_entries [OF c rep', of node] assms(2) by (simp add: incident_edges_def)
qed

end
