(* ===== verification/Catalog_Removal.thy ===== *)
theory Catalog_Removal
  imports Catalog_Adjacency
begin

text \<open>
  Removing edges and nodes keeps a catalog well formed: the confirmed graph loses exactly what
  was asked for, the usage counts follow, and a relation kind disappears exactly when its last
  use does.
\<close>

section \<open>Graphs that lose edges, nodes and unused relation kinds\<close>

lemma msum_submap:
  assumes "finite (dom m)" "m' \<subseteq>\<^sub>m m"
  shows "msum f m' \<le> msum f m"
  unfolding msum_def
proof -
  have dom: "dom m' \<subseteq> dom m" using assms(2) by (rule map_le_implies_dom_le)
  have "(\<Sum>i \<in> dom m'. f (the (m' i))) = (\<Sum>i \<in> dom m'. f (the (m i)))"
    using assms(2) by (intro sum.cong) (auto simp: map_le_def)
  also have "\<dots> \<le> (\<Sum>i \<in> dom m. f (the (m i)))" using assms(1) dom by (intro sum_mono2) auto
  finally show "(\<Sum>i \<in> dom m'. f (the (m' i))) \<le> (\<Sum>i \<in> dom m. f (the (m i)))" .
qed

lemma map_le_SomeD: "m \<subseteq>\<^sub>m m' \<Longrightarrow> m i = Some x \<Longrightarrow> m' i = Some x"
  by (metis domI map_le_def)

definition shrunk :: "graph \<Rightarrow> graph \<Rightarrow> bool" where
  "shrunk g g' \<longleftrightarrow>
     gr_nodes g' \<subseteq>\<^sub>m gr_nodes g \<and> gr_edges g' \<subseteq>\<^sub>m gr_edges g \<and> gr_candidates g' = gr_candidates g \<and>
     (\<forall>j r'. gr_relations g' j = Some r' \<longrightarrow> (\<exists>r. gr_relations g j = Some r \<and>
        rr_provisional_reference_count r' = rr_provisional_reference_count r \<and>
        unat (rr_confirmed_edge_count r') = msum (uses_relation j) (gr_edges g'))) \<and>
     (\<forall>j r. gr_relations g j = Some r \<longrightarrow> gr_relations g' j = None \<longrightarrow>
        msum (uses_relation j) (gr_edges g') = 0 \<and> rr_provisional_reference_count r = 0) \<and>
     (\<forall>i e. gr_edges g' i = Some e \<longrightarrow> gr_nodes g' (er_source e) \<noteq> None \<and> gr_nodes g' (er_destination e) \<noteq> None) \<and>
     (\<forall>i c n. gr_candidates g i = Some c \<longrightarrow> references_confirmed_node n c \<longrightarrow> gr_nodes g n \<noteq> None \<longrightarrow>
        gr_nodes g' n \<noteq> None) \<and>
     gr_next_candidate g' = gr_next_candidate g \<and> gr_next_node g' = gr_next_node g \<and>
     gr_next_relation g' = gr_next_relation g \<and> gr_next_edge g' = gr_next_edge g \<and> gr_pointer g' = None"

lemma uses_relation_zero: "finite (dom m) \<Longrightarrow> msum (uses_relation j) m = 0 \<Longrightarrow> m i = Some e \<Longrightarrow> er_relation_kind e \<noteq> j"
  by (auto simp: msum_eq_0_iff uses_relation_def)

lemma provisional_uses_zero:
  "finite (dom m) \<Longrightarrow> msum (provisional_uses j) m = 0 \<Longrightarrow>
     m i = Some (CandidateEdge cid s d k w) \<Longrightarrow> k \<noteq> RelationConfirmed j"
  by (fastforce simp: msum_eq_0_iff)

lemma shrunk_graph_ok:
  assumes "graph_ok g" "shrunk g g'" "records_ok g'"
  shows "graph_ok g'"
proof -
  note ok = assms(1) [unfolded graph_ok_def]
  from assms(2) have nodes: "gr_nodes g' \<subseteq>\<^sub>m gr_nodes g" and edges: "gr_edges g' \<subseteq>\<^sub>m gr_edges g"
    and cand: "gr_candidates g' = gr_candidates g"
    and kept: "\<And>j r'. gr_relations g' j = Some r' \<Longrightarrow> \<exists>r. gr_relations g j = Some r \<and>
        rr_provisional_reference_count r' = rr_provisional_reference_count r \<and>
        unat (rr_confirmed_edge_count r') = msum (uses_relation j) (gr_edges g')"
    and dropped: "\<And>j r. gr_relations g j = Some r \<Longrightarrow> gr_relations g' j = None \<Longrightarrow>
        msum (uses_relation j) (gr_edges g') = 0 \<and> rr_provisional_reference_count r = 0"
    and ends: "\<And>i e. gr_edges g' i = Some e \<Longrightarrow> gr_nodes g' (er_source e) \<noteq> None \<and> gr_nodes g' (er_destination e) \<noteq> None"
    and refs: "\<And>i c n. gr_candidates g i = Some c \<Longrightarrow> references_confirmed_node n c \<Longrightarrow> gr_nodes g n \<noteq> None \<Longrightarrow>
        gr_nodes g' n \<noteq> None"
    and rest: "gr_next_candidate g' = gr_next_candidate g" "gr_next_node g' = gr_next_node g"
      "gr_next_relation g' = gr_next_relation g" "gr_next_edge g' = gr_next_edge g" "gr_pointer g' = None"
    unfolding shrunk_def by blast+
  have rel_dom: "dom (gr_relations g') \<subseteq> dom (gr_relations g)" using kept by blast
  have fin: "finite_graph g'"
    using ok map_le_implies_dom_le [OF nodes] map_le_implies_dom_le [OF edges] rel_dom cand
    unfolding finite_graph_def by (auto intro: finite_subset)
  have finc: "finite (dom (gr_candidates g))" using ok by (simp add: finite_graph_def)
  have gone: "gr_relations g' j \<noteq> None" if present: "gr_relations g j \<noteq> None"
      and used: "msum (uses_relation j) (gr_edges g') \<noteq> 0 \<or> msum (provisional_uses j) (gr_candidates g) \<noteq> 0" for j
  proof
    assume none: "gr_relations g' j = None"
    obtain r where r: "gr_relations g j = Some r" using present by blast
    then have "unat (rr_provisional_reference_count r) = msum (provisional_uses j) (gr_candidates g)"
      using ok by (simp add: counts_ok_def)
    with dropped [OF r none] used show False by simp
  qed
  have "references_ok g'"
    unfolding references_ok_def
  proof (intro conjI allI impI)
    fix i e assume e: "gr_edges g' i = Some e"
    then have "gr_edges g i = Some e" using map_le_SomeD [OF edges] by blast
    then have "gr_relations g (er_relation_kind e) \<noteq> None" using ok by (auto simp: references_ok_def)
    moreover have "msum (uses_relation (er_relation_kind e)) (gr_edges g') \<noteq> 0"
      using fin uses_relation_zero [of "gr_edges g'" "er_relation_kind e" i e] e unfolding finite_graph_def by blast
    ultimately show "gr_relations g' (er_relation_kind e) \<noteq> None" using gone by blast
    show "gr_nodes g' (er_source e) \<noteq> None" "gr_nodes g' (er_destination e) \<noteq> None" using ends [OF e] by blast+
  next
    fix i c assume c: "gr_candidates g' i = Some c"
    then have c': "gr_candidates g i = Some c" and dep: "dependencies_ok g c"
      using cand ok by (auto simp: references_ok_def)
    show "dependencies_ok g' c"
    proof (cases c)
      case (CandidateEdge cid s d k w)
      have node: "node_reference_ok g' ref" if "node_reference_ok g ref" "ref = s \<or> ref = d" for ref
      proof (cases ref)
        case (NodeConfirmed n)
        with that CandidateEdge have "references_confirmed_node n c" "gr_nodes g n \<noteq> None" by auto
        with refs [OF c'] NodeConfirmed show ?thesis by auto
      next
        case (NodeCandidate n)
        with that cand show ?thesis by simp
      qed
      have "relation_reference_ok g' k"
      proof (cases k)
        case (RelationConfirmed n)
        have "msum (provisional_uses n) (gr_candidates g) \<noteq> 0"
          using provisional_uses_zero [OF finc] c' CandidateEdge RelationConfirmed by blast
        with gone [of n] dep CandidateEdge RelationConfirmed show ?thesis by simp
      next
        case (RelationCandidate n)
        with dep CandidateEdge cand show ?thesis by simp
      qed
      with node dep CandidateEdge show ?thesis by simp
    qed simp_all
  qed
  moreover have "counts_ok g'"
    unfolding counts_ok_def cand
  proof (intro conjI allI impI)
    fix i r' assume "gr_relations g' i = Some r'"
    from kept [OF this] ok show "unat (rr_confirmed_edge_count r') = msum (uses_relation i) (gr_edges g')"
      "unat (rr_provisional_reference_count r') = msum (provisional_uses i) (gr_candidates g)"
      by (auto simp: counts_ok_def)
  qed (use ok in \<open>auto simp: counts_ok_def\<close>)
  moreover have "counters_ok g'"
    using ok map_le_SomeD [OF nodes] map_le_SomeD [OF edges] kept
    unfolding counters_ok_def rest cand by blast
  moreover have "pointer_ok g'" by (simp add: pointer_ok_def rest)
  ultimately show ?thesis using fin assms(3) by (simp add: graph_ok_def)
qed

section \<open>Committing a batch\<close>

lemma commit_batch_Inr:
  assumes "rocks_sound api view" "commit_batch api batch cat = (Inr u, cat')"
  shows "view (ct_db cat') = apply_batch batch (view (ct_db cat)) \<and>
    ct_node_names cat' = ct_node_names cat \<and> ct_relation_names cat' = ct_relation_names cat \<and>
    (unpoisoned cat' \<longleftrightarrow> unpoisoned cat)"
  using assms rocks_writeD(1) [OF assms(1)]
  by (auto simp: commit_batch_def fail_def unpoisoned_def split: prod.splits sum.splits)

lemma commit_batch_Inl:
  assumes "rocks_sound api view" "commit_batch api batch cat = (Inl f, cat')"
  shows "view (ct_db cat') = view (ct_db cat) \<and> ct_node_names cat' = ct_node_names cat \<and>
    ct_relation_names cat' = ct_relation_names cat \<and> (unpoisoned cat' \<longleftrightarrow> unpoisoned cat) \<and> f \<noteq> Panicked"
  using assms rocks_writeD(2) [OF assms(1)]
  by (auto simp: commit_batch_def fail_def unpoisoned_def split: prod.splits sum.splits)

text \<open>A committed batch leaves a well-formed catalog when the graph it leads to is well formed and
  the name indexes follow.\<close>

lemma catalog_holds_reading: "rocks_sound api view \<Longrightarrow> catalog_holds view g cat \<Longrightarrow> reading api view g (ct_db cat)"
  by (simp add: catalog_holds_def reading_def graph_ok_def)

lemma catalog_holds_stored: "catalog_holds view g cat \<Longrightarrow> stored_graph g (store_of (view (ct_db cat)))"
  by (simp add: catalog_holds_def stored_graph_def graph_ok_def)

lemma committed_holds:
  assumes "rocks_sound api view" "catalog_holds view g cat" "commit_batch api batch cat = (Inr u, cat1)"
    and "stored_graph g' (store_ops batch (store_of (view (ct_db cat))))" "graph_ok g'"
    and "ct_db cat' = ct_db cat1" "unpoisoned cat' \<longleftrightarrow> unpoisoned cat1"
    and "indexes_ok g' (ct_node_names cat') (ct_relation_names cat')"
  shows "catalog_holds view g' cat'"
proof -
  have v: "view (ct_db cat') = apply_batch batch (view (ct_db cat))" "unpoisoned cat1 \<longleftrightarrow> unpoisoned cat"
    using commit_batch_Inr [OF assms(1,3)] assms(6) by simp_all
  have "contents_ok (view (ct_db cat))" "unpoisoned cat" using assms(2) by (simp_all add: catalog_holds_def)
  then show ?thesis
    using assms(4,5,7,8) v by (simp add: catalog_holds_def apply_batch_ok store_of_apply_batch stored_graph_def)
qed

section \<open>Removing an edge\<close>

lemma relation_update_ops_eq:
  assumes "relation_ok old" "relation_ok updated"
  shows "relation_update_ops old updated =
    Inr (if unused updated then relation_removal old else relation_change old updated)"
  using assms encode_relation_ok [of updated]
  by (auto simp: relation_update_ops_def encode_popularity_ok encode_name_ok relation_ok_def
      relation_removal_def relation_change_def)

lemma decremented_relation_Inr:
  "decremented_relation old n op = Inr updated \<longleftrightarrow>
     (\<exists>c. unat (rr_confirmed_edge_count old) = unat n + unat c \<and>
        updated = relation_record_with_usage (rr_id old) (rr_name old) (rr_provisional_reference_count old) c)"
  by (auto simp: decremented_relation_def rbind_Inr_iff checked_sub_u64_Some)

lemma decremented_ok:
  "decremented_relation old n op = Inr updated \<Longrightarrow> relation_ok old \<Longrightarrow> relation_ok updated"
  by (auto simp: decremented_relation_Inr relation_ok_def relation_record_with_usage_def)

text \<open>The graph after the usage of a relation kind has dropped.\<close>

definition settle_relation :: "relation_record \<Rightarrow> graph \<Rightarrow> graph" where
  "settle_relation updated g =
     (if unused updated then without_relation (rr_id updated) g else with_relation updated g)"

lemma settle_step:
  assumes "stored_graph g kv" "gr_relations g (rr_id updated) = Some old" "relation_ok updated"
    and "rr_name updated = rr_name old"
  shows "stored_graph (settle_relation updated g)
    (store_ops (if unused updated then relation_removal old else relation_change old updated) kv)"
  using relation_removal_step [OF assms(1,2)] relation_change_step [OF assms]
  by (simp add: settle_relation_def)

definition graph_without_edge :: "edge_record \<Rightarrow> relation_record \<Rightarrow> graph \<Rightarrow> graph" where
  "graph_without_edge e updated g = settle_relation updated (without_edge (er_id e) (g\<lparr>gr_pointer := None\<rparr>))"

lemma remove_edge_plan_Inr:
  assumes "rocks_sound api view" "catalog_holds view g cat" "remove_edge_plan api i cat = Inr (batch, relation, removed)"
  obtains e updated where "gr_edges g i = Some e" "gr_relations g (er_relation_kind e) = Some relation"
    "decremented_relation relation 1 ''edge deletion'' = Inr updated" "removed = unused updated"
    "batch = Delete DEFAULT (ascii META_ACTIVE_ROUTING_IMAGE) # delete_edge_ops e @
      (if unused updated then relation_removal relation else relation_change relation updated)"
proof -
  note rd = catalog_holds_reading [OF assms(1,2)]
  have ok: "records_ok g" using assms(2) by (simp add: catalog_holds_def graph_ok_def)
  from assms(3) obtain e updated ops where e: "get_edge_from_db api (ct_db cat) i = Inr e"
      "get_relation_from_db api (ct_db cat) (er_relation_kind e) = Inr relation"
      "decremented_relation relation 1 ''edge deletion'' = Inr updated" "removed = unused updated"
      "relation_update_ops relation updated = Inr ops"
      "batch = Delete DEFAULT (ascii META_ACTIVE_ROUTING_IMAGE) # delete_edge_ops (e\<lparr>er_id := i\<rparr>) @ ops"
    by (auto simp: remove_edge_plan_def rbind_Inr_iff Let_def get_edge_def)
  have g: "gr_edges g i = Some e" "gr_relations g (er_relation_kind e) = Some relation"
    using reading_get(3,4) [OF rd] e(1,2) by blast+
  have "relation_ok relation" "e\<lparr>er_id := i\<rparr> = e"
    using records_okD(2,3) [OF ok] g by auto
  with e relation_update_ops_eq decremented_ok [OF e(3)] that [OF g e(3,4)] show thesis by auto
qed

lemma graph_without_edge_ok:
  assumes "graph_ok g" "gr_edges g i = Some e" "gr_relations g (er_relation_kind e) = Some r"
    and "decremented_relation r 1 op = Inr updated"
    and "records_ok (graph_without_edge e updated g)"
  shows "graph_ok (graph_without_edge e updated g)"
proof (rule shrunk_graph_ok [OF assms(1) _ assms(5)])
  let ?k = "er_relation_kind e" and ?E = "(gr_edges g)(i := None)"
  have ok: "records_ok g" "finite (dom (gr_edges g))" "counts_ok g" "references_ok g"
    using assms(1) by (simp_all add: graph_ok_def finite_graph_def)
  have id: "er_id e = i" "rr_id r = ?k" using records_okD(2,3) [OF ok(1)] assms(2,3) by auto
  obtain c where c: "unat (rr_confirmed_edge_count r) = Suc (unat c)"
      "updated = relation_record_with_usage ?k (rr_name r) (rr_provisional_reference_count r) c"
    using assms(4) id by (auto simp: decremented_relation_Inr)
  have sums: "msum (uses_relation j) ?E + uses_relation j e = msum (uses_relation j) (gr_edges g)" for j
    by (rule msum_delete [OF ok(2) assms(2)])
  have counts: "unat (rr_confirmed_edge_count s) = msum (uses_relation j) (gr_edges g)"
    if "gr_relations g j = Some s" for j s using ok(3) that by (simp add: counts_ok_def)
  have drop: "msum (uses_relation ?k) ?E = unat c"
    using sums [of ?k] counts [OF assms(3)] c(1) by (simp add: uses_relation_def)
  have others: "msum (uses_relation j) ?E = msum (uses_relation j) (gr_edges g)" if "j \<noteq> ?k" for j
    using sums [of j] that by (simp add: uses_relation_def)
  show "shrunk g (graph_without_edge e updated g)"
    unfolding shrunk_def
    using ok(4) assms(3) c(2) drop others counts
    by (auto simp: graph_without_edge_def settle_relation_def graph_change_defs id references_ok_def map_le_def
        unused_def relation_record_with_usage_def split: if_splits)
qed

lemma indexes_ok_nodes_same:
  "indexes_ok g ns rs \<Longrightarrow> gr_nodes g' = gr_nodes g \<Longrightarrow> (\<And>name i. rs' name = Some i \<longleftrightarrow> names_relation g' name i) \<Longrightarrow>
     indexes_ok g' ns rs'"
  by (simp add: indexes_ok_def names_node_def)

lemma settle_names_relation:
  assumes "records_ok g" "gr_relations g (rr_id updated) = Some r" "rr_name updated = rr_name r"
  shows "names_relation (settle_relation updated g) name i \<longleftrightarrow>
    names_relation g name i \<and> \<not> (unused updated \<and> name = relation_name_as_str (rr_name r))"
proof -
  have uniq: "relation_name_as_str (rr_name s) = relation_name_as_str (rr_name r) \<longleftrightarrow> i = rr_id updated"
    if "gr_relations g i = Some s" for s
    using that assms(2) records_okD(6) [OF assms(1) that assms(2)] relation_name.expand by auto
  show ?thesis
    using assms(2,3) uniq
    by (cases "gr_relations g i"; cases "unused updated"; cases "i = rr_id updated")
      (auto simp: settle_relation_def names_relation_def graph_change_defs)
qed

lemma remove_edge_holds:
  assumes "rocks_sound api view" "catalog_holds view g cat" "remove_edge api i cat = (Inr result, cat')"
  obtains e relation updated where "gr_edges g i = Some e" "gr_relations g (er_relation_kind e) = Some relation"
    "decremented_relation relation 1 ''edge deletion'' = Inr updated"
    "catalog_holds view (graph_without_edge e updated g) cat'"
    "result = \<lparr>dl_removed_relation_kinds = (if unused updated then [rr_id relation] else [])\<rparr>"
proof -
  from assms(3) obtain batch relation removed cat1 where
    plan: "remove_edge_plan api i cat = Inr (batch, relation, removed)" and
    commit: "commit_batch api batch cat = (Inr (), cat1)" and
    result: "result = \<lparr>dl_removed_relation_kinds = (if removed then [rr_id relation] else [])\<rparr>" and
    cat': "cat' = (if removed
      then cat1\<lparr>ct_relation_names := (ct_relation_names cat1)(relation_name_as_str (rr_name relation) := None)\<rparr>
      else cat1)"
    by (auto simp: remove_edge_def split: sum.splits prod.splits)
  from remove_edge_plan_Inr [OF assms(1,2) plan] obtain e updated where
    e: "gr_edges g i = Some e" "gr_relations g (er_relation_kind e) = Some relation"
      "decremented_relation relation 1 ''edge deletion'' = Inr updated" and removed: "removed = unused updated" and
    batch: "batch = Delete DEFAULT (ascii META_ACTIVE_ROUTING_IMAGE) # delete_edge_ops e @
      (if unused updated then relation_removal relation else relation_change relation updated)"
    by metis
  let ?kv = "store_of (view (ct_db cat))"
  have ok: "graph_ok g" "records_ok g" "indexes_ok g (ct_node_names cat) (ct_relation_names cat)"
    using assms(2) by (simp_all add: catalog_holds_def graph_ok_def)
  have id: "er_id e = i" "rr_id relation = er_relation_kind e" "relation_ok relation"
    using records_okD(2,3) [OF ok(2)] e(1,2) by auto
  have upd: "rr_id updated = er_relation_kind e" "rr_name updated = rr_name relation" "relation_ok updated"
    using e(3) id decremented_ok [OF e(3)] by (auto simp: decremented_relation_Inr relation_record_with_usage_def)
  have s1: "stored_graph (g\<lparr>gr_pointer := None\<rparr>) (store_op (Delete DEFAULT (ascii META_ACTIVE_ROUTING_IMAGE)) ?kv)"
    using catalog_holds_stored [OF assms(2)] by (rule metadata_steps(5))
  have s2: "stored_graph (without_edge i (g\<lparr>gr_pointer := None\<rparr>))
      (store_ops (delete_edge_ops e) (store_op (Delete DEFAULT (ascii META_ACTIVE_ROUTING_IMAGE)) ?kv))"
    using e(1) by (intro edge_removal_step [OF s1]) simp
  have stored: "stored_graph (graph_without_edge e updated g) (store_ops batch ?kv)"
    unfolding graph_without_edge_def batch id(1)
    using settle_step [OF s2, of updated relation] e(2) upd by (simp add: without_edge_def)
  then have gok: "graph_ok (graph_without_edge e updated g)"
    using graph_without_edge_ok [OF ok(1) e] by (simp add: stored_graph_def)
  have "catalog_holds view (graph_without_edge e updated g) cat'"
  proof (rule committed_holds [OF assms(1,2) commit stored gok])
    have names: "names_relation (graph_without_edge e updated g) name j \<longleftrightarrow>
        names_relation g name j \<and> \<not> (unused updated \<and> name = relation_name_as_str (rr_name relation))" for name j
      using settle_names_relation [of "without_edge i (g\<lparr>gr_pointer := None\<rparr>)" updated relation name j] s2 e(2) upd
      by (simp add: graph_without_edge_def id stored_graph_def without_edge_def names_relation_def)
    show "indexes_ok (graph_without_edge e updated g) (ct_node_names cat') (ct_relation_names cat')"
    proof (rule indexes_ok_nodes_same)
      show "indexes_ok g (ct_node_names cat') (ct_relation_names cat)"
        using ok(3) commit_batch_Inr [OF assms(1) commit] by (simp add: cat')
      show "gr_nodes (graph_without_edge e updated g) = gr_nodes g"
        by (simp add: graph_without_edge_def settle_relation_def graph_change_defs)
      show "ct_relation_names cat' name = Some j \<longleftrightarrow> names_relation (graph_without_edge e updated g) name j" for name j
        using ok(3) commit_batch_Inr [OF assms(1) commit] by (auto simp: names cat' removed indexes_ok_def)
    qed
  qed (simp_all add: cat' unpoisoned_def)
  with that [OF e] result removed show thesis by simp
qed

section \<open>Removing a node\<close>

text \<open>The incident edges, in whatever order they are visited.\<close>

definition visits :: "(edge_record list \<Rightarrow> edge_record list) \<Rightarrow> bool" where
  "visits order \<longleftrightarrow> (\<forall>xs. set (order xs) = set xs \<and> (distinct xs \<longrightarrow> distinct (order xs)))"

lemma collect_incident_Inr:
  assumes "fold_result collect_incident es [] = Inr incident"
  shows "btree_ok incident \<and> (\<forall>i e. btree_get incident i = Some e \<longleftrightarrow> e \<in> set es \<and> er_id e = i)"
proof -
  have "ensures (\<lambda>_. True) (\<lambda>m. btree_ok m \<and> (\<forall>i e. btree_get m i = Some e \<longleftrightarrow> e \<in> set es \<and> er_id e = i))
      (fold_result collect_incident es [])"
  proof (rule ensures_fold_result [where P = "\<lambda>seen m. btree_ok m \<and>
      (\<forall>i e. btree_get m i = Some e \<longleftrightarrow> e \<in> set seen \<and> er_id e = i)"])
    fix seen x rest and m :: "(edge_id, edge_record) btree_map"
    assume m: "btree_ok m \<and> (\<forall>i e. btree_get m i = Some e \<longleftrightarrow> e \<in> set seen \<and> er_id e = i)"
    have "m' = btree_insert (er_id x) x m \<and> (btree_get m (er_id x) = None \<or> btree_get m (er_id x) = Some x)"
      if "collect_incident x m = Inr m'" for m'
      using that by (auto simp: collect_incident_def fail_def split: option.splits if_splits)
    moreover have "btree_get (btree_insert (er_id x) x m) i = Some e \<longleftrightarrow> e \<in> set (seen @ [x]) \<and> er_id e = i"
      if "btree_get m (er_id x) = None \<or> btree_get m (er_id x) = Some x" for i e
      using m that by (auto simp: btree.lookup_insert; metis option.distinct(1) option.inject)
    ultimately show "ensures (\<lambda>_. True) (\<lambda>m. btree_ok m \<and>
        (\<forall>i e. btree_get m i = Some e \<longleftrightarrow> e \<in> set (seen @ [x]) \<and> er_id e = i)) (collect_incident x m)"
      using m by (cases "collect_incident x m") (auto simp: btree.insert_ok)
  qed simp
  with assms show ?thesis by (auto elim: ensures_InrD)
qed

definition drop_edges :: "edge_id set \<Rightarrow> graph \<Rightarrow> graph" where
  "drop_edges S g = g\<lparr>gr_edges := gr_edges g |` (- S)\<rparr>"

lemma restrict_UNIV [simp]: "m |` UNIV = m"
  by (simp add: restrict_map_def)

lemma edge_removals_step:
  assumes "stored_graph g kv" "distinct (map er_id es)" "\<And>e. e \<in> set es \<Longrightarrow> gr_edges g (er_id e) = Some e"
  shows "stored_graph (drop_edges (er_id ` set es) g) (store_ops (concat (map delete_edge_ops es)) kv)"
  using assms
proof (induction es arbitrary: g kv)
  case Nil
  then show ?case by (simp add: drop_edges_def)
next
  case (Cons e es)
  have "stored_graph (without_edge (er_id e) g) (store_ops (delete_edge_ops e) kv)"
    using Cons.prems by (intro edge_removal_step) auto
  then have "stored_graph (drop_edges (er_id ` set es) (without_edge (er_id e) g))
      (store_ops (concat (map delete_edge_ops es)) (store_ops (delete_edge_ops e) kv))"
    using Cons.prems by (intro Cons.IH) (auto simp: without_edge_def image_iff)
  moreover have "drop_edges (er_id ` set es) (without_edge (er_id e) g) = drop_edges (er_id ` set (e # es)) g"
    by (auto simp: drop_edges_def without_edge_def restrict_map_def fun_eq_iff)
  ultimately show ?case by simp
qed

lemma msum_restrict:
  assumes "finite (dom m)" "distinct (map k xs)" "\<And>x. x \<in> set xs \<Longrightarrow> m (k x) = Some x"
  shows "msum f (m |` (- (k ` set xs))) + sum_list (map f xs) = msum f m"
  using assms(2,3)
proof (induction xs)
  case (Cons x xs)
  let ?r = "m |` (- (k ` set xs))"
  have "finite (dom ?r)" using assms(1) by simp
  moreover have "?r (k x) = Some x" using Cons.prems by auto
  ultimately have "msum f (?r(k x := None)) + f x = msum f ?r" by (rule msum_delete)
  moreover have "?r(k x := None) = m |` (- (k ` set (x # xs)))" by (auto simp: restrict_map_def fun_eq_iff)
  moreover have "msum f ?r + sum_list (map f xs) = msum f m" using Cons by auto
  ultimately show ?case by simp
qed simp

lemma count_decrement_Inr:
  assumes "fold_result count_decrement es [] = Inr decs"
  shows "btree_ok decs \<and> (\<forall>j. (case btree_get decs j of None \<Rightarrow> 0 | Some n \<Rightarrow> unat n) = sum_list (map (uses_relation j) es))
    \<and> (\<forall>j n. btree_get decs j = Some n \<longrightarrow> 0 < unat n)"
proof -
  let ?P = "\<lambda>seen decs. btree_ok decs \<and>
    (\<forall>j. (case btree_get decs j of None \<Rightarrow> 0 | Some n \<Rightarrow> unat n) = sum_list (map (uses_relation j) seen)) \<and>
    (\<forall>j n. btree_get decs j = Some n \<longrightarrow> 0 < unat (n :: u64))"
  have "ensures (\<lambda>_. True) (?P es) (fold_result count_decrement es [])"
  proof (rule ensures_fold_result [where P = ?P])
    fix seen x rest and m :: "(relation_id, u64) btree_map"
    assume m: "?P seen m"
    show "ensures (\<lambda>_. True) (?P (seen @ [x])) (count_decrement x m)"
    proof (cases "count_decrement x m")
      case (Inr m')
      let ?j = "er_relation_kind x"
      obtain n where n: "unat n = (case btree_get m ?j of None \<Rightarrow> 0 | Some k \<Rightarrow> unat k) + 1" "m' = btree_insert ?j n m"
        using Inr by (auto simp: count_decrement_def Let_def rbind_Inr_iff checked_add_u64_Some split: option.splits)
      with m show ?thesis unfolding Inr
        by (auto simp: btree.insert_ok btree.lookup_insert uses_relation_def)
    qed simp
  qed simp
  with assms show ?thesis by (auto elim: ensures_InrD)
qed

definition lowered :: "graph \<Rightarrow> relation_id \<Rightarrow> u64 \<Rightarrow> relation_record option" where
  "lowered g j n = (case gr_relations g j of None \<Rightarrow> None
     | Some old \<Rightarrow> let updated = relation_record_with_usage j (rr_name old) (rr_provisional_reference_count old)
         (rr_confirmed_edge_count old - n) in if unused updated then None else Some updated)"

definition lower_relations :: "graph \<Rightarrow> (relation_id \<times> u64) list \<Rightarrow> graph \<Rightarrow> graph" where
  "lower_relations g decs h = h\<lparr>gr_relations := \<lambda>j. case map_of decs j of None \<Rightarrow> gr_relations h j
     | Some n \<Rightarrow> lowered g j n\<rparr>"

lemma apply_decrement_Inr:
  assumes "reading api view g db" "apply_decrement api db (j, n) (batch, removed) = Inr (batch', removed')"
  obtains old updated where "gr_relations g j = Some old" "relation_ok old" "relation_ok updated"
    "rr_id updated = j" "rr_name updated = rr_name old"
    "lowered g j n = (if unused updated then None else Some updated)"
    "unat n \<le> unat (rr_confirmed_edge_count old)"
    "batch' = batch @ (if unused updated then relation_removal old else relation_change old updated)"
    "removed' = (if unused updated then removed @ [old] else removed)"
proof -
  from assms(2) obtain old updated ops where o: "get_relation_from_db api db j = Inr old"
      "decremented_relation (old\<lparr>rr_id := j\<rparr>) n ''node deletion'' = Inr updated"
      "relation_update_ops old updated = Inr ops" "batch' = batch @ ops"
      "removed' = (if unused updated then removed @ [old] else removed)"
    by (auto simp: apply_decrement_def rbind_Inr_iff)
  have g: "gr_relations g j = Some old" using reading_get(3) [OF assms(1) o(1)] .
  then have ok: "rr_id old = j" "relation_ok old" using assms(1) records_okD(2) by (auto simp: reading_def)
  then have old: "old\<lparr>rr_id := j\<rparr> = old" by auto
  obtain c where c: "unat (rr_confirmed_edge_count old) = unat n + unat c"
      "updated = relation_record_with_usage j (rr_name old) (rr_provisional_reference_count old) c"
    using o(2) ok by (auto simp: old decremented_relation_Inr)
  then have "c = rr_confirmed_edge_count old - n"
    by (simp add: word_unat_eq_iff unat_sub_if')
  then have "lowered g j n = (if unused updated then None else Some updated)"
    by (simp add: lowered_def g c(2) Let_def)
  moreover have "relation_ok updated" using decremented_ok [OF o(2)] ok by (simp add: old)
  ultimately show thesis
    using that [OF g ok(2)] o(3-5) relation_update_ops_eq [OF ok(2), of updated] c
    by (simp add: relation_record_with_usage_def)
qed

lemma apply_decrements_Inr:
  assumes "reading api view g db" "fold_result (apply_decrement api db) decs (batch, removed) = Inr (batch', removed')"
    and "distinct (map fst decs)" "stored_graph h (store_ops batch kv)"
    and "\<And>j n. (j, n) \<in> set decs \<Longrightarrow> gr_relations h j = gr_relations g j"
  shows "stored_graph (lower_relations g decs h) (store_ops batch' kv) \<and>
    (\<forall>(j, n) \<in> set decs. \<exists>old. gr_relations g j = Some old \<and> unat n \<le> unat (rr_confirmed_edge_count old)) \<and>
    set removed' = set removed \<union> {old. \<exists>n. (rr_id old, n) \<in> set decs \<and> gr_relations g (rr_id old) = Some old
      \<and> lowered g (rr_id old) n = None}"
  using assms(2-)
proof (induction decs arbitrary: batch removed h)
  case Nil
  then show ?case by (simp add: lower_relations_def)
next
  case (Cons d decs)
  obtain j n where d: "d = (j, n)" by (cases d)
  from Cons.prems(1) d obtain batch1 removed1 where
    step: "apply_decrement api db (j, n) (batch, removed) = Inr (batch1, removed1)" and
    rest: "fold_result (apply_decrement api db) decs (batch1, removed1) = Inr (batch', removed')"
    by (auto simp: rbind_Inr_iff)
  from apply_decrement_Inr [OF assms(1) step] obtain old updated where o: "gr_relations g j = Some old"
    "relation_ok old" "relation_ok updated" "rr_id updated = j" "rr_name updated = rr_name old"
    "lowered g j n = (if unused updated then None else Some updated)"
    "unat n \<le> unat (rr_confirmed_edge_count old)"
    "batch1 = batch @ (if unused updated then relation_removal old else relation_change old updated)"
    "removed1 = (if unused updated then removed @ [old] else removed)" by metis
  have "rr_id old = j" using o(1) assms(1) records_okD(2) by (auto simp: reading_def)
  have "gr_relations h (rr_id updated) = Some old" using Cons.prems(4) [of j n] o(1,4) d by simp
  then have s: "stored_graph (settle_relation updated h) (store_ops batch1 kv)"
    using settle_step [OF Cons.prems(3)] o by simp
  have same: "gr_relations (settle_relation updated h) j' = gr_relations h j'" if "j' \<noteq> j" for j'
    using that o(4) by (simp add: settle_relation_def graph_change_defs)
  have d': "distinct (map fst decs)" "j \<notin> fst ` set decs" using Cons.prems(2) d by auto
  have IH: "stored_graph (lower_relations g decs (settle_relation updated h)) (store_ops batch' kv) \<and>
    (\<forall>(j, n) \<in> set decs. \<exists>old. gr_relations g j = Some old \<and> unat n \<le> unat (rr_confirmed_edge_count old)) \<and>
    set removed' = set removed1 \<union> {old. \<exists>n. (rr_id old, n) \<in> set decs \<and> gr_relations g (rr_id old) = Some old
      \<and> lowered g (rr_id old) n = None}"
  proof (rule Cons.IH [OF rest d'(1) s])
    fix j' n' assume jn: "(j', n') \<in> set decs"
    then have "j' \<noteq> j" using d'(2) by force
    then show "gr_relations (settle_relation updated h) j' = gr_relations g j'"
      using same Cons.prems(4) [of j' n'] jn by simp
  qed
  have rel: "(case map_of decs k of None \<Rightarrow> gr_relations (settle_relation updated h) k | Some n \<Rightarrow> lowered g k n) =
      (case map_of (d # decs) k of None \<Rightarrow> gr_relations h k | Some n \<Rightarrow> lowered g k n)" for k
    using d'(2) o(4,6) map_of_eq_None_iff [of decs j]
    by (cases "k = j"; cases "map_of decs k") (auto simp: settle_relation_def graph_change_defs d)
  have eq: "lower_relations g decs (settle_relation updated h) = lower_relations g (d # decs) h"
    unfolding lower_relations_def rel by (simp add: settle_relation_def graph_change_defs)
  have removed: "set removed1 \<union> {old. \<exists>n. (rr_id old, n) \<in> set decs \<and> gr_relations g (rr_id old) = Some old
        \<and> lowered g (rr_id old) n = None} =
      set removed \<union> {old. \<exists>n. (rr_id old, n) \<in> set (d # decs) \<and> gr_relations g (rr_id old) = Some old
        \<and> lowered g (rr_id old) n = None}"
  proof -
    let ?Q = "\<lambda>x m. gr_relations g (rr_id x) = Some x \<and> lowered g (rr_id x) m = None"
    have none: "lowered g j n = None \<longleftrightarrow> unused updated" by (simp add: o(6))
    have "rr_id x = j \<and> ?Q x n \<longleftrightarrow> x = old \<and> unused updated" for x
      using o(1) none \<open>rr_id old = j\<close> by (metis option.inject)
    then have "{x. rr_id x = j \<and> ?Q x n} = (if unused updated then {old} else {})" by simp
    moreover have "{x. \<exists>m. (rr_id x, m) \<in> set (d # decs) \<and> ?Q x m} =
        {x. rr_id x = j \<and> ?Q x n} \<union> {x. \<exists>m. (rr_id x, m) \<in> set decs \<and> ?Q x m}"
      unfolding d by (simp only: list.set insert_iff prod.inject) blast
    moreover have "set removed1 = set removed \<union> (if unused updated then {old} else {})" by (simp add: o(9))
    ultimately show ?thesis by (simp only: Un_assoc)
  qed
  show ?case using IH o(1,7) unfolding eq removed by (auto simp: d)
qed

text \<open>The graph a node removal leaves.\<close>

definition graph_without_node :: "node_id \<Rightarrow> (relation_id, u64) btree_map \<Rightarrow> graph \<Rightarrow> graph" where
  "graph_without_node i decs g = without_node i (lower_relations g decs
     (drop_edges {e. \<exists>x. gr_edges g e = Some x \<and> (er_source x = i \<or> er_destination x = i)} (g\<lparr>gr_pointer := None\<rparr>)))"

lemma provisional_loop_None:
  assumes "provisional_loop node (map Inr xs @ rest) = Inr None" "rest = [] \<or> (\<exists>e tail. rest = Inl e # tail)"
  shows "rest = [] \<and> (\<forall>(k, v) \<in> set xs. \<forall>i c. decode_id_key k = Inr i \<longrightarrow> decode_candidate v i = Inr c \<longrightarrow>
    \<not> references_confirmed_node node c)"
  using assms by (induction xs) (fastforce simp: rbind_Inr_iff split: if_splits)+

lemma no_provisional_reference:
  assumes "reading api view g db" "provisional_edge_referencing_confirmed_node api db node = Inr None"
    and "gr_candidates g i = Some c"
  shows "\<not> references_confirmed_node node c"
proof -
  have s: "rocks_sound api view" "contents_ok (view db)" "stores g (store_of (view db))" "records_ok g"
    using assms(1) by (simp_all add: reading_def)
  obtain n rest where it: "rk_iterator api db CANDIDATES [] =
      map Inr (take n (filter (\<lambda>(k, v). [] \<le> k) (view db CANDIDATES))) @ rest"
    and rest: "rest = [] \<and> length (view db CANDIDATES) \<le> n \<or> (\<exists>e es. rest = Inl e # es)"
    using s(1) unfolding rocks_sound_def by blast
  have loop: "provisional_loop node (map Inr (take n (view db CANDIDATES)) @ rest) = Inr None"
    using assms(2) by (auto simp: provisional_edge_referencing_confirmed_node_def rbind_Inr_iff it)
  have rest': "rest = [] \<or> (\<exists>e tail. rest = Inl e # tail)" using rest by auto
  have all: "\<forall>(k, v) \<in> set (view db CANDIDATES). \<forall>i c. decode_id_key k = Inr i \<longrightarrow> decode_candidate v i = Inr c \<longrightarrow>
      \<not> references_confirmed_node node c"
    using provisional_loop_None [OF loop rest'] rest by auto
  have "btree_get (view db CANDIDATES) (encode_id_key (candidate_id_as_u64 i)) = Some (candidate_bytes c)"
    using stores_get(4) [OF s(3), of i] assms(3) by (simp add: store_of_def)
  then have "(encode_id_key (candidate_id_as_u64 i), candidate_bytes c) \<in> set (view db CANDIDATES)"
    using s(2) btree.entries_lookup by (fastforce simp: contents_ok_def)
  with all have "\<not> references_confirmed_node node c" if "decode_candidate (candidate_bytes c) (candidate_id_as_u64 i) = Inr c"
    using that by fastforce
  then show ?thesis using decode_candidate_ok [of c] records_okD(4) [OF s(4) assms(3)] by auto
qed

lemma incident_set:
  assumes "records_ok g" "incident_list g True i outs" "incident_list g False i ins"
    and "fold_result collect_incident (outs @ ins) [] = Inr incident" "visits order"
  defines "es \<equiv> order (map snd incident)"
  shows "distinct (map er_id es)" "e \<in> set es \<Longrightarrow> gr_edges g (er_id e) = Some e"
    "er_id ` set es = {e. \<exists>x. gr_edges g e = Some x \<and> (er_source x = i \<or> er_destination x = i)}"
proof -
  have inc: "btree_ok incident" "\<And>j e. btree_get incident j = Some e \<longleftrightarrow> e \<in> set (outs @ ins) \<and> er_id e = j"
    using collect_incident_Inr [OF assms(4)] by auto
  have mem: "e \<in> set (map snd incident) \<longleftrightarrow> gr_edges g (er_id e) = Some e \<and> (er_source e = i \<or> er_destination e = i)" for e
  proof -
    have "e \<in> set (map snd incident) \<longleftrightarrow> (\<exists>j. btree_get incident j = Some e)"
      using btree.entries_lookup [OF inc(1)] by force
    then show ?thesis using inc(2) assms(2,3) by (auto simp: incident_list_def endpoint_def)
  qed
  have set: "set es = set (map snd incident)" using assms(5) unfolding es_def visits_def by blast
  have "distinct (map fst incident)" using btree_distinct [OF inc(1)] .
  moreover have "er_id (snd x) = fst x" if "x \<in> set incident" for x
    using that btree.entries_lookup [OF inc(1), of "fst x" "snd x"] inc(2) by auto
  then have "map fst incident = map er_id (map snd incident)" by simp
  ultimately have "distinct (map snd incident)" "inj_on er_id (set (map snd incident))"
    by (metis distinct_map)+
  moreover from this(1) have "distinct es" using assms(5) unfolding es_def visits_def by blast
  ultimately show "distinct (map er_id es)" using set by (simp add: distinct_map)
  show "e \<in> set es \<Longrightarrow> gr_edges g (er_id e) = Some e" using set mem by simp
  show "er_id ` set es = {e. \<exists>x. gr_edges g e = Some x \<and> (er_source x = i \<or> er_destination x = i)}"
  proof (intro set_eqI iffI)
    fix k assume "k \<in> {e. \<exists>x. gr_edges g e = Some x \<and> (er_source x = i \<or> er_destination x = i)}"
    then obtain x where x: "gr_edges g k = Some x" "er_source x = i \<or> er_destination x = i" by blast
    then have "er_id x = k" using records_okD(3) [OF assms(1)] by blast
    with x set mem [of x] show "k \<in> er_id ` set es" by (metis imageI)
  qed (use set mem in auto)
qed

lemma remove_node_plan_Inr:
  assumes "rocks_sound api view" "visits order" "catalog_holds view g cat"
    and "remove_node_plan api order i cat = Inr (batch, node, removed)"
  obtains outs ins incident decs where "gr_nodes g i = Some node"
    "provisional_edge_referencing_confirmed_node api (ct_db cat) i = Inr None"
    "incident_list g True i outs" "incident_list g False i ins"
    "fold_result collect_incident (outs @ ins) [] = Inr incident"
    "fold_result count_decrement (order (map snd incident)) [] = Inr decs"
    "\<exists>batch1. fold_result (apply_decrement api (ct_db cat)) decs (Delete DEFAULT (ascii META_ACTIVE_ROUTING_IMAGE)
      # concat (map delete_edge_ops (order (map snd incident))), []) = Inr (batch1, removed)
      \<and> batch = batch1 @ node_removal node"
proof -
  note rd = catalog_holds_reading [OF assms(1,3)]
  have ok: "records_ok g" and st: "stores g (store_of (view (ct_db cat)))"
    using assms(3) by (simp_all add: catalog_holds_def graph_ok_def)
  from assms(4) obtain outs ins incident decs name_key batch1 where p:
      "get_node_from_db api (ct_db cat) i = Inr node"
      "provisional_edge_referencing_confirmed_node api (ct_db cat) i = Inr None"
      "incident_edges api (ct_db cat) OUTGOING_EDGES i True = Inr outs"
      "incident_edges api (ct_db cat) INCOMING_EDGES i False = Inr ins"
      "fold_result collect_incident (outs @ ins) [] = Inr incident"
      "fold_result count_decrement (order (map snd incident)) [] = Inr decs"
      "encode_name_key (node_name_as_str (nr_name node)) = Inr name_key"
      "fold_result (apply_decrement api (ct_db cat)) decs (Delete DEFAULT (ascii META_ACTIVE_ROUTING_IMAGE)
        # concat (map delete_edge_ops (order (map snd incident))), []) = Inr (batch1, removed)"
      "batch = batch1 @ [Delete NODES (encode_id_key (node_id_as_u64 i)), Delete NODE_NAMES name_key]"
    by (auto simp: remove_node_plan_def get_node_def rbind_Inr_iff Let_def fail_def
        split: option.splits if_splits)
  have node: "gr_nodes g i = Some node" using reading_get(1) [OF rd p(1)] .
  then have n: "nr_id node = i" "node_ok node" using records_okD(1) [OF ok] by auto
  have "batch = batch1 @ node_removal node"
    using p(7,9) n by (simp add: node_removal_def encode_name_ok node_ok_def)
  with that [OF node p(2) incident_edges_Inr [OF rd stores_index(1) [OF st] p(3)]
      incident_edges_Inr [OF rd stores_index(2) [OF st] p(4)] p(5,6)] p(8)
  show thesis by blast
qed

lemma graph_without_node_ok:
  assumes g: "graph_ok g" and node: "gr_nodes g i = Some node"
    and refs: "\<And>j c. gr_candidates g j = Some c \<Longrightarrow> \<not> references_confirmed_node i c"
    and es: "distinct (map er_id es)" "\<And>e. e \<in> set es \<Longrightarrow> gr_edges g (er_id e) = Some e"
      "er_id ` set es = {e. \<exists>x. gr_edges g e = Some x \<and> (er_source x = i \<or> er_destination x = i)}"
    and decs: "fold_result count_decrement es [] = Inr decs"
      "\<forall>(j, n) \<in> set decs. \<exists>old. gr_relations g j = Some old \<and> unat n \<le> unat (rr_confirmed_edge_count old)"
    and rec: "records_ok (graph_without_node i decs g)"
  shows "graph_ok (graph_without_node i decs g)"
proof (rule shrunk_graph_ok [OF g _ rec])
  let ?S = "{e. \<exists>x. gr_edges g e = Some x \<and> (er_source x = i \<or> er_destination x = i)}"
  let ?E = "gr_edges g |` (- ?S)" and ?g = "graph_without_node i decs g"
  have ok: "finite (dom (gr_edges g))" "counts_ok g" "references_ok g"
    using g by (simp_all add: graph_ok_def finite_graph_def)
  have btree: "btree_ok decs"
    and n: "\<And>j. (case btree_get decs j of None \<Rightarrow> 0 | Some n \<Rightarrow> unat n) = sum_list (map (uses_relation j) es)"
    using count_decrement_Inr [OF decs(1)] by auto
  have sums: "msum (uses_relation j) ?E + sum_list (map (uses_relation j) es) = msum (uses_relation j) (gr_edges g)" for j
    using msum_restrict [OF ok(1) es(1,2), of "uses_relation j"] by (simp add: es(3))
  have counts: "unat (rr_confirmed_edge_count s) = msum (uses_relation j) (gr_edges g)"
    if "gr_relations g j = Some s" for j s using ok(2) that by (simp add: counts_ok_def)
  have fields: "gr_nodes ?g = (gr_nodes g)(i := None)" "gr_edges ?g = ?E" "gr_candidates ?g = gr_candidates g"
    "\<And>j. gr_relations ?g j = (case map_of decs j of None \<Rightarrow> gr_relations g j | Some n \<Rightarrow> lowered g j n)"
    "gr_pointer ?g = None" "gr_next_candidate ?g = gr_next_candidate g" "gr_next_node ?g = gr_next_node g"
    "gr_next_relation ?g = gr_next_relation g" "gr_next_edge ?g = gr_next_edge g"
    by (simp_all add: graph_without_node_def without_node_def lower_relations_def drop_edges_def split: option.splits)
  have low: "unat (rr_confirmed_edge_count old - n) = msum (uses_relation j) ?E"
    if "btree_get decs j = Some n" "gr_relations g j = Some old" for j old n
  proof -
    have "(j, n) \<in> set decs" using that(1) btree.entries_lookup [OF btree] by blast
    then have "unat n \<le> unat (rr_confirmed_edge_count old)" using decs(2) that(2) by auto
    then show ?thesis
      using sums [of j] n [of j] counts [OF that(2)] that(1)
      by (simp add: unat_sub_if' word_le_nat_alt)
  qed
  have same: "msum (uses_relation j) ?E = unat (rr_confirmed_edge_count r)"
    if "btree_get decs j = None" "gr_relations g j = Some r" for j r
  proof -
    have "sum_list (map (uses_relation j) es) = 0" using n [of j] that(1) by (metis option.simps(4))
    with sums [of j] counts [OF that(2)] show ?thesis by linarith
  qed
  show "shrunk g ?g"
    unfolding shrunk_def fields
  proof (intro conjI allI impI)
    fix j r' assume r': "(case map_of decs j of None \<Rightarrow> gr_relations g j | Some n \<Rightarrow> lowered g j n) = Some r'"
    show "\<exists>r. gr_relations g j = Some r \<and> rr_provisional_reference_count r' = rr_provisional_reference_count r
        \<and> unat (rr_confirmed_edge_count r') = msum (uses_relation j) ?E"
      using r' low [of j] same [of j]
      by (auto simp: lowered_def relation_record_with_usage_def Let_def btree_get_def
          split: option.splits if_splits)
  next
    fix j r assume r: "gr_relations g j = Some r"
      and gone: "(case map_of decs j of None \<Rightarrow> gr_relations g j | Some n \<Rightarrow> lowered g j n) = None"
    then obtain n where dn: "map_of decs j = Some n" "lowered g j n = None" by (auto split: option.splits)
    then have "unused (relation_record_with_usage j (rr_name r) (rr_provisional_reference_count r)
        (rr_confirmed_edge_count r - n))"
      using r by (simp add: lowered_def Let_def split: if_splits)
    with low [of j n r] dn(1) r
    show "msum (uses_relation j) ?E = 0" "rr_provisional_reference_count r = 0"
      by (simp_all add: unused_def relation_record_with_usage_def btree_get_def)
  next
    fix k e assume e: "?E k = Some e"
    then have "gr_edges g k = Some e" "er_source e \<noteq> i" "er_destination e \<noteq> i"
      by (auto simp: restrict_map_def split: if_splits)
    then show "((gr_nodes g)(i := None)) (er_source e) \<noteq> None" "((gr_nodes g)(i := None)) (er_destination e) \<noteq> None"
      using ok(3) by (auto simp: references_ok_def)
  next
    fix k c m assume "gr_candidates g k = Some c" "references_confirmed_node m c" "gr_nodes g m \<noteq> None"
    then show "((gr_nodes g)(i := None)) m \<noteq> None" using refs [of k c] by auto
  qed (auto simp: map_le_def restrict_map_def)
qed

text \<open>Forgetting the names of the removed relation kinds.\<close>

lemma fold_forget:
  "fold (\<lambda>r m. m(relation_name_as_str (rr_name r) := None)) rs m name =
     (if \<exists>r \<in> set rs. relation_name_as_str (rr_name r) = name then None else m name)"
  by (induction rs arbitrary: m) auto

lemma lower_names_relation:
  assumes "records_ok g" "btree_ok decs" "\<forall>(j, n) \<in> set decs. \<exists>old. gr_relations g j = Some old \<and> P old n"
    and "gr_relations h = (\<lambda>j. case map_of decs j of None \<Rightarrow> gr_relations g j | Some n \<Rightarrow> lowered g j n)"
  shows "names_relation h name j \<longleftrightarrow> names_relation g name j \<and>
    \<not> (\<exists>old n. (rr_id old, n) \<in> set decs \<and> gr_relations g (rr_id old) = Some old \<and> lowered g (rr_id old) n = None
        \<and> relation_name_as_str (rr_name old) = name)"
proof (cases "gr_relations g j")
  case None
  then show ?thesis
    by (auto simp: names_relation_def assms(4) lowered_def split: option.splits)
next
  case (Some r)
  have id: "rr_id r = j" using records_okD(2) [OF assms(1) Some] by simp
  have uniq: "relation_name_as_str (rr_name s) = relation_name_as_str (rr_name r) \<longleftrightarrow> s = r"
    if "gr_relations g (rr_id s) = Some s" for s
    using that Some records_okD(6) [OF assms(1) that Some] relation_name.expand by auto
  have mem: "(j, n) \<in> set decs \<longleftrightarrow> map_of decs j = Some n" for n
    using btree_distinct [OF assms(2)] by simp
  have name: "lowered g j n = Some r' \<Longrightarrow> rr_name r' = rr_name r" for n r'
    by (auto simp: lowered_def Some relation_record_with_usage_def Let_def split: if_splits)
  have "names_relation h name j \<longleftrightarrow> relation_name_as_str (rr_name r) = name \<and>
      \<not> (\<exists>n. (j, n) \<in> set decs \<and> lowered g j n = None)"
    using name by (auto simp: names_relation_def assms(4) Some mem split: option.splits)
  moreover have "(\<exists>old n. (rr_id old, n) \<in> set decs \<and> gr_relations g (rr_id old) = Some old
        \<and> lowered g (rr_id old) n = None \<and> relation_name_as_str (rr_name old) = name) \<longleftrightarrow>
      (\<exists>n. (j, n) \<in> set decs \<and> lowered g j n = None)" if "relation_name_as_str (rr_name r) = name"
    using uniq Some id that by metis
  moreover have "names_relation g name j \<longleftrightarrow> relation_name_as_str (rr_name r) = name"
    by (simp add: names_relation_def Some)
  ultimately show ?thesis by blast
qed

lemma remove_node_holds:
  assumes "rocks_sound api view" "visits order" "catalog_holds view g cat"
    and "remove_node api order i cat = (Inr result, cat')"
  obtains node decs where "gr_nodes g i = Some node"
    "\<And>j c. gr_candidates g j = Some c \<Longrightarrow> \<not> references_confirmed_node i c"
    "catalog_holds view (graph_without_node i decs g) cat'"
    "set (dl_removed_relation_kinds result) =
       {j. gr_relations g j \<noteq> None \<and> gr_relations (graph_without_node i decs g) j = None}"
    "\<And>j n. map_of decs j = Some n \<Longrightarrow> 0 < unat n \<and> (\<exists>old. gr_relations g j = Some old \<and> unat n \<le> unat (rr_confirmed_edge_count old))"
proof -
  from assms(4) obtain batch node removed cat1 where
    plan: "remove_node_plan api order i cat = Inr (batch, node, removed)" and
    commit: "commit_batch api batch cat = (Inr (), cat1)" and
    result: "result = \<lparr>dl_removed_relation_kinds = map rr_id removed\<rparr>" and
    cat': "cat' = cat1\<lparr>ct_node_names := (ct_node_names cat1)(node_name_as_str (nr_name node) := None),
      ct_relation_names := fold (\<lambda>r m. m(relation_name_as_str (rr_name r) := None)) removed (ct_relation_names cat1)\<rparr>"
    by (auto simp: remove_node_def split: sum.splits prod.splits)
  note rd = catalog_holds_reading [OF assms(1,3)]
  from remove_node_plan_Inr [OF assms(1-3) plan] obtain outs ins incident decs where p:
      "gr_nodes g i = Some node" "provisional_edge_referencing_confirmed_node api (ct_db cat) i = Inr None"
      "incident_list g True i outs" "incident_list g False i ins"
      "fold_result collect_incident (outs @ ins) [] = Inr incident"
      "fold_result count_decrement (order (map snd incident)) [] = Inr decs"
      "\<exists>batch1. fold_result (apply_decrement api (ct_db cat)) decs (Delete DEFAULT (ascii META_ACTIVE_ROUTING_IMAGE)
        # concat (map delete_edge_ops (order (map snd incident))), []) = Inr (batch1, removed)
        \<and> batch = batch1 @ node_removal node" by metis
  let ?es = "order (map snd incident)" and ?g = "graph_without_node i decs g" and ?kv = "store_of (view (ct_db cat))"
  let ?S = "{e. \<exists>x. gr_edges g e = Some x \<and> (er_source x = i \<or> er_destination x = i)}"
  have ok: "graph_ok g" "records_ok g" "indexes_ok g (ct_node_names cat) (ct_relation_names cat)"
    using assms(3) by (simp_all add: catalog_holds_def graph_ok_def)
  note es = incident_set [OF ok(2) p(3-5) assms(2)]
  have btree: "btree_ok decs" using count_decrement_Inr [OF p(6)] by simp
  note refs = no_provisional_reference [OF rd p(2)]
  let ?h = "drop_edges ?S (g\<lparr>gr_pointer := None\<rparr>)"
  have "stored_graph (drop_edges (er_id ` set ?es) (g\<lparr>gr_pointer := None\<rparr>))
      (store_ops (concat (map delete_edge_ops ?es)) (store_op (Delete DEFAULT (ascii META_ACTIVE_ROUTING_IMAGE)) ?kv))"
    using es(1,2) by (intro edge_removals_step metadata_steps(5) catalog_holds_stored [OF assms(3)]) auto
  then have s: "stored_graph ?h (store_ops (Delete DEFAULT (ascii META_ACTIVE_ROUTING_IMAGE)
      # concat (map delete_edge_ops ?es)) ?kv)" by (simp add: es(3))
  from p(7) obtain batch1 where b: "fold_result (apply_decrement api (ct_db cat)) decs
      (Delete DEFAULT (ascii META_ACTIVE_ROUTING_IMAGE) # concat (map delete_edge_ops ?es), []) = Inr (batch1, removed)"
      "batch = batch1 @ node_removal node" by blast
  have low: "stored_graph (lower_relations g decs ?h) (store_ops batch1 ?kv)"
    and decs: "\<forall>(j, n) \<in> set decs. \<exists>old. gr_relations g j = Some old \<and> unat n \<le> unat (rr_confirmed_edge_count old)"
    and removed: "set removed = {old. \<exists>n. (rr_id old, n) \<in> set decs \<and> gr_relations g (rr_id old) = Some old
      \<and> lowered g (rr_id old) n = None}"
    using apply_decrements_Inr [OF rd b(1) btree_distinct [OF btree] s] by (auto simp: drop_edges_def)
  have stored: "stored_graph ?g (store_ops batch ?kv)"
    using node_removal_step [OF low, of i node] p(1)
    by (simp add: graph_without_node_def b(2)) (simp add: lower_relations_def drop_edges_def)
  then have gok: "graph_ok ?g"
    using graph_without_node_ok [OF ok(1) p(1) refs es p(6) decs] by (simp add: stored_graph_def)
  have rels: "gr_relations ?g = (\<lambda>j. case map_of decs j of None \<Rightarrow> gr_relations g j | Some n \<Rightarrow> lowered g j n)"
    by (auto simp: graph_without_node_def without_node_def lower_relations_def drop_edges_def split: option.splits)
  have nodes: "gr_nodes ?g = (gr_nodes g)(i := None)"
    by (simp add: graph_without_node_def without_node_def lower_relations_def drop_edges_def)
  have holds: "catalog_holds view ?g cat'"
  proof (rule committed_holds [OF assms(1,3) commit stored gok])
    have uniq: "node_name_as_str (nr_name m) = node_name_as_str (nr_name node) \<longleftrightarrow> j = i"
      if "gr_nodes g j = Some m" for j m
      using that p(1) records_okD(5) [OF ok(2) that p(1)] node_name.expand by auto
    have nn: "names_node ?g name j \<longleftrightarrow> names_node g name j \<and> name \<noteq> node_name_as_str (nr_name node)" for name j
      using uniq by (cases "gr_nodes g j"; cases "j = i") (auto simp: names_node_def nodes)
    have nr: "names_relation ?g name j \<longleftrightarrow> names_relation g name j \<and>
        \<not> (\<exists>old \<in> set removed. relation_name_as_str (rr_name old) = name)" for name j
      unfolding lower_names_relation [OF ok(2) btree decs rels] removed by blast
    show "indexes_ok ?g (ct_node_names cat') (ct_relation_names cat')"
      using ok(3) commit_batch_Inr [OF assms(1) commit]
      by (simp add: indexes_ok_def cat' fold_forget nn nr)
  qed (simp_all add: cat' unpoisoned_def)
  have "rr_id ` set removed = {j. gr_relations g j \<noteq> None \<and> gr_relations ?g j = None}"
  proof (intro set_eqI iffI)
    fix j assume "j \<in> {j. gr_relations g j \<noteq> None \<and> gr_relations ?g j = None}"
    then obtain r n where r: "gr_relations g j = Some r" "map_of decs j = Some n" "lowered g j n = None"
      by (auto simp: rels split: option.splits)
    have id: "rr_id r = j" using records_okD(2) [OF ok(2) r(1)] by simp
    have "r \<in> set removed"
      unfolding removed using r map_of_SomeD [OF r(2)] by (intro CollectI exI [of _ n]) (simp add: id)
    with id show "j \<in> rr_id ` set removed" by blast
  next
    fix j assume "j \<in> rr_id ` set removed"
    then obtain old n where o: "j = rr_id old" "(j, n) \<in> set decs" "gr_relations g j = Some old" "lowered g j n = None"
      unfolding removed by blast
    then have "map_of decs j = Some n" using btree_distinct [OF btree] by simp
    with o show "j \<in> {j. gr_relations g j \<noteq> None \<and> gr_relations ?g j = None}" by (simp add: rels)
  qed
  moreover have "0 < unat n \<and> (\<exists>old. gr_relations g j = Some old \<and> unat n \<le> unat (rr_confirmed_edge_count old))"
    if "map_of decs j = Some n" for j n
  proof
    show "0 < unat n" using count_decrement_Inr [OF p(6)] that unfolding btree_get_def by blast
    show "\<exists>old. gr_relations g j = Some old \<and> unat n \<le> unat (rr_confirmed_edge_count old)"
      using decs map_of_SomeD [OF that] by blast
  qed
  ultimately show thesis using that [OF p(1) refs holds] result by simp
qed

end
