(* ===== verification/Catalog_Insertion.thy ===== *)
theory Catalog_Insertion
  imports Catalog_Removal
begin

text \<open>
  Storing a batch of candidates keeps a catalog well formed: the candidates get consecutive fresh
  identifiers, local references become references to them, their incoming counts are the numbers
  of references in the batch, and the provisional usage of the confirmed relation kinds rises by
  the edges that name them. The confirmed graph does not change.
\<close>

section \<open>Resolving references\<close>

lemma unat_le_U64_MAX: "unat (w :: u64) \<le> U64_MAX"
proof -
  have "unat w < 2 ^ 64" using unsigned_less [of w] by simp
  then show ?thesis by (simp add: U64_MAX_def)
qed

lemma u64_incr: "checked_add_u64 a 1 = Some b \<longleftrightarrow> unat b = Suc (unat a)"
  by (simp add: checked_add_u64_Some)

lemma increment_incoming_Inr:
  assumes "increment_incoming l inc = Inr inc'"
  shows "l < length inc \<and> length inc' = length inc \<and>
    (\<forall>m < length inc. unat (inc' ! m) = unat (inc ! m) + of_bool (m = l))"
  using assms by (auto simp: increment_incoming_def rbind_Inr_iff index_Inr_iff u64_incr nth_list_update)

fun node_reference_new :: "graph \<Rightarrow> candidate_batch_entry list \<Rightarrow> candidate_id list \<Rightarrow> candidate_node_reference \<Rightarrow> bool" where
  "node_reference_new g entries ids (NodeConfirmed i) \<longleftrightarrow> gr_nodes g i \<noteq> None"
| "node_reference_new g entries ids (NodeCandidate c) \<longleftrightarrow>
     (\<exists>l < length entries. c = ids ! l \<and> is_entry_node (Some (entries ! l)))"

fun relation_reference_new ::
    "graph \<Rightarrow> candidate_batch_entry list \<Rightarrow> candidate_id list \<Rightarrow> candidate_relation_reference \<Rightarrow> bool" where
  "relation_reference_new g entries ids (RelationConfirmed i) \<longleftrightarrow> gr_relations g i \<noteq> None"
| "relation_reference_new g entries ids (RelationCandidate c) \<longleftrightarrow>
     (\<exists>l < length entries. c = ids ! l \<and> is_entry_relation_kind (Some (entries ! l)))"

text \<open>The reference that a batch reference stands for, with the identifiers of the batch.\<close>

fun batch_node :: "candidate_id list \<Rightarrow> batch_node_reference \<Rightarrow> candidate_node_reference" where
  "batch_node ids (BatchConfirmedNode i) = NodeConfirmed i"
| "batch_node ids (BatchNode l) = NodeCandidate (ids ! l)"

fun batch_relation :: "candidate_id list \<Rightarrow> batch_relation_reference \<Rightarrow> candidate_relation_reference" where
  "batch_relation ids (BatchConfirmedRelation i) = RelationConfirmed i"
| "batch_relation ids (BatchRelationKind l) = RelationCandidate (ids ! l)"

lemma resolve_node_Inr:
  assumes "reading api view g db" "length ids = length entries" "length inc = length entries" "distinct ids"
    and "resolve_batch_node_reference api db entries ids owner ep ref inc = Inr (r, inc')"
  shows "r = batch_node ids ref \<and> node_reference_new g entries ids r \<and> length inc' = length entries \<and>
    (\<forall>l < length entries. unat (inc' ! l) = unat (inc ! l) + of_bool (r = NodeCandidate (ids ! l)))"
proof (cases ref)
  case (BatchConfirmedNode i)
  with assms require_Inr(1) [OF assms(1)] show ?thesis by (auto simp: rbind_Inr_iff)
next
  case (BatchNode l)
  with assms(5) obtain inc1 where l: "is_entry_node (get entries l)" "increment_incoming l inc = Inr inc'"
      "l < length ids" "r = NodeCandidate (ids ! l)"
    by (auto simp: rbind_Inr_iff index_Inr_iff fail_def split: if_splits)
  have "ids ! l = ids ! m \<longleftrightarrow> m = l" if "m < length entries" for m
    using that l(3) assms(2,4) nth_eq_iff_index_eq by metis
  then show ?thesis
    using increment_incoming_Inr [OF l(2)] l assms(2,3) BatchNode by auto
qed

lemma resolve_relation_Inr:
  assumes "reading api view g db" "length ids = length entries" "length inc = length entries" "distinct ids"
    and "btree_ok prov" "resolve_batch_relation_reference api db entries ids owner ref (inc, prov) = Inr (r, inc', prov')"
  shows "r = batch_relation ids ref \<and> relation_reference_new g entries ids r \<and> length inc' = length entries \<and>
    (\<forall>l < length entries. unat (inc' ! l) = unat (inc ! l) + of_bool (r = RelationCandidate (ids ! l))) \<and>
    btree_ok prov' \<and>
    (\<forall>j. (case btree_get prov' j of None \<Rightarrow> 0 | Some n \<Rightarrow> unat n) =
       (case btree_get prov j of None \<Rightarrow> 0 | Some n \<Rightarrow> unat n) + of_bool (r = RelationConfirmed j)) \<and>
    (\<forall>j n. btree_get prov' j = Some n \<longrightarrow> btree_get prov j \<noteq> None \<or> r = RelationConfirmed j)"
proof (cases ref)
  case (BatchConfirmedRelation i)
  with assms(6) obtain n where n: "require_relation_kind api db i = Inr ()"
      "unat n = (case btree_get prov i of None \<Rightarrow> 0 | Some d \<Rightarrow> unat d) + 1"
      "r = RelationConfirmed i" "inc' = inc" "prov' = btree_insert i n prov"
    by (auto simp: rbind_Inr_iff Let_def u64_incr split: option.splits)
  with require_Inr(2) [OF assms(1)] assms(3,5) BatchConfirmedRelation show ?thesis
    by (auto simp: btree.insert_ok btree.lookup_insert)
next
  case (BatchRelationKind l)
  with assms(6) obtain inc1 where l: "is_entry_relation_kind (get entries l)" "increment_incoming l inc = Inr inc'"
      "l < length ids" "r = RelationCandidate (ids ! l)" "prov' = prov"
    by (auto simp: rbind_Inr_iff index_Inr_iff fail_def split: if_splits)
  have "ids ! l = ids ! m \<longleftrightarrow> m = l" if "m < length entries" for m
    using that l(3) assms(2,4) nth_eq_iff_index_eq by metis
  then show ?thesis
    using increment_incoming_Inr [OF l(2)] l assms(2,3,5) BatchRelationKind by auto
qed

section \<open>The loop over the entries\<close>

fun entry_becomes ::
    "graph \<Rightarrow> candidate_batch_entry list \<Rightarrow> candidate_id list \<Rightarrow> candidate_id \<Rightarrow> candidate_batch_entry \<Rightarrow> candidate \<Rightarrow> bool" where
  "entry_becomes g entries ids i (EntryNode name payload) c \<longleftrightarrow> c = CandidateNode i name payload 0"
| "entry_becomes g entries ids i (EntryRelationKind name) c \<longleftrightarrow> c = CandidateRelation i name 0"
| "entry_becomes g entries ids i (EntryEdge source destination relation_kind weight) c \<longleftrightarrow>
     c = CandidateEdge i (batch_node ids source) (batch_node ids destination) (batch_relation ids relation_kind) weight \<and>
     node_reference_new g entries ids (batch_node ids source) \<and>
     node_reference_new g entries ids (batch_node ids destination) \<and>
     relation_reference_new g entries ids (batch_relation ids relation_kind)"

definition insertion_inv :: "graph \<Rightarrow> candidate_batch_entry list \<Rightarrow> candidate_id list \<Rightarrow> nat \<Rightarrow> insertion_state \<Rightarrow> bool" where
  "insertion_inv g entries ids k s \<longleftrightarrow>
     length (in_candidates s) = k \<and> length (in_incoming s) = length entries \<and> btree_ok (in_provisional s) \<and>
     (\<forall>l < k. entry_becomes g entries ids (ids ! l) (entries ! l) (in_candidates s ! l)) \<and>
     (\<forall>l < length entries. unat (in_incoming s ! l) = sum_list (map (candidate_refs (ids ! l)) (in_candidates s))) \<and>
     (\<forall>j. (case btree_get (in_provisional s) j of None \<Rightarrow> 0 | Some n \<Rightarrow> unat n) =
        sum_list (map (provisional_uses j) (in_candidates s))) \<and>
     (\<forall>j n. btree_get (in_provisional s) j = Some n \<longrightarrow> gr_relations g j \<noteq> None)"

lemma insert_entry_inv:
  assumes "reading api view g db" "length ids = length entries" "distinct ids" "k < length entries"
    and "insertion_inv g entries ids k s" "insert_entry api db entries ids (k, entries ! k) s = Inr t"
  shows "insertion_inv g entries ids (Suc k) t"
proof (cases "entries ! k")
  case (EntryNode name payload)
  with assms show ?thesis
    by (auto simp: insertion_inv_def nth_append less_Suc_eq)
next
  case (EntryRelationKind name)
  with assms show ?thesis
    by (auto simp: insertion_inv_def nth_append less_Suc_eq)
next
  case (EntryEdge source destination relation_kind weight)
  note inv = assms(5) [unfolded insertion_inv_def]
  from assms(6) EntryEdge obtain s1 inc1 d1 inc2 r1 inc3 prov where
    s: "resolve_batch_node_reference api db entries ids k EndpointSource source (in_incoming s) = Inr (s1, inc1)" and
    d: "resolve_batch_node_reference api db entries ids k EndpointDestination destination inc1 = Inr (d1, inc2)" and
    r: "resolve_batch_relation_reference api db entries ids k relation_kind (inc2, in_provisional s) = Inr (r1, inc3, prov)" and
    t: "in_incoming t = inc3" "in_provisional t = prov"
      "in_candidates t = in_candidates s @ [CandidateEdge (ids ! k) s1 d1 r1 weight]"
    using assms(2,4) by (auto simp: rbind_Inr_iff)
  have len: "length (in_incoming s) = length entries" "btree_ok (in_provisional s)" using inv by auto
  note S = resolve_node_Inr [OF assms(1,2) len(1) assms(3) s]
  have D: "d1 = batch_node ids destination \<and> node_reference_new g entries ids d1 \<and> length inc2 = length entries \<and>
      (\<forall>l < length entries. unat (inc2 ! l) = unat (inc1 ! l) + of_bool (d1 = NodeCandidate (ids ! l)))"
    using S by (intro resolve_node_Inr [OF assms(1,2) _ assms(3) d]) simp
  then have "length inc2 = length entries" by simp
  note R = resolve_relation_Inr [OF assms(1,2) this assms(3) len(2) r]
  have "entry_becomes g entries ids (ids ! k) (entries ! k) (CandidateEdge (ids ! k) s1 d1 r1 weight)"
    using S D R EntryEdge by auto
  moreover have "unat (inc3 ! l) = sum_list (map (candidate_refs (ids ! l)) (in_candidates t))"
    if "l < length entries" for l using S D R inv that by (simp add: t)
  moreover have "(case btree_get prov j of None \<Rightarrow> 0 | Some n \<Rightarrow> unat n) =
      sum_list (map (provisional_uses j) (in_candidates t))" for j
    using R inv by (simp add: t)
  moreover have "gr_relations g j \<noteq> None" if "btree_get prov j = Some n" for j n
    using R inv that by (cases "r1 = RelationConfirmed j") auto
  ultimately show ?thesis using inv R by (simp add: insertion_inv_def t nth_append less_Suc_eq)
qed

lemma enumerate_split: "enumerate 0 xs = done @ x # rest \<Longrightarrow> length done < length xs \<and> x = (length done, xs ! length done)"
proof -
  assume eq: "enumerate 0 xs = done @ x # rest"
  then have "length xs = length done + Suc (length rest)" by (metis length_append length_Cons length_enumerate)
  moreover have "enumerate 0 xs ! length done = x" by (simp add: eq)
  ultimately show ?thesis by (simp add: nth_enumerate_eq)
qed

lemma insert_entries_Inr:
  assumes "reading api view g db" "length ids = length entries" "distinct ids"
    and "fold_result (insert_entry api db entries ids) (enumerate 0 entries)
      \<lparr>in_counts = counts, in_incoming = replicate (length entries) 0, in_provisional = [], in_candidates = []\<rparr> = Inr s"
  shows "insertion_inv g entries ids (length entries) s"
proof -
  have "ensures (\<lambda>_. True) (insertion_inv g entries ids (length (enumerate 0 entries)))
      (fold_result (insert_entry api db entries ids) (enumerate 0 entries)
        \<lparr>in_counts = counts, in_incoming = replicate (length entries) 0, in_provisional = [], in_candidates = []\<rparr>)"
  proof (rule ensures_fold_result [where P = "\<lambda>seen. insertion_inv g entries ids (length seen)"])
    fix seen x rest s assume *: "enumerate 0 entries = seen @ x # rest" "insertion_inv g entries ids (length seen) s"
    note x = enumerate_split [OF *(1)]
    show "ensures (\<lambda>_. True) (insertion_inv g entries ids (length (seen @ [x]))) (insert_entry api db entries ids x s)"
      using insert_entry_inv [OF assms(1-3) _ *(2)] x
      by (cases "insert_entry api db entries ids x s") auto
  qed (simp add: insertion_inv_def)
  with assms(4) show ?thesis by (auto elim: ensures_InrD)
qed
section \<open>Changing several relation kinds\<close>

fun relation_ops :: "relation_record option \<Rightarrow> relation_record \<Rightarrow> write_op list" where
  "relation_ops None r = relation_group r"
| "relation_ops (Some old) r = relation_change old r"

text \<open>A record that may replace what a graph holds under its identifier.\<close>

definition may_become :: "graph \<Rightarrow> relation_record \<Rightarrow> bool" where
  "may_become g r \<longleftrightarrow> relation_ok r \<and> (case gr_relations g (rr_id r) of
     None \<Rightarrow> (\<forall>i s. gr_relations g i = Some s \<longrightarrow> rr_name s \<noteq> rr_name r)
   | Some old \<Rightarrow> rr_name r = rr_name old)"

definition with_relations :: "relation_record list \<Rightarrow> graph \<Rightarrow> graph" where
  "with_relations rs g = fold with_relation rs g"

lemma with_relations_fields [simp]:
  "gr_nodes (with_relations rs g) = gr_nodes g" "gr_edges (with_relations rs g) = gr_edges g"
  "gr_candidates (with_relations rs g) = gr_candidates g" "gr_pointer (with_relations rs g) = gr_pointer g"
  "gr_next_candidate (with_relations rs g) = gr_next_candidate g" "gr_next_node (with_relations rs g) = gr_next_node g"
  "gr_next_relation (with_relations rs g) = gr_next_relation g" "gr_next_edge (with_relations rs g) = gr_next_edge g"
  unfolding with_relations_def by (induction rs arbitrary: g) (simp_all add: with_relation_def)

lemma with_relations_get:
  "distinct (map rr_id rs) \<Longrightarrow> gr_relations (with_relations rs g) j =
     (case map_of (map (\<lambda>r. (rr_id r, r)) rs) j of None \<Rightarrow> gr_relations g j | Some r \<Rightarrow> Some r)"
proof (induction rs arbitrary: g)
  case (Cons r rs)
  have "map_of (map (\<lambda>r. (rr_id r, r)) rs) (rr_id r) = None"
    using Cons.prems by (simp add: map_of_eq_None_iff image_image)
  then show ?case
    using Cons.IH [of "with_relation r g"] Cons.prems
    by (auto simp: with_relations_def with_relation_def split: option.splits)
qed (simp add: with_relations_def)

lemma relation_ops_step:
  assumes "stored_graph g kv" "may_become g r"
  shows "stored_graph (with_relation r g) (store_ops (relation_ops (gr_relations g (rr_id r)) r) kv)"
proof (cases "gr_relations g (rr_id r)")
  case None
  then show ?thesis using assms relation_group_step [OF assms(1), of r] by (simp add: may_become_def)
next
  case (Some old)
  then show ?thesis using assms relation_change_step [OF assms(1) Some] by (simp add: may_become_def)
qed

lemma relations_step:
  assumes "stored_graph g kv" "distinct (map rr_id rs)" "\<And>r. r \<in> set rs \<Longrightarrow> may_become g r"
    and "\<And>r s. r \<in> set rs \<Longrightarrow> s \<in> set rs \<Longrightarrow> gr_relations g (rr_id s) = None \<Longrightarrow> rr_name r = rr_name s \<Longrightarrow> r = s"
  shows "stored_graph (with_relations rs g) (store_ops (concat (map (\<lambda>r. relation_ops (gr_relations g (rr_id r)) r) rs)) kv)"
  using assms
proof (induction rs arbitrary: g kv)
  case Nil
  then show ?case by (simp add: with_relations_def)
next
  case (Cons r rs)
  let ?g = "with_relation r g" and ?kv = "store_ops (relation_ops (gr_relations g (rr_id r)) r) kv"
  have step: "stored_graph ?g ?kv" using Cons.prems(1,3) by (intro relation_ops_step) auto
  have other: "rr_id s \<noteq> rr_id r" if "s \<in> set rs" for s using Cons.prems(2) that by (auto simp: image_iff)
  have same: "gr_relations ?g (rr_id s) = gr_relations g (rr_id s)" if "s \<in> set rs" for s
    using other [OF that] by (simp add: with_relation_def)
  have "may_become ?g s" if s: "s \<in> set rs" for s
    unfolding may_become_def same [OF s]
  proof (intro conjI)
    have m: "may_become g s" using Cons.prems(3) s by simp
    then show "relation_ok s" by (simp add: may_become_def)
    have "rr_name r \<noteq> rr_name s" if "gr_relations g (rr_id s) = None"
      using Cons.prems(4) [of r s] that s other [OF s] by auto
    then show "case gr_relations g (rr_id s) of None \<Rightarrow> \<forall>i t. gr_relations ?g i = Some t \<longrightarrow> rr_name t \<noteq> rr_name s
        | Some old \<Rightarrow> rr_name s = rr_name old"
      using m by (auto simp: may_become_def with_relation_def split: option.splits)
  qed
  moreover have "s = t" if "s \<in> set rs" "t \<in> set rs" "gr_relations ?g (rr_id t) = None" "rr_name s = rr_name t" for s t
    using Cons.prems(4) [of s t] that same by simp
  ultimately have "stored_graph (with_relations rs ?g)
      (store_ops (concat (map (\<lambda>s. relation_ops (gr_relations ?g (rr_id s)) s) rs)) ?kv)"
    using Cons.prems(2) by (intro Cons.IH [OF step]) auto
  moreover have "map (\<lambda>s. relation_ops (gr_relations ?g (rr_id s)) s) rs = map (\<lambda>s. relation_ops (gr_relations g (rr_id s)) s) rs"
    using same by simp
  ultimately show ?case by (simp add: with_relations_def)
qed

section \<open>The batch\<close>

definition with_candidates :: "candidate list \<Rightarrow> graph \<Rightarrow> graph" where
  "with_candidates cs g = fold with_candidate cs g"

lemma with_candidates_fields [simp]:
  "gr_nodes (with_candidates cs g) = gr_nodes g" "gr_edges (with_candidates cs g) = gr_edges g"
  "gr_relations (with_candidates cs g) = gr_relations g" "gr_pointer (with_candidates cs g) = gr_pointer g"
  "gr_next_candidate (with_candidates cs g) = gr_next_candidate g" "gr_next_node (with_candidates cs g) = gr_next_node g"
  "gr_next_relation (with_candidates cs g) = gr_next_relation g" "gr_next_edge (with_candidates cs g) = gr_next_edge g"
  unfolding with_candidates_def by (induction cs arbitrary: g) (simp_all add: with_candidate_def)

lemma with_candidates_get:
  "distinct (map candidate_id_of cs) \<Longrightarrow> gr_candidates (with_candidates cs g) i =
     (case map_of (map (\<lambda>c. (candidate_id_of c, c)) cs) i of None \<Rightarrow> gr_candidates g i | Some c \<Rightarrow> Some c)"
proof (induction cs arbitrary: g)
  case (Cons c cs)
  have "map_of (map (\<lambda>c. (candidate_id_of c, c)) cs) (candidate_id_of c) = None"
    using Cons.prems by (simp add: map_of_eq_None_iff image_image)
  then show ?case
    using Cons.IH [of "with_candidate c g"] Cons.prems
    by (auto simp: with_candidates_def with_candidate_def split: option.splits)
qed (simp add: with_candidates_def)

lemma with_candidates_msum:
  assumes "finite (dom (gr_candidates g))" "distinct (map candidate_id_of cs)"
    and "\<And>c. c \<in> set cs \<Longrightarrow> gr_candidates g (candidate_id_of c) = None"
  shows "finite (dom (gr_candidates (with_candidates cs g))) \<and>
    msum f (gr_candidates (with_candidates cs g)) = msum f (gr_candidates g) + sum_list (map f cs)"
  using assms
proof (induction cs arbitrary: g)
  case (Cons c cs)
  have fin: "finite (dom (gr_candidates (with_candidate c g)))" using Cons.prems(1) by (simp add: with_candidate_def)
  have "finite (dom (gr_candidates (with_candidates cs (with_candidate c g)))) \<and>
      msum f (gr_candidates (with_candidates cs (with_candidate c g))) =
        msum f (gr_candidates (with_candidate c g)) + sum_list (map f cs)"
    using Cons.prems by (intro Cons.IH [OF fin]) (auto simp: with_candidate_def image_iff)
  moreover have "msum f (gr_candidates (with_candidate c g)) = msum f (gr_candidates g) + f c"
    using Cons.prems msum_add [of "gr_candidates g" "candidate_id_of c" f c] by (simp add: with_candidate_def)
  ultimately show ?case by (simp add: with_candidates_def)
qed (simp add: with_candidates_def)

lemma candidates_step:
  assumes "stored_graph g kv" "distinct (map candidate_id_of cs)"
    and "\<And>c. c \<in> set cs \<Longrightarrow> stored_candidate_ok c \<and> gr_candidates g (candidate_id_of c) = None"
  shows "stored_graph (with_candidates cs g) (store_ops (concat (map candidate_group cs)) kv)"
  using assms
proof (induction cs arbitrary: g kv)
  case (Cons c cs)
  have "stored_graph (with_candidate c g) (store_ops (candidate_group c) kv)"
    using Cons.prems by (intro candidate_group_step) auto
  then have "stored_graph (with_candidates cs (with_candidate c g))
      (store_ops (concat (map candidate_group cs)) (store_ops (candidate_group c) kv))"
    using Cons.prems by (intro Cons.IH) (auto simp: with_candidate_def image_iff)
  then show ?case by (simp add: with_candidates_def)
qed (simp add: with_candidates_def)

lemma assign_incoming_Inr:
  assumes "assign_incoming inc cs = Inr cs'" "length inc = length cs"
  shows "length cs' = length cs \<and> (\<forall>k < length cs. set_incoming_count k (inc ! k) (cs ! k) = Inr (cs' ! k))"
proof -
  let ?f = "\<lambda>(i, n) cs. rbind (index cs i) (\<lambda>c. rbind (set_incoming_count i n c) (\<lambda>c. Inr (cs[i := c])))"
  let ?P = "\<lambda>seen ds. length ds = length cs \<and>
    (\<forall>k < length cs. if k < length seen then set_incoming_count k (inc ! k) (cs ! k) = Inr (ds ! k) else ds ! k = cs ! k)"
  have "ensures (\<lambda>_. True) (?P (enumerate 0 inc)) (fold_result ?f (enumerate 0 inc) cs)"
  proof (rule ensures_fold_result [where P = ?P])
    fix seen x rest ds assume *: "enumerate 0 inc = seen @ x # rest" "?P seen ds"
    note x = enumerate_split [OF *(1)]
    show "ensures (\<lambda>_. True) (?P (seen @ [x])) (?f x ds)"
    proof (cases "?f x ds")
      case (Inr ds')
      with x *(2) assms(2) obtain y where "ds' = ds[length seen := y]"
          "set_incoming_count (length seen) (inc ! length seen) (cs ! length seen) = Inr y"
        by (auto simp: rbind_Inr_iff index_Inr_iff)
      then show ?thesis unfolding Inr using *(2) x assms(2)
        by (auto simp: nth_list_update less_Suc_eq)
    qed simp
  qed simp
  with assms show ?thesis unfolding assign_incoming_def by (auto elim!: ensures_InrD)
qed

lemma put_candidates_Inr:
  "put_candidates cs batch = Inr batch' \<Longrightarrow>
     batch' = batch @ concat (map candidate_group cs) \<and> (\<forall>c \<in> set cs. encode_candidate c = Inr (candidate_bytes c))"
proof (induction cs arbitrary: batch)
  case (Cons c cs)
  then obtain v where "encode_candidate c = Inr v"
      "put_candidates cs (batch @ [Put CANDIDATES (encode_id_key (candidate_id_as_u64 (candidate_id_of c))) v]) = Inr batch'"
    by (auto simp: put_candidates_def rbind_Inr_iff)
  with Cons.IH [OF this(2)] show ?case by (auto simp: candidate_bytes_def candidate_group_def)
qed (simp add: put_candidates_def)

text \<open>Fields that their Rust types guarantee: names are UTF-8, weights are canonical.\<close>

fun entry_typed :: "candidate_batch_entry \<Rightarrow> bool" where
  "entry_typed (EntryNode name _) \<longleftrightarrow> utf8_valid (node_name_as_str name)"
| "entry_typed (EntryRelationKind name) \<longleftrightarrow> utf8_valid (relation_name_as_str name)"
| "entry_typed (EntryEdge _ _ _ weight) \<longleftrightarrow> base_weight_ok weight"

lemma encodable_candidate_ok:
  "encode_candidate c = Inr bs \<Longrightarrow> candidate_ok c \<Longrightarrow> stored_candidate_ok c"
  by (cases c) (auto simp: push_string_eq push_bytes_eq rbind_Inr_iff split: if_splits)

definition raised :: "relation_record \<Rightarrow> u64 \<Rightarrow> relation_record" where
  "raised r n = relation_record_with_usage (rr_id r) (rr_name r) (rr_provisional_reference_count r + n)
     (rr_confirmed_edge_count r)"

lemma put_provisional_Inr:
  assumes "reading api view g db" "put_provisional api db (j, n) batch = Inr batch'"
  obtains old where "gr_relations g j = Some old" "relation_ok (raised old n)"
    "unat (rr_provisional_reference_count (raised old n)) = unat (rr_provisional_reference_count old) + unat n"
    "batch' = batch @ relation_ops (Some old) (raised old n)"
proof -
  from assms(2) obtain old p t k1 v k2 where o: "get_relation_from_db api db j = Inr old"
    "checked_add_u64 (rr_provisional_reference_count old) n = Some p"
    "checked_add_u64 p (rr_confirmed_edge_count old) = Some t"
    "encode_popularity_key old = Inr k1"
    "encode_relation (relation_record_with_usage j (rr_name old) p (rr_confirmed_edge_count old)) = Inr v"
    "encode_popularity_key (relation_record_with_usage j (rr_name old) p (rr_confirmed_edge_count old)) = Inr k2"
    "batch' = batch @ [Delete RELATION_POPULARITY k1, Put RELATION_KINDS (encode_id_key (relation_id_as_u64 j)) v,
       Put RELATION_POPULARITY k2 (encode_u64_record (relation_id_as_u64 j))]"
    by (auto simp: put_provisional_def rbind_Inr_iff Let_def)
  have g: "gr_relations g j = Some old" by (rule reading_get(3) [OF assms(1) o(1)])
  then have ok: "rr_id old = j" "relation_ok old" using assms(1) records_okD(2) by (auto simp: reading_def)
  have p: "p = rr_provisional_reference_count old + n"
    using o(2) by (auto simp: checked_add_u64_def split: if_splits)
  have new: "relation_record_with_usage j (rr_name old) p (rr_confirmed_edge_count old) = raised old n"
    by (simp add: raised_def p ok)
  have "unat t \<le> U64_MAX" by (rule unat_le_U64_MAX)
  then have "relation_ok (raised old n)"
    using ok(2) o(3) by (simp add: relation_ok_def raised_def relation_record_with_usage_def p checked_add_u64_Some)
  moreover have "unat (rr_provisional_reference_count (raised old n)) = unat (rr_provisional_reference_count old) + unat n"
    using o(2) by (simp add: checked_add_u64_Some p raised_def relation_record_with_usage_def)
  ultimately show thesis
    using that [OF g] o(4-7) ok(1)
    by (simp add: new relation_change_def popularity_bytes_def relation_bytes_def) (simp add: raised_def relation_record_with_usage_def)
qed

lemma put_provisionals_Inr:
  assumes "reading api view g db" "fold_result (put_provisional api db) prov batch = Inr batch'"
  shows "\<exists>rs. map rr_id rs = map fst prov \<and>
    batch' = batch @ concat (map (\<lambda>r. relation_ops (gr_relations g (rr_id r)) r) rs) \<and>
    (\<forall>r \<in> set rs. may_become g r) \<and>
    (\<forall>k < length prov. \<exists>old. gr_relations g (fst (prov ! k)) = Some old \<and> rs ! k = raised old (snd (prov ! k)) \<and>
      unat (rr_provisional_reference_count (rs ! k)) = unat (rr_provisional_reference_count old) + unat (snd (prov ! k)))"
  using assms(2)
proof (induction prov arbitrary: batch)
  case Nil
  then show ?case by simp
next
  case (Cons p prov)
  obtain j n where p: "p = (j, n)" by (cases p)
  from Cons.prems p obtain batch1 where step: "put_provisional api db (j, n) batch = Inr batch1"
      and rest: "fold_result (put_provisional api db) prov batch1 = Inr batch'"
    by (auto simp: rbind_Inr_iff)
  from put_provisional_Inr [OF assms(1) step] obtain old where o: "gr_relations g j = Some old"
    "relation_ok (raised old n)"
    "unat (rr_provisional_reference_count (raised old n)) = unat (rr_provisional_reference_count old) + unat n"
    "batch1 = batch @ relation_ops (Some old) (raised old n)" by metis
  have id: "rr_id (raised old n) = j" "rr_name (raised old n) = rr_name old"
    using o(1) assms(1) records_okD(2) by (auto simp: reading_def raised_def relation_record_with_usage_def)
  from Cons.IH [OF rest] obtain rs where rs: "map rr_id rs = map fst prov"
    "batch' = batch1 @ concat (map (\<lambda>r. relation_ops (gr_relations g (rr_id r)) r) rs)"
    "\<forall>r \<in> set rs. may_become g r"
    "\<forall>k < length prov. \<exists>old. gr_relations g (fst (prov ! k)) = Some old \<and> rs ! k = raised old (snd (prov ! k)) \<and>
      unat (rr_provisional_reference_count (rs ! k)) = unat (rr_provisional_reference_count old) + unat (snd (prov ! k))"
    by blast
  have "may_become g (raised old n)" using o(1,2) id by (simp add: may_become_def)
  show ?case
  proof (intro exI [of _ "raised old n # rs"] conjI ballI allI impI)
    show "batch' = batch @ concat (map (\<lambda>r. relation_ops (gr_relations g (rr_id r)) r) (raised old n # rs))"
      using rs(2) o(1,4) id by simp
    show "may_become g r" if "r \<in> set (raised old n # rs)" for r
      using that rs(3) \<open>may_become g (raised old n)\<close> by auto
    fix k assume "k < length (p # prov)"
    then show "\<exists>old'. gr_relations g (fst ((p # prov) ! k)) = Some old' \<and>
        (raised old n # rs) ! k = raised old' (snd ((p # prov) ! k)) \<and>
        unat (rr_provisional_reference_count ((raised old n # rs) ! k)) =
          unat (rr_provisional_reference_count old') + unat (snd ((p # prov) ! k))"
      using rs(4) o(1,3) by (cases k) (simp_all add: p)
  qed (use rs(1) id p in simp)
qed

text \<open>The candidate that an entry is stored as, under the identifier at its position.\<close>

fun entry_stored :: "candidate_id list \<Rightarrow> candidate_id \<Rightarrow> candidate_batch_entry \<Rightarrow> candidate \<Rightarrow> bool" where
  "entry_stored ids i (EntryNode name payload) c \<longleftrightarrow> (\<exists>n. c = CandidateNode i name payload n)"
| "entry_stored ids i (EntryRelationKind name) c \<longleftrightarrow> (\<exists>n. c = CandidateRelation i name n)"
| "entry_stored ids i (EntryEdge source destination relation_kind weight) c \<longleftrightarrow>
     c = CandidateEdge i (batch_node ids source) (batch_node ids destination) (batch_relation ids relation_kind) weight"

section \<open>The resulting graph\<close>

text \<open>What a batch of new candidates and its relation updates satisfy.\<close>

definition insertable :: "graph \<Rightarrow> candidate list \<Rightarrow> bool" where
  "insertable g cs \<longleftrightarrow> distinct (map candidate_id_of cs) \<and>
     (\<forall>c \<in> set cs. stored_candidate_ok c \<and> gr_candidates g (candidate_id_of c) = None
        \<and> dependencies_ok (with_candidates cs g) c
        \<and> (\<forall>i. candidate_refs i c > 0 \<longrightarrow> i \<in> candidate_id_of ` set cs)
        \<and> (\<forall>i n. durable_incoming c = Some (i, n) \<longrightarrow> i = candidate_id_of c \<and>
             unat n = sum_list (map (candidate_refs i) cs)))"

definition provisionals_raised :: "graph \<Rightarrow> candidate list \<Rightarrow> relation_record list \<Rightarrow> bool" where
  "provisionals_raised g cs rs \<longleftrightarrow> distinct (map rr_id rs) \<and> (\<forall>r \<in> set rs. may_become g r) \<and>
     (\<forall>j old. gr_relations g j = Some old \<longrightarrow> (\<exists>new. gr_relations (with_relations rs g) j = Some new \<and>
        rr_confirmed_edge_count new = rr_confirmed_edge_count old \<and>
        unat (rr_provisional_reference_count new) =
          unat (rr_provisional_reference_count old) + sum_list (map (provisional_uses j) cs))) \<and>
     (\<forall>r \<in> set rs. gr_relations g (rr_id r) \<noteq> None)"

lemma candidate_refs_known:
  assumes "dependencies_ok g c" "candidate_refs i c > 0"
  shows "gr_candidates g i \<noteq> None"
  using assms by (cases c) (auto split: if_splits)

lemma dependencies_ok_mono:
  assumes "dependencies_ok g c" "gr_nodes g \<subseteq>\<^sub>m gr_nodes g'" "gr_candidates g \<subseteq>\<^sub>m gr_candidates g'"
    and "dom (gr_relations g) \<subseteq> dom (gr_relations g')"
  shows "dependencies_ok g' c"
proof -
  have "node_reference_ok g' ref" if "node_reference_ok g ref" for ref
    using that assms(2,3) by (cases ref) (auto dest: map_le_SomeD)
  moreover have "relation_reference_ok g' ref" if "relation_reference_ok g ref" for ref
    using that assms(3,4) by (cases ref) (auto dest: map_le_SomeD)
  ultimately show ?thesis using assms(1) by (cases c) auto
qed

lemma insertion_graph_ok:
  assumes g: "graph_ok g" and cs: "insertable g cs" and rs: "provisionals_raised g cs rs"
    and next_id: "\<forall>c \<in> set cs. candidate_id_as_u64 (candidate_id_of c) < v" "gr_next_candidate g \<le> v"
    and rec: "records_ok ((with_relations rs (with_candidates cs g))\<lparr>gr_next_candidate := v\<rparr>)"
  shows "graph_ok ((with_relations rs (with_candidates cs g))\<lparr>gr_next_candidate := v\<rparr>)" (is "graph_ok ?g")
proof -
  let ?h = "with_candidates cs g"
  have fin: "finite (dom (gr_candidates g))" and ok: "references_ok g" "counts_ok g" "counters_ok g" "finite_graph g" "pointer_ok g"
    using g by (simp_all add: graph_ok_def finite_graph_def)
  have dist: "distinct (map candidate_id_of cs)" and fresh: "\<And>c. c \<in> set cs \<Longrightarrow> gr_candidates g (candidate_id_of c) = None"
    using cs by (auto simp: insertable_def)
  note sums = with_candidates_msum [OF fin dist fresh]
  have rels: "gr_relations (with_relations rs ?h) = gr_relations (with_relations rs g)"
    using rs by (intro ext) (simp add: provisionals_raised_def with_relations_get split: option.splits)
  have cand: "gr_candidates ?h i = Some c \<longleftrightarrow> c \<in> set cs \<and> candidate_id_of c = i \<or> gr_candidates g i = Some c" for i c
  proof -
    have "map_of (map (\<lambda>c. (candidate_id_of c, c)) cs) i = Some c \<longleftrightarrow> c \<in> set cs \<and> candidate_id_of c = i"
      using dist by (subst map_of_eq_Some_iff) (auto simp: distinct_map comp_def)
    moreover have "gr_candidates g i = None" if "map_of (map (\<lambda>c. (candidate_id_of c, c)) cs) i \<noteq> None"
      using that fresh by (auto dest!: map_of_SomeD)
    ultimately show ?thesis
      by (cases "map_of (map (\<lambda>c. (candidate_id_of c, c)) cs) i") (auto simp: with_candidates_get [OF dist])
  qed
  have le: "gr_candidates g \<subseteq>\<^sub>m gr_candidates ?h" unfolding map_le_def using cand by (metis domD)
  have reldom: "dom (gr_relations (with_relations rs g)) = dom (gr_relations g)"
    using rs by (fastforce simp: provisionals_raised_def with_relations_get dest!: map_of_SomeD split: option.splits)
  have refs0: "sum_list (map (candidate_refs i) cs) = 0" if "i \<notin> candidate_id_of ` set cs" for i
    using cs that by (auto simp: insertable_def)
  have old0: "msum (candidate_refs i) (gr_candidates g) = 0" if "gr_candidates g i = None" for i
    using candidate_refs_known [of g _ i] ok(1) that unfolding msum_eq_0_iff [OF fin] references_ok_def
    by (metis gr_zeroI)
  have "references_ok ?g"
    unfolding references_ok_def
  proof (intro conjI allI impI)
    fix i e assume e: "gr_edges ?g i = Some e"
    then show "gr_nodes ?g (er_source e) \<noteq> None" "gr_nodes ?g (er_destination e) \<noteq> None"
      using ok(1) by (auto simp: references_ok_def)
    have "er_relation_kind e \<in> dom (gr_relations g)" using ok(1) e by (auto simp: references_ok_def)
    then show "gr_relations ?g (er_relation_kind e) \<noteq> None" using reldom rels by auto
  next
    fix i c assume "gr_candidates ?g i = Some c"
    then have "c \<in> set cs \<and> candidate_id_of c = i \<or> gr_candidates g i = Some c" using cand by simp
    then have "dependencies_ok ?h c"
    proof
      assume "gr_candidates g i = Some c"
      then have "dependencies_ok g c" using ok(1) by (simp add: references_ok_def)
      then show ?thesis by (rule dependencies_ok_mono) (use le in simp_all)
    qed (use cs in \<open>auto simp: insertable_def\<close>)
    then show "dependencies_ok ?g c" by (rule dependencies_ok_mono) (simp_all add: rels reldom)
  qed
  moreover have "counts_ok ?g"
    unfolding counts_ok_def
  proof (intro conjI allI impI)
    fix i r assume r: "gr_relations ?g i = Some r"
    then obtain old where old: "gr_relations g i = Some old" using reldom rels by auto
    then obtain new where "gr_relations (with_relations rs g) i = Some new"
        "rr_confirmed_edge_count new = rr_confirmed_edge_count old"
        "unat (rr_provisional_reference_count new) =
          unat (rr_provisional_reference_count old) + sum_list (map (provisional_uses i) cs)"
      using rs unfolding provisionals_raised_def by blast
    moreover from this(1) have "new = r" using r by (simp add: rels)
    ultimately have "rr_confirmed_edge_count r = rr_confirmed_edge_count old"
        "unat (rr_provisional_reference_count r) =
          unat (rr_provisional_reference_count old) + sum_list (map (provisional_uses i) cs)" by simp_all
    with ok(2) old sums show "unat (rr_confirmed_edge_count r) = msum (uses_relation i) (gr_edges ?g)"
      "unat (rr_provisional_reference_count r) = msum (provisional_uses i) (gr_candidates ?g)"
      by (simp_all add: counts_ok_def)
  next
    fix i c n assume c: "gr_candidates ?g i = Some c" "durable_incoming c = Some (i, n)"
    then have "c \<in> set cs \<and> candidate_id_of c = i \<or> gr_candidates g i = Some c" using cand by simp
    then show "unat n = msum (candidate_refs i) (gr_candidates ?g)"
    proof
      assume "c \<in> set cs \<and> candidate_id_of c = i"
      moreover from this have "msum (candidate_refs i) (gr_candidates g) = 0" using fresh by (intro old0) auto
      moreover from calculation(1) have "unat n = sum_list (map (candidate_refs i) cs)"
        using cs c(2) unfolding insertable_def by blast
      ultimately show ?thesis using sums by simp
    next
      assume o: "gr_candidates g i = Some c"
      then have "i \<notin> candidate_id_of ` set cs" using fresh by auto
      then show ?thesis using ok(2) o c(2) sums refs0 [of i] by (simp add: counts_ok_def)
    qed
  qed
  moreover have "counters_ok ?g"
  proof -
    have "v \<noteq> 0" using next_id(2) ok(3) by (auto simp: counters_ok_def)
    moreover have "\<And>i r. gr_relations (with_relations rs g) i = Some r \<Longrightarrow> \<exists>r'. gr_relations g i = Some r'"
      using reldom by blast
    ultimately show ?thesis
      using ok(3) next_id cand rels unfolding counters_ok_def by (auto intro: less_le_trans)
  qed
  moreover have "finite_graph ?g"
    using ok(4) sums by (simp add: finite_graph_def rels reldom)
  ultimately show ?thesis using rec ok(5) by (simp add: graph_ok_def pointer_ok_def)
qed

section \<open>Insertion\<close>

lemma set_incoming_count_Inr:
  assumes "set_incoming_count k n c = Inr c'"
  shows "candidate_id_of c' = candidate_id_of c" "candidate_refs i c' = candidate_refs i c"
    "provisional_uses j c' = provisional_uses j c" "dependencies_ok g c' = dependencies_ok g c"
    "is_candidate_node c' = is_candidate_node c" "is_candidate_relation c' = is_candidate_relation c"
    "candidate_ok c' = candidate_ok c"
    "durable_incoming c' = Some (i, m) \<Longrightarrow> i = candidate_id_of c \<and> m = n"
  using assms by (cases c; auto simp: fail_def split: if_splits)+

lemma insertion_ids_facts:
  fixes first v :: u64
  assumes "unat v = unat first + n"
  shows "distinct (insertion_ids first n)" "length (insertion_ids first n) = n"
    "k < n \<Longrightarrow> unat (candidate_id_as_u64 (insertion_ids first n ! k)) = unat first + k"
proof -
  have v: "unat first + n < 2 ^ 64" using assms unat_le_U64_MAX [of v] by (simp add: U64_MAX_def)
  have at: "unat (first + word_of_nat k) = unat first + k" if "k < n" for k
    using that v by (simp add: unat_word_ariths unat_of_nat)
  show "length (insertion_ids first n) = n" by (simp add: insertion_ids_def)
  show "k < n \<Longrightarrow> unat (candidate_id_as_u64 (insertion_ids first n ! k)) = unat first + k"
    using at by (simp add: insertion_ids_def)
  have "first + word_of_nat j = first + word_of_nat k \<longleftrightarrow> j = k" if "j < n" "k < n" for j k
    using at [OF that(1)] at [OF that(2)] by (metis add_left_cancel)
  then have "inj_on (\<lambda>k. CandidateId (first + word_of_nat k)) {0..<n}" unfolding inj_on_def
    by (metis atLeastLessThan_iff candidate_id.inject)
  then show "distinct (insertion_ids first n)" by (simp add: insertion_ids_def distinct_map)
qed

lemma entry_becomes_ok:
  assumes "entry_becomes g entries ids i e c" "entry_typed e"
  shows "candidate_id_of c = i" "candidate_ok c"
    "is_candidate_node c \<longleftrightarrow> is_entry_node (Some e)" "is_candidate_relation c \<longleftrightarrow> is_entry_relation_kind (Some e)"
    "candidate_refs j c > 0 \<Longrightarrow> \<exists>l < length entries. j = ids ! l"
  using assms by (cases e; auto split: if_splits)+

lemma insertion_insertable:
  assumes "insertion_inv g entries ids (length entries) s" "assign_incoming (in_incoming s) (in_candidates s) = Inr cs"
    and "length ids = length entries" "distinct ids" "\<And>e. e \<in> set entries \<Longrightarrow> entry_typed e"
    and "\<And>c. c \<in> set cs \<Longrightarrow> encode_candidate c = Inr (candidate_bytes c)"
    and "\<And>l. l < length ids \<Longrightarrow> gr_candidates g (ids ! l) = None"
  shows "insertable g cs" "map candidate_id_of cs = ids" "k < length entries \<Longrightarrow> entry_stored ids (ids ! k) (entries ! k) (cs ! k)"
    "sum_list (map (provisional_uses j) cs) = sum_list (map (provisional_uses j) (in_candidates s))"
proof -
  let ?n = "length entries"
  note inv = assms(1) [unfolded insertion_inv_def]
  have cs: "length cs = ?n" "\<And>k. k < ?n \<Longrightarrow> set_incoming_count k (in_incoming s ! k) (in_candidates s ! k) = Inr (cs ! k)"
    using assign_incoming_Inr [OF assms(2)] inv by auto
  note eq = set_incoming_count_Inr [OF cs(2)]
  have typed: "entry_typed (entries ! k)" if "k < ?n" for k using assms(5) that by simp
  have becomes: "entry_becomes g entries ids (ids ! k) (entries ! k) (in_candidates s ! k)" if "k < ?n" for k
    using inv that by simp
  note ok = entry_becomes_ok [OF becomes typed]
  have maps: "map f cs = map f (in_candidates s)" if "\<And>k. k < ?n \<Longrightarrow> f (cs ! k) = f (in_candidates s ! k)" for f :: "candidate \<Rightarrow> 'x"
    using that inv cs(1) by (intro nth_equalityI) auto
  show ids: "map candidate_id_of cs = ids" using cs(1) eq(1) ok(1) assms(3) by (intro nth_equalityI) auto
  show "sum_list (map (provisional_uses j) cs) = sum_list (map (provisional_uses j) (in_candidates s))"
    by (subst maps) (simp_all add: eq(3))
  have refs: "map (candidate_refs i) cs = map (candidate_refs i) (in_candidates s)" for i
    by (rule maps) (simp add: eq(2))
  show "entry_stored ids (ids ! k) (entries ! k) (cs ! k)" if "k < ?n"
    using becomes [OF that] cs(2) [OF that, symmetric] by (cases "entries ! k") (auto simp: fail_def split: if_splits)
  have dist: "distinct (map candidate_id_of cs)" using ids assms(4) by simp
  have get: "gr_candidates (with_candidates cs g) (ids ! l) = Some (cs ! l)" if "l < ?n" for l
  proof -
    have "map_of (map (\<lambda>c. (candidate_id_of c, c)) cs) (candidate_id_of (cs ! l)) = Some (cs ! l)"
      using dist that cs(1) by (intro map_of_is_SomeI) (auto simp: comp_def)
    then show ?thesis using that eq(1) ok(1) by (simp add: with_candidates_get [OF dist])
  qed
  have node: "node_reference_ok (with_candidates cs g) ref" if "node_reference_new g entries ids ref" for ref
    using that get ok(3) eq(5) by (cases ref) auto
  have rel: "relation_reference_ok (with_candidates cs g) ref" if "relation_reference_new g entries ids ref" for ref
    using that get ok(4) eq(6) by (cases ref) auto
  have "stored_candidate_ok (cs ! k) \<and> gr_candidates g (candidate_id_of (cs ! k)) = None
        \<and> dependencies_ok (with_candidates cs g) (cs ! k)
        \<and> (\<forall>i. candidate_refs i (cs ! k) > 0 \<longrightarrow> i \<in> candidate_id_of ` set cs)
        \<and> (\<forall>i n. durable_incoming (cs ! k) = Some (i, n) \<longrightarrow> i = candidate_id_of (cs ! k) \<and>
             unat n = sum_list (map (candidate_refs i) cs))" if k: "k < ?n" for k
  proof (intro conjI allI impI)
    show "stored_candidate_ok (cs ! k)"
      using encodable_candidate_ok [OF assms(6)] k cs(1) eq(7) ok(2) by simp
    show "gr_candidates g (candidate_id_of (cs ! k)) = None" using k eq(1) ok(1) assms(3,7) by simp
    have "dependencies_ok (with_candidates cs g) (in_candidates s ! k)"
      using becomes [OF k] node rel by (cases "entries ! k") auto
    then show "dependencies_ok (with_candidates cs g) (cs ! k)" using eq(4) k by simp
    show "i \<in> candidate_id_of ` set cs" if "candidate_refs i (cs ! k) > 0" for i
    proof -
      have "0 < candidate_refs i (in_candidates s ! k)" using eq(2) [OF k] that by simp
      from ok(5) [OF k k this] have "\<exists>l < ?n. i = ids ! l" .
      then have "i \<in> set (map candidate_id_of cs)" unfolding ids using assms(3) by auto
      then show ?thesis by simp
    qed
    fix i n assume d: "durable_incoming (cs ! k) = Some (i, n)"
    then have "i = ids ! k" "n = in_incoming s ! k" using eq(8) [OF k d] ok(1) [OF k k] by auto
    then show "i = candidate_id_of (cs ! k)" "unat n = sum_list (map (candidate_refs i) cs)"
      using eq(1) ok(1) k inv refs by simp_all
  qed
  then show "insertable g cs" using dist cs(1) unfolding insertable_def by (metis in_set_conv_nth)
qed

lemma provisionals_raised_of:
  assumes "btree_ok prov" "map rr_id rs = map fst prov" "\<forall>r \<in> set rs. may_become g r"
    and raised: "\<forall>k < length prov. \<exists>old. gr_relations g (fst (prov ! k)) = Some old \<and> rs ! k = raised old (snd (prov ! k)) \<and>
      unat (rr_provisional_reference_count (rs ! k)) = unat (rr_provisional_reference_count old) + unat (snd (prov ! k))"
    and n: "\<And>j. (case btree_get prov j of None \<Rightarrow> 0 | Some n \<Rightarrow> unat n) = sum_list (map (provisional_uses j) cs)"
  shows "provisionals_raised g cs rs"
proof -
  have len: "length rs = length prov" using assms(2) by (metis length_map)
  have dist: "distinct (map rr_id rs)" using btree_distinct [OF assms(1)] assms(2) by simp
  have new: "\<exists>new. gr_relations (with_relations rs g) j = Some new \<and>
        rr_confirmed_edge_count new = rr_confirmed_edge_count old \<and>
        unat (rr_provisional_reference_count new) =
          unat (rr_provisional_reference_count old) + sum_list (map (provisional_uses j) cs)"
    if old: "gr_relations g j = Some old" for j old
  proof (cases "btree_get prov j")
    case None
    then have "j \<notin> rr_id ` set rs" using assms(2) unfolding btree_get_def map_of_eq_None_iff by (metis set_map)
    then have "map_of (map (\<lambda>r. (rr_id r, r)) rs) j = None" by (simp add: map_of_eq_None_iff image_image)
    moreover have "sum_list (map (provisional_uses j) cs) = 0" using n [of j] None by (metis option.simps(4))
    ultimately show ?thesis using old by (simp add: with_relations_get [OF dist] del: sum_list_eq_0_iff)
  next
    case (Some d)
    then have "(j, d) \<in> set prov" by (simp add: btree_get_def map_of_SomeD)
    then obtain k where k: "k < length prov" "prov ! k = (j, d)" by (metis in_set_conv_nth)
    then have r: "rs ! k = raised old d"
        "unat (rr_provisional_reference_count (rs ! k)) = unat (rr_provisional_reference_count old) + unat d"
      using raised old by fastforce+
    have "rr_id (rs ! k) = j" using assms(2) k len by (metis fst_conv nth_map)
    then have "map_of (map (\<lambda>r. (rr_id r, r)) rs) j = Some (rs ! k)"
      using dist k len by (intro map_of_is_SomeI) (auto simp: comp_def)
    then show ?thesis
      using r n [of j] Some by (simp add: with_relations_get [OF dist]) (simp add: raised_def relation_record_with_usage_def)
  qed
  have "gr_relations g (rr_id r) \<noteq> None" if mem: "r \<in> set rs" for r
  proof -
    obtain k where "k < length rs" "r = rs ! k" using mem by (auto simp: in_set_conv_nth)
    moreover from this have "rr_id r = fst (prov ! k)" using len nth_map [of k rs rr_id] nth_map [of k prov fst] by (simp add: assms(2))
    ultimately show ?thesis using raised len by auto
  qed
  with dist assms(3) new show ?thesis unfolding provisionals_raised_def by blast
qed

definition graph_with_candidates :: "candidate list \<Rightarrow> relation_record list \<Rightarrow> u64 \<Rightarrow> graph \<Rightarrow> graph" where
  "graph_with_candidates cs rs v g = (with_relations rs (with_candidates cs g))\<lparr>gr_next_candidate := v\<rparr>"

lemma insert_plan_Inr:
  assumes "rocks_sound api view" "catalog_holds view g cat" "\<And>e. e \<in> set entries \<Longrightarrow> entry_typed e"
    and "insert_candidate_plan api reserve entries (ct_db cat) = Inr (batch, result)"
    and "length entries \<le> U64_MAX"
  obtains cs rs v where "stored_graph (graph_with_candidates cs rs v g) (store_ops batch (store_of (view (ct_db cat))))"
    "graph_ok (graph_with_candidates cs rs v g)" "insertable g cs" "provisionals_raised g cs rs"
    "unat v = unat (gr_next_candidate g) + length entries"
    "map candidate_id_of cs = ci_candidate_ids result"
    "ci_candidate_ids result = insertion_ids (gr_next_candidate g) (length entries)"
    "\<forall>k < length entries. entry_stored (ci_candidate_ids result) (ci_candidate_ids result ! k) (entries ! k) (cs ! k)"
proof -
  note rd = catalog_holds_reading [OF assms(1,2)]
  have gok: "graph_ok g" "records_ok g" using assms(2) by (simp_all add: catalog_holds_def graph_ok_def)
  let ?n = "length entries" and ?kv = "store_of (view (ct_db cat))"
  from assms(4) obtain first v s cs batch1 batch2 where
    first: "read_metadata api (ct_db cat) META_NEXT_CANDIDATE_ID = Inr first" and
    v: "checked_add_u64 first (word_of_nat ?n) = Some v" and
    loop: "fold_result (insert_entry api (ct_db cat) entries (insertion_ids first ?n)) (enumerate 0 entries)
      \<lparr>in_counts = candidate_batch_counts_default, in_incoming = replicate ?n 0, in_provisional = [], in_candidates = []\<rparr> = Inr s" and
    cs: "assign_incoming (in_incoming s) (in_candidates s) = Inr cs" and
    b1: "put_candidates cs [] = Inr batch1" and
    b2: "fold_result (put_provisional api (ct_db cat)) (in_provisional s) batch1 = Inr batch2" and
    batch: "batch = batch2 @ [Put DEFAULT (ascii META_NEXT_CANDIDATE_ID) (encode_u64_record v)]" and
    result: "ci_candidate_ids result = insertion_ids first ?n"
    by (auto simp: insert_candidate_plan_def rbind_Inr_iff Let_def)
  have first': "first = gr_next_candidate g" by (rule read_metadata_Inr(1) [OF rd first])
  have v': "unat v = unat first + ?n"
    using v assms(5) by (simp add: checked_add_u64_Some unat_of_nat U64_MAX_def)
  note ids = insertion_ids_facts [OF v']
  have inv: "insertion_inv g entries (insertion_ids first ?n) ?n s"
    by (rule insert_entries_Inr [OF rd ids(2,1) loop])
  have enc: "\<And>c. c \<in> set cs \<Longrightarrow> encode_candidate c = Inr (candidate_bytes c)"
    and batch1: "batch1 = concat (map candidate_group cs)" using put_candidates_Inr [OF b1] by auto
  have fresh: "gr_candidates g (insertion_ids first ?n ! l) = None" if "l < length (insertion_ids first ?n)" for l
  proof (rule ccontr)
    assume "gr_candidates g (insertion_ids first ?n ! l) \<noteq> None"
    then have "candidate_id_as_u64 (insertion_ids first ?n ! l) < first"
      using gok(1) by (auto simp: graph_ok_def counters_ok_def first')
    then show False using ids(3) [of l] that ids(2) by (simp add: word_less_nat_alt)
  qed
  note ins = insertion_insertable [OF inv cs ids(2,1) assms(3) enc fresh]
  obtain rs where rs: "map rr_id rs = map fst (in_provisional s)"
      "batch2 = batch1 @ concat (map (\<lambda>r. relation_ops (gr_relations g (rr_id r)) r) rs)"
      "\<forall>r \<in> set rs. may_become g r"
      "\<forall>k < length (in_provisional s). \<exists>old. gr_relations g (fst (in_provisional s ! k)) = Some old \<and>
        rs ! k = raised old (snd (in_provisional s ! k)) \<and>
        unat (rr_provisional_reference_count (rs ! k)) =
          unat (rr_provisional_reference_count old) + unat (snd (in_provisional s ! k))"
    using put_provisionals_Inr [OF rd b2] by blast
  have prov: "btree_ok (in_provisional s)"
    "\<And>j. (case btree_get (in_provisional s) j of None \<Rightarrow> 0 | Some n \<Rightarrow> unat n) = sum_list (map (provisional_uses j) cs)"
    using inv ins(4) by (simp_all add: insertion_inv_def)
  have raised: "provisionals_raised g cs rs" by (rule provisionals_raised_of [OF prov(1) rs(1,3,4) prov(2)])
  have s1: "stored_graph (with_candidates cs g) (store_ops batch1 ?kv)"
    unfolding batch1 using ins(1)
    by (intro candidates_step catalog_holds_stored [OF assms(2)]) (auto simp: insertable_def)
  have may: "may_become (with_candidates cs g) r" if "r \<in> set rs" for r
  proof -
    have "may_become g r" using rs(3) that by blast
    then show ?thesis by (cases "gr_relations g (rr_id r)") (simp_all add: may_become_def)
  qed
  have "stored_graph (with_relations rs (with_candidates cs g)) (store_ops (concat (map
      (\<lambda>r. relation_ops (gr_relations (with_candidates cs g) (rr_id r)) r) rs)) (store_ops batch1 ?kv))"
    using raised may by (intro relations_step [OF s1]) (auto simp: provisionals_raised_def)
  from metadata_steps(1) [OF this, of v]
  have stored: "stored_graph (graph_with_candidates cs rs v g) (store_ops batch ?kv)"
    by (simp add: graph_with_candidates_def batch rs(2))
  have lt: "\<forall>c \<in> set cs. candidate_id_as_u64 (candidate_id_of c) < v"
  proof
    fix c assume "c \<in> set cs"
    then obtain k where k: "k < ?n" "candidate_id_of c = insertion_ids first ?n ! k"
      using ins(2) ids(2) by (metis in_set_conv_nth length_map nth_map)
    then show "candidate_id_as_u64 (candidate_id_of c) < v" using ids(3) [of k] v' by (simp add: word_less_nat_alt)
  qed
  have "graph_ok (graph_with_candidates cs rs v g)"
    unfolding graph_with_candidates_def
    using stored v' by (intro insertion_graph_ok [OF gok(1) ins(1) raised lt])
      (simp_all add: first' word_le_nat_alt stored_graph_def graph_with_candidates_def)
  moreover have "\<forall>k < ?n. entry_stored (ci_candidate_ids result) (ci_candidate_ids result ! k) (entries ! k) (cs ! k)"
    using ins(3) by (simp add: result)
  ultimately show thesis using that [OF stored _ ins(1) raised] v' ins(2) result first' by metis
qed

lemma check_batch_limits_Inr: "check_batch_limits entries = Inr u \<Longrightarrow> entries \<noteq> [] \<and> length entries \<le> U64_MAX"
  by (auto simp: check_batch_limits_def fail_def MAXIMUM_CANDIDATE_BATCH_ENTRIES_def U64_MAX_def split: if_splits)

lemma insert_candidate_batch_holds:
  assumes "rocks_sound api view" "catalog_holds view g cat" "\<And>e. e \<in> set entries \<Longrightarrow> entry_typed e"
    and "insert_candidate_batch api reserve entries cat = (Inr result, cat')"
  obtains cs rs v where "catalog_holds view (graph_with_candidates cs rs v g) cat'" "insertable g cs"
    "provisionals_raised g cs rs" "map candidate_id_of cs = ci_candidate_ids result"
    "ci_candidate_ids result = insertion_ids (gr_next_candidate g) (length entries)"
    "unat v = unat (gr_next_candidate g) + length entries"
    "\<forall>k < length entries. entry_stored (ci_candidate_ids result) (ci_candidate_ids result ! k) (entries ! k) (cs ! k)"
proof -
  from assms(4) obtain batch u where limits: "check_batch_limits entries = Inr u" and
    plan: "insert_candidate_plan api reserve entries (ct_db cat) = Inr (batch, result)" and
    commit: "commit_batch api batch cat = (Inr (), cat')"
    by (auto simp: insert_candidate_batch_def rbind_Inr_iff split: sum.splits prod.splits)
  have len: "length entries \<le> U64_MAX" using check_batch_limits_Inr [OF limits] by simp
  from insert_plan_Inr [OF assms(1-3) plan len] obtain cs rs v where
    p: "stored_graph (graph_with_candidates cs rs v g) (store_ops batch (store_of (view (ct_db cat))))"
      "graph_ok (graph_with_candidates cs rs v g)" "insertable g cs" "provisionals_raised g cs rs"
      "unat v = unat (gr_next_candidate g) + length entries" "map candidate_id_of cs = ci_candidate_ids result"
      "ci_candidate_ids result = insertion_ids (gr_next_candidate g) (length entries)"
      "\<forall>k < length entries. entry_stored (ci_candidate_ids result) (ci_candidate_ids result ! k) (entries ! k) (cs ! k)" by metis
  have "catalog_holds view (graph_with_candidates cs rs v g) cat'"
  proof (rule committed_holds [OF assms(1,2) commit p(1,2)])
    have kept: "\<exists>s. gr_relations (graph_with_candidates cs rs v g) j = Some s \<and> rr_name s = rr_name r"
      if "gr_relations g j = Some r" for j r
    proof -
      have d: "distinct (map rr_id rs)" using p(4) by (simp add: provisionals_raised_def)
      show ?thesis
      proof (cases "map_of (map (\<lambda>r. (rr_id r, r)) rs) j")
        case None
        then show ?thesis using that by (simp add: graph_with_candidates_def with_relations_get [OF d])
      next
        case (Some r')
        then have r': "r' \<in> set rs" "rr_id r' = j" by (auto dest: map_of_SomeD)
        then have "may_become g r'" using p(4) by (simp add: provisionals_raised_def)
        then show ?thesis using Some that r'(2)
          by (simp add: graph_with_candidates_def with_relations_get [OF d] may_become_def)
      qed
    qed
    have known: "gr_relations g j \<noteq> None" if "gr_relations (graph_with_candidates cs rs v g) j \<noteq> None" for j
      using that p(4)
      by (auto simp: graph_with_candidates_def provisionals_raised_def with_relations_get dest!: map_of_SomeD
          split: option.splits)
    have "names_relation (graph_with_candidates cs rs v g) name j \<longleftrightarrow> names_relation g name j" for name j
      unfolding names_relation_def using kept [of j] known [of j] by (metis not_None_eq option.inject)
    moreover have "names_node (graph_with_candidates cs rs v g) name j \<longleftrightarrow> names_node g name j" for name j
      by (simp add: names_node_def graph_with_candidates_def)
    ultimately show "indexes_ok (graph_with_candidates cs rs v g) (ct_node_names cat') (ct_relation_names cat')"
      using assms(2) commit_batch_Inr [OF assms(1) commit] by (simp add: catalog_holds_def indexes_ok_def)
  qed simp_all
  with that p show thesis by metis
qed

end
