(* ===== verification/Catalog_Selection.thy ===== *)
theory Catalog_Selection
  imports Catalog_Insertion
begin

text \<open>
  The first phases of a confirmation. What is selected are candidates of the graph, each once;
  the references counted among them are those of the selected edges; and the closure check
  leaves no unselected candidate that refers to a selected one.
\<close>

section \<open>Selecting candidates\<close>

definition selection :: "graph \<Rightarrow> candidate_id list \<Rightarrow> candidate list \<Rightarrow> bool" where
  "selection g cids cands \<longleftrightarrow> distinct cids \<and> map candidate_id_of cands = cids \<and>
     (\<forall>c \<in> set cands. gr_candidates g (candidate_id_of c) = Some c)"

definition selected_index :: "candidate_id list \<Rightarrow> (candidate_id \<rightharpoonup> nat) \<Rightarrow> bool" where
  "selected_index cids selected \<longleftrightarrow>
     (\<forall>cid k. selected cid = Some k \<longleftrightarrow> k < length cids \<and> cids ! k = cid)"

lemma select_candidates_Inr:
  assumes "reading api view g db"
    and "fold_result (select_candidate api db) (enumerate 0 cids) (Map.empty, []) = Inr (selected, cands)"
  shows "selection g cids cands \<and> selected_index cids selected"
proof -
  let ?P = "\<lambda>seen (selected, cands). selection g (map snd seen) cands \<and> selected_index (map snd seen) selected"
  have "ensures (\<lambda>_. True) (?P (enumerate 0 cids)) (fold_result (select_candidate api db) (enumerate 0 cids) (Map.empty, []))"
  proof (rule ensures_fold_result [where P = ?P])
    fix seen x rest st assume *: "enumerate 0 cids = seen @ x # rest" "?P seen st"
    obtain sel cs where st: "st = (sel, cs)" by (cases st)
    have x: "x = (length seen, snd x)" using enumerate_split [OF *(1)] by simp
    have inv: "selection g (map snd seen) cs" "selected_index (map snd seen) sel" using *(2) st by auto
    show "ensures (\<lambda>_. True) (?P (seen @ [x])) (select_candidate api db x st)"
    proof (cases "select_candidate api db x st")
      case (Inr st')
      then obtain c where c: "sel (snd x) = None" "get_candidate_from_db api db (snd x) = Inr c"
          "st' = (sel(snd x \<mapsto> length seen), cs @ [c])"
        by (subst (asm) x) (auto simp: select_candidate_def st rbind_Inr_iff fail_def split: if_splits)
      have gc: "gr_candidates g (snd x) = Some c" by (rule reading_get(2) [OF assms(1) c(2)])
      then have id: "candidate_id_of c = snd x" using assms(1) records_okD(4) by (auto simp: reading_def)
      have new: "snd x \<notin> set (map snd seen)"
        using c(1) inv(2) unfolding selected_index_def in_set_conv_nth by (metis option.distinct(1))
      have "selection g (map snd (seen @ [x])) (cs @ [c])" using inv(1) gc id new by (auto simp: selection_def)
      moreover have "selected_index (map snd (seen @ [x])) (sel(snd x \<mapsto> length seen))"
        using inv(2) new by (auto simp: selected_index_def nth_append less_Suc_eq image_iff) (metis nth_mem)
      ultimately show ?thesis unfolding Inr by (simp add: c(3))
    qed simp
  qed (simp add: selection_def selected_index_def)
  from ensures_InrD [OF this assms(2)] show ?thesis by simp
qed

section \<open>Counting references\<close>

definition counted_refs :: "(candidate_id \<rightharpoonup> u64) \<Rightarrow> candidate_id \<Rightarrow> nat" where
  "counted_refs incoming i = (case incoming i of None \<Rightarrow> 0 | Some n \<Rightarrow> unat n)"

lemma checked_increment_Inr:
  "checked_increment_candidate_reference inc i = Inr inc' \<Longrightarrow>
     counted_refs inc' j = counted_refs inc j + of_bool (j = i)"
  by (auto simp: checked_increment_candidate_reference_def Let_def rbind_Inr_iff u64_incr counted_refs_def
      split: option.splits if_splits)

fun selected_node :: "candidate list \<Rightarrow> candidate_node_reference \<Rightarrow> bool" where
  "selected_node cands (NodeConfirmed _) \<longleftrightarrow> True"
| "selected_node cands (NodeCandidate i) \<longleftrightarrow> (\<exists>c \<in> set cands. candidate_id_of c = i \<and> is_candidate_node c)"

fun selected_relation :: "candidate list \<Rightarrow> candidate_relation_reference \<Rightarrow> bool" where
  "selected_relation cands (RelationConfirmed _) \<longleftrightarrow> True"
| "selected_relation cands (RelationCandidate i) \<longleftrightarrow> (\<exists>c \<in> set cands. candidate_id_of c = i \<and> is_candidate_relation c)"

fun selected_dependencies :: "candidate list \<Rightarrow> candidate \<Rightarrow> bool" where
  "selected_dependencies cands (CandidateEdge _ s d r _) \<longleftrightarrow>
     selected_node cands s \<and> selected_node cands d \<and> selected_relation cands r"
| "selected_dependencies cands _ \<longleftrightarrow> True"

lemma validate_selected_node_Inr:
  assumes "validate_selected_node_dependency api db cands selected owner ref inc = Inr inc'"
    and "selected_index cids selected" "map candidate_id_of cands = cids"
  shows "selected_node cands ref \<and>
    (\<forall>i. counted_refs inc' i = counted_refs inc i + of_bool (ref = NodeCandidate i))"
proof (cases ref)
  case (NodeConfirmed n)
  with assms(1) show ?thesis by (auto simp: rbind_Inr_iff)
next
  case (NodeCandidate d)
  with assms(1) obtain k where k: "selected d = Some k" "k < length cands" "is_candidate_node (cands ! k)"
      "checked_increment_candidate_reference inc d = Inr inc'"
    by (auto simp: fail_def rbind_Inr_iff index_Inr_iff split: option.splits if_splits)
  have "candidate_id_of (cands ! k) = d" using k(1,2) assms(2,3) by (auto simp: selected_index_def)
  with k checked_increment_Inr [OF k(4)] NodeCandidate show ?thesis by auto
qed

lemma validate_selected_relation_Inr:
  assumes "validate_selected_relation_dependency api db cands selected owner ref inc = Inr inc'"
    and "selected_index cids selected" "map candidate_id_of cands = cids"
  shows "selected_relation cands ref \<and>
    (\<forall>i. counted_refs inc' i = counted_refs inc i + of_bool (ref = RelationCandidate i))"
proof (cases ref)
  case (RelationConfirmed n)
  with assms(1) show ?thesis by (auto simp: rbind_Inr_iff)
next
  case (RelationCandidate d)
  with assms(1) obtain k where k: "selected d = Some k" "k < length cands" "is_candidate_relation (cands ! k)"
      "checked_increment_candidate_reference inc d = Inr inc'"
    by (auto simp: fail_def rbind_Inr_iff index_Inr_iff split: option.splits if_splits)
  have "candidate_id_of (cands ! k) = d" using k(1,2) assms(2,3) by (auto simp: selected_index_def)
  with k checked_increment_Inr [OF k(4)] RelationCandidate show ?thesis by auto
qed

definition counts_of :: "candidate list \<Rightarrow> candidate_batch_counts" where
  "counts_of cs = \<lparr>cc_nodes = length (filter is_candidate_node cs),
     cc_relation_kinds = length (filter is_candidate_relation cs),
     cc_edges = length (filter (\<lambda>c. \<not> is_candidate_node c \<and> \<not> is_candidate_relation c) cs)\<rparr>"

lemma count_dependency_Inr:
  assumes "count_dependency api db cands selected c (counts, inc) = Inr (counts', inc')"
    and "selected_index cids selected" "map candidate_id_of cands = cids"
  shows "selected_dependencies cands c \<and> (\<forall>i. counted_refs inc' i = counted_refs inc i + candidate_refs i c) \<and>
    (counts = counts_of cs \<longrightarrow> counts' = counts_of (cs @ [c]))"
proof (cases c)
  case (CandidateEdge cid s d r w)
  with assms(1) obtain inc1 inc2 where
    s: "validate_selected_node_dependency api db cands selected cid s inc = Inr inc1" and
    d: "validate_selected_node_dependency api db cands selected cid d inc1 = Inr inc2" and
    r: "validate_selected_relation_dependency api db cands selected cid r inc2 = Inr inc'" and
    c: "counts' = counts\<lparr>cc_edges := cc_edges counts + 1\<rparr>"
    by (auto simp: rbind_Inr_iff)
  from validate_selected_node_Inr [OF s assms(2,3)] validate_selected_node_Inr [OF d assms(2,3)]
    validate_selected_relation_Inr [OF r assms(2,3)] c CandidateEdge
  show ?thesis by (auto simp: counts_of_def)
qed (use assms(1) in \<open>auto simp: counts_of_def\<close>)

lemma count_dependencies_Inr:
  assumes "fold_result (count_dependency api db cands selected) cands (candidate_batch_counts_default, Map.empty)
      = Inr (counts, incoming)"
    and "selected_index cids selected" "map candidate_id_of cands = cids"
  shows "(\<forall>c \<in> set cands. selected_dependencies cands c) \<and>
    (\<forall>i. counted_refs incoming i = sum_list (map (candidate_refs i) cands)) \<and> counts = counts_of cands"
proof -
  let ?P = "\<lambda>seen (counts, inc). (\<forall>c \<in> set seen. selected_dependencies cands c) \<and>
    (\<forall>i. counted_refs inc i = sum_list (map (candidate_refs i) seen)) \<and> counts = counts_of seen"
  have "ensures (\<lambda>_. True) (?P cands)
      (fold_result (count_dependency api db cands selected) cands (candidate_batch_counts_default, Map.empty))"
  proof (rule ensures_fold_result [where P = ?P])
    fix seen c rest st assume "?P seen st"
    moreover obtain n inc where st: "st = (n, inc)" by (cases st)
    ultimately have inv: "\<forall>c \<in> set seen. selected_dependencies cands c"
        "\<forall>i. counted_refs inc i = sum_list (map (candidate_refs i) seen)" "n = counts_of seen" by auto
    show "ensures (\<lambda>_. True) (?P (seen @ [c])) (count_dependency api db cands selected c st)"
    proof (cases "count_dependency api db cands selected c st")
      case (Inr st')
      obtain n' inc' where st': "st' = (n', inc')" by (cases st')
      have "count_dependency api db cands selected c (n, inc) = Inr (n', inc')" using Inr st st' by simp
      from count_dependency_Inr [OF this assms(2,3), of seen] inv
      show ?thesis unfolding Inr by (auto simp: st st')
    qed simp
  qed (simp add: candidate_batch_counts_default_def counts_of_def counted_refs_def)
  from ensures_InrD [OF this assms(1)] show ?thesis by simp
qed

lemma check_closure_Inr:
  "check_closure incoming cands = Inr u \<longleftrightarrow>
     (\<forall>c \<in> set cands. \<forall>i n. durable_incoming c = Some (i, n) \<longrightarrow> unat n = counted_refs incoming i)"
proof -
  have "(case durable_incoming c of None \<Rightarrow> Inr ()
        | Some (i, n) \<Rightarrow> let k = (case incoming i of None \<Rightarrow> 0 | Some n \<Rightarrow> n) in
            if n \<noteq> k then fail (F i n k) else Inr ()) = Inr () \<longleftrightarrow>
      (\<forall>i n. durable_incoming c = Some (i, n) \<longrightarrow> unat n = counted_refs incoming i)" for c F
    by (cases "durable_incoming c")
      (auto simp: fail_def counted_refs_def word_unat_eq_iff Let_def split: option.splits if_splits)
  then show ?thesis unfolding check_closure_def fold_result_check by simp
qed

section \<open>Closure\<close>

definition closed_selection :: "graph \<Rightarrow> candidate_id list \<Rightarrow> candidate list \<Rightarrow> bool" where
  "closed_selection g cids cands \<longleftrightarrow> selection g cids cands \<and> (\<forall>c \<in> set cands. selected_dependencies cands c) \<and>
     (\<forall>c \<in> set cands. \<forall>i n. durable_incoming c = Some (i, n) \<longrightarrow>
        msum (candidate_refs i) (gr_candidates g) = sum_list (map (candidate_refs i) cands))"

lemma confirm_selection_Inr:
  assumes "reading api view g db" "counts_ok g"
    and "confirm_selection api reserve cids db = Inr (cands, counts)"
  shows "closed_selection g cids cands \<and> counts = counts_of cands"
proof -
  from assms(3) obtain selected incoming u where
    sel: "fold_result (select_candidate api db) (enumerate 0 cids) (Map.empty, []) = Inr (selected, cands)" and
    dep: "fold_result (count_dependency api db cands selected) cands (candidate_batch_counts_default, Map.empty)
      = Inr (counts, incoming)" and
    clo: "check_closure incoming cands = Inr u"
    by (auto simp: confirm_selection_def rbind_Inr_iff)
  note S = select_candidates_Inr [OF assms(1) sel]
  then have ids: "selected_index cids selected" "map candidate_id_of cands = cids" by (auto simp: selection_def)
  note D = count_dependencies_Inr [OF dep ids]
  have "msum (candidate_refs i) (gr_candidates g) = sum_list (map (candidate_refs i) cands)"
    if "c \<in> set cands" "durable_incoming c = Some (i, n)" for c i n
  proof -
    have g: "gr_candidates g (candidate_id_of c) = Some c" using S that(1) by (auto simp: selection_def)
    have "candidate_id_of c = i" using that(2) by (cases c) auto
    then have "unat n = msum (candidate_refs i) (gr_candidates g)"
      using assms(2) g that(2) by (simp add: counts_ok_def)
    moreover have "unat n = sum_list (map (candidate_refs i) cands)"
      using clo D that by (auto simp: check_closure_Inr)
    ultimately show ?thesis by simp
  qed
  with S D show ?thesis unfolding closed_selection_def by blast
qed

text \<open>The candidates that stay behind.\<close>

definition without_candidates :: "candidate list \<Rightarrow> graph \<Rightarrow> graph" where
  "without_candidates cs g = g\<lparr>gr_candidates := gr_candidates g |` (- (candidate_id_of ` set cs))\<rparr>"

lemma remaining_msum:
  assumes "selection g cids cands" "finite (dom (gr_candidates g))"
  shows "msum f (gr_candidates (without_candidates cands g)) + sum_list (map f cands) = msum f (gr_candidates g)"
  using assms msum_restrict [of "gr_candidates g" candidate_id_of cands f]
  by (auto simp: selection_def without_candidates_def)

lemma remaining_refs:
  assumes "graph_ok g" "closed_selection g cids cands"
    and "gr_candidates (without_candidates cands g) j = Some c" "candidate_refs i c > 0"
  shows "i \<notin> set cids"
proof
  assume "i \<in> set cids"
  have sel: "selection g cids cands" using assms(2) by (simp add: closed_selection_def)
  then obtain s where s: "s \<in> set cands" "candidate_id_of s = i" "gr_candidates g i = Some s"
    using \<open>i \<in> set cids\<close> by (auto simp: selection_def)
  have fin: "finite (dom (gr_candidates g))" using assms(1) by (simp add: graph_ok_def finite_graph_def)
  have gc: "gr_candidates g j = Some c" using assms(3) by (auto simp: without_candidates_def restrict_map_def split: if_splits)
  then have "dependencies_ok g c" using assms(1) by (simp add: graph_ok_def references_ok_def)
  then have "is_candidate_node s \<or> is_candidate_relation s"
    using assms(4) s(3) by (cases c) (auto split: if_splits)
  then obtain n where "durable_incoming s = Some (i, n)" using s(2) by (cases s) auto
  then have "msum (candidate_refs i) (gr_candidates g) = sum_list (map (candidate_refs i) cands)"
    using assms(2) s(1) by (auto simp: closed_selection_def)
  then have zero: "msum (candidate_refs i) (gr_candidates (without_candidates cands g)) = 0"
    using remaining_msum [OF sel fin, of "candidate_refs i"] by simp
  have "finite (dom (gr_candidates (without_candidates cands g)))" using fin by (simp add: without_candidates_def)
  from zero [unfolded msum_eq_0_iff [OF this]] assms(3,4) show False by auto
qed

lemma selected_refs:
  assumes "closed_selection g cids cands" "c \<in> set cands" "candidate_refs i c > 0"
  shows "i \<in> set cids"
proof -
  have "selected_dependencies cands c" "map candidate_id_of cands = cids"
    using assms(1,2) by (auto simp: closed_selection_def selection_def)
  then show ?thesis using assms(3) by (cases c) (auto split: if_splits)
qed
end
