(* ===== verification/Catalog_Resolution.thy ===== *)
theory Catalog_Resolution
  imports Catalog_Selection
begin

text \<open>
  The second phase of a confirmation: every selected node and relation-kind candidate is resolved
  by its exact name, to a confirmed record, to one planned earlier in the batch, or to a new
  record with the next identifier.
\<close>

section \<open>Nodes\<close>

definition node_plan :: "graph \<Rightarrow> u64 \<Rightarrow> confirm_state \<Rightarrow> bool" where
  "node_plan g first s \<longleftrightarrow>
     unat (cs_following_node s) = unat first + length (cs_created_nodes s) \<and>
     (\<forall>m < length (cs_created_nodes s). unat (node_id_as_u64 (nr_id (cs_created_nodes s ! m))) = unat first + m) \<and>
     (\<forall>name r. cs_planned_node_names s name = Some r \<longleftrightarrow>
        r \<in> set (cs_created_nodes s) \<and> node_name_as_str (nr_name r) = name) \<and>
     distinct (map nr_name (cs_created_nodes s)) \<and>
     (\<forall>r \<in> set (cs_created_nodes s). node_ok r \<and> (\<forall>i n. gr_nodes g i = Some n \<longrightarrow> nr_name n \<noteq> nr_name r)) \<and>
     (\<forall>cid r. cs_resolved_nodes s cid = Some r \<longrightarrow> gr_nodes g (nr_id r) = Some r \<or> r \<in> set (cs_created_nodes s))"

text \<open>Resolving a node leaves what is planned for relation kinds alone, and conversely.\<close>

definition same_relations :: "confirm_state \<Rightarrow> confirm_state \<Rightarrow> bool" where
  "same_relations s s' \<longleftrightarrow> cs_following_relation s' = cs_following_relation s \<and>
     cs_planned_relation_names s' = cs_planned_relation_names s \<and> cs_created_relations s' = cs_created_relations s \<and>
     cs_resolved_relations s' = cs_resolved_relations s \<and> cs_resolved_nodes s' = cs_resolved_nodes s \<and>
     cs_aligned s' = cs_aligned s"

definition same_nodes :: "confirm_state \<Rightarrow> confirm_state \<Rightarrow> bool" where
  "same_nodes s s' \<longleftrightarrow> cs_following_node s' = cs_following_node s \<and>
     cs_planned_node_names s' = cs_planned_node_names s \<and> cs_created_nodes s' = cs_created_nodes s \<and>
     cs_resolved_nodes s' = cs_resolved_nodes s \<and> cs_resolved_relations s' = cs_resolved_relations s \<and>
     cs_aligned s' = cs_aligned s"

lemma resolve_node_name_Inr:
  assumes "reading api view g db" "\<And>name i. node_index name = Some i \<longleftrightarrow> names_node g name i"
    and "node_plan g first s" "utf8_valid (node_name_as_str name)" "length (node_name_as_str name) \<le> U32_MAX"
    and "length (payload_as_bytes payload) \<le> MAX_NODE_PAYLOAD_BYTES"
    and "resolve_node_name api db node_index name payload s = Inr (r, s')"
  shows "node_plan g first s'" "nr_name r = name" "gr_nodes g (nr_id r) = Some r \<or> r \<in> set (cs_created_nodes s')"
    "set (cs_created_nodes s) \<subseteq> set (cs_created_nodes s')"
    "same_relations s s'"
proof -
  note inv = assms(3) [unfolded node_plan_def]
  have "node_plan g first s' \<and> nr_name r = name \<and> (gr_nodes g (nr_id r) = Some r \<or> r \<in> set (cs_created_nodes s')) \<and>
    set (cs_created_nodes s) \<subseteq> set (cs_created_nodes s') \<and>
    same_relations s s'"
  proof (cases "node_index (node_name_as_str name)")
    case (Some i)
    with assms(7) have r: "get_node_from_db api db i = Inr r" "s' = s" by (auto simp: resolve_node_name_def rbind_Inr_iff)
    have gr: "gr_nodes g i = Some r" by (rule reading_get(1) [OF assms(1) r(1)])
    moreover have "nr_id r = i" using gr assms(1) records_okD(1) by (auto simp: reading_def)
    moreover have "nr_name r = name" using assms(2) Some gr by (auto simp: names_node_def intro: node_name.expand)
    ultimately show ?thesis using assms(3) r(2) by (auto simp: same_relations_def same_nodes_def)
  next
    case None
    note fresh = None
    have absent: "nr_name n \<noteq> name" if "gr_nodes g i = Some n" for i n
      using assms(2) [of "node_name_as_str name" i] None that by (auto simp: names_node_def)
    show ?thesis
    proof (cases "cs_planned_node_names s (node_name_as_str name)")
      case (Some r')
      with None assms(7) have "r = r'" "s' = s" by (auto simp: resolve_node_name_def)
      moreover have "r' \<in> set (cs_created_nodes s)" "nr_name r' = name"
        using inv Some by (auto intro: node_name.expand)
      ultimately show ?thesis using assms(3) by (auto simp: same_relations_def same_nodes_def)
    next
      case None
      with fresh assms(7) obtain f where f: "checked_add_u64 (cs_following_node s) 1 = Some f"
        "r = \<lparr>nr_id = NodeId (cs_following_node s), nr_name = name, nr_payload = payload\<rparr>"
        "s' = s\<lparr>cs_following_node := f,
           cs_planned_node_names := (cs_planned_node_names s)(node_name_as_str name \<mapsto> r),
           cs_created_nodes := cs_created_nodes s @ [r]\<rparr>"
        by (auto simp: resolve_node_name_def Let_def rbind_Inr_iff)
      have new: "nr_name x \<noteq> name" if "x \<in> set (cs_created_nodes s)" for x
        using inv None that by (metis option.distinct(1))
      have ok: "node_ok r" "nr_name r = name" using assms(4-6) by (simp_all add: f(2) node_ok_def)
      have names: "node_name_as_str (nr_name x) = node_name_as_str name \<longleftrightarrow> nr_name x = name" for x :: node_record
        by (auto intro: node_name.expand)
      have "node_plan g first s'"
        unfolding node_plan_def
      proof (intro conjI)
        show "unat (cs_following_node s') = unat first + length (cs_created_nodes s')"
          using inv f(1) by (simp add: f(3) u64_incr)
        show "\<forall>m < length (cs_created_nodes s'). unat (node_id_as_u64 (nr_id (cs_created_nodes s' ! m))) = unat first + m"
          using inv by (simp add: f(3) nth_append less_Suc_eq) (simp add: f(2))
        show "\<forall>nm x. cs_planned_node_names s' nm = Some x \<longleftrightarrow>
            x \<in> set (cs_created_nodes s') \<and> node_name_as_str (nr_name x) = nm"
          using inv new ok(2) names by (auto simp: f(3))
        show "distinct (map nr_name (cs_created_nodes s'))" using inv new ok(2) by (simp add: f(3) image_iff) blast
        show "\<forall>x \<in> set (cs_created_nodes s'). node_ok x \<and> (\<forall>i n. gr_nodes g i = Some n \<longrightarrow> nr_name n \<noteq> nr_name x)"
          using inv ok absent by (auto simp: f(3))
        show "\<forall>cid x. cs_resolved_nodes s' cid = Some x \<longrightarrow> gr_nodes g (nr_id x) = Some x \<or> x \<in> set (cs_created_nodes s')"
          using inv by (auto simp: f(3))
      qed
      moreover have "same_relations s s'" by (simp add: f(3) same_relations_def)
      ultimately show ?thesis using ok(2) by (auto simp: f(3))
    qed
  qed
  then show "node_plan g first s'" "nr_name r = name" "gr_nodes g (nr_id r) = Some r \<or> r \<in> set (cs_created_nodes s')"
    "set (cs_created_nodes s) \<subseteq> set (cs_created_nodes s')"
    "same_relations s s'"
    by blast+
qed

section \<open>Relation kinds\<close>

definition relation_plan :: "graph \<Rightarrow> u64 \<Rightarrow> confirm_state \<Rightarrow> bool" where
  "relation_plan g first s \<longleftrightarrow>
     unat (cs_following_relation s) = unat first + length (cs_created_relations s) \<and>
     (\<forall>m < length (cs_created_relations s).
        unat (relation_id_as_u64 (rr_id (cs_created_relations s ! m))) = unat first + m) \<and>
     (\<forall>name r. cs_planned_relation_names s name = Some r \<longleftrightarrow>
        r \<in> set (cs_created_relations s) \<and> relation_name_as_str (rr_name r) = name) \<and>
     distinct (map rr_name (cs_created_relations s)) \<and>
     (\<forall>r \<in> set (cs_created_relations s). relation_ok r \<and> rr_provisional_reference_count r = 0 \<and>
        rr_confirmed_edge_count r = 0 \<and> (\<forall>i n. gr_relations g i = Some n \<longrightarrow> rr_name n \<noteq> rr_name r)) \<and>
     (\<forall>cid r. cs_resolved_relations s cid = Some r \<longrightarrow>
        gr_relations g (rr_id r) = Some r \<or> r \<in> set (cs_created_relations s))"

lemma resolve_relation_name_Inr:
  assumes "reading api view g db" "\<And>name i. relation_index name = Some i \<longleftrightarrow> names_relation g name i"
    and "relation_plan g first s" "utf8_valid (relation_name_as_str name)" "length (relation_name_as_str name) \<le> U32_MAX"
    and "resolve_relation_name api db relation_index name s = Inr (r, s')"
  shows "relation_plan g first s'" "rr_name r = name"
    "gr_relations g (rr_id r) = Some r \<or> r \<in> set (cs_created_relations s')"
    "set (cs_created_relations s) \<subseteq> set (cs_created_relations s')"
    "same_nodes s s'"
proof -
  note inv = assms(3) [unfolded relation_plan_def]
  have "relation_plan g first s' \<and> rr_name r = name \<and>
    (gr_relations g (rr_id r) = Some r \<or> r \<in> set (cs_created_relations s')) \<and>
    set (cs_created_relations s) \<subseteq> set (cs_created_relations s') \<and>
    same_nodes s s'"
  proof (cases "relation_index (relation_name_as_str name)")
    case (Some i)
    with assms(6) have r: "get_relation_from_db api db i = Inr r" "s' = s"
      by (auto simp: resolve_relation_name_def rbind_Inr_iff)
    have gr: "gr_relations g i = Some r" by (rule reading_get(3) [OF assms(1) r(1)])
    moreover have "rr_id r = i" using gr assms(1) records_okD(2) by (auto simp: reading_def)
    moreover have "rr_name r = name" using assms(2) Some gr by (auto simp: names_relation_def intro: relation_name.expand)
    ultimately show ?thesis using assms(3) r(2) by (auto simp: same_relations_def same_nodes_def)
  next
    case None
    note fresh = None
    have absent: "rr_name n \<noteq> name" if "gr_relations g i = Some n" for i n
      using assms(2) [of "relation_name_as_str name" i] None that by (auto simp: names_relation_def)
    show ?thesis
    proof (cases "cs_planned_relation_names s (relation_name_as_str name)")
      case (Some r')
      with None assms(6) have "r = r'" "s' = s" by (auto simp: resolve_relation_name_def)
      moreover have "r' \<in> set (cs_created_relations s)" "rr_name r' = name"
        using inv Some by (auto intro: relation_name.expand)
      ultimately show ?thesis using assms(3) by (auto simp: same_relations_def same_nodes_def)
    next
      case None
      with fresh assms(6) obtain f where f: "checked_add_u64 (cs_following_relation s) 1 = Some f"
        "r = relation_record_new (RelationId (cs_following_relation s)) name"
        "s' = s\<lparr>cs_following_relation := f,
           cs_planned_relation_names := (cs_planned_relation_names s)(relation_name_as_str name \<mapsto> r),
           cs_created_relations := cs_created_relations s @ [r]\<rparr>"
        by (auto simp: resolve_relation_name_def Let_def rbind_Inr_iff)
      have new: "rr_name x \<noteq> name" if "x \<in> set (cs_created_relations s)" for x
        using inv None that by (metis option.distinct(1))
      have ok: "relation_ok r" "rr_name r = name" "rr_provisional_reference_count r = 0" "rr_confirmed_edge_count r = 0"
        "rr_id r = RelationId (cs_following_relation s)"
        using assms(4,5) by (simp_all add: f(2) relation_ok_def relation_record_new_def relation_record_with_usage_def)
      have names: "relation_name_as_str (rr_name x) = relation_name_as_str name \<longleftrightarrow> rr_name x = name" for x :: relation_record
        by (auto intro: relation_name.expand)
      have "relation_plan g first s'"
        unfolding relation_plan_def
      proof (intro conjI)
        show "unat (cs_following_relation s') = unat first + length (cs_created_relations s')"
          using inv f(1) by (simp add: f(3) u64_incr)
        show "\<forall>m < length (cs_created_relations s').
            unat (relation_id_as_u64 (rr_id (cs_created_relations s' ! m))) = unat first + m"
          using inv by (simp add: f(3) nth_append less_Suc_eq ok(5))
        show "\<forall>nm x. cs_planned_relation_names s' nm = Some x \<longleftrightarrow>
            x \<in> set (cs_created_relations s') \<and> relation_name_as_str (rr_name x) = nm"
          using inv new ok(2) names by (auto simp: f(3))
        show "distinct (map rr_name (cs_created_relations s'))" using inv new ok(2) by (simp add: f(3) image_iff) blast
        show "\<forall>x \<in> set (cs_created_relations s'). relation_ok x \<and> rr_provisional_reference_count x = 0 \<and>
            rr_confirmed_edge_count x = 0 \<and> (\<forall>i n. gr_relations g i = Some n \<longrightarrow> rr_name n \<noteq> rr_name x)"
          using inv ok absent by (auto simp: f(3))
        show "\<forall>cid x. cs_resolved_relations s' cid = Some x \<longrightarrow>
            gr_relations g (rr_id x) = Some x \<or> x \<in> set (cs_created_relations s')"
          using inv by (auto simp: f(3))
      qed
      moreover have "same_nodes s s'" by (simp add: f(3) same_nodes_def)
      ultimately show ?thesis using ok(2) by (auto simp: f(3))
    qed
  qed
  then show "relation_plan g first s'" "rr_name r = name"
    "gr_relations g (rr_id r) = Some r \<or> r \<in> set (cs_created_relations s')"
    "set (cs_created_relations s) \<subseteq> set (cs_created_relations s')"
    "same_nodes s s'"
    by blast+
qed

section \<open>The loop over the selection\<close>

text \<open>What a slot of the response holds once the candidate at its position is resolved.\<close>

fun resolved_as :: "confirm_state \<Rightarrow> candidate \<Rightarrow> confirmed_record option \<Rightarrow> bool" where
  "resolved_as s (CandidateNode cid name _ _) slot \<longleftrightarrow>
     (\<exists>r. slot = Some (ConfirmedNode r) \<and> nr_name r = name \<and> cs_resolved_nodes s cid = Some r)"
| "resolved_as s (CandidateRelation cid name _) slot \<longleftrightarrow>
     (\<exists>r. slot = Some (ConfirmedRelation r) \<and> rr_name r = name \<and> cs_resolved_relations s cid = Some r)"
| "resolved_as s (CandidateEdge _ _ _ _ _) slot \<longleftrightarrow> slot = None"

definition resolution_inv :: "graph \<Rightarrow> candidate list \<Rightarrow> nat \<Rightarrow> confirm_state \<Rightarrow> bool" where
  "resolution_inv g cands k s \<longleftrightarrow>
     node_plan g (gr_next_node g) s \<and> relation_plan g (gr_next_relation g) s \<and> length (cs_aligned s) = length cands \<and>
     (\<forall>l < length cands. if l < k then resolved_as s (cands ! l) (cs_aligned s ! l) else cs_aligned s ! l = None)"

lemma resolved_as_same:
  "resolved_as s c slot \<Longrightarrow> cs_resolved_nodes s' (candidate_id_of c) = cs_resolved_nodes s (candidate_id_of c) \<Longrightarrow>
     cs_resolved_relations s' (candidate_id_of c) = cs_resolved_relations s (candidate_id_of c) \<Longrightarrow> resolved_as s' c slot"
  by (cases c) auto

lemma node_plan_resolve:
  assumes "node_plan g first s" "gr_nodes g (nr_id r) = Some r \<or> r \<in> set (cs_created_nodes s)"
  shows "node_plan g first (s\<lparr>cs_resolved_nodes := (cs_resolved_nodes s)(cid \<mapsto> r), cs_aligned := a\<rparr>)"
  using assms by (auto simp: node_plan_def)

lemma relation_plan_resolve:
  assumes "relation_plan g first s" "gr_relations g (rr_id r) = Some r \<or> r \<in> set (cs_created_relations s)"
  shows "relation_plan g first (s\<lparr>cs_resolved_relations := (cs_resolved_relations s)(cid \<mapsto> r), cs_aligned := a\<rparr>)"
  using assms by (auto simp: relation_plan_def)

lemma node_plan_same: "same_nodes s s' \<Longrightarrow> node_plan g first s \<Longrightarrow> node_plan g first s'"
  by (simp add: node_plan_def same_nodes_def)

lemma relation_plan_same: "same_relations s s' \<Longrightarrow> relation_plan g first s \<Longrightarrow> relation_plan g first s'"
  by (simp add: relation_plan_def same_relations_def)

lemma plan_other [simp]:
  "node_plan g first (s\<lparr>cs_resolved_relations := m, cs_aligned := a\<rparr>) = node_plan g first s"
  "relation_plan g first (s\<lparr>cs_resolved_nodes := m', cs_aligned := a\<rparr>) = relation_plan g first s"
  by (simp_all add: node_plan_def relation_plan_def)

lemma resolve_candidate_inv:
  assumes "reading api view g db" "indexes_ok g node_index relation_index" "distinct (map candidate_id_of cands)"
    and "k < length cands" "stored_candidate_ok (cands ! k)" "resolution_inv g cands k s"
    and "resolve_candidate api db node_index relation_index (k, cands ! k) s = Inr t"
  shows "resolution_inv g cands (Suc k) t"
proof -
  note inv = assms(6) [unfolded resolution_inv_def]
  have other: "candidate_id_of (cands ! l) \<noteq> candidate_id_of (cands ! k)" if "l < length cands" "l \<noteq> k" for l
    using assms(3,4) that by (auto simp: distinct_conv_nth)
  have before: "resolved_as s (cands ! l) (cs_aligned s ! l)" if "l < k" for l
    using inv assms(4) that by (simp add: less_trans)
  have after: "cs_aligned s ! l = None" if "l < length cands" "\<not> l < k" for l using inv that by simp
  have len: "length (cs_aligned s) = length cands" using inv by blast
  show ?thesis
  proof (cases "cands ! k")
    case (CandidateNode cid name payload n)
    with assms(7) obtain r s' where r: "resolve_node_name api db node_index name payload s = Inr (r, s')"
      "t = s'\<lparr>cs_resolved_nodes := (cs_resolved_nodes s')(cid \<mapsto> r),
        cs_aligned := (cs_aligned s')[k := Some (ConfirmedNode r)]\<rparr>"
      by (auto simp: rbind_Inr_iff)
    have ix: "\<And>name i. node_index name = Some i \<longleftrightarrow> names_node g name i" using assms(2) by (simp add: indexes_ok_def)
    have ok: "utf8_valid (node_name_as_str name)" "length (node_name_as_str name) \<le> U32_MAX"
      "length (payload_as_bytes payload) \<le> MAX_NODE_PAYLOAD_BYTES" using assms(5) CandidateNode by simp_all
    have np: "node_plan g (gr_next_node g) s" using inv by blast
    note R = resolve_node_name_Inr [OF assms(1) ix np ok r(1)]
    have "node_plan g (gr_next_node g) t" unfolding r(2) by (rule node_plan_resolve [OF R(1,3)])
    moreover have "relation_plan g (gr_next_relation g) t"
      using relation_plan_same [OF R(5)] inv unfolding r(2) plan_other by blast
    moreover have "resolved_as t (cands ! l) (cs_aligned t ! l)" if "l < k" for l
    proof (rule resolved_as_same)
      have "candidate_id_of (cands ! l) \<noteq> cid" using other [of l] that assms(4) CandidateNode by simp
      then show "cs_resolved_nodes t (candidate_id_of (cands ! l)) = cs_resolved_nodes s (candidate_id_of (cands ! l))"
        and "cs_resolved_relations t (candidate_id_of (cands ! l)) = cs_resolved_relations s (candidate_id_of (cands ! l))"
        using R(5) by (simp_all add: r(2) same_relations_def)
      show "resolved_as s (cands ! l) (cs_aligned t ! l)"
        using before [OF that] that R(5) by (simp add: r(2) same_relations_def)
    qed
    moreover have "resolved_as t (cands ! k) (cs_aligned t ! k)"
      using len assms(4) R(2,5) CandidateNode by (simp add: r(2) same_relations_def)
    moreover have "cs_aligned t ! l = None" if "l < length cands" "\<not> l < Suc k" for l
      using after [of l] that R(5) by (simp add: r(2) same_relations_def)
    moreover have "length (cs_aligned t) = length cands" using len R(5) by (simp add: r(2) same_relations_def)
    ultimately show ?thesis unfolding resolution_inv_def by (metis less_SucE)
  next
    case (CandidateRelation cid name n)
    with assms(7) obtain r s' where r: "resolve_relation_name api db relation_index name s = Inr (r, s')"
      "t = s'\<lparr>cs_resolved_relations := (cs_resolved_relations s')(cid \<mapsto> r),
        cs_aligned := (cs_aligned s')[k := Some (ConfirmedRelation r)]\<rparr>"
      by (auto simp: rbind_Inr_iff)
    have ix: "\<And>name i. relation_index name = Some i \<longleftrightarrow> names_relation g name i"
      using assms(2) by (simp add: indexes_ok_def)
    have ok: "utf8_valid (relation_name_as_str name)" "length (relation_name_as_str name) \<le> U32_MAX"
      using assms(5) CandidateRelation by simp_all
    have rp: "relation_plan g (gr_next_relation g) s" using inv by blast
    note R = resolve_relation_name_Inr [OF assms(1) ix rp ok r(1)]
    have "relation_plan g (gr_next_relation g) t" unfolding r(2) by (rule relation_plan_resolve [OF R(1,3)])
    moreover have "node_plan g (gr_next_node g) t"
      using node_plan_same [OF R(5)] inv unfolding r(2) plan_other by blast
    moreover have "resolved_as t (cands ! l) (cs_aligned t ! l)" if "l < k" for l
    proof (rule resolved_as_same)
      have "candidate_id_of (cands ! l) \<noteq> cid" using other [of l] that assms(4) CandidateRelation by simp
      then show "cs_resolved_nodes t (candidate_id_of (cands ! l)) = cs_resolved_nodes s (candidate_id_of (cands ! l))"
        and "cs_resolved_relations t (candidate_id_of (cands ! l)) = cs_resolved_relations s (candidate_id_of (cands ! l))"
        using R(5) by (simp_all add: r(2) same_nodes_def)
      show "resolved_as s (cands ! l) (cs_aligned t ! l)"
        using before [OF that] that R(5) by (simp add: r(2) same_nodes_def)
    qed
    moreover have "resolved_as t (cands ! k) (cs_aligned t ! k)"
      using len assms(4) R(2,5) CandidateRelation by (simp add: r(2) same_nodes_def)
    moreover have "cs_aligned t ! l = None" if "l < length cands" "\<not> l < Suc k" for l
      using after [of l] that R(5) by (simp add: r(2) same_nodes_def)
    moreover have "length (cs_aligned t) = length cands" using len R(5) by (simp add: r(2) same_nodes_def)
    ultimately show ?thesis unfolding resolution_inv_def by (metis less_SucE)
  next
    case (CandidateEdge cid src dst rel w)
    with assms(7) have "t = s" by simp
    with inv CandidateEdge show ?thesis by (auto simp: resolution_inv_def less_Suc_eq)
  qed
qed

definition initial_plan :: "graph \<Rightarrow> nat \<Rightarrow> confirm_state" where
  "initial_plan g n = \<lparr>cs_following_node = gr_next_node g, cs_following_relation = gr_next_relation g,
     cs_planned_node_names = Map.empty, cs_planned_relation_names = Map.empty,
     cs_resolved_nodes = Map.empty, cs_resolved_relations = Map.empty,
     cs_created_nodes = [], cs_created_relations = [], cs_aligned = replicate n None\<rparr>"

lemma resolve_candidates_Inr:
  assumes "reading api view g db" "indexes_ok g node_index relation_index" "selection g cids cands"
    and "fold_result (resolve_candidate api db node_index relation_index) (enumerate 0 cands)
      (initial_plan g (length cands)) = Inr t"
  shows "resolution_inv g cands (length cands) t"
proof -
  have dist: "distinct (map candidate_id_of cands)" using assms(3) by (auto simp: selection_def)
  have ok: "stored_candidate_ok c" if "c \<in> set cands" for c
    using assms(1,3) that records_okD(4) by (fastforce simp: reading_def selection_def)
  have "ensures (\<lambda>_. True) (resolution_inv g cands (length (enumerate 0 cands)))
      (fold_result (resolve_candidate api db node_index relation_index) (enumerate 0 cands)
        (initial_plan g (length cands)))"
  proof (rule ensures_fold_result [where P = "\<lambda>seen. resolution_inv g cands (length seen)"])
    fix seen x rest s assume *: "enumerate 0 cands = seen @ x # rest" "resolution_inv g cands (length seen) s"
    note x = enumerate_split [OF *(1)]
    show "ensures (\<lambda>_. True) (resolution_inv g cands (length (seen @ [x])))
        (resolve_candidate api db node_index relation_index x s)"
      using resolve_candidate_inv [OF assms(1,2) dist _ _ *(2)] x ok
      by (cases "resolve_candidate api db node_index relation_index x s") auto
  qed (simp add: resolution_inv_def initial_plan_def node_plan_def relation_plan_def)
  from ensures_InrD [OF this assms(4)] show ?thesis by simp
qed

end
