(* ===== verification/Catalog_Promotion.thy ===== *)
theory Catalog_Promotion
  imports Catalog_Resolution
begin

text \<open>
  The third phase of a confirmation: one edge is created per selected edge candidate, between
  resolved endpoints, and the usage of its relation kind moves from provisional to confirmed.
\<close>

section \<open>Usage of relation kinds\<close>

text \<open>The record a relation kind has before any edge of the batch uses it.\<close>

definition base_relation :: "graph \<Rightarrow> confirm_state \<Rightarrow> relation_id \<Rightarrow> relation_record option" where
  "base_relation g cs j = (case List.find (\<lambda>r. rr_id r = j) (cs_created_relations cs) of
     Some r \<Rightarrow> Some r
   | None \<Rightarrow> gr_relations g j)"

definition counted_usage ::
    "relation_record \<Rightarrow> relation_id \<Rightarrow> edge_record list \<Rightarrow> candidate list \<Rightarrow> relation_record \<Rightarrow> bool" where
  "counted_usage b j edges seen u \<longleftrightarrow> rr_id u = j \<and> rr_name u = rr_name b \<and> relation_ok u \<and>
     unat (rr_confirmed_edge_count u) = unat (rr_confirmed_edge_count b) + sum_list (map (uses_relation j) edges) \<and>
     unat (rr_provisional_reference_count u) + sum_list (map (provisional_uses j) seen)
       = unat (rr_provisional_reference_count b)"

definition usage_ok :: "(relation_id \<rightharpoonup> relation_record) \<Rightarrow> edge_record list \<Rightarrow> candidate list \<Rightarrow>
    (relation_id, relation_record) btree_map \<Rightarrow> bool" where
  "usage_ok base edges seen usage \<longleftrightarrow> btree_ok usage \<and>
     (\<forall>j u. btree_get usage j = Some u \<longrightarrow> (\<exists>b. base j = Some b \<and> counted_usage b j edges seen u)) \<and>
     (\<forall>j. btree_get usage j = None \<longrightarrow>
        sum_list (map (uses_relation j) edges) = 0 \<and> sum_list (map (provisional_uses j) seen) = 0)"

lemma usage_okD:
  "usage_ok base edges seen usage \<Longrightarrow> btree_ok usage"
  "usage_ok base edges seen usage \<Longrightarrow> btree_get usage j = Some u \<Longrightarrow>
     \<exists>b. base j = Some b \<and> counted_usage b j edges seen u"
  "usage_ok base edges seen usage \<Longrightarrow> btree_get usage j = None \<Longrightarrow>
     sum_list (map (uses_relation j) edges) = 0 \<and> sum_list (map (provisional_uses j) seen) = 0"
  unfolding usage_ok_def by blast+

lemma usage_okI:
  assumes "btree_ok usage" "\<And>j u. btree_get usage j = Some u \<Longrightarrow> \<exists>b. base j = Some b \<and> counted_usage b j edges seen u"
    and "\<And>j. btree_get usage j = None \<Longrightarrow>
      sum_list (map (uses_relation j) edges) = 0 \<and> sum_list (map (provisional_uses j) seen) = 0"
  shows "usage_ok base edges seen usage"
  using assms unfolding usage_ok_def by blast

definition base_ok :: "(relation_id \<rightharpoonup> relation_record) \<Rightarrow> bool" where
  "base_ok base \<longleftrightarrow> (\<forall>j b. base j = Some b \<longrightarrow> rr_id b = j \<and> relation_ok b)"

lemma base_relation_ok: "records_ok g \<Longrightarrow> relation_plan g first cs \<Longrightarrow> base_ok (base_relation g cs)"
  unfolding base_ok_def base_relation_def relation_plan_def
  by (auto simp: find_Some_iff split: option.splits dest: records_okD(2))

lemma current_relation_Inr:
  assumes "reading api view g db" "base_ok (base_relation g cs)"
    and "usage_ok (base_relation g cs) edges seen usage"
    and "current_relation api db (cs_created_relations cs) usage j = Inr old"
  obtains b where "base_relation g cs j = Some b" "counted_usage b j edges seen old"
proof (cases "btree_get usage j")
  case (Some u)
  with assms(4) have "btree_get usage j = Some old" by (simp add: current_relation_def)
  from usage_okD(2) [OF assms(3) this] that show thesis by blast
next
  case None
  with assms(4) have "base_relation g cs j = Some old"
    using reading_get(3) [OF assms(1)] by (auto simp: current_relation_def base_relation_def split: option.splits)
  moreover from this have "counted_usage old j edges seen old"
    using usage_okD(3) [OF assms(3) None] assms(2)
    by (simp add: counted_usage_def base_ok_def del: sum_list_eq_0_iff)
  ultimately show thesis by (rule that)
qed

lemma usage_ok_insert:
  assumes "usage_ok base edges seen usage" "base j = Some b" "counted_usage b j (edges @ [e]) (seen @ [c]) u"
    and "er_relation_kind e = j" "\<And>i. i \<noteq> j \<Longrightarrow> provisional_uses i c = 0"
  shows "usage_ok base (edges @ [e]) (seen @ [c]) (btree_insert j u usage)"
proof (rule usage_okI)
  have ok: "btree_ok usage" using assms(1) by (rule usage_okD)
  then show "btree_ok (btree_insert j u usage)" by (rule btree.insert_ok)
  note get = btree.lookup_insert [OF ok]
  have other: "uses_relation i e = 0" "provisional_uses i c = 0" if "i \<noteq> j" for i
    using assms(4,5) that by (simp_all add: uses_relation_def)
  fix i
  show "sum_list (map (uses_relation i) (edges @ [e])) = 0 \<and> sum_list (map (provisional_uses i) (seen @ [c])) = 0"
    if "btree_get (btree_insert j u usage) i = None"
    using usage_okD(3) [OF assms(1), of i] that other [of i] by (simp add: get split: if_splits)
  show "\<exists>b. base i = Some b \<and> counted_usage b i (edges @ [e]) (seen @ [c]) v"
    if "btree_get (btree_insert j u usage) i = Some v" for v
  proof (cases "i = j")
    case True
    then show ?thesis using assms(2,3) that by (simp add: get)
  next
    case False
    then show ?thesis
      using usage_okD(2) [OF assms(1), of i v] that other [OF False] by (simp add: get counted_usage_def)
  qed
qed

lemma usage_ok_skip:
  "usage_ok base edges seen usage \<Longrightarrow> (\<And>i. provisional_uses i c = 0) \<Longrightarrow> usage_ok base edges (seen @ [c]) usage"
  by (rule usage_okI) (auto simp: counted_usage_def dest: usage_okD)

section \<open>The loop over the selection\<close>

text \<open>The edge that a candidate becomes.\<close>

fun promoted_edge :: "confirm_state \<Rightarrow> candidate \<Rightarrow> edge_record \<Rightarrow> bool" where
  "promoted_edge cs (CandidateEdge _ source destination relation_kind weight) e \<longleftrightarrow>
     resolve_confirmed_node source (cs_resolved_nodes cs) = Inr (er_source e) \<and>
     resolve_confirmed_node destination (cs_resolved_nodes cs) = Inr (er_destination e) \<and>
     resolve_confirmed_relation relation_kind (cs_resolved_relations cs) = Inr (er_relation_kind e) \<and>
     er_base_weight e = weight"
| "promoted_edge cs _ e \<longleftrightarrow> False"

fun is_candidate_edge :: "candidate \<Rightarrow> bool" where
  "is_candidate_edge (CandidateEdge _ _ _ _ _) = True"
| "is_candidate_edge _ = False"

definition promotion_inv ::
    "graph \<Rightarrow> confirm_state \<Rightarrow> candidate list \<Rightarrow> nat \<Rightarrow> edge_state \<Rightarrow> bool" where
  "promotion_inv g cs cands k s \<longleftrightarrow>
     unat (es_following_edge s) = unat (gr_next_edge g) + length (es_created_edges s) \<and>
     (\<forall>m < length (es_created_edges s). unat (edge_id_as_u64 (er_id (es_created_edges s ! m))) = unat (gr_next_edge g) + m) \<and>
     (\<forall>e \<in> set (es_created_edges s). \<exists>c \<in> set (take k cands). promoted_edge cs c e \<and> base_relation g cs (er_relation_kind e) \<noteq> None) \<and>
     usage_ok (base_relation g cs) (es_created_edges s) (take k cands) (es_usage s) \<and>
     length (es_aligned s) = length cands \<and>
     (\<forall>l < length cands. if l < k \<and> is_candidate_edge (cands ! l)
        then \<exists>e \<in> set (es_created_edges s). es_aligned s ! l = Some (ConfirmedEdge e) \<and> promoted_edge cs (cands ! l) e
        else es_aligned s ! l = cs_aligned cs ! l) \<and>
     (\<forall>e \<in> set (es_created_edges s). Some (ConfirmedEdge e) \<in> set (take k (es_aligned s))) \<and>
     length (es_created_edges s) = length (filter is_candidate_edge (take k cands))"

lemma promoted_edge_ok: "promoted_edge cs c e \<Longrightarrow> stored_candidate_ok c \<Longrightarrow> edge_ok e"
  by (cases c) (auto simp: edge_ok_def)

lemma confirmed_provisional_Inr:
  "confirmed_provisional ref j old = Inr p \<Longrightarrow>
     unat p + of_bool (\<exists>i. ref = RelationConfirmed i) = unat (rr_provisional_reference_count old)"
  by (cases ref) (auto simp: checked_sub_u64_Some)

lemma counted_usage_next:
  assumes "counted_usage b j edges seen old" "confirmed_provisional ref j old = Inr p"
    and "resolve_confirmed_relation ref resolved = Inr j"
    and "checked_add_u64 (rr_confirmed_edge_count old) 1 = Some q" "checked_add_u64 p q = Some t"
    and "er_relation_kind e = j"
  shows "counted_usage b j (edges @ [e]) (seen @ [CandidateEdge cid s d ref w])
    (relation_record_with_usage j (rr_name old) p q)"
proof -
  have p: "unat p + of_bool (ref = RelationConfirmed j) = unat (rr_provisional_reference_count old)"
    using confirmed_provisional_Inr [OF assms(2)] assms(3) by (cases ref) auto
  have "unat t \<le> U64_MAX" by (rule unat_le_U64_MAX)
  then have "relation_ok (relation_record_with_usage j (rr_name old) p q)"
    using assms(1,5) by (auto simp: counted_usage_def relation_ok_def relation_record_with_usage_def checked_add_u64_Some)
  with p assms(1,4,6) show ?thesis
    by (simp add: counted_usage_def relation_record_with_usage_def u64_incr uses_relation_def)
qed

lemma confirm_edge_Inr:
  assumes "reading api view g db" "base_ok (base_relation g cs)"
    and "usage_ok (base_relation g cs) (es_created_edges s) seen (es_usage s)"
    and "confirm_edge api db cs (k, CandidateEdge cid src dst rel w) s = Inr t"
  obtains e u where "promoted_edge cs (CandidateEdge cid src dst rel w) e" "er_id e = EdgeId (es_following_edge s)"
    "unat (es_following_edge t) = Suc (unat (es_following_edge s))" "es_created_edges t = es_created_edges s @ [e]"
    "es_aligned t = (es_aligned s)[k := Some (ConfirmedEdge e)]" "base_relation g cs (er_relation_kind e) \<noteq> None"
    "usage_ok (base_relation g cs) (es_created_edges s @ [e]) (seen @ [CandidateEdge cid src dst rel w]) (es_usage t)"
proof -
  from assms(4) obtain source destination j old p q x f where
    r: "resolve_confirmed_node src (cs_resolved_nodes cs) = Inr source"
      "resolve_confirmed_node dst (cs_resolved_nodes cs) = Inr destination"
      "resolve_confirmed_relation rel (cs_resolved_relations cs) = Inr j"
    and old: "current_relation api db (cs_created_relations cs) (es_usage s) j = Inr old"
    and p: "confirmed_provisional rel j old = Inr p" "checked_add_u64 (rr_confirmed_edge_count old) 1 = Some q"
      "checked_add_u64 p q = Some x" "checked_add_u64 (es_following_edge s) 1 = Some f"
    and t: "t = s\<lparr>es_following_edge := f,
        es_usage := btree_insert j (relation_record_with_usage j (rr_name old) p q) (es_usage s),
        es_created_edges := es_created_edges s @ [\<lparr>er_id = EdgeId (es_following_edge s), er_source = source,
          er_destination = destination, er_relation_kind = j, er_base_weight = w\<rparr>],
        es_aligned := (es_aligned s)[k := Some (ConfirmedEdge \<lparr>er_id = EdgeId (es_following_edge s), er_source = source,
          er_destination = destination, er_relation_kind = j, er_base_weight = w\<rparr>)]\<rparr>"
    by (auto simp: rbind_Inr_iff Let_def)
  let ?e = "\<lparr>er_id = EdgeId (es_following_edge s), er_source = source,
    er_destination = destination, er_relation_kind = j, er_base_weight = w\<rparr>"
  obtain b where b: "base_relation g cs j = Some b" "counted_usage b j (es_created_edges s) seen old"
    by (rule current_relation_Inr [OF assms(1-3) old])
  have j: "er_relation_kind ?e = j" by simp
  have zero: "provisional_uses i (CandidateEdge cid src dst rel w) = 0" if "i \<noteq> j" for i
    using r(3) that by (cases rel) auto
  note usage = usage_ok_insert [OF assms(3) b(1) counted_usage_next [OF b(2) p(1) r(3) p(2,3) j] j zero]
  show thesis
    using that [of ?e] r b(1) p(4) usage by (simp add: t u64_incr)
qed

lemma confirm_edge_inv:
  assumes "reading api view g db" "base_ok (base_relation g cs)" "k < length cands" "promotion_inv g cs cands k s"
    and "confirm_edge api db cs (k, cands ! k) s = Inr t"
  shows "promotion_inv g cs cands (Suc k) t"
proof (cases "cands ! k")
  case (CandidateEdge cid src dst rel w)
  note inv = assms(4) [unfolded promotion_inv_def]
  have u: "usage_ok (base_relation g cs) (es_created_edges s) (take k cands) (es_usage s)" using inv by blast
  have "confirm_edge api db cs (k, CandidateEdge cid src dst rel w) s = Inr t" using assms(5) CandidateEdge by simp
  from confirm_edge_Inr [OF assms(1,2) u this] obtain e where
    e: "promoted_edge cs (cands ! k) e" "er_id e = EdgeId (es_following_edge s)"
      "unat (es_following_edge t) = Suc (unat (es_following_edge s))" "es_created_edges t = es_created_edges s @ [e]"
      "es_aligned t = (es_aligned s)[k := Some (ConfirmedEdge e)]" "base_relation g cs (er_relation_kind e) \<noteq> None"
      "usage_ok (base_relation g cs) (es_created_edges s @ [e]) (take k cands @ [cands ! k]) (es_usage t)"
    unfolding CandidateEdge by blast
  have take: "take (Suc k) cands = take k cands @ [cands ! k]" using assms(3) by (rule take_Suc_conv_app_nth)
  show ?thesis
    unfolding promotion_inv_def
  proof (intro conjI)
    show "unat (es_following_edge t) = unat (gr_next_edge g) + length (es_created_edges t)" using inv e(3,4) by simp
    show "\<forall>m < length (es_created_edges t). unat (edge_id_as_u64 (er_id (es_created_edges t ! m))) = unat (gr_next_edge g) + m"
      using inv e(2,4) by (simp add: nth_append less_Suc_eq)
    show "\<forall>x \<in> set (es_created_edges t). \<exists>c \<in> set (take (Suc k) cands). promoted_edge cs c x \<and>
        base_relation g cs (er_relation_kind x) \<noteq> None"
      using inv e(1,4,6) by (auto simp: take)
    show "usage_ok (base_relation g cs) (es_created_edges t) (take (Suc k) cands) (es_usage t)"
      unfolding take e(4) by (rule e(7))
    show "length (es_aligned t) = length cands" using inv e(5) by simp
    show "\<forall>l < length cands. if l < Suc k \<and> is_candidate_edge (cands ! l)
        then \<exists>e \<in> set (es_created_edges t). es_aligned t ! l = Some (ConfirmedEdge e) \<and> promoted_edge cs (cands ! l) e
        else es_aligned t ! l = cs_aligned cs ! l"
    proof (intro allI impI)
      fix l assume l: "l < length cands"
      show "if l < Suc k \<and> is_candidate_edge (cands ! l)
        then \<exists>e \<in> set (es_created_edges t). es_aligned t ! l = Some (ConfirmedEdge e) \<and> promoted_edge cs (cands ! l) e
        else es_aligned t ! l = cs_aligned cs ! l"
      proof (cases "l = k")
        case True
        then show ?thesis using e(1,4,5) CandidateEdge inv assms(3) by simp
      next
        case False
        then have "es_aligned t ! l = es_aligned s ! l" "l < Suc k \<longleftrightarrow> l < k" using e(5) by auto
        moreover have "set (es_created_edges s) \<subseteq> set (es_created_edges t)" by (auto simp: e(4))
        ultimately show ?thesis using inv l by (metis subsetD)
      qed
    qed
    have "k < length (es_aligned s)" using inv assms(3) by simp
    then have "take (Suc k) (es_aligned t) = take k (es_aligned s) @ [Some (ConfirmedEdge e)]"
      by (simp add: e(5) take_Suc_conv_app_nth)
    then show "\<forall>x \<in> set (es_created_edges t). Some (ConfirmedEdge x) \<in> set (take (Suc k) (es_aligned t))"
      using inv by (auto simp: e(4))
    show "length (es_created_edges t) = length (filter is_candidate_edge (take (Suc k) cands))"
      using inv by (simp add: e(4) take CandidateEdge)
  qed
next
  case (CandidateNode a b c d)
  with assms(5) have "t = s" by simp
  moreover have "take (Suc k) cands = take k cands @ [cands ! k]" using assms(3) by (rule take_Suc_conv_app_nth)
  moreover have "Some (ConfirmedEdge e) \<in> set (take (Suc k) (es_aligned s))" if "e \<in> set (es_created_edges s)" for e
    using assms(4) that set_take_subset_set_take [OF le_SucI [OF order.refl], of k "es_aligned s"] unfolding promotion_inv_def by blast
  ultimately show ?thesis
    using assms(4) CandidateNode usage_ok_skip by (auto simp: promotion_inv_def less_Suc_eq)
next
  case (CandidateRelation a b c)
  with assms(5) have "t = s" by simp
  moreover have "take (Suc k) cands = take k cands @ [cands ! k]" using assms(3) by (rule take_Suc_conv_app_nth)
  moreover have "Some (ConfirmedEdge e) \<in> set (take (Suc k) (es_aligned s))" if "e \<in> set (es_created_edges s)" for e
    using assms(4) that set_take_subset_set_take [OF le_SucI [OF order.refl], of k "es_aligned s"] unfolding promotion_inv_def by blast
  ultimately show ?thesis
    using assms(4) CandidateRelation usage_ok_skip by (auto simp: promotion_inv_def less_Suc_eq)
qed

lemma confirm_edges_Inr:
  assumes "reading api view g db" "base_ok (base_relation g cs)" "length (cs_aligned cs) = length cands"
    and "fold_result (confirm_edge api db cs) (enumerate 0 cands)
      \<lparr>es_following_edge = gr_next_edge g, es_usage = [], es_created_edges = [], es_aligned = cs_aligned cs\<rparr> = Inr t"
  shows "promotion_inv g cs cands (length cands) t"
proof -
  have "ensures (\<lambda>_. True) (promotion_inv g cs cands (length (enumerate 0 cands)))
      (fold_result (confirm_edge api db cs) (enumerate 0 cands)
        \<lparr>es_following_edge = gr_next_edge g, es_usage = [], es_created_edges = [], es_aligned = cs_aligned cs\<rparr>)"
  proof (rule ensures_fold_result [where P = "\<lambda>seen. promotion_inv g cs cands (length seen)"])
    fix seen x rest s assume *: "enumerate 0 cands = seen @ x # rest" "promotion_inv g cs cands (length seen) s"
    note x = enumerate_split [OF *(1)]
    show "ensures (\<lambda>_. True) (promotion_inv g cs cands (length (seen @ [x]))) (confirm_edge api db cs x s)"
      using confirm_edge_inv [OF assms(1,2) _ *(2)] x by (cases "confirm_edge api db cs x s") auto
  qed (use assms(3) in \<open>simp add: promotion_inv_def usage_ok_def\<close>)
  from ensures_InrD [OF this assms(4)] show ?thesis by simp
qed

end
