(* ===== verification/Catalog_Confirmation.thy ===== *)
theory Catalog_Confirmation
  imports Catalog_Promotion
begin

text \<open>
  A confirmation keeps a catalog well formed. The batch removes the selected candidates, adds the
  created nodes, relation kinds and edges, and settles the usage of the relation kinds; the graph
  it leads to is well formed, and the name indexes follow it.
\<close>

section \<open>Groups of writes\<close>

definition with_nodes :: "node_record list \<Rightarrow> graph \<Rightarrow> graph" where
  "with_nodes ns g = fold with_node ns g"

definition with_edges :: "edge_record list \<Rightarrow> graph \<Rightarrow> graph" where
  "with_edges es g = fold with_edge es g"

lemma with_nodes_fields [simp]:
  "gr_relations (with_nodes ns g) = gr_relations g" "gr_edges (with_nodes ns g) = gr_edges g"
  "gr_candidates (with_nodes ns g) = gr_candidates g" "gr_pointer (with_nodes ns g) = gr_pointer g"
  "gr_next_candidate (with_nodes ns g) = gr_next_candidate g" "gr_next_node (with_nodes ns g) = gr_next_node g"
  "gr_next_relation (with_nodes ns g) = gr_next_relation g" "gr_next_edge (with_nodes ns g) = gr_next_edge g"
  unfolding with_nodes_def by (induction ns arbitrary: g) (simp_all add: with_node_def)

lemma with_edges_fields [simp]:
  "gr_relations (with_edges es g) = gr_relations g" "gr_nodes (with_edges es g) = gr_nodes g"
  "gr_candidates (with_edges es g) = gr_candidates g" "gr_pointer (with_edges es g) = gr_pointer g"
  "gr_next_candidate (with_edges es g) = gr_next_candidate g" "gr_next_node (with_edges es g) = gr_next_node g"
  "gr_next_relation (with_edges es g) = gr_next_relation g" "gr_next_edge (with_edges es g) = gr_next_edge g"
  unfolding with_edges_def by (induction es arbitrary: g) (simp_all add: with_edge_def)

lemma without_candidates_fields [simp]:
  "gr_relations (without_candidates cs g) = gr_relations g" "gr_nodes (without_candidates cs g) = gr_nodes g"
  "gr_edges (without_candidates cs g) = gr_edges g" "gr_pointer (without_candidates cs g) = gr_pointer g"
  "gr_next_candidate (without_candidates cs g) = gr_next_candidate g" "gr_next_node (without_candidates cs g) = gr_next_node g"
  "gr_next_relation (without_candidates cs g) = gr_next_relation g" "gr_next_edge (without_candidates cs g) = gr_next_edge g"
  by (simp_all add: without_candidates_def)

lemma fold_upd_get:
  "distinct (map key xs) \<Longrightarrow> fold (\<lambda>x m. m(key x \<mapsto> val x)) xs m k = Some v \<longleftrightarrow>
     (\<exists>x \<in> set xs. key x = k \<and> val x = v) \<or> k \<notin> key ` set xs \<and> m k = Some v"
proof (induction xs arbitrary: m)
  case (Cons x xs)
  then show ?case by (auto simp: image_iff)
qed simp

lemma with_nodes_get:
  "distinct (map nr_id ns) \<Longrightarrow> gr_nodes (with_nodes ns g) i = Some n \<longleftrightarrow>
     n \<in> set ns \<and> nr_id n = i \<or> i \<notin> nr_id ` set ns \<and> gr_nodes g i = Some n"
proof -
  have "gr_nodes (with_nodes ns g) = fold (\<lambda>n m. m(nr_id n \<mapsto> n)) ns (gr_nodes g)"
    unfolding with_nodes_def by (induction ns arbitrary: g) (simp_all add: with_node_def)
  then show "distinct (map nr_id ns) \<Longrightarrow> ?thesis" using fold_upd_get [of nr_id ns "\<lambda>n. n"] by auto
qed

lemma with_edges_get:
  "distinct (map er_id es) \<Longrightarrow> gr_edges (with_edges es g) i = Some e \<longleftrightarrow>
     e \<in> set es \<and> er_id e = i \<or> i \<notin> er_id ` set es \<and> gr_edges g i = Some e"
proof -
  have "gr_edges (with_edges es g) = fold (\<lambda>n m. m(er_id n \<mapsto> n)) es (gr_edges g)"
    unfolding with_edges_def by (induction es arbitrary: g) (simp_all add: with_edge_def)
  then show "distinct (map er_id es) \<Longrightarrow> ?thesis" using fold_upd_get [of er_id es "\<lambda>n. n"] by auto
qed

lemma with_edges_msum:
  assumes "finite (dom (gr_edges g))" "distinct (map er_id es)" "\<And>e. e \<in> set es \<Longrightarrow> gr_edges g (er_id e) = None"
  shows "finite (dom (gr_edges (with_edges es g))) \<and>
    msum f (gr_edges (with_edges es g)) = msum f (gr_edges g) + sum_list (map f es)"
  using assms
proof (induction es arbitrary: g)
  case (Cons e es)
  have "finite (dom (gr_edges (with_edge e g)))" using Cons.prems(1) by (simp add: with_edge_def)
  then have "finite (dom (gr_edges (with_edges es (with_edge e g)))) \<and>
      msum f (gr_edges (with_edges es (with_edge e g))) = msum f (gr_edges (with_edge e g)) + sum_list (map f es)"
    using Cons.prems by (intro Cons.IH) (auto simp: with_edge_def image_iff simp del: fun_upd_apply dom_fun_upd, auto)
  moreover have "msum f (gr_edges (with_edge e g)) = msum f (gr_edges g) + f e"
    using Cons.prems msum_add [of "gr_edges g" "er_id e" f e] by (simp add: with_edge_def)
  ultimately show ?case by (simp add: with_edges_def)
qed (simp add: with_edges_def)

lemma nodes_step:
  assumes "stored_graph g kv" "distinct (map nr_id ns)" "distinct (map nr_name ns)"
    and "\<And>n. n \<in> set ns \<Longrightarrow> node_ok n \<and> gr_nodes g (nr_id n) = None \<and> (\<forall>i m. gr_nodes g i = Some m \<longrightarrow> nr_name m \<noteq> nr_name n)"
  shows "stored_graph (with_nodes ns g) (store_ops (concat (map node_group ns)) kv)"
  using assms
proof (induction ns arbitrary: g kv)
  case (Cons n ns)
  have "stored_graph (with_node n g) (store_ops (node_group n) kv)"
    using Cons.prems(1,4) by (intro node_group_step) auto
  then have "stored_graph (with_nodes ns (with_node n g)) (store_ops (concat (map node_group ns)) (store_ops (node_group n) kv))"
    using Cons.prems by (intro Cons.IH) (auto simp: with_node_def image_iff split: if_splits)
  then show ?case by (simp add: with_nodes_def)
qed (simp add: with_nodes_def)

lemma edges_step:
  assumes "stored_graph g kv" "distinct (map er_id es)" "\<And>e. e \<in> set es \<Longrightarrow> edge_ok e \<and> gr_edges g (er_id e) = None"
  shows "stored_graph (with_edges es g) (store_ops (concat (map put_created_edge es)) kv)"
  using assms
proof (induction es arbitrary: g kv)
  case (Cons e es)
  have "stored_graph (with_edge e g) (store_ops (put_created_edge e) kv)"
    using Cons.prems by (intro edge_group_step) auto
  then have "stored_graph (with_edges es (with_edge e g)) (store_ops (concat (map put_created_edge es)) (store_ops (put_created_edge e) kv))"
    using Cons.prems by (intro Cons.IH) (auto simp: with_edge_def image_iff)
  then show ?case by (simp add: with_edges_def)
qed (simp add: with_edges_def)

lemma without_candidates_Cons: "without_candidates (c # cs) g = without_candidates cs (without_candidate (candidate_id_of c) g)"
  by (auto simp: without_candidates_def without_candidate_def restrict_map_def intro!: graph.equality)

lemma candidates_removal_step:
  assumes "stored_graph g kv" "distinct (map candidate_id_of cs)" "\<And>c. c \<in> set cs \<Longrightarrow> gr_candidates g (candidate_id_of c) = Some c"
  shows "stored_graph (without_candidates cs g)
    (store_ops (map (\<lambda>c. Delete CANDIDATES (encode_id_key (candidate_id_as_u64 (candidate_id_of c)))) cs) kv)"
  using assms
proof (induction cs arbitrary: g kv)
  case Nil
  then show ?case by (simp add: without_candidates_def)
next
  case (Cons c cs)
  have "stored_graph (without_candidate (candidate_id_of c) g) (store_ops (candidate_removal c) kv)"
    using Cons.prems by (intro candidate_removal_step) auto
  then have "stored_graph (without_candidates cs (without_candidate (candidate_id_of c) g))
      (store_ops (map (\<lambda>c. Delete CANDIDATES (encode_id_key (candidate_id_as_u64 (candidate_id_of c)))) cs)
        (store_ops (candidate_removal c) kv))"
    using Cons.prems by (intro Cons.IH) (auto simp: without_candidate_def image_iff)
  then show ?case by (simp add: without_candidates_Cons candidate_removal_def)
qed

lemma put_created_nodes_Inr:
  "fold_result put_created_node ns batch = Inr batch' \<Longrightarrow> \<forall>n \<in> set ns. node_ok n \<Longrightarrow>
     batch' = batch @ concat (map node_group ns)"
proof (induction ns arbitrary: batch)
  case (Cons n ns)
  have "put_created_node n batch = Inr (batch @ node_group n)"
    using encode_node_ok [of n] encode_name_ok [of "node_name_as_str (nr_name n)"] Cons.prems(2)
    by (simp add: put_created_node_def node_group_def node_ok_def)
  with Cons.prems have "fold_result put_created_node ns (batch @ node_group n) = Inr batch'" by simp
  from Cons.IH [OF this] Cons.prems(2) show ?case by simp
qed simp

section \<open>The final relation kinds\<close>

text \<open>What the three phases have established.\<close>

definition promotion ::
    "graph \<Rightarrow> candidate_id list \<Rightarrow> candidate list \<Rightarrow> confirm_state \<Rightarrow> edge_state \<Rightarrow> bool" where
  "promotion g cids cands cs es \<longleftrightarrow> graph_ok g \<and> closed_selection g cids cands \<and>
     resolution_inv g cands (length cands) cs \<and> promotion_inv g cs cands (length cands) es"

lemma consecutive_distinct:
  assumes "\<forall>m < length xs. unat (f (xs ! m)) = unat (first :: u64) + m"
  shows "distinct (map f xs)"
  unfolding distinct_conv_nth using assms by (auto dest!: arg_cong [of _ _ unat])

lemma consecutive_ge:
  assumes "\<forall>m < length xs. unat (f (xs ! m)) = unat (first :: u64) + m" "x \<in> set xs"
  shows "first \<le> f x" "unat (f x) < unat first + length xs"
  using assms by (auto simp: in_set_conv_nth word_le_nat_alt)

lemma promotion_created_nodes:
  assumes "promotion g cids cands cs es"
  shows "distinct (map nr_id (cs_created_nodes cs))" "distinct (map nr_name (cs_created_nodes cs))"
    and "n \<in> set (cs_created_nodes cs) \<Longrightarrow> node_ok n" "n \<in> set (cs_created_nodes cs) \<Longrightarrow> gr_nodes g (nr_id n) = None"
    and "n \<in> set (cs_created_nodes cs) \<Longrightarrow> gr_nodes g i = Some m \<Longrightarrow> nr_name m \<noteq> nr_name n"
    and "n \<in> set (cs_created_nodes cs) \<Longrightarrow> node_id_as_u64 (nr_id n) < cs_following_node cs"
    and "gr_next_node g \<le> cs_following_node cs"
proof -
  have ok: "counters_ok g" "node_plan g (gr_next_node g) cs"
    using assms by (simp_all add: promotion_def resolution_inv_def graph_ok_def)
  note plan = ok(2) [unfolded node_plan_def]
  note ids = consecutive_distinct [of "cs_created_nodes cs" "\<lambda>n. node_id_as_u64 (nr_id n)" "gr_next_node g"]
    consecutive_ge [of "cs_created_nodes cs" "\<lambda>n. node_id_as_u64 (nr_id n)" "gr_next_node g"]
  have "distinct (map node_id_as_u64 (map nr_id (cs_created_nodes cs)))" using ids(1) plan by (simp add: comp_def)
  then show "distinct (map nr_id (cs_created_nodes cs))" by (simp only: distinct_map)
  show "distinct (map nr_name (cs_created_nodes cs))" using plan by blast
  show "n \<in> set (cs_created_nodes cs) \<Longrightarrow> node_ok n"
    "n \<in> set (cs_created_nodes cs) \<Longrightarrow> gr_nodes g i = Some m \<Longrightarrow> nr_name m \<noteq> nr_name n" using plan by blast+
  show "gr_nodes g (nr_id n) = None" if "n \<in> set (cs_created_nodes cs)"
    using ids(2) [OF _ that] plan ok(1) by (fastforce simp: counters_ok_def)
  show "node_id_as_u64 (nr_id n) < cs_following_node cs" if "n \<in> set (cs_created_nodes cs)"
    using ids(3) [OF _ that] plan by (simp add: word_less_nat_alt)
  show "gr_next_node g \<le> cs_following_node cs" using plan by (simp add: word_le_nat_alt)
qed

lemma promotion_created_relations:
  assumes "promotion g cids cands cs es"
  shows "distinct (map rr_id (cs_created_relations cs))" "distinct (map rr_name (cs_created_relations cs))"
    and "r \<in> set (cs_created_relations cs) \<Longrightarrow> relation_ok r \<and> rr_provisional_reference_count r = 0 \<and> rr_confirmed_edge_count r = 0"
    and "r \<in> set (cs_created_relations cs) \<Longrightarrow> gr_relations g (rr_id r) = None"
    and "r \<in> set (cs_created_relations cs) \<Longrightarrow> gr_relations g i = Some m \<Longrightarrow> rr_name m \<noteq> rr_name r"
    and "r \<in> set (cs_created_relations cs) \<Longrightarrow> relation_id_as_u64 (rr_id r) < cs_following_relation cs"
    and "gr_next_relation g \<le> cs_following_relation cs"
proof -
  have ok: "counters_ok g" "relation_plan g (gr_next_relation g) cs"
    using assms by (simp_all add: promotion_def resolution_inv_def graph_ok_def)
  note plan = ok(2) [unfolded relation_plan_def]
  note ids = consecutive_distinct [of "cs_created_relations cs" "\<lambda>r. relation_id_as_u64 (rr_id r)" "gr_next_relation g"]
    consecutive_ge [of "cs_created_relations cs" "\<lambda>r. relation_id_as_u64 (rr_id r)" "gr_next_relation g"]
  have "distinct (map relation_id_as_u64 (map rr_id (cs_created_relations cs)))" using ids(1) plan by (simp add: comp_def)
  then show "distinct (map rr_id (cs_created_relations cs))" by (simp only: distinct_map)
  show "distinct (map rr_name (cs_created_relations cs))" using plan by blast
  show "r \<in> set (cs_created_relations cs) \<Longrightarrow> relation_ok r \<and> rr_provisional_reference_count r = 0 \<and> rr_confirmed_edge_count r = 0"
    "r \<in> set (cs_created_relations cs) \<Longrightarrow> gr_relations g i = Some m \<Longrightarrow> rr_name m \<noteq> rr_name r" using plan by blast+
  show "gr_relations g (rr_id r) = None" if "r \<in> set (cs_created_relations cs)"
    using ids(2) [OF _ that] plan ok(1) by (fastforce simp: counters_ok_def)
  show "relation_id_as_u64 (rr_id r) < cs_following_relation cs" if "r \<in> set (cs_created_relations cs)"
    using ids(3) [OF _ that] plan by (simp add: word_less_nat_alt)
  show "gr_next_relation g \<le> cs_following_relation cs" using plan by (simp add: word_le_nat_alt)
qed

lemma promotion_created_edges:
  assumes "promotion g cids cands cs es"
  shows "distinct (map er_id (es_created_edges es))"
    and "e \<in> set (es_created_edges es) \<Longrightarrow> edge_ok e" "e \<in> set (es_created_edges es) \<Longrightarrow> gr_edges g (er_id e) = None"
    and "e \<in> set (es_created_edges es) \<Longrightarrow> \<exists>c \<in> set cands. promoted_edge cs c e"
    and "e \<in> set (es_created_edges es) \<Longrightarrow> base_relation g cs (er_relation_kind e) \<noteq> None"
    and "e \<in> set (es_created_edges es) \<Longrightarrow> edge_id_as_u64 (er_id e) < es_following_edge es"
    and "gr_next_edge g \<le> es_following_edge es"
proof -
  have ok: "counters_ok g" "records_ok g" "promotion_inv g cs cands (length cands) es" "selection g cids cands"
    using assms by (simp_all add: promotion_def closed_selection_def graph_ok_def)
  note inv = ok(3) [unfolded promotion_inv_def]
  note ids = consecutive_distinct [of "es_created_edges es" "\<lambda>r. edge_id_as_u64 (er_id r)" "gr_next_edge g"]
    consecutive_ge [of "es_created_edges es" "\<lambda>r. edge_id_as_u64 (er_id r)" "gr_next_edge g"]
  have "distinct (map edge_id_as_u64 (map er_id (es_created_edges es)))" using ids(1) inv by (simp add: comp_def)
  then show "distinct (map er_id (es_created_edges es))" by (simp only: distinct_map)
  have made: "\<exists>c \<in> set cands. promoted_edge cs c e \<and> base_relation g cs (er_relation_kind e) \<noteq> None"
    if "e \<in> set (es_created_edges es)" for e using inv that by simp
  then show "e \<in> set (es_created_edges es) \<Longrightarrow> \<exists>c \<in> set cands. promoted_edge cs c e"
    "e \<in> set (es_created_edges es) \<Longrightarrow> base_relation g cs (er_relation_kind e) \<noteq> None" by blast+
  show "edge_ok e" if "e \<in> set (es_created_edges es)"
    using made [OF that] promoted_edge_ok ok(4) records_okD(4) [OF ok(2)] by (fastforce simp: selection_def)
  show "gr_edges g (er_id e) = None" if "e \<in> set (es_created_edges es)"
    using ids(2) [OF _ that] inv ok(1) by (fastforce simp: counters_ok_def)
  show "edge_id_as_u64 (er_id e) < es_following_edge es" if "e \<in> set (es_created_edges es)"
    using ids(3) [OF _ that] inv by (simp add: word_less_nat_alt)
  show "gr_next_edge g \<le> es_following_edge es" using inv by (simp add: word_le_nat_alt)
qed

lemma find_created:
  assumes "distinct (map rr_id rs)"
  shows "map_of (rev (map (\<lambda>r. (rr_id r, r)) rs)) i = List.find (\<lambda>r. rr_id r = i) rs"
proof -
  have "map_of (rev (map (\<lambda>r. (rr_id r, r)) rs)) = map_of (map (\<lambda>r. (rr_id r, r)) rs)"
    using assms by (subst map_of_inject_set) (simp_all add: comp_def rev_map [symmetric])
  moreover have "map_of (map (\<lambda>r. (rr_id r, r)) rs) i = List.find (\<lambda>r. rr_id r = i) rs" by (induction rs) simp_all
  ultimately show ?thesis by simp
qed

lemma final_relations_get:
  assumes "btree_ok usage" "distinct (map rr_id created)"
  shows "btree_ok (final_relations created usage)" "btree_get (final_relations created usage) i =
    (case btree_get usage i of Some u \<Rightarrow> Some u | None \<Rightarrow> List.find (\<lambda>r. rr_id r = i) created)"
proof -
  have ok: "btree_ok (btree_extend (map (\<lambda>r. (rr_id r, r)) created) [])" by (simp add: btree_extend_ok)
  then show "btree_ok (final_relations created usage)" by (simp add: final_relations_def btree_extend_ok)
  show "btree_get (final_relations created usage) i =
    (case btree_get usage i of Some u \<Rightarrow> Some u | None \<Rightarrow> List.find (\<lambda>r. rr_id r = i) created)"
    using find_created [OF assms(2), of i]
    by (simp add: final_relations_def btree_get_extend [OF ok] btree_get_extend btree_extend_self [OF assms(1)] map_add_def
        del: rev_map split: option.splits)
qed

text \<open>The final record of every relation kind counts the edges and candidates of the new graph.\<close>

definition final_records :: "confirm_state \<Rightarrow> edge_state \<Rightarrow> relation_record list" where
  "final_records cs es = map snd (final_relations (cs_created_relations cs) (es_usage es))"

lemma promotion_usage:
  assumes "promotion g cids cands cs es"
  shows "usage_ok (base_relation g cs) (es_created_edges es) cands (es_usage es)" "base_ok (base_relation g cs)"
  using assms base_relation_ok [of g "gr_next_relation g" cs]
  by (auto simp: promotion_def promotion_inv_def resolution_inv_def graph_ok_def)

lemma final_relation:
  assumes "promotion g cids cands cs es"
  shows "(i, r) \<in> set (final_relations (cs_created_relations cs) (es_usage es)) \<Longrightarrow>
      \<exists>b. base_relation g cs i = Some b \<and> counted_usage b i (es_created_edges es) cands r"
    and "i \<notin> fst ` set (final_relations (cs_created_relations cs) (es_usage es)) \<Longrightarrow> gr_relations g i = Some r \<Longrightarrow>
      base_relation g cs i = Some r \<and> counted_usage r i (es_created_edges es) cands r"
    and "base_relation g cs i = Some b \<Longrightarrow> gr_relations g i = Some b \<or> i \<in> fst ` set (final_relations (cs_created_relations cs) (es_usage es))"
proof -
  note U = promotion_usage [OF assms] and C = promotion_created_relations [OF assms]
  note F = final_relations_get [OF usage_okD(1) [OF U(1)] C(1)]
  have unused: "counted_usage b i (es_created_edges es) cands b" if "btree_get (es_usage es) i = None" "base_relation g cs i = Some b" for i b
    using usage_okD(3) [OF U(1) that(1)] U(2) that(2) by (simp add: counted_usage_def base_ok_def del: sum_list_eq_0_iff)
  show "\<exists>b. base_relation g cs i = Some b \<and> counted_usage b i (es_created_edges es) cands r"
    if "(i, r) \<in> set (final_relations (cs_created_relations cs) (es_usage es))"
  proof -
    have get: "btree_get (final_relations (cs_created_relations cs) (es_usage es)) i = Some r"
      using that btree_distinct [OF F(1)] by (simp add: btree_get_def)
    show ?thesis
    proof (cases "btree_get (es_usage es) i")
      case None
      with get F(2) have "base_relation g cs i = Some r" by (simp add: base_relation_def)
      with unused [OF None] show ?thesis by blast
    next
      case (Some u)
      with get F(2) usage_okD(2) [OF U(1) Some] show ?thesis by simp
    qed
  qed
  have absent: "btree_get (es_usage es) i = None" "List.find (\<lambda>r. rr_id r = i) (cs_created_relations cs) = None"
    if "i \<notin> fst ` set (final_relations (cs_created_relations cs) (es_usage es))"
    using that F(2) [of i] by (auto simp: btree_get_def map_of_eq_None_iff [symmetric] split: option.splits)
  show "base_relation g cs i = Some r \<and> counted_usage r i (es_created_edges es) cands r"
    if "i \<notin> fst ` set (final_relations (cs_created_relations cs) (es_usage es))" "gr_relations g i = Some r"
    using absent [OF that(1)] unused [of i r] that(2) by (simp add: base_relation_def)
  show "gr_relations g i = Some b \<or> i \<in> fst ` set (final_relations (cs_created_relations cs) (es_usage es))"
    if "base_relation g cs i = Some b"
    using absent that by (auto simp: base_relation_def split: option.splits)
qed

lemma base_cases:
  assumes "promotion g cids cands cs es" "base_relation g cs i = Some b"
  obtains (created) "b \<in> set (cs_created_relations cs)" "rr_id b = i" "gr_relations g i = None"
    "list_ex (\<lambda>r. rr_id r = i) (cs_created_relations cs)"
  | (existing) "gr_relations g i = Some b" "\<not> list_ex (\<lambda>r. rr_id r = i) (cs_created_relations cs)"
proof (cases "List.find (\<lambda>r. rr_id r = i) (cs_created_relations cs)")
  case None
  with assms(2) existing show thesis by (auto simp: base_relation_def find_None_iff list_ex_iff)
next
  case (Some r)
  then have "b = r" using assms(2) by (simp add: base_relation_def)
  moreover have "r \<in> set (cs_created_relations cs)" "rr_id r = i" using Some by (auto simp: find_Some_iff)
  ultimately show thesis using created promotion_created_relations(4) [OF assms(1), of r] by (auto simp: list_ex_iff)
qed

lemma final_may_become:
  assumes "promotion g cids cands cs es" "(i, r) \<in> set (final_relations (cs_created_relations cs) (es_usage es))"
  shows "rr_id r = i" "relation_ok r" "may_become g r"
proof -
  from final_relation(1) [OF assms] obtain b where b: "base_relation g cs i = Some b"
    "counted_usage b i (es_created_edges es) cands r" by blast
  then show r: "rr_id r = i" "relation_ok r" by (simp_all add: counted_usage_def)
  have name: "rr_name r = rr_name b" using b(2) by (simp add: counted_usage_def)
  show "may_become g r"
    using assms(1) b(1)
  proof (cases rule: base_cases)
    case created
    then show ?thesis using promotion_created_relations(5) [OF assms(1) created(1)] r name by (simp add: may_become_def)
  next
    case existing
    then show ?thesis using r name by (simp add: may_become_def)
  qed
qed

lemma final_names:
  assumes "promotion g cids cands cs es" "r \<in> set (final_records cs es)" "s \<in> set (final_records cs es)"
    and "gr_relations g (rr_id s) = None" "rr_name r = rr_name s"
  shows "r = s"
proof -
  let ?F = "final_relations (cs_created_relations cs) (es_usage es)"
  from assms(2,3) have mem: "(rr_id r, r) \<in> set ?F" "(rr_id s, s) \<in> set ?F"
    using final_may_become(1) [OF assms(1)] by (auto simp: final_records_def)
  obtain b c where b: "base_relation g cs (rr_id r) = Some b" "rr_name r = rr_name b"
      and c: "base_relation g cs (rr_id s) = Some c" "rr_name s = rr_name c"
    using final_relation(1) [OF assms(1) mem(1)] final_relation(1) [OF assms(1) mem(2)] by (auto simp: counted_usage_def)
  have c': "c \<in> set (cs_created_relations cs)" "rr_id c = rr_id s"
    using assms(1) c(1) assms(4) by (cases rule: base_cases, auto)+
  have "b \<in> set (cs_created_relations cs)" "rr_id b = rr_id r"
    using assms(1) b(1)
    by (cases rule: base_cases, use promotion_created_relations(5) [OF assms(1) c'(1)] b(2) c(2) assms(5) in auto)+
  then have "b = c" using c' b(2) c(2) assms(5) promotion_created_relations(2) [OF assms(1)]
    by (metis distinct_map inj_onD)
  then have "rr_id r = rr_id s" using c'(2) \<open>rr_id b = rr_id r\<close> by simp
  then show ?thesis
    using mem btree_distinct [OF final_relations_get(1) [OF usage_okD(1) [OF promotion_usage(1) [OF assms(1)]]
          promotion_created_relations(1) [OF assms(1)]]]
    by (metis eq_key_imp_eq_value)
qed

lemma put_final_relation_Inr:
  assumes "reading api view g db" "promotion g cids cands cs es"
    and "(i, r) \<in> set (final_relations (cs_created_relations cs) (es_usage es))"
    and "put_final_relation api db (cs_created_relations cs) (i, r) batch = Inr batch'"
  shows "batch' = batch @ relation_ops (gr_relations g (rr_id r)) r"
proof -
  note r = final_may_become [OF assms(2,3)]
  have enc: "encode_relation r = Inr (relation_bytes r)" "encode_popularity_key r = Inr (popularity_bytes r)"
    "encode_name_key (relation_name_as_str (rr_name r)) = Inr (counted (relation_name_as_str (rr_name r)))"
    using encode_relation_ok [OF r(2)] encode_popularity_ok [OF r(2)] r(2) by (simp_all add: relation_ok_def encode_name_ok)
  from final_relation(1) [OF assms(2,3)] obtain b where b: "base_relation g cs i = Some b" by blast
  show ?thesis
    using assms(2) b
  proof (cases rule: base_cases)
    case created
    with assms(4) r(1) enc show ?thesis by (simp add: put_final_relation_def relation_group_def)
  next
    case existing
    have "relation_ok b" using existing(1) assms(1) records_okD(2) by (auto simp: reading_def)
    note enc' = encode_popularity_ok [OF this]
    from assms(4) existing(2) obtain old where "get_relation_from_db api db i = Inr old"
      by (auto simp: put_final_relation_def rbind_Inr_iff)
    moreover from this have "old = b" using reading_get(3) [OF assms(1)] existing(1) by simp
    ultimately show ?thesis
      using assms(4) r(1) enc enc' existing by (simp add: put_final_relation_def relation_change_def)
  qed
qed

lemma put_final_relations_Inr:
  assumes "reading api view g db" "promotion g cids cands cs es"
    and "set rs \<subseteq> set (final_relations (cs_created_relations cs) (es_usage es))"
    and "fold_result (put_final_relation api db (cs_created_relations cs)) rs batch = Inr batch'"
  shows "batch' = batch @ concat (map (\<lambda>r. relation_ops (gr_relations g (rr_id r)) r) (map snd rs))"
  using assms(3,4)
proof (induction rs arbitrary: batch)
  case (Cons p rs)
  obtain i r where p: "p = (i, r)" by (cases p)
  from Cons.prems obtain batch1 where step: "put_final_relation api db (cs_created_relations cs) (i, r) batch = Inr batch1"
    and rest: "fold_result (put_final_relation api db (cs_created_relations cs)) rs batch1 = Inr batch'"
    by (auto simp: p rbind_Inr_iff)
  have "batch1 = batch @ relation_ops (gr_relations g (rr_id r)) r"
    using Cons.prems(1) by (intro put_final_relation_Inr [OF assms(1,2) _ step]) (simp add: p)
  with Cons.IH [OF _ rest] Cons.prems(1) show ?case by (simp add: p)
qed simp

end
