(* ===== verification/Catalog_Confirmed.thy ===== *)
theory Catalog_Confirmed
  imports Catalog_Confirmation
begin

text \<open>
  The graph that a confirmation leads to, that it is well formed, and the effect of the whole
  operation.
\<close>

section \<open>The graph after a confirmation\<close>

definition promoted_graph :: "candidate list \<Rightarrow> confirm_state \<Rightarrow> edge_state \<Rightarrow> graph \<Rightarrow> graph" where
  "promoted_graph cands cs es g =
     (with_edges (es_created_edges es) (with_relations (final_records cs es)
        (with_nodes (cs_created_nodes cs) (without_candidates cands g))))
     \<lparr>gr_pointer := if graph_changed cs es then None else gr_pointer g,
      gr_next_node := cs_following_node cs, gr_next_relation := cs_following_relation cs,
      gr_next_edge := es_following_edge es\<rparr>"

lemma promotion_final_distinct: "promotion g cids cands cs es \<Longrightarrow> distinct (map rr_id (final_records cs es))"
proof -
  assume p: "promotion g cids cands cs es"
  have "map rr_id (final_records cs es) = map fst (final_relations (cs_created_relations cs) (es_usage es))"
    unfolding final_records_def map_map using final_may_become(1) [OF p] by (intro map_cong) auto
  then show ?thesis
    using btree_distinct [OF final_relations_get(1) [OF usage_okD(1) [OF promotion_usage(1) [OF p]]
          promotion_created_relations(1) [OF p]]] by simp
qed

lemma final_recordsD:
  "promotion g cids cands cs es \<Longrightarrow> r \<in> set (final_records cs es) \<Longrightarrow>
     (rr_id r, r) \<in> set (final_relations (cs_created_relations cs) (es_usage es))"
  using final_may_become(1) by (fastforce simp: final_records_def)

lemma may_become_same: "gr_relations g' = gr_relations g \<Longrightarrow> may_become g' r = may_become g r"
  by (simp add: may_become_def split: option.split)

lemma confirmation_batch_Inr:
  assumes "reading api view g db" "promotion g cids cands cs es" "stored_graph g kv"
    and "confirmation_batch api db cands cs es = Inr batch"
  shows "stored_graph (promoted_graph cands cs es g) (store_ops batch kv)"
proof -
  let ?dels = "map (\<lambda>c. Delete CANDIDATES (encode_id_key (candidate_id_as_u64 (candidate_id_of c)))) cands"
  let ?g1 = "without_candidates cands g"
  let ?g2 = "with_nodes (cs_created_nodes cs) ?g1"
  let ?g3 = "with_relations (final_records cs es) ?g2"
  let ?g4 = "with_edges (es_created_edges es) ?g3"
  let ?g5 = "if graph_changed cs es then ?g4\<lparr>gr_pointer := None\<rparr> else ?g4"
  note N = promotion_created_nodes [OF assms(2)] and E = promotion_created_edges [OF assms(2)]
  have sel: "selection g cids cands" using assms(2) by (simp add: promotion_def closed_selection_def)
  from assms(4) obtain b1 b2 where
    b1: "fold_result put_created_node (cs_created_nodes cs) ?dels = Inr b1" and
    b2: "fold_result (put_final_relation api db (cs_created_relations cs))
      (final_relations (cs_created_relations cs) (es_usage es)) b1 = Inr b2" and
    batch: "batch = b2 @ concat (map put_created_edge (es_created_edges es))
       @ (if graph_changed cs es then [Delete DEFAULT (ascii META_ACTIVE_ROUTING_IMAGE)] else [])
       @ [Put DEFAULT (ascii META_NEXT_NODE_ID) (encode_u64_record (cs_following_node cs)),
          Put DEFAULT (ascii META_NEXT_RELATION_ID) (encode_u64_record (cs_following_relation cs)),
          Put DEFAULT (ascii META_NEXT_EDGE_ID) (encode_u64_record (es_following_edge es))]"
    by (auto simp: confirmation_batch_def Let_def rbind_Inr_iff)
  have ops1: "b1 = ?dels @ concat (map node_group (cs_created_nodes cs))"
    using put_created_nodes_Inr [OF b1] N(3) by blast
  have ops2: "b2 = b1 @ concat (map (\<lambda>r. relation_ops (gr_relations ?g2 (rr_id r)) r) (final_records cs es))"
    using put_final_relations_Inr [OF assms(1,2) _ b2] by (simp add: final_records_def)
  have s1: "stored_graph ?g1 (store_ops ?dels kv)"
    using sel by (intro candidates_removal_step [OF assms(3)]) (auto simp: selection_def)
  have s2: "stored_graph ?g2 (store_ops b1 kv)"
    unfolding ops1 store_ops_simps using N by (intro nodes_step [OF s1]) simp_all
  have s3: "stored_graph ?g3 (store_ops b2 kv)"
    unfolding ops2 store_ops_simps
  proof (rule relations_step [OF s2 promotion_final_distinct [OF assms(2)]])
    show "may_become ?g2 r" if "r \<in> set (final_records cs es)" for r
      using final_may_become(3) [OF assms(2) final_recordsD [OF assms(2) that]] by (subst may_become_same [of _ g]) simp_all
    show "r = s" if "r \<in> set (final_records cs es)" "s \<in> set (final_records cs es)" "gr_relations ?g2 (rr_id s) = None"
        "rr_name r = rr_name s" for r s using final_names [OF assms(2) that(1,2)] that(3,4) by simp
  qed
  have s4: "stored_graph ?g4 (store_ops (b2 @ concat (map put_created_edge (es_created_edges es))) kv)"
    unfolding store_ops_simps using E by (intro edges_step [OF s3]) simp_all
  have s5: "stored_graph ?g5 (store_ops (b2 @ concat (map put_created_edge (es_created_edges es)) @
      (if graph_changed cs es then [Delete DEFAULT (ascii META_ACTIVE_ROUTING_IMAGE)] else [])) kv)"
    using s4 metadata_steps(5) [OF s4] by simp
  have "promoted_graph cands cs es g = ?g5\<lparr>gr_next_node := cs_following_node cs\<rparr>
      \<lparr>gr_next_relation := cs_following_relation cs\<rparr>\<lparr>gr_next_edge := es_following_edge es\<rparr>"
    by (simp add: promoted_graph_def)
  then show ?thesis
    using metadata_steps(4) [OF metadata_steps(3) [OF metadata_steps(2) [OF s5]]] by (simp add: batch)
qed

section \<open>It is well formed\<close>

lemma promoted_fields:
  assumes "promotion g cids cands cs es"
  shows "gr_nodes (promoted_graph cands cs es g) i = Some n \<longleftrightarrow>
      n \<in> set (cs_created_nodes cs) \<and> nr_id n = i \<or> gr_nodes g i = Some n"
    and "gr_edges (promoted_graph cands cs es g) k = Some e \<longleftrightarrow>
      e \<in> set (es_created_edges es) \<and> er_id e = k \<or> gr_edges g k = Some e"
    and "gr_candidates (promoted_graph cands cs es g) = gr_candidates (without_candidates cands g)"
    and "gr_next_candidate (promoted_graph cands cs es g) = gr_next_candidate g"
proof -
  note N = promotion_created_nodes [OF assms] and E = promotion_created_edges [OF assms]
  have "i \<notin> nr_id ` set (cs_created_nodes cs)" if "gr_nodes g i = Some n" using N(4) that by force
  then show "gr_nodes (promoted_graph cands cs es g) i = Some n \<longleftrightarrow>
      n \<in> set (cs_created_nodes cs) \<and> nr_id n = i \<or> gr_nodes g i = Some n"
    using with_nodes_get [OF N(1), of "without_candidates cands g" i n] by (auto simp: promoted_graph_def)
  have "k \<notin> er_id ` set (es_created_edges es)" if "gr_edges g k = Some e" using E(3) that by force
  then show "gr_edges (promoted_graph cands cs es g) k = Some e \<longleftrightarrow>
      e \<in> set (es_created_edges es) \<and> er_id e = k \<or> gr_edges g k = Some e"
    using with_edges_get [OF E(1), of "with_relations (final_records cs es)
        (with_nodes (cs_created_nodes cs) (without_candidates cands g))" k e]
    by (auto simp: promoted_graph_def)
qed (simp_all add: promoted_graph_def)

lemma promoted_relation:
  assumes "promotion g cids cands cs es"
  shows "gr_relations (promoted_graph cands cs es g) j = Some r \<Longrightarrow>
      \<exists>b. base_relation g cs j = Some b \<and> counted_usage b j (es_created_edges es) cands r"
    and "gr_relations (promoted_graph cands cs es g) j = None \<longleftrightarrow> base_relation g cs j = None"
proof -
  let ?F = "final_relations (cs_created_relations cs) (es_usage es)"
  let ?m = "map_of (map (\<lambda>r. (rr_id r, r)) (final_records cs es))"
  have get: "gr_relations (promoted_graph cands cs es g) j = (case ?m j of None \<Rightarrow> gr_relations g j | Some r \<Rightarrow> Some r)"
    by (simp add: promoted_graph_def with_relations_get [OF promotion_final_distinct [OF assms]] split: option.split)
  have mem: "(j, r) \<in> set ?F" if "?m j = Some r" for r
    using map_of_SomeD [OF that] final_recordsD [OF assms] by auto
  have absent: "j \<notin> fst ` set ?F" if "?m j = None"
    using that final_may_become(1) [OF assms] by (force simp: map_of_eq_None_iff final_records_def)
  have based: "\<exists>b. base_relation g cs j = Some b \<and> counted_usage b j (es_created_edges es) cands r"
    if "gr_relations (promoted_graph cands cs es g) j = Some r" for r
    using that final_relation(1) [OF assms mem] final_relation(2) [OF assms absent]
    by (auto simp: get split: option.splits)
  then show "gr_relations (promoted_graph cands cs es g) j = Some r \<Longrightarrow>
      \<exists>b. base_relation g cs j = Some b \<and> counted_usage b j (es_created_edges es) cands r" .
  have "gr_relations (promoted_graph cands cs es g) j \<noteq> None" if "base_relation g cs j = Some b" for b
    using final_relation(3) [OF assms that] absent by (auto simp: get split: option.splits)
  then show "gr_relations (promoted_graph cands cs es g) j = None \<longleftrightarrow> base_relation g cs j = None"
    using based by (cases "base_relation g cs j"; cases "gr_relations (promoted_graph cands cs es g) j") auto
qed

lemma base_counts:
  assumes "promotion g cids cands cs es" "base_relation g cs j = Some b"
  shows "unat (rr_confirmed_edge_count b) = msum (uses_relation j) (gr_edges g)"
    and "unat (rr_provisional_reference_count b) = msum (provisional_uses j) (gr_candidates g)"
proof -
  have g: "graph_ok g" using assms(1) by (simp add: promotion_def)
  then have fin: "finite (dom (gr_edges g))" "finite (dom (gr_candidates g))" by (simp_all add: graph_ok_def finite_graph_def)
  have "unat (rr_confirmed_edge_count b) = msum (uses_relation j) (gr_edges g) \<and>
      unat (rr_provisional_reference_count b) = msum (provisional_uses j) (gr_candidates g)"
    using assms
  proof (cases rule: base_cases)
    case created
    have "uses_relation j e = 0" if "gr_edges g i = Some e" for i e
      using g that created(3) by (fastforce simp: graph_ok_def references_ok_def uses_relation_def)
    moreover have "provisional_uses j c = 0" if "gr_candidates g i = Some c" for i c
    proof -
      have "dependencies_ok g c" using g that by (auto simp: graph_ok_def references_ok_def)
      then show ?thesis using created(3) by (cases c) auto
    qed
    ultimately show ?thesis
      using promotion_created_relations(3) [OF assms(1) created(1)]
        msum_eq_0_iff [OF fin(1), of "uses_relation j"] msum_eq_0_iff [OF fin(2), of "provisional_uses j"] by auto
  next
    case existing
    then show ?thesis using g by (auto simp: graph_ok_def counts_ok_def)
  qed
  then show "unat (rr_confirmed_edge_count b) = msum (uses_relation j) (gr_edges g)"
    and "unat (rr_provisional_reference_count b) = msum (provisional_uses j) (gr_candidates g)" by simp_all
qed

lemma promoted_counts:
  assumes "promotion g cids cands cs es"
  shows "counts_ok (promoted_graph cands cs es g)"
proof -
  have g: "graph_ok g" "closed_selection g cids cands" "selection g cids cands"
    using assms by (simp_all add: promotion_def closed_selection_def)
  then have fin: "finite (dom (gr_edges g))" "finite (dom (gr_candidates g))" by (simp_all add: graph_ok_def finite_graph_def)
  note E = promotion_created_edges [OF assms] and F = promoted_fields [OF assms]
  have edges: "msum (uses_relation j) (gr_edges (promoted_graph cands cs es g)) =
      msum (uses_relation j) (gr_edges g) + sum_list (map (uses_relation j) (es_created_edges es))" for j
    using with_edges_msum [of "with_relations (final_records cs es) (with_nodes (cs_created_nodes cs) (without_candidates cands g))"
        "es_created_edges es" "uses_relation j"] fin(1) E(1,3) by (simp add: promoted_graph_def)
  note rest = remaining_msum [OF g(3) fin(2)]
  show ?thesis
    unfolding counts_ok_def F(3) edges
  proof (intro conjI allI impI)
    fix j r assume "gr_relations (promoted_graph cands cs es g) j = Some r"
    from promoted_relation(1) [OF assms this] obtain b where b: "base_relation g cs j = Some b"
      "counted_usage b j (es_created_edges es) cands r" by blast
    then show "unat (rr_confirmed_edge_count r) =
        msum (uses_relation j) (gr_edges g) + sum_list (map (uses_relation j) (es_created_edges es))"
      using base_counts [OF assms b(1)] by (simp add: counted_usage_def)
    show "unat (rr_provisional_reference_count r) = msum (provisional_uses j) (gr_candidates (without_candidates cands g))"
      using base_counts [OF assms b(1)] b(2) rest [of "provisional_uses j"] by (simp add: counted_usage_def)
  next
    fix i c n assume c: "gr_candidates (without_candidates cands g) i = Some c" "durable_incoming c = Some (i, n)"
    then have "gr_candidates g i = Some c" "i \<notin> candidate_id_of ` set cands"
      by (auto simp: without_candidates_def restrict_map_def split: if_splits)
    then have "unat n = msum (candidate_refs i) (gr_candidates g)" "i \<notin> set cids"
      using g c(2) by (auto simp: graph_ok_def counts_ok_def selection_def)
    moreover from this have "sum_list (map (candidate_refs i) cands) = 0"
      using selected_refs [OF g(2)] by auto
    ultimately show "unat n = msum (candidate_refs i) (gr_candidates (without_candidates cands g))"
      using rest [of "candidate_refs i"] by (metis add_0_right)
  qed
qed

lemma resolved_known:
  assumes "promotion g cids cands cs es" "resolve_confirmed_node ref (cs_resolved_nodes cs) = Inr i" "node_reference_ok g ref"
  shows "gr_nodes (promoted_graph cands cs es g) i \<noteq> None"
proof (cases ref)
  case (NodeConfirmed k)
  then show ?thesis using assms(2,3) promoted_fields(1) [OF assms(1), of i] by (auto simp: not_None_eq)
next
  case (NodeCandidate k)
  with assms(2) obtain r where r: "cs_resolved_nodes cs k = Some r" "nr_id r = i" by auto
  have "node_plan g (gr_next_node g) cs" using assms(1) by (simp add: promotion_def resolution_inv_def)
  then have "gr_nodes g (nr_id r) = Some r \<or> r \<in> set (cs_created_nodes cs)" using r(1) unfolding node_plan_def by blast
  then show ?thesis using r(2) promoted_fields(1) [OF assms(1), of i r] by auto
qed

lemma promoted_references:
  assumes "promotion g cids cands cs es"
  shows "references_ok (promoted_graph cands cs es g)"
proof -
  have g: "graph_ok g" "closed_selection g cids cands" "selection g cids cands" "references_ok g"
    using assms by (simp_all add: promotion_def closed_selection_def graph_ok_def)
  note E = promotion_created_edges [OF assms] and F = promoted_fields [OF assms]
  have nodes: "gr_nodes (promoted_graph cands cs es g) i \<noteq> None" if "gr_nodes g i \<noteq> None" for i
    using that F(1) [of i] by auto
  have rels: "gr_relations (promoted_graph cands cs es g) i \<noteq> None" if "gr_relations g i \<noteq> None" for i
    using that promoted_relation(2) [OF assms, of i] by (auto simp: base_relation_def split: option.splits)
  have "gr_nodes (promoted_graph cands cs es g) (er_source e) \<noteq> None \<and>
      gr_nodes (promoted_graph cands cs es g) (er_destination e) \<noteq> None \<and>
      gr_relations (promoted_graph cands cs es g) (er_relation_kind e) \<noteq> None"
    if "e \<in> set (es_created_edges es)" for e
  proof -
    from E(4) [OF that] obtain c where c: "c \<in> set cands" "promoted_edge cs c e" by blast
    have "dependencies_ok g c" using g(3,4) c(1) by (auto simp: selection_def references_ok_def)
    then show ?thesis using c(2) E(5) [OF that] resolved_known [OF assms] promoted_relation(2) [OF assms]
      by (cases c) auto
  qed
  moreover have "gr_nodes (promoted_graph cands cs es g) (er_source e) \<noteq> None \<and>
      gr_nodes (promoted_graph cands cs es g) (er_destination e) \<noteq> None \<and>
      gr_relations (promoted_graph cands cs es g) (er_relation_kind e) \<noteq> None"
    if "gr_edges g i = Some e" for i e
    using that g(4) nodes [of "er_source e"] nodes [of "er_destination e"] rels [of "er_relation_kind e"]
    unfolding references_ok_def by blast
  moreover have "dependencies_ok (promoted_graph cands cs es g) c"
    if c: "gr_candidates (without_candidates cands g) i = Some c" for i c
  proof -
    have "gr_candidates g i = Some c" using c by (auto simp: without_candidates_def restrict_map_def split: if_splits)
    then have old: "dependencies_ok g c" using g(4) by (simp add: references_ok_def)
    have kept: "gr_candidates (promoted_graph cands cs es g) k = gr_candidates g k" if "candidate_refs k c > 0" for k
      using remaining_refs [OF g(1,2) c that] g(3) unfolding F(3) without_candidates_def
      by (auto simp: restrict_map_def selection_def)
    show ?thesis
    proof (cases c)
      case (CandidateEdge cid s d r w)
      have "node_reference_ok (promoted_graph cands cs es g) s"
        using old CandidateEdge kept nodes by (cases s) auto
      moreover have "node_reference_ok (promoted_graph cands cs es g) d"
        using old CandidateEdge kept nodes by (cases d) auto
      moreover have "relation_reference_ok (promoted_graph cands cs es g) r"
        using old CandidateEdge kept rels by (cases r) auto
      ultimately show ?thesis by (simp add: CandidateEdge)
    qed simp_all
  qed
  ultimately show ?thesis unfolding references_ok_def F(3) using F(2) by blast
qed

lemma promoted_counters:
  assumes "promotion g cids cands cs es"
  shows "counters_ok (promoted_graph cands cs es g)"
proof -
  have g: "counters_ok g" using assms by (simp add: promotion_def graph_ok_def)
  note N = promotion_created_nodes [OF assms] and E = promotion_created_edges [OF assms]
    and R = promotion_created_relations [OF assms] and F = promoted_fields [OF assms]
  have nexts: "gr_next_node (promoted_graph cands cs es g) = cs_following_node cs"
    "gr_next_relation (promoted_graph cands cs es g) = cs_following_relation cs"
    "gr_next_edge (promoted_graph cands cs es g) = es_following_edge es" by (simp_all add: promoted_graph_def)
  have pos: "w \<noteq> 0" if "v \<le> w" "v \<noteq> 0" for v w :: u64 using that by auto
  note G = g [unfolded counters_ok_def]
  have rel: "relation_id_as_u64 j < cs_following_relation cs" if "gr_relations (promoted_graph cands cs es g) j = Some r" for j r
  proof -
    from promoted_relation(1) [OF assms that] obtain b where "base_relation g cs j = Some b" by blast
    with assms show ?thesis
    proof (cases rule: base_cases)
      case created
      then show ?thesis using R(6) [of b] by simp
    next
      case existing
      then show ?thesis using g R(7) by (auto simp: counters_ok_def intro: less_le_trans)
    qed
  qed
  have cand: "gr_candidates g i = Some c" if "gr_candidates (without_candidates cands g) i = Some c" for i c
    using that by (auto simp: without_candidates_def restrict_map_def split: if_splits)
  show ?thesis
    unfolding counters_ok_def nexts F(3,4)
  proof (intro conjI allI impI)
    show "gr_next_candidate g \<noteq> 0" "cs_following_node cs \<noteq> 0" "cs_following_relation cs \<noteq> 0" "es_following_edge es \<noteq> 0"
      using G pos N(7) R(7) E(7) by blast+
    show "candidate_id_as_u64 i < gr_next_candidate g" if "gr_candidates (without_candidates cands g) i = Some c" for i c
      using cand [OF that] G by blast
    show "node_id_as_u64 i < cs_following_node cs" if "gr_nodes (promoted_graph cands cs es g) i = Some n" for i n
      using that N(6) [of n] N(7) G unfolding F(1) by (auto intro: less_le_trans)
    show "edge_id_as_u64 i < es_following_edge es" if "gr_edges (promoted_graph cands cs es g) i = Some e" for i e
      using that E(6) [of e] E(7) G unfolding F(2) by (auto intro: less_le_trans)
  qed (rule rel)
qed

lemma promoted_graph_ok:
  assumes "promotion g cids cands cs es" "records_ok (promoted_graph cands cs es g)"
  shows "graph_ok (promoted_graph cands cs es g)"
proof -
  have g: "finite_graph g" "pointer_ok g" using assms(1) by (simp_all add: promotion_def graph_ok_def)
  note F = promoted_fields [OF assms(1)]
  have "finite (dom (gr_nodes (promoted_graph cands cs es g)))"
  proof (rule finite_subset)
    show "dom (gr_nodes (promoted_graph cands cs es g)) \<subseteq> dom (gr_nodes g) \<union> nr_id ` set (cs_created_nodes cs)"
      using F(1) by auto
  qed (use g(1) in \<open>simp add: finite_graph_def\<close>)
  moreover have "finite (dom (gr_edges (promoted_graph cands cs es g)))"
  proof (rule finite_subset)
    show "dom (gr_edges (promoted_graph cands cs es g)) \<subseteq> dom (gr_edges g) \<union> er_id ` set (es_created_edges es)"
      using F(2) by auto
  qed (use g(1) in \<open>simp add: finite_graph_def\<close>)
  moreover have "finite (dom (gr_relations (promoted_graph cands cs es g)))"
  proof (rule finite_subset)
    show "dom (gr_relations (promoted_graph cands cs es g)) \<subseteq> dom (gr_relations g) \<union> rr_id ` set (cs_created_relations cs)"
    proof
      fix j assume "j \<in> dom (gr_relations (promoted_graph cands cs es g))"
      then obtain b where "base_relation g cs j = Some b" using promoted_relation(1) [OF assms(1)] by blast
      with assms(1) show "j \<in> dom (gr_relations g) \<union> rr_id ` set (cs_created_relations cs)"
        by (cases rule: base_cases) auto
    qed
  qed (use g(1) in \<open>simp add: finite_graph_def\<close>)
  moreover have "finite (dom (gr_candidates (promoted_graph cands cs es g)))"
    using g(1) by (simp add: F(3) without_candidates_def finite_graph_def)
  moreover have "pointer_ok (promoted_graph cands cs es g)" using g(2) by (simp add: pointer_ok_def promoted_graph_def)
  ultimately show ?thesis
    using assms(2) promoted_references [OF assms(1)] promoted_counts [OF assms(1)] promoted_counters [OF assms(1)]
    by (simp add: graph_ok_def finite_graph_def)
qed

section \<open>The name indexes\<close>

lemma find_own: "distinct (map rr_id rs) \<Longrightarrow> b \<in> set rs \<Longrightarrow> List.find (\<lambda>r. rr_id r = rr_id b) rs = Some b"
  by (induction rs) (auto simp: image_iff)

lemma find_key: "List.find (\<lambda>r. rr_id r = j) rs = Some b \<Longrightarrow> b \<in> set rs \<and> rr_id b = j"
  by (auto simp: find_Some_iff)

lemma promoted_indexes:
  assumes "promotion g cids cands cs es" "indexes_ok g node_names relation_names"
  shows "indexes_ok (promoted_graph cands cs es g) (index_created_nodes (cs_created_nodes cs) node_names)
    (index_created_relations (cs_created_relations cs) relation_names)"
  unfolding indexes_ok_def
proof (intro conjI allI)
  note N = promotion_created_nodes [OF assms(1)] and R = promotion_created_relations [OF assms(1)]
  have inj: "inj node_name_as_str" "inj relation_name_as_str"
    by (auto intro!: injI node_name.expand relation_name.expand)
  have dn: "distinct (map (\<lambda>r. node_name_as_str (nr_name r)) (cs_created_nodes cs))"
    using N(2) inj(1) by (simp add: distinct_map comp_inj_on inj_on_subset flip: comp_def [of node_name_as_str nr_name])
  have dr: "distinct (map (\<lambda>r. relation_name_as_str (rr_name r)) (cs_created_relations cs))"
    using R(2) inj(2) by (simp add: distinct_map comp_inj_on inj_on_subset flip: comp_def [of relation_name_as_str rr_name])
  fix name
  show "index_created_nodes (cs_created_nodes cs) node_names name = Some i \<longleftrightarrow>
      names_node (promoted_graph cands cs es g) name i" for i
  proof -
    have old: "name \<notin> (\<lambda>r. node_name_as_str (nr_name r)) ` set (cs_created_nodes cs)" if "names_node g name i"
      using that N(5) inj(1) by (auto simp: names_node_def inj_eq)
    have "node_names name = Some i \<longleftrightarrow> names_node g name i" using assms(2) by (simp add: indexes_ok_def)
    moreover have "names_node (promoted_graph cands cs es g) name i \<longleftrightarrow>
        (\<exists>n \<in> set (cs_created_nodes cs). node_name_as_str (nr_name n) = name \<and> nr_id n = i) \<or> names_node g name i"
      unfolding names_node_def promoted_fields(1) [OF assms(1)] by blast
    ultimately show ?thesis
      using old unfolding index_created_nodes_def fold_upd_get [of "\<lambda>r. node_name_as_str (nr_name r)" _ nr_id, OF dn] by blast
  qed
  have base_split: "b \<in> set (cs_created_relations cs) \<and> rr_id b = j \<or> gr_relations g j = Some b"
    if "base_relation g cs j = Some b" for j b
    using assms(1) that by (cases rule: base_cases) auto
  have base: "names_relation (promoted_graph cands cs es g) name j \<longleftrightarrow>
      (\<exists>b. base_relation g cs j = Some b \<and> relation_name_as_str (rr_name b) = name)" for j
    using promoted_relation [OF assms(1), of j] unfolding names_relation_def counted_usage_def
    by (cases "gr_relations (promoted_graph cands cs es g) j") auto
  show "index_created_relations (cs_created_relations cs) relation_names name = Some j \<longleftrightarrow>
      names_relation (promoted_graph cands cs es g) name j" for j
  proof -
    have old: "name \<notin> (\<lambda>r. relation_name_as_str (rr_name r)) ` set (cs_created_relations cs)" if "names_relation g name j"
      using that R(5) inj(2) by (auto simp: names_relation_def inj_eq)
    have new: "base_relation g cs (rr_id b) = Some b" if "b \<in> set (cs_created_relations cs)" for b
      using find_own [OF R(1) that] by (simp add: base_relation_def)
    have kept: "base_relation g cs j = Some b" if "gr_relations g j = Some b" for b
    proof (cases "List.find (\<lambda>r. rr_id r = j) (cs_created_relations cs)")
      case (Some r)
      from find_key [OF this] R(4) [of r] that show ?thesis by simp
    qed (simp add: base_relation_def that)
    have "relation_names name = Some j \<longleftrightarrow> names_relation g name j" using assms(2) by (simp add: indexes_ok_def)
    moreover have "(\<exists>b. base_relation g cs j = Some b \<and> relation_name_as_str (rr_name b) = name) \<longleftrightarrow>
        (\<exists>r \<in> set (cs_created_relations cs). relation_name_as_str (rr_name r) = name \<and> rr_id r = j) \<or> names_relation g name j"
      unfolding names_relation_def using new kept base_split [of j] by blast
    ultimately show ?thesis
      using old unfolding base index_created_relations_def
        fold_upd_get [of "\<lambda>r. relation_name_as_str (rr_name r)" _ rr_id, OF dr] by blast
  qed
qed

section \<open>The operation\<close>

lemma confirm_records_Inr:
  assumes "reading api view g db" "graph_ok g" "closed_selection g cids cands" "indexes_ok g node_index relation_index"
    and "confirm_records api reserve node_index relation_index maximum cands counts db = Inr (batch, cs, es)"
  shows "promotion g cids cands cs es" "confirmation_batch api db cands cs es = Inr batch"
proof -
  from assms(5) obtain n r e where
    n: "read_metadata api db META_NEXT_NODE_ID = Inr n" and
    r: "read_metadata api db META_NEXT_RELATION_ID = Inr r" and
    e: "read_metadata api db META_NEXT_EDGE_ID = Inr e" and
    cs: "fold_result (resolve_candidate api db node_index relation_index) (enumerate 0 cands)
      \<lparr>cs_following_node = n, cs_following_relation = r, cs_planned_node_names = Map.empty,
       cs_planned_relation_names = Map.empty, cs_resolved_nodes = Map.empty, cs_resolved_relations = Map.empty,
       cs_created_nodes = [], cs_created_relations = [], cs_aligned = replicate (length cands) None\<rparr> = Inr cs" and
    es: "fold_result (confirm_edge api db cs) (enumerate 0 cands)
      \<lparr>es_following_edge = e, es_usage = [], es_created_edges = [], es_aligned = cs_aligned cs\<rparr> = Inr es" and
    batch: "confirmation_batch api db cands cs es = Inr batch"
    by (auto simp: confirm_records_def rbind_Inr_iff)
  show "confirmation_batch api db cands cs es = Inr batch" by (rule batch)
  note m = read_metadata_Inr(2) [OF assms(1) n] read_metadata_Inr(3) [OF assms(1) r] read_metadata_Inr(4) [OF assms(1) e]
  have sel: "selection g cids cands" using assms(3) by (simp add: closed_selection_def)
  have res: "resolution_inv g cands (length cands) cs"
    using cs by (intro resolve_candidates_Inr [OF assms(1,4) sel]) (simp add: initial_plan_def m)
  then have base: "base_ok (base_relation g cs)" "length (cs_aligned cs) = length cands"
    using base_relation_ok [of g "gr_next_relation g" cs] assms(1) by (simp_all add: resolution_inv_def reading_def)
  have "promotion_inv g cs cands (length cands) es"
    using es by (intro confirm_edges_Inr [OF assms(1) base]) (simp add: m)
  with res assms(2,3) show "promotion g cids cands cs es" by (simp add: promotion_def)
qed

lemma aligned_filled:
  assumes "promotion g cids cands cs es" "l < length cands"
  shows "\<exists>x. es_aligned es ! l = Some x"
proof -
  have r: "resolved_as cs (cands ! l) (cs_aligned cs ! l)" using assms by (auto simp: promotion_def resolution_inv_def)
  have p: "if is_candidate_edge (cands ! l) then \<exists>e \<in> set (es_created_edges es). es_aligned es ! l = Some (ConfirmedEdge e)
        \<and> promoted_edge cs (cands ! l) e
      else es_aligned es ! l = cs_aligned cs ! l"
    using assms unfolding promotion_def promotion_inv_def by metis
  then show ?thesis using r by (cases "cands ! l") auto
qed

lemma expect_all_Inr: "(\<And>l. l < length xs \<Longrightarrow> \<exists>x. xs ! l = Some x) \<Longrightarrow> \<exists>ys. expect_all xs = Inr ys \<and> map Some ys = xs"
proof (induction xs)
  case (Cons x xs)
  from Cons.prems [of 0] obtain y where "x = Some y" by auto
  moreover have "\<exists>ys. expect_all xs = Inr ys \<and> map Some ys = xs"
    using Cons.prems by (intro Cons.IH) (auto dest: spec [of _ "Suc _"], metis Suc_mono nth_Cons_Suc)
  ultimately show ?case by auto
qed simp

lemma promotion_records:
  assumes "promotion g cids cands cs es"
  obtains records where "expect_all (es_aligned es) = Inr records" "map Some records = es_aligned es" "length records = length cands"
proof -
  have len: "length (es_aligned es) = length cands" using assms by (simp add: promotion_def promotion_inv_def)
  then obtain records where "expect_all (es_aligned es) = Inr records" "map Some records = es_aligned es"
    using expect_all_Inr [of "es_aligned es"] aligned_filled [OF assms] by auto
  moreover from this have "length records = length cands" using len by (metis length_map)
  ultimately show thesis by (rule that)
qed

text \<open>A created node has the name and the payload of one of the selected candidates, a created relation
  kind the name of one.\<close>

definition drawn_from_candidates :: "candidate list \<Rightarrow> confirm_state \<Rightarrow> bool" where
  "drawn_from_candidates cands cs \<longleftrightarrow>
     (\<forall>r \<in> set (cs_created_nodes cs). \<exists>cid n. CandidateNode cid (nr_name r) (nr_payload r) n \<in> set cands) \<and>
     (\<forall>r \<in> set (cs_created_relations cs). \<exists>cid n. CandidateRelation cid (rr_name r) n \<in> set cands)"

lemma resolve_candidate_drawn:
  assumes "drawn_from_candidates cands s" "c \<in> set cands" "resolve_candidate api db ni ri (k, c) s = Inr t"
  shows "drawn_from_candidates cands t"
proof (cases c)
  case (CandidateNode cid name payload n)
  have "set (cs_created_nodes t) \<subseteq>
      insert \<lparr>nr_id = NodeId (cs_following_node s), nr_name = name, nr_payload = payload\<rparr> (set (cs_created_nodes s))"
    using assms(3) by (auto simp: CandidateNode rbind_Inr_iff resolve_node_name_def Let_def split: option.splits)
  moreover have "cs_created_relations t = cs_created_relations s"
    using assms(3) by (auto simp: CandidateNode rbind_Inr_iff resolve_node_name_def Let_def split: option.splits)
  ultimately show ?thesis using assms(1,2) unfolding drawn_from_candidates_def CandidateNode by (auto dest!: subsetD) blast
next
  case (CandidateRelation cid name n)
  have "set (cs_created_relations t) \<subseteq>
      insert (relation_record_new (RelationId (cs_following_relation s)) name) (set (cs_created_relations s))"
    using assms(3) by (auto simp: CandidateRelation rbind_Inr_iff resolve_relation_name_def Let_def split: option.splits)
  moreover have "cs_created_nodes t = cs_created_nodes s"
    using assms(3) by (auto simp: CandidateRelation rbind_Inr_iff resolve_relation_name_def Let_def split: option.splits)
  moreover have "rr_name (relation_record_new i name) = name" for i by (simp add: relation_record_new_def relation_record_with_usage_def)
  ultimately show ?thesis using assms(1,2) unfolding drawn_from_candidates_def CandidateRelation by (auto dest!: subsetD) blast
qed (use assms in simp)

lemma confirm_records_drawn:
  assumes "confirm_records api reserve ni ri maximum cands counts db = Inr (batch, cs, es)"
  shows "drawn_from_candidates cands cs"
proof -
  from assms obtain n r where fold: "fold_result (resolve_candidate api db ni ri) (enumerate 0 cands)
      \<lparr>cs_following_node = n, cs_following_relation = r, cs_planned_node_names = Map.empty,
       cs_planned_relation_names = Map.empty, cs_resolved_nodes = Map.empty, cs_resolved_relations = Map.empty,
       cs_created_nodes = [], cs_created_relations = [], cs_aligned = replicate (length cands) None\<rparr> = Inr cs"
      (is "fold_result ?f ?cs ?s0 = _")
    by (auto simp: confirm_records_def rbind_Inr_iff)
  have "ensures (\<lambda>_. True) (drawn_from_candidates cands) (fold_result ?f ?cs ?s0)"
  proof (rule ensures_fold_result [where P = "\<lambda>_. drawn_from_candidates cands"])
    show "drawn_from_candidates cands ?s0" by (simp add: drawn_from_candidates_def)
    fix seen x rest s assume *: "enumerate 0 cands = seen @ x # rest" "drawn_from_candidates cands s"
    note x = enumerate_split [OF *(1)]
    then have "snd x \<in> set cands" by simp
    with *(2) show "ensures (\<lambda>_. True) (drawn_from_candidates cands) (resolve_candidate api db ni ri x s)"
      using resolve_candidate_drawn [of cands s "snd x" api db ni ri "fst x"]
      by (cases "resolve_candidate api db ni ri x s") simp_all
  qed
  with fold show ?thesis by simp
qed

lemma confirm_holds:
  assumes "rocks_sound api view" "catalog_holds view g cat"
    and "confirm_candidate_batch_with_response_limit api reserve cids maximum cat = (Inr result, cat')"
  obtains cands cs es where "promotion g cids cands cs es" "catalog_holds view (promoted_graph cands cs es g) cat'"
    "map Some (cb_records result) = es_aligned es" "cb_counts result = counts_of cands"
    "cb_graph_changed result = graph_changed cs es" "cb_created_nodes result = length (cs_created_nodes cs)"
    "cb_created_relation_kinds result = length (cs_created_relations cs)" "drawn_from_candidates cands cs"
proof -
  note rd = catalog_holds_reading [OF assms(1,2)]
  have g: "graph_ok g" "counts_ok g" "indexes_ok g (ct_node_names cat) (ct_relation_names cat)"
    using assms(2) by (simp_all add: catalog_holds_def graph_ok_def)
  from assms(3) obtain cands counts batch cs es cat1 records where
    sel: "confirm_selection api reserve cids (ct_db cat) = Inr (cands, counts)" and
    plan: "confirm_records api reserve (ct_node_names cat) (ct_relation_names cat) maximum cands counts (ct_db cat)
      = Inr (batch, cs, es)" and
    commit: "commit_batch api batch cat = (Inr (), cat1)" and
    records: "expect_all (es_aligned es) = Inr records" and
    cat': "cat' = cat1\<lparr>ct_node_names := index_created_nodes (cs_created_nodes cs) (ct_node_names cat1),
      ct_relation_names := index_created_relations (cs_created_relations cs) (ct_relation_names cat1)\<rparr>" and
    result: "result = \<lparr>cb_records = records, cb_counts = counts, cb_graph_changed = graph_changed cs es,
      cb_created_nodes = length (cs_created_nodes cs), cb_created_relation_kinds = length (cs_created_relations cs)\<rparr>"
    by (auto simp: confirm_candidate_batch_with_response_limit_def fail_def rbind_Inr_iff Let_def
        split: if_splits sum.splits prod.splits)
  note S = confirm_selection_Inr [OF rd g(2) sel]
  note P = confirm_records_Inr [OF rd g(1) conjunct1 [OF S] g(3) plan]
  note stored = confirmation_batch_Inr [OF rd P(1) catalog_holds_stored [OF assms(2)] P(2)]
  have ok: "graph_ok (promoted_graph cands cs es g)"
    using stored by (intro promoted_graph_ok [OF P(1)]) (simp add: stored_graph_def)
  have "catalog_holds view (promoted_graph cands cs es g) cat'"
  proof (rule committed_holds [OF assms(1,2) commit stored ok])
    show "ct_db cat' = ct_db cat1" "unpoisoned cat' \<longleftrightarrow> unpoisoned cat1" by (simp_all add: cat' unpoisoned_def)
    show "indexes_ok (promoted_graph cands cs es g) (ct_node_names cat') (ct_relation_names cat')"
      using promoted_indexes [OF P(1) g(3)] commit_batch_Inr [OF assms(1) commit] by (simp add: cat')
  qed
  moreover have "map Some records = es_aligned es" using promotion_records [OF P(1)] records by fastforce
  ultimately show thesis using that [OF P(1)] S confirm_records_drawn [OF plan] by (simp add: result)
qed

end
