(* ===== verification/Catalog_Failures.thy ===== *)
theory Catalog_Failures
  imports Catalog_Confirmed
begin

text \<open>
  What a failed mutation leaves behind: a well-formed catalog is unchanged, and the failure is an
  error value, never a panic. The indexing and the \<^verbatim>\<open>expect\<close> of the mutating operations cannot
  fail, so no lock is ever poisoned.
\<close>

section \<open>Computations without a panic\<close>

lemma lifted_calm [simp]: "lifted m \<noteq> Inl Panicked" "fail e \<noteq> Inl Panicked" "try_reserve reserve s n op \<noteq> Inl Panicked"
  by (cases m; simp add: lifted_def fail_def try_reserve_def)+

lemma rbind_panics: "rbind m f = Inl Panicked \<longleftrightarrow> m = Inl Panicked \<or> (\<exists>x. m = Inr x \<and> f x = Inl Panicked)"
  by (cases m) auto

lemma fold_calm: "(\<And>x s. x \<in> set xs \<Longrightarrow> f x s \<noteq> Inl Panicked) \<Longrightarrow> fold_result f xs s \<noteq> Inl Panicked"
  by (induction xs arbitrary: s) (auto simp: rbind_panics)

lemma guards_calm [simp]:
  "write_guard cat \<noteq> Inl Panicked" "node_index_write cat \<noteq> Inl Panicked" "relation_index_write cat \<noteq> Inl Panicked"
  by (simp_all add: write_guard_def node_index_write_def relation_index_write_def)

lemma ensures_calm: "ensures (\<lambda>f. f \<noteq> Panicked) P m \<Longrightarrow> m \<noteq> Inl Panicked"
  by auto

lemma ensures_lifted [simp]: "ensures (\<lambda>f. f \<noteq> Panicked) P (lifted m) \<longleftrightarrow> (\<forall>x. m = Inr x \<longrightarrow> P x)"
  by (cases m) auto

lemma ensures_fail [simp]: "ensures (\<lambda>f. f \<noteq> Panicked) P (fail e)"
  by (simp add: fail_def)

section \<open>Removal\<close>

lemma relation_update_ops_calm [simp]: "relation_update_ops old new \<noteq> Inl Panicked"
  by (simp add: relation_update_ops_def rbind_panics)

lemma decremented_relation_calm [simp]: "decremented_relation old n op \<noteq> Inl Panicked"
  by (simp add: decremented_relation_def rbind_panics)

lemma remove_edge_plan_calm: "remove_edge_plan api i cat \<noteq> Inl Panicked"
  by (simp add: remove_edge_plan_def Let_def rbind_panics require_column_families_def)

lemma remove_node_plan_calm: "remove_node_plan api order i cat \<noteq> Inl Panicked"
proof -
  have "fold_result collect_incident es m \<noteq> Inl Panicked" for es m
    by (rule fold_calm) (auto simp: collect_incident_def split: option.splits)
  moreover have "fold_result count_decrement es m \<noteq> Inl Panicked" for es m
    by (rule fold_calm) (auto simp: count_decrement_def Let_def rbind_panics)
  moreover have "fold_result (apply_decrement api db) ds st \<noteq> Inl Panicked" for db ds st
    by (rule fold_calm) (auto simp: apply_decrement_def rbind_panics)
  ultimately show ?thesis
    by (auto simp: remove_node_plan_def Let_def rbind_panics require_column_families_def split: option.splits if_splits)
qed

section \<open>Insertion\<close>

lemma resolve_batch_calm:
  assumes "length ids = length entries" "length incoming = length entries"
  shows "ensures (\<lambda>f. f \<noteq> Panicked) (\<lambda>(r, incoming). length incoming = length entries)
      (resolve_batch_node_reference api db entries ids owner ep nref incoming)"
    and "ensures (\<lambda>f. f \<noteq> Panicked) (\<lambda>(r, incoming, provisional). length incoming = length entries)
      (resolve_batch_relation_reference api db entries ids owner rref (incoming, provisional))"
proof -
  have in_range: "l < length entries" if "is_entry_node (get entries l) \<or> is_entry_relation_kind (get entries l)" for l
    using that by (cases "l < length entries") (auto simp: get_def)
  have incr: "ensures (\<lambda>f. f \<noteq> Panicked) P (increment_incoming l incoming)"
    if "l < length entries" "\<And>inc. length inc = length entries \<Longrightarrow> P inc" for l P
    using that assms(2) by (simp add: increment_incoming_def)
  show "ensures (\<lambda>f. f \<noteq> Panicked) (\<lambda>(r, incoming). length incoming = length entries)
      (resolve_batch_node_reference api db entries ids owner ep nref incoming)"
  proof (cases nref)
    case (BatchNode l)
    show ?thesis
      using in_range [of l] assms(1) by (cases "is_entry_node (get entries l)") (simp_all add: BatchNode incr)
  qed (simp add: assms)
  show "ensures (\<lambda>f. f \<noteq> Panicked) (\<lambda>(r, incoming, provisional). length incoming = length entries)
      (resolve_batch_relation_reference api db entries ids owner rref (incoming, provisional))"
  proof (cases rref)
    case (BatchRelationKind l)
    show ?thesis
      using in_range [of l] assms(1)
      by (cases "is_entry_relation_kind (get entries l)") (simp_all add: BatchRelationKind incr)
  qed (simp add: assms Let_def)
qed

lemma insert_entry_calm:
  assumes "length ids = length entries" "i < length entries" "length (in_incoming s) = length entries"
  shows "ensures (\<lambda>f. f \<noteq> Panicked) (\<lambda>t. length (in_incoming t) = length entries \<and>
      length (in_candidates t) = Suc (length (in_candidates s))) (insert_entry api db entries ids (i, e) s)"
proof (cases e)
  case (EntryEdge source destination relation_kind weight)
  have d: "ensures (\<lambda>f. f \<noteq> Panicked) P (resolve_batch_node_reference api db entries ids i ep ref inc)"
    if "length inc = length entries" "\<And>r inc. length inc = length entries \<Longrightarrow> P (r, inc)" for P ep ref inc
    by (rule ensures_mono [OF resolve_batch_calm(1) [OF assms(1) that(1)]]) (use that(2) in auto)
  have r: "ensures (\<lambda>f. f \<noteq> Panicked) P (resolve_batch_relation_reference api db entries ids i ref (inc, prov))"
    if "length inc = length entries" "\<And>r inc prov. length inc = length entries \<Longrightarrow> P (r, inc, prov)" for P ref inc prov
    by (rule ensures_mono [OF resolve_batch_calm(2) [OF assms(1) that(1)]]) (use that(2) in auto)
  show ?thesis using assms by (auto simp: EntryEdge intro!: d r)
qed (use assms in auto)

lemma insert_plan_calm: "insert_candidate_plan api reserve entries db \<noteq> Inl Panicked"
proof -
  have loop: "ensures (\<lambda>f. f \<noteq> Panicked) (\<lambda>t. length (in_incoming t) = length entries \<and> length (in_candidates t) = length entries)
      (fold_result (insert_entry api db entries (insertion_ids first (length entries))) (enumerate 0 entries)
        \<lparr>in_counts = counts, in_incoming = replicate (length entries) 0, in_provisional = [], in_candidates = []\<rparr>)"
    for first counts
  proof -
    have "ensures (\<lambda>f. f \<noteq> Panicked) (\<lambda>t. length (in_incoming t) = length entries \<and>
          length (in_candidates t) = length (enumerate 0 entries))
      (fold_result (insert_entry api db entries (insertion_ids first (length entries))) (enumerate 0 entries)
        \<lparr>in_counts = counts, in_incoming = replicate (length entries) 0, in_provisional = [], in_candidates = []\<rparr>)"
    proof (rule ensures_fold_result [where P = "\<lambda>seen (t :: insertion_state). length (in_incoming t) = length entries \<and> length (in_candidates t) = length seen"])
      fix seen x rest and s :: insertion_state
      assume *: "enumerate 0 entries = seen @ x # rest" "length (in_incoming s) = length entries \<and> length (in_candidates s) = length seen"
      show "ensures (\<lambda>f. f \<noteq> Panicked) (\<lambda>t. length (in_incoming t) = length entries \<and> length (in_candidates t) = length (seen @ [x]))
          (insert_entry api db entries (insertion_ids first (length entries)) x s)"
        using insert_entry_calm [of "insertion_ids first (length entries)" entries "length seen" s api db "entries ! length seen"]
          enumerate_split [OF *(1)] *(2) by (simp add: insertion_ids_def)
    qed simp
    then show ?thesis by simp
  qed
  have assign: "assign_incoming inc cs \<noteq> Inl Panicked" if "length inc = length cs" for inc cs
  proof -
    have "ensures (\<lambda>f. f \<noteq> Panicked) (\<lambda>ds. length ds = length cs) (assign_incoming inc cs)"
      unfolding assign_incoming_def
    proof (rule ensures_fold_result [where P = "\<lambda>_ (ds :: candidate list). length ds = length cs"])
      fix seen x rest and ds :: "candidate list" assume *: "enumerate 0 inc = seen @ x # rest" "length ds = length cs"
      have "ensures (\<lambda>f. f \<noteq> Panicked) (\<lambda>_. True) (set_incoming_count i n c)" for i n c by (cases c) simp_all
      then show "ensures (\<lambda>f. f \<noteq> Panicked) (\<lambda>ds. length ds = length cs)
          ((\<lambda>(i, n) candidates. rbind (index candidates i) (\<lambda>candidate.
            rbind (set_incoming_count i n candidate) (\<lambda>candidate. Inr (candidates[i := candidate])))) x ds)"
        using enumerate_split [OF *(1)] *(2) that by (auto intro: ensures_mono)
    qed simp
    then show ?thesis by (rule ensures_calm)
  qed
  have puts: "put_candidates cs b \<noteq> Inl Panicked" for cs b
    unfolding put_candidates_def by (rule fold_calm) (simp add: rbind_panics)
  have provs: "fold_result (put_provisional api db) ps b \<noteq> Inl Panicked" for ps b
    by (rule fold_calm) (auto simp: put_provisional_def rbind_panics Let_def)
  show ?thesis
    using puts provs assign ensures_calm [OF loop] ensures_InrD [OF loop]
    by (auto simp: insert_candidate_plan_def rbind_panics Let_def)
qed

lemma check_batch_limits_calm: "check_batch_limits entries \<noteq> Inl Panicked"
proof -
  have "fold_result entry_bytes entries s \<noteq> Inl Panicked" for s
  proof (rule fold_calm)
    show "entry_bytes e s \<noteq> Inl Panicked" for e s by (cases e; cases s) (simp_all add: rbind_panics)
  qed
  then show ?thesis by (auto simp: check_batch_limits_def rbind_panics)
qed

section \<open>Confirmation\<close>

lemma count_dependency_calm:
  assumes "selected_index cids selected" "length cands = length cids"
  shows "count_dependency api db cands selected c st \<noteq> Inl Panicked"
proof -
  have idx: "index cands k \<noteq> Inl Panicked" if "selected d = Some k" for d k
    using assms that by (auto simp: selected_index_def index_def)
  have n: "validate_selected_node_dependency api db cands selected owner ref inc \<noteq> Inl Panicked" for owner ref inc
    by (cases ref) (auto simp: rbind_panics idx split: option.splits)
  have r: "validate_selected_relation_dependency api db cands selected owner ref inc \<noteq> Inl Panicked" for owner ref inc
    by (cases ref) (auto simp: rbind_panics idx split: option.splits)
  show ?thesis by (cases c; cases st) (simp_all add: rbind_panics n r)
qed

lemma confirm_selection_calm:
  assumes "reading api view g db"
  shows "confirm_selection api reserve cids db \<noteq> Inl Panicked"
proof -
  have "fold_result (select_candidate api db) xs st \<noteq> Inl Panicked" for xs st
    by (rule fold_calm) (auto simp: select_candidate_def rbind_panics split: prod.splits)
  moreover have "fold_result (count_dependency api db cands selected) cands st \<noteq> Inl Panicked"
    if "fold_result (select_candidate api db) (enumerate 0 cids) (Map.empty, []) = Inr (selected, cands)" for selected cands st
  proof -
    note S = select_candidates_Inr [OF assms that]
    then have "selected_index cids selected" "length cands = length cids"
      by (auto simp: selection_def)
    from count_dependency_calm [OF this] show ?thesis by (intro fold_calm)
  qed
  moreover have "check_closure incoming cands \<noteq> Inl Panicked" for incoming cands
    unfolding check_closure_def by (rule fold_calm) (auto simp: Let_def split: option.splits prod.splits)
  ultimately show ?thesis by (auto simp: confirm_selection_def rbind_panics)
qed

lemma confirmation_batch_calm: "confirmation_batch api db cands cs es \<noteq> Inl Panicked"
proof -
  have nodes: "fold_result put_created_node ns b \<noteq> Inl Panicked" for ns b
    by (rule fold_calm) (simp add: put_created_node_def rbind_panics)
  have rels: "fold_result (put_final_relation api db created) rs b \<noteq> Inl Panicked" for created rs b
    by (rule fold_calm) (auto simp: put_final_relation_def rbind_panics split: prod.splits)
  show ?thesis using nodes rels by (auto simp: confirmation_batch_def rbind_panics Let_def)
qed

lemma confirm_records_calm: "confirm_records api reserve ni ri maximum cands counts db \<noteq> Inl Panicked"
proof -
  have names: "resolve_node_name api db ni nm p s \<noteq> Inl Panicked" "resolve_relation_name api db ri rn s \<noteq> Inl Panicked" for nm p rn s
    by (simp_all add: resolve_node_name_def resolve_relation_name_def rbind_panics Let_def split: option.splits)
  have "resolve_candidate api db ni ri x s \<noteq> Inl Panicked" for x s
    by (cases x; cases "snd x") (auto simp: rbind_panics names)
  then have res: "fold_result (resolve_candidate api db ni ri) xs s \<noteq> Inl Panicked" for xs s by (intro fold_calm)
  have cur: "current_relation api db cr u j \<noteq> Inl Panicked" "confirmed_provisional ref j old \<noteq> Inl Panicked" for cr u j ref old
    by (auto simp: current_relation_def split: option.splits) (cases ref; simp)
  have "confirm_edge api db cs x s \<noteq> Inl Panicked" for cs x s
    by (cases x; cases "snd x") (auto simp: rbind_panics cur Let_def)
  then have edges: "fold_result (confirm_edge api db cs) xs s \<noteq> Inl Panicked" for cs xs s by (intro fold_calm)
  have bytes: "check_response_bytes m al \<noteq> Inl Panicked" for m al
  proof -
    have "fold_result (\<lambda>record estimated. case record of None \<Rightarrow> Inr estimated
       | Some record \<Rightarrow> rbind (lifted (ok_or (record_bytes record) (InvalidBatch ''estimated success response bytes overflow'')))
           (\<lambda>record_bytes. lifted (ok_or (checked_add estimated record_bytes)
                    (InvalidBatch ''estimated success response bytes overflow'')))) al n \<noteq> Inl Panicked" for n
      by (rule fold_calm) (auto simp: rbind_panics split: option.splits)
    then show ?thesis by (auto simp: check_response_bytes_def rbind_panics)
  qed
  show ?thesis by (simp add: confirm_records_def rbind_panics res edges bytes confirmation_batch_calm)
qed

section \<open>Failed operations\<close>

text \<open>The catalog is as it was: the same stored bytes, the same indexes, no poisoned lock.\<close>

definition unchanged :: "('db \<Rightarrow> contents) \<Rightarrow> 'db catalog \<Rightarrow> 'db catalog \<Rightarrow> bool" where
  "unchanged view cat cat' \<longleftrightarrow> view (ct_db cat') = view (ct_db cat) \<and> ct_node_names cat' = ct_node_names cat \<and>
     ct_relation_names cat' = ct_relation_names cat \<and> (unpoisoned cat' \<longleftrightarrow> unpoisoned cat)"

lemma unchanged_refl [simp]: "unchanged view cat cat"
  by (simp add: unchanged_def)

lemma unchanged_holds: "unchanged view cat cat' \<Longrightarrow> catalog_holds view g cat \<Longrightarrow> catalog_holds view g cat'"
  by (simp add: unchanged_def catalog_holds_def)

lemma commit_batch_unchanged:
  "rocks_sound api view \<Longrightarrow> commit_batch api batch cat = (Inl f, cat') \<Longrightarrow> unchanged view cat cat' \<and> f \<noteq> Panicked"
  using commit_batch_Inl [of api view batch cat f cat'] by (simp add: unchanged_def)

lemma poison_calm [simp]: "f \<noteq> Panicked \<Longrightarrow> poison_write f cat = cat" "f \<noteq> Panicked \<Longrightarrow> poison_all f cat = cat"
  by (cases f; simp add: poison_write_def poison_all_def)+

lemma remove_edge_failed:
  assumes "rocks_sound api view" "remove_edge api i cat = (Inl f, cat')"
  shows "unchanged view cat cat' \<and> f \<noteq> Panicked"
  using assms remove_edge_plan_calm [of api i cat] commit_batch_unchanged [OF assms(1)]
  by (auto simp: remove_edge_def split: sum.splits prod.splits)

lemma remove_node_failed:
  assumes "rocks_sound api view" "remove_node api order i cat = (Inl f, cat')"
  shows "unchanged view cat cat' \<and> f \<noteq> Panicked"
  using assms remove_node_plan_calm [of api order i cat] commit_batch_unchanged [OF assms(1)]
  by (auto simp: remove_node_def split: sum.splits prod.splits)

lemma insert_failed:
  assumes "rocks_sound api view" "insert_candidate_batch api reserve entries cat = (Inl f, cat')"
  shows "unchanged view cat cat' \<and> f \<noteq> Panicked"
proof -
  have "rbind (check_batch_limits entries) (\<lambda>_. write_guard cat) \<noteq> Inl Panicked"
    by (simp add: rbind_panics check_batch_limits_calm)
  then show ?thesis
    using assms insert_plan_calm [of api reserve entries "ct_db cat"] commit_batch_unchanged [OF assms(1)]
    by (auto simp: insert_candidate_batch_def split: sum.splits prod.splits)
qed

lemma confirm_failed:
  assumes "rocks_sound api view" "catalog_holds view g cat"
    and "confirm_candidate_batch_with_response_limit api reserve cids maximum cat = (Inl f, cat')"
  shows "unchanged view cat cat' \<and> f \<noteq> Panicked"
proof -
  note rd = catalog_holds_reading [OF assms(1,2)]
  have g: "graph_ok g" "counts_ok g" "indexes_ok g (ct_node_names cat) (ct_relation_names cat)"
    using assms(2) by (simp_all add: catalog_holds_def graph_ok_def)
  have guard: "rbind (write_guard cat) (\<lambda>_. confirm_selection api reserve cids (ct_db cat)) \<noteq> Inl Panicked"
    "rbind (node_index_write cat) (\<lambda>_. relation_index_write cat) \<noteq> Inl Panicked"
    by (simp_all add: rbind_panics confirm_selection_calm [OF rd])
  have filled: "\<exists>records. expect_all (es_aligned es) = Inr records"
    if sel: "confirm_selection api reserve cids (ct_db cat) = Inr (cands, counts)"
      and plan: "confirm_records api reserve (ct_node_names cat) (ct_relation_names cat) maximum cands counts (ct_db cat)
        = Inr (batch, cs, es)" for cands counts batch cs es
  proof -
    have "closed_selection g cids cands" using confirm_selection_Inr [OF rd g(2) sel] ..
    from promotion_records [OF confirm_records_Inr(1) [OF rd g(1) this g(3) plan]] show ?thesis by metis
  qed
  let ?sel = "rbind (write_guard cat) (\<lambda>_. confirm_selection api reserve cids (ct_db cat))"
  let ?lock = "rbind (node_index_write cat) (\<lambda>_. relation_index_write cat)"
  note def = assms(3) [unfolded confirm_candidate_batch_with_response_limit_def]
  show ?thesis
  proof (cases "cids = [] \<or> length cids > MAXIMUM_CANDIDATE_BATCH_ENTRIES \<or> (\<exists>e. ?sel = Inl e) \<or> (\<exists>e. ?lock = Inl e)")
    case True
    then show ?thesis using def guard by (auto simp: fail_def split: if_splits sum.splits prod.splits)
  next
    case False
    then obtain cands counts where sel: "?sel = Inr (cands, counts)" and lock: "?lock = Inr ()"
      by (cases ?sel; cases ?lock) auto
    have sel': "confirm_selection api reserve cids (ct_db cat) = Inr (cands, counts)" using sel by (auto simp: rbind_Inr_iff)
    note def' = def [unfolded sel lock]
    show ?thesis
    proof (cases "confirm_records api reserve (ct_node_names cat) (ct_relation_names cat) maximum cands counts (ct_db cat)")
      case (Inl e)
      then show ?thesis using def' False confirm_records_calm [of api reserve "ct_node_names cat" "ct_relation_names cat"
            maximum cands counts "ct_db cat"] by auto
    next
      case (Inr p)
      obtain batch cs es where p: "p = (batch, cs, es)" by (cases p)
      obtain records where records: "expect_all (es_aligned es) = Inr records" using filled [OF sel'] Inr p by blast
      show ?thesis
        using def' False Inr records commit_batch_unchanged [OF assms(1), of batch cat]
        by (cases "commit_batch api batch cat"; cases "fst (commit_batch api batch cat)") (auto simp: p Let_def)
    qed
  qed
qed

end
