(* ===== verification/Catalog_Total.thy ===== *)
theory Catalog_Total
  imports Catalog_Failures
begin

text \<open>
  When the database itself does not fail, removals of what exists always succeed: on a
  well-formed catalog no consistency check of the code can refuse, and no counter can underflow
  or overflow.
\<close>

definition rocks_writes :: "'db rocks \<Rightarrow> bool" where
  "rocks_writes api \<longleftrightarrow> (\<forall>db ops. fst (rk_write api db ops) = Inr ())"

lemma memory_rocks_writes: "rocks_writes memory_rocks"
  by (simp add: rocks_writes_def memory_rocks_def)

lemma commit_batch_succeeds: "rocks_writes api \<Longrightarrow> \<exists>cat'. commit_batch api batch cat = (Inr (), cat')"
proof -
  assume "rocks_writes api"
  then have "rk_write api (ct_db cat) batch = (Inr (), snd (rk_write api (ct_db cat) batch))"
    unfolding rocks_writes_def by (metis prod.collapse)
  then show ?thesis unfolding commit_batch_def by (metis (no_types, lifting) case_prod_conv sum.case(2))
qed

lemma guards_open: "unpoisoned cat \<Longrightarrow> write_guard cat = Inr ()" "unpoisoned cat \<Longrightarrow> node_index_write cat = Inr ()"
  "unpoisoned cat \<Longrightarrow> relation_index_write cat = Inr ()"
  by (simp_all add: unpoisoned_def write_guard_def node_index_write_def relation_index_write_def)

lemma require_column_families_reads: "rocks_reads api view \<Longrightarrow> require_column_families api db cfs = Inr ()"
proof -
  assume "rocks_reads api view"
  then have "fold_result (\<lambda>cf _. required_column_family api db cf) cfs () = Inr ()" by (induction cfs) simp_all
  then show ?thesis by (simp add: require_column_families_def)
qed

lemma validate_exact_adjacency_reads:
  assumes "reading api view g db" "rocks_reads api view" "gr_edges g (er_id e) = Some e"
  shows "validate_exact_adjacency api db e = Inr ()"
proof -
  have s: "stores g (store_of (view db))" using assms(1) by (simp add: reading_def)
  have "store_of (view db) OUTGOING_EDGES (encode_adjacency_key (er_source e) (er_id e)) = Some (encode_adjacency_value (er_id e))"
    "store_of (view db) INCOMING_EDGES (encode_adjacency_key (er_destination e) (er_id e)) = Some (encode_adjacency_value (er_id e))"
    using represents_get [OF stores_index(1) [OF s] assms(3)] represents_get [OF stores_index(2) [OF s] assms(3)]
    by (simp_all add: index_keys_def endpoint_def id_values_edge)
  then show ?thesis
    using assms(2) by (simp add: validate_exact_adjacency_def db_get_reads decode_adjacency_value_encode)
qed

section \<open>Removing an edge\<close>

lemma decremented_relation_counted:
  assumes "unat n \<le> unat (rr_confirmed_edge_count r)"
  shows "\<exists>updated. decremented_relation r n op = Inr updated"
proof -
  have "checked_sub_u64 (rr_confirmed_edge_count r) n = Some (rr_confirmed_edge_count r - n)"
    using assms by (simp add: checked_sub_u64_Some unat_sub_if')
  then show ?thesis by (simp add: decremented_relation_def)
qed

lemma remove_edge_plan_reads:
  assumes "rocks_sound api view" "rocks_reads api view" "catalog_holds view g cat" "gr_edges g i = Some e"
  shows "\<exists>p. remove_edge_plan api i cat = Inr p"
proof -
  note rd = catalog_holds_reading [OF assms(1,3)]
  have g: "graph_ok g" "unpoisoned cat" "records_ok g" "references_ok g" "counts_ok g" "finite (dom (gr_edges g))"
    using assms(3) by (simp_all add: catalog_holds_def graph_ok_def finite_graph_def)
  have id: "er_id e = i" using records_okD(3) [OF g(3) assms(4)] by simp
  obtain r where r: "gr_relations g (er_relation_kind e) = Some r" using g(4) assms(4) unfolding references_ok_def by blast
  have rok: "relation_ok r" using records_okD(2) [OF g(3) r] by simp
  have "uses_relation (er_relation_kind e) e \<le> msum (uses_relation (er_relation_kind e)) (gr_edges g)"
    by (rule msum_mono [OF g(6) assms(4)])
  then have "unat (1 :: u64) \<le> unat (rr_confirmed_edge_count r)" using g(5) r by (simp add: counts_ok_def uses_relation_def)
  then obtain updated where u: "decremented_relation r 1 ''edge deletion'' = Inr updated"
    using decremented_relation_counted by blast
  show ?thesis
    using assms(4) r u validate_exact_adjacency_reads [OF rd assms(2), of e] relation_update_ops_eq [OF rok decremented_ok [OF u rok]]
    by (simp add: remove_edge_plan_def guards_open [OF g(2)] get_edge_def reading_reads [OF rd assms(2)] id
        require_column_families_reads [OF assms(2)])
qed

lemma remove_edge_succeeds:
  assumes "rocks_sound api view" "rocks_reads api view" "rocks_writes api" "catalog_holds view g cat" "gr_edges g i = Some e"
  shows "\<exists>result cat'. remove_edge api i cat = (Inr result, cat')"
proof -
  from remove_edge_plan_reads [OF assms(1,2,4,5)] obtain batch relation removed where
    plan: "remove_edge_plan api i cat = Inr (batch, relation, removed)" by (metis prod_cases3)
  from commit_batch_succeeds [OF assms(3)] obtain cat' where "commit_batch api batch cat = (Inr (), cat')" by blast
  with plan show ?thesis by (simp add: remove_edge_def)
qed

lemma remove_edge_missing:
  assumes "rocks_sound api view" "rocks_reads api view" "catalog_holds view g cat" "gr_edges g i = None"
  shows "remove_edge api i cat = (Inl (Failed (RecordNotFound KindEdge (edge_id_as_u64 i))), cat)"
proof -
  note rd = catalog_holds_reading [OF assms(1,3)]
  have "unpoisoned cat" using assms(3) by (simp add: catalog_holds_def)
  then show ?thesis
    using assms(4)
    by (simp add: remove_edge_def remove_edge_plan_def guards_open get_edge_def reading_reads [OF rd assms(2)])
qed

section \<open>Removing a node\<close>

lemma provisional_reads:
  assumes "reading api view g db" "rocks_reads api view" "\<And>j c. gr_candidates g j = Some c \<Longrightarrow> \<not> references_confirmed_node i c"
  shows "provisional_edge_referencing_confirmed_node api db i = Inr None"
proof -
  have s: "contents_ok (view db)" "stores g (store_of (view db))" "records_ok g" using assms(1) by (simp_all add: reading_def)
  have ent: "\<exists>j c. k = encode_id_key (candidate_id_as_u64 j) \<and> v = candidate_bytes c \<and> gr_candidates g j = Some c"
    if "(k, v) \<in> set (view db CANDIDATES)" for k v
  proof -
    have "btree_get (view db CANDIDATES) k = Some v"
      using that s(1) btree.entries_lookup by (fastforce simp: contents_ok_def)
    moreover have "represents (id_keys candidate_id_as_u64) (\<lambda>_. candidate_bytes) (gr_candidates g) (btree_get (view db CANDIDATES))"
      using s(2) by (simp add: stores_def store_of_def)
    ultimately show ?thesis by (auto simp: represents_def id_keys_def)
  qed
  have "provisional_loop i (map Inr xs) = Inr None" if "set xs \<subseteq> set (view db CANDIDATES)" for xs
    using that
  proof (induction xs)
    case (Cons x xs)
    obtain k v where x: "x = (k, v)" by (cases x)
    then obtain j c where jc: "k = encode_id_key (candidate_id_as_u64 j)" "v = candidate_bytes c" "gr_candidates g j = Some c"
      using ent [of k v] Cons.prems by auto
    have "decode_candidate v (candidate_id_as_u64 j) = Inr c"
      using decode_candidate_ok [of c] records_okD(4) [OF s(3) jc(3)] jc(2) by auto
    then show ?case using Cons assms(3) [OF jc(3)] by (simp add: x jc(1))
  qed simp
  moreover have "rk_iterator api db CANDIDATES [] = map Inr (view db CANDIDATES)"
    using assms(2) by (simp add: rocks_reads_def)
  ultimately show ?thesis
    using assms(2) by (simp add: provisional_edge_referencing_confirmed_node_def)
qed

lemma collect_incident_total:
  assumes "\<And>e. e \<in> set es \<Longrightarrow> gr_edges g (er_id e) = Some e"
  shows "\<exists>m. fold_result collect_incident es [] = Inr m"
proof -
  have "\<exists>m'. fold_result collect_incident es m = Inr m'"
    if "btree_ok m" "\<And>i e. btree_get m i = Some e \<Longrightarrow> gr_edges g i = Some e" for m
    using assms that
  proof (induction es arbitrary: m)
    case (Cons x es)
    have x: "gr_edges g (er_id x) = Some x" using Cons.prems(1) by simp
    then have step: "collect_incident x m = Inr (btree_insert (er_id x) x m)"
      using Cons.prems(3) by (fastforce simp: collect_incident_def split: option.splits)
    have "\<exists>m'. fold_result collect_incident es (btree_insert (er_id x) x m) = Inr m'"
      using Cons.prems x by (intro Cons.IH) (auto simp: btree.insert_ok btree.lookup_insert split: if_splits)
    then show ?case by (simp add: step)
  qed simp
  from this [of "[]"] show ?thesis by simp
qed

lemma count_decrement_total:
  assumes "\<And>j. sum_list (map (uses_relation j) es) \<le> U64_MAX"
  shows "\<exists>m. fold_result count_decrement es [] = Inr m"
proof -
  let ?n = "\<lambda>m j. case btree_get m j of None \<Rightarrow> 0 | Some n \<Rightarrow> unat (n :: u64)"
  have "\<exists>m'. fold_result count_decrement es m = Inr m'"
    if "btree_ok m" "\<And>j. ?n m j + sum_list (map (uses_relation j) es) \<le> U64_MAX" for m
    using that
  proof (induction es arbitrary: m)
    case (Cons x es)
    let ?j = "er_relation_kind x"
    let ?old = "case btree_get m ?j of None \<Rightarrow> 0 | Some n \<Rightarrow> n"
    have old: "unat ?old = ?n m ?j" by (simp split: option.split)
    have u: "uses_relation j x = of_bool (?j = j)" for j by (simp add: uses_relation_def)
    have "unat ?old + 1 \<le> U64_MAX" using Cons.prems(2) [of ?j] unfolding old by (simp add: u)
    then have add: "checked_add_u64 ?old 1 = Some (?old + 1)" and new: "unat (?old + 1) = unat ?old + 1"
      using checked_add_u64_Some [of ?old 1 "?old + 1"] by (simp_all add: checked_add_u64_def)
    then have step: "count_decrement x m = Inr (btree_insert ?j (?old + 1) m)" by (simp add: count_decrement_def)
    have "\<exists>m'. fold_result count_decrement es (btree_insert ?j (?old + 1) m) = Inr m'"
    proof (rule Cons.IH)
      show "btree_ok (btree_insert ?j (?old + 1) m)" using Cons.prems(1) by (rule btree.insert_ok)
      fix j
      show "?n (btree_insert ?j (?old + 1) m) j + sum_list (map (uses_relation j) es) \<le> U64_MAX"
        using Cons.prems(2) [of j] new old
        by (cases "j = ?j") (simp_all add: btree.lookup_insert [OF Cons.prems(1)] u split: option.splits)
    qed
    then show ?case by (simp add: step)
  qed simp
  from this [of "[]"] assms show ?thesis by simp
qed

lemma apply_decrements_total:
  assumes "reading api view g db" "rocks_reads api view"
    and "\<And>j n. (j, n) \<in> set decs \<Longrightarrow> \<exists>r. gr_relations g j = Some r \<and> unat n \<le> unat (rr_confirmed_edge_count r)"
  shows "\<exists>p. fold_result (apply_decrement api db) decs st = Inr p"
  using assms(3)
proof (induction decs arbitrary: st)
  case (Cons d decs)
  obtain j n where d: "d = (j, n)" by (cases d)
  obtain batch removed where st: "st = (batch, removed)" by (cases st)
  obtain r where r: "gr_relations g j = Some r" "unat n \<le> unat (rr_confirmed_edge_count r)" using Cons.prems [of j n] d by auto
  then have ok: "rr_id r = j" "relation_ok r" using assms(1) records_okD(2) by (auto simp: reading_def)
  then have id: "r\<lparr>rr_id := j\<rparr> = r" by auto
  from decremented_relation_counted [OF r(2)] obtain u where u: "decremented_relation r n ''node deletion'' = Inr u" by blast
  have "\<exists>st'. apply_decrement api db d st = Inr st'"
    using r(1) u relation_update_ops_eq [OF ok(2) decremented_ok [OF u ok(2)]]
    by (simp add: d st apply_decrement_def reading_reads [OF assms(1,2)] id)
  then obtain st' where "apply_decrement api db d st = Inr st'" by blast
  with Cons.IH [of st'] Cons.prems show ?case by auto
qed simp

lemma remove_node_plan_reads:
  assumes "rocks_sound api view" "rocks_reads api view" "visits order" "catalog_holds view g cat" "gr_nodes g i = Some n"
    and refs: "\<And>j c. gr_candidates g j = Some c \<Longrightarrow> \<not> references_confirmed_node i c"
  shows "\<exists>p. remove_node_plan api order i cat = Inr p"
proof -
  note rd = catalog_holds_reading [OF assms(1,4)]
  have g: "unpoisoned cat" "records_ok g" "references_ok g" "counts_ok g" "finite (dom (gr_edges g))"
    "indexes_ok g (ct_node_names cat) (ct_relation_names cat)" "stores g (store_of (view (ct_db cat)))"
    using assms(4) by (simp_all add: catalog_holds_def graph_ok_def finite_graph_def)
  obtain outs ins where outs: "incident_edges api (ct_db cat) OUTGOING_EDGES i True = Inr outs" "incident_list g True i outs"
    and ins: "incident_edges api (ct_db cat) INCOMING_EDGES i False = Inr ins" "incident_list g False i ins"
    using incident_edges_reads [OF rd assms(2) stores_index(1) [OF g(7)]] incident_edges_reads [OF rd assms(2) stores_index(2) [OF g(7)]]
    by metis
  have "\<exists>m. fold_result collect_incident (outs @ ins) [] = Inr m"
    using outs(2) ins(2) by (intro collect_incident_total [of _ g]) (auto simp: incident_list_def)
  then obtain incident where inc: "fold_result collect_incident (outs @ ins) [] = Inr incident" by blast
  let ?es = "order (map snd incident)"
  note es = incident_set [OF g(2) outs(2) ins(2) inc assms(3)]
  have sums: "sum_list (map (uses_relation j) ?es) \<le> msum (uses_relation j) (gr_edges g)" for j
    using msum_restrict [OF g(5) es(1,2), of "uses_relation j"] by simp
  have counts: "msum (uses_relation j) (gr_edges g) = unat (rr_confirmed_edge_count r)" if "gr_relations g j = Some r" for j r
    using g(4) that by (simp add: counts_ok_def)
  have zero: "msum (uses_relation j) (gr_edges g) = 0" if "gr_relations g j = None" for j
    using g(3) that unfolding msum_eq_0_iff [OF g(5)] references_ok_def uses_relation_def by (metis of_bool_eq(1))
  have "msum (uses_relation j) (gr_edges g) \<le> U64_MAX" for j
    using counts [of j] zero [of j] unat_le_U64_MAX by (cases "gr_relations g j") auto
  then have "\<exists>m. fold_result count_decrement ?es [] = Inr m"
    using sums by (intro count_decrement_total) (meson le_trans)
  then obtain decs where decs: "fold_result count_decrement ?es [] = Inr decs" by blast
  note D = count_decrement_Inr [OF decs]
  have bound: "\<exists>r. gr_relations g j = Some r \<and> unat k \<le> unat (rr_confirmed_edge_count r)" if "(j, k) \<in> set decs" for j k
  proof -
    from D have D': "btree_ok decs" "(case btree_get decs j of None \<Rightarrow> 0 | Some n \<Rightarrow> unat n) = sum_list (map (uses_relation j) ?es)"
        "btree_get decs j = Some k \<longrightarrow> 0 < unat k" by blast+
    have get: "btree_get decs j = Some k" using that btree.entries_lookup [OF D'(1)] by simp
    with D' have k: "unat k = sum_list (map (uses_relation j) ?es)" "0 < unat k" by simp_all
    then have "gr_relations g j \<noteq> None" using zero [of j] sums [of j] by linarith
    with k counts [of j] sums [of j] show ?thesis by auto
  qed
  from apply_decrements_total [OF rd assms(2) bound, of decs] obtain batch' removed where
    app: "fold_result (apply_decrement api (ct_db cat)) decs
      (Delete DEFAULT (ascii META_ACTIVE_ROUTING_IMAGE) # concat (map delete_edge_ops ?es), []) = Inr (batch', removed)"
    by fastforce
  have adj: "fold_result (\<lambda>edge _. validate_exact_adjacency api (ct_db cat) edge) ?es () = Inr ()"
    using validate_exact_adjacency_reads [OF rd assms(2)] es(2) by (simp add: fold_result_check)
  have name: "ct_node_names cat (node_name_as_str (nr_name n)) = Some i"
    "encode_name_key (node_name_as_str (nr_name n)) = Inr (counted (node_name_as_str (nr_name n)))"
    using g(6) assms(5) records_okD(1) [OF g(2) assms(5)] by (auto simp: indexes_ok_def names_node_def node_ok_def encode_name_ok)
  show ?thesis
    using provisional_reads [OF rd assms(2) refs] outs(1) ins(1) inc adj decs app name assms(5)
    by (simp add: remove_node_plan_def guards_open [OF g(1)] get_node_def reading_reads [OF rd assms(2)] Let_def
        require_column_families_reads [OF assms(2)])
qed

lemma remove_node_succeeds:
  assumes "rocks_sound api view" "rocks_reads api view" "rocks_writes api" "visits order" "catalog_holds view g cat"
    and "gr_nodes g i = Some n" and refs: "\<And>j c. gr_candidates g j = Some c \<Longrightarrow> \<not> references_confirmed_node i c"
  shows "\<exists>result cat'. remove_node api order i cat = (Inr result, cat')"
proof -
  have "\<exists>p. remove_node_plan api order i cat = Inr p"
    by (rule remove_node_plan_reads [OF assms(1,2,4-6)]) (rule refs)
  then obtain batch node removed where
    plan: "remove_node_plan api order i cat = Inr (batch, node, removed)" by (metis prod_cases3)
  from commit_batch_succeeds [OF assms(3)] obtain cat' where "commit_batch api batch cat = (Inr (), cat')" by blast
  with plan show ?thesis by (simp add: remove_node_def)
qed

end
