(* ===== verification/Catalog_Contract.thy ===== *)
theory Catalog_Contract
  imports Catalog_Total
begin

text \<open>
  What the catalog promises, on graphs: which graph each mutation leaves, written without
  databases, batches, codecs, name indexes or running counts. The lemmas of this theory connect
  these specifications with the graphs that the operations are shown to store.
\<close>

section \<open>Removals\<close>

text \<open>
  Edges go, the usage of every relation kind is counted anew, and a relation kind whose last
  use went with them goes as well. The published routing image is no longer current.
\<close>

definition recounted :: "(edge_id \<rightharpoonup> edge_record) \<Rightarrow> graph \<Rightarrow> relation_id \<Rightarrow> relation_record option" where
  "recounted edges g j =
     (case gr_relations g j of None \<Rightarrow> None
      | Some r \<Rightarrow>
          if msum (uses_relation j) edges = msum (uses_relation j) (gr_edges g) then Some r
          else if msum (uses_relation j) edges = 0 \<and> msum (provisional_uses j) (gr_candidates g) = 0 then None
          else Some (r\<lparr>rr_confirmed_edge_count := of_nat (msum (uses_relation j) edges)\<rparr>))"

definition spec_drop_edges :: "edge_id set \<Rightarrow> graph \<Rightarrow> graph" where
  "spec_drop_edges S g =
     g\<lparr>gr_edges := gr_edges g |` (- S), gr_relations := recounted (gr_edges g |` (- S)) g, gr_pointer := None\<rparr>"

definition spec_remove_edge :: "edge_id \<Rightarrow> graph \<Rightarrow> graph" where
  "spec_remove_edge i g = spec_drop_edges {i} g"

definition incident_to :: "graph \<Rightarrow> node_id \<Rightarrow> edge_id set" where
  "incident_to g i = {k. \<exists>e. gr_edges g k = Some e \<and> (er_source e = i \<or> er_destination e = i)}"

definition spec_remove_node :: "node_id \<Rightarrow> graph \<Rightarrow> graph" where
  "spec_remove_node i g = (spec_drop_edges (incident_to g i) g)\<lparr>gr_nodes := (gr_nodes g)(i := None)\<rparr>"

text \<open>The relation kinds that a mutation removes.\<close>

definition lost_relations :: "graph \<Rightarrow> graph \<Rightarrow> relation_id set" where
  "lost_relations g g' = {j. gr_relations g j \<noteq> None \<and> gr_relations g' j = None}"

lemma recounted_settled:
  assumes "graph_ok g" "gr_relations g j = Some r" "0 < unat n" "unat n \<le> unat (rr_confirmed_edge_count r)"
    and "unat (rr_confirmed_edge_count r - n) = msum (uses_relation j) edges"
  shows "recounted edges g j = (let updated = r\<lparr>rr_confirmed_edge_count := rr_confirmed_edge_count r - n\<rparr> in
      if unused updated then None else Some updated)"
proof -
  have c: "unat (rr_confirmed_edge_count r) = msum (uses_relation j) (gr_edges g)"
      "unat (rr_provisional_reference_count r) = msum (provisional_uses j) (gr_candidates g)"
    using assms(1,2) by (simp_all add: graph_ok_def counts_ok_def)
  have "unat (rr_confirmed_edge_count r - n) < unat (rr_confirmed_edge_count r)"
    using assms(3,4) by (simp add: unat_sub word_le_nat_alt)
  then have "msum (uses_relation j) edges \<noteq> msum (uses_relation j) (gr_edges g)" using assms(5) c(1) by simp
  moreover have "rr_confirmed_edge_count r - n = of_nat (msum (uses_relation j) edges)"
    unfolding assms(5) [symmetric] by simp
  moreover have "msum (uses_relation j) edges = 0 \<longleftrightarrow> rr_confirmed_edge_count r - n = 0"
    "msum (provisional_uses j) (gr_candidates g) = 0 \<longleftrightarrow> rr_provisional_reference_count r = 0"
    using assms(5) c(2) by (simp_all add: unat_eq_zero flip: assms(5) c(2))
  ultimately show ?thesis using assms(2) by (simp add: recounted_def unused_def Let_def)
qed

lemma recounted_same:
  assumes "graph_ok g" "gr_relations g j = Some r" "unat (rr_confirmed_edge_count r) = msum (uses_relation j) edges"
  shows "recounted edges g j = Some r"
  using assms by (simp add: recounted_def graph_ok_def counts_ok_def)

lemma unused_relation_msum:
  assumes "graph_ok g" "gr_relations g j = None"
  shows "msum (uses_relation j) (gr_edges g) = 0"
proof -
  have f: "finite (dom (gr_edges g))" "references_ok g" using assms(1) by (simp_all add: graph_ok_def finite_graph_def)
  show ?thesis
    using f(2) assms(2) unfolding msum_eq_0_iff [OF f(1)] references_ok_def uses_relation_def by (metis of_bool_eq(1))
qed

text \<open>How a removal may change the record of a relation kind.\<close>

definition lowered_by :: "graph \<Rightarrow> relation_id \<Rightarrow> u64 \<Rightarrow> relation_record \<Rightarrow> relation_record option \<Rightarrow> bool" where
  "lowered_by g j n r r' \<longleftrightarrow>
     gr_relations g j = Some r \<and> 0 < unat n \<and> unat n \<le> unat (rr_confirmed_edge_count r) \<and>
     r' = (let updated = r\<lparr>rr_confirmed_edge_count := rr_confirmed_edge_count r - n\<rparr> in
       if unused updated then None else Some updated)"

lemma relations_recounted:
  assumes "graph_ok g" "graph_ok g'"
    and "\<And>j. gr_relations g' j = gr_relations g j \<or> (\<exists>n r. lowered_by g j n r (gr_relations g' j))"
  shows "gr_relations g' = recounted (gr_edges g') g"
proof
  fix j
  have counts: "unat (rr_confirmed_edge_count r) = msum (uses_relation j) (gr_edges g')" if "gr_relations g' j = Some r" for r
    using assms(2) that by (simp add: graph_ok_def counts_ok_def)
  from assms(3) [of j] show "gr_relations g' j = recounted (gr_edges g') g j"
  proof
    assume same: "gr_relations g' j = gr_relations g j"
    then show ?thesis
      using recounted_same [OF assms(1)] counts by (cases "gr_relations g j") (auto simp: recounted_def)
  next
    assume "\<exists>n r. lowered_by g j n r (gr_relations g' j)"
    then obtain n r where r: "gr_relations g j = Some r" "0 < unat n" "unat n \<le> unat (rr_confirmed_edge_count r)"
      and r': "gr_relations g' j = (let updated = r\<lparr>rr_confirmed_edge_count := rr_confirmed_edge_count r - n\<rparr> in
        if unused updated then None else Some updated)" by (auto simp: lowered_by_def)
    have "unat (rr_confirmed_edge_count r - n) = msum (uses_relation j) (gr_edges g')"
      using counts r' unused_relation_msum [OF assms(2), of j] by (auto simp: Let_def unused_def split: if_splits)
    from recounted_settled [OF assms(1) r this] r' show ?thesis by simp
  qed
qed

lemma relation_with_usage_update:
  "rr_id r = j \<Longrightarrow> relation_record_with_usage j (rr_name r) (rr_provisional_reference_count r) c = r\<lparr>rr_confirmed_edge_count := c\<rparr>"
  by (auto simp: relation_record_with_usage_def)

lemma graph_without_edge_spec:
  assumes "graph_ok g" "graph_ok (graph_without_edge e updated g)" "gr_edges g (er_id e) = Some e"
    and "gr_relations g (er_relation_kind e) = Some r" "decremented_relation r 1 ''edge deletion'' = Inr updated"
  shows "graph_without_edge e updated g = spec_remove_edge (er_id e) g"
proof -
  let ?g = "graph_without_edge e updated g"
  have id: "rr_id r = er_relation_kind e" using assms(1,4) by (auto simp: graph_ok_def dest: records_okD(2))
  from assms(5) obtain c where c: "unat (rr_confirmed_edge_count r) = unat (1 :: u64) + unat c"
      "updated = r\<lparr>rr_confirmed_edge_count := c\<rparr>"
    unfolding decremented_relation_Inr relation_with_usage_update [OF refl] by blast
  then have "unat c = unat (rr_confirmed_edge_count r - 1)"
    by (subst unat_sub) (simp_all add: word_le_nat_alt)
  then have "c = rr_confirmed_edge_count r - 1" by (rule unsigned_word_eqI)
  with c have u: "updated = r\<lparr>rr_confirmed_edge_count := rr_confirmed_edge_count r - 1\<rparr>"
      "unat (1 :: u64) \<le> unat (rr_confirmed_edge_count r)" by simp_all
  have edges: "gr_edges ?g = gr_edges g |` (- {er_id e})"
    by (auto simp: graph_without_edge_def settle_relation_def graph_change_defs restrict_map_def)
  have "gr_relations ?g = recounted (gr_edges ?g) g"
  proof (rule relations_recounted [OF assms(1,2)])
    fix j
    show "gr_relations ?g j = gr_relations g j \<or> (\<exists>n r. lowered_by g j n r (gr_relations ?g j))"
    proof (cases "j = er_relation_kind e")
      case True
      have "lowered_by g j 1 r (gr_relations ?g j)"
        using assms(4) u(2) id
        by (simp add: lowered_by_def True u(1) graph_without_edge_def settle_relation_def graph_change_defs Let_def)
      then show ?thesis by blast
    next
      case False
      then show ?thesis using id by (simp add: u(1) graph_without_edge_def settle_relation_def graph_change_defs)
    qed
  qed
  then show ?thesis
    by (intro graph.equality)
      (simp_all add: spec_remove_edge_def spec_drop_edges_def edges,
       simp_all add: graph_without_edge_def settle_relation_def graph_change_defs)
qed

lemma graph_without_node_spec:
  assumes "graph_ok g" "graph_ok (graph_without_node i decs g)"
    and "\<And>j n. map_of decs j = Some n \<Longrightarrow> 0 < unat n \<and> (\<exists>old. gr_relations g j = Some old \<and> unat n \<le> unat (rr_confirmed_edge_count old))"
  shows "graph_without_node i decs g = spec_remove_node i g"
proof -
  let ?g = "graph_without_node i decs g"
  have edges: "gr_edges ?g = gr_edges g |` (- incident_to g i)"
    by (simp add: graph_without_node_def without_node_def lower_relations_def drop_edges_def incident_to_def)
  have "gr_relations ?g = recounted (gr_edges ?g) g"
  proof (rule relations_recounted [OF assms(1,2)])
    fix j
    show "gr_relations ?g j = gr_relations g j \<or> (\<exists>n r. lowered_by g j n r (gr_relations ?g j))"
    proof (cases "map_of decs j")
      case (Some n)
      with assms(3) obtain r where r: "gr_relations g j = Some r" "0 < unat n" "unat n \<le> unat (rr_confirmed_edge_count r)" by blast
      then have "rr_id r = j" using assms(1) by (auto simp: graph_ok_def dest: records_okD(2))
      then have "lowered_by g j n r (gr_relations ?g j)"
        using r Some by (simp add: lowered_by_def graph_without_node_def without_node_def lower_relations_def
            drop_edges_def lowered_def relation_with_usage_update)
      then show ?thesis by blast
    qed (simp add: graph_without_node_def without_node_def lower_relations_def drop_edges_def)
  qed
  then show ?thesis
    by (intro graph.equality)
      (simp_all add: spec_remove_node_def spec_drop_edges_def edges,
       simp_all add: graph_without_node_def without_node_def lower_relations_def drop_edges_def)
qed

section \<open>Insertions\<close>

text \<open>
  Each entry becomes a candidate under the identifier at its position, the other candidates and
  the confirmed records stay, and the identifiers are the next unused ones.
\<close>

definition spec_inserted ::
    "candidate_batch_entry list \<Rightarrow> candidate_id list \<Rightarrow> graph \<Rightarrow> graph \<Rightarrow> bool" where
  "spec_inserted entries ids g g' \<longleftrightarrow>
     ids = map (\<lambda>k. CandidateId (gr_next_candidate g + of_nat k)) [0..<length entries] \<and> distinct ids \<and>
     (\<forall>i \<in> set ids. gr_candidates g i = None) \<and>
     (\<forall>k < length entries. \<exists>c. gr_candidates g' (ids ! k) = Some c \<and> entry_stored ids (ids ! k) (entries ! k) c) \<and>
     (\<forall>i. i \<notin> set ids \<longrightarrow> gr_candidates g' i = gr_candidates g i) \<and>
     gr_nodes g' = gr_nodes g \<and> gr_edges g' = gr_edges g \<and> gr_pointer g' = gr_pointer g \<and>
     (\<forall>j. map_option rr_name (gr_relations g' j) = map_option rr_name (gr_relations g j)) \<and>
     unat (gr_next_candidate g') = unat (gr_next_candidate g) + length entries \<and>
     gr_next_node g' = gr_next_node g \<and> gr_next_relation g' = gr_next_relation g \<and> gr_next_edge g' = gr_next_edge g"

lemma raised_names:
  assumes "provisionals_raised g cs rs"
  shows "map_option rr_name (gr_relations (with_relations rs g) j) = map_option rr_name (gr_relations g j)"
proof -
  have d: "distinct (map rr_id rs)" using assms by (simp add: provisionals_raised_def)
  show ?thesis
  proof (cases "map_of (map (\<lambda>r. (rr_id r, r)) rs) j")
    case (Some r)
    then have r: "r \<in> set rs" "rr_id r = j" by (auto dest: map_of_SomeD)
    then obtain old where "gr_relations g j = Some old" "rr_name r = rr_name old"
      using assms by (auto simp: provisionals_raised_def may_become_def split: option.splits)
    then show ?thesis using Some by (simp add: with_relations_get [OF d])
  qed (simp add: with_relations_get [OF d])
qed

lemma inserted_spec:
  assumes "insertable g cs" "provisionals_raised g cs rs" "map candidate_id_of cs = ids"
    and "ids = insertion_ids (gr_next_candidate g) (length entries)"
    and "unat v = unat (gr_next_candidate g) + length entries"
    and "\<forall>k < length entries. entry_stored ids (ids ! k) (entries ! k) (cs ! k)"
  shows "spec_inserted entries ids g (graph_with_candidates cs rs v g)"
proof -
  let ?g = "graph_with_candidates cs rs v g"
  have d: "distinct (map candidate_id_of cs)" and new: "\<And>c. c \<in> set cs \<Longrightarrow> gr_candidates g (candidate_id_of c) = None"
    using assms(1) by (auto simp: insertable_def)
  have len: "length cs = length entries" using assms(3,4) by (metis length_map length_upt diff_zero insertion_ids_def)
  have get: "gr_candidates ?g i = (case map_of (map (\<lambda>c. (candidate_id_of c, c)) cs) i of None \<Rightarrow> gr_candidates g i | Some c \<Rightarrow> Some c)" for i
    by (simp add: graph_with_candidates_def with_candidates_get [OF d])
  have at: "gr_candidates ?g (ids ! k) = Some (cs ! k)" if "k < length entries" for k
  proof -
    have "map_of (map (\<lambda>c. (candidate_id_of c, c)) cs) (candidate_id_of (cs ! k)) = Some (cs ! k)"
      using that len d by (intro map_of_is_SomeI) (auto simp: comp_def)
    then show ?thesis using that len by (simp add: get flip: assms(3))
  qed
  have "gr_candidates ?g i = gr_candidates g i" if "i \<notin> set ids" for i
  proof -
    have "map_of (map (\<lambda>c. (candidate_id_of c, c)) cs) i = None"
      using that by (simp add: map_of_eq_None_iff image_image flip: assms(3))
    then show ?thesis by (simp add: get)
  qed
  moreover have "\<forall>i \<in> set ids. gr_candidates g i = None" using new by (auto simp flip: assms(3))
  moreover have "map_option rr_name (gr_relations ?g j) = map_option rr_name (gr_relations g j)" for j
  proof -
    have "gr_relations ?g j = gr_relations (with_relations rs g) j"
      using assms(2) by (simp add: graph_with_candidates_def provisionals_raised_def with_relations_get split: option.split)
    then show ?thesis by (simp add: raised_names [OF assms(2)])
  qed
  ultimately show ?thesis
    using at assms(4-6) d unfolding spec_inserted_def assms(3)
    by (auto simp: graph_with_candidates_def insertion_ids_def)
qed

section \<open>Confirmations\<close>

text \<open>
  The nodes and relation kinds that the references of a provisional edge stand for: confirmed
  ones are named directly, candidates stand for the record at their position in the answer.
\<close>

fun node_resolves :: "candidate_id list \<Rightarrow> confirmed_record list \<Rightarrow> candidate_node_reference \<Rightarrow> node_id \<Rightarrow> bool" where
  "node_resolves cids records (NodeConfirmed i) n \<longleftrightarrow> n = i"
| "node_resolves cids records (NodeCandidate i) n \<longleftrightarrow>
     (\<exists>k < length cids. cids ! k = i \<and> (\<exists>r. records ! k = ConfirmedNode r \<and> nr_id r = n))"

fun relation_resolves ::
    "candidate_id list \<Rightarrow> confirmed_record list \<Rightarrow> candidate_relation_reference \<Rightarrow> relation_id \<Rightarrow> bool" where
  "relation_resolves cids records (RelationConfirmed i) j \<longleftrightarrow> j = i"
| "relation_resolves cids records (RelationCandidate i) j \<longleftrightarrow>
     (\<exists>k < length cids. cids ! k = i \<and> (\<exists>r. records ! k = ConfirmedRelation r \<and> rr_id r = j))"

text \<open>What a candidate has become in the graph after its confirmation.\<close>

fun confirmed_as :: "graph \<Rightarrow> candidate_id list \<Rightarrow> confirmed_record list \<Rightarrow> candidate \<Rightarrow> confirmed_record \<Rightarrow> bool" where
  "confirmed_as g' cids records (CandidateNode _ name payload _) (ConfirmedNode r) \<longleftrightarrow>
     gr_nodes g' (nr_id r) = Some r \<and> nr_name r = name"
| "confirmed_as g' cids records (CandidateRelation _ name _) (ConfirmedRelation r) \<longleftrightarrow>
     rr_name r = name \<and> (\<exists>r'. gr_relations g' (rr_id r) = Some r' \<and> rr_name r' = name)"
| "confirmed_as g' cids records (CandidateEdge _ source destination relation_kind weight) (ConfirmedEdge e) \<longleftrightarrow>
     gr_edges g' (er_id e) = Some e \<and> er_base_weight e = weight \<and> node_resolves cids records source (er_source e) \<and>
     node_resolves cids records destination (er_destination e) \<and>
     relation_resolves cids records relation_kind (er_relation_kind e)"
| "confirmed_as g' cids records _ _ \<longleftrightarrow> False"

text \<open>
  Exactly the selected candidates go; each has become the record at its position in the answer, an
  edge candidate a new edge of its own; nothing confirmed earlier changes but the usage counts; and
  whatever is confirmed now and was not before comes from a selected candidate: a node with its
  name and payload, a relation kind with its name, an edge that is one of the records answered.
\<close>

definition spec_confirmed :: "candidate_id list \<Rightarrow> confirmed_record list \<Rightarrow> graph \<Rightarrow> graph \<Rightarrow> bool" where
  "spec_confirmed cids records g g' \<longleftrightarrow>
     distinct cids \<and> length records = length cids \<and>
     (\<forall>k < length cids. \<exists>c. gr_candidates g (cids ! k) = Some c \<and> confirmed_as g' cids records c (records ! k)) \<and>
     gr_candidates g' = gr_candidates g |` (- set cids) \<and>
     gr_nodes g \<subseteq>\<^sub>m gr_nodes g' \<and> gr_edges g \<subseteq>\<^sub>m gr_edges g' \<and>
     (\<forall>j r. gr_relations g j = Some r \<longrightarrow> map_option rr_name (gr_relations g' j) = Some (rr_name r)) \<and>
     (\<forall>i n. gr_nodes g' i = Some n \<longrightarrow> gr_nodes g i = None \<longrightarrow>
        (\<exists>cid m. cid \<in> set cids \<and> gr_candidates g cid = Some (CandidateNode cid (nr_name n) (nr_payload n) m))) \<and>
     (\<forall>j r. gr_relations g' j = Some r \<longrightarrow> gr_relations g j = None \<longrightarrow>
        (\<exists>cid m. cid \<in> set cids \<and> gr_candidates g cid = Some (CandidateRelation cid (rr_name r) m))) \<and>
     (\<forall>k e. gr_edges g' k = Some e \<longrightarrow> gr_edges g k = None \<longrightarrow> ConfirmedEdge e \<in> set records) \<and>
     (\<forall>k < length cids. \<forall>e. records ! k = ConfirmedEdge e \<longrightarrow> gr_edges g (er_id e) = None \<and>
        (\<forall>l < length cids. records ! l = ConfirmedEdge e \<longrightarrow> l = k))"

lemma promotion_selection:
  assumes "promotion g cids cands cs es"
  shows "selection g cids cands" "length cands = length cids" "\<And>k. k < length cids \<Longrightarrow> candidate_id_of (cands ! k) = cids ! k"
    "\<And>k. k < length cids \<Longrightarrow> gr_candidates g (cids ! k) = Some (cands ! k)" "candidate_id_of ` set cands = set cids"
proof -
  show s: "selection g cids cands" using assms by (simp add: promotion_def closed_selection_def)
  then have m: "map candidate_id_of cands = cids" by (simp add: selection_def)
  then show len: "length cands = length cids" by auto
  show id: "candidate_id_of (cands ! k) = cids ! k" if "k < length cids" for k using m that by auto
  show "gr_candidates g (cids ! k) = Some (cands ! k)" if "k < length cids" for k
  proof -
    have "cands ! k \<in> set cands" using that len by simp
    with s id [OF that] show ?thesis unfolding selection_def by metis
  qed
  show "candidate_id_of ` set cands = set cids" using m by (metis set_map)
qed

lemma promotion_at:
  assumes "promotion g cids cands cs es" "map Some records = es_aligned es" "k < length cids"
  shows "resolved_as cs (cands ! k) (cs_aligned cs ! k)"
    and "if is_candidate_edge (cands ! k) then \<exists>e \<in> set (es_created_edges es). records ! k = ConfirmedEdge e
        \<and> promoted_edge cs (cands ! k) e
      else Some (records ! k) = cs_aligned cs ! k"
proof -
  have k: "k < length cands" using assms(1,3) promotion_selection(2) by metis
  show "resolved_as cs (cands ! k) (cs_aligned cs ! k)" using assms(1) k by (auto simp: promotion_def resolution_inv_def)
  have "if is_candidate_edge (cands ! k) then \<exists>e \<in> set (es_created_edges es). es_aligned es ! k = Some (ConfirmedEdge e)
        \<and> promoted_edge cs (cands ! k) e
      else es_aligned es ! k = cs_aligned cs ! k"
    using assms(1) k unfolding promotion_def promotion_inv_def by metis
  moreover have "length (es_aligned es) = length cands" using assms(1) by (simp add: promotion_def promotion_inv_def)
  then have "es_aligned es ! k = Some (records ! k)" using assms(2) k by (metis length_map nth_map)
  ultimately show "if is_candidate_edge (cands ! k) then \<exists>e \<in> set (es_created_edges es). records ! k = ConfirmedEdge e
        \<and> promoted_edge cs (cands ! k) e
      else Some (records ! k) = cs_aligned cs ! k" by auto
qed

lemma promotion_node_resolves:
  assumes "promotion g cids cands cs es" "map Some records = es_aligned es"
    and "selected_node cands ref" "resolve_confirmed_node ref (cs_resolved_nodes cs) = Inr n"
  shows "node_resolves cids records ref n"
proof (cases ref)
  case (NodeCandidate i)
  from assms(3) NodeCandidate obtain c where c: "c \<in> set cands" "candidate_id_of c = i" "is_candidate_node c" by auto
  then obtain k where k: "k < length cids" "cands ! k = c" using promotion_selection(2) [OF assms(1)] by (metis in_set_conv_nth)
  from promotion_at [OF assms(1,2) k(1)] c k obtain r where "records ! k = ConfirmedNode r" "cs_resolved_nodes cs i = Some r"
    by (cases c) auto
  moreover have "cids ! k = i" using promotion_selection(3) [OF assms(1) k(1)] k c by simp
  ultimately show ?thesis using assms(4) k(1) NodeCandidate by auto
qed (use assms(4) in simp)

lemma promotion_relation_resolves:
  assumes "promotion g cids cands cs es" "map Some records = es_aligned es"
    and "selected_relation cands ref" "resolve_confirmed_relation ref (cs_resolved_relations cs) = Inr j"
  shows "relation_resolves cids records ref j"
proof (cases ref)
  case (RelationCandidate i)
  from assms(3) RelationCandidate obtain c where c: "c \<in> set cands" "candidate_id_of c = i" "is_candidate_relation c" by auto
  then obtain k where k: "k < length cids" "cands ! k = c" using promotion_selection(2) [OF assms(1)] by (metis in_set_conv_nth)
  from promotion_at [OF assms(1,2) k(1)] c k obtain r where "records ! k = ConfirmedRelation r" "cs_resolved_relations cs i = Some r"
    by (cases c) auto
  moreover have "cids ! k = i" using promotion_selection(3) [OF assms(1) k(1)] k c by simp
  ultimately show ?thesis using assms(4) k(1) RelationCandidate by auto
qed (use assms(4) in simp)

text \<open>The names of relation kinds, old and new.\<close>

lemma promoted_relation_name:
  assumes "promotion g cids cands cs es" "gr_relations g (rr_id r) = Some r \<or> r \<in> set (cs_created_relations cs)"
  shows "map_option rr_name (gr_relations (promoted_graph cands cs es g) (rr_id r)) = Some (rr_name r)"
proof -
  note R = promotion_created_relations [OF assms(1)]
  have base: "base_relation g cs (rr_id r) = Some r"
  proof (cases "r \<in> set (cs_created_relations cs)")
    case True
    then show ?thesis using find_own [OF R(1) True] by (simp add: base_relation_def)
  next
    case False
    with assms(2) have old: "gr_relations g (rr_id r) = Some r" by simp
    have "List.find (\<lambda>s. rr_id s = rr_id r) (cs_created_relations cs) = None"
    proof (cases "List.find (\<lambda>s. rr_id s = rr_id r) (cs_created_relations cs)")
      case (Some s)
      from find_key [OF this] R(4) [of s] old show ?thesis by simp
    qed simp
    then show ?thesis using old by (simp add: base_relation_def)
  qed
  then obtain r' where "gr_relations (promoted_graph cands cs es g) (rr_id r) = Some r'"
    using promoted_relation(2) [OF assms(1), of "rr_id r"] by auto
  with promoted_relation(1) [OF assms(1) this] base show ?thesis by (auto simp: counted_usage_def)
qed

lemma promotion_confirmed_as:
  assumes "promotion g cids cands cs es" "map Some records = es_aligned es" "k < length cids"
  shows "confirmed_as (promoted_graph cands cs es g) cids records (cands ! k) (records ! k)"
proof (cases "cands ! k")
  case (CandidateNode cid name payload n)
  with promotion_at [OF assms] obtain r where r: "records ! k = ConfirmedNode r" "nr_name r = name" "cs_resolved_nodes cs cid = Some r"
    by auto
  have "node_plan g (gr_next_node g) cs" using assms(1) by (simp add: promotion_def resolution_inv_def)
  then have "gr_nodes g (nr_id r) = Some r \<or> r \<in> set (cs_created_nodes cs)" using r(3) unfolding node_plan_def by blast
  then show ?thesis using promoted_fields(1) [OF assms(1), of "nr_id r" r] by (auto simp: CandidateNode r)
next
  case (CandidateRelation cid name n)
  with promotion_at [OF assms] obtain r where r: "records ! k = ConfirmedRelation r" "rr_name r = name"
      "cs_resolved_relations cs cid = Some r" by auto
  have "relation_plan g (gr_next_relation g) cs" using assms(1) by (simp add: promotion_def resolution_inv_def)
  then have "gr_relations g (rr_id r) = Some r \<or> r \<in> set (cs_created_relations cs)" using r(3) unfolding relation_plan_def by blast
  from promoted_relation_name [OF assms(1) this] show ?thesis by (auto simp: CandidateRelation r)
next
  case (CandidateEdge cid src dst rel w)
  with promotion_at(2) [OF assms] obtain e where e: "e \<in> set (es_created_edges es)" "records ! k = ConfirmedEdge e"
      "promoted_edge cs (cands ! k) e" by auto
  have "cands ! k \<in> set cands" using assms(3) promotion_selection(2) [OF assms(1)] by simp
  then have "selected_dependencies cands (cands ! k)" using assms(1) unfolding promotion_def closed_selection_def by blast
  then have "selected_node cands src" "selected_node cands dst" "selected_relation cands rel" by (simp_all add: CandidateEdge)
  with e(1,3) promotion_node_resolves [OF assms(1,2)] promotion_relation_resolves [OF assms(1,2)]
    promoted_fields(2) [OF assms(1), of "er_id e" e]
  show ?thesis by (simp add: CandidateEdge e(2))
qed

text \<open>Each edge candidate has an edge of its own: there are as many created edges as edge candidates.\<close>

lemma promotion_edges_own:
  assumes "promotion g cids cands cs es" "map Some records = es_aligned es" "k < length cids" "records ! k = ConfirmedEdge e"
  shows "e \<in> set (es_created_edges es)" "l < length cids \<Longrightarrow> records ! l = ConfirmedEdge e \<Longrightarrow> l = k"
proof -
  note S = promotion_selection [OF assms(1)]
  let ?E = "{k. k < length cands \<and> is_candidate_edge (cands ! k)}" and ?f = "\<lambda>k. THE e. records ! k = ConfirmedEdge e"
  have edge: "is_candidate_edge (cands ! l) \<and> e \<in> set (es_created_edges es)" if "l < length cids" "records ! l = ConfirmedEdge e" for l e
    using promotion_at [OF assms(1,2) that(1)] that(2) by (cases "cands ! l") auto
  then show "e \<in> set (es_created_edges es)" using assms(3,4) by blast
  have inv: "length (es_created_edges es) = length (filter is_candidate_edge cands)"
      "\<And>e. e \<in> set (es_created_edges es) \<Longrightarrow> Some (ConfirmedEdge e) \<in> set (es_aligned es)"
    using assms(1) in_set_takeD unfolding promotion_def promotion_inv_def by (metis order_refl take_all)+
  have len: "length records = length cids"
    using assms(1) arg_cong [OF assms(2), of length] S(2) by (simp add: promotion_def promotion_inv_def)
  have sub: "set (es_created_edges es) \<subseteq> ?f ` ?E"
  proof
    fix e assume "e \<in> set (es_created_edges es)"
    then have "ConfirmedEdge e \<in> set records" using inv(2) by (auto simp flip: assms(2))
    then obtain l where l: "l < length cids" "records ! l = ConfirmedEdge e" using len by (auto simp: in_set_conv_nth)
    then have "?f l = e" "l \<in> ?E" using edge S(2) by auto
    then show "e \<in> ?f ` ?E" by blast
  qed
  have "distinct (es_created_edges es)" using promotion_created_edges(1) [OF assms(1)] by (simp add: distinct_map)
  then have "card (set (es_created_edges es)) = card ?E"
    using inv(1) by (simp add: distinct_card length_filter_conv_card)
  moreover have "card (set (es_created_edges es)) \<le> card (?f ` ?E)" using sub by (intro card_mono) simp_all
  moreover have "card (?f ` ?E) \<le> card ?E" by (rule card_image_le) simp
  ultimately have inj: "inj_on ?f ?E" by (intro eq_card_imp_inj_on) simp_all
  show "l = k" if l: "l < length cids" "records ! l = ConfirmedEdge e"
  proof (rule inj_onD [OF inj])
    show "?f l = ?f k" using l assms(4) by simp
    show "l \<in> ?E" "k \<in> ?E" using edge [OF l] edge [OF assms(3,4)] l(1) assms(3) S(2) by simp_all
  qed
qed

lemma confirmed_spec:
  assumes "promotion g cids cands cs es" "map Some records = es_aligned es" "drawn_from_candidates cands cs"
  shows "spec_confirmed cids records g (promoted_graph cands cs es g)"
  unfolding spec_confirmed_def
proof (intro conjI allI impI)
  note S = promotion_selection [OF assms(1)]
  let ?g = "promoted_graph cands cs es g"
  have ok: "records_ok g" using assms(1) by (simp add: promotion_def graph_ok_def)
  show "distinct cids" using S(1) by (simp add: selection_def)
  show "length records = length cids"
    using assms(1) arg_cong [OF assms(2), of length] S(2) by (simp add: promotion_def promotion_inv_def)
  show "\<exists>c. gr_candidates g (cids ! k) = Some c \<and> confirmed_as ?g cids records c (records ! k)" if "k < length cids" for k
    using S(4) [OF that] promotion_confirmed_as [OF assms(1,2) that] by blast
  show "gr_candidates ?g = gr_candidates g |` (- set cids)"
    by (simp add: promoted_fields(3) [OF assms(1)] without_candidates_def S(5))
  show "gr_nodes g \<subseteq>\<^sub>m gr_nodes ?g" "gr_edges g \<subseteq>\<^sub>m gr_edges ?g"
    using promoted_fields(1,2) [OF assms(1)] by (auto simp: map_le_def) metis+
  show "map_option rr_name (gr_relations ?g j) = Some (rr_name r)" if "gr_relations g j = Some r" for j r
    using promoted_relation_name [OF assms(1), of r] records_okD(2) [OF ok that] that by auto
  show "\<exists>cid m. cid \<in> set cids \<and> gr_candidates g cid = Some (CandidateNode cid (nr_name n) (nr_payload n) m)"
    if "gr_nodes ?g i = Some n" "gr_nodes g i = None" for i n
  proof -
    have "n \<in> set (cs_created_nodes cs)" using that promoted_fields(1) [OF assms(1), of i n] by auto
    then obtain cid m where c: "CandidateNode cid (nr_name n) (nr_payload n) m \<in> set cands"
      using assms(3) unfolding drawn_from_candidates_def by blast
    then show ?thesis using S(1,5) unfolding selection_def by (metis candidate_id_of.simps(1) imageI)
  qed
  show "ConfirmedEdge e \<in> set records" if "gr_edges ?g k = Some e" "gr_edges g k = None" for k e
  proof -
    have "e \<in> set (es_created_edges es)" using that promoted_fields(2) [OF assms(1), of k e] by auto
    then have "Some (ConfirmedEdge e) \<in> set (es_aligned es)"
      using assms(1) in_set_takeD unfolding promotion_def promotion_inv_def by metis
    then show ?thesis by (auto simp flip: assms(2))
  qed
  show "\<exists>cid m. cid \<in> set cids \<and> gr_candidates g cid = Some (CandidateRelation cid (rr_name r) m)"
    if rel: "gr_relations ?g j = Some r" "gr_relations g j = None" for j r
  proof -
    obtain b where b: "base_relation g cs j = Some b" using promoted_relation(2) [OF assms(1), of j] rel(1) by fastforce
    then have "b \<in> set (cs_created_relations cs)" "rr_id b = j"
      using rel(2) find_key [of j "cs_created_relations cs" b] by (auto simp: base_relation_def split: option.splits)
    moreover from this have "rr_name r = rr_name b" using promoted_relation_name [OF assms(1), of b] rel(1) by auto
    ultimately obtain cid m where c: "CandidateRelation cid (rr_name r) m \<in> set cands"
      using assms(3) unfolding drawn_from_candidates_def by metis
    then show ?thesis using S(1,5) unfolding selection_def by (metis candidate_id_of.simps(2) imageI)
  qed
  show "gr_edges g (er_id e) = None" if "k < length cids" "records ! k = ConfirmedEdge e" for k e
    using promotion_created_edges(3) [OF assms(1) promotion_edges_own(1) [OF assms(1,2) that]] .
  show "l = k" if "k < length cids" "records ! k = ConfirmedEdge e" "l < length cids" "records ! l = ConfirmedEdge e" for k e l
    using promotion_edges_own(2) [OF assms(1,2) that] .
qed

end
