(* ===== verification/Catalog_Scans.thy ===== *)
theory Catalog_Scans
  imports Catalog_Contract
begin

text \<open>
  Whole-family scans. A family of records is keyed by identifiers; a scan that succeeds has
  decoded every entry, so that the family represents the map of the decoded records and the
  scan lists exactly these records in the order of their identifiers.
\<close>

section \<open>Scans see every entry\<close>

lemma db_scan_Inr:
  assumes "rocks_sound api view" "db_scan api db cf f s = Inr t"
  shows "fold_result (\<lambda>(k, v). f k v) (view db cf) s = Inr t"
proof -
  have it: "rk_iterator api db cf [] = map Inr (filter (\<lambda>(k, v). [] \<le> k) (view db cf))"
    using assms unfolding db_scan_def by (rule rocks_iteratorD) (simp add: map_err_def)
  have map: "fold_result g (map Inr xs) s = fold_result (\<lambda>x. g (Inr x)) xs s"
    for g :: "rocksdb_error + bytes \<times> bytes \<Rightarrow> 'c \<Rightarrow> catalog_error + 'c" and xs s
    by (induction xs arbitrary: s) (simp_all cong: rbind_cong)
  have "rk_iterator api db cf [] = map Inr (view db cf)" using it by simp
  then show ?thesis using assms(2) by (simp add: db_scan_def map case_prod_beta')
qed

lemma db_scan_reads:
  assumes "rocks_reads api view"
  shows "db_scan api db cf f s = fold_result (\<lambda>(k, v). f k v) (view db cf) s"
proof -
  have map: "fold_result g (map Inr xs) s = fold_result (\<lambda>x. g (Inr x)) xs s"
    for g :: "rocksdb_error + bytes \<times> bytes \<Rightarrow> 'c \<Rightarrow> catalog_error + 'c" and xs s
    by (induction xs arbitrary: s) (simp_all cong: rbind_cong)
  have "rk_iterator api db cf [] = map Inr (view db cf)" using assms by (simp add: rocks_reads_def)
  then show ?thesis by (simp add: db_scan_def map case_prod_beta')
qed

lemma store_entries:
  "contents_ok c \<Longrightarrow> (k, v) \<in> set (c cf) \<longleftrightarrow> store_of c cf k = Some v"
  using btree.entries_lookup [of "c cf"] by (simp add: contents_ok_def store_of_def)

section \<open>Decoded families\<close>

definition addressable_contents :: "contents \<Rightarrow> bool" where
  "addressable_contents c \<longleftrightarrow> (\<forall>cf k v. (k, v) \<in> set (c cf) \<longrightarrow> addressable k \<and> addressable v)"

definition entry_of :: "(bytes \<Rightarrow> u64 \<Rightarrow> 'e + 'x) \<Rightarrow> bytes \<times> bytes \<Rightarrow> 'x \<Rightarrow> bool" where
  "entry_of dec = (\<lambda>(k, v) x. \<exists>i. decode_id_key k = Inr i \<and> dec v i = Inr x)"

definition decoded :: "(bytes \<Rightarrow> u64 \<Rightarrow> 'e + 'x) \<Rightarrow> ('i \<Rightarrow> u64) \<Rightarrow> (bytes \<rightharpoonup> bytes) \<Rightarrow> 'i \<rightharpoonup> 'x" where
  "decoded dec as_u64 kv i =
     (case kv (encode_id_key (as_u64 i)) of None \<Rightarrow> None
      | Some v \<Rightarrow> (case dec v (as_u64 i) of Inl _ \<Rightarrow> None | Inr x \<Rightarrow> Some x))"

text \<open>The records of a map, in the order of their identifiers.\<close>

definition record_list :: "('i \<Rightarrow> u64) \<Rightarrow> ('x \<Rightarrow> 'i) \<Rightarrow> ('i \<rightharpoonup> 'x) \<Rightarrow> 'x list \<Rightarrow> bool" where
  "record_list as_u64 ident m xs \<longleftrightarrow>
     sorted_wrt (<) (map (\<lambda>x. as_u64 (ident x)) xs) \<and> (\<forall>i x. m i = Some x \<longleftrightarrow> x \<in> set xs \<and> ident x = i)"

text \<open>What the four record codecs have in common.\<close>

locale record_codec =
  fixes dec :: "bytes \<Rightarrow> u64 \<Rightarrow> codec_error + 'x" and as_u64 :: "'i \<Rightarrow> u64" and ident :: "'x \<Rightarrow> 'i"
    and enc :: "'x \<Rightarrow> bytes" and ok :: "'x \<Rightarrow> bool"
  assumes as_u64_bij: "bij as_u64"
    and dec_iff: "addressable bs \<Longrightarrow> dec bs i = Inr x \<longleftrightarrow> enc x = bs \<and> as_u64 (ident x) = i \<and> ok x"
    and enc_addressable: "ok x \<Longrightarrow> addressable (enc x)"
begin

lemma as_u64_eq: "as_u64 i = as_u64 j \<longleftrightarrow> i = j"
  using as_u64_bij by (simp add: bij_def inj_eq)

lemma dec_enc: "ok x \<Longrightarrow> dec (enc x) (as_u64 (ident x)) = Inr x"
  using dec_iff enc_addressable by blast

lemma decodedD:
  assumes "decoded dec as_u64 kv i = Some x" "\<And>k v. kv k = Some v \<Longrightarrow> addressable k \<and> addressable v"
  shows "ident x = i \<and> ok x \<and> kv (encode_id_key (as_u64 i)) = Some (enc x)"
proof -
  from assms(1) obtain v where v: "kv (encode_id_key (as_u64 i)) = Some v" "dec v (as_u64 i) = Inr x"
    by (auto simp: decoded_def split: option.splits sum.splits)
  then show ?thesis using assms(2) dec_iff [of v "as_u64 i" x] as_u64_eq by auto
qed

lemma decoded_entry:
  assumes "kv k = Some v" "addressable k" "addressable v" "decode_id_key k = Inr u" "dec v u = Inr x"
  shows "decoded dec as_u64 kv (ident x) = Some x"
proof -
  have "k = encode_id_key u" using assms(2,4) decode_id_key_iff by simp
  moreover have "as_u64 (ident x) = u" using dec_iff [OF assms(3)] assms(5) by simp
  ultimately show ?thesis using assms(1,5) by (simp add: decoded_def)
qed

lemma decoded_represents:
  assumes "\<And>k v. kv k = Some v \<Longrightarrow> addressable k \<and> addressable v" "\<And>k v. kv k = Some v \<Longrightarrow> \<exists>x. entry_of dec (k, v) x"
  shows "represents (id_keys as_u64) (\<lambda>_. enc) (decoded dec as_u64 kv) kv"
  unfolding represents_def id_keys_def
proof (intro allI iffI)
  fix k v assume kv: "kv k = Some v"
  with assms obtain u x where u: "k = encode_id_key u" "dec v u = Inr x" and a: "addressable v"
    by (fastforce simp: entry_of_def decode_id_key_iff)
  obtain i where i: "as_u64 i = u" using as_u64_bij by (metis bij_pointE)
  then have "decoded dec as_u64 kv i = Some x" using kv u by (simp add: decoded_def)
  moreover have "enc x = v" using dec_iff [OF a] u(2) by simp
  ultimately show "\<exists>i x. decoded dec as_u64 kv i = Some x \<and> encode_id_key (as_u64 i) = k \<and> enc x = v" using i u(1) by blast
next
  fix k v assume "\<exists>i x. decoded dec as_u64 kv i = Some x \<and> encode_id_key (as_u64 i) = k \<and> enc x = v"
  then show "kv k = Some v" using decodedD [OF _ assms(1)] by blast
qed

text \<open>The entries of a family that represents a map, and the list of its records.\<close>

lemma represented_entry:
  assumes "represents (id_keys as_u64) (\<lambda>_. enc) m (btree_get es)" "btree_ok es"
    and "\<And>i x. m i = Some x \<Longrightarrow> ident x = i \<and> ok x" "(k, v) \<in> set es"
  shows "\<exists>x. m (ident x) = Some x \<and> ok x \<and> k = encode_id_key (as_u64 (ident x)) \<and> v = enc x \<and> entry_of dec (k, v) x"
proof -
  have "btree_get es k = Some v" using assms(4) btree.entries_lookup [OF assms(2)] by simp
  then obtain i x where x: "m i = Some x" "encode_id_key (as_u64 i) = k" "enc x = v"
    using assms(1) unfolding represents_def id_keys_def by blast
  then have i: "ident x = i" "ok x" using assms(3) by blast+
  have "entry_of dec (k, v) x"
    unfolding entry_of_def x(2,3) [symmetric] using dec_enc [OF i(2)] i(1) by simp
  with x i show ?thesis by blast
qed

lemma id_key_less: "encode_id_key a < encode_id_key b \<longleftrightarrow> a < b"
  by (simp add: encode_id_key_def u64_be_less_iff)

lemma listed:
  assumes "represents (id_keys as_u64) (\<lambda>_. enc) m (btree_get es)" "btree_ok es"
    and "\<And>i x. m i = Some x \<Longrightarrow> ident x = i \<and> ok x" "list_all2 (entry_of dec) es xs"
  shows "record_list as_u64 ident m xs"
proof -
  have at: "m (ident (xs ! k)) = Some (xs ! k) \<and> fst (es ! k) = encode_id_key (as_u64 (ident (xs ! k)))
      \<and> snd (es ! k) = enc (xs ! k)" if "k < length es" for k
  proof -
    obtain key val where e: "es ! k = (key, val)" by (cases "es ! k")
    then have "(key, val) \<in> set es" using that nth_mem by metis
    from represented_entry [OF assms(1-3) this] obtain x where x: "m (ident x) = Some x" "ok x"
        "key = encode_id_key (as_u64 (ident x))" "val = enc x" by blast
    have "entry_of dec (key, val) (xs ! k)" using assms(4) that e by (auto simp: list_all2_conv_all_nth)
    then have "xs ! k = x" using x by (auto simp: entry_of_def dec_enc)
    with x e show ?thesis by simp
  qed
  have len: "length xs = length es" using assms(4) by (auto dest: list_all2_lengthD)
  have "sorted_wrt (<) (map fst es)" using assms(2) by (simp add: btree_ok_def)
  moreover have "map fst es = map (\<lambda>x. encode_id_key (as_u64 (ident x))) xs"
    using at len by (intro nth_equalityI) auto
  ultimately have "sorted_wrt (<) (map (\<lambda>x. as_u64 (ident x)) xs)"
    by (simp add: sorted_wrt_map id_key_less)
  moreover have "m i = Some x \<longleftrightarrow> x \<in> set xs \<and> ident x = i" for i x
  proof
    assume x: "m i = Some x"
    have "btree_get es (encode_id_key (as_u64 i)) = Some (enc x)" using represents_get [OF assms(1) x] by (simp add: id_keys_def)
    then have "(encode_id_key (as_u64 i), enc x) \<in> set es" using btree.entries_lookup [OF assms(2)] by blast
    then obtain k where k: "k < length es" "es ! k = (encode_id_key (as_u64 i), enc x)" by (auto simp: in_set_conv_nth)
    then have "ident (xs ! k) = i" "m (ident (xs ! k)) = Some (xs ! k)" using at [of k] as_u64_eq by auto
    then show "x \<in> set xs \<and> ident x = i" using x k(1) len by force
  next
    assume "x \<in> set xs \<and> ident x = i"
    then show "m i = Some x" using at len by (auto simp: in_set_conv_nth)
  qed
  ultimately show ?thesis by (simp add: record_list_def)
qed

lemma scanned_list:
  assumes "btree_ok es" "\<And>k v. (k, v) \<in> set es \<Longrightarrow> addressable k \<and> addressable v" "list_all2 (entry_of dec) es xs"
  shows "represents (id_keys as_u64) (\<lambda>_. enc) (decoded dec as_u64 (btree_get es)) (btree_get es)"
    and "record_list as_u64 ident (decoded dec as_u64 (btree_get es)) xs"
proof -
  have a: "addressable k \<and> addressable v" if "btree_get es k = Some v" for k v
    using assms(2) that btree.entries_lookup [OF assms(1)] by simp
  have "\<exists>x. entry_of dec (k, v) x" if "btree_get es k = Some v" for k v
  proof -
    have "(k, v) \<in> set es" using that btree.entries_lookup [OF assms(1)] by simp
    then show ?thesis using assms(3) by (metis in_set_conv_nth list_all2_nthD)
  qed
  then show rep: "represents (id_keys as_u64) (\<lambda>_. enc) (decoded dec as_u64 (btree_get es)) (btree_get es)"
    using a by (intro decoded_represents)
  show "record_list as_u64 ident (decoded dec as_u64 (btree_get es)) xs"
    using decodedD a by (intro listed [OF rep assms(1) _ assms(3)]) blast
qed

lemma record_list_distinct: "record_list as_u64 ident m xs \<Longrightarrow> distinct (map ident xs)"
  unfolding record_list_def using strict_sorted_iff [of "map (\<lambda>x. as_u64 (ident x)) xs"]
  by (auto simp: distinct_map inj_on_def)

lemma record_list_msum:
  assumes "record_list as_u64 ident m xs"
  shows "finite (dom m) \<and> msum f m = sum_list (map f xs)"
proof -
  have at: "the (m (ident x)) = x" if "x \<in> set xs" for x
  proof -
    have "m (ident x) = Some x" using assms that unfolding record_list_def by blast
    then show ?thesis by simp
  qed
  have dom: "dom m = ident ` set xs" using assms by (auto simp: record_list_def dom_def)
  have "msum f m = (\<Sum>i \<in> ident ` set xs. f (the (m i)))" by (simp add: msum_def dom)
  also have "\<dots> = (\<Sum>x \<in> set xs. f x)"
    using record_list_distinct [OF assms] at by (subst sum.reindex) (auto simp: distinct_map)
  also have "\<dots> = sum_list (map f xs)"
    using record_list_distinct [OF assms] by (simp add: distinct_map sum_list_distinct_conv_sum_set)
  finally show ?thesis by (simp add: dom)
qed

end

section \<open>The four codecs\<close>

lemma id_bijections:
  "bij node_id_as_u64" "bij relation_id_as_u64" "bij edge_id_as_u64" "bij candidate_id_as_u64"
  by (rule o_bij [of NodeId] o_bij [of RelationId] o_bij [of EdgeId] o_bij [of CandidateId]; simp add: fun_eq_iff)+

lemma node_id_iff: "nr_id n = NodeId i \<longleftrightarrow> node_id_as_u64 (nr_id n) = i"
  by (cases "nr_id n") simp

lemma relation_id_iff: "rr_id r = RelationId i \<longleftrightarrow> relation_id_as_u64 (rr_id r) = i"
  by (cases "rr_id r") simp

lemma edge_id_iff: "er_id e = EdgeId i \<longleftrightarrow> edge_id_as_u64 (er_id e) = i"
  by (cases "er_id e") simp

lemma candidate_id_iff: "candidate_id_of c = CandidateId i \<longleftrightarrow> candidate_id_as_u64 (candidate_id_of c) = i"
  by (cases "candidate_id_of c") simp

lemma encodable_node: "encode_node n = Inr bs \<and> utf8_valid (node_name_as_str (nr_name n)) \<longleftrightarrow> node_bytes n = bs \<and> node_ok n"
proof
  assume n: "encode_node n = Inr bs \<and> utf8_valid (node_name_as_str (nr_name n))"
  then have "node_ok n"
    by (auto simp: encode_node_def node_ok_def push_string_eq push_bytes_eq rbind_Inr_iff split: if_splits)
  with n show "node_bytes n = bs \<and> node_ok n" by (simp add: node_bytes_def)
qed (use encode_node_ok [of n] in \<open>auto simp: node_ok_def\<close>)

lemma encodable_relation:
  "encode_relation r = Inr bs \<and> utf8_valid (relation_name_as_str (rr_name r)) \<and> total_reference_count r \<noteq> None
     \<longleftrightarrow> relation_bytes r = bs \<and> relation_ok r"
proof
  assume r: "encode_relation r = Inr bs \<and> utf8_valid (relation_name_as_str (rr_name r)) \<and> total_reference_count r \<noteq> None"
  then have "relation_ok r"
    by (auto simp: encode_relation_def encode_named_record_def relation_ok_def push_string_eq rbind_Inr_iff
        total_reference_count_def checked_add_u64_def split: if_splits)
  with r show "relation_bytes r = bs \<and> relation_ok r" by (simp add: relation_bytes_def)
qed (use encode_relation_ok [of r] in \<open>auto simp: relation_ok_def total_reference_count_def checked_add_u64_def\<close>)

lemma encodable_candidate: "encode_candidate c = Inr bs \<and> candidate_ok c \<longleftrightarrow> candidate_bytes c = bs \<and> stored_candidate_ok c"
proof
  assume c: "encode_candidate c = Inr bs \<and> candidate_ok c"
  then show "candidate_bytes c = bs \<and> stored_candidate_ok c"
    using encodable_candidate_ok by (auto simp: candidate_bytes_def)
next
  assume "candidate_bytes c = bs \<and> stored_candidate_ok c"
  moreover from this have "candidate_ok c" by (cases c) auto
  ultimately show "encode_candidate c = Inr bs \<and> candidate_ok c" using encode_candidate_ok [of c] by simp
qed

interpretation nodes_codec: record_codec decode_node node_id_as_u64 nr_id node_bytes node_ok
proof
  show "decode_node bs i = Inr n \<longleftrightarrow> node_bytes n = bs \<and> node_id_as_u64 (nr_id n) = i \<and> node_ok n" if "addressable bs" for bs i n
    unfolding node_codec [OF that] node_id_iff using encodable_node [of n bs] by blast
qed (use id_bijections encode_node_ok in auto)

interpretation relations_codec: record_codec decode_relation relation_id_as_u64 rr_id relation_bytes relation_ok
proof
  show "decode_relation bs i = Inr r \<longleftrightarrow> relation_bytes r = bs \<and> relation_id_as_u64 (rr_id r) = i \<and> relation_ok r"
    if "addressable bs" for bs i r
    unfolding relation_codec [OF that] relation_id_iff using encodable_relation [of r bs] by blast
qed (use id_bijections encode_relation_ok in auto)

interpretation edges_codec: record_codec decode_edge edge_id_as_u64 er_id encode_edge edge_ok
proof
  show "decode_edge bs i = Inr e \<longleftrightarrow> encode_edge e = bs \<and> edge_id_as_u64 (er_id e) = i \<and> edge_ok e" if "addressable bs" for bs i e
    unfolding edge_codec [OF that] edge_id_iff edge_ok_def by blast
  show "addressable (encode_edge e)" for e by (simp add: addressable_def encode_edge_def U64_MAX_def)
qed (rule id_bijections)

interpretation candidates_codec:
  record_codec decode_candidate candidate_id_as_u64 candidate_id_of candidate_bytes stored_candidate_ok
proof
  show "decode_candidate bs i = Inr c \<longleftrightarrow> candidate_bytes c = bs \<and> candidate_id_as_u64 (candidate_id_of c) = i \<and> stored_candidate_ok c"
    if "addressable bs" for bs i c
    unfolding candidate_codec [OF that] candidate_id_iff using encodable_candidate [of c bs] by blast
qed (use id_bijections encode_candidate_ok in auto)

section \<open>Listing a family\<close>

lemma list_scan_Inr:
  "fold_result (\<lambda>(k, v) xs. rbind (map_err (e1 k) (decode_id_key k)) (\<lambda>i.
     rbind (map_err (e2 i) (dec v i)) (\<lambda>x. Inr (xs @ [x])))) es acc = Inr ys \<longleftrightarrow>
   (\<exists>xs. ys = acc @ xs \<and> list_all2 (entry_of dec) es xs)"
proof (induction es arbitrary: acc)
  case (Cons e es)
  obtain k v where e: "e = (k, v)" by (cases e)
  show ?case
    unfolding e fold_result.simps rbind_Inr_iff list_all2_Cons1
    by (auto simp: rbind_Inr_iff Cons.IH) (auto simp: entry_of_def)
qed auto

lemma all_nodes_Inr:
  "rocks_sound api view \<Longrightarrow> all_nodes api db = Inr xs \<Longrightarrow> list_all2 (entry_of decode_node) (view db NODES) xs"
  using db_scan_Inr list_scan_Inr [where dec = decode_node and acc = "[]"]
  by (fastforce simp: all_nodes_def rbind_Inr_iff)

lemma all_relation_kinds_Inr:
  "rocks_sound api view \<Longrightarrow> all_relation_kinds api db = Inr xs \<Longrightarrow>
     list_all2 (entry_of decode_relation) (view db RELATION_KINDS) xs"
  using db_scan_Inr list_scan_Inr [where dec = decode_relation and acc = "[]"]
  by (fastforce simp: all_relation_kinds_def rbind_Inr_iff)

lemma all_edges_Inr:
  "rocks_sound api view \<Longrightarrow> all_edges api db = Inr xs \<Longrightarrow> list_all2 (entry_of decode_edge) (view db EDGES) xs"
  using db_scan_Inr list_scan_Inr [where dec = decode_edge and acc = "[]"]
  by (fastforce simp: all_edges_def rbind_Inr_iff)

end
