(* ===== verification/Catalog_Opened.thy ===== *)
theory Catalog_Opened
  imports Catalog_Scans
begin

text \<open>
  Opening a catalog validates whatever the database holds. When it succeeds, the database
  represents the graph decoded from it, that graph is well formed, and the rebuilt name indexes
  are the graph's: the validation checks everything the operations rely on.
\<close>

definition counter_of :: "store \<Rightarrow> string \<Rightarrow> u64" where
  "counter_of kv key = (case kv DEFAULT (ascii key) of None \<Rightarrow> 0
     | Some v \<Rightarrow> (case decode_u64_record v of Inl _ \<Rightarrow> 0 | Inr n \<Rightarrow> n))"

definition graph_of :: "store \<Rightarrow> graph" where
  "graph_of kv =
     \<lparr>gr_nodes = decoded decode_node node_id_as_u64 (kv NODES),
      gr_relations = decoded decode_relation relation_id_as_u64 (kv RELATION_KINDS),
      gr_edges = decoded decode_edge edge_id_as_u64 (kv EDGES),
      gr_candidates = decoded decode_candidate candidate_id_as_u64 (kv CANDIDATES),
      gr_next_candidate = counter_of kv META_NEXT_CANDIDATE_ID, gr_next_node = counter_of kv META_NEXT_NODE_ID,
      gr_next_relation = counter_of kv META_NEXT_RELATION_ID, gr_next_edge = counter_of kv META_NEXT_EDGE_ID,
      gr_pointer = kv DEFAULT (ascii META_ACTIVE_ROUTING_IMAGE)\<rparr>"

text \<open>A database whose entries fit into memory.\<close>

definition scanned :: "'db rocks \<Rightarrow> ('db \<Rightarrow> contents) \<Rightarrow> 'db \<Rightarrow> bool" where
  "scanned api view db \<longleftrightarrow> rocks_sound api view \<and> contents_ok (view db) \<and> addressable_contents (view db)"

lemma scanned_addressable:
  "scanned api view db \<Longrightarrow> store_of (view db) cf k = Some v \<Longrightarrow> addressable k \<and> addressable v"
  using store_entries [of "view db"] by (auto simp: scanned_def addressable_contents_def)

lemma scanned_entry: "scanned api view db \<Longrightarrow> (k, v) \<in> set (view db cf) \<longleftrightarrow> store_of (view db) cf k = Some v"
  by (simp add: scanned_def store_entries)

lemma graph_of_records:
  assumes "scanned api view db"
  shows "gr_nodes (graph_of (store_of (view db))) i = Some n \<Longrightarrow> nr_id n = i \<and> node_ok n"
    and "gr_relations (graph_of (store_of (view db))) j = Some r \<Longrightarrow> rr_id r = j \<and> relation_ok r"
    and "gr_edges (graph_of (store_of (view db))) k = Some e \<Longrightarrow> er_id e = k \<and> edge_ok e"
    and "gr_candidates (graph_of (store_of (view db))) l = Some c \<Longrightarrow> candidate_id_of c = l \<and> stored_candidate_ok c"
  using nodes_codec.decodedD relations_codec.decodedD edges_codec.decodedD candidates_codec.decodedD
    scanned_addressable [OF assms] by (simp_all add: graph_of_def)

lemma graph_of_entry:
  assumes "scanned api view db"
  shows "(k, v) \<in> set (view db NODES) \<Longrightarrow> decode_id_key k = Inr u \<Longrightarrow> decode_node v u = Inr n \<Longrightarrow>
      gr_nodes (graph_of (store_of (view db))) (nr_id n) = Some n"
    and "(k, v) \<in> set (view db RELATION_KINDS) \<Longrightarrow> decode_id_key k = Inr u \<Longrightarrow> decode_relation v u = Inr r \<Longrightarrow>
      gr_relations (graph_of (store_of (view db))) (rr_id r) = Some r"
    and "(k, v) \<in> set (view db EDGES) \<Longrightarrow> decode_id_key k = Inr u \<Longrightarrow> decode_edge v u = Inr e \<Longrightarrow>
      gr_edges (graph_of (store_of (view db))) (er_id e) = Some e"
    and "(k, v) \<in> set (view db CANDIDATES) \<Longrightarrow> decode_id_key k = Inr u \<Longrightarrow> decode_candidate v u = Inr c \<Longrightarrow>
      gr_candidates (graph_of (store_of (view db))) (candidate_id_of c) = Some c"
  using scanned_addressable [OF assms] nodes_codec.decoded_entry relations_codec.decoded_entry edges_codec.decoded_entry
    candidates_codec.decoded_entry
  by (simp_all add: graph_of_def scanned_entry [OF assms])

section \<open>Names\<close>

lemma index_scan:
  assumes "fold_result f es Map.empty = Inr names"
    and "\<And>k v m m'. (k, v) \<in> set es \<Longrightarrow> f (k, v) m = Inr m' \<Longrightarrow>
      \<exists>name i. k = counted name \<and> v = encode_u64_record (raw i) \<and> m name = None \<and> m' = m(name \<mapsto> i) \<and> Q name i"
    and "\<And>i j. raw i = raw j \<Longrightarrow> i = j"
  shows "(\<forall>name i. names name = Some i \<longleftrightarrow> (counted name, encode_u64_record (raw i)) \<in> set es) \<and>
    (\<forall>(k, v) \<in> set es. \<exists>name i. k = counted name \<and> v = encode_u64_record (raw i) \<and> Q name i)"
proof -
  let ?P = "\<lambda>seen names. (\<forall>name i. names name = Some i \<longleftrightarrow> (counted name, encode_u64_record (raw i)) \<in> set seen) \<and>
    (\<forall>(k, v) \<in> set seen. \<exists>name i. k = counted name \<and> v = encode_u64_record (raw i) \<and> Q name i)"
  have "ensures (\<lambda>_. True) (?P es) (fold_result f es Map.empty)"
  proof (rule ensures_fold_result [where P = ?P])
    fix seen x rest m assume es: "es = seen @ x # rest" and m: "?P seen m"
    show "ensures (\<lambda>_. True) (?P (seen @ [x])) (f x m)"
    proof (cases "f x m")
      case (Inr m')
      obtain k v where x: "x = (k, v)" by (cases x)
      then obtain name i where n: "k = counted name" "v = encode_u64_record (raw i)" "m name = None" "m' = m(name \<mapsto> i)" "Q name i"
        using assms(2) [of k v m m'] Inr es by auto
      have inj: "encode_u64_record (raw j) = encode_u64_record (raw i) \<longleftrightarrow> j = i" for j
        using assms(3) [of j i] by (auto simp: encode_u64_record_def)
      have "(counted name, encode_u64_record (raw j)) \<notin> set seen" for j using m n(3) by (metis option.distinct(1))
      then have "(m' nm = Some j) \<longleftrightarrow> (counted nm, encode_u64_record (raw j)) \<in> set (seen @ [x])" for nm j
        using m n(3) by (cases "nm = name") (auto simp: n(1,2,4) x inj)
      with m n show ?thesis unfolding Inr by (auto simp: x)
    qed simp
  qed simp
  with assms(1) show ?thesis by simp
qed

lemma u64_record_eq_iff: "encode_u64_record a = encode_u64_record b \<longleftrightarrow> a = b"
  by (simp add: encode_u64_record_def)

text \<open>Names and identifiers that point at each other.\<close>

lemma named_index:
  assumes names: "\<And>name i. names name = Some i \<longleftrightarrow> kv (counted name) = Some (encode_u64_record (raw i))"
    and ent: "\<And>k v. kv k = Some v \<Longrightarrow>
      \<exists>name i. k = counted name \<and> v = encode_u64_record (raw i) \<and> (\<exists>x. m i = Some x \<and> name_of x = name)"
    and mapped: "\<And>i x. m i = Some x \<Longrightarrow> names (name_of x) = Some i" and inj: "\<And>i j. raw i = raw j \<Longrightarrow> i = j"
  shows "represents (\<lambda>i x. counted (name_of x)) (\<lambda>i x. encode_u64_record (raw i)) m kv"
    and "names name = Some i \<longleftrightarrow> (\<exists>x. m i = Some x \<and> name_of x = name)"
proof -
  show "represents (\<lambda>i x. counted (name_of x)) (\<lambda>i x. encode_u64_record (raw i)) m kv"
    unfolding represents_def
  proof (intro allI iffI)
    fix k v assume "kv k = Some v"
    then show "\<exists>i x. m i = Some x \<and> counted (name_of x) = k \<and> encode_u64_record (raw i) = v" using ent [of k v] by blast
  next
    fix k v assume "\<exists>i x. m i = Some x \<and> counted (name_of x) = k \<and> encode_u64_record (raw i) = v"
    then show "kv k = Some v" using mapped names by blast
  qed
  show "names name = Some i \<longleftrightarrow> (\<exists>x. m i = Some x \<and> name_of x = name)"
  proof
    assume "names name = Some i"
    then have "kv (counted name) = Some (encode_u64_record (raw i))" using names by simp
    from ent [OF this] obtain i' x where x: "raw i' = raw i" "m i' = Some x" "name_of x = name"
      by (auto simp: encode_u64_record_def)
    from inj [OF x(1)] x(2,3) show "\<exists>x. m i = Some x \<and> name_of x = name" by blast
  qed (use mapped in blast)
qed

lemma name_families:
  "node_name_keys = (\<lambda>i n. counted (node_name_as_str (nr_name n)))"
  "relation_name_keys = (\<lambda>i r. counted (relation_name_as_str (rr_name r)))"
  "id_values raw = (\<lambda>i x. encode_u64_record (raw i))"
  by (simp_all add: fun_eq_iff node_name_keys_def relation_name_keys_def id_values_def)

lemma node_name_entry_Inr:
  assumes "scanned api view db" "(k, v) \<in> set (view db NODE_NAMES)" "node_name_entry api db k v m = Inr m'"
  shows "\<exists>name i. k = counted name \<and> v = encode_u64_record (node_id_as_u64 i) \<and> m name = None \<and> m' = m(name \<mapsto> i)
    \<and> names_node (graph_of (store_of (view db))) name i"
proof -
  have rs: "rocks_sound api view" using assms(1) by (simp add: scanned_def)
  have a: "addressable k" "addressable v" using scanned_addressable [OF assms(1)] assms(2) by (auto simp: scanned_entry [OF assms(1)])
  from assms(3) obtain name u found rv n where
    r: "decode_name_key k = Inr name" "decode_u64_record v = Inr u" "db_get api db NODES (encode_id_key u) = Inr found"
      "found = Some rv" "decode_node rv u = Inr n" "node_name_as_str (nr_name n) = name" "m name = None" "m' = m(name \<mapsto> nr_id n)"
    by (auto simp: node_name_entry_def rbind_Inr_iff split: if_splits)
  have "store_of (view db) NODES (encode_id_key u) = Some rv" using db_get_Inr [OF rs r(3)] r(4) by simp
  then have n: "gr_nodes (graph_of (store_of (view db))) (nr_id n) = Some n" and u: "node_id_as_u64 (nr_id n) = u"
    using graph_of_entry(1) [OF assms(1) _ decode_id_key_encode r(5)] scanned_addressable [OF assms(1)] nodes_codec.dec_iff r(5)
    by (simp_all add: scanned_entry [OF assms(1)])
  have "encode_name_key name = Inr k" using r(1) decode_name_key_iff [OF a(1)] by simp
  then have "k = counted name" by (auto simp: encode_name_key_def push_string_eq split: if_splits)
  moreover have "v = encode_u64_record (node_id_as_u64 (nr_id n))" using r(2) u decode_u64_record_iff [OF a(2)] by simp
  ultimately show ?thesis using r n by (auto simp: names_node_def)
qed

lemma rebuild_node_index_Inr:
  fixes view :: "'db \<Rightarrow> contents"
  assumes "scanned api view db" "rebuild_node_index api db = Inr names"
  defines "kv \<equiv> store_of (view db)"
  shows "represents (id_keys node_id_as_u64) (\<lambda>_. node_bytes) (gr_nodes (graph_of kv)) (kv NODES)"
    and "represents node_name_keys (id_values node_id_as_u64) (gr_nodes (graph_of kv)) (kv NODE_NAMES)"
    and "names name = Some i \<longleftrightarrow> names_node (graph_of kv) name i"
proof -
  have rs: "rocks_sound api view" using assms(1) by (simp add: scanned_def)
  from assms(2) obtain
    s1: "db_scan api db NODE_NAMES (node_name_entry api db) Map.empty = Inr names" and
    s2: "db_scan api db NODES (\<lambda>key value _.
       rbind (map_err (record_error (cf_name NODES) (bytes_id key)) (decode_id_key key)) (\<lambda>i.
       rbind (map_err (record_error (cf_name NODES) (u64_display i)) (decode_node value i)) (\<lambda>record.
       if names (node_name_as_str (nr_name record)) \<noteq> Some (nr_id record)
       then Inl (corrupt (cf_name NODES) (u64_display i) ''confirmed node has no matching exact-name mapping'')
       else Inr ()))) () = Inr ()"
    by (auto simp: rebuild_node_index_def rbind_Inr_iff)
  have each: "\<exists>u n. decode_id_key k = Inr u \<and> decode_node v u = Inr n \<and> names (node_name_as_str (nr_name n)) = Some (nr_id n)"
    if "(k, v) \<in> set (view db NODES)" for k v
    using db_scan_Inr [OF rs s2] that by (fastforce simp: fold_result_check rbind_Inr_iff split: if_splits)
  show rep: "represents (id_keys node_id_as_u64) (\<lambda>_. node_bytes) (gr_nodes (graph_of kv)) (kv NODES)"
    unfolding kv_def graph_of_def graph.select_convs
  proof (rule nodes_codec.decoded_represents)
    show "\<exists>x. entry_of decode_node (k, v) x" if "store_of (view db) NODES k = Some v" for k v
      using each [of k v] that unfolding scanned_entry [OF assms(1)] entry_of_def by blast
  qed (rule scanned_addressable [OF assms(1)])
  have mapped: "names (node_name_as_str (nr_name n)) = Some i" if "gr_nodes (graph_of kv) i = Some n" for i n
  proof -
    have n: "nr_id n = i" "node_ok n" using graph_of_records(1) [OF assms(1)] that by (auto simp: kv_def)
    have "kv NODES (encode_id_key (node_id_as_u64 i)) = Some (node_bytes n)"
      using represents_get [OF rep that] by (simp add: id_keys_def)
    from each [of "encode_id_key (node_id_as_u64 i)" "node_bytes n"] this decode_node_ok [OF n(2)] n(1)
    show ?thesis by (auto simp: scanned_entry [OF assms(1)] kv_def)
  qed
  have scan: "fold_result (\<lambda>(k, v). node_name_entry api db k v) (view db NODE_NAMES) Map.empty = Inr names"
    by (rule db_scan_Inr [OF rs s1])
  have I: "(\<forall>name i. names name = Some i \<longleftrightarrow> (counted name, encode_u64_record (node_id_as_u64 i)) \<in> set (view db NODE_NAMES)) \<and>
    (\<forall>(k, v) \<in> set (view db NODE_NAMES). \<exists>name i. k = counted name \<and> v = encode_u64_record (node_id_as_u64 i)
      \<and> names_node (graph_of kv) name i)"
    unfolding kv_def by (rule index_scan [OF scan]) (use node_name_entry_Inr [OF assms(1)] in simp_all)
  have I': "names name = Some i \<longleftrightarrow> kv NODE_NAMES (counted name) = Some (encode_u64_record (node_id_as_u64 i))" for name i
    using I by (simp add: kv_def scanned_entry [OF assms(1)])
  have I'': "\<exists>name i. k = counted name \<and> v = encode_u64_record (node_id_as_u64 i)
        \<and> (\<exists>n. gr_nodes (graph_of kv) i = Some n \<and> node_name_as_str (nr_name n) = name)" if "kv NODE_NAMES k = Some v" for k v
    using I that unfolding kv_def names_node_def scanned_entry [OF assms(1), symmetric] by blast
  show "represents node_name_keys (id_values node_id_as_u64) (gr_nodes (graph_of kv)) (kv NODE_NAMES)"
    unfolding name_families by (rule named_index(1) [of names]) (use I' I'' mapped in simp_all)
  show "names name = Some i \<longleftrightarrow> names_node (graph_of kv) name i"
    unfolding names_node_def by (rule named_index(2) [of names "kv NODE_NAMES" node_id_as_u64]) (use I' I'' mapped in simp_all)
qed

lemma relation_name_entry_Inr:
  assumes "scanned api view db" "(k, v) \<in> set (view db RELATION_NAMES)" "relation_name_entry api db k v m = Inr m'"
  shows "\<exists>name i. k = counted name \<and> v = encode_u64_record (relation_id_as_u64 i) \<and> m name = None \<and> m' = m(name \<mapsto> i)
    \<and> names_relation (graph_of (store_of (view db))) name i"
proof -
  have rs: "rocks_sound api view" using assms(1) by (simp add: scanned_def)
  have a: "addressable k" "addressable v" using scanned_addressable [OF assms(1)] assms(2) by (auto simp: scanned_entry [OF assms(1)])
  from assms(3) obtain name u found rv n where
    r: "decode_name_key k = Inr name" "decode_u64_record v = Inr u" "db_get api db RELATION_KINDS (encode_id_key u) = Inr found"
      "found = Some rv" "decode_relation rv u = Inr n" "relation_name_as_str (rr_name n) = name" "m name = None" "m' = m(name \<mapsto> rr_id n)"
    by (auto simp: relation_name_entry_def rbind_Inr_iff split: if_splits)
  have "store_of (view db) RELATION_KINDS (encode_id_key u) = Some rv" using db_get_Inr [OF rs r(3)] r(4) by simp
  then have n: "gr_relations (graph_of (store_of (view db))) (rr_id n) = Some n" and u: "relation_id_as_u64 (rr_id n) = u"
    using graph_of_entry(2) [OF assms(1) _ decode_id_key_encode r(5)] scanned_addressable [OF assms(1)] relations_codec.dec_iff r(5)
    by (simp_all add: scanned_entry [OF assms(1)])
  have "encode_name_key name = Inr k" using r(1) decode_name_key_iff [OF a(1)] by simp
  then have "k = counted name" by (auto simp: encode_name_key_def push_string_eq split: if_splits)
  moreover have "v = encode_u64_record (relation_id_as_u64 (rr_id n))" using r(2) u decode_u64_record_iff [OF a(2)] by simp
  ultimately show ?thesis using r n by (auto simp: names_relation_def)
qed

lemma rebuild_relation_index_Inr:
  fixes view :: "'db \<Rightarrow> contents"
  assumes "scanned api view db" "rebuild_relation_index api db = Inr names"
  defines "kv \<equiv> store_of (view db)"
  shows "represents (id_keys relation_id_as_u64) (\<lambda>_. relation_bytes) (gr_relations (graph_of kv)) (kv RELATION_KINDS)"
    and "represents relation_name_keys (id_values relation_id_as_u64) (gr_relations (graph_of kv)) (kv RELATION_NAMES)"
    and "names name = Some i \<longleftrightarrow> names_relation (graph_of kv) name i"
proof -
  have rs: "rocks_sound api view" using assms(1) by (simp add: scanned_def)
  from assms(2) obtain
    s1: "db_scan api db RELATION_NAMES (relation_name_entry api db) Map.empty = Inr names" and
    s2: "db_scan api db RELATION_KINDS (\<lambda>key value _.
       rbind (map_err (record_error (cf_name RELATION_KINDS) (bytes_id key)) (decode_id_key key)) (\<lambda>i.
       rbind (map_err (record_error (cf_name RELATION_KINDS) (u64_display i)) (decode_relation value i)) (\<lambda>record.
       if names (relation_name_as_str (rr_name record)) \<noteq> Some (rr_id record)
       then Inl (corrupt (cf_name RELATION_KINDS) (u64_display i) ''confirmed relation kind has no matching exact-name mapping'')
       else Inr ()))) () = Inr ()"
    by (auto simp: rebuild_relation_index_def rbind_Inr_iff)
  have each: "\<exists>u n. decode_id_key k = Inr u \<and> decode_relation v u = Inr n \<and> names (relation_name_as_str (rr_name n)) = Some (rr_id n)"
    if "(k, v) \<in> set (view db RELATION_KINDS)" for k v
    using db_scan_Inr [OF rs s2] that by (fastforce simp: fold_result_check rbind_Inr_iff split: if_splits)
  show rep: "represents (id_keys relation_id_as_u64) (\<lambda>_. relation_bytes) (gr_relations (graph_of kv)) (kv RELATION_KINDS)"
    unfolding kv_def graph_of_def graph.select_convs
  proof (rule relations_codec.decoded_represents)
    show "\<exists>x. entry_of decode_relation (k, v) x" if "store_of (view db) RELATION_KINDS k = Some v" for k v
      using each [of k v] that unfolding scanned_entry [OF assms(1)] entry_of_def by blast
  qed (rule scanned_addressable [OF assms(1)])
  have mapped: "names (relation_name_as_str (rr_name n)) = Some i" if "gr_relations (graph_of kv) i = Some n" for i n
  proof -
    have n: "rr_id n = i" "relation_ok n" using graph_of_records(2) [OF assms(1)] that by (auto simp: kv_def)
    have "kv RELATION_KINDS (encode_id_key (relation_id_as_u64 i)) = Some (relation_bytes n)"
      using represents_get [OF rep that] by (simp add: id_keys_def)
    from each [of "encode_id_key (relation_id_as_u64 i)" "relation_bytes n"] this decode_relation_ok [OF n(2)] n(1)
    show ?thesis by (auto simp: scanned_entry [OF assms(1)] kv_def)
  qed
  have scan: "fold_result (\<lambda>(k, v). relation_name_entry api db k v) (view db RELATION_NAMES) Map.empty = Inr names"
    by (rule db_scan_Inr [OF rs s1])
  have I: "(\<forall>name i. names name = Some i \<longleftrightarrow> (counted name, encode_u64_record (relation_id_as_u64 i)) \<in> set (view db RELATION_NAMES)) \<and>
    (\<forall>(k, v) \<in> set (view db RELATION_NAMES). \<exists>name i. k = counted name \<and> v = encode_u64_record (relation_id_as_u64 i)
      \<and> names_relation (graph_of kv) name i)"
    unfolding kv_def by (rule index_scan [OF scan]) (use relation_name_entry_Inr [OF assms(1)] in simp_all)
  have I': "names name = Some i \<longleftrightarrow> kv RELATION_NAMES (counted name) = Some (encode_u64_record (relation_id_as_u64 i))" for name i
    using I by (simp add: kv_def scanned_entry [OF assms(1)])
  have I'': "\<exists>name i. k = counted name \<and> v = encode_u64_record (relation_id_as_u64 i)
        \<and> (\<exists>n. gr_relations (graph_of kv) i = Some n \<and> relation_name_as_str (rr_name n) = name)" if "kv RELATION_NAMES k = Some v" for k v
    using I that unfolding kv_def names_relation_def scanned_entry [OF assms(1), symmetric] by blast
  show "represents relation_name_keys (id_values relation_id_as_u64) (gr_relations (graph_of kv)) (kv RELATION_NAMES)"
    unfolding name_families by (rule named_index(1) [of names]) (use I' I'' mapped in simp_all)
  show "names name = Some i \<longleftrightarrow> names_relation (graph_of kv) name i"
    unfolding names_relation_def by (rule named_index(2) [of names "kv RELATION_NAMES" relation_id_as_u64]) (use I' I'' mapped in simp_all)
qed

section \<open>Edges and adjacency\<close>

lemma scanned_get:
  assumes "scanned api view db"
  shows "get_node_from_db api db i = Inr n \<Longrightarrow> gr_nodes (graph_of (store_of (view db))) i = Some n"
    and "get_relation_from_db api db j = Inr r \<Longrightarrow> gr_relations (graph_of (store_of (view db))) j = Some r"
proof -
  have rs: "rocks_sound api view" using assms by (simp add: scanned_def)
  show "gr_nodes (graph_of (store_of (view db))) i = Some n" if "get_node_from_db api db i = Inr n"
    using that unfolding point_reads by (rule read_record_Inr [OF rs]) (simp add: graph_of_def decoded_def)
  show "gr_relations (graph_of (store_of (view db))) j = Some r" if "get_relation_from_db api db j = Inr r"
    using that unfolding point_reads by (rule read_record_Inr [OF rs]) (simp add: graph_of_def decoded_def)
qed

lemma scanned_require:
  assumes "scanned api view db"
  shows "require_node api db i ep = Inr u \<Longrightarrow> gr_nodes (graph_of (store_of (view db))) i \<noteq> None"
    and "require_relation_kind api db j = Inr w \<Longrightarrow> gr_relations (graph_of (store_of (view db))) j \<noteq> None"
  using scanned_get [OF assms]
  by (auto simp: require_node_def require_relation_kind_def split: sum.splits catalog_error.splits record_kind.splits)

lemma validate_edges_Inr:
  assumes "scanned api view db" "fold_result (validate_edge api db) es [] = Inr edges" "distinct (map er_id es)"
  shows "btree_ok edges" "btree_get edges i = Some e \<longleftrightarrow> e \<in> set es \<and> er_id e = i"
    and "e \<in> set es \<Longrightarrow> gr_nodes (graph_of (store_of (view db))) (er_source e) \<noteq> None \<and>
      gr_nodes (graph_of (store_of (view db))) (er_destination e) \<noteq> None \<and>
      gr_relations (graph_of (store_of (view db))) (er_relation_kind e) \<noteq> None"
proof -
  let ?g = "graph_of (store_of (view db))"
  let ?known = "\<lambda>e. gr_nodes ?g (er_source e) \<noteq> None \<and> gr_nodes ?g (er_destination e) \<noteq> None \<and> gr_relations ?g (er_relation_kind e) \<noteq> None"
  let ?P = "\<lambda>seen edges. btree_ok edges \<and> (\<forall>i e. btree_get edges i = Some e \<longleftrightarrow> e \<in> set seen \<and> er_id e = i) \<and> (\<forall>e \<in> set seen. ?known e)"
  have "ensures (\<lambda>_. True) (?P es) (fold_result (validate_edge api db) es [])"
  proof (rule ensures_fold_result [where P = ?P])
    fix seen x rest m assume es: "es = seen @ x # rest" and m: "?P seen m"
    show "ensures (\<lambda>_. True) (?P (seen @ [x])) (validate_edge api db x m)"
    proof (cases "validate_edge api db x m")
      case (Inr m')
      then have m': "m' = btree_insert (er_id x) x m" and known: "?known x"
        using scanned_require [OF assms(1)] by (auto simp: validate_edge_def rbind_Inr_iff)
      have new: "er_id x \<notin> er_id ` set seen" using assms(3) by (auto simp: es)
      have "btree_get m' i = Some e \<longleftrightarrow> e \<in> set (seen @ [x]) \<and> er_id e = i" for i e
        using m new by (auto simp: m' btree.lookup_insert image_iff)
      with m known show ?thesis unfolding Inr by (auto simp: m' btree.insert_ok)
    qed simp
  qed (simp add: btree_ok_def btree_get_def)
  then show "btree_ok edges" "btree_get edges i = Some e \<longleftrightarrow> e \<in> set es \<and> er_id e = i" "e \<in> set es \<Longrightarrow> ?known e"
    using assms(2) by auto
qed

lemma adjacency_entries_Inr:
  assumes "scanned api view db" "fold_result (\<lambda>(k, v). adjacency_entry cf edges out k v) (view db cf) Map.empty = Inr counts"
  shows "(k, v) \<in> set (view db cf) \<Longrightarrow> \<exists>i e. btree_get edges i = Some e \<and>
      k = encode_adjacency_key (if out then er_source e else er_destination e) i \<and> v = encode_adjacency_value i"
    and "counts i \<noteq> None \<longleftrightarrow> (\<exists>n v. (encode_adjacency_key n i, v) \<in> set (view db cf))"
proof -
  let ?side = "\<lambda>e. if out then er_source e else er_destination e"
  let ?P = "\<lambda>seen counts. (\<forall>(k, v) \<in> set seen. \<exists>i e. btree_get edges i = Some e \<and> k = encode_adjacency_key (?side e) i \<and> v = encode_adjacency_value i)
    \<and> (\<forall>i. counts i \<noteq> None \<longleftrightarrow> (\<exists>n v. (encode_adjacency_key n i, v) \<in> set seen))"
  have "ensures (\<lambda>_. True) (?P (view db cf)) (fold_result (\<lambda>(k, v). adjacency_entry cf edges out k v) (view db cf) Map.empty)"
  proof (rule ensures_fold_result [where P = ?P])
    fix seen x rest and m :: "edge_id \<rightharpoonup> nat" assume es: "view db cf = seen @ x # rest" and m: "?P seen m"
    obtain k v where x: "x = (k, v)" by (cases x)
    have a: "addressable k" "addressable v"
      using scanned_addressable [OF assms(1), of cf k v] es by (simp_all add: scanned_entry [OF assms(1), symmetric] x)
    show "ensures (\<lambda>_. True) (?P (seen @ [x])) ((case x of (k, v) \<Rightarrow> adjacency_entry cf edges out k v) m)"
    proof (cases "adjacency_entry cf edges out k v m")
      case (Inr m')
      then obtain n i e where e: "k = encode_adjacency_key n i" "v = encode_adjacency_value i" "btree_get edges i = Some e" "n = ?side e"
          "m' = m(i \<mapsto> (case m i of None \<Rightarrow> 0 | Some c \<Rightarrow> c) + 1)"
        by (auto simp: adjacency_entry_def rbind_Inr_iff decode_adjacency_key_iff [OF a(1)] decode_adjacency_value_iff [OF a(2)]
            Let_def split: if_splits)
      have "m' j \<noteq> None \<longleftrightarrow> (\<exists>n v. (encode_adjacency_key n j, v) \<in> set (seen @ [x]))" for j
        using m by (cases "j = i") (auto simp: e x)
      moreover have "\<forall>(k, v) \<in> set (seen @ [x]). \<exists>i e. btree_get edges i = Some e \<and> k = encode_adjacency_key (?side e) i
          \<and> v = encode_adjacency_value i"
        using m e(1-4) unfolding x by (simp only: set_append list.set ball_Un ball_simps prod.case) blast
      ultimately have "?P (seen @ [x]) m'" by blast
      then show ?thesis unfolding x prod.case Inr ensures_simps .
    qed (simp add: x)
  qed simp
  then have all: "?P (view db cf) counts" using assms(2) by simp
  then show "(k, v) \<in> set (view db cf) \<Longrightarrow> \<exists>i e. btree_get edges i = Some e \<and> k = encode_adjacency_key (?side e) i \<and> v = encode_adjacency_value i"
    by blast
  from all show "counts i \<noteq> None \<longleftrightarrow> (\<exists>n v. (encode_adjacency_key n i, v) \<in> set (view db cf))" by blast
qed

lemma adjacency_represents:
  assumes "scanned api view db" "validate_adjacency_family api db cf edges out = Inr counts"
    and "\<And>i e. btree_get edges i = Some e \<longleftrightarrow> m i = Some e" "\<And>i e. m i = Some e \<Longrightarrow> counts i = Some (1 :: nat)"
  shows "represents (\<lambda>i e. encode_adjacency_key (if out then er_source e else er_destination e) i) (id_values edge_id_as_u64) m
    (store_of (view db) cf)"
proof -
  have rs: "rocks_sound api view" using assms(1) by (simp add: scanned_def)
  have scan: "fold_result (\<lambda>(k, v). adjacency_entry cf edges out k v) (view db cf) Map.empty = Inr counts"
    using assms(2) db_scan_Inr [OF rs] by (auto simp: validate_adjacency_family_def rbind_Inr_iff)
  note A = adjacency_entries_Inr [OF assms(1) scan]
  show ?thesis
    unfolding represents_def id_values_edge
  proof (intro allI iffI)
    fix k v assume "store_of (view db) cf k = Some v"
    then have "(k, v) \<in> set (view db cf)" by (simp add: scanned_entry [OF assms(1)])
    from A(1) [OF this] assms(3)
    show "\<exists>i e. m i = Some e \<and> encode_adjacency_key (if out then er_source e else er_destination e) i = k \<and> encode_adjacency_value i = v"
      by metis
  next
    fix k v assume "\<exists>i e. m i = Some e \<and> encode_adjacency_key (if out then er_source e else er_destination e) i = k \<and> encode_adjacency_value i = v"
    then obtain i e where e: "m i = Some e" "k = encode_adjacency_key (if out then er_source e else er_destination e) i"
      "v = encode_adjacency_value i" by blast
    then obtain n v' where v': "(encode_adjacency_key n i, v') \<in> set (view db cf)" using A(2) [of i] assms(4) by auto
    from A(1) [OF this] assms(3) e have "encode_adjacency_key n i = k" "v' = v" by auto
    with v' show "store_of (view db) cf k = Some v" by (simp add: scanned_entry [OF assms(1)])
  qed
qed

lemma scanned_family: "scanned api view db \<Longrightarrow> btree_ok (view db cf)"
  "scanned api view db \<Longrightarrow> (k, v) \<in> set (view db cf) \<Longrightarrow> addressable k \<and> addressable v"
  by (auto simp: scanned_def contents_ok_def addressable_contents_def)

lemma validate_edges_and_adjacency_Inr:
  fixes view :: "'db \<Rightarrow> contents"
  assumes "scanned api view db" "validate_edges_and_adjacency api db = Inr u"
  defines "kv \<equiv> store_of (view db)"
  shows "represents (id_keys edge_id_as_u64) (\<lambda>_. encode_edge) (gr_edges (graph_of kv)) (kv EDGES)"
    and "represents outgoing_keys (id_values edge_id_as_u64) (gr_edges (graph_of kv)) (kv OUTGOING_EDGES)"
    and "represents incoming_keys (id_values edge_id_as_u64) (gr_edges (graph_of kv)) (kv INCOMING_EDGES)"
    and "gr_edges (graph_of kv) i = Some e \<Longrightarrow> gr_nodes (graph_of kv) (er_source e) \<noteq> None \<and>
      gr_nodes (graph_of kv) (er_destination e) \<noteq> None \<and> gr_relations (graph_of kv) (er_relation_kind e) \<noteq> None"
proof -
  have rs: "rocks_sound api view" using assms(1) by (simp add: scanned_def)
  from assms(2) obtain es edges outgoing incoming where
    es: "all_edges api db = Inr es" and edges: "fold_result (validate_edge api db) es [] = Inr edges" and
    out: "validate_adjacency_family api db OUTGOING_EDGES edges True = Inr outgoing" and
    inc: "validate_adjacency_family api db INCOMING_EDGES edges False = Inr incoming" and
    counts: "\<forall>x \<in> set edges. incoming (er_id (snd x)) = Some 1 \<and> outgoing (er_id (snd x)) = Some 1"
    by (auto simp: validate_edges_and_adjacency_def rbind_Inr_iff fold_result_check split: if_splits)
  note L = edges_codec.scanned_list [OF scanned_family(1) [OF assms(1)] scanned_family(2) [where cf = EDGES, OF assms(1)]
      all_edges_Inr [OF rs es]]
  have ge: "gr_edges (graph_of kv) = decoded decode_edge edge_id_as_u64 (kv EDGES)" by (simp add: graph_of_def)
  have list: "record_list edge_id_as_u64 er_id (gr_edges (graph_of kv)) es"
    unfolding ge using L(2) by (simp add: kv_def store_of_def)
  show "represents (id_keys edge_id_as_u64) (\<lambda>_. encode_edge) (gr_edges (graph_of kv)) (kv EDGES)"
    unfolding ge using L(1) by (simp add: kv_def store_of_def)
  note E = validate_edges_Inr [OF assms(1) edges edges_codec.record_list_distinct [OF list]]
  have get: "btree_get edges i = Some e \<longleftrightarrow> gr_edges (graph_of kv) i = Some e" for i e
    using E(2) list by (simp add: record_list_def)
  have one: "outgoing i = Some 1 \<and> incoming i = Some 1" if "gr_edges (graph_of kv) i = Some e" for i e
  proof -
    have "(i, e) \<in> set edges" using that get btree.entries_lookup [OF E(1)] by simp
    moreover have "er_id e = i" using that list by (simp add: record_list_def)
    ultimately show ?thesis using counts by force
  qed
  have keys: "outgoing_keys = (\<lambda>i e. encode_adjacency_key (if True then er_source e else er_destination e) i)"
    "incoming_keys = (\<lambda>i e. encode_adjacency_key (if False then er_source e else er_destination e) i)"
    by (simp_all add: fun_eq_iff outgoing_keys_def incoming_keys_def)
  show "represents outgoing_keys (id_values edge_id_as_u64) (gr_edges (graph_of kv)) (kv OUTGOING_EDGES)"
    unfolding keys kv_def using one get by (intro adjacency_represents [OF assms(1) out]) (auto simp: kv_def)
  show "represents incoming_keys (id_values edge_id_as_u64) (gr_edges (graph_of kv)) (kv INCOMING_EDGES)"
    unfolding keys kv_def using one get by (intro adjacency_represents [OF assms(1) inc]) (auto simp: kv_def)
  show "gr_nodes (graph_of kv) (er_source e) \<noteq> None \<and>
      gr_nodes (graph_of kv) (er_destination e) \<noteq> None \<and> gr_relations (graph_of kv) (er_relation_kind e) \<noteq> None"
    if "gr_edges (graph_of kv) i = Some e"
  proof -
    have "e \<in> set es" using that list by (simp add: record_list_def)
    then show ?thesis unfolding kv_def by (rule E(3))
  qed
qed

end
