(* ===== verification/Catalog_Validated.thy ===== *)
theory Catalog_Validated
  imports Catalog_Opened
begin

text \<open>
  Recounting on opening: the stored reference and usage counts, the popularity index and the
  identifier counters agree with the records, and the decoded graph is well formed.
\<close>

definition tally :: "('k \<rightharpoonup> u64) \<Rightarrow> 'k \<Rightarrow> nat" where
  "tally m k = (case m k of None \<Rightarrow> 0 | Some n \<Rightarrow> unat n)"

lemma tally_word: "(case m k of None \<Rightarrow> 0 | Some n \<Rightarrow> n) = w \<longleftrightarrow> tally m k = unat (w :: u64)"
  by (auto simp: tally_def unat_eq_zero unsigned_word_eqI split: option.split)

lemma tally_bump:
  assumes "checked_add_u64 (case m k of None \<Rightarrow> 0 | Some n \<Rightarrow> n) 1 = Some c"
  shows "tally (m(k \<mapsto> c)) j = tally m j + of_bool (j = k)"
  using assms by (auto simp: tally_def u64_incr split: option.splits)

lemma msum_entries:
  assumes "btree_ok es" "\<And>i x. m i = Some x \<longleftrightarrow> btree_get es i = Some x"
  shows "finite (dom m) \<and> msum f m = sum_list (map f (map snd es))"
proof -
  have mem: "(i, x) \<in> set es \<longleftrightarrow> m i = Some x" for i x using assms(2) btree.entries_lookup [OF assms(1)] by simp
  have d: "distinct (map fst es)" by (rule btree_distinct [OF assms(1)])
  have dom: "dom m = fst ` set es" using mem by force
  have "msum f m = (\<Sum>i \<in> fst ` set es. f (the (m i)))" by (simp add: msum_def dom)
  also have "\<dots> = (\<Sum>p \<in> set es. f (snd p))"
  proof -
    have "f (the (m (fst p))) = f (snd p)" if "p \<in> set es" for p using mem [of "fst p" "snd p"] that by simp
    moreover have "inj_on fst (set es)" using d by (simp add: distinct_map)
    ultimately show ?thesis by (simp add: sum.reindex)
  qed
  also have "\<dots> = sum_list (map f (map snd es))"
    using d by (simp add: distinct_map sum_list_distinct_conv_sum_set comp_def)
  finally show ?thesis by (simp add: dom)
qed

section \<open>Candidates\<close>

lemma read_candidates_Inr:
  fixes view :: "'db \<Rightarrow> contents"
  assumes "scanned api view db" "read_candidates api db = Inr candidates"
  defines "kv \<equiv> store_of (view db)"
  shows "btree_ok candidates" "btree_get candidates i = gr_candidates (graph_of kv) i"
    and "represents (id_keys candidate_id_as_u64) (\<lambda>_. candidate_bytes) (gr_candidates (graph_of kv)) (kv CANDIDATES)"
proof -
  have rs: "rocks_sound api view" using assms(1) by (simp add: scanned_def)
  let ?f = "\<lambda>(key, value) candidates.
       rbind (map_err (record_error (cf_name CANDIDATES) (bytes_id key)) (decode_id_key key)) (\<lambda>i.
       rbind (map_err (record_error (cf_name CANDIDATES) (u64_display i)) (decode_candidate value i)) (\<lambda>c.
       Inr (btree_insert (CandidateId i) c candidates)))"
  let ?P = "\<lambda>seen m. btree_ok m \<and> (\<forall>e \<in> set seen. \<exists>c. entry_of decode_candidate e c) \<and>
    btree_get m = decoded decode_candidate candidate_id_as_u64 (map_of seen)"
  from assms(2) have scan: "fold_result ?f (view db CANDIDATES) [] = Inr candidates"
    using db_scan_Inr [OF rs] by (fastforce simp: read_candidates_def rbind_Inr_iff)
  have "ensures (\<lambda>_. True) (?P (view db CANDIDATES)) (fold_result ?f (view db CANDIDATES) [])"
  proof (rule ensures_fold_result [where P = ?P])
    fix seen x rest m assume es: "view db CANDIDATES = seen @ x # rest" and m: "?P seen m"
    obtain k v where x: "x = (k, v)" by (cases x)
    have a: "addressable k" using scanned_family(2) [OF assms(1), of k v CANDIDATES] es by (simp add: x)
    have new: "k \<notin> fst ` set seen" using btree_distinct [OF scanned_family(1) [OF assms(1), of CANDIDATES]] es by (auto simp: x)
    show "ensures (\<lambda>_. True) (?P (seen @ [x])) (?f x m)"
    proof (cases "?f x m")
      case (Inr m')
      then obtain u c where c: "k = encode_id_key u" "decode_candidate v u = Inr c" "m' = btree_insert (CandidateId u) c m"
        by (auto simp: x rbind_Inr_iff decode_id_key_iff [OF a])
      have get: "map_of (seen @ [x]) k' = (if k' = k then Some v else map_of seen k')" for k'
      proof -
        have "map_of seen k = None" using new by (simp add: map_of_eq_None_iff)
        then show ?thesis by (simp add: x map_add_def split: option.split)
      qed
      have "btree_get m' i = decoded decode_candidate candidate_id_as_u64 (map_of (seen @ [x])) i" for i
      proof (cases "i = CandidateId u")
        case True
        then show ?thesis using m c(2) by (simp add: c(3) btree.lookup_insert decoded_def get c(1) del: map_of_append)
      next
        case False
        then have "candidate_id_as_u64 i \<noteq> u" by (cases i) simp
        then show ?thesis using m False by (simp add: c(3) btree.lookup_insert decoded_def get c(1) del: map_of_append)
      qed
      moreover have "entry_of decode_candidate x c" using c(2) by (simp add: entry_of_def x c(1))
      ultimately show ?thesis using m unfolding Inr by (auto simp: c(3) btree.insert_ok)
    qed simp
  qed (simp add: btree_ok_def btree_get_def fun_eq_iff decoded_def)
  then have P: "?P (view db CANDIDATES) candidates" using scan by simp
  then show "btree_ok candidates" by blast
  show "btree_get candidates i = gr_candidates (graph_of kv) i"
  proof -
    have "map_of (view db CANDIDATES) = kv CANDIDATES" by (simp add: fun_eq_iff kv_def store_of_def btree_get_def)
    then show ?thesis using P by (simp add: graph_of_def)
  qed
  show "represents (id_keys candidate_id_as_u64) (\<lambda>_. candidate_bytes) (gr_candidates (graph_of kv)) (kv CANDIDATES)"
    unfolding kv_def graph_of_def graph.select_convs
    using P by (intro candidates_codec.decoded_represents scanned_addressable [OF assms(1)])
      (auto simp: scanned_entry [OF assms(1), symmetric])
qed

lemma node_dependency_Inr:
  assumes "scanned api view db" "validate_node_dependency api db candidates owner ref incoming = Inr incoming'"
    and "\<And>i. btree_get candidates i = gr_candidates (graph_of (store_of (view db))) i"
  shows "node_reference_ok (graph_of (store_of (view db))) ref"
    and "tally incoming' i = tally incoming i + of_bool (ref = NodeCandidate i)"
proof -
  have "node_reference_ok (graph_of (store_of (view db))) ref \<and>
      (\<forall>i. tally incoming' i = tally incoming i + of_bool (ref = NodeCandidate i))"
  proof (cases ref)
    case (NodeConfirmed n)
    then show ?thesis using assms(2) scanned_get(1) [OF assms(1)] by (auto simp: rbind_Inr_iff)
  next
    case (NodeCandidate c)
    with assms(2) obtain cid name payload n x where c: "gr_candidates (graph_of (store_of (view db))) c = Some (CandidateNode cid name payload n)"
        "checked_add_u64 (case incoming c of None \<Rightarrow> 0 | Some n \<Rightarrow> n) 1 = Some x" "incoming' = incoming(c \<mapsto> x)"
      by (auto simp: assms(3) checked_increment_candidate_reference_def Let_def rbind_Inr_iff split: option.splits candidate.splits)
    then show ?thesis using NodeCandidate tally_bump [of incoming c, OF c(2)] by auto
  qed
  then show "node_reference_ok (graph_of (store_of (view db))) ref"
    "tally incoming' i = tally incoming i + of_bool (ref = NodeCandidate i)" by auto
qed

lemma relation_dependency_Inr:
  assumes "scanned api view db"
    and "validate_relation_dependency api db candidates owner ref (incoming, provisional) = Inr (incoming', provisional')"
    and "\<And>i. btree_get candidates i = gr_candidates (graph_of (store_of (view db))) i"
  shows "relation_reference_ok (graph_of (store_of (view db))) ref"
    and "tally incoming' i = tally incoming i + of_bool (ref = RelationCandidate i)"
    and "tally provisional' j = tally provisional j + of_bool (ref = RelationConfirmed j)"
proof -
  have "relation_reference_ok (graph_of (store_of (view db))) ref \<and>
      (\<forall>i. tally incoming' i = tally incoming i + of_bool (ref = RelationCandidate i)) \<and>
      (\<forall>j. tally provisional' j = tally provisional j + of_bool (ref = RelationConfirmed j))"
  proof (cases ref)
    case (RelationConfirmed r)
    with assms(2) obtain rec x where r: "get_relation_from_db api db r = Inr rec"
        "checked_add_u64 (case provisional r of None \<Rightarrow> 0 | Some n \<Rightarrow> n) 1 = Some x" "incoming' = incoming" "provisional' = provisional(r \<mapsto> x)"
      by (auto simp: rbind_Inr_iff)
    then show ?thesis using RelationConfirmed tally_bump [of provisional r, OF r(2)] scanned_get(2) [OF assms(1) r(1)] by auto
  next
    case (RelationCandidate c)
    with assms(2) obtain cid name n x where c: "gr_candidates (graph_of (store_of (view db))) c = Some (CandidateRelation cid name n)"
        "checked_add_u64 (case incoming c of None \<Rightarrow> 0 | Some n \<Rightarrow> n) 1 = Some x" "incoming' = incoming(c \<mapsto> x)" "provisional' = provisional"
      by (auto simp: assms(3) checked_increment_candidate_reference_def Let_def rbind_Inr_iff split: option.splits candidate.splits)
    then show ?thesis using RelationCandidate tally_bump [of incoming c, OF c(2)] by auto
  qed
  then show "relation_reference_ok (graph_of (store_of (view db))) ref"
    "tally incoming' i = tally incoming i + of_bool (ref = RelationCandidate i)"
    "tally provisional' j = tally provisional j + of_bool (ref = RelationConfirmed j)" by auto
qed

lemma validate_dependencies_Inr:
  assumes "scanned api view db" "\<And>i. btree_get candidates i = gr_candidates (graph_of (store_of (view db))) i"
    and "validate_dependencies api db candidates c (incoming, provisional) = Inr (incoming', provisional')"
  shows "dependencies_ok (graph_of (store_of (view db))) c"
    and "tally incoming' i = tally incoming i + candidate_refs i c"
    and "tally provisional' j = tally provisional j + provisional_uses j c"
proof -
  have "dependencies_ok (graph_of (store_of (view db))) c \<and> (\<forall>i. tally incoming' i = tally incoming i + candidate_refs i c)
    \<and> (\<forall>j. tally provisional' j = tally provisional j + provisional_uses j c)"
  proof (cases c)
    case (CandidateEdge cid src dst rel w)
    with assms(3) obtain in1 in2 where
      d: "validate_node_dependency api db candidates cid src incoming = Inr in1"
        "validate_node_dependency api db candidates cid dst in1 = Inr in2"
        "validate_relation_dependency api db candidates cid rel (in2, provisional) = Inr (incoming', provisional')"
      by (auto simp: rbind_Inr_iff)
    show ?thesis
      using node_dependency_Inr [OF assms(1) d(1) assms(2)] node_dependency_Inr [OF assms(1) d(2) assms(2)]
        relation_dependency_Inr [OF assms(1) d(3) assms(2)]
      by (simp add: CandidateEdge)
  qed (use assms(3) in auto)
  then show "dependencies_ok (graph_of (store_of (view db))) c" "tally incoming' i = tally incoming i + candidate_refs i c"
    "tally provisional' j = tally provisional j + provisional_uses j c" by auto
qed

lemma dependencies_fold_Inr:
  assumes "scanned api view db" "\<And>i. btree_get candidates i = gr_candidates (graph_of (store_of (view db))) i"
    and "fold_result (validate_dependencies api db candidates) cs (Map.empty, Map.empty) = Inr (incoming, provisional)"
  shows "c \<in> set cs \<Longrightarrow> dependencies_ok (graph_of (store_of (view db))) c"
    and "tally incoming i = sum_list (map (candidate_refs i) cs)"
    and "tally provisional j = sum_list (map (provisional_uses j) cs)"
proof -
  let ?P = "\<lambda>seen (incoming, provisional). (\<forall>c \<in> set seen. dependencies_ok (graph_of (store_of (view db))) c) \<and>
    (\<forall>i. tally incoming i = sum_list (map (candidate_refs i) seen)) \<and> (\<forall>j. tally provisional j = sum_list (map (provisional_uses j) seen))"
  have "ensures (\<lambda>_. True) (?P cs) (fold_result (validate_dependencies api db candidates) cs (Map.empty, Map.empty))"
  proof (rule ensures_fold_result [where P = ?P])
    fix seen x rest s assume s: "?P seen s"
    show "ensures (\<lambda>_. True) (?P (seen @ [x])) (validate_dependencies api db candidates x s)"
    proof (cases "validate_dependencies api db candidates x s")
      case (Inr t)
      obtain a b a' b' where st: "s = (a, b)" "t = (a', b')" by (cases s; cases t)
      from validate_dependencies_Inr [OF assms(1,2), of x a b a' b'] Inr s show ?thesis by (auto simp: st)
    qed simp
  qed (simp add: tally_def)
  then have P: "?P cs (incoming, provisional)" using assms(3) by simp
  from P show "c \<in> set cs \<Longrightarrow> dependencies_ok (graph_of (store_of (view db))) c"
    "tally incoming i = sum_list (map (candidate_refs i) cs)" "tally provisional j = sum_list (map (provisional_uses j) cs)" by auto
qed

section \<open>Usage and popularity\<close>

lemma count_confirmed_Inr:
  assumes "fold_result count_confirmed es Map.empty = Inr confirmed"
  shows "tally confirmed j = sum_list (map (uses_relation j) es)"
proof -
  let ?P = "\<lambda>seen confirmed. \<forall>j. tally confirmed j = sum_list (map (uses_relation j) seen)"
  have "ensures (\<lambda>_. True) (?P es) (fold_result count_confirmed es Map.empty)"
  proof (rule ensures_fold_result [where P = ?P])
    fix seen x rest m assume m: "?P seen m"
    show "ensures (\<lambda>_. True) (?P (seen @ [x])) (count_confirmed x m)"
    proof (cases "count_confirmed x m")
      case (Inr m')
      then obtain c where c: "checked_add_u64 (case m (er_relation_kind x) of None \<Rightarrow> 0 | Some n \<Rightarrow> n) 1 = Some c"
          "m' = m(er_relation_kind x \<mapsto> c)"
        by (auto simp: count_confirmed_def rbind_Inr_iff)
      show ?thesis unfolding Inr using m tally_bump [of m "er_relation_kind x", OF c(1)]
        by (simp add: c(2) uses_relation_def eq_commute)
    qed simp
  qed (simp add: tally_def)
  with assms show ?thesis by simp
qed

lemma expect_usage_Inr:
  assumes "fold_result (expect_usage provisional confirmed) rs [] = Inr expected" "\<And>r. r \<in> set rs \<Longrightarrow> relation_ok r"
  shows "set expected = popularity_bytes ` set rs"
    and "r \<in> set rs \<Longrightarrow> tally provisional (rr_id r) = unat (rr_provisional_reference_count r) \<and>
      tally confirmed (rr_id r) = unat (rr_confirmed_edge_count r)"
proof -
  let ?agree = "\<lambda>r. tally provisional (rr_id r) = unat (rr_provisional_reference_count r) \<and>
      tally confirmed (rr_id r) = unat (rr_confirmed_edge_count r)"
  let ?P = "\<lambda>seen expected. set expected = popularity_bytes ` set seen \<and> (\<forall>r \<in> set seen. ?agree r)"
  have "ensures (\<lambda>_. True) (?P rs) (fold_result (expect_usage provisional confirmed) rs [])"
  proof (rule ensures_fold_result [where P = ?P])
    fix seen x rest s assume rs: "rs = seen @ x # rest" and s: "?P seen s"
    have "relation_ok x" using assms(2) by (simp add: rs)
    show "ensures (\<lambda>_. True) (?P (seen @ [x])) (expect_usage provisional confirmed x s)"
    proof (cases "expect_usage provisional confirmed x s")
      case (Inr t)
      then have t: "t = snd (bset_insert (popularity_bytes x) s)"
        "(case provisional (rr_id x) of None \<Rightarrow> 0 | Some n \<Rightarrow> n) = rr_provisional_reference_count x"
        "(case confirmed (rr_id x) of None \<Rightarrow> 0 | Some n \<Rightarrow> n) = rr_confirmed_edge_count x"
        using encode_popularity_ok [OF \<open>relation_ok x\<close>] by (auto simp: expect_usage_def rbind_Inr_iff split: if_splits)
      then have "?agree x" unfolding tally_word by blast
      with s show ?thesis unfolding Inr by (simp add: t(1))
    qed simp
  qed simp
  then have "?P rs expected" using assms(1) by simp
  then show "set expected = popularity_bytes ` set rs" "r \<in> set rs \<Longrightarrow> ?agree r" by auto
qed

lemma actual_popularity_Inr:
  assumes "scanned api view db"
    and "fold_result (\<lambda>(k, v). actual_popularity_entry k v) (view db RELATION_POPULARITY) [] = Inr actual"
  shows "set actual = fst ` set (view db RELATION_POPULARITY)"
    and "(k, v) \<in> set (view db RELATION_POPULARITY) \<Longrightarrow> \<exists>t c i. v = encode_u64_record (relation_id_as_u64 i) \<and>
      k = u64_to_be_bytes (NOT t) @ u64_to_be_bytes (NOT c) @ u64_to_be_bytes (relation_id_as_u64 i)"
proof -
  let ?form = "\<lambda>(k, v). \<exists>t c i. v = encode_u64_record (relation_id_as_u64 i) \<and>
      k = u64_to_be_bytes (NOT t) @ u64_to_be_bytes (NOT c) @ u64_to_be_bytes (relation_id_as_u64 i)"
  let ?P = "\<lambda>seen actual. set actual = fst ` set seen \<and> (\<forall>e \<in> set seen. ?form e)"
  let ?f = "\<lambda>(k, v). actual_popularity_entry k v"
  have "ensures (\<lambda>_. True) (?P (view db RELATION_POPULARITY)) (fold_result ?f (view db RELATION_POPULARITY) [])"
  proof (rule ensures_fold_result [where P = ?P])
    fix seen x rest s assume es: "view db RELATION_POPULARITY = seen @ x # rest" and s: "?P seen s"
    obtain k v where x: "x = (k, v)" by (cases x)
    have a: "addressable k" "addressable v"
      using scanned_family(2) [OF assms(1), of k v RELATION_POPULARITY] es by (simp_all add: x)
    show "ensures (\<lambda>_. True) (?P (seen @ [x])) (?f x s)"
    proof (cases "?f x s")
      case (Inr t)
      then have t: "t = snd (bset_insert k s)" "?form x"
        by (auto simp: x actual_popularity_entry_def rbind_Inr_iff decode_popularity_key_iff [OF a(1)]
            decode_u64_record_iff [OF a(2)] split: if_splits)
      with s show ?thesis unfolding Inr by (simp add: x)
    qed simp
  qed simp
  then have "?P (view db RELATION_POPULARITY) actual" using assms(2) by simp
  then show "set actual = fst ` set (view db RELATION_POPULARITY)"
    "(k, v) \<in> set (view db RELATION_POPULARITY) \<Longrightarrow> \<exists>t c i. v = encode_u64_record (relation_id_as_u64 i) \<and>
      k = u64_to_be_bytes (NOT t) @ u64_to_be_bytes (NOT c) @ u64_to_be_bytes (relation_id_as_u64 i)" by auto
qed

lemma validate_usage_Inr:
  fixes view :: "'db \<Rightarrow> contents"
  assumes "scanned api view db" "validate_relation_usage_and_candidate_dependencies api db = Inr u"
  defines "g \<equiv> graph_of (store_of (view db))"
  shows "represents (id_keys candidate_id_as_u64) (\<lambda>_. candidate_bytes) (gr_candidates g) (store_of (view db) CANDIDATES)"
    and "represents (\<lambda>_. popularity_bytes) (id_values relation_id_as_u64) (gr_relations g) (store_of (view db) RELATION_POPULARITY)"
    and "gr_candidates g i = Some c \<Longrightarrow> dependencies_ok g c" and "counts_ok g"
    and "finite (dom (gr_relations g)) \<and> finite (dom (gr_edges g)) \<and> finite (dom (gr_candidates g))"
proof -
  have rs: "rocks_sound api view" using assms(1) by (simp add: scanned_def)
  from assms(2) obtain candidates incoming provisional es confirmed rels expected where
    cands: "read_candidates api db = Inr candidates" and
    deps: "fold_result (validate_dependencies api db candidates) (map snd candidates) (Map.empty, Map.empty) = Inr (incoming, provisional)" and
    inc: "\<forall>c \<in> set (map snd candidates). check_incoming incoming c = Inr ()" and
    es: "all_edges api db = Inr es" and conf: "fold_result count_confirmed es Map.empty = Inr confirmed" and
    rels: "all_relation_kinds api db = Inr rels" and
    exp: "fold_result (expect_usage provisional confirmed) rels [] = Inr expected" and
    act: "db_scan api db RELATION_POPULARITY actual_popularity_entry [] = Inr expected"
    by (auto simp: validate_relation_usage_and_candidate_dependencies_def rbind_Inr_iff fold_result_check split: if_splits)
  note C = read_candidates_Inr [OF assms(1) cands, folded g_def]
  show "represents (id_keys candidate_id_as_u64) (\<lambda>_. candidate_bytes) (gr_candidates g) (store_of (view db) CANDIDATES)" by (rule C(3))
  note D = dependencies_fold_Inr [OF assms(1) C(2) [unfolded g_def] deps, folded g_def]
  have mem: "c \<in> set (map snd candidates)" if "gr_candidates g i = Some c" for i c
  proof -
    have "(i, c) \<in> set candidates" using that C(2) [of i] btree.entries_lookup [OF C(1)] by simp
    then show ?thesis by force
  qed
  show "gr_candidates g i = Some c \<Longrightarrow> dependencies_ok g c" using D(1) mem by blast
  have msumC: "finite (dom (gr_candidates g)) \<and> msum f (gr_candidates g) = sum_list (map f (map snd candidates))" for f
    by (rule msum_entries [OF C(1)]) (simp add: C(2))
  have family: "\<And>k v cf. (k, v) \<in> set (view db cf) \<Longrightarrow> addressable k \<and> addressable v" using scanned_family(2) [OF assms(1)] .
  have ge: "gr_edges g = decoded decode_edge edge_id_as_u64 (btree_get (view db EDGES))"
    "gr_relations g = decoded decode_relation relation_id_as_u64 (btree_get (view db RELATION_KINDS))"
    by (simp_all add: g_def graph_of_def store_of_def)
  have le: "record_list edge_id_as_u64 er_id (gr_edges g) es" unfolding ge
    by (rule edges_codec.scanned_list(2) [OF scanned_family(1) [OF assms(1)] family all_edges_Inr [OF rs es]])
  have lr: "record_list relation_id_as_u64 rr_id (gr_relations g) rels" unfolding ge
    by (rule relations_codec.scanned_list(2) [OF scanned_family(1) [OF assms(1)] family all_relation_kinds_Inr [OF rs rels]])
  have at: "r \<in> set rels \<longleftrightarrow> gr_relations g (rr_id r) = Some r" for r using lr by (simp add: record_list_def)
  have rok: "relation_ok r" if "r \<in> set rels" for r
    using that graph_of_records(2) [OF assms(1)] unfolding at g_def by blast
  have E: "set expected = popularity_bytes ` set rels"
    "\<And>r. r \<in> set rels \<Longrightarrow> tally provisional (rr_id r) = unat (rr_provisional_reference_count r) \<and>
      tally confirmed (rr_id r) = unat (rr_confirmed_edge_count r)"
    using expect_usage_Inr [OF exp] rok by blast+
  note A = actual_popularity_Inr [OF assms(1) db_scan_Inr [OF rs act]]
  have id: "rr_id r = j" if "gr_relations g j = Some r" for j r using lr that by (simp add: record_list_def)
  show "counts_ok g"
    unfolding counts_ok_def
  proof (intro conjI allI impI)
    fix j r assume r: "gr_relations g j = Some r"
    then have "r \<in> set rels" using at id by blast
    from E(2) [OF this] id [OF r]
    show "unat (rr_confirmed_edge_count r) = msum (uses_relation j) (gr_edges g)"
      "unat (rr_provisional_reference_count r) = msum (provisional_uses j) (gr_candidates g)"
      using count_confirmed_Inr [OF conf, of j] D(3) [of j] msumC edges_codec.record_list_msum [OF le] by simp_all
  next
    fix i c n assume c: "gr_candidates g i = Some c" "durable_incoming c = Some (i, n)"
    have "check_incoming incoming c = Inr ()" using inc mem [OF c(1)] by blast
    then have "(case incoming i of None \<Rightarrow> 0 | Some n \<Rightarrow> n) = n" using c(2) by (simp add: check_incoming_def split: if_splits)
    then have "tally incoming i = unat n" unfolding tally_word .
    then show "unat n = msum (candidate_refs i) (gr_candidates g)" using D(2) [of i] msumC by simp
  qed
  show "represents (\<lambda>_. popularity_bytes) (id_values relation_id_as_u64) (gr_relations g) (store_of (view db) RELATION_POPULARITY)"
    unfolding represents_def id_values_def
  proof (intro allI iffI)
    fix k v assume "store_of (view db) RELATION_POPULARITY k = Some v"
    then have kv: "(k, v) \<in> set (view db RELATION_POPULARITY)" by (simp add: scanned_entry [OF assms(1)])
    then have "k \<in> set expected" using A(1) by force
    then obtain r where r: "r \<in> set rels" "k = popularity_bytes r" using E(1) by blast
    with A(2) [OF kv] popularity_bytes_eq [OF rok [OF r(1)]] have "v = encode_u64_record (relation_id_as_u64 (rr_id r))" by auto
    with r show "\<exists>i x. gr_relations g i = Some x \<and> popularity_bytes x = k \<and> encode_u64_record (relation_id_as_u64 i) = v"
      using at by metis
  next
    fix k v assume "\<exists>i x. gr_relations g i = Some x \<and> popularity_bytes x = k \<and> encode_u64_record (relation_id_as_u64 i) = v"
    then obtain i r where r: "gr_relations g i = Some r" "k = popularity_bytes r" "v = encode_u64_record (relation_id_as_u64 i)" by blast
    then have mem: "r \<in> set rels" using at id by blast
    then have "k \<in> set expected" using E(1) r(2) by blast
    then obtain v' where v': "(k, v') \<in> set (view db RELATION_POPULARITY)" using A(1) by force
    with A(2) [OF v'] popularity_bytes_eq [OF rok [OF mem]] r id [OF r(1)] have "v' = v" by auto
    with v' show "store_of (view db) RELATION_POPULARITY k = Some v" by (simp add: scanned_entry [OF assms(1)])
  qed
  show "finite (dom (gr_relations g)) \<and> finite (dom (gr_edges g)) \<and> finite (dom (gr_candidates g))"
    using msumC edges_codec.record_list_msum [OF le] relations_codec.record_list_msum [OF lr] by blast
qed

section \<open>Counters and metadata\<close>

lemma read_metadata_counter:
  assumes "scanned api view db" "read_metadata api db key = Inr v"
  shows "store_of (view db) DEFAULT (ascii key) = Some (encode_u64_record v)" "counter_of (store_of (view db)) key = v"
proof -
  have rs: "rocks_sound api view" using assms(1) by (simp add: scanned_def)
  from assms(2) obtain bs where bs: "db_get api db DEFAULT (ascii key) = Inr (Some bs)" "decode_u64_record bs = Inr v"
    by (auto simp: read_metadata_def rbind_Inr_iff)
  then have "store_of (view db) DEFAULT (ascii key) = Some bs" using db_get_Inr [OF rs bs(1)] by simp
  moreover from this have "bs = encode_u64_record v" using scanned_addressable [OF assms(1)] decode_u64_record_iff bs(2) by blast
  ultimately show "store_of (view db) DEFAULT (ascii key) = Some (encode_u64_record v)" "counter_of (store_of (view db)) key = v"
    by (simp_all add: counter_of_def)
qed

lemma collect_ids_Inr:
  assumes "scanned api view db" "collect_ids api db cf = Inr ids" "store_of (view db) cf (encode_id_key i) = Some v"
  shows "i \<in> set ids"
proof -
  have rs: "rocks_sound api view" using assms(1) by (simp add: scanned_def)
  let ?f = "\<lambda>(k, v) ids. rbind (map_err (record_error (cf_name cf) (bytes_id k)) (decode_id_key k)) (\<lambda>i. Inr (ids @ [i]))"
  have scan: "fold_result ?f (view db cf) [] = Inr ids"
    using assms(2) db_scan_Inr [OF rs] by (fastforce simp: collect_ids_def rbind_Inr_iff)
  have "ensures (\<lambda>_. True) (\<lambda>ids. \<forall>i v. (encode_id_key i, v) \<in> set (view db cf) \<longrightarrow> i \<in> set ids) (fold_result ?f (view db cf) [])"
    by (rule ensures_fold_result [where P = "\<lambda>seen ids. \<forall>i v. (encode_id_key i, v) \<in> set seen \<longrightarrow> i \<in> set ids"])
      (auto simp: ensures_def rbind_def split: sum.splits prod.splits)
  then show ?thesis using scan assms(3) by (simp add: scanned_entry [OF assms(1)])
qed

lemma foldr_max_ge: "x \<in> set xs \<Longrightarrow> x \<le> foldr max xs (a :: u64)"
  by (induction xs) (auto simp: le_max_iff_disj)

lemma validate_next_id_Inr:
  assumes "scanned api view db" "validate_next_id api db (key, cf) = Inr u"
  shows "counter_of (store_of (view db)) key \<noteq> 0"
    and "store_of (view db) cf (encode_id_key i) = Some v \<Longrightarrow> i < counter_of (store_of (view db)) key"
proof -
  from assms(2) obtain n ids where n: "read_metadata api db key = Inr n" "n \<noteq> 0" "collect_ids api db cf = Inr ids"
      "\<not> n \<le> foldr max ids 0"
    by (auto simp: validate_next_id_def rbind_Inr_iff Let_def split: if_splits)
  note c = read_metadata_counter(2) [OF assms(1) n(1)]
  show "counter_of (store_of (view db)) key \<noteq> 0" using n(2) c by simp
  show "i < counter_of (store_of (view db)) key" if "store_of (view db) cf (encode_id_key i) = Some v"
    using foldr_max_ge [OF collect_ids_Inr [OF assms(1) n(3) that], of 0] n(4) c by simp
qed

lemma validate_counters_Inr:
  assumes "scanned api view db" "validate_next_id_counters api db = Inr u"
  shows "counters_ok (graph_of (store_of (view db)))"
proof -
  have v: "validate_next_id api db (META_NEXT_CANDIDATE_ID, CANDIDATES) = Inr ()" "validate_next_id api db (META_NEXT_NODE_ID, NODES) = Inr ()"
    "validate_next_id api db (META_NEXT_RELATION_ID, RELATION_KINDS) = Inr ()" "validate_next_id api db (META_NEXT_EDGE_ID, EDGES) = Inr ()"
    using assms(2) by (auto simp: validate_next_id_counters_def rbind_Inr_iff)
  have at: "kv (encode_id_key (raw i)) \<noteq> None" if "decoded dec raw kv i = Some x"
    for dec :: "bytes \<Rightarrow> u64 \<Rightarrow> 'e + 'x" and raw :: "'i \<Rightarrow> u64" and kv i x
    using that by (auto simp: decoded_def split: option.splits)
  show ?thesis
    using validate_next_id_Inr [OF assms(1) v(1)] validate_next_id_Inr [OF assms(1) v(2)]
      validate_next_id_Inr [OF assms(1) v(3)] validate_next_id_Inr [OF assms(1) v(4)]
    unfolding counters_ok_def by (auto simp: graph_of_def dest!: at)
qed

lemma validate_metadata_Inr:
  assumes "scanned api view db" "validate_metadata_records api db = Inr u"
  shows "store_of (view db) DEFAULT = metadata_of (graph_of (store_of (view db)))" "pointer_ok (graph_of (store_of (view db)))"
proof -
  let ?kv = "store_of (view db)"
  have rs: "rocks_sound api view" using assms(1) by (simp add: scanned_def)
  from assms(2) obtain p where
    scan: "db_scan api db DEFAULT (\<lambda>key _ _.
       if \<not> list_ex (\<lambda>allowed. key = ascii allowed) (metadata_keys @ [META_ACTIVE_ROUTING_IMAGE])
       then Inl (corrupt ''default'' (bytes_id key) ''unknown metadata record in the current layout'')
       else Inr ()) () = Inr ()" and
    keys: "\<forall>key \<in> set metadata_keys. \<exists>v. read_metadata api db key = Inr v" and
    ptr: "read_active_routing_image api db = Inr p"
    by (auto simp: validate_metadata_records_def rbind_Inr_iff fold_result_check)
  have allowed: "\<exists>key \<in> set (metadata_keys @ [META_ACTIVE_ROUTING_IMAGE]). k = ascii key" if "?kv DEFAULT k = Some v" for k v
    using db_scan_Inr [OF rs scan] that
    by (fastforce simp: fold_result_check scanned_entry [OF assms(1), symmetric] list_ex_iff split: if_splits)
  have counter: "?kv DEFAULT (ascii key) = Some (encode_u64_record (counter_of ?kv key))" if "key \<in> set metadata_keys" for key
    using keys that read_metadata_counter [OF assms(1)] by metis
  have "?kv DEFAULT k = metadata_of (graph_of ?kv) k" for k
  proof (cases "\<exists>key \<in> set (metadata_keys @ [META_ACTIVE_ROUTING_IMAGE]). k = ascii key")
    case True
    then show ?thesis using counter by (auto simp: metadata_keys_def metadata_of_def graph_of_def)
  next
    case False
    then have "?kv DEFAULT k = None" using allowed [of k] by (cases "?kv DEFAULT k") auto
    with False show ?thesis by (auto simp: metadata_keys_def metadata_of_def)
  qed
  then show "?kv DEFAULT = metadata_of (graph_of ?kv)" by (rule ext)
  from ptr obtain found where found: "db_get api db DEFAULT (ascii META_ACTIVE_ROUTING_IMAGE) = Inr found"
    "found = None \<or> (\<exists>bs q. found = Some bs \<and> decode_active_routing_image bs = Inr q)"
    by (auto simp: read_active_routing_image_def rbind_Inr_iff split: option.splits)
  then show "pointer_ok (graph_of ?kv)"
    using db_get_Inr [OF rs found(1)] by (auto simp: pointer_ok_def graph_of_def)
qed

section \<open>Opening\<close>

lemma addressable_insert:
  assumes "contents_ok c" "addressable_contents c" "addressable k" "addressable v"
  shows "addressable_contents (apply_op (Put cf k v) c)"
  unfolding addressable_contents_def
proof (intro allI impI)
  fix cf' k' v' assume "(k', v') \<in> set (apply_op (Put cf k v) c cf')"
  then have "store_of (apply_op (Put cf k v) c) cf' k' = Some v'"
    using store_entries [OF apply_op_ok [OF assms(1)]] by blast
  then have "(cf' = cf \<and> k' = k \<and> v' = v) \<or> store_of c cf' k' = Some v'"
    using assms(1) by (auto simp: store_of_def apply_op_get simp del: apply_op.simps split: if_splits)
  then show "addressable k' \<and> addressable v'"
    using assms(2-4) store_entries [OF assms(1)] by (auto simp: addressable_contents_def)
qed

lemma ascii_length: "length (ascii s) = length s"
  by (simp add: ascii_def)

lemma initialize_scanned:
  assumes "scanned api view db" "initialize_metadata api db = (Inr u, db')"
  shows "scanned api view db'"
proof (cases "db' = db")
  case False
  have c: "rocks_sound api view" "contents_ok (view db)" "addressable_contents (view db)" using assms(1) by (simp_all add: scanned_def)
  let ?ops = "map (\<lambda>key. Put DEFAULT (ascii key) (encode_u64_record INITIAL_ID)) metadata_keys"
  from assms(2) False have "rk_write api db ?ops = (Inr (), db')"
    by (auto simp: initialize_metadata_def map_err_def split: sum.splits if_splits prod.splits)
  then have v: "view db' = apply_batch ?ops (view db)" by (rule rocks_writeD(1) [OF c(1)])
  have "addressable (encode_u64_record INITIAL_ID)" by (simp add: addressable_def U64_MAX_def encode_u64_record_def)
  moreover have "addressable (ascii META_NEXT_CANDIDATE_ID)" "addressable (ascii META_NEXT_NODE_ID)"
    "addressable (ascii META_NEXT_RELATION_ID)" "addressable (ascii META_NEXT_EDGE_ID)"
    by (simp_all add: addressable_def ascii_length META_NEXT_CANDIDATE_ID_def META_NEXT_NODE_ID_def
        META_NEXT_RELATION_ID_def META_NEXT_EDGE_ID_def U64_MAX_def)
  ultimately have "addressable_contents (apply_batch ?ops (view db))"
    unfolding apply_batch_def metadata_keys_def using c(2,3) by (simp add: addressable_insert apply_op_ok del: apply_op.simps)
  then show ?thesis using c(1) apply_batch_ok [OF c(2)] by (simp add: scanned_def v)
qed (use assms(1) in simp)

lemma rebuild_and_validate_holds:
  assumes "scanned api view db" "validate_metadata_records api db = Inr u"
    and "rebuild_indexes_and_validate api db = Inr (node_names, relation_names)"
  shows "stores (graph_of (store_of (view db))) (store_of (view db))" "graph_ok (graph_of (store_of (view db)))"
    and "indexes_ok (graph_of (store_of (view db))) node_names relation_names"
proof -
  let ?kv = "store_of (view db)" and ?g = "graph_of (store_of (view db))"
  from assms(3) obtain e w c where
    n: "rebuild_node_index api db = Inr node_names" and r: "rebuild_relation_index api db = Inr relation_names" and
    e: "validate_edges_and_adjacency api db = Inr e" and w: "validate_relation_usage_and_candidate_dependencies api db = Inr w" and
    c: "validate_next_id_counters api db = Inr c"
    by (auto simp: rebuild_indexes_and_validate_def rbind_Inr_iff)
  note N = rebuild_node_index_Inr [OF assms(1) n] and R = rebuild_relation_index_Inr [OF assms(1) r]
    and E = validate_edges_and_adjacency_Inr [OF assms(1) e] and U = validate_usage_Inr [OF assms(1) w]
    and M = validate_metadata_Inr [OF assms(1,2)] and rec = graph_of_records [OF assms(1)]
  show "stores ?g ?kv" unfolding stores_def using N(1,2) R(1,2) E(1-3) U(1,2) M(1) by blast
  have "i = j" if "gr_nodes ?g i = Some n" "gr_nodes ?g j = Some m" "nr_name n = nr_name m" for i j n m
    using that N(3) [of "node_name_as_str (nr_name m)" i] N(3) [of "node_name_as_str (nr_name m)" j]
    by (auto simp: names_node_def)
  moreover have "i = j" if "gr_relations ?g i = Some n" "gr_relations ?g j = Some m" "rr_name n = rr_name m" for i j n m
    using that R(3) [of "relation_name_as_str (rr_name m)" i] R(3) [of "relation_name_as_str (rr_name m)" j]
    by (auto simp: names_relation_def)
  ultimately have "records_ok ?g" unfolding records_ok_def using rec by blast
  moreover have "finite (dom (gr_nodes ?g))"
  proof -
    have "inj_on (\<lambda>i. encode_id_key (node_id_as_u64 i)) (dom (gr_nodes ?g))" by (auto intro: inj_onI)
    moreover have "(\<lambda>i. encode_id_key (node_id_as_u64 i)) ` dom (gr_nodes ?g) \<subseteq> fst ` set (view db NODES)"
      using represents_get [OF N(1)] by (force simp: id_keys_def scanned_entry [OF assms(1), symmetric])
    ultimately show ?thesis by (meson finite_imageD finite_subset finite_imageI finite_set)
  qed
  moreover have "references_ok ?g" unfolding references_ok_def using E(4) U(3) by blast
  ultimately show "graph_ok ?g"
    unfolding graph_ok_def finite_graph_def using U(4,5) validate_counters_Inr [OF assms(1) c] M(2) by blast
  show "indexes_ok ?g node_names relation_names" unfolding indexes_ok_def using N(3) R(3) by blast
qed

lemma open_holds:
  assumes "scanned api view db" "open_with_config api (Inr db) canonical maximum = Inr cat"
  shows "catalog_holds view (graph_of (store_of (view (ct_db cat)))) cat"
proof -
  from assms(2) obtain db' u m node_names relation_names where
    i: "initialize_metadata api db = (Inr u, db')" and m: "validate_metadata_records api db' = Inr m" and
    r: "rebuild_indexes_and_validate api db' = Inr (node_names, relation_names)" and
    cat: "cat = \<lparr>ct_db = db', ct_node_names = node_names, ct_relation_names = relation_names,
      ct_write_poisoned = False, ct_node_names_poisoned = False, ct_relation_names_poisoned = False\<rparr>"
    by (auto simp: open_with_config_def rbind_Inr_iff split: sum.splits prod.splits)
  note s = initialize_scanned [OF assms(1) i]
  show ?thesis
    using rebuild_and_validate_holds [OF s m r] s by (simp add: catalog_holds_def cat unpoisoned_def scanned_def)
qed

end
