(* ===== verification/Catalog_Reopen.thy ===== *)
theory Catalog_Reopen
  imports Catalog_Validated
begin

text \<open>
  The converse of validation: a database that represents a well-formed graph is accepted. Every
  check of the code succeeds on it, the rebuilt name indexes are those the catalog had, and the
  whole-family scans list the graph's records in the order of their identifiers.
\<close>

section \<open>Listing records\<close>

lemma represented_list:
  assumes "\<And>e. e \<in> set es \<Longrightarrow> \<exists>x. entry_of dec e x"
  shows "\<exists>xs. list_all2 (entry_of dec) es xs"
  using assms
proof (induction es)
  case (Cons e es)
  then obtain x xs where "entry_of dec e x" "list_all2 (entry_of dec) es xs" by (metis list.set_intros)
  then show ?case by (intro exI [of _ "x # xs"]) simp
qed (auto intro: exI [of _ "[]"])

lemma reading_families:
  assumes "reading api view g db"
  shows "represents (id_keys node_id_as_u64) (\<lambda>_. node_bytes) (gr_nodes g) (btree_get (view db NODES))"
    and "represents (id_keys relation_id_as_u64) (\<lambda>_. relation_bytes) (gr_relations g) (btree_get (view db RELATION_KINDS))"
    and "represents (id_keys edge_id_as_u64) (\<lambda>_. encode_edge) (gr_edges g) (btree_get (view db EDGES))"
    and "represents (id_keys candidate_id_as_u64) (\<lambda>_. candidate_bytes) (gr_candidates g) (btree_get (view db CANDIDATES))"
    and "btree_ok (view db cf)"
  using assms by (auto simp: reading_def stores_def store_of_def contents_ok_def)

lemma reading_entry:
  assumes "reading api view g db"
  shows "(k, v) \<in> set (view db NODES) \<Longrightarrow> \<exists>n. gr_nodes g (nr_id n) = Some n \<and> node_ok n \<and>
      k = encode_id_key (node_id_as_u64 (nr_id n)) \<and> v = node_bytes n \<and> entry_of decode_node (k, v) n"
    and "(k, v) \<in> set (view db RELATION_KINDS) \<Longrightarrow> \<exists>r. gr_relations g (rr_id r) = Some r \<and> relation_ok r \<and>
      k = encode_id_key (relation_id_as_u64 (rr_id r)) \<and> v = relation_bytes r \<and> entry_of decode_relation (k, v) r"
    and "(k, v) \<in> set (view db EDGES) \<Longrightarrow> \<exists>e. gr_edges g (er_id e) = Some e \<and> edge_ok e \<and>
      k = encode_id_key (edge_id_as_u64 (er_id e)) \<and> v = encode_edge e \<and> entry_of decode_edge (k, v) e"
    and "(k, v) \<in> set (view db CANDIDATES) \<Longrightarrow> \<exists>c. gr_candidates g (candidate_id_of c) = Some c \<and> stored_candidate_ok c \<and>
      k = encode_id_key (candidate_id_as_u64 (candidate_id_of c)) \<and> v = candidate_bytes c \<and> entry_of decode_candidate (k, v) c"
proof -
  have ok: "records_ok g" using assms by (simp add: reading_def)
  note F = reading_families [OF assms] and D = records_okD [OF ok]
  show "(k, v) \<in> set (view db NODES) \<Longrightarrow> \<exists>n. gr_nodes g (nr_id n) = Some n \<and> node_ok n \<and>
      k = encode_id_key (node_id_as_u64 (nr_id n)) \<and> v = node_bytes n \<and> entry_of decode_node (k, v) n"
    by (rule nodes_codec.represented_entry [OF F(1,5)]) (rule D(1))
  show "(k, v) \<in> set (view db RELATION_KINDS) \<Longrightarrow> \<exists>r. gr_relations g (rr_id r) = Some r \<and> relation_ok r \<and>
      k = encode_id_key (relation_id_as_u64 (rr_id r)) \<and> v = relation_bytes r \<and> entry_of decode_relation (k, v) r"
    by (rule relations_codec.represented_entry [OF F(2,5)]) (rule D(2))
  show "(k, v) \<in> set (view db EDGES) \<Longrightarrow> \<exists>e. gr_edges g (er_id e) = Some e \<and> edge_ok e \<and>
      k = encode_id_key (edge_id_as_u64 (er_id e)) \<and> v = encode_edge e \<and> entry_of decode_edge (k, v) e"
    by (rule edges_codec.represented_entry [OF F(3,5)]) (rule D(3))
  show "(k, v) \<in> set (view db CANDIDATES) \<Longrightarrow> \<exists>c. gr_candidates g (candidate_id_of c) = Some c \<and> stored_candidate_ok c \<and>
      k = encode_id_key (candidate_id_as_u64 (candidate_id_of c)) \<and> v = candidate_bytes c \<and> entry_of decode_candidate (k, v) c"
    by (rule candidates_codec.represented_entry [OF F(4,5)]) (rule D(4))
qed

text \<open>What a scan lists when it succeeds, and that it succeeds when the database does.\<close>

lemma all_records_listed:
  assumes "reading api view g db"
  shows "all_nodes api db = Inr ns \<Longrightarrow> record_list node_id_as_u64 nr_id (gr_nodes g) ns"
    and "all_relation_kinds api db = Inr rs \<Longrightarrow> record_list relation_id_as_u64 rr_id (gr_relations g) rs"
    and "all_edges api db = Inr es \<Longrightarrow> record_list edge_id_as_u64 er_id (gr_edges g) es"
proof -
  have ok: "rocks_sound api view" "records_ok g" using assms by (simp_all add: reading_def)
  note F = reading_families [OF assms] and D = records_okD [OF ok(2)]
  show "record_list node_id_as_u64 nr_id (gr_nodes g) ns" if "all_nodes api db = Inr ns"
    by (rule nodes_codec.listed [OF F(1,5) _ all_nodes_Inr [OF ok(1) that]]) (rule D(1))
  show "record_list relation_id_as_u64 rr_id (gr_relations g) rs" if "all_relation_kinds api db = Inr rs"
    by (rule relations_codec.listed [OF F(2,5) _ all_relation_kinds_Inr [OF ok(1) that]]) (rule D(2))
  show "record_list edge_id_as_u64 er_id (gr_edges g) es" if "all_edges api db = Inr es"
    by (rule edges_codec.listed [OF F(3,5) _ all_edges_Inr [OF ok(1) that]]) (rule D(3))
qed

lemma all_records_read:
  assumes "reading api view g db" "rocks_reads api view"
  shows "\<exists>ns. all_nodes api db = Inr ns" "\<exists>rs. all_relation_kinds api db = Inr rs" "\<exists>es. all_edges api db = Inr es"
proof -
  note E = reading_entry [OF assms(1)]
  have "\<exists>xs. list_all2 (entry_of decode_node) (view db NODES) xs" using E(1) by (intro represented_list) auto
  then show "\<exists>ns. all_nodes api db = Inr ns"
    using assms(2) by (auto simp: all_nodes_def db_scan_reads list_scan_Inr)
  have "\<exists>xs. list_all2 (entry_of decode_relation) (view db RELATION_KINDS) xs" using E(2) by (intro represented_list) auto
  then show "\<exists>rs. all_relation_kinds api db = Inr rs"
    using assms(2) by (auto simp: all_relation_kinds_def db_scan_reads list_scan_Inr)
  have "\<exists>xs. list_all2 (entry_of decode_edge) (view db EDGES) xs" using E(3) by (intro represented_list) auto
  then show "\<exists>es. all_edges api db = Inr es"
    using assms(2) by (auto simp: all_edges_def db_scan_reads list_scan_Inr)
qed

section \<open>Metadata\<close>

lemma metadata_read:
  assumes "reading api view g db" "rocks_reads api view" "key \<in> set metadata_keys"
  shows "\<exists>v. read_metadata api db key = Inr v" "\<exists>v. db_get api db DEFAULT (ascii key) = Inr (Some v)"
  using assms(3) read_metadata_reads [OF assms(1,2)] stores_get(5) [of g "store_of (view db)"] assms(1)
  by (auto simp: metadata_keys_def db_get_reads [OF assms(2)] reading_def metadata_of_def)

lemma initialize_reads:
  assumes "reading api view g db" "rocks_reads api view"
  shows "initialize_metadata api db = (Inr (), db)"
proof -
  note r = metadata_read [OF assms]
  have "read_metadata api db key = Inr (projr (read_metadata api db key))" if "key \<in> set metadata_keys" for key
    using r(1) [OF that] by auto
  then have checks: "fold_result (\<lambda>key _. rbind (read_metadata api db key) (\<lambda>_. Inr ())) metadata_keys () = Inr ()"
    unfolding fold_result_check by (metis rbind_simps(2))
  have present: "fold_result (\<lambda>key present. rbind (db_get api db DEFAULT (ascii key)) (\<lambda>v. Inr (present @ [v]))) metadata_keys []
      = Inr (map (\<lambda>key. store_of (view db) DEFAULT (ascii key)) metadata_keys)"
    by (simp add: metadata_keys_def db_get_reads [OF assms(2)])
  have "\<not> list_all (\<lambda>v. v = None) (map (\<lambda>key. store_of (view db) DEFAULT (ascii key)) metadata_keys)"
    using r(2) [of META_NEXT_CANDIDATE_ID] by (simp add: metadata_keys_def db_get_reads [OF assms(2)])
  then show ?thesis using checks by (simp add: initialize_metadata_def present)
qed

lemma validate_metadata_reads:
  assumes "reading api view g db" "rocks_reads api view" "pointer_ok g"
  shows "validate_metadata_records api db = Inr ()"
proof -
  have s: "store_of (view db) DEFAULT = metadata_of g" "contents_ok (view db)"
    using assms(1) stores_get(5) by (auto simp: reading_def)
  have "list_ex (\<lambda>allowed. k = ascii allowed) (metadata_keys @ [META_ACTIVE_ROUTING_IMAGE])" if "(k, v) \<in> set (view db DEFAULT)" for k v
  proof -
    have "metadata_of g k = Some v" using that store_entries [OF s(2)] s(1) by metis
    then show ?thesis by (auto simp: metadata_of_def metadata_keys_def split: if_splits)
  qed
  then have scan: "db_scan api db DEFAULT (\<lambda>key _ _.
       if \<not> list_ex (\<lambda>allowed. key = ascii allowed) (metadata_keys @ [META_ACTIVE_ROUTING_IMAGE])
       then Inl (corrupt ''default'' (bytes_id key) ''unknown metadata record in the current layout'')
       else Inr ()) () = Inr ()"
    unfolding db_scan_reads [OF assms(2)] fold_result_check by auto
  have "fold_result (\<lambda>key _. rbind (read_metadata api db key) (\<lambda>_. Inr ())) metadata_keys () = Inr ()"
    unfolding fold_result_check using metadata_read(1) [OF assms(1,2)] by fastforce
  moreover have "\<exists>p. read_active_routing_image api db = Inr p"
  proof (cases "gr_pointer g")
    case None
    then show ?thesis by (simp add: read_active_routing_image_def db_get_reads [OF assms(2)] s(1) metadata_of_def)
  next
    case (Some p)
    then obtain q where "decode_active_routing_image p = Inr q" using assms(3) by (cases "decode_active_routing_image p") (auto simp: pointer_ok_def)
    then show ?thesis by (simp add: read_active_routing_image_def db_get_reads [OF assms(2)] s(1) metadata_of_def Some)
  qed
  ultimately show ?thesis using scan by (auto simp: validate_metadata_records_def)
qed

section \<open>Names\<close>

lemma index_scan_reads:
  assumes "btree_ok es"
    and "\<And>k v. (k, v) \<in> set es \<Longrightarrow> \<exists>name i. k = counted name \<and> names name = Some i \<and>
      (\<forall>m. m name = None \<longrightarrow> f (k, v) m = Inr (m(name \<mapsto> i)))"
    and "\<And>name i. names name = Some i \<Longrightarrow> counted name \<in> fst ` set es"
  shows "fold_result f es Map.empty = Inr names"
proof -
  let ?P = "\<lambda>seen m. \<forall>name. m name = (if counted name \<in> fst ` set seen then names name else None)"
  have "\<exists>m. fold_result f es Map.empty = Inr m \<and> ?P es m"
  proof -
    have "\<exists>m'. fold_result f rest m = Inr m' \<and> ?P es m'" if "es = seen @ rest" "?P seen m" for seen rest m
      using that
    proof (induction rest arbitrary: seen m)
      case (Cons x rest)
      obtain k v where x: "x = (k, v)" by (cases x)
      with assms(2) [of k v] Cons.prems(1) obtain name i where n: "k = counted name" "names name = Some i"
        "\<And>m. m name = None \<Longrightarrow> f (k, v) m = Inr (m(name \<mapsto> i))" by auto
      have "k \<notin> fst ` set seen" using btree_distinct [OF assms(1)] Cons.prems(1) by (auto simp: x)
      then have f: "f (k, v) m = Inr (m(name \<mapsto> i))" using n Cons.prems(2) by simp
      have "?P (seen @ [x]) (m(name \<mapsto> i))" using Cons.prems(2) n(1,2) by (auto simp: x)
      moreover have "es = (seen @ [x]) @ rest" using Cons.prems(1) by simp
      ultimately have "\<exists>m'. fold_result f rest (m(name \<mapsto> i)) = Inr m' \<and> ?P es m'" by (intro Cons.IH)
      then show ?case unfolding x fold_result.simps f rbind_simps .
    qed auto
    from this [of "[]" es Map.empty] show ?thesis by simp
  qed
  then obtain m where m: "fold_result f es Map.empty = Inr m" "?P es m" by blast
  have "m = names" using m(2) assms(3) by (auto simp: fun_eq_iff) (metis not_None_eq)
  with m(1) show ?thesis by simp
qed

lemma rebuild_node_index_reads:
  assumes "reading api view g db" "rocks_reads api view" "\<And>name i. names name = Some i \<longleftrightarrow> names_node g name i"
  shows "rebuild_node_index api db = Inr names"
proof -
  have s: "contents_ok (view db)" "records_ok g" and
    rep: "represents node_name_keys (id_values node_id_as_u64) (gr_nodes g) (store_of (view db) NODE_NAMES)"
    using assms(1) by (simp_all add: reading_def stores_def)
  have at: "store_of (view db) NODES (encode_id_key (node_id_as_u64 i)) = Some (node_bytes n) \<and> nr_id n = i \<and> node_ok n"
    if "gr_nodes g i = Some n" for i n
    using that assms(1) records_okD(1) [OF s(2) that] stores_get(1) [of g "store_of (view db)" i] by (simp add: reading_def)
  have entry: "\<exists>name i. k = counted name \<and> names name = Some i \<and> (\<forall>m. m name = None \<longrightarrow> node_name_entry api db k v m = Inr (m(name \<mapsto> i)))"
    if "(k, v) \<in> set (view db NODE_NAMES)" for k v
  proof -
    from that rep obtain i n where n: "gr_nodes g i = Some n" "k = counted (node_name_as_str (nr_name n))"
        "v = encode_u64_record (node_id_as_u64 i)"
      unfolding store_entries [OF s(1)] represents_def node_name_keys_def id_values_def by metis
    have ok: "node_ok n" "nr_id n = i" using at [OF n(1)] by simp_all
    then have len: "length (node_name_as_str (nr_name n)) \<le> U32_MAX" "utf8_valid (node_name_as_str (nr_name n))"
      by (simp_all add: node_ok_def)
    then have "decode_name_key k = Inr (node_name_as_str (nr_name n))"
      using n(2) encode_name_ok [OF len(1)] by (subst decode_name_key_iff) (auto simp: addressable_def counted_length U64_MAX_def U32_MAX_def)
    moreover have "decode_u64_record v = Inr (node_id_as_u64 i)" using n(3) by simp
    moreover have "decode_node (node_bytes n) (node_id_as_u64 i) = Inr n" using decode_node_ok [OF ok(1)] ok(2) by simp
    ultimately have "node_name_entry api db k v m = Inr (m(node_name_as_str (nr_name n) \<mapsto> i))"
      if "m (node_name_as_str (nr_name n)) = None" for m
      using that at [OF n(1)] ok(2) by (simp add: node_name_entry_def db_get_reads [OF assms(2)])
    moreover have "names (node_name_as_str (nr_name n)) = Some i" using n(1) assms(3) by (auto simp: names_node_def)
    ultimately show ?thesis using n(2) by blast
  qed
  have "fold_result (\<lambda>(k, v). node_name_entry api db k v) (view db NODE_NAMES) Map.empty = Inr names"
  proof (rule index_scan_reads)
    show "btree_ok (view db NODE_NAMES)" using s(1) by (simp add: contents_ok_def)
    show "counted name \<in> fst ` set (view db NODE_NAMES)" if "names name = Some i" for name i
    proof -
      from that assms(3) obtain n where "gr_nodes g i = Some n" "node_name_as_str (nr_name n) = name" by (auto simp: names_node_def)
      from represents_get [OF rep this(1)] this(2) have "(counted name, id_values node_id_as_u64 i n) \<in> set (view db NODE_NAMES)"
        by (simp add: store_entries [OF s(1)] node_name_keys_def)
      then show ?thesis by force
    qed
  qed (use entry in auto)
  moreover have "\<exists>u n. decode_id_key k = Inr u \<and> decode_node v u = Inr n \<and> names (node_name_as_str (nr_name n)) = Some (nr_id n)"
    if "(k, v) \<in> set (view db NODES)" for k v
    using reading_entry(1) [OF assms(1) that] assms(3) by (auto simp: entry_of_def names_node_def)
  then have "fold_result (\<lambda>(key, value) _.
       rbind (map_err (record_error (cf_name NODES) (bytes_id key)) (decode_id_key key)) (\<lambda>i.
       rbind (map_err (record_error (cf_name NODES) (u64_display i)) (decode_node value i)) (\<lambda>record.
       if names (node_name_as_str (nr_name record)) \<noteq> Some (nr_id record)
       then Inl (corrupt (cf_name NODES) (u64_display i) ''confirmed node has no matching exact-name mapping'')
       else Inr ()))) (view db NODES) () = Inr ()"
    unfolding fold_result_check by fastforce
  ultimately show ?thesis
    by (simp add: rebuild_node_index_def db_scan_reads [OF assms(2)] required_column_family_reads [OF assms(2)])
qed

lemma rebuild_relation_index_reads:
  assumes "reading api view g db" "rocks_reads api view" "\<And>name i. names name = Some i \<longleftrightarrow> names_relation g name i"
  shows "rebuild_relation_index api db = Inr names"
proof -
  have s: "contents_ok (view db)" "records_ok g" and
    rep: "represents relation_name_keys (id_values relation_id_as_u64) (gr_relations g) (store_of (view db) RELATION_NAMES)"
    using assms(1) by (simp_all add: reading_def stores_def)
  have at: "store_of (view db) RELATION_KINDS (encode_id_key (relation_id_as_u64 i)) = Some (relation_bytes n) \<and> rr_id n = i \<and> relation_ok n"
    if "gr_relations g i = Some n" for i n
    using that assms(1) records_okD(2) [OF s(2) that] stores_get(2) [of g "store_of (view db)" i] by (simp add: reading_def)
  have entry: "\<exists>name i. k = counted name \<and> names name = Some i \<and> (\<forall>m. m name = None \<longrightarrow> relation_name_entry api db k v m = Inr (m(name \<mapsto> i)))"
    if "(k, v) \<in> set (view db RELATION_NAMES)" for k v
  proof -
    from that rep obtain i n where n: "gr_relations g i = Some n" "k = counted (relation_name_as_str (rr_name n))"
        "v = encode_u64_record (relation_id_as_u64 i)"
      unfolding store_entries [OF s(1)] represents_def relation_name_keys_def id_values_def by metis
    have ok: "relation_ok n" "rr_id n = i" using at [OF n(1)] by simp_all
    then have len: "length (relation_name_as_str (rr_name n)) \<le> U32_MAX" "utf8_valid (relation_name_as_str (rr_name n))"
      by (simp_all add: relation_ok_def)
    then have "decode_name_key k = Inr (relation_name_as_str (rr_name n))"
      using n(2) encode_name_ok [OF len(1)] by (subst decode_name_key_iff) (auto simp: addressable_def counted_length U64_MAX_def U32_MAX_def)
    moreover have "decode_u64_record v = Inr (relation_id_as_u64 i)" using n(3) by simp
    moreover have "decode_relation (relation_bytes n) (relation_id_as_u64 i) = Inr n" using decode_relation_ok [OF ok(1)] ok(2) by simp
    ultimately have "relation_name_entry api db k v m = Inr (m(relation_name_as_str (rr_name n) \<mapsto> i))"
      if "m (relation_name_as_str (rr_name n)) = None" for m
      using that at [OF n(1)] ok(2) by (simp add: relation_name_entry_def db_get_reads [OF assms(2)])
    moreover have "names (relation_name_as_str (rr_name n)) = Some i" using n(1) assms(3) by (auto simp: names_relation_def)
    ultimately show ?thesis using n(2) by blast
  qed
  have "fold_result (\<lambda>(k, v). relation_name_entry api db k v) (view db RELATION_NAMES) Map.empty = Inr names"
  proof (rule index_scan_reads)
    show "btree_ok (view db RELATION_NAMES)" using s(1) by (simp add: contents_ok_def)
    show "counted name \<in> fst ` set (view db RELATION_NAMES)" if "names name = Some i" for name i
    proof -
      from that assms(3) obtain n where "gr_relations g i = Some n" "relation_name_as_str (rr_name n) = name" by (auto simp: names_relation_def)
      from represents_get [OF rep this(1)] this(2) have "(counted name, id_values relation_id_as_u64 i n) \<in> set (view db RELATION_NAMES)"
        by (simp add: store_entries [OF s(1)] relation_name_keys_def)
      then show ?thesis by force
    qed
  qed (use entry in auto)
  moreover have "\<exists>u n. decode_id_key k = Inr u \<and> decode_relation v u = Inr n \<and> names (relation_name_as_str (rr_name n)) = Some (rr_id n)"
    if "(k, v) \<in> set (view db RELATION_KINDS)" for k v
    using reading_entry(2) [OF assms(1) that] assms(3) by (auto simp: entry_of_def names_relation_def)
  then have "fold_result (\<lambda>(key, value) _.
       rbind (map_err (record_error (cf_name RELATION_KINDS) (bytes_id key)) (decode_id_key key)) (\<lambda>i.
       rbind (map_err (record_error (cf_name RELATION_KINDS) (u64_display i)) (decode_relation value i)) (\<lambda>record.
       if names (relation_name_as_str (rr_name record)) \<noteq> Some (rr_id record)
       then Inl (corrupt (cf_name RELATION_KINDS) (u64_display i) ''confirmed relation kind has no matching exact-name mapping'')
       else Inr ()))) (view db RELATION_KINDS) () = Inr ()"
    unfolding fold_result_check by fastforce
  ultimately show ?thesis
    by (simp add: rebuild_relation_index_def db_scan_reads [OF assms(2)] required_column_family_reads [OF assms(2)])
qed

section \<open>Candidates, edges and adjacency\<close>

lemma validate_candidates_reads:
  assumes "reading api view g db" "rocks_reads api view"
  shows "validate_candidates api db = Inr ()"
proof -
  have "\<exists>u c. decode_id_key k = Inr u \<and> decode_candidate v u = Inr c" if "(k, v) \<in> set (view db CANDIDATES)" for k v
    using reading_entry(4) [OF assms(1) that] by (auto simp: entry_of_def)
  then have "fold_result (\<lambda>(key, value) _.
       rbind (map_err (record_error (cf_name CANDIDATES) (bytes_id key)) (decode_id_key key)) (\<lambda>i.
       rbind (map_err (record_error (cf_name CANDIDATES) (u64_display i)) (decode_candidate value i)) (\<lambda>_.
       Inr ()))) (view db CANDIDATES) () = Inr ()"
    unfolding fold_result_check by fastforce
  then show ?thesis using assms(2) by (simp add: validate_candidates_def db_scan_reads)
qed

lemma validate_edge_reads:
  assumes "reading api view g db" "rocks_reads api view" "references_ok g" "gr_edges g (er_id e) = Some e"
  shows "validate_edge api db e edges = Inr (btree_insert (er_id e) e edges)"
proof -
  have "gr_nodes g (er_source e) \<noteq> None" "gr_nodes g (er_destination e) \<noteq> None" "gr_relations g (er_relation_kind e) \<noteq> None"
    using assms(3,4) unfolding references_ok_def by blast+
  then show ?thesis
    by (auto simp: validate_edge_def require_node_def require_relation_kind_def reading_reads [OF assms(1,2)])
qed

lemma insert_all:
  assumes "\<And>x m. x \<in> set xs \<Longrightarrow> f x m = Inr (btree_insert (key x) x m)"
  shows "fold_result f xs m = Inr (fold (\<lambda>x. btree_insert (key x) x) xs m)"
  using assms by (induction xs arbitrary: m) simp_all

lemma adjacency_counts:
  assumes "btree_ok es"
    and "\<And>k v. (k, v) \<in> set es \<Longrightarrow> \<exists>i. owner k = i \<and> (\<forall>m. f (k, v) m = Inr (m(i \<mapsto> (case m i of None \<Rightarrow> 0 | Some n \<Rightarrow> n) + (1 :: nat))))"
    and "\<And>k v k' v'. (k, v) \<in> set es \<Longrightarrow> (k', v') \<in> set es \<Longrightarrow> owner k = owner k' \<Longrightarrow> k = k'"
  shows "\<exists>counts. fold_result f es Map.empty = Inr counts \<and> (\<forall>(k, v) \<in> set es. counts (owner k) = Some 1)"
proof -
  let ?P = "\<lambda>seen counts. \<forall>i. counts i = (if i \<in> owner ` fst ` set seen then Some (1 :: nat) else None)"
  have "\<exists>m'. fold_result f rest m = Inr m' \<and> ?P es m'" if "es = seen @ rest" "?P seen m" for seen rest m
    using that
  proof (induction rest arbitrary: seen m)
    case (Cons x rest)
    obtain k v where x: "x = (k, v)" by (cases x)
    with assms(2) [of k v] Cons.prems(1)
    have f: "f (k, v) m = Inr (m(owner k \<mapsto> (case m (owner k) of None \<Rightarrow> 0 | Some n \<Rightarrow> n) + 1))" by auto
    have "k \<notin> fst ` set seen" using btree_distinct [OF assms(1)] Cons.prems(1) by (auto simp: x)
    moreover have "fst y = k" if "y \<in> set seen" "owner (fst y) = owner k" for y
      using assms(3) [of "fst y" "snd y" k v] that Cons.prems(1) by (simp add: x)
    ultimately have "owner k \<notin> owner ` fst ` set seen" by force
    then have "?P (seen @ [x]) (m(owner k \<mapsto> (case m (owner k) of None \<Rightarrow> 0 | Some n \<Rightarrow> n) + 1))"
      using Cons.prems(2) by (auto simp: x)
    moreover have "es = (seen @ [x]) @ rest" using Cons.prems(1) by simp
    ultimately have "\<exists>m'. fold_result f rest (m(owner k \<mapsto> (case m (owner k) of None \<Rightarrow> 0 | Some n \<Rightarrow> n) + 1)) = Inr m' \<and> ?P es m'"
      by (intro Cons.IH)
    then show ?case unfolding x fold_result.simps f rbind_simps .
  qed auto
  from this [of "[]" es Map.empty] obtain m where "fold_result f es Map.empty = Inr m" "?P es m" by auto
  then show ?thesis by force
qed

lemma validate_adjacency_reads:
  assumes "rocks_reads api view" "btree_ok (view db cf)"
    and "represents (index_keys out) (id_values edge_id_as_u64) m (btree_get (view db cf))"
    and "\<And>i. btree_get edges i = m i"
  shows "\<exists>counts. validate_adjacency_family api db cf edges out = Inr counts \<and> (\<forall>i e. m i = Some e \<longrightarrow> counts i = Some 1)"
proof -
  let ?owner = "\<lambda>k. snd (projr (decode_adjacency_key k))"
  have ent: "\<exists>i e. m i = Some e \<and> k = index_keys out i e \<and> v = encode_adjacency_value i" if "(k, v) \<in> set (view db cf)" for k v
    using assms(3) that btree.entries_lookup [OF assms(2)] unfolding represents_def id_values_edge by metis
  have own: "?owner (index_keys out i e) = i" for i e by (simp add: index_keys_def)
  have "\<exists>counts. fold_result (\<lambda>(k, v). adjacency_entry cf edges out k v) (view db cf) Map.empty = Inr counts \<and>
      (\<forall>(k, v) \<in> set (view db cf). counts (?owner k) = Some 1)"
  proof (rule adjacency_counts [OF assms(2)])
    fix k v assume "(k, v) \<in> set (view db cf)"
    from ent [OF this] obtain i e where e: "m i = Some e" "k = index_keys out i e" "v = encode_adjacency_value i" by blast
    have "adjacency_entry cf edges out k v c = Inr (c(i \<mapsto> (case c i of None \<Rightarrow> 0 | Some n \<Rightarrow> n) + 1))" for c
      using e(1) by (simp add: adjacency_entry_def e(2,3) index_keys_def endpoint_def decode_adjacency_value_encode assms(4))
    then show "\<exists>i. ?owner k = i \<and> (\<forall>m. (case (k, v) of (k, v) \<Rightarrow> adjacency_entry cf edges out k v) m =
        Inr (m(i \<mapsto> (case m i of None \<Rightarrow> 0 | Some n \<Rightarrow> n) + 1)))"
      using own [of i e] e(2) by auto
  next
    fix k v k' v' assume "(k, v) \<in> set (view db cf)" "(k', v') \<in> set (view db cf)" "?owner k = ?owner k'"
    with ent [of k v] ent [of k' v'] own show "k = k'" by fastforce
  qed
  then obtain counts where c: "fold_result (\<lambda>(k, v). adjacency_entry cf edges out k v) (view db cf) Map.empty = Inr counts"
    "\<forall>(k, v) \<in> set (view db cf). counts (?owner k) = Some 1" by blast
  have "counts i = Some 1" if "m i = Some e" for i e
  proof -
    have "(index_keys out i e, id_values edge_id_as_u64 i e) \<in> set (view db cf)"
      using represents_get [OF assms(3) that] btree.entries_lookup [OF assms(2)] by blast
    with c(2) own show ?thesis by fastforce
  qed
  with c(1) show ?thesis by (auto simp: validate_adjacency_family_def db_scan_reads [OF assms(1)] required_column_family_reads [OF assms(1)])
qed

lemma inserted_map:
  assumes "distinct (map key xs)"
  shows "btree_ok (fold (\<lambda>x. btree_insert (key x) x) xs [])"
    and "btree_get (fold (\<lambda>x. btree_insert (key x) x) xs []) k = Some v \<longleftrightarrow> v \<in> set xs \<and> key v = k"
proof -
  have "btree_ok m \<Longrightarrow> btree_ok (fold (\<lambda>x. btree_insert (key x) x) xs m) \<and>
      btree_get (fold (\<lambda>x. btree_insert (key x) x) xs m) = fold (\<lambda>x m. m(key x \<mapsto> x)) xs (btree_get m)" for m
    by (induction xs arbitrary: m) (simp_all add: btree.insert_ok btree.lookup_insert fun_upd_def fun_eq_iff)
  from this [of "[]"] have f: "btree_ok (fold (\<lambda>x. btree_insert (key x) x) xs [])"
    "btree_get (fold (\<lambda>x. btree_insert (key x) x) xs []) = fold (\<lambda>x m. m(key x \<mapsto> x)) xs Map.empty"
    by (simp_all add: btree_ok_def btree_get_def fun_eq_iff)
  show "btree_ok (fold (\<lambda>x. btree_insert (key x) x) xs [])" by (rule f(1))
  show "btree_get (fold (\<lambda>x. btree_insert (key x) x) xs []) k = Some v \<longleftrightarrow> v \<in> set xs \<and> key v = k"
    unfolding f(2) fold_upd_get [OF assms] by auto
qed

lemma validate_edges_and_adjacency_reads:
  assumes "reading api view g db" "rocks_reads api view" "references_ok g"
  shows "validate_edges_and_adjacency api db = Inr ()"
proof -
  obtain es where es: "all_edges api db = Inr es" using all_records_read(3) [OF assms(1,2)] by blast
  note list = all_records_listed(3) [OF assms(1) es]
  let ?edges = "fold (\<lambda>e. btree_insert (er_id e) e) es []"
  note M = inserted_map [OF edges_codec.record_list_distinct [OF list]]
  have get: "btree_get ?edges i = gr_edges g i" for i
    by (rule option_eqI) (use M(2) [of i] list in \<open>simp add: record_list_def\<close>)
  have s: "stores g (store_of (view db))" using assms(1) by (simp add: reading_def)
  have rep: "represents (index_keys True) (id_values edge_id_as_u64) (gr_edges g) (btree_get (view db OUTGOING_EDGES))"
    "represents (index_keys False) (id_values edge_id_as_u64) (gr_edges g) (btree_get (view db INCOMING_EDGES))"
    using stores_index [OF s] by (simp_all add: store_of_def)
  have edges: "fold_result (validate_edge api db) es [] = Inr ?edges"
    using validate_edge_reads [OF assms] list by (intro insert_all) (auto simp: record_list_def)
  obtain out where out: "validate_adjacency_family api db OUTGOING_EDGES ?edges True = Inr out" "\<forall>i e. gr_edges g i = Some e \<longrightarrow> out i = Some 1"
    using validate_adjacency_reads [OF assms(2) reading_families(5) [OF assms(1)] rep(1), of ?edges] get by blast
  obtain inc where inc: "validate_adjacency_family api db INCOMING_EDGES ?edges False = Inr inc" "\<forall>i e. gr_edges g i = Some e \<longrightarrow> inc i = Some 1"
    using validate_adjacency_reads [OF assms(2) reading_families(5) [OF assms(1)] rep(2), of ?edges] get by blast
  have "gr_edges g (er_id e) = Some e" if "e \<in> set (map snd ?edges)" for e
  proof -
    from that obtain i where "(i, e) \<in> set ?edges" by auto
    then have "btree_get ?edges i = Some e" using btree.entries_lookup [OF M(1)] by simp
    then show ?thesis using M(2) [of i e] get [of i] by simp
  qed
  then show ?thesis
    using es edges out inc by (auto simp: validate_edges_and_adjacency_def fold_result_check)
qed

section \<open>Usage and dependencies\<close>

lemma decode_pointer_addressable: "decode_active_routing_image v = Inr q \<Longrightarrow> addressable v"
proof -
  assume "decode_active_routing_image v = Inr q"
  then obtain a where "checked_add a 32 = Some (length v)"
    by (auto simp: decode_active_routing_image_def Let_def rbind_Inr_iff bind_eq_Some_conv split: if_splits)
  then show ?thesis by (simp add: addressable_def checked_add_def split: if_splits)
qed

lemma decoded_eq:
  assumes "\<And>i. kv (encode_id_key (raw i)) = map_option enc (m i)" "\<And>i x. m i = Some x \<Longrightarrow> dec (enc x) (raw i) = Inr x"
  shows "decoded dec raw kv = m"
  using assms by (auto simp: fun_eq_iff decoded_def split: option.splits)

lemma reading_scanned:
  assumes "reading api view g db" "pointer_ok g"
  shows "scanned api view db" "graph_of (store_of (view db)) = g"
proof -
  have s: "rocks_sound api view" "contents_ok (view db)" "stores g (store_of (view db))" "records_ok g"
    using assms(1) by (simp_all add: reading_def)
  note D = records_okD [OF s(4)]
  have small: "addressable (encode_id_key i)" "addressable (encode_u64_record i)" "addressable (encode_adjacency_key n e)"
    "addressable (encode_adjacency_value e)" for i n e
    by (simp_all add: addressable_def encode_id_key_def encode_u64_record_def encode_adjacency_key_def encode_adjacency_value_def U64_MAX_def)
  have names: "addressable (counted name)" if "length name \<le> U32_MAX" for name
    using that by (simp add: addressable_def counted_length U64_MAX_def U32_MAX_def)
  have meta: "addressable k \<and> addressable v" if "metadata_of g k = Some v" for k v
  proof (cases "k = ascii META_ACTIVE_ROUTING_IMAGE")
    case True
    then have "gr_pointer g = Some v" using that by (simp add: metadata_of_def)
    then obtain q where "decode_active_routing_image v = Inr q"
      using assms(2) by (cases "decode_active_routing_image v") (auto simp: pointer_ok_def)
    then have "addressable v" by (rule decode_pointer_addressable)
    then show ?thesis using True by (simp add: addressable_def ascii_length META_ACTIVE_ROUTING_IMAGE_def U64_MAX_def)
  next
    case False
    then show ?thesis
      using that small(2)
      by (auto simp: metadata_of_def addressable_def ascii_length META_NEXT_CANDIDATE_ID_def META_NEXT_NODE_ID_def
          META_NEXT_RELATION_ID_def META_NEXT_EDGE_ID_def U64_MAX_def split: if_splits)
  qed
  have "addressable k \<and> addressable v" if "store_of (view db) cf k = Some v" for cf k v
  proof (cases cf)
    case NODES
    from that s(3) obtain i n where "gr_nodes g i = Some n" "k = encode_id_key (node_id_as_u64 i)" "v = node_bytes n"
      unfolding NODES stores_def represents_def id_keys_def by metis
    then show ?thesis using small D(1) encode_node_ok by blast
  next
    case NODE_NAMES
    from that s(3) obtain i n where "gr_nodes g i = Some n" "k = counted (node_name_as_str (nr_name n))" "v = encode_u64_record (node_id_as_u64 i)"
      unfolding NODE_NAMES stores_def represents_def node_name_keys_def id_values_def by metis
    then show ?thesis using small D(1) [of i n] names by (simp add: node_ok_def)
  next
    case RELATION_KINDS
    from that s(3) obtain i n where "gr_relations g i = Some n" "k = encode_id_key (relation_id_as_u64 i)" "v = relation_bytes n"
      unfolding RELATION_KINDS stores_def represents_def id_keys_def by metis
    then show ?thesis using small D(2) encode_relation_ok by blast
  next
    case RELATION_NAMES
    from that s(3) obtain i n where "gr_relations g i = Some n" "k = counted (relation_name_as_str (rr_name n))"
        "v = encode_u64_record (relation_id_as_u64 i)"
      unfolding RELATION_NAMES stores_def represents_def relation_name_keys_def id_values_def by metis
    then show ?thesis using small D(2) [of i n] names by (simp add: relation_ok_def)
  next
    case RELATION_POPULARITY
    from that s(3) obtain i n where r: "gr_relations g i = Some n" "k = popularity_bytes n" "v = encode_u64_record (relation_id_as_u64 i)"
      unfolding RELATION_POPULARITY stores_def represents_def id_values_def by metis
    then have "relation_ok n" using D(2) by blast
    then show ?thesis using r small by (simp add: popularity_bytes_eq) (simp add: addressable_def U64_MAX_def)
  next
    case EDGES
    from that s(3) obtain i n where "gr_edges g i = Some n" "k = encode_id_key (edge_id_as_u64 i)" "v = encode_edge n"
      unfolding EDGES stores_def represents_def id_keys_def by metis
    then show ?thesis using small D(3) edges_codec.enc_addressable by blast
  next
    case OUTGOING_EDGES
    from that s(3) obtain i n where "gr_edges g i = Some n" "k = encode_adjacency_key (er_source n) i" "v = encode_u64_record (edge_id_as_u64 i)"
      unfolding OUTGOING_EDGES stores_def represents_def outgoing_keys_def id_values_def by metis
    then show ?thesis using small by blast
  next
    case INCOMING_EDGES
    from that s(3) obtain i n where "gr_edges g i = Some n" "k = encode_adjacency_key (er_destination n) i" "v = encode_u64_record (edge_id_as_u64 i)"
      unfolding INCOMING_EDGES stores_def represents_def incoming_keys_def id_values_def by metis
    then show ?thesis using small by blast
  next
    case CANDIDATES
    from that s(3) obtain i n where "gr_candidates g i = Some n" "k = encode_id_key (candidate_id_as_u64 i)" "v = candidate_bytes n"
      unfolding CANDIDATES stores_def represents_def id_keys_def by metis
    then show ?thesis using small D(4) encode_candidate_ok by blast
  next
    case DEFAULT
    then show ?thesis using that meta stores_get(5) [OF s(3)] by simp
  qed
  then show "scanned api view db"
    using s(1,2) store_entries [OF s(2)] by (auto simp: scanned_def addressable_contents_def)
  note get = stores_get [OF s(3)]
  show "graph_of (store_of (view db)) = g"
  proof (rule graph.equality)
    show "gr_nodes (graph_of (store_of (view db))) = gr_nodes g"
      unfolding graph_of_def graph.select_convs by (rule decoded_eq [where enc = node_bytes]) (use get(1) D(1) decode_node_ok in force)+
    show "gr_relations (graph_of (store_of (view db))) = gr_relations g"
      unfolding graph_of_def graph.select_convs by (rule decoded_eq [where enc = relation_bytes]) (use get(2) D(2) decode_relation_ok in force)+
    show "gr_edges (graph_of (store_of (view db))) = gr_edges g"
      unfolding graph_of_def graph.select_convs by (rule decoded_eq [where enc = encode_edge]) (use get(3) D(3) decode_edge_ok in force)+
    show "gr_candidates (graph_of (store_of (view db))) = gr_candidates g"
      unfolding graph_of_def graph.select_convs by (rule decoded_eq [where enc = candidate_bytes]) (use get(4) D(4) decode_candidate_ok in force)+
  qed (simp_all add: graph_of_def counter_of_def get(5) metadata_of_def)
qed

lemma tally_room: "tally m k + 1 \<le> U64_MAX \<Longrightarrow> \<exists>c. checked_add_u64 (case m k of None \<Rightarrow> 0 | Some n \<Rightarrow> n) 1 = Some c"
  by (auto simp: tally_def checked_add_u64_def split: option.splits)

lemma refs_bounded:
  assumes "graph_ok g"
  shows "msum (candidate_refs i) (gr_candidates g) \<le> U64_MAX"
proof (rule ccontr)
  have g: "finite (dom (gr_candidates g))" "references_ok g" "counts_ok g" "records_ok g"
    using assms by (simp_all add: graph_ok_def finite_graph_def)
  assume large: "\<not> msum (candidate_refs i) (gr_candidates g) \<le> U64_MAX"
  then have "msum (candidate_refs i) (gr_candidates g) \<noteq> 0" by linarith
  then obtain j c where c: "gr_candidates g j = Some c" "candidate_refs i c \<noteq> 0" using msum_eq_0_iff [OF g(1), of "candidate_refs i"] by auto
  have "dependencies_ok g c" using g(2) c(1) unfolding references_ok_def by blast
  then obtain d where d: "gr_candidates g i = Some d" "is_candidate_node d \<or> is_candidate_relation d"
    using c(2) by (cases c) (auto split: if_splits simp: of_bool_def)
  moreover have "candidate_id_of d = i" using records_okD(4) [OF g(4) d(1)] by simp
  ultimately obtain n where "durable_incoming d = Some (i, n)" by (cases d) auto
  with g(3) d(1) have "unat n = msum (candidate_refs i) (gr_candidates g)" by (simp add: counts_ok_def)
  with large unat_le_U64_MAX [of n] show False by simp
qed

lemma provisional_bounded:
  assumes "graph_ok g"
  shows "msum (provisional_uses j) (gr_candidates g) \<le> U64_MAX"
proof (cases "gr_relations g j")
  case None
  have g: "finite (dom (gr_candidates g))" "references_ok g" using assms by (simp_all add: graph_ok_def finite_graph_def)
  have "provisional_uses j c = 0" if "gr_candidates g i = Some c" for i c
  proof -
    have "dependencies_ok g c" using g(2) that unfolding references_ok_def by blast
    then show ?thesis using None by (cases c) auto
  qed
  then have "msum (provisional_uses j) (gr_candidates g) = 0" using msum_eq_0_iff [OF g(1)] by blast
  then show ?thesis by simp
next
  case (Some r)
  then have "unat (rr_provisional_reference_count r) = msum (provisional_uses j) (gr_candidates g)"
    using assms by (simp add: graph_ok_def counts_ok_def)
  then show ?thesis using unat_le_U64_MAX [of "rr_provisional_reference_count r"] by simp
qed

lemma node_dependency_total:
  assumes "reading api view g db" "rocks_reads api view" "\<And>i. btree_get candidates i = gr_candidates g i" "node_reference_ok g ref"
    and "\<And>i. tally incoming i + of_bool (ref = NodeCandidate i) \<le> U64_MAX"
  shows "\<exists>incoming'. validate_node_dependency api db candidates owner ref incoming = Inr incoming'"
proof (cases ref)
  case (NodeConfirmed n)
  then show ?thesis using assms(4) by (auto simp: reading_reads [OF assms(1,2)])
next
  case (NodeCandidate i)
  obtain x where "checked_add_u64 (case incoming i of None \<Rightarrow> 0 | Some n \<Rightarrow> n) 1 = Some x"
    using tally_room [of incoming i] assms(5) [of i] NodeCandidate by auto
  moreover from assms(4) NodeCandidate obtain d where "gr_candidates g i = Some d" "is_candidate_node d" by auto
  ultimately show ?thesis using NodeCandidate assms(3)
    by (cases d) (auto simp: checked_increment_candidate_reference_def Let_def)
qed

lemma dependencies_total:
  assumes "reading api view g db" "rocks_reads api view" "pointer_ok g" "\<And>i. btree_get candidates i = gr_candidates g i"
    and "\<And>c. c \<in> set cs \<Longrightarrow> dependencies_ok g c"
    and "\<And>i. tally incoming i + sum_list (map (candidate_refs i) cs) \<le> U64_MAX"
    and "\<And>j. tally provisional j + sum_list (map (provisional_uses j) cs) \<le> U64_MAX"
  shows "\<exists>s. fold_result (validate_dependencies api db candidates) cs (incoming, provisional) = Inr s"
  using assms(5-)
proof (induction cs arbitrary: incoming provisional)
  case (Cons c cs)
  note S = reading_scanned [OF assms(1,3)]
  have cand: "\<And>i. btree_get candidates i = gr_candidates (graph_of (store_of (view db))) i" using assms(4) S(2) by simp
  have "\<exists>s'. validate_dependencies api db candidates c (incoming, provisional) = Inr s'"
  proof (cases c)
    case (CandidateEdge cid src dst rel w)
    have d: "node_reference_ok g src" "node_reference_ok g dst" "relation_reference_ok g rel"
      using Cons.prems(1) [of c] by (simp_all add: CandidateEdge)
    have room: "tally incoming i + candidate_refs i c \<le> U64_MAX" "tally provisional j + provisional_uses j c \<le> U64_MAX" for i j
      using Cons.prems(2) [of i] Cons.prems(3) [of j] by simp_all
    have room': "tally incoming i + of_bool (src = NodeCandidate i) + of_bool (dst = NodeCandidate i) + of_bool (rel = RelationCandidate i) \<le> U64_MAX" for i
      using room(1) [of i] unfolding CandidateEdge candidate_refs.simps by linarith
    have "\<exists>in1. validate_node_dependency api db candidates cid src incoming = Inr in1"
      by (rule node_dependency_total [OF assms(1,2,4) d(1)]) (use room' add_leD1 in \<open>metis add.assoc\<close>)
    then obtain in1 where in1: "validate_node_dependency api db candidates cid src incoming = Inr in1" by blast
    have t1: "tally in1 i = tally incoming i + of_bool (src = NodeCandidate i)" for i
      by (rule node_dependency_Inr(2) [OF S(1) in1 cand])
    have "\<exists>in2. validate_node_dependency api db candidates cid dst in1 = Inr in2"
      by (rule node_dependency_total [OF assms(1,2,4) d(2)]) (use room' t1 add_leD1 in metis)
    then obtain in2 where in2: "validate_node_dependency api db candidates cid dst in1 = Inr in2" by blast
    have t2: "tally in2 i = tally in1 i + of_bool (dst = NodeCandidate i)" for i
      by (rule node_dependency_Inr(2) [OF S(1) in2 cand])
    have "\<exists>s'. validate_relation_dependency api db candidates cid rel (in2, provisional) = Inr s'"
    proof (cases rel)
      case (RelationConfirmed j)
      obtain x where "checked_add_u64 (case provisional j of None \<Rightarrow> 0 | Some n \<Rightarrow> n) 1 = Some x"
        using tally_room [of provisional j] room(2) [of j] RelationConfirmed CandidateEdge by auto
      then show ?thesis using d(3) RelationConfirmed by (auto simp: reading_reads [OF assms(1,2)])
    next
      case (RelationCandidate i)
      obtain x where "checked_add_u64 (case in2 i of None \<Rightarrow> 0 | Some n \<Rightarrow> n) 1 = Some x"
        using tally_room [of in2 i] room' [of i] t1 [of i] t2 [of i] RelationCandidate by auto
      moreover from d(3) RelationCandidate obtain d where "gr_candidates g i = Some d" "is_candidate_relation d" by auto
      ultimately show ?thesis using RelationCandidate assms(4)
        by (cases d) (auto simp: checked_increment_candidate_reference_def Let_def)
    qed
    then show ?thesis by (simp add: CandidateEdge in1 in2)
  qed auto
  then obtain incoming' provisional' where step: "validate_dependencies api db candidates c (incoming, provisional) = Inr (incoming', provisional')"
    by auto
  note T = validate_dependencies_Inr [OF S(1) cand step]
  have "\<exists>s. fold_result (validate_dependencies api db candidates) cs (incoming', provisional') = Inr s"
    using Cons.prems by (intro Cons.IH) (auto simp: T(2,3) add.assoc)
  then show ?case by (simp add: step)
qed simp

lemma read_candidates_reads:
  assumes "reading api view g db" "rocks_reads api view"
  shows "\<exists>candidates. read_candidates api db = Inr candidates"
proof -
  have dec: "\<exists>u c. decode_id_key k = Inr u \<and> decode_candidate v u = Inr c" if "(k, v) \<in> set (view db CANDIDATES)" for k v
    using reading_entry(4) [OF assms(1) that] by (auto simp: entry_of_def)
  have "\<exists>t. fold_result (\<lambda>(key, value) candidates.
       rbind (map_err (record_error (cf_name CANDIDATES) (bytes_id key)) (decode_id_key key)) (\<lambda>i.
       rbind (map_err (record_error (cf_name CANDIDATES) (u64_display i)) (decode_candidate value i)) (\<lambda>c.
       Inr (btree_insert (CandidateId i) c candidates)))) (view db CANDIDATES) [] = Inr t \<and> True"
    by (rule fold_result_total) (use dec in fastforce)+
  then show ?thesis using assms(2) by (auto simp: read_candidates_def db_scan_reads)
qed

lemma expect_usage_total:
  assumes "\<And>r. r \<in> set rs \<Longrightarrow> relation_ok r" "\<And>r. r \<in> set rs \<Longrightarrow> tally provisional (rr_id r) = unat (rr_provisional_reference_count r)"
    and "\<And>r. r \<in> set rs \<Longrightarrow> tally confirmed (rr_id r) = unat (rr_confirmed_edge_count r)"
  shows "\<exists>expected. fold_result (expect_usage provisional confirmed) rs [] = Inr expected \<and> bset_ok expected"
proof (rule fold_result_total)
  show "bset_ok ([] :: bytes list)" by (simp add: bset_ok_def)
  fix r and s :: "bytes list" assume r: "r \<in> set rs" and s: "bset_ok s"
  have "(case provisional (rr_id r) of None \<Rightarrow> 0 | Some n \<Rightarrow> n) = rr_provisional_reference_count r"
    "(case confirmed (rr_id r) of None \<Rightarrow> 0 | Some n \<Rightarrow> n) = rr_confirmed_edge_count r"
    unfolding tally_word using assms(2,3) [OF r] by blast+
  then show "\<exists>t. expect_usage provisional confirmed r s = Inr t \<and> bset_ok t"
    using s by (simp add: expect_usage_def encode_popularity_ok [OF assms(1) [OF r]])
qed

lemma actual_popularity_total:
  assumes "scanned api view db" "bset_ok seen0"
    and "\<And>k v. (k, v) \<in> set (view db RELATION_POPULARITY) \<Longrightarrow> \<exists>r. relation_ok r \<and> k = popularity_bytes r \<and>
      v = encode_u64_record (relation_id_as_u64 (rr_id r))"
  shows "\<exists>actual. fold_result (\<lambda>(k, v). actual_popularity_entry k v) (view db RELATION_POPULARITY) [] = Inr actual \<and> bset_ok actual"
proof -
  let ?es = "view db RELATION_POPULARITY" and ?f = "\<lambda>(k, v). actual_popularity_entry k v"
  let ?P = "\<lambda>seen s. bset_ok s \<and> set s = fst ` set seen"
  have "\<exists>t. fold_result ?f rest s = Inr t \<and> bset_ok t" if "?es = seen @ rest" "?P seen s" for seen rest s
    using that
  proof (induction rest arbitrary: seen s)
    case (Cons x rest)
    obtain k v where x: "x = (k, v)" by (cases x)
    with assms(3) [of k v] Cons.prems(1) obtain r where r: "relation_ok r" "k = popularity_bytes r" "v = encode_u64_record (relation_id_as_u64 (rr_id r))"
      by auto
    have a: "addressable k" using scanned_family(2) [OF assms(1), of k v RELATION_POPULARITY] Cons.prems(1) by (simp add: x)
    have new: "k \<notin> set s" using btree_distinct [OF scanned_family(1) [OF assms(1), of RELATION_POPULARITY]] Cons.prems by (auto simp: x)
    have "decode_popularity_key k = Inr (rr_provisional_reference_count r + rr_confirmed_edge_count r, rr_confirmed_edge_count r, rr_id r)"
      unfolding decode_popularity_key_iff [OF a] using popularity_bytes_eq [OF r(1)] r(2) by simp
    then have f: "?f x s = Inr (snd (bset_insert k s))"
      using new by (simp add: x actual_popularity_entry_def r(3) bset_insert_def)
    have "?P (seen @ [x]) (snd (bset_insert k s))" using Cons.prems(2) by (simp add: x)
    moreover have "?es = (seen @ [x]) @ rest" using Cons.prems(1) by simp
    ultimately have "\<exists>t. fold_result ?f rest (snd (bset_insert k s)) = Inr t \<and> bset_ok t" by (intro Cons.IH)
    then show ?case unfolding fold_result.simps f rbind_simps .
  qed auto
  from this [of "[]" ?es "[]"] show ?thesis by (simp add: bset_ok_def)
qed

lemma count_confirmed_total:
  assumes "\<And>j. sum_list (map (uses_relation j) es) \<le> U64_MAX"
  shows "\<exists>confirmed. fold_result count_confirmed es Map.empty = Inr confirmed"
proof -
  have "\<exists>t. fold_result count_confirmed es m = Inr t" if "\<And>j. tally m j + sum_list (map (uses_relation j) es) \<le> U64_MAX" for m
    using that
  proof (induction es arbitrary: m)
    case (Cons x es)
    let ?k = "er_relation_kind x"
    have use: "uses_relation j x = of_bool (j = ?k)" for j by (auto simp: uses_relation_def)
    obtain c where c: "checked_add_u64 (case m ?k of None \<Rightarrow> 0 | Some n \<Rightarrow> n) 1 = Some c"
      using tally_room [of m ?k] Cons.prems [of ?k] by (auto simp: use)
    have "\<exists>t. fold_result count_confirmed es (m(?k \<mapsto> c)) = Inr t"
    proof (rule Cons.IH)
      fix j show "tally (m(?k \<mapsto> c)) j + sum_list (map (uses_relation j) es) \<le> U64_MAX"
        using Cons.prems [of j] tally_bump [of m ?k c j, OF c] by (simp add: use)
    qed
    moreover have "count_confirmed x m = Inr (m(?k \<mapsto> c))" by (simp add: count_confirmed_def c)
    ultimately show ?case by simp
  qed simp
  from this [of Map.empty] assms show ?thesis by (simp add: tally_def)
qed

lemma validate_usage_reads:
  assumes "reading api view g db" "rocks_reads api view" "graph_ok g"
  shows "validate_relation_usage_and_candidate_dependencies api db = Inr ()"
proof -
  have g: "pointer_ok g" "counts_ok g" "references_ok g" "records_ok g" using assms(3) by (simp_all add: graph_ok_def)
  note S = reading_scanned [OF assms(1) g(1)]
  have rs: "rocks_sound api view" using assms(1) by (simp add: reading_def)
  obtain candidates where cands: "read_candidates api db = Inr candidates" using read_candidates_reads [OF assms(1,2)] by blast
  note C = read_candidates_Inr [OF S(1) cands, unfolded S(2)]
  have msumC: "msum f (gr_candidates g) = sum_list (map f (map snd candidates))" for f
    using msum_entries [OF C(1), of "gr_candidates g"] C(2) by simp
  have mem: "gr_candidates g (candidate_id_of c) = Some c" if "c \<in> set (map snd candidates)" for c
  proof -
    from that obtain i where "(i, c) \<in> set candidates" by auto
    then have i: "gr_candidates g i = Some c" using C(2) [of i] btree.entries_lookup [OF C(1)] by simp
    with records_okD(4) [OF g(4) i] show ?thesis by simp
  qed
  have "\<exists>s. fold_result (validate_dependencies api db candidates) (map snd candidates) (Map.empty, Map.empty) = Inr s"
  proof (rule dependencies_total [OF assms(1,2) g(1) C(2)])
    show "dependencies_ok g c" if "c \<in> set (map snd candidates)" for c using mem [OF that] g(3) unfolding references_ok_def by blast
    show "tally Map.empty i + sum_list (map (candidate_refs i) (map snd candidates)) \<le> U64_MAX" for i
      using refs_bounded [OF assms(3), of i] msumC by (simp add: tally_def)
    show "tally Map.empty j + sum_list (map (provisional_uses j) (map snd candidates)) \<le> U64_MAX" for j
      using provisional_bounded [OF assms(3), of j] msumC by (simp add: tally_def)
  qed
  then obtain incoming provisional where deps: "fold_result (validate_dependencies api db candidates) (map snd candidates)
      (Map.empty, Map.empty) = Inr (incoming, provisional)" by auto
  note D = dependencies_fold_Inr [OF S(1) C(2) [folded S(2)] deps]
  have inc: "check_incoming incoming c = Inr ()" if c: "c \<in> set (map snd candidates)" for c
  proof (cases "durable_incoming c")
    case (Some p)
    then obtain n where n: "durable_incoming c = Some (candidate_id_of c, n)" by (cases c) auto
    then have "unat n = msum (candidate_refs (candidate_id_of c)) (gr_candidates g)" using g(2) mem [OF c] by (simp add: counts_ok_def)
    then have "(case incoming (candidate_id_of c) of None \<Rightarrow> 0 | Some n \<Rightarrow> n) = n"
      unfolding tally_word using D(2) msumC by simp
    then show ?thesis using n by (simp add: check_incoming_def)
  qed (simp add: check_incoming_def)
  obtain es where es: "all_edges api db = Inr es" using all_records_read(3) [OF assms(1,2)] by blast
  obtain rels where rels: "all_relation_kinds api db = Inr rels" using all_records_read(2) [OF assms(1,2)] by blast
  note le = all_records_listed(3) [OF assms(1) es] and lr = all_records_listed(2) [OF assms(1) rels]
  have msumE: "msum (uses_relation j) (gr_edges g) = sum_list (map (uses_relation j) es)" for j
    using edges_codec.record_list_msum [OF le] by blast
  have "sum_list (map (uses_relation j) es) \<le> U64_MAX" for j
  proof (cases "gr_relations g j")
    case None
    from unused_relation_msum [OF assms(3) None] have "sum_list (map (uses_relation j) es) = 0" unfolding msumE .
    then show ?thesis by linarith
  next
    case (Some r)
    then show ?thesis using g(2) msumE unat_le_U64_MAX [of "rr_confirmed_edge_count r"] by (simp add: counts_ok_def)
  qed
  then obtain confirmed where conf: "fold_result count_confirmed es Map.empty = Inr confirmed" using count_confirmed_total by blast
  have at: "gr_relations g (rr_id r) = Some r" if "r \<in> set rels" for r using lr that by (simp add: record_list_def)
  have rok: "relation_ok r" if "r \<in> set rels" for r using records_okD(2) [OF g(4) at [OF that]] by simp
  have agree: "tally provisional (rr_id r) = unat (rr_provisional_reference_count r)"
    "tally confirmed (rr_id r) = unat (rr_confirmed_edge_count r)" if "r \<in> set rels" for r
    using g(2) at [OF that] unfolding counts_ok_def D(3) count_confirmed_Inr [OF conf] msumE msumC by metis+
  have "\<exists>expected. fold_result (expect_usage provisional confirmed) rels [] = Inr expected \<and> bset_ok expected"
    using rok agree by (intro expect_usage_total)
  then obtain expected where exp: "fold_result (expect_usage provisional confirmed) rels [] = Inr expected" "bset_ok expected" by blast
  have pop: "represents (\<lambda>_. popularity_bytes) (id_values relation_id_as_u64) (gr_relations g) (store_of (view db) RELATION_POPULARITY)"
    using assms(1) by (simp add: reading_def stores_def)
  have ent: "\<exists>r. r \<in> set rels \<and> k = popularity_bytes r \<and> v = encode_u64_record (relation_id_as_u64 (rr_id r))"
    if "(k, v) \<in> set (view db RELATION_POPULARITY)" for k v
  proof -
    from that pop obtain i r where r: "gr_relations g i = Some r" "k = popularity_bytes r" "v = encode_u64_record (relation_id_as_u64 i)"
      unfolding scanned_entry [OF S(1)] represents_def id_values_def by metis
    then have "r \<in> set rels" "rr_id r = i" using lr by (simp_all add: record_list_def)
    with r show ?thesis by blast
  qed
  then obtain actual where act: "fold_result (\<lambda>(k, v). actual_popularity_entry k v) (view db RELATION_POPULARITY) [] = Inr actual"
    "bset_ok actual" using actual_popularity_total [OF S(1), of "[]"] rok by (force simp: bset_ok_def)
  have "set actual = fst ` set (view db RELATION_POPULARITY)" by (rule actual_popularity_Inr(1) [OF S(1) act(1)])
  also have "\<dots> = popularity_bytes ` set rels"
  proof (intro equalityI subsetI)
    fix k assume "k \<in> popularity_bytes ` set rels"
    then obtain r where "r \<in> set rels" "k = popularity_bytes r" by blast
    from represents_get [OF pop at [OF this(1)]] this(2) show "k \<in> fst ` set (view db RELATION_POPULARITY)"
      by (force simp: scanned_entry [OF S(1), symmetric])
  qed (use ent in force)
  also have "\<dots> = set expected" using expect_usage_Inr(1) [OF exp(1)] rok by blast
  finally have "actual = expected"
    using act(2) exp(2) by (simp add: bset_ok_iff sorted_distinct_set_unique)
  moreover have "fold_result (\<lambda>c _. check_incoming incoming c) (map snd candidates) () = Inr ()"
    unfolding fold_result_check using inc by blast
  ultimately show ?thesis
    using cands deps es conf rels exp(1) act(1)
    by (simp add: validate_relation_usage_and_candidate_dependencies_def db_scan_reads [OF assms(2)]
        required_column_family_reads [OF assms(2)])
qed

section \<open>Counters and the whole\<close>

lemma validate_next_id_reads:
  assumes "rocks_reads api view" "read_metadata api db key = Inr n" "n \<noteq> 0"
    and "\<And>k v. (k, v) \<in> set (view db cf) \<Longrightarrow> \<exists>i. k = encode_id_key i \<and> i < n"
  shows "validate_next_id api db (key, cf) = Inr ()"
proof -
  let ?f = "\<lambda>(k, v :: bytes) ids. rbind (map_err (record_error (cf_name cf) (bytes_id k)) (decode_id_key k)) (\<lambda>i. Inr (ids @ [i]))"
  have "\<exists>ids. fold_result ?f (view db cf) [] = Inr ids \<and> (\<forall>i \<in> set ids. i < n)"
    by (rule fold_result_total) (use assms(4) in fastforce)+
  then obtain ids where ids: "fold_result ?f (view db cf) [] = Inr ids" "\<forall>i \<in> set ids. i < n" by blast
  have "foldr max ids 0 < n"
    using ids(2) assms(3) by (induction ids) (auto simp: word_gt_0)
  then show ?thesis
    using assms(2,3) ids(1)
    by (simp add: validate_next_id_def collect_ids_def db_scan_reads [OF assms(1)] required_column_family_reads [OF assms(1)]
        Let_def not_le)
qed

lemma validate_counters_reads:
  assumes "reading api view g db" "rocks_reads api view" "counters_ok g"
  shows "validate_next_id_counters api db = Inr ()"
proof -
  note m = read_metadata_reads [OF assms(1,2)] and E = reading_entry [OF assms(1)]
  note c = assms(3) [unfolded counters_ok_def]
  have "validate_next_id api db (META_NEXT_CANDIDATE_ID, CANDIDATES) = Inr ()"
    by (rule validate_next_id_reads [OF assms(2) m(1)]) (use c E(4) in blast)+
  moreover have "validate_next_id api db (META_NEXT_NODE_ID, NODES) = Inr ()"
    by (rule validate_next_id_reads [OF assms(2) m(2)]) (use c E(1) in blast)+
  moreover have "validate_next_id api db (META_NEXT_RELATION_ID, RELATION_KINDS) = Inr ()"
    by (rule validate_next_id_reads [OF assms(2) m(3)]) (use c E(2) in blast)+
  moreover have "validate_next_id api db (META_NEXT_EDGE_ID, EDGES) = Inr ()"
    by (rule validate_next_id_reads [OF assms(2) m(4)]) (use c E(3) in blast)+
  ultimately show ?thesis by (simp add: validate_next_id_counters_def)
qed

lemma reopen_reads:
  assumes "rocks_sound api view" "rocks_reads api view" "catalog_holds view g cat" "0 < maximum"
  shows "open_with_config api (Inr (ct_db cat)) (Inr path) maximum = Inr cat"
proof -
  note rd = catalog_holds_reading [OF assms(1,3)]
  have g: "graph_ok g" "pointer_ok g" "references_ok g" "counters_ok g"
    and ix: "indexes_ok g (ct_node_names cat) (ct_relation_names cat)" and up: "unpoisoned cat"
    using assms(3) by (simp_all add: catalog_holds_def graph_ok_def)
  have "rebuild_node_index api (ct_db cat) = Inr (ct_node_names cat)" "rebuild_relation_index api (ct_db cat) = Inr (ct_relation_names cat)"
    using ix rebuild_node_index_reads [OF rd assms(2)] rebuild_relation_index_reads [OF rd assms(2)] by (simp_all add: indexes_ok_def)
  then have "rebuild_indexes_and_validate api (ct_db cat) = Inr (ct_node_names cat, ct_relation_names cat)"
    using validate_candidates_reads [OF rd assms(2)] validate_edges_and_adjacency_reads [OF rd assms(2) g(3)]
      validate_usage_reads [OF rd assms(2) g(1)] validate_counters_reads [OF rd assms(2) g(4)]
    by (simp add: rebuild_indexes_and_validate_def)
  then show ?thesis
    using assms(4) up initialize_reads [OF rd assms(2)] validate_metadata_reads [OF rd assms(2) g(2)]
    by (simp add: open_with_config_def validate_config_def unpoisoned_def)
qed

end
