(* ===== verification/Catalog_Example.thy ===== *)
theory Catalog_Example
  imports Catalog_Reopen
begin

text \<open>
  A small catalog in memory: the nodes \<^verbatim>\<open>a\<close> and \<^verbatim>\<open>b\<close>, one edge between them, and a node candidate
  \<^verbatim>\<open>c\<close>. The operations run on it where a property is shown at a concrete input.
\<close>

definition small_node :: "u64 \<Rightarrow> string \<Rightarrow> node_record" where
  "small_node k name = \<lparr>nr_id = NodeId k, nr_name = NodeName (ascii name), nr_payload = NodePayload []\<rparr>"

definition small_relation :: relation_record where
  "small_relation = relation_record_with_usage (RelationId 1) (RelationName (ascii ''r'')) 0 1"

definition small_edge :: edge_record where
  "small_edge = \<lparr>er_id = EdgeId 1, er_source = NodeId 1, er_destination = NodeId 2,
     er_relation_kind = RelationId 1, er_base_weight = BaseWeight f32_one\<rparr>"

definition small_candidate :: candidate where
  "small_candidate = CandidateNode (CandidateId 1) (NodeName (ascii ''c'')) (NodePayload []) 0"

definition small_graph :: graph where
  "small_graph =
     \<lparr>gr_nodes = [NodeId 1 \<mapsto> small_node 1 ''a'', NodeId 2 \<mapsto> small_node 2 ''b''],
      gr_relations = [RelationId 1 \<mapsto> small_relation], gr_edges = [EdgeId 1 \<mapsto> small_edge],
      gr_candidates = [CandidateId 1 \<mapsto> small_candidate],
      gr_next_candidate = 2, gr_next_node = 3, gr_next_relation = 2, gr_next_edge = 2, gr_pointer = None\<rparr>"

definition bare_graph :: graph where
  "bare_graph = small_graph\<lparr>gr_nodes := Map.empty, gr_relations := Map.empty, gr_edges := Map.empty,
     gr_candidates := Map.empty\<rparr>"

definition small_contents :: contents where
  "small_contents = apply_batch
     ([Put DEFAULT (ascii META_NEXT_CANDIDATE_ID) (encode_u64_record 2), Put DEFAULT (ascii META_NEXT_NODE_ID) (encode_u64_record 3),
       Put DEFAULT (ascii META_NEXT_RELATION_ID) (encode_u64_record 2), Put DEFAULT (ascii META_NEXT_EDGE_ID) (encode_u64_record 2)]
      @ node_group (small_node 1 ''a'') @ node_group (small_node 2 ''b'') @ relation_group small_relation
      @ put_created_edge small_edge @ candidate_group small_candidate) (\<lambda>_. [])"

definition small_catalog :: "contents catalog" where
  "small_catalog =
     \<lparr>ct_db = small_contents, ct_node_names = [ascii ''a'' \<mapsto> NodeId 1, ascii ''b'' \<mapsto> NodeId 2],
      ct_relation_names = [ascii ''r'' \<mapsto> RelationId 1],
      ct_write_poisoned = False, ct_node_names_poisoned = False, ct_relation_names_poisoned = False\<rparr>"

lemma small_names: "utf8_valid (ascii ''a'')" "utf8_valid (ascii ''b'')" "utf8_valid (ascii ''c'')" "utf8_valid (ascii ''r'')"
  by (simp_all add: ascii_def)

lemma small_records_ok:
  "node_ok (small_node 1 ''a'')" "node_ok (small_node 2 ''b'')" "relation_ok small_relation" "edge_ok small_edge"
  "stored_candidate_ok small_candidate"
  by (simp_all add: node_ok_def small_node_def small_names ascii_length relation_ok_def small_relation_def
      relation_record_with_usage_def edge_ok_def small_edge_def base_weight_ok_def small_candidate_def
      U32_MAX_def U64_MAX_def MAX_NODE_PAYLOAD_BYTES_def)

lemma store_ops_append: "store_ops (xs @ ys) kv = store_ops ys (store_ops xs kv)"
  by (simp add: store_ops_def)

lemma small_stored: "contents_ok small_contents" "stored_graph small_graph (store_of small_contents)"
proof -
  have empty: "contents_ok (\<lambda>_. [])" by (simp add: contents_ok_def btree_ok_def)
  show "contents_ok small_contents" unfolding small_contents_def by (rule apply_batch_ok [OF empty])
  let ?meta = "[Put DEFAULT (ascii META_NEXT_CANDIDATE_ID) (encode_u64_record 2), Put DEFAULT (ascii META_NEXT_NODE_ID) (encode_u64_record 3),
       Put DEFAULT (ascii META_NEXT_RELATION_ID) (encode_u64_record 2), Put DEFAULT (ascii META_NEXT_EDGE_ID) (encode_u64_record 2)]"
  let ?kv0 = "store_ops ?meta (\<lambda>_. Map.empty)"
  have s0: "stored_graph bare_graph ?kv0"
    by (simp add: stored_graph_def records_ok_def stores_def bare_graph_def represents_def)
      (auto simp: metadata_of_def fun_eq_iff small_graph_def)
  let ?g1 = "with_node (small_node 1 ''a'') bare_graph" and ?kv1 = "store_ops (node_group (small_node 1 ''a'')) ?kv0"
  have s1: "stored_graph ?g1 ?kv1"
    by (rule node_group_step [OF s0 small_records_ok(1)]) (simp_all add: bare_graph_def)
  let ?g2 = "with_node (small_node 2 ''b'') ?g1" and ?kv2 = "store_ops (node_group (small_node 2 ''b'')) ?kv1"
  have s2: "stored_graph ?g2 ?kv2"
    by (rule node_group_step [OF s1 small_records_ok(2)]) (auto simp: bare_graph_def with_node_def small_node_def split: if_splits)
  let ?g3 = "with_relation small_relation ?g2" and ?kv3 = "store_ops (relation_group small_relation) ?kv2"
  have s3: "stored_graph ?g3 ?kv3"
    by (rule relation_group_step [OF s2 small_records_ok(3)]) (auto simp: bare_graph_def with_node_def)
  let ?g4 = "with_edge small_edge ?g3" and ?kv4 = "store_ops (put_created_edge small_edge) ?kv3"
  have s4: "stored_graph ?g4 ?kv4"
    by (rule edge_group_step [OF s3 small_records_ok(4)]) (auto simp: bare_graph_def with_node_def with_relation_def)
  have "stored_graph (with_candidate small_candidate ?g4) (store_ops (candidate_group small_candidate) ?kv4)"
    by (rule candidate_group_step [OF s4 small_records_ok(5)]) (auto simp: bare_graph_def graph_change_defs)
  moreover have "with_candidate small_candidate (with_edge small_edge (with_relation small_relation
        (with_node (small_node 2 ''b'') (with_node (small_node 1 ''a'') bare_graph)))) = small_graph"
    by (simp add: graph_change_defs bare_graph_def small_graph_def small_node_def small_relation_def relation_record_with_usage_def
        small_edge_def small_candidate_def)
  moreover have "store_of (\<lambda>_. []) = (\<lambda>_. Map.empty)" by (simp add: fun_eq_iff store_of_def btree_get_def)
  ultimately show "stored_graph small_graph (store_of small_contents)"
    unfolding small_contents_def store_of_apply_batch [OF empty] by (simp add: store_ops_append)
qed

lemma small_fields: "gr_nodes small_graph (NodeId 1) = Some (small_node 1 ''a'')" "gr_nodes small_graph (NodeId 2) = Some (small_node 2 ''b'')"
  "gr_relations small_graph (RelationId 1) = Some small_relation" "gr_edges small_graph (EdgeId 1) = Some small_edge"
  "gr_candidates small_graph (CandidateId 1) = Some small_candidate"
  by (simp_all add: small_graph_def)

lemma msum_single: "msum f [i \<mapsto> x] = f x"
  using msum_add [of Map.empty i f x] by simp

lemma small_graph_ok: "graph_ok small_graph"
proof -
  have ok: "records_ok small_graph" using small_stored(2) by (simp add: stored_graph_def)
  have "references_ok small_graph"
    by (auto simp: references_ok_def small_graph_def small_edge_def small_candidate_def split: if_splits)
  moreover have "counts_ok small_graph"
    by (auto simp: counts_ok_def small_graph_def msum_single small_relation_def relation_record_with_usage_def uses_relation_def
        small_edge_def small_candidate_def split: if_splits)
  moreover have "counters_ok small_graph"
    by (auto simp: counters_ok_def small_graph_def split: if_splits)
  ultimately show ?thesis using ok by (simp add: graph_ok_def finite_graph_def pointer_ok_def) (simp add: small_graph_def)
qed

lemma small_holds: "catalog_holds (\<lambda>db. db) small_graph small_catalog"
proof -
  have "indexes_ok small_graph (ct_node_names small_catalog) (ct_relation_names small_catalog)"
    by (auto simp: indexes_ok_def small_catalog_def names_node_def names_relation_def small_graph_def small_node_def
        small_relation_def relation_record_with_usage_def split: if_splits)
  then show ?thesis
    using small_stored small_graph_ok by (simp add: catalog_holds_def stored_graph_def) (simp add: small_catalog_def unpoisoned_def)
qed

lemmas small_reading = catalog_holds_reading [OF memory_rocks_sound small_holds]

lemma small_db: "ct_db small_catalog = small_contents"
  by (simp add: small_catalog_def)

lemmas small_reads = reading_reads [OF small_reading memory_rocks_reads, unfolded small_db]
  read_metadata_reads [OF small_reading memory_rocks_reads, unfolded small_db]

lemma small_indexes: "ct_node_names small_catalog (ascii ''c'') = None"
  by (simp add: small_catalog_def)

text \<open>Inserting a node candidate, and confirming the one that is there.\<close>

definition small_entry :: candidate_batch_entry where
  "small_entry = EntryNode (NodeName (ascii ''d'')) (NodePayload [])"

lemma small_guard: "write_guard small_catalog = Inr ()"
  by (simp add: write_guard_def small_catalog_def)

lemma memory_commit: "\<exists>cat'. commit_batch memory_rocks batch cat = (Inr (), cat')"
  by (rule commit_batch_succeeds [OF memory_rocks_writes])

lemma small_insert: "\<exists>result cat'. insert_candidate_batch memory_rocks (\<lambda>_ _. True) [small_entry] small_catalog = (Inr result, cat')"
proof -
  have limits: "check_batch_limits [small_entry] = Inr ()"
    by (simp add: check_batch_limits_def small_entry_def ascii_length MAXIMUM_CANDIDATE_BATCH_ENTRIES_def checked_add_def checked_mul_def
        U64_MAX_def MAXIMUM_CANDIDATE_BATCH_NAME_BYTES_def MAXIMUM_CANDIDATE_BATCH_PAYLOAD_BYTES_def
        MAXIMUM_CANDIDATE_BATCH_ESTIMATED_BYTES_def)
  have "stored_candidate_ok (CandidateNode (CandidateId 2) (NodeName (ascii ''d'')) (NodePayload []) 0)"
    by (simp add: ascii_def U32_MAX_def MAX_NODE_PAYLOAD_BYTES_def)
  from encode_candidate_ok [OF this] obtain bytes where
    enc: "encode_candidate (CandidateNode (CandidateId 2) (NodeName (ascii ''d'')) (NodePayload []) 0) = Inr bytes" by blast
  have "\<exists>batch result. insert_candidate_plan memory_rocks (\<lambda>_ _. True) [small_entry] small_contents = Inr (batch, result)"
    using enc
    by (simp add: insert_candidate_plan_def small_reads small_graph_def checked_add_u64_def U64_MAX_def try_reserve_def
        insertion_ids_def small_entry_def assign_incoming_def put_candidates_def memory_rocks_reads
        required_column_family_reads [OF memory_rocks_reads] index_def del: encode_candidate.simps)
  then obtain batch result where "insert_candidate_plan memory_rocks (\<lambda>_ _. True) [small_entry] (ct_db small_catalog) = Inr (batch, result)"
    by (auto simp: small_db)
  moreover obtain cat' where "commit_batch memory_rocks batch small_catalog = (Inr (), cat')" using memory_commit by blast
  ultimately show ?thesis by (simp add: insert_candidate_batch_def limits small_guard)
qed

definition small_created :: node_record where
  "small_created = \<lparr>nr_id = NodeId 3, nr_name = NodeName (ascii ''c''), nr_payload = NodePayload []\<rparr>"

lemma small_selection: "confirm_selection memory_rocks (\<lambda>_ _. True) [CandidateId 1] small_contents =
    Inr ([small_candidate], candidate_batch_counts_default\<lparr>cc_nodes := 1\<rparr>)"
  by (simp add: confirm_selection_def try_reserve_def select_candidate_def small_reads small_fields)
    (simp add: small_candidate_def check_closure_def candidate_batch_counts_default_def)

lemma small_created_ok: "node_ok small_created"
  by (simp add: node_ok_def small_created_def small_names ascii_length U32_MAX_def MAX_NODE_PAYLOAD_BYTES_def)

lemma small_records: "\<exists>batch cs es. confirm_records memory_rocks (\<lambda>_ _. True) (ct_node_names small_catalog) (ct_relation_names small_catalog)
    U64_MAX [small_candidate] (candidate_batch_counts_default\<lparr>cc_nodes := 1\<rparr>) small_contents = Inr (batch, cs, es)
    \<and> es_aligned es = [Some (ConfirmedNode small_created)]"
proof -
  have counters: "gr_next_node small_graph = 3" "gr_next_relation small_graph = 2" "gr_next_edge small_graph = 2" by (simp_all add: small_graph_def)
  have created: "\<lparr>nr_id = NodeId 3, nr_name = NodeName (ascii ''c''), nr_payload = NodePayload []\<rparr> = small_created"
    by (simp add: small_created_def)
  have response: "check_response_bytes U64_MAX [Some (ConfirmedNode small_created)] = Inr ()"
    by (simp add: check_response_bytes_def small_created_def ascii_length checked_add_def U64_MAX_def)
  have cf: "required_column_family memory_rocks small_contents cf = Inr ()" for cf
    by (rule required_column_family_reads [OF memory_rocks_reads])
  have enc: "encode_node small_created = Inr (node_bytes small_created)"
    "encode_name_key (node_name_as_str (nr_name small_created)) = Inr (counted (ascii ''c''))"
    using encode_node_ok [OF small_created_ok] encode_name_ok [of "ascii ''c''"] by (simp_all add: small_created_def ascii_length U32_MAX_def)
  show ?thesis
    using response enc
    by (simp add: confirm_records_def try_reserve_def small_reads counters small_candidate_def resolve_node_name_def small_indexes
        checked_add_u64_def U64_MAX_def Let_def created confirmation_batch_def cf put_created_node_def final_relations_def btree_extend_def)
qed

lemma small_confirm: "\<exists>result cat'. confirm_candidate_batch_with_response_limit memory_rocks (\<lambda>_ _. True) [CandidateId 1] U64_MAX small_catalog
    = (Inr result, cat') \<and> cb_records result = [ConfirmedNode small_created]"
proof -
  obtain batch cs es where r: "confirm_records memory_rocks (\<lambda>_ _. True) (ct_node_names small_catalog) (ct_relation_names small_catalog)
      U64_MAX [small_candidate] (candidate_batch_counts_default\<lparr>cc_nodes := 1\<rparr>) small_contents = Inr (batch, cs, es)"
    "es_aligned es = [Some (ConfirmedNode small_created)]" using small_records by blast
  obtain cat' where c: "commit_batch memory_rocks batch small_catalog = (Inr (), cat')" using memory_commit by blast
  have locks: "node_index_write small_catalog = Inr ()" "relation_index_write small_catalog = Inr ()"
    by (simp_all add: node_index_write_def relation_index_write_def small_catalog_def)
  show ?thesis
    using r c
    by (simp add: confirm_candidate_batch_with_response_limit_def MAXIMUM_CANDIDATE_BATCH_ENTRIES_def small_guard small_db small_selection locks Let_def)
qed

end
