(* ===== verification/Catalog_Properties.thy ===== *)
theory Catalog_Properties
  imports Catalog_Example Transitions
begin

text \<open>
  The properties of the catalog: what each mutation does to the stored graph, that a failed one
  does nothing, that removals of what exists succeed, that opening accepts exactly well-formed
  databases, and that the invariant holds through any history of operations.
\<close>

section \<open>Mutations\<close>

text \<open>
  C11: Inserting a batch of candidates. When \<open>insert_candidate_batch\<close> succeeds, every entry of the
  batch is stored as a candidate under the identifier the result names at its position, batch
  references resolved to identifiers; the identifiers are the next unused ones, so no candidate is
  overwritten; nothing else of the graph changes but the counter and the usage counts, and the
  catalog invariant holds again.
\<close>

theorem insert_candidates_stores:
  assumes "rocks_sound api view" "catalog_holds view g cat" "\<And>e. e \<in> set entries \<Longrightarrow> entry_typed e"
    and "insert_candidate_batch api reserve entries cat = (Inr result, cat')"
  shows "\<exists>g'. catalog_holds view g' cat' \<and> spec_inserted entries (ci_candidate_ids result) g g'"
  using insert_candidate_batch_holds [OF assms] inserted_spec by metis

theorem insert_candidates_stores_witness:
  "\<exists>result cat' g'. insert_candidate_batch memory_rocks (\<lambda>_ _. True) [small_entry] small_catalog = (Inr result, cat') \<and>
     catalog_holds (\<lambda>db. db) g' cat' \<and> spec_inserted [small_entry] (ci_candidate_ids result) small_graph g'"
proof -
  obtain result cat' where r: "insert_candidate_batch memory_rocks (\<lambda>_ _. True) [small_entry] small_catalog = (Inr result, cat')"
    using small_insert by blast
  have "entry_typed e" if "e \<in> set [small_entry]" for e using that by (simp add: small_entry_def ascii_def)
  from insert_candidates_stores [OF memory_rocks_sound small_holds this r] r show ?thesis by blast
qed

text \<open>
  C7: Confirming candidates. When the confirmation of a selection succeeds, exactly the selected
  candidates are gone; the record returned at each position is in the graph and is the selected
  candidate's: a node or relation kind of its exact name, or an edge of its weight whose endpoints
  and relation kind are what the references stand for, a new edge for each edge candidate;
  confirmed records stay; every new node has the name and payload of a selected candidate, every
  new relation kind the name of one, and every new edge is one of the returned records; and the
  catalog invariant holds again.
\<close>

theorem confirm_candidates_promotes:
  assumes "rocks_sound api view" "catalog_holds view g cat"
    and "confirm_candidate_batch_with_response_limit api reserve cids maximum cat = (Inr result, cat')"
  shows "\<exists>g'. catalog_holds view g' cat' \<and> spec_confirmed cids (cb_records result) g g'"
  using confirm_holds [OF assms] confirmed_spec by metis

theorem confirm_candidates_promotes_witness:
  "\<exists>result cat' g'. confirm_candidate_batch_with_response_limit memory_rocks (\<lambda>_ _. True) [CandidateId 1] U64_MAX small_catalog
       = (Inr result, cat') \<and>
     catalog_holds (\<lambda>db. db) g' cat' \<and> spec_confirmed [CandidateId 1] [ConfirmedNode small_created] small_graph g'"
proof -
  obtain result cat' where r: "confirm_candidate_batch_with_response_limit memory_rocks (\<lambda>_ _. True) [CandidateId 1] U64_MAX small_catalog
      = (Inr result, cat')" "cb_records result = [ConfirmedNode small_created]" using small_confirm by blast
  from confirm_candidates_promotes [OF memory_rocks_sound small_holds r(1)] r show ?thesis by auto
qed

text \<open>
  C12: Removing an edge. While the database itself does not fail, \<open>remove_edge\<close> of an edge that
  exists always succeeds, on a well-formed catalog no consistency check can refuse: the edge is
  gone, the usage of its relation kind is one less, a relation kind that neither an edge nor a
  candidate uses any more goes with it and is reported, the published routing image is withdrawn,
  and the invariant holds. Of an edge that does not exist it reports that and changes nothing.
\<close>

theorem remove_edge_refines:
  assumes "rocks_sound api view" "rocks_reads api view" "rocks_writes api" "catalog_holds view g cat"
  shows "if gr_edges g i = None
    then remove_edge api i cat = (Inl (Failed (RecordNotFound KindEdge (edge_id_as_u64 i))), cat)
    else \<exists>result cat'. remove_edge api i cat = (Inr result, cat') \<and> catalog_holds view (spec_remove_edge i g) cat' \<and>
      set (dl_removed_relation_kinds result) = lost_relations g (spec_remove_edge i g)"
proof (cases "gr_edges g i")
  case None
  then show ?thesis using remove_edge_missing [OF assms(1,2,4)] by simp
next
  case (Some e)
  obtain result cat' where r: "remove_edge api i cat = (Inr result, cat')" using remove_edge_succeeds [OF assms Some] by blast
  from remove_edge_holds [OF assms(1,4) r] obtain relation updated where
    h: "gr_relations g (er_relation_kind e) = Some relation" "decremented_relation relation 1 ''edge deletion'' = Inr updated"
      "catalog_holds view (graph_without_edge e updated g) cat'"
      "result = \<lparr>dl_removed_relation_kinds = (if unused updated then [rr_id relation] else [])\<rparr>"
    using Some by (metis option.inject)
  have ok: "graph_ok g" "records_ok g" "graph_ok (graph_without_edge e updated g)"
    using assms(4) h(3) by (simp_all add: catalog_holds_def graph_ok_def)
  have id: "er_id e = i" "rr_id relation = er_relation_kind e"
    using records_okD(3) [OF ok(2) Some] records_okD(2) [OF ok(2) h(1)] by simp_all
  have spec: "graph_without_edge e updated g = spec_remove_edge i g"
    using graph_without_edge_spec [OF ok(1,3) _ h(1,2)] Some id(1) by simp
  have "set (dl_removed_relation_kinds result) = lost_relations g (graph_without_edge e updated g)"
    using h(1,2,4) id
    by (auto simp: lost_relations_def graph_without_edge_def settle_relation_def graph_change_defs decremented_relation_Inr
        relation_record_with_usage_def split: if_splits)
  then show ?thesis using r h(3) Some by (simp add: spec)
qed

theorem remove_edge_refines_witness:
  "\<exists>result cat'. remove_edge memory_rocks (EdgeId 1) small_catalog = (Inr result, cat') \<and>
     catalog_holds (\<lambda>db. db) (spec_remove_edge (EdgeId 1) small_graph) cat'"
  using remove_edge_refines [OF memory_rocks_sound memory_rocks_reads memory_rocks_writes small_holds, of "EdgeId 1"]
  by (auto simp: small_fields)

text \<open>
  C8: Removing a node. While the database itself does not fail, \<open>remove_node\<close> of a confirmed node
  that no provisional edge refers to always succeeds, whatever order the incident edges are visited
  in: the node and all its incoming and outgoing edges, self-loops included, are gone, the usage
  counts are lowered accordingly, exactly the relation kinds that lost their last use are removed
  and reported, and the invariant holds.
\<close>

theorem remove_node_refines:
  assumes "rocks_sound api view" "rocks_reads api view" "rocks_writes api" "visits order" "catalog_holds view g cat"
    and "gr_nodes g i \<noteq> None" and free: "\<And>j c. gr_candidates g j = Some c \<Longrightarrow> \<not> references_confirmed_node i c"
  shows "\<exists>result cat'. remove_node api order i cat = (Inr result, cat') \<and> catalog_holds view (spec_remove_node i g) cat' \<and>
    set (dl_removed_relation_kinds result) = lost_relations g (spec_remove_node i g)"
proof -
  obtain n where n: "gr_nodes g i = Some n" using assms(6) by blast
  have "\<exists>result cat'. remove_node api order i cat = (Inr result, cat')"
    by (rule remove_node_succeeds [OF assms(1-5) n]) (rule free)
  then obtain result cat' where r: "remove_node api order i cat = (Inr result, cat')" by blast
  obtain node decs where
    h: "gr_nodes g i = Some node" "\<And>j c. gr_candidates g j = Some c \<Longrightarrow> \<not> references_confirmed_node i c"
      "catalog_holds view (graph_without_node i decs g) cat'"
      "set (dl_removed_relation_kinds result) = {j. gr_relations g j \<noteq> None \<and> gr_relations (graph_without_node i decs g) j = None}"
      "\<And>j n. map_of decs j = Some n \<Longrightarrow> 0 < unat n \<and> (\<exists>old. gr_relations g j = Some old \<and> unat n \<le> unat (rr_confirmed_edge_count old))"
    by (fact remove_node_holds [OF assms(1,4,5) r])
  have "graph_ok g" "graph_ok (graph_without_node i decs g)" using assms(5) h(3) by (simp_all add: catalog_holds_def)
  then have "graph_without_node i decs g = spec_remove_node i g" by (rule graph_without_node_spec) (rule h(5))
  with r h(3,4) show ?thesis by (auto simp: lost_relations_def)
qed

theorem remove_node_refines_witness:
  "\<exists>result cat'. remove_node memory_rocks (\<lambda>es. es) (NodeId 1) small_catalog = (Inr result, cat') \<and>
     catalog_holds (\<lambda>db. db) (spec_remove_node (NodeId 1) small_graph) cat'"
proof -
  have "\<not> references_confirmed_node (NodeId 1) c" if "gr_candidates small_graph j = Some c" for j c
    using that by (auto simp: small_graph_def small_candidate_def split: if_splits)
  with remove_node_refines [OF memory_rocks_sound memory_rocks_reads memory_rocks_writes _ small_holds, of "\<lambda>es. es" "NodeId 1"]
  show ?thesis by (auto simp: visits_def small_fields)
qed

text \<open>
  C15: A mutation that fails changes nothing and never panics. Whatever error an insertion, a
  confirmation or a removal reports, of the request, of the stored data or of the database, the
  stored contents and both name indexes are what they were, no lock is poisoned, and no
  \<^verbatim>\<open>expect\<close>, index or arithmetic of the code has panicked.
\<close>

theorem failed_mutation_unchanged:
  assumes "rocks_sound api view" "catalog_holds view g cat"
    and "insert_candidate_batch api reserve entries cat = (Inl f, cat') \<or>
      confirm_candidate_batch_with_response_limit api reserve cids maximum cat = (Inl f, cat') \<or>
      remove_edge api i cat = (Inl f, cat') \<or> remove_node api order n cat = (Inl f, cat')"
  shows "unchanged view cat cat' \<and> f \<noteq> Panicked \<and> catalog_holds view g cat'"
proof -
  have "unchanged view cat cat' \<and> f \<noteq> Panicked"
    using assms(3)
      insert_failed [OF assms(1)] confirm_failed [OF assms(1,2)] remove_edge_failed [OF assms(1)] remove_node_failed [OF assms(1)]
    by blast
  then show ?thesis using unchanged_holds [OF _ assms(2)] by blast
qed

theorem failed_mutation_unchanged_witness:
  "\<exists>f cat'. remove_edge memory_rocks (EdgeId 9) small_catalog = (Inl f, cat') \<and> catalog_holds (\<lambda>db. db) small_graph cat'"
proof -
  have missing: "gr_edges small_graph (EdgeId 9) = None" by (simp add: small_graph_def)
  from remove_edge_missing [OF memory_rocks_sound memory_rocks_reads small_holds missing]
  obtain f cat' where f: "remove_edge memory_rocks (EdgeId 9) small_catalog = (Inl f, cat')" by blast
  from failed_mutation_unchanged [OF memory_rocks_sound small_holds disjI2 [OF disjI2 [OF disjI1 [OF f]]]] f show ?thesis by blast
qed

section \<open>Opening\<close>

text \<open>
  C13: Opening a database accepts only well-formed catalogs. Whatever the files contain, when
  \<open>open_with_config\<close> succeeds the database represents the graph decoded from it, whose records
  are well formed, whose edges and candidates refer to what exists, whose stored counts and
  counters are exact, and the rebuilt name indexes are that graph's.
\<close>

theorem open_accepts_well_formed:
  assumes "rocks_sound api view" "contents_ok (view db)" "addressable_contents (view db)"
    and "open_with_config api (Inr db) canonical maximum = Inr cat"
  shows "catalog_holds view (graph_of (store_of (view (ct_db cat)))) cat"
  by (rule open_holds [OF _ assms(4)]) (simp add: scanned_def assms(1-3))

theorem open_accepts_well_formed_witness:
  "\<exists>cat. open_with_config memory_rocks (Inr small_contents) (Inr ()) 1 = Inr cat \<and>
     catalog_holds (\<lambda>db. db) (graph_of (store_of (ct_db cat))) cat"
proof -
  have "open_with_config memory_rocks (Inr small_contents) (Inr ()) 1 = Inr small_catalog"
    using reopen_reads [OF memory_rocks_sound memory_rocks_reads small_holds, of 1 "()"] by (simp add: small_db)
  moreover have "scanned memory_rocks (\<lambda>db. db) small_contents"
    using reading_scanned(1) [OF small_reading] small_graph_ok by (simp add: graph_ok_def small_db)
  ultimately show ?thesis
    using open_accepts_well_formed [OF memory_rocks_sound, of small_contents "Inr ()" 1 small_catalog] by (auto simp: scanned_def)
qed

text \<open>
  C14: Reopening a well-formed catalog gives it back. While the database itself does not fail,
  every check of \<open>open_with_config\<close> accepts a database that a well-formed catalog has written, and
  the catalog it returns is the one that wrote it, name indexes included.
\<close>

theorem reopen_round_trip:
  assumes "rocks_sound api view" "rocks_reads api view" "catalog_ok view cat" "0 < maximum"
  shows "open_with_config api (Inr (ct_db cat)) (Inr path) maximum = Inr cat"
proof -
  obtain g where "catalog_holds view g cat" using assms(3) by (auto simp: catalog_ok_def)
  from reopen_reads [OF assms(1,2) this assms(4)] show ?thesis .
qed

theorem reopen_round_trip_witness:
  "open_with_config memory_rocks (Inr (ct_db small_catalog)) (Inr ()) 1 = Inr small_catalog"
  using reopen_round_trip [OF memory_rocks_sound memory_rocks_reads, of small_catalog 1 "()"] small_holds by (auto simp: catalog_ok_def)

section \<open>The routing-image pointer\<close>

text \<open>What a pointer is by its types: a string and a 32-byte checksum.\<close>

definition pointer_typed :: "active_routing_image \<Rightarrow> bool" where
  "pointer_typed p \<longleftrightarrow> utf8_valid (ai_relative_bundle p) \<and> length (ai_manifest_checksum p) = 32"

lemma pointer_decode_encode:
  assumes "pointer_typed p" "encode_active_routing_image p = Inr bs"
  shows "decode_active_routing_image bs = Inr p"
proof -
  have len: "length (ai_relative_bundle p) \<le> U32_MAX"
    and bs: "bs = u32_to_le_bytes (word_of_nat (length (ai_relative_bundle p))) @ ai_relative_bundle p @ ai_manifest_checksum p"
    using assms(2) by (auto simp: encode_active_routing_image_def Let_def split: if_splits)
  let ?n = "length (ai_relative_bundle p)"
  have le: "length (u32_to_le_bytes w) = 4" "u32_from_le_bytes (u32_to_le_bytes w) = w" for w
    by (simp_all add: u32_to_le_bytes_def u32_from_le_bytes_def)
  have n: "unat (word_of_nat ?n :: u32) = ?n" using len by (simp add: unat_of_nat U32_MAX_def)
  have "take 4 bs = u32_to_le_bytes (word_of_nat ?n)" "length bs = 4 + ?n + 32" "take ?n (drop 4 bs) = ai_relative_bundle p"
    "drop (4 + ?n) bs = ai_manifest_checksum p"
    using assms(1) le by (simp_all add: bs pointer_typed_def)
  then show ?thesis
    using assms(1) len
    by (simp add: decode_active_routing_image_def Let_def le n checked_add_def pointer_typed_def U32_MAX_def U64_MAX_def)
qed

lemma graph_ok_pointer:
  assumes "graph_ok g" "\<And>bs. p = Some bs \<Longrightarrow> is_ok (decode_active_routing_image bs)"
  shows "graph_ok (g\<lparr>gr_pointer := p\<rparr>)"
proof -
  have "node_reference_ok (g\<lparr>gr_pointer := p\<rparr>) n \<longleftrightarrow> node_reference_ok g n"
    "relation_reference_ok (g\<lparr>gr_pointer := p\<rparr>) r \<longleftrightarrow> relation_reference_ok g r" for n r
    by (cases n; simp) (cases r; simp)
  then have "dependencies_ok (g\<lparr>gr_pointer := p\<rparr>) c \<longleftrightarrow> dependencies_ok g c" for c by (cases c) simp_all
  then show ?thesis
    using assms by (simp add: graph_ok_def records_ok_def finite_graph_def references_ok_def counts_ok_def counters_ok_def pointer_ok_def)
qed

lemma change_pointer_holds:
  assumes "rocks_sound api view" "catalog_holds view g cat" "commit_batch api [op] cat = (Inr u, cat')"
    and "stored_graph (g\<lparr>gr_pointer := p\<rparr>) (store_ops [op] (store_of (view (ct_db cat))))"
    and "\<And>bs. p = Some bs \<Longrightarrow> is_ok (decode_active_routing_image bs)"
  shows "catalog_holds view (g\<lparr>gr_pointer := p\<rparr>) cat'"
proof (rule committed_holds [OF assms(1-4)])
  show "graph_ok (g\<lparr>gr_pointer := p\<rparr>)"
    by (rule graph_ok_pointer) (use assms(2,5) in \<open>simp_all add: catalog_holds_def\<close>)
  show "indexes_ok (g\<lparr>gr_pointer := p\<rparr>) (ct_node_names cat') (ct_relation_names cat')"
    using assms(2) commit_batch_Inr [OF assms(1,3)] by (simp add: catalog_holds_def indexes_ok_def names_node_def names_relation_def)
qed simp_all

lemma set_pointer_holds:
  assumes "rocks_sound api view" "catalog_holds view g cat" "pointer_typed p"
    and "set_active_routing_image api p cat = (Inr u, cat')"
  shows "\<exists>bs. encode_active_routing_image p = Inr bs \<and> catalog_holds view (g\<lparr>gr_pointer := Some bs\<rparr>) cat'"
proof -
  from assms(4) obtain bs where bs: "encode_active_routing_image p = Inr bs"
      "commit_batch api [Put DEFAULT (ascii META_ACTIVE_ROUTING_IMAGE) bs] cat = (Inr u, cat')"
    by (auto simp: set_active_routing_image_def fail_def split: sum.splits)
  have "catalog_holds view (g\<lparr>gr_pointer := Some bs\<rparr>) cat'"
    using metadata_steps(6) [OF catalog_holds_stored [OF assms(2)], of bs] pointer_decode_encode [OF assms(3) bs(1)]
    by (intro change_pointer_holds [OF assms(1,2) bs(2)]) simp_all
  with bs(1) show ?thesis by blast
qed

lemma clear_pointer_holds:
  assumes "rocks_sound api view" "catalog_holds view g cat" "clear_active_routing_image api cat = (Inr u, cat')"
  shows "catalog_holds view (g\<lparr>gr_pointer := None\<rparr>) cat'"
  using metadata_steps(5) [OF catalog_holds_stored [OF assms(2)]]
  by (intro change_pointer_holds [OF assms(1,2) assms(3) [unfolded clear_active_routing_image_def]]) simp_all

lemma pointer_failed:
  assumes "rocks_sound api view" "set_active_routing_image api p cat = (Inl f, cat') \<or> clear_active_routing_image api cat = (Inl f, cat')"
  shows "unchanged view cat cat'"
  using assms(2) commit_batch_Inl [OF assms(1)]
  by (auto simp: set_active_routing_image_def clear_active_routing_image_def unchanged_def split: sum.splits)

section \<open>Histories\<close>

text \<open>The operations that change a catalog, whatever they return. Each runs under the write lock.\<close>

inductive catalog_step :: "'db rocks \<Rightarrow> reserve \<Rightarrow> (edge_record list \<Rightarrow> edge_record list) \<Rightarrow> 'db catalog \<Rightarrow> 'db catalog \<Rightarrow> bool"
  for api reserve order where
  step_insert: "(\<forall>e \<in> set entries. entry_typed e) \<Longrightarrow> insert_candidate_batch api reserve entries cat = (r, cat') \<Longrightarrow>
     catalog_step api reserve order cat cat'"
| step_confirm: "confirm_candidate_batch_with_response_limit api reserve cids maximum cat = (c, cat') \<Longrightarrow>
     catalog_step api reserve order cat cat'"
| step_remove_edge: "remove_edge api i cat = (d, cat') \<Longrightarrow> catalog_step api reserve order cat cat'"
| step_remove_node: "remove_node api order n cat = (d, cat') \<Longrightarrow> catalog_step api reserve order cat cat'"
| step_set_pointer: "pointer_typed p \<Longrightarrow> set_active_routing_image api p cat = (u, cat') \<Longrightarrow> catalog_step api reserve order cat cat'"
| step_clear_pointer: "clear_active_routing_image api cat = (u, cat') \<Longrightarrow> catalog_step api reserve order cat cat'"

lemma catalog_step_ok:
  assumes "catalog_step api reserve order cat cat'" "rocks_sound api view" "visits order" "catalog_ok view cat"
  shows "catalog_ok view cat'"
proof -
  obtain g where g: "catalog_holds view g cat" using assms(4) by (auto simp: catalog_ok_def)
  have same: "catalog_ok view cat'" if "unchanged view cat cat'" using unchanged_holds [OF that g] by (auto simp: catalog_ok_def)
  from assms(1) show ?thesis
  proof cases
    case (step_insert entries r)
    show ?thesis
    proof (cases r)
      case (Inr result)
      have "insert_candidate_batch api reserve entries cat = (Inr result, cat')" using step_insert Inr by simp
      then show ?thesis
        by (rule insert_candidate_batch_holds [OF assms(2) g, rotated]) (use step_insert in \<open>auto simp: catalog_ok_def\<close>)
    qed (use step_insert insert_failed [OF assms(2)] same in blast)
  next
    case (step_confirm cids maximum c)
    show ?thesis
    proof (cases c)
      case (Inr result)
      have "confirm_candidate_batch_with_response_limit api reserve cids maximum cat = (Inr result, cat')" using step_confirm Inr by simp
      then show ?thesis by (rule confirm_holds [OF assms(2) g]) (auto simp: catalog_ok_def)
    qed (use step_confirm confirm_failed [OF assms(2) g] same in blast)
  next
    case (step_remove_edge i d)
    show ?thesis
    proof (cases d)
      case (Inr result)
      have "remove_edge api i cat = (Inr result, cat')" using step_remove_edge Inr by simp
      then show ?thesis by (rule remove_edge_holds [OF assms(2) g]) (auto simp: catalog_ok_def)
    qed (use step_remove_edge remove_edge_failed [OF assms(2)] same in blast)
  next
    case (step_remove_node n d)
    show ?thesis
    proof (cases d)
      case (Inr result)
      have "remove_node api order n cat = (Inr result, cat')" using step_remove_node Inr by simp
      then show ?thesis by (rule remove_node_holds [OF assms(2,3) g]) (auto simp: catalog_ok_def)
    qed (use step_remove_node remove_node_failed [OF assms(2)] same in blast)
  next
    case (step_set_pointer p u)
    then show ?thesis
      using pointer_failed [OF assms(2)] same set_pointer_holds [OF assms(2) g] unfolding catalog_ok_def by (cases u) blast+
  next
    case (step_clear_pointer u)
    then show ?thesis
      using pointer_failed [OF assms(2)] same clear_pointer_holds [OF assms(2) g] unfolding catalog_ok_def by (cases u) blast+
  qed
qed

interpretation catalog: invariant_system cat0 "catalog_step api reserve order"
  "\<lambda>cat. rocks_sound api view \<and> visits order \<and> catalog_ok view cat0 \<longrightarrow> catalog_ok view cat"
  by unfold_locales (use catalog_step_ok in blast)+

text \<open>
  C6: The catalog invariant holds through every history. From a catalog that was opened from any
  files, after any sequence of insertions, confirmations, removals and routing-image publications,
  successful or failed, the catalog is well formed, and while the database does not fail to read,
  closing it and opening its files again gives back the very same catalog.
\<close>

theorem catalog_history_reopens:
  assumes "rocks_sound api view" "rocks_reads api view" "visits order" "contents_ok (view db)" "addressable_contents (view db)"
    and "open_with_config api (Inr db) canonical maximum = Inr cat0" "reach cat0 (catalog_step api reserve order) cat"
    and "0 < maximum'"
  shows "catalog_ok view cat \<and> open_with_config api (Inr (ct_db cat)) (Inr path) maximum' = Inr cat"
proof -
  have "scanned api view db" using assms(1,4,5) by (simp add: scanned_def)
  from open_holds [OF this assms(6)] have "catalog_ok view cat0" by (auto simp: catalog_ok_def)
  then have "catalog_ok view cat" using catalog.reach_inv [OF assms(7)] assms(1,3) by blast
  then show ?thesis using reopen_reads [OF assms(1,2) _ assms(8)] by (auto simp: catalog_ok_def)
qed

theorem catalog_history_reopens_witness:
  "\<exists>cat. reach small_catalog (catalog_step memory_rocks (\<lambda>_ _. True) (\<lambda>es. es)) cat \<and> cat \<noteq> small_catalog \<and>
     open_with_config memory_rocks (Inr (ct_db cat)) (Inr ()) 1 = Inr cat"
proof -
  have opened: "open_with_config memory_rocks (Inr small_contents) (Inr ()) 1 = Inr small_catalog"
    using reopen_reads [OF memory_rocks_sound memory_rocks_reads small_holds, of 1 "()"] by (simp add: small_db)
  have scanned: "scanned memory_rocks (\<lambda>db. db) small_contents"
    using reading_scanned(1) [OF small_reading] small_graph_ok by (simp add: graph_ok_def small_db)
  from remove_edge_succeeds [OF memory_rocks_sound memory_rocks_reads memory_rocks_writes small_holds small_fields(4)]
  obtain result cat where r: "remove_edge memory_rocks (EdgeId 1) small_catalog = (Inr result, cat)" by blast
  then have reach: "reach small_catalog (catalog_step memory_rocks (\<lambda>_ _. True) (\<lambda>es. es)) cat"
    by (intro reach_one step_remove_edge)
  have "cat \<noteq> small_catalog"
  proof
    assume "cat = small_catalog"
    with remove_edge_holds [OF memory_rocks_sound small_holds r] obtain e u where
      "catalog_holds (\<lambda>db. db) (graph_without_edge e u small_graph) small_catalog" "gr_edges small_graph (EdgeId 1) = Some e" by metis
    moreover from this have "gr_edges (graph_without_edge e u small_graph) (EdgeId 1) = None"
      by (simp add: small_fields) (auto simp: graph_without_edge_def settle_relation_def graph_change_defs small_edge_def)
    ultimately show False
      using stores_get(3) [of small_graph "store_of small_contents" "EdgeId 1"]
        stores_get(3) [of "graph_without_edge e u small_graph" "store_of small_contents" "EdgeId 1"] small_holds
      by (simp add: catalog_holds_def small_db)
  qed
  moreover have "visits (\<lambda>es. es)" by (simp add: visits_def)
  ultimately show ?thesis
    using catalog_history_reopens [OF memory_rocks_sound memory_rocks_reads _ _ _ opened reach, of 1 "()"] scanned reach
    by (auto simp: scanned_def)
qed

end
