(* ===== verification/Bundle_Codec.thy ===== *)
theory Bundle_Codec
  imports Catalog_Reads Routing_Image
begin

text \<open>
  \<^verbatim>\<open>pathhydra-routing/src/bundle/codec.rs\<close>, \<^verbatim>\<open>layout.rs\<close> and \<^verbatim>\<open>manifest.rs\<close>: little-endian fields, the
  bounds-checked decoder, and the manifest of an on-disk routing bundle. The locale \<open>field\<close> is the
  contract of a field reader: it accepts exactly the bytes its writer produces. The manifest
  decoder accepts exactly the encodings of well-formed manifests.
\<close>

section \<open>Errors\<close>

text \<open>An I/O error of the standard library: its kind and its message.\<close>

datatype io_kind = NotFound | AlreadyExists | UnexpectedEof | OtherKind

datatype file_error = FileError (fe_kind: io_kind) (fe_message: string)

datatype bundle_error =
    BundleIo file_error
  | BundleStore catalog_error
  | BundleInvalid string
  | BundleLimit string nat nat
  | BundleRouting routing_error

type_synonym 'a bundled = "bundle_error fault + 'a"

definition invalid :: "string \<Rightarrow> 'a bundled" where
  "invalid reason = Inl (Failed (BundleInvalid reason))"

lemma invalid_Inr [simp]: "invalid reason \<noteq> Inr x" "Inr x \<noteq> invalid reason"
  by (simp_all add: invalid_def)

text \<open>The \<^verbatim>\<open>Display\<close> texts that the code stores and inspects. How a catalog error is displayed is an
  argument: it quotes names in Rust's debug syntax.\<close>

fun compile_error_display :: "compile_error \<Rightarrow> string" where
  "compile_error_display (TooManyNodes n) =
     nat_display n @ '' nodes cannot be represented by the routing image's u32 dense IDs''"
| "compile_error_display (DuplicateNodeId i) = ''duplicate node ID '' @ node_id_display i"
| "compile_error_display (DuplicateRelationId i) = ''duplicate relation ID '' @ relation_id_display i"
| "compile_error_display (DuplicateEdgeId i) = ''duplicate edge ID '' @ edge_id_display i"
| "compile_error_display (MissingEndpoint e n) =
     ''edge '' @ edge_id_display e @ '' names missing endpoint node '' @ node_id_display n"
| "compile_error_display (MissingRelationKind e r) =
     ''edge '' @ edge_id_display e @ '' names missing relation kind '' @ relation_id_display r"
| "compile_error_display (CompileInvalidBaseWeight e) =
     ''edge '' @ edge_id_display e @ '' has a noncanonical base weight''"
| "compile_error_display (CountOverflow s) = ''routing image '' @ s @ '' count overflow''"
| "compile_error_display (TopologyLimitExceeded required limit) =
     ''routing image requires '' @ nat_display required @ '' logical payload bytes; limit is '' @ nat_display limit"
| "compile_error_display (CompileAllocationFailed s) = ''routing image could not reserve '' @ s"
| "compile_error_display (InvalidImage reason) = ''invalid routing image: '' @ reason"

fun profile_error_display :: "profile_error \<Rightarrow> string" where
  "profile_error_display (DuplicateRelation i) = ''duplicate profile entry for '' @ relation_id_display i"
| "profile_error_display (MissingRelation i) = ''missing profile entry for '' @ relation_id_display i"
| "profile_error_display (UnknownRelation i) = ''profile names unconfirmed relation '' @ relation_id_display i"
| "profile_error_display ProfileAllocationFailed = ''profile allocation failed''"

fun arithmetic_error_display :: "arithmetic_error \<Rightarrow> string" where
  "arithmetic_error_display (ArithmeticError EffectiveWeight) = ''non-finite EffectiveWeight routing arithmetic''"
| "arithmetic_error_display (ArithmeticError PathAddition) = ''non-finite PathAddition routing arithmetic''"

fun routing_error_display :: "routing_error \<Rightarrow> string" where
  "routing_error_display (MissingOrigin i) = ''origin node '' @ node_id_display i @ '' is not in the image''"
| "routing_error_display (InvalidProfile e) = profile_error_display e"
| "routing_error_display (Arithmetic e) = arithmetic_error_display e"
| "routing_error_display ResourceEstimateOverflow = ''CPU routing working-set estimate overflow''"
| "routing_error_display (RoutingAllocationFailed s) = ''CPU routing could not reserve '' @ s"
| "routing_error_display (InternalInvariant reason) = ''routing internal invariant failed: '' @ reason"
| "routing_error_display (ImageAccess reason) = ''routing image access failed: '' @ reason"

fun bundle_error_display :: "(catalog_error \<Rightarrow> string) \<Rightarrow> bundle_error \<Rightarrow> string" where
  "bundle_error_display show_catalog (BundleIo e) = ''routing bundle I/O failure: '' @ fe_message e"
| "bundle_error_display show_catalog (BundleStore e) = ''confirmed graph scan failed: '' @ show_catalog e"
| "bundle_error_display show_catalog (BundleInvalid reason) = ''invalid routing bundle: '' @ reason"
| "bundle_error_display show_catalog (BundleLimit resource required limit) =
     ''routing bundle '' @ resource @ '' requires '' @ nat_display required @ '' bytes; limit is '' @ nat_display limit"
| "bundle_error_display show_catalog (BundleRouting e) = routing_error_display e"

section \<open>Fields\<close>

definition u64_to_le_bytes :: "u64 \<Rightarrow> bytes" where
  "u64_to_le_bytes v = rev (u64_to_be_bytes v)"

definition u64_from_le_bytes :: "bytes \<Rightarrow> u64" where
  "u64_from_le_bytes bs = u64_from_be_bytes (rev bs)"

definition put_u32 :: "bytes \<Rightarrow> u32 \<Rightarrow> bytes" where
  "put_u32 out v = out @ u32_to_le_bytes v"

definition put_u64 :: "bytes \<Rightarrow> u64 \<Rightarrow> bytes" where
  "put_u64 out v = out @ u64_to_le_bytes v"

definition put_string :: "bytes \<Rightarrow> bytes \<Rightarrow> bytes bundled" where
  "put_string out v =
     (if length v > U32_MAX then invalid ''policy identifier is too long''
      else Inr (put_u32 out (word_of_nat (length v)) @ v))"

record decoder =
  dc_bytes :: bytes
  dc_offset :: nat

definition decoder_new :: "bytes \<Rightarrow> decoder" where
  "decoder_new bs = \<lparr>dc_bytes = bs, dc_offset = 0\<rparr>"

definition decoder_take :: "nat \<Rightarrow> decoder \<Rightarrow> (bytes \<times> decoder) bundled" where
  "decoder_take count d =
     rbind (ok_or (checked_add (dc_offset d) count) (Failed (BundleInvalid ''byte offset overflow''))) (\<lambda>stop.
     if stop \<le> length (dc_bytes d)
     then Inr (take count (drop (dc_offset d) (dc_bytes d)), d\<lparr>dc_offset := stop\<rparr>)
     else invalid ''truncated field'')"

definition decoder_u32 :: "decoder \<Rightarrow> (u32 \<times> decoder) bundled" where
  "decoder_u32 d = rbind (decoder_take 4 d) (\<lambda>(bs, d). Inr (u32_from_le_bytes bs, d))"

definition decoder_u64 :: "decoder \<Rightarrow> (u64 \<times> decoder) bundled" where
  "decoder_u64 d = rbind (decoder_take 8 d) (\<lambda>(bs, d). Inr (u64_from_le_bytes bs, d))"

definition decoder_checksum :: "decoder \<Rightarrow> (bytes \<times> decoder) bundled" where
  "decoder_checksum d = decoder_take 32 d"

definition decoder_string :: "decoder \<Rightarrow> (bytes \<times> decoder) bundled" where
  "decoder_string d =
     rbind (decoder_u32 d) (\<lambda>(n, d).
     rbind (decoder_take (unat n) d) (\<lambda>(bs, d).
     if utf8_valid bs then Inr (bs, d) else invalid ''policy identifier is not UTF-8''))"

definition decoder_finish :: "decoder \<Rightarrow> unit bundled" where
  "decoder_finish d =
     (if dc_offset d = length (dc_bytes d) then Inr () else invalid ''manifest has trailing bytes'')"

section \<open>Descriptors\<close>

record segment_descriptor =
  sd_source :: u32
  sd_partition :: u32
  sd_local_segment :: u32
  sd_first_edge_ordinal :: u64
  sd_edge_count :: u32

record partition_descriptor =
  pt_id :: u32
  pt_topology_offset :: u64
  pt_topology_length :: u64
  pt_topology_checksum :: bytes
  pt_evidence_offset :: u64
  pt_evidence_length :: u64
  pt_evidence_checksum :: bytes
  pt_segment_count :: u32
  pt_edge_count :: u64

definition SEGMENT_ENCODED_BYTES :: nat where "SEGMENT_ENCODED_BYTES = 24"
definition EDGE_TOPOLOGY_BYTES :: nat where "EDGE_TOPOLOGY_BYTES = 12"
definition PARTITION_HEADER_BYTES :: nat where "PARTITION_HEADER_BYTES = 12"

definition MIN_NONEMPTY_PARTITION_BYTES :: nat where
  "MIN_NONEMPTY_PARTITION_BYTES = PARTITION_HEADER_BYTES + SEGMENT_ENCODED_BYTES + EDGE_TOPOLOGY_BYTES"

record file_descriptor =
  fd_length :: u64
  fd_checksum :: bytes

record bundle_manifest =
  bm_numeric_policy :: bytes
  bm_tie_policy :: bytes
  bm_node_count :: u64
  bm_relation_kind_count :: u64
  bm_adjacency_count :: u64
  bm_segment_count :: u64
  bm_target_partition_bytes :: u64
  bm_hard_maximum_partition_bytes :: u64
  bm_identities :: file_descriptor
  bm_source_directory :: file_descriptor
  bm_topology :: file_descriptor
  bm_evidence :: file_descriptor
  bm_partitions :: "partition_descriptor list"

section \<open>The manifest\<close>

definition element_width_words :: "u32 list" where
  "element_width_words = [8, 8, 8, 4, 4, 4, 8]"

definition put_file :: "bytes \<Rightarrow> file_descriptor \<Rightarrow> bytes" where
  "put_file out f = put_u64 out (fd_length f) @ fd_checksum f"

definition put_partition :: "bytes \<Rightarrow> partition_descriptor \<Rightarrow> bytes" where
  "put_partition out p =
     (let out = put_u32 out (pt_id p);
          out = put_u64 out (pt_topology_offset p);
          out = put_u64 out (pt_topology_length p);
          out = out @ pt_topology_checksum p;
          out = put_u64 out (pt_evidence_offset p);
          out = put_u64 out (pt_evidence_length p);
          out = out @ pt_evidence_checksum p;
          out = put_u32 out (pt_segment_count p)
      in put_u64 out (pt_edge_count p))"

definition manifest_encode :: "bundle_manifest \<Rightarrow> bytes bundled" where
  "manifest_encode m =
     rbind (put_string [] (bm_numeric_policy m)) (\<lambda>out.
     rbind (put_string out (bm_tie_policy m)) (\<lambda>out.
     let out = foldl put_u64 out [bm_node_count m, bm_relation_kind_count m, bm_adjacency_count m,
           bm_segment_count m, bm_target_partition_bytes m, bm_hard_maximum_partition_bytes m];
         out = foldl put_u32 out element_width_words;
         out = foldl put_file out [bm_identities m, bm_source_directory m, bm_topology m, bm_evidence m]
     in if length (bm_partitions m) > U64_MAX then invalid ''partition count overflow''
        else Inr (foldl put_partition (put_u64 out (word_of_nat (length (bm_partitions m)))) (bm_partitions m))))"

definition check_width :: "u32 \<Rightarrow> decoder \<Rightarrow> decoder bundled" where
  "check_width width d = rbind (decoder_u32 d) (\<lambda>(w, d).
     if w \<noteq> width then invalid ''unsupported element width'' else Inr d)"

definition read_file :: "decoder \<Rightarrow> (file_descriptor \<times> decoder) bundled" where
  "read_file d =
     rbind (decoder_u64 d) (\<lambda>(len, d).
     rbind (decoder_checksum d) (\<lambda>(checksum, d).
     Inr (\<lparr>fd_length = len, fd_checksum = checksum\<rparr>, d)))"

definition read_partition :: "nat \<Rightarrow> decoder \<Rightarrow> (partition_descriptor \<times> decoder) bundled" where
  "read_partition expected_id d =
     rbind (decoder_u32 d) (\<lambda>(i, d).
     if unat i \<noteq> expected_id then invalid ''partition IDs are not dense''
     else
     rbind (decoder_u64 d) (\<lambda>(topology_offset, d).
     rbind (decoder_u64 d) (\<lambda>(topology_length, d).
     rbind (decoder_checksum d) (\<lambda>(topology_checksum, d).
     rbind (decoder_u64 d) (\<lambda>(evidence_offset, d).
     rbind (decoder_u64 d) (\<lambda>(evidence_length, d).
     rbind (decoder_checksum d) (\<lambda>(evidence_checksum, d).
     rbind (decoder_u32 d) (\<lambda>(segment_count, d).
     rbind (decoder_u64 d) (\<lambda>(edge_count, d).
     Inr (\<lparr>pt_id = i, pt_topology_offset = topology_offset, pt_topology_length = topology_length,
           pt_topology_checksum = topology_checksum, pt_evidence_offset = evidence_offset,
           pt_evidence_length = evidence_length, pt_evidence_checksum = evidence_checksum,
           pt_segment_count = segment_count, pt_edge_count = edge_count\<rparr>, d))))))))))"

text \<open>Reading a field for each index of a range, in order.\<close>

fun read_each :: "(nat \<Rightarrow> decoder \<Rightarrow> ('a \<times> decoder) bundled) \<Rightarrow> nat \<Rightarrow> nat \<Rightarrow> decoder \<Rightarrow> ('a list \<times> decoder) bundled" where
  "read_each f start 0 d = Inr ([], d)"
| "read_each f start (Suc count) d =
     rbind (f start d) (\<lambda>(x, d).
     rbind (read_each f (Suc start) count d) (\<lambda>(xs, d). Inr (x # xs, d)))"

definition manifest_decode :: "reserve \<Rightarrow> bytes \<Rightarrow> bundle_manifest bundled" where
  "manifest_decode reserve bs =
     rbind (decoder_string (decoder_new bs)) (\<lambda>(numeric_policy, d).
     rbind (decoder_string d) (\<lambda>(tie_policy, d).
     if numeric_policy \<noteq> ascii NUMERIC_POLICY_ID \<or> tie_policy \<noteq> ascii TIE_POLICY_ID
     then invalid ''unknown numeric or tie policy''
     else
     rbind (decoder_u64 d) (\<lambda>(node_count, d).
     rbind (decoder_u64 d) (\<lambda>(relation_kind_count, d).
     rbind (decoder_u64 d) (\<lambda>(adjacency_count, d).
     rbind (decoder_u64 d) (\<lambda>(segment_count, d).
     rbind (decoder_u64 d) (\<lambda>(target_partition_bytes, d).
     rbind (decoder_u64 d) (\<lambda>(hard_maximum_partition_bytes, d).
     rbind (fold_result check_width element_width_words d) (\<lambda>d.
     rbind (read_file d) (\<lambda>(identities, d).
     rbind (read_file d) (\<lambda>(source_directory, d).
     rbind (read_file d) (\<lambda>(topology, d).
     rbind (read_file d) (\<lambda>(evidence, d).
     rbind (decoder_u64 d) (\<lambda>(count, d).
     if \<not> reserve ''partitions'' (unat count) then invalid ''partition allocation failed''
     else
     rbind (read_each read_partition 0 (unat count) d) (\<lambda>(partitions, d).
     rbind (decoder_finish d) (\<lambda>_.
     Inr \<lparr>bm_numeric_policy = numeric_policy, bm_tie_policy = tie_policy, bm_node_count = node_count,
          bm_relation_kind_count = relation_kind_count, bm_adjacency_count = adjacency_count,
          bm_segment_count = segment_count, bm_target_partition_bytes = target_partition_bytes,
          bm_hard_maximum_partition_bytes = hard_maximum_partition_bytes, bm_identities = identities,
          bm_source_directory = source_directory, bm_topology = topology, bm_evidence = evidence,
          bm_partitions = partitions\<rparr>))))))))))))))))"

section \<open>The decoder on a split input\<close>

definition dcr :: "bytes \<Rightarrow> bytes \<Rightarrow> decoder" where
  "dcr pre rest = \<lparr>dc_bytes = pre @ rest, dc_offset = length pre\<rparr>"

lemma decoder_new_dcr: "decoder_new bs = dcr [] bs"
  by (simp add: decoder_new_def dcr_def)

lemma decoder_finish_dcr [simp]: "decoder_finish (dcr pre rest) = Inr u \<longleftrightarrow> rest = []"
  by (simp add: decoder_finish_def dcr_def)

lemma decoder_finish_all [simp]: "decoder_finish (dcr pre []) = Inr ()"
  by simp

lemma length_to_le_bytes [simp]: "length (u64_to_le_bytes v) = 8" "length (u32_to_le_bytes w) = 4"
  by (simp_all add: u64_to_le_bytes_def u32_to_le_bytes_def)

lemma u64_le_inverse: "length bs = 8 \<Longrightarrow> u64_to_le_bytes (u64_from_le_bytes bs) = bs"
  by (simp add: u64_to_le_bytes_def u64_from_le_bytes_def u64_be_inverse)

lemma u32_le_inverse: "length bs = 4 \<Longrightarrow> u32_to_le_bytes (u32_from_le_bytes bs) = bs"
  by (simp add: u32_to_le_bytes_def u32_from_le_bytes_def u32_be_inverse)

lemma le_roundtrip [simp]: "u64_from_le_bytes (u64_to_le_bytes v) = v" "u32_from_le_bytes (u32_to_le_bytes w) = w"
  by (simp_all add: u64_to_le_bytes_def u64_from_le_bytes_def u32_to_le_bytes_def u32_from_le_bytes_def)

lemma decoder_take_iff:
  assumes "addressable (pre @ rest)"
  shows "decoder_take n (dcr pre rest) = Inr (v, d) \<longleftrightarrow>
    length v = n \<and> (\<exists>rest'. rest = v @ rest' \<and> d = dcr (pre @ v) rest')"
proof
  assume "decoder_take n (dcr pre rest) = Inr (v, d)"
  then have "n \<le> length rest" "v = take n rest" "d = dcr (pre @ v) (drop n rest)"
    by (auto simp: decoder_take_def dcr_def checked_add_Some_iff rbind_Inr_iff split: if_splits)
  then show "length v = n \<and> (\<exists>rest'. rest = v @ rest' \<and> d = dcr (pre @ v) rest')"
    by (auto intro!: exI [of _ "drop n rest"])
next
  assume "length v = n \<and> (\<exists>rest'. rest = v @ rest' \<and> d = dcr (pre @ v) rest')"
  with assms show "decoder_take n (dcr pre rest) = Inr (v, d)"
    by (auto simp: decoder_take_def dcr_def checked_add_def addressable_def)
qed

lemma decoder_take_written:
  "addressable (pre @ v @ rest) \<Longrightarrow> decoder_take (length v) (dcr pre (v @ rest)) = Inr (v, dcr (pre @ v) rest)"
  by (simp add: decoder_take_iff)

text \<open>The contract of a field: its reader accepts exactly what its writer produces.\<close>

locale field =
  fixes read :: "decoder \<Rightarrow> ('a \<times> decoder) bundled" and enc :: "'a \<Rightarrow> bytes" and ok :: "'a \<Rightarrow> bool"
  assumes read_iff: "addressable (pre @ rest) \<Longrightarrow> read (dcr pre rest) = Inr (v, d) \<longleftrightarrow>
    ok v \<and> (\<exists>rest'. rest = enc v @ rest' \<and> d = dcr (pre @ enc v) rest')"
begin

lemma read_written:
  assumes "addressable (pre @ enc v @ rest)" "ok v"
  shows "read (dcr pre (enc v @ rest)) = Inr (v, dcr (pre @ enc v) rest)"
  using read_iff [OF assms(1)] assms(2) by blast

lemma read_rbind:
  assumes "addressable (pre @ rest)"
  shows "rbind (read (dcr pre rest)) f = Inr y \<longleftrightarrow>
    (\<exists>v rest'. ok v \<and> rest = enc v @ rest' \<and> f (v, dcr (pre @ enc v) rest') = Inr y)"
  using read_iff [OF assms] by (auto simp: rbind_Inr_iff)

lemma each_iff:
  "addressable (pre @ rest) \<Longrightarrow>
   read_each (\<lambda>_. read) start n (dcr pre rest) = Inr (vs, d) \<longleftrightarrow>
     length vs = n \<and> (\<forall>v \<in> set vs. ok v) \<and>
     (\<exists>rest'. rest = concat (map enc vs) @ rest' \<and> d = dcr (pre @ concat (map enc vs)) rest')"
proof (induction n arbitrary: start pre rest vs)
  case (Suc n)
  show ?case
  proof
    assume "read_each (\<lambda>_. read) start (Suc n) (dcr pre rest) = Inr (vs, d)"
    then obtain v rest1 ws where v: "ok v" "rest = enc v @ rest1" "vs = v # ws"
        "read_each (\<lambda>_. read) (Suc start) n (dcr (pre @ enc v) rest1) = Inr (ws, d)"
      using Suc.prems by (auto simp: read_iff rbind_Inr_iff)
    have "addressable ((pre @ enc v) @ rest1)" using Suc.prems v(2) by simp
    from Suc.IH [OF this] v show "length vs = Suc n \<and> (\<forall>v \<in> set vs. ok v) \<and>
        (\<exists>rest'. rest = concat (map enc vs) @ rest' \<and> d = dcr (pre @ concat (map enc vs)) rest')"
      by auto
  next
    assume *: "length vs = Suc n \<and> (\<forall>v \<in> set vs. ok v) \<and>
        (\<exists>rest'. rest = concat (map enc vs) @ rest' \<and> d = dcr (pre @ concat (map enc vs)) rest')"
    then obtain v ws rest' where v: "vs = v # ws" "ok v" "rest = enc v @ concat (map enc ws) @ rest'"
      "d = dcr (pre @ concat (map enc vs)) rest'"
      by (cases vs) auto
    have a: "addressable ((pre @ enc v) @ concat (map enc ws) @ rest')" using Suc.prems v(3) by simp
    have "read_each (\<lambda>_. read) (Suc start) n (dcr (pre @ enc v) (concat (map enc ws) @ rest')) = Inr (ws, d)"
      using * v by (subst Suc.IH [OF a]) auto
    with Suc.prems v show "read_each (\<lambda>_. read) start (Suc n) (dcr pre rest) = Inr (vs, d)"
      by (simp add: read_written)
  qed
qed auto

lemma each_written:
  assumes "addressable (pre @ concat (map enc vs) @ rest)" "\<forall>v \<in> set vs. ok v" "length vs = n"
  shows "read_each (\<lambda>_. read) start n (dcr pre (concat (map enc vs) @ rest)) = Inr (vs, dcr (pre @ concat (map enc vs)) rest)"
  using assms by (subst each_iff) auto

end

interpretation u32_field: field decoder_u32 u32_to_le_bytes "\<lambda>_. True"
proof
  fix pre rest :: bytes and v d assume "addressable (pre @ rest)"
  then show "decoder_u32 (dcr pre rest) = Inr (v, d) \<longleftrightarrow>
      True \<and> (\<exists>rest'. rest = u32_to_le_bytes v @ rest' \<and> d = dcr (pre @ u32_to_le_bytes v) rest')"
    by (auto simp: decoder_u32_def rbind_Inr_iff decoder_take_iff u32_le_inverse)
      (force simp: decoder_take_iff)
qed

interpretation u64_field: field decoder_u64 u64_to_le_bytes "\<lambda>_. True"
proof
  fix pre rest :: bytes and v d assume "addressable (pre @ rest)"
  then show "decoder_u64 (dcr pre rest) = Inr (v, d) \<longleftrightarrow>
      True \<and> (\<exists>rest'. rest = u64_to_le_bytes v @ rest' \<and> d = dcr (pre @ u64_to_le_bytes v) rest')"
    by (auto simp: decoder_u64_def rbind_Inr_iff decoder_take_iff u64_le_inverse)
      (force simp: decoder_take_iff)
qed

interpretation checksum_field: field decoder_checksum "\<lambda>bs. bs" "\<lambda>bs. length bs = 32"
  by standard (simp add: decoder_checksum_def decoder_take_iff)

definition counted_le :: "bytes \<Rightarrow> bytes" where
  "counted_le v = u32_to_le_bytes (word_of_nat (length v)) @ v"

interpretation string_field: field decoder_string counted_le "\<lambda>v. utf8_valid v \<and> length v \<le> U32_MAX"
proof
  fix pre rest :: bytes and v d assume a: "addressable (pre @ rest)"
  show "decoder_string (dcr pre rest) = Inr (v, d) \<longleftrightarrow>
      (utf8_valid v \<and> length v \<le> U32_MAX) \<and> (\<exists>rest'. rest = counted_le v @ rest' \<and> d = dcr (pre @ counted_le v) rest')"
    (is "?L \<longleftrightarrow> ?R")
  proof
    assume ?L
    then obtain n rest1 rest2 where n: "rest = u32_to_le_bytes n @ rest1" "length v = unat n" "rest1 = v @ rest2"
        "d = dcr ((pre @ u32_to_le_bytes n) @ v) rest2" "utf8_valid v"
      using a by (auto simp: decoder_string_def u32_field.read_iff rbind_Inr_iff decoder_take_iff split: if_splits)
    have "unat n < 2 ^ 32" using unsigned_less [of n] by simp
    with n show ?R by (auto simp: counted_le_def U32_MAX_def)
  next
    assume R: ?R
    then have "unat (word_of_nat (length v) :: u32) = length v" by (auto simp: unat_of_nat U32_MAX_def)
    with R a show ?L
      by (auto simp: decoder_string_def counted_le_def u32_field.read_written decoder_take_written)
  qed
qed

lemmas fields_written = u32_field.read_written u64_field.read_written checksum_field.read_written
  string_field.read_written

section \<open>The manifest's layout\<close>

definition file_bytes :: "file_descriptor \<Rightarrow> bytes" where
  "file_bytes f = u64_to_le_bytes (fd_length f) @ fd_checksum f"

definition partition_bytes :: "partition_descriptor \<Rightarrow> bytes" where
  "partition_bytes p = u32_to_le_bytes (pt_id p) @ u64_to_le_bytes (pt_topology_offset p)
     @ u64_to_le_bytes (pt_topology_length p) @ pt_topology_checksum p @ u64_to_le_bytes (pt_evidence_offset p)
     @ u64_to_le_bytes (pt_evidence_length p) @ pt_evidence_checksum p @ u32_to_le_bytes (pt_segment_count p)
     @ u64_to_le_bytes (pt_edge_count p)"

definition file_typed :: "file_descriptor \<Rightarrow> bool" where
  "file_typed f \<longleftrightarrow> length (fd_checksum f) = 32"

definition partition_typed :: "partition_descriptor \<Rightarrow> bool" where
  "partition_typed p \<longleftrightarrow> length (pt_topology_checksum p) = 32 \<and> length (pt_evidence_checksum p) = 32"

definition manifest_layout :: "bundle_manifest \<Rightarrow> bytes" where
  "manifest_layout m = counted_le (bm_numeric_policy m) @ counted_le (bm_tie_policy m)
     @ u64_to_le_bytes (bm_node_count m) @ u64_to_le_bytes (bm_relation_kind_count m)
     @ u64_to_le_bytes (bm_adjacency_count m) @ u64_to_le_bytes (bm_segment_count m)
     @ u64_to_le_bytes (bm_target_partition_bytes m) @ u64_to_le_bytes (bm_hard_maximum_partition_bytes m)
     @ concat (map u32_to_le_bytes element_width_words)
     @ file_bytes (bm_identities m) @ file_bytes (bm_source_directory m)
     @ file_bytes (bm_topology m) @ file_bytes (bm_evidence m)
     @ u64_to_le_bytes (word_of_nat (length (bm_partitions m))) @ concat (map partition_bytes (bm_partitions m))"

text \<open>What a manifest must satisfy to be read back: the current policies, 32-byte checksums, and
  partitions numbered from zero.\<close>

definition manifest_ok :: "bundle_manifest \<Rightarrow> bool" where
  "manifest_ok m \<longleftrightarrow> bm_numeric_policy m = ascii NUMERIC_POLICY_ID \<and> bm_tie_policy m = ascii TIE_POLICY_ID
     \<and> file_typed (bm_identities m) \<and> file_typed (bm_source_directory m)
     \<and> file_typed (bm_topology m) \<and> file_typed (bm_evidence m)
     \<and> (\<forall>p \<in> set (bm_partitions m). partition_typed p)
     \<and> (\<forall>i < length (bm_partitions m). unat (pt_id (bm_partitions m ! i)) = i)"

interpretation file_field: field read_file file_bytes file_typed
proof
  fix pre rest :: bytes and v d assume a: "addressable (pre @ rest)"
  show "read_file (dcr pre rest) = Inr (v, d) \<longleftrightarrow>
      file_typed v \<and> (\<exists>rest'. rest = file_bytes v @ rest' \<and> d = dcr (pre @ file_bytes v) rest')"
    using a by (cases v)
      (auto simp: read_file_def rbind_Inr_iff u64_field.read_iff checksum_field.read_iff file_typed_def file_bytes_def)
qed

lemma read_partition_iff:
  assumes "addressable (pre @ rest)"
  shows "read_partition k (dcr pre rest) = Inr (p, d) \<longleftrightarrow> unat (pt_id p) = k \<and> partition_typed p
    \<and> (\<exists>rest'. rest = partition_bytes p @ rest' \<and> d = dcr (pre @ partition_bytes p) rest')"
    (is "?L \<longleftrightarrow> ?R")
proof
  assume ?L
  then show ?R
    using assms by (cases p)
      (auto simp: read_partition_def rbind_Inr_iff u64_field.read_iff u32_field.read_iff checksum_field.read_iff
        partition_typed_def partition_bytes_def split: if_splits)
next
  assume ?R
  then show ?L
    using assms by (cases p) (auto simp: read_partition_def fields_written partition_typed_def partition_bytes_def)
qed

lemma put_foldl:
  "foldl put_u64 out vs = out @ concat (map u64_to_le_bytes vs)"
  "foldl put_u32 out ws = out @ concat (map u32_to_le_bytes ws)"
  "foldl put_file out fs = out @ concat (map file_bytes fs)"
  "foldl put_partition out ps = out @ concat (map partition_bytes ps)"
  by (induction vs arbitrary: out, simp_all add: put_u64_def)
    (induction ws arbitrary: out, simp_all add: put_u32_def,
     induction fs arbitrary: out, simp_all add: put_file_def file_bytes_def put_u64_def,
     induction ps arbitrary: out, simp_all add: put_partition_def partition_bytes_def put_u32_def put_u64_def)

lemma manifest_encode_iff:
  "manifest_encode m = Inr bs \<longleftrightarrow> length (bm_numeric_policy m) \<le> U32_MAX \<and> length (bm_tie_policy m) \<le> U32_MAX
     \<and> length (bm_partitions m) \<le> U64_MAX \<and> bs = manifest_layout m"
  by (auto simp: manifest_encode_def put_string_def put_foldl Let_def manifest_layout_def counted_le_def
      put_u32_def put_u64_def put_file_def file_bytes_def rbind_Inr_iff split: if_splits)

lemma check_width_iff:
  "addressable (pre @ rest) \<Longrightarrow> check_width w (dcr pre rest) = Inr d \<longleftrightarrow>
     (\<exists>rest'. rest = u32_to_le_bytes w @ rest' \<and> d = dcr (pre @ u32_to_le_bytes w) rest')"
  by (auto simp: check_width_def rbind_Inr_iff u32_field.read_iff u32_field.read_written split: if_splits)

lemma check_widths_iff:
  "addressable (pre @ rest) \<Longrightarrow> fold_result check_width ws (dcr pre rest) = Inr d \<longleftrightarrow>
     (\<exists>rest'. rest = concat (map u32_to_le_bytes ws) @ rest' \<and> d = dcr (pre @ concat (map u32_to_le_bytes ws)) rest')"
proof (induction ws arbitrary: pre rest)
  case (Cons w ws)
  show ?case
  proof
    assume "fold_result check_width (w # ws) (dcr pre rest) = Inr d"
    then obtain rest1 where w: "rest = u32_to_le_bytes w @ rest1"
        "fold_result check_width ws (dcr (pre @ u32_to_le_bytes w) rest1) = Inr d"
      using Cons.prems by (auto simp: rbind_Inr_iff check_width_iff)
    have "addressable ((pre @ u32_to_le_bytes w) @ rest1)" using Cons.prems w(1) by simp
    from Cons.IH [OF this] w show "\<exists>rest'. rest = concat (map u32_to_le_bytes (w # ws)) @ rest'
        \<and> d = dcr (pre @ concat (map u32_to_le_bytes (w # ws))) rest'" by auto
  next
    assume "\<exists>rest'. rest = concat (map u32_to_le_bytes (w # ws)) @ rest' \<and> d = dcr (pre @ concat (map u32_to_le_bytes (w # ws))) rest'"
    then obtain rest' where r: "rest = u32_to_le_bytes w @ concat (map u32_to_le_bytes ws) @ rest'"
      "d = dcr (pre @ u32_to_le_bytes w @ concat (map u32_to_le_bytes ws)) rest'" by auto
    have "addressable ((pre @ u32_to_le_bytes w) @ concat (map u32_to_le_bytes ws) @ rest')" using Cons.prems r(1) by simp
    from Cons.IH [OF this] Cons.prems r show "fold_result check_width (w # ws) (dcr pre rest) = Inr d"
      by (auto simp: rbind_Inr_iff check_width_iff)
  qed
qed auto

lemma read_partitions_iff:
  "addressable (pre @ rest) \<Longrightarrow> read_each read_partition k n (dcr pre rest) = Inr (ps, d) \<longleftrightarrow>
     length ps = n \<and> (\<forall>p \<in> set ps. partition_typed p) \<and> (\<forall>i < n. unat (pt_id (ps ! i)) = k + i)
     \<and> (\<exists>rest'. rest = concat (map partition_bytes ps) @ rest' \<and> d = dcr (pre @ concat (map partition_bytes ps)) rest')"
proof (induction n arbitrary: k pre rest ps)
  case (Suc n)
  have ids: "(\<forall>i < Suc n. unat (pt_id ((q # qs) ! i)) = k + i) \<longleftrightarrow> unat (pt_id q) = k \<and> (\<forall>i < n. unat (pt_id (qs ! i)) = Suc k + i)"
    for q qs by (auto simp: less_Suc_eq_0_disj)
  show ?case (is "?L \<longleftrightarrow> ?R")
  proof
    assume ?L
    then obtain q qs rest1 where q: "unat (pt_id q) = k" "partition_typed q" "rest = partition_bytes q @ rest1" "ps = q # qs"
        "read_each read_partition (Suc k) n (dcr (pre @ partition_bytes q) rest1) = Inr (qs, d)"
      using Suc.prems by (auto simp: rbind_Inr_iff read_partition_iff)
    have "addressable ((pre @ partition_bytes q) @ rest1)" using Suc.prems q(3) by simp
    from Suc.IH [OF this] q show ?R using ids [of q qs] by auto
  next
    assume R: ?R
    then obtain q qs rest' where q: "ps = q # qs" "rest = partition_bytes q @ concat (map partition_bytes qs) @ rest'"
      "d = dcr (pre @ partition_bytes q @ concat (map partition_bytes qs)) rest'" by (cases ps) auto
    have i: "unat (pt_id q) = k" "\<forall>i < n. unat (pt_id (qs ! i)) = Suc k + i" using R ids [of q qs] q(1) by auto
    have a: "addressable ((pre @ partition_bytes q) @ concat (map partition_bytes qs) @ rest')" using Suc.prems q(2) by simp
    have "read_each read_partition (Suc k) n (dcr (pre @ partition_bytes q) (concat (map partition_bytes qs) @ rest')) = Inr (qs, d)"
      using R q i by (subst Suc.IH [OF a]) auto
    moreover have "read_partition k (dcr pre rest) = Inr (q, dcr (pre @ partition_bytes q) (concat (map partition_bytes qs) @ rest'))"
      using R q i Suc.prems by (subst read_partition_iff) auto
    ultimately show ?L using q(1) by simp
  qed
qed auto

lemma unat_u64_bounds: "unat (c :: u64) \<le> U64_MAX" "unat (d :: u32) \<le> U32_MAX"
proof -
  have "unat c < 2 ^ 64" "unat d < 2 ^ 32" using unsigned_less [of c] unsigned_less [of d] by simp_all
  then show "unat c \<le> U64_MAX" "unat d \<le> U32_MAX" by (simp_all add: U64_MAX_def U32_MAX_def)
qed

lemma policies_ok:
  "utf8_valid (ascii NUMERIC_POLICY_ID)" "length (ascii NUMERIC_POLICY_ID) \<le> U32_MAX"
  "utf8_valid (ascii TIE_POLICY_ID)" "length (ascii TIE_POLICY_ID) \<le> U32_MAX"
  by (simp_all add: ascii_def NUMERIC_POLICY_ID_def TIE_POLICY_ID_def U32_MAX_def)

lemma manifest_decode_exact:
  assumes "addressable bs"
  shows "manifest_decode reserve bs = Inr m \<longleftrightarrow>
    manifest_ok m \<and> manifest_encode m = Inr bs \<and> reserve ''partitions'' (length (bm_partitions m))"
    (is "?L \<longleftrightarrow> ?R")
proof
  assume L: ?L
  have "unat c = n \<Longrightarrow> word_of_nat n = (c :: u64) \<and> n \<le> U64_MAX" for c n
    using unat_u64_bounds(1) by auto
  then show ?R
    using L assms by (cases m)
      (auto simp: manifest_decode_def decoder_new_dcr rbind_Inr_iff u64_field.read_iff string_field.read_iff
       file_field.read_iff check_widths_iff read_partitions_iff manifest_ok_def manifest_encode_iff
       manifest_layout_def split: if_splits)
next
  assume R: ?R
  let ?ps = "bm_partitions m" and ?n = "word_of_nat (length (bm_partitions m)) :: u64"
  have bs: "bs = manifest_layout m" and n: "unat ?n = length ?ps"
    using R by (auto simp: manifest_encode_iff unat_of_nat U64_MAX_def)
  have parts: "read_each read_partition 0 (length ?ps) (dcr pre (concat (map partition_bytes ?ps)))
      = Inr (?ps, dcr (pre @ concat (map partition_bytes ?ps)) [])"
    if "addressable (pre @ concat (map partition_bytes ?ps))" for pre
    using R that by (auto simp: read_partitions_iff manifest_ok_def n)
  have widths: "fold_result check_width ws (dcr pre (concat (map u32_to_le_bytes ws) @ rest))
      = Inr (dcr (pre @ concat (map u32_to_le_bytes ws)) rest)"
    if "addressable (pre @ concat (map u32_to_le_bytes ws) @ rest)" for ws pre rest
    using that by (auto simp: check_widths_iff)
  have p: "bm_numeric_policy m = ascii NUMERIC_POLICY_ID" "bm_tie_policy m = ascii TIE_POLICY_ID"
    using R by (simp_all add: manifest_ok_def)
  show ?L
    using R assms policies_ok unfolding bs manifest_layout_def p manifest_ok_def
    by (simp add: manifest_decode_def decoder_new_dcr fields_written file_field.read_written widths parts n)
      (simp flip: p)
qed

end
