(* ===== verification/Bundle_Reader.thy ===== *)
theory Bundle_Reader
  imports Bundle_Codec Routing_Compile "HOL-Library.Char_ord"
begin

text \<open>
  \<^verbatim>\<open>pathhydra-routing/src/bundle/reader.rs\<close>, opening and loading: \<^verbatim>\<open>open_bundle\<close> with every check it
  makes, the decoder of one partition, \<^verbatim>\<open>load_partition\<close> and \<^verbatim>\<open>to_resident_image\<close>.

  A bundle directory is the list of its files. \<open>io\<close> says which system calls fail, and with what
  error; \<open>hash\<close> is the BLAKE3 function, which the source takes from a crate. Where the source
  feeds a file to an incremental hasher in blocks, the model hashes the whole file.
\<close>

section \<open>Files\<close>

type_synonym directory = "(string \<times> bytes) list"

datatype io_call =
    ReadDirectory | CreateDirectory | SyncDirectory
  | ReadFile string | ReadRange string u64 u64
  | CreateFile string | WriteFile string | SyncFile string

type_synonym io_faults = "io_call \<Rightarrow> file_error option"

definition no_faults :: io_faults where
  "no_faults = (\<lambda>_. None)"

definition io_perform :: "io_faults \<Rightarrow> io_call \<Rightarrow> unit bundled" where
  "io_perform io call = (case io call of None \<Rightarrow> Inr () | Some e \<Rightarrow> Inl (Failed (BundleIo e)))"

definition missing_file :: file_error where
  "missing_file = FileError NotFound ''No such file or directory (os error 2)''"

definition fs_read :: "io_faults \<Rightarrow> directory \<Rightarrow> string \<Rightarrow> bytes bundled" where
  "fs_read io dir name =
     rbind (io_perform io (ReadFile name)) (\<lambda>_. ok_or (map_of dir name) (Failed (BundleIo missing_file)))"

definition read_range :: "io_faults \<Rightarrow> directory \<Rightarrow> string \<Rightarrow> u64 \<Rightarrow> u64 \<Rightarrow> bytes bundled" where
  "read_range io dir name offset len =
     rbind (io_perform io (ReadRange name offset len)) (\<lambda>_.
     rbind (ok_or (map_of dir name) (Failed (BundleIo missing_file))) (\<lambda>bs.
     if unat len = 0 \<or> unat offset + unat len \<le> length bs
     then Inr (take (unat len) (drop (unat offset) bs))
     else Inl (Failed (BundleIo (FileError UnexpectedEof ''failed to fill whole buffer'')))))"

section \<open>Partitions\<close>

record decoded_segment =
  ds_source :: u32
  ds_first_ordinal :: u64
  ds_start :: u32
  ds_count :: u32

record decoded_partition =
  dp_segments :: "decoded_segment list"
  dp_destinations :: "u32 list"
  dp_relations :: "u32 list"
  dp_weights :: "u32 list"
  dp_edges :: "u64 list"

definition read_segment :: "decoder \<Rightarrow> (decoded_segment \<times> decoder) bundled" where
  "read_segment d =
     rbind (decoder_u32 d) (\<lambda>(source, d).
     rbind (decoder_u64 d) (\<lambda>(first_ordinal, d).
     rbind (decoder_u32 d) (\<lambda>(start, d).
     rbind (decoder_u32 d) (\<lambda>(count, d).
     rbind (decoder_u32 d) (\<lambda>(reserved, d).
     if reserved \<noteq> 0 then invalid ''partition reserved word is nonzero''
     else Inr (\<lparr>ds_source = source, ds_first_ordinal = first_ordinal, ds_start = start, ds_count = count\<rparr>, d))))))"

definition read_bounded :: "u64 \<Rightarrow> string \<Rightarrow> decoder \<Rightarrow> (u32 \<times> decoder) bundled" where
  "read_bounded limit reason d =
     rbind (decoder_u32 d) (\<lambda>(v, d). if unat v \<ge> unat limit then invalid reason else Inr (v, d))"

definition read_weight :: "decoder \<Rightarrow> (u32 \<times> decoder) bundled" where
  "read_weight d =
     rbind (decoder_u32 d) (\<lambda>(v, d).
     rbind (map_err (\<lambda>_. Failed (BundleInvalid ''base-weight bits are noncanonical'')) (base_weight_from_bits v)) (\<lambda>_.
     Inr (v, d)))"

text \<open>The loop over the local segments: each starts where the last one ended and lists strictly
  ascending edge identifiers. The slice \<^verbatim>\<open>edges[begin..finish]\<close> panics when it is out of range.\<close>

definition check_local_segment :: "u64 \<Rightarrow> u64 list \<Rightarrow> decoded_segment \<Rightarrow> nat \<Rightarrow> nat bundled" where
  "check_local_segment node_count edges s stop =
     (if unat (ds_source s) \<ge> unat node_count \<or> unat (ds_start s) \<noteq> stop \<or> ds_count s = 0
      then invalid ''partition local source bounds are invalid''
      else
        let start = unat (ds_start s); finish = start + unat (ds_count s) in
        rbind (slice_range edges start finish) (\<lambda>range.
        if list_ex (\<lambda>(a, b). a \<ge> b) (windows2 range)
        then invalid ''source segment edge IDs are not strictly ascending''
        else Inr (stop + unat (ds_count s))))"

definition decode_partition ::
    "bytes \<Rightarrow> bytes \<Rightarrow> partition_descriptor \<Rightarrow> u64 \<Rightarrow> u64 \<Rightarrow> decoded_partition bundled" where
  "decode_partition tb ev p node_count relation_count =
     rbind (decoder_u32 (decoder_new tb)) (\<lambda>(sc, d).
     rbind (decoder_u64 d) (\<lambda>(ec, d).
     if sc \<noteq> pt_segment_count p \<or> ec \<noteq> pt_edge_count p \<or> sc = 0 \<or> ec = 0
     then invalid ''partition header disagrees with manifest or is empty''
     else
     rbind (read_each (\<lambda>_. read_segment) 0 (unat sc) d) (\<lambda>(segments, d).
     rbind (read_each (\<lambda>_. read_bounded node_count ''destination index is out of bounds'') 0 (unat ec) d) (\<lambda>(destinations, d).
     rbind (read_each (\<lambda>_. read_bounded relation_count ''relation index is out of bounds'') 0 (unat ec) d) (\<lambda>(relations, d).
     rbind (read_each (\<lambda>_. read_weight) 0 (unat ec) d) (\<lambda>(weights, d).
     rbind (decoder_finish d) (\<lambda>_.
     rbind (read_each (\<lambda>_. decoder_u64) 0 (unat ec) (decoder_new ev)) (\<lambda>(edges, e).
     rbind (decoder_finish e) (\<lambda>_.
     rbind (fold_result (check_local_segment node_count edges) segments 0) (\<lambda>stop.
     if stop \<noteq> unat ec then invalid ''partition segments do not cover every edge''
     else Inr \<lparr>dp_segments = segments, dp_destinations = destinations, dp_relations = relations,
               dp_weights = weights, dp_edges = edges\<rparr>))))))))))"

section \<open>Opening\<close>

record routing_bundle =
  rb_manifest :: bundle_manifest
  rb_manifest_checksum :: bytes
  rb_nodes :: "node_id list"
  rb_relations :: "relation_id list"
  rb_source_segment_offsets :: "u64 list"
  rb_segments :: "segment_descriptor list"
  rb_source_edge_offsets :: "nat list"
  rb_partition_edge_offsets :: "nat list"

definition bundle_file_names :: "string list" where
  "bundle_file_names = [''manifest.bin'', ''identities.bin'', ''source-directory.bin'', ''topology.bin'', ''evidence.bin'']"

definition validated_file ::
    "(bytes \<Rightarrow> bytes) \<Rightarrow> io_faults \<Rightarrow> directory \<Rightarrow> string \<Rightarrow> file_descriptor \<Rightarrow> bytes bundled" where
  "validated_file hash io dir name descriptor =
     rbind (fs_read io dir name) (\<lambda>bs.
     if length bs \<noteq> unat (fd_length descriptor) then invalid (name @ '' length mismatch'')
     else if hash bs \<noteq> fd_checksum descriptor then invalid (name @ '' checksum mismatch'')
     else Inr bs)"

definition validate_large_file ::
    "(bytes \<Rightarrow> bytes) \<Rightarrow> io_faults \<Rightarrow> directory \<Rightarrow> string \<Rightarrow> file_descriptor \<Rightarrow> unit bundled" where
  "validate_large_file hash io dir name descriptor =
     rbind (fs_read io dir name) (\<lambda>bs.
     if length bs \<noteq> unat (fd_length descriptor) then invalid (name @ '' length mismatch'')
     else if hash bs \<noteq> fd_checksum descriptor then invalid (name @ '' checksum mismatch'')
     else Inr ())"

definition validate_range :: "(bytes \<Rightarrow> bytes) \<Rightarrow> io_faults \<Rightarrow> directory \<Rightarrow> bundle_manifest
    \<Rightarrow> partition_descriptor \<Rightarrow> nat \<times> nat \<Rightarrow> (nat \<times> nat) bundled" where
  "validate_range hash io dir m p ends =
     (case ends of (te, ee) \<Rightarrow>
      if unat (pt_topology_offset p) \<noteq> te \<or> unat (pt_evidence_offset p) \<noteq> ee
         \<or> pt_topology_length p = 0 \<or> pt_evidence_length p = 0
      then invalid ''partition ranges are empty, unordered, overlapping, or unaligned''
      else
      rbind (ok_or (checked_add te (unat (pt_topology_length p))) (Failed (BundleInvalid ''topology range overflow''))) (\<lambda>te.
      rbind (ok_or (checked_add ee (unat (pt_evidence_length p))) (Failed (BundleInvalid ''evidence range overflow''))) (\<lambda>ee.
      if te > unat (fd_length (bm_topology m)) \<or> ee > unat (fd_length (bm_evidence m))
      then invalid ''partition range lies outside its file''
      else
      rbind (read_range io dir ''topology.bin'' (pt_topology_offset p) (pt_topology_length p)) (\<lambda>topology.
      rbind (read_range io dir ''evidence.bin'' (pt_evidence_offset p) (pt_evidence_length p)) (\<lambda>evidence.
      if hash topology \<noteq> pt_topology_checksum p \<or> hash evidence \<noteq> pt_evidence_checksum p
      then invalid ''partition region checksum mismatch''
      else Inr (te, ee))))))"

definition validate_ranges ::
    "(bytes \<Rightarrow> bytes) \<Rightarrow> io_faults \<Rightarrow> directory \<Rightarrow> bundle_manifest \<Rightarrow> unit bundled" where
  "validate_ranges hash io dir m =
     rbind (fold_result (validate_range hash io dir m) (bm_partitions m) (0, 0)) (\<lambda>(te, ee).
     if te \<noteq> unat (fd_length (bm_topology m)) \<or> ee \<noteq> unat (fd_length (bm_evidence m))
     then invalid ''topology or evidence has undeclared trailing bytes''
     else if bm_adjacency_count m = 0
       \<and> (bm_partitions m \<noteq> [] \<or> fd_length (bm_topology m) \<noteq> 0 \<or> fd_length (bm_evidence m) \<noteq> 0)
     then invalid ''empty adjacency has noncanonical partition bytes''
     else Inr ())"

definition read_descriptor :: "decoder \<Rightarrow> (segment_descriptor \<times> decoder) bundled" where
  "read_descriptor d =
     rbind (decoder_u32 d) (\<lambda>(source, d).
     rbind (decoder_u32 d) (\<lambda>(partition, d).
     rbind (decoder_u32 d) (\<lambda>(local_segment, d).
     rbind (decoder_u64 d) (\<lambda>(first_edge_ordinal, d).
     rbind (decoder_u32 d) (\<lambda>(edge_count, d).
     Inr (\<lparr>sd_source = source, sd_partition = partition, sd_local_segment = local_segment,
           sd_first_edge_ordinal = first_edge_ordinal, sd_edge_count = edge_count\<rparr>, d))))))"

definition check_source_segment :: "nat \<Rightarrow> segment_descriptor \<Rightarrow> nat \<Rightarrow> nat bundled" where
  "check_source_segment source s ordinal =
     (if unat (sd_source s) \<noteq> source \<or> unat (sd_first_edge_ordinal s) \<noteq> ordinal
      then invalid ''source segments have a mismatch, gap, or overlap''
      else ok_or (checked_add ordinal (unat (sd_edge_count s))) (Failed (BundleInvalid ''source edge ordinal overflow'')))"

definition push_source_offset ::
    "u64 list \<Rightarrow> segment_descriptor list \<Rightarrow> nat \<Rightarrow> nat list \<Rightarrow> nat list bundled" where
  "push_source_offset source_segment_offsets segments source source_edge_offsets =
     rbind (index source_segment_offsets source) (\<lambda>start.
     rbind (index source_segment_offsets (source + 1)) (\<lambda>stop.
     rbind (slice_range segments (unat start) (unat stop)) (\<lambda>range.
     rbind (fold_result (check_source_segment source) range 0) (\<lambda>ordinal.
     if source_edge_offsets = [] then invalid ''source edge offset state is empty''
     else rbind (ok_or (checked_add (last source_edge_offsets) ordinal)
            (Failed (BundleInvalid ''adjacency offset overflow''))) (\<lambda>next.
       Inr (source_edge_offsets @ [next]))))))"

definition check_partition_segment ::
    "segment_descriptor list \<Rightarrow> partition_descriptor \<Rightarrow> nat \<times> decoded_segment \<Rightarrow> unit \<Rightarrow> unit bundled" where
  "check_partition_segment segments p entry u =
     (case entry of (local, s) \<Rightarrow>
      (case List.find (\<lambda>v. sd_partition v = pt_id p \<and> sd_local_segment v = word_of_nat local) segments of
         None \<Rightarrow> invalid ''partition has an extra source segment''
       | Some g \<Rightarrow>
           if sd_source g \<noteq> ds_source s \<or> sd_first_edge_ordinal g \<noteq> ds_first_ordinal s \<or> sd_edge_count g \<noteq> ds_count s
           then invalid ''partition and directory segment descriptors disagree''
           else Inr ()))"

definition check_partition :: "io_faults \<Rightarrow> directory \<Rightarrow> bundle_manifest \<Rightarrow> segment_descriptor list
    \<Rightarrow> partition_descriptor \<Rightarrow> nat list \<Rightarrow> nat list bundled" where
  "check_partition io dir m segments p partition_edge_offsets =
     rbind (read_range io dir ''topology.bin'' (pt_topology_offset p) (pt_topology_length p)) (\<lambda>topology.
     rbind (read_range io dir ''evidence.bin'' (pt_evidence_offset p) (pt_evidence_length p)) (\<lambda>evidence.
     rbind (decode_partition topology evidence p (bm_node_count m) (bm_relation_kind_count m)) (\<lambda>decoded.
     rbind (fold_result (check_partition_segment segments p) (enumerate 0 (dp_segments decoded)) ()) (\<lambda>_.
     if partition_edge_offsets = [] then invalid ''partition edge offset state is empty''
     else rbind (ok_or (checked_add (last partition_edge_offsets) (unat (pt_edge_count p)))
            (Failed (BundleInvalid ''partition adjacency offset overflow''))) (\<lambda>partition_end.
       Inr (partition_edge_offsets @ [partition_end]))))))"

text \<open>The two halves of \<^verbatim>\<open>open_bundle\<close>: the identity tables and the source directory, and the checks of
  the segments and partitions against them.\<close>

definition read_identities :: "bundle_manifest \<Rightarrow> bytes \<Rightarrow> (node_id list \<times> relation_id list) bundled" where
  "read_identities m identities =
     rbind (ok_or (Option.bind (checked_add (unat (bm_node_count m)) (unat (bm_relation_kind_count m))) (\<lambda>v. checked_mul v 8))
       (Failed (BundleInvalid ''identity length overflow''))) (\<lambda>identity_count.
     if identity_count \<noteq> unat (fd_length (bm_identities m))
     then invalid ''identity file length disagrees with counts''
     else
     rbind (read_each (\<lambda>_. decoder_u64) 0 (unat (bm_node_count m)) (decoder_new identities)) (\<lambda>(nodes, d).
     rbind (read_each (\<lambda>_. decoder_u64) 0 (unat (bm_relation_kind_count m)) d) (\<lambda>(relations, d).
     rbind (decoder_finish d) (\<lambda>_.
     if list_ex (\<lambda>(a, b). a \<ge> b) (windows2 nodes) \<or> list_ex (\<lambda>(a, b). a \<ge> b) (windows2 relations)
     then invalid ''stable identity tables are duplicate or nonascending''
     else Inr (map NodeId nodes, map RelationId relations)))))"

definition read_directory :: "bundle_manifest \<Rightarrow> bytes \<Rightarrow> (u64 list \<times> segment_descriptor list) bundled" where
  "read_directory m bs =
     rbind (ok_or (checked_add (unat (bm_node_count m)) 1) (Failed (BundleInvalid ''source offset count overflow''))) (\<lambda>offset_count.
     rbind (ok_or (Option.bind (checked_mul offset_count 8) (\<lambda>v.
              Option.bind (checked_mul (unat (bm_segment_count m)) 24) (\<lambda>s. checked_add v s)))
       (Failed (BundleInvalid ''source directory length overflow''))) (\<lambda>directory_len.
     if directory_len \<noteq> unat (fd_length (bm_source_directory m))
     then invalid ''source directory length disagrees with counts''
     else
     rbind (read_each (\<lambda>_. decoder_u64) 0 offset_count (decoder_new bs)) (\<lambda>(offsets, d).
     rbind (read_each (\<lambda>_. read_descriptor) 0 (unat (bm_segment_count m)) d) (\<lambda>(segments, d).
     rbind (decoder_finish d) (\<lambda>_.
     Inr (offsets, segments))))))"

definition open_routing_bundle :: "(bytes \<Rightarrow> bytes) \<Rightarrow> reserve \<Rightarrow> io_faults \<Rightarrow> directory \<Rightarrow> routing_bundle bundled" where
  "open_routing_bundle hash reserve io dir =
     rbind (io_perform io ReadDirectory) (\<lambda>_.
     if sort (map fst dir) \<noteq> sort bundle_file_names
     then invalid ''bundle directory does not contain exactly the current five files''
     else
     rbind (fs_read io dir ''manifest.bin'') (\<lambda>manifest_bytes.
     rbind (manifest_decode reserve manifest_bytes) (\<lambda>m.
     rbind (validated_file hash io dir ''identities.bin'' (bm_identities m)) (\<lambda>identities.
     rbind (validated_file hash io dir ''source-directory.bin'' (bm_source_directory m)) (\<lambda>directory_bytes.
     rbind (validate_large_file hash io dir ''topology.bin'' (bm_topology m)) (\<lambda>_.
     rbind (validate_large_file hash io dir ''evidence.bin'' (bm_evidence m)) (\<lambda>_.
     rbind (read_identities m identities) (\<lambda>(nodes, relations).
     rbind (read_directory m directory_bytes) (\<lambda>(offsets, segments).
     rbind (validate_ranges hash io dir m) (\<lambda>_.
     if get offsets 0 \<noteq> Some 0 \<or> offsets = [] \<or> last offsets \<noteq> bm_segment_count m
        \<or> list_ex (\<lambda>(a, b). a > b) (windows2 offsets)
     then invalid ''source segment offsets are not bounded and monotonic''
     else
     rbind (fold_result (push_source_offset offsets segments) [0..<unat (bm_node_count m)] [0]) (\<lambda>source_edge_offsets.
     if source_edge_offsets = [] \<or> last source_edge_offsets \<noteq> unat (bm_adjacency_count m)
     then invalid ''source segments do not cover every adjacency''
     else
     rbind (fold_result (check_partition io dir m segments) (bm_partitions m) [0]) (\<lambda>partition_edge_offsets.
     if partition_edge_offsets = [] \<or> last partition_edge_offsets \<noteq> unat (bm_adjacency_count m)
     then invalid ''partition adjacency counts disagree''
     else Inr \<lparr>rb_manifest = m, rb_manifest_checksum = hash manifest_bytes, rb_nodes = nodes,
               rb_relations = relations, rb_source_segment_offsets = offsets, rb_segments = segments,
               rb_source_edge_offsets = source_edge_offsets,
               rb_partition_edge_offsets = partition_edge_offsets\<rparr>))))))))))))"

section \<open>Loading\<close>

text \<open>The fault controls of the recovery tests; \<open>NONE\<close> is \<^verbatim>\<open>u32::MAX\<close>. A delay has no effect on the
  result.\<close>

record fault_injection =
  fi_short_read_partition :: u32
  fi_read_error_partition :: u32
  fi_delay_milliseconds :: u64

definition fault_NONE :: u32 where "fault_NONE = - 1"

definition fault_default :: fault_injection where
  "fault_default = \<lparr>fi_short_read_partition = fault_NONE, fi_read_error_partition = fault_NONE, fi_delay_milliseconds = 0\<rparr>"

definition fault_reset :: "fault_injection \<Rightarrow> fault_injection" where
  "fault_reset f = f\<lparr>fi_short_read_partition := fault_NONE, fi_read_error_partition := fault_NONE, fi_delay_milliseconds := 0\<rparr>"

definition short_read_at :: "u32 \<Rightarrow> fault_injection \<Rightarrow> fault_injection" where
  "short_read_at part f = f\<lparr>fi_short_read_partition := part\<rparr>"

definition read_error_at :: "u32 \<Rightarrow> fault_injection \<Rightarrow> fault_injection" where
  "read_error_at part f = f\<lparr>fi_read_error_partition := part\<rparr>"

definition load_partition :: "(bytes \<Rightarrow> bytes) \<Rightarrow> io_faults \<Rightarrow> directory \<Rightarrow> fault_injection \<Rightarrow> routing_bundle
    \<Rightarrow> partition_descriptor \<Rightarrow> decoded_partition bundled" where
  "load_partition hash io dir faults b p =
     (if fi_read_error_partition faults = pt_id p
      then Inl (Failed (BundleIo (FileError OtherKind ''injected partition read error'')))
      else
      rbind (read_range io dir ''topology.bin'' (pt_topology_offset p) (pt_topology_length p)) (\<lambda>tb.
      rbind (read_range io dir ''evidence.bin'' (pt_evidence_offset p) (pt_evidence_length p)) (\<lambda>evidence.
      if fi_short_read_partition faults = pt_id p then Inl (Failed (BundleIo (FileError UnexpectedEof ''injected short partition read'')))
      else if hash tb \<noteq> pt_topology_checksum p \<or> hash evidence \<noteq> pt_evidence_checksum p
      then invalid ''partition checksum mismatch''
      else decode_partition tb evidence p (bm_node_count (rb_manifest b)) (bm_relation_kind_count (rb_manifest b)))))"

text \<open>The arrays that \<^verbatim>\<open>to_resident_image\<close> fills, edge by edge.\<close>

definition push_resident_edge :: "relation_id list \<Rightarrow> decoded_partition \<Rightarrow> nat \<Rightarrow> compiled_arrays \<Rightarrow> compiled_arrays bundled" where
  "push_resident_edge relations decoded i a =
     rbind (index (dp_destinations decoded) i) (\<lambda>destination.
     rbind (index (dp_relations decoded) i) (\<lambda>relation_index.
     rbind (ok_or (get relations (unat relation_index)) (Failed (BundleInvalid ''relation index out of bounds''))) (\<lambda>relation.
     rbind (index (dp_weights decoded) i) (\<lambda>weight.
     rbind (index (dp_edges decoded) i) (\<lambda>edge.
     Inr \<lparr>ca_destinations = ca_destinations a @ [destination], ca_relations = ca_relations a @ [relation],
          ca_relation_indexes = ca_relation_indexes a @ [relation_index],
          ca_base_weight_bits = ca_base_weight_bits a @ [weight], ca_edge_ids = ca_edge_ids a @ [EdgeId edge]\<rparr>)))))"

definition push_resident_partition :: "(bytes \<Rightarrow> bytes) \<Rightarrow> io_faults \<Rightarrow> directory \<Rightarrow> fault_injection \<Rightarrow> routing_bundle
    \<Rightarrow> partition_descriptor \<Rightarrow> compiled_arrays \<Rightarrow> compiled_arrays bundled" where
  "push_resident_partition hash io dir faults b p a =
     rbind (load_partition hash io dir faults b p) (\<lambda>decoded.
     fold_result (push_resident_edge (rb_relations b) decoded) [0..<length (dp_edges decoded)] a)"

definition to_resident_image ::
    "(bytes \<Rightarrow> bytes) \<Rightarrow> io_faults \<Rightarrow> directory \<Rightarrow> fault_injection \<Rightarrow> routing_bundle \<Rightarrow> routing_image bundled" where
  "to_resident_image hash io dir faults b =
     rbind (fold_result (push_resident_partition hash io dir faults b) (bm_partitions (rb_manifest b))
       \<lparr>ca_destinations = [], ca_relations = [], ca_relation_indexes = [], ca_base_weight_bits = [], ca_edge_ids = []\<rparr>) (\<lambda>a.
     rbind (map_err (\<lambda>e. Failed (BundleInvalid (compile_error_display e)))
       (manifest (length (rb_nodes b)) (length (rb_relations b)) (length (ca_edge_ids a)))) (\<lambda>mf.
     Inr \<lparr>im_external_to_dense = map (\<lambda>(dense, i). (i, DenseNodeId (word_of_nat dense))) (enumerate 0 (rb_nodes b)),
          im_dense_to_external = rb_nodes b, im_offsets = rb_source_edge_offsets b,
          im_destinations = ca_destinations a, im_relation_ids = ca_relations a,
          im_relation_indexes = ca_relation_indexes a, im_base_weight_bits = ca_base_weight_bits a,
          im_edge_ids = ca_edge_ids a, im_confirmed_relation_ids = rb_relations b, im_manifest = mf\<rparr>))"

definition bundle_routing_manifest :: "routing_bundle \<Rightarrow> routing_image_manifest bundled" where
  "bundle_routing_manifest b =
     map_err (\<lambda>e. Failed (BundleInvalid (compile_error_display e)))
       (manifest (unat (bm_node_count (rb_manifest b))) (unat (bm_relation_kind_count (rb_manifest b)))
         (unat (bm_adjacency_count (rb_manifest b))))"

definition identity_directory_bytes :: "routing_bundle \<Rightarrow> nat bundled" where
  "identity_directory_bytes b =
     (let m = rb_manifest b in
      if unat (fd_length (bm_identities m)) + unat (fd_length (bm_source_directory m)) \<le> U64_MAX
      then Inr (unat (fd_length (bm_identities m)) + unat (fd_length (bm_source_directory m)))
      else Inl Panicked)"

end
