(* ===== verification/Host_Cache.thy ===== *)
theory Host_Cache
  imports Bundle_Reader Cpu_Routing Ordered_Collections
begin

text \<open>
  \<^verbatim>\<open>pathhydra-routing/src/bundle/reader.rs\<close>, the host cache of partitions: \<^verbatim>\<open>HostCache\<close> with its
  admission, eviction and loading, the \<^verbatim>\<open>IoCoordinator\<close> and the snapshot.

  The cache is guarded by one mutex, so each critical section is one operation on its state.
  \<open>pinned\<close> answers \<^verbatim>\<open>Arc::strong_count(data) > 1\<close>: whether a lease on the partition is alive.
  \<^verbatim>\<open>HashMap\<close> iteration only looks for the least entry in a total order, so the entries are kept
  in key order. A panic inside a critical section poisons the mutex. What one round of the
  waiting loop of \<^verbatim>\<open>acquire\<close> finds is an argument: the cancellation signal, the cache as other
  threads have left it, and how the submission of the read ended.
\<close>

section \<open>Configuration and state\<close>

record host_cache_config =
  hc_maximum_bytes :: nat
  hc_maximum_staging_bytes :: nat
  hc_maximum_entries :: nat
  hc_io_worker_count :: nat
  hc_maximum_queued_reads :: nat

definition host_cache_config_default :: host_cache_config where
  "host_cache_config_default =
     \<lparr>hc_maximum_bytes = 256 * 1024 * 1024, hc_maximum_staging_bytes = 32 * 1024 * 1024,
      hc_maximum_entries = 64, hc_io_worker_count = 2, hc_maximum_queued_reads = 64\<rparr>"

datatype cache_entry =
    Loading
  | Ready (ce_data: decoded_partition) (ce_bytes: nat) (ce_last: nat)
  | LoadFailed string

record cache_state =
  cs_entries :: "(u32, cache_entry) btree_map"
  cs_bytes :: nat
  cs_high :: nat
  cs_tick :: nat
  cs_hits :: nat
  cs_misses :: nat
  cs_waits :: nat
  cs_evictions :: nat
  cs_read_bytes :: nat
  cs_checksum_failures :: nat
  cs_queue_depth :: nat
  cs_queue_high_water :: nat
  cs_failed_loads :: nat
  cs_staging_bytes :: nat
  cs_staging_high :: nat
  cs_short_reads :: nat
  cs_poison :: "string option"

record host_cache =
  ho_state :: cache_state
  ho_lock_poisoned :: bool

definition cache_state_new :: cache_state where
  "cache_state_new =
     \<lparr>cs_entries = [], cs_bytes = 0, cs_high = 0, cs_tick = 0, cs_hits = 0, cs_misses = 0, cs_waits = 0,
      cs_evictions = 0, cs_read_bytes = 0, cs_checksum_failures = 0, cs_queue_depth = 0, cs_queue_high_water = 0,
      cs_failed_loads = 0, cs_staging_bytes = 0, cs_staging_high = 0, cs_short_reads = 0, cs_poison = None\<rparr>"

definition image_access :: "string \<Rightarrow> 'a routed" where
  "image_access reason = Inl (Failed (ImageAccess reason))"

definition cache_locked :: "host_cache \<Rightarrow> cache_state routed" where
  "cache_locked h = (if ho_lock_poisoned h then image_access ''host cache lock is poisoned'' else Inr (ho_state h))"

definition with_state :: "cache_state \<Rightarrow> host_cache \<Rightarrow> host_cache" where
  "with_state s h = h\<lparr>ho_state := s\<rparr>"

definition saturating_mul :: "nat \<Rightarrow> nat \<Rightarrow> nat" where
  "saturating_mul a b = min (a * b) U64_MAX"

section \<open>Acquiring a partition\<close>

text \<open>The part of \<^verbatim>\<open>acquire\<close> before its loop: the partition and the bytes its cache entry takes.\<close>

definition cache_admission :: "bundle_manifest \<Rightarrow> host_cache_config \<Rightarrow> u32 \<Rightarrow> (partition_descriptor \<times> nat) routed" where
  "cache_admission m c i =
     rbind (ok_or (get (bm_partitions m) (unat i)) (Failed (ImageAccess ''partition ID is out of bounds''))) (\<lambda>p.
     rbind (ok_or (Option.bind (checked_add (unat (pt_topology_length p)) (unat (pt_evidence_length p))) (\<lambda>v. checked_mul v 2))
       (Failed (ImageAccess ''cache admission size overflow''))) (\<lambda>required.
     if required > hc_maximum_bytes c
     then image_access (''partition requires '' @ nat_display required @ '' cache bytes; limit is '' @ nat_display (hc_maximum_bytes c))
     else Inr (p, required)))"

text \<open>The entry to evict: of those that are ready and not leased, the least recently used, and the
  smallest identifier among equals.\<close>

definition used_before :: "u32 \<times> nat \<times> nat \<Rightarrow> u32 \<times> nat \<times> nat \<Rightarrow> bool" where
  "used_before a b = (case (a, b) of ((k, _, t), (k', _, t')) \<Rightarrow> t < t' \<or> t = t' \<and> k < k')"

definition evictable :: "(u32 \<Rightarrow> bool) \<Rightarrow> u32 \<times> cache_entry \<Rightarrow> (u32 \<times> nat \<times> nat) option" where
  "evictable pinned e =
     (case e of (k, Ready data bs used) \<Rightarrow> if pinned k then None else Some (k, bs, used) | _ \<Rightarrow> None)"

definition victim :: "(u32 \<Rightarrow> bool) \<Rightarrow> (u32, cache_entry) btree_map \<Rightarrow> (u32 \<times> nat \<times> nat) option" where
  "victim pinned entries =
     (case List.map_filter (evictable pinned) entries of
        [] \<Rightarrow> None
      | v # vs \<Rightarrow> Some (fold (\<lambda>w best. if used_before w best then w else best) vs v))"

lemma fold_choice: "fold (\<lambda>w b. if P w b then w else b) ws v \<in> set (v # ws)"
  by (induction ws arbitrary: v) (auto split: if_splits)

lemma in_map_filter: "x \<in> set (List.map_filter f xs) \<longleftrightarrow> (\<exists>y \<in> set xs. f y = Some x)"
  by (induction xs) (auto simp: List.map_filter_simps split: option.splits)

lemma evictable_Some: "evictable pinned e = Some (k, b, used) \<longleftrightarrow> (\<exists>data. e = (k, Ready data b used)) \<and> \<not> pinned k"
  by (auto simp: evictable_def split: prod.splits cache_entry.splits if_splits)

lemma victim_Some:
  assumes "victim pinned entries = Some (k, b, used)"
  shows "\<exists>data. (k, Ready data b used) \<in> set entries \<and> \<not> pinned k"
proof -
  have "(k, b, used) \<in> set (List.map_filter (evictable pinned) entries)"
  proof (cases "List.map_filter (evictable pinned) entries")
    case (Cons v vs)
    then show ?thesis using assms fold_choice [of used_before vs v] by (simp add: victim_def)
  qed (use assms in \<open>simp add: victim_def\<close>)
  then show ?thesis by (auto simp: in_map_filter evictable_Some)
qed

text \<open>\<^verbatim>\<open>while s.bytes + required > maximum_bytes || s.entries.len() >= maximum_entries\<close>. The sum and
  the subtraction are unchecked in the source and panic out of range.\<close>

function evict :: "host_cache_config \<Rightarrow> (u32 \<Rightarrow> bool) \<Rightarrow> nat \<Rightarrow> cache_state \<Rightarrow> unit routed \<times> cache_state" where
  "evict c pinned required s =
     (if cs_bytes s + required > U64_MAX then (Inl Panicked, s)
      else if cs_bytes s + required > hc_maximum_bytes c \<or> length (cs_entries s) \<ge> hc_maximum_entries c
      then (case victim pinned (cs_entries s) of
              None \<Rightarrow> (image_access ''host partition cache is full and every entry is pinned or loading'', s)
            | Some (k, bs, _) \<Rightarrow>
                if bs > cs_bytes s then (Inl Panicked, s\<lparr>cs_entries := btree_remove k (cs_entries s)\<rparr>)
                else evict c pinned required (s\<lparr>cs_entries := btree_remove k (cs_entries s), cs_bytes := cs_bytes s - bs,
                       cs_evictions := saturating_add (cs_evictions s) 1\<rparr>))
      else (Inr (), s))"
  by pat_completeness auto
termination
proof (relation "measure (\<lambda>(c, pinned, required, s). length (cs_entries s))", simp)
  fix c pinned required s x2 x y xa ya
  assume "victim pinned (cs_entries s) = Some x2" "(x, y) = x2" "(xa, ya) = y"
  then obtain d where "(x, Ready d xa ya) \<in> set (cs_entries s)" using victim_Some [of pinned "cs_entries s" x xa ya] by blast
  then show "((c, pinned, required, s\<lparr>cs_entries := btree_remove x (cs_entries s), cs_bytes := cs_bytes s - xa,
      cs_evictions := saturating_add (cs_evictions s) 1\<rparr>), c, pinned, required, s)
    \<in> measure (\<lambda>(c, pinned, required, s). length (cs_entries s))"
    by (auto simp: btree_remove_def btree_retain_def intro!: length_filter_less)
qed

declare evict.simps [simp del]

datatype attempt = Hit decoded_partition | WaitForLoad | WaitForStaging | Submit

definition staging_of :: "partition_descriptor \<Rightarrow> nat" where
  "staging_of p = unat (pt_topology_length p) + unat (pt_evidence_length p)"

text \<open>One critical section of the loop of \<^verbatim>\<open>acquire\<close>.\<close>

definition attempt_state :: "host_cache_config \<Rightarrow> (u32 \<Rightarrow> bool) \<Rightarrow> u32 \<Rightarrow> partition_descriptor \<Rightarrow> nat
    \<Rightarrow> cache_state \<Rightarrow> attempt routed \<times> cache_state" where
  "attempt_state c pinned i p required s =
     (case cs_poison s of
        Some reason \<Rightarrow> (image_access (''routing bundle is poisoned: '' @ reason), s)
      | None \<Rightarrow>
        let s = s\<lparr>cs_tick := saturating_add (cs_tick s) 1\<rparr>; tick = cs_tick s in
        (case btree_get (cs_entries s) i of
           Some (Ready data bs used) \<Rightarrow>
             (Inr (Hit data), s\<lparr>cs_entries := btree_insert i (Ready data bs tick) (cs_entries s), cs_hits := saturating_add (cs_hits s) 1\<rparr>)
         | Some Loading \<Rightarrow> (Inr WaitForLoad, s\<lparr>cs_waits := saturating_add (cs_waits s) 1\<rparr>)
         | Some (LoadFailed reason) \<Rightarrow> (image_access reason, s)
         | None \<Rightarrow>
             if staging_of p > U64_MAX then (image_access ''staging admission overflow'', s)
             else if saturating_add (cs_staging_bytes s) (staging_of p) > hc_maximum_staging_bytes c
               \<or> cs_queue_depth s \<ge> saturating_add (hc_maximum_queued_reads c) (hc_io_worker_count c)
             then (Inr WaitForStaging, s\<lparr>cs_waits := saturating_add (cs_waits s) 1\<rparr>)
             else
             (case evict c pinned required s of
                (Inl e, s) \<Rightarrow> (Inl e, s)
              | (Inr _, s) \<Rightarrow>
                  let s = s\<lparr>cs_entries := btree_insert i Loading (cs_entries s), cs_bytes := cs_bytes s + required\<rparr> in
                  if cs_staging_bytes s + staging_of p > U64_MAX then (Inl Panicked, s)
                  else
                  let staging_bytes = cs_staging_bytes s + staging_of p; queue_depth = saturating_add (cs_queue_depth s) 1 in
                  (Inr Submit, s\<lparr>cs_staging_bytes := staging_bytes, cs_staging_high := max (cs_staging_high s) staging_bytes,
                     cs_high := max (cs_high s) (cs_bytes s), cs_misses := saturating_add (cs_misses s) 1,
                     cs_queue_depth := queue_depth, cs_queue_high_water := max (cs_queue_high_water s) queue_depth\<rparr>))))"

definition acquire_attempt :: "host_cache_config \<Rightarrow> (u32 \<Rightarrow> bool) \<Rightarrow> u32 \<Rightarrow> partition_descriptor \<Rightarrow> nat
    \<Rightarrow> host_cache \<Rightarrow> attempt routed \<times> host_cache" where
  "acquire_attempt c pinned i p required h =
     (case cache_locked h of
        Inl e \<Rightarrow> (Inl e, h)
      | Inr s \<Rightarrow> (case attempt_state c pinned i p required s of (r, s) \<Rightarrow>
          (r, h\<lparr>ho_state := s, ho_lock_poisoned := (r = Inl Panicked)\<rparr>)))"

text \<open>The two ways a submission ends without a queued read: the caller cancelled, or the workers
  have shut down.\<close>

definition submit_cancelled :: "u32 \<Rightarrow> partition_descriptor \<Rightarrow> nat \<Rightarrow> host_cache \<Rightarrow> decoded_partition option routed \<times> host_cache" where
  "submit_cancelled i p required h =
     (case cache_locked h of
        Inl e \<Rightarrow> (Inl e, h)
      | Inr s \<Rightarrow>
        let was_loading = (btree_get (cs_entries s) i = Some Loading);
            s = s\<lparr>cs_queue_depth := cs_queue_depth s - 1, cs_entries := btree_remove i (cs_entries s)\<rparr>;
            s = (if was_loading then s\<lparr>cs_bytes := cs_bytes s - required, cs_staging_bytes := cs_staging_bytes s - staging_of p\<rparr> else s)
        in (Inr None, with_state s h))"

definition submit_failed :: "u32 \<Rightarrow> partition_descriptor \<Rightarrow> nat \<Rightarrow> routing_error \<Rightarrow> host_cache
    \<Rightarrow> decoded_partition option routed \<times> host_cache" where
  "submit_failed i p required error h =
     (case cache_locked h of
        Inl e \<Rightarrow> (Inl e, h)
      | Inr s \<Rightarrow>
        let s = s\<lparr>cs_queue_depth := cs_queue_depth s - 1, cs_bytes := cs_bytes s - required,
              cs_staging_bytes := cs_staging_bytes s - staging_of p,
              cs_entries := btree_insert i (LoadFailed (routing_error_display error)) (cs_entries s)\<rparr>
        in (Inl (Failed error), with_state s h))"

section \<open>The coordinator\<close>

text \<open>\<^verbatim>\<open>IoCoordinator::enqueue\<close> over what its rounds find: the cancellation signal, and how sending
  within five milliseconds ended. \<open>None\<close> means that it is still trying after these rounds.\<close>

datatype send_outcome = Sent | SendTimeout | SendDisconnected

fun coordinator_enqueue :: "(bool \<times> send_outcome) list \<Rightarrow> bool routed option" where
  "coordinator_enqueue [] = None"
| "coordinator_enqueue ((cancelled, outcome) # rounds) =
     (if cancelled then Some (Inr False)
      else case outcome of
        Sent \<Rightarrow> Some (Inr True)
      | SendTimeout \<Rightarrow> coordinator_enqueue rounds
      | SendDisconnected \<Rightarrow> Some (image_access ''routing I/O workers have shut down''))"

text \<open>\<^verbatim>\<open>IoCoordinator::shutdown\<close>: \<open>joined\<close> tells of each worker whether it ended without a panic. All
  workers are joined whatever the outcome, so a second shutdown finds none.\<close>

definition coordinator_shutdown :: "bool \<Rightarrow> bool list \<Rightarrow> unit routed \<times> bool list" where
  "coordinator_shutdown lock_poisoned joined =
     (if lock_poisoned then (image_access ''routing I/O worker lock is poisoned'', joined)
      else (if list_all (\<lambda>ended. ended) joined then Inr ()
            else image_access ''a routing I/O worker terminated unexpectedly'', []))"

section \<open>The waiting loop\<close>

record acquire_round =
  ar_cancelled :: bool
  ar_cache :: host_cache
  ar_pinned :: "u32 \<Rightarrow> bool"
  ar_wait_poisoned :: bool
  ar_coordinator_present :: bool
  ar_enqueue :: "(bool \<times> send_outcome) list"
  ar_cache_after :: host_cache

text \<open>One round: \<open>None\<close> when it is still submitting its read, \<open>Some None\<close> when the loop goes on, and
  otherwise what \<^verbatim>\<open>acquire\<close> returns.\<close>

definition acquire_round :: "host_cache_config \<Rightarrow> u32 \<Rightarrow> partition_descriptor \<Rightarrow> nat \<Rightarrow> acquire_round
    \<Rightarrow> decoded_partition option routed option option" where
  "acquire_round c i p required r =
     (if ar_cancelled r then Some (Some (Inr None))
      else case fst (acquire_attempt c (ar_pinned r) i p required (ar_cache r)) of
        Inl e \<Rightarrow> Some (Some (Inl e))
      | Inr (Hit data) \<Rightarrow> Some (Some (Inr (Some data)))
      | Inr WaitForLoad \<Rightarrow> Some (if ar_wait_poisoned r then Some (image_access ''host cache wait is poisoned'') else None)
      | Inr WaitForStaging \<Rightarrow> Some (if ar_wait_poisoned r then Some (image_access ''host staging wait is poisoned'') else None)
      | Inr Submit \<Rightarrow>
          if \<not> ar_coordinator_present r then Some (Some (image_access ''routing I/O coordinator is absent''))
          else (case coordinator_enqueue (ar_enqueue r) of
             None \<Rightarrow> None
           | Some (Inr True) \<Rightarrow> Some None
           | Some (Inr False) \<Rightarrow> Some (Some (fst (submit_cancelled i p required (ar_cache_after r))))
           | Some (Inl (Failed e)) \<Rightarrow> Some (Some (fst (submit_failed i p required e (ar_cache_after r))))
           | Some (Inl Panicked) \<Rightarrow> Some (Some (Inl Panicked))))"

fun acquire_rounds :: "host_cache_config \<Rightarrow> u32 \<Rightarrow> partition_descriptor \<Rightarrow> nat \<Rightarrow> acquire_round list
    \<Rightarrow> decoded_partition option routed option" where
  "acquire_rounds c i p required [] = None"
| "acquire_rounds c i p required (r # rs) =
     (case acquire_round c i p required r of
        None \<Rightarrow> None
      | Some None \<Rightarrow> acquire_rounds c i p required rs
      | Some (Some result) \<Rightarrow> Some result)"

definition cache_acquire :: "bundle_manifest \<Rightarrow> host_cache_config \<Rightarrow> u32 \<Rightarrow> acquire_round list
    \<Rightarrow> decoded_partition option routed option" where
  "cache_acquire m c i rounds =
     (case cache_admission m c i of
        Inl e \<Rightarrow> Some (Inl e)
      | Inr (p, required) \<Rightarrow> acquire_rounds c i p required rounds)"

section \<open>Loading\<close>

definition load_begin :: "bundle_manifest \<Rightarrow> u32 \<Rightarrow> host_cache \<Rightarrow> host_cache" where
  "load_begin m i h =
     (case get (bm_partitions m) (unat i) of
        None \<Rightarrow> h
      | Some p \<Rightarrow> (case cache_locked h of
          Inl e \<Rightarrow> h
        | Inr s \<Rightarrow> with_state (s\<lparr>cs_queue_depth := cs_queue_depth s - 1\<rparr>) h))"

definition contains_text :: "string \<Rightarrow> string \<Rightarrow> bool" where
  "contains_text pattern text \<longleftrightarrow> list_ex (\<lambda>k. take (length pattern) (drop k text) = pattern) [0..<length text + 1]"

definition load_end :: "(catalog_error \<Rightarrow> string) \<Rightarrow> bundle_manifest \<Rightarrow> u32 \<Rightarrow> bundle_error + decoded_partition \<Rightarrow> host_cache \<Rightarrow> host_cache" where
  "load_end show_catalog m i loaded h =
     (case get (bm_partitions m) (unat i) of
        None \<Rightarrow> h
      | Some p \<Rightarrow> (case cache_locked h of
          Inl e \<Rightarrow> h
        | Inr s \<Rightarrow>
          let staging = saturating_add (unat (pt_topology_length p)) (unat (pt_evidence_length p));
              required = saturating_mul staging 2;
              s = s\<lparr>cs_staging_bytes := cs_staging_bytes s - staging\<rparr> in
          (case loaded of
             Inr data \<Rightarrow> with_state (s\<lparr>cs_read_bytes := saturating_add (cs_read_bytes s) staging,
               cs_entries := btree_insert i (Ready data required (cs_tick s)) (cs_entries s)\<rparr>) h
           | Inl error \<Rightarrow>
               let text = bundle_error_display show_catalog error in
               with_state (s\<lparr>cs_bytes := cs_bytes s - required, cs_failed_loads := saturating_add (cs_failed_loads s) 1,
                 cs_checksum_failures := (if contains_text ''checksum'' text then saturating_add (cs_checksum_failures s) 1 else cs_checksum_failures s),
                 cs_short_reads := (case error of BundleIo f \<Rightarrow> if fe_kind f = UnexpectedEof then saturating_add (cs_short_reads s) 1 else cs_short_reads s
                   | _ \<Rightarrow> cs_short_reads s),
                 cs_poison := Some text, cs_entries := btree_insert i (LoadFailed text) (cs_entries s)\<rparr>) h)))"

section \<open>Snapshots and opening\<close>

record cache_snapshot =
  sn_capacity_bytes :: nat
  sn_current_bytes :: nat
  sn_high_water_bytes :: nat
  sn_hits :: nat
  sn_misses :: nat
  sn_coalesced_waits :: nat
  sn_evictions :: nat
  sn_read_bytes :: nat
  sn_checksum_failures :: nat
  sn_entries :: nat
  sn_pinned_entries :: nat
  sn_queue_depth :: nat
  sn_queue_high_water :: nat
  sn_failed_loads :: nat
  sn_staging_capacity_bytes :: nat
  sn_staging_current_bytes :: nat
  sn_staging_high_water_bytes :: nat
  sn_short_reads :: nat

definition entry_pinned :: "(u32 \<Rightarrow> bool) \<Rightarrow> u32 \<times> cache_entry \<Rightarrow> bool" where
  "entry_pinned pinned e = (case e of (k, Loading) \<Rightarrow> True | (k, Ready _ _ _) \<Rightarrow> pinned k | (k, LoadFailed _) \<Rightarrow> False)"

definition host_cache_snapshot :: "host_cache_config \<Rightarrow> (u32 \<Rightarrow> bool) \<Rightarrow> host_cache \<Rightarrow> cache_snapshot routed" where
  "host_cache_snapshot c pinned h =
     (if ho_lock_poisoned h then Inl Panicked
      else let s = ho_state h in
      Inr \<lparr>sn_capacity_bytes = hc_maximum_bytes c, sn_current_bytes = cs_bytes s, sn_high_water_bytes = cs_high s,
           sn_hits = cs_hits s, sn_misses = cs_misses s, sn_coalesced_waits = cs_waits s, sn_evictions = cs_evictions s,
           sn_read_bytes = cs_read_bytes s, sn_checksum_failures = cs_checksum_failures s, sn_entries = length (cs_entries s),
           sn_pinned_entries = length (filter (entry_pinned pinned) (cs_entries s)), sn_queue_depth = cs_queue_depth s,
           sn_queue_high_water = cs_queue_high_water s, sn_failed_loads = cs_failed_loads s,
           sn_staging_capacity_bytes = hc_maximum_staging_bytes c, sn_staging_current_bytes = cs_staging_bytes s,
           sn_staging_high_water_bytes = cs_staging_high s, sn_short_reads = cs_short_reads s\<rparr>)"

text \<open>\<^verbatim>\<open>IoCoordinator::start\<close>: \<open>spawn\<close> tells how starting each worker thread ends.\<close>

definition coordinator_start :: "reserve \<Rightarrow> (nat \<Rightarrow> file_error option) \<Rightarrow> nat \<Rightarrow> nat bundled" where
  "coordinator_start reserve spawn workers =
     (if \<not> reserve ''I/O workers'' workers then invalid ''I/O worker allocation failed''
      else fold_result (\<lambda>index n. case spawn index of Some e \<Rightarrow> Inl (Failed (BundleIo e)) | None \<Rightarrow> Inr (n + 1)) [0..<workers] 0)"

definition check_cache_limits :: "host_cache_config \<Rightarrow> partition_descriptor \<Rightarrow> unit \<Rightarrow> unit bundled" where
  "check_cache_limits c p u =
     (if staging_of p > U64_MAX then Inl Panicked
      else
      rbind (ok_or (checked_mul (staging_of p) 2) (Failed (BundleInvalid ''cache admission overflow''))) (\<lambda>required.
      if required > hc_maximum_bytes c then Inl (Failed (BundleLimit ''host partition cache'' required (hc_maximum_bytes c)))
      else if staging_of p > hc_maximum_staging_bytes c
      then Inl (Failed (BundleLimit ''host partition staging'' (staging_of p) (hc_maximum_staging_bytes c)))
      else Inr ()))"

definition open_shared :: "reserve \<Rightarrow> (nat \<Rightarrow> file_error option) \<Rightarrow> routing_bundle \<Rightarrow> host_cache_config \<Rightarrow> host_cache bundled" where
  "open_shared reserve spawn b c =
     (if hc_maximum_bytes c = 0 \<or> hc_maximum_staging_bytes c = 0 \<or> hc_maximum_entries c = 0
         \<or> hc_io_worker_count c = 0 \<or> hc_maximum_queued_reads c = 0
      then invalid ''host cache and I/O limits must be nonzero''
      else
      rbind (fold_result (check_cache_limits c) (bm_partitions (rb_manifest b)) ()) (\<lambda>_.
      rbind (coordinator_start reserve spawn (hc_io_worker_count c)) (\<lambda>_.
      Inr \<lparr>ho_state = cache_state_new, ho_lock_poisoned = False\<rparr>)))"

section \<open>The partitioned image\<close>

text \<open>\<^verbatim>\<open>ChunkedRoutingImage\<close> as a routing topology. \<open>acquire\<close> is \<open>cache_acquire\<close> as this caller observes
  it, with the number of times it polled the cancellation signal.\<close>

type_synonym partition_source = "environment \<Rightarrow> nat \<Rightarrow> u32 \<Rightarrow> (decoded_partition option \<times> nat) routed"

definition partition_point :: "(nat \<Rightarrow> bool) \<Rightarrow> nat list \<Rightarrow> nat" where
  "partition_point P xs = length (takeWhile P xs)"

definition chunked_dense_node_id :: "routing_bundle \<Rightarrow> node_id \<Rightarrow> dense_node_id option" where
  "chunked_dense_node_id b i = map_option (\<lambda>v. DenseNodeId (word_of_nat v)) (binary_search (rb_nodes b) i)"

definition chunked_external_node_id :: "routing_bundle \<Rightarrow> dense_node_id \<Rightarrow> node_id option" where
  "chunked_external_node_id b x = get (rb_nodes b) (dense_as_usize x)"

definition chunked_outgoing_range :: "routing_bundle \<Rightarrow> dense_node_id \<Rightarrow> (nat \<times> nat) routed" where
  "chunked_outgoing_range b source =
     rbind (index (rb_source_edge_offsets b) (dense_as_usize source)) (\<lambda>start.
     rbind (index (rb_source_edge_offsets b) (dense_as_usize source + 1)) (\<lambda>stop. Inr (start, stop)))"

definition bundle_edge :: "routing_bundle \<Rightarrow> decoded_partition \<Rightarrow> nat \<Rightarrow> outgoing_edge routed" where
  "bundle_edge b data i =
     rbind (index (dp_relations data) i) (\<lambda>relation_index.
     rbind (index (dp_edges data) i) (\<lambda>edge.
     rbind (index (dp_destinations data) i) (\<lambda>destination.
     rbind (index (rb_relations b) (unat relation_index)) (\<lambda>relation.
     rbind (index (dp_weights data) i) (\<lambda>bits.
     rbind (map_err (\<lambda>_. Failed (ImageAccess ''cached weight became invalid'')) (base_weight_from_bits bits)) (\<lambda>weight.
     Inr \<lparr>oe_edge_id = EdgeId edge, oe_destination = DenseNodeId destination, oe_relation_id = relation,
          oe_base_weight = weight, oe_relation_index = relation_index\<rparr>))))))"

definition chunked_edge_at :: "partition_source \<Rightarrow> routing_bundle \<Rightarrow> environment \<Rightarrow> nat \<Rightarrow> nat
    \<Rightarrow> (outgoing_edge option \<times> nat) routed" where
  "chunked_edge_at acquire b env polls i =
     (let part = partition_point (\<lambda>v. v \<le> i) (rb_partition_edge_offsets b) - 1 in
      rbind (index (rb_partition_edge_offsets b) part) (\<lambda>start.
      if i < start then Inl Panicked
      else
      rbind (acquire env polls (word_of_nat part)) (\<lambda>(loaded, polls).
      case loaded of
        None \<Rightarrow> Inr (None, polls)
      | Some data \<Rightarrow> rbind (bundle_edge b data (i - start)) (\<lambda>edge. Inr (Some edge, polls)))))"

definition chunked_topology :: "partition_source \<Rightarrow> routing_bundle \<Rightarrow> routing_topology" where
  "chunked_topology acquire b =
     \<lparr>tp_node_count = length (rb_nodes b), tp_relation_kind_count = length (rb_relations b),
      tp_adjacency_count = unat (bm_adjacency_count (rb_manifest b)), tp_dense_node_id = chunked_dense_node_id b,
      tp_external_node_id = chunked_external_node_id b, tp_relation_ids = rb_relations b,
      tp_outgoing_range = chunked_outgoing_range b, tp_edge_at = chunked_edge_at acquire b\<rparr>"

definition source_partition_ids :: "routing_bundle \<Rightarrow> u32 \<Rightarrow> u32 list bundled" where
  "source_partition_ids b source =
     (let offsets = rb_source_segment_offsets b; i = unat source;
          (start, stop) = (if i + 1 < length offsets then (unat (offsets ! i), unat (offsets ! (i + 1))) else (0, 0))
      in rbind (slice_range (rb_segments b) start stop) (\<lambda>range. Inr (map sd_partition range)))"

text \<open>Routing over the partitioned image, with the cache as the snapshots before and after find it.\<close>

record partitioned_diagnostics =
  pd_cache :: cache_snapshot
  pd_partitions :: nat
  pd_file_bytes :: nat

definition route_partitioned_controlled :: "environment \<Rightarrow> partition_source \<Rightarrow> host_cache_config \<Rightarrow> (u32 \<Rightarrow> bool) \<times> host_cache
    \<Rightarrow> (u32 \<Rightarrow> bool) \<times> host_cache \<Rightarrow> routing_bundle \<Rightarrow> routing_request
    \<Rightarrow> (routing_response \<times> cpu_search_diagnostics \<times> partitioned_diagnostics) routed" where
  "route_partitioned_controlled env acquire c found left b request =
     rbind (host_cache_snapshot c (fst found) (snd found)) (\<lambda>before.
     rbind (route_topology_controlled env (chunked_topology acquire b) request) (\<lambda>(response, cpu).
     rbind (host_cache_snapshot c (fst left) (snd left)) (\<lambda>after.
     Inr (response, cpu, \<lparr>pd_cache = after, pd_partitions = sn_misses after - sn_misses before,
       pd_file_bytes = sn_read_bytes after - sn_read_bytes before\<rparr>))))"

definition route_partitioned :: "reserve \<Rightarrow> partition_source \<Rightarrow> host_cache_config \<Rightarrow> (u32 \<Rightarrow> bool) \<times> host_cache
    \<Rightarrow> (u32 \<Rightarrow> bool) \<times> host_cache \<Rightarrow> routing_bundle \<Rightarrow> routing_request \<Rightarrow> routing_response routed" where
  "route_partitioned reserve acquire c found left b request =
     rbind (route_partitioned_controlled \<lparr>env_cancelled = (\<lambda>_. False), env_reserve = reserve\<rparr> acquire c found left b request)
       (\<lambda>(response, _). Inr response)"

section \<open>Leases and the bundle snapshot\<close>

record partition_source_segment =
  pss_source :: u32
  pss_first_edge_ordinal :: u64
  pss_start :: u32
  pss_edge_count :: u32

record partition_lease =
  pl_id :: u32
  pl_data :: decoded_partition

definition lease_source_segments :: "partition_lease \<Rightarrow> partition_source_segment list" where
  "lease_source_segments l =
     map (\<lambda>s. \<lparr>pss_source = ds_source s, pss_first_edge_ordinal = ds_first_ordinal s, pss_start = ds_start s, pss_edge_count = ds_count s\<rparr>)
       (dp_segments (pl_data l))"

text \<open>\<^verbatim>\<open>size_of::<DecodedSegment>()\<close> is 24: three 32-bit fields and a 64-bit one, aligned to 8.\<close>

definition lease_decoded_bytes :: "partition_lease \<Rightarrow> nat" where
  "lease_decoded_bytes l =
     saturating_add (saturating_mul (length (dp_destinations (pl_data l))) 20) (saturating_mul (length (dp_segments (pl_data l))) 24)"

definition acquire_partition :: "bundle_manifest \<Rightarrow> host_cache_config \<Rightarrow> u32 \<Rightarrow> acquire_round list \<Rightarrow> partition_lease option routed option" where
  "acquire_partition m c i rounds =
     map_option (\<lambda>r. rbind r (\<lambda>d. Inr (map_option (\<lambda>data. \<lparr>pl_id = i, pl_data = data\<rparr>) d))) (cache_acquire m c i rounds)"

definition chunked_pack_profile :: "reserve \<Rightarrow> routing_bundle \<Rightarrow> relation_profile \<Rightarrow> (profile_error fault) + packed_relation_profile" where
  "chunked_pack_profile reserve b profile = pack_relation_ids reserve profile (rb_relations b)"

definition delay_reads :: "nat \<Rightarrow> fault_injection \<Rightarrow> fault_injection" where
  "delay_reads milliseconds f = f\<lparr>fi_delay_milliseconds := word_of_nat (min milliseconds U64_MAX)\<rparr>"

definition bundle_total_bytes :: "directory \<Rightarrow> routing_bundle \<Rightarrow> nat" where
  "bundle_total_bytes dir b =
     (let m = rb_manifest b in
      saturating_add (saturating_add (saturating_add (saturating_add (unat (fd_length (bm_identities m))) (unat (fd_length (bm_source_directory m))))
        (unat (fd_length (bm_topology m)))) (unat (fd_length (bm_evidence m))))
        (case map_of dir ''manifest.bin'' of None \<Rightarrow> 0 | Some bs \<Rightarrow> length bs))"

definition hex_digit :: "nat \<Rightarrow> char" where
  "hex_digit d = ''0123456789abcdef'' ! d"

definition hex_byte :: "8 word \<Rightarrow> string" where
  "hex_byte w = [hex_digit (unat w div 16), hex_digit (unat w mod 16)]"

record bundle_snapshot =
  bs_relative_name :: string
  bs_manifest_checksum_hex :: string
  bs_total_bytes :: nat
  bs_identity_bytes :: nat
  bs_source_directory_bytes :: nat
  bs_topology_bytes :: nat
  bs_evidence_bytes :: nat
  bs_partition_count :: nat
  bs_segment_count :: nat
  bs_largest_partition_bytes :: nat
  bs_split_source_count :: nat

text \<open>\<open>name\<close> is the last component of the bundle's path.\<close>

definition routing_bundle_snapshot :: "string \<Rightarrow> directory \<Rightarrow> routing_bundle \<Rightarrow> bundle_snapshot" where
  "routing_bundle_snapshot name dir b =
     (let m = rb_manifest b in
      \<lparr>bs_relative_name = name, bs_manifest_checksum_hex = concat (map hex_byte (rb_manifest_checksum b)),
       bs_total_bytes = bundle_total_bytes dir b, bs_identity_bytes = unat (fd_length (bm_identities m)),
       bs_source_directory_bytes = unat (fd_length (bm_source_directory m)), bs_topology_bytes = unat (fd_length (bm_topology m)),
       bs_evidence_bytes = unat (fd_length (bm_evidence m)), bs_partition_count = length (bm_partitions m),
       bs_segment_count = length (rb_segments b),
       bs_largest_partition_bytes =
         fold max (map (\<lambda>p. saturating_add (unat (pt_topology_length p)) (unat (pt_evidence_length p))) (bm_partitions m)) 0,
       bs_split_source_count = length (filter (\<lambda>(a, b). unat b - unat a > 1) (windows2 (rb_source_segment_offsets b)))\<rparr>)"

end
