(* ===== verification/Cache_Invariant.thy ===== *)
theory Cache_Invariant
  imports Host_Cache Transitions
begin

text \<open>
  The host cache under every interleaving of callers, queue and workers. A system state is the
  cache with the reads that are being submitted, queued and loaded, and the leases held by
  callers; a step is one critical section of one thread. The invariant accounts for every byte of
  the budget and says that a ready entry holds the partition that is on disk.
\<close>

section \<open>Sums over the entries of a map\<close>

lemma sum_btree_insert_new:
  fixes f :: "'k::linorder \<times> 'v \<Rightarrow> nat"
  shows "btree_get m k = None \<Longrightarrow> sum_list (map f (btree_insert k v m)) = sum_list (map f m) + f (k, v)"
  by (induction k v m rule: btree_insert.induct) (auto simp: btree_get_def split: if_splits)

lemma sum_btree_insert_old:
  fixes f :: "'k::linorder \<times> 'v \<Rightarrow> nat"
  shows "btree_ok m \<Longrightarrow> btree_get m k = Some w \<Longrightarrow> sum_list (map f (btree_insert k v m)) + f (k, w) = sum_list (map f m) + f (k, v)"
proof (induction k v m rule: btree_insert.induct)
  case (2 k v k' v' m)
  have "btree_get m k = None" if "k < k'"
    using "2.prems"(1) that by (force simp: btree_ok_def btree_get_def map_of_eq_None_iff)
  with 2 show ?case by (auto simp: btree_ok_def btree_get_def split: if_splits)
qed (simp add: btree_get_def)

lemma sum_btree_remove:
  fixes f :: "'k::linorder \<times> 'v \<Rightarrow> nat"
  shows "btree_ok m \<Longrightarrow> btree_get m k = Some w \<Longrightarrow> sum_list (map f (btree_remove k m)) + f (k, w) = sum_list (map f m)"
proof (induction m)
  case (Cons e m)
  obtain k' v' where e: "e = (k', v')" by (cases e)
  have keys: "\<forall>x \<in> set m. k' < fst x" using Cons.prems(1) e by (auto simp: btree_ok_def)
  have "btree_remove k m = m" if "k = k'" using keys that by (auto simp: btree_remove_def btree_retain_def filter_id_conv)
  with Cons e show ?case by (auto simp: btree_ok_def btree_get_def btree_remove_def btree_retain_def split: if_splits)
qed (simp add: btree_get_def)

lemma length_btree:
  "btree_get m k = None \<Longrightarrow> length (btree_insert k v m) = length m + 1"
  "btree_ok m \<Longrightarrow> btree_get m k = Some w \<Longrightarrow> length (btree_insert k v m) = length m"
  "btree_ok m \<Longrightarrow> btree_get m k = Some w \<Longrightarrow> length (btree_remove k m) + 1 = length m"
  using sum_btree_insert_new [of m k "\<lambda>_. 1" v] sum_btree_insert_old [of m k w "\<lambda>_. 1" v] sum_btree_remove [of m k w "\<lambda>_. 1"]
  by (simp_all add: sum_list_triv)

section \<open>Steps\<close>

record cache_system =
  cy_cache :: host_cache
  cy_submitting :: "u32 list"
  cy_queue :: "u32 list"
  cy_loading :: "u32 list"
  cy_leases :: "u32 list"

definition partition_of :: "bundle_manifest \<Rightarrow> u32 \<Rightarrow> partition_descriptor" where
  "partition_of m k = bm_partitions m ! unat k"

text \<open>Each step is a critical section of the cache or a transfer between the callers, the queue and
  the workers. \<open>data\<close> is what loading each partition yields when it succeeds, and \<open>step_load\<close> allows
  every failure besides; \<open>load_is_step\<close> in \<open>Partitioned_Image\<close> shows that each outcome of
  \<^verbatim>\<open>load_partition\<close> is such a step.\<close>

inductive cache_step :: "(catalog_error \<Rightarrow> string) \<Rightarrow> bundle_manifest \<Rightarrow> host_cache_config \<Rightarrow> (u32 \<Rightarrow> decoded_partition)
    \<Rightarrow> cache_system \<Rightarrow> cache_system \<Rightarrow> bool" for show_catalog m c data where
  step_attempt: "cache_admission m c i = Inr (p, required) \<Longrightarrow>
    acquire_attempt c (\<lambda>k. k \<in> set (cy_leases y)) i p required (cy_cache y) = (r, h) \<Longrightarrow>
    cache_step show_catalog m c data y
      (y\<lparr>cy_cache := h, cy_submitting := (if r = Inr Submit then cy_submitting y @ [i] else cy_submitting y),
         cy_leases := (case r of Inr (Hit _) \<Rightarrow> cy_leases y @ [i] | _ \<Rightarrow> cy_leases y)\<rparr>)"
| step_submitted: "k < length (cy_submitting y) \<Longrightarrow> length (cy_queue y) < hc_maximum_queued_reads c \<Longrightarrow>
    cache_step show_catalog m c data y
      (y\<lparr>cy_submitting := drop_nth k (cy_submitting y), cy_queue := cy_queue y @ [cy_submitting y ! k]\<rparr>)"
| step_cancelled: "k < length (cy_submitting y) \<Longrightarrow> cache_admission m c (cy_submitting y ! k) = Inr (p, required) \<Longrightarrow>
    submit_cancelled (cy_submitting y ! k) p required (cy_cache y) = (r, h) \<Longrightarrow>
    cache_step show_catalog m c data y (y\<lparr>cy_cache := h, cy_submitting := drop_nth k (cy_submitting y)\<rparr>)"
| step_disconnected: "k < length (cy_submitting y) \<Longrightarrow> cache_admission m c (cy_submitting y ! k) = Inr (p, required) \<Longrightarrow>
    submit_failed (cy_submitting y ! k) p required e (cy_cache y) = (r, h) \<Longrightarrow>
    cache_step show_catalog m c data y (y\<lparr>cy_cache := h, cy_submitting := drop_nth k (cy_submitting y)\<rparr>)"
| step_take: "cy_queue y = i # rest \<Longrightarrow>
    cache_step show_catalog m c data y (y\<lparr>cy_cache := load_begin m i (cy_cache y), cy_queue := rest, cy_loading := cy_loading y @ [i]\<rparr>)"
| step_load: "k < length (cy_loading y) \<Longrightarrow> (\<And>d. loaded = Inr d \<Longrightarrow> d = data (cy_loading y ! k)) \<Longrightarrow>
    cache_step show_catalog m c data y
      (y\<lparr>cy_cache := load_end show_catalog m (cy_loading y ! k) loaded (cy_cache y), cy_loading := drop_nth k (cy_loading y)\<rparr>)"
| step_release: "k < length (cy_leases y) \<Longrightarrow>
    cache_step show_catalog m c data y (y\<lparr>cy_leases := drop_nth k (cy_leases y)\<rparr>)"

definition cache_system_new :: cache_system where
  "cache_system_new = \<lparr>cy_cache = \<lparr>ho_state = cache_state_new, ho_lock_poisoned = False\<rparr>, cy_submitting = [],
     cy_queue = [], cy_loading = [], cy_leases = []\<rparr>"

section \<open>The invariant\<close>

definition cost :: "bundle_manifest \<Rightarrow> u32 \<Rightarrow> nat" where
  "cost m k = 2 * staging_of (partition_of m k)"

definition entry_cost :: "bundle_manifest \<Rightarrow> u32 \<times> cache_entry \<Rightarrow> nat" where
  "entry_cost m e = (case e of (k, LoadFailed _) \<Rightarrow> 0 | (k, _) \<Rightarrow> cost m k)"

definition entries_inv :: "bundle_manifest \<Rightarrow> (u32 \<Rightarrow> decoded_partition) \<Rightarrow> u32 set \<Rightarrow> u32 set \<Rightarrow> (u32, cache_entry) btree_map \<Rightarrow> nat \<Rightarrow> bool" where
  "entries_inv m data reads leases es total_bytes \<longleftrightarrow>
     btree_ok es \<and> (\<forall>k. btree_get es k = Some Loading \<longleftrightarrow> k \<in> reads)
     \<and> (\<forall>k d b t. btree_get es k = Some (Ready d b t) \<longrightarrow> d = data k \<and> b = cost m k)
     \<and> (\<forall>k \<in> leases. \<exists>d b t. btree_get es k = Some (Ready d b t))
     \<and> total_bytes = sum_list (map (entry_cost m) es)"

definition reads_of :: "cache_system \<Rightarrow> u32 list" where
  "reads_of y = cy_submitting y @ cy_queue y @ cy_loading y"

definition cache_inv :: "bundle_manifest \<Rightarrow> host_cache_config \<Rightarrow> (u32 \<Rightarrow> decoded_partition) \<Rightarrow> cache_system \<Rightarrow> bool" where
  "cache_inv m c data y \<longleftrightarrow>
     (let s = ho_state (cy_cache y) in
      \<not> ho_lock_poisoned (cy_cache y) \<and> entries_inv m data (set (reads_of y)) (set (cy_leases y)) (cs_entries s) (cs_bytes s)
      \<and> distinct (reads_of y) \<and> (\<forall>k \<in> set (reads_of y). unat k < length (bm_partitions m) \<and> cost m k \<le> hc_maximum_bytes c)
      \<and> cs_bytes s \<le> hc_maximum_bytes c \<and> cs_high s \<le> hc_maximum_bytes c
      \<and> cs_staging_bytes s = (\<Sum>k \<leftarrow> reads_of y. staging_of (partition_of m k))
      \<and> cs_staging_bytes s \<le> hc_maximum_staging_bytes c \<and> cs_staging_high s \<le> hc_maximum_staging_bytes c
      \<and> length (cs_entries s) \<le> hc_maximum_entries c
      \<and> cs_queue_depth s = length (cy_submitting y) + length (cy_queue y)
      \<and> cs_queue_depth s \<le> hc_maximum_queued_reads c + hc_io_worker_count c)"

text \<open>Limits at which the unchecked sums of the source stay within 64 bits.\<close>

definition limits_ok :: "host_cache_config \<Rightarrow> bool" where
  "limits_ok c \<longleftrightarrow> 2 * hc_maximum_bytes c \<le> U64_MAX \<and> hc_maximum_staging_bytes c < U64_MAX"

lemma admission_iff:
  "cache_admission m c i = Inr (p, required) \<longleftrightarrow>
     unat i < length (bm_partitions m) \<and> p = partition_of m i \<and> required = cost m i \<and> cost m i \<le> U64_MAX \<and> cost m i \<le> hc_maximum_bytes c"
  by (auto simp: cache_admission_def rbind_Inr_iff get_def partition_of_def cost_def staging_of_def image_access_def bind_eq_Some_conv
      checked_add_Some_iff checked_mul_Some_iff split: if_splits)

lemma entries_invD:
  assumes "entries_inv m data reads leases es total_bytes"
  shows "btree_ok es" "btree_get es k = Some Loading \<longleftrightarrow> k \<in> reads" "btree_get es k = Some (Ready d b t) \<Longrightarrow> d = data k \<and> b = cost m k"
    "k \<in> leases \<Longrightarrow> \<exists>d b t. btree_get es k = Some (Ready d b t)" "total_bytes = sum_list (map (entry_cost m) es)"
  using assms unfolding entries_inv_def by blast+

text \<open>How the entries of one key may change.\<close>

lemma entries_used:
  assumes "entries_inv m data reads leases es n" "btree_get es k = Some (Ready d b t)"
  shows "entries_inv m data reads leases (btree_insert k (Ready d b t') es) n"
    "entries_inv m data reads (insert k leases) (btree_insert k (Ready d b t') es) n"
proof -
  note inv = entries_invD [OF assms(1)]
  have "k \<notin> reads" using inv(2) [of k] assms(2) by simp
  then show "entries_inv m data reads (insert k leases) (btree_insert k (Ready d b t') es) n"
    using inv assms(2) sum_btree_insert_old [OF inv(1) assms(2), of "entry_cost m" "Ready d b t'"] btree_insert_ok [OF inv(1)]
    by (auto simp: entries_inv_def btree_get_insert [OF inv(1)] entry_cost_def)
  then show "entries_inv m data reads leases (btree_insert k (Ready d b t') es) n" by (simp add: entries_inv_def)
qed

lemma entries_started:
  assumes "entries_inv m data reads leases es n" "btree_get es k = None"
  shows "entries_inv m data (insert k reads) leases (btree_insert k Loading es) (n + cost m k)"
proof -
  note inv = entries_invD [OF assms(1)]
  have "k \<notin> leases" using inv(4) [of k] assms(2) by auto
  then show ?thesis
    using inv assms(2) sum_btree_insert_new [OF assms(2), of "entry_cost m" Loading] btree_insert_ok [OF inv(1)]
    by (auto simp: entries_inv_def btree_get_insert [OF inv(1)] entry_cost_def)
qed

lemma entries_ended:
  assumes "entries_inv m data reads leases es n" "k \<in> reads"
  shows "entries_inv m data (reads - {k}) leases (btree_insert k (Ready (data k) (cost m k) t) es) n"
    "entries_inv m data (reads - {k}) leases (btree_insert k (LoadFailed reason) es) (n - cost m k)"
    "entries_inv m data (reads - {k}) leases (btree_remove k es) (n - cost m k)"
    "cost m k \<le> n" "btree_get es k = Some Loading" "k \<notin> leases"
proof -
  note inv = entries_invD [OF assms(1)]
  show l: "btree_get es k = Some Loading" using inv(2) assms(2) by simp
  show nl: "k \<notin> leases" using inv(4) [of k] l by auto
  show "entries_inv m data (reads - {k}) leases (btree_insert k (Ready (data k) (cost m k) t) es) n"
    using inv nl sum_btree_insert_old [OF inv(1) l, of "entry_cost m" "Ready (data k) (cost m k) t"] btree_insert_ok [OF inv(1)]
    by (auto simp: entries_inv_def btree_get_insert [OF inv(1)] entry_cost_def)
  show "entries_inv m data (reads - {k}) leases (btree_insert k (LoadFailed reason) es) (n - cost m k)"
    using inv nl sum_btree_insert_old [OF inv(1) l, of "entry_cost m" "LoadFailed reason"] btree_insert_ok [OF inv(1)]
    by (auto simp: entries_inv_def btree_get_insert [OF inv(1)] entry_cost_def)
  show "entries_inv m data (reads - {k}) leases (btree_remove k es) (n - cost m k)"
    using inv nl sum_btree_remove [OF inv(1) l, of "entry_cost m"] btree_remove_ok [OF inv(1)]
    by (auto simp: entries_inv_def btree_get_remove [OF inv(1)] entry_cost_def)
  show "cost m k \<le> n" using inv(5) sum_btree_remove [OF inv(1) l, of "entry_cost m"] by (simp add: entry_cost_def)
qed

lemma entries_evicted:
  assumes "entries_inv m data reads leases es n" "btree_get es k = Some (Ready d b t)" "k \<notin> leases"
  shows "entries_inv m data reads leases (btree_remove k es) (n - b)" "b \<le> n"
proof -
  note inv = entries_invD [OF assms(1)]
  have "k \<notin> reads" using inv(2) [of k] assms(2) by simp
  then show "entries_inv m data reads leases (btree_remove k es) (n - b)"
    using inv assms(2,3) sum_btree_remove [OF inv(1) assms(2), of "entry_cost m"] btree_remove_ok [OF inv(1)]
    by (auto simp: entries_inv_def btree_get_remove [OF inv(1)] entry_cost_def)
  show "b \<le> n" using inv(3) [OF assms(2)] inv(5) sum_btree_remove [OF inv(1) assms(2), of "entry_cost m"] by (simp add: entry_cost_def)
qed

lemma evict_entries:
  assumes "entries_inv m data reads leases (cs_entries s) (cs_bytes s)" "cs_bytes s \<le> hc_maximum_bytes c" "required \<le> hc_maximum_bytes c" "limits_ok c"
    and "evict c (\<lambda>k. k \<in> leases) required s = (r, s')"
  shows "entries_inv m data reads leases (cs_entries s') (cs_bytes s') \<and> cs_bytes s' \<le> cs_bytes s \<and> length (cs_entries s') \<le> length (cs_entries s)
    \<and> r \<noteq> Inl Panicked \<and> (r = Inr () \<longrightarrow> cs_bytes s' + required \<le> hc_maximum_bytes c \<and> length (cs_entries s') < hc_maximum_entries c)
    \<and> (\<forall>k. btree_get (cs_entries s) k = None \<longrightarrow> btree_get (cs_entries s') k = None)
    \<and> (\<exists>es bs ev. s' = s\<lparr>cs_entries := es, cs_bytes := bs, cs_evictions := ev\<rparr>)"
  using assms
proof (induction c "\<lambda>k. k \<in> leases" required s rule: evict.induct)
  case (1 c required s)
  note ok = entries_invD(1) [OF "1.prems"(1)]
  have small: "\<not> cs_bytes s + required > U64_MAX" using "1.prems"(2-4) by (simp add: limits_ok_def)
  have same: "\<exists>es bs ev. s = s\<lparr>cs_entries := es, cs_bytes := bs, cs_evictions := ev\<rparr>"
    by (intro exI [of _ "cs_entries s"] exI [of _ "cs_bytes s"] exI [of _ "cs_evictions s"]) simp
  show ?case
  proof (cases "cs_bytes s + required > hc_maximum_bytes c \<or> length (cs_entries s) \<ge> hc_maximum_entries c")
    case full: True
    show ?thesis
    proof (cases "victim (\<lambda>k. k \<in> leases) (cs_entries s)")
      case None
      then have "r = image_access ''host partition cache is full and every entry is pinned or loading'' \<and> s' = s"
        using "1.prems"(5) full small by (subst (asm) evict.simps) auto
      then show ?thesis using "1.prems"(1) same by (simp add: image_access_def)
    next
      case (Some v)
      obtain k b t where v: "v = (k, b, t)" by (cases v)
      obtain d where e: "btree_get (cs_entries s) k = Some (Ready d b t)" "k \<notin> leases"
        using victim_Some [OF Some [unfolded v]] btree.entries_lookup [OF ok] by blast
      let ?t = "s\<lparr>cs_entries := btree_remove k (cs_entries s), cs_bytes := cs_bytes s - b, cs_evictions := saturating_add (cs_evictions s) 1\<rparr>"
      have inv: "entries_inv m data reads leases (cs_entries ?t) (cs_bytes ?t)" and sum: "b \<le> cs_bytes s"
        using entries_evicted [OF "1.prems"(1) e] by simp_all
      have ev: "evict c (\<lambda>k. k \<in> leases) required ?t = (r, s')"
        using "1.prems"(5) full small Some v sum by (subst (asm) evict.simps) auto
      have "entries_inv m data reads leases (cs_entries s') (cs_bytes s') \<and> cs_bytes s' \<le> cs_bytes ?t \<and> length (cs_entries s') \<le> length (cs_entries ?t)
          \<and> r \<noteq> Inl Panicked \<and> (r = Inr () \<longrightarrow> cs_bytes s' + required \<le> hc_maximum_bytes c \<and> length (cs_entries s') < hc_maximum_entries c)
          \<and> (\<forall>k. btree_get (cs_entries ?t) k = None \<longrightarrow> btree_get (cs_entries s') k = None)
          \<and> (\<exists>es bs ev. s' = ?t\<lparr>cs_entries := es, cs_bytes := bs, cs_evictions := ev\<rparr>)"
        using small full Some v sum by (intro "1.hyps" [OF _ _ Some] inv ev "1.prems"(3,4)) (use "1.prems"(2) in auto)
      then show ?thesis
        using length_btree(3) [OF ok e(1)] btree_get_remove [OF ok, of k] by (auto simp: fun_upd_def)
    qed
  next
    case False
    then have "r = Inr () \<and> s' = s" using "1.prems"(5) small by (subst (asm) evict.simps) auto
    then show ?thesis using "1.prems"(1) False same by simp
  qed
qed

section \<open>Every step keeps the invariant\<close>

lemma drop_nth_parts:
  assumes "k < length xs" "distinct (us @ xs @ vs)"
  shows "set (us @ drop_nth k xs @ vs) = set (us @ xs @ vs) - {xs ! k}" "distinct (us @ drop_nth k xs @ vs)"
proof -
  have xs: "xs = take k xs @ xs ! k # drop (Suc k) xs" using assms(1) by (rule id_take_nth_drop)
  then have "distinct (us @ (take k xs @ xs ! k # drop (Suc k) xs) @ vs)" using assms(2) by simp
  then have "xs ! k \<notin> set us" "xs ! k \<notin> set vs" "xs ! k \<notin> set (take k xs)" "xs ! k \<notin> set (drop (Suc k) xs)"
    "distinct (us @ drop_nth k xs @ vs)" by (auto simp: drop_nth_def)
  moreover have "set xs = insert (xs ! k) (set (drop_nth k xs))" by (subst xs) (auto simp: drop_nth_def)
  ultimately show "set (us @ drop_nth k xs @ vs) = set (us @ xs @ vs) - {xs ! k}" "distinct (us @ drop_nth k xs @ vs)"
    by (auto simp: drop_nth_def)
qed

text \<open>A read that leaves the system: \<open>i\<close> was being read, and \<open>y\<close> becomes a state whose reads are the others.\<close>

definition read_left :: "bundle_manifest \<Rightarrow> cache_system \<Rightarrow> cache_system \<Rightarrow> u32 \<Rightarrow> bool" where
  "read_left m y z i \<longleftrightarrow> i \<in> set (reads_of y) \<and> distinct (reads_of z) \<and> set (reads_of z) = set (reads_of y) - {i}
     \<and> (\<Sum>k \<leftarrow> reads_of y. staging_of (partition_of m k)) = staging_of (partition_of m i) + (\<Sum>k \<leftarrow> reads_of z. staging_of (partition_of m k))
     \<and> cy_leases z = cy_leases y"

lemma read_left_submitting:
  assumes "distinct (reads_of y)" "k < length (cy_submitting y)"
  shows "read_left m y (y\<lparr>cy_cache := h, cy_submitting := drop_nth k (cy_submitting y)\<rparr>) (cy_submitting y ! k)"
  using drop_nth_parts [of k "cy_submitting y" "[]" "cy_queue y @ cy_loading y"] assms
    sum_list_drop_nth [OF assms(2), of "\<lambda>k. staging_of (partition_of m k)"]
  by (auto simp: read_left_def reads_of_def)

lemma read_left_loading:
  assumes "distinct (reads_of y)" "k < length (cy_loading y)"
  shows "read_left m y (y\<lparr>cy_cache := h, cy_loading := drop_nth k (cy_loading y)\<rparr>) (cy_loading y ! k)"
  using drop_nth_parts [of k "cy_loading y" "cy_submitting y @ cy_queue y" "[]"] assms
    sum_list_drop_nth [OF assms(2), of "\<lambda>k. staging_of (partition_of m k)"]
  by (auto simp: read_left_def reads_of_def)

lemma read_ended:
  assumes inv: "cache_inv m c data y" and left: "read_left m y z i" and cache: "cy_cache z = with_state t (cy_cache y)"
  defines "s \<equiv> ho_state (cy_cache y)"
  assumes t: "cs_staging_bytes t = cs_staging_bytes s - staging_of (partition_of m i)" "cs_high t = cs_high s" "cs_staging_high t = cs_staging_high s"
    "cs_queue_depth t = length (cy_submitting z) + length (cy_queue z)" "cs_queue_depth t \<le> cs_queue_depth s"
    and entries: "cs_entries t = btree_insert i (Ready (data i) (cost m i) tick) (cs_entries s) \<and> cs_bytes t = cs_bytes s
      \<or> (cs_entries t = btree_insert i (LoadFailed reason) (cs_entries s) \<or> cs_entries t = btree_remove i (cs_entries s)) \<and> cs_bytes t = cs_bytes s - cost m i"
  shows "cache_inv m c data z"
proof -
  note I = inv [unfolded cache_inv_def Let_def, folded s_def] and L = left [unfolded read_left_def]
  have E: "entries_inv m data (set (reads_of y)) (set (cy_leases y)) (cs_entries s) (cs_bytes s)" using I by blast
  note ended = entries_ended [OF E, of i]
  have i: "i \<in> set (reads_of y)" using L by blast
  have "entries_inv m data (set (reads_of z)) (set (cy_leases z)) (cs_entries t) (cs_bytes t)"
    using entries ended(1-3) [OF i] L by (elim disjE conjE) simp_all
  moreover have "length (cs_entries t) \<le> length (cs_entries s)"
    using entries length_btree(2,3) [OF entries_invD(1) [OF E] ended(5) [OF i]] by auto
  moreover have "cs_bytes t \<le> cs_bytes s" using entries by auto
  ultimately show ?thesis using I L t by (auto simp: cache_inv_def Let_def cache with_state_def)
qed

lemma cancelled_step:
  assumes inv: "cache_inv m c data y" and k: "k < length (cy_submitting y)" and "cache_admission m c (cy_submitting y ! k) = Inr (p, required)"
    and "submit_cancelled (cy_submitting y ! k) p required (cy_cache y) = (r, h)"
  shows "cache_inv m c data (y\<lparr>cy_cache := h, cy_submitting := drop_nth k (cy_submitting y)\<rparr>) \<and> r = Inr None"
proof -
  let ?i = "cy_submitting y ! k" and ?s = "ho_state (cy_cache y)"
  have p: "p = partition_of m ?i" "required = cost m ?i" using assms(3) by (simp_all add: admission_iff)
  have I: "\<not> ho_lock_poisoned (cy_cache y)" "distinct (reads_of y)" "cs_queue_depth ?s = length (cy_submitting y) + length (cy_queue y)"
    "entries_inv m data (set (reads_of y)) (set (cy_leases y)) (cs_entries ?s) (cs_bytes ?s)"
    using inv by (simp_all add: cache_inv_def Let_def)
  have "?i \<in> set (reads_of y)" using k by (simp add: reads_of_def)
  note l = entries_ended(5) [OF I(4) this]
  define t where "t = ?s\<lparr>cs_queue_depth := cs_queue_depth ?s - 1, cs_entries := btree_remove ?i (cs_entries ?s),
     cs_bytes := cs_bytes ?s - required, cs_staging_bytes := cs_staging_bytes ?s - staging_of p\<rparr>"
  have h: "h = with_state t (cy_cache y)" "r = Inr None" using assms(4) I(1) l by (auto simp: submit_cancelled_def cache_locked_def t_def)
  show ?thesis
    using k I(3) length_drop_nth [OF k]
    by (auto simp: h t_def p intro!: read_ended [OF inv read_left_submitting [OF I(2) k], of _ _ undefined undefined])
qed

lemma failed_step:
  assumes inv: "cache_inv m c data y" and k: "k < length (cy_submitting y)" and "cache_admission m c (cy_submitting y ! k) = Inr (p, required)"
    and "submit_failed (cy_submitting y ! k) p required e (cy_cache y) = (r, h)"
  shows "cache_inv m c data (y\<lparr>cy_cache := h, cy_submitting := drop_nth k (cy_submitting y)\<rparr>) \<and> r = Inl (Failed e)"
proof -
  let ?i = "cy_submitting y ! k" and ?s = "ho_state (cy_cache y)"
  have p: "p = partition_of m ?i" "required = cost m ?i" using assms(3) by (simp_all add: admission_iff)
  have I: "\<not> ho_lock_poisoned (cy_cache y)" "distinct (reads_of y)" "cs_queue_depth ?s = length (cy_submitting y) + length (cy_queue y)"
    using inv by (simp_all add: cache_inv_def Let_def)
  define t where "t = ?s\<lparr>cs_queue_depth := cs_queue_depth ?s - 1, cs_bytes := cs_bytes ?s - required, cs_staging_bytes := cs_staging_bytes ?s - staging_of p,
     cs_entries := btree_insert ?i (LoadFailed (routing_error_display e)) (cs_entries ?s)\<rparr>"
  have h: "h = with_state t (cy_cache y)" "r = Inl (Failed e)" using assms(4) I(1) by (auto simp: submit_failed_def cache_locked_def t_def)
  show ?thesis
    using k I(3) length_drop_nth [OF k]
    by (auto simp: h t_def p intro!: read_ended [OF inv read_left_submitting [OF I(2) k], of _ _ undefined "routing_error_display e"])
qed

lemma staging_saturates:
  assumes "cost m i \<le> hc_maximum_bytes c" "limits_ok c"
  shows "saturating_add (unat (pt_topology_length (partition_of m i))) (unat (pt_evidence_length (partition_of m i))) = staging_of (partition_of m i)"
    "saturating_mul (staging_of (partition_of m i)) 2 = cost m i"
  using assms by (auto simp: cost_def limits_ok_def staging_of_def saturating_add_def saturating_mul_def)

lemma load_step:
  assumes inv: "cache_inv m c data y" and lim: "limits_ok c" and k: "k < length (cy_loading y)"
    and data: "\<And>d. loaded = Inr d \<Longrightarrow> d = data (cy_loading y ! k)"
  shows "cache_inv m c data (y\<lparr>cy_cache := load_end show_catalog m (cy_loading y ! k) loaded (cy_cache y), cy_loading := drop_nth k (cy_loading y)\<rparr>)"
proof -
  let ?i = "cy_loading y ! k" and ?s = "ho_state (cy_cache y)"
  have I: "\<not> ho_lock_poisoned (cy_cache y)" "distinct (reads_of y)" "cs_queue_depth ?s = length (cy_submitting y) + length (cy_queue y)"
    "\<forall>k \<in> set (reads_of y). unat k < length (bm_partitions m) \<and> cost m k \<le> hc_maximum_bytes c"
    using inv by (simp_all add: cache_inv_def Let_def)
  have i: "unat ?i < length (bm_partitions m)" "cost m ?i \<le> hc_maximum_bytes c" using I(4) k by (auto simp: reads_of_def)
  note st = staging_saturates [OF i(2) lim]
  have p: "get (bm_partitions m) (unat ?i) = Some (partition_of m ?i)" using i(1) by (simp add: get_def partition_of_def)
  show ?thesis
  proof (cases loaded)
    case (Inr d)
    define t where "t = ?s\<lparr>cs_staging_bytes := cs_staging_bytes ?s - staging_of (partition_of m ?i),
       cs_read_bytes := saturating_add (cs_read_bytes ?s) (staging_of (partition_of m ?i)),
       cs_entries := btree_insert ?i (Ready (data ?i) (cost m ?i) (cs_tick ?s)) (cs_entries ?s)\<rparr>"
    have h: "load_end show_catalog m ?i loaded (cy_cache y) = with_state t (cy_cache y)"
      using I(1) data [OF Inr] by (simp add: load_end_def Inr p st cache_locked_def t_def Let_def)
    show ?thesis
      unfolding h by (rule read_ended [OF inv read_left_loading [OF I(2) k], where t = t and tick = "cs_tick ?s"]) (simp_all add: t_def I(3))
  next
    case (Inl e)
    let ?text = "bundle_error_display show_catalog e"
    obtain t where h: "load_end show_catalog m ?i loaded (cy_cache y) = with_state t (cy_cache y)"
      and t: "cs_staging_bytes t = cs_staging_bytes ?s - staging_of (partition_of m ?i)" "cs_high t = cs_high ?s" "cs_staging_high t = cs_staging_high ?s"
        "cs_queue_depth t = cs_queue_depth ?s" "cs_entries t = btree_insert ?i (LoadFailed ?text) (cs_entries ?s)" "cs_bytes t = cs_bytes ?s - cost m ?i"
      using I(1) by (simp add: load_end_def Inl p st cache_locked_def Let_def)
    show ?thesis
      unfolding h by (rule read_ended [OF inv read_left_loading [OF I(2) k], where t = t and reason = ?text]) (simp_all add: t I(3))
  qed
qed

lemma submitted_step:
  assumes inv: "cache_inv m c data y" and k: "k < length (cy_submitting y)"
  shows "cache_inv m c data (y\<lparr>cy_submitting := drop_nth k (cy_submitting y), cy_queue := cy_queue y @ [cy_submitting y ! k]\<rparr>)"
proof -
  let ?i = "cy_submitting y ! k" and ?z = "y\<lparr>cy_submitting := drop_nth k (cy_submitting y), cy_queue := cy_queue y @ [cy_submitting y ! k]\<rparr>"
  let ?w = "y\<lparr>cy_cache := cy_cache y, cy_submitting := drop_nth k (cy_submitting y)\<rparr>"
  have "read_left m y ?w ?i" using inv k by (intro read_left_submitting) (simp_all add: cache_inv_def Let_def)
  then have "set (reads_of ?z) = set (reads_of y)" "distinct (reads_of ?z)"
    "(\<Sum>k \<leftarrow> reads_of ?z. staging_of (partition_of m k)) = (\<Sum>k \<leftarrow> reads_of y. staging_of (partition_of m k))"
    by (auto simp: read_left_def reads_of_def)
  then show ?thesis using inv length_drop_nth [OF k] k unfolding cache_inv_def Let_def by auto
qed

lemma take_step:
  assumes inv: "cache_inv m c data y" and q: "cy_queue y = i # rest"
  shows "cache_inv m c data (y\<lparr>cy_cache := load_begin m i (cy_cache y), cy_queue := rest, cy_loading := cy_loading y @ [i]\<rparr>)"
proof -
  let ?z = "y\<lparr>cy_cache := load_begin m i (cy_cache y), cy_queue := rest, cy_loading := cy_loading y @ [i]\<rparr>"
  have "unat i < length (bm_partitions m)" "\<not> ho_lock_poisoned (cy_cache y)" using inv q by (auto simp: cache_inv_def Let_def reads_of_def)
  then have h: "load_begin m i (cy_cache y) = with_state (ho_state (cy_cache y)\<lparr>cs_queue_depth := cs_queue_depth (ho_state (cy_cache y)) - 1\<rparr>) (cy_cache y)"
    by (simp add: load_begin_def get_def cache_locked_def)
  have r: "set (reads_of ?z) = set (reads_of y)" "distinct (reads_of ?z) = distinct (reads_of y)"
    "(\<Sum>k \<leftarrow> reads_of ?z. staging_of (partition_of m k)) = (\<Sum>k \<leftarrow> reads_of y. staging_of (partition_of m k))"
    by (auto simp: reads_of_def q)
  then show ?thesis using inv q unfolding cache_inv_def Let_def r by (simp add: h with_state_def)
qed

lemma attempt_missing:
  assumes inv: "cache_inv m c data y" and lim: "limits_ok c" and i: "unat i < length (bm_partitions m)" "cost m i \<le> hc_maximum_bytes c"
    and alive: "cs_poison (ho_state (cy_cache y)) = None" and missing: "btree_get (cs_entries (ho_state (cy_cache y))) i = None"
    and att: "attempt_state c (\<lambda>k. k \<in> set (cy_leases y)) i (partition_of m i) (cost m i) (ho_state (cy_cache y)) = (r, t)"
  shows "cache_inv m c data (y\<lparr>cy_cache := (cy_cache y)\<lparr>ho_state := t, ho_lock_poisoned := False\<rparr>,
       cy_submitting := (if r = Inr Submit then cy_submitting y @ [i] else cy_submitting y)\<rparr>)
    \<and> (\<forall>d. r \<noteq> Inr (Hit d)) \<and> r \<noteq> Inl Panicked"
proof -
  let ?s = "ho_state (cy_cache y)" and ?pin = "\<lambda>k. k \<in> set (cy_leases y)" and ?g = "staging_of (partition_of m i)"
  let ?t = "?s\<lparr>cs_tick := saturating_add (cs_tick ?s) 1\<rparr>"
  note I = inv [unfolded cache_inv_def Let_def]
  have E: "entries_inv m data (set (reads_of y)) (set (cy_leases y)) (cs_entries ?t) (cs_bytes ?t)" using I by simp
  have fresh: "i \<notin> set (reads_of y)" using entries_invD(2) [OF E, of i] missing by simp
  have g: "\<not> ?g > U64_MAX" using i(2) lim by (simp add: limits_ok_def cost_def)
  show ?thesis
  proof (cases "saturating_add (cs_staging_bytes ?s) ?g > hc_maximum_staging_bytes c
      \<or> cs_queue_depth ?s \<ge> saturating_add (hc_maximum_queued_reads c) (hc_io_worker_count c)")
    case True
    then have "r = Inr WaitForStaging" "t = ?t\<lparr>cs_waits := saturating_add (cs_waits ?s) 1\<rparr>"
      using att alive missing g by (auto simp: attempt_state_def Let_def)
    then show ?thesis using I by (simp add: cache_inv_def reads_of_def)
  next
    case False
    then have room: "cs_staging_bytes ?s + ?g \<le> hc_maximum_staging_bytes c" "hc_maximum_staging_bytes c < U64_MAX"
      "cs_queue_depth ?s < hc_maximum_queued_reads c + hc_io_worker_count c" "cs_queue_depth ?s < U64_MAX"
      using lim by (auto simp: saturating_add_def limits_ok_def)
    obtain q u where ev: "evict c ?pin (cost m i) ?t = (q, u)" by fastforce
    have R: "entries_inv m data (set (reads_of y)) (set (cy_leases y)) (cs_entries u) (cs_bytes u)" "cs_bytes u \<le> cs_bytes ?s"
      "length (cs_entries u) \<le> length (cs_entries ?s)" "q \<noteq> Inl Panicked"
      "q = Inr () \<Longrightarrow> cs_bytes u + cost m i \<le> hc_maximum_bytes c \<and> length (cs_entries u) < hc_maximum_entries c"
      "btree_get (cs_entries u) i = None" "\<exists>es bs ev. u = ?t\<lparr>cs_entries := es, cs_bytes := bs, cs_evictions := ev\<rparr>"
      using evict_entries [OF E _ i(2) lim ev] I missing by auto
    from R(7) obtain es bs ev' where u: "u = ?t\<lparr>cs_entries := es, cs_bytes := bs, cs_evictions := ev'\<rparr>" by blast
    show ?thesis
    proof (cases q)
      case (Inl e)
      then have "r = Inl e" "t = u" using att alive missing g False ev by (auto simp: attempt_state_def Let_def)
      then show ?thesis using I R(1-4) Inl by (auto simp: cache_inv_def Let_def reads_of_def u)
    next
      case (Inr x)
      have r: "r = Inr Submit" "cs_entries t = btree_insert i Loading (cs_entries u)" "cs_bytes t = cs_bytes u + cost m i"
        "cs_staging_bytes t = cs_staging_bytes ?s + ?g" "cs_staging_high t = max (cs_staging_high ?s) (cs_staging_bytes ?s + ?g)"
        "cs_high t = max (cs_high ?s) (cs_bytes u + cost m i)" "cs_queue_depth t = cs_queue_depth ?s + 1"
        using att alive missing g False ev Inr room by (auto simp: attempt_state_def Let_def u saturating_add_def)
      have "entries_inv m data (insert i (set (reads_of y))) (set (cy_leases y)) (cs_entries t) (cs_bytes t)"
        using entries_started [OF R(1,6)] r by simp
      then show ?thesis
        using I R(5) Inr fresh i room length_btree(1) [OF R(6)] by (auto simp: cache_inv_def Let_def reads_of_def r)
    qed
  qed
qed

lemma attempt_step:
  assumes inv: "cache_inv m c data y" and lim: "limits_ok c" and adm: "cache_admission m c i = Inr (p, required)"
    and att: "acquire_attempt c (\<lambda>k. k \<in> set (cy_leases y)) i p required (cy_cache y) = (r, h)"
  shows "cache_inv m c data (y\<lparr>cy_cache := h, cy_submitting := (if r = Inr Submit then cy_submitting y @ [i] else cy_submitting y),
       cy_leases := (case r of Inr (Hit _) \<Rightarrow> cy_leases y @ [i] | _ \<Rightarrow> cy_leases y)\<rparr>)
    \<and> (\<forall>d. r = Inr (Hit d) \<longrightarrow> d = data i) \<and> r \<noteq> Inl Panicked"
proof -
  let ?s = "ho_state (cy_cache y)" and ?pin = "\<lambda>k. k \<in> set (cy_leases y)"
  note I = inv [unfolded cache_inv_def Let_def]
  have p: "unat i < length (bm_partitions m)" "p = partition_of m i" "required = cost m i" "cost m i \<le> hc_maximum_bytes c"
    using adm by (simp_all add: admission_iff)
  have lock: "\<not> ho_lock_poisoned (cy_cache y)" using I by blast
  obtain t where t: "attempt_state c ?pin i p required ?s = (r, t)" "h = (cy_cache y)\<lparr>ho_state := t, ho_lock_poisoned := (r = Inl Panicked)\<rparr>"
    using att lock by (auto simp: acquire_attempt_def cache_locked_def split: prod.splits)
  have E: "entries_inv m data (set (reads_of y)) (set (cy_leases y)) (cs_entries ?s) (cs_bytes ?s)" using I by blast
  note D = entries_invD [OF E]
  show ?thesis
  proof (cases "cs_poison ?s")
    case (Some reason)
    then have "r = image_access (''routing bundle is poisoned: '' @ reason)" "t = ?s" using t(1) by (simp_all add: attempt_state_def)
    then show ?thesis using I t(2) by (simp add: cache_inv_def image_access_def reads_of_def)
  next
    case alive: None
    show ?thesis
    proof (cases "btree_get (cs_entries ?s) i")
      case missing: None
      then show ?thesis using attempt_missing [OF inv lim p(1,4)] t alive by (auto simp: p(2,3) split: sum.splits attempt.splits)
    next
      case (Some entry)
      show ?thesis
      proof (cases entry)
        case Loading
        then show ?thesis using I t Some alive by (auto simp: attempt_state_def Let_def cache_inv_def reads_of_def)
      next
        case (Ready d b u)
        have g: "btree_get (cs_entries ?s) i = Some (Ready d b u)" using Some Ready by simp
        show ?thesis
          using I t g alive D(3) [OF g] entries_used(2) [OF E g] length_btree(2) [OF D(1) g]
          by (auto simp: attempt_state_def Let_def cache_inv_def reads_of_def)
      next
        case (LoadFailed reason)
        then show ?thesis using I t Some alive by (auto simp: attempt_state_def Let_def cache_inv_def reads_of_def image_access_def)
      qed
    qed
  qed
qed

theorem cache_step_inv:
  assumes "cache_inv m c data y" "limits_ok c" "cache_step show_catalog m c data y z"
  shows "cache_inv m c data z"
  using assms(3)
proof cases
  case (step_attempt i p required r h)
  then show ?thesis using attempt_step [OF assms(1,2)] by blast
next
  case (step_submitted k)
  then show ?thesis using submitted_step [OF assms(1)] by blast
next
  case (step_cancelled k p required r h)
  then show ?thesis using cancelled_step [OF assms(1)] by blast
next
  case (step_disconnected k p required e r h)
  then show ?thesis using failed_step [OF assms(1)] by blast
next
  case (step_take i rest)
  then show ?thesis using take_step [OF assms(1)] by blast
next
  case (step_load k loaded)
  then show ?thesis using load_step [OF assms(1,2)] by blast
next
  case (step_release k)
  then show ?thesis
    using assms(1) drop_nth_subset [of k "cy_leases y"] by (auto simp: cache_inv_def Let_def reads_of_def entries_inv_def)
qed

section \<open>Reachable caches\<close>

lemma cache_inv_new: "cache_inv m c data cache_system_new"
  by (simp add: cache_inv_def cache_system_new_def cache_state_new_def entries_inv_def reads_of_def btree_ok_def btree_get_def)

interpretation host_cache: invariant_system cache_system_new "cache_step show_catalog m c data" "\<lambda>y. limits_ok c \<longrightarrow> cache_inv m c data y"
  by unfold_locales (auto intro: cache_inv_new cache_step_inv)

abbreviation cache_reachable :: "(catalog_error \<Rightarrow> string) \<Rightarrow> bundle_manifest \<Rightarrow> host_cache_config \<Rightarrow> (u32 \<Rightarrow> decoded_partition) \<Rightarrow> cache_system \<Rightarrow> bool" where
  "cache_reachable show_catalog m c data \<equiv> reach cache_system_new (cache_step show_catalog m c data)"

section \<open>What acquiring a partition returns\<close>

text \<open>The caches of a round are those of reachable states, and an entry counts as pinned when a
  lease on it is held.\<close>

definition observed_round :: "(catalog_error \<Rightarrow> string) \<Rightarrow> bundle_manifest \<Rightarrow> host_cache_config \<Rightarrow> (u32 \<Rightarrow> decoded_partition) \<Rightarrow> acquire_round \<Rightarrow> bool" where
  "observed_round show_catalog m c data r \<longleftrightarrow>
     (\<exists>y. cache_reachable show_catalog m c data y \<and> ar_cache r = cy_cache y \<and> ar_pinned r = (\<lambda>k. k \<in> set (cy_leases y)))
     \<and> (\<exists>y. cache_reachable show_catalog m c data y \<and> ar_cache_after r = cy_cache y)"

definition round_cancelled :: "acquire_round \<Rightarrow> bool" where
  "round_cancelled r \<longleftrightarrow> ar_cancelled r \<or> list_ex fst (ar_enqueue r)"

lemma enqueue_outcome:
  assumes "coordinator_enqueue rounds = Some r"
  shows "r = Inr True \<or> (r = Inr False \<and> list_ex fst rounds) \<or> (\<exists>reason. r = image_access reason)"
  using assms by (induction rounds rule: coordinator_enqueue.induct) (force split: if_splits send_outcome.splits)+

lemma attempt_errors:
  assumes "attempt_state c pinned i p required s = (Inl e, t)"
  shows "e = Panicked \<or> (\<exists>reason. e = Failed (ImageAccess reason))"
proof -
  have "q = Inl e \<Longrightarrow> e = Panicked \<or> (\<exists>reason. e = Failed (ImageAccess reason))" if "evict c pinned required s = (q, t)" for q s t e
    using that
    by (induction c pinned required s rule: evict.induct) (subst (asm) evict.simps, auto simp: image_access_def split: if_splits option.splits)
  then show ?thesis
    using assms by (fastforce simp: attempt_state_def Let_def image_access_def split: if_splits option.splits cache_entry.splits prod.splits sum.splits)
qed

lemma round_outcome:
  assumes "observed_round show_catalog m c data r" "limits_ok c" "cache_admission m c i = Inr (p, required)"
    and "acquire_round c i p required r = Some (Some q)"
  shows "ensures (\<lambda>e. \<exists>reason. e = Failed (ImageAccess reason)) (\<lambda>d. case d of None \<Rightarrow> round_cancelled r | Some d \<Rightarrow> d = data i) q"
proof -
  obtain y z where y: "cache_reachable show_catalog m c data y" "ar_cache r = cy_cache y" "ar_pinned r = (\<lambda>k. k \<in> set (cy_leases y))"
    and z: "cache_reachable show_catalog m c data z" "ar_cache_after r = cy_cache z"
    using assms(1) by (auto simp: observed_round_def)
  have inv: "cache_inv m c data y" "cache_inv m c data z" using host_cache.reach_inv y(1) z(1) assms(2) by blast+
  obtain a h where a: "acquire_attempt c (\<lambda>k. k \<in> set (cy_leases y)) i p required (cy_cache y) = (a, h)" by fastforce
  have A: "\<And>d. a = Inr (Hit d) \<Longrightarrow> d = data i" "a \<noteq> Inl Panicked" using attempt_step [OF inv(1) assms(2,3) a] by auto
  have open_lock: "\<not> ho_lock_poisoned (cy_cache y)" "\<not> ho_lock_poisoned (cy_cache z)" using inv by (simp_all add: cache_inv_def Let_def)
  have err: "\<exists>reason. e = Failed (ImageAccess reason)" if "a = Inl e" for e
    using a A(2) that open_lock(1) attempt_errors by (fastforce simp: acquire_attempt_def cache_locked_def split: prod.splits)
  have after: "fst (submit_cancelled i p required (cy_cache z)) = Inr None" "fst (submit_failed i p required e (cy_cache z)) = Inl (Failed e)" for e
    using open_lock(2) by (simp_all add: submit_cancelled_def submit_failed_def cache_locked_def Let_def)
  show ?thesis
  proof (cases "ar_cancelled r")
    case False
    show ?thesis
    proof (cases a)
      case (Inl e)
      then show ?thesis using False assms(4) a y err by (auto simp: acquire_round_def)
    next
      case (Inr b)
      show ?thesis
        using False assms(4) a y Inr A(1)
        by (cases b) (auto simp: acquire_round_def image_access_def round_cancelled_def z(2) after split: if_splits option.splits
            dest!: enqueue_outcome)
    qed
  qed (use assms(4) in \<open>auto simp: acquire_round_def round_cancelled_def\<close>)
qed

lemma rounds_outcome:
  assumes "limits_ok c" "cache_admission m c i = Inr (p, required)" "list_all (observed_round show_catalog m c data) rounds"
    and "acquire_rounds c i p required rounds = Some q"
  shows "ensures (\<lambda>e. \<exists>reason. e = Failed (ImageAccess reason)) (\<lambda>d. case d of None \<Rightarrow> list_ex round_cancelled rounds | Some d \<Rightarrow> d = data i) q"
  using assms(3,4)
proof (induction rounds)
  case (Cons r rs)
  have r: "observed_round show_catalog m c data r" using Cons.prems(1) by simp
  show ?case
  proof (cases "acquire_round c i p required r")
    case (Some x)
    show ?thesis
    proof (cases x)
      case None
      then show ?thesis using Cons Some by (auto elim!: ensures_mono split: option.splits)
    next
      case (Some w)
      then show ?thesis
        using Cons.prems(2) round_outcome [OF r assms(1,2), of q] \<open>acquire_round c i p required r = Some x\<close>
        by (auto elim!: ensures_mono split: option.splits)
    qed
  qed (use Cons.prems(2) in simp)
qed simp

lemma acquire_outcome:
  assumes "limits_ok c" "list_all (observed_round show_catalog m c data) rounds" "cache_acquire m c i rounds = Some q"
  shows "ensures (\<lambda>e. \<exists>reason. e = Failed (ImageAccess reason)) (\<lambda>d. case d of None \<Rightarrow> list_ex round_cancelled rounds | Some d \<Rightarrow> d = data i) q"
proof (cases "cache_admission m c i")
  case (Inl e)
  then show ?thesis
    using assms(3) by (auto simp: cache_acquire_def cache_admission_def image_access_def ok_or_def split: option.splits if_splits)
next
  case (Inr x)
  then show ?thesis using assms(3) rounds_outcome [OF assms(1) _ assms(2)] by (cases x) (simp add: cache_acquire_def)
qed

end
