(* ===== verification/Bundle_Layout.thy ===== *)
theory Bundle_Layout
  imports Bundle_Reader
begin

text \<open>
  The layout of a partition: the decoder of a partition accepts exactly the encodings of
  well-formed partitions. Then the partitions that a list of ranked edges is cut into: pieces of
  one source each, grouped into partitions, with the bytes, descriptors and directory entries
  they stand for.
\<close>

section \<open>The bytes of a partition\<close>

definition segment_bytes :: "decoded_segment \<Rightarrow> bytes" where
  "segment_bytes s = u32_to_le_bytes (ds_source s) @ u64_to_le_bytes (ds_first_ordinal s)
     @ u32_to_le_bytes (ds_start s) @ u32_to_le_bytes (ds_count s) @ u32_to_le_bytes 0"

definition topology_of :: "decoded_partition \<Rightarrow> bytes" where
  "topology_of d = u32_to_le_bytes (word_of_nat (length (dp_segments d)))
     @ u64_to_le_bytes (word_of_nat (length (dp_edges d))) @ concat (map segment_bytes (dp_segments d))
     @ concat (map u32_to_le_bytes (dp_destinations d)) @ concat (map u32_to_le_bytes (dp_relations d))
     @ concat (map u32_to_le_bytes (dp_weights d))"

definition evidence_of :: "decoded_partition \<Rightarrow> bytes" where
  "evidence_of d = concat (map u64_to_le_bytes (dp_edges d))"

fun local_ok :: "u64 \<Rightarrow> u64 list \<Rightarrow> nat \<Rightarrow> decoded_segment list \<Rightarrow> bool" where
  "local_ok node_count edges start [] \<longleftrightarrow> start = length edges"
| "local_ok node_count edges start (s # ss) \<longleftrightarrow>
     unat (ds_source s) < unat node_count \<and> unat (ds_start s) = start \<and> ds_count s \<noteq> 0
     \<and> start + unat (ds_count s) \<le> length edges
     \<and> sorted_wrt (<) (take (unat (ds_count s)) (drop start edges))
     \<and> local_ok node_count edges (start + unat (ds_count s)) ss"

text \<open>What a partition must satisfy: at least one segment and one edge, columns of one length,
  indexes within the counts, canonical weights, and segments that tile the edges.\<close>

definition partition_ok :: "u64 \<Rightarrow> u64 \<Rightarrow> decoded_partition \<Rightarrow> bool" where
  "partition_ok node_count relation_count d \<longleftrightarrow>
     dp_segments d \<noteq> [] \<and> dp_edges d \<noteq> []
     \<and> length (dp_destinations d) = length (dp_edges d) \<and> length (dp_relations d) = length (dp_edges d)
     \<and> length (dp_weights d) = length (dp_edges d)
     \<and> (\<forall>v \<in> set (dp_destinations d). unat v < unat node_count)
     \<and> (\<forall>v \<in> set (dp_relations d). unat v < unat relation_count)
     \<and> (\<forall>v \<in> set (dp_weights d). base_weight_ok (BaseWeight v))
     \<and> local_ok node_count (dp_edges d) 0 (dp_segments d)"

definition describes :: "partition_descriptor \<Rightarrow> decoded_partition \<Rightarrow> bool" where
  "describes p d \<longleftrightarrow> unat (pt_segment_count p) = length (dp_segments d) \<and> unat (pt_edge_count p) = length (dp_edges d)"

lemma word_of_nat_unat: "word_of_nat (unat w) = w"
  by simp

section \<open>Fields of a partition\<close>

interpretation segment_field: field read_segment segment_bytes "\<lambda>_. True"
proof
  fix pre rest :: bytes and v d assume a: "addressable (pre @ rest)"
  show "read_segment (dcr pre rest) = Inr (v, d) \<longleftrightarrow>
      True \<and> (\<exists>rest'. rest = segment_bytes v @ rest' \<and> d = dcr (pre @ segment_bytes v) rest')"
    (is "?L \<longleftrightarrow> ?R")
  proof
    assume ?L
    then show ?R
      using a by (cases v)
        (auto simp: read_segment_def rbind_Inr_iff u64_field.read_iff u32_field.read_iff segment_bytes_def split: if_splits)
  next
    assume ?R
    then show ?L
      using a by (cases v) (auto simp: read_segment_def fields_written segment_bytes_def)
  qed
qed

interpretation bounded_field: field "read_bounded limit reason" u32_to_le_bytes "\<lambda>v. unat v < unat limit"
proof
  fix pre rest :: bytes and v d assume a: "addressable (pre @ rest)"
  show "read_bounded limit reason (dcr pre rest) = Inr (v, d) \<longleftrightarrow>
      unat v < unat limit \<and> (\<exists>rest'. rest = u32_to_le_bytes v @ rest' \<and> d = dcr (pre @ u32_to_le_bytes v) rest')"
    using a by (auto simp: read_bounded_def rbind_Inr_iff u32_field.read_iff fields_written not_le split: if_splits)
qed

interpretation weight_field: field read_weight u32_to_le_bytes "\<lambda>v. base_weight_ok (BaseWeight v)"
proof
  fix pre rest :: bytes and v d assume a: "addressable (pre @ rest)"
  have w: "(\<exists>x. base_weight_from_bits v = Inr x) \<longleftrightarrow> base_weight_ok (BaseWeight v)" for v
    by (auto simp: base_weight_from_bits_Inr)
  show "read_weight (dcr pre rest) = Inr (v, d) \<longleftrightarrow>
      base_weight_ok (BaseWeight v) \<and> (\<exists>rest'. rest = u32_to_le_bytes v @ rest' \<and> d = dcr (pre @ u32_to_le_bytes v) rest')"
    using a by (auto simp: read_weight_def rbind_Inr_iff u32_field.read_iff w [symmetric] fields_written)
qed

lemma windows2_ascending: "list_ex (\<lambda>(a, b). a \<ge> b) (windows2 xs) \<longleftrightarrow> \<not> sorted_wrt (<) xs"
  for xs :: "'a::linorder list"
  unfolding strict_sorted_windows2 [symmetric] list_ex_iff by (auto simp: case_prod_beta' not_less)

lemma check_local_iff:
  "fold_result (check_local_segment node_count edges) segs start = Inr stop \<and> stop = length edges \<longleftrightarrow>
     stop = length edges \<and> local_ok node_count edges start segs"
proof (induction segs arbitrary: start)
  case (Cons s ss)
  have step: "check_local_segment node_count edges s start = Inr m \<longleftrightarrow>
      unat (ds_source s) < unat node_count \<and> unat (ds_start s) = start \<and> ds_count s \<noteq> 0
      \<and> start + unat (ds_count s) \<le> length edges \<and> sorted_wrt (<) (take (unat (ds_count s)) (drop start edges))
      \<and> m = start + unat (ds_count s)" for m
    by (auto simp: check_local_segment_def Let_def slice_range_def rbind_Inr_iff windows2_ascending
        split: if_splits)
  show ?case using Cons.IH by (auto simp: rbind_Inr_iff step)
qed auto

section \<open>The decoder accepts exactly the encodings\<close>

lemma decode_partition_exact:
  assumes "addressable tb" "addressable ev"
  shows "decode_partition tb ev p node_count relation_count = Inr d \<longleftrightarrow>
    tb = topology_of d \<and> ev = evidence_of d \<and> describes p d \<and> partition_ok node_count relation_count d"
    (is "?L \<longleftrightarrow> ?R")
proof
  assume L: ?L
  have c: "unat a = n \<Longrightarrow> word_of_nat n = (a :: u32)" "unat b = n \<Longrightarrow> word_of_nat n = (b :: u64)" for a b n
    by auto
  have local: "local_ok node_count edges 0 segs"
    if "fold_result (check_local_segment node_count edges) segs 0 = Inr n" "length edges = n" for edges segs n
    using that check_local_iff [of node_count edges segs 0 n] by simp
  show ?R
    using L assms c
    by (cases d)
      (auto simp: decode_partition_def decoder_new_dcr rbind_Inr_iff u64_field.read_iff u32_field.read_iff
        segment_field.each_iff bounded_field.each_iff weight_field.each_iff u64_field.each_iff
        topology_of_def evidence_of_def describes_def partition_ok_def local unat_eq_zero split: if_splits)
next
  assume R: ?R
  let ?n = "length (dp_edges d)" and ?k = "length (dp_segments d)"
  have k: "word_of_nat ?k = pt_segment_count p" "word_of_nat ?n = pt_edge_count p"
    using R word_of_nat_unat [of "pt_segment_count p"] word_of_nat_unat [of "pt_edge_count p"]
    by (simp_all add: describes_def)
  have n: "unat (pt_segment_count p) = ?k" "unat (pt_edge_count p) = ?n" using R by (simp_all add: describes_def)
  have ne: "pt_segment_count p \<noteq> 0" "pt_edge_count p \<noteq> 0"
    using R n by (auto simp: partition_ok_def)
  have "fold_result (check_local_segment node_count (dp_edges d)) (dp_segments d) 0 = Inr ?n"
    using R check_local_iff [of node_count "dp_edges d" "dp_segments d" 0 ?n] by (simp add: partition_ok_def)
  moreover have "read_each (\<lambda>_. decoder_u64) 0 ?n (dcr [] ev) = Inr (dp_edges d, dcr ev [])"
    using u64_field.each_written [of "[]" "dp_edges d" "[]" ?n] R assms(2) by (simp add: evidence_of_def)
  moreover have "read_each (\<lambda>_. read_weight) 0 ?n (dcr pre (concat (map u32_to_le_bytes (dp_weights d))))
      = Inr (dp_weights d, dcr (pre @ concat (map u32_to_le_bytes (dp_weights d))) [])"
    if "addressable (pre @ concat (map u32_to_le_bytes (dp_weights d)))" for pre
    using weight_field.each_written [of pre "dp_weights d" "[]" ?n] R that by (simp add: partition_ok_def)
  ultimately show ?L
    using R assms
    by (simp add: decode_partition_def decoder_new_dcr topology_of_def fields_written k n ne
        segment_field.each_written bounded_field.each_written partition_ok_def)
qed

section \<open>Pieces\<close>

text \<open>An edge with dense indexes in place of identifiers; the run of a source's edges that one
  partition holds; and the partition that a list of runs stands for.\<close>

record entry =
  en_source :: nat
  en_destination :: u32
  en_relation :: u32
  en_weight :: u32
  en_edge :: u64

record piece =
  pc_source :: nat
  pc_first :: nat
  pc_entries :: "entry list"

definition entries_of :: "piece list \<Rightarrow> entry list" where
  "entries_of ps = concat (map pc_entries ps)"

lemma entries_of_simps [simp]:
  "entries_of [] = []" "entries_of (p # ps) = pc_entries p @ entries_of ps"
  "entries_of (ps @ qs) = entries_of ps @ entries_of qs"
  by (simp_all add: entries_of_def)

fun segments_at :: "nat \<Rightarrow> piece list \<Rightarrow> decoded_segment list" where
  "segments_at start [] = []"
| "segments_at start (p # ps) =
     \<lparr>ds_source = word_of_nat (pc_source p), ds_first_ordinal = word_of_nat (pc_first p),
      ds_start = word_of_nat start, ds_count = word_of_nat (length (pc_entries p))\<rparr>
     # segments_at (start + length (pc_entries p)) ps"

definition decoded_of :: "piece list \<Rightarrow> decoded_partition" where
  "decoded_of ps =
     \<lparr>dp_segments = segments_at 0 ps, dp_destinations = map en_destination (entries_of ps),
      dp_relations = map en_relation (entries_of ps), dp_weights = map en_weight (entries_of ps),
      dp_edges = map en_edge (entries_of ps)\<rparr>"

definition count_source :: "entry list \<Rightarrow> nat \<Rightarrow> nat" where
  "count_source es s = length (filter (\<lambda>e. en_source e = s) es)"

definition piece_ok :: "piece \<Rightarrow> bool" where
  "piece_ok p \<longleftrightarrow> pc_entries p \<noteq> [] \<and> (\<forall>e \<in> set (pc_entries p). en_source e = pc_source p)
     \<and> sorted_wrt (<) (map en_edge (pc_entries p))"

text \<open>Runs in source order, each numbered by the edges of its source before it.\<close>

inductive pieces_ok :: "piece list \<Rightarrow> bool" where
  pieces_Nil: "pieces_ok []"
| pieces_snoc: "pieces_ok ps \<Longrightarrow> piece_ok p \<Longrightarrow> pc_first p = count_source (entries_of ps) (pc_source p)
    \<Longrightarrow> (\<And>q. q \<in> set ps \<Longrightarrow> pc_source q \<le> pc_source p) \<Longrightarrow> pieces_ok (ps @ [p])"

inductive_simps pieces_ok_snoc: "pieces_ok (ps @ [p])"

lemma pieces_okD: "pieces_ok ps \<Longrightarrow> (\<forall>p \<in> set ps. piece_ok p) \<and> sorted (map pc_source ps)"
  by (induction rule: pieces_ok.induct) (auto simp: sorted_append)

definition partition_size :: "piece list \<Rightarrow> nat" where
  "partition_size ps = 12 + 24 * length ps + 12 * length (entries_of ps)"

lemma length_segments_at [simp]: "length (segments_at k ps) = length ps"
  by (induction k ps rule: segments_at.induct) simp_all

lemma segments_at_append: "segments_at k (ps @ qs) = segments_at k ps @ segments_at (k + length (entries_of ps)) qs"
  by (induction k ps rule: segments_at.induct) (simp_all add: add.assoc)

lemma length_concat_fixed: "(\<And>x. length (f x) = k) \<Longrightarrow> length (concat (map f xs)) = k * length xs"
  by (induction xs) simp_all

lemma length_encoded [simp]:
  "length (topology_of (decoded_of ps)) = partition_size ps" "length (evidence_of (decoded_of ps)) = 8 * length (entries_of ps)"
proof -
  have "length (segment_bytes s) = 24" for s by (simp add: segment_bytes_def)
  note l = length_concat_fixed [of segment_bytes, OF this] length_concat_fixed [of u32_to_le_bytes 4]
    length_concat_fixed [of u64_to_le_bytes 8]
  show "length (topology_of (decoded_of ps)) = partition_size ps" "length (evidence_of (decoded_of ps)) = 8 * length (entries_of ps)"
    by (simp_all add: topology_of_def evidence_of_def decoded_of_def partition_size_def l del: map_map)
qed

lemma local_ok_segments:
  assumes "\<forall>p \<in> set ps. piece_ok p" "\<forall>p \<in> set ps. pc_source p < unat node_count" "unat node_count \<le> U32_MAX + 1"
    and "edges = pre @ map en_edge (entries_of ps)" "length edges \<le> U32_MAX"
  shows "local_ok node_count edges (length pre) (segments_at (length pre) ps)"
  using assms
proof (induction ps arbitrary: pre)
  case (Cons p ps)
  let ?k = "length (pc_entries p)"
  have p: "piece_ok p" "pc_source p < unat node_count" using Cons.prems(1,2) by simp_all
  have e: "edges = (pre @ map en_edge (pc_entries p)) @ map en_edge (entries_of ps)" using Cons.prems(4) by simp
  have "local_ok node_count edges (length (pre @ map en_edge (pc_entries p))) (segments_at (length (pre @ map en_edge (pc_entries p))) ps)"
    using Cons.prems by (intro Cons.IH [OF _ _ _ e]) auto
  moreover have "unat (word_of_nat (pc_source p) :: u32) = pc_source p" "unat (word_of_nat (length pre) :: u32) = length pre"
    "unat (word_of_nat ?k :: u32) = ?k"
    using p(2) Cons.prems(3,5) e by (auto simp: unat_of_nat U32_MAX_def)
  moreover have "word_of_nat ?k \<noteq> (0 :: u32)"
    using calculation(4) p(1) by (metis length_0_conv piece_ok_def unat_0)
  ultimately show ?case using p e by (simp add: piece_ok_def)
qed simp

lemma partition_ok_decoded:
  assumes "ps \<noteq> []" "\<forall>p \<in> set ps. piece_ok p" "\<forall>e \<in> set (entries_of ps). en_source e < unat node_count
      \<and> unat (en_destination e) < unat node_count \<and> unat (en_relation e) < unat relation_count \<and> base_weight_ok (BaseWeight (en_weight e))"
    and "unat node_count \<le> U32_MAX + 1" "length (entries_of ps) \<le> U32_MAX"
  shows "partition_ok node_count relation_count (decoded_of ps)"
proof -
  have src: "pc_source p < unat node_count" if "p \<in> set ps" for p
  proof -
    have ok: "piece_ok p" using assms(2) that by blast
    then obtain e where e: "e \<in> set (pc_entries p)" by (cases "pc_entries p") (auto simp: piece_ok_def)
    then have "en_source e = pc_source p" using ok by (simp add: piece_ok_def)
    moreover have "e \<in> set (entries_of ps)" using e that by (auto simp: entries_of_def)
    ultimately show ?thesis using assms(3) by auto
  qed
  obtain p qs where p: "ps = p # qs" using assms(1) by (cases ps) auto
  then have "entries_of ps \<noteq> []" using assms(2) by (simp add: piece_ok_def)
  moreover have "segments_at 0 ps \<noteq> []" using p by simp
  ultimately show ?thesis
    using local_ok_segments [of ps node_count "map en_edge (entries_of ps)" "[]"] assms src
    by (auto simp: partition_ok_def decoded_of_def)
qed

end
