(* ===== verification/Bundle_Accepted.thy ===== *)
theory Bundle_Accepted
  imports Bundle_Layout
begin

text \<open>
  What \<^verbatim>\<open>open_bundle\<close> accepts, whatever the files hold and whichever system calls fail: the tables of
  an opened bundle are sorted and of the declared sizes, its three offset tables are monotonic and
  end at the declared counts, and every partition can be loaded.
\<close>

section \<open>Offset tables\<close>

definition offsets_ok :: "nat list \<Rightarrow> nat \<Rightarrow> nat \<Rightarrow> bool" where
  "offsets_ok xs n stop \<longleftrightarrow> length xs = n + 1 \<and> xs ! 0 = 0 \<and> last xs = stop \<and> sorted xs"

lemma fold_result_each:
  assumes "fold_result f xs s = Inr t" "x \<in> set xs"
  shows "\<exists>a b. f x a = Inr b"
  using assms by (induction xs arbitrary: s) (auto simp: rbind_Inr_iff)

text \<open>A loop that pushes the last offset plus a count.\<close>

lemma offsets_pushed:
  assumes "\<And>x s s'. f x s = Inr s' \<Longrightarrow> s \<noteq> [] \<and> (\<exists>d. Q x d \<and> s' = s @ [last s + d])" "fold_result f xs [0] = Inr ys"
  shows "offsets_ok ys (length xs) (last ys) \<and> (\<forall>i < length xs. \<exists>d. Q (xs ! i) d \<and> ys ! Suc i = ys ! i + d)"
  using assms(2)
proof (induction xs arbitrary: ys rule: rev_induct)
  case (snoc x xs)
  then obtain zs where zs: "fold_result f xs [0] = Inr zs" "f x zs = Inr ys" by (auto simp: fold_result_append rbind_Inr_iff)
  obtain d where d: "Q x d" "ys = zs @ [last zs + d]" using assms(1) [OF zs(2)] by blast
  have IH: "length zs = length xs + 1" "zs ! 0 = 0" "sorted zs" "\<forall>i < length xs. \<exists>d. Q (xs ! i) d \<and> zs ! Suc i = zs ! i + d"
    using snoc.IH [OF zs(1)] by (auto simp: offsets_ok_def)
  have ne: "zs \<noteq> []" using IH(1) by auto
  have l: "last zs = zs ! length xs" using IH(1) ne by (simp add: last_conv_nth)
  have "\<forall>z \<in> set zs. z \<le> last zs" using IH(3) by (metis ne append_butlast_last_id sorted_append list.set_intros(1) Un_iff empty_iff insert_iff list.simps(15) order_refl set_append set_empty)
  then have "offsets_ok ys (length (xs @ [x])) (last ys)"
    using IH d(2) ne by (auto simp: offsets_ok_def nth_append sorted_append intro: trans_le_add1)
  moreover have "\<exists>d. Q ((xs @ [x]) ! i) d \<and> ys ! Suc i = ys ! i + d" if "i < length (xs @ [x])" for i
    using that IH(1,4) d l by (cases "i < length xs") (auto simp: nth_append less_Suc_eq)
  ultimately show ?case by blast
qed (simp add: offsets_ok_def)

section \<open>Opened bundles\<close>

definition source_segments :: "routing_bundle \<Rightarrow> nat \<Rightarrow> segment_descriptor list" where
  "source_segments b source =
     (let start = unat (rb_source_segment_offsets b ! source); stop = unat (rb_source_segment_offsets b ! Suc source)
      in take (stop - start) (drop start (rb_segments b)))"

definition bundle_ok :: "routing_bundle \<Rightarrow> bool" where
  "bundle_ok b \<longleftrightarrow>
     (let m = rb_manifest b in
      manifest_ok m \<and> sorted_wrt (<) (rb_nodes b) \<and> length (rb_nodes b) = unat (bm_node_count m)
      \<and> sorted_wrt (<) (rb_relations b) \<and> length (rb_relations b) = unat (bm_relation_kind_count m)
      \<and> length (rb_segments b) = unat (bm_segment_count m)
      \<and> offsets_ok (map unat (rb_source_segment_offsets b)) (length (rb_nodes b)) (length (rb_segments b))
      \<and> offsets_ok (rb_source_edge_offsets b) (length (rb_nodes b)) (unat (bm_adjacency_count m))
      \<and> offsets_ok (rb_partition_edge_offsets b) (length (bm_partitions m)) (unat (bm_adjacency_count m))
      \<and> (\<forall>i < length (rb_nodes b). (\<forall>s \<in> set (source_segments b i). unat (sd_source s) = i)
           \<and> rb_source_edge_offsets b ! Suc i = rb_source_edge_offsets b ! i + (\<Sum>s \<leftarrow> source_segments b i. unat (sd_edge_count s)))
      \<and> (\<forall>k < length (bm_partitions m). rb_partition_edge_offsets b ! Suc k
           = rb_partition_edge_offsets b ! k + unat (pt_edge_count (bm_partitions m ! k))))"

lemma source_segments_sum:
  assumes "fold_result (check_source_segment source) ss n = Inr k"
  shows "(\<forall>s \<in> set ss. unat (sd_source s) = source) \<and> k = n + (\<Sum>s \<leftarrow> ss. unat (sd_edge_count s))"
  using assms
  by (induction ss arbitrary: n) (fastforce simp: rbind_Inr_iff check_source_segment_def checked_add_Some_iff invalid_def split: if_splits)+

lemma source_offset_step:
  assumes "push_source_offset offs segs source s = Inr s'"
  shows "s \<noteq> [] \<and> (\<exists>d. (Suc source < length offs \<and> unat (offs ! source) \<le> unat (offs ! Suc source) \<and> unat (offs ! Suc source) \<le> length segs
      \<and> (let ss = take (unat (offs ! Suc source) - unat (offs ! source)) (drop (unat (offs ! source)) segs) in
         (\<forall>x \<in> set ss. unat (sd_source x) = source) \<and> d = (\<Sum>x \<leftarrow> ss. unat (sd_edge_count x)))) \<and> s' = s @ [last s + d])"
  using assms source_segments_sum
  by (fastforce simp: push_source_offset_def rbind_Inr_iff index_def slice_range_def checked_add_Some_iff Let_def invalid_def split: if_splits)

lemma partition_offset_step:
  assumes "check_partition io dir m segs p s = Inr s'"
  shows "s \<noteq> [] \<and> (\<exists>d. d = unat (pt_edge_count p) \<and> s' = s @ [last s + d])"
  using assms by (auto simp: check_partition_def rbind_Inr_iff checked_add_Some_iff invalid_def split: if_splits)

lemma read_each_length: "read_each f start n d = Inr (xs, d') \<Longrightarrow> length xs = n"
  by (induction f start n d arbitrary: xs d' rule: read_each.induct) (auto simp: rbind_Inr_iff)

lemma identities_sorted:
  assumes "read_identities m bs = Inr (nodes, relations)"
  shows "sorted_wrt (<) nodes \<and> length nodes = unat (bm_node_count m) \<and> sorted_wrt (<) relations \<and> length relations = unat (bm_relation_kind_count m)"
  using assms
  by (auto simp: read_identities_def rbind_Inr_iff windows2_ascending sorted_wrt_map id_order_defs invalid_def
      dest: read_each_length split: if_splits)

lemma directory_sizes:
  assumes "read_directory m bs = Inr (offsets, segments)"
  shows "length offsets = unat (bm_node_count m) + 1 \<and> length segments = unat (bm_segment_count m)"
  using assms
  by (auto simp: read_directory_def rbind_Inr_iff checked_add_Some_iff invalid_def simp del: read_each.simps
      dest!: read_each_length split: if_splits)

text \<open>The checks of \<^verbatim>\<open>open_bundle\<close>, one by one.\<close>

lemma opened_parts:
  assumes "open_routing_bundle hash reserve io dir = Inr b"
  defines "m \<equiv> rb_manifest b"
  shows "\<exists>mb ib db. map_of dir ''manifest.bin'' = Some mb \<and> manifest_decode reserve mb = Inr m \<and> rb_manifest_checksum b = hash mb
      \<and> read_identities m ib = Inr (rb_nodes b, rb_relations b) \<and> read_directory m db = Inr (rb_source_segment_offsets b, rb_segments b)"
    and "validate_ranges hash io dir m = Inr ()"
    and "get (rb_source_segment_offsets b) 0 = Some 0 \<and> rb_source_segment_offsets b \<noteq> [] \<and> last (rb_source_segment_offsets b) = bm_segment_count m
      \<and> \<not> list_ex (\<lambda>(a, b). a > b) (windows2 (rb_source_segment_offsets b))"
    and "fold_result (push_source_offset (rb_source_segment_offsets b) (rb_segments b)) [0..<unat (bm_node_count m)] [0] = Inr (rb_source_edge_offsets b)
      \<and> last (rb_source_edge_offsets b) = unat (bm_adjacency_count m)"
    and "fold_result (check_partition io dir m (rb_segments b)) (bm_partitions m) [0] = Inr (rb_partition_edge_offsets b)
      \<and> last (rb_partition_edge_offsets b) = unat (bm_adjacency_count m)"
  using assms(1) unfolding m_def
  by (auto simp: open_routing_bundle_def rbind_Inr_iff invalid_def fs_read_def split: if_splits)

lemma opened_offsets:
  assumes "open_routing_bundle hash reserve io dir = Inr b"
  shows "offsets_ok (map unat (rb_source_segment_offsets b)) (unat (bm_node_count (rb_manifest b))) (unat (bm_segment_count (rb_manifest b)))"
proof -
  let ?o = "rb_source_segment_offsets b" and ?m = "rb_manifest b"
  note P = opened_parts [OF assms]
  have len: "length ?o = unat (bm_node_count ?m) + 1" using P(1) directory_sizes by blast
  have "sorted ?o" using P(3) unfolding sorted_windows2 [symmetric] list_ex_iff by (auto simp: not_less)
  then have "sorted (map unat ?o)" by (auto simp: sorted_iff_nth_mono word_le_nat_alt)
  then show ?thesis using P(3) len by (auto simp: offsets_ok_def get_def last_map split: if_splits)
qed

lemma opened_ok:
  assumes "open_routing_bundle hash reserve io dir = Inr b" "\<And>name bs. map_of dir name = Some bs \<Longrightarrow> addressable bs"
  shows "bundle_ok b"
proof -
  let ?m = "rb_manifest b" and ?o = "rb_source_segment_offsets b"
  note P = opened_parts [OF assms(1)]
  obtain mb ib db where files: "map_of dir ''manifest.bin'' = Some mb" "manifest_decode reserve mb = Inr ?m"
      "read_identities ?m ib = Inr (rb_nodes b, rb_relations b)" "read_directory ?m db = Inr (?o, rb_segments b)"
    using P(1) by blast
  have m: "manifest_ok ?m" using manifest_decode_exact [OF assms(2) [OF files(1)]] files(2) by blast
  note I = identities_sorted [OF files(3)] and D = directory_sizes [OF files(4)]
  have src: "offsets_ok (rb_source_edge_offsets b) (unat (bm_node_count ?m)) (unat (bm_adjacency_count ?m))"
    "i < unat (bm_node_count ?m) \<Longrightarrow> (\<forall>s \<in> set (source_segments b i). unat (sd_source s) = i)
       \<and> rb_source_edge_offsets b ! Suc i = rb_source_edge_offsets b ! i + (\<Sum>s \<leftarrow> source_segments b i. unat (sd_edge_count s))" for i
    using offsets_pushed [OF source_offset_step conjunct1 [OF P(4)]] P(4) by (auto simp: source_segments_def Let_def)
  have parts: "offsets_ok (rb_partition_edge_offsets b) (length (bm_partitions ?m)) (unat (bm_adjacency_count ?m))"
    "k < length (bm_partitions ?m) \<Longrightarrow> rb_partition_edge_offsets b ! Suc k
       = rb_partition_edge_offsets b ! k + unat (pt_edge_count (bm_partitions ?m ! k))" for k
    using offsets_pushed [OF partition_offset_step conjunct1 [OF P(5)]] P(5) by auto
  show ?thesis
    using m I D opened_offsets [OF assms(1)] src parts unfolding bundle_ok_def Let_def by simp
qed

lemma range_hashed:
  assumes "validate_ranges hash io dir m = Inr ()" "p \<in> set (bm_partitions m)"
  shows "\<exists>t e. read_range io dir ''topology.bin'' (pt_topology_offset p) (pt_topology_length p) = Inr t \<and> hash t = pt_topology_checksum p
    \<and> read_range io dir ''evidence.bin'' (pt_evidence_offset p) (pt_evidence_length p) = Inr e \<and> hash e = pt_evidence_checksum p"
proof -
  obtain s where "fold_result (validate_range hash io dir m) (bm_partitions m) (0, 0) = Inr s"
    using assms(1) by (auto simp: validate_ranges_def rbind_Inr_iff)
  from fold_result_each [OF this assms(2)] obtain a c where "validate_range hash io dir m p a = Inr c" by blast
  then show ?thesis by (auto simp: validate_range_def rbind_Inr_iff invalid_def split: prod.splits if_splits)
qed

lemma read_range_length: "read_range io dir name offset len = Inr bs \<Longrightarrow> length bs = unat len"
  by (auto simp: read_range_def rbind_Inr_iff split: if_splits)

lemma opened_loads:
  assumes "open_routing_bundle hash reserve io dir = Inr b" "p \<in> set (bm_partitions (rb_manifest b))"
    and "fi_read_error_partition faults \<noteq> pt_id p" "fi_short_read_partition faults \<noteq> pt_id p"
  shows "\<exists>d. load_partition hash io dir faults b p = Inr d \<and> describes p d
    \<and> partition_ok (bm_node_count (rb_manifest b)) (bm_relation_kind_count (rb_manifest b)) d"
proof -
  let ?m = "rb_manifest b"
  note P = opened_parts [OF assms(1)]
  obtain t e where te: "read_range io dir ''topology.bin'' (pt_topology_offset p) (pt_topology_length p) = Inr t" "hash t = pt_topology_checksum p"
      "read_range io dir ''evidence.bin'' (pt_evidence_offset p) (pt_evidence_length p) = Inr e" "hash e = pt_evidence_checksum p"
    using range_hashed [OF P(2) assms(2)] by blast
  have adr: "addressable t" "addressable e"
    using read_range_length [OF te(1)] read_range_length [OF te(3)] unat_u64_bounds(1) by (simp_all add: addressable_def)
  obtain s s' where "check_partition io dir ?m (rb_segments b) p s = Inr s'"
    using fold_result_each [OF conjunct1 [OF P(5)] assms(2)] by blast
  then obtain d where d: "decode_partition t e p (bm_node_count ?m) (bm_relation_kind_count ?m) = Inr d"
    by (auto simp: check_partition_def te rbind_Inr_iff)
  then have "load_partition hash io dir faults b p = Inr d" using assms(3,4) te by (simp add: load_partition_def)
  with d show ?thesis using decode_partition_exact [OF adr] by blast
qed

end
