(* ===== verification/Confirmed_Scan.thy ===== *)
theory Confirmed_Scan
  imports Catalog_Reopen
begin

text \<open>
  \<^verbatim>\<open>ConfirmedGraphScan\<close> of \<^verbatim>\<open>pathhydra-store/src/catalog.rs\<close>: visiting every confirmed node, relation
  kind and outgoing edge with a callback that may stop the scan. A scan of a well-formed catalog
  is a fold of the callback over the records: nodes and relation kinds in the order of their
  identifiers, edges ordered by source and then by edge identifier.
\<close>

section \<open>Scanning\<close>

datatype 'e scan_error = ScanCatalog catalog_error | ScanVisitor 'e

text \<open>One loop over an iterator whose body decodes an entry and calls the visitor.\<close>

definition scan_entries :: "'db rocks \<Rightarrow> 'db \<Rightarrow> column_family \<Rightarrow> (bytes \<Rightarrow> bytes \<Rightarrow> catalog_error + 'x)
    \<Rightarrow> ('x \<Rightarrow> 's \<Rightarrow> 'e + 's) \<Rightarrow> 's \<Rightarrow> 'e scan_error + 's" where
  "scan_entries api db cf entry visit s =
     rbind (map_err ScanCatalog (required_column_family api db cf)) (\<lambda>_.
     fold_result (\<lambda>item s.
       rbind (map_err (\<lambda>e. ScanCatalog (catalog_error_from_rocksdb e)) item) (\<lambda>(k, v).
       rbind (map_err ScanCatalog (entry k v)) (\<lambda>x.
       map_err ScanVisitor (visit x s)))) (rk_iterator api db cf []) s)"

definition scanned_node :: "bytes \<Rightarrow> bytes \<Rightarrow> catalog_error + node_record" where
  "scanned_node k v =
     rbind (map_err (record_error (cf_name NODES) ''key'') (decode_id_key k)) (\<lambda>i.
     map_err (record_error (cf_name NODES) (u64_display i)) (decode_node v i))"

definition for_each_node :: "'db rocks \<Rightarrow> 'db \<Rightarrow> (node_record \<Rightarrow> 's \<Rightarrow> 'e + 's) \<Rightarrow> 's \<Rightarrow> 'e scan_error + 's" where
  "for_each_node api db visit s = scan_entries api db NODES scanned_node visit s"

definition scanned_relation :: "bytes \<Rightarrow> bytes \<Rightarrow> catalog_error + relation_record" where
  "scanned_relation k v =
     rbind (map_err (record_error (cf_name RELATION_KINDS) ''key'') (decode_id_key k)) (\<lambda>i.
     map_err (record_error (cf_name RELATION_KINDS) (u64_display i)) (decode_relation v i))"

definition for_each_relation_kind ::
    "'db rocks \<Rightarrow> 'db \<Rightarrow> (relation_record \<Rightarrow> 's \<Rightarrow> 'e + 's) \<Rightarrow> 's \<Rightarrow> 'e scan_error + 's" where
  "for_each_relation_kind api db visit s = scan_entries api db RELATION_KINDS scanned_relation visit s"

definition scanned_outgoing :: "'db rocks \<Rightarrow> 'db \<Rightarrow> bytes \<Rightarrow> bytes \<Rightarrow> catalog_error + edge_record" where
  "scanned_outgoing api db k v =
     rbind (map_err (record_error (cf_name OUTGOING_EDGES) ''key'') (decode_adjacency_key k)) (\<lambda>(source, edge_id).
     rbind (map_err (record_error (cf_name OUTGOING_EDGES) (edge_id_display edge_id))
       (decode_adjacency_value v edge_id)) (\<lambda>_.
     rbind (get_edge_from_db api db edge_id) (\<lambda>edge.
     if er_source edge \<noteq> source
     then Inl (corrupt (cf_name OUTGOING_EDGES) (edge_id_display edge_id) ''source does not match canonical edge'')
     else
     rbind (require_node api db (er_source edge) EndpointSource) (\<lambda>_.
     rbind (require_node api db (er_destination edge) EndpointDestination) (\<lambda>_.
     rbind (require_relation_kind api db (er_relation_kind edge)) (\<lambda>_.
     rbind (validate_exact_adjacency api db edge) (\<lambda>_. Inr edge)))))))"

definition for_each_outgoing_edge ::
    "'db rocks \<Rightarrow> 'db \<Rightarrow> (edge_record \<Rightarrow> 's \<Rightarrow> 'e + 's) \<Rightarrow> 's \<Rightarrow> 'e scan_error + 's" where
  "for_each_outgoing_edge api db visit s = scan_entries api db OUTGOING_EDGES (scanned_outgoing api db) visit s"

section \<open>A scan is a fold over the decoded entries\<close>

lemma fold_map_Inr: "fold_result f (map g xs) s = fold_result (\<lambda>x. f (g x)) xs s"
  by (induction xs arbitrary: s) (simp_all cong: rbind_cong)

lemma map_err_fold_result: "map_err h (fold_result f xs s) = fold_result (\<lambda>x s. map_err h (f x s)) xs s"
proof (induction xs arbitrary: s)
  case (Cons x xs)
  then show ?case by (cases "f x s") simp_all
qed simp

lemma fold_entries:
  assumes "list_all2 (\<lambda>(k, v) x. entry k v = Inr x) es xs"
  shows "fold_result (\<lambda>(k, v) s. rbind (map_err c (entry k v)) (\<lambda>x. f x s)) es s = fold_result f xs s"
  using assms by (induction es xs arbitrary: s rule: list_all2_induct) (auto cong: rbind_cong)

lemma scan_entries_reads:
  assumes "rocks_reads api view" "list_all2 (\<lambda>(k, v) x. entry k v = Inr x) (view db cf) xs"
  shows "scan_entries api db cf entry visit s = map_err ScanVisitor (fold_result visit xs s)"
proof -
  have "rk_iterator api db cf [] = map Inr (view db cf)" using assms(1) by (simp add: rocks_reads_def)
  with fold_entries [OF assms(2), of ScanCatalog "\<lambda>x s. map_err ScanVisitor (visit x s)"] assms(1)
  show ?thesis by (simp add: scan_entries_def fold_map_Inr map_err_fold_result case_prod_beta')
qed

lemma scan_entries_sound:
  assumes "rocks_sound api view" "list_all2 (\<lambda>(k, v) x. \<forall>y. entry k v = Inr y \<longrightarrow> y = x) (view db cf) xs"
    and "scan_entries api db cf entry visit s = Inr t"
  shows "fold_result visit xs s = Inr t"
proof -
  let ?f = "\<lambda>(k, v) s. rbind (map_err ScanCatalog (entry k v)) (\<lambda>x. map_err ScanVisitor (visit x s))"
  have f: "fold_result (\<lambda>item s. rbind (map_err (\<lambda>e. ScanCatalog (catalog_error_from_rocksdb e)) item) (\<lambda>x. ?f x s))
      (rk_iterator api db cf []) s = Inr t"
    using assms(3) by (auto simp: scan_entries_def rbind_Inr_iff case_prod_beta')
  have "rk_iterator api db cf [] = map Inr (filter (\<lambda>(k, v). [] \<le> k) (view db cf))"
    using assms(1) f by (rule rocks_iteratorD) (simp add: map_err_def)
  then have "fold_result ?f (view db cf) s = Inr t" using f by (simp add: fold_map_Inr case_prod_beta')
  moreover have "fold_result ?f es s = Inr t \<Longrightarrow> fold_result visit xs s = Inr t"
    if "list_all2 (\<lambda>(k, v) x. \<forall>y. entry k v = Inr y \<longrightarrow> y = x) es xs" for es s
    using that by (induction es xs arbitrary: s rule: list_all2_induct) (auto simp: rbind_Inr_iff)
  ultimately show ?thesis using assms(2) by blast
qed

section \<open>The records of a well-formed catalog\<close>

lemma entries_list_all2:
  assumes "\<And>k v. (k, v) \<in> set es \<Longrightarrow> \<exists>x. P (k, v) x"
  shows "\<exists>xs. list_all2 P es xs"
  using assms
proof (induction es)
  case (Cons e es)
  then obtain xs x where "list_all2 P es xs" "P e x" by (metis list.set_intros(1,2) surj_pair)
  then show ?case by blast
qed auto

text \<open>Edges in the order of the outgoing index: by source, then by identifier.\<close>

definition edge_before :: "edge_record \<Rightarrow> edge_record \<Rightarrow> bool" where
  "edge_before a b \<longleftrightarrow> er_source a < er_source b \<or> er_source a = er_source b \<and> er_id a < er_id b"

definition outgoing_list :: "(edge_id \<rightharpoonup> edge_record) \<Rightarrow> edge_record list \<Rightarrow> bool" where
  "outgoing_list m es \<longleftrightarrow> sorted_wrt edge_before es \<and> (\<forall>i e. m i = Some e \<longleftrightarrow> e \<in> set es \<and> er_id e = i)"

lemma outgoing_entries:
  assumes "reading api view g db"
  shows "\<exists>es. outgoing_list (gr_edges g) es \<and>
    list_all2 (\<lambda>(k, v) e. gr_edges g (er_id e) = Some e \<and> k = index_keys True (er_id e) e
      \<and> v = encode_adjacency_value (er_id e)) (view db OUTGOING_EDGES) es"
proof -
  have s: "stores g (store_of (view db))" "records_ok g" using assms by (simp_all add: reading_def)
  note ok = reading_families(5) [OF assms, of OUTGOING_EDGES] and D = records_okD(3) [OF s(2)]
  have rep: "represents (index_keys True) (id_values edge_id_as_u64) (gr_edges g) (btree_get (view db OUTGOING_EDGES))"
    using stores_index(1) [OF s(1)] by (simp add: store_of_def)
  let ?P = "\<lambda>(k, v) e. gr_edges g (er_id e) = Some e \<and> k = index_keys True (er_id e) e \<and> v = encode_adjacency_value (er_id e)"
  have "\<exists>e. ?P (k, v) e" if "(k, v) \<in> set (view db OUTGOING_EDGES)" for k v
  proof -
    have "btree_get (view db OUTGOING_EDGES) k = Some v" using that btree.entries_lookup [OF ok] by simp
    then obtain i e where e: "gr_edges g i = Some e" "index_keys True i e = k" "id_values edge_id_as_u64 i e = v"
      using rep unfolding represents_def by blast
    moreover have "er_id e = i" using D e(1) by blast
    ultimately show ?thesis by (intro exI [of _ e]) (auto simp: id_values_edge)
  qed
  then obtain es where es: "list_all2 ?P (view db OUTGOING_EDGES) es" using entries_list_all2 [of "view db OUTGOING_EDGES" ?P] by blast
  then have nth: "length es = length (view db OUTGOING_EDGES)"
    "k < length es \<Longrightarrow> ?P (view db OUTGOING_EDGES ! k) (es ! k)" for k
    by (auto simp: list_all2_conv_all_nth)
  have "sorted_wrt edge_before es"
  proof (unfold sorted_wrt_iff_nth_less, intro allI impI)
    fix i j assume ij: "i < j" "j < length es"
    then have "fst (view db OUTGOING_EDGES ! i) < fst (view db OUTGOING_EDGES ! j)"
      using ok nth(1) by (auto simp: btree_ok_def sorted_wrt_iff_nth_less)
    then show "edge_before (es ! i) (es ! j)"
      using nth(2) [of i] nth(2) [of j] ij
      by (auto simp: index_keys_def endpoint_def adjacency_key_less edge_before_def split: prod.splits)
  qed
  moreover have "e \<in> set es" if "gr_edges g i = Some e" for i e
  proof -
    have i: "er_id e = i" using D that by blast
    have "(index_keys True i e, id_values edge_id_as_u64 i e) \<in> set (view db OUTGOING_EDGES)"
      using represents_get [OF rep that] btree.entries_lookup [OF ok] by simp
    then obtain k where k: "k < length es" "view db OUTGOING_EDGES ! k = (index_keys True i e, id_values edge_id_as_u64 i e)"
      using nth(1) by (auto simp: in_set_conv_nth)
    then have "gr_edges g (er_id (es ! k)) = Some (es ! k)" "index_keys True i e = index_keys True (er_id (es ! k)) (es ! k)"
      using nth(2) [of k] by auto
    then have "i = er_id (es ! k)" "gr_edges g i = Some (es ! k)" by (auto simp: index_keys_def)
    with that k(1) show ?thesis by auto
  qed
  moreover have "gr_edges g (er_id e) = Some e" if "e \<in> set es" for e
    using that nth by (fastforce simp: in_set_conv_nth)
  ultimately show ?thesis using es D unfolding outgoing_list_def by blast
qed

lemma scanned_outgoing_reads:
  assumes "reading api view g db" "rocks_reads api view" "references_ok g" "gr_edges g (er_id e) = Some e"
  shows "scanned_outgoing api db (index_keys True (er_id e) e) (encode_adjacency_value (er_id e)) = Inr e"
proof -
  have "gr_nodes g (er_source e) \<noteq> None" "gr_nodes g (er_destination e) \<noteq> None" "gr_relations g (er_relation_kind e) \<noteq> None"
    using assms(3,4) unfolding references_ok_def by blast+
  with assms(4) validate_exact_adjacency_reads [OF assms(1,2,4)] show ?thesis
    by (auto simp: scanned_outgoing_def index_keys_def endpoint_def decode_adjacency_value_encode
        require_node_def require_relation_kind_def reading_reads [OF assms(1,2)])
qed

lemma for_each_reads:
  assumes "reading api view g db" "rocks_reads api view" "references_ok g"
  shows "\<exists>ns. all_nodes api db = Inr ns \<and> (\<forall>visit s. for_each_node api db visit s = map_err ScanVisitor (fold_result visit ns s))"
    and "\<exists>rs. all_relation_kinds api db = Inr rs \<and>
      (\<forall>visit s. for_each_relation_kind api db visit s = map_err ScanVisitor (fold_result visit rs s))"
    and "\<exists>es. outgoing_list (gr_edges g) es \<and>
      (\<forall>visit s. for_each_outgoing_edge api db visit s = map_err ScanVisitor (fold_result visit es s))"
proof -
  have ok: "rocks_sound api view" using assms(1) by (simp add: reading_def)
  obtain ns rs where ns: "all_nodes api db = Inr ns" and rs: "all_relation_kinds api db = Inr rs"
    using all_records_read [OF assms(1,2)] by blast
  have "list_all2 (\<lambda>(k, v) x. scanned_node k v = Inr x) (view db NODES) ns"
    using all_nodes_Inr [OF ok ns] by (rule list_all2_mono) (auto simp: entry_of_def scanned_node_def)
  then show "\<exists>ns. all_nodes api db = Inr ns \<and> (\<forall>visit s. for_each_node api db visit s = map_err ScanVisitor (fold_result visit ns s))"
    using ns by (auto simp: for_each_node_def scan_entries_reads [OF assms(2)])
  have "list_all2 (\<lambda>(k, v) x. scanned_relation k v = Inr x) (view db RELATION_KINDS) rs"
    using all_relation_kinds_Inr [OF ok rs] by (rule list_all2_mono) (auto simp: entry_of_def scanned_relation_def)
  then show "\<exists>rs. all_relation_kinds api db = Inr rs \<and>
      (\<forall>visit s. for_each_relation_kind api db visit s = map_err ScanVisitor (fold_result visit rs s))"
    using rs by (auto simp: for_each_relation_kind_def scan_entries_reads [OF assms(2)])
  obtain es where es: "outgoing_list (gr_edges g) es"
    and all: "list_all2 (\<lambda>(k, v) e. gr_edges g (er_id e) = Some e \<and> k = index_keys True (er_id e) e
      \<and> v = encode_adjacency_value (er_id e)) (view db OUTGOING_EDGES) es"
    using outgoing_entries [OF assms(1)] by blast
  have "list_all2 (\<lambda>(k, v) x. scanned_outgoing api db k v = Inr x) (view db OUTGOING_EDGES) es"
    using all by (rule list_all2_mono) (auto simp: scanned_outgoing_reads [OF assms])
  with es show "\<exists>es. outgoing_list (gr_edges g) es \<and>
      (\<forall>visit s. for_each_outgoing_edge api db visit s = map_err ScanVisitor (fold_result visit es s))"
    by (auto simp: for_each_outgoing_edge_def scan_entries_reads [OF assms(2)])
qed

end
