(* ===== verification/Bundle_Compiler.thy ===== *)
theory Bundle_Compiler
  imports Bundle_Reader Confirmed_Scan
begin

text \<open>
  \<^verbatim>\<open>pathhydra-routing/src/bundle/compiler.rs\<close>: writing the confirmed graph as an on-disk bundle. The
  scan delivers the outgoing edges by source and identifier; the compiler cuts them into
  partitions of bounded size, records where each source's edges lie, writes the five files and
  reopens them with the production reader.

  The model returns the files of a completed compilation. The files that a failed compilation
  leaves in its directory, and the times in the metrics, are not modelled.
\<close>

section \<open>Configuration\<close>

record bundle_config =
  bc_target_partition_topology_bytes :: nat
  bc_hard_maximum_partition_topology_bytes :: nat
  bc_maximum_total_bundle_bytes :: nat

definition bundle_config_default :: bundle_config where
  "bundle_config_default =
     \<lparr>bc_target_partition_topology_bytes = 4 * 1024 * 1024,
      bc_hard_maximum_partition_topology_bytes = 8 * 1024 * 1024,
      bc_maximum_total_bundle_bytes = 64 * 1024 * 1024 * 1024\<rparr>"

definition bundle_config_validate :: "bundle_config \<Rightarrow> bundle_config bundled" where
  "bundle_config_validate c =
     (if bc_target_partition_topology_bytes c = 0
         \<or> bc_target_partition_topology_bytes c > bc_hard_maximum_partition_topology_bytes c
      then invalid ''partition target must be nonzero and no larger than the hard maximum''
      else if bc_hard_maximum_partition_topology_bytes c < MIN_NONEMPTY_PARTITION_BYTES
      then Inl (Failed (BundleLimit ''hard partition minimum'' MIN_NONEMPTY_PARTITION_BYTES
             (bc_hard_maximum_partition_topology_bytes c)))
      else if bc_maximum_total_bundle_bytes c = 0
      then invalid ''maximum total bundle bytes must be nonzero''
      else Inr c)"

record build_metrics =
  mt_node_count :: nat
  mt_relation_kind_count :: nat
  mt_adjacency_count :: nat
  mt_segment_count :: nat
  mt_partition_count :: nat
  mt_split_source_count :: nat
  mt_peak_partition_buffer_bytes :: nat
  mt_decoded_record_bytes :: nat
  mt_bundle_bytes :: nat

section \<open>The partition buffer\<close>

record local_segment =
  ls_source :: u32
  ls_first_ordinal :: nat
  ls_start :: u32
  ls_count :: u32
  ls_global_descriptor :: nat

record partition_buffer =
  pb_segments :: "local_segment list"
  pb_destinations :: "u32 list"
  pb_relations :: "u32 list"
  pb_weights :: "u32 list"
  pb_edges :: "u64 list"

definition partition_default :: partition_buffer where
  "partition_default = \<lparr>pb_segments = [], pb_destinations = [], pb_relations = [], pb_weights = [], pb_edges = []\<rparr>"

definition topology_bytes :: "partition_buffer \<Rightarrow> nat bundled" where
  "topology_bytes p =
     rbind (ok_or (checked_mul (length (pb_segments p)) SEGMENT_ENCODED_BYTES)
       (Failed (BundleInvalid ''segment byte count overflow''))) (\<lambda>segment_bytes.
     ok_or (Option.bind (checked_add PARTITION_HEADER_BYTES segment_bytes) (\<lambda>v.
            Option.bind (checked_mul (length (pb_edges p)) EDGE_TOPOLOGY_BYTES) (\<lambda>e. checked_add v e)))
       (Failed (BundleInvalid ''partition byte count overflow'')))"

definition put_local_segment :: "bytes \<Rightarrow> local_segment \<Rightarrow> bytes" where
  "put_local_segment out s =
     (let out = put_u32 out (ls_source s);
          out = put_u64 out (word_of_nat (ls_first_ordinal s));
          out = put_u32 out (ls_start s);
          out = put_u32 out (ls_count s)
      in put_u32 out 0)"

definition partition_topology :: "partition_buffer \<Rightarrow> bytes" where
  "partition_topology p =
     (let out = put_u32 [] (word_of_nat (length (pb_segments p)));
          out = put_u64 out (word_of_nat (length (pb_edges p)));
          out = foldl put_local_segment out (pb_segments p);
          out = foldl put_u32 out (pb_destinations p);
          out = foldl put_u32 out (pb_relations p)
      in foldl put_u32 out (pb_weights p))"

definition partition_evidence :: "partition_buffer \<Rightarrow> bytes" where
  "partition_evidence p = foldl put_u64 [] (pb_edges p)"

text \<open>The variables that the edge visitor and the flush closure share.\<close>

record builder =
  bd_topology :: bytes
  bd_evidence :: bytes
  bd_topology_offset :: nat
  bd_evidence_offset :: nat
  bd_partitions :: "partition_descriptor list"
  bd_descriptors :: "segment_descriptor list"
  bd_source_offsets :: "nat list"
  bd_partition :: partition_buffer
  bd_current_source :: "u32 option"
  bd_source_ordinal :: nat
  bd_previous_edge :: "edge_id option"
  bd_metrics :: build_metrics

definition flush :: "(bytes \<Rightarrow> bytes) \<Rightarrow> io_faults \<Rightarrow> bundle_config \<Rightarrow> builder \<Rightarrow> builder bundled" where
  "flush hash io config b =
     (let p = bd_partition b in
      if pb_edges p = [] then Inr b
      else if length (bd_partitions b) > U32_MAX then invalid ''partition count exceeds u32''
      else
      let tb = partition_topology p; ev = partition_evidence p in
      if length tb > bc_hard_maximum_partition_topology_bytes config
      then Inl (Failed (BundleLimit ''partition topology'' (length tb) (bc_hard_maximum_partition_topology_bytes config)))
      else
      rbind (io_perform io (WriteFile ''topology.bin'')) (\<lambda>_.
      rbind (io_perform io (WriteFile ''evidence.bin'')) (\<lambda>_.
      let descriptor = \<lparr>pt_id = word_of_nat (length (bd_partitions b)),
            pt_topology_offset = word_of_nat (bd_topology_offset b), pt_topology_length = word_of_nat (length tb),
            pt_topology_checksum = hash tb, pt_evidence_offset = word_of_nat (bd_evidence_offset b),
            pt_evidence_length = word_of_nat (length ev), pt_evidence_checksum = hash ev,
            pt_segment_count = word_of_nat (length (pb_segments p)), pt_edge_count = word_of_nat (length (pb_edges p))\<rparr>
      in
      rbind (ok_or (checked_add (bd_topology_offset b) (length tb)) (Failed (BundleInvalid ''topology offset overflow''))) (\<lambda>topology_offset.
      rbind (ok_or (checked_add (bd_evidence_offset b) (length ev)) (Failed (BundleInvalid ''evidence offset overflow''))) (\<lambda>evidence_offset.
      Inr (b\<lparr>bd_topology := bd_topology b @ tb, bd_evidence := bd_evidence b @ ev,
        bd_topology_offset := topology_offset, bd_evidence_offset := evidence_offset,
        bd_partitions := bd_partitions b @ [descriptor], bd_partition := partition_default,
        bd_metrics := (bd_metrics b)\<lparr>mt_peak_partition_buffer_bytes :=
          max (mt_peak_partition_buffer_bytes (bd_metrics b)) (length tb + length ev)\<rparr>\<rparr>))))))"

section \<open>The visitors\<close>

definition visit_node :: "reserve \<Rightarrow> node_record \<Rightarrow> node_id list \<times> nat \<Rightarrow> (node_id list \<times> nat) bundled" where
  "visit_node reserve n state =
     (case state of (nodes, decoded_record_bytes) \<Rightarrow>
      if nodes \<noteq> [] \<and> last nodes \<ge> nr_id n then invalid ''node IDs are duplicate or nonascending''
      else if \<not> reserve ''node identities'' (length nodes + 1) then invalid ''node identity allocation failed''
      else Inr (nodes @ [nr_id n], saturating_add decoded_record_bytes
        (saturating_add (saturating_add 8 (length (node_name_as_str (nr_name n)))) (length (payload_as_bytes (nr_payload n))))))"

definition visit_relation ::
    "reserve \<Rightarrow> relation_record \<Rightarrow> relation_id list \<times> nat \<Rightarrow> (relation_id list \<times> nat) bundled" where
  "visit_relation reserve r state =
     (case state of (relations, decoded_record_bytes) \<Rightarrow>
      if relations \<noteq> [] \<and> last relations \<ge> rr_id r then invalid ''relation IDs are duplicate or nonascending''
      else if \<not> reserve ''relation identities'' (length relations + 1) then invalid ''relation identity allocation failed''
      else Inr (relations @ [rr_id r], saturating_add decoded_record_bytes
        (saturating_add 8 (length (relation_name_as_str (rr_name r))))))"

text \<open>\<^verbatim>\<open>while offsets.len() < n { offsets.push(v) }\<close>\<close>

definition pad_to :: "nat \<Rightarrow> 'a \<Rightarrow> 'a list \<Rightarrow> 'a list" where
  "pad_to n v xs = xs @ replicate (n - length xs) v"

definition increment :: "nat \<Rightarrow> nat bundled" where
  "increment n = (if n < U64_MAX then Inr (n + 1) else Inl Panicked)"

text \<open>A new source: its edges start a range of descriptors, and a partition that has reached the
  target size ends before it.\<close>

definition enter_source :: "(bytes \<Rightarrow> bytes) \<Rightarrow> io_faults \<Rightarrow> bundle_config \<Rightarrow> u32 \<Rightarrow> builder \<Rightarrow> builder bundled" where
  "enter_source hash io config source b =
     (if bd_current_source b = Some source then Inr b
      else if (case bd_current_source b of None \<Rightarrow> False | Some old \<Rightarrow> source \<le> old)
      then invalid ''outgoing sources are not strictly ascending''
      else
      rbind (if bd_current_source b = None then Inr b
             else rbind (topology_bytes (bd_partition b)) (\<lambda>used.
               if used \<ge> bc_target_partition_topology_bytes config then flush hash io config b else Inr b)) (\<lambda>b.
      Inr (b\<lparr>bd_source_offsets := pad_to (unat source + 1) (length (bd_descriptors b)) (bd_source_offsets b),
             bd_current_source := Some source, bd_source_ordinal := 0, bd_previous_edge := None\<rparr>)))"

text \<open>A segment for the source in the current partition, if it does not have one.\<close>

definition open_segment :: "u32 \<Rightarrow> builder \<Rightarrow> builder bundled" where
  "open_segment source b =
     (let p = bd_partition b in
      if pb_segments p \<noteq> [] \<and> ls_source (last (pb_segments p)) = source then Inr b
      else if length (bd_partitions b) > U32_MAX then invalid ''partition count exceeds u32''
      else if length (pb_segments p) > U32_MAX then invalid ''partition segment count exceeds u32''
      else Inr (b\<lparr>
        bd_descriptors := bd_descriptors b @ [\<lparr>sd_source = source,
          sd_partition = word_of_nat (length (bd_partitions b)), sd_local_segment = word_of_nat (length (pb_segments p)),
          sd_first_edge_ordinal = word_of_nat (bd_source_ordinal b), sd_edge_count = 0\<rparr>],
        bd_partition := p\<lparr>pb_segments := pb_segments p @ [\<lparr>ls_source = source, ls_first_ordinal = bd_source_ordinal b,
          ls_start = word_of_nat (length (pb_edges p)), ls_count = 0, ls_global_descriptor = length (bd_descriptors b)\<rparr>]\<rparr>\<rparr>))"

definition push_edge :: "u32 \<Rightarrow> u32 \<Rightarrow> edge_record \<Rightarrow> builder \<Rightarrow> builder bundled" where
  "push_edge destination relation edge b =
     (let p = bd_partition b in
      if pb_segments p = [] then Inl Panicked
      else
      let segment = last (pb_segments p) in
      if unat (ls_count segment) = U32_MAX then invalid ''segment edge count exceeds u32''
      else
      let segment = segment\<lparr>ls_count := ls_count segment + 1\<rparr> in
      rbind (index (bd_descriptors b) (ls_global_descriptor segment)) (\<lambda>descriptor.
      rbind (increment (bd_source_ordinal b)) (\<lambda>source_ordinal.
      rbind (increment (mt_adjacency_count (bd_metrics b))) (\<lambda>adjacency_count.
      Inr (b\<lparr>bd_descriptors := (bd_descriptors b)[ls_global_descriptor segment := descriptor\<lparr>sd_edge_count := ls_count segment\<rparr>],
        bd_partition := \<lparr>pb_segments = butlast (pb_segments p) @ [segment],
          pb_destinations = pb_destinations p @ [destination], pb_relations = pb_relations p @ [relation],
          pb_weights = pb_weights p @ [base_weight_bits (er_base_weight edge)],
          pb_edges = pb_edges p @ [edge_id_as_u64 (er_id edge)]\<rparr>,
        bd_source_ordinal := source_ordinal,
        bd_metrics := (bd_metrics b)\<lparr>mt_adjacency_count := adjacency_count,
          mt_decoded_record_bytes := saturating_add (mt_decoded_record_bytes (bd_metrics b)) 36\<rparr>\<rparr>)))))"

definition visit_edge :: "(bytes \<Rightarrow> bytes) \<Rightarrow> io_faults \<Rightarrow> bundle_config \<Rightarrow> node_id list \<Rightarrow> relation_id list
    \<Rightarrow> edge_record \<Rightarrow> builder \<Rightarrow> builder bundled" where
  "visit_edge hash io config nodes relations edge b =
     rbind (ok_or (binary_search nodes (er_source edge)) (Failed (BundleInvalid ''edge source is absent''))) (\<lambda>s.
     rbind (ok_or (binary_search nodes (er_destination edge)) (Failed (BundleInvalid ''edge destination is absent''))) (\<lambda>d.
     rbind (ok_or (binary_search relations (er_relation_kind edge)) (Failed (BundleInvalid ''edge relation is absent''))) (\<lambda>r.
     let source = word_of_nat s; destination = word_of_nat d; relation = word_of_nat r in
     rbind (enter_source hash io config source b) (\<lambda>b.
     if (case bd_previous_edge b of None \<Rightarrow> False | Some old \<Rightarrow> old \<ge> er_id edge)
     then invalid ''outgoing edge IDs are not ascending within their source''
     else
     let b = b\<lparr>bd_previous_edge := Some (er_id edge)\<rparr>;
         p = bd_partition b;
         same_segment = (pb_segments p \<noteq> [] \<and> ls_source (last (pb_segments p)) = source);
         extra = EDGE_TOPOLOGY_BYTES + (if same_segment then 0 else SEGMENT_ENCODED_BYTES) in
     rbind (topology_bytes p) (\<lambda>used.
     rbind (ok_or (checked_add used extra) (Failed (BundleInvalid ''partition size overflow''))) (\<lambda>size.
     rbind (if size > bc_hard_maximum_partition_topology_bytes config then flush hash io config b else Inr b) (\<lambda>b.
     rbind (open_segment source b) (\<lambda>b.
     push_edge destination relation edge b))))))))"

section \<open>The compiler\<close>

definition scan_result :: "bundle_error fault scan_error + 'a \<Rightarrow> 'a bundled" where
  "scan_result r = map_err (\<lambda>e. case e of ScanCatalog c \<Rightarrow> Failed (BundleStore c) | ScanVisitor f \<Rightarrow> f) r"

definition write_sync :: "io_faults \<Rightarrow> string \<Rightarrow> bytes \<Rightarrow> (string \<times> bytes) bundled" where
  "write_sync io name bs =
     rbind (io_perform io (CreateFile name)) (\<lambda>_.
     rbind (io_perform io (WriteFile name)) (\<lambda>_.
     rbind (io_perform io (SyncFile name)) (\<lambda>_. Inr (name, bs))))"

definition describe :: "(bytes \<Rightarrow> bytes) \<Rightarrow> bytes \<Rightarrow> file_descriptor" where
  "describe hash bs = \<lparr>fd_length = word_of_nat (length bs), fd_checksum = hash bs\<rparr>"

definition file_descriptor_of :: "(bytes \<Rightarrow> bytes) \<Rightarrow> io_faults \<Rightarrow> directory \<Rightarrow> string \<Rightarrow> file_descriptor bundled" where
  "file_descriptor_of hash io dir name = rbind (fs_read io dir name) (\<lambda>bs. Inr (describe hash bs))"

definition put_descriptor :: "bytes \<Rightarrow> segment_descriptor \<Rightarrow> bytes" where
  "put_descriptor out s =
     (let out = put_u32 out (sd_source s);
          out = put_u32 out (sd_partition s);
          out = put_u32 out (sd_local_segment s);
          out = put_u64 out (sd_first_edge_ordinal s)
      in put_u32 out (sd_edge_count s))"

definition directory_file :: "nat list \<Rightarrow> segment_descriptor list \<Rightarrow> bytes" where
  "directory_file source_offsets descriptors =
     foldl put_descriptor (foldl put_u64 [] (map word_of_nat source_offsets)) descriptors"

definition count_split :: "nat list \<Rightarrow> nat \<Rightarrow> nat \<Rightarrow> nat bundled" where
  "count_split source_offsets i n =
     rbind (index source_offsets (i + 1)) (\<lambda>stop.
     rbind (index source_offsets i) (\<lambda>start.
     if stop < start then Inl Panicked else Inr (if stop - start > 1 then n + 1 else n)))"

definition checked_total :: "nat list \<Rightarrow> nat option" where
  "checked_total sizes = fold (\<lambda>n t. Option.bind t (\<lambda>t. checked_add t n)) (tl sizes) (Some (hd sizes))"

definition prepare_directory :: "io_faults \<Rightarrow> directory option \<Rightarrow> unit bundled" where
  "prepare_directory io existing =
     (case existing of
        Some files \<Rightarrow> rbind (io_perform io ReadDirectory) (\<lambda>_.
          if files \<noteq> [] then invalid ''bundle output directory is not empty'' else Inr ())
      | None \<Rightarrow> io_perform io CreateDirectory)"

definition empty_builder :: "nat \<Rightarrow> nat \<Rightarrow> nat \<Rightarrow> builder" where
  "empty_builder node_count relation_kind_count decoded_record_bytes =
     \<lparr>bd_topology = [], bd_evidence = [], bd_topology_offset = 0, bd_evidence_offset = 0, bd_partitions = [],
      bd_descriptors = [], bd_source_offsets = [0], bd_partition = partition_default, bd_current_source = None,
      bd_source_ordinal = 0, bd_previous_edge = None,
      bd_metrics = \<lparr>mt_node_count = node_count, mt_relation_kind_count = relation_kind_count, mt_adjacency_count = 0,
        mt_segment_count = 0, mt_partition_count = 0, mt_split_source_count = 0, mt_peak_partition_buffer_bytes = 0,
        mt_decoded_record_bytes = decoded_record_bytes, mt_bundle_bytes = 0\<rparr>\<rparr>"

definition identity_file :: "node_id list \<Rightarrow> relation_id list \<Rightarrow> bytes" where
  "identity_file nodes relations =
     foldl put_u64 (foldl put_u64 [] (map node_id_as_u64 nodes)) (map relation_id_as_u64 relations)"

text \<open>From the finished builder to the files: the source directory, the manifest, the total size
  check, and the production reader's verdict.\<close>

definition finish_bundle :: "(bytes \<Rightarrow> bytes) \<Rightarrow> reserve \<Rightarrow> io_faults \<Rightarrow> bundle_config \<Rightarrow> node_id list \<Rightarrow> relation_id list
    \<Rightarrow> builder \<Rightarrow> (bundle_manifest \<times> build_metrics \<times> directory) bundled" where
  "finish_bundle hash reserve io config nodes relations b =
     (let source_offsets = pad_to (length nodes + 1) (length (bd_descriptors b)) (bd_source_offsets b) in
      rbind (io_perform io (SyncFile ''topology.bin'')) (\<lambda>_.
      rbind (io_perform io (SyncFile ''evidence.bin'')) (\<lambda>_.
      let identities = identity_file nodes relations;
          directory_bytes = directory_file source_offsets (bd_descriptors b) in
      rbind (write_sync io ''source-directory.bin'' directory_bytes) (\<lambda>directory_entry.
      rbind (fold_result (count_split source_offsets) [0..<length nodes] 0) (\<lambda>split_source_count.
      let files = [(''identities.bin'', identities), (''topology.bin'', bd_topology b),
            (''evidence.bin'', bd_evidence b), directory_entry];
          metrics = (bd_metrics b)\<lparr>mt_segment_count := length (bd_descriptors b),
            mt_partition_count := length (bd_partitions b), mt_split_source_count := split_source_count\<rparr> in
      rbind (file_descriptor_of hash io files ''topology.bin'') (\<lambda>topology_descriptor.
      rbind (file_descriptor_of hash io files ''evidence.bin'') (\<lambda>evidence_descriptor.
      let m = \<lparr>bm_numeric_policy = ascii NUMERIC_POLICY_ID, bm_tie_policy = ascii TIE_POLICY_ID,
            bm_node_count = word_of_nat (length nodes), bm_relation_kind_count = word_of_nat (length relations),
            bm_adjacency_count = word_of_nat (mt_adjacency_count metrics),
            bm_segment_count = word_of_nat (length (bd_descriptors b)),
            bm_target_partition_bytes = word_of_nat (bc_target_partition_topology_bytes config),
            bm_hard_maximum_partition_bytes = word_of_nat (bc_hard_maximum_partition_topology_bytes config),
            bm_identities = describe hash identities, bm_source_directory = describe hash directory_bytes,
            bm_topology = topology_descriptor, bm_evidence = evidence_descriptor, bm_partitions = bd_partitions b\<rparr> in
      rbind (manifest_encode m) (\<lambda>manifest_bytes.
      rbind (ok_or (checked_total [length manifest_bytes, unat (fd_length (bm_identities m)),
               unat (fd_length (bm_source_directory m)), unat (fd_length (bm_topology m)), unat (fd_length (bm_evidence m))])
        (Failed (BundleInvalid ''bundle total overflow''))) (\<lambda>total.
      if total > bc_maximum_total_bundle_bytes config
      then Inl (Failed (BundleLimit ''total bytes'' total (bc_maximum_total_bundle_bytes config)))
      else
      rbind (write_sync io ''manifest.bin'' manifest_bytes) (\<lambda>manifest_entry.
      rbind (io_perform io SyncDirectory) (\<lambda>_.
      let files = files @ [manifest_entry] in
      rbind (open_routing_bundle hash reserve io files) (\<lambda>reopened.
      if rb_manifest reopened \<noteq> m \<or> rb_manifest_checksum reopened \<noteq> hash manifest_bytes
      then invalid ''production reader disagrees with the just-written bundle''
      else Inr (m, metrics\<lparr>mt_bundle_bytes := total\<rparr>, files)))))))))))))"

definition compile_bundle :: "'db rocks \<Rightarrow> (bytes \<Rightarrow> bytes) \<Rightarrow> reserve \<Rightarrow> io_faults \<Rightarrow> 'db \<Rightarrow> directory option
    \<Rightarrow> bundle_config \<Rightarrow> (bundle_manifest \<times> build_metrics \<times> directory) bundled" where
  "compile_bundle api hash reserve io db existing config =
     rbind (bundle_config_validate config) (\<lambda>config.
     rbind (prepare_directory io existing) (\<lambda>_.
     rbind (scan_result (for_each_node api db (visit_node reserve) ([], 0))) (\<lambda>(nodes, decoded).
     rbind (scan_result (for_each_relation_kind api db (visit_relation reserve) ([], decoded))) (\<lambda>(relations, decoded).
     if length nodes > U32_MAX \<or> length relations > U32_MAX then invalid ''dense identity count exceeds u32''
     else
     rbind (ok_or (Option.bind (checked_add (length nodes) (length relations)) (\<lambda>n. checked_mul n 8))
       (Failed (BundleInvalid ''identity size overflow''))) (\<lambda>identity_size.
     if \<not> reserve ''identity buffer'' identity_size then invalid ''identity buffer allocation failed''
     else
     rbind (write_sync io ''identities.bin'' (identity_file nodes relations)) (\<lambda>_.
     rbind (io_perform io (CreateFile ''topology.bin'')) (\<lambda>_.
     rbind (io_perform io (CreateFile ''evidence.bin'')) (\<lambda>_.
     rbind (scan_result (for_each_outgoing_edge api db (visit_edge hash io config nodes relations)
              (empty_builder (length nodes) (length relations) decoded))) (\<lambda>b.
     rbind (flush hash io config b) (\<lambda>b.
     finish_bundle hash reserve io config nodes relations b))))))))))"

end
