(* ===== verification/Bundle_Build.thy ===== *)
theory Bundle_Build
  imports Bundle_Layout Bundle_Compiler
begin

text \<open>
  What the compiler's edge visitor builds. The state of the visitor represents a layout: the
  partitions written so far and the runs of the partition in progress. Visiting the edges in
  order of source and identifier cuts them into runs of one source each, numbered within their
  source, and never exceeds the size limit of a partition.
\<close>

section \<open>Layouts\<close>

definition layout_topology :: "piece list list \<Rightarrow> bytes" where
  "layout_topology lay = concat (map (\<lambda>ps. topology_of (decoded_of ps)) lay)"

definition layout_evidence :: "piece list list \<Rightarrow> bytes" where
  "layout_evidence lay = concat (map (\<lambda>ps. evidence_of (decoded_of ps)) lay)"

definition descriptor_at :: "(bytes \<Rightarrow> bytes) \<Rightarrow> piece list list \<Rightarrow> piece list \<Rightarrow> partition_descriptor" where
  "descriptor_at hash before ps =
     \<lparr>pt_id = word_of_nat (length before), pt_topology_offset = word_of_nat (length (layout_topology before)),
      pt_topology_length = word_of_nat (partition_size ps), pt_topology_checksum = hash (topology_of (decoded_of ps)),
      pt_evidence_offset = word_of_nat (length (layout_evidence before)),
      pt_evidence_length = word_of_nat (8 * length (entries_of ps)),
      pt_evidence_checksum = hash (evidence_of (decoded_of ps)), pt_segment_count = word_of_nat (length ps),
      pt_edge_count = word_of_nat (length (entries_of ps))\<rparr>"

definition layout_descriptors :: "(bytes \<Rightarrow> bytes) \<Rightarrow> piece list list \<Rightarrow> partition_descriptor list" where
  "layout_descriptors hash lay = map (\<lambda>k. descriptor_at hash (take k lay) (lay ! k)) [0..<length lay]"

definition directory_at :: "nat \<Rightarrow> nat \<Rightarrow> piece \<Rightarrow> segment_descriptor" where
  "directory_at k l p =
     \<lparr>sd_source = word_of_nat (pc_source p), sd_partition = word_of_nat k, sd_local_segment = word_of_nat l,
      sd_first_edge_ordinal = word_of_nat (pc_first p), sd_edge_count = word_of_nat (length (pc_entries p))\<rparr>"

definition partition_directory :: "nat \<Rightarrow> piece list \<Rightarrow> segment_descriptor list" where
  "partition_directory k ps = map (\<lambda>l. directory_at k l (ps ! l)) [0..<length ps]"

definition layout_directory :: "piece list list \<Rightarrow> segment_descriptor list" where
  "layout_directory lay = concat (map (\<lambda>k. partition_directory k (lay ! k)) [0..<length lay])"

fun locals_at :: "nat \<Rightarrow> nat \<Rightarrow> piece list \<Rightarrow> local_segment list" where
  "locals_at g start [] = []"
| "locals_at g start (p # ps) =
     \<lparr>ls_source = word_of_nat (pc_source p), ls_first_ordinal = pc_first p, ls_start = word_of_nat start,
      ls_count = word_of_nat (length (pc_entries p)), ls_global_descriptor = g\<rparr>
     # locals_at (Suc g) (start + length (pc_entries p)) ps"

definition buffer_of :: "nat \<Rightarrow> piece list \<Rightarrow> partition_buffer" where
  "buffer_of g ps =
     \<lparr>pb_segments = locals_at g 0 ps, pb_destinations = map en_destination (entries_of ps),
      pb_relations = map en_relation (entries_of ps), pb_weights = map en_weight (entries_of ps),
      pb_edges = map en_edge (entries_of ps)\<rparr>"

lemma layout_append [simp]:
  "layout_topology (lay @ lay') = layout_topology lay @ layout_topology lay'"
  "layout_evidence (lay @ lay') = layout_evidence lay @ layout_evidence lay'"
  "layout_topology [] = []" "layout_evidence [] = []"
  "layout_topology (ps # lay) = topology_of (decoded_of ps) @ layout_topology lay"
  "layout_evidence (ps # lay) = evidence_of (decoded_of ps) @ layout_evidence lay"
  by (simp_all add: layout_topology_def layout_evidence_def)

lemma layout_descriptors_snoc:
  "layout_descriptors hash (lay @ [ps]) = layout_descriptors hash lay @ [descriptor_at hash lay ps]"
  by (auto simp: layout_descriptors_def nth_append)

lemma length_layout_descriptors [simp]: "length (layout_descriptors hash lay) = length lay"
  by (simp add: layout_descriptors_def)

lemma layout_directory_snoc:
  "layout_directory (lay @ [ps]) = layout_directory lay @ partition_directory (length lay) ps"
proof -
  have "map (\<lambda>k. partition_directory k ((lay @ [ps]) ! k)) [0..<length lay] = map (\<lambda>k. partition_directory k (lay ! k)) [0..<length lay]"
    by (rule map_cong) (simp_all add: nth_append)
  from arg_cong [OF this, of concat] show ?thesis by (simp add: layout_directory_def)
qed

lemma layout_directory_Nil [simp]: "layout_directory [] = []" "partition_directory k [] = []"
  by (simp_all add: layout_directory_def partition_directory_def)

lemma partition_directory_snoc:
  "partition_directory k (ps @ [p]) = partition_directory k ps @ [directory_at k (length ps) p]"
  by (simp add: partition_directory_def nth_append)

lemma length_partition_directory [simp]: "length (partition_directory k ps) = length ps"
  by (simp add: partition_directory_def)

lemma length_layout_directory [simp]: "length (layout_directory lay) = length (concat lay)"
proof (induction lay rule: rev_induct)
  case (snoc ps lay)
  then show ?case by (simp add: layout_directory_snoc)
qed simp

lemma locals_at_append:
  "locals_at g k (ps @ qs) = locals_at g k ps @ locals_at (g + length ps) (k + length (entries_of ps)) qs"
  by (induction g k ps rule: locals_at.induct) (simp_all add: add.assoc)

lemma length_locals_at [simp]: "length (locals_at g k ps) = length ps"
  by (induction g k ps rule: locals_at.induct) simp_all

lemma put_foldl_locals: "foldl put_local_segment out (locals_at g k ps) = out @ concat (map segment_bytes (segments_at k ps))"
  by (induction g k ps arbitrary: out rule: locals_at.induct)
    (simp_all add: put_local_segment_def segment_bytes_def put_u32_def put_u64_def)

lemma buffer_encoded:
  "partition_topology (buffer_of g ps) = topology_of (decoded_of ps)" "partition_evidence (buffer_of g ps) = evidence_of (decoded_of ps)"
  by (simp_all add: partition_topology_def partition_evidence_def buffer_of_def topology_of_def evidence_of_def decoded_of_def
      put_foldl put_foldl_locals put_u32_def put_u64_def)

lemma topology_bytes_buffer:
  assumes "partition_size ps \<le> U64_MAX"
  shows "topology_bytes (buffer_of g ps) = Inr (partition_size ps)"
  using assms
  by (simp add: topology_bytes_def buffer_of_def checked_mul_def checked_add_def partition_size_def
      SEGMENT_ENCODED_BYTES_def EDGE_TOPOLOGY_BYTES_def PARTITION_HEADER_BYTES_def)

section \<open>The visitor's storage\<close>

definition laid :: "(bytes \<Rightarrow> bytes) \<Rightarrow> bundle_config \<Rightarrow> piece list list \<Rightarrow> piece list \<Rightarrow> builder \<Rightarrow> bool" where
  "laid hash config lay cur b \<longleftrightarrow>
     (\<forall>ps \<in> set lay. ps \<noteq> [] \<and> partition_size ps \<le> bc_hard_maximum_partition_topology_bytes config)
     \<and> bd_topology b = layout_topology lay \<and> bd_topology_offset b = length (layout_topology lay)
     \<and> bd_evidence b = layout_evidence lay \<and> bd_evidence_offset b = length (layout_evidence lay)
     \<and> bd_partitions b = layout_descriptors hash lay
     \<and> bd_descriptors b = layout_directory (lay @ [cur])
     \<and> bd_partition b = buffer_of (length (concat lay)) cur"

text \<open>The part of the visitor's state that writing partitions leaves alone.\<close>

definition same_position :: "builder \<Rightarrow> builder \<Rightarrow> bool" where
  "same_position b b' \<longleftrightarrow> bd_source_offsets b' = bd_source_offsets b \<and> bd_current_source b' = bd_current_source b
     \<and> bd_source_ordinal b' = bd_source_ordinal b \<and> bd_previous_edge b' = bd_previous_edge b
     \<and> mt_adjacency_count (bd_metrics b') = mt_adjacency_count (bd_metrics b)"

text \<open>Bounds that keep every count within its field.\<close>

definition layout_bound :: "piece list \<Rightarrow> bool" where
  "layout_bound ps \<longleftrightarrow> length (entries_of ps) \<le> U32_MAX \<and> (\<forall>p \<in> set ps. piece_ok p)"

lemma pieces_le_entries: "\<forall>p \<in> set ps. piece_ok p \<Longrightarrow> length ps \<le> length (entries_of ps)"
proof (induction ps)
  case (Cons p ps)
  then have "length (pc_entries p) \<ge> 1" by (cases "pc_entries p") (auto simp: piece_ok_def)
  with Cons show ?case by simp
qed simp

lemma layout_sizes:
  assumes "layout_bound (concat lay)" "\<forall>ps \<in> set lay. ps \<noteq> []"
  shows "length lay \<le> length (concat lay)" "length (concat lay) \<le> U32_MAX"
    and "length (layout_topology lay) \<le> 48 * U32_MAX" "length (layout_evidence lay) \<le> 8 * U32_MAX"
proof -
  show 1: "length lay \<le> length (concat lay)"
    using assms(2)
  proof (induction lay)
    case (Cons ps lay)
    then have "length ps \<ge> 1" by (cases ps) auto
    with Cons show ?case by simp
  qed simp
  show 2: "length (concat lay) \<le> U32_MAX"
    using assms(1) pieces_le_entries [of "concat lay"] by (auto simp: layout_bound_def)
  have "length (layout_topology lay) = 12 * length lay + 24 * length (concat lay) + 12 * length (entries_of (concat lay))"
    by (induction lay) (simp_all add: partition_size_def)
  with 1 2 assms(1) show "length (layout_topology lay) \<le> 48 * U32_MAX" by (simp add: layout_bound_def)
  have "length (layout_evidence lay) = 8 * length (entries_of (concat lay))" by (induction lay) simp_all
  with assms(1) show "length (layout_evidence lay) \<le> 8 * U32_MAX" by (simp add: layout_bound_def)
qed

lemma io_perform_no_faults [simp]: "io_perform no_faults call = Inr ()"
  by (simp add: io_perform_def no_faults_def)

lemma flush_laid:
  assumes "laid hash config lay cur b" "layout_bound (concat lay @ cur)"
    and "partition_size cur \<le> bc_hard_maximum_partition_topology_bytes config"
  shows "\<exists>b' lay'. flush hash no_faults config b = Inr b' \<and> laid hash config lay' [] b'
    \<and> concat lay' = concat lay @ cur \<and> same_position b b'"
proof (cases "entries_of cur = []")
  case True
  then have "cur = []" using assms(2) pieces_le_entries [of cur] by (auto simp: layout_bound_def)
  moreover have "pb_edges (bd_partition b) = []" using True assms(1) by (simp add: laid_def buffer_of_def)
  ultimately show ?thesis
    using assms(1) by (intro exI [of _ b] exI [of _ lay]) (simp add: flush_def same_position_def)
next
  case False
  let ?p = "buffer_of (length (concat lay)) cur"
  have b: "\<forall>ps \<in> set lay. ps \<noteq> [] \<and> partition_size ps \<le> bc_hard_maximum_partition_topology_bytes config"
    "bd_partition b = ?p" "bd_topology b = layout_topology lay" "bd_topology_offset b = length (layout_topology lay)"
    "bd_evidence b = layout_evidence lay" "bd_evidence_offset b = length (layout_evidence lay)"
    "bd_partitions b = layout_descriptors hash lay" "bd_descriptors b = layout_directory (lay @ [cur])"
    using assms(1) by (simp_all add: laid_def)
  have ne: "cur \<noteq> []" using False by auto
  have all: "layout_bound (concat (lay @ [cur]))" "\<forall>ps \<in> set (lay @ [cur]). ps \<noteq> []" using assms(2) b(1) ne by simp_all
  note S = layout_sizes [OF all]
  have fit: "length lay \<le> U32_MAX" "length (layout_topology lay) + partition_size cur \<le> U64_MAX"
    "length (layout_evidence lay) + 8 * length (entries_of cur) \<le> U64_MAX"
    using S by (simp_all add: U32_MAX_def U64_MAX_def)
  have e: "pb_edges ?p = map en_edge (entries_of cur)" "length (pb_segments ?p) = length cur" by (simp_all add: buffer_of_def)
  obtain b' where fl: "flush hash no_faults config b = Inr b'"
    and b': "b' = b\<lparr>bd_topology := layout_topology (lay @ [cur]), bd_evidence := layout_evidence (lay @ [cur]),
        bd_topology_offset := length (layout_topology (lay @ [cur])), bd_evidence_offset := length (layout_evidence (lay @ [cur])),
        bd_partitions := layout_descriptors hash (lay @ [cur]), bd_partition := partition_default,
        bd_metrics := (bd_metrics b)\<lparr>mt_peak_partition_buffer_bytes :=
          max (mt_peak_partition_buffer_bytes (bd_metrics b)) (partition_size cur + 8 * length (entries_of cur))\<rparr>\<rparr>"
    using False fit assms(3)
    by (simp add: flush_def b e buffer_encoded Let_def checked_add_def layout_descriptors_snoc descriptor_at_def)
  have "laid hash config (lay @ [cur]) [] b'"
    using b assms(3) ne layout_directory_snoc [of "lay @ [cur]" "[]"]
    unfolding b' by (simp add: laid_def buffer_of_def partition_default_def)
  moreover have "same_position b b'" unfolding b' by (simp add: same_position_def)
  ultimately show ?thesis using fl by (intro exI [of _ b'] exI [of _ "lay @ [cur]"]) simp
qed

lemma word_of_nat_u32_eq: "m \<le> U32_MAX \<Longrightarrow> n \<le> U32_MAX \<Longrightarrow> (word_of_nat m :: u32) = word_of_nat n \<longleftrightarrow> m = n"
proof -
  assume "m \<le> U32_MAX" "n \<le> U32_MAX"
  then have "unat (word_of_nat m :: u32) = m" "unat (word_of_nat n :: u32) = n" by (simp_all add: unat_of_nat U32_MAX_def)
  then show ?thesis by (auto simp: word_unat_eq_iff)
qed

text \<open>Opening a run for a source, and adding an edge to it.\<close>

definition with_run :: "nat \<Rightarrow> nat \<Rightarrow> piece list \<Rightarrow> piece list" where
  "with_run s ordinal cur =
     (if cur \<noteq> [] \<and> pc_source (last cur) = s then cur else cur @ [\<lparr>pc_source = s, pc_first = ordinal, pc_entries = []\<rparr>])"

definition extend_run :: "entry \<Rightarrow> piece list \<Rightarrow> piece list" where
  "extend_run e cur = butlast cur @ [(last cur)\<lparr>pc_entries := pc_entries (last cur) @ [e]\<rparr>]"

lemma last_local: "cur \<noteq> [] \<Longrightarrow> ls_source (last (locals_at g k cur)) = word_of_nat (pc_source (last cur))"
proof (induction g k cur rule: locals_at.induct)
  case (2 g start p ps)
  then show ?case by (cases ps) simp_all
qed simp

lemma open_segment_laid:
  assumes "laid hash config lay cur b" "layout_bound (concat lay @ cur)" "\<forall>p \<in> set cur. pc_source p \<le> U32_MAX" "s \<le> U32_MAX"
  shows "\<exists>b'. open_segment (word_of_nat s) b = Inr b' \<and> laid hash config lay (with_run s (bd_source_ordinal b) cur) b'
    \<and> same_position b b'"
proof -
  have b: "\<forall>ps \<in> set lay. ps \<noteq> []" "bd_partition b = buffer_of (length (concat lay)) cur" "bd_partitions b = layout_descriptors hash lay"
    "bd_descriptors b = layout_directory (lay @ [cur])"
    using assms(1) by (auto simp: laid_def)
  have "length lay \<le> U32_MAX" "length cur \<le> U32_MAX"
  proof -
    have "layout_bound (concat lay)" "layout_bound cur" using assms(2) by (auto simp: layout_bound_def)
    then show "length lay \<le> U32_MAX" "length cur \<le> U32_MAX"
      using layout_sizes [OF _ b(1)] pieces_le_entries [of cur] by (auto simp: layout_bound_def)
  qed
  note fit = this
  have same: "ls_source (last (pb_segments (bd_partition b))) = word_of_nat s \<longleftrightarrow> pc_source (last cur) = s" if "cur \<noteq> []"
    using that assms(3,4) by (simp add: b(2) buffer_of_def last_local word_of_nat_u32_eq)
  have seg: "pb_segments (bd_partition b) = [] \<longleftrightarrow> cur = []" by (cases cur) (simp_all add: b(2) buffer_of_def)
  show ?thesis
  proof (cases "cur \<noteq> [] \<and> pc_source (last cur) = s")
    case True
    then have "open_segment (word_of_nat s) b = Inr b" using same seg by (simp add: open_segment_def Let_def)
    then show ?thesis using True assms(1) by (simp add: with_run_def same_position_def)
  next
    case False
    let ?d = "\<lparr>sd_source = word_of_nat s, sd_partition = word_of_nat (length lay), sd_local_segment = word_of_nat (length cur),
      sd_first_edge_ordinal = word_of_nat (bd_source_ordinal b), sd_edge_count = 0\<rparr> :: segment_descriptor"
    let ?l = "\<lparr>ls_source = word_of_nat s, ls_first_ordinal = bd_source_ordinal b, ls_start = word_of_nat (length (entries_of cur)),
      ls_count = 0, ls_global_descriptor = length (concat lay) + length cur\<rparr> :: local_segment"
    let ?b = "b\<lparr>bd_descriptors := bd_descriptors b @ [?d],
      bd_partition := (bd_partition b)\<lparr>pb_segments := pb_segments (bd_partition b) @ [?l]\<rparr>\<rparr>"
    have "open_segment (word_of_nat s) b = Inr ?b"
      using False same seg fit by (auto simp: open_segment_def Let_def b buffer_of_def)
    moreover have "laid hash config lay (with_run s (bd_source_ordinal b) cur) ?b"
      using False assms(1)
      by (simp add: laid_def with_run_def layout_directory_snoc partition_directory_snoc directory_at_def buffer_of_def
          locals_at_append)
    ultimately show ?thesis by (auto simp: same_position_def)
  qed
qed

lemma push_edge_laid:
  assumes "laid hash config lay cur b" "cur \<noteq> []" "length (pc_entries (last cur)) < U32_MAX"
    and "bd_source_ordinal b < U64_MAX" "mt_adjacency_count (bd_metrics b) < U64_MAX"
    and "en_destination e = destination" "en_relation e = relation"
    and "en_weight e = base_weight_bits (er_base_weight edge)" "en_edge e = edge_id_as_u64 (er_id edge)"
  shows "\<exists>b'. push_edge destination relation edge b = Inr b' \<and> laid hash config lay (extend_run e cur) b'
    \<and> bd_source_offsets b' = bd_source_offsets b \<and> bd_current_source b' = bd_current_source b
    \<and> bd_source_ordinal b' = bd_source_ordinal b + 1 \<and> bd_previous_edge b' = bd_previous_edge b
    \<and> mt_adjacency_count (bd_metrics b') = mt_adjacency_count (bd_metrics b) + 1"
proof -
  obtain ps p where cur: "cur = ps @ [p]" using assms(2) by (metis rev_exhaust)
  let ?g = "length (concat lay)" and ?n = "length (pc_entries p)"
  let ?seg = "\<lparr>ls_source = word_of_nat (pc_source p), ls_first_ordinal = pc_first p, ls_start = word_of_nat (length (entries_of ps)),
      ls_count = word_of_nat ?n, ls_global_descriptor = ?g + length ps\<rparr> :: local_segment"
  let ?dir = "layout_directory lay @ partition_directory (length lay) ps"
  have b: "bd_partition b = buffer_of ?g cur" "bd_descriptors b = ?dir @ [directory_at (length lay) (length ps) p]"
    using assms(1) by (simp_all add: laid_def layout_directory_snoc partition_directory_snoc cur)
  have seg: "pb_segments (bd_partition b) = locals_at ?g 0 ps @ [?seg]" by (simp add: b(1) buffer_of_def cur locals_at_append)
  have n: "unat (word_of_nat ?n :: u32) \<noteq> U32_MAX" using assms(3) by (simp add: cur unat_of_nat U32_MAX_def)
  have dirlen: "length ?dir = ?g + length ps" by simp
  let ?b = "b\<lparr>bd_descriptors := ?dir @ [(directory_at (length lay) (length ps) p)\<lparr>sd_edge_count := word_of_nat ?n + 1\<rparr>],
    bd_partition := \<lparr>pb_segments = locals_at ?g 0 ps @ [?seg\<lparr>ls_count := word_of_nat ?n + 1\<rparr>],
      pb_destinations = pb_destinations (bd_partition b) @ [destination], pb_relations = pb_relations (bd_partition b) @ [relation],
      pb_weights = pb_weights (bd_partition b) @ [base_weight_bits (er_base_weight edge)],
      pb_edges = pb_edges (bd_partition b) @ [edge_id_as_u64 (er_id edge)]\<rparr>,
    bd_source_ordinal := bd_source_ordinal b + 1,
    bd_metrics := (bd_metrics b)\<lparr>mt_adjacency_count := mt_adjacency_count (bd_metrics b) + 1,
      mt_decoded_record_bytes := saturating_add (mt_decoded_record_bytes (bd_metrics b)) 36\<rparr>\<rparr>"
  have "push_edge destination relation edge b = Inr ?b"
    using n assms(4,5) by (simp add: push_edge_def Let_def seg b(2) increment_def index_def nth_append list_update_append)
  moreover have "laid hash config lay (extend_run e cur) ?b"
    using assms(1,6-9)
    by (simp add: laid_def extend_run_def cur layout_directory_snoc partition_directory_snoc directory_at_def buffer_of_def
        locals_at_append add.commute)
  ultimately show ?thesis by (intro exI [of _ ?b]) simp
qed

section \<open>Visiting the edges\<close>

definition entry_before :: "entry \<Rightarrow> entry \<Rightarrow> bool" where
  "entry_before a b \<longleftrightarrow> en_source a < en_source b \<or> en_source a = en_source b \<and> en_edge a < en_edge b"

definition ranked :: "node_id list \<Rightarrow> relation_id list \<Rightarrow> edge_record \<Rightarrow> entry" where
  "ranked nodes relations e =
     \<lparr>en_source = the (binary_search nodes (er_source e)),
      en_destination = word_of_nat (the (binary_search nodes (er_destination e))),
      en_relation = word_of_nat (the (binary_search relations (er_relation_kind e))),
      en_weight = base_weight_bits (er_base_weight e), en_edge = edge_id_as_u64 (er_id e)\<rparr>"

definition offsets_upto :: "nat \<Rightarrow> piece list \<Rightarrow> nat list" where
  "offsets_upto n ps = map (\<lambda>i. length (filter (\<lambda>p. pc_source p < i) ps)) [0..<n]"

definition built :: "(bytes \<Rightarrow> bytes) \<Rightarrow> bundle_config \<Rightarrow> entry list \<Rightarrow> piece list list \<Rightarrow> piece list \<Rightarrow> builder \<Rightarrow> bool" where
  "built hash config es lay cur b \<longleftrightarrow>
     laid hash config lay cur b \<and> entries_of (concat lay @ cur) = es \<and> pieces_ok (concat lay @ cur)
     \<and> partition_size cur \<le> bc_hard_maximum_partition_topology_bytes config
     \<and> bd_current_source b = (if es = [] then None else Some (word_of_nat (en_source (last es))))
     \<and> bd_source_offsets b = offsets_upto (if es = [] then 1 else en_source (last es) + 1) (concat lay @ cur)
     \<and> bd_source_ordinal b = (if es = [] then 0 else count_source es (en_source (last es)))
     \<and> bd_previous_edge b = (if es = [] then None else Some (EdgeId (en_edge (last es))))
     \<and> mt_adjacency_count (bd_metrics b) = length es"

text \<open>The limits under which no count of the format can overflow.\<close>

definition config_ok :: "bundle_config \<Rightarrow> bool" where
  "config_ok config \<longleftrightarrow> bundle_config_validate config = Inr config
     \<and> bc_hard_maximum_partition_topology_bytes config \<le> U32_MAX"

lemma config_okD:
  assumes "config_ok config"
  shows "48 \<le> bc_hard_maximum_partition_topology_bytes config" "bc_hard_maximum_partition_topology_bytes config \<le> U32_MAX"
    "0 < bc_maximum_total_bundle_bytes config"
  using assms by (auto simp: config_ok_def bundle_config_validate_def MIN_NONEMPTY_PARTITION_BYTES_def
      PARTITION_HEADER_BYTES_def SEGMENT_ENCODED_BYTES_def EDGE_TOPOLOGY_BYTES_def split: if_splits)

lemma sorted_entries_le:
  assumes "sorted_wrt entry_before (es @ [e])" "x \<in> set es"
  shows "en_source x \<le> en_source e" "en_source x = en_source e \<Longrightarrow> en_edge x < en_edge e"
  using assms by (auto simp: sorted_wrt_append entry_before_def)

lemma pad_offsets:
  assumes "\<forall>p \<in> set ps. pc_source p < m" "m \<le> n"
  shows "pad_to n (length ps) (offsets_upto m ps) = offsets_upto n ps"
proof -
  have "map (\<lambda>i. length (filter (\<lambda>p. pc_source p < i) ps)) [m..<n] = replicate (n - m) (length ps)"
  proof -
    have "filter (\<lambda>p. pc_source p < i) ps = ps" if "i \<in> set [m..<n]" for i
      using assms(1) that by (intro filter_True) auto
    then have "map (\<lambda>i. length (filter (\<lambda>p. pc_source p < i) ps)) [m..<n] = map (\<lambda>_. length ps) [m..<n]" by simp
    then show ?thesis by (simp add: map_replicate_const)
  qed
  moreover have "[0..<n] = [0..<m] @ [m..<n]" using assms(2) upt_add_eq_append [of 0 m "n - m"] by simp
  ultimately show ?thesis by (simp add: pad_to_def offsets_upto_def)
qed

lemma entry_piece:
  assumes "pieces_ok ps" "p \<in> set ps"
  shows "\<exists>x \<in> set (entries_of ps). en_source x = pc_source p"
proof -
  have ok: "piece_ok p" using pieces_okD [OF assms(1)] assms(2) by blast
  then obtain x where "x \<in> set (pc_entries p)" by (cases "pc_entries p") (auto simp: piece_ok_def)
  moreover have "x \<in> set (entries_of ps)" using calculation assms(2) by (auto simp: entries_of_def)
  ultimately show ?thesis using ok by (auto simp: piece_ok_def)
qed

lemma layout_bound_pieces: "pieces_ok ps \<Longrightarrow> length (entries_of ps) \<le> U32_MAX \<Longrightarrow> layout_bound ps"
  using pieces_okD by (auto simp: layout_bound_def)

lemma count_source_less: "\<forall>x \<in> set es. en_source x < s \<Longrightarrow> count_source es s = 0"
  by (auto simp: count_source_def filter_empty_conv)

lemma enter_source_built:
  assumes "built hash config es lay cur b" "config_ok config" "sorted_wrt entry_before (es @ [e])"
    and "length es \<le> U32_MAX" "en_source e \<le> U32_MAX"
  shows "\<exists>b' lay' cur'. enter_source hash no_faults config (word_of_nat (en_source e)) b = Inr b'
    \<and> laid hash config lay' cur' b' \<and> concat lay' @ cur' = concat lay @ cur
    \<and> partition_size cur' \<le> bc_hard_maximum_partition_topology_bytes config
    \<and> bd_current_source b' = Some (word_of_nat (en_source e))
    \<and> bd_source_offsets b' = offsets_upto (en_source e + 1) (concat lay @ cur)
    \<and> bd_source_ordinal b' = count_source es (en_source e)
    \<and> (\<forall>old. bd_previous_edge b' = Some old \<longrightarrow> old < EdgeId (en_edge e))
    \<and> mt_adjacency_count (bd_metrics b') = length es"
proof -
  let ?s = "en_source e" and ?P = "concat lay @ cur"
  note B = assms(1) [unfolded built_def]
  have laid: "laid hash config lay cur b" and P: "entries_of ?P = es" "pieces_ok ?P"
    and size: "partition_size cur \<le> bc_hard_maximum_partition_topology_bytes config"
    and adj: "mt_adjacency_count (bd_metrics b) = length es" using B by simp_all
  have bound: "layout_bound ?P" using P assms(4) layout_bound_pieces by auto
  have src: "en_source x \<le> ?s" if "x \<in> set es" for x using sorted_entries_le(1) [OF assms(3) that] .
  have psrc: "\<exists>x \<in> set es. en_source x = pc_source p" if "p \<in> set ?P" for p using entry_piece [OF P(2) that] unfolding P(1) .
  show ?thesis
  proof (cases "es \<noteq> [] \<and> en_source (last es) = ?s")
    case True
    then have "bd_current_source b = Some (word_of_nat ?s)" using B by simp
    then have "enter_source hash no_faults config (word_of_nat ?s) b = Inr b" by (simp add: enter_source_def)
    moreover have "EdgeId (en_edge (last es)) < EdgeId (en_edge e)"
      using sorted_entries_le(2) [OF assms(3), of "last es"] True by (simp add: less_edge_id_def)
    ultimately show ?thesis using True B by (intro exI [of _ b] exI [of _ lay] exI [of _ cur]) auto
  next
    case False
    have lt: "en_source x < ?s" if "x \<in> set es" for x
    proof -
      from that obtain pre post where es: "es = pre @ x # post" by (meson split_list)
      have "en_source x \<le> en_source (last es)"
      proof (cases "post = []")
        case False
        then have "last es \<in> set post" by (simp add: es)
        then show ?thesis using assms(3) by (auto simp: es sorted_wrt_append entry_before_def)
      qed (simp add: es)
      moreover have "en_source (last es) < ?s" using False that src [of "last es"] by (cases es) auto
      ultimately show ?thesis by simp
    qed
    have u: "unat (word_of_nat ?s :: u32) = ?s" using assms(5) by (simp add: unat_of_nat U32_MAX_def)
    have old: "\<not> (case bd_current_source b of None \<Rightarrow> False | Some old \<Rightarrow> word_of_nat ?s \<le> old)"
      "bd_current_source b \<noteq> Some (word_of_nat ?s)"
    proof -
      have cs: "bd_current_source b = (if es = [] then None else Some (word_of_nat (en_source (last es))))" using B by simp
      have "unat (word_of_nat (en_source (last es)) :: u32) < unat (word_of_nat ?s :: u32)" if "es \<noteq> []"
        using lt [of "last es"] assms(5) u that by (simp add: unat_of_nat U32_MAX_def)
      then show "\<not> (case bd_current_source b of None \<Rightarrow> False | Some old \<Rightarrow> word_of_nat ?s \<le> old)"
        "bd_current_source b \<noteq> Some (word_of_nat ?s)"
        by (cases "es = []"; auto simp: cs word_le_nat_alt)+
    qed
    let ?inner = "if bd_current_source b = None then Inr b
      else rbind (topology_bytes (bd_partition b)) (\<lambda>used.
        if used \<ge> bc_target_partition_topology_bytes config then flush hash no_faults config b else Inr b)"
    have "topology_bytes (bd_partition b) = Inr (partition_size cur)"
      using laid size config_okD(2) [OF assms(2)] by (simp add: laid_def topology_bytes_buffer U32_MAX_def U64_MAX_def)
    then obtain b1 lay1 cur1 where b1: "?inner = Inr b1" "laid hash config lay1 cur1 b1" "concat lay1 @ cur1 = ?P"
        "same_position b b1" "partition_size cur1 \<le> bc_hard_maximum_partition_topology_bytes config"
    proof -
      assume ts: "topology_bytes (bd_partition b) = Inr (partition_size cur)"
        and *: "\<And>b1 lay1 cur1. ?inner = Inr b1 \<Longrightarrow> laid hash config lay1 cur1 b1 \<Longrightarrow> concat lay1 @ cur1 = ?P \<Longrightarrow>
          same_position b b1 \<Longrightarrow> partition_size cur1 \<le> bc_hard_maximum_partition_topology_bytes config \<Longrightarrow> thesis"
      show thesis
      proof (cases "bd_current_source b \<noteq> None \<and> bc_target_partition_topology_bytes config \<le> partition_size cur")
        case True
        from flush_laid [OF laid bound size] obtain b' lay' where f: "flush hash no_faults config b = Inr b'"
          "laid hash config lay' [] b'" "concat lay' = ?P" "same_position b b'" by blast
        show thesis
          by (rule * [of b' lay' "[]"]) (use f True ts config_okD(1) [OF assms(2)] in \<open>auto simp: partition_size_def\<close>)
      next
        case False
        show thesis by (rule * [of b lay cur]) (use False ts laid size in \<open>auto simp: same_position_def\<close>)
      qed
    qed
    let ?m = "if es = [] then 1 else en_source (last es) + 1"
    have dl: "length (bd_descriptors b1) = length ?P" using b1(2,3) by (simp add: laid_def flip: b1(3))
    have "pad_to (?s + 1) (length ?P) (offsets_upto ?m ?P) = offsets_upto (?s + 1) ?P"
    proof (rule pad_offsets)
      show "\<forall>p \<in> set ?P. pc_source p < ?m"
      proof
        fix p assume "p \<in> set ?P"
        from psrc [OF this] obtain x where x: "x \<in> set es" "en_source x = pc_source p" by blast
        then obtain pre post where es: "es = pre @ x # post" by (meson split_list)
        have "sorted_wrt entry_before es" using assms(3) by (simp add: sorted_wrt_append)
        then have "en_source x \<le> en_source (last es)"
          by (cases "post = []") (auto simp: es sorted_wrt_append entry_before_def dest!: last_in_set)
        then show "pc_source p < ?m" using x by (auto split: if_splits)
      qed
      show "?m \<le> ?s + 1" using lt [of "last es"] by (cases "es = []") (auto intro: less_imp_le)
    qed
    moreover have "bd_source_offsets b = offsets_upto ?m ?P" using B by simp
    ultimately have off: "pad_to (?s + 1) (length (bd_descriptors b1)) (bd_source_offsets b1) = offsets_upto (?s + 1) ?P"
      using b1(4) dl by (simp add: same_position_def)
    let ?b = "b1\<lparr>bd_source_offsets := offsets_upto (?s + 1) ?P, bd_current_source := Some (word_of_nat ?s),
      bd_source_ordinal := 0, bd_previous_edge := None\<rparr>"
    have "enter_source hash no_faults config (word_of_nat ?s) b = Inr ?b"
      using old b1(1) off u by (simp add: enter_source_def)
    moreover have "laid hash config lay1 cur1 ?b" using b1(2) by (simp add: laid_def)
    moreover have "count_source es ?s = 0" using lt by (intro count_source_less) blast
    moreover have "mt_adjacency_count (bd_metrics b1) = length es" using b1(4) adj by (simp add: same_position_def)
    ultimately show ?thesis using b1 by (intro exI [of _ ?b] exI [of _ lay1] exI [of _ cur1]) simp
  qed
qed

lemma extend_pieces_ok:
  assumes "pieces_ok (ps @ [p])" "entries_of (ps @ [p]) = es" "pc_source p = en_source e" "sorted_wrt entry_before (es @ [e])"
  shows "pieces_ok (ps @ [p\<lparr>pc_entries := pc_entries p @ [e]\<rparr>])"
proof -
  have P: "pieces_ok ps" "piece_ok p" "pc_first p = count_source (entries_of ps) (pc_source p)" "\<forall>q \<in> set ps. pc_source q \<le> pc_source p"
    using assms(1) by (auto simp: pieces_ok_snoc)
  have "en_edge x < en_edge e" if "x \<in> set (pc_entries p)" for x
  proof -
    have "x \<in> set es" using that assms(2) by auto
    moreover have "en_source x = en_source e" using that P(2) assms(3) by (simp add: piece_ok_def)
    ultimately show ?thesis using sorted_entries_le(2) [OF assms(4)] by simp
  qed
  then show ?thesis using P assms(3) by (auto simp: pieces_ok_snoc piece_ok_def sorted_wrt_append)
qed

lemma start_pieces_ok:
  assumes "pieces_ok ps" "entries_of ps = es" "sorted_wrt entry_before (es @ [e])" "n = count_source es (en_source e)"
  shows "pieces_ok (ps @ [\<lparr>pc_source = en_source e, pc_first = n, pc_entries = [e]\<rparr>])"
proof -
  have "pc_source q \<le> en_source e" if "q \<in> set ps" for q
    using entry_piece [OF assms(1) that] assms(2) sorted_entries_le(1) [OF assms(3)] by force
  with assms show ?thesis by (simp add: pieces_ok_snoc piece_ok_def)
qed

lemma extended_with_run:
  assumes "pieces_ok (P @ cur)" "entries_of (P @ cur) = es" "sorted_wrt entry_before (es @ [e])"
  shows "pieces_ok (P @ extend_run e (with_run (en_source e) (count_source es (en_source e)) cur))"
    and "entries_of (P @ extend_run e (with_run (en_source e) (count_source es (en_source e)) cur)) = es @ [e]"
    and "offsets_upto (en_source e + 1) (P @ extend_run e (with_run (en_source e) (count_source es (en_source e)) cur))
      = offsets_upto (en_source e + 1) (P @ cur)"
proof -
  let ?c = "extend_run e (with_run (en_source e) (count_source es (en_source e)) cur)"
  have "pieces_ok (P @ ?c) \<and> entries_of (P @ ?c) = es @ [e] \<and> offsets_upto (en_source e + 1) (P @ ?c) = offsets_upto (en_source e + 1) (P @ cur)"
  proof (cases "cur \<noteq> [] \<and> pc_source (last cur) = en_source e")
    case True
    then obtain ps p where cur: "cur = ps @ [p]" "pc_source p = en_source e" by (metis last_snoc rev_exhaust)
    then have c: "?c = ps @ [p\<lparr>pc_entries := pc_entries p @ [e]\<rparr>]" by (simp add: with_run_def extend_run_def)
    have "pieces_ok ((P @ ps) @ [p\<lparr>pc_entries := pc_entries p @ [e]\<rparr>])"
      using assms cur by (intro extend_pieces_ok [where es = es]) simp_all
    then show ?thesis using assms(2) unfolding c by (auto simp: cur offsets_upto_def)
  next
    case False
    then have c: "?c = cur @ [\<lparr>pc_source = en_source e, pc_first = count_source es (en_source e), pc_entries = [e]\<rparr>]"
      by (auto simp: with_run_def extend_run_def)
    have "pieces_ok ((P @ cur) @ [\<lparr>pc_source = en_source e, pc_first = count_source es (en_source e), pc_entries = [e]\<rparr>])"
      using assms by (intro start_pieces_ok [where es = es]) simp_all
    then show ?thesis using assms(2) unfolding c by (auto simp: offsets_upto_def)
  qed
  then show "pieces_ok (P @ ?c)" "entries_of (P @ ?c) = es @ [e]"
    "offsets_upto (en_source e + 1) (P @ ?c) = offsets_upto (en_source e + 1) (P @ cur)" by blast+
qed

lemma size_with_run:
  "partition_size (extend_run e (with_run s n cur)) =
     partition_size cur + 12 + (if cur \<noteq> [] \<and> pc_source (last cur) = s then 0 else 24)"
proof (cases "cur \<noteq> [] \<and> pc_source (last cur) = s")
  case True
  then obtain ps p where "cur = ps @ [p]" by (metis rev_exhaust)
  with True show ?thesis by (simp add: with_run_def extend_run_def partition_size_def)
qed (auto simp: with_run_def extend_run_def partition_size_def)

lemma visit_edge_built:
  assumes "built hash config es lay cur b" "config_ok config" "sorted_wrt entry_before (es @ [ranked nodes relations e])"
    and "length es < U32_MAX" "length nodes \<le> U32_MAX"
    and "binary_search nodes (er_source e) = Some s" "binary_search nodes (er_destination e) \<noteq> None"
      "binary_search relations (er_relation_kind e) \<noteq> None"
  shows "\<exists>b' lay' cur'. visit_edge hash no_faults config nodes relations e b = Inr b'
    \<and> built hash config (es @ [ranked nodes relations e]) lay' cur' b'"
proof -
  let ?e = "ranked nodes relations e" and ?P = "concat lay @ cur" and ?hard = "bc_hard_maximum_partition_topology_bytes config"
  obtain d r where dr: "binary_search nodes (er_destination e) = Some d" "binary_search relations (er_relation_kind e) = Some r"
    using assms(7,8) by auto
  have e: "en_source ?e = s" "en_destination ?e = word_of_nat d" "en_relation ?e = word_of_nat r" "en_edge ?e = edge_id_as_u64 (er_id e)"
    "en_weight ?e = base_weight_bits (er_base_weight e)" "EdgeId (en_edge ?e) = er_id e"
    using assms(6) dr by (simp_all add: ranked_def)
  have s: "s \<le> U32_MAX" using binary_search_SomeD [OF assms(6)] assms(5) by simp
  note B = assms(1) [unfolded built_def]
  have P: "entries_of ?P = es" "pieces_ok ?P" using B by simp_all
  have bound: "layout_bound ?P" using P assms(4) layout_bound_pieces by auto
  have src: "pc_source p \<le> U32_MAX" if "p \<in> set ?P" for p
  proof -
    from entry_piece [OF P(2) that] obtain x where "x \<in> set es" "en_source x = pc_source p" unfolding P(1) by blast
    then show ?thesis using sorted_entries_le(1) [OF assms(3)] s e(1) by fastforce
  qed
  from enter_source_built [OF assms(1-3), unfolded e(1,6)] assms(4) s obtain b1 lay1 cur1 where
    b1: "enter_source hash no_faults config (word_of_nat s) b = Inr b1" "laid hash config lay1 cur1 b1" "concat lay1 @ cur1 = ?P"
      "partition_size cur1 \<le> ?hard" "bd_current_source b1 = Some (word_of_nat s)"
      "bd_source_offsets b1 = offsets_upto (s + 1) ?P" "bd_source_ordinal b1 = count_source es s"
      "\<forall>old. bd_previous_edge b1 = Some old \<longrightarrow> old < er_id e" "mt_adjacency_count (bd_metrics b1) = length es"
    by auto
  let ?b1 = "b1\<lparr>bd_previous_edge := Some (er_id e)\<rparr>"
  let ?same = "pb_segments (bd_partition b1) \<noteq> [] \<and> ls_source (last (pb_segments (bd_partition b1))) = word_of_nat s"
  let ?size = "partition_size cur1 + (12 + (if ?same then 0 else 24))"
  have src1: "\<forall>p \<in> set cur1. pc_source p \<le> U32_MAX" using src by (auto simp flip: b1(3))
  have same: "?same \<longleftrightarrow> cur1 \<noteq> [] \<and> pc_source (last cur1) = s"
  proof -
    have "pb_segments (bd_partition b1) = locals_at (length (concat lay1)) 0 cur1" using b1(2) by (simp add: laid_def buffer_of_def)
    moreover have "locals_at (length (concat lay1)) 0 cur1 = [] \<longleftrightarrow> cur1 = []" by (cases cur1) simp_all
    ultimately show ?thesis using src1 s by (auto simp: last_local word_of_nat_u32_eq)
  qed
  have l1: "laid hash config lay1 cur1 ?b1" using b1(2) by (simp add: laid_def)
  have used: "topology_bytes (bd_partition b1) = Inr (partition_size cur1)" "?size \<le> U64_MAX"
    using b1(2,4) config_okD(2) [OF assms(2)] by (simp_all add: laid_def topology_bytes_buffer U32_MAX_def U64_MAX_def)
  obtain b2 lay2 cur2 where b2: "(if ?size > ?hard then flush hash no_faults config ?b1 else Inr ?b1) = Inr b2"
      "laid hash config lay2 cur2 b2" "concat lay2 @ cur2 = ?P" "same_position ?b1 b2"
      "partition_size (extend_run ?e (with_run s (count_source es s) cur2)) \<le> ?hard"
  proof (cases "?size > ?hard")
    case True
    from flush_laid [OF l1, unfolded b1(3), OF bound b1(4)] obtain b' lay' where
      f: "flush hash no_faults config ?b1 = Inr b'" "laid hash config lay' [] b'" "concat lay' = ?P" "same_position ?b1 b'" by blast
    show thesis
    proof (rule that [of b' lay' "[]"])
      show "partition_size (extend_run ?e (with_run s (count_source es s) [])) \<le> ?hard"
        unfolding size_with_run using config_okD(1) [OF assms(2)] by (simp add: partition_size_def)
    qed (use f True in simp_all)
  next
    case False
    show thesis
    proof (rule that [of ?b1 lay1 cur1])
      show "partition_size (extend_run ?e (with_run s (count_source es s) cur1)) \<le> ?hard"
        unfolding size_with_run using False same by (simp split: if_splits)
    qed (use False l1 b1(3) in \<open>simp_all add: same_position_def\<close>)
  qed
  have o2: "bd_source_ordinal b2 = count_source es s" using b2(4) b1(7) by (simp add: same_position_def)
  have src2: "\<forall>p \<in> set cur2. pc_source p \<le> U32_MAX" using src by (auto simp flip: b2(3))
  from open_segment_laid [OF b2(2) _ src2 s] bound b2(3) o2 obtain b3 where
    b3: "open_segment (word_of_nat s) b2 = Inr b3" "laid hash config lay2 (with_run s (count_source es s) cur2) b3" "same_position b2 b3"
    by auto
  let ?c = "with_run s (count_source es s) cur2"
  have ne: "?c \<noteq> []" by (auto simp: with_run_def)
  have x: "pieces_ok (concat lay2 @ extend_run ?e ?c)" "entries_of (concat lay2 @ extend_run ?e ?c) = es @ [?e]"
    "offsets_upto (s + 1) (concat lay2 @ extend_run ?e ?c) = offsets_upto (s + 1) ?P"
    using extended_with_run [of "concat lay2" cur2 es ?e] assms(3) P e(1) b2(3) by simp_all
  have "length (pc_entries (last ?c)) < U32_MAX"
  proof -
    have "length (entries_of (concat lay2 @ extend_run ?e ?c)) \<le> U32_MAX" unfolding x(2) using assms(4) by simp
    then show ?thesis by (simp add: extend_run_def)
  qed
  moreover have pos: "same_position ?b1 b3" using b2(4) b3(3) by (simp add: same_position_def)
  moreover have "count_source es s \<le> length es" by (simp add: count_source_def)
  ultimately have "\<exists>b'. push_edge (word_of_nat d) (word_of_nat r) e b3 = Inr b' \<and> laid hash config lay2 (extend_run ?e ?c) b'
    \<and> bd_source_offsets b' = bd_source_offsets b3 \<and> bd_current_source b' = bd_current_source b3
    \<and> bd_source_ordinal b' = bd_source_ordinal b3 + 1 \<and> bd_previous_edge b' = bd_previous_edge b3
    \<and> mt_adjacency_count (bd_metrics b') = mt_adjacency_count (bd_metrics b3) + 1"
    using assms(4) b1(7,9) e by (intro push_edge_laid [OF b3(2) ne]) (simp_all add: same_position_def U32_MAX_def U64_MAX_def)
  then obtain b4 where b4: "push_edge (word_of_nat d) (word_of_nat r) e b3 = Inr b4" "laid hash config lay2 (extend_run ?e ?c) b4"
    "bd_source_offsets b4 = bd_source_offsets b3" "bd_current_source b4 = bd_current_source b3"
    "bd_source_ordinal b4 = bd_source_ordinal b3 + 1" "bd_previous_edge b4 = bd_previous_edge b3"
    "mt_adjacency_count (bd_metrics b4) = mt_adjacency_count (bd_metrics b3) + 1" by blast
  have prev: "\<not> (case bd_previous_edge b1 of None \<Rightarrow> False | Some old \<Rightarrow> er_id e \<le> old)"
    using b1(8) by (auto simp: not_le split: option.splits)
  have "visit_edge hash no_faults config nodes relations e b = Inr b4"
    using assms(6) dr b1(1) prev used b2(1) b3(1) b4(1)
    by (simp add: visit_edge_def Let_def EDGE_TOPOLOGY_BYTES_def SEGMENT_ENCODED_BYTES_def checked_add_def cong: if_cong)
  moreover have "built hash config (es @ [?e]) lay2 (extend_run ?e ?c) b4"
    using b4 x b2(5) pos b1(5-7,9) e by (simp add: built_def same_position_def count_source_def)
  ultimately show ?thesis by blast
qed

lemma edges_built:
  assumes "config_ok config" "length nodes \<le> U32_MAX" "length edges \<le> U32_MAX"
    and "sorted_wrt entry_before (map (ranked nodes relations) edges)"
    and "\<forall>e \<in> set edges. binary_search nodes (er_source e) \<noteq> None \<and> binary_search nodes (er_destination e) \<noteq> None
      \<and> binary_search relations (er_relation_kind e) \<noteq> None"
  shows "\<exists>b lay cur. fold_result (visit_edge hash no_faults config nodes relations) edges (empty_builder n k c) = Inr b
    \<and> built hash config (map (ranked nodes relations) edges) lay cur b"
  using assms(3-)
proof (induction edges rule: rev_induct)
  case Nil
  have "built hash config [] [] [] (empty_builder n k c)"
    using config_okD(1) [OF assms(1)] layout_directory_snoc [of "[]" "[]"]
    by (simp add: built_def laid_def empty_builder_def pieces_Nil partition_size_def offsets_upto_def buffer_of_def
        partition_default_def layout_descriptors_def)
  then show ?case by auto
next
  case (snoc e edges)
  then obtain b lay cur where b: "fold_result (visit_edge hash no_faults config nodes relations) edges (empty_builder n k c) = Inr b"
      "built hash config (map (ranked nodes relations) edges) lay cur b"
    by (fastforce simp: sorted_wrt_append)
  obtain s where s: "binary_search nodes (er_source e) = Some s" using snoc.prems(3) by auto
  have "\<exists>b' lay' cur'. visit_edge hash no_faults config nodes relations e b = Inr b'
      \<and> built hash config (map (ranked nodes relations) edges @ [ranked nodes relations e]) lay' cur' b'"
    using snoc.prems by (intro visit_edge_built [OF b(2) assms(1) _ _ assms(2) s]) auto
  then obtain b' lay' cur' where "visit_edge hash no_faults config nodes relations e b = Inr b'"
      "built hash config (map (ranked nodes relations) (edges @ [e])) lay' cur' b'" by auto
  with b(1) show ?case by (intro exI [of _ b'] exI [of _ lay'] exI [of _ cur']) (simp add: fold_result_append)
qed

text \<open>The layout that is left after the last partition is written.\<close>

definition layout_ok :: "bundle_config \<Rightarrow> entry list \<Rightarrow> piece list list \<Rightarrow> bool" where
  "layout_ok config es lay \<longleftrightarrow> entries_of (concat lay) = es \<and> pieces_ok (concat lay)
     \<and> (\<forall>ps \<in> set lay. ps \<noteq> [] \<and> partition_size ps \<le> bc_hard_maximum_partition_topology_bytes config)"

lemma flushed_built:
  assumes "built hash config es lay cur b" "length es \<le> U32_MAX"
  shows "\<exists>b' lay'. flush hash no_faults config b = Inr b' \<and> layout_ok config es lay' \<and> laid hash config lay' [] b'
    \<and> bd_source_offsets b' = offsets_upto (if es = [] then 1 else en_source (last es) + 1) (concat lay')
    \<and> mt_adjacency_count (bd_metrics b') = length es"
proof -
  note B = assms(1) [unfolded built_def]
  have "layout_bound (concat lay @ cur)" using B assms(2) by (intro layout_bound_pieces) auto
  from flush_laid [OF _ this, of hash config b] B obtain b' lay' where
    b': "flush hash no_faults config b = Inr b'" "laid hash config lay' [] b'" "concat lay' = concat lay @ cur" "same_position b b'"
    by blast
  have "layout_ok config es lay'" using B b'(2,3) by (auto simp: layout_ok_def laid_def)
  then show ?thesis using b' B by (auto simp: same_position_def)
qed

end
