(* ===== verification/Bundle_Opening.thy ===== *)
theory Bundle_Opening
  imports Bundle_Build
begin

text \<open>
  The production reader accepts what the compiler writes. For a layout within the limits, the
  five files are read back, every check of \<^verbatim>\<open>open_bundle\<close> passes, and the bundle that is opened holds
  the identity tables, the source offsets and the partitions of the layout.
\<close>

section \<open>The files of a layout\<close>

definition layout_manifest :: "(bytes \<Rightarrow> bytes) \<Rightarrow> bundle_config \<Rightarrow> node_id list \<Rightarrow> relation_id list \<Rightarrow> piece list list \<Rightarrow> bundle_manifest" where
  "layout_manifest hash config nodes relations lay =
     \<lparr>bm_numeric_policy = ascii NUMERIC_POLICY_ID, bm_tie_policy = ascii TIE_POLICY_ID,
      bm_node_count = word_of_nat (length nodes), bm_relation_kind_count = word_of_nat (length relations),
      bm_adjacency_count = word_of_nat (length (entries_of (concat lay))),
      bm_segment_count = word_of_nat (length (concat lay)),
      bm_target_partition_bytes = word_of_nat (bc_target_partition_topology_bytes config),
      bm_hard_maximum_partition_bytes = word_of_nat (bc_hard_maximum_partition_topology_bytes config),
      bm_identities = describe hash (identity_file nodes relations),
      bm_source_directory = describe hash (directory_file (offsets_upto (length nodes + 1) (concat lay)) (layout_directory lay)),
      bm_topology = describe hash (layout_topology lay), bm_evidence = describe hash (layout_evidence lay),
      bm_partitions = layout_descriptors hash lay\<rparr>"

definition layout_files :: "(bytes \<Rightarrow> bytes) \<Rightarrow> bundle_config \<Rightarrow> node_id list \<Rightarrow> relation_id list \<Rightarrow> piece list list \<Rightarrow> directory" where
  "layout_files hash config nodes relations lay =
     [(''identities.bin'', identity_file nodes relations), (''topology.bin'', layout_topology lay),
      (''evidence.bin'', layout_evidence lay),
      (''source-directory.bin'', directory_file (offsets_upto (length nodes + 1) (concat lay)) (layout_directory lay)),
      (''manifest.bin'', manifest_layout (layout_manifest hash config nodes relations lay))]"

definition source_edge_offsets :: "nat \<Rightarrow> entry list \<Rightarrow> nat list" where
  "source_edge_offsets n es = map (\<lambda>i. length (filter (\<lambda>e. en_source e < i) es)) [0..<n]"

definition partition_edge_offsets :: "piece list list \<Rightarrow> nat list" where
  "partition_edge_offsets lay = map (\<lambda>k. length (entries_of (concat (take k lay)))) [0..<length lay + 1]"

definition layout_bundle :: "(bytes \<Rightarrow> bytes) \<Rightarrow> bundle_config \<Rightarrow> node_id list \<Rightarrow> relation_id list \<Rightarrow> piece list list \<Rightarrow> routing_bundle" where
  "layout_bundle hash config nodes relations lay =
     \<lparr>rb_manifest = layout_manifest hash config nodes relations lay,
      rb_manifest_checksum = hash (manifest_layout (layout_manifest hash config nodes relations lay)),
      rb_nodes = nodes, rb_relations = relations,
      rb_source_segment_offsets = map word_of_nat (offsets_upto (length nodes + 1) (concat lay)),
      rb_segments = layout_directory lay, rb_source_edge_offsets = source_edge_offsets (length nodes + 1) (entries_of (concat lay)),
      rb_partition_edge_offsets = partition_edge_offsets lay\<rparr>"

text \<open>What the compiler knows of the layout it writes.\<close>

definition writable :: "bundle_config \<Rightarrow> node_id list \<Rightarrow> relation_id list \<Rightarrow> piece list list \<Rightarrow> bool" where
  "writable config nodes relations lay \<longleftrightarrow>
     config_ok config \<and> layout_ok config (entries_of (concat lay)) lay \<and> length (entries_of (concat lay)) \<le> U32_MAX
     \<and> sorted_wrt (<) nodes \<and> sorted_wrt (<) relations \<and> length nodes \<le> U32_MAX \<and> length relations \<le> U32_MAX
     \<and> (\<forall>e \<in> set (entries_of (concat lay)). en_source e < length nodes \<and> unat (en_destination e) < length nodes
          \<and> unat (en_relation e) < length relations \<and> base_weight_ok (BaseWeight (en_weight e)))"

section \<open>Sizes\<close>

lemma length_identity_file [simp]: "length (identity_file nodes relations) = 8 * (length nodes + length relations)"
  by (simp add: identity_file_def put_foldl length_concat_fixed [of u64_to_le_bytes 8] del: map_map)

definition descriptor_bytes :: "segment_descriptor \<Rightarrow> bytes" where
  "descriptor_bytes s = u32_to_le_bytes (sd_source s) @ u32_to_le_bytes (sd_partition s) @ u32_to_le_bytes (sd_local_segment s)
     @ u64_to_le_bytes (sd_first_edge_ordinal s) @ u32_to_le_bytes (sd_edge_count s)"

interpretation descriptor_field: field read_descriptor descriptor_bytes "\<lambda>_. True"
proof
  fix pre rest :: bytes and v d assume a: "addressable (pre @ rest)"
  show "read_descriptor (dcr pre rest) = Inr (v, d) \<longleftrightarrow>
      True \<and> (\<exists>rest'. rest = descriptor_bytes v @ rest' \<and> d = dcr (pre @ descriptor_bytes v) rest')"
    (is "?L \<longleftrightarrow> ?R")
  proof
    assume ?L
    then show ?R
      using a by (cases v)
        (auto simp: read_descriptor_def rbind_Inr_iff u64_field.read_iff u32_field.read_iff descriptor_bytes_def)
  next
    assume ?R
    then show ?L
      using a by (cases v) (auto simp: read_descriptor_def fields_written descriptor_bytes_def)
  qed
qed

lemma directory_file_bytes:
  "directory_file offsets ds = concat (map u64_to_le_bytes (map word_of_nat offsets)) @ concat (map descriptor_bytes ds)"
proof -
  have "foldl put_descriptor out ds = out @ concat (map descriptor_bytes ds)" for out
    by (induction ds arbitrary: out) (simp_all add: put_descriptor_def descriptor_bytes_def put_u32_def put_u64_def)
  then show ?thesis by (simp add: directory_file_def put_foldl)
qed

lemma length_directory_file: "length (directory_file offsets ds) = 8 * length offsets + 24 * length ds"
proof -
  have "length (descriptor_bytes d) = 24" for d by (simp add: descriptor_bytes_def)
  then show ?thesis
    by (simp add: directory_file_bytes length_concat_fixed [of u64_to_le_bytes 8] length_concat_fixed [of descriptor_bytes 24]
        del: map_map)
qed

lemma length_offsets_upto [simp]: "length (offsets_upto n ps) = n"
  by (simp add: offsets_upto_def)

lemma writable_sizes:
  assumes "writable config nodes relations lay"
  shows "length lay \<le> U32_MAX" "length (concat lay) \<le> U32_MAX" "length (layout_topology lay) \<le> 48 * U32_MAX"
    "length (layout_evidence lay) \<le> 8 * U32_MAX" "pieces_ok (concat lay)" "\<forall>ps \<in> set lay. ps \<noteq> []" "layout_bound (concat lay)"
proof -
  have w: "pieces_ok (concat lay)" "\<forall>ps \<in> set lay. ps \<noteq> []" "length (entries_of (concat lay)) \<le> U32_MAX"
    using assms by (simp_all add: writable_def layout_ok_def)
  have b: "layout_bound (concat lay)" using w layout_bound_pieces by blast
  note S = layout_sizes [OF b w(2)]
  show "length lay \<le> U32_MAX" "length (concat lay) \<le> U32_MAX" "length (layout_topology lay) \<le> 48 * U32_MAX"
    "length (layout_evidence lay) \<le> 8 * U32_MAX" using S by simp_all
  show "pieces_ok (concat lay)" "\<forall>ps \<in> set lay. ps \<noteq> []" "layout_bound (concat lay)" by (fact w(1) w(2) b)+
qed

lemma unat_words:
  "n \<le> U32_MAX \<Longrightarrow> unat (word_of_nat n :: u32) = n" "n \<le> U64_MAX \<Longrightarrow> unat (word_of_nat n :: u64) = n"
  by (simp_all add: unat_of_nat U32_MAX_def U64_MAX_def)

lemma described_length: "length bs \<le> U64_MAX \<Longrightarrow> unat (fd_length (describe hash bs)) = length bs"
  by (simp add: describe_def unat_words)

lemma length_manifest_layout:
  assumes "\<And>bs. length (hash bs) = 32" "writable config nodes relations lay"
  shows "length (manifest_layout (layout_manifest hash config nodes relations lay)) \<le> 112 * U32_MAX + 400"
proof -
  have "length (partition_bytes p) = 112" if "p \<in> set (layout_descriptors hash lay)" for p
    using that assms(1) by (auto simp: layout_descriptors_def descriptor_at_def partition_bytes_def)
  then have "length (concat (map partition_bytes (layout_descriptors hash lay))) = 112 * length lay"
    by (simp add: length_concat comp_def sum_list_triv cong: map_cong)
  then show ?thesis
    using writable_sizes(1) [OF assms(2)] assms(1)
    by (simp add: manifest_layout_def layout_manifest_def counted_le_def file_bytes_def describe_def ascii_def
        NUMERIC_POLICY_ID_def TIE_POLICY_ID_def element_width_words_def)
qed

section \<open>Reading the files back\<close>

lemma layout_manifest_read:
  assumes "\<And>bs. length (hash bs) = 32" "writable config nodes relations lay" "reserve ''partitions'' (length lay)"
  shows "manifest_decode reserve (manifest_layout (layout_manifest hash config nodes relations lay))
    = Inr (layout_manifest hash config nodes relations lay)"
proof -
  let ?m = "layout_manifest hash config nodes relations lay"
  have a: "addressable (manifest_layout ?m)"
    using length_manifest_layout [of hash config nodes relations lay, OF assms(1,2)] by (simp add: addressable_def U32_MAX_def U64_MAX_def)
  have "manifest_ok ?m"
    using assms(1) writable_sizes(1) [OF assms(2)]
    by (auto simp: manifest_ok_def layout_manifest_def file_typed_def partition_typed_def describe_def layout_descriptors_def
        descriptor_at_def unat_words)
  moreover have "manifest_encode ?m = Inr (manifest_layout ?m)"
    using policies_ok writable_sizes(1) [OF assms(2)]
    by (auto simp: manifest_encode_iff layout_manifest_def U32_MAX_def U64_MAX_def)
  ultimately show ?thesis using manifest_decode_exact [OF a] assms(3) by (simp add: layout_manifest_def)
qed

lemma layout_files_of [simp]:
  "map_of (layout_files hash config nodes relations lay) ''identities.bin'' = Some (identity_file nodes relations)"
  "map_of (layout_files hash config nodes relations lay) ''topology.bin'' = Some (layout_topology lay)"
  "map_of (layout_files hash config nodes relations lay) ''evidence.bin'' = Some (layout_evidence lay)"
  "map_of (layout_files hash config nodes relations lay) ''source-directory.bin'' =
     Some (directory_file (offsets_upto (length nodes + 1) (concat lay)) (layout_directory lay))"
  "map_of (layout_files hash config nodes relations lay) ''manifest.bin'' =
     Some (manifest_layout (layout_manifest hash config nodes relations lay))"
  by (simp_all add: layout_files_def)

lemma layout_file_names: "sort (map fst (layout_files hash config nodes relations lay)) = sort bundle_file_names"
proof -
  have "mset (map fst (layout_files hash config nodes relations lay)) = mset bundle_file_names"
    by (simp add: layout_files_def bundle_file_names_def)
  then show ?thesis by (metis sorted_list_of_multiset_mset)
qed

lemma described_file:
  assumes "length bs \<le> U64_MAX" "map_of dir name = Some bs"
  shows "validated_file hash no_faults dir name (describe hash bs) = Inr bs"
    and "validate_large_file hash no_faults dir name (describe hash bs) = Inr ()"
  using assms by (simp_all add: validated_file_def validate_large_file_def fs_read_def describe_def unat_words)

lemma id_orders: "(<) = (\<lambda>x y. node_id_as_u64 x < node_id_as_u64 y)" "(<) = (\<lambda>x y. relation_id_as_u64 x < relation_id_as_u64 y)"
  by (simp_all add: fun_eq_iff id_order_defs)

lemma identities_read:
  assumes "sorted_wrt (<) nodes" "sorted_wrt (<) relations" "length nodes \<le> U32_MAX" "length relations \<le> U32_MAX"
  shows "read_identities (layout_manifest hash config nodes relations lay) (identity_file nodes relations) = Inr (nodes, relations)"
proof -
  let ?N = "map node_id_as_u64 nodes" and ?R = "map relation_id_as_u64 relations"
  have whole: "identity_file nodes relations = concat (map u64_to_le_bytes ?N) @ concat (map u64_to_le_bytes ?R)"
    by (simp add: identity_file_def put_foldl)
  have a: "addressable (identity_file nodes relations)" using assms(3,4) by (simp add: addressable_def U32_MAX_def U64_MAX_def)
  have sorted: "sorted_wrt (<) ?N" "sorted_wrt (<) ?R"
    using assms(1,2) by (simp_all add: sorted_wrt_map id_orders)
  have N: "read_each (\<lambda>_. decoder_u64) 0 (length nodes) (dcr [] (identity_file nodes relations))
      = Inr (?N, dcr (concat (map u64_to_le_bytes ?N)) (concat (map u64_to_le_bytes ?R)))"
    unfolding whole using u64_field.each_written [of "[]" ?N "concat (map u64_to_le_bytes ?R)" "length nodes" 0] a
    by (simp add: whole del: map_map)
  have R: "read_each (\<lambda>_. decoder_u64) 0 (length relations) (dcr (concat (map u64_to_le_bytes ?N)) (concat (map u64_to_le_bytes ?R)))
      = Inr (?R, dcr (identity_file nodes relations) [])"
    unfolding whole using u64_field.each_written [of "concat (map u64_to_le_bytes ?N)" ?R "[]" "length relations" 0] a
    by (simp add: whole del: map_map)
  have len: "unat (fd_length (describe hash (identity_file nodes relations))) = 8 * (length nodes + length relations)"
    using assms(3,4) by (subst described_length) (simp_all add: U32_MAX_def U64_MAX_def)
  have "map NodeId ?N = nodes" "map RelationId ?R = relations" by (simp_all add: comp_def)
  then show ?thesis
    using assms(3,4) sorted
    by (simp add: read_identities_def layout_manifest_def len unat_words decoder_new_dcr N R windows2_ascending
        checked_add_def checked_mul_def U32_MAX_def U64_MAX_def del: map_map)
qed

lemma directory_read:
  assumes "length nodes \<le> U32_MAX" "length (concat lay) \<le> U32_MAX"
  shows "read_directory (layout_manifest hash config nodes relations lay)
      (directory_file (offsets_upto (length nodes + 1) (concat lay)) (layout_directory lay))
    = Inr (map word_of_nat (offsets_upto (length nodes + 1) (concat lay)), layout_directory lay)"
proof -
  let ?O = "map word_of_nat (offsets_upto (length nodes + 1) (concat lay)) :: u64 list" and ?D = "layout_directory lay"
  let ?f = "directory_file (offsets_upto (length nodes + 1) (concat lay)) ?D"
  have len: "length ?f = 8 * (length nodes + 1) + 24 * length (concat lay)" by (simp add: length_directory_file)
  have whole: "?f = concat (map u64_to_le_bytes ?O) @ concat (map descriptor_bytes ?D)" by (rule directory_file_bytes)
  have a: "addressable ?f" using assms len by (simp add: addressable_def U32_MAX_def U64_MAX_def)
  have O: "read_each (\<lambda>_. decoder_u64) 0 (length nodes + 1) (dcr [] ?f)
      = Inr (?O, dcr (concat (map u64_to_le_bytes ?O)) (concat (map descriptor_bytes ?D)))"
    using u64_field.each_written [of "[]" ?O "concat (map descriptor_bytes ?D)" "length nodes + 1" 0] a
    unfolding whole by (simp del: map_map)
  have D: "read_each (\<lambda>_. read_descriptor) 0 (length (concat lay)) (dcr (concat (map u64_to_le_bytes ?O)) (concat (map descriptor_bytes ?D)))
      = Inr (?D, dcr ?f [])"
    using descriptor_field.each_written [of "concat (map u64_to_le_bytes ?O)" ?D "[]" "length (concat lay)" 0] a
    unfolding whole by (simp del: map_map)
  let ?m = "layout_manifest hash config nodes relations lay"
  have m: "unat (bm_node_count ?m) = length nodes" "unat (bm_segment_count ?m) = length (concat lay)"
    using assms by (simp_all add: layout_manifest_def unat_words U32_MAX_def U64_MAX_def)
  have "length ?f \<le> U64_MAX" using assms len by (simp add: U32_MAX_def U64_MAX_def)
  from described_length [OF this] have fl: "unat (fd_length (bm_source_directory ?m)) = 8 * (length nodes + 1) + 24 * length (concat lay)"
    unfolding len by (simp add: layout_manifest_def)
  have c: "checked_add (length nodes) 1 = Some (length nodes + 1)" "checked_mul (length nodes + 1) 8 = Some (8 * (length nodes + 1))"
    "checked_mul (length (concat lay)) 24 = Some (24 * length (concat lay))"
    "checked_add (8 * (length nodes + 1)) (24 * length (concat lay)) = Some (8 * (length nodes + 1) + 24 * length (concat lay))"
    using assms by (simp_all add: checked_add_def checked_mul_def U32_MAX_def U64_MAX_def)
  show ?thesis
    unfolding read_directory_def m fl c decoder_new_dcr ok_or_simps rbind_simps bind.bind_lunit O using D by simp
qed

section \<open>Loops over the layout\<close>

text \<open>A loop whose state after each step is known.\<close>

lemma fold_steps:
  assumes "\<And>k. k < length xs \<Longrightarrow> f (xs ! k) (s k) = Inr (s (Suc k))"
  shows "fold_result f xs (s 0) = Inr (s (length xs))"
proof -
  have "k \<le> length xs \<Longrightarrow> fold_result f (take k xs) (s 0) = Inr (s k)" for k
    by (induction k) (simp_all add: take_Suc_conv_app_nth fold_result_append assms)
  from this [of "length xs"] show ?thesis by simp
qed

lemma layout_split:
  assumes "k < length lay"
  shows "layout_topology lay = layout_topology (take k lay) @ topology_of (decoded_of (lay ! k)) @ layout_topology (drop (Suc k) lay)"
    and "layout_evidence lay = layout_evidence (take k lay) @ evidence_of (decoded_of (lay ! k)) @ layout_evidence (drop (Suc k) lay)"
    and "layout_topology (take (Suc k) lay) = layout_topology (take k lay) @ topology_of (decoded_of (lay ! k))"
    and "layout_evidence (take (Suc k) lay) = layout_evidence (take k lay) @ evidence_of (decoded_of (lay ! k))"
    and "entries_of (concat (take (Suc k) lay)) = entries_of (concat (take k lay)) @ entries_of (lay ! k)"
  using arg_cong [OF id_take_nth_drop [OF assms], of layout_topology] arg_cong [OF id_take_nth_drop [OF assms], of layout_evidence] assms
  by (simp_all add: take_Suc_conv_app_nth)

lemma read_middle:
  assumes "map_of dir name = Some (a @ b @ c)" "length (a @ b @ c) \<le> U64_MAX"
  shows "read_range no_faults dir name (word_of_nat (length a)) (word_of_nat (length b)) = Inr b"
  using assms by (simp add: read_range_def unat_words)

lemma layout_descriptors_nth [simp]:
  "k < length lay \<Longrightarrow> layout_descriptors hash lay ! k = descriptor_at hash (take k lay) (lay ! k)"
  by (simp add: layout_descriptors_def)

lemma partition_read:
  assumes "writable config nodes relations lay" "k < length lay"
  shows "read_range no_faults (layout_files hash config nodes relations lay) ''topology.bin''
      (word_of_nat (length (layout_topology (take k lay)))) (word_of_nat (partition_size (lay ! k))) = Inr (topology_of (decoded_of (lay ! k)))"
    and "read_range no_faults (layout_files hash config nodes relations lay) ''evidence.bin''
      (word_of_nat (length (layout_evidence (take k lay)))) (word_of_nat (8 * length (entries_of (lay ! k)))) = Inr (evidence_of (decoded_of (lay ! k)))"
proof -
  let ?dir = "layout_files hash config nodes relations lay"
  have T: "length (layout_topology lay) \<le> U64_MAX" and E: "length (layout_evidence lay) \<le> U64_MAX"
    using writable_sizes(3,4) [OF assms(1)] by (simp_all add: U32_MAX_def U64_MAX_def)
  show "read_range no_faults ?dir ''topology.bin''
      (word_of_nat (length (layout_topology (take k lay)))) (word_of_nat (partition_size (lay ! k))) = Inr (topology_of (decoded_of (lay ! k)))"
    using read_middle [of ?dir "''topology.bin''"] layout_files_of(2) T layout_split(1) [OF assms(2)] by (metis length_encoded(1))
  show "read_range no_faults ?dir ''evidence.bin''
      (word_of_nat (length (layout_evidence (take k lay)))) (word_of_nat (8 * length (entries_of (lay ! k)))) = Inr (evidence_of (decoded_of (lay ! k)))"
    using read_middle [of ?dir "''evidence.bin''"] layout_files_of(3) E layout_split(2) [OF assms(2)] by (metis length_encoded(2))
qed

lemma writable_partition:
  assumes "writable config nodes relations lay" "k < length lay"
  shows "lay ! k \<noteq> []" "\<forall>p \<in> set (lay ! k). piece_ok p" "entries_of (lay ! k) \<noteq> []" "length (lay ! k) \<le> U32_MAX"
    "length (entries_of (lay ! k)) \<le> U32_MAX" "partition_size (lay ! k) \<le> U32_MAX"
    "set (entries_of (lay ! k)) \<subseteq> set (entries_of (concat lay))"
proof -
  have mem: "lay ! k \<in> set lay" using assms(2) by simp
  have w: "\<forall>p \<in> set (concat lay). piece_ok p" "lay ! k \<noteq> []" "length (entries_of (concat lay)) \<le> U32_MAX"
      "partition_size (lay ! k) \<le> bc_hard_maximum_partition_topology_bytes config" "config_ok config"
    using assms(1) conjunct1 [OF pieces_okD, of "concat lay"] mem by (simp_all add: writable_def layout_ok_def del: set_concat)
  show "lay ! k \<noteq> []" by fact
  show ok: "\<forall>p \<in> set (lay ! k). piece_ok p" using w(1) mem by auto
  then show "entries_of (lay ! k) \<noteq> []" using w(2) by (cases "lay ! k") (auto simp: piece_ok_def)
  have e: "concat lay = concat (take k lay) @ lay ! k @ concat (drop (Suc k) lay)"
    by (subst id_take_nth_drop [OF assms(2)]) simp
  show n: "length (entries_of (lay ! k)) \<le> U32_MAX" using w(3) unfolding e by simp
  show "length (lay ! k) \<le> U32_MAX" using n pieces_le_entries [OF ok] by simp
  show "partition_size (lay ! k) \<le> U32_MAX" using w(4) config_okD(2) [OF w(5)] by simp
  show "set (entries_of (lay ! k)) \<subseteq> set (entries_of (concat lay))" unfolding e by auto
qed

lemma ranges_valid:
  assumes "writable config nodes relations lay"
  shows "validate_ranges hash no_faults (layout_files hash config nodes relations lay) (layout_manifest hash config nodes relations lay) = Inr ()"
proof -
  let ?dir = "layout_files hash config nodes relations lay" and ?m = "layout_manifest hash config nodes relations lay"
  let ?s = "\<lambda>k. (length (layout_topology (take k lay)), length (layout_evidence (take k lay)))"
  note S = writable_sizes [OF assms]
  have f: "unat (fd_length (bm_topology ?m)) = length (layout_topology lay)" "unat (fd_length (bm_evidence ?m)) = length (layout_evidence lay)"
    using S(3,4) described_length by (simp_all add: layout_manifest_def U32_MAX_def U64_MAX_def)
  have "validate_range hash no_faults ?dir ?m (layout_descriptors hash lay ! k) (?s k) = Inr (?s (Suc k))" if k: "k < length lay" for k
  proof -
    note P = writable_partition [OF assms k]
    have b: "length (layout_topology (take k lay)) + partition_size (lay ! k) \<le> length (layout_topology lay)"
      "length (layout_evidence (take k lay)) + 8 * length (entries_of (lay ! k)) \<le> length (layout_evidence lay)"
      unfolding layout_split(1,2) [OF k] by simp_all
    have u: "unat (word_of_nat (partition_size (lay ! k)) :: u64) = partition_size (lay ! k)"
      "unat (word_of_nat (8 * length (entries_of (lay ! k))) :: u64) = 8 * length (entries_of (lay ! k))"
      "unat (word_of_nat (length (layout_topology (take k lay))) :: u64) = length (layout_topology (take k lay))"
      "unat (word_of_nat (length (layout_evidence (take k lay))) :: u64) = length (layout_evidence (take k lay))"
      using b S(3,4) by (intro unat_words(2); simp add: U32_MAX_def U64_MAX_def)+
    have z: "word_of_nat (partition_size (lay ! k)) \<noteq> (0 :: u64)" "word_of_nat (8 * length (entries_of (lay ! k))) \<noteq> (0 :: u64)"
      using u(1,2) P(3) by (auto simp: partition_size_def dest: arg_cong [where f = unat])
    have c: "checked_add (length (layout_topology (take k lay))) (partition_size (lay ! k)) = Some (length (layout_topology (take (Suc k) lay)))"
      "checked_add (length (layout_evidence (take k lay))) (8 * length (entries_of (lay ! k))) = Some (length (layout_evidence (take (Suc k) lay)))"
      using b S(3,4) by (auto simp: checked_add_def layout_split(3,4) [OF k] U32_MAX_def U64_MAX_def)
    have l: "length (layout_topology (take (Suc k) lay)) \<le> length (layout_topology lay)" "length (layout_evidence (take (Suc k) lay)) \<le> length (layout_evidence lay)"
      using b by (simp_all add: layout_split(3,4) [OF k])
    show ?thesis
      unfolding layout_descriptors_nth [OF k] validate_range_def descriptor_at_def partition_descriptor.simps prod.case u f c ok_or_simps
        rbind_simps partition_read [OF assms k] using z l by simp
  qed
  from fold_steps [of "layout_descriptors hash lay" _ ?s, OF this]
  have "fold_result (validate_range hash no_faults ?dir ?m) (bm_partitions ?m) (0, 0) = Inr (length (layout_topology lay), length (layout_evidence lay))"
    by (simp add: layout_manifest_def)
  moreover have "lay = []" if "bm_adjacency_count ?m = 0"
  proof -
    have "length (entries_of (concat lay)) \<le> U64_MAX" using assms by (simp add: writable_def U32_MAX_def U64_MAX_def)
    from unat_words(2) [OF this] that have "entries_of (concat lay) = []" by (simp add: layout_manifest_def)
    with writable_partition(3,7) [OF assms, of 0] show ?thesis by (cases lay) auto
  qed
  ultimately show ?thesis using f by (auto simp: validate_ranges_def layout_manifest_def layout_descriptors_def describe_def)
qed

section \<open>The source directory\<close>

lemma sorted_split:
  fixes f :: "'a \<Rightarrow> nat"
  assumes "sorted (map f xs)"
  shows "xs = filter (\<lambda>x. f x < i) xs @ filter (\<lambda>x. f x = i) xs @ filter (\<lambda>x. i < f x) xs"
  using assms
proof (induction xs)
  case (Cons x xs)
  have e: "filter (\<lambda>y. f y < i) xs = []" if "i \<le> f x" using Cons.prems that by (fastforce simp: filter_empty_conv)
  have e': "filter (\<lambda>y. f y = i) xs = []" if "i < f x" using Cons.prems that by (fastforce simp: filter_empty_conv)
  from Cons show ?case by (cases "f x" i rule: linorder_cases) (auto simp: e e')
qed simp

lemma length_filter_Suc:
  "length (filter (\<lambda>x. f x < Suc i) xs) = length (filter (\<lambda>x. f x < i) xs) + length (filter (\<lambda>x. f x = i) xs)"
  for f :: "'a \<Rightarrow> nat"
  by (induction xs) (auto simp: less_Suc_eq)

definition records_piece :: "segment_descriptor \<Rightarrow> piece \<Rightarrow> bool" where
  "records_piece d p \<longleftrightarrow> sd_source d = word_of_nat (pc_source p) \<and> sd_first_edge_ordinal d = word_of_nat (pc_first p)
     \<and> sd_edge_count d = word_of_nat (length (pc_entries p))"

lemma directory_records: "list_all2 records_piece (layout_directory lay) (concat lay)"
proof (induction lay rule: rev_induct)
  case (snoc ps lay)
  have "list_all2 records_piece (partition_directory k ps) ps" for k
    by (auto simp: list_all2_conv_all_nth partition_directory_def directory_at_def records_piece_def)
  then show ?case using snoc by (simp add: layout_directory_snoc list_all2_appendI)
qed simp

lemma source_segments_counted:
  assumes "pieces_ok ps" "length (entries_of ps) \<le> U32_MAX" "i \<le> U32_MAX"
    and "list_all2 records_piece ds (filter (\<lambda>p. pc_source p = i) ps)"
  shows "fold_result (check_source_segment i) ds 0 = Inr (count_source (entries_of ps) i)"
  using assms
proof (induction arbitrary: ds rule: pieces_ok.induct)
  case (pieces_snoc ps p)
  have p: "piece_ok p" by fact
  show ?case
  proof (cases "pc_source p = i")
    case True
    then have c: "count_source (pc_entries p) i = length (pc_entries p)"
      using p by (auto simp: count_source_def piece_ok_def filter_id_conv intro!: arg_cong [where f = length])
    from pieces_snoc.prems(3) True obtain ds' d where ds: "ds = ds' @ [d]" "list_all2 records_piece ds' (filter (\<lambda>p. pc_source p = i) ps)"
        "records_piece d p"
      by (auto simp: list_all2_append2 list_all2_Cons2)
    have IH: "fold_result (check_source_segment i) ds' 0 = Inr (count_source (entries_of ps) i)"
      using pieces_snoc.IH [OF _ _ ds(2)] pieces_snoc.prems by simp
    have le: "count_source (entries_of ps) i + length (pc_entries p) \<le> U32_MAX"
      using pieces_snoc.prems(1) length_filter_le [of "\<lambda>e. en_source e = i" "entries_of ps"] unfolding count_source_def entries_of_simps length_append by linarith
    have u: "unat (word_of_nat i :: u32) = i" "unat (word_of_nat (length (pc_entries p)) :: u32) = length (pc_entries p)"
      "unat (word_of_nat (count_source (entries_of ps) i) :: u64) = count_source (entries_of ps) i"
      using le pieces_snoc.prems(2) by (intro unat_words; simp add: U32_MAX_def U64_MAX_def)+
    have "check_source_segment i d (count_source (entries_of ps) i) = Inr (count_source (entries_of ps) i + length (pc_entries p))"
      using ds(3) True pieces_snoc.hyps le u by (simp add: check_source_segment_def records_piece_def checked_add_def U32_MAX_def U64_MAX_def)
    then show ?thesis using ds(1) IH c by (simp add: fold_result_append count_source_def)
  next
    case False
    then have "count_source (pc_entries p) i = 0" using p by (auto simp: count_source_def piece_ok_def filter_empty_conv)
    then show ?thesis using pieces_snoc False by (simp add: count_source_def)
  qed
qed (simp add: count_source_def)

lemma offsets_nth [simp]: "i < n \<Longrightarrow> offsets_upto n ps ! i = length (filter (\<lambda>p. pc_source p < i) ps)"
  by (simp add: offsets_upto_def)

lemma source_edge_offsets_Suc:
  "0 < n \<Longrightarrow> source_edge_offsets (Suc n) es = source_edge_offsets n es @ [last (source_edge_offsets n es) + count_source es (n - 1)]"
proof -
  assume "0 < n"
  then obtain i where n: "n = Suc i" by (cases n) auto
  have "last (source_edge_offsets (Suc i) es) = length (filter (\<lambda>e. en_source e < i) es)" by (simp add: source_edge_offsets_def)
  then show ?thesis by (simp add: n source_edge_offsets_def count_source_def length_filter_Suc)
qed

lemma source_offset_pushed:
  assumes "pieces_ok (concat lay)" "length (entries_of (concat lay)) \<le> U32_MAX" "n \<le> U32_MAX" "i < n"
  shows "push_source_offset (map word_of_nat (offsets_upto (n + 1) (concat lay))) (layout_directory lay) i (source_edge_offsets (Suc i) (entries_of (concat lay)))
    = Inr (source_edge_offsets (Suc (Suc i)) (entries_of (concat lay)))"
proof -
  let ?ps = "concat lay" and ?es = "entries_of (concat lay)" and ?a = "length (filter (\<lambda>p. pc_source p < i) (concat lay))"
  let ?mid = "filter (\<lambda>p. pc_source p = i) ?ps" and ?ds = "take (length (filter (\<lambda>p. pc_source p = i) (concat lay))) (drop (length (filter (\<lambda>p. pc_source p < i) (concat lay))) (layout_directory lay))"
  have split: "?ps = filter (\<lambda>p. pc_source p < i) ?ps @ ?mid @ filter (\<lambda>p. i < pc_source p) ?ps"
    using pieces_okD [OF assms(1)] by (intro sorted_split) simp
  have bound: "length ?ps \<le> U32_MAX"
    using pieces_okD [OF assms(1)] pieces_le_entries [of ?ps] assms(2) by auto
  have fit: "?a + length ?mid \<le> length ?ps" using arg_cong [OF split, of length] by simp
  have mid: "take (length ?mid) (drop ?a ?ps) = ?mid" by (subst split) simp
  have "list_all2 records_piece ?ds ?mid"
    using list_all2_takeI [OF list_all2_dropI [OF directory_records]] mid by metis
  note counted = source_segments_counted [OF assms(1,2) _ this]
  have u: "unat (word_of_nat ?a :: u64) = ?a" "unat (word_of_nat (?a + length ?mid) :: u64) = ?a + length ?mid"
    using fit bound by (intro unat_words; simp add: U32_MAX_def U64_MAX_def)+
  have ix: "index (map word_of_nat (offsets_upto (n + 1) ?ps) :: u64 list) i = Inr (word_of_nat ?a)"
    "index (map word_of_nat (offsets_upto (n + 1) ?ps) :: u64 list) (i + 1) = Inr (word_of_nat (?a + length ?mid))"
    using assms(4) by (simp_all add: index_def length_filter_Suc del: of_nat_add)
  have sl: "slice_range (layout_directory lay) ?a (?a + length ?mid) = Inr ?ds"
    using fit by (simp add: slice_range_def)
  have "last (source_edge_offsets (Suc i) ?es) + count_source ?es i \<le> U32_MAX"
    using length_filter_le [of "\<lambda>e. en_source e < Suc i" ?es] assms(2)
    by (simp add: source_edge_offsets_def count_source_def length_filter_Suc)
  then have c: "checked_add (last (source_edge_offsets (Suc i) ?es)) (count_source ?es i) = Some (last (source_edge_offsets (Suc i) ?es) + count_source ?es i)"
    by (simp add: checked_add_def U32_MAX_def U64_MAX_def)
  have ne: "source_edge_offsets (Suc i) ?es \<noteq> []" by (simp add: source_edge_offsets_def)
  have "i \<le> U32_MAX" using assms(3,4) by simp
  from counted [OF this] show ?thesis
    unfolding push_source_offset_def ix rbind_simps u sl using ne c by (simp add: source_edge_offsets_Suc [of "Suc i"])
qed

lemma offsets_bounded:
  assumes "length ps \<le> U32_MAX" "\<forall>p \<in> set ps. pc_source p < n"
  defines "offs \<equiv> map word_of_nat (offsets_upto (n + 1) ps) :: u64 list"
  shows "get offs 0 = Some 0" "offs \<noteq> []" "last offs = word_of_nat (length ps)" "\<not> list_ex (\<lambda>(a, b). a > b) (windows2 offs)"
proof -
  show "get offs 0 = Some 0" by (simp add: offs_def get_def del: upt_Suc)
  show "offs \<noteq> []" by (simp add: offs_def offsets_upto_def)
  have "filter (\<lambda>p. pc_source p < n) ps = ps" using assms(2) by (simp add: filter_id_conv)
  then show "last offs = word_of_nat (length ps)" by (simp add: offs_def offsets_upto_def)
  have le: "length (filter (\<lambda>p. pc_source p < i) ps) \<le> length (filter (\<lambda>p. pc_source p < j) ps)" if "i \<le> j" for i j
    using that by (induction j) (auto simp: le_Suc_eq length_filter_Suc)
  have small: "length (filter P ps) \<le> U64_MAX" for P
    using order_trans [OF length_filter_le assms(1)] by (rule order_trans) (simp add: U32_MAX_def U64_MAX_def)
  have "sorted offs"
    using le by (auto simp: offs_def sorted_iff_nth_mono word_le_nat_alt unat_words(2) [OF small])
  then show "\<not> list_ex (\<lambda>(a, b). a > b) (windows2 offs)"
    unfolding sorted_windows2 [symmetric] list_ex_iff by (auto simp: not_less)
qed

section \<open>The partitions against the directory\<close>

lemma segments_at_nth:
  "l < length ps \<Longrightarrow> ds_source (segments_at k ps ! l) = word_of_nat (pc_source (ps ! l))
     \<and> ds_first_ordinal (segments_at k ps ! l) = word_of_nat (pc_first (ps ! l))
     \<and> ds_count (segments_at k ps ! l) = word_of_nat (length (pc_entries (ps ! l)))"
  by (induction k ps arbitrary: l rule: segments_at.induct) (auto simp: nth_Cons split: nat.split)

lemma directory_member:
  "d \<in> set (layout_directory lay) \<longleftrightarrow> (\<exists>k < length lay. \<exists>l < length (lay ! k). d = directory_at k l (lay ! k ! l))"
proof -
  have "set (partition_directory k ps) = {directory_at k l (ps ! l) |l. l < length ps}" for k ps
    by (auto simp: partition_directory_def)
  then have "set (layout_directory lay) = (\<Union>k \<in> {0..<length lay}. {directory_at k l (lay ! k ! l) |l. l < length (lay ! k)})"
    by (simp add: layout_directory_def)
  then show ?thesis by fastforce
qed

lemma directory_find:
  assumes "k < length lay" "l < length (lay ! k)" "length lay \<le> U32_MAX" "\<forall>ps \<in> set lay. length ps \<le> U32_MAX"
  shows "List.find (\<lambda>v. sd_partition v = word_of_nat k \<and> sd_local_segment v = word_of_nat l) (layout_directory lay)
    = Some (directory_at k l (lay ! k ! l))" (is "?f = _")
proof (cases ?f)
  case None
  have "directory_at k l (lay ! k ! l) \<in> set (layout_directory lay)" using assms(1,2) directory_member by blast
  moreover have "sd_partition (directory_at k l (lay ! k ! l)) = word_of_nat k" "sd_local_segment (directory_at k l (lay ! k ! l)) = word_of_nat l"
    by (simp_all add: directory_at_def)
  ultimately show ?thesis using None unfolding find_None_iff by blast
next
  case (Some d)
  then have d: "sd_partition d = word_of_nat k" "sd_local_segment d = word_of_nat l" "d \<in> set (layout_directory lay)"
    by (auto simp: find_Some_iff)
  then obtain k' l' where d': "k' < length lay" "l' < length (lay ! k')" "d = directory_at k' l' (lay ! k' ! l')"
    using directory_member by blast
  have "length (lay ! k) \<le> U32_MAX" "length (lay ! k') \<le> U32_MAX" using assms(1,4) d'(1) by auto
  then have b: "k \<le> U32_MAX" "k' \<le> U32_MAX" "l \<le> U32_MAX" "l' \<le> U32_MAX" using assms(1-3) d'(1,2) by auto
  have "k' = k" "l' = l"
    using d(1,2) d'(3) word_of_nat_u32_eq [OF b(2,1)] word_of_nat_u32_eq [OF b(4,3)] by (simp_all add: directory_at_def)
  with Some d'(3) show ?thesis by simp
qed

lemma partition_decoded:
  fixes hash :: "bytes \<Rightarrow> bytes"
  assumes "writable config nodes relations lay" "k < length lay"
  defines "m \<equiv> layout_manifest hash config nodes relations lay"
  shows "decode_partition (topology_of (decoded_of (lay ! k))) (evidence_of (decoded_of (lay ! k)))
      (descriptor_at hash (take k lay) (lay ! k)) (bm_node_count m) (bm_relation_kind_count m) = Inr (decoded_of (lay ! k))"
proof -
  let ?ps = "lay ! k" and ?p = "descriptor_at hash (take k lay) (lay ! k)"
  note P = writable_partition [OF assms(1,2)]
  have m: "unat (bm_node_count m) = length nodes" "unat (bm_relation_kind_count m) = length relations"
    using assms(1) by (simp_all add: m_def layout_manifest_def writable_def unat_words U32_MAX_def U64_MAX_def)
  have ok: "partition_ok (bm_node_count m) (bm_relation_kind_count m) (decoded_of ?ps)"
    using P(1,2,5,7) assms(1) by (intro partition_ok_decoded) (auto simp: m writable_def)
  have u: "unat (word_of_nat (length (entries_of ?ps)) :: u64) = length (entries_of ?ps)" "unat (word_of_nat (length ?ps) :: u32) = length ?ps"
    using P(4,5) by (intro unat_words; simp add: U32_MAX_def U64_MAX_def)+
  have "describes ?p (decoded_of ?ps)" by (simp add: describes_def descriptor_at_def decoded_of_def u)
  moreover have "addressable (topology_of (decoded_of ?ps))" "addressable (evidence_of (decoded_of ?ps))"
    using P(5,6) by (simp_all add: addressable_def U32_MAX_def U64_MAX_def)
  ultimately show ?thesis using ok decode_partition_exact by simp
qed

lemma partition_checked:
  assumes "writable config nodes relations lay" "k < length lay"
  defines "s \<equiv> \<lambda>k. map (\<lambda>j. length (entries_of (concat (take j lay)))) [0..<k + 1]"
  shows "check_partition no_faults (layout_files hash config nodes relations lay) (layout_manifest hash config nodes relations lay)
      (layout_directory lay) (layout_descriptors hash lay ! k) (s k) = Inr (s (Suc k))"
proof -
  let ?ps = "lay ! k" and ?m = "layout_manifest hash config nodes relations lay"
  note P = writable_partition [OF assms(1,2)]
  note S = writable_sizes [OF assms(1)]
  let ?p = "descriptor_at hash (take k lay) ?ps"
  have u: "unat (word_of_nat (length (entries_of ?ps)) :: u64) = length (entries_of ?ps)"
    using P(5) by (intro unat_words) (simp add: U32_MAX_def U64_MAX_def)
  have small: "\<forall>ps \<in> set lay. length ps \<le> U32_MAX"
    using writable_partition(4) [OF assms(1)] by (metis in_set_conv_nth)
  have "check_partition_segment (layout_directory lay) ?p (enumerate 0 (segments_at 0 ?ps) ! l) () = Inr ()" if l: "l < length ?ps" for l
    using directory_find [OF assms(2) l S(1) small] segments_at_nth [OF l, of 0] assms(2) l
    by (simp add: check_partition_segment_def nth_enumerate_eq descriptor_at_def directory_at_def)
  then have segs: "fold_result (check_partition_segment (layout_directory lay) ?p) (enumerate 0 (dp_segments (decoded_of ?ps))) () = Inr ()"
    using fold_steps [of "enumerate 0 (segments_at 0 ?ps)" "check_partition_segment (layout_directory lay) ?p" "\<lambda>_. ()"]
    by (simp add: decoded_of_def)
  have s: "s k \<noteq> []" "last (s k) = length (entries_of (concat (take k lay)))" "s (Suc k) = s k @ [last (s k) + length (entries_of ?ps)]"
    using layout_split(5) [OF assms(2)] by (simp_all add: s_def)
  have "last (s k) + length (entries_of ?ps) \<le> length (entries_of (concat lay))"
    using arg_cong [OF id_take_nth_drop [OF assms(2)], of "\<lambda>l. length (entries_of (concat l))"] by (simp add: s(2))
  then have c: "checked_add (last (s k)) (length (entries_of ?ps)) = Some (last (s k) + length (entries_of ?ps))"
    using assms(1) by (simp add: checked_add_def writable_def U32_MAX_def U64_MAX_def)
  have r: "read_range no_faults (layout_files hash config nodes relations lay) ''topology.bin'' (pt_topology_offset ?p) (pt_topology_length ?p)
        = Inr (topology_of (decoded_of ?ps))"
    "read_range no_faults (layout_files hash config nodes relations lay) ''evidence.bin'' (pt_evidence_offset ?p) (pt_evidence_length ?p)
        = Inr (evidence_of (decoded_of ?ps))"
    using partition_read [OF assms(1,2)] by (simp_all add: descriptor_at_def)
  have "unat (pt_edge_count ?p) = length (entries_of ?ps)" by (simp add: descriptor_at_def u)
  then show ?thesis
    unfolding layout_descriptors_nth [OF assms(2)] check_partition_def r rbind_simps partition_decoded [OF assms(1,2)] segs using s(1,3) c by simp
qed

section \<open>Opening\<close>

lemma writable_sources:
  assumes "writable config nodes relations lay"
  shows "\<forall>p \<in> set (concat lay). pc_source p < length nodes"
proof
  fix p assume "p \<in> set (concat lay)"
  with entry_piece [OF writable_sizes(5) [OF assms]] obtain x where "x \<in> set (entries_of (concat lay))" "en_source x = pc_source p" by blast
  with assms show "pc_source p < length nodes" by (auto simp: writable_def)
qed

lemma layout_opens:
  assumes "\<And>bs. length (hash bs) = 32" "writable config nodes relations lay" "reserve ''partitions'' (length lay)"
  shows "open_routing_bundle hash reserve no_faults (layout_files hash config nodes relations lay) = Inr (layout_bundle hash config nodes relations lay)"
proof -
  let ?dir = "layout_files hash config nodes relations lay" and ?m = "layout_manifest hash config nodes relations lay"
  let ?es = "entries_of (concat lay)" and ?n = "length nodes" and ?offs = "map word_of_nat (offsets_upto (length nodes + 1) (concat lay)) :: u64 list"
  note S = writable_sizes [OF assms(2)]
  have w: "length ?es \<le> U32_MAX" "sorted_wrt (<) nodes" "sorted_wrt (<) relations" "?n \<le> U32_MAX" "length relations \<le> U32_MAX"
    "\<forall>e \<in> set ?es. en_source e < ?n"
    using assms(2) by (auto simp: writable_def)
  have m: "unat (bm_node_count ?m) = ?n" "bm_segment_count ?m = word_of_nat (length (concat lay))" "unat (bm_adjacency_count ?m) = length ?es"
    "bm_partitions ?m = layout_descriptors hash lay" "bm_identities ?m = describe hash (identity_file nodes relations)"
    "bm_source_directory ?m = describe hash (directory_file (offsets_upto (?n + 1) (concat lay)) (layout_directory lay))"
    "bm_topology ?m = describe hash (layout_topology lay)" "bm_evidence ?m = describe hash (layout_evidence lay)"
    using w(1,4) by (simp_all add: layout_manifest_def unat_words U32_MAX_def U64_MAX_def)
  have files: "fs_read no_faults ?dir ''manifest.bin'' = Inr (manifest_layout ?m)"
    "validated_file hash no_faults ?dir ''identities.bin'' (bm_identities ?m) = Inr (identity_file nodes relations)"
    "validated_file hash no_faults ?dir ''source-directory.bin'' (bm_source_directory ?m)
       = Inr (directory_file (offsets_upto (?n + 1) (concat lay)) (layout_directory lay))"
    "validate_large_file hash no_faults ?dir ''topology.bin'' (bm_topology ?m) = Inr ()"
    "validate_large_file hash no_faults ?dir ''evidence.bin'' (bm_evidence ?m) = Inr ()"
    unfolding m using S(2-4) w(4,5)
    by (simp add: fs_read_def, (intro described_file layout_files_of; simp add: length_directory_file U32_MAX_def U64_MAX_def)+)
  have "fold_result (push_source_offset ?offs (layout_directory lay)) [0..<?n] (source_edge_offsets (Suc 0) ?es)
      = Inr (source_edge_offsets (Suc (length [0..<?n])) ?es)"
    using source_offset_pushed [OF S(5) w(1,4)] by (intro fold_steps) simp
  moreover have s0: "source_edge_offsets (Suc 0) ?es = [0]" "source_edge_offsets (Suc ?n) ?es \<noteq> []"
    "last (source_edge_offsets (Suc ?n) ?es) = length ?es"
    using w(6) by (simp_all add: source_edge_offsets_def filter_id_conv)
  ultimately have src: "fold_result (push_source_offset ?offs (layout_directory lay)) [0..<?n] [0] = Inr (source_edge_offsets (Suc ?n) ?es)" by simp
  have "fold_result (check_partition no_faults ?dir ?m (layout_directory lay)) (layout_descriptors hash lay)
      (map (\<lambda>j. length (entries_of (concat (take j lay)))) [0..<0 + 1]) = Inr (map (\<lambda>j. length (entries_of (concat (take j lay)))) [0..<length (layout_descriptors hash lay) + 1])"
    using partition_checked [OF assms(2)] by (intro fold_steps) simp
  then have parts: "fold_result (check_partition no_faults ?dir ?m (layout_directory lay)) (layout_descriptors hash lay) [0] = Inr (partition_edge_offsets lay)"
    by (simp add: partition_edge_offsets_def)
  have p0: "partition_edge_offsets lay \<noteq> []" "last (partition_edge_offsets lay) = length ?es" by (simp_all add: partition_edge_offsets_def)
  note ob = offsets_bounded [OF S(2) writable_sources [OF assms(2)]]
  note I = identities_read [OF w(2-5), of hash config lay] and D = directory_read [OF w(4) S(2), of hash config relations]
  have mr: "manifest_decode reserve (manifest_layout ?m) = Inr ?m" using assms by (rule layout_manifest_read)
  show ?thesis
    unfolding open_routing_bundle_def io_perform_no_faults rbind_simps layout_file_names files mr I D ranges_valid [OF assms(2)] prod.case m(1-4) src parts
    using ob s0 p0 by (simp add: layout_bundle_def)
qed

end
