(* ===== verification/Bundle_Resident.thy ===== *)
theory Bundle_Resident
  imports Bundle_Opening Catalog_Properties
begin

text \<open>
  From the catalog to the bundle and back: compiling the bundle of a well-formed catalog writes
  the files of a layout of its edges, and the image that the bundle yields when it is loaded into
  memory is the one that the resident compiler builds from the same records.
\<close>

section \<open>Loading a layout\<close>

definition arrays_of :: "relation_id list \<Rightarrow> entry list \<Rightarrow> compiled_arrays" where
  "arrays_of relations es =
     \<lparr>ca_destinations = map en_destination es, ca_relations = map (\<lambda>e. relations ! unat (en_relation e)) es,
      ca_relation_indexes = map en_relation es, ca_base_weight_bits = map en_weight es,
      ca_edge_ids = map (\<lambda>e. EdgeId (en_edge e)) es\<rparr>"

definition resident_of :: "node_id list \<Rightarrow> relation_id list \<Rightarrow> entry list \<Rightarrow> routing_image" where
  "resident_of nodes relations es =
     \<lparr>im_external_to_dense = dense_mapping nodes, im_dense_to_external = nodes,
      im_offsets = source_edge_offsets (length nodes + 1) es, im_destinations = map en_destination es,
      im_relation_ids = map (\<lambda>e. relations ! unat (en_relation e)) es, im_relation_indexes = map en_relation es,
      im_base_weight_bits = map en_weight es, im_edge_ids = map (\<lambda>e. EdgeId (en_edge e)) es,
      im_confirmed_relation_ids = relations, im_manifest = manifest_of (length nodes) (length relations) (length es)\<rparr>"

lemma partition_loaded:
  assumes "writable config nodes relations lay" "k < length lay"
  shows "load_partition hash no_faults (layout_files hash config nodes relations lay) fault_default (layout_bundle hash config nodes relations lay)
    (layout_descriptors hash lay ! k) = Inr (decoded_of (lay ! k))"
proof -
  let ?p = "descriptor_at hash (take k lay) (lay ! k)"
  have "k < U32_MAX" using assms(2) writable_sizes(1) [OF assms(1)] by simp
  then have "unat (word_of_nat k :: u32) < unat fault_NONE"
    using unat_words(1) [of k] by (simp add: fault_NONE_def U32_MAX_def unsigned_minus_1_eq_mask mask_eq_exp_minus_1)
  then have "fault_NONE \<noteq> pt_id ?p" using assms(2) by (auto simp: descriptor_at_def)
  moreover have "decode_partition (topology_of (decoded_of (lay ! k))) (evidence_of (decoded_of (lay ! k))) ?p
      (bm_node_count (layout_manifest hash config nodes relations lay)) (bm_relation_kind_count (layout_manifest hash config nodes relations lay))
    = Inr (decoded_of (lay ! k))"
    by (rule partition_decoded [OF assms])
  ultimately show ?thesis
    using partition_read [OF assms, of hash] unfolding layout_descriptors_nth [OF assms(2)] load_partition_def
    by (simp add: fault_default_def layout_bundle_def descriptor_at_def)
qed

lemma partition_pushed:
  assumes "\<forall>e \<in> set es. unat (en_relation e) < length relations"
    and d: "dp_destinations d = map en_destination es" "dp_relations d = map en_relation es" "dp_weights d = map en_weight es"
      "dp_edges d = map en_edge es"
  shows "fold_result (push_resident_edge relations d) [0..<length (dp_edges d)] (arrays_of relations es0) = Inr (arrays_of relations (es0 @ es))"
proof -
  have "push_resident_edge relations d ([0..<length es] ! i) (arrays_of relations (es0 @ take i es)) = Inr (arrays_of relations (es0 @ take (Suc i) es))"
    if i: "i < length es" for i
    using assms(1) i by (simp add: push_resident_edge_def d index_def get_def arrays_of_def take_Suc_conv_app_nth)
  from fold_steps [of "[0..<length es]" "push_resident_edge relations d" "\<lambda>i. arrays_of relations (es0 @ take i es)"] this
  show ?thesis by (simp add: d)
qed

lemma layout_resident:
  assumes "writable config nodes relations lay"
  shows "to_resident_image hash no_faults (layout_files hash config nodes relations lay) fault_default (layout_bundle hash config nodes relations lay)
    = Inr (resident_of nodes relations (entries_of (concat lay)))"
proof -
  let ?dir = "layout_files hash config nodes relations lay" and ?b = "layout_bundle hash config nodes relations lay"
  let ?es = "entries_of (concat lay)"
  have bun: "rb_relations ?b = relations" "rb_nodes ?b = nodes" "rb_source_edge_offsets ?b = source_edge_offsets (length nodes + 1) ?es"
    "bm_partitions (rb_manifest ?b) = layout_descriptors hash lay"
    by (simp_all add: layout_bundle_def layout_manifest_def)
  have "push_resident_partition hash no_faults ?dir fault_default ?b (layout_descriptors hash lay ! k) (arrays_of relations (entries_of (concat (take k lay))))
      = Inr (arrays_of relations (entries_of (concat (take (Suc k) lay))))" if k: "k < length lay" for k
  proof -
    have "\<forall>e \<in> set (entries_of (lay ! k)). unat (en_relation e) < length relations"
      using writable_partition(7) [OF assms k] assms by (auto simp: writable_def)
    from partition_pushed [OF this, of "decoded_of (lay ! k)"]
    have "fold_result (push_resident_edge relations (decoded_of (lay ! k))) [0..<length (dp_edges (decoded_of (lay ! k)))] (arrays_of relations es)
        = Inr (arrays_of relations (es @ entries_of (lay ! k)))" for es
      by (simp add: decoded_of_def)
    then show ?thesis
      unfolding push_resident_partition_def partition_loaded [OF assms k] rbind_simps layout_split(5) [OF k] bun by simp
  qed
  from fold_steps [of "layout_descriptors hash lay" _ "\<lambda>k. arrays_of relations (entries_of (concat (take k lay)))", OF this]
  have arrays: "fold_result (push_resident_partition hash no_faults ?dir fault_default ?b) (bm_partitions (rb_manifest ?b)) (arrays_of relations [])
      = Inr (arrays_of relations ?es)"
    unfolding bun by simp
  have "image_bytes (length nodes) (length relations) (length ?es) \<le> U64_MAX"
    using assms by (simp add: writable_def image_bytes_def U32_MAX_def U64_MAX_def)
  then have "manifest (length nodes) (length relations) (length ?es) = Inr (manifest_of (length nodes) (length relations) (length ?es))"
    using manifest_total_iff by blast
  moreover have "map (\<lambda>(dense, i). (i, DenseNodeId (word_of_nat dense))) (enumerate 0 nodes) = dense_mapping nodes"
    by (rule nth_equalityI) (simp_all add: dense_mapping_def nth_enumerate_eq)
  ultimately show ?thesis
    using arrays unfolding to_resident_image_def bun by (simp add: arrays_of_def resident_of_def)
qed

section \<open>The records of a catalog\<close>

text \<open>What the confirmed records of a catalog satisfy, whichever way they are read: sorted by
  identifier, with every reference present; \<open>edges\<close> lists the edges in scan order.\<close>

definition confirmed_lists :: "confirmed_graph_records \<Rightarrow> edge_record list \<Rightarrow> bool" where
  "confirmed_lists records edges \<longleftrightarrow>
     sorted_wrt (<) (map nr_id (cg_nodes records)) \<and> sorted_wrt (<) (map rr_id (cg_relation_kinds records))
     \<and> sorted_wrt (<) (map er_id (cg_edges records)) \<and> sorted_wrt edge_before edges \<and> set edges = set (cg_edges records)
     \<and> (\<forall>e \<in> set edges. er_source e \<in> nr_id ` set (cg_nodes records) \<and> er_destination e \<in> nr_id ` set (cg_nodes records)
          \<and> er_relation_kind e \<in> rr_id ` set (cg_relation_kinds records) \<and> base_weight_ok (er_base_weight e))"

lemma sorted_wrt_unique:
  assumes "\<And>x. \<not> P x x" "\<And>x y z. P x y \<Longrightarrow> P y z \<Longrightarrow> P x z" "sorted_wrt P xs" "sorted_wrt P ys" "set xs = set ys"
  shows "xs = ys"
  using assms(3-)
proof (induction xs arbitrary: ys)
  case (Cons x xs)
  then obtain y ys' where ys: "ys = y # ys'" by (cases ys) auto
  have eq: "x = y"
  proof (rule ccontr)
    assume "x \<noteq> y"
    then have "y \<in> set xs" "x \<in> set ys'" using Cons.prems(3) ys by auto
    then have "P x y" "P y x" using Cons.prems(1,2) ys by auto
    then show False using assms(1) [of x] assms(2) [of x y x] by blast
  qed
  have "x \<notin> set xs" "y \<notin> set ys'" using Cons.prems(1,2) assms(1) ys by auto
  with eq have "set xs = set ys'" using Cons.prems(3) ys by auto
  with Cons.IH [of ys'] Cons.prems(1,2) ys eq show ?case by simp
qed simp

lemma edge_before_order: "\<not> edge_before e e" "edge_before a b \<Longrightarrow> edge_before b c \<Longrightarrow> edge_before a c"
  by (auto simp: edge_before_def)

lemma confirmed_ids:
  assumes "confirmed_lists records edges"
  shows "node_ids_of records = map nr_id (cg_nodes records)" "relation_ids_of records = map rr_id (cg_relation_kinds records)"
  using assms by (simp_all add: confirmed_lists_def node_ids_of_def relation_ids_of_def sorted_sort_id strict_sorted_imp_sorted)

lemma sources_blocks_sorted:
  assumes "sorted_wrt (<) nodes" "\<And>n. sorted_wrt (<) (map er_id (f n))" "\<And>n e. e \<in> set (f n) \<Longrightarrow> er_source e = n"
  shows "sorted_wrt edge_before (concat (map f nodes))"
  using assms(1)
proof (induction nodes)
  case (Cons n nodes)
  have "sorted_wrt edge_before (f n)"
    using assms(2) [of n] assms(3) sorted_wrt_mono_rel [of "f n" "\<lambda>a b. er_id a < er_id b" edge_before]
    by (simp add: sorted_wrt_map edge_before_def)
  moreover have "edge_before a b" if "a \<in> set (f n)" "m \<in> set nodes" "b \<in> set (f m)" for a b m
    using that assms(3) Cons.prems by (auto simp: edge_before_def)
  ultimately show ?case using Cons by (auto simp: sorted_wrt_append)
qed simp

lemma confirmed_adjacency:
  assumes "confirmed_lists records edges"
  shows "adjacency_of records = edges"
proof (rule sorted_wrt_unique [where P = edge_before, OF edge_before_order])
  note L = assms [unfolded confirmed_lists_def]
  have d: "distinct (map er_id (cg_edges records))" using L strict_sorted_iff by blast
  have s: "sorted_wrt (<) (node_ids_of records)" using L by (simp add: confirmed_ids [OF assms])
  show "sorted_wrt edge_before (adjacency_of records)"
    unfolding adjacency_of_def by (intro sources_blocks_sorted s edges_from_sorted d) (simp add: edges_from_def)
  show "sorted_wrt edge_before edges" using L by blast
  show "set (adjacency_of records) = set edges"
    using L by (auto simp: adjacency_of_def edges_from_def confirmed_ids [OF assms])
qed

lemma confirmed_valid:
  assumes "confirmed_lists records edges"
  shows "valid_records records" "length edges = length (cg_edges records)"
proof -
  note L = assms [unfolded confirmed_lists_def]
  have d: "distinct (map nr_id (cg_nodes records))" "distinct (map rr_id (cg_relation_kinds records))" "distinct (map er_id (cg_edges records))"
    using L strict_sorted_iff by blast+
  then show "valid_records records" using L by (auto simp: valid_records_def edge_record_ok_def confirmed_ids [OF assms])
  have "distinct edges"
    using L edge_before_order(1) by (auto simp: distinct_conv_nth sorted_wrt_iff_nth_less neq_iff) (metis, metis)
  then show "length edges = length (cg_edges records)" using L d(3) distinct_card [of edges] distinct_card [of "cg_edges records"] by (metis distinct_map)
qed

lemma confirmed_ranked:
  assumes "confirmed_lists records edges" "e \<in> set edges"
  obtains s d r where "binary_search (node_ids_of records) (er_source e) = Some s" "s < length (cg_nodes records)" "node_ids_of records ! s = er_source e"
    "binary_search (node_ids_of records) (er_destination e) = Some d" "d < length (cg_nodes records)"
    "binary_search (relation_ids_of records) (er_relation_kind e) = Some r" "r < length (cg_relation_kinds records)"
    "relation_ids_of records ! r = er_relation_kind e" "base_weight_ok (er_base_weight e)"
proof -
  note L = assms(1) [unfolded confirmed_lists_def] and I = confirmed_ids [OF assms(1)]
  have m: "er_source e \<in> set (node_ids_of records)" "er_destination e \<in> set (node_ids_of records)"
    "er_relation_kind e \<in> set (relation_ids_of records)" "base_weight_ok (er_base_weight e)"
    using L assms(2) by (auto simp: I)
  have s: "sorted (node_ids_of records)" "sorted (relation_ids_of records)" using L by (simp_all add: I strict_sorted_imp_sorted)
  from m obtain a b c where "binary_search (node_ids_of records) (er_source e) = Some a" "binary_search (node_ids_of records) (er_destination e) = Some b"
      "binary_search (relation_ids_of records) (er_relation_kind e) = Some c"
    using binary_search_None_iff [OF s(1)] binary_search_None_iff [OF s(2)] by (metis not_None_eq)
  with m(4) binary_search_SomeD show thesis by (intro that) (auto simp: I dest: binary_search_SomeD)
qed

lemma block_offsets:
  assumes "sorted_wrt (<) nodes" "\<And>n e. e \<in> set (f n) \<Longrightarrow> er_source e = n" "i \<le> length nodes"
  shows "length (filter (\<lambda>e. the (binary_search nodes (er_source e)) < i) (concat (map f nodes))) = length (concat (take i (map f nodes)))"
proof -
  let ?P = "\<lambda>e. the (binary_search nodes (er_source e)) < i"
  have rank: "the (binary_search nodes (nodes ! j)) = j" if "j < length nodes" for j
    using binary_search_nth [of nodes j] assms(1) that by (simp add: strict_sorted_iff)
  have src: "er_source e = n" if "e \<in> set (f n)" for e n using assms(2) that .
  have "concat (map f nodes) = concat (map f (take i nodes)) @ concat (map f (drop i nodes))"
    by (metis append_take_drop_id concat_append map_append)
  moreover have "filter ?P (concat (map f (take i nodes))) = concat (map f (take i nodes))"
    using rank assms(3) by (auto simp: filter_id_conv in_set_conv_nth src)
  moreover have "filter ?P (concat (map f (drop i nodes))) = []"
    using rank by (auto simp: filter_empty_conv in_set_conv_nth src)
  ultimately show ?thesis by (simp add: take_map)
qed

lemma resident_image:
  assumes "confirmed_lists records edges" "length (cg_nodes records) \<le> U32_MAX" "length (cg_relation_kinds records) \<le> U32_MAX"
  shows "resident_of (node_ids_of records) (relation_ids_of records) (map (ranked (node_ids_of records) (relation_ids_of records)) edges) = image_of records"
proof -
  let ?N = "node_ids_of records" and ?R = "relation_ids_of records"
  note I = confirmed_ids [OF assms(1)] and A = confirmed_adjacency [OF assms(1)]
  have s: "sorted_wrt (<) ?N" using assms(1) by (simp add: I confirmed_lists_def)
  have offs: "source_edge_offsets (length ?N + 1) (map (ranked ?N ?R) edges)
      = map (\<lambda>i. length (concat (take i (map (edges_from records) ?N)))) [0..<length ?N + 1]"
  proof -
    have "length (filter (\<lambda>e. the (binary_search ?N (er_source e)) < i) edges) = length (concat (take i (map (edges_from records) ?N)))"
      if "i \<le> length ?N" for i
      using block_offsets [OF s _ that, of "edges_from records"] by (simp add: A [symmetric] adjacency_of_def edges_from_def)
    then show ?thesis
      unfolding source_edge_offsets_def by (intro map_cong refl) (auto simp: filter_map comp_def ranked_def)
  qed
  have rel: "?R ! unat (en_relation (ranked ?N ?R e)) = er_relation_kind e" if "e \<in> set edges" for e
  proof -
    from assms(1) that obtain r where "binary_search ?R (er_relation_kind e) = Some r" "r < length (cg_relation_kinds records)"
        "?R ! r = er_relation_kind e"
      by (rule confirmed_ranked)
    then show ?thesis using assms(3) unat_words(1) [of r] by (simp add: ranked_def)
  qed
  have columns: "map en_destination (map (ranked ?N ?R) edges) = map (\<lambda>e. dense_as_u32 (dense_of ?N (er_destination e))) edges"
    "map (\<lambda>x. ?R ! unat (en_relation x)) (map (ranked ?N ?R) edges) = map er_relation_kind edges"
    "map en_relation (map (ranked ?N ?R) edges) = map (\<lambda>e. word_of_nat (relation_rank records e)) edges"
    "map en_weight (map (ranked ?N ?R) edges) = map (\<lambda>e. base_weight_bits (er_base_weight e)) edges"
    "map (\<lambda>x. EdgeId (en_edge x)) (map (ranked ?N ?R) edges) = map er_id edges"
    using rel by (simp_all add: ranked_def dense_of_def relation_rank_def)
  have lengths: "length ?N = length (cg_nodes records)" "length ?R = length (cg_relation_kinds records)"
      "length (map (ranked ?N ?R) edges) = length (cg_edges records)"
    by (simp_all add: I confirmed_valid(2) [OF assms(1)])
  show ?thesis
    unfolding resident_of_def image_of_def Let_def A offs columns unfolding lengths ..
qed

lemma catalog_lists:
  assumes "rocks_sound api view" "rocks_reads api view" "catalog_holds view g cat" "read_confirmed_graph api cat = Inr records"
  shows "\<exists>edges. confirmed_lists records edges
    \<and> (\<forall>(visit :: node_record \<Rightarrow> 'n \<Rightarrow> 'en + 'n) s. for_each_node api (ct_db cat) visit s = map_err ScanVisitor (fold_result visit (cg_nodes records) s))
    \<and> (\<forall>(visit :: relation_record \<Rightarrow> 'r \<Rightarrow> 'er + 'r) s. for_each_relation_kind api (ct_db cat) visit s = map_err ScanVisitor (fold_result visit (cg_relation_kinds records) s))
    \<and> (\<forall>(visit :: edge_record \<Rightarrow> 'o \<Rightarrow> 'eo + 'o) s. for_each_outgoing_edge api (ct_db cat) visit s = map_err ScanVisitor (fold_result visit edges s))"
proof -
  have rd: "reading api view g (ct_db cat)" using catalog_holds_reading [OF assms(1,3)] .
  have ok: "references_ok g" "records_ok g" using assms(3) by (simp_all add: catalog_holds_def graph_ok_def)
  obtain ns where ns: "all_nodes api (ct_db cat) = Inr ns"
      "\<forall>(visit :: node_record \<Rightarrow> 'n \<Rightarrow> 'en + 'n) s. for_each_node api (ct_db cat) visit s = map_err ScanVisitor (fold_result visit ns s)"
    using for_each_reads(1) [OF rd assms(2) ok(1)] by blast
  obtain rs where rs: "all_relation_kinds api (ct_db cat) = Inr rs"
      "\<forall>(visit :: relation_record \<Rightarrow> 'r \<Rightarrow> 'er + 'r) s. for_each_relation_kind api (ct_db cat) visit s = map_err ScanVisitor (fold_result visit rs s)"
    using for_each_reads(2) [OF rd assms(2) ok(1)] by blast
  obtain edges where es: "outgoing_list (gr_edges g) edges"
      "\<forall>(visit :: edge_record \<Rightarrow> 'o \<Rightarrow> 'eo + 'o) s. for_each_outgoing_edge api (ct_db cat) visit s = map_err ScanVisitor (fold_result visit edges s)"
    using for_each_reads(3) [OF rd assms(2) ok(1)] by blast
  obtain all where all: "all_edges api (ct_db cat) = Inr all" using all_records_read(3) [OF rd assms(2)] by blast
  note RL = all_records_listed(1) [OF rd ns(1)] all_records_listed(2) [OF rd rs(1)] all_records_listed(3) [OF rd all]
  have sorted: "sorted_wrt (<) (map nr_id ns)" "sorted_wrt (<) (map rr_id rs)" "sorted_wrt (<) (map er_id all)"
    using RL by (simp_all add: record_list_def sorted_wrt_map id_order_defs)
  then have records: "records = \<lparr>cg_nodes = ns, cg_relation_kinds = rs, cg_edges = all\<rparr>"
    using assms(4) ns(1) rs(1) all
    by (auto simp: read_confirmed_graph_def rbind_Inr_iff sort_key_id_if_sorted strict_sorted_imp_sorted)
  have "set edges = set all" using es(1) RL(3) by (auto simp: outgoing_list_def record_list_def)
  moreover have "er_source e \<in> nr_id ` set ns \<and> er_destination e \<in> nr_id ` set ns \<and> er_relation_kind e \<in> rr_id ` set rs
      \<and> base_weight_ok (er_base_weight e)" if "e \<in> set edges" for e
  proof -
    have e: "gr_edges g (er_id e) = Some e" using es(1) that by (simp add: outgoing_list_def)
    then have "gr_nodes g (er_source e) \<noteq> None" "gr_nodes g (er_destination e) \<noteq> None" "gr_relations g (er_relation_kind e) \<noteq> None"
      using ok(1) unfolding references_ok_def by blast+
    moreover have "i \<in> nr_id ` set ns" if "gr_nodes g i \<noteq> None" for i using that RL(1) by (auto simp: record_list_def)
    moreover have "i \<in> rr_id ` set rs" if "gr_relations g i \<noteq> None" for i using that RL(2) by (auto simp: record_list_def)
    moreover have "edge_ok e" using records_okD(3) [OF ok(2) e] by simp
    ultimately show ?thesis by (simp add: edge_ok_def)
  qed
  ultimately show ?thesis
    using ns(2) rs(2) es sorted by (intro exI [of _ edges]) (simp add: confirmed_lists_def records outgoing_list_def)
qed

section \<open>Compiling the bundle\<close>

lemma nodes_visited:
  assumes "\<And>s n. reserve s n" "sorted_wrt (<) (map nr_id ns)"
  shows "\<exists>c'. fold_result (visit_node reserve) ns ([], c) = Inr (map nr_id ns, c')"
  using assms(2)
proof (induction ns rule: rev_induct)
  case (snoc n ns)
  then obtain c' where c': "fold_result (visit_node reserve) ns ([], c) = Inr (map nr_id ns, c')" by (auto simp: sorted_wrt_append)
  have "\<not> (map nr_id ns \<noteq> [] \<and> last (map nr_id ns) \<ge> nr_id n)"
    using snoc.prems by (cases "ns = []") (auto simp: sorted_wrt_append not_le last_map)
  then have "\<exists>d. visit_node reserve n (map nr_id ns, c') = Inr (map nr_id (ns @ [n]), d)" using assms(1) by (auto simp: visit_node_def)
  then show ?case using c' by (auto simp: fold_result_append)
qed simp

lemma relations_visited:
  assumes "\<And>s n. reserve s n" "sorted_wrt (<) (map rr_id rs)"
  shows "\<exists>c'. fold_result (visit_relation reserve) rs ([], c) = Inr (map rr_id rs, c')"
  using assms(2)
proof (induction rs rule: rev_induct)
  case (snoc r rs)
  then obtain c' where c': "fold_result (visit_relation reserve) rs ([], c) = Inr (map rr_id rs, c')" by (auto simp: sorted_wrt_append)
  have "\<not> (map rr_id rs \<noteq> [] \<and> last (map rr_id rs) \<ge> rr_id r)"
    using snoc.prems by (cases "rs = []") (auto simp: sorted_wrt_append not_le last_map)
  then have "\<exists>d. visit_relation reserve r (map rr_id rs, c') = Inr (map rr_id (rs @ [r]), d)" using assms(1) by (auto simp: visit_relation_def)
  then show ?case using c' by (auto simp: fold_result_append)
qed simp

lemma scan_result_Inr [simp]: "scan_result (Inr x) = Inr x"
  by (simp add: scan_result_def)

lemma splits_counted: "\<exists>k. fold_result (count_split (offsets_upto (n + 1) ps)) [0..<n] 0 = Inr k"
proof -
  have le: "length (filter (\<lambda>p. pc_source p < i) ps) \<le> length (filter (\<lambda>p. pc_source p < Suc i) ps)" for i
    by (simp add: length_filter_Suc)
  have "\<exists>k. fold_result (count_split (offsets_upto (n + 1) ps)) [0..<m] 0 = Inr k" if "m \<le> n" for m
    using that
  proof (induction m)
    case (Suc m)
    then obtain k where "fold_result (count_split (offsets_upto (n + 1) ps)) [0..<m] 0 = Inr k" by auto
    moreover have "\<exists>k'. count_split (offsets_upto (n + 1) ps) m k = Inr k'"
      using Suc.prems le [of m] by (simp add: count_split_def index_def not_less)
    ultimately show ?case by (auto simp: fold_result_append)
  qed simp
  then show ?thesis by simp
qed

definition layout_total :: "(bytes \<Rightarrow> bytes) \<Rightarrow> bundle_config \<Rightarrow> node_id list \<Rightarrow> relation_id list \<Rightarrow> piece list list \<Rightarrow> nat" where
  "layout_total hash config nodes relations lay = sum_list (map (length \<circ> snd) (layout_files hash config nodes relations lay))"

lemma layout_total_checked:
  assumes "\<And>bs. length (hash bs) = 32" "writable config nodes relations lay"
  defines "m \<equiv> layout_manifest hash config nodes relations lay"
  shows "checked_total [length (manifest_layout m), unat (fd_length (bm_identities m)), unat (fd_length (bm_source_directory m)),
      unat (fd_length (bm_topology m)), unat (fd_length (bm_evidence m))] = Some (layout_total hash config nodes relations lay)"
proof -
  note S = writable_sizes [OF assms(2)]
  have n: "length nodes \<le> U32_MAX" "length relations \<le> U32_MAX" using assms(2) by (simp_all add: writable_def)
  let ?d = "directory_file (offsets_upto (length nodes + 1) (concat lay)) (layout_directory lay)"
  have l: "length (identity_file nodes relations) = 8 * (length nodes + length relations)" "length ?d = 8 * (length nodes + 1) + 24 * length (concat lay)"
    by (simp_all add: length_directory_file)
  have u: "unat (fd_length (bm_identities m)) = length (identity_file nodes relations)" "unat (fd_length (bm_source_directory m)) = length ?d"
    "unat (fd_length (bm_topology m)) = length (layout_topology lay)" "unat (fd_length (bm_evidence m)) = length (layout_evidence lay)"
    unfolding m_def layout_manifest_def bundle_manifest.simps using S(2-4) n
    by (intro described_length; simp add: length_directory_file U32_MAX_def U64_MAX_def)+
  have "length (manifest_layout m) \<le> 112 * U32_MAX + 400"
    unfolding m_def using assms(1,2) by (rule length_manifest_layout)
  then show ?thesis
    using S(2-4) n l unfolding u
    by (simp add: checked_total_def checked_add_def layout_total_def layout_files_def m_def U32_MAX_def U64_MAX_def)
qed

lemma last_source:
  assumes "sorted_wrt entry_before es" "pieces_ok ps" "entries_of ps = es" "p \<in> set ps"
  shows "es \<noteq> []" "pc_source p \<le> en_source (last es)"
proof -
  obtain x where x: "x \<in> set es" "en_source x = pc_source p" using entry_piece [OF assms(2,4)] assms(3) by blast
  then show ne: "es \<noteq> []" by auto
  then have "es = butlast es @ [last es]" by simp
  then show "pc_source p \<le> en_source (last es)"
    using assms(1) x sorted_entries_le(1) [of "butlast es" "last es" x] by (metis append_butlast_last_id order_refl rotate1.simps(2) set_ConsD set_rotate1)
qed

lemma bundle_finished:
  assumes "\<And>bs. length (hash bs) = 32" "\<And>s n. reserve s n" "writable config nodes relations lay" "laid hash config lay [] b"
    and "entries_of (concat lay) = es" "sorted_wrt entry_before es"
    and "bd_source_offsets b = offsets_upto (if es = [] then 1 else en_source (last es) + 1) (concat lay)"
    and "mt_adjacency_count (bd_metrics b) = length es"
  defines "required \<equiv> layout_total hash config nodes relations lay"
  shows "\<exists>mt. finish_bundle hash reserve no_faults config nodes relations b =
    (if required > bc_maximum_total_bundle_bytes config
     then Inl (Failed (BundleLimit ''total bytes'' required (bc_maximum_total_bundle_bytes config)))
     else Inr (layout_manifest hash config nodes relations lay, mt, layout_files hash config nodes relations lay))"
proof -
  let ?ps = "concat lay" and ?n = "length nodes" and ?m = "layout_manifest hash config nodes relations lay"
  let ?k = "if es = [] then 1 else en_source (last es) + 1"
  note S = writable_sizes [OF assms(3)]
  have b: "bd_topology b = layout_topology lay" "bd_evidence b = layout_evidence lay" "bd_partitions b = layout_descriptors hash lay"
    "bd_descriptors b = layout_directory lay"
    using assms(4) by (simp_all add: laid_def layout_directory_snoc)
  have "\<forall>p \<in> set ?ps. pc_source p < ?k" using last_source [OF assms(6) S(5) assms(5)] by (auto simp: less_Suc_eq_le)
  moreover have "?k \<le> ?n + 1"
  proof (cases "es = []")
    case False
    then have "en_source (last es) < ?n" using assms(3,5) last_in_set by (auto simp: writable_def)
    then show ?thesis by simp
  qed simp
  ultimately have offs: "pad_to (?n + 1) (length (bd_descriptors b)) (bd_source_offsets b) = offsets_upto (?n + 1) ?ps"
    using pad_offsets unfolding assms(7) b length_layout_directory by blast
  obtain splits where splits: "fold_result (count_split (offsets_upto (?n + 1) ?ps)) [0..<?n] 0 = Inr splits"
    using splits_counted by blast
  have opened: "open_routing_bundle hash reserve no_faults (layout_files hash config nodes relations lay) = Inr (layout_bundle hash config nodes relations lay)"
    using assms(1,3) assms(2) by (rule layout_opens)
  have enc: "manifest_encode ?m = Inr (manifest_layout ?m)"
    using policies_ok S(1) by (auto simp: manifest_encode_iff layout_manifest_def U32_MAX_def U64_MAX_def)
  have total: "checked_total [length (manifest_layout ?m), unat (fd_length (bm_identities ?m)), unat (fd_length (bm_source_directory ?m)),
      unat (fd_length (bm_topology ?m)), unat (fd_length (bm_evidence ?m))] = Some required"
    unfolding required_def using assms(1,3) by (rule layout_total_checked)
  have ws: "write_sync no_faults name bs = Inr (name, bs)" for name bs by (simp add: write_sync_def)
  have fd: "file_descriptor_of hash no_faults dir name = Inr (describe hash bs)" if "map_of dir name = Some bs" for dir name bs
    using that by (simp add: file_descriptor_of_def fs_read_def)
  have files: "[(''identities.bin'', identity_file nodes relations), (''topology.bin'', layout_topology lay), (''evidence.bin'', layout_evidence lay),
      (''source-directory.bin'', directory_file (offsets_upto (?n + 1) ?ps) (layout_directory lay))] @ [(''manifest.bin'', manifest_layout ?m)]
    = layout_files hash config nodes relations lay"
    by (simp add: layout_files_def)
  have m: "\<lparr>bm_numeric_policy = ascii NUMERIC_POLICY_ID, bm_tie_policy = ascii TIE_POLICY_ID,
            bm_node_count = word_of_nat (length nodes), bm_relation_kind_count = word_of_nat (length relations),
            bm_adjacency_count = word_of_nat (length es),
            bm_segment_count = word_of_nat (length ?ps),
            bm_target_partition_bytes = word_of_nat (bc_target_partition_topology_bytes config),
            bm_hard_maximum_partition_bytes = word_of_nat (bc_hard_maximum_partition_topology_bytes config),
            bm_identities = describe hash (identity_file nodes relations),
            bm_source_directory = describe hash (directory_file (offsets_upto (?n + 1) ?ps) (layout_directory lay)),
            bm_topology = describe hash (layout_topology lay), bm_evidence = describe hash (layout_evidence lay),
            bm_partitions = layout_descriptors hash lay\<rparr> = ?m"
    by (simp add: layout_manifest_def assms(5))
  have rb: "rb_manifest (layout_bundle hash config nodes relations lay) = ?m"
    "rb_manifest_checksum (layout_bundle hash config nodes relations lay) = hash (manifest_layout ?m)"
    by (simp_all add: layout_bundle_def)
  let ?files = "[(''identities.bin'', identity_file nodes relations), (''topology.bin'', layout_topology lay), (''evidence.bin'', layout_evidence lay),
      (''source-directory.bin'', directory_file (offsets_upto (?n + 1) ?ps) (layout_directory lay))]"
  have fds: "file_descriptor_of hash no_faults ?files ''topology.bin'' = Inr (describe hash (layout_topology lay))"
    "file_descriptor_of hash no_faults ?files ''evidence.bin'' = Inr (describe hash (layout_evidence lay))"
    by (rule fd; simp)+
  have adj: "mt_adjacency_count ((bd_metrics b)\<lparr>mt_segment_count := x, mt_partition_count := y, mt_split_source_count := z\<rparr>) = length es" for x y z
    by (simp add: assms(8))
  show ?thesis
    unfolding finish_bundle_def Let_def offs
    unfolding b io_perform_no_faults rbind_simps ws splits fds adj length_layout_directory m enc total ok_or_simps prod.case files opened rb
    by auto
qed

lemma ranked_sorted:
  assumes "confirmed_lists records edges"
  shows "sorted_wrt entry_before (map (ranked (node_ids_of records) (relation_ids_of records)) edges)"
proof -
  let ?N = "node_ids_of records" and ?R = "relation_ids_of records"
  have s: "sorted_wrt (<) ?N" using assms by (simp add: confirmed_lists_def confirmed_ids [OF assms])
  have "entry_before (ranked ?N ?R a) (ranked ?N ?R b)" if ab: "a \<in> set edges" "b \<in> set edges" "edge_before a b" for a b
  proof -
    from assms ab(1) obtain i where i: "binary_search ?N (er_source a) = Some i" "i < length (cg_nodes records)" "?N ! i = er_source a"
      by (rule confirmed_ranked)
    from assms ab(2) obtain j where j: "binary_search ?N (er_source b) = Some j" "j < length (cg_nodes records)" "?N ! j = er_source b"
      by (rule confirmed_ranked)
    have len: "length ?N = length (cg_nodes records)" by (simp add: confirmed_ids [OF assms])
    have "i < j" if "er_source a < er_source b"
    proof (rule ccontr)
      assume "\<not> i < j"
      then have "?N ! j \<le> ?N ! i"
        using s i(2) len by (cases "i = j") (auto simp: sorted_wrt_iff_nth_less less_imp_le)
      with that i(3) j(3) show False by simp
    qed
    with ab(3) i(1) j(1) show ?thesis by (auto simp: edge_before_def entry_before_def ranked_def id_order_defs)
  qed
  then have "sorted_wrt (\<lambda>a b. entry_before (ranked ?N ?R a) (ranked ?N ?R b)) edges"
    using assms sorted_wrt_mono_rel [of edges edge_before] by (simp add: confirmed_lists_def)
  then show ?thesis by (simp add: sorted_wrt_map)
qed

lemma ranked_writable:
  assumes "confirmed_lists records edges" "config_ok config" "length (cg_nodes records) \<le> U32_MAX"
    "length (cg_relation_kinds records) \<le> U32_MAX" "length edges \<le> U32_MAX"
    and "layout_ok config (map (ranked (node_ids_of records) (relation_ids_of records)) edges) lay"
  shows "writable config (node_ids_of records) (relation_ids_of records) lay"
proof -
  let ?N = "node_ids_of records" and ?R = "relation_ids_of records"
  have es: "entries_of (concat lay) = map (ranked ?N ?R) edges" using assms(6) by (simp add: layout_ok_def)
  have "en_source (ranked ?N ?R e) < length ?N \<and> unat (en_destination (ranked ?N ?R e)) < length ?N
      \<and> unat (en_relation (ranked ?N ?R e)) < length ?R \<and> base_weight_ok (BaseWeight (en_weight (ranked ?N ?R e)))" if e: "e \<in> set edges" for e
  proof -
    from assms(1) e obtain s d r where "binary_search ?N (er_source e) = Some s" "s < length (cg_nodes records)"
        "binary_search ?N (er_destination e) = Some d" "d < length (cg_nodes records)"
        "binary_search ?R (er_relation_kind e) = Some r" "r < length (cg_relation_kinds records)" "base_weight_ok (er_base_weight e)"
      by (rule confirmed_ranked)
    then show ?thesis using assms(3,4) unat_words(1) [of d] unat_words(1) [of r] by (simp add: ranked_def confirmed_ids [OF assms(1)])
  qed
  then show ?thesis
    using assms es by (simp add: writable_def confirmed_ids [OF assms(1)] confirmed_lists_def)
qed

lemma catalog_compiled:
  assumes "rocks_sound api view" "rocks_reads api view" "catalog_holds view g cat" "read_confirmed_graph api cat = Inr records"
    and hash: "\<And>bs. length (hash bs) = 32" and reserve: "\<And>s n. reserve s n"
    and "config_ok config" "existing = None \<or> existing = Some []" "length (cg_nodes records) \<le> U32_MAX"
    and "length (cg_relation_kinds records) \<le> U32_MAX" "length (cg_edges records) \<le> U32_MAX"
  shows "\<exists>lay mt. writable config (node_ids_of records) (relation_ids_of records) lay
    \<and> resident_of (node_ids_of records) (relation_ids_of records) (entries_of (concat lay)) = image_of records
    \<and> compile_bundle api hash reserve no_faults (ct_db cat) existing config =
      (if layout_total hash config (node_ids_of records) (relation_ids_of records) lay > bc_maximum_total_bundle_bytes config
       then Inl (Failed (BundleLimit ''total bytes'' (layout_total hash config (node_ids_of records) (relation_ids_of records) lay)
              (bc_maximum_total_bundle_bytes config)))
       else Inr (layout_manifest hash config (node_ids_of records) (relation_ids_of records) lay, mt,
              layout_files hash config (node_ids_of records) (relation_ids_of records) lay))"
proof -
  let ?N = "node_ids_of records" and ?R = "relation_ids_of records"
  obtain edges where "confirmed_lists records edges \<and>
      (\<forall>(visit :: node_record \<Rightarrow> node_id list \<times> nat \<Rightarrow> (node_id list \<times> nat) bundled) s.
        for_each_node api (ct_db cat) visit s = map_err ScanVisitor (fold_result visit (cg_nodes records) s)) \<and>
      (\<forall>(visit :: relation_record \<Rightarrow> relation_id list \<times> nat \<Rightarrow> (relation_id list \<times> nat) bundled) s.
        for_each_relation_kind api (ct_db cat) visit s = map_err ScanVisitor (fold_result visit (cg_relation_kinds records) s)) \<and>
      (\<forall>(visit :: edge_record \<Rightarrow> builder \<Rightarrow> builder bundled) s.
        for_each_outgoing_edge api (ct_db cat) visit s = map_err ScanVisitor (fold_result visit edges s))"
    using catalog_lists [OF assms(1-4)] by (elim exE)
  note L = conjunct1 [OF this] and scan = this [THEN conjunct2, THEN conjunct1, rule_format]
    this [THEN conjunct2, THEN conjunct2, THEN conjunct1, rule_format] this [THEN conjunct2, THEN conjunct2, THEN conjunct2, rule_format]
  note I = confirmed_ids [OF L]
  have len: "length edges \<le> U32_MAX" using assms(11) confirmed_valid(2) [OF L] by simp
  have sorted: "sorted_wrt (<) (map nr_id (cg_nodes records))" "sorted_wrt (<) (map rr_id (cg_relation_kinds records))"
    using L by (simp_all add: confirmed_lists_def)
  obtain c where c: "fold_result (visit_node reserve) (cg_nodes records) ([], 0) = Inr (?N, c)"
    using nodes_visited [of reserve "cg_nodes records" 0, OF reserve sorted(1)] by (auto simp: I)
  obtain d where d: "fold_result (visit_relation reserve) (cg_relation_kinds records) ([], c) = Inr (?R, d)"
    using relations_visited [of reserve "cg_relation_kinds records" c, OF reserve sorted(2)] by (auto simp: I)
  have found: "\<forall>e \<in> set edges. binary_search ?N (er_source e) \<noteq> None \<and> binary_search ?N (er_destination e) \<noteq> None
      \<and> binary_search ?R (er_relation_kind e) \<noteq> None"
  proof
    fix e assume "e \<in> set edges"
    with L obtain s d r where "binary_search ?N (er_source e) = Some s" "binary_search ?N (er_destination e) = Some d"
        "binary_search ?R (er_relation_kind e) = Some r"
      by (rule confirmed_ranked)
    then show "binary_search ?N (er_source e) \<noteq> None \<and> binary_search ?N (er_destination e) \<noteq> None \<and> binary_search ?R (er_relation_kind e) \<noteq> None"
      by simp
  qed
  have nlen: "length ?N \<le> U32_MAX" using assms(9) by (simp add: I)
  have "\<exists>b lay cur. fold_result (visit_edge hash no_faults config ?N ?R) edges (empty_builder (length ?N) (length ?R) d) = Inr b
      \<and> built hash config (map (ranked ?N ?R) edges) lay cur b"
    using assms(7) nlen len ranked_sorted [OF L] found by (rule edges_built)
  then obtain b lay0 cur where b: "fold_result (visit_edge hash no_faults config ?N ?R) edges (empty_builder (length ?N) (length ?R) d) = Inr b"
      "built hash config (map (ranked ?N ?R) edges) lay0 cur b" by blast
  obtain b' lay where b': "flush hash no_faults config b = Inr b'" "layout_ok config (map (ranked ?N ?R) edges) lay" "laid hash config lay [] b'"
      "bd_source_offsets b' = offsets_upto (if map (ranked ?N ?R) edges = [] then 1 else en_source (last (map (ranked ?N ?R) edges)) + 1) (concat lay)"
      "mt_adjacency_count (bd_metrics b') = length (map (ranked ?N ?R) edges)"
    using flushed_built [OF b(2)] len by (auto simp del: map_is_Nil_conv)
  have w: "writable config ?N ?R lay" using L assms(7,9,10) len b'(2) by (rule ranked_writable)
  have es: "entries_of (concat lay) = map (ranked ?N ?R) edges" using b'(2) by (simp add: layout_ok_def)
  have size: "checked_add (length ?N) (length ?R) = Some (length ?N + length ?R)" "checked_mul (length ?N + length ?R) 8 = Some ((length ?N + length ?R) * 8)"
    using assms(9,10) by (simp_all add: checked_add_def checked_mul_def I U32_MAX_def U64_MAX_def)
  have ws: "write_sync no_faults name bs = Inr (name, bs)" for name bs by (simp add: write_sync_def)
  have "compile_bundle api hash reserve no_faults (ct_db cat) existing config = finish_bundle hash reserve no_faults config ?N ?R b'"
    using assms(7,8,9,10) reserve size b(1) b'(1)
    by (auto simp: compile_bundle_def config_ok_def prepare_directory_def scan c d ws I)
  moreover have "\<exists>mt. finish_bundle hash reserve no_faults config ?N ?R b' =
      (if layout_total hash config ?N ?R lay > bc_maximum_total_bundle_bytes config
       then Inl (Failed (BundleLimit ''total bytes'' (layout_total hash config ?N ?R lay) (bc_maximum_total_bundle_bytes config)))
       else Inr (layout_manifest hash config ?N ?R lay, mt, layout_files hash config ?N ?R lay))"
    using hash reserve w b'(3) es ranked_sorted [OF L] b'(4,5) by (rule bundle_finished)
  moreover have "resident_of ?N ?R (entries_of (concat lay)) = image_of records"
    unfolding es using resident_image [OF L assms(9,10)] .
  ultimately show ?thesis using w by auto
qed

end
