(* ===== verification/Partitioned_Image.thy ===== *)
theory Partitioned_Image
  imports Cache_Invariant Topology_Contract Bundle_Accepted Bundle_Resident
begin

text \<open>
  Routing over the partitions of a bundle, through the host cache. A partitioned image keeps the
  contract of a routing topology, and the graph it stands for is that of the resident image that
  the same bundle yields: the partitions are read on demand, and every answer is the same.
\<close>

section \<open>The edges of loaded partitions\<close>

lemma concat_nth_offset:
  assumes "k < length xss" "i < length (xss ! k)"
  shows "concat xss ! (length (concat (take k xss)) + i) = xss ! k ! i"
    "length (concat (take k xss)) + i < length (concat xss)"
proof -
  have x: "concat xss = concat (take k xss) @ xss ! k @ concat (drop (Suc k) xss)"
    by (subst id_take_nth_drop [OF assms(1)]) simp
  show "concat xss ! (length (concat (take k xss)) + i) = xss ! k ! i"
    "length (concat (take k xss)) + i < length (concat xss)"
    using assms(2) by (subst x, simp add: nth_append)+
qed

definition edges_of :: "decoded_partition \<Rightarrow> entry list" where
  "edges_of d = map (\<lambda>i. \<lparr>en_source = 0, en_destination = dp_destinations d ! i, en_relation = dp_relations d ! i,
     en_weight = dp_weights d ! i, en_edge = dp_edges d ! i\<rparr>) [0..<length (dp_edges d)]"

definition entry_view :: "relation_id list \<Rightarrow> entry \<Rightarrow> outgoing_edge" where
  "entry_view relations e =
     \<lparr>oe_edge_id = EdgeId (en_edge e), oe_destination = DenseNodeId (en_destination e),
      oe_relation_id = relations ! unat (en_relation e), oe_base_weight = BaseWeight (en_weight e), oe_relation_index = en_relation e\<rparr>"

lemma length_edges_of [simp]: "length (edges_of d) = length (dp_edges d)"
  by (simp add: edges_of_def)

lemma load_partition_ok:
  assumes "load_partition hash io dir faults b p = Inr d"
  shows "describes p d" "partition_ok (bm_node_count (rb_manifest b)) (bm_relation_kind_count (rb_manifest b)) d"
proof -
  obtain t e where te: "read_range io dir ''topology.bin'' (pt_topology_offset p) (pt_topology_length p) = Inr t"
      "read_range io dir ''evidence.bin'' (pt_evidence_offset p) (pt_evidence_length p) = Inr e"
      "decode_partition t e p (bm_node_count (rb_manifest b)) (bm_relation_kind_count (rb_manifest b)) = Inr d"
    using assms by (auto simp: load_partition_def rbind_Inr_iff invalid_def split: if_splits)
  have "addressable t" "addressable e"
    using read_range_length [OF te(1)] read_range_length [OF te(2)] unat_u64_bounds(1) by (simp_all add: addressable_def)
  from decode_partition_exact [OF this] te(3)
  show "describes p d" "partition_ok (bm_node_count (rb_manifest b)) (bm_relation_kind_count (rb_manifest b)) d" by blast+
qed

lemma edges_of_partition:
  assumes "partition_ok n k d"
  shows "dp_destinations d = map en_destination (edges_of d)" "dp_relations d = map en_relation (edges_of d)"
    "dp_weights d = map en_weight (edges_of d)" "dp_edges d = map en_edge (edges_of d)"
    "\<forall>e \<in> set (edges_of d). unat (en_destination e) < unat n \<and> unat (en_relation e) < unat k \<and> base_weight_ok (BaseWeight (en_weight e))"
  using assms by (auto simp: partition_ok_def edges_of_def comp_def intro!: nth_equalityI)

text \<open>\<^verbatim>\<open>to_resident_image\<close> lists the edges of the partitions one after the other.\<close>

definition loads :: "(bytes \<Rightarrow> bytes) \<Rightarrow> io_faults \<Rightarrow> directory \<Rightarrow> fault_injection \<Rightarrow> routing_bundle \<Rightarrow> decoded_partition list \<Rightarrow> bool" where
  "loads hash io dir faults b ds \<longleftrightarrow> list_all2 (\<lambda>p d. load_partition hash io dir faults b p = Inr d) (bm_partitions (rb_manifest b)) ds"

text \<open>A partition that has loaded once either loads again with the same contents or is reported as
  failed, whatever calls fail and whatever faults are injected; it never panics. The worker's
  call of \<open>load_partition\<close> is therefore always one of the outcomes of the cache's load step.\<close>

lemma read_range_agrees:
  assumes "read_range io dir name offset len = Inr bs"
  shows "read_range io' dir name offset len = Inr bs \<or> (\<exists>e. read_range io' dir name offset len = Inl (Failed e))"
  using assms by (auto simp: read_range_def io_perform_def rbind_Inr_iff split: option.splits if_splits)

lemma load_agrees:
  assumes "load_partition hash io dir faults b p = Inr d"
  shows "load_partition hash io' dir faults' b p = Inr d \<or> (\<exists>e. load_partition hash io' dir faults' b p = Inl (Failed e))"
proof -
  obtain t e where te: "read_range io dir ''topology.bin'' (pt_topology_offset p) (pt_topology_length p) = Inr t"
      "read_range io dir ''evidence.bin'' (pt_evidence_offset p) (pt_evidence_length p) = Inr e"
      "decode_partition t e p (bm_node_count (rb_manifest b)) (bm_relation_kind_count (rb_manifest b)) = Inr d"
      "hash t = pt_topology_checksum p" "hash e = pt_evidence_checksum p"
    using assms by (auto simp: load_partition_def rbind_Inr_iff invalid_def split: if_splits)
  show ?thesis
    using read_range_agrees [OF te(1), of io'] read_range_agrees [OF te(2), of io'] te(3-5) by (auto simp: load_partition_def)
qed

lemma load_is_step:
  assumes "loads hash io dir faults b ds" "k < length (cy_loading y)" "unat (cy_loading y ! k) < length (bm_partitions (rb_manifest b))"
  defines "i \<equiv> cy_loading y ! k"
  shows "\<exists>loaded. load_partition hash io' dir faults' b (partition_of (rb_manifest b) i) = map_sum Failed (\<lambda>d. d) loaded
    \<and> cache_step show_catalog (rb_manifest b) c (\<lambda>k. ds ! unat k) y
        (y\<lparr>cy_cache := load_end show_catalog (rb_manifest b) i loaded (cy_cache y), cy_loading := drop_nth k (cy_loading y)\<rparr>)"
proof -
  have "load_partition hash io dir faults b (partition_of (rb_manifest b) i) = Inr (ds ! unat i)"
    using assms(1,3) by (simp add: loads_def list_all2_conv_all_nth partition_of_def i_def)
  from load_agrees [OF this, of io' faults'] obtain loaded where
      "load_partition hash io' dir faults' b (partition_of (rb_manifest b) i) = map_sum Failed (\<lambda>d. d) loaded" "loaded = Inr (ds ! unat i) \<or> (\<exists>e. loaded = Inl e)"
    by (metis map_sum.simps)
  then show ?thesis using step_load [OF assms(2), of loaded "\<lambda>k. ds ! unat k"] unfolding i_def by blast
qed

definition lists_edges :: "routing_image \<Rightarrow> relation_id list \<Rightarrow> entry list \<Rightarrow> bool" where
  "lists_edges img relations es \<longleftrightarrow>
     im_destinations img = map en_destination es \<and> im_relation_ids img = map (\<lambda>e. relations ! unat (en_relation e)) es
     \<and> im_relation_indexes img = map en_relation es \<and> im_base_weight_bits img = map en_weight es
     \<and> im_edge_ids img = map (\<lambda>e. EdgeId (en_edge e)) es"

lemma lists_edges_entry: "lists_edges img relations es \<Longrightarrow> i < length es \<Longrightarrow> Routing_Image.entry_edge img i = entry_view relations (es ! i)"
  by (simp add: lists_edges_def Routing_Image.entry_edge_def entry_view_def)

lemma partitions_pushed:
  assumes "fold_result (push_resident_partition hash io dir faults b) ps (arrays_of (rb_relations b) es0) = Inr a"
    and "length (rb_relations b) = unat (bm_relation_kind_count (rb_manifest b))"
  shows "\<exists>ds. list_all2 (\<lambda>p d. load_partition hash io dir faults b p = Inr d) ps ds \<and> a = arrays_of (rb_relations b) (es0 @ concat (map edges_of ds))"
  using assms(1)
proof (induction ps arbitrary: es0)
  case (Cons p ps)
  obtain a1 where a1: "push_resident_partition hash io dir faults b p (arrays_of (rb_relations b) es0) = Inr a1"
      "fold_result (push_resident_partition hash io dir faults b) ps a1 = Inr a"
    using Cons.prems by (auto simp: rbind_Inr_iff)
  then obtain d where d: "load_partition hash io dir faults b p = Inr d"
      "fold_result (push_resident_edge (rb_relations b) d) [0..<length (dp_edges d)] (arrays_of (rb_relations b) es0) = Inr a1"
    by (auto simp: push_resident_partition_def rbind_Inr_iff)
  note E = edges_of_partition [OF load_partition_ok(2) [OF d(1)]]
  have "a1 = arrays_of (rb_relations b) (es0 @ edges_of d)"
    using partition_pushed [OF _ E(1-4), of "rb_relations b" es0] E(5) d(2) assms(2) by simp
  with Cons.IH [of "es0 @ edges_of d"] a1(2) obtain ds where "list_all2 (\<lambda>p d. load_partition hash io dir faults b p = Inr d) ps ds"
      "a = arrays_of (rb_relations b) ((es0 @ edges_of d) @ concat (map edges_of ds))"
    by blast
  with d(1) show ?case by (intro exI [of _ "d # ds"]) simp
qed simp

lemma resident_lists:
  assumes "to_resident_image hash io dir faults b = Inr img" "length (rb_relations b) = unat (bm_relation_kind_count (rb_manifest b))"
  shows "\<exists>ds. loads hash io dir faults b ds \<and> lists_edges img (rb_relations b) (concat (map edges_of ds)) \<and> im_offsets img = rb_source_edge_offsets b
    \<and> im_dense_to_external img = rb_nodes b \<and> im_confirmed_relation_ids img = rb_relations b
    \<and> im_external_to_dense img = map (\<lambda>(dense, i). (i, DenseNodeId (word_of_nat dense))) (enumerate 0 (rb_nodes b))"
proof -
  have "\<lparr>ca_destinations = [], ca_relations = [], ca_relation_indexes = [], ca_base_weight_bits = [], ca_edge_ids = []\<rparr> = arrays_of (rb_relations b) []"
    by (simp add: arrays_of_def)
  then obtain a where a: "fold_result (push_resident_partition hash io dir faults b) (bm_partitions (rb_manifest b)) (arrays_of (rb_relations b) []) = Inr a"
    and img: "im_destinations img = ca_destinations a" "im_relation_ids img = ca_relations a" "im_relation_indexes img = ca_relation_indexes a"
      "im_base_weight_bits img = ca_base_weight_bits a" "im_edge_ids img = ca_edge_ids a" "im_offsets img = rb_source_edge_offsets b"
      "im_dense_to_external img = rb_nodes b" "im_confirmed_relation_ids img = rb_relations b"
      "im_external_to_dense img = map (\<lambda>(dense, i). (i, DenseNodeId (word_of_nat dense))) (enumerate 0 (rb_nodes b))"
    using assms(1) by (auto simp: to_resident_image_def rbind_Inr_iff)
  from partitions_pushed [OF a assms(2)] obtain ds where "list_all2 (\<lambda>p d. load_partition hash io dir faults b p = Inr d) (bm_partitions (rb_manifest b)) ds"
      "a = arrays_of (rb_relations b) (concat (map edges_of ds))"
    by auto
  with img show ?thesis by (auto simp: loads_def lists_edges_def arrays_of_def)
qed

section \<open>A partitioned image keeps the contract\<close>

text \<open>What the routing code needs of a partition source: a partition it delivers is the one loaded
  from the bundle, it delivers none only when the caller has cancelled, and its errors are access
  errors.\<close>

definition access_failed :: "routing_error fault \<Rightarrow> bool" where
  "access_failed e \<longleftrightarrow> (\<exists>reason. e = Failed (ImageAccess reason))"

text \<open>The errors that the partition source itself reports.\<close>

definition source_failed :: "partition_source \<Rightarrow> routing_error fault \<Rightarrow> bool" where
  "source_failed acquire e \<longleftrightarrow> access_failed e \<and> (\<exists>env polls k. acquire env polls k = Inl e)"

definition delivers :: "partition_source \<Rightarrow> decoded_partition list \<Rightarrow> bool" where
  "delivers acquire ds \<longleftrightarrow> (\<forall>env polls k. unat k < length ds \<longrightarrow>
     ensures access_failed (\<lambda>(loaded, polls). case loaded of None \<Rightarrow> \<exists>q. env_cancelled env q | Some d \<Rightarrow> d = ds ! unat k) (acquire env polls k))"

record partitioned =
  pi_source :: partition_source
  pi_bundle :: routing_bundle
  pi_data :: "decoded_partition list"
  pi_image :: routing_image

definition partitioned_methods :: "partitioned \<Rightarrow> routing_topology" where
  "partitioned_methods t = chunked_topology (pi_source t) (pi_bundle t)"

definition partitioned_ok :: "partitioned \<Rightarrow> bool" where
  "partitioned_ok t \<longleftrightarrow>
     (let b = pi_bundle t; ds = pi_data t; img = pi_image t in
      bundle_ok b \<and> length (rb_nodes b) \<le> U32_MAX \<and> length (concat (map edges_of ds)) < U64_MAX
      \<and> list_all2 describes (bm_partitions (rb_manifest b)) ds
      \<and> list_all (partition_ok (bm_node_count (rb_manifest b)) (bm_relation_kind_count (rb_manifest b))) ds
      \<and> lists_edges img (rb_relations b) (concat (map edges_of ds)) \<and> im_offsets img = rb_source_edge_offsets b
      \<and> delivers (pi_source t) ds)"

lemma partition_offset_sum:
  assumes "bundle_ok b" "list_all2 describes (bm_partitions (rb_manifest b)) ds" "k \<le> length ds"
  shows "rb_partition_edge_offsets b ! k = length (concat (take k (map edges_of ds)))"
  using assms(3)
proof (induction k)
  case 0
  then show ?case using assms(1) by (simp add: bundle_ok_def Let_def offsets_ok_def)
next
  case (Suc k)
  then have k: "k < length (bm_partitions (rb_manifest b))" using assms(2) list_all2_lengthD by fastforce
  then have "describes (bm_partitions (rb_manifest b) ! k) (ds ! k)" using assms(2) by (simp add: list_all2_nthD)
  with Suc k assms(1) show ?case by (simp add: bundle_ok_def Let_def describes_def take_Suc_conv_app_nth)
qed

lemma partition_point_offsets:
  assumes "sorted xs" "k + 1 < length xs" "xs ! k \<le> i" "i < xs ! (k + 1)"
  shows "partition_point (\<lambda>v. v \<le> i) xs = k + 1"
proof -
  have "\<forall>v \<in> set (take (k + 1) xs). v \<le> i"
    using assms(1,2,3) by (auto simp: in_set_conv_nth) (metis Suc_leI le_trans less_Suc_eq_le less_or_eq_imp_le sorted_nth_mono Suc_lessD)
  moreover have "drop (k + 1) xs = xs ! (k + 1) # drop (k + 2) xs" using assms(2) Cons_nth_drop_Suc [of "k + 1" xs] by simp
  ultimately have "takeWhile (\<lambda>v. v \<le> i) (take (k + 1) xs @ drop (k + 1) xs) = take (k + 1) xs" using assms(4) by (simp add: takeWhile_append2)
  then show ?thesis using assms(2) by (simp add: partition_point_def)
qed

text \<open>Between monotonic offsets every position lies in exactly one range.\<close>

lemma offsets_locate:
  fixes xs :: "nat list"
  assumes "xs \<noteq> []" "xs ! 0 \<le> i" "i < last xs"
  shows "\<exists>k. k + 1 < length xs \<and> xs ! k \<le> i \<and> i < xs ! (k + 1)"
  using assms
proof (induction xs rule: rev_induct)
  case (snoc x xs)
  show ?case
  proof (cases "xs = []")
    case False
    show ?thesis
    proof (cases "i < last xs")
      case True
      then obtain k where "k + 1 < length xs" "xs ! k \<le> i" "i < xs ! (k + 1)" using snoc False by (auto simp: nth_append)
      then show ?thesis by (intro exI [of _ k]) (simp add: nth_append)
    next
      case False
      then show ?thesis
        using snoc \<open>xs \<noteq> []\<close> by (intro exI [of _ "length xs - 1"]) (auto simp: nth_append last_conv_nth Suc_diff_Suc)
    qed
  qed (use snoc in simp)
qed simp

lemma bundle_edge_read:
  assumes "partition_ok n k d" "length (rb_relations b) = unat k" "i < length (dp_edges d)"
  shows "bundle_edge b d i = Inr (entry_view (rb_relations b) (edges_of d ! i))"
proof -
  have "base_weight_from_bits (dp_weights d ! i) = Inr (BaseWeight (dp_weights d ! i))"
    using assms(1,3) by (simp add: partition_ok_def base_weight_from_bits_Inr)
  then show ?thesis
    using assms by (simp add: bundle_edge_def index_def get_def partition_ok_def edges_of_def entry_view_def)
qed

lemma partitioned_edge_at:
  assumes ok: "partitioned_ok t" and i: "i < length (concat (map edges_of (pi_data t)))"
  shows "ensures (source_failed (pi_source t)) (\<lambda>(loaded, polls). case loaded of None \<Rightarrow> \<exists>q. env_cancelled env q | Some e \<Rightarrow> e = Routing_Image.entry_edge (pi_image t) i)
    (chunked_edge_at (pi_source t) (pi_bundle t) env polls i)"
proof -
  let ?b = "pi_bundle t" and ?ds = "pi_data t" and ?o = "rb_partition_edge_offsets (pi_bundle t)"
  note P = ok [unfolded partitioned_ok_def Let_def]
  have B: "bundle_ok ?b" "list_all2 describes (bm_partitions (rb_manifest ?b)) ?ds" using P by blast+
  have D: "delivers (pi_source t) ?ds" using P by blast
  have n: "length ?ds = length (bm_partitions (rb_manifest ?b))" using list_all2_lengthD [OF B(2)] by simp
  have O: "offsets_ok ?o (length ?ds) (unat (bm_adjacency_count (rb_manifest ?b)))" using B(1) n by (simp add: bundle_ok_def Let_def)
  have ne: "?o \<noteq> []" using O by (auto simp: offsets_ok_def)
  have "last ?o = length (concat (map edges_of ?ds))"
    using partition_offset_sum [OF B order_refl] O last_conv_nth [OF ne] by (auto simp: offsets_ok_def)
  then obtain k where k: "k + 1 < length ?o" "?o ! k \<le> i" "i < ?o ! (k + 1)"
    using offsets_locate [OF ne, of i] O i by (auto simp: offsets_ok_def)
  have kd: "k < length ?ds" using k(1) O by (simp add: offsets_ok_def)
  have point: "partition_point (\<lambda>v. v \<le> i) ?o - 1 = k" using partition_point_offsets [OF _ k] O by (simp add: offsets_ok_def)
  have off: "?o ! k = length (concat (take k (map edges_of ?ds)))" "?o ! (k + 1) = ?o ! k + length (dp_edges (?ds ! k))"
    using partition_offset_sum [OF B, of k] partition_offset_sum [OF B, of "k + 1"] kd by (simp_all add: take_Suc_conv_app_nth)
  then have li: "i - ?o ! k < length (dp_edges (?ds ! k))" using k by simp
  have "unat (pt_id (bm_partitions (rb_manifest ?b) ! k)) = k" using B(1) kd n by (simp add: bundle_ok_def Let_def manifest_ok_def)
  then have word: "unat (word_of_nat k :: u32) = k" by (metis word_of_nat_unat)
  have "partition_ok (bm_node_count (rb_manifest ?b)) (bm_relation_kind_count (rb_manifest ?b)) (?ds ! k)"
    using P kd by (simp add: list_all_length)
  moreover have "length (rb_relations ?b) = unat (bm_relation_kind_count (rb_manifest ?b))" using B(1) by (simp add: bundle_ok_def Let_def)
  ultimately have edge: "bundle_edge ?b (?ds ! k) (i - ?o ! k) = Inr (entry_view (rb_relations ?b) (edges_of (?ds ! k) ! (i - ?o ! k)))"
    by (rule bundle_edge_read [OF _ _ li])
  have "concat (map edges_of ?ds) ! i = edges_of (?ds ! k) ! (i - ?o ! k)"
    using concat_nth_offset(1) [of k "map edges_of ?ds" "i - ?o ! k"] kd li k(2) off(1) by simp
  then have entry: "entry_view (rb_relations ?b) (edges_of (?ds ! k) ! (i - ?o ! k)) = Routing_Image.entry_edge (pi_image t) i"
    using lists_edges_entry [OF _ i] P by metis
  have "ensures access_failed (\<lambda>(loaded, polls). case loaded of None \<Rightarrow> \<exists>q. env_cancelled env q | Some d \<Rightarrow> d = ?ds ! k) (pi_source t env polls (word_of_nat k))"
    using D [unfolded delivers_def, rule_format, of "word_of_nat k" env polls] kd unfolding word by simp
  then have "ensures (source_failed (pi_source t)) (\<lambda>(loaded, polls). case loaded of None \<Rightarrow> \<exists>q. env_cancelled env q | Some d \<Rightarrow> d = ?ds ! k) (pi_source t env polls (word_of_nat k))"
    by (cases "pi_source t env polls (word_of_nat k)") (auto simp: source_failed_def)
  then show ?thesis
    using k(1,2) unfolding chunked_edge_at_def Let_def point
    by (cases "pi_source t env polls (word_of_nat k)") (auto simp: index_def get_def edge entry split: option.splits)
qed

lemma chunked_topology_simps [simp]:
  "tp_node_count (chunked_topology acquire b) = length (rb_nodes b)"
  "tp_adjacency_count (chunked_topology acquire b) = unat (bm_adjacency_count (rb_manifest b))"
  "tp_dense_node_id (chunked_topology acquire b) = chunked_dense_node_id b"
  "tp_external_node_id (chunked_topology acquire b) = chunked_external_node_id b"
  "tp_relation_ids (chunked_topology acquire b) = rb_relations b"
  "tp_outgoing_range (chunked_topology acquire b) = chunked_outgoing_range b"
  "tp_edge_at (chunked_topology acquire b) = chunked_edge_at acquire b"
  by (simp_all add: chunked_topology_def)

lemma partitioned_facts:
  assumes "partitioned_ok t"
  defines "b \<equiv> pi_bundle t" and "es \<equiv> concat (map edges_of (pi_data t))"
  shows "bundle_ok b" "length (rb_nodes b) \<le> U32_MAX" "unat (bm_adjacency_count (rb_manifest b)) = length es" "length es < U64_MAX"
    "im_offsets (pi_image t) = rb_source_edge_offsets b" "offsets_ok (rb_source_edge_offsets b) (length (rb_nodes b)) (length es)"
    "\<forall>e \<in> set es. unat (en_destination e) < length (rb_nodes b) \<and> unat (en_relation e) < length (rb_relations b) \<and> base_weight_ok (BaseWeight (en_weight e))"
    "i < length es \<Longrightarrow> Routing_Image.entry_edge (pi_image t) i = entry_view (rb_relations b) (es ! i)"
proof -
  note P = assms(1) [unfolded partitioned_ok_def Let_def, folded b_def es_def]
  have B: "bundle_ok b" "list_all2 describes (bm_partitions (rb_manifest b)) (pi_data t)" using P by blast+
  have n: "length (pi_data t) = length (bm_partitions (rb_manifest b))" using list_all2_lengthD [OF B(2)] by simp
  have O: "offsets_ok (rb_partition_edge_offsets b) (length (pi_data t)) (unat (bm_adjacency_count (rb_manifest b)))" using B(1) n by (simp add: bundle_ok_def Let_def)
  have ne: "rb_partition_edge_offsets b \<noteq> []" using O by (auto simp: offsets_ok_def)
  show adj: "unat (bm_adjacency_count (rb_manifest b)) = length es"
    using partition_offset_sum [OF B order_refl] O last_conv_nth [OF ne] by (auto simp: offsets_ok_def es_def)
  show "bundle_ok b" "length (rb_nodes b) \<le> U32_MAX" "length es < U64_MAX" "im_offsets (pi_image t) = rb_source_edge_offsets b"
    using P by blast+
  have "offsets_ok (rb_source_edge_offsets b) (length (rb_nodes b)) (unat (bm_adjacency_count (rb_manifest b)))"
    using B(1) unfolding bundle_ok_def Let_def by blast
  then show "offsets_ok (rb_source_edge_offsets b) (length (rb_nodes b)) (length es)" unfolding adj .
  have "length (rb_nodes b) = unat (bm_node_count (rb_manifest b))" "length (rb_relations b) = unat (bm_relation_kind_count (rb_manifest b))"
    using B(1) by (simp_all add: bundle_ok_def Let_def)
  then show "\<forall>e \<in> set es. unat (en_destination e) < length (rb_nodes b) \<and> unat (en_relation e) < length (rb_relations b) \<and> base_weight_ok (BaseWeight (en_weight e))"
    using P edges_of_partition(5) unfolding es_def by (fastforce simp: list_all_iff)
  show "Routing_Image.entry_edge (pi_image t) i = entry_view (rb_relations b) (es ! i)" if "i < length es"
    using P lists_edges_entry that by blast
qed

interpretation chunked: topology partitioned_ok partitioned_methods "\<lambda>t. image_out (pi_image t)" "\<lambda>t. Routing_Image.entry_edge (pi_image t)" "\<lambda>t. source_failed (pi_source t)"
proof
  fix t assume ok: "partitioned_ok t"
  let ?b = "pi_bundle t" and ?T = "partitioned_methods t" and ?es = "concat (map edges_of (pi_data t))"
  note F = partitioned_facts [OF ok] and M = partitioned_methods_def
  have ids: "sorted_wrt (<) (rb_nodes ?b)" "sorted_wrt (<) (rb_relations ?b)" using F(1) by (simp_all add: bundle_ok_def Let_def)
  show "tp_node_count ?T \<le> U32_MAX" "tp_adjacency_count ?T < U64_MAX" using F(2-4) by (simp_all add: M)
  show "sorted (tp_relation_ids ?T)" "distinct (tp_relation_ids ?T)" using ids(2) by (simp_all add: M strict_sorted_iff)
  have dense: "chunked_dense_node_id ?b n = Some x \<Longrightarrow> dense_as_usize x < length (rb_nodes ?b) \<and> rb_nodes ?b ! dense_as_usize x = n" for n x
    using F(2) by (auto simp: chunked_dense_node_id_def dest!: binary_search_SomeD)
  then show "dense_as_usize x < tp_node_count ?T" "tp_external_node_id ?T x = Some n" if "tp_dense_node_id ?T n = Some x" for n x
    using that by (auto simp: M chunked_external_node_id_def get_def)
  show "tp_external_node_id ?T x \<noteq> None" if "dense_as_usize x < tp_node_count ?T" for x
    using that by (simp add: M chunked_external_node_id_def get_def)
  have O: "length (rb_source_edge_offsets ?b) = length (rb_nodes ?b) + 1" "sorted (rb_source_edge_offsets ?b)" "last (rb_source_edge_offsets ?b) = length ?es"
    using F(6) by (simp_all add: offsets_ok_def)
  show "tp_outgoing_range ?T x = Inr (image_out (pi_image t) x)" if "dense_as_usize x < tp_node_count ?T" for x
    using that O(1) by (simp add: M chunked_outgoing_range_def index_def get_def image_out_def F(5))
  show "sum_list (map (\<lambda>x. snd (image_out (pi_image t) x) - fst (image_out (pi_image t) x)) xs) \<le> tp_adjacency_count ?T"
    if "distinct xs" "\<forall>x \<in> set xs. dense_as_usize x < tp_node_count ?T" for xs
    using offsets_sum [OF O(2,1) that(1)] that(2) by (simp add: M F(3) F(5) O(3) image_out_def)
  fix x i
  assume x: "dense_as_usize x < tp_node_count ?T" and i: "i < snd (image_out (pi_image t) x)"
  have "rb_source_edge_offsets ?b ! (dense_as_usize x + 1) \<le> last (rb_source_edge_offsets ?b)"
    using x O(1,2) last_conv_nth [of "rb_source_edge_offsets ?b"] by (cases "rb_source_edge_offsets ?b = []") (auto simp: M intro!: sorted_nth_mono)
  then have i: "i < length ?es" using i O(3) by (simp add: image_out_def F(5))
  then show "dense_as_usize (oe_destination (Routing_Image.entry_edge (pi_image t) i)) < tp_node_count ?T
      \<and> base_weight_ok (oe_base_weight (Routing_Image.entry_edge (pi_image t) i))
      \<and> unat (oe_relation_index (Routing_Image.entry_edge (pi_image t) i)) < length (tp_relation_ids ?T)"
    using bspec [OF F(7) nth_mem [OF i]] by (simp add: F(8) [OF i] M entry_view_def dense_as_usize_def)
  show "ensures (source_failed (pi_source t)) (\<lambda>(loaded, polls). case loaded of
      None \<Rightarrow> \<exists>q. env_cancelled env q | Some e \<Rightarrow> e = Routing_Image.entry_edge (pi_image t) i) (tp_edge_at ?T env polls i)" for env polls
    using partitioned_edge_at [OF ok i] by (simp add: M)
qed

end
