(* ===== verification/Bundle_Panics.thy ===== *)
theory Bundle_Panics
  imports Bundle_Layout
begin

text \<open>
  When decoding a partition panics. The field decoders are bounds-checked; the one place that can
  panic is the slice \<^verbatim>\<open>edges[begin..finish]\<close> of the segment check, and it does on a segment that
  reaches past the edges.
\<close>

section \<open>Decoders that do not panic\<close>

lemma rbind_Panicked: "rbind m f = Inl Panicked \<longleftrightarrow> m = Inl Panicked \<or> (\<exists>x. m = Inr x \<and> f x = Inl Panicked)"
  by (cases m) auto

lemma decoders_no_panic [simp]:
  "decoder_u32 d \<noteq> Inl Panicked" "decoder_u64 d \<noteq> Inl Panicked" "decoder_finish d \<noteq> Inl Panicked"
  "read_segment d \<noteq> Inl Panicked" "read_bounded limit reason d \<noteq> Inl Panicked" "read_weight d \<noteq> Inl Panicked"
proof -
  have take: "decoder_take n d \<noteq> Inl Panicked" for n d
    by (auto simp: decoder_take_def rbind_Panicked ok_or_def invalid_def split: option.splits if_splits)
  then show u: "decoder_u32 d \<noteq> Inl Panicked" "decoder_u64 d \<noteq> Inl Panicked" for d
    by (auto simp: decoder_u32_def decoder_u64_def rbind_Panicked)
  show "decoder_finish d \<noteq> Inl Panicked" by (simp add: decoder_finish_def invalid_def)
  show "read_segment d \<noteq> Inl Panicked" "read_bounded limit reason d \<noteq> Inl Panicked" "read_weight d \<noteq> Inl Panicked"
    using u by (auto simp: read_segment_def read_bounded_def read_weight_def rbind_Panicked invalid_def map_err_def split: if_splits sum.splits)
qed

lemma read_each_no_panic: "(\<And>i d. f i d \<noteq> Inl Panicked) \<Longrightarrow> read_each f start n d \<noteq> Inl Panicked"
  by (induction n arbitrary: start d) (auto simp: rbind_Panicked)

section \<open>The segment check\<close>

lemma local_ok_le: "local_ok n edges start segs \<Longrightarrow> start \<le> length edges"
  by (cases segs) auto

text \<open>A segment that reaches past the edges, after segments that tile the edges before it.\<close>

definition overruns :: "u64 \<Rightarrow> u64 list \<Rightarrow> nat \<Rightarrow> decoded_segment list \<Rightarrow> bool" where
  "overruns node_count edges start segs \<longleftrightarrow>
     (\<exists>before s rest. segs = before @ s # rest \<and> local_ok node_count (take (unat (ds_start s)) edges) start before
        \<and> unat (ds_start s) \<le> length edges \<and> unat (ds_source s) < unat node_count \<and> ds_count s \<noteq> 0
        \<and> length edges < unat (ds_start s) + unat (ds_count s))"

lemma check_local_panics:
  "start \<le> length edges \<Longrightarrow> fold_result (check_local_segment node_count edges) segs start = Inl Panicked \<longleftrightarrow> overruns node_count edges start segs"
proof (induction segs arbitrary: start)
  case Nil
  then show ?case by (simp add: overruns_def)
next
  case (Cons s ss)
  let ?here = "unat (ds_source s) < unat node_count \<and> unat (ds_start s) = start \<and> ds_count s \<noteq> 0"
  let ?n = "unat (ds_count s)"
  have panic: "check_local_segment node_count edges s start = Inl Panicked \<longleftrightarrow> ?here \<and> length edges < start + ?n"
    by (auto simp: check_local_segment_def Let_def slice_range_def rbind_Panicked invalid_def split: if_splits)
  have pass: "check_local_segment node_count edges s start = Inr m \<longleftrightarrow> ?here \<and> start + ?n \<le> length edges
      \<and> sorted_wrt (<) (take ?n (drop start edges)) \<and> m = start + ?n" for m
    by (auto simp: check_local_segment_def Let_def slice_range_def rbind_Inr_iff windows2_ascending split: if_splits)
  have first: "(\<exists>t rest. s # ss = [] @ t # rest \<and> local_ok node_count (take (unat (ds_start t)) edges) start []
        \<and> unat (ds_start t) \<le> length edges \<and> unat (ds_source t) < unat node_count \<and> ds_count t \<noteq> 0
        \<and> length edges < unat (ds_start t) + unat (ds_count t)) \<longleftrightarrow> ?here \<and> length edges < start + ?n"
    using Cons.prems by auto
  have more: "local_ok node_count (take t edges) start (s # before) \<longleftrightarrow> ?here \<and> start + ?n \<le> length edges
      \<and> sorted_wrt (<) (take ?n (drop start edges)) \<and> local_ok node_count (take t edges) (start + ?n) before" for t before
    using local_ok_le [of node_count "take t edges" "start + ?n" before] by (auto simp: drop_take min_def)
  have split: "overruns node_count edges start (s # ss) \<longleftrightarrow> ?here \<and> length edges < start + ?n
      \<or> ?here \<and> start + ?n \<le> length edges \<and> sorted_wrt (<) (take ?n (drop start edges)) \<and> overruns node_count edges (start + ?n) ss"
    (is "?L \<longleftrightarrow> ?R")
  proof
    assume ?L
    then obtain before t rest where b: "s # ss = before @ t # rest" "local_ok node_count (take (unat (ds_start t)) edges) start before"
        "unat (ds_start t) \<le> length edges" "unat (ds_source t) < unat node_count" "ds_count t \<noteq> 0"
        "length edges < unat (ds_start t) + unat (ds_count t)"
      unfolding overruns_def by blast
    show ?R
    proof (cases before)
      case Nil
      then show ?thesis using b by auto
    next
      case (Cons a list)
      then have l: "a = s" "ss = list @ t # rest" using b(1) by auto
      have "overruns node_count edges (start + ?n) ss" unfolding overruns_def using l(2) b(2-6) more Cons l(1) by blast
      then show ?thesis using b(2) more unfolding Cons l(1) by blast
    qed
  next
    assume ?R
    then show ?L
    proof
      assume "?here \<and> length edges < start + ?n"
      with first show ?L unfolding overruns_def by blast
    next
      assume *: "?here \<and> start + ?n \<le> length edges \<and> sorted_wrt (<) (take ?n (drop start edges)) \<and> overruns node_count edges (start + ?n) ss"
      then obtain before t rest where b: "ss = before @ t # rest" "local_ok node_count (take (unat (ds_start t)) edges) (start + ?n) before"
          "unat (ds_start t) \<le> length edges" "unat (ds_source t) < unat node_count" "ds_count t \<noteq> 0"
          "length edges < unat (ds_start t) + unat (ds_count t)"
        unfolding overruns_def by blast
      have "s # ss = (s # before) @ t # rest" using b(1) by simp
      moreover have "local_ok node_count (take (unat (ds_start t)) edges) start (s # before)" using * b(2) more by blast
      ultimately show ?L using b(3-6) unfolding overruns_def by blast
    qed
  qed
  show ?case unfolding fold_result.simps rbind_Panicked panic pass split using Cons.IH [of "start + ?n"] by auto
qed

section \<open>Readable columns\<close>

text \<open>A well-formed partition but for the segments, which need not tile the edges.\<close>

definition columns_ok :: "u64 \<Rightarrow> u64 \<Rightarrow> decoded_partition \<Rightarrow> bool" where
  "columns_ok node_count relation_count d \<longleftrightarrow>
     dp_segments d \<noteq> [] \<and> dp_edges d \<noteq> []
     \<and> length (dp_destinations d) = length (dp_edges d) \<and> length (dp_relations d) = length (dp_edges d)
     \<and> length (dp_weights d) = length (dp_edges d)
     \<and> (\<forall>v \<in> set (dp_destinations d). unat v < unat node_count)
     \<and> (\<forall>v \<in> set (dp_relations d). unat v < unat relation_count)
     \<and> (\<forall>v \<in> set (dp_weights d). base_weight_ok (BaseWeight v))"

lemma partition_ok_columns:
  "partition_ok node_count relation_count d \<longleftrightarrow> columns_ok node_count relation_count d \<and> local_ok node_count (dp_edges d) 0 (dp_segments d)"
  by (auto simp: partition_ok_def columns_ok_def)

text \<open>The check of the segments is all that is left once the columns have been read.\<close>

lemma decode_partition_columns:
  assumes "addressable (topology_of d)" "addressable (evidence_of d)" "describes p d" "dp_segments d \<noteq> []" "dp_edges d \<noteq> []"
    and "length (dp_destinations d) = length (dp_edges d)" "length (dp_relations d) = length (dp_edges d)" "length (dp_weights d) = length (dp_edges d)"
    and "\<forall>v \<in> set (dp_destinations d). unat v < unat node_count" "\<forall>v \<in> set (dp_relations d). unat v < unat relation_count"
    and "\<forall>v \<in> set (dp_weights d). base_weight_ok (BaseWeight v)"
  shows "decode_partition (topology_of d) (evidence_of d) p node_count relation_count =
    rbind (fold_result (check_local_segment node_count (dp_edges d)) (dp_segments d) 0) (\<lambda>stop.
      if stop \<noteq> length (dp_edges d) then invalid ''partition segments do not cover every edge'' else Inr d)"
proof -
  let ?n = "length (dp_edges d)" and ?k = "length (dp_segments d)"
  have n: "unat (pt_segment_count p) = ?k" "unat (pt_edge_count p) = ?n" using assms(3) by (simp_all add: describes_def)
  then have k: "word_of_nat ?k = pt_segment_count p" "word_of_nat ?n = pt_edge_count p" by (metis word_of_nat_unat)+
  have ne: "pt_segment_count p \<noteq> 0" "pt_edge_count p \<noteq> 0" using assms(4,5) n by auto
  have "read_each (\<lambda>_. decoder_u64) 0 ?n (dcr [] (evidence_of d)) = Inr (dp_edges d, dcr (evidence_of d) [])"
    using u64_field.each_written [of "[]" "dp_edges d" "[]" ?n] assms(2) by (simp add: evidence_of_def)
  moreover have "read_each (\<lambda>_. read_weight) 0 ?n (dcr pre (concat (map u32_to_le_bytes (dp_weights d))))
      = Inr (dp_weights d, dcr (pre @ concat (map u32_to_le_bytes (dp_weights d))) [])"
    if "addressable (pre @ concat (map u32_to_le_bytes (dp_weights d)))" for pre
    using weight_field.each_written [of pre "dp_weights d" "[]" ?n] assms(8,11) that by simp
  ultimately show ?thesis
    using assms
    by (simp add: decode_partition_def decoder_new_dcr topology_of_def fields_written k n ne
        segment_field.each_written bounded_field.each_written) (intro rbind_cong refl, simp)
qed

lemma decode_partition_panicked:
  assumes "addressable tb" "addressable ev" "decode_partition tb ev p node_count relation_count = Inl Panicked"
  shows "\<exists>d. tb = topology_of d \<and> ev = evidence_of d \<and> describes p d \<and> columns_ok node_count relation_count d
    \<and> fold_result (check_local_segment node_count (dp_edges d)) (dp_segments d) 0 = Inl Panicked"
proof -
  have np: "read_each (\<lambda>_. read_segment) i n d \<noteq> Inl Panicked" "read_each (\<lambda>_. read_bounded limit reason) i n d \<noteq> Inl Panicked"
    "read_each (\<lambda>_. read_weight) i n d \<noteq> Inl Panicked" "read_each (\<lambda>_. decoder_u64) i n d \<noteq> Inl Panicked" for i n d limit reason
    by (simp_all add: read_each_no_panic)
  obtain segments destinations relations weights edges where r:
      "tb = u32_to_le_bytes (pt_segment_count p) @ u64_to_le_bytes (pt_edge_count p) @ concat (map segment_bytes segments)
        @ concat (map u32_to_le_bytes destinations) @ concat (map u32_to_le_bytes relations) @ concat (map u32_to_le_bytes weights)"
      "ev = concat (map u64_to_le_bytes edges)" "pt_segment_count p \<noteq> 0" "pt_edge_count p \<noteq> 0"
      "length segments = unat (pt_segment_count p)" "length edges = unat (pt_edge_count p)" "length destinations = unat (pt_edge_count p)"
      "length relations = unat (pt_edge_count p)" "length weights = unat (pt_edge_count p)"
      "\<forall>v \<in> set destinations. unat v < unat node_count" "\<forall>v \<in> set relations. unat v < unat relation_count" "\<forall>v \<in> set weights. base_weight_ok (BaseWeight v)"
      "fold_result (check_local_segment node_count edges) segments 0 = Inl Panicked"
    using assms
    by (auto simp: decode_partition_def decoder_new_dcr rbind_Panicked np u64_field.read_iff u32_field.read_iff
        segment_field.each_iff bounded_field.each_iff weight_field.each_iff u64_field.each_iff invalid_def split: if_splits)
  have "segments \<noteq> []" "edges \<noteq> []" using r(3-6) by (auto simp: unat_eq_zero)
  with r show ?thesis
    by (intro exI [of _ "\<lparr>dp_segments = segments, dp_destinations = destinations, dp_relations = relations, dp_weights = weights, dp_edges = edges\<rparr>"])
      (simp add: topology_of_def evidence_of_def describes_def columns_ok_def)
qed

end
