(* ===== verification/Bundle_Properties.thy ===== *)
theory Bundle_Properties
  imports Bundle_Resident Bundle_Accepted Bundle_Panics
begin

text \<open>
  The properties of routing bundles: the compiler and the production reader agree with the
  resident compiler, the decoders accept exactly the encodings of well-formed values, and whatever
  opens is well formed and loads.
\<close>

section \<open>A concrete bundle\<close>

definition small_hash :: "bytes \<Rightarrow> bytes" where
  "small_hash bs = replicate 32 0"

definition small_config :: bundle_config where
  "small_config = bundle_config_default\<lparr>bc_maximum_total_bundle_bytes := U64_MAX\<rparr>"

lemma small_hash_length: "length (small_hash bs) = 32"
  by (simp add: small_hash_def)

lemma small_config_ok: "config_ok small_config"
  by (simp add: config_ok_def small_config_def bundle_config_default_def bundle_config_validate_def MIN_NONEMPTY_PARTITION_BYTES_def
      PARTITION_HEADER_BYTES_def SEGMENT_ENCODED_BYTES_def EDGE_TOPOLOGY_BYTES_def U32_MAX_def U64_MAX_def)

lemma record_list_length:
  assumes "record_list as_u64 ident m xs" "ran m \<subseteq> set ys"
  shows "length xs \<le> length ys"
proof -
  have "distinct (map (\<lambda>x. as_u64 (ident x)) xs)" using assms(1) by (simp add: record_list_def strict_sorted_iff)
  then have "distinct xs" by (auto simp: distinct_map)
  moreover have "set xs \<subseteq> ran m" using assms(1) by (auto simp: record_list_def ran_def)
  ultimately show ?thesis
    using assms(2) by (metis card_length card_mono distinct_card finite_set order_trans)
qed

lemma small_confirmed:
  "\<exists>records. read_confirmed_graph memory_rocks small_catalog = Inr records \<and> length (cg_nodes records) \<le> U32_MAX
     \<and> length (cg_relation_kinds records) \<le> U32_MAX \<and> length (cg_edges records) \<le> U32_MAX"
proof -
  obtain ns rs es where r: "all_nodes memory_rocks (ct_db small_catalog) = Inr ns" "all_relation_kinds memory_rocks (ct_db small_catalog) = Inr rs"
      "all_edges memory_rocks (ct_db small_catalog) = Inr es"
    using all_records_read [OF small_reading memory_rocks_reads] by blast
  note RL = all_records_listed(1) [OF small_reading r(1)] all_records_listed(2) [OF small_reading r(2)] all_records_listed(3) [OF small_reading r(3)]
  have "length ns \<le> length [small_node 1 ''a'', small_node 2 ''b'']" "length rs \<le> length [small_relation]" "length es \<le> length [small_edge]"
    by (rule record_list_length [OF RL(1)] record_list_length [OF RL(2)] record_list_length [OF RL(3)]; auto simp: small_graph_def ran_def split: if_splits)+
  moreover have "read_confirmed_graph memory_rocks small_catalog
      = Inr \<lparr>cg_nodes = sort_key nr_id ns, cg_relation_kinds = sort_key rr_id rs, cg_edges = sort_key er_id es\<rparr>"
    using r small_guard by (simp add: read_confirmed_graph_def catalog_write_guard_def small_catalog_def)
  ultimately show ?thesis by (auto simp: U32_MAX_def)
qed

lemma confirmed_compiles:
  assumes L: "confirmed_lists records edges"
    and "\<And>s n. reserve s n" "length (cg_nodes records) \<le> U32_MAX" "length (cg_relation_kinds records) \<le> U32_MAX" "length (cg_edges records) \<le> U32_MAX"
  shows "compile_routing_image reserve records = Inr (image_of records)"
proof -
  have "relation_rank records e \<le> U32_MAX" if "e \<in> set (cg_edges records)" for e
  proof -
    have "e \<in> set edges" using L that by (simp add: confirmed_lists_def)
    with L obtain r where "binary_search (relation_ids_of records) (er_relation_kind e) = Some r" "r < length (cg_relation_kinds records)"
      by (rule confirmed_ranked)
    then show ?thesis using assms(4) by (simp add: relation_rank_def)
  qed
  then have "records_fit records None"
    using assms(3-5) by (simp add: records_fit_def Let_def image_bytes_def U32_MAX_def U64_MAX_def)
  with confirmed_valid(1) [OF L] assms(2) show ?thesis unfolding compile_routing_image_def by (intro compile_complete)
qed

lemma catalog_image:
  assumes "rocks_sound api view" "rocks_reads api view" "catalog_holds view g cat" "read_confirmed_graph api cat = Inr records"
    and "\<And>s n. reserve s n" "length (cg_nodes records) \<le> U32_MAX" "length (cg_relation_kinds records) \<le> U32_MAX" "length (cg_edges records) \<le> U32_MAX"
  shows "compile_routing_image reserve records = Inr (image_of records)"
proof -
  from catalog_lists [OF assms(1-4)] obtain edges where "confirmed_lists records edges" by blast
  from confirmed_compiles [OF this assms(5-8)] show ?thesis .
qed

definition small_piece :: piece where
  "small_piece = \<lparr>pc_source = 0, pc_first = 0,
     pc_entries = [\<lparr>en_source = 0, en_destination = 1, en_relation = 0, en_weight = f32_one, en_edge = 1\<rparr>]\<rparr>"

abbreviation "small_files \<equiv> layout_files small_hash small_config [NodeId 1, NodeId 2, NodeId 3] [RelationId 1] [[small_piece]]"
abbreviation "small_bundle \<equiv> layout_bundle small_hash small_config [NodeId 1, NodeId 2, NodeId 3] [RelationId 1] [[small_piece]]"

lemma small_writable: "writable small_config [NodeId 1, NodeId 2, NodeId 3] [RelationId 1] [[small_piece]]"
proof -
  have "piece_ok small_piece" by (simp add: piece_ok_def small_piece_def)
  then have "pieces_ok ([] @ [small_piece])" by (intro pieces_snoc pieces_Nil) (simp_all add: small_piece_def count_source_def)
  moreover have "partition_size [small_piece] \<le> bc_hard_maximum_partition_topology_bytes small_config"
    by (simp add: partition_size_def small_piece_def small_config_def bundle_config_default_def)
  ultimately show ?thesis
    using small_config_ok by (simp add: writable_def layout_ok_def) (simp add: small_piece_def U32_MAX_def base_weight_ok_def f32_one_def less_node_id_def)
qed

lemma small_opens: "open_routing_bundle small_hash (\<lambda>_ _. True) no_faults small_files = Inr small_bundle"
  by (rule layout_opens [OF small_hash_length small_writable]) simp

lemma small_addressable: "map_of small_files name = Some bs \<Longrightarrow> addressable bs"
proof -
  assume "map_of small_files name = Some bs"
  then have "length bs \<in> set (map (length \<circ> snd) small_files)" by (force dest: map_of_SomeD)
  then have le: "length bs \<le> layout_total small_hash small_config [NodeId 1, NodeId 2, NodeId 3] [RelationId 1] [[small_piece]]"
    unfolding layout_total_def by (rule member_le_sum_list) simp
  have "layout_total small_hash small_config [NodeId 1, NodeId 2, NodeId 3] [RelationId 1] [[small_piece]] \<le> U64_MAX"
    using layout_total_checked [of small_hash, OF small_hash_length small_writable]
    by (auto simp: checked_total_def bind_eq_Some_conv checked_add_Some_iff)
  with le show ?thesis by (simp add: addressable_def)
qed

section \<open>Compiling\<close>

text \<open>
  C9: A bundle holds the image. For a well-formed catalog within the format's 32-bit counts,
  \<open>compile_bundle\<close> writes a bundle that \<open>open_bundle\<close> accepts with the manifest it returned, and
  loading it with \<open>to_resident_image\<close> yields exactly the routing image that the resident compiler
  builds from the same confirmed records; so routing over either gives the same results. The only
  other outcome, when neither the disk nor an allocation fails, is that the bundle would exceed the
  configured total size, which is reported with the size it needs. Two bounds are assumed that
  \<open>BundleConfig::validate\<close> and the format do not impose: the hard maximum partition size
  (\<open>config_ok\<close>) and the number of confirmed edges are at most \<open>u32::MAX\<close>.
\<close>

theorem bundle_holds_image:
  assumes "rocks_sound api view" "rocks_reads api view" "catalog_holds view g cat" "read_confirmed_graph api cat = Inr records"
    and "\<And>bs. length (hash bs) = 32" "\<And>s n. reserve s n"
    and "config_ok config" "existing = None \<or> existing = Some []" "length (cg_nodes records) \<le> U32_MAX"
    and "length (cg_relation_kinds records) \<le> U32_MAX" "length (cg_edges records) \<le> U32_MAX"
  shows "\<exists>img. compile_routing_image reserve records = Inr img \<and>
    ((\<exists>m metrics files b. compile_bundle api hash reserve no_faults (ct_db cat) existing config = Inr (m, metrics, files) \<and>
        open_routing_bundle hash reserve no_faults files = Inr b \<and> rb_manifest b = m \<and>
        to_resident_image hash no_faults files fault_default b = Inr img) \<or>
     (\<exists>required. bc_maximum_total_bundle_bytes config < required \<and> required \<le> U64_MAX \<and>
        compile_bundle api hash reserve no_faults (ct_db cat) existing config
          = Inl (Failed (BundleLimit ''total bytes'' required (bc_maximum_total_bundle_bytes config)))))"
proof -
  let ?N = "node_ids_of records" and ?R = "relation_ids_of records"
  obtain lay mt where w: "writable config ?N ?R lay" and img: "resident_of ?N ?R (entries_of (concat lay)) = image_of records"
    and c: "compile_bundle api hash reserve no_faults (ct_db cat) existing config =
      (if layout_total hash config ?N ?R lay > bc_maximum_total_bundle_bytes config
       then Inl (Failed (BundleLimit ''total bytes'' (layout_total hash config ?N ?R lay) (bc_maximum_total_bundle_bytes config)))
       else Inr (layout_manifest hash config ?N ?R lay, mt, layout_files hash config ?N ?R lay))"
    using catalog_compiled [of api view g cat records hash reserve config existing, OF assms] by blast
  have "layout_total hash config ?N ?R lay \<le> U64_MAX"
    using layout_total_checked [of hash config ?N ?R lay, OF assms(5) w] by (auto simp: checked_total_def bind_eq_Some_conv checked_add_Some_iff)
  moreover have "open_routing_bundle hash reserve no_faults (layout_files hash config ?N ?R lay) = Inr (layout_bundle hash config ?N ?R lay)"
    using assms(5) w assms(6) by (rule layout_opens)
  moreover have "rb_manifest (layout_bundle hash config ?N ?R lay) = layout_manifest hash config ?N ?R lay" by (simp add: layout_bundle_def)
  moreover have "compile_routing_image reserve records = Inr (image_of records)"
    by (rule catalog_image [OF assms(1-4,6,9-11)])
  ultimately show ?thesis
    using c layout_resident [OF w, of hash] unfolding img by (cases "layout_total hash config ?N ?R lay > bc_maximum_total_bundle_bytes config") auto
qed

theorem bundle_holds_image_witness:
  "\<exists>records img m metrics files b. read_confirmed_graph memory_rocks small_catalog = Inr records \<and>
     compile_routing_image (\<lambda>_ _. True) records = Inr img \<and>
     compile_bundle memory_rocks small_hash (\<lambda>_ _. True) no_faults (ct_db small_catalog) None small_config = Inr (m, metrics, files) \<and>
     open_routing_bundle small_hash (\<lambda>_ _. True) no_faults files = Inr b \<and> rb_manifest b = m \<and>
     to_resident_image small_hash no_faults files fault_default b = Inr img"
proof -
  obtain records where r: "read_confirmed_graph memory_rocks small_catalog = Inr records" "length (cg_nodes records) \<le> U32_MAX"
      "length (cg_relation_kinds records) \<le> U32_MAX" "length (cg_edges records) \<le> U32_MAX"
    using small_confirmed by blast
  have "bc_maximum_total_bundle_bytes small_config = U64_MAX" by (simp add: small_config_def)
  with bundle_holds_image [of memory_rocks "\<lambda>db. db" small_graph small_catalog records small_hash "\<lambda>_ _. True" small_config None,
      OF memory_rocks_sound memory_rocks_reads small_holds r(1) small_hash_length TrueI small_config_ok _ r(2-4)]
  show ?thesis using r(1) by (auto simp: not_less [symmetric])
qed

section \<open>Decoding\<close>

text \<open>
  C24: The manifest decoder accepts exactly what the encoder writes: decoding returns a manifest if
  and only if the bytes are its encoding, its policies are the two this build knows, its partition
  identifiers are dense, and the partition table can be allocated. Truncated, extended or altered
  bytes, other element widths and unknown policies are refused.
\<close>

theorem manifest_decode_iff:
  assumes "length bs \<le> U64_MAX"
  shows "manifest_decode reserve bs = Inr m \<longleftrightarrow>
    manifest_ok m \<and> manifest_encode m = Inr bs \<and> reserve ''partitions'' (length (bm_partitions m))"
  using manifest_decode_exact assms by (simp add: addressable_def)

theorem manifest_decode_iff_witness:
  "\<exists>bs m. length (bm_partitions m) = 1 \<and> manifest_encode m = Inr bs \<and> manifest_decode (\<lambda>_ _. True) bs = Inr m"
proof -
  let ?m = "layout_manifest small_hash small_config [NodeId 1, NodeId 2, NodeId 3] [RelationId 1] [[small_piece]]"
  have "length (manifest_layout ?m) \<le> U64_MAX"
    using small_addressable [of "''manifest.bin''"] by (simp add: addressable_def)
  from manifest_decode_iff [OF this, of "\<lambda>_ _. True" ?m]
    layout_manifest_read [of small_hash, OF small_hash_length small_writable, of "\<lambda>_ _. True"]
  show ?thesis by (intro exI [of _ "manifest_layout ?m"] exI [of _ ?m]) (simp add: layout_manifest_def)
qed

text \<open>
  C23: The partition decoder accepts exactly the encodings of well-formed partitions whose segment
  and edge counts are the declared ones: columns of one length, destinations and relation indexes
  within the counts, canonical weights, and segments that tile the edges with ascending identifiers.
  What is decoded is determined by the bytes, and re-encoding it gives the bytes back.
\<close>

theorem decode_partition_iff:
  assumes "length tb \<le> U64_MAX" "length ev \<le> U64_MAX"
  shows "decode_partition tb ev p node_count relation_count = Inr d \<longleftrightarrow>
    tb = topology_of d \<and> ev = evidence_of d \<and> describes p d \<and> partition_ok node_count relation_count d"
  using decode_partition_exact assms by (simp add: addressable_def)

theorem decode_partition_iff_witness:
  "decode_partition (topology_of (decoded_of [small_piece])) (evidence_of (decoded_of [small_piece]))
     (descriptor_at small_hash [] [small_piece]) 3 1 = Inr (decoded_of [small_piece])"
proof -
  have "piece_ok small_piece" by (simp add: piece_ok_def small_piece_def)
  then have "partition_ok 3 1 (decoded_of [small_piece])"
    by (intro partition_ok_decoded) (auto simp: small_piece_def base_weight_ok_def U32_MAX_def f32_one_def)
  moreover have "describes (descriptor_at small_hash [] [small_piece]) (decoded_of [small_piece])"
    by (simp add: describes_def descriptor_at_def decoded_of_def small_piece_def)
  moreover have "length (topology_of (decoded_of [small_piece])) \<le> U64_MAX" "length (evidence_of (decoded_of [small_piece])) \<le> U64_MAX"
    by (simp_all add: partition_size_def small_piece_def U64_MAX_def)
  ultimately show ?thesis using decode_partition_iff by blast
qed

section \<open>Opening\<close>

text \<open>
  C18: What opens is well typed. Whatever the directory holds and whichever system calls fail, a
  bundle that \<open>open_bundle\<close> returns has a valid manifest, strictly ascending identity tables of the
  declared sizes, and three offset tables that start at zero, never decrease and end at the
  declared counts; every source's segments name that source and add up to its range of edges, and
  every partition's range has its declared number of edges.
\<close>

theorem opened_bundle_typed:
  assumes "open_routing_bundle hash reserve io dir = Inr b" "\<And>name bs. map_of dir name = Some bs \<Longrightarrow> length bs \<le> U64_MAX"
  shows "bundle_ok b"
  using opened_ok [OF assms(1)] assms(2) by (simp add: addressable_def)

theorem opened_bundle_typed_witness:
  "open_routing_bundle small_hash (\<lambda>_ _. True) no_faults small_files = Inr small_bundle \<and> bundle_ok small_bundle"
  using small_opens opened_bundle_typed [OF small_opens] small_addressable by (simp add: addressable_def)

text \<open>
  C19: What opens can be loaded. Every partition of an opened bundle, as long as the files stay as
  they are and no fault is injected for it, loads: its checksums hold, it decodes, and the decoded
  partition has the declared counts and every index within range. A corrupt partition is found when
  the bundle is opened, not when a route first touches it.
\<close>

theorem opened_partitions_load:
  assumes "open_routing_bundle hash reserve io dir = Inr b" "p \<in> set (bm_partitions (rb_manifest b))"
    and "fi_read_error_partition faults \<noteq> pt_id p" "fi_short_read_partition faults \<noteq> pt_id p"
  shows "\<exists>d. load_partition hash io dir faults b p = Inr d \<and> describes p d
    \<and> partition_ok (bm_node_count (rb_manifest b)) (bm_relation_kind_count (rb_manifest b)) d"
  using opened_loads [OF assms] .

theorem opened_partitions_load_witness:
  "\<exists>p d. p \<in> set (bm_partitions (rb_manifest small_bundle)) \<and> load_partition small_hash no_faults small_files fault_default small_bundle p = Inr d
    \<and> describes p d \<and> partition_ok 3 1 d"
proof -
  let ?p = "descriptor_at small_hash [] [small_piece]"
  have p: "?p \<in> set (bm_partitions (rb_manifest small_bundle))" "bm_node_count (rb_manifest small_bundle) = 3"
      "bm_relation_kind_count (rb_manifest small_bundle) = 1"
    by (simp_all add: layout_bundle_def layout_manifest_def layout_descriptors_def)
  have "fault_NONE \<noteq> pt_id ?p" by (simp add: fault_NONE_def descriptor_at_def)
  with opened_partitions_load [OF small_opens p(1), of fault_default] p show ?thesis by (auto simp: fault_default_def)
qed




section \<open>Scanning\<close>

text \<open>
  C26: The confirmed scan. On a well-formed catalog the three scans call the visitor once for every
  confirmed node, relation kind and edge, nodes and relation kinds in the order of their
  identifiers and edges ordered by source and then by edge identifier, and pass on what the visitor
  returns; the scan itself never fails while the database does not.
\<close>

theorem confirmed_scan_order:
  fixes visit_n :: "node_record \<Rightarrow> 'n \<Rightarrow> 'en + 'n" and visit_r :: "relation_record \<Rightarrow> 'r \<Rightarrow> 'er + 'r" and visit_e :: "edge_record \<Rightarrow> 'o \<Rightarrow> 'eo + 'o"
  assumes "rocks_sound api view" "rocks_reads api view" "catalog_holds view g cat" "read_confirmed_graph api cat = Inr records"
  shows "\<exists>edges. sorted_wrt edge_before edges \<and> set edges = set (cg_edges records) \<and>
    sorted_wrt (<) (map nr_id (cg_nodes records)) \<and> sorted_wrt (<) (map rr_id (cg_relation_kinds records)) \<and>
    for_each_node api (ct_db cat) visit_n s = map_err ScanVisitor (fold_result visit_n (cg_nodes records) s) \<and>
    for_each_relation_kind api (ct_db cat) visit_r t = map_err ScanVisitor (fold_result visit_r (cg_relation_kinds records) t) \<and>
    for_each_outgoing_edge api (ct_db cat) visit_e u = map_err ScanVisitor (fold_result visit_e edges u)"
proof -
  obtain edges where "confirmed_lists records edges
      \<and> (\<forall>(visit :: node_record \<Rightarrow> 'n \<Rightarrow> 'en + 'n) s. for_each_node api (ct_db cat) visit s = map_err ScanVisitor (fold_result visit (cg_nodes records) s))
      \<and> (\<forall>(visit :: relation_record \<Rightarrow> 'r \<Rightarrow> 'er + 'r) s. for_each_relation_kind api (ct_db cat) visit s
           = map_err ScanVisitor (fold_result visit (cg_relation_kinds records) s))
      \<and> (\<forall>(visit :: edge_record \<Rightarrow> 'o \<Rightarrow> 'eo + 'o) s. for_each_outgoing_edge api (ct_db cat) visit s = map_err ScanVisitor (fold_result visit edges s))"
    using catalog_lists [OF assms] by (elim exE)
  then show ?thesis by (intro exI [of _ edges]) (simp add: confirmed_lists_def)
qed

theorem confirmed_scan_order_witness:
  "\<exists>records. read_confirmed_graph memory_rocks small_catalog = Inr records \<and>
     for_each_node memory_rocks (ct_db small_catalog) (\<lambda>n ids. Inr (ids @ [nr_id n]) :: unit + node_id list) []
       = map_err ScanVisitor (fold_result (\<lambda>n ids. Inr (ids @ [nr_id n])) (cg_nodes records) [])"
proof -
  obtain records where "read_confirmed_graph memory_rocks small_catalog = Inr records" using small_confirmed by blast
  with confirmed_scan_order [OF memory_rocks_sound memory_rocks_reads small_holds this,
      where visit_n = "\<lambda>n ids. Inr (ids @ [nr_id n]) :: unit + node_id list" and s = "[]" and visit_r = "\<lambda>_ v. Inr v :: unit + unit" and t = "()"
      and visit_e = "\<lambda>_ v. Inr v :: unit + unit" and u = "()"]
  show ?thesis by blast
qed

end
