(* ===== verification/Partitioned_Properties.thy ===== *)
theory Partitioned_Properties
  imports Partitioned_Image Bundle_Properties Route_Properties
begin

text \<open>
  The properties of the host cache and of routing over a partitioned image: the accounting of the
  cache under every interleaving, what acquiring a partition returns, that every partition of an
  opened image can be served, and that routes over the partitions are the exact routes of the
  confirmed records.
\<close>

section \<open>Serving a partition\<close>

lemma limits_checked:
  assumes "open_shared reserve spawn b c = Inr h" "unat k < length (bm_partitions (rb_manifest b))" "limits_ok c"
  defines "m \<equiv> rb_manifest b"
  shows "h = cy_cache cache_system_new" "cache_admission m c k = Inr (partition_of m k, cost m k)"
    "staging_of (partition_of m k) \<le> hc_maximum_staging_bytes c" "0 < hc_maximum_entries c" "0 < hc_maximum_queued_reads c"
proof -
  have "partition_of m k \<in> set (bm_partitions m)" using assms(2) by (simp add: partition_of_def m_def)
  moreover obtain u where "fold_result (check_cache_limits c) (bm_partitions m) () = Inr u"
    using assms(1) by (auto simp: open_shared_def rbind_Inr_iff m_def split: if_splits)
  ultimately obtain v w where "check_cache_limits c (partition_of m k) v = Inr w" using fold_result_each by metis
  then show "cache_admission m c k = Inr (partition_of m k, cost m k)" "staging_of (partition_of m k) \<le> hc_maximum_staging_bytes c"
    using assms(2) by (auto simp: check_cache_limits_def rbind_Inr_iff admission_iff cost_def checked_mul_Some_iff mult.commute m_def split: if_splits)
  show "h = cy_cache cache_system_new" "0 < hc_maximum_entries c" "0 < hc_maximum_queued_reads c"
    using assms(1) by (auto simp: open_shared_def rbind_Inr_iff invalid_def cache_system_new_def split: if_splits)
qed

text \<open>From a new cache, a partition is ready after its read has been admitted, queued, taken by a
  worker and loaded.\<close>

lemma cache_loads:
  assumes adm: "cache_admission m c k = Inr (p, required)" and lim: "limits_ok c" and room: "staging_of p \<le> hc_maximum_staging_bytes c"
    and pos: "0 < hc_maximum_entries c" "0 < hc_maximum_queued_reads c"
  shows "\<exists>y. cache_reachable show_catalog m c data y \<and> cy_leases y = [] \<and> \<not> ho_lock_poisoned (cy_cache y) \<and> cs_poison (ho_state (cy_cache y)) = None
    \<and> (\<exists>t. btree_get (cs_entries (ho_state (cy_cache y))) k = Some (Ready (data k) (cost m k) t))"
proof -
  let ?step = "cache_step show_catalog m c data" and ?y0 = cache_system_new
  have p: "unat k < length (bm_partitions m)" "p = partition_of m k" "required = cost m k" "cost m k \<le> hc_maximum_bytes c"
    using adm by (simp_all add: admission_iff)
  have small: "cost m k \<le> U64_MAX" "staging_of p \<le> U64_MAX" "staging_of p < U64_MAX" using lim p(4) room by (auto simp: limits_ok_def cost_def p(2))
  obtain s1 where s1: "attempt_state c (\<lambda>k. k \<in> set (cy_leases ?y0)) k p required (ho_state (cy_cache ?y0)) = (Inr Submit, s1)"
      "cs_entries s1 = [(k, Loading)]" "cs_poison s1 = None"
    using small room pos p(3,4)
    by (simp add: attempt_state_def cache_system_new_def cache_state_new_def btree_get_def saturating_add_def evict.simps Let_def min_def U64_MAX_def)
  define h1 where "h1 = (cy_cache ?y0)\<lparr>ho_state := s1, ho_lock_poisoned := False\<rparr>"
  define y1 where "y1 = ?y0\<lparr>cy_cache := h1, cy_submitting := [k]\<rparr>"
  have "acquire_attempt c (\<lambda>k. k \<in> set (cy_leases ?y0)) k p required (cy_cache ?y0) = (Inr Submit, h1)"
    using s1(1) by (simp add: acquire_attempt_def cache_locked_def h1_def cache_system_new_def)
  from step_attempt [OF adm this, of show_catalog data] have steps1: "?step ?y0 y1" by (simp add: y1_def cache_system_new_def)
  define y2 where "y2 = ?y0\<lparr>cy_cache := h1, cy_queue := [k]\<rparr>"
  have steps2: "?step y1 y2" using step_submitted [of 0 y1 c show_catalog m data] pos(2) by (simp add: y1_def y2_def cache_system_new_def drop_nth_def)
  define y3 where "y3 = ?y0\<lparr>cy_cache := load_begin m k h1, cy_loading := [k]\<rparr>"
  have steps3: "?step y2 y3" using step_take [of y2 k "[]" show_catalog m c data] by (simp add: y2_def y3_def cache_system_new_def)
  define y4 where "y4 = ?y0\<lparr>cy_cache := load_end show_catalog m k (Inr (data k)) (load_begin m k h1)\<rparr>"
  have steps4: "?step y3 y4" using step_load [of 0 y3 "Inr (data k)" data show_catalog m c] by (simp add: y3_def y4_def cache_system_new_def drop_nth_def)
  have "cache_reachable show_catalog m c data y4" by (rule reach_step [OF reach_step [OF reach_two [of ?step, OF steps1 steps2] steps3] steps4])
  moreover have "get (bm_partitions m) (unat k) = Some p" using p by (simp add: get_def partition_of_def)
  then have "cy_leases y4 = [] \<and> \<not> ho_lock_poisoned (cy_cache y4) \<and> cs_poison (ho_state (cy_cache y4)) = None
      \<and> (\<exists>t. btree_get (cs_entries (ho_state (cy_cache y4))) k = Some (Ready (data k) (cost m k) t))"
    using s1(2,3) staging_saturates [OF p(4) lim]
    by (simp add: y4_def load_end_def load_begin_def cache_locked_def with_state_def h1_def cache_system_new_def Let_def btree_get_def p(2))
  ultimately show ?thesis by blast
qed

lemma ready_hits:
  assumes "\<not> ho_lock_poisoned h" "cs_poison (ho_state h) = None" "btree_get (cs_entries (ho_state h)) k = Some (Ready d b t)"
  shows "\<exists>h'. acquire_attempt c pinned k p required h = (Inr (Hit d), h')"
  using assms by (simp add: acquire_attempt_def cache_locked_def attempt_state_def Let_def)

lemma cache_served:
  assumes "cache_admission m c k = Inr (p, required)" "limits_ok c" "staging_of p \<le> hc_maximum_staging_bytes c"
    "0 < hc_maximum_entries c" "0 < hc_maximum_queued_reads c"
  shows "\<exists>rounds. list_all (observed_round show_catalog m c data) rounds \<and> \<not> list_ex round_cancelled rounds
    \<and> cache_acquire m c k rounds = Some (Inr (Some (data k)))"
proof -
  from cache_loads [OF assms, of show_catalog data] obtain y t where y: "cache_reachable show_catalog m c data y" "\<not> ho_lock_poisoned (cy_cache y)"
      "cs_poison (ho_state (cy_cache y)) = None" "btree_get (cs_entries (ho_state (cy_cache y))) k = Some (Ready (data k) (cost m k) t)"
    by blast
  let ?r = "\<lparr>ar_cancelled = False, ar_cache = cy_cache y, ar_pinned = (\<lambda>k. k \<in> set (cy_leases y)), ar_wait_poisoned = False,
    ar_coordinator_present = True, ar_enqueue = [], ar_cache_after = cy_cache y\<rparr>"
  obtain h where "acquire_attempt c (\<lambda>k. k \<in> set (cy_leases y)) k p required (cy_cache y) = (Inr (Hit (data k)), h)"
    using ready_hits [OF y(2-4)] by blast
  then have "cache_acquire m c k [?r] = Some (Inr (Some (data k)))" by (simp add: cache_acquire_def assms(1) acquire_round_def)
  moreover have "observed_round show_catalog m c data ?r" using y(1) unfolding observed_round_def by auto
  ultimately show ?thesis by (intro exI [of _ "[?r]"]) (simp add: round_cancelled_def)
qed

section \<open>The cache as a partition source\<close>

text \<open>A source that answers what \<^verbatim>\<open>acquire\<close> returns on the caches it finds in its rounds, and that
  sees a cancellation only when the caller has cancelled.\<close>

definition observed_source :: "(catalog_error \<Rightarrow> string) \<Rightarrow> bundle_manifest \<Rightarrow> host_cache_config \<Rightarrow> (u32 \<Rightarrow> decoded_partition) \<Rightarrow> partition_source \<Rightarrow> bool" where
  "observed_source show_catalog m c data acquire \<longleftrightarrow>
     (\<forall>env polls k. unat k < length (bm_partitions m) \<longrightarrow>
       (\<exists>rounds result polls'. list_all (observed_round show_catalog m c data) rounds
          \<and> (list_ex round_cancelled rounds \<longrightarrow> (\<exists>q. env_cancelled env q))
          \<and> cache_acquire m c k rounds = Some result \<and> acquire env polls k = rbind result (\<lambda>d. Inr (d, polls'))))"

lemma observed_delivers:
  assumes "observed_source show_catalog m c (\<lambda>k. ds ! unat k) acquire" "limits_ok c" "length ds = length (bm_partitions m)"
  shows "delivers acquire ds"
  unfolding delivers_def
proof (intro allI impI)
  fix env polls and k :: u32 assume "unat k < length ds"
  with assms(1,3) obtain rounds result polls' where r: "list_all (observed_round show_catalog m c (\<lambda>k. ds ! unat k)) rounds"
      "list_ex round_cancelled rounds \<longrightarrow> (\<exists>q. env_cancelled env q)" "cache_acquire m c k rounds = Some result"
      "acquire env polls k = rbind result (\<lambda>d. Inr (d, polls'))"
    unfolding observed_source_def by metis
  from acquire_outcome [OF assms(2) r(1,3)] r(2,4)
  show "ensures access_failed (\<lambda>(loaded, polls). case loaded of None \<Rightarrow> \<exists>q. env_cancelled env q | Some d \<Rightarrow> d = ds ! unat k) (acquire env polls k)"
    by (cases result) (auto simp: access_failed_def split: option.splits)
qed

section \<open>Answers over the records\<close>

text \<open>What the records say of one result: which of the four states it may have, and with which
  distance and path.\<close>

definition record_answer :: "environment \<Rightarrow> confirmed_graph_records \<Rightarrow> routing_request \<Rightarrow> completion_reason \<Rightarrow> destination_result \<Rightarrow> bool" where
  "record_answer env records request reason r \<longleftrightarrow>
     (let walk = f64_walk (record_edge records (rq_profile request)) (rq_origin request) (dr_destination r) in
      (dr_state r = MissingNode \<longleftrightarrow> dr_destination r \<notin> nr_id ` set (cg_nodes records))
      \<and> (case dr_state r of
            MissingNode \<Rightarrow> True
          | Unreachable \<Rightarrow> \<forall>l. \<not> walk l
          | Incomplete \<Rightarrow> reason = BudgetExhausted \<or> reason = Cancelled
          | Exact e \<Rightarrow> walk (xr_logical_distance e) \<and> (\<forall>l. walk l \<longrightarrow> xr_logical_distance e \<le> l)
              \<and> (case xr_path e of
                    None \<Rightarrow> rq_return_paths request \<longrightarrow> (\<exists>q. env_cancelled env q)
                  | Some p \<Rightarrow> rq_return_paths request \<and> (\<forall>s \<in> set (pa_steps p). step_of_record records (rq_profile request) s)
                      \<and> contiguous (rq_origin request) (pa_steps p) (dr_destination r)
                      \<and> pa_origin p = rq_origin request \<and> pa_destination p = dr_destination r
                      \<and> pa_logical_distance p = xr_logical_distance e \<and> sum_steps (pa_steps p) = Inr (xr_logical_distance e))))"

definition record_response :: "environment \<Rightarrow> confirmed_graph_records \<Rightarrow> routing_request \<Rightarrow> routing_response \<Rightarrow> bool" where
  "record_response env records request response \<longleftrightarrow>
     rq_origin request \<in> nr_id ` set (cg_nodes records) \<and> rs_origin response = rq_origin request
     \<and> map dr_destination (rs_results response) = rq_destinations request
     \<and> (\<forall>r \<in> set (rs_results response). record_answer env records request (rs_completion_reason response) r)
     \<and> (rs_completion_reason response = Cancelled \<longrightarrow> (\<exists>q. env_cancelled env q))
     \<and> (rs_completion_reason response = BudgetExhausted \<longrightarrow> rq_budget request = ExaminedEdges (rs_examined_edges response))"

text \<open>The errors of a route, justified by the records and by what the partition source reports.\<close>

definition record_failure :: "environment \<Rightarrow> confirmed_graph_records \<Rightarrow> routing_request \<Rightarrow> (routing_error fault \<Rightarrow> bool) \<Rightarrow> routing_error fault \<Rightarrow> bool" where
  "record_failure env records request reported e \<longleftrightarrow>
     e = Failed (MissingOrigin (rq_origin request)) \<and> rq_origin request \<notin> nr_id ` set (cg_nodes records)
     \<or> (\<exists>pe. e = Failed (InvalidProfile pe)
          \<and> (\<not> profile_matches (rq_profile request) (relation_ids_of records) \<or> (\<exists>s n. \<not> env_reserve env s n)))
     \<or> (\<exists>s n. e = Failed (RoutingAllocationFailed s) \<and> \<not> env_reserve env s n)
     \<or> reported e"

text \<open>Two results of the same destination, up to the choice among equally short paths and up to
  results that one of the searches left incomplete.\<close>

definition same_answer :: "destination_result \<Rightarrow> destination_result \<Rightarrow> bool" where
  "same_answer r r' \<longleftrightarrow> dr_destination r = dr_destination r'
     \<and> (case (dr_state r, dr_state r') of
           (Exact e, Exact e') \<Rightarrow> xr_logical_distance e = xr_logical_distance e'
         | (Incomplete, _) \<Rightarrow> True
         | (_, Incomplete) \<Rightarrow> True
         | (state, state') \<Rightarrow> state = state')"

lemma record_answers_agree:
  assumes "record_answer env records request reason r" "record_answer env' records request reason' r'" "dr_destination r = dr_destination r'"
  shows "same_answer r r'"
  using assms by (cases "dr_state r"; cases "dr_state r'") (auto simp: record_answer_def same_answer_def Let_def intro: antisym)

lemma record_responses_agree:
  assumes "record_response env records request response" "record_response env' records request response'"
  shows "list_all2 same_answer (rs_results response) (rs_results response')"
proof -
  have m: "map dr_destination (rs_results response) = map dr_destination (rs_results response')" using assms by (simp add: record_response_def)
  then have len: "length (rs_results response) = length (rs_results response')" by (metis length_map)
  have "same_answer (rs_results response ! i) (rs_results response' ! i)" if i: "i < length (rs_results response)" for i
  proof (rule record_answers_agree)
    show "record_answer env records request (rs_completion_reason response) (rs_results response ! i)"
      "record_answer env' records request (rs_completion_reason response') (rs_results response' ! i)"
      using assms i len by (simp_all add: record_response_def)
    show "dr_destination (rs_results response ! i) = dr_destination (rs_results response' ! i)"
      using arg_cong [OF m, of "\<lambda>ds. ds ! i"] i len by simp
  qed
  with len show ?thesis by (simp add: list_all2_conv_all_nth)
qed

text \<open>A response that is right for the graph of the image is right for the records, whichever
  topology with the image's node tables was searched.\<close>

lemma response_records:
  assumes r: "routable img records (rq_profile request)"
    and ids: "tp_dense_node_id T = image_dense_node_id img" "tp_external_node_id T = image_external_node_id img"
    and o: "image_dense_node_id img (rq_origin request) = Some origin"
    and ok: "response_ok (image_graph img (rq_profile request)) T env request origin (response, diagnostics)"
  shows "record_response env records request response"
proof -
  have comp: "compiled_from img records" using r by (simp add: routable_def)
  note known = image_dense_in_records [OF comp]
  have "record_answer env records request (rs_completion_reason response) d" if "d \<in> set (rs_results response)" for d
  proof (cases "image_dense_node_id img (dr_destination d)")
    case None
    then have "dr_state d = MissingNode" using ok that by (auto simp: response_ok_def result_ok_def ids)
    with None known show ?thesis by (simp add: record_answer_def)
  next
    case (Some x)
    have "result_ok (image_graph img (rq_profile request)) T env request origin (rs_completion_reason response) d"
      using ok that by (auto simp: response_ok_def)
    moreover have "dr_destination d \<in> nr_id ` set (cg_nodes records)" using Some known [of "dr_destination d"] by simp
    ultimately show ?thesis
      using traced_path [OF r o Some]
      by (auto simp: result_ok_def record_answer_def path_ok_def shortest_def ids Some image_walk_records [OF r o Some] Let_def
          split: destination_state.splits option.splits)
  qed
  with ok known [of "rq_origin request"] o show ?thesis by (auto simp: record_response_def response_ok_def)
qed

section \<open>Answers over partitions and answers over the image\<close>

lemma opened_partitioned:
  assumes "open_routing_bundle hash reserve io dir = Inr b" "\<And>name bs. map_of dir name = Some bs \<Longrightarrow> length bs \<le> U64_MAX"
    and "to_resident_image hash io dir faults b = Inr img" "valid_image img" "loads hash io dir faults b ds" "delivers acquire ds"
  shows "partitioned_ok \<lparr>pi_source = acquire, pi_bundle = b, pi_data = ds, pi_image = img\<rparr>"
    "chunked_dense_node_id b = image_dense_node_id img" "chunked_external_node_id b = image_external_node_id img" "length (rb_nodes b) = image_node_count img" "rb_relations b = im_confirmed_relation_ids img"
proof -
  have ok: "bundle_ok b" using opened_ok [OF assms(1)] assms(2) by (simp add: addressable_def)
  then have n: "length (rb_relations b) = unat (bm_relation_kind_count (rb_manifest b))" by (simp add: bundle_ok_def Let_def)
  obtain ds' where ds': "loads hash io dir faults b ds'" "lists_edges img (rb_relations b) (concat (map edges_of ds'))" "im_offsets img = rb_source_edge_offsets b"
      "im_dense_to_external img = rb_nodes b" "im_confirmed_relation_ids img = rb_relations b"
      "im_external_to_dense img = map (\<lambda>(dense, i). (i, DenseNodeId (word_of_nat dense))) (enumerate 0 (rb_nodes b))"
    using resident_lists [OF assms(3) n] by blast
  have "ds' = ds"
    using ds'(1) assms(5) unfolding loads_def
    by (intro nth_equalityI) (auto simp: list_all2_conv_all_nth)
  note img = ds'(2-6) [unfolded this]
  show nodes: "length (rb_nodes b) = image_node_count img" "rb_relations b = im_confirmed_relation_ids img" using img by (simp_all add: image_node_count_def)
  show "chunked_external_node_id b = image_external_node_id img"
    by (simp add: fun_eq_iff chunked_external_node_id_def image_external_node_id_def img(3))
  have fst: "map fst (im_external_to_dense img) = rb_nodes b" by (rule nth_equalityI) (simp_all add: img(5) nth_enumerate_eq)
  show "chunked_dense_node_id b = image_dense_node_id img"
  proof
    fix i
    show "chunked_dense_node_id b i = image_dense_node_id img i"
      unfolding chunked_dense_node_id_def image_dense_node_id_def fst
      by (cases "binary_search (rb_nodes b) i") (auto simp: img(5) nth_enumerate_eq dest: binary_search_SomeD)
  qed
  have L: "list_all2 describes (bm_partitions (rb_manifest b)) ds"
    using assms(5) load_partition_ok(1) unfolding loads_def by (rule list_all2_mono)
  have P: "list_all (partition_ok (bm_node_count (rb_manifest b)) (bm_relation_kind_count (rb_manifest b))) ds"
    using assms(5) load_partition_ok(2) unfolding loads_def by (force simp: list_all_length list_all2_conv_all_nth)
  have "length (concat (map edges_of ds)) < U64_MAX" using assms(4) img(1) by (auto simp: valid_image_def lists_edges_def)
  moreover have "length (rb_nodes b) \<le> U32_MAX" using assms(4) nodes(1) by (simp add: valid_image_def)
  ultimately show "partitioned_ok \<lparr>pi_source = acquire, pi_bundle = b, pi_data = ds, pi_image = img\<rparr>"
    using ok L P img(1,2) assms(6) by (simp add: partitioned_ok_def)
qed

section \<open>A small partitioned image\<close>

text \<open>The records of the routing example, listed in the order of their identifiers.\<close>

definition listed_records :: confirmed_graph_records where
  "listed_records = example_records\<lparr>cg_nodes := [example_node 1, example_node 2, example_node 3]\<rparr>"

lemma listed_lists: "confirmed_lists listed_records (cg_edges listed_records)"
  by (simp add: confirmed_lists_def listed_records_def example_records_def example_node_def base_weight_ok_def f32_one_def
      relation_record_new_def relation_record_with_usage_def less_node_id_def)

lemma listed_ids: "node_ids_of listed_records = [NodeId 1, NodeId 2, NodeId 3]" "relation_ids_of listed_records = [RelationId 1]"
  using confirmed_ids [OF listed_lists]
  by (simp_all add: listed_records_def example_records_def example_node_def relation_record_new_def relation_record_with_usage_def)

lemma listed_image: "to_resident_image small_hash no_faults small_files fault_default small_bundle = Inr (image_of listed_records)"
proof -
  let ?N = "[NodeId 1, NodeId 2, NodeId 3]"
  have s: "sorted ?N" by (simp add: less_eq_node_id_def)
  have "binary_search ?N (NodeId 1) = Some 0" "binary_search ?N (NodeId 2) = Some 1" "binary_search [RelationId 1] (RelationId 1) = Some 0"
    using binary_search_nth [of ?N 0] binary_search_nth [of ?N 1] binary_search_nth [of "[RelationId 1]" 0] s by simp_all
  then have "map (ranked ?N [RelationId 1]) (cg_edges listed_records) = entries_of (concat [[small_piece]])"
    by (simp add: ranked_def listed_records_def example_records_def small_piece_def)
  moreover have "length (cg_nodes listed_records) \<le> U32_MAX" "length (cg_relation_kinds listed_records) \<le> U32_MAX"
    by (simp_all add: listed_records_def example_records_def U32_MAX_def)
  ultimately show ?thesis
    using resident_image [OF listed_lists] layout_resident [OF small_writable, of small_hash] by (simp add: listed_ids)
qed

lemma small_partitions:
  "bm_partitions (rb_manifest small_bundle) = [descriptor_at small_hash [] [small_piece]]"
  by (simp add: layout_bundle_def layout_manifest_def layout_descriptors_def)

lemma small_staging: "staging_of (descriptor_at small_hash [] [small_piece]) = 56"
  by (simp add: staging_of_def descriptor_at_def partition_size_def small_piece_def)

lemma default_limits: "limits_ok host_cache_config_default"
  by (simp add: limits_ok_def host_cache_config_default_def U64_MAX_def)

lemma small_shared: "open_shared (\<lambda>_ _. True) (\<lambda>_. None) small_bundle host_cache_config_default = Inr (cy_cache cache_system_new)"
proof -
  have "coordinator_start (\<lambda>_ _. True) (\<lambda>_. None) 2 = Inr 2" by (simp add: coordinator_start_def upt_rec)
  then show ?thesis
    by (simp add: open_shared_def small_partitions check_cache_limits_def small_staging host_cache_config_default_def checked_mul_def U64_MAX_def
        cache_system_new_def)
qed

lemma small_index: "unat (k :: u32) < length (bm_partitions (rb_manifest small_bundle)) \<longleftrightarrow> k = 0"
  unfolding small_partitions by (simp add: unat_eq_zero)

lemma small_loads: "loads small_hash no_faults small_files fault_default small_bundle [decoded_of [small_piece]]"
  using partition_loaded [OF small_writable, of 0 small_hash] by (simp add: loads_def small_partitions layout_descriptors_def)

lemma small_served:
  "unat k < length (bm_partitions (rb_manifest small_bundle)) \<Longrightarrow>
     \<exists>rounds. list_all (observed_round show_catalog (rb_manifest small_bundle) host_cache_config_default data) rounds \<and> \<not> list_ex round_cancelled rounds
       \<and> cache_acquire (rb_manifest small_bundle) host_cache_config_default k rounds = Some (Inr (Some (data k)))"
  using cache_served [OF limits_checked(2) [OF small_shared _ default_limits] default_limits limits_checked(3-5) [OF small_shared _ default_limits]] by blast

abbreviation "small_manifest \<equiv> rb_manifest small_bundle"
abbreviation "small_data \<equiv> \<lambda>k :: u32. [decoded_of [small_piece]] ! unat k"

definition small_source :: partition_source where
  "small_source env polls k = Inr (Some (small_data k), polls)"

lemma small_observed: "observed_source show_catalog small_manifest host_cache_config_default small_data small_source"
  unfolding observed_source_def
proof (intro allI impI)
  fix env polls and k :: u32 assume "unat k < length (bm_partitions small_manifest)"
  from small_served [OF this, of show_catalog small_data] obtain rounds where
      "list_all (observed_round show_catalog small_manifest host_cache_config_default small_data) rounds" "\<not> list_ex round_cancelled rounds"
      "cache_acquire small_manifest host_cache_config_default k rounds = Some (Inr (Some (small_data k)))"
    by blast
  then show "\<exists>rounds result polls'. list_all (observed_round show_catalog small_manifest host_cache_config_default small_data) rounds
          \<and> (list_ex round_cancelled rounds \<longrightarrow> (\<exists>q. env_cancelled env q))
          \<and> cache_acquire small_manifest host_cache_config_default k rounds = Some result \<and> small_source env polls k = rbind result (\<lambda>d. Inr (d, polls'))"
    by (intro exI [of _ rounds] exI [of _ "Inr (Some (small_data k))"] exI [of _ polls]) (simp add: small_source_def)
qed

section \<open>Properties\<close>

text \<open>
  C20: The cache under every interleaving. In every state that the callers, the queue and the I/O
  workers can reach, the bytes in use are those of the entries and stay within the limit, the
  staging bytes are those of the reads under way and stay within theirs, the number of entries and
  the depth of the queue are bounded, an entry is marked as loading exactly while its read is under
  way, and no partition is read twice at once; a ready entry holds the partition that is on disk, a
  leased partition is never evicted, and no operation has panicked with the cache locked. The
  limits are assumed to satisfy \<open>limits_ok\<close>: the byte limit is at most half of the u64 range and the
  staging limit is below \<open>u64::MAX\<close>. \<open>open_shared\<close> accepts larger limits, for which the unchecked
  additions of the cache could wrap.
\<close>

theorem cache_accounting:
  assumes "limits_ok c" "reach cache_system_new (cache_step show_catalog m c data) y"
  shows "let s = ho_state (cy_cache y) in
    \<not> ho_lock_poisoned (cy_cache y)
    \<and> cs_bytes s = (\<Sum>e \<leftarrow> cs_entries s. entry_cost m e) \<and> cs_bytes s \<le> hc_maximum_bytes c
    \<and> cs_staging_bytes s = (\<Sum>k \<leftarrow> reads_of y. staging_of (partition_of m k)) \<and> cs_staging_bytes s \<le> hc_maximum_staging_bytes c
    \<and> length (cs_entries s) \<le> hc_maximum_entries c
    \<and> cs_queue_depth s \<le> hc_maximum_queued_reads c + hc_io_worker_count c
    \<and> distinct (reads_of y) \<and> (\<forall>k. btree_get (cs_entries s) k = Some Loading \<longleftrightarrow> k \<in> set (reads_of y))
    \<and> (\<forall>k d b t. btree_get (cs_entries s) k = Some (Ready d b t) \<longrightarrow> d = data k)
    \<and> (\<forall>k \<in> set (cy_leases y). \<exists>b t. btree_get (cs_entries s) k = Some (Ready (data k) b t))"
proof -
  define s where "s = ho_state (cy_cache y)"
  have inv: "cache_inv m c data y" using host_cache.reach_inv assms(1,2) by blast
  then have E: "entries_inv m data (set (reads_of y)) (set (cy_leases y)) (cs_entries s) (cs_bytes s)"
    by (simp add: cache_inv_def Let_def s_def)
  have "\<exists>b t. btree_get (cs_entries s) k = Some (Ready (data k) b t)" if "k \<in> set (cy_leases y)" for k
    using entries_invD(4) [OF E that] entries_invD(3) [OF E] by metis
  with inv entries_invD(2,3,5) [OF E] show ?thesis unfolding cache_inv_def Let_def s_def [symmetric] by blast
qed

theorem cache_accounting_witness:
  "\<exists>y t. reach cache_system_new (cache_step (\<lambda>_. ''store error'') small_manifest host_cache_config_default small_data) y
     \<and> btree_get (cs_entries (ho_state (cy_cache y))) 0 = Some (Ready (small_data 0) 112 t)
     \<and> cs_bytes (ho_state (cy_cache y)) = (\<Sum>e \<leftarrow> cs_entries (ho_state (cy_cache y)). entry_cost small_manifest e)
     \<and> cs_bytes (ho_state (cy_cache y)) \<le> hc_maximum_bytes host_cache_config_default"
proof -
  have k: "unat (0 :: u32) < length (bm_partitions small_manifest)" by (simp add: small_partitions)
  note L = limits_checked [OF small_shared k default_limits]
  have cost: "cost small_manifest 0 = 112" by (simp add: cost_def partition_of_def small_partitions small_staging)
  from cache_loads [OF L(2) default_limits L(3-5), of "\<lambda>_. ''store error''" small_data] obtain y t where
      y: "cache_reachable (\<lambda>_. ''store error'') small_manifest host_cache_config_default small_data y"
        "btree_get (cs_entries (ho_state (cy_cache y))) 0 = Some (Ready (small_data 0) 112 t)"
    unfolding cost by blast
  from cache_accounting [OF default_limits y(1)] y show ?thesis unfolding Let_def by blast
qed

text \<open>
  C21: What acquiring a partition returns. However the rounds of the waiting loop interleave with the
  other threads, \<open>acquire\<close> never panics: it returns the partition that is on disk, or nothing, and
  that only when the caller has cancelled, or an access error. The limits are assumed to satisfy
  \<open>limits_ok\<close>, as for the accounting above.
\<close>

theorem cache_acquire_sound:
  assumes "limits_ok c" "list_all (observed_round show_catalog m c data) rounds" "cache_acquire m c i rounds = Some result"
  shows "case result of
      Inr (Some d) \<Rightarrow> d = data i
    | Inr None \<Rightarrow> list_ex round_cancelled rounds
    | Inl e \<Rightarrow> \<exists>reason. e = Failed (ImageAccess reason)"
  using acquire_outcome [OF assms] by (cases result) (auto split: option.splits)

theorem cache_acquire_sound_witness:
  "\<exists>rounds d. limits_ok host_cache_config_default
     \<and> list_all (observed_round (\<lambda>_. ''store error'') small_manifest host_cache_config_default small_data) rounds
     \<and> cache_acquire small_manifest host_cache_config_default 0 rounds = Some (Inr (Some d)) \<and> d = decoded_of [small_piece]"
proof -
  have "unat (0 :: u32) < length (bm_partitions small_manifest)" by (simp add: small_partitions)
  from small_served [OF this, of "\<lambda>_. ''store error''" small_data] obtain rounds where
      r: "list_all (observed_round (\<lambda>_. ''store error'') small_manifest host_cache_config_default small_data) rounds"
        "cache_acquire small_manifest host_cache_config_default 0 rounds = Some (Inr (Some (small_data 0)))"
    by blast
  from cache_acquire_sound [OF default_limits r] r default_limits show ?thesis by (auto intro!: exI [of _ rounds])
qed

text \<open>
  C22: An opened image can serve each of its partitions. When \<open>open_shared\<close> has accepted the limits,
  and they satisfy \<open>limits_ok\<close> (which it does not check), admission refuses no partition of the bundle, and from the cache it returns, steps lead to a state
  in which the next attempt hits: the read is admitted, queued, taken and loaded.
\<close>

theorem opened_cache_serves:
  assumes "open_shared reserve spawn b c = Inr h" "limits_ok c" "unat k < length (bm_partitions (rb_manifest b))"
  shows "h = cy_cache cache_system_new \<and> (\<exists>p required y. cache_admission (rb_manifest b) c k = Inr (p, required)
    \<and> reach cache_system_new (cache_step show_catalog (rb_manifest b) c data) y
    \<and> (\<forall>pinned. \<exists>h'. acquire_attempt c pinned k p required (cy_cache y) = (Inr (Hit (data k)), h')))"
proof -
  note L = limits_checked [OF assms(1,3,2)]
  from cache_loads [OF L(2) assms(2) L(3,4,5), of show_catalog data] obtain y t where
      "cache_reachable show_catalog (rb_manifest b) c data y" "\<not> ho_lock_poisoned (cy_cache y)" "cs_poison (ho_state (cy_cache y)) = None"
      "btree_get (cs_entries (ho_state (cy_cache y))) k = Some (Ready (data k) (cost (rb_manifest b) k) t)"
    by blast
  with L(1,2) ready_hits show ?thesis by blast
qed

theorem opened_cache_serves_witness:
  "\<exists>p required y h. cache_admission small_manifest host_cache_config_default 0 = Inr (p, required)
     \<and> reach cache_system_new (cache_step (\<lambda>_. ''store error'') small_manifest host_cache_config_default small_data) y
     \<and> acquire_attempt host_cache_config_default (\<lambda>_. False) 0 p required (cy_cache y) = (Inr (Hit (decoded_of [small_piece])), h)"
proof -
  have "unat (0 :: u32) < length (bm_partitions small_manifest)" by (simp add: small_partitions)
  from opened_cache_serves [OF small_shared default_limits this, of "\<lambda>_. ''store error''" small_data] show ?thesis by simp blast
qed

text \<open>The search over the partitions, against the records.\<close>

lemma partitioned_search:
  assumes ok: "partitioned_ok \<lparr>pi_source = acquire, pi_bundle = b, pi_data = ds, pi_image = img\<rparr>" and comp: "compiled_from img records"
    and ids: "chunked_dense_node_id b = image_dense_node_id img" "chunked_external_node_id b = image_external_node_id img"
      "length (rb_nodes b) = image_node_count img" "rb_relations b = im_confirmed_relation_ids img"
    and mult: "profile_multipliers_ok (rq_profile request)"
  shows "ensures (record_failure env records request (source_failed acquire)) (\<lambda>(response, _). record_response env records request response)
    (route_topology_controlled env (chunked_topology acquire b) request)"
proof -
  let ?T = "chunked_topology acquire b" and ?g = "image_graph img (rq_profile request)"
  have T: "partitioned_methods \<lparr>pi_source = acquire, pi_bundle = b, pi_data = ds, pi_image = img\<rparr> = ?T" by (simp add: partitioned_methods_def)
  have rel: "im_confirmed_relation_ids img = relation_ids_of records" using compiled_facts(3) [OF comp] by (simp add: image_of_fields)
  have g: "topology_graph ?T (image_out img) (Routing_Image.entry_edge img) (rq_profile request) = ?g"
    by (simp add: topology_graph_def ids(3,4))
  have R: "ensures (route_error env ?T request (source_failed acquire)) (\<lambda>result. \<exists>origin. image_dense_node_id img (rq_origin request) = Some origin
      \<and> response_ok ?g ?T env request origin result) (route_topology_controlled env ?T request)"
    using chunked.route_correct [OF ok mult, where env = env] by (simp add: T g ids(1))
  show ?thesis
  proof (cases "route_topology_controlled env ?T request")
    case (Inl e)
    then have "route_error env ?T request (source_failed acquire) e" using R by simp
    with Inl show ?thesis
      using image_dense_in_records [OF comp, of "rq_origin request"]
      by (auto simp: route_error_def expected_error_def record_failure_def ids rel)
  next
    case (Inr result)
    obtain response diagnostics origin where res: "result = (response, diagnostics)" and o: "image_dense_node_id img (rq_origin request) = Some origin"
        "response_ok ?g ?T env request origin (response, diagnostics)"
      using R Inr by (cases result) auto
    have s: "sorted (rb_relations b)" "distinct (rb_relations b)" using chunked.relations_sorted [OF ok] chunked.relations_distinct [OF ok] by (simp_all add: T)
    obtain p where "pack_relation_ids (env_reserve env) (rq_profile request) (rb_relations b) = Inr p"
      using Inr by (auto simp: route_topology_controlled_def elim!: rbind_InrE)
    from pack_relation_ids_Inr [OF s this] have "routable img records (rq_profile request)" using comp mult by (simp add: routable_def ids(4))
    from response_records [OF this _ _ o] ids(1,2) Inr res show ?thesis by simp
  qed
qed

text \<open>
  C10: Routing over partitions answers as the records dictate and as the resident image does. For a
  bundle whose resident image is the one compiled from the records, routing over its partitions
  through the host cache returns one result per destination: missing exactly when no confirmed node
  has its identifier, unreachable only when no walk of enabled edges reaches it, exact with the
  length of a shortest such walk and a path of record edges that sums to it, and incomplete only when
  the budget ran out or the caller cancelled. It fails only because the origin is not a confirmed
  node, the profile does not cover the relation kinds, a reservation was refused or the partition
  source reported an access error. Routing over the resident image gives, for every destination
  that both settle, the same state and distance. Which partitions were cached, evicted or being
  loaded does not matter. The limits of the cache are assumed to satisfy \<open>limits_ok\<close>.
\<close>

theorem partitioned_route_exact:
  assumes "open_routing_bundle hash reserve io dir = Inr b" "\<And>name bs. map_of dir name = Some bs \<Longrightarrow> length bs \<le> U64_MAX"
    and "to_resident_image hash io dir faults b = Inr img" "compile_routing_image reserve' records = Inr img"
    and "loads hash io dir faults b ds" "limits_ok c" "observed_source show_catalog (rb_manifest b) c (\<lambda>k. ds ! unat k) acquire"
    and "reach cache_system_new (cache_step show_catalog (rb_manifest b) c data) y" "reach cache_system_new (cache_step show_catalog (rb_manifest b) c data) z"
    and "profile_multipliers_ok (rq_profile request)"
  shows "case route_partitioned_controlled env acquire c (pinned, cy_cache y) (pinned', cy_cache z) b request of
      Inl e \<Rightarrow> record_failure env records request (source_failed acquire) e
    | Inr (response, _) \<Rightarrow> record_response env records request response
        \<and> (\<forall>env' response' diagnostics. route_controlled env' img request = Inr (response', diagnostics) \<longrightarrow>
             list_all2 same_answer (rs_results response) (rs_results response'))"
proof -
  have comp: "compiled_from img records" using assms(4) compile_compiled_from by (simp add: compile_routing_image_def)
  have len: "length ds = length (bm_partitions (rb_manifest b))" using assms(5) list_all2_lengthD by (fastforce simp: loads_def)
  note O = opened_partitioned [OF assms(1) _ assms(3) compiled_facts(1) [OF comp] assms(5) observed_delivers [OF assms(7,6) len]]
  have R: "ensures (record_failure env records request (source_failed acquire)) (\<lambda>(response, _). record_response env records request response)
      (route_topology_controlled env (chunked_topology acquire b) request)"
    by (rule partitioned_search [OF O(1) comp O(2-5) assms(10)]) (use assms(2) in blast)+
  have resident: "record_response env' records request response'" if "route_controlled env' img request = Inr (response', diagnostics)" for env' response' diagnostics
    using routed_response [OF comp assms(10) that] response_records [of img records request "image_topology img" _ env' response' diagnostics] by auto
  have "\<exists>v. host_cache_snapshot c pinned (cy_cache w) = Inr v" if "cache_reachable show_catalog (rb_manifest b) c data w" for w pinned
    using host_cache.reach_inv [OF that] assms(6) by (simp add: cache_inv_def Let_def host_cache_snapshot_def)
  then obtain v v' where v: "host_cache_snapshot c pinned (cy_cache y) = Inr v" "host_cache_snapshot c pinned' (cy_cache z) = Inr v'"
    using assms(8,9) by blast
  show ?thesis
    using R v record_responses_agree [OF _ resident]
    by (cases "route_topology_controlled env (chunked_topology acquire b) request")
      (auto simp: route_partitioned_controlled_def split: prod.splits)
qed

theorem partitioned_route_exact_witness:
  "\<exists>response diagnostics r e p u v.
     route_partitioned_controlled example_env small_source host_cache_config_default (\<lambda>_. False, cy_cache cache_system_new)
       (\<lambda>_. False, cy_cache cache_system_new) small_bundle example_request = Inr (response, diagnostics)
     \<and> rs_results response = [r, u, v] \<and> record_response example_env listed_records example_request response
     \<and> dr_destination r = NodeId 2 \<and> dr_state r = Exact e \<and> xr_path e = Some p
     \<and> dr_destination u = NodeId 3 \<and> dr_state u = Unreachable \<and> dr_destination v = NodeId 4 \<and> dr_state v = MissingNode"
proof -
  have c: "compile_routing_image (\<lambda>_ _. True) listed_records = Inr (image_of listed_records)"
    by (rule confirmed_compiles [OF listed_lists]) (simp_all add: listed_records_def example_records_def U32_MAX_def)
  have small: "\<And>name bs. map_of small_files name = Some bs \<Longrightarrow> length bs \<le> U64_MAX" using small_addressable by (simp add: addressable_def)
  have match: "profile_matches (rq_profile example_request) (relation_ids_of listed_records)" using example_profile(2) by (simp add: listed_ids example_ids)
  have nodes: "nr_id ` set (cg_nodes listed_records) = {NodeId 1, NodeId 2, NodeId 3}" by (auto simp: listed_records_def example_node_def)
  have E: "record_edge listed_records = record_edge example_records" by (simp add: record_edge_def fun_eq_iff listed_records_def)
  have req: "rq_origin example_request = NodeId 1" "rq_return_paths example_request" "rq_budget example_request = Unlimited"
      "rq_destinations example_request = [NodeId 2, NodeId 3, NodeId 4]" by (simp_all add: example_request_def)
  have "\<not> record_failure example_env listed_records example_request (source_failed small_source) e" for e
    using match by (simp add: record_failure_def nodes req source_failed_def small_source_def) (simp add: example_env_def)
  moreover have "case route_partitioned_controlled example_env small_source host_cache_config_default (\<lambda>_. False, cy_cache cache_system_new)
        (\<lambda>_. False, cy_cache cache_system_new) small_bundle example_request of
      Inl e \<Rightarrow> record_failure example_env listed_records example_request (source_failed small_source) e
    | Inr (response, _) \<Rightarrow> record_response example_env listed_records example_request response"
    using partitioned_route_exact [OF small_opens small listed_image c small_loads default_limits small_observed reach_init reach_init example_profile(1),
      where env = example_env and pinned = "\<lambda>_. False" and pinned' = "\<lambda>_. False"]
    by (auto split: sum.splits)
  ultimately obtain response diagnostics where res: "route_partitioned_controlled example_env small_source host_cache_config_default (\<lambda>_. False, cy_cache cache_system_new)
       (\<lambda>_. False, cy_cache cache_system_new) small_bundle example_request = Inr (response, diagnostics)"
      and ok: "record_response example_env listed_records example_request response"
    by (auto split: sum.splits)
  obtain r u v where rs: "rs_results response = [r, u, v]" "dr_destination r = NodeId 2" "dr_destination u = NodeId 3" "dr_destination v = NodeId 4"
    using ok by (auto simp: record_response_def req map_eq_Cons_conv)
  have reason: "rs_completion_reason response \<noteq> Cancelled" "rs_completion_reason response \<noteq> BudgetExhausted"
    using ok by (auto simp: record_response_def req example_env_def)
  have A: "record_answer example_env listed_records example_request (rs_completion_reason response) d" if "d \<in> {r, u, v}" for d
    using ok rs that by (auto simp: record_response_def)
  have "\<exists>e p. dr_state r = Exact e \<and> xr_path e = Some p"
    using A [of r] example_walks(1) reason rs(2)
    by (cases "dr_state r") (auto simp: record_answer_def nodes req E Let_def example_env_def split: option.splits)
  moreover have "dr_state u = Unreachable"
    using A [of u] example_walks(2) reason rs(3)
    by (cases "dr_state u") (auto simp: record_answer_def nodes req E Let_def)
  moreover have "dr_state v = MissingNode" using A [of v] rs(4) by (simp add: record_answer_def nodes Let_def)
  ultimately show ?thesis using res ok rs by blast
qed

end
