(* ===== verification/Spec2Isabelle.thy ===== *)
theory Spec2Isabelle
  imports Route_Properties Store_Codec Subgraph_Model Engine_Admission Engine_Lifecycle Engine_Retirement
    Catalog_Properties Partitioned_Properties
begin

text \<open>
  PathHydra is a graph store with exact shortest-path routing. This development models its Rust
  crates and proves that the catalog keeps a well-formed graph, that the images compiled from it
  hold that graph, and that routes found over an image are exact shortest paths of the confirmed
  records.

  \<^bold>\<open>The program and its parts.\<close> A caller submits \<^emph>\<open>candidates\<close> (provisional nodes, relation kinds and
  edges) to the catalog, which keeps them in RocksDB (\<^verbatim>\<open>pathhydra-store\<close>) and, on confirmation,
  promotes a closed selection of them to confirmed records in one atomic batch. The confirmed
  records are compiled (\<^verbatim>\<open>pathhydra-routing\<close>) into a compressed-sparse-row image, in memory
  (\<^verbatim>\<open>compile.rs\<close>, \<^verbatim>\<open>image.rs\<close>) or on disk as a bundle of checksummed files (\<^verbatim>\<open>bundle/\<close>), whose edge
  partitions a host cache loads on demand. The search of \<^verbatim>\<open>cpu.rs\<close> runs over either. The engine
  (\<^verbatim>\<open>pathhydra-engine\<close>) admits routes, drains them before it shuts down, retires the bundles it has
  replaced, and joins route evidence with the current records (hydration). A caller collects
  routed paths in a \<^verbatim>\<open>Subgraph\<close> (\<^verbatim>\<open>pathhydra-subgraph\<close>).

  \<^bold>\<open>Shared theories.\<close>
  \<^item> \<open>Prelude\<close>: machine integers, results (\<open>'e + 'a\<close>, the error on the left), the bind \<open>rbind\<close> of the
    \<^verbatim>\<open>?\<close> operator, \<open>fold_result\<close> for loops that may fail, checked arithmetic, slices.
  \<^item> \<open>Ordered_Collections\<close>: \<^verbatim>\<open>BTreeMap\<close>, \<^verbatim>\<open>BTreeSet\<close> and sorted vectors as lists in key order.
  \<^item> \<open>Transitions\<close>: the locale \<open>invariant_system\<close>, reachability and invariants of the step systems.
  \<^item> \<open>Float_Bits\<close>: binary32 and binary64 on bit patterns, exact widening, addition and
    multiplication rounded to nearest, ties to even.
  \<^item> \<open>Core_Model\<close>: \<^verbatim>\<open>pathhydra-core\<close> (identifiers, base weights, names, payloads, records).

  \<^bold>\<open>The store.\<close>
  \<^item> \<open>Store_Codec\<close> (\<^verbatim>\<open>codec.rs\<close>): every key and record format. A decoder accepts exactly the
    encodings of well-formed records.
  \<^item> \<open>Store_Types\<close>: column families, the errors of the store, RocksDB as the parameter \<open>rocks_api\<close>
    (point reads, iterators, atomic write batches).
  \<^item> \<open>Catalog_Reads\<close>, \<open>Catalog_Insert\<close>, \<open>Catalog_Confirm\<close>, \<open>Catalog_Remove\<close>, \<open>Catalog_Open\<close>,
    \<open>Confirmed_Scan\<close> (\<^verbatim>\<open>catalog.rs\<close>): one definition per function of the catalog.
  \<^item> \<open>Catalog_Layout\<close>, \<open>Catalog_Graph\<close>: the abstraction. A database represents a \<open>graph\<close>; a catalog
    is well formed when its database represents a well-formed graph (counts, references,
    counters) and its name indexes are those of the graph.
  \<^item> \<open>Catalog_Steps\<close>, \<open>Catalog_Scans\<close>, \<open>Catalog_Adjacency\<close>, \<open>Catalog_Insertion\<close>, \<open>Catalog_Selection\<close>,
    \<open>Catalog_Resolution\<close>, \<open>Catalog_Promotion\<close>, \<open>Catalog_Confirmation\<close>, \<open>Catalog_Confirmed\<close>,
    \<open>Catalog_Removal\<close>: every operation keeps the invariant, and what it does to the graph.
  \<^item> \<open>Catalog_Failures\<close>, \<open>Catalog_Total\<close>: a failed mutation changes nothing; removals of what exists
    succeed when the database does.
  \<^item> \<open>Catalog_Opened\<close>, \<open>Catalog_Validated\<close>, \<open>Catalog_Reopen\<close>: opening accepts exactly the databases
    that represent a well-formed graph.
  \<^item> \<open>Catalog_Contract\<close>, \<open>Catalog_Example\<close>, \<open>Catalog_Properties\<close>: the abstract specification of the
    mutations, a concrete catalog, the properties.

  \<^bold>\<open>Routing.\<close>
  \<^item> \<open>Routing_Types\<close> (\<^verbatim>\<open>error.rs\<close>, \<^verbatim>\<open>profile.rs\<close>, \<^verbatim>\<open>request.rs\<close>), \<open>Routing_Image\<close> (\<^verbatim>\<open>image.rs\<close>),
    \<open>Routing_Compile\<close> (\<^verbatim>\<open>compile.rs\<close>: the image holds exactly the confirmed edges, in order of
    source and identifier).
  \<^item> \<open>Cpu_Routing\<close> (\<^verbatim>\<open>cpu.rs\<close>): the search over an abstract topology (the trait \<^verbatim>\<open>RoutingTopology\<close>), with
    its frontier, path reconstruction and limits.
  \<^item> \<open>Search_Labels\<close>, \<open>Search_Invariant\<close>, \<open>Route_Correctness\<close>: label-setting search for a weight
    addition that is monotone and inflationary but, being rounded, not associative; the
    invariant of the program; the whole of \<^verbatim>\<open>route_topology_controlled\<close>.
  \<^item> \<open>Topology_Contract\<close>: the locale \<open>topology\<close>, in which routing is proved correct once. It is
    interpreted on the resident image and, in \<open>Partitioned_Image\<close>, on the partitioned one.
  \<^item> \<open>Route_Properties\<close>: routes are exact shortest paths over the confirmed records.

  \<^bold>\<open>Bundles.\<close>
  \<^item> \<open>Bundle_Codec\<close> (\<^verbatim>\<open>codec.rs\<close>, \<^verbatim>\<open>layout.rs\<close>, \<^verbatim>\<open>manifest.rs\<close>), \<open>Bundle_Compiler\<close> (\<^verbatim>\<open>compiler.rs\<close>),
    \<open>Bundle_Reader\<close> (\<^verbatim>\<open>reader.rs\<close>: opening and loading).
  \<^item> \<open>Bundle_Layout\<close>, \<open>Bundle_Build\<close>, \<open>Bundle_Opening\<close>, \<open>Bundle_Resident\<close>, \<open>Bundle_Accepted\<close>,
    \<open>Bundle_Panics\<close>, \<open>Bundle_Properties\<close>: what the compiler writes is accepted and yields the image of
    the resident compiler; whatever is accepted is well formed; when the partition decoder panics.
  \<^item> \<open>Host_Cache\<close>, \<open>Cache_Invariant\<close> (\<^verbatim>\<open>reader.rs\<close>: \<^verbatim>\<open>HostCache\<close>, the I/O coordinator, snapshots, leases):
    the cache under every interleaving of its critical sections; its byte accounting.
  \<^item> \<open>Partitioned_Image\<close>, \<open>Partitioned_Properties\<close>: routes over partitions are the exact routes.

  \<^bold>\<open>Callers.\<close>
  \<^item> \<open>Subgraph_Model\<close> (\<^verbatim>\<open>pathhydra-subgraph\<close>): closed under endpoints; failed operations keep it.
  \<^item> \<open>Engine_Admission\<close> (\<^verbatim>\<open>admission.rs\<close>), \<open>Engine_Lifecycle\<close> (\<^verbatim>\<open>lifecycle.rs\<close>), \<open>Engine_Retirement\<close>
    (\<^verbatim>\<open>retirement.rs\<close>): controllers guarded by one lock each, as step systems over the locale
    \<open>invariant_system\<close>.
  This theory holds the properties that join routing and subgraphs.

  \<^bold>\<open>Parameters.\<close> Code that is not part of the repository is an argument of the definitions that use
  it. RocksDB is a \<open>rocks_api\<close>; \<open>rocks_sound\<close> states what is documented of it (iteration in key
  order, atomic batches), failures of single calls stay possible unless a property says that reads
  or writes are available. Allocation is a function \<open>reserve\<close> that may refuse any request; the
  iteration order of a \<^verbatim>\<open>HashMap\<close> is an arbitrary permutation; BLAKE3 is the function \<open>hash\<close> with
  32-byte results; file-system calls may fail at every call through the faults of the compiler and
  the reader. Threads are the order of steps: each critical section of the host cache, of admission
  and of the lifecycle is one step. \<^verbatim>\<open>retire\<close> (\<^verbatim>\<open>retirement.rs\<close>), which releases its lock between its
  reap, its admission check and the rounds of its wait, is one step when it is not interrupted and
  the corresponding separate steps when it is. Lock
  poisoning is an outcome of every operation that takes a lock.

  \<^bold>\<open>Bounds and fuel.\<close> \<^verbatim>\<open>usize\<close> has 64 bits; counters are \<open>nat\<close> with the checks of the code written out,
  and words where the code stores them. Counts of nodes and relation kinds are bounded by the
  \<^verbatim>\<open>u32\<close> limits that the compiler itself checks. Three bounds are assumed beyond the code's own checks:
  \<open>config_ok\<close> bounds the hard maximum partition size of a bundle by \<^verbatim>\<open>u32::MAX\<close>, the property that a
  bundle holds the image bounds its edges by the same, and \<open>limits_ok\<close> bounds the byte limit of the
  host cache by half of the u64 range and its staging limit below \<^verbatim>\<open>u64::MAX\<close>. The search, the scans and the compilers are total
  functions with termination proofs, so no fuel is needed; waiting loops run over the list of
  wake-ups or rounds that a thread observes.

  \<^bold>\<open>Not modelled.\<close>
  \<^item> \<^verbatim>\<open>pathhydra-cuda\<close> and the CUDA glue of the engine: device kernels, driver calls and their memory
    are not Rust semantics, and the feature is off by default.
  \<^item> \<^verbatim>\<open>pathhydra-api\<close>: transport objects, their conversion and their wire format repeat the types of
    the crates below field by field; \<^verbatim>\<open>pathhydra-admin\<close>, \<^verbatim>\<open>pathhydra-bench\<close>: command lines, output
    formatting and workloads.
  \<^item> \<^verbatim>\<open>operations.rs\<close> (backups and checkpoints are calls into RocksDB and directory copies),
    \<^verbatim>\<open>options.rs\<close>, \<^verbatim>\<open>paths.rs\<close>, \<^verbatim>\<open>metrics.rs\<close> of the store.
  \<^item> The composition in \<^verbatim>\<open>engine.rs\<close> with publication, hydration and health reporting: it spawns the
    threads and calls, in turn, the components modelled here.
  \<^item> The generator of synthetic bundles in \<^verbatim>\<open>compiler.rs\<close>; durations, metric counters and display texts,
    unless another value embeds them.
\<close>

section \<open>Routed paths in subgraphs\<close>

text \<open>A subgraph whose edges all are confirmed edges with their recorded endpoints.\<close>

definition drawn_from :: "confirmed_graph_records \<Rightarrow> subgraph \<Rightarrow> bool" where
  "drawn_from records sg \<longleftrightarrow>
     (\<forall>edge endpoints. snd (contents sg) edge = Some endpoints \<longrightarrow>
        (\<exists>e \<in> set (cg_edges records). er_id e = edge \<and> (er_source e, er_destination e) = endpoints))"

lemma edge_record_unique:
  "valid_records records \<Longrightarrow> e \<in> set (cg_edges records) \<Longrightarrow> e' \<in> set (cg_edges records) \<Longrightarrow>
     er_id e = er_id e' \<Longrightarrow> e = e'"
  by (auto simp: valid_records_def distinct_map dest: inj_onD)

lemma step_record_agrees:
  assumes "valid_records records" "drawn_from records sg" "step_of_record records profile step"
  shows "agrees (contents sg) (step_entry step)"
proof -
  from assms(3) obtain e where e: "e \<in> set (cg_edges records)" "ps_edge_id step = er_id e"
      "ps_source step = er_source e" "ps_destination step = er_destination e"
    by (auto simp: step_of_record_def)
  have "q = (er_source e, er_destination e)" if "snd (contents sg) (er_id e) = Some q" for q
    using assms(1,2) that e(1) edge_record_unique by (fastforce simp: drawn_from_def simp del: split_paired_All)
  with e show ?thesis by (simp add: agrees_iff step_entry_def)
qed

lemma step_entries_recorded:
  assumes "\<forall>s \<in> set steps. step_of_record records profile s" "map_of (rev (map step_entry steps)) edge = Some p"
  shows "\<exists>e \<in> set (cg_edges records). er_id e = edge \<and> (er_source e, er_destination e) = p"
  using map_of_SomeD [OF assms(2)] assms(1) by (fastforce simp: step_entry_def step_of_record_def)

text \<open>
  C35: A path that routing reports can always be added to a subgraph drawn from the same
  confirmed records: its steps are contiguous and agree with the edges already there, and the
  result is again drawn from the records. Subgraphs therefore collect any number of routed
  paths without a conflict.
\<close>

theorem routed_paths_collect:
  assumes "compile_routing_image_impl reserve records limit = Inr img"
    and "profile_multipliers_ok (rq_profile request)"
    and "route_controlled env img request = Inr (response, diagnostics)"
    and "r \<in> set (rs_results response)" "dr_state r = Exact e" "xr_path e = Some p"
    and "subgraph_built sg" "drawn_from records sg"
  shows "fst (add_path p sg) = Inr () \<and> drawn_from records (snd (add_path p sg))
    \<and> (\<forall>s \<in> set (pa_steps p). contains_edge (snd (add_path p sg)) (ps_edge_id s))"
proof -
  note comp = compile_compiled_from [OF assms(1)]
  note valid = compiled_facts(2) [OF comp] and path = routed_path [OF comp assms(2-6)]
  have fits: "path_fits p sg"
    using path step_record_agrees [OF valid assms(8)] by (auto simp: path_fits_def)
  note contents = add_path_contents [OF subgraph_built_inv [OF assms(7)] fits]
  have "drawn_from records (snd (add_path p sg))"
    unfolding drawn_from_def contents
    using assms(8) step_entries_recorded path by (auto simp: drawn_from_def map_add_Some_iff simp del: split_paired_All)
  moreover have "contains_edge (snd (add_path p sg)) (ps_edge_id s)" if "s \<in> set (pa_steps p)" for s
  proof -
    have "map_of (rev (map step_entry (pa_steps p))) (ps_edge_id s) \<noteq> None"
      using imageI [OF that, of "\<lambda>s. fst (step_entry s)"]
      by (simp add: map_of_eq_None_iff image_image) (simp add: step_entry_def)
    then have "snd (contents (snd (add_path p sg))) (ps_edge_id s) \<noteq> None"
      by (auto simp: contents map_add_def split: option.splits)
    then show ?thesis by (simp add: contains_edge_def contents_eq)
  qed
  ultimately show ?thesis using add_path_ok [OF fits] by simp
qed

theorem routed_paths_collect_witness:
  "\<exists>response diagnostics r e p. route_controlled example_env example_image example_request = Inr (response, diagnostics)
     \<and> r \<in> set (rs_results response) \<and> dr_state r = Exact e \<and> xr_path e = Some p \<and> pa_destination p = NodeId 2
     \<and> drawn_from example_records subgraph_new \<and> fst (add_path p subgraph_new) = Inr ()
     \<and> drawn_from example_records (snd (add_path p subgraph_new))"
proof -
  obtain response diagnostics r e p u where "example_outcome response diagnostics r e p u"
    by (rule example_route)
  note x = example_outcomeD [OF this]
  have d: "drawn_from example_records subgraph_new" by (simp add: drawn_from_def contents_def subgraph_new_def)
  have "compile_routing_image_impl grant_all example_records None = Inr example_image" using example_compiles [of None] by simp
  note y = routed_paths_collect [OF this example_profile(1) x(1,2,4,5) built_new d]
  have "pa_destination p = NodeId 2"
    using routed_path [OF compile_compiled_from [OF example_compiles [of None]] example_profile(1) x(1,2,4,5)] x(3)
    by simp
  with x(1,2,4,5) d y show ?thesis by blast
qed

end
